(* ===== verification/Prelude.thy ===== *)
theory Prelude
  imports Main "HOL-Library.Word"
begin

unbundle bit_operations_syntax

text \<open>
  Shared vocabulary of the development: the C integer types as words, the C idiom of a
  pointer passed together with a length (\<open>cbuf\<close>), \<open>memcpy\<close> into a buffer
  (\<open>mem_write\<close>), little-endian loads and stores, the libusb return codes as an error
  datatype, and the list, word and result lemmas that the component theories share.

  Conventions used everywhere:
  \<^item> \<open>uint8_t\<close>, \<open>uint16_t\<close>, \<open>uint32_t\<close>, \<open>uint64_t\<close> are words of that width, so that
    wrap-around is kept; \<open>size_t\<close> values are \<open>nat\<close> (they are lengths and offsets of objects
    that exist in memory, so they never wrap);
  \<^item> a function that returns an \<open>int\<close> status and fills out-parameters returns a sum: \<open>Inl\<close>
    the error code, \<open>Inr\<close> the values of the out-parameters.
\<close>

type_synonym u8 = "8 word"
type_synonym u16 = "16 word"
type_synonym u32 = "32 word"
type_synonym u64 = "64 word"

named_theorems byte_simps
  \<open>little-endian splitting and joining\<close>
named_theorems buf_simps
  \<open>buffers: lengths, reads and writes\<close>

section \<open>libusb return codes\<close>

text \<open>
  The negative return codes of libusb that the sources use or pass through. A C \<open>rc < 0\<close>
  is \<open>Inl\<close>; \<open>LIBUSB_SUCCESS\<close> is \<open>Inr\<close>.
\<close>

datatype usb_error =
    LIBUSB_ERROR_IO
  | LIBUSB_ERROR_INVALID_PARAM
  | LIBUSB_ERROR_ACCESS
  | LIBUSB_ERROR_NO_DEVICE
  | LIBUSB_ERROR_NOT_FOUND
  | LIBUSB_ERROR_BUSY
  | LIBUSB_ERROR_TIMEOUT
  | LIBUSB_ERROR_OVERFLOW
  | LIBUSB_ERROR_PIPE
  | LIBUSB_ERROR_INTERRUPTED
  | LIBUSB_ERROR_NO_MEM
  | LIBUSB_ERROR_NOT_SUPPORTED
  | LIBUSB_ERROR_OTHER

text \<open>Sequencing of fallible calls: the first error stops the function.\<close>

definition bind_result :: "'e + 'a \<Rightarrow> ('a \<Rightarrow> 'e + 'b) \<Rightarrow> 'e + 'b" where
  "bind_result r f = (case r of Inl e \<Rightarrow> Inl e | Inr a \<Rightarrow> f a)"

lemma bind_result_simps [simp]:
  "bind_result (Inl e) f = Inl e"
  "bind_result (Inr a) f = f a"
  by (simp_all add: bind_result_def)

lemma bind_result_Inr [simp]:
  "bind_result r f = Inr b \<longleftrightarrow> (\<exists>a. r = Inr a \<and> f a = Inr b)"
  by (cases r) auto

lemma isl_eq_Inl: "isl r \<longleftrightarrow> (\<exists>e. r = Inl e)"
  by (cases r) auto

lemma not_isl_eq_Inr: "\<not> isl r \<longleftrightarrow> (\<exists>a. r = Inr a)"
  by (cases r) auto

section \<open>Pointers with a length\<close>

text \<open>
  A C parameter pair \<open>(const uint8_t *p, size_t n)\<close>: either a null pointer with the length the
  caller passed along, or a buffer of exactly \<open>n\<close> readable (or writable) bytes.
\<close>

datatype cbuf = Null nat | Buf "u8 list"

fun is_null :: "cbuf \<Rightarrow> bool" where
  "is_null (Null n) = True"
| "is_null (Buf bs) = False"

fun cbuf_len :: "cbuf \<Rightarrow> nat" where
  "cbuf_len (Null n) = n"
| "cbuf_len (Buf bs) = length bs"

fun cbuf_bytes :: "cbuf \<Rightarrow> u8 list" where
  "cbuf_bytes (Null n) = []"
| "cbuf_bytes (Buf bs) = bs"

lemma not_null_Buf: "\<not> is_null b \<Longrightarrow> \<exists>bs. b = Buf bs"
  by (cases b) auto

lemma length_cbuf_bytes:
  "\<not> (is_null b \<and> cbuf_len b \<noteq> 0) \<Longrightarrow> length (cbuf_bytes b) = cbuf_len b"
  by (cases b) auto

text \<open>\<open>memcpy(buffer + offset, bytes, length bytes)\<close>, within the buffer's bounds.\<close>

definition mem_write :: "'a list \<Rightarrow> nat \<Rightarrow> 'a list \<Rightarrow> 'a list" where
  "mem_write buf off bs = take off buf @ bs @ drop (off + length bs) buf"

lemma length_mem_write [buf_simps, simp]:
  "off + length bs \<le> length buf \<Longrightarrow> length (mem_write buf off bs) = length buf"
  by (simp add: mem_write_def)

lemma mem_write_nil [simp]: "mem_write buf off [] = buf"
  by (simp add: mem_write_def)

lemma mem_write_at_prefix:
  "length p = off \<Longrightarrow> length bs \<le> length rest \<Longrightarrow>
   mem_write (p @ rest) off bs = p @ bs @ drop (length bs) rest"
  by (simp add: mem_write_def)

lemma mem_write_outside:
  "off + length bs \<le> length buf \<Longrightarrow> i < off \<or> off + length bs \<le> i \<Longrightarrow> i < length buf \<Longrightarrow>
   mem_write buf off bs ! i = buf ! i"
  by (auto simp: mem_write_def nth_append)

lemma mem_write_inside:
  "off + length bs \<le> length buf \<Longrightarrow> i < length bs \<Longrightarrow> mem_write buf off bs ! (off + i) = bs ! i"
  by (simp add: mem_write_def nth_append)

lemma drop_split_nth:
  "i + k < length xs \<Longrightarrow> drop i xs = take k (drop i xs) @ xs ! (i + k) # drop (Suc (i + k)) xs"
  using id_take_nth_drop [of k "drop i xs"] by (simp add: add.commute)

lemma length_filter_mono:
  "(\<And>x. x \<in> set xs \<Longrightarrow> P x \<Longrightarrow> Q x) \<Longrightarrow> length (filter P xs) \<le> length (filter Q xs)"
  by (induction xs) (auto simp: le_SucI)

section \<open>Little-endian integers\<close>

definition lo8 :: "u16 \<Rightarrow> u8" where
  "lo8 x = ucast (x AND 0xff)"

definition hi8 :: "u16 \<Rightarrow> u8" where
  "hi8 x = ucast (drop_bit 8 x)"

definition le16 :: "u8 \<Rightarrow> u8 \<Rightarrow> u16" where
  "le16 a b = ucast a OR push_bit 8 (ucast b)"

definition le32 :: "u8 \<Rightarrow> u8 \<Rightarrow> u8 \<Rightarrow> u8 \<Rightarrow> u32" where
  "le32 a b c d = ucast a OR push_bit 8 (ucast b) OR push_bit 16 (ucast c) OR push_bit 24 (ucast d)"

definition bytes32 :: "u32 \<Rightarrow> u8 list" where
  "bytes32 v = [ucast v, ucast (drop_bit 8 v), ucast (drop_bit 16 v), ucast (drop_bit 24 v)]"

text \<open>A byte has no bit past the seventh; \<open>0xff\<close> is the mask of the low eight bits.\<close>

lemma mask8_u16: "(0xff :: u16) = mask 8"
  by (simp add: mask_eq_exp_minus_1)

lemma bit_u8_ge: "8 \<le> n \<Longrightarrow> \<not> bit (b :: u8) n"
  using bit_imp_le_length [of b n] by auto

lemmas byte_bits = mask8_u16 bit_simps bit_u8_ge le16_def lo8_def hi8_def le32_def

lemma le16_lo8_hi8 [byte_simps, simp]: "le16 (lo8 x) (hi8 x) = x"
  unfolding le16_def lo8_def hi8_def mask8_u16
  by (rule bit_word_eqI) (auto simp: bit_simps)

lemma lo8_le16 [byte_simps, simp]: "lo8 (le16 a b) = a"
  unfolding le16_def lo8_def mask8_u16
  by (rule bit_word_eqI) (auto simp: bit_simps)

lemma hi8_le16 [byte_simps, simp]: "hi8 (le16 a b) = b"
  unfolding le16_def hi8_def
  by (rule bit_word_eqI) (auto simp: bit_simps bit_u8_ge)

lemma le16_eq_iff [byte_simps]: "le16 a b = x \<longleftrightarrow> a = lo8 x \<and> b = hi8 x"
  by auto

lemma le32_bytes32 [byte_simps, simp]:
  "le32 (ucast v) (ucast (drop_bit 8 v)) (ucast (drop_bit 16 v)) (ucast (drop_bit 24 v)) = v"
  unfolding le32_def
proof (rule bit_word_eqI, goal_cases)
  case (1 n)
  then consider "n < 8" | "8 \<le> n" "n < 16" | "16 \<le> n" "n < 24" | "24 \<le> n" "n < 32"
    by fastforce
  then show ?case
    by cases (auto simp: bit_simps)
qed

lemma bytes32_le32 [byte_simps, simp]: "bytes32 (le32 a b c d) = [a, b, c, d]"
  unfolding le32_def bytes32_def
  by (auto intro!: bit_word_eqI simp: bit_simps bit_u8_ge)

lemma length_bytes32 [buf_simps, simp]: "length (bytes32 v) = 4"
  by (simp add: bytes32_def)

lemma list4:
  "4 \<le> length bs \<Longrightarrow> bs = [bs ! 0, bs ! 1, bs ! 2, bs ! 3] @ drop 4 bs"
  by (auto simp: numeral_eq_Suc Suc_le_length_iff)

text \<open>A length below \<open>2 ^ 16\<close> survives the conversion to \<open>uint16_t\<close>.\<close>

lemma unat_of_nat_u16: "n < 65536 \<Longrightarrow> unat (of_nat n :: u16) = n"
  by (simp add: unat_of_nat)

lemma unat_u16_less [simp]: "unat (x :: u16) < 65536"
  using unsigned_less [of x] by simp

lemma unat_u8_less [simp]: "unat (x :: u8) < 256"
  using unsigned_less [of x] by simp

text \<open>Conversions between the integer types, read as numbers.\<close>

lemma unat_widen [simp]:
  "unat (ucast (a :: u8) :: u16) = unat a" "unat (ucast (a :: u8) :: u32) = unat a"
  "unat (ucast (b :: u16) :: u32) = unat b" "unat (ucast (c :: u32) :: u64) = unat c"
  by (simp_all add: unsigned_ucast_eq take_bit_eq_mod order_less_trans [OF unsigned_less])

lemma unat_narrow: "unat (ucast (x :: u64) :: u32) = unat x mod 2 ^ 32"
  by (simp add: unsigned_ucast_eq take_bit_eq_mod)

lemma unat_narrow_exact: "unat (x :: u64) < 2 ^ 32 \<Longrightarrow> unat (ucast x :: u32) = unat x"
  by (simp add: unat_narrow)

lemma unat_u32_less [simp]: "unat (x :: u32) < 4294967296"
  using unsigned_less [of x] by simp

end
