(* ===== verification/Framing.thy ===== *)
theory Framing
  imports Prelude
begin

text \<open>
  The interface between a frame format and the code that cuts frames out of a byte stream. A
  format is a set of frame descriptions \<open>ok\<close>, the bytes \<open>frame x\<close> of a description, a decoder
  that looks at a byte string and the view \<open>view x\<close> it returns. The two laws are what the stream
  parsers of the session and of the capture rely on: a frame is recognised whatever follows it,
  and whatever is recognised is a frame. The outer (transport) and inner (protocol) formats
  interpret this locale.
\<close>

locale frame_codec =
  fixes ok :: "'a \<Rightarrow> bool"
    and frame :: "'a \<Rightarrow> u8 list"
    and decode :: "u8 list \<Rightarrow> 'e + 'v"
    and view :: "'a \<Rightarrow> 'v"
  assumes decode_frame: "ok x \<Longrightarrow> decode (frame x @ rest) = Inr (view x)"
    and decode_sound: "decode bs = Inr v \<Longrightarrow> \<exists>x rest. ok x \<and> bs = frame x @ rest \<and> v = view x"
begin

lemma decode_exact: "ok x \<Longrightarrow> decode (frame x) = Inr (view x)"
  using decode_frame [of x "[]"] by simp

lemma decode_extend: "decode bs = Inr v \<Longrightarrow> decode (bs @ more) = Inr v"
  using decode_sound decode_frame by (metis append.assoc)

lemma view_unique:
  "ok x \<Longrightarrow> ok y \<Longrightarrow> frame x @ r = frame y @ s \<Longrightarrow> view x = view y"
  using decode_frame by (metis sum.inject(2))

lemma decode_iff:
  "decode bs = Inr v \<longleftrightarrow> (\<exists>x rest. ok x \<and> bs = frame x @ rest \<and> v = view x)"
  using decode_sound decode_frame by auto

end

text \<open>
  A format nested in another: the payload of an outer frame is an inner frame. Decoding twice
  recovers the inner view.
\<close>

locale nested_codec = outer: frame_codec ok_o frame_o decode_o view_o
  + inner: frame_codec ok_i frame_i decode_i view_i
  for ok_o :: "'a \<Rightarrow> bool" and frame_o decode_o view_o
    and ok_i :: "'b \<Rightarrow> bool" and frame_i decode_i view_i +
  fixes wrap :: "u8 list \<Rightarrow> 'a"
    and payload :: "'c \<Rightarrow> u8 list"
  assumes payload_wrap: "ok_o (wrap p) \<Longrightarrow> payload (view_o (wrap p)) = p"
begin

lemma decode_nested:
  assumes "ok_i x" and "ok_o (wrap (frame_i x))"
  shows "decode_o (frame_o (wrap (frame_i x)) @ rest) = Inr (view_o (wrap (frame_i x)))"
    and "decode_i (payload (view_o (wrap (frame_i x)))) = Inr (view_i x)"
  using assms by (simp_all add: outer.decode_frame payload_wrap inner.decode_exact)

end

end
