(* ===== verification/Environment.thy ===== *)
theory Environment
  imports Prelude
begin

text \<open>
  The world outside the driver. libusb, the C allocator, the thread library and OpenSSL are not part
  of the sources: every call to them is a value of \<open>ext_call\<close>, and the environment is an arbitrary function from the
  history of calls made so far and the current call to a reply. The history is threaded through
  every operation that makes such calls, so that ordering properties (which block is written
  before which, what is released before what) are statements about the history. Nothing is
  assumed about the environment; where a property relies on documented behaviour of libusb it
  says so in a hypothesis.
\<close>

record usb_endpoint =
  bEndpointAddress :: u8
  bmAttributes :: u8

text \<open>A configuration descriptor: interfaces, each a list of alternate settings, each a list of endpoints.\<close>

type_synonym usb_config = "usb_endpoint list list list"

datatype ext_call =
    Libusb_init
  | Libusb_set_log_level int
  | Libusb_open_device u16 u16
  | Libusb_get_config
  | Libusb_set_auto_detach
  | Libusb_kernel_driver_active nat
  | Libusb_detach nat
  | Libusb_attach nat
  | Libusb_claim nat
  | Libusb_release nat
  | Libusb_close
  | Libusb_exit
  | Libusb_bulk_out u8 "u8 list" nat
  | Libusb_bulk_in u8 nat nat
  | Calloc nat
  | Malloc nat
  | Free
  | Mutex_init
  | Mutex_destroy
  | Cond_init
  | Cond_destroy
  | Thread_create
  | Thread_join
  | Cond_timedwait nat
  | Openssl_init
  | Ssl_ctx_new
  | Ssl_ctx_set nat
  | Ssl_new
  | Bio_new
  | Bio_free
  | Ssl_free
  | Ssl_ctx_free
  | Bio_write nat
  | Bio_read nat
  | Ssl_set_bio
  | Psk_query "u8 list" nat

text \<open>
  A reply: the return code (an error, or a non-negative value; for \<open>libusb_open_device\<close> and
  \<open>calloc\<close> an error is a null pointer), the number of bytes transferred by a bulk transfer, the
  bytes a bulk read delivered, and the configuration descriptor.
\<close>

record ext_reply =
  reply_rc :: "usb_error + nat"
  reply_moved :: nat
  reply_data :: "u8 list"
  reply_config :: usb_config

type_synonym history = "ext_call list"
type_synonym environment = "history \<Rightarrow> ext_call \<Rightarrow> ext_reply"

definition ext_do :: "environment \<Rightarrow> ext_call \<Rightarrow> history \<Rightarrow> ext_reply \<times> history" where
  "ext_do env c h = (env h c, h @ [c])"

lemma ext_do_fst [simp]: "fst (ext_do env c h) = env h c"
  by (simp add: ext_do_def)

lemma ext_do_snd [simp]: "snd (ext_do env c h) = h @ [c]"
  by (simp add: ext_do_def)

text \<open>
  Calls that move data, wait, or handle buffers, and touch no other object. \<open>grows Q h h'\<close>: the history went
  from \<open>h\<close> to \<open>h'\<close> by calls that satisfy \<open>Q\<close>.
\<close>

fun io_call :: "ext_call \<Rightarrow> bool" where
  "io_call (Libusb_bulk_out ep bs t) = True"
| "io_call (Libusb_bulk_in ep n t) = True"
| "io_call (Calloc n) = True"
| "io_call Free = True"
| "io_call (Cond_timedwait t) = True"
| "io_call (Bio_write n) = True"
| "io_call (Bio_read n) = True"
| "io_call _ = False"

definition grows :: "(ext_call \<Rightarrow> bool) \<Rightarrow> history \<Rightarrow> history \<Rightarrow> bool" where
  "grows Q h h' \<longleftrightarrow> (\<exists>cs. h' = h @ cs \<and> (\<forall>c \<in> set cs. Q c))"

lemma grows_refl [simp, intro]: "grows Q h h"
  by (simp add: grows_def)

lemma grows_trans: "grows Q h1 h2 \<Longrightarrow> grows Q h2 h3 \<Longrightarrow> grows Q h1 h3"
  by (auto simp: grows_def)

lemma grows_snoc: "grows Q h h' \<Longrightarrow> Q c \<Longrightarrow> grows Q h (h' @ [c])"
  by (auto simp: grows_def)

lemma grows_append: "grows Q h h' \<Longrightarrow> \<forall>c \<in> set cs. Q c \<Longrightarrow> grows Q h (h' @ cs)"
  by (auto simp: grows_def)

lemma grows_weaken: "grows Q h h' \<Longrightarrow> (\<And>c. Q c \<Longrightarrow> R c) \<Longrightarrow> grows R h h'"
  by (auto simp: grows_def)

text \<open>Whatever no call of a kind changes is unchanged when the history grows by them.\<close>

lemma grows_invariant:
  assumes "grows Q h h'" and "\<And>h c. Q c \<Longrightarrow> f (h @ [c]) = f h"
  shows "f h' = f h"
proof -
  from assms(1) obtain cs where cs: "h' = h @ cs" "\<forall>c \<in> set cs. Q c" by (auto simp: grows_def)
  from cs(2) have "f (h @ cs) = f h"
    by (induction cs rule: rev_induct) (simp_all flip: append_assoc add: assms(2))
  with cs(1) show ?thesis by simp
qed

text \<open>
  Resource accounting: a quantity replayed over a history, where each call changes it depending on
  the reply the environment gave.
\<close>

fun replay ::
    "(ext_reply \<Rightarrow> ext_call \<Rightarrow> 'v \<Rightarrow> 'v) \<Rightarrow> environment \<Rightarrow> history \<Rightarrow> history \<Rightarrow> 'v \<Rightarrow> 'v" where
  "replay effect env past [] v = v"
| "replay effect env past (c # cs) v = replay effect env (past @ [c]) cs (effect (env past c) c v)"

lemma replay_append:
  "replay effect env past (h @ cs) v = replay effect env (past @ h) cs (replay effect env past h v)"
  by (induction h arbitrary: past v) simp_all

lemma replay_unaffected:
  "(\<And>c r w. c \<in> set cs \<Longrightarrow> effect r c w = w) \<Longrightarrow> replay effect env past cs v = v"
  by (induction cs arbitrary: past) simp_all

text \<open>Heap blocks: a successful allocation adds one, \<open>free\<close> takes one away.\<close>

fun block_effect :: "ext_reply \<Rightarrow> ext_call \<Rightarrow> int \<Rightarrow> int" where
  "block_effect r (Calloc n) v = (if isl (reply_rc r) then v else v + 1)"
| "block_effect r (Malloc n) v = (if isl (reply_rc r) then v else v + 1)"
| "block_effect r Free v = v - 1"
| "block_effect r _ v = v"

definition live_blocks :: "environment \<Rightarrow> history \<Rightarrow> int" where
  "live_blocks env h = replay block_effect env [] h 0"

lemma live_blocks_snoc [simp]: "live_blocks env (h @ [c]) = block_effect (env h c) c (live_blocks env h)"
  by (simp add: live_blocks_def replay_append)

text \<open>
  An environment that does its work: every call succeeds, a bulk write moves its whole block, and a BIO that is
  read gives at least a byte.
\<close>

definition calls_work :: "environment \<Rightarrow> bool" where
  "calls_work env \<longleftrightarrow> (\<forall>h c. reply_rc (env h c) = Inr 0)
     \<and> (\<forall>h ep bs t. reply_moved (env h (Libusb_bulk_out ep bs t)) = 64)
     \<and> (\<forall>h n. 0 < reply_moved (env h (Bio_read n)))"

lemma calls_workI: "(\<And>h c. reply_rc (env h c) = Inr 0 \<and> reply_moved (env h c) = 64) \<Longrightarrow> calls_work env"
  by (simp add: calls_work_def)

text \<open>A quiet environment, in which every call succeeds and a bulk transfer moves 64 bytes.\<close>

definition quiet_env :: environment where
  "quiet_env h c = \<lparr>reply_rc = Inr 0, reply_moved = 64, reply_data = [], reply_config = []\<rparr>"

lemma quiet_works: "calls_work quiet_env"
  by (simp add: calls_work_def quiet_env_def)

end
