(* ===== verification/Usb.thy ===== *)
theory Usb
  imports Environment
begin

text \<open>
  The USB layer of \<open>src/gx_usb.c\<close> over libusb: opening the device, checking its endpoints,
  claiming and releasing the two interfaces, block writes and bulk reads. The two pointers of
  \<open>gx_usb_device\<close> are opaque to the code, so only whether they are null is kept.
\<close>

definition GX5125_USB_VID :: u16 where "GX5125_USB_VID = 0x27c6"
definition GX5125_USB_PID :: u16 where "GX5125_USB_PID = 0x5125"
definition GX5125_INTERFACE_CONTROL :: nat where "GX5125_INTERFACE_CONTROL = 0"
definition GX5125_INTERFACE_DATA :: nat where "GX5125_INTERFACE_DATA = 1"
definition GX5125_ENDPOINT_BULK_OUT :: u8 where "GX5125_ENDPOINT_BULK_OUT = 0x01"
definition GX5125_ENDPOINT_BULK_IN :: u8 where "GX5125_ENDPOINT_BULK_IN = 0x81"
definition GX5125_ENDPOINT_INTR_IN :: u8 where "GX5125_ENDPOINT_INTR_IN = 0x82"
definition GX5125_USB_BLOCK_SIZE :: nat where "GX5125_USB_BLOCK_SIZE = 64"

lemmas usb_consts = GX5125_USB_VID_def GX5125_USB_PID_def GX5125_INTERFACE_CONTROL_def
  GX5125_INTERFACE_DATA_def GX5125_ENDPOINT_BULK_OUT_def GX5125_ENDPOINT_BULK_IN_def
  GX5125_ENDPOINT_INTR_IN_def GX5125_USB_BLOCK_SIZE_def

record gx_usb_device =
  ud_context :: bool
  ud_handle :: bool
  claimed_control :: bool
  claimed_data :: bool
  manually_detached_control :: bool
  manually_detached_data :: bool

definition zero_usb_device :: gx_usb_device where
  "zero_usb_device =
     \<lparr>ud_context = False, ud_handle = False, claimed_control = False, claimed_data = False,
      manually_detached_control = False, manually_detached_data = False\<rparr>"

section \<open>Opening and claiming\<close>

text \<open>Detach a kernel driver when one is active; the flag records that we did.\<close>

definition gx_detach_if_needed ::
    "environment \<Rightarrow> nat \<Rightarrow> bool \<Rightarrow> history \<Rightarrow> (usb_error + unit) \<times> bool \<times> history" where
  "gx_detach_if_needed env interface_number manually_detached h =
     (let (r, h1) = ext_do env (Libusb_kernel_driver_active interface_number) h
      in if reply_rc r = Inr 0 \<or> reply_rc r = Inl LIBUSB_ERROR_NOT_SUPPORTED
         then (Inr (), manually_detached, h1)
         else case reply_rc r of
           Inl e \<Rightarrow> (Inl e, manually_detached, h1)
         | Inr _ \<Rightarrow>
             (let (d, h2) = ext_do env (Libusb_detach interface_number) h1
              in case reply_rc d of
                   Inl e \<Rightarrow> (Inl e, manually_detached, h2)
                 | Inr n \<Rightarrow> (Inr (), (if n = 0 then True else manually_detached), h2)))"

definition gx_reattach_if_needed ::
    "environment \<Rightarrow> bool \<Rightarrow> nat \<Rightarrow> bool \<Rightarrow> history \<Rightarrow> bool \<times> history" where
  "gx_reattach_if_needed env has_handle interface_number manually_detached h =
     (if manually_detached \<and> has_handle
      then (False, snd (ext_do env (Libusb_attach interface_number) h))
      else (manually_detached, h))"

definition gx_usb_open ::
    "environment \<Rightarrow> int \<Rightarrow> history \<Rightarrow> (usb_error + unit) \<times> gx_usb_device \<times> history" where
  "gx_usb_open env log_level h =
     (let dev = zero_usb_device;
          (r, h1) = ext_do env Libusb_init h
      in case reply_rc r of
           Inl e \<Rightarrow> (Inl e, dev, h1)
         | Inr _ \<Rightarrow>
             (let h2 = (if log_level \<ge> 0
                        then snd (ext_do env (Libusb_set_log_level log_level) h1) else h1);
                  (opened, h3) = ext_do env (Libusb_open_device GX5125_USB_VID GX5125_USB_PID) h2
              in case reply_rc opened of
                   Inl _ \<Rightarrow>
                     (Inl LIBUSB_ERROR_NO_DEVICE, dev\<lparr>ud_context := False\<rparr>,
                      snd (ext_do env Libusb_exit h3))
                 | Inr _ \<Rightarrow> (Inr (), dev\<lparr>ud_context := True, ud_handle := True\<rparr>, h3)))"

text \<open>The three flags \<open>bulk_out\<close>, \<open>bulk_in\<close>, \<open>interrupt_in\<close> of the endpoint scan.\<close>

definition scan_endpoint :: "bool \<times> bool \<times> bool \<Rightarrow> usb_endpoint \<Rightarrow> bool \<times> bool \<times> bool" where
  "scan_endpoint flags ep =
     (let (bulk_out, bulk_in, interrupt_in) = flags;
          transfer_type = bmAttributes ep AND 0x03
      in if bEndpointAddress ep = GX5125_ENDPOINT_BULK_OUT \<and> transfer_type = 2
         then (True, bulk_in, interrupt_in)
         else if bEndpointAddress ep = GX5125_ENDPOINT_BULK_IN \<and> transfer_type = 2
         then (bulk_out, True, interrupt_in)
         else if bEndpointAddress ep = GX5125_ENDPOINT_INTR_IN \<and> transfer_type = 3
         then (bulk_out, bulk_in, True)
         else flags)"

definition scan_config :: "usb_config \<Rightarrow> bool \<times> bool \<times> bool" where
  "scan_config config =
     foldl (foldl (foldl scan_endpoint)) (False, False, False) config"

definition gx_usb_validate_layout ::
    "environment \<Rightarrow> gx_usb_device \<Rightarrow> history \<Rightarrow> (usb_error + unit) \<times> history" where
  "gx_usb_validate_layout env dev h =
     (if \<not> ud_handle dev then (Inl LIBUSB_ERROR_INVALID_PARAM, h)
      else
        let (r, h1) = ext_do env Libusb_get_config h
        in case reply_rc r of
             Inl e \<Rightarrow> (Inl e, h1)
           | Inr _ \<Rightarrow>
               (let (bulk_out, bulk_in, interrupt_in) = scan_config (reply_config r)
                in if \<not> bulk_out \<or> \<not> bulk_in \<or> \<not> interrupt_in
                   then (Inl LIBUSB_ERROR_NOT_FOUND, h1) else (Inr (), h1)))"

text \<open>Release one claimed interface (the same code for both).\<close>

definition release_if_claimed :: "environment \<Rightarrow> nat \<Rightarrow> bool \<Rightarrow> history \<Rightarrow> bool \<times> history" where
  "release_if_claimed env interface_number claimed h =
     (if claimed then (False, snd (ext_do env (Libusb_release interface_number) h))
      else (claimed, h))"

definition gx_usb_release_interfaces ::
    "environment \<Rightarrow> gx_usb_device \<Rightarrow> history \<Rightarrow> gx_usb_device \<times> history" where
  "gx_usb_release_interfaces env dev h =
     (if \<not> ud_handle dev then (dev, h)
      else
        let (cd, h1) = release_if_claimed env GX5125_INTERFACE_DATA (claimed_data dev) h;
            (cc, h2) = release_if_claimed env GX5125_INTERFACE_CONTROL (claimed_control dev) h1;
            (md, h3) = gx_reattach_if_needed env (ud_handle dev) GX5125_INTERFACE_DATA
                         (manually_detached_data dev) h2;
            (mc, h4) = gx_reattach_if_needed env (ud_handle dev) GX5125_INTERFACE_CONTROL
                         (manually_detached_control dev) h3
        in (dev\<lparr>claimed_data := cd, claimed_control := cc,
                manually_detached_data := md, manually_detached_control := mc\<rparr>, h4))"

text \<open>
  The manual detach, made only when libusb cannot detach automatically; then the claim of the
  data interface and of both interfaces.
\<close>

definition detach_unless_auto ::
    "environment \<Rightarrow> bool \<Rightarrow> nat \<Rightarrow> bool \<Rightarrow> history \<Rightarrow> (usb_error + unit) \<times> bool \<times> history" where
  "detach_unless_auto env auto_detach interface_number manually_detached h =
     (if \<not> auto_detach then gx_detach_if_needed env interface_number manually_detached h
      else (Inr (), manually_detached, h))"

definition claim_data_interface ::
    "environment \<Rightarrow> bool \<Rightarrow> gx_usb_device \<Rightarrow> history \<Rightarrow>
     (usb_error + unit) \<times> gx_usb_device \<times> history" where
  "claim_data_interface env auto_detach dev h =
     (let (r, m, h1) = detach_unless_auto env auto_detach GX5125_INTERFACE_DATA
                         (manually_detached_data dev) h;
          d1 = dev\<lparr>manually_detached_data := m\<rparr>
      in case r of
           Inl e \<Rightarrow> (let (d2, h2) = gx_usb_release_interfaces env d1 h1 in (Inl e, d2, h2))
         | Inr _ \<Rightarrow>
             (let (c, h2) = ext_do env (Libusb_claim GX5125_INTERFACE_DATA) h1
              in case reply_rc c of
                   Inl e \<Rightarrow>
                     (let (d3, h3) = gx_usb_release_interfaces env d1 h2 in (Inl e, d3, h3))
                 | Inr _ \<Rightarrow> (Inr (), d1\<lparr>claimed_data := True\<rparr>, h2)))"

definition claim_both_interfaces ::
    "environment \<Rightarrow> bool \<Rightarrow> gx_usb_device \<Rightarrow> history \<Rightarrow>
     (usb_error + unit) \<times> gx_usb_device \<times> history" where
  "claim_both_interfaces env auto_detach dev h =
     (let (r, m, h1) = detach_unless_auto env auto_detach GX5125_INTERFACE_CONTROL
                         (manually_detached_control dev) h;
          d1 = dev\<lparr>manually_detached_control := m\<rparr>
      in case r of
           Inl e \<Rightarrow> (Inl e, d1, h1)
         | Inr _ \<Rightarrow>
             (let (c, h2) = ext_do env (Libusb_claim GX5125_INTERFACE_CONTROL) h1
              in case reply_rc c of
                   Inl e \<Rightarrow> (Inl e, d1, h2)
                 | Inr _ \<Rightarrow>
                     claim_data_interface env auto_detach (d1\<lparr>claimed_control := True\<rparr>) h2))"

definition gx_usb_claim_interfaces ::
    "environment \<Rightarrow> gx_usb_device \<Rightarrow> history \<Rightarrow> (usb_error + unit) \<times> gx_usb_device \<times> history" where
  "gx_usb_claim_interfaces env dev h =
     (if \<not> ud_handle dev then (Inl LIBUSB_ERROR_INVALID_PARAM, dev, h)
      else
        let (a, h1) = ext_do env Libusb_set_auto_detach h
        in case reply_rc a of
             Inr n \<Rightarrow> if n = 0 then claim_both_interfaces env True dev h1 else (Inr (), dev, h1)
           | Inl e \<Rightarrow>
               if e \<noteq> LIBUSB_ERROR_NOT_SUPPORTED then (Inl e, dev, h1)
               else claim_both_interfaces env False dev h1)"

definition gx_usb_close ::
    "environment \<Rightarrow> gx_usb_device \<Rightarrow> history \<Rightarrow> gx_usb_device \<times> history" where
  "gx_usb_close env dev h =
     (let (d1, h1) = gx_usb_release_interfaces env dev h;
          (d2, h2) = (if ud_handle d1
             then (d1\<lparr>ud_handle := False\<rparr>, snd (ext_do env Libusb_close h1)) else (d1, h1))
      in if ud_context d2
         then (d2\<lparr>ud_context := False\<rparr>, snd (ext_do env Libusb_exit h2)) else (d2, h2))"

section \<open>Transfers\<close>

text \<open>The loop of \<open>gx_usb_bulk_write_64\<close> over the 64-byte blocks that remain.\<close>

function bulk_write_loop ::
    "environment \<Rightarrow> nat \<Rightarrow> u8 list \<Rightarrow> history \<Rightarrow> (usb_error + unit) \<times> history" where
  "bulk_write_loop env timeout_ms rest h =
     (if rest = [] then (Inr (), h)
      else
        let (r, h1) = ext_do env
              (Libusb_bulk_out GX5125_ENDPOINT_BULK_OUT (take GX5125_USB_BLOCK_SIZE rest)
                 timeout_ms) h
        in case reply_rc r of
             Inl e \<Rightarrow> (Inl e, h1)
           | Inr _ \<Rightarrow>
               if reply_moved r \<noteq> GX5125_USB_BLOCK_SIZE then (Inl LIBUSB_ERROR_IO, h1)
               else bulk_write_loop env timeout_ms (drop GX5125_USB_BLOCK_SIZE rest) h1)"
  by pat_completeness auto
termination
  by (relation "measure (\<lambda>(env, t, rest, h). length rest)") (auto simp: usb_consts)

declare bulk_write_loop.simps [simp del]

definition gx_usb_bulk_write_64 ::
    "environment \<Rightarrow> gx_usb_device \<Rightarrow> cbuf \<Rightarrow> nat \<Rightarrow> history \<Rightarrow> (usb_error + unit) \<times> history" where
  "gx_usb_bulk_write_64 env dev buffer timeout_ms h =
     (if \<not> ud_handle dev \<or> \<not> claimed_data dev \<or> is_null buffer \<or> cbuf_len buffer = 0
         \<or> cbuf_len buffer mod GX5125_USB_BLOCK_SIZE \<noteq> 0
      then (Inl LIBUSB_ERROR_INVALID_PARAM, h)
      else bulk_write_loop env timeout_ms (cbuf_bytes buffer) h)"

text \<open>A bulk read: the bytes the transfer delivered, at most the capacity (libusb never moves more).\<close>

definition gx_usb_bulk_read ::
    "environment \<Rightarrow> gx_usb_device \<Rightarrow> nat \<Rightarrow> nat \<Rightarrow> history \<Rightarrow>
     (usb_error + u8 list) \<times> history" where
  "gx_usb_bulk_read env dev capacity timeout_ms h =
     (if \<not> ud_handle dev \<or> \<not> claimed_data dev \<or> capacity = 0 \<or> capacity > 2147483647
      then (Inl LIBUSB_ERROR_INVALID_PARAM, h)
      else
        let (r, h1) = ext_do env
              (Libusb_bulk_in GX5125_ENDPOINT_BULK_IN capacity timeout_ms) h
        in case reply_rc r of
             Inl e \<Rightarrow> (Inl e, h1)
           | Inr _ \<Rightarrow> (Inr (take (reply_moved r) (take capacity (reply_data r))), h1))"

section \<open>What the kernel holds\<close>

text \<open>
  Replaying a history against the environment that answered it gives the interfaces that are
  claimed, the kernel drivers that are detached on our behalf, and the numbers of libusb contexts and device
  handles that are open: the abstract state that the fields of \<open>gx_usb_device\<close> are meant to track.
\<close>

record kernel_view =
  held :: "nat \<Rightarrow> bool"
  detached :: "nat \<Rightarrow> bool"
  contexts :: int
  handles :: int

definition no_kernel_state :: kernel_view where
  "no_kernel_state = \<lparr>held = (\<lambda>_. False), detached = (\<lambda>_. False), contexts = 0, handles = 0\<rparr>"

fun call_effect :: "ext_reply \<Rightarrow> ext_call \<Rightarrow> kernel_view \<Rightarrow> kernel_view" where
  "call_effect r (Libusb_claim i) k =
     (if isl (reply_rc r) then k else k\<lparr>held := (held k)(i := True)\<rparr>)"
| "call_effect r (Libusb_release i) k = k\<lparr>held := (held k)(i := False)\<rparr>"
| "call_effect r (Libusb_detach i) k =
     (if reply_rc r = Inr 0 then k\<lparr>detached := (detached k)(i := True)\<rparr> else k)"
| "call_effect r (Libusb_attach i) k = k\<lparr>detached := (detached k)(i := False)\<rparr>"
| "call_effect r Libusb_init k = (if isl (reply_rc r) then k else k\<lparr>contexts := contexts k + 1\<rparr>)"
| "call_effect r Libusb_exit k = k\<lparr>contexts := contexts k - 1\<rparr>"
| "call_effect r (Libusb_open_device v p) k = (if isl (reply_rc r) then k else k\<lparr>handles := handles k + 1\<rparr>)"
| "call_effect r Libusb_close k = k\<lparr>handles := handles k - 1\<rparr>"
| "call_effect r _ k = k"

definition kernel_of :: "environment \<Rightarrow> history \<Rightarrow> kernel_view" where
  "kernel_of env h = replay call_effect env [] h no_kernel_state"

lemma kernel_of_append [simp]: "kernel_of env (h @ cs) = replay call_effect env h cs (kernel_of env h)"
  by (simp add: kernel_of_def replay_append)

text \<open>The fields agree with the kernel's state and libusb's objects, and a device without a handle holds nothing.\<close>

definition usb_tracks :: "environment \<Rightarrow> gx_usb_device \<Rightarrow> history \<Rightarrow> bool" where
  "usb_tracks env dev h \<longleftrightarrow>
     (\<forall>i. held (kernel_of env h) i \<longleftrightarrow>
        (if i = 0 then claimed_control dev else i = 1 \<and> claimed_data dev)) \<and>
     (\<forall>i. detached (kernel_of env h) i \<longleftrightarrow>
        (if i = 0 then manually_detached_control dev else i = 1 \<and> manually_detached_data dev)) \<and>
     (\<not> ud_handle dev \<longrightarrow>
        \<not> claimed_control dev \<and> \<not> claimed_data dev \<and>
        \<not> manually_detached_control dev \<and> \<not> manually_detached_data dev) \<and>
     (ud_handle dev \<longrightarrow> ud_context dev) \<and>
     contexts (kernel_of env h) = of_bool (ud_context dev) \<and> handles (kernel_of env h) = of_bool (ud_handle dev)"

lemma release_if_claimed_kernel:
  "release_if_claimed env i f h = (f', h') \<Longrightarrow>
   \<not> f' \<and> kernel_of env h' =
     (if f then (kernel_of env h)\<lparr>held := (held (kernel_of env h))(i := False)\<rparr> else kernel_of env h)"
  by (auto simp: release_if_claimed_def split: if_splits)

lemma reattach_kernel:
  "gx_reattach_if_needed env True i f h = (f', h') \<Longrightarrow>
   \<not> f' \<and> kernel_of env h' =
     (if f then (kernel_of env h)\<lparr>detached := (detached (kernel_of env h))(i := False)\<rparr>
      else kernel_of env h)"
  by (auto simp: gx_reattach_if_needed_def split: if_splits)

lemma detach_kernel:
  "gx_detach_if_needed env i m h = (r, m', h') \<Longrightarrow>
   kernel_of env h' = kernel_of env h \<and> m' = m \<or>
   kernel_of env h' = (kernel_of env h)\<lparr>detached := (detached (kernel_of env h))(i := True)\<rparr> \<and> m'"
  by (auto simp: gx_detach_if_needed_def ext_do_def Let_def split: if_splits sum.splits)

lemma detach_unless_auto_kernel:
  "detach_unless_auto env auto i m h = (r, m', h') \<Longrightarrow>
   kernel_of env h' = kernel_of env h \<and> m' = m \<or>
   kernel_of env h' = (kernel_of env h)\<lparr>detached := (detached (kernel_of env h))(i := True)\<rparr> \<and> m'"
  by (cases auto) (auto simp: detach_unless_auto_def dest: detach_kernel)

lemma release_tracks:
  assumes "usb_tracks env dev h" and "gx_usb_release_interfaces env dev h = (dev', h')"
  shows "usb_tracks env dev' h'
    \<and> \<not> claimed_control dev' \<and> \<not> claimed_data dev'
    \<and> \<not> manually_detached_control dev' \<and> \<not> manually_detached_data dev'
    \<and> ud_handle dev' = ud_handle dev \<and> ud_context dev' = ud_context dev"
proof (cases "ud_handle dev")
  case False
  with assms show ?thesis by (auto simp: usb_tracks_def gx_usb_release_interfaces_def)
next
  case True
  from True assms(2) obtain cd h1 cc h2 md h3 mc where
    s: "release_if_claimed env 1 (claimed_data dev) h = (cd, h1)"
      "release_if_claimed env 0 (claimed_control dev) h1 = (cc, h2)"
      "gx_reattach_if_needed env True 1 (manually_detached_data dev) h2 = (md, h3)"
      "gx_reattach_if_needed env True 0 (manually_detached_control dev) h3 = (mc, h')"
    and d: "dev' = dev\<lparr>claimed_data := cd, claimed_control := cc,
              manually_detached_data := md, manually_detached_control := mc\<rparr>"
    by (auto simp: gx_usb_release_interfaces_def usb_consts Let_def split: prod.splits)
  note k = s(1,2) [THEN release_if_claimed_kernel] s(3,4) [THEN reattach_kernel]
  from k assms(1) True show ?thesis
    unfolding d usb_tracks_def by simp
qed

lemma gx_usb_open_tracks:
  assumes "gx_usb_open env lvl h = (r, dev, h')"
    and "kernel_of env h = no_kernel_state"
  shows "usb_tracks env dev h'" and "r = Inr () \<longleftrightarrow> ud_handle dev"
  using assms
  by (auto simp: gx_usb_open_def usb_tracks_def ext_do_def zero_usb_device_def no_kernel_state_def Let_def
      split: if_splits sum.splits)

lemma detach_tracks_data:
  assumes "usb_tracks env dev h" and "ud_handle dev"
    and "detach_unless_auto env auto 1 (manually_detached_data dev) h = (q, m, h')"
  shows "usb_tracks env (dev\<lparr>manually_detached_data := m\<rparr>) h'"
  using detach_unless_auto_kernel [OF assms(3)] assms(1,2)
  by (elim disjE conjE) (simp_all add: usb_tracks_def)

lemma detach_tracks_control:
  assumes "usb_tracks env dev h" and "ud_handle dev"
    and "detach_unless_auto env auto 0 (manually_detached_control dev) h = (q, m, h')"
  shows "usb_tracks env (dev\<lparr>manually_detached_control := m\<rparr>) h'"
  using detach_unless_auto_kernel [OF assms(3)] assms(1,2)
  by (elim disjE conjE) (simp_all add: usb_tracks_def)

lemma claim_data_tracks:
  assumes "usb_tracks env dev h" and "ud_handle dev" and "\<not> claimed_data dev"
    and "claim_data_interface env auto dev h = (r, dev', h')"
  shows "usb_tracks env dev' h' \<and> ud_handle dev'"
proof -
  obtain q m h1 where d: "detach_unless_auto env auto 1 (manually_detached_data dev) h = (q, m, h1)"
    by (metis prod_cases3)
  let ?d = "dev\<lparr>manually_detached_data := m\<rparr>"
  note t = detach_tracks_data [OF assms(1,2) d]
  have failed: ?thesis
    if "usb_tracks env ?d h2" and "gx_usb_release_interfaces env ?d h2 = (dev', h')" for h2
    using release_tracks [OF that] assms(2) by simp
  show ?thesis
  proof (cases q)
    case (Inl x)
    with assms(4) d have "gx_usb_release_interfaces env ?d h1 = (dev', h')"
      by (simp add: claim_data_interface_def usb_consts Let_def split: prod.splits)
    then show ?thesis by (rule failed [OF t])
  next
    case q: (Inr u)
    show ?thesis
    proof (cases "reply_rc (env h1 (Libusb_claim 1))")
      case (Inl x)
      with assms(4) d q have "gx_usb_release_interfaces env ?d (h1 @ [Libusb_claim 1]) = (dev', h')"
        by (simp add: claim_data_interface_def usb_consts Let_def ext_do_def split: prod.splits)
      moreover have "usb_tracks env ?d (h1 @ [Libusb_claim 1])"
        using t Inl by (simp add: usb_tracks_def)
      ultimately show ?thesis by (metis failed)
    next
      case (Inr n)
      with assms(4) d q have "dev' = ?d\<lparr>claimed_data := True\<rparr>" "h' = h1 @ [Libusb_claim 1]"
        by (simp_all add: claim_data_interface_def usb_consts Let_def ext_do_def)
      with t Inr assms(2) show ?thesis by (simp add: usb_tracks_def)
    qed
  qed
qed

lemma claim_both_tracks:
  assumes "usb_tracks env dev h" and "ud_handle dev" and "\<not> claimed_data dev"
    and "claim_both_interfaces env auto dev h = (r, dev', h')"
  shows "usb_tracks env dev' h' \<and> ud_handle dev'"
proof -
  obtain q m h1 where d: "detach_unless_auto env auto 0 (manually_detached_control dev) h = (q, m, h1)"
    by (metis prod_cases3)
  let ?d = "dev\<lparr>manually_detached_control := m\<rparr>"
  let ?h2 = "h1 @ [Libusb_claim 0]"
  note t = detach_tracks_control [OF assms(1,2) d]
  show ?thesis
  proof (cases "q = Inr () \<and> \<not> isl (reply_rc (env h1 (Libusb_claim 0)))")
    case True
    then obtain n where n: "q = Inr ()" "reply_rc (env h1 (Libusb_claim 0)) = Inr n"
      by (auto simp: not_isl_eq_Inr)
    have "usb_tracks env (?d\<lparr>claimed_control := True\<rparr>) ?h2"
      using t n assms(2) by (simp add: usb_tracks_def)
    moreover have "claim_data_interface env auto (?d\<lparr>claimed_control := True\<rparr>) ?h2 = (r, dev', h')"
      using assms(4) d n by (simp add: claim_both_interfaces_def usb_consts ext_do_def Let_def)
    ultimately show ?thesis
      using claim_data_tracks [of env "?d\<lparr>claimed_control := True\<rparr>"] assms(2,3) by simp
  next
    case False
    with assms(4) d have "dev' = ?d" "h' = h1 \<or> h' = ?h2 \<and> isl (reply_rc (env h1 (Libusb_claim 0)))"
      by (auto simp: claim_both_interfaces_def usb_consts ext_do_def Let_def split: sum.splits)
    with t assms(2) show ?thesis by (auto simp: usb_tracks_def)
  qed
qed

lemma claim_tracks:
  assumes "usb_tracks env dev h" and "\<not> claimed_data dev"
    and "gx_usb_claim_interfaces env dev h = (r, dev', h')"
  shows "usb_tracks env dev' h' \<and> ud_handle dev' = ud_handle dev"
proof -
  have t: "usb_tracks env dev (h @ [Libusb_set_auto_detach])"
    using assms(1) by (simp add: usb_tracks_def)
  show ?thesis
    using assms t claim_both_tracks [OF t _ assms(2)]
    by (fastforce simp: gx_usb_claim_interfaces_def ext_do_def split: if_splits sum.splits)
qed

lemma close_releases:
  assumes "usb_tracks env dev h" and "gx_usb_close env dev h = (dev', h')"
  shows "kernel_of env h' = no_kernel_state" and "dev' = zero_usb_device"
proof -
  obtain d1 h1 where r: "gx_usb_release_interfaces env dev h = (d1, h1)"
    by (metis surj_pair)
  note t = release_tracks [OF assms(1) r]
  define rest where "rest = (if ud_handle d1 then [Libusb_close] else []) @ (if ud_context d1 then [Libusb_exit] else [])"
  have close: "dev' = d1\<lparr>ud_handle := False, ud_context := False\<rparr>" "h' = h1 @ rest"
    using assms(2) r by (auto simp: gx_usb_close_def Let_def rest_def split: if_splits)
  have "replay call_effect env h1 rest (kernel_of env h1) = no_kernel_state"
    using t by (intro kernel_view.equality) (auto simp: usb_tracks_def no_kernel_state_def fun_eq_iff rest_def)
  then show "kernel_of env h' = no_kernel_state" by (simp add: close(2))
  show "dev' = zero_usb_device"
    using close(1) t by (simp add: zero_usb_device_def)
qed



section \<open>Block writes\<close>

text \<open>The transfer of the \<open>i\<close>-th 64-byte block of a buffer.\<close>

definition block_call :: "nat \<Rightarrow> u8 list \<Rightarrow> nat \<Rightarrow> ext_call" where
  "block_call t bs i = Libusb_bulk_out GX5125_ENDPOINT_BULK_OUT (take 64 (drop (64 * i) bs)) t"

lemma block_call_drop: "block_call t (drop 64 bs) i = block_call t bs (Suc i)"
  by (simp add: block_call_def add.commute)

lemma map_block_call_Suc:
  "map (block_call t bs) [0..<Suc k] = block_call t bs 0 # map (block_call t (drop 64 bs)) [0..<k]"
  by (simp add: upt_conv_Cons map_Suc_upt [symmetric] block_call_drop del: upt_Suc)

text \<open>The reply libusb gave for the \<open>i\<close>-th block, and that it moved the block as a whole.\<close>

definition block_reply :: "environment \<Rightarrow> history \<Rightarrow> nat \<Rightarrow> u8 list \<Rightarrow> nat \<Rightarrow> ext_reply" where
  "block_reply env h t bs i = env (h @ map (block_call t bs) [0..<i]) (block_call t bs i)"

definition block_moved :: "ext_reply \<Rightarrow> bool" where
  "block_moved r \<longleftrightarrow> \<not> isl (reply_rc r) \<and> reply_moved r = 64"

lemma block_reply_Suc:
  "block_reply env h t bs (Suc i) = block_reply env (h @ [block_call t bs 0]) t (drop 64 bs) i"
  by (simp add: block_reply_def map_block_call_Suc block_call_drop del: upt_Suc)

lemma block_reply_0: "block_reply env h t bs 0 = env h (block_call t bs 0)"
  by (simp add: block_reply_def)

lemma bulk_write_loop_Nil [simp]: "bulk_write_loop env t [] h = (Inr (), h)"
  by (simp add: bulk_write_loop.simps)

lemma bulk_write_loop_step:
  "bs \<noteq> [] \<Longrightarrow> bulk_write_loop env t bs h =
     (let c = block_call t bs 0 in
      case reply_rc (env h c) of
        Inl e \<Rightarrow> (Inl e, h @ [c])
      | Inr _ \<Rightarrow> if reply_moved (env h c) \<noteq> 64 then (Inl LIBUSB_ERROR_IO, h @ [c])
                 else bulk_write_loop env t (drop 64 bs) (h @ [c]))"
  by (simp add: bulk_write_loop.simps [of env t bs h] ext_do_def usb_consts block_call_def Let_def
      split: sum.split)

lemma multiple64_step:
  "length bs mod 64 = 0 \<Longrightarrow> bs \<noteq> [] \<Longrightarrow> 64 \<le> length bs \<and> length (drop 64 bs) mod 64 = 0
     \<and> length (drop 64 bs) < length bs"
  by (cases "length bs < 64") (auto simp: mod_if)

text \<open>How the transfer of \<open>k\<close> blocks ended.\<close>

definition blocks_outcome :: "environment \<Rightarrow> history \<Rightarrow> nat \<Rightarrow> u8 list \<Rightarrow> nat \<Rightarrow> usb_error + unit \<Rightarrow> bool" where
  "blocks_outcome env h t bs k r \<longleftrightarrow>
     (case r of
        Inr _ \<Rightarrow> 64 * k = length bs \<and> list_all (\<lambda>i. block_moved (block_reply env h t bs i)) [0..<k]
      | Inl e \<Rightarrow> 0 < k \<and> list_all (\<lambda>i. block_moved (block_reply env h t bs i)) [0..<k - 1]
          \<and> \<not> block_moved (block_reply env h t bs (k - 1))
          \<and> e = (case reply_rc (block_reply env h t bs (k - 1)) of Inl e \<Rightarrow> e | Inr _ \<Rightarrow> LIBUSB_ERROR_IO))"

lemma outcome_Suc:
  assumes "blocks_outcome env (h @ [block_call t bs 0]) t (drop 64 bs) k r" and "64 \<le> length bs"
    and "block_moved (env h (block_call t bs 0))"
  shows "blocks_outcome env h t bs (Suc k) r"
proof -
  have all: "list_all (\<lambda>i. block_moved (block_reply env h t bs i)) [0..<Suc n]"
    if "list_all (\<lambda>i. block_moved (block_reply env (h @ [block_call t bs 0]) t (drop 64 bs) i)) [0..<n]" for n
    using that assms(3) by (auto simp: list_all_iff less_Suc_eq_0_disj block_reply_Suc block_reply_0 simp del: upt_Suc)
  show ?thesis
  proof (cases r)
    case (Inl e)
    then obtain j where j: "k = Suc j" using assms(1) by (cases k) (auto simp: blocks_outcome_def)
    show ?thesis using assms(1) all [of j] Inl by (simp add: blocks_outcome_def j block_reply_Suc del: upt_Suc)
  next
    case (Inr u)
    then show ?thesis using assms(1,2) all [of k] by (auto simp: blocks_outcome_def simp del: upt_Suc)
  qed
qed

lemma bulk_write_loop_history:
  assumes "length bs mod 64 = 0" and "bulk_write_loop env t bs h = (r, h')"
  shows "\<exists>k. h' = h @ map (block_call t bs) [0..<k] \<and> 64 * k \<le> length bs \<and> blocks_outcome env h t bs k r"
  using assms
proof (induction bs arbitrary: h rule: measure_induct_rule [of length])
  case (less bs)
  let ?c = "block_call t bs 0"
  show ?case
  proof (cases "bs = []")
    case True
    with less.prems show ?thesis by (auto simp: blocks_outcome_def)
  next
    case False
    note l = multiple64_step [OF less.prems(1) False]
    show ?thesis
    proof (cases "block_moved (env h ?c)")
      case True
      with less.prems(2) have rec: "bulk_write_loop env t (drop 64 bs) (h @ [?c]) = (r, h')"
        by (auto simp: bulk_write_loop_step [OF False] Let_def not_isl_eq_Inr block_moved_def)
      from l have "length (drop 64 bs) < length bs" "length (drop 64 bs) mod 64 = 0" by blast+
      from less.IH [OF this rec] obtain k where
        k: "h' = (h @ [?c]) @ map (block_call t (drop 64 bs)) [0..<k]"
          "64 * k \<le> length (drop 64 bs)" "blocks_outcome env (h @ [?c]) t (drop 64 bs) k r"
        by blast
      then have "h' = h @ map (block_call t bs) [0..<Suc k]"
        by (simp add: map_block_call_Suc del: upt_Suc)
      moreover have "blocks_outcome env h t bs (Suc k) r" using outcome_Suc [OF k(3) _ True] l by blast
      ultimately show ?thesis using k(2) l by (intro exI [of _ "Suc k"]) auto
    next
      case stopped: False
      with less.prems(2) have "h' = h @ [?c]"
        "r = Inl (case reply_rc (env h ?c) of Inl e \<Rightarrow> e | Inr _ \<Rightarrow> LIBUSB_ERROR_IO)"
        by (auto simp: bulk_write_loop_step [OF False] Let_def block_moved_def split: sum.splits if_splits)
      with l stopped show ?thesis by (intro exI [of _ 1]) (auto simp: blocks_outcome_def block_reply_0)
    qed
  qed
qed

lemma bulk_write_loop_progress:
  assumes "length bs mod 64 = 0"
    and "calls_work env"
  shows "fst (bulk_write_loop env t bs h) = Inr ()"
  using assms(1)
proof (induction bs arbitrary: h rule: measure_induct_rule [of length])
  case (less bs)
  show ?case
  proof (cases "bs = []")
    case False
    with less.IH multiple64_step [OF less.prems False] assms(2) show ?thesis
      by (simp add: bulk_write_loop_step [OF False] Let_def calls_work_def block_call_def)
  qed simp
qed

definition writable_blocks :: "gx_usb_device \<Rightarrow> u8 list \<Rightarrow> bool" where
  "writable_blocks dev bs \<longleftrightarrow> ud_handle dev \<and> claimed_data dev \<and> bs \<noteq> [] \<and> length bs mod 64 = 0"

lemma bulk_write_history:
  assumes "gx_usb_bulk_write_64 env dev (Buf bs) t h = (r, h')"
  shows "if writable_blocks dev bs
     then \<exists>k. h' = h @ map (block_call t bs) [0..<k] \<and> 64 * k \<le> length bs \<and> blocks_outcome env h t bs k r
     else h' = h \<and> r = Inl LIBUSB_ERROR_INVALID_PARAM"
proof (cases "writable_blocks dev bs")
  case True
  with assms have "bulk_write_loop env t bs h = (r, h')"
    by (simp add: gx_usb_bulk_write_64_def usb_consts writable_blocks_def)
  with bulk_write_loop_history [of bs env t h r h'] True show ?thesis by (simp add: writable_blocks_def)
next
  case False
  with assms show ?thesis
    by (auto simp: gx_usb_bulk_write_64_def usb_consts writable_blocks_def split: if_splits)
qed

text \<open>
  C7: a block write moves the buffer's 64-byte blocks in order, each once, and nothing else. A closed or
  unclaimed device and an empty or ragged buffer are refused before any transfer. Otherwise it
  reports success exactly when every block of the buffer was submitted and libusb reported each of them moved as a
  whole; and when it fails, every block before the last one submitted was moved as a whole, the last one was not,
  and the error is libusb's, or an input/output error for a partial transfer.
\<close>

theorem bulk_write_blocks_in_order:
  assumes "gx_usb_bulk_write_64 env dev (Buf bs) t h = (r, h')"
  shows "if writable_blocks dev bs
     then \<exists>k. h' = h @ map (block_call t bs) [0..<k] \<and> 64 * k \<le> length bs
       \<and> (case r of
            Inr _ \<Rightarrow> 64 * k = length bs \<and> list_all (\<lambda>i. block_moved (block_reply env h t bs i)) [0..<k]
          | Inl e \<Rightarrow> 0 < k \<and> list_all (\<lambda>i. block_moved (block_reply env h t bs i)) [0..<k - 1]
              \<and> \<not> block_moved (block_reply env h t bs (k - 1))
              \<and> e = (case reply_rc (block_reply env h t bs (k - 1)) of Inl e \<Rightarrow> e | Inr _ \<Rightarrow> LIBUSB_ERROR_IO))
     else h' = h \<and> r = Inl LIBUSB_ERROR_INVALID_PARAM"
  using bulk_write_history [OF assms] unfolding blocks_outcome_def .

definition claimed_device :: gx_usb_device where
  "claimed_device = zero_usb_device
     \<lparr>ud_context := True, ud_handle := True, claimed_control := True, claimed_data := True\<rparr>"

theorem bulk_write_blocks_in_order_witness:
  "\<exists>k. snd (gx_usb_bulk_write_64 quiet_env claimed_device (Buf (replicate 128 7)) 1000 [])
         = [] @ map (block_call 1000 (replicate 128 7)) [0..<k] \<and> 64 * k = 128
       \<and> list_all (\<lambda>i. block_moved (block_reply quiet_env [] 1000 (replicate 128 7) i)) [0..<k]"
proof -
  let ?r = "gx_usb_bulk_write_64 quiet_env claimed_device (Buf (replicate 128 7)) 1000 []"
  have "fst ?r = Inr ()"
    by (simp add: gx_usb_bulk_write_64_def claimed_device_def zero_usb_device_def usb_consts
        bulk_write_loop_progress quiet_works)
  then have "?r = (Inr (), snd ?r)" by (metis prod.collapse)
  moreover have "writable_blocks claimed_device (replicate 128 7)"
    by (simp add: writable_blocks_def claimed_device_def zero_usb_device_def)
  ultimately show ?thesis using bulk_write_blocks_in_order by fastforce
qed

end
