(* ===== verification/Transport.thy ===== *)
theory Transport
  imports Framing Usb
begin

text \<open>
  The outer frame format of \<open>src/gx_transport.c\<close>: four header bytes (type and flags, payload
  length, checksum), the payload, and zero padding to a multiple of the 64-byte USB block.
  \<open>outer_frame\<close> is the abstract format; \<open>gx_outer_build\<close> and \<open>gx_outer_decode\<close> are the code.
\<close>

definition GX5125_OUTER_HEADER_SIZE :: nat where "GX5125_OUTER_HEADER_SIZE = 4"
definition GX5125_OUTER_MAX_PAYLOAD :: nat where "GX5125_OUTER_MAX_PAYLOAD = 0x6bff"
definition GX5125_OUTER_COMMAND :: u8 where "GX5125_OUTER_COMMAND = 0xa0"
definition GX5125_OUTER_TLS :: u8 where "GX5125_OUTER_TLS = 0xb0"
definition GX5125_OUTER_NOTICE :: u8 where "GX5125_OUTER_NOTICE = 0xc0"

lemmas outer_consts = GX5125_OUTER_HEADER_SIZE_def GX5125_OUTER_MAX_PAYLOAD_def
  GX5125_USB_BLOCK_SIZE_def GX5125_OUTER_COMMAND_def GX5125_OUTER_TLS_def GX5125_OUTER_NOTICE_def

record gx_outer_view =
  ov_type_flags :: u8
  ov_family :: u8
  ov_payload_length :: u16
  ov_payload :: "u8 list"

definition gx_outer_family_supported :: "u8 \<Rightarrow> bool" where
  "gx_outer_family_supported type_flags =
     (let family = type_flags AND 0xf0
      in family = GX5125_OUTER_COMMAND \<or> family = GX5125_OUTER_TLS \<or> family = GX5125_OUTER_NOTICE)"

definition gx_outer_checksum :: "u8 \<Rightarrow> u16 \<Rightarrow> u8" where
  "gx_outer_checksum type_flags payload_length =
     type_flags + lo8 payload_length + hi8 payload_length"

definition gx_outer_wire_size :: "nat \<Rightarrow> nat" where
  "gx_outer_wire_size payload_length =
     (if payload_length > GX5125_OUTER_MAX_PAYLOAD then 0
      else let logical = GX5125_OUTER_HEADER_SIZE + payload_length;
               remainder = logical mod GX5125_USB_BLOCK_SIZE
           in if remainder = 0 then logical else logical + GX5125_USB_BLOCK_SIZE - remainder)"

text \<open>
  The result is the whole output buffer after the writes, the logical length and the wire length.
  The null checks of the two length out-parameters have no counterpart: they are results here.
\<close>

definition gx_outer_build ::
    "u8 \<Rightarrow> cbuf \<Rightarrow> cbuf \<Rightarrow> usb_error + (u8 list \<times> nat \<times> nat)" where
  "gx_outer_build type_flags payload output =
     (if \<not> gx_outer_family_supported type_flags
         \<or> is_null payload \<and> cbuf_len payload \<noteq> 0 \<or> is_null output
         \<or> cbuf_len payload > GX5125_OUTER_MAX_PAYLOAD
      then Inl LIBUSB_ERROR_INVALID_PARAM
      else
        let wire = gx_outer_wire_size (cbuf_len payload)
        in if wire = 0 \<or> cbuf_len output < wire then Inl LIBUSB_ERROR_OVERFLOW
           else
             let zeroed = mem_write (cbuf_bytes output) 0 (replicate wire 0);
                 length16 = (of_nat (cbuf_len payload) :: u16);
                 header = zeroed[0 := type_flags, 1 := lo8 length16, 2 := hi8 length16,
                                 3 := gx_outer_checksum type_flags length16];
                 filled = (if cbuf_len payload \<noteq> 0
                           then mem_write header GX5125_OUTER_HEADER_SIZE (cbuf_bytes payload)
                           else header)
             in Inr (filled, GX5125_OUTER_HEADER_SIZE + cbuf_len payload, wire))"

definition gx_outer_decode :: "cbuf \<Rightarrow> usb_error + gx_outer_view" where
  "gx_outer_decode frame =
     (if is_null frame \<or> cbuf_len frame < GX5125_OUTER_HEADER_SIZE
      then Inl LIBUSB_ERROR_INVALID_PARAM
      else
        let bs = cbuf_bytes frame
        in if \<not> gx_outer_family_supported (bs ! 0) then Inl LIBUSB_ERROR_IO
           else
             let payload_length = le16 (bs ! 1) (bs ! 2)
             in if unat payload_length > GX5125_OUTER_MAX_PAYLOAD
                   \<or> bs ! 3 \<noteq> gx_outer_checksum (bs ! 0) payload_length
                then Inl LIBUSB_ERROR_IO
                else
                  let required = GX5125_OUTER_HEADER_SIZE + unat payload_length
                  in if required > cbuf_len frame then Inl LIBUSB_ERROR_IO
                     else Inr \<lparr>ov_type_flags = bs ! 0,
                               ov_family = bs ! 0 AND 0xf0,
                               ov_payload_length = payload_length,
                               ov_payload = take (unat payload_length)
                                              (drop GX5125_OUTER_HEADER_SIZE bs)\<rparr>)"

section \<open>The abstract format\<close>

definition outer_header :: "u8 \<Rightarrow> nat \<Rightarrow> u8 list" where
  "outer_header t n =
     [t, lo8 (of_nat n), hi8 (of_nat n), gx_outer_checksum t (of_nat n)]"

definition outer_frame :: "u8 \<times> u8 list \<Rightarrow> u8 list" where
  "outer_frame f = outer_header (fst f) (length (snd f)) @ snd f"

definition outer_ok :: "u8 \<times> u8 list \<Rightarrow> bool" where
  "outer_ok f \<longleftrightarrow>
     gx_outer_family_supported (fst f) \<and> length (snd f) \<le> GX5125_OUTER_MAX_PAYLOAD"

definition outer_view_of :: "u8 \<times> u8 list \<Rightarrow> gx_outer_view" where
  "outer_view_of f =
     \<lparr>ov_type_flags = fst f, ov_family = fst f AND 0xf0,
      ov_payload_length = of_nat (length (snd f)), ov_payload = snd f\<rparr>"

lemma length_outer_header [buf_simps, simp]: "length (outer_header t n) = 4"
  by (simp add: outer_header_def)

lemma length_outer_frame [buf_simps, simp]: "length (outer_frame (t, p)) = 4 + length p"
  by (simp add: outer_frame_def)

lemma gx_outer_decode_frame:
  assumes "outer_ok f"
  shows "gx_outer_decode (Buf (outer_frame f @ rest)) = Inr (outer_view_of f)"
proof -
  have len: "unat (of_nat (length (snd f)) :: u16) = length (snd f)"
    using assms by (intro unat_of_nat_u16) (simp add: outer_ok_def outer_consts)
  show ?thesis
    using assms len
    by (simp add: gx_outer_decode_def outer_frame_def outer_header_def outer_ok_def
        outer_view_of_def outer_consts Let_def)
qed

lemma gx_outer_decode_sound:
  assumes "gx_outer_decode (Buf bs) = Inr v"
  shows "\<exists>f rest. outer_ok f \<and> bs = outer_frame f @ rest \<and> v = outer_view_of f"
proof -
  let ?n = "unat (le16 (bs ! 1) (bs ! 2))"
  let ?f = "(bs ! 0, take ?n (drop 4 bs))"
  from assms have c: "4 \<le> length bs" "gx_outer_family_supported (bs ! 0)"
    "?n \<le> GX5125_OUTER_MAX_PAYLOAD"
    "bs ! 3 = gx_outer_checksum (bs ! 0) (le16 (bs ! 1) (bs ! 2))"
    "4 + ?n \<le> length bs"
    and v: "v = \<lparr>ov_type_flags = bs ! 0, ov_family = bs ! 0 AND 0xf0,
      ov_payload_length = le16 (bs ! 1) (bs ! 2), ov_payload = take ?n (drop 4 bs)\<rparr>"
    by (auto simp: gx_outer_decode_def Let_def outer_consts split: if_splits)
  have n: "(of_nat (length (snd ?f)) :: u16) = le16 (bs ! 1) (bs ! 2)"
  proof -
    have "length (snd ?f) = ?n" using c(5) by simp
    then show ?thesis by (simp del: length_take)
  qed
  have "outer_header (bs ! 0) (length (snd ?f)) = [bs ! 0, bs ! 1, bs ! 2, bs ! 3]"
    using n c(4) by (simp add: outer_header_def del: length_take)
  moreover have "drop 4 bs = snd ?f @ drop (4 + ?n) bs"
    by (metis append_take_drop_id drop_drop add.commute snd_conv)
  ultimately have "bs = outer_frame ?f @ drop (4 + ?n) bs"
    using list4 [OF c(1)] unfolding outer_frame_def by simp
  moreover have "outer_ok ?f"
    using c by (simp add: outer_ok_def)
  moreover have "v = outer_view_of ?f"
    using v n by (simp add: outer_view_of_def)
  ultimately show ?thesis by blast
qed

interpretation outer: frame_codec outer_ok outer_frame "\<lambda>bs. gx_outer_decode (Buf bs)" outer_view_of
  by unfold_locales (rule gx_outer_decode_frame gx_outer_decode_sound, assumption)+

section \<open>Building frames\<close>

lemma wire_size_bounds:
  assumes "n \<le> GX5125_OUTER_MAX_PAYLOAD"
  shows "gx_outer_wire_size n mod 64 = 0" and "4 + n \<le> gx_outer_wire_size n"
    and "gx_outer_wire_size n < 4 + n + 64" and "0 < gx_outer_wire_size n"
proof -
  have e: "68 + n - (4 + n) mod 64 = 64 * ((4 + n) div 64 + 1)"
  proof -
    define q r where "q = (4 + n) div 64" and "r = (4 + n) mod 64"
    have "64 * q + r = 4 + n" unfolding q_def r_def by (rule mult_div_mod_eq)
    then have "68 + n - r = 64 * (q + 1)" by arith
    then show ?thesis by (simp add: q_def r_def)
  qed
  show "gx_outer_wire_size n mod 64 = 0"
    using assms by (simp add: gx_outer_wire_size_def outer_consts usb_consts Let_def e)
  have "(4 + n) mod 64 < 64" by simp
  then show "4 + n \<le> gx_outer_wire_size n" "gx_outer_wire_size n < 4 + n + 64"
    "0 < gx_outer_wire_size n"
    using assms by (auto simp: gx_outer_wire_size_def outer_consts usb_consts Let_def)
qed

text \<open>
  The wire size of a legal payload is the least multiple of the 64-byte block that holds the
  header and the payload, so it is never zero; an oversized payload has wire size zero, which the
  callers take as the error value.
\<close>

theorem wire_size_least_block_multiple:
  "gx_outer_wire_size n =
     (if n \<le> GX5125_OUTER_MAX_PAYLOAD then (LEAST w. 64 dvd w \<and> GX5125_OUTER_HEADER_SIZE + n \<le> w)
      else 0)"
proof (cases "n \<le> GX5125_OUTER_MAX_PAYLOAD")
  case True
  note b = wire_size_bounds [OF True]
  have "(LEAST w. 64 dvd w \<and> GX5125_OUTER_HEADER_SIZE + n \<le> w) = gx_outer_wire_size n"
  proof (rule Least_equality)
    show "64 dvd gx_outer_wire_size n \<and> GX5125_OUTER_HEADER_SIZE + n \<le> gx_outer_wire_size n"
      using b(1,2) by (simp add: outer_consts mod_eq_0_iff_dvd)
  next
    fix w
    assume w: "64 dvd w \<and> GX5125_OUTER_HEADER_SIZE + n \<le> w"
    obtain k j where "w = 64 * k" "gx_outer_wire_size n = 64 * j"
      using w b(1) by (auto simp: dvd_def)
    with w b(3) show "gx_outer_wire_size n \<le> w" by (simp add: outer_consts)
  qed
  with True show ?thesis by simp
next
  case False
  then show ?thesis by (simp add: gx_outer_wire_size_def)
qed

lemma list_update4:
  "(a # b # c # d # r)[0 := w, 1 := x, 2 := y, 3 := z] = w # x # y # z # r"
  by (simp add: numeral_2_eq_2 numeral_3_eq_3)

text \<open>What the code writes is the abstract frame, zero padding, and the untouched rest of the buffer.\<close>

lemma gx_outer_build_eq:
  assumes "outer_ok (t, p)" and "gx_outer_wire_size (length p) \<le> length out"
  shows "gx_outer_build t (Buf p) (Buf out) =
    Inr (outer_frame (t, p) @ replicate (gx_outer_wire_size (length p) - (4 + length p)) 0
           @ drop (gx_outer_wire_size (length p)) out,
         4 + length p, gx_outer_wire_size (length p))"
proof -
  let ?w = "gx_outer_wire_size (length p)"
  have n: "length p \<le> GX5125_OUTER_MAX_PAYLOAD"
    using assms(1) by (simp add: outer_ok_def)
  note b = wire_size_bounds [OF n]
  from b(2) obtain k where k: "?w = 4 + (length p + k)"
    by (metis add.assoc le_Suc_ex)
  have z: "mem_write out 0 (replicate ?w 0) = 0 # 0 # 0 # 0 # replicate (length p + k) 0 @ drop ?w out"
    by (simp add: mem_write_def k numeral_eq_Suc)
  have m: "mem_write (w # x # y # z # replicate (length p + k) 0 @ rest) 4 p
      = w # x # y # z # p @ replicate k 0 @ rest" for w x y z :: u8 and rest
    by (simp add: mem_write_def replicate_add numeral_eq_Suc)
  have "\<not> length out < ?w" "?w \<noteq> 0" "gx_outer_family_supported t"
    using assms b(4) by (simp_all add: outer_ok_def)
  with n show ?thesis
    by (simp only: gx_outer_build_def is_null.simps cbuf_len.simps cbuf_bytes.simps Let_def z
        list_update4 if_False simp_thms not_less [symmetric] m outer_consts outer_frame_def
        outer_header_def fst_conv snd_conv append_Cons append_Nil)
      (use k in \<open>auto simp: replicate_add\<close>)
qed

lemma gx_outer_build_success:
  assumes "gx_outer_build t payload output = Inr (buffer, logical, wire)"
  shows "outer_ok (t, cbuf_bytes payload)" and "length (cbuf_bytes payload) = cbuf_len payload"
    and "gx_outer_wire_size (cbuf_len payload) \<le> cbuf_len output"
    and "\<not> is_null output"
    and "buffer = outer_frame (t, cbuf_bytes payload)
           @ replicate (gx_outer_wire_size (cbuf_len payload) - (4 + cbuf_len payload)) 0
           @ drop (gx_outer_wire_size (cbuf_len payload)) (cbuf_bytes output)"
    and "logical = 4 + cbuf_len payload" and "wire = gx_outer_wire_size (cbuf_len payload)"
proof -
  from assms have c: "gx_outer_family_supported t" "\<not> is_null output"
    "\<not> (is_null payload \<and> cbuf_len payload \<noteq> 0)" "cbuf_len payload \<le> GX5125_OUTER_MAX_PAYLOAD"
    and w: "gx_outer_wire_size (cbuf_len payload) \<le> cbuf_len output"
    by (auto simp: gx_outer_build_def Let_def split: if_splits)
  note len = length_cbuf_bytes [OF c(3)]
  obtain out where o: "output = Buf out" using not_null_Buf [OF c(2)] ..
  have ok: "outer_ok (t, cbuf_bytes payload)" using c len by (simp add: outer_ok_def)
  have same: "gx_outer_build t payload output = gx_outer_build t (Buf (cbuf_bytes payload)) output"
    using len c(3) by (cases payload) (simp_all add: gx_outer_build_def Let_def)
  have "gx_outer_build t payload output =
    Inr (outer_frame (t, cbuf_bytes payload)
           @ replicate (gx_outer_wire_size (cbuf_len payload) - (4 + cbuf_len payload)) 0
           @ drop (gx_outer_wire_size (cbuf_len payload)) out,
         4 + cbuf_len payload, gx_outer_wire_size (cbuf_len payload))"
    using gx_outer_build_eq [OF ok, of out] w o len same by simp
  with assms o show "buffer = outer_frame (t, cbuf_bytes payload)
           @ replicate (gx_outer_wire_size (cbuf_len payload) - (4 + cbuf_len payload)) 0
           @ drop (gx_outer_wire_size (cbuf_len payload)) (cbuf_bytes output)"
    "logical = 4 + cbuf_len payload" "wire = gx_outer_wire_size (cbuf_len payload)" by simp_all
  show "outer_ok (t, cbuf_bytes payload)" "length (cbuf_bytes payload) = cbuf_len payload"
    "gx_outer_wire_size (cbuf_len payload) \<le> cbuf_len output" "\<not> is_null output"
    using ok len w c by simp_all
qed

text \<open>
  Outer round trip. Whatever \<open>gx_outer_build\<close> accepts, \<open>gx_outer_decode\<close> reads back from
  the buffer it filled: the type byte, its family, the payload length and exactly the payload
  bytes; the padding and whatever follows it in the buffer are ignored.
\<close>

theorem outer_round_trip:
  assumes "gx_outer_build t payload output = Inr (buffer, logical, wire)"
  shows "gx_outer_decode (Buf buffer) =
    Inr \<lparr>ov_type_flags = t, ov_family = t AND 0xf0,
         ov_payload_length = of_nat (cbuf_len payload), ov_payload = cbuf_bytes payload\<rparr>"
proof -
  note b = gx_outer_build_success [OF assms]
  have "gx_outer_decode (Buf buffer) = Inr (outer_view_of (t, cbuf_bytes payload))"
    unfolding b(5) using outer.decode_frame [OF b(1)] .
  then show ?thesis by (simp add: outer_view_of_def b(2))
qed

theorem outer_round_trip_witness:
  "\<exists>buffer. gx_outer_decode (Buf buffer) =
    Inr \<lparr>ov_type_flags = 0xa0, ov_family = 0xa0 AND 0xf0,
         ov_payload_length = of_nat (cbuf_len (Buf [1, 2, 3])), ov_payload = cbuf_bytes (Buf [1, 2, 3])\<rparr>"
proof -
  have ok: "outer_ok (0xa0, [1, 2, 3])"
    by (simp add: outer_ok_def gx_outer_family_supported_def outer_consts Let_def)
  have "gx_outer_wire_size (length [1, 2, 3 :: u8]) \<le> length (replicate 64 (9 :: u8))"
    by (simp add: gx_outer_wire_size_def outer_consts usb_consts Let_def)
  from outer_round_trip [OF gx_outer_build_eq [OF ok this]] show ?thesis by (rule exI)
qed

text \<open>
  The outer decoder is sound and complete: it accepts a byte string exactly when the string
  starts with a well-formed frame (supported family, payload within the maximum, correct header
  checksum, all payload bytes present), and what it returns is that frame's view.
\<close>

theorem outer_decode_iff_frame:
  "gx_outer_decode (Buf bs) = Inr v \<longleftrightarrow>
     (\<exists>t p rest. gx_outer_family_supported t \<and> length p \<le> GX5125_OUTER_MAX_PAYLOAD
        \<and> bs = outer_frame (t, p) @ rest
        \<and> v = \<lparr>ov_type_flags = t, ov_family = t AND 0xf0,
               ov_payload_length = of_nat (length p), ov_payload = p\<rparr>)"
  by (simp add: outer.decode_iff outer_ok_def outer_view_of_def)

section \<open>Sending\<close>

text \<open>
  \<open>gx_transport_send_outer\<close>: allocate a wire buffer, build the frame into it, write it in
  64-byte blocks, free the buffer. A \<open>calloc\<close> that returns null is an error reply to \<open>Calloc\<close>.
\<close>

definition gx_transport_send_outer ::
    "environment \<Rightarrow> gx_usb_device \<Rightarrow> u8 \<Rightarrow> cbuf \<Rightarrow> nat \<Rightarrow> history \<Rightarrow>
     (usb_error + unit) \<times> history" where
  "gx_transport_send_outer env dev type_flags payload timeout_ms h =
     (let wire_capacity = gx_outer_wire_size (cbuf_len payload)
      in if wire_capacity = 0 then (Inl LIBUSB_ERROR_INVALID_PARAM, h)
         else
           let (a, h1) = ext_do env (Calloc wire_capacity) h
           in case reply_rc a of
                Inl _ \<Rightarrow> (Inl LIBUSB_ERROR_NO_MEM, h1)
              | Inr _ \<Rightarrow>
                  let (rc, h2) =
                        (case gx_outer_build type_flags payload (Buf (replicate wire_capacity 0)) of
                           Inl e \<Rightarrow> (Inl e, h1)
                         | Inr (wire, logical_length, wire_length) \<Rightarrow>
                             gx_usb_bulk_write_64 env dev (Buf (take wire_length wire)) timeout_ms h1)
                  in (rc, snd (ext_do env Free h2)))"

text \<open>The bytes the calls after a history moved to the bulk-out endpoint, as libusb reports it, in order.\<close>

fun bytes_out :: "environment \<Rightarrow> history \<Rightarrow> history \<Rightarrow> u8 list" where
  "bytes_out env past [] = []"
| "bytes_out env past (Libusb_bulk_out ep bs t # cs) =
     take (reply_moved (env past (Libusb_bulk_out ep bs t))) bs @ bytes_out env (past @ [Libusb_bulk_out ep bs t]) cs"
| "bytes_out env past (c # cs) = bytes_out env (past @ [c]) cs"

lemma bytes_out_append [simp]: "bytes_out env past (a @ b) = bytes_out env past a @ bytes_out env (past @ a) b"
  by (induction env past a rule: bytes_out.induct) simp_all

lemma bytes_out_block:
  "bytes_out env h [block_call t bs i] = take (reply_moved (env h (block_call t bs i))) (take 64 (drop (64 * i) bs))"
  by (simp add: block_call_def)

lemma bytes_out_blocks:
  "list_all (\<lambda>i. block_moved (block_reply env h t bs i)) [0..<k] \<Longrightarrow> bytes_out env h (map (block_call t bs) [0..<k]) = take (64 * k) bs"
proof (induction k)
  case (Suc k)
  then have "reply_moved (block_reply env h t bs k) = 64" by (simp add: block_moved_def)
  then have "bytes_out env (h @ map (block_call t bs) [0..<k]) [block_call t bs k] = take 64 (drop (64 * k) bs)"
    by (simp add: bytes_out_block block_reply_def)
  then show ?case using Suc by (simp add: add.commute [of 64] take_add)
qed simp

lemma send_outer_on_wire:
  assumes "gx_transport_send_outer env dev t payload timeout h = (Inr (), h')"
  shows "\<exists>sent n. h' = h @ sent \<and> n < 64
    \<and> bytes_out env h sent = outer_frame (t, cbuf_bytes payload) @ replicate n 0
    \<and> gx_outer_decode (Buf (bytes_out env h sent)) = Inr (outer_view_of (t, cbuf_bytes payload))"
proof -
  let ?w = "gx_outer_wire_size (cbuf_len payload)"
  let ?h1 = "h @ [Calloc ?w]"
  from assms obtain buffer logical wire h2 where
    b: "gx_outer_build t payload (Buf (replicate ?w 0)) = Inr (buffer, logical, wire)"
    and w: "gx_usb_bulk_write_64 env dev (Buf (take wire buffer)) timeout ?h1 = (Inr (), h2)"
    and h': "h' = h2 @ [Free]"
    by (auto simp: gx_transport_send_outer_def ext_do_def Let_def split: if_splits sum.splits prod.splits)
  note s = gx_outer_build_success [OF b]
  let ?n = "?w - (4 + cbuf_len payload)"
  let ?bs = "outer_frame (t, cbuf_bytes payload) @ replicate ?n 0"
  have n: "cbuf_len payload \<le> GX5125_OUTER_MAX_PAYLOAD"
    using s(1,2) by (simp add: outer_ok_def)
  note bounds = wire_size_bounds [OF n]
  have "take wire buffer = ?bs"
    using s(2,5,7) bounds(2) by simp
  with w have "gx_usb_bulk_write_64 env dev (Buf ?bs) timeout ?h1 = (Inr (), h2)" by simp
  from bulk_write_history [OF this] obtain k where
    k: "h2 = ?h1 @ map (block_call timeout ?bs) [0..<k]" "64 * k = length ?bs"
      "list_all (\<lambda>i. block_moved (block_reply env ?h1 timeout ?bs i)) [0..<k]"
    by (auto simp: blocks_outcome_def split: if_splits)
  let ?sent = "Calloc ?w # map (block_call timeout ?bs) [0..<k] @ [Free]"
  have out: "bytes_out env h ?sent = ?bs"
    using k(2) bytes_out_blocks [OF k(3)] by simp
  have "h' = h @ ?sent"
    using k(1) h' by simp
  moreover have "?n < 64" using bounds(3) by simp
  moreover have "gx_outer_decode (Buf ?bs) = Inr (outer_view_of (t, cbuf_bytes payload))"
    using outer.decode_frame [OF s(1)] .
  ultimately show ?thesis using out by metis
qed

text \<open>
  C8: sending is faithful on the wire. When \<open>gx_transport_send_outer\<close> reports success, the bytes
  libusb moved to the bulk-out endpoint are exactly the outer frame of the payload followed by fewer
  than 64 zero bytes; a receiver that decodes them recovers the payload.
\<close>

theorem send_outer_wire_bytes:
  assumes "gx_transport_send_outer env dev t payload timeout h = (Inr (), h')"
  shows "\<exists>sent n. h' = h @ sent \<and> n < 64
    \<and> bytes_out env h sent = outer_frame (t, cbuf_bytes payload) @ replicate n 0
    \<and> gx_outer_decode (Buf (bytes_out env h sent)) = Inr (outer_view_of (t, cbuf_bytes payload))"
  using assms by (rule send_outer_on_wire)

lemma bulk_write_io: "grows io_call h (snd (bulk_write_loop env t bs h))"
proof (induction env t bs h rule: bulk_write_loop.induct)
  case (1 env t rest h)
  let ?c = "Libusb_bulk_out GX5125_ENDPOINT_BULK_OUT (take GX5125_USB_BLOCK_SIZE rest) t"
  have "grows io_call h (h @ [?c])" by (rule grows_snoc) simp_all
  then show ?case
    using 1 [OF _ refl, of "env h ?c" "h @ [?c]"] grows_trans [of io_call h "h @ [?c]"]
    by (subst bulk_write_loop.simps) (auto simp: ext_do_def split: sum.split)
qed

lemma send_outer_io: "grows io_call h (snd (gx_transport_send_outer env dev t p timeout h))"
proof -
  let ?c = "Calloc (gx_outer_wire_size (cbuf_len p))"
  have c: "grows io_call h (h @ [?c])" by (rule grows_snoc) simp_all
  have w: "grows io_call h (snd (gx_usb_bulk_write_64 env dev b timeout (h @ [?c])))" for b
    using grows_trans [OF c bulk_write_io] c by (simp add: gx_usb_bulk_write_64_def)
  show ?thesis
  proof (cases "gx_outer_build t p (Buf (replicate (gx_outer_wire_size (cbuf_len p)) 0))")
    case (Inl e)
    then show ?thesis using c grows_snoc [OF c, of Free] by (auto simp: gx_transport_send_outer_def ext_do_def Let_def split: sum.split)
  next
    case (Inr b)
    obtain wire l n where b: "b = (wire, l, n)" by (rule prod_cases3)
    show ?thesis
      using c grows_snoc [OF w [of "Buf (take n wire)"], of Free]
      by (auto simp: gx_transport_send_outer_def ext_do_def Let_def Inr b split_beta split: sum.split)
  qed
qed

text \<open>When nothing outside fails and the data interface is claimed, a legal frame is sent.\<close>

lemma send_outer_progress:
  assumes "calls_work env"
    and "ud_handle dev" and "claimed_data dev" and "outer_ok (t, p)"
  shows "fst (gx_transport_send_outer env dev t (Buf p) timeout h) = Inr ()"
proof -
  let ?w = "gx_outer_wire_size (length p)"
  let ?bs = "outer_frame (t, p) @ replicate (?w - (4 + length p)) 0"
  have n: "length p \<le> GX5125_OUTER_MAX_PAYLOAD"
    using assms(4) by (simp add: outer_ok_def)
  note bounds = wire_size_bounds [OF n]
  have len: "length ?bs = ?w" using bounds(2) by simp
  then have "?bs \<noteq> []" using bounds(4) by fastforce
  then have "fst (gx_usb_bulk_write_64 env dev (Buf ?bs) timeout h1) = Inr ()" for h1
    using assms(1-3) bounds(1) len
    by (simp only: gx_usb_bulk_write_64_def is_null.simps cbuf_len.simps cbuf_bytes.simps usb_consts
        bulk_write_loop_progress) (simp add: bulk_write_loop_progress)
  moreover have "take ?w (?bs @ r) = ?bs" for r
    by (metis append_eq_conv_conj len)
  ultimately show ?thesis
    using assms(1) bounds(4) gx_outer_build_eq [OF assms(4), of "replicate ?w 0"]
    by (simp add: calls_work_def gx_transport_send_outer_def ext_do_def Let_def split_beta)
qed

theorem send_outer_wire_bytes_witness:
  "\<exists>sent n. snd (gx_transport_send_outer quiet_env claimed_device 0xa0 (Buf [1, 2, 3]) 1000 [])
      = [] @ sent \<and> n < 64
    \<and> bytes_out quiet_env [] sent = outer_frame (0xa0, cbuf_bytes (Buf [1, 2, 3])) @ replicate n 0
    \<and> gx_outer_decode (Buf (bytes_out quiet_env [] sent)) = Inr (outer_view_of (0xa0, cbuf_bytes (Buf [1, 2, 3])))"
proof -
  let ?r = "gx_transport_send_outer quiet_env claimed_device 0xa0 (Buf [1, 2, 3]) 1000 []"
  have "fst ?r = Inr ()"
    by (rule send_outer_progress)
      (simp_all add: quiet_works claimed_device_def zero_usb_device_def outer_ok_def
        gx_outer_family_supported_def outer_consts Let_def)
  then have "?r = (Inr (), snd ?r)" by (metis prod.collapse)
  then show ?thesis by (rule send_outer_wire_bytes)
qed

end
