(* ===== verification/Protocol.thy ===== *)
theory Protocol
  imports Transport
begin

text \<open>
  The inner command frame of \<open>src/gx_protocol.c\<close>: a command byte (four bits \<open>cmd0\<close>, three bits
  \<open>cmd1\<close>, one no-acknowledge bit), a little-endian length that counts the data and the checksum,
  the data, and an additive checksum to the target \<open>0xaa\<close>; and \<open>gx_command_wire_build\<close>, which
  nests an inner frame in an outer one.
\<close>

definition GX5125_INNER_CHECKSUM_TARGET :: u8 where "GX5125_INNER_CHECKSUM_TARGET = 0xaa"
definition GX5125_INNER_CHECKSUM_BYPASS :: u8 where "GX5125_INNER_CHECKSUM_BYPASS = 0x88"

lemmas inner_consts = GX5125_INNER_CHECKSUM_TARGET_def GX5125_INNER_CHECKSUM_BYPASS_def

record gx_inner_view =
  iv_command_byte :: u8
  iv_cmd0 :: u8
  iv_cmd1 :: u8
  iv_no_ack :: bool
  iv_inner_length :: u16
  iv_data :: "u8 list"
  iv_checksum :: u8
  iv_checksum_ok :: bool

definition gx_inner_command_byte :: "u8 \<Rightarrow> u8 \<Rightarrow> bool \<Rightarrow> u8" where
  "gx_inner_command_byte cmd0 cmd1 wait_for_ack =
     (let value = push_bit 4 cmd0 OR push_bit 1 cmd1
      in if \<not> wait_for_ack then value OR 0x01 else value)"

definition gx_inner_checksum :: "u8 \<Rightarrow> u16 \<Rightarrow> u8 list \<Rightarrow> u8" where
  "gx_inner_checksum command_byte inner_length data =
     (let sum0 = (command_byte AND 0xfe) + lo8 inner_length + hi8 inner_length;
          sum = foldl (+) sum0 data
      in GX5125_INNER_CHECKSUM_TARGET - sum)"

definition gx_inner_build ::
    "u8 \<Rightarrow> u8 \<Rightarrow> bool \<Rightarrow> cbuf \<Rightarrow> cbuf \<Rightarrow> usb_error + (u8 list \<times> nat)" where
  "gx_inner_build cmd0 cmd1 wait_for_ack data output =
     (if cmd0 > 0x0f \<or> cmd1 > 0x07 \<or> is_null data \<and> cbuf_len data \<noteq> 0 \<or> is_null output
         \<or> cbuf_len data > 65535 - 1
      then Inl LIBUSB_ERROR_INVALID_PARAM
      else
        let inner_length = (of_nat (cbuf_len data + 1) :: u16);
            total_length = 3 + unat inner_length
        in if cbuf_len output < total_length then Inl LIBUSB_ERROR_OVERFLOW
           else
             let command_byte = gx_inner_command_byte cmd0 cmd1 wait_for_ack;
                 header = (cbuf_bytes output)[0 := command_byte, 1 := lo8 inner_length,
                                              2 := hi8 inner_length];
                 filled = (if cbuf_len data \<noteq> 0 then mem_write header 3 (cbuf_bytes data)
                           else header);
                 sealed = filled[3 + cbuf_len data :=
                            gx_inner_checksum command_byte inner_length (cbuf_bytes data)]
             in Inr (sealed, total_length))"

definition gx_inner_decode :: "cbuf \<Rightarrow> usb_error + gx_inner_view" where
  "gx_inner_decode frame =
     (if is_null frame \<or> cbuf_len frame < 4 then Inl LIBUSB_ERROR_INVALID_PARAM
      else
        let bs = cbuf_bytes frame;
            inner_length = le16 (bs ! 1) (bs ! 2)
        in if inner_length < 1 then Inl LIBUSB_ERROR_IO
           else
             let required_length = 3 + unat inner_length
             in if required_length > cbuf_len frame then Inl LIBUSB_ERROR_IO
                else
                  let data_length = unat inner_length - 1;
                      data = take data_length (drop 3 bs);
                      checksum = bs ! (3 + data_length);
                      expected = gx_inner_checksum (bs ! 0) inner_length data
                  in Inr \<lparr>iv_command_byte = bs ! 0,
                          iv_cmd0 = drop_bit 4 (bs ! 0),
                          iv_cmd1 = drop_bit 1 (bs ! 0 AND 0x0f),
                          iv_no_ack = (bs ! 0 AND 0x01 \<noteq> 0),
                          iv_inner_length = inner_length,
                          iv_data = data,
                          iv_checksum = checksum,
                          iv_checksum_ok = (checksum = GX5125_INNER_CHECKSUM_BYPASS
                                            \<or> checksum = expected)\<rparr>)"

definition gx_command_wire_build ::
    "u8 \<Rightarrow> u8 \<Rightarrow> bool \<Rightarrow> cbuf \<Rightarrow> cbuf \<Rightarrow> usb_error + (u8 list \<times> nat \<times> nat)" where
  "gx_command_wire_build cmd0 cmd1 wait_for_ack data output =
     (if is_null output then Inl LIBUSB_ERROR_INVALID_PARAM
      else
        case gx_inner_build cmd0 cmd1 wait_for_ack data
               (Buf (replicate GX5125_OUTER_MAX_PAYLOAD 0)) of
          Inl e \<Rightarrow> Inl e
        | Inr (inner, inner_length) \<Rightarrow>
            gx_outer_build GX5125_OUTER_COMMAND (Buf (take inner_length inner)) output)"

section \<open>The abstract format\<close>

text \<open>A description is the command byte, the data and the checksum byte that is on the wire.\<close>

type_synonym inner_desc = "u8 \<times> u8 list \<times> u8"

definition inner_frame :: "inner_desc \<Rightarrow> u8 list" where
  "inner_frame d = (case d of (c, data, ck) \<Rightarrow>
     [c, lo8 (of_nat (length data + 1)), hi8 (of_nat (length data + 1))] @ data @ [ck])"

definition inner_ok :: "inner_desc \<Rightarrow> bool" where
  "inner_ok d \<longleftrightarrow> length (fst (snd d)) < 65535"

definition right_checksum :: "u8 \<Rightarrow> u8 list \<Rightarrow> u8" where
  "right_checksum c data = gx_inner_checksum c (of_nat (length data + 1)) data"

definition inner_view_of :: "inner_desc \<Rightarrow> gx_inner_view" where
  "inner_view_of d = (case d of (c, data, ck) \<Rightarrow>
     \<lparr>iv_command_byte = c, iv_cmd0 = drop_bit 4 c, iv_cmd1 = drop_bit 1 (c AND 0x0f),
      iv_no_ack = (c AND 0x01 \<noteq> 0), iv_inner_length = of_nat (length data + 1),
      iv_data = data, iv_checksum = ck,
      iv_checksum_ok = (ck = GX5125_INNER_CHECKSUM_BYPASS \<or> ck = right_checksum c data)\<rparr>)"

lemma length_inner_frame [buf_simps, simp]: "length (inner_frame (c, data, ck)) = 4 + length data"
  by (simp add: inner_frame_def)

lemma unat_inner_length: "n < 65535 \<Longrightarrow> unat (of_nat (n + 1) :: u16) = n + 1"
  by (rule unat_of_nat_u16) simp

lemma gx_inner_decode_frame:
  assumes "inner_ok d"
  shows "gx_inner_decode (Buf (inner_frame d @ rest)) = Inr (inner_view_of d)"
proof -
  obtain c data ck where d: "d = (c, data, ck)" by (metis prod_cases3)
  have n: "unat (of_nat (length data + 1) :: u16) = length data + 1"
    using assms by (intro unat_inner_length) (simp add: inner_ok_def d)
  have nz: "\<not> (of_nat (length data + 1) :: u16) < 1"
    using n by (simp add: word_less_nat_alt)
  have "([c, lo8 (of_nat (length data + 1)), hi8 (of_nat (length data + 1))] @ data @ [ck] @ rest)
      ! (3 + length data) = ck"
    by (simp add: nth_append)
  then show ?thesis
    using n nz
    by (simp add: d gx_inner_decode_def inner_frame_def inner_view_of_def right_checksum_def Let_def
        nth_append numeral_3_eq_3)
qed

lemma gx_inner_decode_sound:
  assumes "gx_inner_decode (Buf bs) = Inr v"
  shows "\<exists>d rest. inner_ok d \<and> bs = inner_frame d @ rest \<and> v = inner_view_of d"
proof -
  let ?len = "le16 (bs ! 1) (bs ! 2)"
  let ?n = "unat ?len - 1"
  let ?d = "(bs ! 0, take ?n (drop 3 bs), bs ! (3 + ?n))"
  from assms have c: "4 \<le> length bs" "\<not> ?len < 1" "3 + unat ?len \<le> length bs"
    and v: "v = \<lparr>iv_command_byte = bs ! 0, iv_cmd0 = drop_bit 4 (bs ! 0),
      iv_cmd1 = drop_bit 1 (bs ! 0 AND 0x0f), iv_no_ack = (bs ! 0 AND 0x01 \<noteq> 0),
      iv_inner_length = ?len, iv_data = take ?n (drop 3 bs), iv_checksum = bs ! (3 + ?n),
      iv_checksum_ok = (bs ! (3 + ?n) = GX5125_INNER_CHECKSUM_BYPASS
        \<or> bs ! (3 + ?n) = gx_inner_checksum (bs ! 0) ?len (take ?n (drop 3 bs)))\<rparr>"
    by (auto simp: gx_inner_decode_def Let_def split: if_splits)
  have pos: "1 \<le> unat ?len" using c(2) by (simp add: word_less_nat_alt)
  have len: "length (take ?n (drop 3 bs)) = ?n" using c(3) by simp
  have w: "(of_nat (length (take ?n (drop 3 bs)) + 1) :: u16) = ?len"
    using pos unfolding len by simp
  have "unat ?len < 65536" by (rule unat_u16_less)
  with pos have "?n < 65535" by linarith
  then have ok: "inner_ok ?d" using len by (simp add: inner_ok_def)
  have head: "bs = [bs ! 0, bs ! 1, bs ! 2] @ drop 3 bs"
    using c(1) by (auto simp: numeral_eq_Suc Suc_le_length_iff)
  have "drop 3 bs = take ?n (drop 3 bs) @ bs ! (3 + ?n) # drop (Suc (3 + ?n)) bs"
    using c(3) pos by (intro drop_split_nth) linarith
  then have "bs = inner_frame ?d @ drop (Suc (3 + ?n)) bs"
    using head w by (simp add: inner_frame_def)
  moreover have "v = inner_view_of ?d"
    using v w by (simp add: inner_view_of_def right_checksum_def)
  ultimately show ?thesis using ok by blast
qed

interpretation inner: frame_codec inner_ok inner_frame "\<lambda>bs. gx_inner_decode (Buf bs)" inner_view_of
  by unfold_locales (rule gx_inner_decode_frame gx_inner_decode_sound, assumption)+

interpretation command: nested_codec
    outer_ok outer_frame "\<lambda>bs. gx_outer_decode (Buf bs)" outer_view_of
    inner_ok inner_frame "\<lambda>bs. gx_inner_decode (Buf bs)" inner_view_of
    "\<lambda>p. (GX5125_OUTER_COMMAND, p)" ov_payload
  by unfold_locales (simp add: outer_view_of_def)

section \<open>Building frames\<close>

lemma gx_inner_build_eq:
  fixes cmd0 cmd1 :: u8 and w :: bool and p out :: "u8 list"
  assumes "cmd0 \<le> 0x0f" and "cmd1 \<le> 0x07" and "length p < 65535" and "4 + length p \<le> length out"
  defines "c \<equiv> gx_inner_command_byte cmd0 cmd1 w"
  shows "gx_inner_build cmd0 cmd1 w (Buf p) (Buf out) =
    Inr (inner_frame (c, p, right_checksum c p) @ drop (4 + length p) out, 4 + length p)"
proof -
  have n: "unat (of_nat (length p + 1) :: u16) = length p + 1"
    using assms(3) by (rule unat_inner_length)
  obtain x0 x1 x2 x3 rest where out: "out = x0 # x1 # x2 # rest" and r: "length p + 1 \<le> length rest"
    using assms(4) by (auto simp: numeral_eq_Suc Suc_le_length_iff)
  have u: "(x0 # x1 # x2 # rest)[0 := a, 1 := b, 2 := d] = a # b # d # rest" for a b d
    by (simp add: numeral_2_eq_2)
  have m: "(if length p \<noteq> 0 then mem_write (a # b # d # rest) 3 p else a # b # d # rest)
      = [a, b, d] @ p @ drop (length p) rest" for a b d
    by (simp add: mem_write_def numeral_3_eq_3)
  obtain y ys where y: "drop (length p) rest = y # ys"
    using r by (metis Suc_eq_plus1 Suc_le_eq drop_eq_Nil leD list.exhaust)
  have ys: "ys = drop (4 + length p) out"
  proof -
    have "drop (Suc (length p)) rest = ys"
      using y by (metis drop_Suc list.sel(3) tl_drop)
    then show ?thesis by (simp add: out numeral_eq_Suc)
  qed
  have "([a, b, d] @ p @ y # ys)[3 + length p := e] = [a, b, d] @ p @ e # ys" for a b d e
    by (simp add: numeral_3_eq_3)
  then show ?thesis
    using assms n
    by (simp only: gx_inner_build_def Let_def is_null.simps cbuf_len.simps cbuf_bytes.simps out u m y
        simp_thms not_less [symmetric] if_False)
      (auto simp: inner_frame_def right_checksum_def c_def ys [symmetric, unfolded out])
qed

lemma gx_inner_build_success:
  assumes "gx_inner_build cmd0 cmd1 w data output = Inr (buffer, n)"
  defines "c \<equiv> gx_inner_command_byte cmd0 cmd1 w" and "p \<equiv> cbuf_bytes data"
  shows "cmd0 \<le> 0x0f" and "cmd1 \<le> 0x07" and "inner_ok (c, p, right_checksum c p)"
    and "length p = cbuf_len data" and "n = 4 + length p" and "n \<le> cbuf_len output"
    and "buffer = inner_frame (c, p, right_checksum c p) @ drop n (cbuf_bytes output)"
proof -
  from assms(1) have g: "cmd0 \<le> 0x0f" "cmd1 \<le> 0x07" "\<not> (is_null data \<and> cbuf_len data \<noteq> 0)"
    "\<not> is_null output" "cbuf_len data < 65535"
    by (auto simp: gx_inner_build_def Let_def split: if_splits)
  have u: "unat (of_nat (cbuf_len data + 1) :: u16) = cbuf_len data + 1"
    using g(5) by (rule unat_inner_length)
  from assms(1) g u have cap: "4 + cbuf_len data \<le> cbuf_len output"
    by (auto simp: gx_inner_build_def Let_def split: if_splits)
  have len: "length p = cbuf_len data"
    unfolding p_def using g(3) by (rule length_cbuf_bytes)
  obtain out where o: "output = Buf out" using not_null_Buf [OF g(4)] ..
  have same: "gx_inner_build cmd0 cmd1 w data output = gx_inner_build cmd0 cmd1 w (Buf p) (Buf out)"
    using g(3) len unfolding p_def o
    by (cases data) (simp_all add: gx_inner_build_def Let_def)
  have "gx_inner_build cmd0 cmd1 w (Buf p) (Buf out) =
      Inr (inner_frame (c, p, right_checksum c p) @ drop (4 + length p) out, 4 + length p)"
    unfolding c_def using g(1,2,5) cap len o by (intro gx_inner_build_eq) simp_all
  with assms(1) same have r: "n = 4 + length p"
    "buffer = inner_frame (c, p, right_checksum c p) @ drop (4 + length p) out" by auto
  show "cmd0 \<le> 0x0f" "cmd1 \<le> 0x07" "inner_ok (c, p, right_checksum c p)"
    "length p = cbuf_len data" "n = 4 + length p" "n \<le> cbuf_len output"
    "buffer = inner_frame (c, p, right_checksum c p) @ drop n (cbuf_bytes output)"
    using g len cap o r by (simp_all add: inner_ok_def)
qed

lemma not_bit_of_less:
  assumes "unat x < 2 ^ k" and "k \<le> n"
  shows "\<not> bit (x :: u8) n"
proof -
  have "unat (take_bit k x) = unat x"
    using assms(1) by (simp add: unsigned_take_bit_eq take_bit_nat_eq_self)
  then have "take_bit k x = x" by (rule unsigned_word_eqI)
  with assms(2) show ?thesis by (metis bit_take_bit_iff not_less)
qed

lemma command_byte_fields:
  fixes cmd0 cmd1 :: u8 and w :: bool
  assumes "cmd0 \<le> 0x0f" and "cmd1 \<le> 0x07"
  defines "c \<equiv> gx_inner_command_byte cmd0 cmd1 w"
  shows "drop_bit 4 c = cmd0" and "drop_bit 1 (c AND 0x0f) = cmd1" and "c AND 0x01 \<noteq> 0 \<longleftrightarrow> \<not> w"
proof -
  have m: "(0x0f :: u8) = mask 4" by (simp add: mask_eq_exp_minus_1)
  have b0: "\<not> bit cmd0 n" if "4 \<le> n" for n
    using assms(1) that by (intro not_bit_of_less [of _ 4]) (simp_all add: word_le_nat_alt)
  have b1: "\<not> bit cmd1 n" if "3 \<le> n" for n
    using assms(2) that by (intro not_bit_of_less [of _ 3]) (simp_all add: word_le_nat_alt)
  have c: "bit c n \<longleftrightarrow> 4 \<le> n \<and> n < 8 \<and> bit cmd0 (n - 4) \<or> 1 \<le> n \<and> n < 8 \<and> bit cmd1 (n - 1) \<or> n = 0 \<and> \<not> w" for n
    unfolding c_def gx_inner_command_byte_def Let_def
    by (cases w) (simp_all only: if_True if_False simp_thms bit_or_iff bit_push_bit_iff bit_1_iff
        possible_bit_word, auto)
  have d0: "bit cmd0 n \<Longrightarrow> n < 4" for n using b0 [of n] by linarith
  have d1: "bit cmd1 n \<Longrightarrow> n < 3" for n using b1 [of n] by linarith
  show "drop_bit 4 c = cmd0"
    by (rule bit_word_eqI) (auto simp: bit_simps c dest: d0 d1)
  show "drop_bit 1 (c AND 0x0f) = cmd1"
    unfolding m by (rule bit_word_eqI) (auto simp: bit_simps c dest: d0 d1)
  show "c AND 0x01 \<noteq> 0 \<longleftrightarrow> \<not> w"
    using c [of 0] by (simp add: and_one_eq bit_0 even_iff_mod_2_eq_zero)
qed

text \<open>What a receiver sees of a frame that \<open>gx_inner_build\<close> made.\<close>

lemma sent_view:
  fixes cmd0 cmd1 :: u8 and w :: bool and p :: "u8 list"
  assumes "cmd0 \<le> 0x0f" and "cmd1 \<le> 0x07"
  defines "c \<equiv> gx_inner_command_byte cmd0 cmd1 w"
  defines "v \<equiv> inner_view_of (c, p, right_checksum c p)"
  shows "iv_cmd0 v = cmd0" and "iv_cmd1 v = cmd1" and "iv_no_ack v = (\<not> w)"
    and "iv_data v = p" and "iv_checksum_ok v"
  unfolding v_def inner_view_of_def prod.case gx_inner_view.simps c_def
  using command_byte_fields [OF assms(1,2), of w] by (simp_all only: simp_thms refl)

section \<open>Properties\<close>

text \<open>
  Inner round trip. Whatever \<open>gx_inner_build\<close> accepts, \<open>gx_inner_decode\<close> reads back: the
  same two command fields, the acknowledge flag, exactly the data bytes, and a checksum that
  verifies, whatever follows the frame in the output buffer.
\<close>

theorem inner_round_trip:
  assumes "gx_inner_build cmd0 cmd1 wait_for_ack data output = Inr (buffer, n)"
  shows "\<exists>v. gx_inner_decode (Buf buffer) = Inr v \<and> iv_cmd0 v = cmd0 \<and> iv_cmd1 v = cmd1
    \<and> iv_no_ack v = (\<not> wait_for_ack) \<and> iv_data v = cbuf_bytes data \<and> iv_checksum_ok v
    \<and> n = 4 + length (cbuf_bytes data)"
proof -
  note b = gx_inner_build_success [OF assms]
  show ?thesis
    unfolding b(7) using inner.decode_frame [OF b(3)] b(5)
    by (simp add: sent_view [OF b(1,2)])
qed

theorem inner_round_trip_witness:
  "\<exists>buffer v. gx_inner_decode (Buf buffer) = Inr v \<and> iv_cmd0 v = 0x0a \<and> iv_cmd1 v = 4
    \<and> iv_no_ack v = (\<not> True) \<and> iv_data v = cbuf_bytes (Buf [0, 0]) \<and> iv_checksum_ok v
    \<and> (6 :: nat) = 4 + length (cbuf_bytes (Buf [0, 0]))"
proof -
  let ?c = "gx_inner_command_byte 0x0a 4 True"
  let ?b = "inner_frame (?c, [0, 0], right_checksum ?c [0, 0]) @ drop (4 + length [0, 0 :: u8]) [9, 9, 9, 9, 9, 9, 9]"
  have "gx_inner_build 0x0a 4 True (Buf [0, 0]) (Buf [9, 9, 9, 9, 9, 9, 9]) =
    Inr (?b, 4 + length [0, 0 :: u8])"
    by (rule gx_inner_build_eq) simp_all
  from inner_round_trip [OF this] show ?thesis by (intro exI [of _ ?b]) simp
qed

lemma command_wire_build_progress:
  fixes p out :: "u8 list" and cmd0 cmd1 :: u8 and w :: bool
  assumes "cmd0 \<le> 0x0f" and "cmd1 \<le> 0x07" and "4 + length p \<le> GX5125_OUTER_MAX_PAYLOAD"
    and "gx_outer_wire_size (4 + length p) \<le> length out"
  shows "\<exists>buffer logical wire.
    gx_command_wire_build cmd0 cmd1 w (Buf p) (Buf out) = Inr (buffer, logical, wire)"
proof -
  let ?c = "gx_inner_command_byte cmd0 cmd1 w"
  let ?f = "inner_frame (?c, p, right_checksum ?c p)"
  have "gx_inner_build cmd0 cmd1 w (Buf p) (Buf (replicate GX5125_OUTER_MAX_PAYLOAD 0)) =
    Inr (?f @ drop (4 + length p) (replicate GX5125_OUTER_MAX_PAYLOAD 0), 4 + length p)"
    using assms(1-3) by (intro gx_inner_build_eq) (simp_all add: outer_consts)
  moreover have "take (4 + length p) (?f @ r) = ?f" for r by simp
  moreover have "outer_ok (GX5125_OUTER_COMMAND, ?f)"
    using assms(3) by (simp add: outer_ok_def gx_outer_family_supported_def outer_consts Let_def)
  note gx_outer_build_eq [OF this, of out]
  ultimately show ?thesis
    using assms(4) by (simp add: gx_command_wire_build_def)
qed

text \<open>
  Command round trip across both layers. A command that \<open>gx_command_wire_build\<close> puts on the
  wire is decoded by the outer decoder as a command-family frame, whose payload the inner decoder
  reads as the same command with the same data and a verifying checksum.
\<close>

theorem command_wire_round_trip:
  assumes "gx_command_wire_build cmd0 cmd1 wait_for_ack data output = Inr (buffer, logical, wire)"
  shows "\<exists>o_view i_view. gx_outer_decode (Buf buffer) = Inr o_view
    \<and> ov_family o_view = GX5125_OUTER_COMMAND
    \<and> gx_inner_decode (Buf (ov_payload o_view)) = Inr i_view
    \<and> iv_cmd0 i_view = cmd0 \<and> iv_cmd1 i_view = cmd1 \<and> iv_no_ack i_view = (\<not> wait_for_ack)
    \<and> iv_data i_view = cbuf_bytes data \<and> iv_checksum_ok i_view
    \<and> logical = 8 + cbuf_len data \<and> wire mod 64 = 0"
proof -
  from assms obtain inner n where
    i: "gx_inner_build cmd0 cmd1 wait_for_ack data (Buf (replicate GX5125_OUTER_MAX_PAYLOAD 0))
          = Inr (inner, n)"
    and o: "gx_outer_build GX5125_OUTER_COMMAND (Buf (take n inner)) output
          = Inr (buffer, logical, wire)"
    by (auto simp: gx_command_wire_build_def split: if_splits sum.splits)
  note bi = gx_inner_build_success [OF i] and bo = gx_outer_build_success [OF o]
  let ?c = "gx_inner_command_byte cmd0 cmd1 wait_for_ack"
  let ?d = "(?c, cbuf_bytes data, right_checksum ?c (cbuf_bytes data))"
  have t: "take n inner = inner_frame ?d"
    using bi(5,7) by simp
  have "outer_ok (GX5125_OUTER_COMMAND, inner_frame ?d)"
    using bo(1) by (simp add: t)
  note dec = command.decode_nested [OF bi(3) this]
  have w: "length (inner_frame ?d) \<le> GX5125_OUTER_MAX_PAYLOAD"
    using bo(1) by (simp add: t outer_ok_def)
  have "logical = 8 + cbuf_len data" "wire mod 64 = 0"
    using bo(6,7) bi(4) wire_size_bounds(1) [OF w] by (simp_all add: t)
  moreover have "gx_outer_decode (Buf buffer) = Inr (outer_view_of (GX5125_OUTER_COMMAND, inner_frame ?d))"
    unfolding bo(5) cbuf_bytes.simps t by (rule dec(1))
  moreover have "ov_family (outer_view_of (GX5125_OUTER_COMMAND, inner_frame ?d)) = GX5125_OUTER_COMMAND"
    by (simp add: outer_view_of_def outer_consts)
  ultimately show ?thesis
    using dec(2) sent_view [OF bi(1,2)]
    by (intro exI [of _ "outer_view_of (GX5125_OUTER_COMMAND, inner_frame ?d)"]
        exI [of _ "inner_view_of ?d"] conjI) simp_all
qed

theorem command_wire_round_trip_witness:
  "\<exists>buffer logical wire o_view i_view. gx_outer_decode (Buf buffer) = Inr o_view
    \<and> ov_family o_view = GX5125_OUTER_COMMAND
    \<and> gx_inner_decode (Buf (ov_payload o_view)) = Inr i_view
    \<and> iv_cmd0 i_view = 0x0d \<and> iv_cmd1 i_view = 2 \<and> iv_no_ack i_view = (\<not> True)
    \<and> iv_data i_view = cbuf_bytes (Buf [0, 0]) \<and> iv_checksum_ok i_view
    \<and> logical = 8 + cbuf_len (Buf [0, 0]) \<and> wire mod 64 = (0::nat)"
proof -
  have "\<exists>buffer logical wire.
      gx_command_wire_build 0x0d 2 True (Buf [0, 0]) (Buf (replicate 64 0)) = Inr (buffer, logical, wire)"
    by (rule command_wire_build_progress)
      (simp_all add: outer_consts gx_outer_wire_size_def usb_consts Let_def)
  then obtain buffer logical wire where
    "gx_command_wire_build 0x0d 2 True (Buf [0, 0]) (Buf (replicate 64 0)) = Inr (buffer, logical, wire)"
    by blast
  from command_wire_round_trip [OF this] show ?thesis
    by (rule exI [of _ buffer, OF exI [of _ logical, OF exI [of _ wire]]])
qed

text \<open>Changing one data byte changes the additive checksum.\<close>

lemma foldl_plus_word: "foldl (+) (a :: u8) xs = a + sum_list xs"
  by (induction xs arbitrary: a) (simp_all add: add.assoc)

lemma sum_list_update_word:
  "i < length xs \<Longrightarrow> sum_list (xs[i := b]) = sum_list xs - xs ! i + (b :: u8)"
  by (induction xs arbitrary: i) (auto simp: nth_Cons split: nat.splits)

lemma checksum_update_differs:
  assumes "i < length data" and "b \<noteq> data ! i"
  shows "right_checksum c (data[i := b]) \<noteq> right_checksum c data"
  using assms
  by (simp add: right_checksum_def gx_inner_checksum_def foldl_plus_word sum_list_update_word Let_def)

text \<open>
  Single-byte corruption. If one data byte of a correctly checksummed frame is replaced by a
  different value, the decoder still parses the frame but reports a bad checksum; the one
  exception is a frame whose checksum byte equals the bypass value \<open>0x88\<close>, for which the decoder
  accepts any data.
\<close>

theorem inner_corruption_detected:
  assumes "length data < 65535" and "i < length data" and "b \<noteq> data ! i"
  shows "\<exists>v. gx_inner_decode (Buf (inner_frame (c, data[i := b], right_checksum c data))) = Inr v
    \<and> iv_data v = data[i := b]
    \<and> (iv_checksum_ok v \<longleftrightarrow> right_checksum c data = GX5125_INNER_CHECKSUM_BYPASS)"
proof -
  have "inner_ok (c, data[i := b], right_checksum c data)"
    using assms(1) by (simp add: inner_ok_def)
  from inner.decode_exact [OF this] show ?thesis
    using checksum_update_differs [OF assms(2,3), of c] by (auto simp: inner_view_of_def)
qed

theorem inner_corruption_detected_witness:
  "\<exists>v. gx_inner_decode (Buf (inner_frame (0x80, [1, 2, 3][1 := 5], right_checksum 0x80 [1, 2, 3]))) = Inr v
    \<and> iv_data v = [1, 2, 3][1 := 5]
    \<and> (iv_checksum_ok v \<longleftrightarrow> right_checksum 0x80 [1, 2, 3] = GX5125_INNER_CHECKSUM_BYPASS)"
  by (rule inner_corruption_detected) simp_all

end
