(* ===== verification/Session.thy ===== *)
theory Session
  imports Protocol
begin

text \<open>
  The receiver session of \<open>src/gx_session.c\<close>: the stream parser that cuts outer frames out of the
  bytes of the bulk-in endpoint, the dispatch of a frame into the acknowledgement table, the
  response table or the TLS queue, the waits of the command thread, and
  \<open>gx_session_command\<close>.

  Two threads share the session. The receiver thread changes it only inside one iteration of
  its loop; the command thread looks at it only with the mutex held, and sleeps in
  \<open>pthread_cond_timedwait\<close>. So every interleaving is an interleaving of whole receiver iterations
  with the waits, and a wait takes an explicit plan: the bulk reads the receiver completed before
  the mutex was taken, and for each wake-up the reads completed meanwhile and the wait's status.
\<close>

definition GX5125_RESPONSE_CAPACITY :: nat where "GX5125_RESPONSE_CAPACITY = 1024"
definition GX5125_STREAM_CAPACITY :: nat where "GX5125_STREAM_CAPACITY = 65536"
definition GX5125_TLS_FIFO_CAPACITY :: nat where "GX5125_TLS_FIFO_CAPACITY = 131072"
definition GX_RX_TRANSFER_CAPACITY :: nat where "GX_RX_TRANSFER_CAPACITY = 4096"
definition GX_RX_TIMEOUT_MS :: nat where "GX_RX_TIMEOUT_MS = 100"
definition GX_TX_TIMEOUT_MS :: nat where "GX_TX_TIMEOUT_MS = 1000"

lemmas session_consts = GX5125_RESPONSE_CAPACITY_def GX5125_STREAM_CAPACITY_def
  GX5125_TLS_FIFO_CAPACITY_def GX_RX_TRANSFER_CAPACITY_def GX_RX_TIMEOUT_MS_def GX_TX_TIMEOUT_MS_def

text \<open>
  An array with a length field is the list of its valid bytes. \<open>receiver_error\<close> is \<open>None\<close> for
  \<open>LIBUSB_SUCCESS\<close>.
\<close>

record gx_ack_state =
  ak_sequence :: u64
  ak_acked_command :: u8
  ak_flags :: u8
  ak_data :: "u8 list"

record gx_response_state =
  rs_sequence :: u64
  rs_command_byte :: u8
  rs_data :: "u8 list"

record gx_command_result =
  ack_received :: bool
  cr_ack_flags :: u8
  response_received :: bool
  cr_response :: "u8 list"
  attempts_used :: nat

record gx_session =
  stop_requested :: bool
  receiver_started :: bool
  receiver_error :: "usb_error option"
  stream :: "u8 list"
  tls_fifo :: "u8 list"
  tls_bytes_received :: u64
  tls_fifo_overflows :: u64
  acknowledgements :: "u8 \<Rightarrow> u8 \<Rightarrow> gx_ack_state"
  responses :: "u8 \<Rightarrow> u8 \<Rightarrow> gx_response_state"
  outer_frames :: u64
  inner_frames :: u64
  tls_frames :: u64
  notice_frames :: u64
  framing_errors :: u64
  checksum_errors :: u64

definition zero_session :: gx_session where
  "zero_session =
     \<lparr>stop_requested = False, receiver_started = False, receiver_error = None, stream = [],
      tls_fifo = [], tls_bytes_received = 0, tls_fifo_overflows = 0,
      acknowledgements = (\<lambda>_ _. \<lparr>ak_sequence = 0, ak_acked_command = 0, ak_flags = 0, ak_data = []\<rparr>),
      responses = (\<lambda>_ _. \<lparr>rs_sequence = 0, rs_command_byte = 0, rs_data = []\<rparr>),
      outer_frames = 0, inner_frames = 0, tls_frames = 0, notice_frames = 0,
      framing_errors = 0, checksum_errors = 0\<rparr>"

definition zero_command_result :: gx_command_result where
  "zero_command_result =
     \<lparr>ack_received = False, cr_ack_flags = 0, response_received = False, cr_response = [],
      attempts_used = 0\<rparr>"

definition tab_upd :: "(u8 \<Rightarrow> u8 \<Rightarrow> 'a) \<Rightarrow> u8 \<Rightarrow> u8 \<Rightarrow> 'a \<Rightarrow> u8 \<Rightarrow> u8 \<Rightarrow> 'a" where
  "tab_upd t i j v = t(i := (t i)(j := v))"

lemma tab_upd_same [simp]: "tab_upd t i j v i j = v"
  by (simp add: tab_upd_def)

lemma tab_upd_other [simp]: "i' \<noteq> i \<or> j' \<noteq> j \<Longrightarrow> tab_upd t i j v i' j' = t i' j'"
  by (auto simp: tab_upd_def)

section \<open>Deadlines\<close>

text \<open>Seconds and nanoseconds; the nanosecond sum is below \<open>2 ^ 31\<close>, so \<open>uint64_t\<close> never wraps.\<close>

definition gx_deadline_after_ms :: "int \<times> int \<Rightarrow> nat \<Rightarrow> int \<times> int" where
  "gx_deadline_after_ms now timeout_ms =
     (let nanoseconds = snd now + int (timeout_ms mod 1000) * 1000000
      in (fst now + int (timeout_ms div 1000) + nanoseconds div 1000000000,
          nanoseconds mod 1000000000))"

section \<open>Storing and dispatching a frame\<close>

definition gx_stream_discard_prefix :: "gx_session \<Rightarrow> nat \<Rightarrow> gx_session" where
  "gx_stream_discard_prefix s count =
     (if count \<ge> length (stream s) then s\<lparr>stream := []\<rparr>
      else s\<lparr>stream := drop count (stream s)\<rparr>)"

definition gx_store_ack :: "gx_session \<Rightarrow> gx_inner_view \<Rightarrow> gx_session" where
  "gx_store_ack s inner =
     (let acked = iv_data inner ! 0 AND 0xfe;
          cmd0 = drop_bit 4 acked;
          cmd1 = drop_bit 1 (acked AND 0x0f);
          state = acknowledgements s cmd0 cmd1
      in s\<lparr>acknowledgements := tab_upd (acknowledgements s) cmd0 cmd1
             \<lparr>ak_sequence = ak_sequence state + 1,
              ak_acked_command = acked,
              ak_flags = (if length (iv_data inner) \<ge> 2 then iv_data inner ! 1 else 0),
              ak_data = take 32 (iv_data inner)\<rparr>\<rparr>)"

definition gx_store_response :: "gx_session \<Rightarrow> gx_inner_view \<Rightarrow> gx_session" where
  "gx_store_response s inner =
     (let state = responses s (iv_cmd0 inner) (iv_cmd1 inner)
      in s\<lparr>responses := tab_upd (responses s) (iv_cmd0 inner) (iv_cmd1 inner)
             \<lparr>rs_sequence = rs_sequence state + 1,
              rs_command_byte = iv_command_byte inner,
              rs_data = take GX5125_RESPONSE_CAPACITY (iv_data inner)\<rparr>\<rparr>)"

text \<open>The TLS branch of the dispatch: count the frame, then queue its payload if it fits.\<close>

definition tls_push :: "gx_session \<Rightarrow> u8 list \<Rightarrow> (usb_error + unit) \<times> gx_session" where
  "tls_push s payload =
     (let s1 = s\<lparr>tls_frames := tls_frames s + 1\<rparr>
      in if length payload > GX5125_TLS_FIFO_CAPACITY - length (tls_fifo s1)
         then (Inl LIBUSB_ERROR_OVERFLOW, s1\<lparr>tls_fifo_overflows := tls_fifo_overflows s1 + 1\<rparr>)
         else (Inr (), s1\<lparr>tls_fifo := tls_fifo s1 @ payload,
                          tls_bytes_received := tls_bytes_received s1 + of_nat (length payload)\<rparr>))"

definition dispatch_inner :: "gx_session \<Rightarrow> u8 list \<Rightarrow> (usb_error + unit) \<times> gx_session" where
  "dispatch_inner s payload =
     (case gx_inner_decode (Buf payload) of
        Inl e \<Rightarrow> (Inl e, s\<lparr>framing_errors := framing_errors s + 1\<rparr>)
      | Inr inner \<Rightarrow>
          if \<not> iv_checksum_ok inner
          then (Inl LIBUSB_ERROR_IO, s\<lparr>checksum_errors := checksum_errors s + 1\<rparr>)
          else
            let s1 = s\<lparr>inner_frames := inner_frames s + 1\<rparr>
            in if iv_cmd0 inner = 0x0b \<and> iv_cmd1 inner = 0 \<and> length (iv_data inner) \<ge> 1
               then (Inr (), gx_store_ack s1 inner)
               else (Inr (), gx_store_response s1 inner))"

definition gx_dispatch_outer :: "gx_session \<Rightarrow> u8 list \<Rightarrow> (usb_error + unit) \<times> gx_session" where
  "gx_dispatch_outer s frame =
     (case gx_outer_decode (Buf frame) of
        Inl e \<Rightarrow> (Inl e, s\<lparr>framing_errors := framing_errors s + 1\<rparr>)
      | Inr outer \<Rightarrow>
          let s1 = s\<lparr>outer_frames := outer_frames s + 1\<rparr>
          in if ov_family outer = GX5125_OUTER_TLS then tls_push s1 (ov_payload outer)
             else
               let s2 = (if ov_family outer = GX5125_OUTER_NOTICE
                         then s1\<lparr>notice_frames := notice_frames s1 + 1\<rparr> else s1)
               in dispatch_inner s2 (ov_payload outer))"

section \<open>The stream parser\<close>

text \<open>The test of the inner scan: the four bytes at \<open>bs\<close> are a plausible frame header.\<close>

definition header_at :: "u8 list \<Rightarrow> bool" where
  "header_at bs \<longleftrightarrow>
     gx_outer_family_supported (bs ! 0)
     \<and> unat (le16 (bs ! 1) (bs ! 2)) \<le> GX5125_OUTER_MAX_PAYLOAD
     \<and> bs ! 3 = gx_outer_checksum (bs ! 0) (le16 (bs ! 1) (bs ! 2))"

definition scan_header :: "u8 list \<Rightarrow> nat option" where
  "scan_header bs =
     find (\<lambda>start. header_at (drop start bs)) [0..<length bs + 1 - GX5125_OUTER_HEADER_SIZE]"

definition frame_total :: "u8 list \<Rightarrow> nat" where
  "frame_total bs = GX5125_OUTER_HEADER_SIZE + unat (le16 (bs ! 1) (bs ! 2))"

lemma stream_discard [simp]:
  "stream (gx_stream_discard_prefix s n) = drop n (stream s)"
  by (simp add: gx_stream_discard_prefix_def)

lemma store_stream [simp]:
  "stream (gx_store_ack s i) = stream s" "stream (gx_store_response s i) = stream s"
  by (simp_all add: gx_store_ack_def gx_store_response_def Let_def)

lemma dispatch_stream [simp]: "stream (snd (gx_dispatch_outer s f)) = stream s"
  by (simp add: gx_dispatch_outer_def dispatch_inner_def tls_push_def Let_def split: sum.split)

lemma frame_total_pos [simp]: "0 < frame_total bs"
  by (simp add: frame_total_def outer_consts)

function gx_stream_parse :: "gx_session \<Rightarrow> gx_session" where
  "gx_stream_parse s =
     (if length (stream s) < GX5125_OUTER_HEADER_SIZE then s
      else
        case scan_header (stream s) of
          None \<Rightarrow>
            (if length (stream s) > GX5125_OUTER_HEADER_SIZE - 1
             then gx_stream_discard_prefix s (length (stream s) - (GX5125_OUTER_HEADER_SIZE - 1))
             else s)
        | Some start \<Rightarrow>
            let s1 = (if start \<noteq> 0 then gx_stream_discard_prefix s start else s);
                total_length = frame_total (stream s1)
            in if length (stream s1) < total_length then s1
               else
                 let s2 = snd (gx_dispatch_outer s1 (take total_length (stream s1)))
                 in gx_stream_parse (gx_stream_discard_prefix s2 total_length))"
  by pat_completeness auto
termination
  by (relation "measure (\<lambda>s. length (stream s))")
    (auto simp: outer_consts Let_def split: if_splits intro!: diff_less)

declare gx_stream_parse.simps [simp del]

definition gx_stream_feed :: "gx_session \<Rightarrow> cbuf \<Rightarrow> (usb_error + unit) \<times> gx_session" where
  "gx_stream_feed s bytes =
     (if is_null bytes \<and> cbuf_len bytes \<noteq> 0 then (Inl LIBUSB_ERROR_INVALID_PARAM, s)
      else
        let overflow = cbuf_len bytes > GX5125_STREAM_CAPACITY - length (stream s);
            s1 = (if overflow then s\<lparr>framing_errors := framing_errors s + 1, stream := []\<rparr> else s)
        in if overflow \<and> cbuf_len bytes > GX5125_STREAM_CAPACITY
           then (Inl LIBUSB_ERROR_OVERFLOW, s1)
           else (Inr (), gx_stream_parse (s1\<lparr>stream := stream s1 @ cbuf_bytes bytes\<rparr>)))"

section \<open>The parser as a function on byte strings\<close>

text \<open>
  \<open>cut_stream\<close> is the specification of the parser: the frames in a byte string, in order, and the
  bytes that are kept for the next read. It knows nothing of sessions.
\<close>

function cut_stream :: "u8 list \<Rightarrow> u8 list list \<times> u8 list" where
  "cut_stream bs =
     (if length bs < 4 then ([], bs)
      else case scan_header bs of
             None \<Rightarrow> ([], drop (length bs - 3) bs)
           | Some start \<Rightarrow>
               let rest = drop start bs; n = frame_total rest
               in if length rest < n then ([], rest)
                  else let (fs, r) = cut_stream (drop n rest) in (take n rest # fs, r))"
  by pat_completeness auto
termination
  by (relation "measure length") (auto intro!: diff_less)

declare cut_stream.simps [simp del]

definition dispatch_all :: "gx_session \<Rightarrow> u8 list list \<Rightarrow> gx_session" where
  "dispatch_all s frames = foldl (\<lambda>s f. snd (gx_dispatch_outer s f)) s frames"

lemma dispatch_all_simps [simp]:
  "dispatch_all s [] = s"
  "dispatch_all s (f # fs) = dispatch_all (snd (gx_dispatch_outer s f)) fs"
  "dispatch_all s (fs @ gs) = dispatch_all (dispatch_all s fs) gs"
  by (simp_all add: dispatch_all_def)

lemma dispatch_with_stream:
  "snd (gx_dispatch_outer (s\<lparr>stream := x\<rparr>) f) = (snd (gx_dispatch_outer s f))\<lparr>stream := x\<rparr>"
  by (simp add: gx_dispatch_outer_def dispatch_inner_def tls_push_def gx_store_ack_def
      gx_store_response_def Let_def split: sum.split)

lemma dispatch_all_with_stream:
  "dispatch_all (s\<lparr>stream := x\<rparr>) fs = (dispatch_all s fs)\<lparr>stream := x\<rparr>"
  by (induction fs arbitrary: s) (simp_all add: dispatch_with_stream)

lemma discard_as_update: "gx_stream_discard_prefix s n = s\<lparr>stream := drop n (stream s)\<rparr>"
  by (simp add: gx_stream_discard_prefix_def)

lemma gx_stream_parse_cut:
  "gx_stream_parse s =
     (dispatch_all s (fst (cut_stream (stream s))))\<lparr>stream := snd (cut_stream (stream s))\<rparr>"
proof (induction s rule: gx_stream_parse.induct)
  case (1 s)
  show ?case
  proof (cases "length (stream s) < 4")
    case True
    then show ?thesis
      by (simp add: gx_stream_parse.simps [of s] cut_stream.simps [of "stream s"] outer_consts)
  next
    case len: False
    show ?thesis
    proof (cases "scan_header (stream s)")
      case None
      with len show ?thesis
        by (simp add: gx_stream_parse.simps [of s] cut_stream.simps [of "stream s"] outer_consts
            discard_as_update)
    next
      case (Some start)
      let ?rest = "drop start (stream s)"
      let ?n = "frame_total ?rest"
      have s1: "(if 0 < start then gx_stream_discard_prefix s start else s) = s\<lparr>stream := ?rest\<rparr>"
        by (simp add: discard_as_update)
      show ?thesis
      proof (cases "length ?rest < ?n")
        case True
        with len Some s1 show ?thesis
          by (simp add: gx_stream_parse.simps [of s] cut_stream.simps [of "stream s"] outer_consts
              del: if_split)
      next
        case False
        let ?s3 = "gx_stream_discard_prefix
          (snd (gx_dispatch_outer (s\<lparr>stream := ?rest\<rparr>) (take ?n ?rest))) ?n"
        have "gx_stream_parse ?s3 = (dispatch_all ?s3 (fst (cut_stream (stream ?s3))))
            \<lparr>stream := snd (cut_stream (stream ?s3))\<rparr>"
          using 1 [OF _ Some refl refl _ refl] len False by (simp add: outer_consts s1 del: if_split)
        with len Some s1 False show ?thesis
          by (cases "start = 0")
            (simp_all add: gx_stream_parse.simps [of s] cut_stream.simps [of "stream s"] outer_consts
              dispatch_with_stream discard_as_update dispatch_all_with_stream split_beta Let_def)
      qed
    qed
  qed
qed

lemma scan_header_Some:
  "scan_header bs = Some k \<longleftrightarrow>
     k + 4 \<le> length bs \<and> header_at (drop k bs) \<and> (\<forall>j < k. \<not> header_at (drop j bs))"
  unfolding scan_header_def find_Some_iff outer_consts
  by (auto simp del: upt_Suc intro!: exI [of _ k])

lemma scan_header_None:
  "scan_header bs = None \<longleftrightarrow> (\<forall>j. j + 4 \<le> length bs \<longrightarrow> \<not> header_at (drop j bs))"
  unfolding scan_header_def find_None_iff outer_consts
  by (auto simp del: upt_Suc)

lemma header_at_append: "4 \<le> length bs \<Longrightarrow> header_at (bs @ y) = header_at bs"
  by (auto simp: header_at_def nth_append)

lemma header_at_drop_append:
  "j + 4 \<le> length x \<Longrightarrow> header_at (drop j (x @ y)) = header_at (drop j x)"
  using header_at_append [of "drop j x" y] by simp

lemma frame_total_append: "4 \<le> length bs \<Longrightarrow> frame_total (bs @ y) = frame_total bs"
  by (simp add: frame_total_def nth_append)

text \<open>Bytes before the first header do not matter, as long as three bytes are left.\<close>

lemma cut_stream_drop:
  assumes "\<forall>j < k. \<not> header_at (drop j z)" and "k + 3 \<le> length z"
  shows "cut_stream (drop k z) = cut_stream z"
proof (cases "length z < 4")
  case True
  with assms(2) have "k = 0" by simp
  then show ?thesis by simp
next
  case len: False
  show ?thesis
  proof (cases "scan_header z")
    case None
    then have "scan_header (drop k z) = None"
      by (auto simp: scan_header_None)
    moreover have "length z - k < 4 \<Longrightarrow> k = length z - 3"
      using assms(2) by linarith
    ultimately show ?thesis
      using None len assms(2)
      by (auto simp: cut_stream.simps [of z] cut_stream.simps [of "drop k z"])
  next
    case (Some m)
    then have "k \<le> m" using assms(1) by (auto simp: scan_header_Some not_less intro: ccontr)
    with Some have "scan_header (drop k z) = Some (m - k)" "4 \<le> length (drop k z)"
      using assms(1) by (auto simp: scan_header_Some less_diff_conv)
    with Some len \<open>k \<le> m\<close> show ?thesis
      by (simp add: cut_stream.simps [of z] cut_stream.simps [of "drop k z"])
  qed
qed

lemma cut_stream_append:
  "cut_stream (x @ y) =
     (fst (cut_stream x) @ fst (cut_stream (snd (cut_stream x) @ y)),
      snd (cut_stream (snd (cut_stream x) @ y)))"
proof (induction x rule: cut_stream.induct)
  case (1 x)
  show ?case
  proof (cases "length x < 4")
    case True
    then show ?thesis by (simp add: cut_stream.simps [of x])
  next
    case len: False
    show ?thesis
    proof (cases "scan_header x")
      case None
      then have "cut_stream (drop (length x - 3) (x @ y)) = cut_stream (x @ y)"
        using len by (intro cut_stream_drop) (auto simp: scan_header_None header_at_append)
      with None len show ?thesis by (simp add: cut_stream.simps [of x])
    next
      case (Some k)
      then have k: "k + 4 \<le> length x" "\<forall>j < k. \<not> header_at (drop j (x @ y))"
        by (auto simp: scan_header_Some header_at_append)
      show ?thesis
      proof (cases "length (drop k x) < frame_total (drop k x)")
        case True
        from k have "cut_stream (drop k (x @ y)) = cut_stream (x @ y)"
          by (intro cut_stream_drop) auto
        with True Some len k(1) show ?thesis by (simp add: cut_stream.simps [of x])
      next
        case False
        have "scan_header (x @ y) = Some k"
          using Some by (auto simp: scan_header_Some header_at_append)
        moreover have "frame_total (drop k (x @ y)) = frame_total (drop k x)"
          using frame_total_append [of "drop k x" y] k(1) by simp
        ultimately show ?thesis
          using 1 [OF len Some refl refl False] False Some len k(1)
          by (simp add: cut_stream.simps [of x] cut_stream.simps [of "x @ y"] split_beta Let_def)
      qed
    qed
  qed
qed

text \<open>The residue: at most three bytes, or the beginning of a frame that is not complete yet.\<close>

lemma cut_stream_residue: "length (snd (cut_stream bs)) < 4 + GX5125_OUTER_MAX_PAYLOAD"
proof (induction bs rule: cut_stream.induct)
  case (1 bs)
  show ?case
  proof (cases "length bs < 4 \<or> scan_header bs = None")
    case True
    then show ?thesis by (auto simp: cut_stream.simps [of bs] outer_consts)
  next
    case False
    then obtain k where k: "\<not> length bs < 4" "scan_header bs = Some k" by auto
    then have "header_at (drop k bs)" by (simp add: scan_header_Some)
    then have "frame_total (drop k bs) \<le> 4 + GX5125_OUTER_MAX_PAYLOAD"
      unfolding header_at_def frame_total_def GX5125_OUTER_HEADER_SIZE_def by linarith
    with k show ?thesis
      using 1 [OF k refl refl]
      by (auto simp: cut_stream.simps [of bs] split_beta Let_def)
  qed
qed

lemma cut_stream_residue_le: "length (snd (cut_stream bs)) \<le> length bs"
proof (induction bs rule: cut_stream.induct)
  case (1 bs)
  show ?case
  proof (cases "length bs < 4 \<or> scan_header bs = None")
    case True
    then show ?thesis by (auto simp: cut_stream.simps [of bs])
  next
    case False
    then obtain k where k: "\<not> length bs < 4" "scan_header bs = Some k" by auto
    with 1 [OF k refl refl] show ?thesis
      by (auto simp: cut_stream.simps [of bs] split_beta Let_def)
  qed
qed

lemma gx_stream_feed_fits:
  "length (stream s) + length bs \<le> GX5125_STREAM_CAPACITY \<Longrightarrow>
   gx_stream_feed s (Buf bs) = (Inr (), gx_stream_parse (s\<lparr>stream := stream s @ bs\<rparr>))"
  by (simp add: gx_stream_feed_def Let_def)

lemma stream_parse [simp]: "stream (gx_stream_parse s) = snd (cut_stream (stream s))"
  by (simp add: gx_stream_parse_cut)

lemma parse_with_stream:
  "gx_stream_parse (s\<lparr>stream := x\<rparr>)
   = (dispatch_all s (fst (cut_stream x)))\<lparr>stream := snd (cut_stream x)\<rparr>"
  by (simp add: gx_stream_parse_cut dispatch_all_with_stream)

text \<open>
  C10: the parser does not depend on how the bytes arrive. Feeding a read and then another
  leaves the session in exactly the state that feeding their concatenation leaves (tables, TLS
  queue, counters and kept bytes), as long as the bytes fit the stream buffer.
\<close>

theorem feed_chunking:
  assumes "length (stream s) + length a + length b \<le> GX5125_STREAM_CAPACITY"
  shows "gx_stream_feed s (Buf (a @ b)) = gx_stream_feed (snd (gx_stream_feed s (Buf a))) (Buf b)"
proof -
  let ?x = "stream s @ a"
  have "length (snd (cut_stream ?x)) + length b \<le> GX5125_STREAM_CAPACITY"
    using cut_stream_residue_le [of ?x] assms by simp
  with assms show ?thesis
    using cut_stream_append [of ?x b]
    by (simp add: gx_stream_feed_fits parse_with_stream dispatch_all_with_stream)
qed

theorem feed_chunking_witness:
  "gx_stream_feed zero_session (Buf ([0xa0, 2] @ [0, 0xa2, 0x41]))
     = gx_stream_feed (snd (gx_stream_feed zero_session (Buf [0xa0, 2]))) (Buf [0, 0xa2, 0x41])"
  by (rule feed_chunking) (simp add: zero_session_def session_consts)

section \<open>Frames with padding\<close>

text \<open>What \<open>gx_transport_send_outer\<close> puts on the bus, one frame after the other.\<close>

definition padded :: "(u8 \<times> u8 list) \<times> nat \<Rightarrow> u8 list" where
  "padded fn = outer_frame (fst fn) @ replicate (snd fn) 0"

lemma header_at_zero: "bs ! 0 = 0 \<Longrightarrow> \<not> header_at bs"
  by (simp add: header_at_def gx_outer_family_supported_def outer_consts Let_def)

lemma header_at_frame: "outer_ok f \<Longrightarrow> header_at (outer_frame f @ z)"
  by (auto simp: header_at_def outer_frame_def outer_header_def outer_ok_def unat_of_nat_u16 outer_consts)

lemma frame_total_frame: "outer_ok f \<Longrightarrow> frame_total (outer_frame f @ z) = length (outer_frame f)"
  by (auto simp: frame_total_def outer_frame_def outer_header_def outer_ok_def unat_of_nat_u16 outer_consts)

lemma cut_stream_zeros: "cut_stream (replicate n 0) = ([], replicate (min n 3) 0)"
proof (cases "n < 4")
  case False
  have "scan_header (replicate n 0) = None"
    by (simp add: scan_header_None header_at_zero)
  with False show ?thesis by (simp add: cut_stream.simps [of "replicate n 0"])
qed (simp add: cut_stream.simps [of "replicate n 0"])

lemma cut_stream_skip_zeros:
  assumes "3 \<le> length z"
  shows "cut_stream (replicate n 0 @ z) = cut_stream z"
proof -
  have "cut_stream (drop n (replicate n 0 @ z)) = cut_stream (replicate n 0 @ z)"
    using assms by (intro cut_stream_drop) (auto intro!: header_at_zero simp: nth_append)
  then show ?thesis by simp
qed

lemma cut_stream_frame:
  assumes "outer_ok f"
  shows "cut_stream (outer_frame f @ z) = (outer_frame f # fst (cut_stream z), snd (cut_stream z))"
proof -
  let ?b = "outer_frame f @ z"
  have "4 \<le> length (outer_frame f)" by (cases f) simp
  moreover from this have "scan_header ?b = Some 0"
    by (simp add: scan_header_Some header_at_frame assms)
  ultimately show ?thesis
    by (simp add: cut_stream.simps [of ?b] frame_total_frame assms split_beta)
qed

lemma cut_stream_padded:
  assumes "\<forall>fn \<in> set fs. outer_ok (fst fn)"
  shows "fst (cut_stream (replicate n 0 @ concat (map padded fs))) = map (\<lambda>fn. outer_frame (fst fn)) fs
       \<and> set (snd (cut_stream (replicate n 0 @ concat (map padded fs)))) \<subseteq> {0}
       \<and> length (snd (cut_stream (replicate n 0 @ concat (map padded fs)))) \<le> 3"
  using assms
proof (induction fs arbitrary: n)
  case Nil
  then show ?case by (auto simp: cut_stream_zeros)
next
  case (Cons fn fs)
  have "3 \<le> length (padded fn)"
    by (cases "fst fn") (simp add: padded_def)
  then have "cut_stream (replicate n 0 @ concat (map padded (fn # fs)))
      = cut_stream (outer_frame (fst fn) @ replicate (snd fn) 0 @ concat (map padded fs))"
    by (simp add: cut_stream_skip_zeros padded_def)
  with Cons show ?case by (simp add: cut_stream_frame)
qed

text \<open>Feeding a list of reads.\<close>

definition feed_all :: "gx_session \<Rightarrow> u8 list list \<Rightarrow> gx_session" where
  "feed_all s chunks = foldl (\<lambda>s c. snd (gx_stream_feed s (Buf c))) s chunks"

lemma feed_all_parse:
  assumes "length (stream s) < 4 + GX5125_OUTER_MAX_PAYLOAD"
    and "\<forall>c \<in> set chunks. length c \<le> GX_RX_TRANSFER_CAPACITY"
    and "cut_stream (stream s) = ([], stream s)"
  shows "feed_all s chunks = gx_stream_parse (s\<lparr>stream := stream s @ concat chunks\<rparr>)"
  using assms
proof (induction chunks arbitrary: s)
  case Nil
  then show ?case by (simp add: feed_all_def gx_stream_parse_cut)
next
  case (Cons c chunks)
  let ?s = "gx_stream_parse (s\<lparr>stream := stream s @ c\<rparr>)"
  have f: "gx_stream_feed s (Buf c) = (Inr (), ?s)"
    using Cons.prems by (intro gx_stream_feed_fits) (simp add: outer_consts session_consts)
  have stable: "cut_stream (snd (cut_stream x)) = ([], snd (cut_stream x))" for x
    using cut_stream_append [of x "[]"] by (metis append_Nil2 append_self_conv fst_conv snd_conv prod.collapse)
  have "feed_all ?s chunks = gx_stream_parse (?s\<lparr>stream := stream ?s @ concat chunks\<rparr>)"
    using Cons.prems stable by (intro Cons.IH) (simp_all add: cut_stream_residue)
  then show ?case
    using f cut_stream_append [of "stream s @ c" "concat chunks"]
    by (simp add: feed_all_def parse_with_stream dispatch_all_with_stream)
qed

lemma feed_padded:
  assumes "\<forall>fn \<in> set fs. outer_ok (fst fn)" and "stream s = replicate n 0" and "n \<le> 3"
    and "concat chunks = concat (map padded fs)"
    and "\<forall>c \<in> set chunks. length c \<le> GX_RX_TRANSFER_CAPACITY"
  shows "\<exists>rest. set rest \<subseteq> {0} \<and> length rest \<le> 3
     \<and> feed_all s chunks = (dispatch_all s (map (\<lambda>fn. outer_frame (fst fn)) fs))\<lparr>stream := rest\<rparr>"
proof -
  have "cut_stream (stream s) = ([], stream s)"
    using assms(2,3) by (simp add: cut_stream_zeros)
  then have "feed_all s chunks = gx_stream_parse (s\<lparr>stream := replicate n 0 @ concat (map padded fs)\<rparr>)"
    using feed_all_parse [of s chunks] assms by (simp add: outer_consts)
  then show ?thesis
    using cut_stream_padded [OF assms(1), of n] by (auto simp: parse_with_stream)
qed

text \<open>
  What the transport sends, the session receives. For any list of legal frames, each followed
  by any number of zero padding bytes, cut into USB reads of at most 4096 bytes in any
  way at all, a session with an empty stream buffer dispatches exactly those frames in order: no
  read overflows, no frame is lost, duplicated, merged or invented, and only padding is left over.
\<close>

theorem padded_frames_received:
  assumes "\<forall>fn \<in> set fs. outer_ok (fst fn)" and "stream s = []"
    and "concat chunks = concat (map padded fs)"
    and "\<forall>c \<in> set chunks. length c \<le> GX_RX_TRANSFER_CAPACITY"
  shows "\<exists>rest. set rest \<subseteq> {0} \<and> length rest \<le> 3
     \<and> feed_all s chunks = (dispatch_all s (map (\<lambda>fn. outer_frame (fst fn)) fs))\<lparr>stream := rest\<rparr>"
  using feed_padded [of fs s 0 chunks] assms by simp

theorem padded_frames_received_witness:
  "\<exists>rest. set rest \<subseteq> {0} \<and> length rest \<le> 3 \<and>
     feed_all zero_session [[0xa0, 1, 0], [0xa1, 0x41, 0, 0, 0, 0, 0xa0], [0, 0, 0xa0]]
     = (dispatch_all zero_session (map (\<lambda>fn. outer_frame (fst fn))
          [((0xa0, [0x41]), 4 :: nat), ((0xa0, []), 0)]))\<lparr>stream := rest\<rparr>"
  by (rule padded_frames_received)
    (simp_all add: zero_session_def padded_def outer_frame_def outer_header_def outer_ok_def
      gx_outer_checksum_def lo8_def hi8_def session_consts outer_consts gx_outer_family_supported_def
      Let_def numeral_eq_Suc)

end
