(* ===== verification/Fifo.thy ===== *)
theory Fifo
  imports Prelude
begin

text \<open>
  The interface of a bounded byte queue between a producer that pushes whole blocks and a
  consumer that pulls up to a given number of bytes. The laws are what the session promises of
  its TLS queue; the lemmas, for any interleaving of pushes and pulls, are what the
  TLS layer relies on when it reads records out of it.
\<close>

datatype 'b queue_op = Push "'b list" | Pull nat

text \<open>Running a sequence of operations: the bytes delivered, and the final state.\<close>

fun queue_run ::
    "('s \<Rightarrow> 'b list \<Rightarrow> 's) \<Rightarrow> ('s \<Rightarrow> nat \<Rightarrow> 'b list \<times> 's) \<Rightarrow> 's \<Rightarrow> 'b queue_op list \<Rightarrow> 'b list \<times> 's" where
  "queue_run push pull s [] = ([], s)"
| "queue_run push pull s (Push b # ops) = queue_run push pull (push s b) ops"
| "queue_run push pull s (Pull n # ops) =
     (let (out, s1) = pull s n; (rest, s2) = queue_run push pull s1 ops in (out @ rest, s2))"

text \<open>The bytes a queue of \<open>cap\<close> bytes that holds \<open>k\<close> accepts: whole blocks, in order, those that fit.\<close>

fun accepted :: "nat \<Rightarrow> nat \<Rightarrow> 'b queue_op list \<Rightarrow> 'b list" where
  "accepted cap k [] = []"
| "accepted cap k (Push b # ops) =
     (if k + length b \<le> cap then b @ accepted cap (k + length b) ops else accepted cap k ops)"
| "accepted cap k (Pull n # ops) = accepted cap (k - n) ops"

locale byte_queue =
  fixes ok :: "'b list \<Rightarrow> bool"
    and contents :: "'s \<Rightarrow> 'b list"
    and cap :: nat
    and push :: "'s \<Rightarrow> 'b list \<Rightarrow> 's"
    and pull :: "'s \<Rightarrow> nat \<Rightarrow> 'b list \<times> 's"
  assumes push_fits: "ok b \<Longrightarrow> length (contents s) + length b \<le> cap \<Longrightarrow> contents (push s b) = contents s @ b"
    and push_full: "ok b \<Longrightarrow> cap < length (contents s) + length b \<Longrightarrow> contents (push s b) = contents s"
    and pull_prefix: "fst (pull s n) @ contents (snd (pull s n)) = contents s"
    and pull_length: "length (fst (pull s n)) = min n (length (contents s))"
begin

lemma length_after_pull: "length (contents (snd (pull s n))) = length (contents s) - n"
  using arg_cong [OF pull_prefix [of s n], of length] pull_length [of s n] by simp

lemma delivered_in_order:
  assumes "\<And>b. Push b \<in> set ops \<Longrightarrow> ok b"
  shows "fst (queue_run push pull s ops) @ contents (snd (queue_run push pull s ops))
       = contents s @ accepted cap (length (contents s)) ops"
  using assms
proof (induction ops arbitrary: s)
  case (Cons op ops)
  show ?case
  proof (cases op)
    case (Push b)
    with Cons.prems have "ok b" by simp
    with Push Cons show ?thesis
      using push_fits [of b s] push_full [of b s] by simp
  next
    case (Pull n)
    let ?s1 = "snd (pull s n)"
    have "fst (queue_run push pull ?s1 ops) @ contents (snd (queue_run push pull ?s1 ops))
        = contents ?s1 @ accepted cap (length (contents ?s1)) ops"
      using Cons by simp
    then have "fst (pull s n) @ fst (queue_run push pull ?s1 ops) @ contents (snd (queue_run push pull ?s1 ops))
        = contents s @ accepted cap (length (contents s) - n) ops"
      using pull_prefix [of s n] by (metis append.assoc length_after_pull)
    with Pull show ?thesis by (simp add: split_beta)
  qed
qed simp

lemma never_over_capacity:
  assumes "\<And>b. Push b \<in> set ops \<Longrightarrow> ok b" and "length (contents s) \<le> cap"
  shows "length (contents (snd (queue_run push pull s ops))) \<le> cap"
  using assms
proof (induction ops arbitrary: s)
  case (Cons op ops)
  show ?case
  proof (cases op)
    case (Push b)
    then have "length (contents (push s b)) \<le> cap"
      using Cons.prems push_fits [of b s] push_full [of b s] by fastforce
    with Cons Push show ?thesis by simp
  next
    case (Pull n)
    have "length (contents (snd (pull s n))) \<le> cap"
      using Cons.prems(2) by (simp add: length_after_pull)
    with Cons Pull show ?thesis by (simp add: split_beta)
  qed
qed simp

end

end
