(* ===== verification/Command.thy ===== *)
theory Command
  imports Session Fifo
begin

text \<open>
  The rest of \<open>src/gx_session.c\<close>: the receiver loop, start and stop of the session, the TLS queue
  as the consumer sees it, the timed waits, and the command exchange with its retries.
\<close>

section \<open>The receiver thread\<close>

definition gx_set_receiver_error :: "gx_session \<Rightarrow> usb_error \<Rightarrow> gx_session" where
  "gx_set_receiver_error s error =
     (if receiver_error s = None then s\<lparr>receiver_error := Some error\<rparr> else s)"

text \<open>
  One iteration of \<open>gx_receiver_main\<close>, given the result of its bulk read: the new session, and
  whether the loop goes on.
\<close>

type_synonym rx_read = "usb_error + u8 list"

definition receiver_iteration :: "gx_session \<Rightarrow> rx_read \<Rightarrow> gx_session \<times> bool" where
  "receiver_iteration s rd =
     (case rd of
        Inl e \<Rightarrow>
          if e = LIBUSB_ERROR_TIMEOUT \<or> e = LIBUSB_ERROR_INTERRUPTED then (s, True)
          else (gx_set_receiver_error s e, False)
      | Inr bytes \<Rightarrow>
          if bytes = [] then (s, True)
          else
            (case gx_stream_feed s (Buf bytes) of
               (Inl e, s1) \<Rightarrow> (gx_set_receiver_error s1 e, False)
             | (Inr _, s1) \<Rightarrow> (s1, True)))"

text \<open>
  The loop over a number of completed reads. It ends early at a receiver error (the thread has
  left the loop exactly when the error is set) or when a stop was requested.
\<close>

fun receiver_run :: "gx_session \<Rightarrow> rx_read list \<Rightarrow> gx_session" where
  "receiver_run s [] = s"
| "receiver_run s (rd # rds) =
     (if stop_requested s \<or> receiver_error s \<noteq> None then s
      else
        let (s1, continue) = receiver_iteration s rd
        in if continue then receiver_run s1 rds else s1)"

text \<open>
  The same loop with the reads made through libusb: \<open>n\<close> iterations of \<open>gx_receiver_main\<close>. The C
  loop has no bound of its own; it ends by a stop request or an error.
\<close>

fun gx_receiver_main ::
    "environment \<Rightarrow> gx_usb_device \<Rightarrow> nat \<Rightarrow> gx_session \<Rightarrow> history \<Rightarrow> gx_session \<times> history" where
  "gx_receiver_main env dev 0 s h = (s, h)"
| "gx_receiver_main env dev (Suc n) s h =
     (if stop_requested s then (s, h)
      else
        let (rd, h1) = gx_usb_bulk_read env dev GX_RX_TRANSFER_CAPACITY GX_RX_TIMEOUT_MS h;
            (s1, continue) = receiver_iteration s rd
        in if continue then gx_receiver_main env dev n s1 h1 else (s1, h1))"

section \<open>Start and stop\<close>

definition gx_session_start ::
    "environment \<Rightarrow> gx_usb_device \<Rightarrow> gx_session \<Rightarrow> history \<Rightarrow> (usb_error + unit) \<times> gx_session \<times> history" where
  "gx_session_start env dev s h =
     (if \<not> ud_handle dev \<or> \<not> claimed_data dev then (Inl LIBUSB_ERROR_INVALID_PARAM, s, h)
      else
        let s1 = zero_session;
            (m, h1) = ext_do env Mutex_init h
        in if isl (reply_rc m) then (Inl LIBUSB_ERROR_OTHER, s1, h1)
           else
             let (c, h2) = ext_do env Cond_init h1
             in if isl (reply_rc c)
                then (Inl LIBUSB_ERROR_OTHER, s1, snd (ext_do env Mutex_destroy h2))
                else
                  let (t, h3) = ext_do env Thread_create h2
                  in if isl (reply_rc t)
                     then (Inl LIBUSB_ERROR_OTHER, s1,
                           snd (ext_do env Mutex_destroy (snd (ext_do env Cond_destroy h3))))
                     else (Inr (), s1\<lparr>receiver_started := True\<rparr>, h3))"

text \<open>\<open>gx_session_stop\<close>: \<open>tail\<close> are the reads the receiver still completes before it sees the flag.\<close>

definition gx_session_stop ::
    "environment \<Rightarrow> rx_read list \<Rightarrow> gx_session \<Rightarrow> history \<Rightarrow> gx_session \<times> history" where
  "gx_session_stop env tail s h =
     (let (s1, h1) =
        (if receiver_started s
         then ((receiver_run s tail)\<lparr>stop_requested := True, receiver_started := False\<rparr>,
               snd (ext_do env Thread_join h))
         else (s, h))
      in (s1, snd (ext_do env Mutex_destroy (snd (ext_do env Cond_destroy h1)))))"

section \<open>Timed waits\<close>

datatype wait_status = Woken | Timed_out | Wait_failed

record wait_plan =
  arrivals :: "rx_read list"
  wakes :: "(rx_read list \<times> wait_status) list"

text \<open>
  The loop around \<open>pthread_cond_timedwait\<close>: while \<open>c\<close> holds, sleep; on a time-out leave the loop,
  on another error report it. The deadline is absolute, so the wake-ups before it are finitely many,
  and the end of the plan is the deadline.
\<close>

fun wait_while ::
    "(gx_session \<Rightarrow> bool) \<Rightarrow> gx_session \<Rightarrow> (rx_read list \<times> wait_status) list \<Rightarrow> bool \<times> gx_session" where
  "wait_while c s [] = (False, s)"
| "wait_while c s ((rds, status) # ws) =
     (if \<not> c s then (False, s)
      else
        let s1 = receiver_run s rds
        in case status of
             Woken \<Rightarrow> wait_while c s1 ws
           | Timed_out \<Rightarrow> (False, s1)
           | Wait_failed \<Rightarrow> (True, s1))"

text \<open>Taking bytes from the head of the TLS queue, at most \<open>capacity\<close>.\<close>

definition tls_take :: "gx_session \<Rightarrow> nat \<Rightarrow> u8 list \<times> gx_session" where
  "tls_take s capacity =
     (let copy_length = min capacity (length (tls_fifo s))
      in (take copy_length (tls_fifo s), s\<lparr>tls_fifo := drop copy_length (tls_fifo s)\<rparr>))"

definition gx_session_tls_clear :: "gx_session \<Rightarrow> gx_session" where
  "gx_session_tls_clear s = s\<lparr>tls_fifo := []\<rparr>"

definition gx_session_tls_read ::
    "gx_session \<Rightarrow> nat \<Rightarrow> wait_plan \<Rightarrow> (usb_error + u8 list) \<times> gx_session" where
  "gx_session_tls_read s output_capacity plan =
     (if output_capacity = 0 then (Inl LIBUSB_ERROR_INVALID_PARAM, s)
      else
        let s0 = receiver_run s (arrivals plan);
            (failed, s1) = wait_while
              (\<lambda>s. tls_fifo s = [] \<and> receiver_error s = None \<and> \<not> stop_requested s) s0 (wakes plan)
        in if failed then (Inl LIBUSB_ERROR_OTHER, s1)
           else if tls_fifo s1 \<noteq> []
           then let (out, s2) = tls_take s1 output_capacity in (Inr out, s2)
           else case receiver_error s1 of
                  Some e \<Rightarrow> (Inl e, s1)
                | None \<Rightarrow> (Inl LIBUSB_ERROR_TIMEOUT, s1))"

text \<open>The two waits of a command. The result structure is filled only on success.\<close>

definition gx_wait_for_ack ::
    "gx_session \<Rightarrow> u8 \<Rightarrow> u8 \<Rightarrow> u64 \<Rightarrow> wait_plan \<Rightarrow> gx_command_result \<Rightarrow>
     (usb_error + unit) \<times> gx_command_result \<times> gx_session" where
  "gx_wait_for_ack s cmd0 cmd1 baseline plan result =
     (let s0 = receiver_run s (arrivals plan);
          (failed, s1) = wait_while
            (\<lambda>s. ak_sequence (acknowledgements s cmd0 cmd1) = baseline \<and> receiver_error s = None)
            s0 (wakes plan);
          state = acknowledgements s1 cmd0 cmd1
      in if failed then (Inl LIBUSB_ERROR_OTHER, result, s1)
         else if ak_sequence state \<noteq> baseline
         then (Inr (), result\<lparr>ack_received := True, cr_ack_flags := ak_flags state\<rparr>, s1)
         else case receiver_error s1 of
                Some e \<Rightarrow> (Inl e, result, s1)
              | None \<Rightarrow> (Inl LIBUSB_ERROR_TIMEOUT, result, s1))"

definition gx_wait_for_response ::
    "gx_session \<Rightarrow> u8 \<Rightarrow> u8 \<Rightarrow> u64 \<Rightarrow> wait_plan \<Rightarrow> gx_command_result \<Rightarrow>
     (usb_error + unit) \<times> gx_command_result \<times> gx_session" where
  "gx_wait_for_response s cmd0 cmd1 baseline plan result =
     (let s0 = receiver_run s (arrivals plan);
          (failed, s1) = wait_while
            (\<lambda>s. rs_sequence (responses s cmd0 cmd1) = baseline \<and> receiver_error s = None)
            s0 (wakes plan);
          state = responses s1 cmd0 cmd1
      in if failed then (Inl LIBUSB_ERROR_OTHER, result, s1)
         else if rs_sequence state \<noteq> baseline
         then (Inr (), result\<lparr>response_received := True, cr_response := rs_data state\<rparr>, s1)
         else case receiver_error s1 of
                Some e \<Rightarrow> (Inl e, result, s1)
              | None \<Rightarrow> (Inl LIBUSB_ERROR_TIMEOUT, result, s1))"

section \<open>The command exchange\<close>

text \<open>
  The plan of a wait may depend on everything done so far, so it is a function of the
  history and of the wait's time-out; the wait itself is recorded in the history.
\<close>

type_synonym scheduler = "history \<Rightarrow> nat \<Rightarrow> wait_plan"

record command_request =
  rq_cmd0 :: u8
  rq_cmd1 :: u8
  rq_inner :: "u8 list"
  rq_ack_timeout :: nat
  rq_expect_response :: bool
  rq_response_timeout :: nat
  rq_ack_baseline :: u64
  rq_response_baseline :: u64

text \<open>The body of the loop of \<open>gx_session_command\<close>: \<open>Inl\<close> is a \<open>continue\<close> with that last error.\<close>

definition response_phase ::
    "scheduler \<Rightarrow> command_request \<Rightarrow> gx_session \<Rightarrow> gx_command_result \<Rightarrow> history \<Rightarrow>
     (usb_error + unit) \<times> gx_command_result \<times> gx_session \<times> history" where
  "response_phase sched rq s result h =
     (if \<not> rq_expect_response rq then (Inr (), result, s, h)
      else
        let (rc, result1, s1) = gx_wait_for_response s (rq_cmd0 rq) (rq_cmd1 rq)
              (rq_response_baseline rq) (sched h (rq_response_timeout rq)) result
        in (rc, result1, s1, h @ [Cond_timedwait (rq_response_timeout rq)]))"

definition command_attempt ::
    "environment \<Rightarrow> scheduler \<Rightarrow> gx_usb_device \<Rightarrow> command_request \<Rightarrow> gx_session \<Rightarrow>
     gx_command_result \<Rightarrow> history \<Rightarrow>
     (usb_error + unit) \<times> gx_command_result \<times> gx_session \<times> history" where
  "command_attempt env sched dev rq s result h =
     (let (rc, h1) = gx_transport_send_outer env dev GX5125_OUTER_COMMAND (Buf (rq_inner rq))
                       GX_TX_TIMEOUT_MS h
      in case rc of
           Inl e \<Rightarrow> (Inl e, result, s, h1)
         | Inr _ \<Rightarrow>
             if rq_ack_timeout rq = 0 then response_phase sched rq s result h1
             else
               let (rc1, result1, s1) = gx_wait_for_ack s (rq_cmd0 rq) (rq_cmd1 rq)
                     (rq_ack_baseline rq) (sched h1 (rq_ack_timeout rq)) result;
                   h2 = h1 @ [Cond_timedwait (rq_ack_timeout rq)]
               in case rc1 of
                    Inr _ \<Rightarrow> response_phase sched rq s1 result1 h2
                  | Inl e \<Rightarrow>
                      if \<not> rq_expect_response rq then (Inl e, result1, s1, h2)
                      else
                        let (rc2, result2, s2) = gx_wait_for_response s1 (rq_cmd0 rq) (rq_cmd1 rq)
                              (rq_response_baseline rq) (sched h2 1) result1;
                            h3 = h2 @ [Cond_timedwait 1]
                        in case rc2 of
                             Inr _ \<Rightarrow> (Inr (), result2, s2, h3)
                           | Inl _ \<Rightarrow> (Inl e, result2, s2, h3))"

fun command_loop ::
    "environment \<Rightarrow> scheduler \<Rightarrow> gx_usb_device \<Rightarrow> command_request \<Rightarrow> nat \<Rightarrow> nat \<Rightarrow> usb_error \<Rightarrow>
     gx_session \<Rightarrow> gx_command_result \<Rightarrow> history \<Rightarrow>
     (usb_error + unit) \<times> gx_command_result \<times> gx_session \<times> history" where
  "command_loop env sched dev rq 0 attempt last_error s result h = (Inl last_error, result, s, h)"
| "command_loop env sched dev rq (Suc remaining) attempt last_error s result h =
     (case command_attempt env sched dev rq s (result\<lparr>attempts_used := attempt\<rparr>) h of
        (Inr _, result1, s1, h1) \<Rightarrow> (Inr (), result1, s1, h1)
      | (Inl e, result1, s1, h1) \<Rightarrow>
          command_loop env sched dev rq remaining (attempt + 1) e s1 result1 h1)"

definition gx_session_command ::
    "environment \<Rightarrow> scheduler \<Rightarrow> gx_usb_device \<Rightarrow> gx_session \<Rightarrow> u8 \<Rightarrow> u8 \<Rightarrow> cbuf \<Rightarrow> nat \<Rightarrow> bool \<Rightarrow>
     nat \<Rightarrow> nat \<Rightarrow> gx_command_result \<Rightarrow> history \<Rightarrow>
     (usb_error + unit) \<times> gx_command_result \<times> gx_session \<times> history" where
  "gx_session_command env sched dev s cmd0 cmd1 payload ack_timeout_ms expect_response
       response_timeout_ms max_attempts result h =
     (if cmd0 > 0x0f \<or> cmd1 > 0x07 \<or> max_attempts = 0 \<or> is_null payload \<and> cbuf_len payload \<noteq> 0
      then (Inl LIBUSB_ERROR_INVALID_PARAM, result, s, h)
      else
        case gx_inner_build cmd0 cmd1 (ack_timeout_ms \<noteq> 0) payload
               (Buf (replicate GX5125_OUTER_MAX_PAYLOAD 0)) of
          Inl e \<Rightarrow> (Inl e, zero_command_result, s, h)
        | Inr (inner, inner_length) \<Rightarrow>
            command_loop env sched dev
              \<lparr>rq_cmd0 = cmd0, rq_cmd1 = cmd1, rq_inner = take inner_length inner,
               rq_ack_timeout = ack_timeout_ms, rq_expect_response = expect_response,
               rq_response_timeout = response_timeout_ms,
               rq_ack_baseline = ak_sequence (acknowledgements s cmd0 cmd1),
               rq_response_baseline = rs_sequence (responses s cmd0 cmd1)\<rparr>
              max_attempts 1 LIBUSB_ERROR_OTHER s zero_command_result h)"

section \<open>Invariants of the receiver\<close>

text \<open>
  The command thread changes the session only through the receiver iterations that happen
  during its waits, so whatever one iteration keeps is kept by every wait and by a
  whole command. \<open>rok\<close> restricts the reads (the receiver never asks for more than 4096 bytes).
\<close>

definition plan_ok :: "(rx_read \<Rightarrow> bool) \<Rightarrow> wait_plan \<Rightarrow> bool" where
  "plan_ok rok plan \<longleftrightarrow>
     (\<forall>rd \<in> set (arrivals plan). rok rd) \<and> (\<forall>w \<in> set (wakes plan). \<forall>rd \<in> set (fst w). rok rd)"

locale receiver_invariant =
  fixes inv :: "gx_session \<Rightarrow> bool" and rok :: "rx_read \<Rightarrow> bool"
  assumes iteration_keeps: "inv s \<Longrightarrow> rok rd \<Longrightarrow> inv (fst (receiver_iteration s rd))"
begin

lemma run_keeps: "inv s \<Longrightarrow> \<forall>rd \<in> set rds. rok rd \<Longrightarrow> inv (receiver_run s rds)"
proof (induction rds arbitrary: s)
  case (Cons rd rds)
  have "inv (fst (receiver_iteration s rd))"
    using Cons.prems by (intro iteration_keeps) auto
  with Cons show ?case by (simp add: split_beta)
qed simp

lemma wait_keeps:
  "inv s \<Longrightarrow> \<forall>w \<in> set ws. \<forall>rd \<in> set (fst w). rok rd \<Longrightarrow> inv (snd (wait_while c s ws))"
proof (induction c s ws rule: wait_while.induct)
  case (2 c s rds status ws)
  then have "inv (receiver_run s rds)" by (intro run_keeps) auto
  with 2 show ?case by (auto simp: Let_def split: wait_status.split)
qed simp

lemma wait_plan_keeps:
  "inv s \<Longrightarrow> plan_ok rok plan \<Longrightarrow> inv (snd (wait_while c (receiver_run s (arrivals plan)) (wakes plan)))"
  by (intro wait_keeps run_keeps) (auto simp: plan_ok_def)

lemma wait_for_ack_keeps:
  "inv s \<Longrightarrow> plan_ok rok plan \<Longrightarrow> inv (snd (snd (gx_wait_for_ack s c0 c1 b plan r)))"
  unfolding gx_wait_for_ack_def Let_def split_beta
  by (auto simp: wait_plan_keeps split: option.split)

lemma wait_for_response_keeps:
  "inv s \<Longrightarrow> plan_ok rok plan \<Longrightarrow> inv (snd (snd (gx_wait_for_response s c0 c1 b plan r)))"
  unfolding gx_wait_for_response_def Let_def split_beta
  by (auto simp: wait_plan_keeps split: option.split)

lemma response_phase_keeps:
  "inv s \<Longrightarrow> (\<And>h t. plan_ok rok (sched h t)) \<Longrightarrow> inv (fst (snd (snd (response_phase sched rq s r h))))"
  by (simp add: response_phase_def split_beta wait_for_response_keeps)

lemma command_attempt_keeps:
  "inv s \<Longrightarrow> (\<And>h t. plan_ok rok (sched h t)) \<Longrightarrow>
   inv (fst (snd (snd (command_attempt env sched dev rq s r h))))"
  unfolding command_attempt_def Let_def split_beta
  by (auto simp: response_phase_keeps wait_for_ack_keeps wait_for_response_keeps split: sum.split)

lemma command_loop_keeps:
  assumes "\<And>h t. plan_ok rok (sched h t)"
  shows "inv s \<Longrightarrow> inv (fst (snd (snd (command_loop env sched dev rq n k e s r h))))"
proof (induction n arbitrary: k e s r h)
  case (Suc n)
  have "inv (fst (snd (snd (command_attempt env sched dev rq s (r\<lparr>attempts_used := k\<rparr>) h))))"
    by (rule command_attempt_keeps) (use Suc.prems assms in auto)
  with Suc show ?case
    by (auto split: sum.split prod.split)
qed simp

lemma command_keeps:
  "inv s \<Longrightarrow> (\<And>h t. plan_ok rok (sched h t)) \<Longrightarrow>
   inv (fst (snd (snd (gx_session_command env sched dev s c0 c1 p at x rt n r h))))"
  by (auto simp: gx_session_command_def command_loop_keeps split: sum.split)

end

section \<open>Sizes\<close>

text \<open>Every buffer of the session stays within its array; the stream buffer far below it.\<close>

definition tables_ok :: "gx_session \<Rightarrow> bool" where
  "tables_ok s \<longleftrightarrow>
     length (tls_fifo s) \<le> GX5125_TLS_FIFO_CAPACITY
     \<and> (\<forall>i j. length (ak_data (acknowledgements s i j)) \<le> 32)
     \<and> (\<forall>i j. length (rs_data (responses s i j)) \<le> GX5125_RESPONSE_CAPACITY)"

definition session_ok :: "gx_session \<Rightarrow> bool" where
  "session_ok s \<longleftrightarrow> tables_ok s \<and> length (stream s) < 4 + GX5125_OUTER_MAX_PAYLOAD"

definition read_ok :: "rx_read \<Rightarrow> bool" where
  "read_ok rd \<longleftrightarrow> (case rd of Inl _ \<Rightarrow> True | Inr bs \<Rightarrow> length bs \<le> GX_RX_TRANSFER_CAPACITY)"

lemma tables_ok_simps [simp]:
  "tables_ok (s\<lparr>stream := x\<rparr>) = tables_ok s"
  "tables_ok (s\<lparr>receiver_error := e\<rparr>) = tables_ok s"
  "tables_ok (s\<lparr>outer_frames := n\<rparr>) = tables_ok s"
  "tables_ok (s\<lparr>inner_frames := n\<rparr>) = tables_ok s"
  "tables_ok (s\<lparr>notice_frames := n\<rparr>) = tables_ok s"
  "tables_ok (s\<lparr>framing_errors := n\<rparr>) = tables_ok s"
  "tables_ok (s\<lparr>checksum_errors := n\<rparr>) = tables_ok s"
  by (simp_all add: tables_ok_def)

lemma store_tables:
  "tables_ok s \<Longrightarrow> tables_ok (gx_store_ack s i)"
  "tables_ok s \<Longrightarrow> tables_ok (gx_store_response s i)"
  by (auto simp: tables_ok_def gx_store_ack_def gx_store_response_def tab_upd_def Let_def
      GX5125_RESPONSE_CAPACITY_def)

lemma dispatch_tables: "tables_ok s \<Longrightarrow> tables_ok (snd (gx_dispatch_outer s f))"
proof -
  assume s: "tables_ok s"
  then have "tables_ok (snd (tls_push s p))" for p
    by (auto simp: tables_ok_def tls_push_def Let_def)
  moreover from s have "tables_ok (snd (dispatch_inner s p))" for p
    by (simp add: dispatch_inner_def Let_def store_tables split: sum.split)
  ultimately show ?thesis
    using s
    by (auto simp: gx_dispatch_outer_def tables_ok_def tls_push_def dispatch_inner_def Let_def
        store_tables [unfolded tables_ok_def] split: sum.split)
qed

lemma dispatch_all_tables: "tables_ok s \<Longrightarrow> tables_ok (dispatch_all s fs)"
  by (induction fs arbitrary: s) (simp_all add: dispatch_tables)

lemma session_ok_parse: "tables_ok s \<Longrightarrow> session_ok (gx_stream_parse s)"
  by (simp add: session_ok_def gx_stream_parse_cut dispatch_all_tables cut_stream_residue)

lemma feed_ok:
  assumes "session_ok s" and "length bs \<le> GX_RX_TRANSFER_CAPACITY"
  shows "gx_stream_feed s (Buf bs) = (Inr (), gx_stream_parse (s\<lparr>stream := stream s @ bs\<rparr>))"
  using assms by (intro gx_stream_feed_fits) (simp add: session_ok_def outer_consts session_consts)

lemma session_ok_iteration:
  assumes "session_ok s" and "read_ok rd"
  shows "session_ok (fst (receiver_iteration s rd))"
proof (cases rd)
  case (Inl e)
  with assms show ?thesis
    by (simp add: receiver_iteration_def gx_set_receiver_error_def session_ok_def)
next
  case (Inr bs)
  with assms show ?thesis
    using feed_ok [OF assms(1), of bs]
    by (simp add: receiver_iteration_def read_ok_def session_ok_parse session_ok_def [of s])
qed

interpretation sizes: receiver_invariant session_ok read_ok
  by unfold_locales (rule session_ok_iteration)

lemma tls_take_keeps: "session_ok s \<Longrightarrow> session_ok (snd (tls_take s n))"
  by (auto simp: tls_take_def session_ok_def tables_ok_def Let_def)

lemma tls_clear_keeps: "session_ok s \<Longrightarrow> session_ok (gx_session_tls_clear s)"
  by (simp add: gx_session_tls_clear_def session_ok_def tables_ok_def)

lemma tls_read_keeps:
  "session_ok s \<Longrightarrow> plan_ok read_ok plan \<Longrightarrow> session_ok (snd (gx_session_tls_read s n plan))"
  unfolding gx_session_tls_read_def Let_def split_beta
  by (auto simp: sizes.wait_plan_keeps tls_take_keeps split: option.split)

lemma zero_session_ok: "session_ok (zero_session\<lparr>receiver_started := b\<rparr>)"
  by (simp add: zero_session_def session_ok_def tables_ok_def outer_consts)

text \<open>
  The life of a running session: it starts zeroed, the receiver iterates with reads of at most
  4096 bytes, and the command thread runs commands, reads the TLS queue and clears it, in any order
  and with any interleaving of the receiver.
\<close>

inductive session_reachable :: "gx_session \<Rightarrow> bool" where
  started: "session_reachable (zero_session\<lparr>receiver_started := True\<rparr>)"
| received: "session_reachable s \<Longrightarrow> read_ok rd \<Longrightarrow> session_reachable (fst (receiver_iteration s rd))"
| commanded: "session_reachable s \<Longrightarrow> (\<And>h t. plan_ok read_ok (sched h t)) \<Longrightarrow>
    session_reachable (fst (snd (snd (gx_session_command env sched dev s c0 c1 p at x rt n r h))))"
| tls_read: "session_reachable s \<Longrightarrow> plan_ok read_ok plan \<Longrightarrow>
    session_reachable (snd (gx_session_tls_read s n plan))"
| tls_cleared: "session_reachable s \<Longrightarrow> session_reachable (gx_session_tls_clear s)"

lemma reachable_ok: "session_reachable s \<Longrightarrow> session_ok s"
  by (induction rule: session_reachable.induct)
    (simp_all add: zero_session_ok session_ok_iteration sizes.command_keeps tls_read_keeps tls_clear_keeps)

text \<open>
  C11: no buffer of the session can overflow. In every reachable session the TLS queue, the stored
  acknowledgements and responses fit their arrays, the stream buffer holds less than one maximal
  frame, and the next read, whatever its bytes, is accepted: the overflow branch of
  \<open>gx_stream_feed\<close>, which would drop data and stop the receiver, is unreachable.
\<close>

theorem session_buffers_bounded:
  assumes "session_reachable s" and "length bytes \<le> GX_RX_TRANSFER_CAPACITY"
  shows "length (stream s) < GX5125_OUTER_HEADER_SIZE + GX5125_OUTER_MAX_PAYLOAD
    \<and> length (tls_fifo s) \<le> GX5125_TLS_FIFO_CAPACITY
    \<and> (\<forall>i j. length (ak_data (acknowledgements s i j)) \<le> 32
           \<and> length (rs_data (responses s i j)) \<le> GX5125_RESPONSE_CAPACITY)
    \<and> (\<exists>s'. gx_stream_feed s (Buf bytes) = (Inr (), s') \<and> length (stream s') \<le> GX5125_STREAM_CAPACITY)"
proof -
  have ok: "session_ok s" using assms(1) by (rule reachable_ok)
  have "session_ok (gx_stream_parse (s\<lparr>stream := stream s @ bytes\<rparr>))"
    using ok by (intro session_ok_parse) (simp add: session_ok_def)
  with ok feed_ok [OF ok assms(2)] show ?thesis
    by (auto simp: session_ok_def tables_ok_def outer_consts session_consts)
qed

theorem session_buffers_bounded_witness:
  "length (stream (zero_session\<lparr>receiver_started := True\<rparr>)) < GX5125_OUTER_HEADER_SIZE + GX5125_OUTER_MAX_PAYLOAD
    \<and> (\<exists>s'. gx_stream_feed (zero_session\<lparr>receiver_started := True\<rparr>) (Buf [0xa0]) = (Inr (), s')
        \<and> length (stream s') \<le> GX5125_STREAM_CAPACITY)"
  using session_buffers_bounded [OF session_reachable.started, of "[0xa0]"]
  by (simp add: session_consts)

section \<open>The TLS queue\<close>

text \<open>The producer is the dispatch of a TLS frame, the consumer the copying half of \<open>gx_session_tls_read\<close>.\<close>

definition tls_receive :: "gx_session \<Rightarrow> u8 list \<Rightarrow> gx_session" where
  "tls_receive s p = snd (gx_dispatch_outer s (outer_frame (GX5125_OUTER_TLS, p)))"

lemma dispatch_tls:
  assumes "length p \<le> GX5125_OUTER_MAX_PAYLOAD"
  shows "gx_dispatch_outer s (outer_frame (GX5125_OUTER_TLS, p)) = tls_push (s\<lparr>outer_frames := outer_frames s + 1\<rparr>) p"
proof -
  have "outer_ok (GX5125_OUTER_TLS, p)"
    using assms by (simp add: outer_ok_def gx_outer_family_supported_def outer_consts)
  from outer.decode_exact [OF this] show ?thesis
    by (simp add: gx_dispatch_outer_def outer_view_of_def outer_consts Let_def)
qed

lemma tls_receive_fifo:
  assumes "length p \<le> GX5125_OUTER_MAX_PAYLOAD"
  shows "tls_fifo (tls_receive s p)
       = (if length (tls_fifo s) + length p \<le> GX5125_TLS_FIFO_CAPACITY then tls_fifo s @ p else tls_fifo s)"
proof (cases "length p > GX5125_TLS_FIFO_CAPACITY - length (tls_fifo s)")
  case True
  then have "\<not> length (tls_fifo s) + length p \<le> GX5125_TLS_FIFO_CAPACITY" by linarith
  with True show ?thesis
    using assms by (simp add: tls_receive_def dispatch_tls tls_push_def)
next
  case False
  then have "length (tls_fifo s) + length p \<le> GX5125_TLS_FIFO_CAPACITY \<or> p = []"
    by (cases p) auto
  with False show ?thesis
    using assms by (auto simp: tls_receive_def dispatch_tls tls_push_def Let_def)
qed

lemma tls_take_simps:
  "fst (tls_take s n) = take n (tls_fifo s)"
  "tls_fifo (snd (tls_take s n)) = drop n (tls_fifo s)"
  by (simp_all add: tls_take_def Let_def min_def)

interpretation tlsq: byte_queue "\<lambda>p. length p \<le> GX5125_OUTER_MAX_PAYLOAD" tls_fifo
    GX5125_TLS_FIFO_CAPACITY tls_receive tls_take
  by unfold_locales (simp_all add: tls_receive_fifo tls_take_simps min.commute)

text \<open>
  The TLS byte stream is delivered in order and without loss. Whatever the interleaving of
  received TLS frames and reads, the bytes the reads returned followed by the bytes still
  queued are the bytes that were queued at first followed by the payloads of the frames
  that fitted, in order; and the queue never exceeds its array.
\<close>

theorem tls_stream_in_order:
  assumes "\<forall>p. Push p \<in> set ops \<longrightarrow> length p \<le> GX5125_OUTER_MAX_PAYLOAD"
    and "length (tls_fifo s) \<le> GX5125_TLS_FIFO_CAPACITY"
    and "queue_run tls_receive tls_take s ops = (out, s')"
  shows "out @ tls_fifo s' = tls_fifo s @ accepted GX5125_TLS_FIFO_CAPACITY (length (tls_fifo s)) ops
    \<and> length (tls_fifo s') \<le> GX5125_TLS_FIFO_CAPACITY"
  using tlsq.delivered_in_order [of ops s] tlsq.never_over_capacity [of ops s] assms
  by simp

theorem tls_stream_in_order_witness:
  "[1, 2] @ [3, 4] = [] @ accepted GX5125_TLS_FIFO_CAPACITY 0 [Push [1, 2, 3], Pull 2, Push [4 :: u8]]
    \<and> length [3, 4 :: u8] \<le> GX5125_TLS_FIFO_CAPACITY"
proof -
  let ?s = zero_session and ?ops = "[Push [1, 2, 3], Pull 2, Push [4 :: u8]]"
  let ?s' = "snd (queue_run tls_receive tls_take ?s ?ops)"
  have z: "tls_fifo ?s = []" by (simp add: zero_session_def)
  have run: "fst (queue_run tls_receive tls_take ?s ?ops) = [1, 2]" "tls_fifo ?s' = [3, 4]"
    by (simp_all add: split_beta tls_receive_fifo tls_take_simps z outer_consts session_consts)
  have "fst (queue_run tls_receive tls_take ?s ?ops) @ tls_fifo ?s'
      = tls_fifo ?s @ accepted GX5125_TLS_FIFO_CAPACITY (length (tls_fifo ?s)) ?ops
    \<and> length (tls_fifo ?s') \<le> GX5125_TLS_FIFO_CAPACITY"
    by (rule tls_stream_in_order [OF _ _ prod.collapse [symmetric]])
      (simp_all add: zero_session_def outer_consts)
  then show ?thesis by (simp only: run z list.size)
qed

section \<open>What a command promises\<close>

lemma wait_for_ack_success:
  "gx_wait_for_ack s c0 c1 b plan r = (Inr (), r', s') \<Longrightarrow>
   ak_sequence (acknowledgements s' c0 c1) \<noteq> b
   \<and> r' = r\<lparr>ack_received := True, cr_ack_flags := ak_flags (acknowledgements s' c0 c1)\<rparr>"
  by (auto simp: gx_wait_for_ack_def Let_def split_beta split: if_splits option.splits)

lemma wait_for_response_success:
  "gx_wait_for_response s c0 c1 b plan r = (Inr (), r', s') \<Longrightarrow>
   rs_sequence (responses s' c0 c1) \<noteq> b
   \<and> r' = r\<lparr>response_received := True, cr_response := rs_data (responses s' c0 c1)\<rparr>"
  by (auto simp: gx_wait_for_response_def Let_def split_beta split: if_splits option.splits)

lemma wait_failure_result:
  "gx_wait_for_ack s c0 c1 b plan r = (Inl e, r', s') \<Longrightarrow> r' = r"
  "gx_wait_for_response s c0 c1 b plan r = (Inl e, r', s') \<Longrightarrow> r' = r"
  by (auto simp: gx_wait_for_ack_def gx_wait_for_response_def Let_def split_beta
      split: if_splits option.splits)

text \<open>Transport sends in a history: each starts with its one allocation.\<close>

fun is_send :: "ext_call \<Rightarrow> bool" where
  "is_send (Calloc n) = True"
| "is_send _ = False"

definition send_count :: "history \<Rightarrow> nat" where
  "send_count h = length (filter is_send h)"

lemma send_count_simps [simp]:
  "send_count [] = 0"
  "send_count (a @ b) = send_count a + send_count b"
  "send_count (Cond_timedwait t # a) = send_count a"
  "send_count (Calloc n # a) = Suc (send_count a)"
  "send_count (Free # a) = send_count a"
  by (simp_all add: send_count_def)

lemma bulk_write_no_send: "send_count (snd (bulk_write_loop env t bs h)) = send_count h"
proof (induction env t bs h rule: bulk_write_loop.induct)
  case (1 env t rest h)
  show ?case
    using 1 [OF _ refl]
    by (subst bulk_write_loop.simps)
      (auto simp: ext_do_def send_count_def split: sum.split)
qed

lemma send_outer_one_send:
  assumes "length p \<le> GX5125_OUTER_MAX_PAYLOAD"
  shows "send_count (snd (gx_transport_send_outer env dev t (Buf p) timeout h)) = send_count h + 1"
proof -
  have "send_count (snd (gx_usb_bulk_write_64 env dev b timeout h1)) = send_count h1" for b h1
    by (simp add: gx_usb_bulk_write_64_def bulk_write_no_send)
  then show ?thesis
    using wire_size_bounds [OF assms]
    by (auto simp: gx_transport_send_outer_def ext_do_def Let_def split_beta split: sum.split)
qed

text \<open>The outcome of a successful attempt, and so of a successful command.\<close>

definition fresh_outcome :: "command_request \<Rightarrow> gx_command_result \<Rightarrow> gx_session \<Rightarrow> bool" where
  "fresh_outcome rq r s \<longleftrightarrow>
     (rq_expect_response rq \<longrightarrow>
        response_received r
        \<and> rs_sequence (responses s (rq_cmd0 rq) (rq_cmd1 rq)) \<noteq> rq_response_baseline rq
        \<and> cr_response r = rs_data (responses s (rq_cmd0 rq) (rq_cmd1 rq)))
     \<and> (\<not> rq_expect_response rq \<and> rq_ack_timeout rq \<noteq> 0 \<longrightarrow>
        ack_received r
        \<and> ak_sequence (acknowledgements s (rq_cmd0 rq) (rq_cmd1 rq)) \<noteq> rq_ack_baseline rq)"

lemma response_phase_spec:
  assumes "response_phase sched rq s r h = (rc, r', s', h')"
    and "rq_ack_timeout rq \<noteq> 0 \<longrightarrow> ack_received r
       \<and> ak_sequence (acknowledgements s (rq_cmd0 rq) (rq_cmd1 rq)) \<noteq> rq_ack_baseline rq"
  shows "attempts_used r' = attempts_used r \<and> send_count h' = send_count h
       \<and> (rc = Inr () \<longrightarrow> fresh_outcome rq r' s')"
proof (cases "rq_expect_response rq")
  case True
  obtain rc1 r1 s1 where w: "gx_wait_for_response s (rq_cmd0 rq) (rq_cmd1 rq) (rq_response_baseline rq)
      (sched h (rq_response_timeout rq)) r = (rc1, r1, s1)"
    by (rule prod_cases3)
  show ?thesis
  proof (cases rc1)
    case (Inl e)
    with w True assms wait_failure_result(2) [of s _ _ _ _ r e r1 s1] show ?thesis
      by (auto simp: response_phase_def)
  next
    case (Inr u)
    with w have "gx_wait_for_response s (rq_cmd0 rq) (rq_cmd1 rq) (rq_response_baseline rq)
      (sched h (rq_response_timeout rq)) r = (Inr (), r1, s1)" by simp
    from wait_for_response_success [OF this] True w assms show ?thesis
      by (auto simp: response_phase_def fresh_outcome_def)
  qed
next
  case False
  with assms show ?thesis by (auto simp: response_phase_def fresh_outcome_def)
qed

lemma command_attempt_spec:
  assumes a: "command_attempt env sched dev rq s r h = (rc, r', s', h')"
    and "length (rq_inner rq) \<le> GX5125_OUTER_MAX_PAYLOAD"
  shows "attempts_used r' = attempts_used r \<and> send_count h' = send_count h + 1
       \<and> (rc = Inr () \<longrightarrow> fresh_outcome rq r' s')"
proof -
  obtain rc0 h1 where send: "gx_transport_send_outer env dev GX5125_OUTER_COMMAND (Buf (rq_inner rq))
      GX_TX_TIMEOUT_MS h = (rc0, h1)" by (rule prod.exhaust)
  from send_outer_one_send [OF assms(2)] have n1: "send_count h1 = send_count h + 1"
    by (metis send snd_conv)
  obtain rc1 r1 s1 where ack: "gx_wait_for_ack s (rq_cmd0 rq) (rq_cmd1 rq) (rq_ack_baseline rq)
      (sched h1 (rq_ack_timeout rq)) r = (rc1, r1, s1)" by (rule prod_cases3)
  let ?h2 = "h1 @ [Cond_timedwait (rq_ack_timeout rq)]"
  obtain rc2 r2 s2 where late: "gx_wait_for_response s1 (rq_cmd0 rq) (rq_cmd1 rq)
      (rq_response_baseline rq) (sched ?h2 1) r1 = (rc2, r2, s2)" by (rule prod_cases3)
  consider (sendfail) e where "rc0 = Inl e"
    | (noack) "rc0 = Inr ()" "rq_ack_timeout rq = 0"
    | (acked) "rc0 = Inr ()" "rq_ack_timeout rq \<noteq> 0" "rc1 = Inr ()"
    | (unacked) e where "rc0 = Inr ()" "rq_ack_timeout rq \<noteq> 0" "rc1 = Inl e"
    by (cases rc0; cases rc1) auto
  then show ?thesis
  proof cases
    case sendfail
    with a send n1 show ?thesis by (auto simp: command_attempt_def)
  next
    case noack
    with a send have "response_phase sched rq s r h1 = (rc, r', s', h')"
      by (simp add: command_attempt_def)
    from response_phase_spec [OF this] noack n1 show ?thesis by simp
  next
    case acked
    with a send ack have "response_phase sched rq s1 r1 ?h2 = (rc, r', s', h')"
      by (simp add: command_attempt_def Let_def)
    moreover have "ak_sequence (acknowledgements s1 (rq_cmd0 rq) (rq_cmd1 rq)) \<noteq> rq_ack_baseline rq
        \<and> ack_received r1 \<and> attempts_used r1 = attempts_used r"
      using wait_for_ack_success [OF ack [unfolded acked(3)]] by simp
    ultimately show ?thesis
      using response_phase_spec [of sched rq s1 r1 ?h2 rc r' s' h'] n1 by simp
  next
    case unacked
    have r1: "r1 = r" by (rule wait_failure_result(1) [OF ack [unfolded unacked(3)]])
    show ?thesis
    proof (cases rc2)
      case (Inl e2)
      with late have "r2 = r1" by (intro wait_failure_result(2)) simp
      with Inl a send ack late unacked n1 r1 show ?thesis
        by (auto simp: command_attempt_def Let_def split: if_splits)
    next
      case (Inr u)
      with late have late': "gx_wait_for_response s1 (rq_cmd0 rq) (rq_cmd1 rq)
          (rq_response_baseline rq) (sched ?h2 1) r1 = (Inr (), r2, s2)" by simp
      from wait_for_response_success [OF late'] Inr late' a send ack unacked n1 r1
      show ?thesis
        by (auto simp: command_attempt_def Let_def fresh_outcome_def split: if_splits)
    qed
  qed
qed

lemma command_loop_spec:
  assumes "command_loop env sched dev rq n k e s r h = (rc, r', s', h')"
    and "length (rq_inner rq) \<le> GX5125_OUTER_MAX_PAYLOAD"
  shows "(n \<noteq> 0 \<longrightarrow> k \<le> attempts_used r') \<and> (n \<noteq> 0 \<longrightarrow> attempts_used r' < k + n)
       \<and> (n \<noteq> 0 \<longrightarrow> send_count h' + k = send_count h + attempts_used r' + 1)
       \<and> (n = 0 \<longrightarrow> attempts_used r' = attempts_used r \<and> send_count h' = send_count h)
       \<and> (rc = Inr () \<longrightarrow> n \<noteq> 0 \<and> fresh_outcome rq r' s')"
  using assms(1)
proof (induction n arbitrary: k e s r h)
  case (Suc n)
  obtain rc1 r1 s1 h1 where a: "command_attempt env sched dev rq s (r\<lparr>attempts_used := k\<rparr>) h = (rc1, r1, s1, h1)"
    by (metis prod.collapse)
  note spec = command_attempt_spec [OF a assms(2)]
  show ?case
  proof (cases rc1)
    case (Inr u)
    with Suc.prems a spec show ?thesis by auto
  next
    case (Inl e1)
    with Suc.prems a have "command_loop env sched dev rq n (Suc k) e1 s1 r1 h1 = (rc, r', s', h')"
      by simp
    from Suc.IH [OF this] spec show ?thesis
      by (cases "n = 0") auto
  qed
qed auto

text \<open>With a frame that builds, a command is its retry loop.\<close>

definition request_of ::
    "gx_session \<Rightarrow> u8 \<Rightarrow> u8 \<Rightarrow> u8 list \<Rightarrow> nat \<Rightarrow> bool \<Rightarrow> nat \<Rightarrow> command_request" where
  "request_of s cmd0 cmd1 frame ack_ms expects resp_ms =
     \<lparr>rq_cmd0 = cmd0, rq_cmd1 = cmd1, rq_inner = frame, rq_ack_timeout = ack_ms,
      rq_expect_response = expects, rq_response_timeout = resp_ms,
      rq_ack_baseline = ak_sequence (acknowledgements s cmd0 cmd1),
      rq_response_baseline = rs_sequence (responses s cmd0 cmd1)\<rparr>"

lemma command_as_loop:
  assumes "cmd0 \<le> 0x0f" and "cmd1 \<le> 0x07" and "0 < attempts" and "\<not> (is_null payload \<and> cbuf_len payload \<noteq> 0)"
    and b: "gx_inner_build cmd0 cmd1 (ack_ms \<noteq> 0) payload (Buf (replicate GX5125_OUTER_MAX_PAYLOAD 0)) = Inr (inner, n)"
  shows "gx_session_command env sched dev s cmd0 cmd1 payload ack_ms expects resp_ms attempts r h
       = command_loop env sched dev (request_of s cmd0 cmd1 (take n inner) ack_ms expects resp_ms)
           attempts 1 LIBUSB_ERROR_OTHER s zero_command_result h"
    and "length (take n inner) \<le> GX5125_OUTER_MAX_PAYLOAD"
  using assms gx_inner_build_success [OF b]
  by (auto simp: gx_session_command_def request_of_def not_less)

text \<open>
  C12: a command that succeeds has an answer that is newer than the command. For every libusb,
  every interleaving of the receiver and every retry count: on success with a response expected the
  response counter of the command's slot moved past its value before the first send, and the result
  carries the bytes stored there; on success without a response but with an acknowledgement
  time-out the acknowledgement counter moved.
\<close>

theorem command_answer_is_fresh:
  assumes "gx_session_command env sched dev s cmd0 cmd1 payload ack_ms expects resp_ms attempts r h
       = (Inr (), r', s', h')"
  shows "if expects
         then response_received r'
           \<and> rs_sequence (responses s' cmd0 cmd1) \<noteq> rs_sequence (responses s cmd0 cmd1)
           \<and> cr_response r' = rs_data (responses s' cmd0 cmd1)
         else ack_ms \<noteq> 0 \<longrightarrow> ack_received r'
           \<and> ak_sequence (acknowledgements s' cmd0 cmd1) \<noteq> ak_sequence (acknowledgements s cmd0 cmd1)"
proof -
  from assms obtain inner n where
    b: "gx_inner_build cmd0 cmd1 (ack_ms \<noteq> 0) payload (Buf (replicate GX5125_OUTER_MAX_PAYLOAD 0)) = Inr (inner, n)"
    by (auto simp: gx_session_command_def split: if_splits sum.splits)
  have g: "cmd0 \<le> 0x0f" "cmd1 \<le> 0x07" "0 < attempts" "\<not> (is_null payload \<and> cbuf_len payload \<noteq> 0)"
    using assms by (auto simp: gx_session_command_def split: if_splits)
  note loop = command_as_loop [OF g b]
  show ?thesis
    using command_loop_spec [OF assms [unfolded loop(1)]] loop(2)
    by (auto simp: request_of_def fresh_outcome_def)
qed

text \<open>
  The retries are bounded and counted. Whatever happens, a command makes at most
  \<open>max_attempts\<close> transport sends, exactly as many as \<open>attempts_used\<close> says, and when its arguments
  are legal at least one.
\<close>

theorem command_attempts_counted:
  assumes "gx_session_command env sched dev s cmd0 cmd1 payload ack_ms expects resp_ms attempts r h
       = (rc, r', s', h')"
    and "cmd0 \<le> 0x0f" and "cmd1 \<le> 0x07" and "0 < attempts" and "\<not> is_null payload"
    and "cbuf_len payload \<le> GX5125_OUTER_MAX_PAYLOAD - 4"
  shows "send_count h' = send_count h + attempts_used r'
    \<and> 1 \<le> attempts_used r' \<and> attempts_used r' \<le> attempts"
proof -
  obtain p where p: "payload = Buf p" using assms(5) not_null_Buf by blast
  with assms(6) have "length p < 65535" "4 + length p \<le> length (replicate GX5125_OUTER_MAX_PAYLOAD (0 :: u8))"
    by (simp_all add: outer_consts)
  from gx_inner_build_eq [OF assms(2,3) this] p obtain inner n where
    b: "gx_inner_build cmd0 cmd1 (ack_ms \<noteq> 0) payload (Buf (replicate GX5125_OUTER_MAX_PAYLOAD 0)) = Inr (inner, n)"
    by blast
  have g: "\<not> (is_null payload \<and> cbuf_len payload \<noteq> 0)" using assms(5) by simp
  note loop = command_as_loop [OF assms(2-4) g b]
  show ?thesis
    using command_loop_spec [OF assms(1) [unfolded loop(1)]] loop(2) assms(4)
    by (simp add: request_of_def zero_command_result_def)
qed

text \<open>A command only moves data and waits.\<close>

lemma response_phase_io: "grows io_call h (snd (snd (snd (response_phase sched rq s r h))))"
  by (auto simp: response_phase_def split_beta intro: grows_snoc)

lemma command_attempt_io: "grows io_call h (snd (snd (snd (command_attempt env sched dev rq s r h))))"
proof -
  let ?h1 = "snd (gx_transport_send_outer env dev GX5125_OUTER_COMMAND (Buf (rq_inner rq)) GX_TX_TIMEOUT_MS h)"
  have g1: "grows io_call h ?h1" by (rule send_outer_io)
  then have g2: "grows io_call h (?h1 @ [Cond_timedwait t])" for t by (rule grows_snoc) simp
  then have g3: "grows io_call h ((?h1 @ [Cond_timedwait t]) @ [Cond_timedwait u])" for t u
    by (rule grows_snoc) simp
  show ?thesis
    using g1 g2 g3 [simplified] grows_trans [OF g1 response_phase_io] grows_trans [OF g2 response_phase_io]
    by (auto simp: command_attempt_def Let_def split_beta split: sum.split)
qed

lemma command_loop_io: "grows io_call h (snd (snd (snd (command_loop env sched dev rq n k e s r h))))"
proof (induction n arbitrary: k e s r h)
  case (Suc n)
  obtain rc1 r1 s1 h1 where a: "command_attempt env sched dev rq s (r\<lparr>attempts_used := k\<rparr>) h = (rc1, r1, s1, h1)"
    by (metis prod.collapse)
  then have "grows io_call h h1"
    using command_attempt_io [of h env sched dev rq s "r\<lparr>attempts_used := k\<rparr>"] by simp
  with Suc.IH a show ?case
    by (auto split: sum.split intro: grows_trans)
qed simp

lemma command_io:
  "grows io_call h (snd (snd (snd (gx_session_command env sched dev s c0 c1 p at x rt n r h))))"
  by (auto simp: gx_session_command_def command_loop_io split: sum.split)

section \<open>A device that answers\<close>

lemma wait_while_done: "\<not> c s \<Longrightarrow> wait_while c s ws = (False, s)"
  by (cases ws) auto

text \<open>The acknowledgement and the response a device sends for a command, as outer frames.\<close>

definition device_message :: "u8 \<Rightarrow> u8 \<Rightarrow> u8 list \<Rightarrow> u8 \<times> u8 list" where
  "device_message cmd0 cmd1 data =
     (let c = gx_inner_command_byte cmd0 cmd1 True
      in (GX5125_OUTER_COMMAND, inner_frame (c, data, right_checksum c data)))"

definition ack_message :: "u8 \<Rightarrow> u8 \<Rightarrow> u8 \<Rightarrow> u8 \<times> u8 list" where
  "ack_message cmd0 cmd1 flags = device_message 0x0b 0 [gx_inner_command_byte cmd0 cmd1 True, flags]"

lemma device_message_ok: "length data \<le> GX5125_RESPONSE_CAPACITY \<Longrightarrow> outer_ok (device_message c0 c1 data)"
  by (simp add: device_message_def outer_ok_def gx_outer_family_supported_def outer_consts session_consts Let_def)

lemma dispatch_device_message:
  assumes "c0 \<le> 0x0f" and "c1 \<le> 0x07" and "length data \<le> GX5125_RESPONSE_CAPACITY"
  shows "\<exists>v. gx_dispatch_outer s (outer_frame (device_message c0 c1 data)) =
      (Inr (), if c0 = 0x0b \<and> c1 = 0 \<and> 1 \<le> length data
               then gx_store_ack (s\<lparr>outer_frames := outer_frames s + 1, inner_frames := inner_frames s + 1\<rparr>) v
               else gx_store_response (s\<lparr>outer_frames := outer_frames s + 1, inner_frames := inner_frames s + 1\<rparr>) v)
    \<and> iv_cmd0 v = c0 \<and> iv_cmd1 v = c1 \<and> iv_data v = data"
proof -
  let ?c = "gx_inner_command_byte c0 c1 True"
  let ?d = "(?c, data, right_checksum ?c data)"
  have f: "device_message c0 c1 data = (GX5125_OUTER_COMMAND, inner_frame ?d)"
    by (simp add: device_message_def Let_def)
  have o: "gx_outer_decode (Buf (outer_frame (GX5125_OUTER_COMMAND, inner_frame ?d)))
      = Inr (outer_view_of (GX5125_OUTER_COMMAND, inner_frame ?d))"
    using outer.decode_exact [OF device_message_ok [OF assms(3)]] f by metis
  have i: "gx_inner_decode (Buf (inner_frame ?d)) = Inr (inner_view_of ?d)"
    using assms(3) by (intro inner.decode_exact) (simp add: inner_ok_def session_consts)
  have fam: "ov_family (outer_view_of (GX5125_OUTER_COMMAND, p)) = GX5125_OUTER_COMMAND"
    "ov_payload (outer_view_of (GX5125_OUTER_COMMAND, p)) = p" for p
    by (simp_all add: outer_view_of_def outer_consts)
  have ne: "GX5125_OUTER_COMMAND \<noteq> GX5125_OUTER_TLS" "GX5125_OUTER_COMMAND \<noteq> GX5125_OUTER_NOTICE"
    by (simp_all add: outer_consts)
  show ?thesis
    using sent_view [OF assms(1,2), of True data] ne
    by (intro exI [of _ "inner_view_of ?d"])
      (simp add: f gx_dispatch_outer_def o fam dispatch_inner_def i Let_def)
qed

lemma ack_slot:
  assumes "c0 \<le> (0x0f :: u8)" and "c1 \<le> (0x07 :: u8)"
  defines "a \<equiv> gx_inner_command_byte c0 c1 True AND 0xfe"
  shows "drop_bit 4 a = c0" and "drop_bit 1 (a AND 0x0f) = c1"
proof -
  let ?c = "gx_inner_command_byte c0 c1 True"
  note f = command_byte_fields [OF assms(1,2), of True]
  have "?c AND 0x01 = 0" using f(3) by blast
  then have "\<not> bit ?c 0" by (simp add: and_one_eq bit_0 even_iff_mod_2_eq_zero)
  moreover have "bit (0xfe :: u8) n \<longleftrightarrow> n < 8 \<and> 0 < n" for n
  proof -
    have "(0xfe :: u8) = NOT (mask 1)" by (simp add: mask_eq_exp_minus_1)
    then show ?thesis by (simp only: bit_not_iff bit_mask_iff possible_bit_word) auto
  qed
  ultimately have "a = ?c"
    unfolding a_def by (intro bit_word_eqI) (auto simp: bit_simps intro: gr0I)
  then show "drop_bit 4 a = c0" and "drop_bit 1 (a AND 0x0f) = c1"
    using f(1,2) by blast+
qed

lemma store_ack_slot:
  fixes flags :: u8
  assumes "c0 \<le> (0x0f :: u8)" and "c1 \<le> (0x07 :: u8)"
    and "iv_data v = [gx_inner_command_byte c0 c1 True, flags]"
  shows "gx_store_ack s v = s\<lparr>acknowledgements := tab_upd (acknowledgements s) c0 c1
      \<lparr>ak_sequence = ak_sequence (acknowledgements s c0 c1) + 1,
       ak_acked_command = gx_inner_command_byte c0 c1 True AND 0xfe, ak_flags = flags,
       ak_data = [gx_inner_command_byte c0 c1 True, flags]\<rparr>\<rparr>"
  unfolding gx_store_ack_def Let_def assms(3)
  by (simp only: nth_Cons_0 ack_slot [OF assms(1,2)]) simp

text \<open>The receiver takes an acknowledgement and a response in two reads.\<close>

definition idle_session :: "gx_session \<Rightarrow> bool" where
  "idle_session s \<longleftrightarrow>
     \<not> stop_requested s \<and> receiver_error s = None
     \<and> set (stream s) \<subseteq> {0} \<and> length (stream s) \<le> 3"

definition answer_reads :: "u8 \<Rightarrow> u8 \<Rightarrow> u8 \<Rightarrow> u8 list \<Rightarrow> rx_read list" where
  "answer_reads c0 c1 flags data =
     [Inr (padded (ack_message c0 c1 flags, 54)), Inr (padded (device_message c0 c1 data, 0))]"

lemma dispatch_flags [simp]:
  "stop_requested (snd (gx_dispatch_outer s f)) = stop_requested s"
  "receiver_error (snd (gx_dispatch_outer s f)) = receiver_error s"
  by (simp_all add: gx_dispatch_outer_def dispatch_inner_def tls_push_def gx_store_ack_def
      gx_store_response_def Let_def split: sum.split)

lemma dispatch_all_flags [simp]:
  "stop_requested (dispatch_all s fs) = stop_requested s"
  "receiver_error (dispatch_all s fs) = receiver_error s"
  by (induction fs arbitrary: s) simp_all

lemma receiver_run_feed_all:
  assumes "\<not> stop_requested s" and "receiver_error s = None"
    and "length (stream s) < 4 + GX5125_OUTER_MAX_PAYLOAD"
    and "\<forall>c \<in> set chunks. c \<noteq> [] \<and> length c \<le> GX_RX_TRANSFER_CAPACITY"
  shows "receiver_run s (map Inr chunks) = feed_all s chunks"
  using assms
proof (induction chunks arbitrary: s)
  case (Cons c chunks)
  let ?s = "gx_stream_parse (s\<lparr>stream := stream s @ c\<rparr>)"
  have f: "gx_stream_feed s (Buf c) = (Inr (), ?s)"
    using Cons.prems by (intro gx_stream_feed_fits) (simp add: outer_consts session_consts)
  have "stop_requested ?s = stop_requested s" "receiver_error ?s = receiver_error s"
    by (simp_all add: parse_with_stream)
  moreover have "length (stream ?s) < 4 + GX5125_OUTER_MAX_PAYLOAD"
    by (simp add: cut_stream_residue)
  ultimately show ?case
    using Cons.IH [of ?s] Cons.prems f
    by (simp add: receiver_iteration_def feed_all_def)
qed (simp add: feed_all_def)

lemma answer_received:
  fixes flags :: u8 and s :: gx_session and c0 c1 :: u8 and data :: "u8 list"
  assumes "idle_session s" and "c0 \<le> 0x0f" and "c1 \<le> 0x07" and "\<not> (c0 = 0x0b \<and> c1 = 0)"
    and "length data \<le> GX5125_RESPONSE_CAPACITY"
  defines "s' \<equiv> receiver_run s (answer_reads c0 c1 flags data)"
  shows "idle_session s'
     \<and> ak_sequence (acknowledgements s' c0 c1) = ak_sequence (acknowledgements s c0 c1) + 1
     \<and> ak_flags (acknowledgements s' c0 c1) = flags
     \<and> rs_sequence (responses s' c0 c1) = rs_sequence (responses s c0 c1) + 1
     \<and> rs_data (responses s' c0 c1) = data \<and> tls_fifo s' = tls_fifo s"
proof -
  let ?f1 = "ack_message c0 c1 flags" and ?f2 = "device_message c0 c1 data"
  let ?chunks = "[padded (?f1, 54), padded (?f2, 0)]"
  have len: "length [gx_inner_command_byte c0 c1 True, flags] \<le> GX5125_RESPONSE_CAPACITY"
    by (simp add: session_consts)
  have ok: "outer_ok ?f1" "outer_ok ?f2"
    using device_message_ok [OF assms(5)] device_message_ok [OF len] by (simp_all add: ack_message_def)
  have str: "stream s = replicate (length (stream s)) 0" "length (stream s) \<le> 3"
    using assms(1) by (auto simp: idle_session_def intro!: replicate_eqI)
  have small: "\<forall>c \<in> set ?chunks. c \<noteq> [] \<and> length c \<le> GX_RX_TRANSFER_CAPACITY"
    using assms(5)
    by (simp add: padded_def ack_message_def device_message_def session_consts Let_def outer_frame_def
        outer_header_def)
  then have small': "\<forall>c \<in> set ?chunks. length c \<le> GX_RX_TRANSFER_CAPACITY" by simp
  have "\<forall>fn \<in> set [(?f1, 54 :: nat), (?f2, 0)]. outer_ok (fst fn)" using ok by simp
  from feed_padded [OF this str, of ?chunks] small' obtain rest
    where rest: "set rest \<subseteq> {0}" "length rest \<le> 3"
      "feed_all s ?chunks = (dispatch_all s [outer_frame ?f1, outer_frame ?f2])\<lparr>stream := rest\<rparr>"
    by auto
  have s': "s' = feed_all s ?chunks"
    using receiver_run_feed_all [of s ?chunks] assms(1) small
    by (simp add: s'_def answer_reads_def idle_session_def outer_consts)
  obtain v1 where v1: "snd (gx_dispatch_outer s (outer_frame ?f1)) = gx_store_ack
      (s\<lparr>outer_frames := outer_frames s + 1, inner_frames := inner_frames s + 1\<rparr>) v1"
      "iv_data v1 = [gx_inner_command_byte c0 c1 True, flags]"
    using dispatch_device_message [of "0x0b" 0 "[gx_inner_command_byte c0 c1 True, flags]" s] len
    by (auto simp: ack_message_def)
  let ?s1 = "snd (gx_dispatch_outer s (outer_frame ?f1))"
  obtain v2 where v2: "snd (gx_dispatch_outer ?s1 (outer_frame ?f2)) = gx_store_response
      (?s1\<lparr>outer_frames := outer_frames ?s1 + 1, inner_frames := inner_frames ?s1 + 1\<rparr>) v2"
      "iv_cmd0 v2 = c0" "iv_cmd1 v2 = c1" "iv_data v2 = data"
    using dispatch_device_message [OF assms(2,3,5), of ?s1] assms(4) by auto
  show ?thesis
    using assms(1,5) rest(1,2)
    by (simp add: s' rest(3) idle_session_def v2 gx_store_response_def Let_def)
      (simp add: v1(1) store_ack_slot [OF assms(2,3) v1(2)])
qed

text \<open>One attempt against a device that answers.\<close>

lemma ack_wait_answered:
  assumes "idle_session s" and "c0 \<le> 0x0f" and "c1 \<le> 0x07" and "\<not> (c0 = 0x0b \<and> c1 = 0)"
    and "length data \<le> GX5125_RESPONSE_CAPACITY" and "arrivals plan = answer_reads c0 c1 flags data"
    and "b = ak_sequence (acknowledgements s c0 c1)"
  shows "gx_wait_for_ack s c0 c1 b plan r =
    (Inr (), r\<lparr>ack_received := True, cr_ack_flags := flags\<rparr>, receiver_run s (arrivals plan))"
  using answer_received [OF assms(1-5), of flags]
  by (simp add: gx_wait_for_ack_def assms(6,7) wait_while_done Let_def)

lemma response_wait_answered:
  assumes "idle_session s" and "c0 \<le> 0x0f" and "c1 \<le> 0x07" and "\<not> (c0 = 0x0b \<and> c1 = 0)"
    and "length data \<le> GX5125_RESPONSE_CAPACITY" and "arrivals plan = answer_reads c0 c1 flags data"
    and "b = rs_sequence (responses s c0 c1) \<or> b = rs_sequence (responses s c0 c1) - 1"
  shows "gx_wait_for_response s c0 c1 b plan r =
    (Inr (), r\<lparr>response_received := True, cr_response := data\<rparr>, receiver_run s (arrivals plan))"
proof -
  have "rs_sequence (responses s c0 c1) + 1 \<noteq> b"
  proof
    assume "rs_sequence (responses s c0 c1) + 1 = b"
    with assms(7) have "(1 :: u64) = 0 \<or> (2 :: u64) = 0"
      by (auto simp: algebra_simps)
    then show False by simp
  qed
  with answer_received [OF assms(1-5), of flags] show ?thesis
    by (simp add: gx_wait_for_response_def assms(6) wait_while_done Let_def)
qed

lemma answered_command:
  assumes "calls_work env"
    and "ud_handle dev" and "claimed_data dev" and "idle_session s"
    and "cmd0 \<le> 0x0f" and "cmd1 \<le> 0x07" and "\<not> (cmd0 = 0x0b \<and> cmd1 = 0)"
    and "length payload \<le> GX5125_OUTER_MAX_PAYLOAD - 4" and "0 < attempts"
    and "length data \<le> GX5125_RESPONSE_CAPACITY"
    and answers: "\<And>g t. send_count g = Suc (send_count h) \<Longrightarrow> arrivals (sched g t) = answer_reads cmd0 cmd1 flags data"
  shows "\<exists>s' h'. gx_session_command env sched dev s cmd0 cmd1 (Buf payload) ack_ms True resp_ms attempts r h
       = (Inr (), \<lparr>ack_received = (ack_ms \<noteq> 0), cr_ack_flags = (if ack_ms \<noteq> 0 then flags else 0),
                   response_received = True, cr_response = data, attempts_used = 1\<rparr>, s', h')
     \<and> idle_session s' \<and> tls_fifo s' = tls_fifo s \<and> send_count h' = Suc (send_count h)"
proof -
  let ?c = "gx_inner_command_byte cmd0 cmd1 (ack_ms \<noteq> 0)"
  define f where "f = inner_frame (?c, payload, right_checksum ?c payload)"
  have "length payload < 65535" "4 + length payload \<le> length (replicate GX5125_OUTER_MAX_PAYLOAD (0 :: u8))"
    using assms(8) by (simp_all add: outer_consts)
  note b = gx_inner_build_eq [OF assms(5,6) this, of "ack_ms \<noteq> 0"]
  have "\<not> (is_null (Buf payload) \<and> cbuf_len (Buf payload) \<noteq> 0)" by simp
  note loop = command_as_loop [OF assms(5,6,9) this b]
  have loop: "gx_session_command env sched dev s cmd0 cmd1 (Buf payload) ack_ms True resp_ms attempts r h
      = command_loop env sched dev (request_of s cmd0 cmd1 f ack_ms True resp_ms)
          attempts 1 LIBUSB_ERROR_OTHER s zero_command_result h"
    unfolding loop(1) by (simp add: f_def)
  obtain n where n: "attempts = Suc n" using assms(9) by (cases attempts) auto
  have ok: "outer_ok (GX5125_OUTER_COMMAND, f)"
    using assms(8) by (simp add: f_def outer_ok_def gx_outer_family_supported_def outer_consts)
  then have sent: "fst (gx_transport_send_outer env dev GX5125_OUTER_COMMAND (Buf f) GX_TX_TIMEOUT_MS h) = Inr ()"
    using assms(1-3) by (intro send_outer_progress)
  note got = answer_received [OF assms(4-7,10), of flags]
  obtain rc0 h1 where e: "gx_transport_send_outer env dev GX5125_OUTER_COMMAND (Buf f) GX_TX_TIMEOUT_MS h = (rc0, h1)"
    by (rule prod.exhaust)
  with sent have "rc0 = Inr ()" by (simp only: fst_conv)
  note h1 = e [unfolded this]
  have c1: "send_count h1 = Suc (send_count h)"
    using ok send_outer_one_send [of f env dev GX5125_OUTER_COMMAND GX_TX_TIMEOUT_MS h] unfolding h1
    by (simp add: outer_ok_def)
  then have arr: "arrivals (sched h1 t) = answer_reads cmd0 cmd1 flags data"
    "arrivals (sched (h1 @ [Cond_timedwait u]) t) = answer_reads cmd0 cmd1 flags data" for t u
    by (simp_all add: answers)
  note ackw = ack_wait_answered [OF assms(4-7,10) arr(1) refl]
  show ?thesis
  proof (cases "ack_ms = 0")
    case True
    note resp = response_wait_answered [OF assms(4-7,10) arr(1) disjI1 [OF refl]]
    show ?thesis
      unfolding loop unfolding n
      using got c1 by (simp add: command_attempt_def request_of_def h1 response_phase_def resp True arr
          zero_command_result_def)
  next
    case False
    let ?s1 = "receiver_run s (answer_reads cmd0 cmd1 flags data)"
    have idle1: "idle_session ?s1" using got by blast
    have base: "rs_sequence (responses s cmd0 cmd1) = rs_sequence (responses ?s1 cmd0 cmd1) - 1"
      using got by simp
    note resp = response_wait_answered [OF idle1 assms(5-7,10) arr(2) disjI2 [OF base]]
    show ?thesis
      unfolding loop unfolding n
      using answer_received [OF idle1 assms(5-7,10), of flags] got c1
      by (simp add: command_attempt_def request_of_def h1 response_phase_def ackw arr
          resp False zero_command_result_def Let_def)
  qed
qed

text \<open>
  C13: a device that answers is heard. When libusb moves every block, the session is idle with
  no receiver error, and in every wait the device's acknowledgement and response arrive, a
  command with a response expected succeeds at the first attempt, and its result is exactly the
  data the device framed, with the acknowledgement flags it sent if the command waits for one.
\<close>

theorem command_answered:
  assumes "\<And>h c. reply_rc (env h c) = Inr 0 \<and> reply_moved (env h c) = 64"
    and "ud_handle dev" and "claimed_data dev" and "idle_session s"
    and "cmd0 \<le> 0x0f" and "cmd1 \<le> 0x07" and "\<not> (cmd0 = 0x0b \<and> cmd1 = 0)"
    and "length payload \<le> GX5125_OUTER_MAX_PAYLOAD - 4" and "0 < attempts"
    and "length data \<le> GX5125_RESPONSE_CAPACITY"
    and "\<And>h t. arrivals (sched h t) = answer_reads cmd0 cmd1 flags data"
  shows "\<exists>s' h'. gx_session_command env sched dev s cmd0 cmd1 (Buf payload) ack_ms True resp_ms attempts r h
       = (Inr (), \<lparr>ack_received = (ack_ms \<noteq> 0), cr_ack_flags = (if ack_ms \<noteq> 0 then flags else 0),
                   response_received = True, cr_response = data, attempts_used = 1\<rparr>, s', h')"
proof -
  have "\<exists>s' h'. gx_session_command env sched dev s cmd0 cmd1 (Buf payload) ack_ms True resp_ms attempts r h
       = (Inr (), \<lparr>ack_received = (ack_ms \<noteq> 0), cr_ack_flags = (if ack_ms \<noteq> 0 then flags else 0),
                   response_received = True, cr_response = data, attempts_used = 1\<rparr>, s', h')
     \<and> idle_session s' \<and> tls_fifo s' = tls_fifo s \<and> send_count h' = Suc (send_count h)"
    by (rule answered_command [OF calls_workI [OF assms(1)]]) (use assms in simp_all)
  then show ?thesis by blast
qed

text \<open>A device that answers the firmware query with two bytes, and one that never answers.\<close>

definition answering_sched :: scheduler where
  "answering_sched h t = \<lparr>arrivals = answer_reads 0x0a 0x04 0x01 [0x31, 0x32], wakes = []\<rparr>"

definition silent_sched :: scheduler where
  "silent_sched h t = \<lparr>arrivals = [], wakes = [([], Timed_out)]\<rparr>"

lemmas sample_command = quiet_env_def claimed_device_def zero_usb_device_def idle_session_def
  zero_session_def outer_consts session_consts answering_sched_def

theorem command_answered_witness:
  "\<exists>s' h'. gx_session_command quiet_env answering_sched claimed_device zero_session 0x0a 0x04
        (Buf [0, 0]) 1500 True 1500 3 zero_command_result []
     = (Inr (), \<lparr>ack_received = ((1500 :: nat) \<noteq> 0), cr_ack_flags = (if (1500 :: nat) \<noteq> 0 then 0x01 else 0),
                 response_received = True, cr_response = [0x31, 0x32], attempts_used = 1\<rparr>, s', h')"
  by (rule command_answered) (simp_all add: sample_command)

theorem command_answer_is_fresh_witness:
  "\<exists>r' s' h'. gx_session_command quiet_env answering_sched claimed_device zero_session 0x0a 0x04
        (Buf [0, 0]) 1500 True 1500 3 zero_command_result [] = (Inr (), r', s', h')
     \<and> response_received r'
     \<and> rs_sequence (responses s' 0x0a 0x04) \<noteq> rs_sequence (responses zero_session 0x0a 0x04)"
proof -
  have "\<exists>s' h'. gx_session_command quiet_env answering_sched claimed_device zero_session 0x0a 0x04
        (Buf [0, 0]) 1500 True 1500 3 zero_command_result []
     = (Inr (), \<lparr>ack_received = ((1500 :: nat) \<noteq> 0), cr_ack_flags = (if (1500 :: nat) \<noteq> 0 then 0x01 else 0),
                 response_received = True, cr_response = [0x31, 0x32], attempts_used = 1\<rparr>, s', h')
     \<and> idle_session s' \<and> tls_fifo s' = tls_fifo zero_session \<and> send_count h' = Suc (send_count [])"
    by (rule answered_command [OF quiet_works]) (simp_all add: sample_command)
  then obtain r' s' h' where c: "gx_session_command quiet_env answering_sched claimed_device zero_session
      0x0a 0x04 (Buf [0, 0]) 1500 True 1500 3 zero_command_result [] = (Inr (), r', s', h')"
    by blast
  from command_answer_is_fresh [OF c] c show ?thesis by auto
qed

theorem command_attempts_counted_witness:
  "\<exists>rc r' s' h'. gx_session_command quiet_env silent_sched claimed_device zero_session 0x0a 0x04
        (Buf [0, 0]) 1500 True 1500 3 zero_command_result [] = (rc, r', s', h')
     \<and> send_count h' = send_count [] + attempts_used r' \<and> 1 \<le> attempts_used r' \<and> attempts_used r' \<le> 3"
proof -
  obtain rc r' s' h' where c: "gx_session_command quiet_env silent_sched claimed_device zero_session
      0x0a 0x04 (Buf [0, 0]) 1500 True 1500 3 zero_command_result [] = (rc, r', s', h')"
    by (metis prod.collapse)
  have "send_count h' = send_count [] + attempts_used r' \<and> 1 \<le> attempts_used r' \<and> attempts_used r' \<le> 3"
    by (rule command_attempts_counted [OF c]) (simp_all add: outer_consts)
  with c show ?thesis by blast
qed

section \<open>Threads and deadlines\<close>

text \<open>The mutex, the condition variable and the receiver thread that a history left alive.\<close>

fun thread_effect :: "ext_reply \<Rightarrow> ext_call \<Rightarrow> bool \<times> bool \<times> bool \<Rightarrow> bool \<times> bool \<times> bool" where
  "thread_effect r Mutex_init (m, c, t) = (\<not> isl (reply_rc r) \<or> m, c, t)"
| "thread_effect r Mutex_destroy (m, c, t) = (False, c, t)"
| "thread_effect r Cond_init (m, c, t) = (m, \<not> isl (reply_rc r) \<or> c, t)"
| "thread_effect r Cond_destroy (m, c, t) = (m, False, t)"
| "thread_effect r Thread_create (m, c, t) = (m, c, \<not> isl (reply_rc r) \<or> t)"
| "thread_effect r Thread_join (m, c, t) = (m, c, False)"
| "thread_effect r _ v = v"

definition live_objects :: "environment \<Rightarrow> history \<Rightarrow> bool \<times> bool \<times> bool" where
  "live_objects env h = replay thread_effect env [] h (False, False, False)"

fun thread_call :: "ext_call \<Rightarrow> bool" where
  "thread_call Mutex_init = True"
| "thread_call Mutex_destroy = True"
| "thread_call Cond_init = True"
| "thread_call Cond_destroy = True"
| "thread_call Thread_create = True"
| "thread_call Thread_join = True"
| "thread_call _ = False"

lemma live_append [simp]: "live_objects env (h @ [c]) = thread_effect (env h c) c (live_objects env h)"
  by (simp add: live_objects_def replay_append)

lemma live_other_calls:
  assumes "\<forall>c \<in> set cs. \<not> thread_call c"
  shows "live_objects env (h @ cs) = live_objects env h"
proof -
  have "thread_effect r c v = v" if "\<not> thread_call c" for r c v
    using that by (cases c; cases v) auto
  with assms show ?thesis by (simp add: live_objects_def replay_append replay_unaffected)
qed

lemma session_start_live:
  assumes "live_objects env h = (False, False, False)" and "gx_session_start env dev s h = (rc, s1, h1)"
  shows "if isl rc then live_objects env h1 = (False, False, False)
         else live_objects env h1 = (True, True, True) \<and> s1 = zero_session\<lparr>receiver_started := True\<rparr>
           \<and> claimed_data dev"
  using assms
  by (auto simp: gx_session_start_def ext_do_def Let_def simp flip: append_assoc split: if_splits)

lemma session_stop_live:
  assumes "live_objects env h = (True, True, True)" and "receiver_started s"
  shows "live_objects env (snd (gx_session_stop env tail s h)) = (False, False, False)"
  using assms by (simp add: gx_session_stop_def ext_do_def Let_def del: append_assoc)

text \<open>
  C14: the session's threads are balanced. If \<open>gx_session_start\<close> fails, at whichever of its three
  steps, it leaves no mutex, condition variable or thread behind; if it succeeds all three exist,
  and \<open>gx_session_stop\<close>, whatever was done in between, ends them all.
\<close>

theorem session_start_stop_balanced:
  assumes "live_objects env h = (False, False, False)"
    and "gx_session_start env dev s h = (rc, s1, h1)"
    and "\<forall>c \<in> set cs. \<not> thread_call c" and "receiver_started s2"
  shows "if isl rc then live_objects env h1 = (False, False, False)
         else live_objects env h1 = (True, True, True) \<and> receiver_started s1
           \<and> live_objects env (snd (gx_session_stop env tail s2 (h1 @ cs))) = (False, False, False)"
proof -
  have "live_objects env (h1 @ cs) = live_objects env h1" by (rule live_other_calls [OF assms(3)])
  with session_start_live [OF assms(1,2)] session_stop_live [OF _ assms(4), of env "h1 @ cs" tail]
  show ?thesis by auto
qed

theorem session_start_stop_balanced_witness:
  "live_objects quiet_env (snd (gx_session_stop quiet_env [] (zero_session\<lparr>receiver_started := True\<rparr>)
     ([Mutex_init, Cond_init, Thread_create] @ [Cond_timedwait 5]))) = (False, False, False)"
proof -
  have "gx_session_start quiet_env claimed_device zero_session []
      = (Inr (), zero_session\<lparr>receiver_started := True\<rparr>, [Mutex_init, Cond_init, Thread_create])"
    by (simp add: gx_session_start_def sample_command ext_do_def)
  from session_start_stop_balanced [OF _ this, of "[Cond_timedwait 5]"
      "zero_session\<lparr>receiver_started := True\<rparr>" "[]"]
  show ?thesis by (simp add: live_objects_def)
qed

text \<open>
  Deadlines are exact. The deadline of a timed wait is normalised (nanoseconds below a second)
  and lies exactly the time-out after now, for every time-out in milliseconds.
\<close>

theorem deadline_exact:
  assumes "0 \<le> snd now" and "snd now < 1000000000" and "gx_deadline_after_ms now timeout_ms = (sec, nsec)"
  shows "0 \<le> nsec \<and> nsec < 1000000000
    \<and> sec * 1000000000 + nsec = fst now * 1000000000 + snd now + int timeout_ms * 1000000"
proof -
  let ?n = "snd now + int (timeout_ms mod 1000) * 1000000"
  have r: "sec = fst now + int (timeout_ms div 1000) + ?n div 1000000000" "nsec = ?n mod 1000000000"
    using assms(3) by (simp_all add: gx_deadline_after_ms_def Let_def)
  have "?n div 1000000000 * 1000000000 + ?n mod 1000000000 = ?n" by simp
  moreover have "int timeout_ms = int (timeout_ms div 1000) * 1000 + int (timeout_ms mod 1000)"
    by (simp add: zdiv_int zmod_int)
  ultimately show ?thesis unfolding r by (simp add: algebra_simps)
qed

theorem deadline_exact_witness:
  "(0 :: int) \<le> 250000000 \<and> (250000000 :: int) < 1000000000
    \<and> (12 :: int) * 1000000000 + 250000000 = fst (10 :: int, 750000000 :: int) * 1000000000
        + snd (10 :: int, 750000000 :: int) + int 1500 * 1000000"
  by (rule deadline_exact [of "(10, 750000000)" 1500])
    (simp_all add: gx_deadline_after_ms_def)

end
