(* ===== verification/Secret.thy ===== *)
theory Secret
  imports Prelude
begin

text \<open>
  The pre-shared key of \<open>src/gx_secret.c\<close>: 64 hexadecimal digits with optional separators, read
  from a private regular file. A C string is the bytes of its buffer up to the first zero byte;
  \<open>isspace\<close> is that of the C locale. The file system is an input: whether the file opens, is
  regular and private, its content, and how the kernel cuts the reads. The terminal prompt
  \<open>gx_secret_prompt_psk\<close> is input and output only and is left out; the cleansing of buffers
  has no effect on any result.
\<close>

definition GX5125_PSK_SIZE :: nat where "GX5125_PSK_SIZE = 32"
definition GX5125_PSK_HEX_LENGTH :: nat where "GX5125_PSK_HEX_LENGTH = 64"

lemmas secret_consts = GX5125_PSK_SIZE_def GX5125_PSK_HEX_LENGTH_def

text \<open>\<open>None\<close> is the C result \<open>-1\<close>.\<close>

definition gx_hex_value :: "u8 \<Rightarrow> u8 option" where
  "gx_hex_value v =
     (if v \<ge> 0x30 \<and> v \<le> 0x39 then Some (v - 0x30)
      else if v \<ge> 0x61 \<and> v \<le> 0x66 then Some (10 + (v - 0x61))
      else if v \<ge> 0x41 \<and> v \<le> 0x46 then Some (10 + (v - 0x41))
      else None)"

definition c_isspace :: "u8 \<Rightarrow> bool" where
  "c_isspace v \<longleftrightarrow> v = 0x20 \<or> v \<ge> 0x09 \<and> v \<le> 0x0d"

definition psk_separator :: "u8 \<Rightarrow> bool" where
  "psk_separator v \<longleftrightarrow> c_isspace v \<or> v = 0x3a \<or> v = 0x2d"

definition c_string :: "u8 list \<Rightarrow> u8 list" where
  "c_string buffer = takeWhile (\<lambda>b. b \<noteq> 0) buffer"

fun collect_digits :: "u8 list \<Rightarrow> u8 list \<Rightarrow> u8 list option" where
  "collect_digits [] digits = Some digits"
| "collect_digits (v # s) digits =
     (if psk_separator v then collect_digits s digits
      else if gx_hex_value v = None \<or> length digits \<ge> GX5125_PSK_HEX_LENGTH then None
      else collect_digits s (digits @ [v]))"

definition digit_pair :: "u8 \<Rightarrow> u8 \<Rightarrow> u8" where
  "digit_pair high low = push_bit 4 (the (gx_hex_value high)) OR the (gx_hex_value low)"

definition gx_secret_parse_psk_hex :: "u8 list \<Rightarrow> u8 list option" where
  "gx_secret_parse_psk_hex s =
     (case collect_digits (c_string s) [] of
        None \<Rightarrow> None
      | Some digits \<Rightarrow>
          if length digits \<noteq> GX5125_PSK_HEX_LENGTH then None
          else Some (map (\<lambda>i. digit_pair (digits ! (2 * i)) (digits ! (2 * i + 1))) [0..<GX5125_PSK_SIZE]))"

section \<open>Reading the file\<close>

text \<open>
  What one \<open>read\<close> does: it is interrupted, it fails, or it returns up to \<open>Suc n\<close> of the bytes
  that are left, but not more than asked for. After the list every read returns what is asked for.
\<close>

datatype read_event = Read_interrupted | Read_failed | Read_upto nat

record psk_file =
  pf_opens :: bool
  pf_regular :: bool
  pf_private :: bool
  pf_content :: "u8 list"
  pf_reads :: "read_event list"

text \<open>The loop that fills \<open>text\<close>: the bytes so far, what is left of the file, and of the events.\<close>

fun read_loop ::
    "read_event list \<Rightarrow> u8 list \<Rightarrow> u8 list \<Rightarrow> (u8 list \<times> u8 list \<times> read_event list) option" where
  "read_loop [] left used =
     Some (used @ take (255 - length used) left, drop (255 - length used) left, [])"
| "read_loop (ev # evs) left used =
     (if length used + 1 < 256 then
        (case ev of
           Read_interrupted \<Rightarrow> read_loop evs left used
         | Read_failed \<Rightarrow> None
         | Read_upto n \<Rightarrow>
             let got = take (min (Suc n) (256 - length used - 1)) left
             in if got = [] then Some (used, left, evs)
                else read_loop evs (drop (length got) left) (used @ got))
      else Some (used, left, ev # evs))"

text \<open>The one-byte read after a full buffer: does it find the end of the file?\<close>

fun at_end :: "read_event list \<Rightarrow> u8 list \<Rightarrow> bool" where
  "at_end [] left = (left = [])"
| "at_end (Read_interrupted # evs) left = at_end evs left"
| "at_end (Read_failed # evs) left = False"
| "at_end (Read_upto n # evs) left = (left = [])"

definition gx_secret_read_psk_file :: "psk_file \<Rightarrow> u8 list option" where
  "gx_secret_read_psk_file f =
     (if \<not> pf_opens f then None
      else if \<not> pf_regular f \<or> \<not> pf_private f then None
      else
        case read_loop (pf_reads f) (pf_content f) [] of
          None \<Rightarrow> None
        | Some (used, left, evs) \<Rightarrow>
            if length used + 1 = 256 \<and> \<not> at_end evs left then None
            else gx_secret_parse_psk_hex (used @ [0]))"

section \<open>Properties\<close>

lemma collect_digits_filter:
  "collect_digits s digits =
     (let ds = filter (\<lambda>v. \<not> psk_separator v) s
      in if (\<forall>v \<in> set ds. gx_hex_value v \<noteq> None)
            \<and> (ds = [] \<or> length digits + length ds \<le> GX5125_PSK_HEX_LENGTH)
         then Some (digits @ ds) else None)"
  by (induction s arbitrary: digits) (auto simp: Let_def)

text \<open>
  The key parser does what it says. A text is accepted exactly when the characters of the C
  string that are not separators (white space, colon, hyphen) are 64 hexadecimal digits, wherever the
  separators are, and the key is then those digits in pairs, high nibble first.
\<close>

theorem psk_parse_spec:
  "gx_secret_parse_psk_hex s =
     (let ds = filter (\<lambda>v. \<not> psk_separator v) (c_string s)
      in if length ds = GX5125_PSK_HEX_LENGTH \<and> list_all (\<lambda>v. gx_hex_value v \<noteq> None) ds
         then Some (map (\<lambda>i. digit_pair (ds ! (2 * i)) (ds ! (2 * i + 1))) [0..<GX5125_PSK_SIZE])
         else None)"
  by (auto simp: gx_secret_parse_psk_hex_def collect_digits_filter Let_def list_all_iff)

text \<open>Printing a key: lower-case digits.\<close>

definition hex_digit :: "u8 \<Rightarrow> u8" where
  "hex_digit n = (if n < 10 then 0x30 + n else 0x61 + (n - 10))"

definition psk_text :: "u8 list \<Rightarrow> u8 list" where
  "psk_text key = concat (map (\<lambda>b. [hex_digit (drop_bit 4 b), hex_digit (b AND 0x0f)]) key)"

lemma hex_value_digit:
  assumes "unat (n :: u8) < 16"
  shows "gx_hex_value (hex_digit n) = Some n" and "\<not> psk_separator (hex_digit n)" and "hex_digit n \<noteq> 0"
proof -
  have "unat n \<in> {0, 1, 2, 3, 4, 5, 6, 7, 8, 9, 10, 11, 12, 13, 14, 15}"
    using assms by (simp only: insert_iff empty_iff) presburger
  moreover have "n = of_nat (unat n)" by simp
  ultimately have n: "n \<in> {0, 1, 2, 3, 4, 5, 6, 7, 8, 9, 10, 11, 12, 13, 14, 15}"
    by (auto simp del: of_nat_unat)
  then show "gx_hex_value (hex_digit n) = Some n"
    by (elim insertE emptyE) (simp_all add: gx_hex_value_def hex_digit_def)
  show "\<not> psk_separator (hex_digit n)" "hex_digit n \<noteq> 0"
    using n by (elim insertE emptyE, simp_all add: psk_separator_def c_isspace_def hex_digit_def)+
qed

lemma nibbles_less: "unat (drop_bit 4 (b :: u8)) < 16" "unat (b AND 0x0f) < 16"
proof -
  have "unat (drop_bit 4 b) = unat b div 16"
    by (simp add: unsigned_drop_bit_eq drop_bit_eq_div take_bit_nat_eq_self flip: drop_bit_eq_div)
      (simp add: drop_bit_eq_div take_bit_eq_mod)
  with unat_u8_less [of b] show "unat (drop_bit 4 b) < 16" by linarith
  have "(0x0f :: u8) = mask 4" by (simp add: mask_eq_exp_minus_1)
  then have "unat (b AND 0x0f) = take_bit 4 (unat b)"
    by (simp only: take_bit_eq_mask [symmetric] unsigned_take_bit_eq)
  then show "unat (b AND 0x0f) < 16" by (simp add: take_bit_eq_mod)
qed

lemma digit_pair_nibbles: "digit_pair (hex_digit (drop_bit 4 b)) (hex_digit (b AND 0x0f)) = b"
proof -
  have m: "(0x0f :: u8) = mask 4" by (simp add: mask_eq_exp_minus_1)
  have "push_bit 4 (drop_bit 4 b) OR (b AND 0x0f) = b"
    unfolding m by (rule bit_word_eqI) (auto simp: bit_simps)
  then show ?thesis
    unfolding digit_pair_def hex_value_digit(1) [OF nibbles_less(1)] hex_value_digit(1) [OF nibbles_less(2)]
    by simp
qed

lemma psk_text_chars: "v \<in> set (psk_text key) \<Longrightarrow> \<not> psk_separator v \<and> v \<noteq> 0 \<and> gx_hex_value v \<noteq> None"
  using hex_value_digit [OF nibbles_less(1)] hex_value_digit [OF nibbles_less(2)]
  by (auto simp: psk_text_def)

lemma psk_text_digits:
  "filter (\<lambda>v. \<not> psk_separator v) (c_string (psk_text key)) = psk_text key"
proof -
  have d: "\<forall>v \<in> set (psk_text key). \<not> psk_separator v \<and> v \<noteq> 0"
    using psk_text_chars by blast
  then have "c_string (psk_text key) = psk_text key"
    by (simp add: c_string_def takeWhile_eq_all_conv)
  with d show ?thesis by (simp add: filter_id_conv)
qed

lemma psk_text_nth:
  "i < length key \<Longrightarrow> psk_text key ! (2 * i) = hex_digit (drop_bit 4 (key ! i))
     \<and> psk_text key ! (2 * i + 1) = hex_digit (key ! i AND 0x0f)"
  by (induction key arbitrary: i) (auto simp: psk_text_def less_Suc_eq_0_disj)

lemma length_psk_text [simp]: "length (psk_text key) = 2 * length key"
  by (induction key) (simp_all add: psk_text_def)

text \<open>
  Key round trip. The text of any 32-byte key, with any white space, colons or hyphens put
  between, before or after its digits, is parsed back to the key.
\<close>

theorem psk_round_trip:
  assumes "length key = GX5125_PSK_SIZE"
    and "filter (\<lambda>v. \<not> psk_separator v) (c_string s) = psk_text key"
  shows "gx_secret_parse_psk_hex s = Some key"
proof -
  have "\<forall>v \<in> set (psk_text key). gx_hex_value v \<noteq> None"
    using psk_text_chars by blast
  then have "gx_secret_parse_psk_hex s
      = Some (map (\<lambda>i. digit_pair (psk_text key ! (2 * i)) (psk_text key ! (2 * i + 1))) [0..<GX5125_PSK_SIZE])"
    using assms
    by (auto simp: gx_secret_parse_psk_hex_def collect_digits_filter Let_def secret_consts)
  also have "map (\<lambda>i. digit_pair (psk_text key ! (2 * i)) (psk_text key ! (2 * i + 1))) [0..<GX5125_PSK_SIZE] = key"
  proof (rule nth_equalityI)
    fix i
    assume "i < length (map (\<lambda>i. digit_pair (psk_text key ! (2 * i)) (psk_text key ! (2 * i + 1))) [0..<GX5125_PSK_SIZE])"
    with assms(1) have "i < length key" by simp
    with psk_text_nth [of i key] assms(1)
    show "map (\<lambda>i. digit_pair (psk_text key ! (2 * i)) (psk_text key ! (2 * i + 1))) [0..<GX5125_PSK_SIZE] ! i = key ! i"
      by (simp add: digit_pair_nibbles)
  qed (simp add: assms)
  finally show ?thesis .
qed

theorem psk_round_trip_witness:
  "gx_secret_parse_psk_hex (0x20 # psk_text (replicate 32 0xa5) @ [0x0a, 0, 0xff]) = Some (replicate 32 0xa5)"
proof (rule psk_round_trip)
  let ?t = "psk_text (replicate 32 0xa5)"
  have d: "\<forall>v \<in> set ?t. v \<noteq> 0" using psk_text_chars by blast
  then have "c_string (0x20 # ?t @ [0x0a, 0, 0xff]) = 0x20 # ?t @ [0x0a]"
    by (simp add: c_string_def takeWhile_append2)
  moreover from d have "c_string ?t = ?t" by (simp add: c_string_def takeWhile_eq_all_conv)
  ultimately show "filter (\<lambda>v. \<not> psk_separator v) (c_string (0x20 # ?t @ [0x0a, 0, 0xff])) = ?t"
    using psk_text_digits [of "replicate 32 0xa5"]
    by (simp add: psk_separator_def c_isspace_def)
qed (simp add: secret_consts)

lemma take_prefix_take:
  assumes "m \<le> r"
  shows "take m xs @ take (r - length (take m xs)) (drop (length (take m xs)) xs) = take r xs"
    and "drop (r - length (take m xs)) (drop (length (take m xs)) xs) = drop r xs"
proof -
  have "take (m + (r - m)) xs = take m xs @ take (r - m) (drop m xs)" by (rule take_add)
  with assms show "take m xs @ take (r - length (take m xs)) (drop (length (take m xs)) xs) = take r xs"
    by (cases "m \<le> length xs") auto
  show "drop (r - length (take m xs)) (drop (length (take m xs)) xs) = drop r xs"
    using assms by (cases "m \<le> length xs") auto
qed

lemma read_loop_complete:
  assumes "Read_failed \<notin> set evs" and "length used \<le> 255"
  shows "\<exists>left' evs'. Read_failed \<notin> set evs'
     \<and> read_loop evs left used = Some (used @ take (255 - length used) left, left', evs')
     \<and> left' = drop (255 - length used) left"
  using assms
proof (induction evs left used rule: read_loop.induct)
  case (2 ev evs left used)
  show ?case
  proof (cases "length used + 1 < 256")
    case False
    with 2 show ?thesis by auto
  next
    case True
    show ?thesis
    proof (cases ev)
      case Read_interrupted
      with 2 True show ?thesis by auto
    next
      case Read_failed
      with 2 show ?thesis by simp
    next
      case (Read_upto n)
      define got where "got = take (min (Suc n) (256 - length used - 1)) left"
      have m: "min (Suc n) (256 - length used - 1) \<le> 255 - length used" by simp
      have step: "read_loop (ev # evs) left used
          = (if got = [] then Some (used, left, evs) else read_loop evs (drop (length got) left) (used @ got))"
        using True Read_upto by (auto simp: got_def Let_def min_def)
      show ?thesis
      proof (cases "got = []")
        case empty: True
        with True have "left = []" by (auto simp: got_def min_def split: if_splits)
        with 2 empty show ?thesis unfolding step by auto
      next
        case False
        have len: "length (used @ got) \<le> 255" using True by (simp add: got_def)
        have "255 - length (used @ got) = 255 - length used - length got" by simp
        then have k: "got @ take (255 - length (used @ got)) (drop (length got) left) = take (255 - length used) left"
          "drop (255 - length (used @ got)) (drop (length got) left) = drop (255 - length used) left"
          using take_prefix_take [OF m, of left] by (simp_all only: got_def)
        have "Read_failed \<notin> set evs" using 2(3) by simp
        from 2(2) [OF True Read_upto got_def False this len]
        show ?thesis
          using k False unfolding step by (metis append.assoc)
      qed
    qed
  qed
qed auto

lemma at_end_iff: "Read_failed \<notin> set evs \<Longrightarrow> at_end evs left \<longleftrightarrow> left = []"
  by (induction evs left rule: at_end.induct) auto

text \<open>
  Reading the key file does not depend on the kernel. For a private regular file that opens and
  whose reads do not fail, however often they are interrupted and however short they are, the result is
  the parse of the whole content when it has at most 255 bytes, and a refusal when it has more: a
  longer file is never silently truncated. A file that others may access is always refused.
\<close>

theorem psk_file_read:
  assumes "pf_opens f" and "pf_regular f" and "Read_failed \<notin> set (pf_reads f)"
  shows "gx_secret_read_psk_file f =
     (if pf_private f \<and> length (pf_content f) \<le> 255
      then gx_secret_parse_psk_hex (pf_content f @ [0]) else None)"
proof -
  obtain left evs where r: "Read_failed \<notin> set evs"
    "read_loop (pf_reads f) (pf_content f) [] = Some (take 255 (pf_content f), left, evs)"
    "left = drop 255 (pf_content f)"
    using read_loop_complete [of "pf_reads f" "[]" "pf_content f"] assms(3) by auto
  have n: "length (take 255 (pf_content f)) + 1 = 256 \<longleftrightarrow> 255 \<le> length (pf_content f)" by auto
  show ?thesis
  proof (cases "pf_private f")
    case True
    with assms r(1) n show ?thesis
      by (simp add: gx_secret_read_psk_file_def r(2,3) at_end_iff)
  next
    case False
    with assms show ?thesis by (simp add: gx_secret_read_psk_file_def)
  qed
qed

theorem psk_file_read_witness:
  "gx_secret_read_psk_file \<lparr>pf_opens = True, pf_regular = True, pf_private = True,
      pf_content = psk_text (replicate 32 0xa5) @ [0x0a], pf_reads = [Read_interrupted, Read_upto 10]\<rparr>
   = gx_secret_parse_psk_hex ((psk_text (replicate 32 0xa5) @ [0x0a]) @ [0])"
  by (subst psk_file_read) simp_all

end
