(* ===== verification/Tls.thy ===== *)
theory Tls
  imports Command Secret
begin

text \<open>
  The TLS server of \<open>src/gx_tls.c\<close>: a TLS 1.2 PSK endpoint over OpenSSL whose records travel in
  outer frames of family \<open>0xb0\<close>. OpenSSL is a parameter: an engine with a state of any type, whose
  handshake and read steps consume bytes of the read BIO, produce bytes for the write BIO and may call
  the PSK callback. The two memory BIOs are byte lists; creating and destroying OpenSSL objects and
  moving bytes through a BIO are external calls. Clock readings are inputs, one tick per iteration.
  The diagnostic text \<open>last_error\<close> and the offline self test, which runs OpenSSL against
  itself, are left out.
\<close>

definition GX_TLS_IDENTITY :: "u8 list" where
  "GX_TLS_IDENTITY = [0x43, 0x6c, 0x69, 0x65, 0x6e, 0x74, 0x5f, 0x69, 0x64, 0x65, 0x6e, 0x74, 0x69, 0x74, 0x79]"

definition GX_TLS_IO_BUFFER :: nat where "GX_TLS_IO_BUFFER = 16384"

datatype ssl_error = SSL_want_read | SSL_want_write | SSL_zero_return | SSL_failed

text \<open>One call of the PSK callback: the identity the peer claimed and the room for the key.\<close>

type_synonym psk_query = "u8 list \<times> nat"
type_synonym psk_answer = "u8 list \<Rightarrow> nat \<Rightarrow> u8 list"

record 'e ssl_step =
  step_status :: "ssl_error + u8 list"
  step_queries :: "psk_query list"
  step_rbio :: "u8 list"
  step_output :: "u8 list"
  step_engine :: 'e

record 'e ssl_engine =
  eng_handshake :: "'e \<Rightarrow> psk_answer \<Rightarrow> u8 list \<Rightarrow> 'e ssl_step"
  eng_read :: "'e \<Rightarrow> psk_answer \<Rightarrow> u8 list \<Rightarrow> nat \<Rightarrow> 'e ssl_step"
  eng_finished :: "'e \<Rightarrow> bool"
  eng_fresh :: 'e

record 'e gx_tls_server =
  ts_context :: bool
  ts_ssl :: bool
  ts_psk :: "u8 list"
  identity_valid :: bool
  usb_input_bytes :: u64
  usb_output_bytes :: u64
  usb_output_frames :: u64
  ts_rbio :: "u8 list"
  ts_wbio :: "u8 list"
  ts_engine :: 'e

definition zero_tls_server :: "'e ssl_engine \<Rightarrow> 'e gx_tls_server" where
  "zero_tls_server eng =
     \<lparr>ts_context = False, ts_ssl = False, ts_psk = [], identity_valid = False, usb_input_bytes = 0,
      usb_output_bytes = 0, usb_output_frames = 0, ts_rbio = [], ts_wbio = [], ts_engine = eng_fresh eng\<rparr>"

section \<open>The PSK callback\<close>

text \<open>The key bytes the callback writes (none is a refusal), and the server afterwards.\<close>

definition gx_tls_psk_server_callback ::
    "'e gx_tls_server \<Rightarrow> u8 list \<Rightarrow> nat \<Rightarrow> u8 list \<times> 'e gx_tls_server" where
  "gx_tls_psk_server_callback server identity max_psk_length =
     (if identity \<noteq> GX_TLS_IDENTITY \<or> max_psk_length < GX5125_PSK_SIZE
      then ([], server\<lparr>identity_valid := False\<rparr>)
      else (ts_psk server, server\<lparr>identity_valid := True\<rparr>))"

definition psk_answer_of :: "'e gx_tls_server \<Rightarrow> psk_answer" where
  "psk_answer_of server identity n = fst (gx_tls_psk_server_callback server identity n)"

definition run_queries :: "'e gx_tls_server \<Rightarrow> psk_query list \<Rightarrow> 'e gx_tls_server" where
  "run_queries server qs = foldl (\<lambda>s q. snd (gx_tls_psk_server_callback s (fst q) (snd q))) server qs"

text \<open>
  The effect of an engine step on the server: BIOs, engine state and callback. The PSK queries of a
  step are recorded in the history by \<open>queries_of\<close>.
\<close>

definition queries_of :: "'e ssl_step \<Rightarrow> history" where
  "queries_of st = map (\<lambda>q. Psk_query (fst q) (snd q)) (step_queries st)"

definition apply_step :: "'e gx_tls_server \<Rightarrow> 'e ssl_step \<Rightarrow> 'e gx_tls_server" where
  "apply_step server st =
     (run_queries server (step_queries st))
       \<lparr>ts_rbio := step_rbio st, ts_wbio := ts_wbio server @ step_output st, ts_engine := step_engine st\<rparr>"

section \<open>Creation and cleanup\<close>

definition gx_tls_server_cleanup :: "environment \<Rightarrow> 'e gx_tls_server \<Rightarrow> history \<Rightarrow> 'e gx_tls_server \<times> history" where
  "gx_tls_server_cleanup env server h =
     (let (s1, h1) = (if ts_ssl server then (server\<lparr>ts_ssl := False\<rparr>, snd (ext_do env Ssl_free h))
                      else (server, h));
          (s2, h2) = (if ts_context s1 then (s1\<lparr>ts_context := False\<rparr>, snd (ext_do env Ssl_ctx_free h1))
                      else (s1, h1))
      in (s2\<lparr>ts_psk := replicate GX5125_PSK_SIZE 0\<rparr>, h2))"

text \<open>The four settings are tried in order; the first that fails stops the configuration.\<close>

fun gx_tls_configure_context :: "environment \<Rightarrow> nat list \<Rightarrow> history \<Rightarrow> bool \<times> history" where
  "gx_tls_configure_context env [] h = (True, h)"
| "gx_tls_configure_context env (k # ks) h =
     (let (r, h1) = ext_do env (Ssl_ctx_set k) h
      in if isl (reply_rc r) then (False, h1) else gx_tls_configure_context env ks h1)"

text \<open>The failure exit: free the BIOs that are not yet owned by the connection, then clean up.\<close>

definition tls_init_fail ::
    "environment \<Rightarrow> bool \<Rightarrow> bool \<Rightarrow> 'e gx_tls_server \<Rightarrow> history \<Rightarrow> bool \<times> 'e gx_tls_server \<times> history" where
  "tls_init_fail env read_bio write_bio server h =
     (let h1 = (if read_bio then snd (ext_do env Bio_free h) else h);
          h2 = (if write_bio then snd (ext_do env Bio_free h1) else h1);
          (s, h3) = gx_tls_server_cleanup env server h2
      in (False, s, h3))"

definition gx_tls_server_init ::
    "'e ssl_engine \<Rightarrow> environment \<Rightarrow> u8 list \<Rightarrow> history \<Rightarrow> bool \<times> 'e gx_tls_server \<times> history" where
  "gx_tls_server_init eng env psk h =
     (let s0 = (zero_tls_server eng)\<lparr>ts_psk := psk\<rparr>;
          (r0, h0) = ext_do env Openssl_init h
      in if isl (reply_rc r0) then tls_init_fail env False False s0 h0
         else
           let (r1, h1) = ext_do env Ssl_ctx_new h0
           in if isl (reply_rc r1) then tls_init_fail env False False s0 h1
              else
                let s1 = s0\<lparr>ts_context := True\<rparr>;
                    (ok, h2) = gx_tls_configure_context env [0, 1, 2, 3] h1
                in if \<not> ok then tls_init_fail env False False s1 h2
                   else
                     let (r3, h3) = ext_do env Ssl_new h2
                     in if isl (reply_rc r3) then tls_init_fail env False False s1 h3
                        else
                          let s2 = s1\<lparr>ts_ssl := True\<rparr>;
                              (r4, h4) = ext_do env Bio_new h3;
                              (r5, h5) = ext_do env Bio_new h4
                          in if isl (reply_rc r4) \<or> isl (reply_rc r5)
                             then tls_init_fail env (\<not> isl (reply_rc r4)) (\<not> isl (reply_rc r5)) s2 h5
                             else (True, s2, snd (ext_do env Ssl_set_bio h5)))"

section \<open>Moving bytes\<close>

text \<open>
  \<open>gx_tls_feed\<close>: the loop over \<open>BIO_write_ex\<close>, which writes at most what it is given; a call that
  writes nothing is an error. The result tells success.
\<close>

function tls_feed_loop ::
    "environment \<Rightarrow> u8 list \<Rightarrow> u8 list \<Rightarrow> history \<Rightarrow> bool \<times> u8 list \<times> history" where
  "tls_feed_loop env input rbio h =
     (if input = [] then (True, rbio, h)
      else
        let (r, h1) = ext_do env (Bio_write (length input)) h;
            written = min (reply_moved r) (length input)
        in if isl (reply_rc r) \<or> written = 0 then (False, rbio, h1)
           else tls_feed_loop env (drop written input) (rbio @ take written input) h1)"
  by pat_completeness auto
termination
  by (relation "measure (\<lambda>(env, input, rbio, h). length input)") auto

declare tls_feed_loop.simps [simp del]

definition gx_tls_feed ::
    "environment \<Rightarrow> 'e gx_tls_server \<Rightarrow> u8 list \<Rightarrow> history \<Rightarrow> bool \<times> 'e gx_tls_server \<times> history" where
  "gx_tls_feed env server input h =
     (if \<not> ts_ssl server then (False, server, h)
      else
        let (ok, rbio, h1) = tls_feed_loop env input (ts_rbio server) h;
            s1 = server\<lparr>ts_rbio := rbio\<rparr>
        in if ok then (True, s1\<lparr>usb_input_bytes := usb_input_bytes s1 + of_nat (length input)\<rparr>, h1)
           else (False, s1, h1))"

function tls_flush_loop ::
    "environment \<Rightarrow> gx_usb_device \<Rightarrow> 'e gx_tls_server \<Rightarrow> history \<Rightarrow>
     (usb_error + unit) \<times> 'e gx_tls_server \<times> history" where
  "tls_flush_loop env dev server h =
     (if ts_wbio server = [] then (Inr (), server, h)
      else
        let (r, h1) = ext_do env (Bio_read GX_TLS_IO_BUFFER) h;
            read_length = min (reply_moved r) (min GX_TLS_IO_BUFFER (length (ts_wbio server)))
        in if isl (reply_rc r) \<or> read_length = 0 then (Inl LIBUSB_ERROR_OTHER, server, h1)
           else
             let output = take read_length (ts_wbio server);
                 s1 = server\<lparr>ts_wbio := drop read_length (ts_wbio server)\<rparr>;
                 (rc, h2) = gx_transport_send_outer env dev GX5125_OUTER_TLS (Buf output) 1000 h1
             in case rc of
                  Inl e \<Rightarrow> (Inl e, s1, h2)
                | Inr _ \<Rightarrow>
                    tls_flush_loop env dev
                      (s1\<lparr>usb_output_bytes := usb_output_bytes s1 + of_nat read_length,
                          usb_output_frames := usb_output_frames s1 + 1\<rparr>) h2)"
  by pat_completeness auto
termination
  by (relation "measure (\<lambda>(env, dev, server, h). length (ts_wbio server))")
    (auto simp: Let_def GX_TLS_IO_BUFFER_def)

declare tls_flush_loop.simps [simp del]

definition gx_tls_flush_usb ::
    "environment \<Rightarrow> gx_usb_device \<Rightarrow> 'e gx_tls_server \<Rightarrow> history \<Rightarrow>
     (usb_error + unit) \<times> 'e gx_tls_server \<times> history" where
  "gx_tls_flush_usb env dev server h =
     (if \<not> ts_ssl server then (Inl LIBUSB_ERROR_INVALID_PARAM, server, h)
      else tls_flush_loop env dev server h)"

section \<open>Handshake\<close>

record tls_tick =
  tt_now :: nat
  tt_later :: nat

definition tls_wait_ms :: "nat \<Rightarrow> nat \<Rightarrow> nat" where
  "tls_wait_ms deadline now = (let wait_ms = deadline - now in if wait_ms > 500 then 500 else wait_ms)"

text \<open>
  The part both loops share: wait for bytes of the peer and feed them to the engine. \<open>Inr\<close> is
  \<open>continue\<close>.
\<close>

definition tls_receive_step ::
    "environment \<Rightarrow> scheduler \<Rightarrow> nat \<Rightarrow> nat \<Rightarrow> 'e gx_tls_server \<Rightarrow> gx_session \<Rightarrow> history \<Rightarrow>
     (usb_error + unit) \<times> 'e gx_tls_server \<times> gx_session \<times> history" where
  "tls_receive_step env sched deadline now server session h =
     (let wait_ms = tls_wait_ms deadline now;
          (rd, session1) = gx_session_tls_read session GX_TLS_IO_BUFFER (sched h wait_ms);
          h1 = h @ [Cond_timedwait wait_ms]
      in case rd of
           Inl e \<Rightarrow> (if e = LIBUSB_ERROR_TIMEOUT then (Inr (), server, session1, h1)
                     else (Inl e, server, session1, h1))
         | Inr input \<Rightarrow>
             let (ok, server1, h2) = gx_tls_feed env server input h1
             in if ok then (Inr (), server1, session1, h2)
                else (Inl LIBUSB_ERROR_IO, server1, session1, h2))"

fun tls_handshake_loop ::
    "'e ssl_engine \<Rightarrow> environment \<Rightarrow> scheduler \<Rightarrow> gx_usb_device \<Rightarrow> nat \<Rightarrow> tls_tick list \<Rightarrow>
     'e gx_tls_server \<Rightarrow> gx_session \<Rightarrow> history \<Rightarrow>
     (usb_error + unit) \<times> 'e gx_tls_server \<times> gx_session \<times> history" where
  "tls_handshake_loop eng env sched dev deadline [] server session h =
     (Inl LIBUSB_ERROR_TIMEOUT, server, session, h)"
| "tls_handshake_loop eng env sched dev deadline (t # ts) server session h =
     (if tt_now t \<ge> deadline then (Inl LIBUSB_ERROR_TIMEOUT, server, session, h)
      else
        let st = eng_handshake eng (ts_engine server) (psk_answer_of server) (ts_rbio server);
            (rc, server1, h1) = gx_tls_flush_usb env dev (apply_step server st) (h @ queries_of st)
        in case rc of
             Inl e \<Rightarrow> (Inl e, server1, session, h1)
           | Inr _ \<Rightarrow>
               case step_status st of
                 Inr _ \<Rightarrow> (if \<not> identity_valid server1 then (Inl LIBUSB_ERROR_ACCESS, server1, session, h1)
                           else (Inr (), server1, session, h1))
               | Inl SSL_want_write \<Rightarrow>
                   tls_handshake_loop eng env sched dev deadline ts server1 session h1
               | Inl SSL_want_read \<Rightarrow>
                   if tt_later t \<ge> deadline then (Inl LIBUSB_ERROR_TIMEOUT, server1, session, h1)
                   else
                     (case tls_receive_step env sched deadline (tt_later t) server1 session h1 of
                        (Inl e, server2, session2, h2) \<Rightarrow> (Inl e, server2, session2, h2)
                      | (Inr _, server2, session2, h2) \<Rightarrow>
                          tls_handshake_loop eng env sched dev deadline ts server2 session2 h2)
               | Inl _ \<Rightarrow> (Inl LIBUSB_ERROR_IO, server1, session, h1))"

definition gx_tls_server_handshake_usb ::
    "'e ssl_engine \<Rightarrow> environment \<Rightarrow> scheduler \<Rightarrow> gx_usb_device \<Rightarrow> nat \<Rightarrow> nat \<Rightarrow> tls_tick list \<Rightarrow>
     'e gx_tls_server \<Rightarrow> gx_session \<Rightarrow> history \<Rightarrow>
     (usb_error + unit) \<times> 'e gx_tls_server \<times> gx_session \<times> history" where
  "gx_tls_server_handshake_usb eng env sched dev timeout_ms start ticks server session h =
     (if \<not> ts_ssl server \<or> timeout_ms = 0 then (Inl LIBUSB_ERROR_INVALID_PARAM, server, session, h)
      else
        let (rc, result, session1, h1) =
              gx_session_command env sched dev (gx_session_tls_clear session) 0x0d 0x00
                (Buf [0x00, 0x00]) 0 False 0 1 zero_command_result h
        in case rc of
             Inl e \<Rightarrow> (Inl e, server, session1, h1)
           | Inr _ \<Rightarrow>
               tls_handshake_loop eng env sched dev (start + timeout_ms) ticks server session1 h1)"

section \<open>Application data\<close>

fun tls_read_loop ::
    "'e ssl_engine \<Rightarrow> environment \<Rightarrow> scheduler \<Rightarrow> gx_usb_device \<Rightarrow> nat \<Rightarrow> nat \<Rightarrow> tls_tick list \<Rightarrow>
     'e gx_tls_server \<Rightarrow> gx_session \<Rightarrow> history \<Rightarrow>
     (usb_error + u8 list) \<times> 'e gx_tls_server \<times> gx_session \<times> history" where
  "tls_read_loop eng env sched dev capacity deadline [] server session h =
     (Inl LIBUSB_ERROR_TIMEOUT, server, session, h)"
| "tls_read_loop eng env sched dev capacity deadline (t # ts) server session h =
     (if tt_now t \<ge> deadline then (Inl LIBUSB_ERROR_TIMEOUT, server, session, h)
      else
        let st = eng_read eng (ts_engine server) (psk_answer_of server) (ts_rbio server) capacity;
            (rc, server1, h1) = gx_tls_flush_usb env dev (apply_step server st) (h @ queries_of st)
        in case rc of
             Inl e \<Rightarrow> (Inl e, server1, session, h1)
           | Inr _ \<Rightarrow>
               case step_status st of
                 Inr output \<Rightarrow>
                   if output \<noteq> [] then (Inr (take capacity output), server1, session, h1)
                   else (Inl LIBUSB_ERROR_IO, server1, session, h1)
               | Inl SSL_want_write \<Rightarrow>
                   tls_read_loop eng env sched dev capacity deadline ts server1 session h1
               | Inl SSL_zero_return \<Rightarrow> (Inl LIBUSB_ERROR_NO_DEVICE, server1, session, h1)
               | Inl SSL_failed \<Rightarrow> (Inl LIBUSB_ERROR_IO, server1, session, h1)
               | Inl SSL_want_read \<Rightarrow>
                   if tt_later t \<ge> deadline then (Inl LIBUSB_ERROR_TIMEOUT, server1, session, h1)
                   else
                     (case tls_receive_step env sched deadline (tt_later t) server1 session h1 of
                        (Inl e, server2, session2, h2) \<Rightarrow> (Inl e, server2, session2, h2)
                      | (Inr _, server2, session2, h2) \<Rightarrow>
                          tls_read_loop eng env sched dev capacity deadline ts server2 session2 h2))"

definition gx_tls_server_read_application ::
    "'e ssl_engine \<Rightarrow> environment \<Rightarrow> scheduler \<Rightarrow> gx_usb_device \<Rightarrow> nat \<Rightarrow> nat \<Rightarrow> nat \<Rightarrow> tls_tick list \<Rightarrow>
     'e gx_tls_server \<Rightarrow> gx_session \<Rightarrow> history \<Rightarrow>
     (usb_error + u8 list) \<times> 'e gx_tls_server \<times> gx_session \<times> history" where
  "gx_tls_server_read_application eng env sched dev capacity timeout_ms start ticks server session h =
     (if \<not> ts_ssl server \<or> capacity = 0 \<or> timeout_ms = 0 \<or> \<not> eng_finished eng (ts_engine server)
      then (Inl LIBUSB_ERROR_INVALID_PARAM, server, session, h)
      else tls_read_loop eng env sched dev capacity (start + timeout_ms) ticks server session h)"

section \<open>The bytes TLS puts on the bus\<close>

definition tls_frames_of :: "(u8 list \<times> nat) list \<Rightarrow> ((u8 \<times> u8 list) \<times> nat) list" where
  "tls_frames_of cs = map (\<lambda>(c, n). ((GX5125_OUTER_TLS, c), n)) cs"

text \<open>One round of the flush loop, with its parts named.\<close>

definition flush_chunk :: "environment \<Rightarrow> 'e gx_tls_server \<Rightarrow> history \<Rightarrow> nat" where
  "flush_chunk env server h =
     min (reply_moved (env h (Bio_read GX_TLS_IO_BUFFER))) (min GX_TLS_IO_BUFFER (length (ts_wbio server)))"

definition flushed :: "nat \<Rightarrow> 'e gx_tls_server \<Rightarrow> 'e gx_tls_server" where
  "flushed n server = server\<lparr>ts_wbio := drop n (ts_wbio server),
     usb_output_bytes := usb_output_bytes server + of_nat n,
     usb_output_frames := usb_output_frames server + 1\<rparr>"

lemma flush_round:
  assumes "ts_wbio server \<noteq> []" and "n = flush_chunk env server h"
    and "gx_transport_send_outer env dev GX5125_OUTER_TLS (Buf (take n (ts_wbio server))) 1000
           (h @ [Bio_read GX_TLS_IO_BUFFER]) = (rc, h2)"
  shows "tls_flush_loop env dev server h =
     (if isl (reply_rc (env h (Bio_read GX_TLS_IO_BUFFER))) \<or> n = 0
      then (Inl LIBUSB_ERROR_OTHER, server, h @ [Bio_read GX_TLS_IO_BUFFER])
      else case rc of Inl e \<Rightarrow> (Inl e, server\<lparr>ts_wbio := drop n (ts_wbio server)\<rparr>, h2)
                    | Inr _ \<Rightarrow> tls_flush_loop env dev (flushed n server) h2)"
proof -
  define k where "k = n"
  have n: "min (reply_moved (env h (Bio_read GX_TLS_IO_BUFFER)))
      (min GX_TLS_IO_BUFFER (length (ts_wbio server))) = k"
    unfolding k_def assms(2) flush_chunk_def by simp
  show ?thesis
    using assms(1,3) unfolding flushed_def k_def [symmetric]
    by (subst tls_flush_loop.simps) (simp only: ext_do_def Let_def n prod.case if_False, simp split: sum.split)
qed

lemma flush_chunk_bounds:
  "ts_wbio server \<noteq> [] \<Longrightarrow> flush_chunk env server h \<le> length (ts_wbio server)
   \<and> flush_chunk env server h \<le> GX_TLS_IO_BUFFER"
  by (auto simp: flush_chunk_def min_def)

lemma flush_on_wire:
  assumes "tls_flush_loop env dev server h = (Inr (), server', h')"
  shows "\<exists>sent cs. h' = h @ sent \<and> concat (map fst cs) = ts_wbio server
     \<and> (\<forall>(c, n) \<in> set cs. c \<noteq> [] \<and> length c \<le> GX_TLS_IO_BUFFER \<and> n < 64)
     \<and> bytes_out env h sent = concat (map padded (tls_frames_of cs))
     \<and> server' = server\<lparr>ts_wbio := [],
         usb_output_bytes := usb_output_bytes server + of_nat (length (ts_wbio server)),
         usb_output_frames := usb_output_frames server + of_nat (length cs)\<rparr>"
  using assms
proof (induction server arbitrary: h rule: measure_induct_rule [of "\<lambda>s. length (ts_wbio s)"])
  case (less server)
  show ?case
  proof (cases "ts_wbio server = []")
    case True
    with less.prems have "server' = server" "h' = h" by (simp_all add: tls_flush_loop.simps [of env dev server h])
    with True show ?thesis
      by (intro exI [of _ "[]"]) (simp add: tls_frames_of_def)
  next
    case ne: False
    let ?c = "Bio_read GX_TLS_IO_BUFFER"
    define n where "n = flush_chunk env server h"
    let ?out = "take n (ts_wbio server)"
    obtain rc h2 where send: "gx_transport_send_outer env dev GX5125_OUTER_TLS (Buf ?out) 1000 (h @ [?c]) = (rc, h2)"
      by (rule prod.exhaust)
    note round = flush_round [OF ne n_def send]
    from less.prems round have ok: "n \<noteq> 0" and rc: "rc = Inr ()"
      and rest: "tls_flush_loop env dev (flushed n server) h2 = (Inr (), server', h')"
      by (auto split: if_splits sum.splits)
    have b: "n \<le> length (ts_wbio server)" "n \<le> GX_TLS_IO_BUFFER"
      using flush_chunk_bounds [OF ne] by (simp_all add: n_def)
    from send_outer_on_wire [OF send [unfolded rc]] obtain sent k where
      s: "h2 = (h @ [?c]) @ sent" "k < 64" "bytes_out env (h @ [?c]) sent = outer_frame (GX5125_OUTER_TLS, ?out) @ replicate k 0"
      by auto
    have "length (ts_wbio (flushed n server)) < length (ts_wbio server)"
      using ok b(1) by (simp add: flushed_def)
    from less.IH [OF this rest] obtain sent' cs where IH: "h' = h2 @ sent'"
      "concat (map fst cs) = drop n (ts_wbio server)"
      "\<forall>(c, n) \<in> set cs. c \<noteq> [] \<and> length c \<le> GX_TLS_IO_BUFFER \<and> n < 64"
      "bytes_out env h2 sent' = concat (map padded (tls_frames_of cs))"
      "server' = (flushed n server)\<lparr>ts_wbio := [],
         usb_output_bytes := usb_output_bytes (flushed n server) + of_nat (length (ts_wbio server) - n),
         usb_output_frames := usb_output_frames (flushed n server) + of_nat (length cs)\<rparr>"
      by (auto simp: flushed_def)
    have "of_nat n + of_nat (length (ts_wbio server) - n) = (of_nat (length (ts_wbio server)) :: u64)"
      using b(1) by (simp flip: of_nat_add)
    then have "server' = server\<lparr>ts_wbio := [],
         usb_output_bytes := usb_output_bytes server + of_nat (length (ts_wbio server)),
         usb_output_frames := usb_output_frames server + of_nat (length ((?out, k) # cs))\<rparr>"
      unfolding IH(5) by (simp add: flushed_def add.assoc)
    moreover have "h' = h @ ([?c] @ sent @ sent')" using s(1) IH(1) by simp
    moreover have "bytes_out env h ([?c] @ sent @ sent') = concat (map padded (tls_frames_of ((?out, k) # cs)))"
      using s(1,3) IH(4) by (simp add: tls_frames_of_def padded_def)
    moreover have "concat (map fst ((?out, k) # cs)) = ts_wbio server" using IH(2) by simp
    moreover have "\<forall>(c, n) \<in> set ((?out, k) # cs). c \<noteq> [] \<and> length c \<le> GX_TLS_IO_BUFFER \<and> n < 64"
      using IH(3) s(2) b ok ne by auto
    ultimately show ?thesis by blast
  qed
qed

text \<open>
  What the flush puts on the bus. When \<open>gx_tls_flush_usb\<close> succeeds, the bytes OpenSSL had
  produced went out, all of them, once and in order, cut into chunks of at most 16384 bytes, each the
  payload of one TLS frame padded with zeros to a block boundary; the write BIO is empty and the
  counters moved by the bytes and the frames, modulo their 64 bits.
\<close>

theorem tls_flush_sends_all:
  assumes "gx_tls_flush_usb env dev server h = (Inr (), server', h')"
  shows "\<exists>sent cs. h' = h @ sent \<and> concat (map fst cs) = ts_wbio server
     \<and> (\<forall>(c, n) \<in> set cs. c \<noteq> [] \<and> length c \<le> GX_TLS_IO_BUFFER \<and> n < 64)
     \<and> bytes_out env h sent = concat (map padded (tls_frames_of cs))
     \<and> server' = server\<lparr>ts_wbio := [],
         usb_output_bytes := usb_output_bytes server + of_nat (length (ts_wbio server)),
         usb_output_frames := usb_output_frames server + of_nat (length cs)\<rparr>"
  using assms by (intro flush_on_wire) (simp add: gx_tls_flush_usb_def split: if_splits)

section \<open>Who completes a handshake\<close>

text \<open>
  The verdict of the PSK callback, replayed over a history: the last query decides, other calls do not
  matter.
\<close>

fun psk_call :: "ext_call \<Rightarrow> bool" where
  "psk_call (Psk_query identity n) = True"
| "psk_call _ = False"

fun psk_verdict :: "bool \<Rightarrow> ext_call \<Rightarrow> bool" where
  "psk_verdict b (Psk_query identity n) = (identity = GX_TLS_IDENTITY \<and> GX5125_PSK_SIZE \<le> n)"
| "psk_verdict b _ = b"

definition tls_call :: "ext_call \<Rightarrow> bool" where
  "tls_call c \<longleftrightarrow> io_call c \<or> psk_call c"

lemma verdict_io [simp]: "io_call c \<Longrightarrow> psk_verdict b c = b"
  by (cases c) auto

lemma verdicts_io: "\<forall>c \<in> set cs. io_call c \<Longrightarrow> foldl psk_verdict b cs = b"
  by (induction cs) auto

text \<open>The last query of a history with an accepting verdict is the accepted one.\<close>

lemma accepted_query:
  "foldl psk_verdict False cs \<Longrightarrow>
     \<exists>pre n post. cs = pre @ Psk_query GX_TLS_IDENTITY n # post \<and> GX5125_PSK_SIZE \<le> n
       \<and> (\<forall>c \<in> set post. \<not> psk_call c)"
proof (induction cs rule: rev_induct)
  case (snoc c cs)
  show ?case
  proof (cases "psk_call c")
    case True
    then obtain i n where "c = Psk_query i n" by (cases c) auto
    with snoc.prems show ?thesis by (intro exI [of _ cs] exI [of _ n] exI [of _ "[]"]) simp
  next
    case False
    then have "psk_verdict b c = b" for b by (cases c) auto
    with snoc.prems snoc.IH obtain pre n post where
      "cs = pre @ Psk_query GX_TLS_IDENTITY n # post" "GX5125_PSK_SIZE \<le> n" "\<forall>c \<in> set post. \<not> psk_call c"
      by auto
    with False show ?thesis by (intro exI [of _ pre] exI [of _ n] exI [of _ "post @ [c]"]) auto
  qed
qed simp

text \<open>
  What the whole TLS layer keeps: the history only grows by data movement and callbacks, the validity
  flag is the verdict of the callbacks, and the key and the OpenSSL objects are not touched.
\<close>

definition tracks :: "'e gx_tls_server \<Rightarrow> history \<Rightarrow> 'e gx_tls_server \<Rightarrow> history \<Rightarrow> bool" where
  "tracks s h s' h' \<longleftrightarrow> (\<exists>cs. h' = h @ cs \<and> (\<forall>c \<in> set cs. tls_call c)
     \<and> identity_valid s' = foldl psk_verdict (identity_valid s) cs
     \<and> ts_psk s' = ts_psk s \<and> ts_ssl s' = ts_ssl s \<and> ts_context s' = ts_context s)"

lemma tracks_refl [simp, intro]: "tracks s h s h"
  by (simp add: tracks_def)

lemma tracks_trans:
  assumes "tracks s h s1 h1" and "tracks s1 h1 s2 h2"
  shows "tracks s h s2 h2"
proof -
  from assms obtain cs cs' where "h1 = h @ cs" "\<forall>c \<in> set cs. tls_call c"
    "identity_valid s1 = foldl psk_verdict (identity_valid s) cs"
    "h2 = h1 @ cs'" "\<forall>c \<in> set cs'. tls_call c"
    "identity_valid s2 = foldl psk_verdict (identity_valid s1) cs'" by (auto simp: tracks_def)
  with assms show ?thesis unfolding tracks_def by (intro exI [of _ "cs @ cs'"]) auto
qed

lemma tracks_io:
  assumes "grows io_call h h'" and "identity_valid s' = identity_valid s" and "ts_psk s' = ts_psk s"
    and "ts_ssl s' = ts_ssl s" and "ts_context s' = ts_context s"
  shows "tracks s h s' h'"
  using assms by (auto simp: tracks_def grows_def tls_call_def verdicts_io)

lemma run_queries_tracks:
  "identity_valid (run_queries s qs) = foldl psk_verdict (identity_valid s) (map (\<lambda>q. Psk_query (fst q) (snd q)) qs)
   \<and> ts_psk (run_queries s qs) = ts_psk s \<and> ts_ssl (run_queries s qs) = ts_ssl s
   \<and> ts_context (run_queries s qs) = ts_context s"
proof (induction qs arbitrary: s)
  case (Cons q qs)
  let ?s = "snd (gx_tls_psk_server_callback s (fst q) (snd q))"
  have "identity_valid ?s = psk_verdict (identity_valid s) (Psk_query (fst q) (snd q))"
    "ts_psk ?s = ts_psk s" "ts_ssl ?s = ts_ssl s" "ts_context ?s = ts_context s"
    by (auto simp: gx_tls_psk_server_callback_def)
  with Cons.IH [of ?s] show ?case by (simp add: run_queries_def)
qed (simp add: run_queries_def)

lemma apply_step_tracks: "tracks s h (apply_step s st) (h @ queries_of st)"
  using run_queries_tracks [of s "step_queries st"]
  by (auto simp: tracks_def apply_step_def queries_of_def tls_call_def)

lemma feed_loop_io: "grows io_call h (snd (snd (tls_feed_loop env input rbio h)))"
proof (induction env input rbio h rule: tls_feed_loop.induct)
  case (1 env input rbio h)
  have "grows io_call h (h @ [Bio_write (length input)])" by (rule grows_snoc) simp_all
  with 1 grows_trans show ?case
    by (subst tls_feed_loop.simps) (fastforce simp: Let_def ext_do_def)
qed

lemma feed_tracks:
  "gx_tls_feed env s input h = (ok, s', h') \<Longrightarrow> tracks s h s' h'"
  using feed_loop_io [of h env input "ts_rbio s"]
  by (intro tracks_io) (auto simp: gx_tls_feed_def Let_def split: if_splits prod.splits)

lemma flush_loop_tracks: "tls_flush_loop env dev s h = (rc, s', h') \<Longrightarrow> tracks s h s' h'"
proof (induction s arbitrary: h rule: measure_induct_rule [of "\<lambda>s. length (ts_wbio s)"])
  case (less s)
  show ?case
  proof (cases "ts_wbio s = []")
    case True
    with less.prems show ?thesis by (simp add: tls_flush_loop.simps [of env dev s h])
  next
    case ne: False
    let ?h = "h @ [Bio_read GX_TLS_IO_BUFFER]"
    define n where "n = flush_chunk env s h"
    obtain r h2 where send: "gx_transport_send_outer env dev GX5125_OUTER_TLS
        (Buf (take n (ts_wbio s))) 1000 ?h = (r, h2)"
      by (rule prod.exhaust)
    have g1: "grows io_call h ?h" by (rule grows_snoc) simp_all
    have g2: "grows io_call h h2"
      using grows_trans [OF g1] send_outer_io [of ?h env dev GX5125_OUTER_TLS "Buf (take n (ts_wbio s))" 1000]
      by (simp add: send)
    note round = flush_round [OF ne n_def send]
    show ?thesis
    proof (cases "isl (reply_rc (env h (Bio_read GX_TLS_IO_BUFFER))) \<or> n = 0 \<or> isl r")
      case True
      then show ?thesis
        using less.prems round g1 g2 by (intro tracks_io) (auto split: if_splits sum.splits)
    next
      case False
      then have "tls_flush_loop env dev (flushed n s) h2 = (rc, s', h')"
        using less.prems round by (auto split: sum.splits)
      moreover have "length (ts_wbio (flushed n s)) < length (ts_wbio s)"
        using False ne by (simp add: flushed_def)
      moreover have "tracks s h (flushed n s) h2" by (rule tracks_io [OF g2]) (simp_all add: flushed_def)
      ultimately show ?thesis using less.IH tracks_trans by blast
    qed
  qed
qed

lemma flush_tracks: "gx_tls_flush_usb env dev s h = (rc, s', h') \<Longrightarrow> tracks s h s' h'"
  using flush_loop_tracks by (auto simp: gx_tls_flush_usb_def split: if_splits)

lemma receive_step_tracks:
  assumes "tls_receive_step env sched deadline now s session h = (rc, s', session', h')"
  shows "tracks s h s' h'"
proof -
  let ?h = "h @ [Cond_timedwait (tls_wait_ms deadline now)]"
  have "tracks s h s ?h" by (rule tracks_io, rule grows_snoc) simp_all
  then show ?thesis
    using assms feed_tracks tracks_trans
    by (fastforce simp: tls_receive_step_def Let_def split: prod.splits sum.splits if_splits)
qed

lemma step_flush_tracks:
  "gx_tls_flush_usb env dev (apply_step s st) (h @ queries_of st) = (rc, s', h') \<Longrightarrow> tracks s h s' h'"
  using apply_step_tracks flush_tracks tracks_trans by blast

lemma handshake_loop_tracks:
  "tls_handshake_loop eng env sched dev deadline ticks s session h = (rc, s', session', h')
   \<Longrightarrow> tracks s h s' h' \<and> (rc = Inr () \<longrightarrow> identity_valid s')"
proof (induction ticks arbitrary: s session h)
  case (Cons t ts)
  show ?case
  proof (cases "tt_now t \<ge> deadline")
    case True
    with Cons.prems show ?thesis by auto
  next
    case False
    define st where "st = eng_handshake eng (ts_engine s) (psk_answer_of s) (ts_rbio s)"
    obtain rc1 s1 h1 where fl: "gx_tls_flush_usb env dev (apply_step s st) (h @ queries_of st) = (rc1, s1, h1)"
      by (rule prod_cases3)
    obtain rc2 s2 session2 h2 where rs:
      "tls_receive_step env sched deadline (tt_later t) s1 session h1 = (rc2, s2, session2, h2)"
      by (rule prod_cases4)
    note tr1 = step_flush_tracks [OF fl]
    note tr2 = tracks_trans [OF tr1 receive_step_tracks [OF rs]]
    have IH1: "tls_handshake_loop eng env sched dev deadline ts s1 session h1 = (rc, s', session', h')
        \<Longrightarrow> tracks s h s' h' \<and> (rc = Inr () \<longrightarrow> identity_valid s')"
      using Cons.IH tracks_trans [OF tr1] by blast
    have IH2: "tls_handshake_loop eng env sched dev deadline ts s2 session2 h2 = (rc, s', session', h')
        \<Longrightarrow> tracks s h s' h' \<and> (rc = Inr () \<longrightarrow> identity_valid s')"
      using Cons.IH tracks_trans [OF tr2] by blast
    show ?thesis
      using Cons.prems False fl rs tr1 tr2 IH1 IH2
      by (auto simp: st_def [symmetric] Let_def split: sum.splits ssl_error.splits if_splits)
  qed
qed auto

lemma handshake_tracks:
  assumes "gx_tls_server_handshake_usb eng env sched dev timeout_ms start ticks s session h = (rc, s', session', h')"
  shows "tracks s h s' h' \<and> (rc = Inr () \<longrightarrow> identity_valid s')"
proof (cases "\<not> ts_ssl s \<or> timeout_ms = 0")
  case True
  with assms show ?thesis by (auto simp: gx_tls_server_handshake_usb_def)
next
  case False
  obtain rc1 r1 session1 h1 where c: "gx_session_command env sched dev (gx_session_tls_clear session) 0x0d 0x00
      (Buf [0x00, 0x00]) 0 False 0 1 zero_command_result h = (rc1, r1, session1, h1)"
    by (rule prod_cases4)
  have "tracks s h s h1"
    using command_io [of h env sched dev "gx_session_tls_clear session" "0x0d" "0x00" "Buf [0x00, 0x00]" 0 False 0 1
        zero_command_result] unfolding c by (intro tracks_io) simp_all
  show ?thesis
  proof (cases rc1)
    case (Inl e)
    with assms False \<open>tracks s h s h1\<close> show ?thesis
      by (simp add: gx_tls_server_handshake_usb_def c del: One_nat_def) (metis Inl_Inr_False)
  next
    case (Inr u)
    with assms False have "tls_handshake_loop eng env sched dev (start + timeout_ms) ticks s session1 h1
        = (rc, s', session', h')"
      by (simp add: gx_tls_server_handshake_usb_def c del: One_nat_def)
    from handshake_loop_tracks [OF this] tracks_trans [OF \<open>tracks s h s h1\<close>] show ?thesis by blast
  qed
qed

text \<open>
  C15: a completed handshake authenticated the peer. Whatever OpenSSL, libusb, the receiver and the
  clock do, if \<open>gx_tls_server_handshake_usb\<close> returns success on a server whose flag was clear, then
  during the call the PSK callback was asked for the key of identity \<open>Client_identity\<close> with room for
  32 bytes, and no later query of the call was of any other identity; the flag is set and the key and
  the OpenSSL objects are those of the start.
\<close>

theorem handshake_authenticates:
  assumes "gx_tls_server_handshake_usb eng env sched dev timeout_ms start ticks server session h
             = (Inr (), server', session', h')"
    and "\<not> identity_valid server"
  shows "identity_valid server' \<and> ts_psk server' = ts_psk server \<and> ts_ssl server'
    \<and> (\<exists>pre n post. h' = h @ pre @ Psk_query GX_TLS_IDENTITY n # post \<and> GX5125_PSK_SIZE \<le> n
         \<and> (\<forall>c \<in> set post. io_call c))"
proof -
  from handshake_tracks [OF assms(1)] have v: "identity_valid server'" and tr: "tracks server h server' h'"
    by simp_all
  have ssl: "ts_ssl server"
    using assms(1) by (auto simp: gx_tls_server_handshake_usb_def split: if_splits)
  from tr v assms(2) obtain cs where cs: "h' = h @ cs" "\<forall>c \<in> set cs. tls_call c" "foldl psk_verdict False cs"
    by (auto simp: tracks_def)
  from accepted_query [OF cs(3)] cs(1,2) have "\<exists>pre n post. h' = h @ pre @ Psk_query GX_TLS_IDENTITY n # post
      \<and> GX5125_PSK_SIZE \<le> n \<and> (\<forall>c \<in> set post. io_call c)"
    by (fastforce simp: tls_call_def)
  moreover have "ts_psk server' = ts_psk server \<and> ts_ssl server' = ts_ssl server"
    using tr by (auto simp: tracks_def)
  ultimately show ?thesis using v ssl by blast
qed

lemma read_loop_tracks:
  "tls_read_loop eng env sched dev capacity deadline ticks s session h = (rc, s', session', h')
   \<Longrightarrow> tracks s h s' h' \<and> (\<forall>out. rc = Inr out \<longrightarrow> out \<noteq> [] \<and> length out \<le> capacity \<or> capacity = 0)"
proof (induction ticks arbitrary: s session h)
  case (Cons t ts)
  show ?case
  proof (cases "tt_now t \<ge> deadline")
    case True
    with Cons.prems show ?thesis by auto
  next
    case False
    define st where "st = eng_read eng (ts_engine s) (psk_answer_of s) (ts_rbio s) capacity"
    obtain rc1 s1 h1 where fl: "gx_tls_flush_usb env dev (apply_step s st) (h @ queries_of st) = (rc1, s1, h1)"
      by (rule prod_cases3)
    obtain rc2 s2 session2 h2 where rs:
      "tls_receive_step env sched deadline (tt_later t) s1 session h1 = (rc2, s2, session2, h2)"
      by (rule prod_cases4)
    note tr1 = step_flush_tracks [OF fl]
    note tr2 = tracks_trans [OF tr1 receive_step_tracks [OF rs]]
    let ?post = "\<lambda>rc. \<forall>out. rc = Inr out \<longrightarrow> out \<noteq> [] \<and> length out \<le> capacity \<or> capacity = 0"
    have IH1: "tls_read_loop eng env sched dev capacity deadline ts s1 session h1 = (rc, s', session', h')
        \<Longrightarrow> tracks s h s' h' \<and> ?post rc"
      using Cons.IH tracks_trans [OF tr1] by blast
    have IH2: "tls_read_loop eng env sched dev capacity deadline ts s2 session2 h2 = (rc, s', session', h')
        \<Longrightarrow> tracks s h s' h' \<and> ?post rc"
      using Cons.IH tracks_trans [OF tr2] by blast
    show ?thesis
      using Cons.prems False fl rs tr1 tr2 IH1 IH2
      by (auto simp: st_def [symmetric] Let_def split: sum.splits ssl_error.splits if_splits)
  qed
qed auto

lemma read_application_spec:
  assumes "gx_tls_server_read_application eng env sched dev capacity timeout_ms start ticks s session h
             = (rc, s', session', h')"
  shows "tracks s h s' h'" and "rc = Inr out \<Longrightarrow> out \<noteq> [] \<and> length out \<le> capacity"
  using assms read_loop_tracks
  by (fastforce simp: gx_tls_server_read_application_def split: if_splits)+

section \<open>OpenSSL objects\<close>

text \<open>
  The objects a history left alive: contexts, connections and BIOs not owned by a connection. A
  creation that fails (a null pointer) leaves none; \<open>SSL_set_bio\<close> hands both BIOs to the connection,
  which frees them with itself.
\<close>

type_synonym tls_objects = "int \<times> int \<times> int"

fun object_effect :: "ext_reply \<Rightarrow> ext_call \<Rightarrow> tls_objects \<Rightarrow> tls_objects" where
  "object_effect r Ssl_ctx_new (c, s, b) = (if isl (reply_rc r) then c else c + 1, s, b)"
| "object_effect r Ssl_ctx_free (c, s, b) = (c - 1, s, b)"
| "object_effect r Ssl_new (c, s, b) = (c, if isl (reply_rc r) then s else s + 1, b)"
| "object_effect r Ssl_free (c, s, b) = (c, s - 1, b)"
| "object_effect r Bio_new (c, s, b) = (c, s, if isl (reply_rc r) then b else b + 1)"
| "object_effect r Bio_free (c, s, b) = (c, s, b - 1)"
| "object_effect r Ssl_set_bio (c, s, b) = (c, s, b - 2)"
| "object_effect r _ v = v"

definition tls_objects :: "environment \<Rightarrow> history \<Rightarrow> tls_objects" where
  "tls_objects env h = replay object_effect env [] h (0, 0, 0)"

lemma objects_append [simp]: "tls_objects env (h @ [c]) = object_effect (env h c) c (tls_objects env h)"
  by (simp add: tls_objects_def replay_append)

lemma objects_nil [simp]: "tls_objects env [] = (0, 0, 0)"
  by (simp add: tls_objects_def)

text \<open>The objects a server structure owns.\<close>

definition server_objects :: "'e gx_tls_server \<Rightarrow> tls_objects" where
  "server_objects s = (of_bool (ts_context s), of_bool (ts_ssl s), 0)"

definition objects_add :: "tls_objects \<Rightarrow> tls_objects \<Rightarrow> tls_objects" where
  "objects_add v w = (fst v + fst w, fst (snd v) + fst (snd w), snd (snd v) + snd (snd w))"

lemma cleanup_objects:
  assumes "gx_tls_server_cleanup env s h = (s', h')" and "tls_objects env h = objects_add v (server_objects s)"
  shows "tls_objects env h' = v \<and> \<not> ts_ssl s' \<and> \<not> ts_context s' \<and> ts_psk s' = replicate GX5125_PSK_SIZE 0"
  using assms
  by (cases v) (auto simp: gx_tls_server_cleanup_def server_objects_def objects_add_def ext_do_def Let_def
      simp flip: append_assoc split: if_splits)

lemma configure_objects:
  "gx_tls_configure_context env ks h = (ok, h') \<Longrightarrow>
     tls_objects env h' = tls_objects env h"
proof (induction ks arbitrary: h)
  case (Cons k ks)
  then show ?case by (cases "tls_objects env h") (auto simp: ext_do_def split: if_splits)
qed simp

lemma init_fail_objects:
  assumes "tls_init_fail env rb wb s h = (ok, s', h')"
    and "tls_objects env h = objects_add v (objects_add (server_objects s) (0, 0, of_bool rb + of_bool wb))"
  shows "\<not> ok \<and> tls_objects env h' = v \<and> \<not> ts_ssl s' \<and> \<not> ts_context s'
    \<and> ts_psk s' = replicate GX5125_PSK_SIZE 0"
proof -
  let ?h1 = "if rb then h @ [Bio_free] else h"
  let ?h2 = "if wb then ?h1 @ [Bio_free] else ?h1"
  obtain s3 h3 where c: "gx_tls_server_cleanup env s ?h2 = (s3, h3)" by (rule prod.exhaust)
  have "tls_objects env ?h2 = objects_add v (server_objects s)"
    using assms(2) by (cases v) (auto simp: objects_add_def server_objects_def simp flip: append_assoc)
  from cleanup_objects [OF c this] assms(1) c show ?thesis
    by (auto simp: tls_init_fail_def Let_def ext_do_def split: if_splits)
qed

text \<open>
  Every way the initialisation ends: through the failure exit, from a point where exactly the objects
  the exit releases are alive, or with the connection owning both BIOs.
\<close>

lemma init_outcome:
  "(\<exists>rb wb s1 g. gx_tls_server_init eng env psk h = tls_init_fail env rb wb s1 g
      \<and> tls_objects env g = objects_add (tls_objects env h)
            (objects_add (server_objects s1) (0, 0, of_bool rb + of_bool wb)))
   \<or> (\<exists>g. gx_tls_server_init eng env psk h
         = (True, (zero_tls_server eng)\<lparr>ts_psk := psk, ts_context := True, ts_ssl := True\<rparr>, g)
      \<and> tls_objects env g = objects_add (tls_objects env h) (1, 1, 0))"
proof -
  let ?s0 = "(zero_tls_server eng)\<lparr>ts_psk := psk\<rparr>"
  let ?s1 = "?s0\<lparr>ts_context := True\<rparr>" and ?s2 = "?s0\<lparr>ts_context := True, ts_ssl := True\<rparr>"
  let ?h0 = "h @ [Openssl_init]"
  let ?h1 = "?h0 @ [Ssl_ctx_new]"
  obtain ok h2 where conf: "gx_tls_configure_context env [0, 1, 2, 3] ?h1 = (ok, h2)" by (rule prod.exhaust)
  let ?h3 = "h2 @ [Ssl_new]"
  let ?h4 = "?h3 @ [Bio_new]"
  let ?h5 = "?h4 @ [Bio_new]"
  obtain c x b where v: "tls_objects env h = (c, x, b)" by (rule prod_cases3)
  note u = gx_tls_server_init_def ext_do_def Let_def prod.case conf fst_conv snd_conv
  note o = objects_add_def server_objects_def zero_tls_server_def
  show ?thesis
  proof (cases "isl (reply_rc (env h Openssl_init))")
    case True
    then have "gx_tls_server_init eng env psk h = tls_init_fail env False False ?s0 ?h0" unfolding u by simp
    moreover have "tls_objects env ?h0 = objects_add (tls_objects env h)
        (objects_add (server_objects ?s0) (0, 0, of_bool False + of_bool False))"
      by (simp add: v o)
    ultimately show ?thesis by blast
  next
    case c0: False
    show ?thesis
    proof (cases "isl (reply_rc (env ?h0 Ssl_ctx_new))")
      case True
      with c0 have "gx_tls_server_init eng env psk h = tls_init_fail env False False ?s0 ?h1" unfolding u by simp
      moreover have "tls_objects env ?h1 = objects_add (tls_objects env h)
          (objects_add (server_objects ?s0) (0, 0, of_bool False + of_bool False))"
        using True by (simp add: v o del: append_assoc)
      ultimately show ?thesis by blast
    next
      case c1: False
      then have o1: "tls_objects env h2 = (c + 1, x, b)"
        using configure_objects [OF conf] by (simp add: v del: append_assoc)
      show ?thesis
      proof (cases "\<not> ok \<or> isl (reply_rc (env h2 Ssl_new))")
        case True
        then have "gx_tls_server_init eng env psk h = tls_init_fail env False False ?s1 (if ok then ?h3 else h2)"
          using c0 c1 unfolding u by simp
        moreover have "tls_objects env (if ok then ?h3 else h2) = objects_add (tls_objects env h)
            (objects_add (server_objects ?s1) (0, 0, of_bool False + of_bool False))"
          using True by (simp add: v o o1)
        ultimately show ?thesis by blast
      next
        case c2: False
        let ?rb = "\<not> isl (reply_rc (env ?h3 Bio_new))" and ?wb = "\<not> isl (reply_rc (env ?h4 Bio_new))"
        have o5: "tls_objects env ?h5 = (c + 1, x + 1, b + (of_bool ?rb + of_bool ?wb))"
          using c2 by (simp add: o1 del: append_assoc)
        show ?thesis
        proof (cases "?rb \<and> ?wb")
          case True
          with c0 c1 c2 have "gx_tls_server_init eng env psk h
              = (True, ?s1\<lparr>ts_ssl := True\<rparr>, ?h5 @ [Ssl_set_bio])"
            unfolding u by simp
          moreover have "tls_objects env (?h5 @ [Ssl_set_bio]) = objects_add (tls_objects env h) (1, 1, 0)"
            using True unfolding objects_append [of env ?h5 Ssl_set_bio] o5 by (simp add: v o del: append_assoc)
          ultimately show ?thesis by blast
        next
          case False
          with c0 c1 c2 have "gx_tls_server_init eng env psk h
              = tls_init_fail env ?rb ?wb (?s1\<lparr>ts_ssl := True\<rparr>) ?h5"
            unfolding u by simp
          moreover have "tls_objects env ?h5 = objects_add (tls_objects env h)
              (objects_add (server_objects (?s1\<lparr>ts_ssl := True\<rparr>)) (0, 0, of_bool ?rb + of_bool ?wb))"
            by (simp only: o5) (simp add: v o)
          ultimately show ?thesis by blast
        qed
      qed
    qed
  qed
qed

lemma init_objects:
  assumes "gx_tls_server_init eng env psk h = (ok, s, h')"
  shows "if ok then tls_objects env h' = objects_add (tls_objects env h) (1, 1, 0)
            \<and> s = (zero_tls_server eng)\<lparr>ts_psk := psk, ts_context := True, ts_ssl := True\<rparr>
         else tls_objects env h' = tls_objects env h \<and> \<not> ts_ssl s \<and> \<not> ts_context s
            \<and> ts_psk s = replicate GX5125_PSK_SIZE 0"
  using init_outcome [of eng env psk h] init_fail_objects assms by fastforce

fun object_call :: "ext_call \<Rightarrow> bool" where
  "object_call Ssl_ctx_new = True"
| "object_call Ssl_ctx_free = True"
| "object_call Ssl_new = True"
| "object_call Ssl_free = True"
| "object_call Bio_new = True"
| "object_call Bio_free = True"
| "object_call Ssl_set_bio = True"
| "object_call _ = False"

lemma other_calls_keep_objects:
  assumes "\<forall>c \<in> set cs. \<not> object_call c"
  shows "tls_objects env (h @ cs) = tls_objects env h"
proof -
  have "object_effect r c v = v" if "\<not> object_call c" for r c v
    using that by (cases c; cases v) auto
  with assms show ?thesis by (simp add: tls_objects_def replay_append replay_unaffected)
qed

text \<open>
  The TLS server owns what it created and nothing leaks. Whichever step of
  \<open>gx_tls_server_init\<close> fails, the contexts, connections and BIOs alive are those of before and the
  key is wiped; if it succeeds one context and one connection were added, and
  \<open>gx_tls_server_cleanup\<close>, whatever was done in between, gives them back and wipes the key.
\<close>

theorem tls_objects_balanced:
  assumes "gx_tls_server_init eng env psk h = (ok, s, h1)" and "\<forall>c \<in> set cs. \<not> object_call c"
    and "ts_ssl s' = ts_ssl s" and "ts_context s' = ts_context s"
    and "gx_tls_server_cleanup env s' (h1 @ cs) = (s2, h2)"
  shows "(if ok then tls_objects env h1 = objects_add (tls_objects env h) (1, 1, 0) \<and> ts_psk s = psk
          else tls_objects env h1 = tls_objects env h \<and> ts_psk s = replicate GX5125_PSK_SIZE 0)
     \<and> tls_objects env h2 = tls_objects env h \<and> ts_psk s2 = replicate GX5125_PSK_SIZE 0"
proof -
  have "tls_objects env (h1 @ cs) = objects_add (tls_objects env h) (server_objects s')"
    using init_objects [OF assms(1)] assms(3,4) other_calls_keep_objects [OF assms(2)]
    by (auto simp: server_objects_def objects_add_def split: if_splits)
  from cleanup_objects [OF assms(5) this] init_objects [OF assms(1)] show ?thesis
    by (auto split: if_splits)
qed

section \<open>Progress\<close>

text \<open>When every call succeeds and moves 64 bytes the flush loop ends with success.\<close>

lemma flush_progress:
  assumes "calls_work env"
    and "ud_handle dev" and "claimed_data dev"
  shows "fst (tls_flush_loop env dev server h) = Inr ()"
proof (induction server arbitrary: h rule: measure_induct_rule [of "\<lambda>s. length (ts_wbio s)"])
  case (less server)
  show ?case
  proof (cases "ts_wbio server = []")
    case True
    then show ?thesis by (simp add: tls_flush_loop.simps [of env dev server h])
  next
    case ne: False
    let ?h = "h @ [Bio_read GX_TLS_IO_BUFFER]"
    define n where "n = flush_chunk env server h"
    let ?out = "take n (ts_wbio server)"
    obtain r h2 where send: "gx_transport_send_outer env dev GX5125_OUTER_TLS (Buf ?out) 1000 ?h = (r, h2)"
      by (rule prod.exhaust)
    have n: "0 < n" "n \<le> GX_TLS_IO_BUFFER"
      using assms(1) ne by (simp_all add: n_def flush_chunk_def GX_TLS_IO_BUFFER_def calls_work_def)
    have "outer_ok (GX5125_OUTER_TLS, ?out)"
      using n by (simp add: outer_ok_def gx_outer_family_supported_def outer_consts GX_TLS_IO_BUFFER_def)
    then have "fst (gx_transport_send_outer env dev GX5125_OUTER_TLS (Buf ?out) 1000 ?h) = Inr ()"
      using assms by (intro send_outer_progress)
    then have r: "r = Inr ()" by (simp add: send)
    have "length (ts_wbio (flushed n server)) < length (ts_wbio server)"
      using n ne by (simp add: flushed_def)
    from less.IH [OF this] show ?thesis
      using flush_round [OF ne n_def send] n assms(1) r by (simp add: calls_work_def)
  qed
qed

text \<open>A command without acknowledgement and response succeeds as soon as it is sent.\<close>

lemma sent_command:
  assumes "calls_work env"
    and "ud_handle dev" and "claimed_data dev"
    and "cmd0 \<le> 0x0f" and "cmd1 \<le> 0x07"
    and "length payload \<le> GX5125_OUTER_MAX_PAYLOAD - 4" and "0 < attempts"
  shows "\<exists>h'. gx_session_command env sched dev s cmd0 cmd1 (Buf payload) 0 False 0 attempts r h
       = (Inr (), zero_command_result\<lparr>attempts_used := 1\<rparr>, s, h')"
proof -
  let ?c = "gx_inner_command_byte cmd0 cmd1 False"
  define f where "f = inner_frame (?c, payload, right_checksum ?c payload)"
  have "length payload < 65535" "4 + length payload \<le> length (replicate GX5125_OUTER_MAX_PAYLOAD (0 :: u8))"
    using assms(6) by (simp_all add: outer_consts)
  note b = gx_inner_build_eq [OF assms(4,5) this, of False]
  have b': "gx_inner_build cmd0 cmd1 ((0 :: nat) \<noteq> 0) (Buf payload) (Buf (replicate GX5125_OUTER_MAX_PAYLOAD 0))
      = gx_inner_build cmd0 cmd1 False (Buf payload) (Buf (replicate GX5125_OUTER_MAX_PAYLOAD 0))" by simp
  have "\<not> (is_null (Buf payload) \<and> cbuf_len (Buf payload) \<noteq> 0)" by simp
  note loop = command_as_loop(1) [OF assms(4,5,7) this trans [OF b' b]]
  have loop: "gx_session_command env sched dev s cmd0 cmd1 (Buf payload) 0 False 0 attempts r h
      = command_loop env sched dev (request_of s cmd0 cmd1 f 0 False 0)
          attempts 1 LIBUSB_ERROR_OTHER s zero_command_result h"
    unfolding loop by (simp add: f_def)
  obtain n where n: "attempts = Suc n" using assms(7) by (cases attempts) auto
  have "outer_ok (GX5125_OUTER_COMMAND, f)"
    using assms(6) by (simp add: f_def outer_ok_def gx_outer_family_supported_def outer_consts)
  then have sent: "fst (gx_transport_send_outer env dev GX5125_OUTER_COMMAND (Buf f) GX_TX_TIMEOUT_MS h) = Inr ()"
    using assms(1-3) by (intro send_outer_progress)
  obtain rc0 h1 where e: "gx_transport_send_outer env dev GX5125_OUTER_COMMAND (Buf f) GX_TX_TIMEOUT_MS h = (rc0, h1)"
    by (rule prod.exhaust)
  with sent have "rc0 = Inr ()" by (simp only: fst_conv)
  note h1 = e [unfolded this]
  show ?thesis
    unfolding loop unfolding n by (simp add: command_attempt_def request_of_def h1 response_phase_def)
qed

text \<open>A concrete engine: one handshake step that asks for the key and answers with three bytes.\<close>

definition sample_engine :: "nat ssl_engine" where
  "sample_engine =
     \<lparr>eng_handshake = (\<lambda>e psk rbio. \<lparr>step_status = Inr [], step_queries = [(GX_TLS_IDENTITY, 256)],
         step_rbio = [], step_output = [0x16, 0x03, 0x03], step_engine = Suc e\<rparr>),
      eng_read = (\<lambda>e psk rbio n. \<lparr>step_status = Inl SSL_want_read, step_queries = [],
         step_rbio = rbio, step_output = [], step_engine = e\<rparr>),
      eng_finished = (\<lambda>e. 0 < e), eng_fresh = 0\<rparr>"

definition ready_server :: "nat gx_tls_server" where
  "ready_server = (zero_tls_server sample_engine)
     \<lparr>ts_psk := replicate GX5125_PSK_SIZE 7, ts_context := True, ts_ssl := True\<rparr>"

lemma claimed_sample: "ud_handle claimed_device" "claimed_data claimed_device"
  by (simp_all add: claimed_device_def zero_usb_device_def)

theorem tls_flush_sends_all_witness:
  "\<exists>server' h'. gx_tls_flush_usb quiet_env claimed_device (ready_server\<lparr>ts_wbio := [1, 2, 3]\<rparr>) []
      = (Inr (), server', h') \<and> ts_wbio server' = [] \<and> usb_output_bytes server' = 3"
proof -
  let ?s = "ready_server\<lparr>ts_wbio := [1, 2, 3]\<rparr>"
  obtain rc server' h' where f: "gx_tls_flush_usb quiet_env claimed_device ?s [] = (rc, server', h')"
    by (rule prod_cases3)
  have "fst (gx_tls_flush_usb quiet_env claimed_device ?s []) = Inr ()"
    using quiet_works claimed_sample by (simp add: gx_tls_flush_usb_def ready_server_def flush_progress)
  with f have f: "gx_tls_flush_usb quiet_env claimed_device ?s [] = (Inr (), server', h')" by simp
  from tls_flush_sends_all [OF f] have "server' = ?s\<lparr>ts_wbio := [], usb_output_bytes := 3,
      usb_output_frames := usb_output_frames server'\<rparr>"
    by (auto simp: ready_server_def zero_tls_server_def)
  then have "ts_wbio server' = [] \<and> usb_output_bytes server' = 3" by (rule ssubst) simp
  with f show ?thesis by blast
qed

lemma sample_handshake:
  "\<exists>server' session' h'. gx_tls_server_handshake_usb sample_engine quiet_env silent_sched claimed_device 8000 0
      [\<lparr>tt_now = 5, tt_later = 6\<rparr>] ready_server zero_session [] = (Inr (), server', session', h')"
proof -
  let ?st = "eng_handshake sample_engine 0 (psk_answer_of ready_server) []"
  have "\<exists>h1. gx_session_command quiet_env silent_sched claimed_device (gx_session_tls_clear zero_session) 0x0d 0x00
      (Buf [0, 0]) 0 False 0 1 zero_command_result []
    = (Inr (), zero_command_result\<lparr>attempts_used := 1\<rparr>, gx_session_tls_clear zero_session, h1)"
    using quiet_works claimed_sample by (intro sent_command) (simp_all add: outer_consts)
  then obtain h1 where
    c: "gx_session_command quiet_env silent_sched claimed_device (gx_session_tls_clear zero_session) 0x0d 0x00
      (Buf [0, 0]) 0 False 0 1 zero_command_result []
    = (Inr (), zero_command_result\<lparr>attempts_used := 1\<rparr>, gx_session_tls_clear zero_session, h1)" ..
  let ?s = "apply_step ready_server ?st"
  obtain rc s2 h2 where f: "gx_tls_flush_usb quiet_env claimed_device ?s (h1 @ queries_of ?st) = (rc, s2, h2)"
    by (rule prod_cases3)
  have ssl: "ts_ssl ?s" using run_queries_tracks [of ready_server "step_queries ?st"]
    by (simp add: apply_step_def ready_server_def)
  then have "fst (gx_tls_flush_usb quiet_env claimed_device ?s (h1 @ queries_of ?st)) = Inr ()"
    using quiet_works claimed_sample by (simp add: gx_tls_flush_usb_def flush_progress)
  with f have rc: "rc = Inr ()" by simp
  from step_flush_tracks [OF f] have "identity_valid s2"
    using flush_on_wire [of quiet_env claimed_device ?s "h1 @ queries_of ?st" s2 h2] f rc ssl
      run_queries_tracks [of ready_server "step_queries ?st"]
    by (auto simp: gx_tls_flush_usb_def apply_step_def sample_engine_def GX5125_PSK_SIZE_def)
  then show ?thesis
    using c f rc by (simp add: gx_tls_server_handshake_usb_def Let_def sample_engine_def ready_server_def
        zero_tls_server_def)
qed

theorem handshake_authenticates_witness:
  "\<exists>server' session' h' pre n post. gx_tls_server_handshake_usb sample_engine quiet_env silent_sched
      claimed_device 8000 0 [\<lparr>tt_now = 5, tt_later = 6\<rparr>] ready_server zero_session [] = (Inr (), server', session', h')
    \<and> h' = [] @ pre @ Psk_query GX_TLS_IDENTITY n # post"
proof -
  obtain server' session' h' where h: "gx_tls_server_handshake_usb sample_engine quiet_env silent_sched
      claimed_device 8000 0 [\<lparr>tt_now = 5, tt_later = 6\<rparr>] ready_server zero_session [] = (Inr (), server', session', h')"
    using sample_handshake by blast
  have "\<not> identity_valid ready_server" by (simp add: ready_server_def zero_tls_server_def)
  from handshake_authenticates [OF h this] h show ?thesis by blast
qed

theorem tls_objects_balanced_witness:
  "\<exists>s h1 s2 h2. gx_tls_server_init sample_engine quiet_env (replicate GX5125_PSK_SIZE 7) [] = (True, s, h1)
    \<and> tls_objects quiet_env h1 = (1, 1, 0) \<and> gx_tls_server_cleanup quiet_env s (h1 @ [Bio_write 5]) = (s2, h2)
    \<and> tls_objects quiet_env h2 = (0, 0, 0)"
proof -
  obtain ok s h1 where i: "gx_tls_server_init sample_engine quiet_env (replicate GX5125_PSK_SIZE 7) [] = (ok, s, h1)"
    by (rule prod_cases3)
  then have ok: "ok = True" by (auto simp: gx_tls_server_init_def ext_do_def Let_def quiet_env_def)
  obtain s2 h2 where c: "gx_tls_server_cleanup quiet_env s (h1 @ [Bio_write 5]) = (s2, h2)" by (rule prod.exhaust)
  have "\<forall>c \<in> set [Bio_write 5]. \<not> object_call c" by simp
  from tls_objects_balanced [OF i this refl refl c] i c ok show ?thesis
    by (auto simp: objects_add_def)
qed

end
