(* ===== verification/Sensor.thy ===== *)
theory Sensor
  imports Sensor_Data
begin

text \<open>
  The sensor data formats of \<open>src/gx_sensor.c\<close>: the two checksums, the OTP block with its
  calibration values, the configuration block derived from it, and the packed 12-bit image frame.
  The image statistics are modelled for their integer part (minimum, maximum, sum); the mean and
  the standard deviation are C doubles and are left out.
\<close>

definition GX5125_OTP_SIZE :: nat where "GX5125_OTP_SIZE = 64"
definition GX5125_CONFIG_SIZE :: nat where "GX5125_CONFIG_SIZE = 224"
definition GX5125_IMAGE_PACKED_SIZE :: nat where "GX5125_IMAGE_PACKED_SIZE = 7680"
definition GX5125_IMAGE_RAW_FRAME_SIZE :: nat where "GX5125_IMAGE_RAW_FRAME_SIZE = 7684"
definition GX5125_IMAGE_PIXELS :: nat where "GX5125_IMAGE_PIXELS = 5120"

lemmas sensor_consts = GX5125_OTP_SIZE_def GX5125_CONFIG_SIZE_def GX5125_IMAGE_PACKED_SIZE_def
  GX5125_IMAGE_RAW_FRAME_SIZE_def GX5125_IMAGE_PIXELS_def

record gx_otp_info =
  cp_crc_ok :: bool
  ft_crc_ok :: bool
  mt_crc_ok :: bool
  dac_valid :: bool
  dac :: "u16 list"
  tcode :: u16
  fdt_delta :: u8
  fdt_offset :: u8

definition zero_otp_info :: gx_otp_info where
  "zero_otp_info =
     \<lparr>cp_crc_ok = False, ft_crc_ok = False, mt_crc_ok = False, dac_valid = False,
      dac = replicate 4 0, tcode = 0, fdt_delta = 0, fdt_offset = 0\<rparr>"

section \<open>Reads, writes and checksums\<close>

definition gx_read_le16 :: "u8 list \<Rightarrow> nat \<Rightarrow> u16" where
  "gx_read_le16 data off = le16 (data ! off) (data ! Suc off)"

definition gx_write_le16 :: "u8 list \<Rightarrow> nat \<Rightarrow> u16 \<Rightarrow> u8 list" where
  "gx_write_le16 data off value = data[off := lo8 value, Suc off := hi8 value]"

definition crc8_step :: "u8 \<Rightarrow> u8 \<Rightarrow> u8" where
  "crc8_step state b = gx5125_goodix_crc8_table ! unat (state XOR b)"

definition gx_goodix_crc8 :: "cbuf \<Rightarrow> u8" where
  "gx_goodix_crc8 data =
     (if is_null data \<and> cbuf_len data \<noteq> 0 then 0
      else NOT (foldl crc8_step 0 (cbuf_bytes data)))"

text \<open>One bit and one byte of the bitwise CRC-32.\<close>

definition crc32_bit :: "u32 \<Rightarrow> u32" where
  "crc32_bit crc =
     (if crc AND 0x80000000 \<noteq> 0 then push_bit 1 crc XOR 0x04c11db7 else push_bit 1 crc)"

definition crc32_byte :: "u32 \<Rightarrow> u8 \<Rightarrow> u32" where
  "crc32_byte crc b = (crc32_bit ^^ 8) (crc XOR push_bit 24 (ucast b))"

definition gx_crc32_mpeg2 :: "cbuf \<Rightarrow> u32" where
  "gx_crc32_mpeg2 data =
     (if is_null data \<and> cbuf_len data \<noteq> 0 then 0
      else foldl crc32_byte 0xffffffff (cbuf_bytes data))"

section \<open>The OTP block\<close>

text \<open>Copy the ranges into a 32-byte buffer, failing when they do not fit.\<close>

fun gather_ranges :: "u8 list \<Rightarrow> (nat \<times> nat) list \<Rightarrow> u8 list \<Rightarrow> u8 list option" where
  "gather_ranges otp [] buffer = Some buffer"
| "gather_ranges otp ((start, n) # ranges) buffer =
     (if length buffer + n > 32 then None
      else gather_ranges otp ranges (buffer @ take n (drop start otp)))"

definition gx_otp_domain_crc :: "u8 list \<Rightarrow> (nat \<times> nat) list \<Rightarrow> u8 \<Rightarrow> bool" where
  "gx_otp_domain_crc otp ranges expected =
     (case gather_ranges otp ranges [] of
        None \<Rightarrow> False
      | Some buffer \<Rightarrow> gx_goodix_crc8 (Buf buffer) = expected)"

definition gx_nonzero4 :: "u8 list \<Rightarrow> bool" where
  "gx_nonzero4 data \<longleftrightarrow> data ! 0 \<noteq> 0 \<and> data ! 1 \<noteq> 0 \<and> data ! 2 \<noteq> 0 \<and> data ! 3 \<noteq> 0"

text \<open>The four DAC bytes rebuilt from two copies that agree in three places.\<close>

definition repair_dac :: "u8 list \<Rightarrow> u8 list \<Rightarrow> u16 list" where
  "repair_dac mt ft =
     map (\<lambda>i. if mt ! i = ft ! i then ucast (ft ! i)
              else of_nat ((unat (mt ! ((i + 1) mod 4)) + unat (mt ! ((i + 2) mod 4))
                            + unat (mt ! ((i + 3) mod 4))) div 3))
       [0..<4]"

definition gx_select_dac :: "u8 list \<Rightarrow> bool \<Rightarrow> bool \<Rightarrow> u16 list option" where
  "gx_select_dac otp ft_domain_ok mt_domain_ok =
     (let mt = take 4 (drop 0x2e otp);
          ft = take 4 (drop 0x32 otp);
          ft_subcrc = gx_nonzero4 ft \<and> gx_goodix_crc8 (Buf ft) = otp ! 0x3e;
          mt_subcrc = gx_nonzero4 mt \<and> gx_goodix_crc8 (Buf mt) = otp ! 0x16
      in if ft_domain_ok \<or> ft_subcrc then Some (map ucast ft)
         else if mt_domain_ok \<or> mt_subcrc then Some (map ucast mt)
         else
           let matching = length (filter (\<lambda>i. mt ! i = ft ! i \<and> ft ! i \<noteq> 0) [0..<4])
           in if matching < 3 then None
              else if matching = 4 then Some (map ucast ft)
              else Some (repair_dac mt ft))"

definition gx_select_tcode_source :: "u8 list \<Rightarrow> u8" where
  "gx_select_tcode_source otp =
     (let first = otp ! 0x2a; complement = otp ! 0x2b; second = otp ! 0x2d
      in if first \<noteq> 0 \<and> first = NOT complement then first
         else if second \<noteq> 0 \<and> second = NOT complement then second
         else if first \<noteq> 0 \<and> first = second then first
         else 0)"

definition gx_select_fdt_offset :: "u8 \<Rightarrow> u8" where
  "gx_select_fdt_offset value =
     (let first = value AND 0x03;
          second = drop_bit 4 value AND 0x03;
          third = drop_bit 2 (NOT value) AND 0x03
      in if first = second \<or> first = third then first
         else if second = third then second
         else 0)"

definition cp_ranges :: "(nat \<times> nat) list" where
  "cp_ranges = [(0x00, 0x0b), (0x24, 0x04)]"
definition ft_ranges :: "(nat \<times> nat) list" where
  "ft_ranges = [(0x0b, 0x09), (0x1c, 0x01), (0x32, 0x04), (0x38, 0x04), (0x3e, 0x01)]"
definition mt_ranges :: "(nat \<times> nat) list" where
  "mt_ranges = [(0x14, 0x08), (0x1d, 0x07), (0x28, 0x0a), (0x36, 0x02)]"

text \<open>
  \<open>gx_otp_parse\<close> on a 64-byte block: the status and the info structure, which is filled as far
  as the parse got. The arithmetic on \<open>unsigned int\<close> stays below \<open>2 ^ 19\<close>, so it is done on
  \<open>nat\<close>.
\<close>

definition tcode_of_source :: "u8 \<Rightarrow> u16" where
  "tcode_of_source source = of_nat ((unat (drop_bit 4 source) + 1) * 0x10 + 0x40)"

definition fdt_delta_of_source :: "u8 \<Rightarrow> u8" where
  "fdt_delta_of_source source =
     (let interim = (unat (source AND 0x0f) + 2) * 100
      in of_nat (((interim * 0x100) div unat (tcode_of_source source) div 3) div 16 mod 256))"

definition gx_otp_parse :: "u8 list \<Rightarrow> (usb_error + unit) \<times> gx_otp_info" where
  "gx_otp_parse otp =
     (let info = zero_otp_info
            \<lparr>cp_crc_ok := gx_otp_domain_crc otp cp_ranges (otp ! 0x3c),
             ft_crc_ok := gx_otp_domain_crc otp ft_ranges (otp ! 0x3d),
             mt_crc_ok := gx_otp_domain_crc otp mt_ranges (otp ! 0x3f)\<rparr>
      in case gx_select_dac otp (ft_crc_ok info) (mt_crc_ok info) of
           None \<Rightarrow> (Inl LIBUSB_ERROR_IO, info)
         | Some values \<Rightarrow>
             let source = gx_select_tcode_source otp;
                 base = info\<lparr>dac_valid := True, dac := values, tcode := 0x0080, fdt_delta := 0x15\<rparr>;
                 timed = (if source \<noteq> 0
                          then base\<lparr>tcode := tcode_of_source source,
                                    fdt_delta := fdt_delta_of_source source\<rparr>
                          else base)
             in (Inr (), timed\<lparr>fdt_offset := gx_select_fdt_offset (otp ! 0x1b)\<rparr>))"

section \<open>The configuration block\<close>

text \<open>The offsets of the four-byte entries of a section, in the order the loop visits them.\<close>

definition entry_offsets :: "nat \<Rightarrow> nat \<Rightarrow> nat list" where
  "entry_offsets start n = map (\<lambda>k. start + 4 * k) [0..<n div 4]"

definition merge_mode :: "nat \<Rightarrow> u16 \<Rightarrow> u16 \<Rightarrow> u16" where
  "merge_mode mode current value =
     (if mode = 0 then value
      else if mode = 1 then (current AND 0xff00) OR (value AND 0x00ff)
      else (current AND 0x00ff) OR (value AND 0xff00))"

definition gx_config_modify ::
    "u8 list \<Rightarrow> nat \<Rightarrow> u16 \<Rightarrow> u16 \<Rightarrow> nat \<Rightarrow> usb_error + u8 list" where
  "gx_config_modify config section_no address value mode =
     (if section_no \<ge> 8 \<or> mode > 2 then Inl LIBUSB_ERROR_INVALID_PARAM
      else
        let start = unat (config ! (1 + section_no * 2));
            n = unat (config ! (2 + section_no * 2))
        in if start + n > GX5125_CONFIG_SIZE - 2 \<or> n mod 4 \<noteq> 0 then Inl LIBUSB_ERROR_IO
           else
             case find (\<lambda>off. gx_read_le16 config off = address) (entry_offsets start n) of
               None \<Rightarrow> Inl LIBUSB_ERROR_NOT_FOUND
             | Some off \<Rightarrow>
                 Inr (gx_write_le16 config (off + 2)
                        (merge_mode mode (gx_read_le16 config (off + 2)) value)))"

definition sum_words :: "u8 list \<Rightarrow> nat \<Rightarrow> u16" where
  "sum_words config n = foldl (\<lambda>sum i. sum + gx_read_le16 config (i * 2)) 0xa5a5 [0..<n]"

definition gx_config_update_checksum :: "u8 list \<Rightarrow> u8 list" where
  "gx_config_update_checksum config =
     gx_write_le16 config 0xde (0 - sum_words config 0x6f)"

definition gx_config_verify_checksum :: "u8 list \<Rightarrow> usb_error + unit" where
  "gx_config_verify_checksum config =
     (if sum_words config 0x70 = 0 then Inr () else Inl LIBUSB_ERROR_IO)"

definition gx_config_prepare :: "gx_otp_info \<Rightarrow> usb_error + u8 list" where
  "gx_config_prepare info =
     (if \<not> dac_valid info then Inl LIBUSB_ERROR_INVALID_PARAM
      else
        bind_result (gx_config_modify gx5125_chicagohu_config_template 0 0x0220
                       (push_bit 4 (dac info ! 0) OR 0x0008) 0) (\<lambda>c1.
        bind_result (gx_config_modify c1 0 0x0236 (dac info ! 1) 0) (\<lambda>c2.
        bind_result (gx_config_modify c2 0 0x0238 (dac info ! 2) 0) (\<lambda>c3.
        bind_result (gx_config_modify c3 0 0x023a (dac info ! 3) 0) (\<lambda>c4.
        bind_result (gx_config_modify c4 0 0x005c (tcode info) 0) (\<lambda>c5.
        bind_result (gx_config_modify c5 2 0x0082 (push_bit 8 (ucast (fdt_delta info))) 2) (\<lambda>c6.
        bind_result (if fdt_offset info \<noteq> 0
                     then gx_config_modify c6 2 0x0056 (ucast (fdt_offset info) + 4) 1
                     else Inr c6) (\<lambda>c7.
          let sealed = gx_config_update_checksum c7
          in bind_result (gx_config_verify_checksum sealed) (\<lambda>_. Inr sealed)))))))))"

section \<open>The image frame\<close>

text \<open>Four 12-bit pixels from six bytes.\<close>

definition unpack_group :: "u8 list \<Rightarrow> u16 list" where
  "unpack_group b =
     [push_bit 8 (ucast (b ! 0 AND 0x0f)) OR ucast (b ! 1),
      push_bit 4 (ucast (b ! 3)) OR ucast (drop_bit 4 (b ! 0)),
      push_bit 8 (ucast (b ! 5 AND 0x0f)) OR ucast (b ! 2),
      push_bit 4 (ucast (b ! 4)) OR ucast (drop_bit 4 (b ! 5))]"

definition unpack_frame :: "u8 list \<Rightarrow> u16 list" where
  "unpack_frame raw =
     concat (map (\<lambda>k. unpack_group (take 6 (drop (6 * k) raw)))
               [0..<GX5125_IMAGE_PACKED_SIZE div 6])"

definition pixel_position :: "nat \<Rightarrow> nat" where
  "pixel_position index = (index mod 64) * 80 + index div 64"

definition place_pixels :: "u16 list \<Rightarrow> u16 list \<Rightarrow> u16 list" where
  "place_pixels unpacked pixels =
     foldl (\<lambda>px index. px[pixel_position index := unpacked ! index]) pixels
       [0..<GX5125_IMAGE_PIXELS]"

definition stored_crc :: "u8 list \<Rightarrow> u32" where
  "stored_crc raw =
     push_bit 24 (ucast (raw ! (GX5125_IMAGE_PACKED_SIZE + 2)))
     OR push_bit 16 (ucast (raw ! (GX5125_IMAGE_PACKED_SIZE + 3)))
     OR push_bit 8 (ucast (raw ! GX5125_IMAGE_PACKED_SIZE))
     OR ucast (raw ! (GX5125_IMAGE_PACKED_SIZE + 1))"

text \<open>
  The result, the pixel buffer, \<open>crc_ok\<close>, the calculated and the stored CRC; the last three are
  written even when the decode fails.
\<close>

definition gx_chicagohu_decode ::
    "u8 list \<Rightarrow> u16 list \<Rightarrow> (usb_error + u16 list) \<times> bool \<times> u32 \<times> u32" where
  "gx_chicagohu_decode raw_frame pixels =
     (let calculated = gx_crc32_mpeg2 (Buf (take GX5125_IMAGE_PACKED_SIZE raw_frame));
          stored = stored_crc raw_frame;
          crc_ok = (calculated = stored)
      in if \<not> crc_ok then (Inl LIBUSB_ERROR_IO, crc_ok, calculated, stored)
         else
           let unpacked = unpack_frame raw_frame
           in if length unpacked \<noteq> GX5125_IMAGE_PIXELS
              then (Inl LIBUSB_ERROR_IO, crc_ok, calculated, stored)
              else (Inr (place_pixels unpacked pixels), crc_ok, calculated, stored))"

record gx_image_stats =
  st_minimum :: u16
  st_maximum :: u16
  st_sum :: u64

definition image_stats_step :: "gx_image_stats \<Rightarrow> u16 \<Rightarrow> gx_image_stats" where
  "image_stats_step st value =
     (let st1 = (if value < st_minimum st then st\<lparr>st_minimum := value\<rparr> else st);
          st2 = (if value > st_maximum st1 then st1\<lparr>st_maximum := value\<rparr> else st1)
      in st2\<lparr>st_sum := st_sum st2 + ucast value\<rparr>)"

definition gx_image_calculate_stats :: "u16 list \<Rightarrow> gx_image_stats" where
  "gx_image_calculate_stats pixels =
     foldl image_stats_step \<lparr>st_minimum = 0xffff, st_maximum = 0, st_sum = 0\<rparr> pixels"

text \<open>The wire order of a frame's CRC, from \<open>store_crc_wire\<close> of \<open>src/gx_device.c\<close>.\<close>

definition store_crc_wire :: "u32 \<Rightarrow> u8 list" where
  "store_crc_wire crc =
     [ucast (drop_bit 8 crc), ucast crc, ucast (drop_bit 24 crc), ucast (drop_bit 16 crc)]"

section \<open>Checksums\<close>

text \<open>The bitwise CRC-8 with the polynomial \<open>x^8 + x^2 + x + 1\<close>, most significant bit first.\<close>

definition crc8_bit :: "u8 \<Rightarrow> u8" where
  "crc8_bit crc = (if crc AND 0x80 \<noteq> 0 then push_bit 1 crc XOR 0x07 else push_bit 1 crc)"

definition crc8_bitwise :: "u8 list \<Rightarrow> u8" where
  "crc8_bitwise data = NOT (foldl (\<lambda>state b. (crc8_bit ^^ 8) (state XOR b)) 0 data)"

lemma crc8_bits_unrolled: "(crc8_bit ^^ 8) x =
    crc8_bit (crc8_bit (crc8_bit (crc8_bit (crc8_bit (crc8_bit (crc8_bit (crc8_bit x)))))))"
  by (simp add: numeral_eq_Suc)

lemma upt256: "[0..<256] = [0, 1, 2, 3, 4, 5, 6, 7, 8, 9, 10, 11, 12, 13, 14, 15,
   16, 17, 18, 19, 20, 21, 22, 23, 24, 25, 26, 27, 28, 29, 30, 31,
   32, 33, 34, 35, 36, 37, 38, 39, 40, 41, 42, 43, 44, 45, 46, 47,
   48, 49, 50, 51, 52, 53, 54, 55, 56, 57, 58, 59, 60, 61, 62, 63,
   64, 65, 66, 67, 68, 69, 70, 71, 72, 73, 74, 75, 76, 77, 78, 79,
   80, 81, 82, 83, 84, 85, 86, 87, 88, 89, 90, 91, 92, 93, 94, 95,
   96, 97, 98, 99, 100, 101, 102, 103, 104, 105, 106, 107, 108, 109, 110, 111,
   112, 113, 114, 115, 116, 117, 118, 119, 120, 121, 122, 123, 124, 125, 126, 127,
   128, 129, 130, 131, 132, 133, 134, 135, 136, 137, 138, 139, 140, 141, 142, 143,
   144, 145, 146, 147, 148, 149, 150, 151, 152, 153, 154, 155, 156, 157, 158, 159,
   160, 161, 162, 163, 164, 165, 166, 167, 168, 169, 170, 171, 172, 173, 174, 175,
   176, 177, 178, 179, 180, 181, 182, 183, 184, 185, 186, 187, 188, 189, 190, 191,
   192, 193, 194, 195, 196, 197, 198, 199, 200, 201, 202, 203, 204, 205, 206, 207,
   208, 209, 210, 211, 212, 213, 214, 215, 216, 217, 218, 219, 220, 221, 222, 223,
   224, 225, 226, 227, 228, 229, 230, 231, 232, 233, 234, 235, 236, 237, 238, 239,
   240, 241, 242, 243, 244, 245, 246, 247, 248, 249, 250, 251, 252, 253, 254, 255]"
  by code_simp

lemma crc8_table_eq: "gx5125_goodix_crc8_table = map (\<lambda>i. (crc8_bit ^^ 8) (of_nat i)) [0..<256]"
  by (simp only: upt256 list.map gx5125_goodix_crc8_table_def)
    (simp add: crc8_bits_unrolled crc8_bit_def)

lemma crc8_step_bitwise: "crc8_step = (\<lambda>state b. (crc8_bit ^^ 8) (state XOR b))"
proof (intro ext)
  fix state b :: u8
  have "unat (state XOR b) < 256" by (rule unat_u8_less)
  then show "crc8_step state b = (crc8_bit ^^ 8) (state XOR b)"
    unfolding crc8_step_def crc8_table_eq by simp
qed

text \<open>
  The table-driven CRC-8 is the polynomial division it stands for: on every byte string the
  256-entry lookup table gives the same checksum as the bit-by-bit division by
  \<open>x^8 + x^2 + x + 1\<close> with the final complement.
\<close>

theorem crc8_table_is_polynomial_division:
  "gx_goodix_crc8 (Buf data) = crc8_bitwise data"
  by (simp add: gx_goodix_crc8_def crc8_bitwise_def crc8_step_bitwise)

text \<open>Shifting without feedback: as long as the top bits are zero a CRC-32 step is a shift.\<close>

lemma crc32_bit_shift: "\<not> bit y 31 \<Longrightarrow> crc32_bit y = push_bit 1 y"
proof -
  assume "\<not> bit y 31"
  moreover have "(0x80000000 :: u32) = 2 ^ 31" by simp
  ultimately have "y AND 0x80000000 = 0"
    by (simp only: and_exp_eq_0_iff_not_bit not_False_eq_True)
  then show ?thesis by (simp add: crc32_bit_def)
qed

lemma crc32_bits_shift:
  "k \<le> 32 \<Longrightarrow> (\<forall>i < k. \<not> bit (y :: u32) (31 - i)) \<Longrightarrow> (crc32_bit ^^ k) y = push_bit k y"
proof (induction k)
  case (Suc k)
  then have IH: "(crc32_bit ^^ k) y = push_bit k y" by simp
  have "\<not> bit (push_bit k y) 31"
    using Suc.prems by (auto simp: bit_simps)
  then have "crc32_bit (push_bit k y) = push_bit 1 (push_bit k y)" by (rule crc32_bit_shift)
  with IH show ?case by (simp add: push_bit_push_bit del: push_bit_Suc)
qed simp

lemma crc32_byte_own_top:
  "crc32_byte s (ucast (drop_bit 24 s)) = push_bit 8 s"
proof -
  let ?y = "s XOR push_bit 24 (ucast (ucast (drop_bit 24 s) :: u8))"
  have b: "bit ?y n \<longleftrightarrow> bit s n \<and> n < 24" for n
    by (auto simp: bit_simps dest: bit_imp_le_length)
  have "(crc32_bit ^^ 8) ?y = push_bit 8 ?y"
    by (rule crc32_bits_shift) (auto simp: b)
  also have "\<dots> = push_bit 8 s"
    by (rule bit_word_eqI) (auto simp: bit_simps b)
  finally show ?thesis by (simp add: crc32_byte_def)
qed

definition be32 :: "u32 \<Rightarrow> u8 list" where
  "be32 v = [ucast (drop_bit 24 v), ucast (drop_bit 16 v), ucast (drop_bit 8 v), ucast v]"

lemma foldl_crc32_own: "foldl crc32_byte s (be32 s) = 0"
proof -
  have t: "ucast (drop_bit 16 s) = (ucast (drop_bit 24 (push_bit 8 s)) :: u8)"
    "ucast (drop_bit 8 s) = (ucast (drop_bit 24 (push_bit 16 s)) :: u8)"
    "ucast s = (ucast (drop_bit 24 (push_bit 24 s)) :: u8)"
    by (rule bit_word_eqI, auto simp: bit_simps)+
  have "push_bit 32 s = 0" by (rule bit_word_eqI) (auto simp: bit_simps)
  then show ?thesis
    by (simp add: be32_def t crc32_byte_own_top push_bit_push_bit)
qed

text \<open>
  The CRC-32 residue. Appending a message's CRC in big-endian order gives a string whose CRC
  is zero, so a receiver may check a whole frame in one pass; the decoder's comparison of the
  calculated with the stored value is equivalent to that test.
\<close>

theorem crc32_residue_zero:
  "gx_crc32_mpeg2 (Buf (data @ be32 (gx_crc32_mpeg2 (Buf data)))) = 0"
  by (simp add: gx_crc32_mpeg2_def foldl_crc32_own)

section \<open>The image frame: encoder and round trip\<close>

text \<open>The inverse of \<open>unpack_group\<close> on pixels below 4096.\<close>

definition pack_group :: "u16 list \<Rightarrow> u8 list" where
  "pack_group p =
     [ucast (drop_bit 8 (p ! 0)) OR push_bit 4 (ucast (p ! 1)),
      ucast (p ! 0), ucast (p ! 2), ucast (drop_bit 4 (p ! 1)), ucast (drop_bit 4 (p ! 3)),
      ucast (drop_bit 8 (p ! 2)) OR push_bit 4 (ucast (p ! 3))]"

definition wire_order :: "u16 list \<Rightarrow> u16 list" where
  "wire_order pixels = map (\<lambda>i. pixels ! pixel_position i) [0..<GX5125_IMAGE_PIXELS]"

definition packed_image :: "u16 list \<Rightarrow> u8 list" where
  "packed_image pixels =
     concat (map (\<lambda>k. pack_group (take 4 (drop (4 * k) (wire_order pixels)))) [0..<1280])"

definition image_frame :: "u16 list \<Rightarrow> u8 list" where
  "image_frame pixels =
     packed_image pixels @ store_crc_wire (gx_crc32_mpeg2 (Buf (packed_image pixels)))"

lemma unat_4096_bit: "unat (x :: u16) < 4096 \<Longrightarrow> bit x n \<Longrightarrow> n < 12"
proof -
  assume "unat x < 4096" and b: "bit x n"
  then have "unat (take_bit 12 x) = unat x"
    by (simp add: unsigned_take_bit_eq take_bit_nat_eq_self)
  then have "take_bit 12 x = x" by (rule unsigned_word_eqI)
  with b show ?thesis by (metis bit_take_bit_iff)
qed

lemma mask4_u8: "(0x0f :: u8) = mask 4"
  by (simp add: mask_eq_exp_minus_1)

lemma unpack_pack_pair:
  assumes "unat (p :: u16) < 4096" and "unat (q :: u16) < 4096"
  defines "b \<equiv> (ucast (drop_bit 8 p) OR push_bit 4 (ucast q) :: u8)"
  shows "push_bit 8 (ucast (b AND 0x0f)) OR ucast (ucast p :: u8) = p"
    and "push_bit 4 (ucast (ucast (drop_bit 4 q) :: u8)) OR ucast (drop_bit 4 b) = q"
  unfolding b_def mask4_u8
  by (rule bit_word_eqI, use assms(1,2) in \<open>auto simp: bit_simps dest: unat_4096_bit\<close>)+

lemma unpack_pack_group:
  assumes "length p = 4" and "\<forall>x \<in> set p. unat x < 4096"
  shows "unpack_group (pack_group p) = p"
proof -
  obtain a b c d where p: "p = [a, b, c, d]"
    using assms(1) by (auto simp: numeral_eq_Suc length_Suc_conv)
  show ?thesis
    using assms(2) unpack_pack_pair [of a b] unpack_pack_pair [of c d]
    by (simp add: p unpack_group_def pack_group_def)
qed

lemma length_concat_blocks:
  "(\<And>k. k < n \<Longrightarrow> length (g k) = m) \<Longrightarrow> length (concat (map g [0..<n])) = m * n"
  by (induction n) simp_all

lemma concat_block:
  assumes "\<And>k. k < n \<Longrightarrow> length (g k) = m" and "k < n"
  shows "take m (drop (m * k) (concat (map g [0..<n]) @ r)) = g k"
  using assms
proof (induction n arbitrary: r)
  case (Suc n)
  have len: "length (concat (map g [0..<n])) = m * n"
    by (rule length_concat_blocks) (simp add: Suc.prems)
  show ?case
  proof (cases "k < n")
    case True
    with Suc.IH [of "g n @ r"] Suc.prems show ?thesis by simp
  next
    case False
    with Suc.prems(2) have "k = n" by simp
    with len Suc.prems(1) [of n] show ?thesis by simp
  qed
qed simp

lemma concat_slices: "concat (map (\<lambda>k. take m (drop (m * k) xs)) [0..<n]) = take (m * n) xs"
  by (induction n) (simp_all add: add.commute [of m] flip: take_add)

lemma length_wire_order [simp]: "length (wire_order pixels) = 5120"
  by (simp add: wire_order_def sensor_consts)

lemma length_pack_group [simp]: "length (pack_group p) = 6"
  by (simp add: pack_group_def)

lemma length_packed_image [simp]: "length (packed_image pixels) = 7680"
  unfolding packed_image_def by (subst length_concat_blocks [of _ _ 6]) simp_all

lemma pixel_position_less: "i < 5120 \<Longrightarrow> pixel_position i < 5120"
  unfolding pixel_position_def by linarith

lemma unpack_packed_image:
  assumes "length pixels = 5120" and "\<forall>x \<in> set pixels. unat x < 4096"
  shows "unpack_frame (packed_image pixels @ r) = wire_order pixels"
proof -
  let ?w = "wire_order pixels"
  have small: "unat x < 4096" if "x \<in> set ?w" for x
    using that assms pixel_position_less
    by (auto simp: wire_order_def sensor_consts)
  have blk: "take 6 (drop (6 * k) (packed_image pixels @ r)) = pack_group (take 4 (drop (4 * k) ?w))"
    if "k \<in> set [0..<1280]" for k
    unfolding packed_image_def by (rule concat_block) (use that in simp_all)
  have "unpack_frame (packed_image pixels @ r) =
      concat (map (\<lambda>k. unpack_group (pack_group (take 4 (drop (4 * k) ?w)))) [0..<1280])"
    unfolding unpack_frame_def
    by (intro arg_cong [of _ _ concat] map_cong arg_cong [of _ _ unpack_group] blk)
      (simp_all add: sensor_consts)
  also have "\<dots> = concat (map (\<lambda>k. take 4 (drop (4 * k) ?w)) [0..<1280])"
  proof (intro arg_cong [of _ _ concat] map_cong refl)
    fix k :: nat
    assume "k \<in> set [0..<1280]"
    then have "length (take 4 (drop (4 * k) ?w)) = 4" by simp
    moreover have "\<forall>x \<in> set (take 4 (drop (4 * k) ?w)). unat x < 4096"
      using small by (meson in_set_dropD in_set_takeD)
    ultimately show "unpack_group (pack_group (take 4 (drop (4 * k) ?w))) = take 4 (drop (4 * k) ?w)"
      by (rule unpack_pack_group)
  qed
  also have "\<dots> = ?w" by (simp add: concat_slices)
  finally show ?thesis .
qed

text \<open>The scatter loop writes every cell once, through an injective position map.\<close>

lemma foldl_update_length: "length (foldl (\<lambda>x i. x[f i := g i]) xs is) = length xs"
  by (induction "is" arbitrary: xs) simp_all

lemma foldl_update_other:
  "m \<notin> f ` set is \<Longrightarrow> foldl (\<lambda>x i. x[f i := g i]) xs is ! m = xs ! m"
  by (induction "is" arbitrary: xs) auto

lemma foldl_update_nth:
  "distinct is \<Longrightarrow> inj_on f (set is) \<Longrightarrow> j \<in> set is \<Longrightarrow> f j < length xs \<Longrightarrow>
   foldl (\<lambda>x i. x[f i := g i]) xs is ! f j = g j"
proof (induction "is" arbitrary: xs)
  case (Cons i "is")
  show ?case
  proof (cases "j = i")
    case True
    with Cons.prems have "f j \<notin> f ` set is" by (auto simp: inj_on_def)
    with True Cons.prems show ?thesis by (simp add: foldl_update_other)
  next
    case False
    with Cons show ?thesis by (auto simp: inj_on_def)
  qed
qed simp

lemma inj_pixel_position: "inj_on pixel_position {0..<5120}"
proof (rule inj_onI)
  fix i j
  assume ij: "i \<in> {0..<5120}" "j \<in> {0..<5120}" "pixel_position i = pixel_position j"
  have "i div 64 < 80" "j div 64 < 80" using ij(1,2) by auto
  moreover have "i mod 64 * 80 + i div 64 = j mod 64 * 80 + j div 64"
    using ij(3) by (simp add: pixel_position_def)
  ultimately have m: "i mod 64 = j mod 64" by linarith
  with ij(3) have "i div 64 = j div 64" by (simp add: pixel_position_def)
  with m show "i = j" by (metis div_mult_mod_eq)
qed

lemma pixel_position_surj:
  assumes "m < 5120"
  shows "\<exists>i < 5120. pixel_position i = m"
proof (intro exI conjI)
  let ?i = "(m mod 80) * 64 + m div 80"
  have "m div 80 < 64" using assms by auto
  then have "?i div 64 = m mod 80" "?i mod 64 = m div 80" by auto
  then show "pixel_position ?i = m" by (simp add: pixel_position_def)
  show "?i < 5120" using \<open>m div 80 < 64\<close> mod_less_divisor [of 80 m] by linarith
qed

lemma place_pixels_nth:
  "length px = 5120 \<Longrightarrow> i < 5120 \<Longrightarrow> place_pixels u px ! pixel_position i = u ! i"
  unfolding place_pixels_def sensor_consts
  by (rule foldl_update_nth) (use inj_pixel_position in \<open>simp_all add: pixel_position_less\<close>)

lemma length_place_pixels [simp]: "length (place_pixels u px) = length px"
  by (simp add: place_pixels_def foldl_update_length)

lemma place_wire_order:
  assumes "length pixels = 5120" and "length buffer = 5120"
  shows "place_pixels (wire_order pixels) buffer = pixels"
proof (rule nth_equalityI)
  fix m
  assume "m < length (place_pixels (wire_order pixels) buffer)"
  then obtain i where "i < 5120" "pixel_position i = m"
    using assms pixel_position_surj [of m] by auto
  with place_pixels_nth [OF assms(2), of i "wire_order pixels"]
  show "place_pixels (wire_order pixels) buffer ! m = pixels ! m"
    by (simp add: wire_order_def sensor_consts)
qed (simp add: assms)

lemma store_crc_wire_length [simp]: "length (store_crc_wire c) = 4"
  by (simp add: store_crc_wire_def)

lemma stored_crc_wire:
  "length p = 7680 \<Longrightarrow> stored_crc (p @ store_crc_wire c) = c"
proof -
  assume "length p = 7680"
  then have "stored_crc (p @ store_crc_wire c) =
      push_bit 24 (ucast (ucast (drop_bit 24 c) :: u8)) OR push_bit 16 (ucast (ucast (drop_bit 16 c) :: u8))
        OR push_bit 8 (ucast (ucast (drop_bit 8 c) :: u8)) OR ucast (ucast c :: u8)"
    by (simp add: stored_crc_def store_crc_wire_def sensor_consts nth_append)
  also have "\<dots> = le32 (ucast c) (ucast (drop_bit 8 c)) (ucast (drop_bit 16 c)) (ucast (drop_bit 24 c))"
    by (simp add: le32_def or.assoc or.commute or.left_commute)
  finally show ?thesis by simp
qed

lemma decode_image_frame:
  assumes "length pixels = GX5125_IMAGE_PIXELS" and "\<forall>x \<in> set pixels. unat x < 4096"
    and "length buffer = GX5125_IMAGE_PIXELS"
  shows "gx_chicagohu_decode (image_frame pixels) buffer
     = (Inr pixels, True, gx_crc32_mpeg2 (Buf (packed_image pixels)), gx_crc32_mpeg2 (Buf (packed_image pixels)))"
proof -
  have n: "length pixels = 5120" "length buffer = 5120"
    using assms(1,3) by (simp_all add: sensor_consts)
  show ?thesis
    using unpack_packed_image [OF n(1) assms(2)] place_wire_order [OF n] stored_crc_wire
    by (simp add: gx_chicagohu_decode_def image_frame_def sensor_consts Let_def)
qed

text \<open>
  C9: image round trip. For every 64 by 80 image with 12-bit pixels, \<open>gx_chicagohu_decode\<close> of
  the packed frame (six bytes per four pixels, column order, wire-order CRC) returns exactly the
  image, whatever was in the pixel buffer, and reports a good CRC.
\<close>

theorem image_round_trip:
  assumes "length pixels = GX5125_IMAGE_PIXELS" and "\<forall>x \<in> set pixels. unat x < 4096"
    and "length buffer = GX5125_IMAGE_PIXELS"
  defines "crc \<equiv> gx_crc32_mpeg2 (Buf (packed_image pixels))"
  shows "gx_chicagohu_decode (image_frame pixels) buffer = (Inr pixels, True, crc, crc)"
  unfolding crc_def by (rule decode_image_frame [OF assms(1-3)])

theorem image_round_trip_witness:
  "gx_chicagohu_decode (image_frame (replicate GX5125_IMAGE_PIXELS 0xabc)) (replicate GX5125_IMAGE_PIXELS 0)
   = (Inr (replicate GX5125_IMAGE_PIXELS 0xabc), True,
      gx_crc32_mpeg2 (Buf (packed_image (replicate GX5125_IMAGE_PIXELS 0xabc))),
      gx_crc32_mpeg2 (Buf (packed_image (replicate GX5125_IMAGE_PIXELS 0xabc))))"
  by (rule image_round_trip) simp_all

text \<open>
  The decoder never delivers an unchecked frame. When the CRC of the packed bytes equals the
  stored one the decode succeeds and pixel \<open>index\<close> of the stream is at row \<open>index mod 64\<close>, column
  \<open>index div 64\<close> of the 64 by 80 buffer; otherwise the result is an I/O error and no buffer.
\<close>

theorem decode_succeeds_iff_crc:
  assumes "length raw = GX5125_IMAGE_RAW_FRAME_SIZE" and "length buffer = GX5125_IMAGE_PIXELS"
  shows "if gx_crc32_mpeg2 (Buf (take GX5125_IMAGE_PACKED_SIZE raw)) = stored_crc raw
         then \<exists>px. fst (gx_chicagohu_decode raw buffer) = Inr px \<and> length px = GX5125_IMAGE_PIXELS
                \<and> (\<forall>i < GX5125_IMAGE_PIXELS. px ! ((i mod 64) * 80 + i div 64) = unpack_frame raw ! i)
         else fst (gx_chicagohu_decode raw buffer) = Inl LIBUSB_ERROR_IO"
proof -
  have "length (unpack_frame raw) = 4 * 1280"
    unfolding unpack_frame_def sensor_consts
    by (subst length_concat_blocks [of _ _ 4]) (simp_all add: unpack_group_def)
  then have u: "length (unpack_frame raw) = 5120" by simp
  show ?thesis
    using u assms(2) place_pixels_nth [of buffer _ "unpack_frame raw"]
    by (simp add: gx_chicagohu_decode_def Let_def sensor_consts pixel_position_def)
qed

theorem decode_succeeds_iff_crc_witness:
  "\<exists>px. fst (gx_chicagohu_decode (image_frame (replicate GX5125_IMAGE_PIXELS 0xabc))
            (replicate GX5125_IMAGE_PIXELS 0)) = Inr px \<and> length px = GX5125_IMAGE_PIXELS
     \<and> (\<forall>i < GX5125_IMAGE_PIXELS. px ! ((i mod 64) * 80 + i div 64)
          = unpack_frame (image_frame (replicate GX5125_IMAGE_PIXELS 0xabc)) ! i)"
  using decode_succeeds_iff_crc
    [of "image_frame (replicate GX5125_IMAGE_PIXELS 0xabc)" "replicate GX5125_IMAGE_PIXELS 0"]
    stored_crc_wire [of "packed_image (replicate GX5125_IMAGE_PIXELS 0xabc)"]
  by (simp add: image_frame_def sensor_consts)

lemma unat_ucast_u16 [simp]: "unat (ucast (a :: u8) :: u16) = unat a"
proof -
  have "take_bit 16 (unat a) = unat a"
    by (rule take_bit_nat_eq_self, rule less_le_trans [OF unat_u8_less]) simp
  then show ?thesis by (simp add: unsigned_ucast_eq)
qed

section \<open>The OTP block: what a successful parse promises\<close>

definition copy_agreement :: "u8 list \<Rightarrow> u8 list \<Rightarrow> nat" where
  "copy_agreement mt ft = length (filter (\<lambda>i. mt ! i = ft ! i \<and> ft ! i \<noteq> 0) [0..<4])"

definition dac_recoverable :: "u8 list \<Rightarrow> bool" where
  "dac_recoverable otp \<longleftrightarrow>
     (let mt = take 4 (drop 0x2e otp); ft = take 4 (drop 0x32 otp)
      in gx_otp_domain_crc otp ft_ranges (otp ! 0x3d)
         \<or> gx_nonzero4 ft \<and> gx_goodix_crc8 (Buf ft) = otp ! 0x3e
         \<or> gx_otp_domain_crc otp mt_ranges (otp ! 0x3f)
         \<or> gx_nonzero4 mt \<and> gx_goodix_crc8 (Buf mt) = otp ! 0x16
         \<or> copy_agreement mt ft \<ge> 3)"

definition otp_info_ok :: "gx_otp_info \<Rightarrow> bool" where
  "otp_info_ok info \<longleftrightarrow>
     dac_valid info \<and> length (dac info) = 4 \<and> (\<forall>d \<in> set (dac info). unat d < 256)
     \<and> 0x50 \<le> unat (tcode info) \<and> unat (tcode info) \<le> 0x140 \<and> unat (fdt_offset info) \<le> 3"

lemma upt4: "[0..<4] = [0, 1, 2, 3]"
  by (simp add: upt_rec)

lemma nat_less_4: "(i :: nat) < 4 \<longleftrightarrow> i = 0 \<or> i = 1 \<or> i = 2 \<or> i = 3"
  by auto

lemma repair_dac_bounds: "length (repair_dac mt ft) = 4 \<and> (\<forall>d \<in> set (repair_dac mt ft). unat d < 256)"
proof -
  have avg: "unat (of_nat ((unat a + unat b + unat c) div 3) :: u16) < 256" for a b c :: u8
    using unat_u8_less [of a] unat_u8_less [of b] unat_u8_less [of c]
    by (subst unat_of_nat_u16) linarith+
  have cast: "unat (ucast a :: u16) < 256" for a :: u8
    using unat_u8_less [of a] by (simp only: unat_ucast_u16)
  show ?thesis
    by (simp add: repair_dac_def upt4 avg cast del: upt_rec_numeral unat_of_nat)
qed

lemma select_dac_bounds:
  assumes "gx_select_dac otp f m = Some v" and "length otp = 64"
  shows "length v = 4 \<and> (\<forall>d \<in> set v. unat d < 256)"
proof -
  have cast: "unat (ucast a :: u16) < 256" for a :: u8
    using unat_u8_less [of a] by (simp only: unat_ucast_u16)
  show ?thesis
    using assms repair_dac_bounds cast
    by (auto simp: gx_select_dac_def Let_def simp del: upt_rec_numeral split: if_splits)
qed

lemma select_dac_None:
  "gx_select_dac otp f m = None \<longleftrightarrow>
   \<not> (f \<or> gx_nonzero4 (take 4 (drop 0x32 otp)) \<and> gx_goodix_crc8 (Buf (take 4 (drop 0x32 otp))) = otp ! 0x3e
      \<or> m \<or> gx_nonzero4 (take 4 (drop 0x2e otp)) \<and> gx_goodix_crc8 (Buf (take 4 (drop 0x2e otp))) = otp ! 0x16
      \<or> copy_agreement (take 4 (drop 0x2e otp)) (take 4 (drop 0x32 otp)) \<ge> 3)"
  unfolding gx_select_dac_def copy_agreement_def Let_def
  by (auto simp del: upt_rec_numeral)

lemma tcode_bounds: "0x50 \<le> unat (tcode_of_source s) \<and> unat (tcode_of_source s) \<le> 0x140"
proof -
  have "unat (drop_bit 4 s) = unat s div 16"
    by (simp add: unsigned_drop_bit_eq drop_bit_eq_div take_bit_nat_eq_self flip: drop_bit_eq_div)
      (simp add: drop_bit_eq_div take_bit_eq_mod)
  with unat_u8_less [of s] have "unat (drop_bit 4 s) < 16" by linarith
  then show ?thesis
    unfolding tcode_of_source_def by (subst (1 2) unat_of_nat_u16) auto
qed

lemma and3_le: "unat ((x :: u8) AND 0x03) \<le> 3"
proof -
  have "(0x03 :: u8) = mask 2" by (simp add: mask_eq_exp_minus_1)
  then have "x AND 0x03 = take_bit 2 x" by (simp only: take_bit_eq_mask)
  moreover have "unat (take_bit 2 x) = take_bit 2 (unat x)" by (rule unsigned_take_bit_eq)
  moreover have "take_bit 2 (unat x) < 4" by (simp add: take_bit_eq_mod)
  ultimately show ?thesis by simp
qed

lemma fdt_offset_le: "unat (gx_select_fdt_offset b) \<le> 3"
  by (simp add: gx_select_fdt_offset_def Let_def and3_le del: not_less)

text \<open>
  The OTP parser. It succeeds exactly when the DAC values can be trusted (a domain CRC or
  a four-byte CRC holds, or three of the four bytes of the two copies agree and are non-zero),
  and then the result is well formed: four byte-sized DAC values, a TCODE between \<open>0x50\<close> and
  \<open>0x140\<close>, an FDT offset of at most 3. On failure the status is an I/O error and the info
  structure is marked invalid.
\<close>

theorem otp_parse_total:
  assumes "length otp = GX5125_OTP_SIZE"
  shows "if dac_recoverable otp
         then fst (gx_otp_parse otp) = Inr () \<and> otp_info_ok (snd (gx_otp_parse otp))
         else fst (gx_otp_parse otp) = Inl LIBUSB_ERROR_IO \<and> \<not> dac_valid (snd (gx_otp_parse otp))"
proof (cases "gx_select_dac otp (gx_otp_domain_crc otp ft_ranges (otp ! 0x3d))
    (gx_otp_domain_crc otp mt_ranges (otp ! 0x3f))")
  case None
  then have "\<not> dac_recoverable otp"
    by (simp only: select_dac_None dac_recoverable_def Let_def simp_thms)
  with None show ?thesis by (simp add: gx_otp_parse_def Let_def zero_otp_info_def)
next
  case (Some v)
  then have "dac_recoverable otp"
    using select_dac_None [of otp "gx_otp_domain_crc otp ft_ranges (otp ! 0x3d)"
      "gx_otp_domain_crc otp mt_ranges (otp ! 0x3f)"]
    by (simp only: dac_recoverable_def Let_def option.distinct simp_thms)
  with Some show ?thesis
    using select_dac_bounds [OF Some] assms tcode_bounds fdt_offset_le
    by (simp add: gx_otp_parse_def Let_def otp_info_ok_def sensor_consts)
qed

definition sample_otp :: "u8 list" where
  "sample_otp = [0, 0, 0, 0, 0, 0, 0, 0, 0, 0, 0, 0, 0, 0, 0, 0,
     0, 0, 0, 0, 0, 0, 0, 0, 0, 0, 0, 0x19, 0, 0, 0, 0,
     0, 0, 0, 0, 0, 0, 0, 0, 0, 0, 0x35, 0xca, 0, 0, 1, 2,
     3, 4, 1, 2, 3, 4, 0, 0, 0, 0, 0, 0, 0, 0, 0, 0]"

theorem otp_parse_total_witness:
  "fst (gx_otp_parse sample_otp) = Inr () \<and> otp_info_ok (snd (gx_otp_parse sample_otp))"
proof -
  have "copy_agreement (take 4 (drop 0x2e sample_otp)) (take 4 (drop 0x32 sample_otp)) \<ge> 3"
    by (simp add: sample_otp_def copy_agreement_def upt4 del: upt_rec_numeral)
  then have "dac_recoverable sample_otp"
    unfolding dac_recoverable_def Let_def by blast
  moreover have "length sample_otp = GX5125_OTP_SIZE"
    by (simp add: sample_otp_def sensor_consts)
  ultimately show ?thesis
    using otp_parse_total [of sample_otp] by simp
qed

lemma repair_dac_nth:
  "i < 4 \<Longrightarrow> repair_dac mt ft ! i =
     (if mt ! i = ft ! i then ucast (ft ! i)
      else of_nat ((unat (mt ! ((i + 1) mod 4)) + unat (mt ! ((i + 2) mod 4))
                    + unat (mt ! ((i + 3) mod 4))) div 3))"
  by (simp add: repair_dac_def del: upt_rec_numeral)

text \<open>
  One damaged DAC byte is repaired. When the two copies agree in three positions and differ in
  the fourth, \<open>gx_select_dac\<close> without a good CRC keeps the three agreeing bytes, and the
  fourth is their truncated average, so it lies between the smallest and the largest of them.
\<close>

theorem dac_repair_is_average:
  assumes "length mt = 4" and "length ft = 4" and "j < 4" and "mt ! j \<noteq> ft ! j"
    and "\<forall>i < 4. i \<noteq> j \<longrightarrow> mt ! i = ft ! i"
  shows "(\<forall>i < 4. i \<noteq> j \<longrightarrow> unat (repair_dac mt ft ! i) = unat (ft ! i))
     \<and> unat (repair_dac mt ft ! j) = (\<Sum>i \<in> {0..<4} - {j}. unat (ft ! i)) div 3"
proof -
  have avg: "unat (of_nat ((unat a + unat b + unat c) div 3) :: u16) = (unat a + unat b + unat c) div 3"
    for a b c :: u8
    using unat_u8_less [of a] unat_u8_less [of b] unat_u8_less [of c]
    by (subst unat_of_nat_u16) linarith+
  note cast = unat_ucast_u16
  have e: "i < 4 \<Longrightarrow> i \<noteq> j \<Longrightarrow> mt ! i = ft ! i" for i
    using assms(5) by simp
  have set4: "{0..<4} = {0, 1, 2, 3 :: nat}" by auto
  consider "j = 0" | "j = 1" | "j = 2" | "j = 3" using assms(3) by linarith
  then have "unat (repair_dac mt ft ! j) = (\<Sum>i \<in> {0..<4} - {j}. unat (ft ! i)) div 3"
    using assms(4)
    by cases (simp_all add: repair_dac_nth e avg set4 insert_Diff_if flip: numeral_2_eq_2 numeral_3_eq_3)
  then show ?thesis
    by (simp add: repair_dac_nth e cast)
qed

text \<open>A witness: the third bytes differ, and are replaced by the average of 3, 4 and 8.\<close>

theorem dac_repair_is_average_witness:
  "unat (repair_dac [3, 4, 7, 8] [3, 4, 9, 8] ! 0) = 3
     \<and> unat (repair_dac [3, 4, 7, 8] [3, 4, 9, 8] ! 2)
        = (\<Sum>i \<in> {0..<4} - {2}. unat ([3, 4, 9, 8 :: u8] ! i)) div 3"
proof -
  have "(\<forall>i < 4. i \<noteq> 2 \<longrightarrow> unat (repair_dac [3, 4, 7, 8] [3, 4, 9, 8] ! i) = unat ([3, 4, 9, 8 :: u8] ! i))
     \<and> unat (repair_dac [3, 4, 7, 8] [3, 4, 9, 8] ! 2)
        = (\<Sum>i \<in> {0..<4} - {2}. unat ([3, 4, 9, 8 :: u8] ! i)) div 3"
    by (rule dac_repair_is_average) (auto simp: nat_less_4)
  then show ?thesis by (auto simp: nat_less_4)
qed

section \<open>The configuration block: offsets, registers and checksum\<close>

text \<open>
  The value bytes that \<open>gx_config_prepare\<close> may change. Everything else, in particular the section
  table and the address half of every entry, stays as in the template, so the search finds the
  same offsets after every modification.
\<close>

definition value_bytes :: "nat list" where
  "value_bytes = [115, 116, 119, 120, 123, 124, 127, 128, 131, 132, 155, 156, 175, 176, 222, 223]"

definition template_layout :: "u8 list \<Rightarrow> bool" where
  "template_layout c \<longleftrightarrow>
     length c = 224 \<and> (\<forall>i < 224. i \<notin> set value_bytes \<longrightarrow> c ! i = gx5125_chicagohu_config_template ! i)"

text \<open>The value a section holds for an address.\<close>

definition config_entry :: "u8 list \<Rightarrow> nat \<Rightarrow> u16 \<Rightarrow> u16 option" where
  "config_entry config section_no address =
     map_option (\<lambda>off. gx_read_le16 config (off + 2))
       (find (\<lambda>off. gx_read_le16 config off = address)
         (entry_offsets (unat (config ! (1 + section_no * 2))) (unat (config ! (2 + section_no * 2)))))"

lemma read_le16_other:
  "k \<noteq> off \<Longrightarrow> k \<noteq> Suc off \<Longrightarrow> Suc k \<noteq> off \<Longrightarrow> gx_read_le16 (gx_write_le16 c off v) k = gx_read_le16 c k"
  by (simp add: gx_read_le16_def gx_write_le16_def)

lemma read_le16_same:
  "Suc off < length c \<Longrightarrow> gx_read_le16 (gx_write_le16 c off v) off = v"
  by (simp add: gx_read_le16_def gx_write_le16_def)

lemma length_write_le16 [simp]: "length (gx_write_le16 c off v) = length c"
  by (simp add: gx_write_le16_def)

lemma template_layout_write:
  "template_layout c \<Longrightarrow> {off, Suc off} \<subseteq> set value_bytes \<Longrightarrow> template_layout (gx_write_le16 c off v)"
  unfolding template_layout_def gx_write_le16_def by (auto) (metis nth_list_update_neq)

lemma find_cong: "(\<And>x. x \<in> set xs \<Longrightarrow> P x = Q x) \<Longrightarrow> find P xs = find Q xs"
  by (induction xs) auto

definition sec0_offsets :: "nat list" where "sec0_offsets = entry_offsets 17 116"
definition sec2_offsets :: "nat list" where "sec2_offsets = entry_offsets 133 44"

lemma layout_sections:
  assumes "template_layout c"
  shows "unat (c ! 1) = 17" "unat (c ! 2) = 116" "unat (c ! 5) = 133" "unat (c ! 6) = 44"
  using assms by (simp_all add: template_layout_def value_bytes_def gx5125_chicagohu_config_template_def)

lemma layout_find:
  assumes "template_layout c" and "\<forall>off \<in> set offs. off < 223 \<and> off \<notin> set value_bytes \<and> Suc off \<notin> set value_bytes"
  shows "find (\<lambda>off. gx_read_le16 c off = a) offs
       = find (\<lambda>off. gx_read_le16 gx5125_chicagohu_config_template off = a) offs"
  using assms by (intro find_cong) (auto simp: template_layout_def gx_read_le16_def)

text \<open>Where the search stops in the template, for each address the driver writes.\<close>

lemmas find_in_template = sec0_offsets_def sec2_offsets_def entry_offsets_def gx_read_le16_def
  gx5125_chicagohu_config_template_def le16_def upt_rec

lemma template_offsets:
  "find (\<lambda>off. gx_read_le16 gx5125_chicagohu_config_template off = 0x0220) sec0_offsets = Some 117"
  "find (\<lambda>off. gx_read_le16 gx5125_chicagohu_config_template off = 0x0236) sec0_offsets = Some 121"
  "find (\<lambda>off. gx_read_le16 gx5125_chicagohu_config_template off = 0x0238) sec0_offsets = Some 125"
  "find (\<lambda>off. gx_read_le16 gx5125_chicagohu_config_template off = 0x023a) sec0_offsets = Some 129"
  "find (\<lambda>off. gx_read_le16 gx5125_chicagohu_config_template off = 0x005c) sec0_offsets = Some 113"
  "find (\<lambda>off. gx_read_le16 gx5125_chicagohu_config_template off = 0x0082) sec2_offsets = Some 173"
  "find (\<lambda>off. gx_read_le16 gx5125_chicagohu_config_template off = 0x0056) sec2_offsets = Some 153"
  by (simp_all add: find_in_template)

lemma offsets_clear_of_values:
  "\<forall>off \<in> set sec0_offsets. off < 223 \<and> off \<notin> set value_bytes \<and> Suc off \<notin> set value_bytes"
  "\<forall>off \<in> set sec2_offsets. off < 223 \<and> off \<notin> set value_bytes \<and> Suc off \<notin> set value_bytes"
  by (simp_all add: sec0_offsets_def sec2_offsets_def entry_offsets_def value_bytes_def upt_rec)

lemma modify_sec0:
  assumes "template_layout c" and "mode \<le> 2"
    and "find (\<lambda>off. gx_read_le16 gx5125_chicagohu_config_template off = a) sec0_offsets = Some off"
  shows "gx_config_modify c 0 a v mode
       = Inr (gx_write_le16 c (off + 2) (merge_mode mode (gx_read_le16 c (off + 2)) v))"
  using assms layout_sections [OF assms(1)] layout_find [OF assms(1) offsets_clear_of_values(1), of a]
  by (simp add: gx_config_modify_def sec0_offsets_def sensor_consts)

lemma modify_sec2:
  assumes "template_layout c" and "mode \<le> 2"
    and "find (\<lambda>off. gx_read_le16 gx5125_chicagohu_config_template off = a) sec2_offsets = Some off"
  shows "gx_config_modify c 2 a v mode
       = Inr (gx_write_le16 c (off + 2) (merge_mode mode (gx_read_le16 c (off + 2)) v))"
  using assms layout_sections [OF assms(1)] layout_find [OF assms(1) offsets_clear_of_values(2), of a]
  by (simp add: gx_config_modify_def sec2_offsets_def sensor_consts)

lemma config_entry_sec0:
  assumes "template_layout c"
    and "find (\<lambda>off. gx_read_le16 gx5125_chicagohu_config_template off = a) sec0_offsets = Some off"
  shows "config_entry c 0 a = Some (gx_read_le16 c (off + 2))"
  using assms layout_sections [OF assms(1)] layout_find [OF assms(1) offsets_clear_of_values(1), of a]
  by (simp add: config_entry_def sec0_offsets_def)

lemma config_entry_sec2:
  assumes "template_layout c"
    and "find (\<lambda>off. gx_read_le16 gx5125_chicagohu_config_template off = a) sec2_offsets = Some off"
  shows "config_entry c 2 a = Some (gx_read_le16 c (off + 2))"
  using assms layout_sections [OF assms(1)] layout_find [OF assms(1) offsets_clear_of_values(2), of a]
  by (simp add: config_entry_def sec2_offsets_def)

lemma sum_words_write:
  "0xde \<le> off \<Longrightarrow> sum_words (gx_write_le16 c off v) 0x6f = sum_words c 0x6f"
  unfolding sum_words_def
  by (intro foldl_cong refl) (simp add: read_le16_other)

lemma sum_words_last: "sum_words c 0x70 = sum_words c 0x6f + gx_read_le16 c 0xde"
proof -
  have "[0..<0x70] = [0..<0x6f] @ [0x6f :: nat]" by (simp add: upt_Suc_append flip: upt_Suc_append)
  then show ?thesis by (simp add: sum_words_def del: upt_rec_numeral)
qed

lemma checksum_seals:
  "length c = 224 \<Longrightarrow> gx_config_verify_checksum (gx_config_update_checksum c) = Inr ()"
  by (simp add: gx_config_verify_checksum_def gx_config_update_checksum_def sum_words_last
      sum_words_write read_le16_same)

lemma template_layout_template: "template_layout gx5125_chicagohu_config_template"
  by (simp add: template_layout_def)

text \<open>The configuration before the checksum, as a chain of seven register writes.\<close>

definition written_config :: "gx_otp_info \<Rightarrow> u8 list" where
  "written_config info =
     (let c1 = gx_write_le16 gx5125_chicagohu_config_template 119 (push_bit 4 (dac info ! 0) OR 0x0008);
          c2 = gx_write_le16 c1 123 (dac info ! 1);
          c3 = gx_write_le16 c2 127 (dac info ! 2);
          c4 = gx_write_le16 c3 131 (dac info ! 3);
          c5 = gx_write_le16 c4 115 (tcode info);
          c6 = gx_write_le16 c5 175 (merge_mode 2 (gx_read_le16 c5 175) (push_bit 8 (ucast (fdt_delta info))))
      in if fdt_offset info \<noteq> 0
         then gx_write_le16 c6 155 (merge_mode 1 (gx_read_le16 c6 155) (ucast (fdt_offset info) + 4))
         else c6)"

lemmas layout_write = template_layout_write [unfolded value_bytes_def]

lemma written_config_layout: "template_layout (written_config info)"
  unfolding written_config_def Let_def
  by (simp add: layout_write template_layout_template)

lemma merge_mode_0 [simp]: "merge_mode 0 c v = v"
  by (simp add: merge_mode_def)

lemmas prepare_steps = gx_config_prepare_def written_config_def Let_def layout_write
  template_layout_template checksum_seals
  template_offsets(1-5) [THEN modify_sec0 [rotated 2]]
  template_offsets(6,7) [THEN modify_sec2 [rotated 2]]

lemma prepare_written:
  assumes "dac_valid info"
  shows "gx_config_prepare info = Inr (gx_config_update_checksum (written_config info))"
proof (cases "fdt_offset info = 0")
  case True
  with assms show ?thesis
    by (simp add: prepare_steps)
next
  case False
  with assms show ?thesis
    by (simp add: prepare_steps)
qed

lemma template_reads:
  "gx_read_le16 gx5125_chicagohu_config_template 175 = 0x1580"
  "gx_read_le16 gx5125_chicagohu_config_template 155 = 0x2004"
  by (simp_all add: gx_read_le16_def gx5125_chicagohu_config_template_def le16_def)

lemma length_written_config: "length (written_config info) = 224"
  using written_config_layout [of info] by (simp add: template_layout_def)

lemma sealed_layout: "template_layout (gx_config_update_checksum (written_config info))"
  unfolding gx_config_update_checksum_def by (simp add: layout_write written_config_layout)

lemma sealed_read:
  "k < 0xdd \<Longrightarrow> gx_read_le16 (gx_config_update_checksum c) k = gx_read_le16 c k"
  by (simp add: gx_config_update_checksum_def read_le16_other)

lemma written_config_reads:
  "gx_read_le16 (written_config info) 119 = push_bit 4 (dac info ! 0) OR 0x0008"
  "gx_read_le16 (written_config info) 123 = dac info ! 1"
  "gx_read_le16 (written_config info) 127 = dac info ! 2"
  "gx_read_le16 (written_config info) 131 = dac info ! 3"
  "gx_read_le16 (written_config info) 115 = tcode info"
  "gx_read_le16 (written_config info) 175 = merge_mode 2 0x1580 (push_bit 8 (ucast (fdt_delta info)))"
  "gx_read_le16 (written_config info) 155
     = (if fdt_offset info = 0 then 0x2004 else merge_mode 1 0x2004 (ucast (fdt_offset info) + 4))"
  by (simp_all add: written_config_def Let_def read_le16_same read_le16_other template_reads)

text \<open>
  The configuration block is always built. For every OTP record with valid DAC values,
  \<open>gx_config_prepare\<close> succeeds (none of its seven register searches fails), the block has 224
  bytes and a checksum that verifies, each register holds the calibrated value, looked up
  through the section table the way the sensor does, and no byte other than the value bytes and the
  checksum differs from the template.
\<close>

theorem config_prepare_correct:
  assumes "dac_valid info"
  shows "\<exists>config. gx_config_prepare info = Inr config \<and> length config = GX5125_CONFIG_SIZE
     \<and> gx_config_verify_checksum config = Inr ()
     \<and> config_entry config 0 0x0220 = Some (push_bit 4 (dac info ! 0) OR 0x0008)
     \<and> config_entry config 0 0x0236 = Some (dac info ! 1)
     \<and> config_entry config 0 0x0238 = Some (dac info ! 2)
     \<and> config_entry config 0 0x023a = Some (dac info ! 3)
     \<and> config_entry config 0 0x005c = Some (tcode info)
     \<and> config_entry config 2 0x0082 = Some (merge_mode 2 0x1580 (push_bit 8 (ucast (fdt_delta info))))
     \<and> config_entry config 2 0x0056 = Some (if fdt_offset info = 0 then 0x2004
          else merge_mode 1 0x2004 (ucast (fdt_offset info) + 4))
     \<and> (\<forall>i < 224. i \<notin> set value_bytes \<longrightarrow> config ! i = gx5125_chicagohu_config_template ! i)"
proof -
  let ?c = "gx_config_update_checksum (written_config info)"
  note L = sealed_layout [of info]
  note entries = template_offsets(1-5) [THEN config_entry_sec0 [OF L]]
    template_offsets(6,7) [THEN config_entry_sec2 [OF L]]
  have "gx_config_verify_checksum ?c = Inr ()"
    by (rule checksum_seals) (rule length_written_config)
  moreover have "length ?c = 224" "\<forall>i < 224. i \<notin> set value_bytes \<longrightarrow> ?c ! i = gx5125_chicagohu_config_template ! i"
    using L by (simp_all add: template_layout_def)
  ultimately show ?thesis
    using prepare_written [OF assms]
    by (simp add: entries sealed_read written_config_reads GX5125_CONFIG_SIZE_def)
qed

theorem config_prepare_correct_witness:
  "\<exists>config. gx_config_prepare (zero_otp_info\<lparr>dac_valid := True, fdt_offset := 2\<rparr>) = Inr config
     \<and> config_entry config 2 0x0056 = Some 0x2006"
  using config_prepare_correct [of "zero_otp_info\<lparr>dac_valid := True, fdt_offset := 2\<rparr>"]
  by (auto simp: merge_mode_def)

end
