(* ===== verification/Capture.thy ===== *)
theory Capture
  imports Protocol Sensor
begin

text \<open>
  The parts of image capture, \<open>src/gx_capture.c\<close>: the request for an image, the 32 KiB buffer of decrypted
  bytes and the parser that looks in it for the image message. The loops that fill the buffer from the
  TLS channel are in \<open>Channel\<close>.
\<close>

definition GX_TLS_PLAINTEXT_STREAM_CAPACITY :: nat where "GX_TLS_PLAINTEXT_STREAM_CAPACITY = 32768"
definition GX_TLS_READ_CHUNK :: nat where "GX_TLS_READ_CHUNK = 16384"

lemmas capture_consts = GX_TLS_PLAINTEXT_STREAM_CAPACITY_def GX_TLS_READ_CHUNK_def

record gx_capture_result =
  encrypted_ack_received :: bool
  encrypted_ack_flags :: u8
  response_cmd0 :: u8
  response_cmd1 :: u8
  cap_metadata :: "u8 list"
  plaintext_bytes :: nat
  requests_sent :: nat

definition zero_capture_result :: gx_capture_result where
  "zero_capture_result =
     \<lparr>encrypted_ack_received = False, encrypted_ack_flags = 0, response_cmd0 = 0, response_cmd1 = 0,
      cap_metadata = [0, 0, 0, 0, 0], plaintext_bytes = 0, requests_sent = 0\<rparr>"

definition gx_capture_send_image_request ::
    "environment \<Rightarrow> gx_usb_device \<Rightarrow> history \<Rightarrow> (usb_error + unit) \<times> history" where
  "gx_capture_send_image_request env dev h =
     (case gx_inner_build 0x02 0x00 True (Buf [0x01, 0x00]) (Buf (replicate 32 0)) of
        Inl e \<Rightarrow> (Inl e, h)
      | Inr (inner, inner_length) \<Rightarrow>
          gx_transport_send_outer env dev GX5125_OUTER_COMMAND (Buf (take inner_length inner)) 1000 h)"

definition gx_capture_discard_prefix :: "u8 list \<Rightarrow> nat \<Rightarrow> u8 list" where
  "gx_capture_discard_prefix stream count =
     (if count \<ge> length stream then [] else drop count stream)"

text \<open>The buffers a capture works on: plaintext stream, raw frame, result.\<close>

record capture_buffers =
  cb_stream :: "u8 list"
  cb_raw :: "u8 list"
  cb_result :: gx_capture_result

text \<open>A complete message that is not the image: an encrypted acknowledgement is noted.\<close>

definition note_message :: "gx_inner_view \<Rightarrow> gx_capture_result \<Rightarrow> gx_capture_result" where
  "note_message inner result =
     (if iv_cmd0 inner = 0x0b \<and> iv_cmd1 inner = 0 \<and> length (iv_data inner) \<ge> 1
      then if iv_data inner ! 0 AND 0xfe = 0x20
           then result\<lparr>encrypted_ack_received := True,
                       encrypted_ack_flags := (if length (iv_data inner) \<ge> 2 then iv_data inner ! 1 else 0)\<rparr>
           else result
      else result)"

definition is_image_message :: "gx_inner_view \<Rightarrow> bool" where
  "is_image_message inner \<longleftrightarrow>
     \<not> (iv_cmd0 inner = 0x0b \<and> iv_cmd1 inner = 0 \<and> length (iv_data inner) \<ge> 1)
     \<and> iv_cmd0 inner = 0x02 \<and> iv_cmd1 inner = 0x00
     \<and> length (iv_data inner) \<ge> 5 + GX5125_IMAGE_RAW_FRAME_SIZE"

definition take_image :: "gx_inner_view \<Rightarrow> capture_buffers \<Rightarrow> capture_buffers" where
  "take_image inner b =
     b\<lparr>cb_raw := take GX5125_IMAGE_RAW_FRAME_SIZE (drop 5 (iv_data inner)),
       cb_result := (cb_result b)\<lparr>response_cmd0 := iv_cmd0 inner, response_cmd1 := iv_cmd1 inner,
                                   cap_metadata := take 5 (iv_data inner)\<rparr>\<rparr>"

lemma capture_discard [simp]: "gx_capture_discard_prefix s n = drop n s"
  by (simp add: gx_capture_discard_prefix_def)

text \<open>The loop of \<open>gx_capture_parse_stream\<close>; the second result is \<open>complete\<close>.\<close>

function gx_capture_parse_stream :: "capture_buffers \<Rightarrow> capture_buffers \<times> bool" where
  "gx_capture_parse_stream b =
     (let stream = cb_stream b
      in if length stream < 4 then (b, False)
         else
           let inner_length = le16 (stream ! 1) (stream ! 2)
           in if unat inner_length < 1 \<or> unat inner_length > GX5125_OUTER_MAX_PAYLOAD
              then gx_capture_parse_stream (b\<lparr>cb_stream := gx_capture_discard_prefix stream 1\<rparr>)
              else
                let total_length = 3 + unat inner_length
                in if length stream < total_length then (b, False)
                   else
                     case gx_inner_decode (Buf (take total_length stream)) of
                       Inl _ \<Rightarrow>
                         gx_capture_parse_stream (b\<lparr>cb_stream := gx_capture_discard_prefix stream 1\<rparr>)
                     | Inr inner \<Rightarrow>
                         if \<not> iv_checksum_ok inner
                         then gx_capture_parse_stream (b\<lparr>cb_stream := gx_capture_discard_prefix stream 1\<rparr>)
                         else if is_image_message inner then (take_image inner b, True)
                         else gx_capture_parse_stream
                                (b\<lparr>cb_stream := gx_capture_discard_prefix stream total_length,
                                   cb_result := note_message inner (cb_result b)\<rparr>))"
  by pat_completeness auto
termination
  by (relation "measure (\<lambda>b. length (cb_stream b))") (auto simp: Let_def)

declare gx_capture_parse_stream.simps [simp del]

text \<open>The time a read may take: what is left until the deadline, at most a second.\<close>

definition capture_wait_ms :: "nat \<Rightarrow> nat \<Rightarrow> nat" where
  "capture_wait_ms deadline now = (let wait_ms = deadline - now in if wait_ms > 1000 then 1000 else wait_ms)"

section \<open>What a captured frame is\<close>

text \<open>The stream of the buffers begins with an image message, whose parts were taken.\<close>

definition holds_image :: "capture_buffers \<Rightarrow> bool" where
  "holds_image b \<longleftrightarrow>
     (\<exists>d rest. cb_stream b = inner_frame d @ rest \<and> inner_ok d
        \<and> iv_checksum_ok (inner_view_of d) \<and> is_image_message (inner_view_of d)
        \<and> cb_raw b = take GX5125_IMAGE_RAW_FRAME_SIZE (drop 5 (iv_data (inner_view_of d)))
        \<and> cap_metadata (cb_result b) = take 5 (iv_data (inner_view_of d)))"

text \<open>One iteration of the parse loop: wait for more, drop bytes and go on, or stop at the image.\<close>

datatype parse_move = Wait | Advance nat gx_capture_result | Found gx_inner_view

definition parse_move_of :: "capture_buffers \<Rightarrow> parse_move" where
  "parse_move_of b =
     (let s = cb_stream b; n = unat (le16 (s ! 1) (s ! 2))
      in if length s < 4 then Wait
         else if n < 1 \<or> n > GX5125_OUTER_MAX_PAYLOAD then Advance 1 (cb_result b)
         else if length s < 3 + n then Wait
         else case gx_inner_decode (Buf (take (3 + n) s)) of
                Inl _ \<Rightarrow> Advance 1 (cb_result b)
              | Inr inner \<Rightarrow>
                  if \<not> iv_checksum_ok inner then Advance 1 (cb_result b)
                  else if is_image_message inner then Found inner
                  else Advance (3 + n) (note_message inner (cb_result b)))"

lemma parse_by_moves:
  "gx_capture_parse_stream b =
     (case parse_move_of b of
        Wait \<Rightarrow> (b, False)
      | Advance n r \<Rightarrow> gx_capture_parse_stream (b\<lparr>cb_stream := drop n (cb_stream b), cb_result := r\<rparr>)
      | Found inner \<Rightarrow> (take_image inner b, True))"
  by (subst gx_capture_parse_stream.simps)
    (auto simp: parse_move_of_def Let_def split: sum.split)

lemma Advance_progress: "parse_move_of b = Advance n r \<Longrightarrow> 0 < n \<and> n \<le> length (cb_stream b)"
  by (auto simp: parse_move_of_def Let_def split: if_splits sum.splits)

lemma Found_image:
  assumes "parse_move_of b = Found inner"
  shows "holds_image (take_image inner b)"
proof -
  let ?n = "unat (le16 (cb_stream b ! 1) (cb_stream b ! 2))"
  from assms have d: "gx_inner_decode (Buf (take (3 + ?n) (cb_stream b))) = Inr inner"
    and i: "iv_checksum_ok inner" "is_image_message inner"
    by (auto simp: parse_move_of_def Let_def split: if_splits sum.splits)
  from inner.decode_sound [OF d] obtain x rest where
    x: "inner_ok x" "take (3 + ?n) (cb_stream b) = inner_frame x @ rest" "inner = inner_view_of x"
    by blast
  then have "cb_stream b = inner_frame x @ rest @ drop (3 + ?n) (cb_stream b)"
    by (metis append.assoc append_take_drop_id)
  with x i show ?thesis
    unfolding holds_image_def take_image_def by (intro exI [of _ x]) auto
qed

lemma parse_stream_sound:
  assumes "gx_capture_parse_stream b = (b', complete)"
  shows "\<exists>pre. cb_stream b = pre @ cb_stream b' \<and> (complete \<longrightarrow> holds_image b')"
  using assms
proof (induction b rule: measure_induct_rule [of "\<lambda>b. length (cb_stream b)"])
  case (less b)
  show ?case
  proof (cases "parse_move_of b")
    case Wait
    with less.prems show ?thesis by (simp add: parse_by_moves [of b])
  next
    case (Found inner)
    with less.prems Found_image [OF Found] show ?thesis
      by (auto simp: parse_by_moves [of b] take_image_def)
  next
    case (Advance n r)
    let ?b = "b\<lparr>cb_stream := drop n (cb_stream b), cb_result := r\<rparr>"
    from Advance less.prems have "gx_capture_parse_stream ?b = (b', complete)"
      by (simp add: parse_by_moves [of b])
    moreover have "length (cb_stream ?b) < length (cb_stream b)"
      using Advance_progress [OF Advance] by (simp, linarith)
    ultimately obtain pre where "cb_stream ?b = pre @ cb_stream b'" "complete \<longrightarrow> holds_image b'"
      using less.IH by blast
    then show ?thesis
      by (intro exI [of _ "take n (cb_stream b) @ pre"])
        (simp, metis append_take_drop_id)
  qed
qed

section \<open>The image is found however it is cut\<close>

definition with_plaintext :: "nat \<Rightarrow> capture_buffers \<Rightarrow> capture_buffers" where
  "with_plaintext n b = b\<lparr>cb_result := (cb_result b)\<lparr>plaintext_bytes := n\<rparr>\<rparr>"

definition with_more :: "u8 list \<Rightarrow> capture_buffers \<Rightarrow> capture_buffers" where
  "with_more y b = b\<lparr>cb_stream := cb_stream b @ y\<rparr>"

lemma more_plaintext: "with_more y (with_plaintext n b) = with_plaintext n (with_more y b)"
  by (cases b) (simp add: with_more_def with_plaintext_def)

lemma move_append:
  assumes "parse_move_of b \<noteq> Wait"
  shows "parse_move_of (with_more y b) = parse_move_of b"
proof -
  let ?s = "cb_stream b" and ?n = "unat (le16 (cb_stream b ! 1) (cb_stream b ! 2))"
  have l: "\<not> length ?s < 4" using assms by (auto simp: parse_move_of_def Let_def)
  then have idx: "(?s @ y) ! 1 = ?s ! 1" "(?s @ y) ! 2 = ?s ! 2" by (simp_all add: nth_append)
  show ?thesis
  proof (cases "?n < 1 \<or> ?n > GX5125_OUTER_MAX_PAYLOAD")
    case True
    with l idx show ?thesis by (simp add: parse_move_of_def with_more_def Let_def)
  next
    case False
    with assms l have "3 + ?n \<le> length ?s"
      by (simp add: parse_move_of_def Let_def split: if_splits)
    with False l idx show ?thesis
      by (simp add: parse_move_of_def with_more_def Let_def split: sum.split)
  qed
qed

lemma move_plaintext:
  "parse_move_of (with_plaintext k b) =
     (case parse_move_of b of Advance n r \<Rightarrow> Advance n (r\<lparr>plaintext_bytes := k\<rparr>) | m \<Rightarrow> m)"
  by (auto simp: parse_move_of_def with_plaintext_def note_message_def Let_def split: sum.split)

lemma parse_plaintext:
  "gx_capture_parse_stream (with_plaintext k b)
   = (with_plaintext k (fst (gx_capture_parse_stream b)), snd (gx_capture_parse_stream b))"
proof (induction b rule: measure_induct_rule [of "\<lambda>b. length (cb_stream b)"])
  case (less b)
  show ?case
  proof (cases "parse_move_of b")
    case (Advance n r)
    let ?b = "b\<lparr>cb_stream := drop n (cb_stream b), cb_result := r\<rparr>"
    have "length (cb_stream b) - n < length (cb_stream b)"
      using Advance_progress [OF Advance] by linarith
    with less.IH [of ?b] show ?thesis
      by (simp add: parse_by_moves [of b] parse_by_moves [of "with_plaintext k b"] move_plaintext Advance)
        (simp add: with_plaintext_def)
  qed (simp_all add: parse_by_moves [of b] parse_by_moves [of "with_plaintext k b"] move_plaintext,
      simp add: with_plaintext_def take_image_def)
qed

lemma parse_append:
  "gx_capture_parse_stream (with_more y b) =
     (let (b1, complete) = gx_capture_parse_stream b
      in if complete then (with_more y b1, True) else gx_capture_parse_stream (with_more y b1))"
proof (induction b rule: measure_induct_rule [of "\<lambda>b. length (cb_stream b)"])
  case (less b)
  show ?case
  proof (cases "parse_move_of b")
    case Wait
    then show ?thesis by (simp add: parse_by_moves [of b])
  next
    case (Found inner)
    then show ?thesis
      by (simp add: parse_by_moves [of b] parse_by_moves [of "with_more y b"] move_append)
        (simp add: with_more_def take_image_def)
  next
    case (Advance n r)
    let ?b = "b\<lparr>cb_stream := drop n (cb_stream b), cb_result := r\<rparr>"
    have "length (cb_stream ?b) < length (cb_stream b)" and n: "n \<le> length (cb_stream b)"
      using Advance_progress [OF Advance] by (simp, linarith, simp)
    moreover have "(with_more y b)\<lparr>cb_stream := drop n (cb_stream (with_more y b)), cb_result := r\<rparr>
        = with_more y ?b"
      using n by (simp add: with_more_def)
    ultimately show ?thesis
      using less.IH [of ?b]
      by (simp add: parse_by_moves [of b] parse_by_moves [of "with_more y b"] move_append Advance)
  qed
qed

text \<open>The messages of a capture: any number of other messages, then the image.\<close>

definition message_of :: "u8 \<Rightarrow> u8 \<Rightarrow> u8 list \<Rightarrow> inner_desc" where
  "message_of cmd0 cmd1 data =
     (let c = gx_inner_command_byte cmd0 cmd1 True in (c, data, right_checksum c data))"

lemma message_view:
  assumes "c0 \<le> 0x0f" and "c1 \<le> 0x07"
  shows "iv_cmd0 (inner_view_of (message_of c0 c1 data)) = c0"
    "iv_cmd1 (inner_view_of (message_of c0 c1 data)) = c1"
    "iv_data (inner_view_of (message_of c0 c1 data)) = data"
    "iv_checksum_ok (inner_view_of (message_of c0 c1 data))"
  using sent_view [OF assms] by (simp_all add: message_of_def Let_def)

lemma message_move:
  assumes "c0 \<le> 0x0f" and "c1 \<le> 0x07" and "length data < GX5125_OUTER_MAX_PAYLOAD"
    and "cb_stream b = inner_frame (message_of c0 c1 data) @ rest"
  defines "v \<equiv> inner_view_of (message_of c0 c1 data)"
  shows "parse_move_of b = (if is_image_message v then Found v
     else Advance (4 + length data) (note_message v (cb_result b)))"
proof -
  let ?m = "message_of c0 c1 data"
  have len: "length (inner_frame ?m) = 4 + length data" by (simp add: message_of_def Let_def)
  have n: "unat (of_nat (length data + 1) :: u16) = length data + 1"
    using assms(3) by (intro unat_inner_length) (simp add: outer_consts)
  have "le16 ((inner_frame ?m @ rest) ! 1) ((inner_frame ?m @ rest) ! 2) = of_nat (length data + 1)"
    by (simp add: inner_frame_def message_of_def Let_def)
  with n have hd: "unat (le16 ((inner_frame ?m @ rest) ! 1) ((inner_frame ?m @ rest) ! 2)) = length data + 1"
    by (simp only:)
  have "gx_inner_decode (Buf (inner_frame ?m)) = Inr v"
    unfolding v_def using assms(3)
    by (intro inner.decode_exact) (simp add: inner_ok_def message_of_def outer_consts Let_def)
  moreover have "take (3 + (length data + 1)) (inner_frame ?m @ rest) = inner_frame ?m"
    using len by simp
  ultimately show ?thesis
    using assms(3) len message_view(4) [OF assms(1,2), of data]
    unfolding parse_move_of_def assms(4) Let_def hd
    by (simp add: v_def)
qed

lemma parse_message_skip:
  assumes "c0 \<le> 0x0f" and "c1 \<le> 0x07" and "length data < GX5125_OUTER_MAX_PAYLOAD"
    and "\<not> is_image_message (inner_view_of (message_of c0 c1 data))"
    and "cb_stream b = inner_frame (message_of c0 c1 data) @ rest"
  shows "gx_capture_parse_stream b = gx_capture_parse_stream
     (b\<lparr>cb_stream := rest,
        cb_result := note_message (inner_view_of (message_of c0 c1 data)) (cb_result b)\<rparr>)"
proof -
  have "length (inner_frame (message_of c0 c1 data)) = 4 + length data"
    by (simp add: message_of_def Let_def)
  then show ?thesis
    using message_move [OF assms(1-3,5)] assms(4)
    by (simp add: parse_by_moves [of b] assms(5))
qed

text \<open>The plaintext of a normal capture: the acknowledgement of the request, then the image.\<close>

definition image_plaintext :: "u8 \<Rightarrow> u8 list \<Rightarrow> u8 list \<Rightarrow> u8 list" where
  "image_plaintext flags metadata raw =
     inner_frame (message_of 0x0b 0 [0x20, flags]) @ inner_frame (message_of 0x02 0 (metadata @ raw))"

lemma parse_image_plaintext:
  assumes "length metadata = 5" and "length raw = GX5125_IMAGE_RAW_FRAME_SIZE"
    and "cb_stream b = image_plaintext flags metadata raw"
  shows "\<exists>bf. gx_capture_parse_stream b = (bf, True) \<and> cb_raw bf = raw
     \<and> encrypted_ack_received (cb_result bf) \<and> encrypted_ack_flags (cb_result bf) = flags
     \<and> cap_metadata (cb_result bf) = metadata \<and> requests_sent (cb_result bf) = requests_sent (cb_result b)
     \<and> response_cmd0 (cb_result bf) = 0x02 \<and> response_cmd1 (cb_result bf) = 0"
proof -
  let ?ack = "inner_view_of (message_of 0x0b 0 [0x20, flags])"
  let ?img = "inner_view_of (message_of 0x02 0 (metadata @ raw))"
  have va: "iv_cmd0 ?ack = 0x0b" "iv_cmd1 ?ack = 0" "iv_data ?ack = [0x20, flags]"
    by (simp_all add: message_view)
  have vi: "iv_cmd0 ?img = 0x02" "iv_cmd1 ?img = 0" "iv_data ?img = metadata @ raw"
    by (simp_all add: message_view)
  let ?b = "b\<lparr>cb_stream := inner_frame (message_of 0x02 0 (metadata @ raw)),
      cb_result := note_message ?ack (cb_result b)\<rparr>"
  have "gx_capture_parse_stream b = gx_capture_parse_stream ?b"
    using va assms(3)
    by (intro parse_message_skip) (simp_all add: is_image_message_def image_plaintext_def outer_consts)
  also have "parse_move_of ?b = Found ?img"
    using vi assms(1,2) message_move [of "0x02" 0 "metadata @ raw" ?b "[]"]
    by (simp add: is_image_message_def outer_consts sensor_consts)
  then have "gx_capture_parse_stream ?b = (take_image ?img ?b, True)"
    by (simp add: parse_by_moves [of ?b])
  finally show ?thesis
    using va vi assms(1,2) by (simp add: take_image_def note_message_def)
qed

lemma send_image_request_progress:
  assumes "calls_work env"
    and "ud_handle dev" and "claimed_data dev"
  shows "fst (gx_capture_send_image_request env dev h) = Inr ()"
proof -
  let ?c = "gx_inner_command_byte 0x02 0x00 True" and ?p = "[0x01, 0x00 :: u8]"
  let ?f = "inner_frame (?c, ?p, right_checksum ?c ?p)"
  have b: "gx_inner_build 0x02 0x00 True (Buf ?p) (Buf (replicate 32 0))
      = Inr (?f @ drop (4 + length ?p) (replicate 32 0), 4 + length ?p)"
    by (rule gx_inner_build_eq) simp_all
  have "outer_ok (GX5125_OUTER_COMMAND, ?f)"
    by (simp add: outer_ok_def gx_outer_family_supported_def outer_consts)
  then have "fst (gx_transport_send_outer env dev GX5125_OUTER_COMMAND (Buf ?f) 1000 h) = Inr ()"
    using assms by (intro send_outer_progress)
  moreover have "take (4 + length ?p) (?f @ r) = ?f" for r by simp
  ultimately show ?thesis
    unfolding gx_capture_send_image_request_def b by simp
qed

end
