(* ===== verification/Channel.thy ===== *)
theory Channel
  imports Capture Tls "HOL-Library.Sublist"
begin

text \<open>
  The loops of image capture, \<open>gx_capture_image_cancelable\<close> of \<open>src/gx_capture.c\<close>, over the TLS channel:
  they call the model of \<open>gx_tls_server_read_application\<close>, so that the server, the session and the history
  are threaded through the capture. For each request a round gives the clock when it starts and one tick
  per iteration of the inner loop with its two clock readings; the cancel flag is a variable that other
  threads store to. What a capture returns is specified by the plaintext the engine delivered meanwhile.
\<close>

record channel_tick =
  ct_now :: nat
  ct_stores :: "bool list"
  ct_later :: nat
  ct_start :: nat
  ct_reads :: "tls_tick list"

record channel_round =
  cr_stores :: "bool list"
  cr_start :: nat
  cr_ticks :: "channel_tick list"

record 'e channel =
  ch_server :: "'e gx_tls_server"
  ch_session :: gx_session
  ch_cancel :: bool

text \<open>The value a load of the flag sees after the stores other threads made since the last one.\<close>

definition flag_after :: "bool list \<Rightarrow> bool \<Rightarrow> bool" where
  "flag_after stores flag = foldl (\<lambda>_ b. b) flag stores"

fun capture_collect_tls ::
    "'e ssl_engine \<Rightarrow> environment \<Rightarrow> scheduler \<Rightarrow> gx_usb_device \<Rightarrow> bool \<Rightarrow> nat \<Rightarrow> channel_tick list \<Rightarrow>
     capture_buffers \<Rightarrow> 'e channel \<Rightarrow> history \<Rightarrow>
     (usb_error + unit) option \<times> capture_buffers \<times> 'e channel \<times> history" where
  "capture_collect_tls eng env sched dev cancelable deadline [] b ch h = (None, b, ch, h)"
| "capture_collect_tls eng env sched dev cancelable deadline (t # ts) b ch h =
     (if ct_now t \<ge> deadline then (None, b, ch, h)
      else
        let ch0 = ch\<lparr>ch_cancel := flag_after (ct_stores t) (ch_cancel ch)\<rparr>
        in if cancelable \<and> ch_cancel ch0 then (Some (Inl LIBUSB_ERROR_INTERRUPTED), b, ch0, h)
           else if ct_later t \<ge> deadline then (None, b, ch0, h)
           else
             let (rd, server, session, h1) = gx_tls_server_read_application eng env sched dev
                   GX_TLS_READ_CHUNK (capture_wait_ms deadline (ct_later t)) (ct_start t) (ct_reads t)
                   (ch_server ch0) (ch_session ch0) h;
                 ch1 = ch0\<lparr>ch_server := server, ch_session := session\<rparr>
             in case rd of
                  Inl e \<Rightarrow>
                    if e = LIBUSB_ERROR_TIMEOUT
                    then capture_collect_tls eng env sched dev cancelable deadline ts b ch1 h1
                    else (Some (Inl e), b, ch1, h1)
                | Inr chunk \<Rightarrow>
                    if length chunk > GX_TLS_PLAINTEXT_STREAM_CAPACITY - length (cb_stream b)
                    then (Some (Inl LIBUSB_ERROR_OVERFLOW), b, ch1, h1)
                    else
                      let r = (cb_result b)\<lparr>plaintext_bytes := plaintext_bytes (cb_result b) + length chunk\<rparr>;
                          (b1, complete) = gx_capture_parse_stream
                            (b\<lparr>cb_stream := cb_stream b @ chunk, cb_result := r\<rparr>)
                      in if complete then (Some (Inr ()), b1, ch1, h1)
                         else capture_collect_tls eng env sched dev cancelable deadline ts b1 ch1 h1)"

fun capture_requests_tls ::
    "'e ssl_engine \<Rightarrow> environment \<Rightarrow> scheduler \<Rightarrow> gx_usb_device \<Rightarrow> bool \<Rightarrow> nat \<Rightarrow> channel_round list \<Rightarrow>
     nat \<Rightarrow> capture_buffers \<Rightarrow> 'e channel \<Rightarrow> history \<Rightarrow>
     (usb_error + unit) \<times> capture_buffers \<times> 'e channel \<times> history" where
  "capture_requests_tls eng env sched dev cancelable timeout_ms [] request b ch h =
     (Inl LIBUSB_ERROR_TIMEOUT, b, ch, h)"
| "capture_requests_tls eng env sched dev cancelable timeout_ms (rd # rds) request b ch h =
     (let ch0 = ch\<lparr>ch_cancel := flag_after (cr_stores rd) (ch_cancel ch)\<rparr>
      in if cancelable \<and> ch_cancel ch0 then (Inl LIBUSB_ERROR_INTERRUPTED, b, ch0, h)
         else
           let (rc, h1) = gx_capture_send_image_request env dev h
           in case rc of
                Inl e \<Rightarrow> (Inl e, b, ch0, h1)
              | Inr _ \<Rightarrow>
                  let b1 = b\<lparr>cb_result := (cb_result b)\<lparr>requests_sent := request\<rparr>\<rparr>;
                      (out, b2, ch2, h2) = capture_collect_tls eng env sched dev cancelable
                        (cr_start rd + timeout_ms) (cr_ticks rd) b1 ch0 h1
                  in case out of
                       Some res \<Rightarrow> (res, b2, ch2, h2)
                     | None \<Rightarrow> capture_requests_tls eng env sched dev cancelable timeout_ms rds
                                 (request + 1) b2 ch2 h2)"

definition capture_image_tls ::
    "'e ssl_engine \<Rightarrow> environment \<Rightarrow> scheduler \<Rightarrow> gx_usb_device \<Rightarrow> nat \<Rightarrow> nat \<Rightarrow> bool \<Rightarrow>
     (nat \<Rightarrow> channel_round) \<Rightarrow> u8 list \<Rightarrow> gx_capture_result \<Rightarrow> 'e channel \<Rightarrow> history \<Rightarrow>
     (usb_error + unit) \<times> u8 list \<times> gx_capture_result \<times> 'e channel \<times> history" where
  "capture_image_tls eng env sched dev timeout_ms max_requests cancelable plan raw_frame result ch h =
     (if timeout_ms = 0 \<or> max_requests = 0
      then (Inl LIBUSB_ERROR_INVALID_PARAM, raw_frame, result, ch, h)
      else
        let (rc, b, ch1, h1) = capture_requests_tls eng env sched dev cancelable timeout_ms
              (map plan [0..<max_requests]) 1
              \<lparr>cb_stream = [], cb_raw = replicate GX5125_IMAGE_RAW_FRAME_SIZE 0,
               cb_result = zero_capture_result\<rparr> ch h
        in (rc, cb_raw b, cb_result b, ch1, h1))"

text \<open>The variant without a cancel flag.\<close>

definition gx_capture_image ::
    "'e ssl_engine \<Rightarrow> environment \<Rightarrow> scheduler \<Rightarrow> gx_usb_device \<Rightarrow> nat \<Rightarrow> nat \<Rightarrow>
     (nat \<Rightarrow> channel_round) \<Rightarrow> u8 list \<Rightarrow> gx_capture_result \<Rightarrow> 'e channel \<Rightarrow> history \<Rightarrow>
     (usb_error + unit) \<times> u8 list \<times> gx_capture_result \<times> 'e channel \<times> history" where
  "gx_capture_image eng env sched dev timeout_ms max_requests plan raw_frame result ch h =
     capture_image_tls eng env sched dev timeout_ms max_requests False plan raw_frame result ch h"

section \<open>What the consumer keeps of the session\<close>

text \<open>
  The command thread also takes bytes from the TLS queue and clears it. What an invariant of the
  receiver survives then, it survives through the handshake, the reads and the whole capture.
\<close>

locale consumer_invariant = receiver_invariant +
  assumes take_keeps: "inv s \<Longrightarrow> inv (snd (tls_take s n))"
    and clear_keeps: "inv s \<Longrightarrow> inv (gx_session_tls_clear s)"
begin

lemma queue_read_keeps: "inv s \<Longrightarrow> plan_ok rok plan \<Longrightarrow> inv (snd (gx_session_tls_read s n plan))"
  unfolding gx_session_tls_read_def Let_def split_beta
  by (auto simp: wait_plan_keeps take_keeps split: option.split)

lemma receive_step_keeps:
  assumes "inv session" and "\<And>h t. plan_ok rok (sched h t)"
    and "tls_receive_step env sched dl now server session h = (rc, server', session', h')"
  shows "inv session'"
  using assms queue_read_keeps [OF assms(1) assms(2)]
  by (fastforce simp: tls_receive_step_def Let_def split_beta split: sum.splits if_splits)

lemma handshake_loop_keeps:
  assumes plans: "\<And>h t. plan_ok rok (sched h t)"
  shows "inv session \<Longrightarrow>
     tls_handshake_loop eng env sched dev dl ticks server session h = (rc, server', session', h')
     \<Longrightarrow> inv session'"
proof (induction ticks arbitrary: server session h)
  case (Cons t ts)
  define st where "st = eng_handshake eng (ts_engine server) (psk_answer_of server) (ts_rbio server)"
  obtain rc1 s1 h1 where fl: "gx_tls_flush_usb env dev (apply_step server st) (h @ queries_of st) = (rc1, s1, h1)"
    by (rule prod_cases3)
  obtain rc2 s2 session2 h2 where rs:
    "tls_receive_step env sched dl (tt_later t) s1 session h1 = (rc2, s2, session2, h2)"
    by (rule prod_cases4)
  note k = receive_step_keeps [OF Cons.prems(1) plans rs]
  show ?case
    using Cons.prems Cons.IH [OF Cons.prems(1)] Cons.IH [OF k] fl rs k
    by (auto simp: st_def [symmetric] Let_def split: sum.splits ssl_error.splits if_splits)
qed simp

lemma handshake_keeps:
  assumes "inv session" and "\<And>h t. plan_ok rok (sched h t)"
    and "gx_tls_server_handshake_usb eng env sched dev timeout_ms start ticks server session h
           = (rc, server', session', h')"
  shows "inv session'"
proof -
  obtain rc1 r1 session1 h1 where c: "gx_session_command env sched dev (gx_session_tls_clear session) 0x0d 0x00
      (Buf [0x00, 0x00]) 0 False 0 1 zero_command_result h = (rc1, r1, session1, h1)"
    by (rule prod_cases4)
  have "inv (fst (snd (snd (gx_session_command env sched dev (gx_session_tls_clear session) 0x0d 0x00
      (Buf [0x00, 0x00]) 0 False 0 1 zero_command_result h))))"
    by (rule command_keeps [OF clear_keeps [OF assms(1)] assms(2)])
  then have "inv session1" unfolding c by simp
  with assms(1,3) handshake_loop_keeps [OF assms(2) \<open>inv session1\<close>] show ?thesis
    by (auto simp: gx_tls_server_handshake_usb_def c simp del: One_nat_def split: if_splits sum.splits)
qed

lemma read_loop_keeps:
  assumes plans: "\<And>h t. plan_ok rok (sched h t)"
  shows "inv session \<Longrightarrow>
     tls_read_loop eng env sched dev cap dl ticks server session h = (rc, server', session', h')
     \<Longrightarrow> inv session'"
proof (induction ticks arbitrary: server session h)
  case (Cons t ts)
  define st where "st = eng_read eng (ts_engine server) (psk_answer_of server) (ts_rbio server) cap"
  obtain rc1 s1 h1 where fl: "gx_tls_flush_usb env dev (apply_step server st) (h @ queries_of st) = (rc1, s1, h1)"
    by (rule prod_cases3)
  obtain rc2 s2 session2 h2 where rs:
    "tls_receive_step env sched dl (tt_later t) s1 session h1 = (rc2, s2, session2, h2)"
    by (rule prod_cases4)
  note k = receive_step_keeps [OF Cons.prems(1) plans rs]
  show ?case
    using Cons.prems Cons.IH [OF Cons.prems(1)] Cons.IH [OF k] fl rs k
    by (auto simp: st_def [symmetric] Let_def split: sum.splits ssl_error.splits if_splits)
qed simp

lemma read_application_keeps:
  assumes "inv session" and "\<And>h t. plan_ok rok (sched h t)"
    and "gx_tls_server_read_application eng env sched dev cap timeout_ms start ticks server session h
           = (rc, server', session', h')"
  shows "inv session'"
  using assms read_loop_keeps [OF assms(2,1)]
  by (auto simp: gx_tls_server_read_application_def split: if_splits)

lemma collect_keeps:
  assumes plans: "\<And>h t. plan_ok rok (sched h t)"
  shows "inv (ch_session ch) \<Longrightarrow>
     capture_collect_tls eng env sched dev c dl ticks b ch h = (out, b', ch', h') \<Longrightarrow> inv (ch_session ch')"
proof (induction ticks arbitrary: b ch h)
  case (Cons t ts)
  obtain rd server session h1 where r: "gx_tls_server_read_application eng env sched dev
      GX_TLS_READ_CHUNK (capture_wait_ms dl (ct_later t)) (ct_start t) (ct_reads t)
      (ch_server ch) (ch_session ch) h = (rd, server, session, h1)"
    by (rule prod_cases4)
  note k = read_application_keeps [OF Cons.prems(1) plans r]
  have IH: "inv (ch_session ch')"
    if "capture_collect_tls eng env sched dev c dl ts b1 ch1 h1 = (out, b', ch', h')"
      and "ch_session ch1 = session" for b1 ch1
  proof -
    from k that(2) have "inv (ch_session ch1)" by simp
    then show ?thesis using that(1) by (rule Cons.IH)
  qed
  show ?case
    using Cons.prems k r
    by (auto simp: Let_def split: if_splits sum.splits prod.splits intro: IH)
qed simp

lemma requests_keeps:
  assumes plans: "\<And>h t. plan_ok rok (sched h t)"
  shows "inv (ch_session ch) \<Longrightarrow>
     capture_requests_tls eng env sched dev c timeout_ms rds k b ch h = (rc, b', ch', h') \<Longrightarrow>
     inv (ch_session ch')"
proof (induction rds arbitrary: k b ch h)
  case (Cons rd rds)
  let ?ch = "ch\<lparr>ch_cancel := flag_after (cr_stores rd) (ch_cancel ch)\<rparr>"
  let ?b = "b\<lparr>cb_result := (cb_result b)\<lparr>requests_sent := k\<rparr>\<rparr>"
  obtain rc0 h1 where s: "gx_capture_send_image_request env dev h = (rc0, h1)" by (rule prod.exhaust)
  obtain out b2 ch2 h2 where col: "capture_collect_tls eng env sched dev c (cr_start rd + timeout_ms)
      (cr_ticks rd) ?b ?ch h1 = (out, b2, ch2, h2)"
    by (rule prod_cases4)
  have "inv (ch_session ?ch)" using Cons.prems(1) by simp
  note k = collect_keeps [OF plans this col]
  from Cons.prems Cons.IH [OF k] s col k show ?case
    by (auto simp: Let_def split: if_splits sum.splits option.splits)
qed simp

lemma capture_keeps:
  assumes "\<And>h t. plan_ok rok (sched h t)" and "inv (ch_session ch)"
    and "capture_image_tls eng env sched dev timeout_ms n c plan raw result ch h = (rc, raw', result', ch', h')"
  shows "inv (ch_session ch')"
  using assms(2,3) requests_keeps [OF assms(1,2)]
  by (fastforce simp: capture_image_tls_def split: if_splits prod.splits)

end

section \<open>The plaintext of the engine\<close>

text \<open>
  An observer of an engine: \<open>plain\<close> is the plaintext its reads have delivered so far. (Every engine has one
  once its deliveries are recorded in its state.)
\<close>

definition records_plaintext :: "'e ssl_engine \<Rightarrow> ('e \<Rightarrow> u8 list) \<Rightarrow> bool" where
  "records_plaintext eng plain \<longleftrightarrow>
     (\<forall>e psk rbio n. plain (step_engine (eng_read eng e psk rbio n))
        = plain e @ (case step_status (eng_read eng e psk rbio n) of Inl _ \<Rightarrow> [] | Inr out \<Rightarrow> take n out))"

text \<open>
  A TLS record the flush cannot send in time makes a read time out although it had delivered plaintext; the
  capture then goes on without it. This does not happen when no transfer to the device times out.
\<close>

definition writes_in_time :: "environment \<Rightarrow> bool" where
  "writes_in_time env \<longleftrightarrow> (\<forall>h ep bs t. reply_rc (env h (Libusb_bulk_out ep bs t)) \<noteq> Inl LIBUSB_ERROR_TIMEOUT)"

lemma write_loop_in_time: "writes_in_time env \<Longrightarrow> fst (bulk_write_loop env t bs h) \<noteq> Inl LIBUSB_ERROR_TIMEOUT"
proof (induction env t bs h rule: bulk_write_loop.induct)
  case (1 env t rest h)
  then show ?case
    using 1(1) [OF _ refl]
    by (subst bulk_write_loop.simps) (auto simp: ext_do_def writes_in_time_def split: sum.split)
qed

lemma send_in_time:
  assumes "writes_in_time env"
  shows "fst (gx_transport_send_outer env dev t p timeout h) \<noteq> Inl LIBUSB_ERROR_TIMEOUT"
proof -
  have "fst (gx_usb_bulk_write_64 env dev b timeout h1) \<noteq> Inl LIBUSB_ERROR_TIMEOUT" for b h1
    using write_loop_in_time [OF assms] by (simp add: gx_usb_bulk_write_64_def)
  moreover have "gx_outer_build t p out \<noteq> Inl LIBUSB_ERROR_TIMEOUT" for out
    by (auto simp: gx_outer_build_def Let_def)
  ultimately show ?thesis
    by (auto simp: gx_transport_send_outer_def ext_do_def Let_def split_beta split: sum.split)
qed

lemma flush_loop_engine:
  "tls_flush_loop env dev s h = (rc, s', h') \<Longrightarrow>
   ts_engine s' = ts_engine s \<and> (writes_in_time env \<longrightarrow> rc \<noteq> Inl LIBUSB_ERROR_TIMEOUT)"
proof (induction s arbitrary: h rule: measure_induct_rule [of "\<lambda>s. length (ts_wbio s)"])
  case (less s)
  show ?case
  proof (cases "ts_wbio s = []")
    case True
    with less.prems show ?thesis by (auto simp: tls_flush_loop.simps [of env dev s h])
  next
    case ne: False
    define n where "n = flush_chunk env s h"
    obtain r h2 where send: "gx_transport_send_outer env dev GX5125_OUTER_TLS
        (Buf (take n (ts_wbio s))) 1000 (h @ [Bio_read GX_TLS_IO_BUFFER]) = (r, h2)"
      by (rule prod.exhaust)
    note in_time = send_in_time [of env dev GX5125_OUTER_TLS "Buf (take n (ts_wbio s))" 1000 "h @ [Bio_read GX_TLS_IO_BUFFER]",
        unfolded send, simplified]
    note round = flush_round [OF ne n_def send]
    show ?thesis
    proof (cases "isl (reply_rc (env h (Bio_read GX_TLS_IO_BUFFER))) \<or> n = 0 \<or> isl r")
      case True
      then show ?thesis using less.prems round in_time by (auto split: if_splits sum.splits)
    next
      case False
      then have "tls_flush_loop env dev (flushed n s) h2 = (rc, s', h')"
        using less.prems round by (auto split: sum.splits)
      moreover have "length (ts_wbio (flushed n s)) < length (ts_wbio s)" "ts_engine (flushed n s) = ts_engine s"
        using False ne by (simp_all add: flushed_def)
      ultimately show ?thesis using less.IH by metis
    qed
  qed
qed

lemma step_flush_engine:
  assumes "gx_tls_flush_usb env dev (apply_step s st) h = (rc, s', h')"
  shows "ts_engine s' = step_engine st \<and> (writes_in_time env \<longrightarrow> rc \<noteq> Inl LIBUSB_ERROR_TIMEOUT)"
  using assms flush_loop_engine
  by (fastforce simp: gx_tls_flush_usb_def apply_step_def split: if_splits)

lemma receive_step_engine:
  "tls_receive_step env sched deadline now s session h = (rc, s', session', h') \<Longrightarrow> ts_engine s' = ts_engine s"
  by (auto simp: tls_receive_step_def gx_tls_feed_def Let_def split: prod.splits sum.splits if_splits)

lemma read_loop_plaintext:
  assumes plain: "records_plaintext eng plain"
  shows "tls_read_loop eng env sched dev n deadline ticks s session h = (rc, s', session', h') \<Longrightarrow>
    \<exists>lost. plain (ts_engine s') = plain (ts_engine s) @ (case rc of Inr out \<Rightarrow> out | Inl _ \<Rightarrow> lost)
      \<and> (rc = Inl LIBUSB_ERROR_TIMEOUT \<and> writes_in_time env \<longrightarrow> lost = [])"
proof (induction ticks arbitrary: s session h)
  case (Cons t ts)
  show ?case
  proof (cases "tt_now t \<ge> deadline")
    case True
    with Cons.prems show ?thesis by auto
  next
    case False
    define st where "st = eng_read eng (ts_engine s) (psk_answer_of s) (ts_rbio s) n"
    obtain rc1 s1 h1 where fl: "gx_tls_flush_usb env dev (apply_step s st) (h @ queries_of st) = (rc1, s1, h1)"
      by (rule prod_cases3)
    obtain rc2 s2 session2 h2 where rs:
      "tls_receive_step env sched deadline (tt_later t) s1 session h1 = (rc2, s2, session2, h2)"
      by (rule prod_cases4)
    note e1 = step_flush_engine [OF fl] and e2 = receive_step_engine [OF rs]
    have p: "plain (step_engine st) = plain (ts_engine s) @ (case step_status st of Inl _ \<Rightarrow> [] | Inr out \<Rightarrow> take n out)"
      using plain by (simp add: records_plaintext_def st_def)
    note run = Cons.prems [simplified, unfolded st_def [symmetric] Let_def fl prod.case]
    show ?thesis
    proof (cases rc1)
      case (Inl e)
      then have "rc = Inl e" "s' = s1" using run False by simp_all
      then show ?thesis using e1 p Inl by auto
    next
      case flushed: (Inr u)
      show ?thesis
      proof (cases "step_status st")
        case (Inr out)
        then have "s' = s1" "rc = (if out \<noteq> [] then Inr (take n out) else Inl LIBUSB_ERROR_IO)"
          using run False flushed by (auto split: if_splits)
        then show ?thesis using e1 p Inr by auto
      next
        case (Inl e)
        then have same: "plain (ts_engine s1) = plain (ts_engine s)" using e1 p by simp
        then have "plain (ts_engine s2) = plain (ts_engine s)" using e2 by simp
        then show ?thesis
          using run False flushed Inl same rs Cons.IH [of s1 session h1] Cons.IH [of s2 session2 h2]
          by (auto split: ssl_error.splits if_splits sum.splits)
      qed
    qed
  qed
qed auto

lemma read_plaintext:
  assumes "records_plaintext eng plain"
    and "gx_tls_server_read_application eng env sched dev n w start ticks s session h = (rc, s', session', h')"
  shows "\<exists>lost. plain (ts_engine s') = plain (ts_engine s) @ (case rc of Inr out \<Rightarrow> out | Inl _ \<Rightarrow> lost)
      \<and> (rc = Inl LIBUSB_ERROR_TIMEOUT \<and> writes_in_time env \<longrightarrow> lost = [])"
  using assms(2) read_loop_plaintext [OF assms(1)]
  by (fastforce simp: gx_tls_server_read_application_def split: if_splits)

section \<open>What a capture makes of the plaintext\<close>

definition image_message :: "inner_desc \<Rightarrow> bool" where
  "image_message m \<longleftrightarrow> inner_ok m \<and> iv_checksum_ok (inner_view_of m) \<and> is_image_message (inner_view_of m)"

definition image_bytes :: "inner_desc \<Rightarrow> u8 list" where
  "image_bytes m = take GX5125_IMAGE_RAW_FRAME_SIZE (drop 5 (iv_data (inner_view_of m)))"

text \<open>A message the parser passes over: checked, not an image, and short enough for the channel.\<close>

definition other_message :: "inner_desc \<Rightarrow> bool" where
  "other_message m \<longleftrightarrow> length (fst (snd m)) < GX5125_OUTER_MAX_PAYLOAD \<and> iv_checksum_ok (inner_view_of m)
     \<and> \<not> is_image_message (inner_view_of m)"

definition blank_frame :: "u8 list" where
  "blank_frame = replicate GX5125_IMAGE_RAW_FRAME_SIZE 0"

text \<open>The parse of a whole stream at once: what remains of it, the frame, and whether an image was found.\<close>

definition scan_plaintext :: "u8 list \<Rightarrow> u8 list \<times> u8 list \<times> bool" where
  "scan_plaintext xs =
     (let (b, complete) = gx_capture_parse_stream \<lparr>cb_stream = xs, cb_raw = blank_frame, cb_result = zero_capture_result\<rparr>
      in (cb_stream b, cb_raw b, complete))"

lemma parse_core:
  "cb_stream b = cb_stream b2 \<Longrightarrow> cb_raw b = cb_raw b2 \<Longrightarrow>
   cb_stream (fst (gx_capture_parse_stream b)) = cb_stream (fst (gx_capture_parse_stream b2))
   \<and> cb_raw (fst (gx_capture_parse_stream b)) = cb_raw (fst (gx_capture_parse_stream b2))
   \<and> snd (gx_capture_parse_stream b) = snd (gx_capture_parse_stream b2)"
proof (induction b arbitrary: b2 rule: measure_induct_rule [of "\<lambda>b. length (cb_stream b)"])
  case (less b)
  show ?case
  proof (cases "parse_move_of b")
    case Wait
    then have "parse_move_of b2 = Wait"
      using less.prems by (auto simp: parse_move_of_def Let_def split: if_splits sum.splits)
    then show ?thesis using Wait less.prems by (simp add: parse_by_moves [of b] parse_by_moves [of b2])
  next
    case (Found v)
    then have "parse_move_of b2 = Found v"
      using less.prems by (auto simp: parse_move_of_def Let_def split: if_splits sum.splits)
    then show ?thesis using Found less.prems by (simp add: parse_by_moves [of b] parse_by_moves [of b2] take_image_def)
  next
    case (Advance n r)
    then obtain r2 where m2: "parse_move_of b2 = Advance n r2"
      using less.prems by (auto simp: parse_move_of_def Let_def split: if_splits sum.splits)
    have "length (cb_stream b) - n < length (cb_stream b)" using Advance_progress [OF Advance] by linarith
    then show ?thesis
      using less.IH [of "b\<lparr>cb_stream := drop n (cb_stream b), cb_result := r\<rparr>"
          "b2\<lparr>cb_stream := drop n (cb_stream b2), cb_result := r2\<rparr>"] less.prems
      by (simp add: parse_by_moves [of b] parse_by_moves [of b2] Advance m2)
  qed
qed

lemma parse_incomplete_raw: "gx_capture_parse_stream b = (b', False) \<Longrightarrow> cb_raw b' = cb_raw b"
proof (induction b rule: measure_induct_rule [of "\<lambda>b. length (cb_stream b)"])
  case (less b)
  show ?case
  proof (cases "parse_move_of b")
    case (Advance n r)
    have "length (cb_stream b) - n < length (cb_stream b)" using Advance_progress [OF Advance] by linarith
    then show ?thesis
      using less.IH [of "b\<lparr>cb_stream := drop n (cb_stream b), cb_result := r\<rparr>"] less.prems
      by (simp add: parse_by_moves [of b] Advance)
  qed (use less.prems in \<open>simp_all add: parse_by_moves [of b]\<close>)
qed

text \<open>The state of the buffers after the bytes \<open>xs\<close> of a stream without an image.\<close>

definition awaiting :: "capture_buffers \<Rightarrow> u8 list \<Rightarrow> bool" where
  "awaiting b xs \<longleftrightarrow> scan_plaintext xs = (cb_stream b, cb_raw b, False) \<and> cb_raw b = blank_frame"

lemma awaiting_start:
  "awaiting \<lparr>cb_stream = [], cb_raw = replicate GX5125_IMAGE_RAW_FRAME_SIZE 0, cb_result = r\<rparr> []"
  by (simp add: awaiting_def scan_plaintext_def blank_frame_def gx_capture_parse_stream.simps)

lemma awaiting_result [simp]: "awaiting (b\<lparr>cb_result := r\<rparr>) xs = awaiting b xs"
  by (simp add: awaiting_def)

lemma awaiting_chunk:
  assumes "awaiting b xs" and "gx_capture_parse_stream (b\<lparr>cb_stream := cb_stream b @ x, cb_result := r\<rparr>) = (b1, complete)"
  shows "if complete then scan_plaintext (xs @ x) = (cb_stream b1, cb_raw b1, True) else awaiting b1 (xs @ x)"
proof -
  let ?b0 = "\<lparr>cb_stream = xs, cb_raw = blank_frame, cb_result = zero_capture_result\<rparr>"
  obtain bs where bs: "gx_capture_parse_stream ?b0 = (bs, False)" "cb_stream bs = cb_stream b" "cb_raw bs = cb_raw b"
    using assms(1) by (auto simp: awaiting_def scan_plaintext_def split: prod.splits)
  have "?b0\<lparr>cb_stream := xs @ x\<rparr> = with_more x ?b0" by (simp add: with_more_def)
  then have "gx_capture_parse_stream \<lparr>cb_stream = xs @ x, cb_raw = blank_frame, cb_result = zero_capture_result\<rparr>
      = gx_capture_parse_stream (with_more x bs)"
    using parse_append [of x ?b0] bs(1) by simp
  moreover have "cb_stream (with_more x bs) = cb_stream (b\<lparr>cb_stream := cb_stream b @ x, cb_result := r\<rparr>)"
    "cb_raw (with_more x bs) = cb_raw (b\<lparr>cb_stream := cb_stream b @ x, cb_result := r\<rparr>)"
    using bs by (simp_all add: with_more_def)
  from parse_core [OF this] have "cb_stream (fst (gx_capture_parse_stream (with_more x bs))) = cb_stream b1"
    "cb_raw (fst (gx_capture_parse_stream (with_more x bs))) = cb_raw b1"
    "snd (gx_capture_parse_stream (with_more x bs)) = complete"
    by (simp_all add: assms(2))
  ultimately have "scan_plaintext (xs @ x) = (cb_stream b1, cb_raw b1, complete)"
    by (simp add: scan_plaintext_def split_beta)
  moreover have "\<not> complete \<longrightarrow> cb_raw b1 = blank_frame"
    using parse_incomplete_raw [of _ b1] assms by (auto simp: awaiting_def)
  ultimately show ?thesis by (cases complete) (simp_all add: awaiting_def)
qed

text \<open>An image that is found is one of the stream's messages.\<close>

lemma scan_sound:
  assumes "scan_plaintext xs = (rest, raw, True)"
  shows "\<exists>pre m post. xs = pre @ inner_frame m @ post \<and> image_message m \<and> raw = image_bytes m"
proof -
  obtain b where b: "gx_capture_parse_stream \<lparr>cb_stream = xs, cb_raw = blank_frame, cb_result = zero_capture_result\<rparr> = (b, True)"
    "raw = cb_raw b"
    using assms by (auto simp: scan_plaintext_def split: prod.splits)
  from parse_stream_sound [OF b(1)] obtain pre where "xs = pre @ cb_stream b" "holds_image b" by auto
  moreover from this(2) obtain m post where "cb_stream b = inner_frame m @ post" "image_message m" "cb_raw b = image_bytes m"
    unfolding holds_image_def image_message_def image_bytes_def by blast
  ultimately have "xs = pre @ inner_frame m @ post \<and> image_message m \<and> raw = image_bytes m" using b(2) by simp
  then show ?thesis by blast
qed

lemma checked_move:
  assumes "length (fst (snd m)) < GX5125_OUTER_MAX_PAYLOAD" and "iv_checksum_ok (inner_view_of m)"
    and "cb_stream b = inner_frame m @ rest"
  shows "parse_move_of b = (if is_image_message (inner_view_of m) then Found (inner_view_of m)
     else Advance (length (inner_frame m)) (note_message (inner_view_of m) (cb_result b)))"
proof -
  obtain c data ck where m: "m = (c, data, ck)" by (rule prod_cases3)
  have data: "length data < GX5125_OUTER_MAX_PAYLOAD" using assms(1) m by simp
  have n: "unat (of_nat (length data + 1) :: u16) = length data + 1"
    using data by (intro unat_inner_length) (simp add: outer_consts)
  have "le16 ((inner_frame m @ rest) ! 1) ((inner_frame m @ rest) ! 2) = of_nat (length data + 1)"
    by (simp add: inner_frame_def m)
  with n have hd: "unat (le16 ((inner_frame m @ rest) ! 1) ((inner_frame m @ rest) ! 2)) = length data + 1"
    by (simp only:)
  have "gx_inner_decode (Buf (inner_frame m)) = Inr (inner_view_of m)"
    using data by (intro inner.decode_exact) (simp add: inner_ok_def m outer_consts)
  moreover have "take (3 + (length data + 1)) (inner_frame m @ rest) = inner_frame m" by (simp add: m)
  ultimately show ?thesis
    using data assms(2) unfolding parse_move_of_def assms(3) Let_def hd by (simp add: m)
qed

lemma image_message_size: "image_message m \<Longrightarrow> length (image_bytes m) = GX5125_IMAGE_RAW_FRAME_SIZE"
  by (auto simp: image_message_def image_bytes_def is_image_message_def)

text \<open>An image after complete other messages is found, whatever follows it.\<close>

lemma scan_complete:
  assumes "list_all other_message ms" and "image_message m" and "length (fst (snd m)) < GX5125_OUTER_MAX_PAYLOAD"
  shows "\<exists>rest'. scan_plaintext (concat (map inner_frame ms) @ inner_frame m @ rest) = (rest', image_bytes m, True)"
proof -
  have "\<exists>b'. gx_capture_parse_stream b = (b', True) \<and> cb_raw b' = image_bytes m"
    if "cb_stream b = concat (map inner_frame ms) @ inner_frame m @ rest" "list_all other_message ms" for b ms
    using that
  proof (induction ms arbitrary: b)
    case Nil
    then have "parse_move_of b = Found (inner_view_of m)"
      using checked_move [of m b rest] assms(2,3) by (simp add: image_message_def)
    then show ?case by (simp add: parse_by_moves [of b] take_image_def image_bytes_def)
  next
    case (Cons a ms)
    have "parse_move_of b = Advance (length (inner_frame a)) (note_message (inner_view_of a) (cb_result b))"
      using checked_move [of a b "concat (map inner_frame ms) @ inner_frame m @ rest"] Cons.prems
      by (simp add: other_message_def)
    then show ?case using Cons.IH Cons.prems by (simp add: parse_by_moves [of b])
  qed
  from this [of "\<lparr>cb_stream = concat (map inner_frame ms) @ inner_frame m @ rest, cb_raw = blank_frame, cb_result = zero_capture_result\<rparr>" ms]
  show ?thesis using assms(1) by (auto simp: scan_plaintext_def)
qed

section \<open>The capture loops over the channel\<close>

text \<open>
  A piece of a run: the engine delivered \<open>new\<close>, of which the capture took \<open>got\<close> into its stream.
\<close>

definition took :: "('e \<Rightarrow> u8 list) \<Rightarrow> 'e channel \<Rightarrow> 'e channel \<Rightarrow> u8 list \<Rightarrow> u8 list \<Rightarrow> bool" where
  "took plain ch ch' new got \<longleftrightarrow>
     plain (ts_engine (ch_server ch')) = plain (ts_engine (ch_server ch)) @ new \<and> subseq got new"

lemma took_none: "took plain ch ch' [] []" if "ts_engine (ch_server ch') = ts_engine (ch_server ch)"
  using that by (simp add: took_def)

lemma took_trans:
  "took plain ch ch1 new1 got1 \<Longrightarrow> took plain ch1 ch2 new2 got2 \<Longrightarrow> took plain ch ch2 (new1 @ new2) (got1 @ got2)"
  by (simp add: took_def list_emb_append_mono)

text \<open>How the stream \<open>xs\<close> of a capture ended: with its image, or without one.\<close>

definition stream_result :: "bool \<Rightarrow> capture_buffers \<Rightarrow> u8 list \<Rightarrow> bool" where
  "stream_result found b xs \<longleftrightarrow>
     (if found then scan_plaintext xs = (cb_stream b, cb_raw b, True) \<and> holds_image b else awaiting b xs)"

lemma collect_plaintext:
  assumes plain: "records_plaintext eng plain"
  shows "awaiting b xs \<Longrightarrow> capture_collect_tls eng env sched dev c dl ts b ch h = (out, b', ch', h') \<Longrightarrow>
    \<exists>new got. took plain ch ch' new got \<and> stream_result (out = Some (Inr ())) b' (xs @ got)
      \<and> (writes_in_time env \<and> (\<forall>e. out \<noteq> Some (Inl e)) \<longrightarrow> got = new)"
proof (induction ts arbitrary: b ch h xs)
  case Nil
  then show ?case by (auto simp: took_def stream_result_def intro!: exI [of _ "[]"])
next
  case (Cons t ts)
  let ?f = "flag_after (ct_stores t) (ch_cancel ch)"
  obtain rd server session h1 where r: "gx_tls_server_read_application eng env sched dev
      GX_TLS_READ_CHUNK (capture_wait_ms dl (ct_later t)) (ct_start t) (ct_reads t)
      (ch_server ch) (ch_session ch) h = (rd, server, session, h1)"
    by (rule prod_cases4)
  let ?ch = "ch\<lparr>ch_cancel := ?f, ch_server := server, ch_session := session\<rparr>"
  obtain lost where lost: "plain (ts_engine server) = plain (ts_engine (ch_server ch)) @ (case rd of Inr out \<Rightarrow> out | Inl _ \<Rightarrow> lost)"
      "rd = Inl LIBUSB_ERROR_TIMEOUT \<and> writes_in_time env \<longrightarrow> lost = []"
    using read_plaintext [OF plain r] by blast
  have go: ?case
    if n: "capture_collect_tls eng env sched dev c dl ts b1 ?ch h1 = (out, b', ch', h')"
      and a: "awaiting b1 (xs @ x)" and x: "took plain ch ?ch y x" "writes_in_time env \<longrightarrow> x = y" for b1 x y
  proof -
    from Cons.IH [OF a n] obtain new got where IH: "took plain ?ch ch' new got" "stream_result (out = Some (Inr ())) b' ((xs @ x) @ got)"
      "writes_in_time env \<and> (\<forall>e. out \<noteq> Some (Inl e)) \<longrightarrow> got = new" by auto
    then show ?thesis
      using took_trans [OF x(1) IH(1)] x(2)
      by (intro conjI exI [of _ "y @ new"] exI [of _ "x @ got"]) auto
  qed
  show ?case
  proof (cases "ct_now t \<ge> dl \<or> c \<and> ?f \<or> ct_later t \<ge> dl")
    case True
    then show ?thesis
      using Cons.prems by (intro conjI exI [of _ "[]"]) (auto simp: took_def stream_result_def Let_def split: if_splits)
  next
    case False
    show ?thesis
    proof (cases rd)
      case (Inl e)
      have t: "took plain ch ?ch lost []" using lost(1) Inl by (simp add: took_def)
      show ?thesis
      proof (cases "e = LIBUSB_ERROR_TIMEOUT")
        case True
        with False Cons.prems r Inl t lost(2) show ?thesis by (intro go [of b "[]" lost]) (auto simp: Let_def)
      next
        case other: False
        then have "out = Some (Inl e)" "b' = b" "ch' = ?ch" "h' = h1" using False Cons.prems(2) r Inl by (auto simp: Let_def)
        then show ?thesis using t Cons.prems(1)
          by (intro conjI exI [of _ lost] exI [of _ "[]"]) (auto simp: stream_result_def)
      qed
    next
      case (Inr chunk)
      have t: "took plain ch ?ch chunk chunk" "took plain ch ?ch chunk []" using lost(1) Inr by (simp_all add: took_def)
      let ?b = "b\<lparr>cb_stream := cb_stream b @ chunk, cb_result := (cb_result b)
          \<lparr>plaintext_bytes := plaintext_bytes (cb_result b) + length chunk\<rparr>\<rparr>"
      obtain b1 complete where p: "gx_capture_parse_stream ?b = (b1, complete)" by (rule prod.exhaust)
      note chunk = awaiting_chunk [OF Cons.prems(1) p] and holds = parse_stream_sound [OF p]
      consider (over) "length chunk > GX_TLS_PLAINTEXT_STREAM_CAPACITY - length (cb_stream b)"
        | (found) "\<not> length chunk > GX_TLS_PLAINTEXT_STREAM_CAPACITY - length (cb_stream b)" complete
        | (more) "\<not> length chunk > GX_TLS_PLAINTEXT_STREAM_CAPACITY - length (cb_stream b)" "\<not> complete" by blast
      then show ?thesis
      proof cases
        case over
        then have "out = Some (Inl LIBUSB_ERROR_OVERFLOW)" "b' = b" "ch' = ?ch" "h' = h1"
          using False Cons.prems(2) r Inr by (auto simp: Let_def)
        then show ?thesis using t Cons.prems(1)
          by (intro conjI exI [of _ chunk] exI [of _ "[]"]) (auto simp: stream_result_def)
      next
        case found
        then have "out = Some (Inr ())" "b' = b1" "ch' = ?ch" "h' = h1"
          using False Cons.prems(2) r Inr p by (auto simp: Let_def)
        then show ?thesis using t chunk holds found(2)
          by (intro conjI exI [of _ chunk] exI [of _ chunk]) (auto simp: stream_result_def)
      next
        case more
        with False Cons.prems r Inr p chunk t show ?thesis by (intro go [of b1 chunk chunk]) (auto simp: Let_def)
      qed
    qed
  qed
qed

lemma image_request_io: "grows io_call h (snd (gx_capture_send_image_request env dev h))"
  by (auto simp: gx_capture_send_image_request_def intro: send_outer_io split: sum.split)

lemma image_request_tracks:
  "gx_capture_send_image_request env dev h = (rc, h1) \<Longrightarrow> tracks s h s h1"
  using image_request_io [of h env dev] by (intro tracks_io) simp_all

lemma requests_plaintext:
  assumes plain: "records_plaintext eng plain"
  shows "awaiting b xs \<Longrightarrow> capture_requests_tls eng env sched dev c timeout_ms rds k b ch h = (rc, b', ch', h') \<Longrightarrow>
    \<exists>new got. took plain ch ch' new got \<and> stream_result (rc = Inr ()) b' (xs @ got)
      \<and> (writes_in_time env \<and> rc = Inr () \<longrightarrow> got = new)"
proof (induction rds arbitrary: k b ch h xs)
  case Nil
  then show ?case by (auto simp: took_def stream_result_def intro!: exI [of _ "[]"])
next
  case (Cons rd rds)
  let ?ch = "ch\<lparr>ch_cancel := flag_after (cr_stores rd) (ch_cancel ch)\<rparr>"
  let ?b = "b\<lparr>cb_result := (cb_result b)\<lparr>requests_sent := k\<rparr>\<rparr>"
  obtain rc0 h1 where s: "gx_capture_send_image_request env dev h = (rc0, h1)" by (rule prod.exhaust)
  obtain out b2 ch2 h2 where col: "capture_collect_tls eng env sched dev c (cr_start rd + timeout_ms)
      (cr_ticks rd) ?b ?ch h1 = (out, b2, ch2, h2)"
    by (rule prod_cases4)
  have "awaiting ?b xs" using Cons.prems(1) by simp
  from collect_plaintext [OF plain this col] obtain new got where c: "took plain ?ch ch2 new got"
    "stream_result (out = Some (Inr ())) b2 (xs @ got)" "writes_in_time env \<and> (\<forall>e. out \<noteq> Some (Inl e)) \<longrightarrow> got = new" by auto
  have t: "took plain ch ch2 new got" using c(1) by (simp add: took_def)
  consider (stop) e where "rc = Inl e" "b' = b" "ch' = ?ch" "h' = h \<or> h' = h1"
    | (ret) res where "out = Some res" "rc = res" "b' = b2" "ch' = ch2" "h' = h2"
    | (more) "out = None" "capture_requests_tls eng env sched dev c timeout_ms rds (k + 1) b2 ch2 h2 = (rc, b', ch', h')"
    using Cons.prems(2) s col by (auto simp: Let_def split: if_splits sum.splits option.splits)
  then show ?case
  proof cases
    case stop
    then show ?thesis using Cons.prems(1)
      by (intro conjI exI [of _ "[]"]) (auto simp: took_def stream_result_def)
  next
    case ret
    then show ?thesis using t c(2,3) by (intro conjI exI [of _ new] exI [of _ got]) auto
  next
    case more
    then have "awaiting b2 (xs @ got)" using c(2) by (simp add: stream_result_def)
    from Cons.IH [OF this more(2)] obtain new2 got2 where IH: "took plain ch2 ch' new2 got2"
      "stream_result (rc = Inr ()) b' ((xs @ got) @ got2)" "writes_in_time env \<and> rc = Inr () \<longrightarrow> got2 = new2" by auto
    then show ?thesis using took_trans [OF t IH(1)] c(3) more(1)
      by (intro conjI exI [of _ "new @ new2"] exI [of _ "got @ got2"]) auto
  qed
qed

text \<open>
  What the whole capture makes of the plaintext \<open>got\<close> it took: an image message of it, all of whose parts are
  returned, or nothing.
\<close>

definition capture_of :: "u8 list \<Rightarrow> (usb_error + unit) \<Rightarrow> u8 list \<Rightarrow> gx_capture_result \<Rightarrow> bool" where
  "capture_of got rc raw result \<longleftrightarrow>
     (rc = Inr () \<longrightarrow> (\<exists>pre m post. got = pre @ inner_frame m @ post \<and> image_message m
        \<and> raw = image_bytes m \<and> cap_metadata result = take 5 (iv_data (inner_view_of m))))
   \<and> (rc \<noteq> Inr () \<longrightarrow> raw = blank_frame)
   \<and> (\<forall>ms m rest. got = concat (map inner_frame ms) @ inner_frame m @ rest
        \<and> list_all other_message ms \<and> image_message m \<and> length (fst (snd m)) < GX5125_OUTER_MAX_PAYLOAD
        \<longrightarrow> rc = Inr () \<and> raw = image_bytes m)"

lemma found_capture_of:
  assumes "scan_plaintext got = (cb_stream b, cb_raw b, True)" and "holds_image b"
  shows "\<exists>pre m post. got = pre @ inner_frame m @ post \<and> image_message m \<and> cb_raw b = image_bytes m
    \<and> cap_metadata (cb_result b) = take 5 (iv_data (inner_view_of m))"
proof -
  obtain b' where b': "gx_capture_parse_stream \<lparr>cb_stream = got, cb_raw = blank_frame, cb_result = zero_capture_result\<rparr> = (b', True)"
    "cb_stream b' = cb_stream b"
    using assms(1) by (auto simp: scan_plaintext_def split: prod.splits)
  from parse_stream_sound [OF b'(1)] b'(2) obtain pre where "got = pre @ cb_stream b" by auto
  moreover from assms(2) obtain m post where "cb_stream b = inner_frame m @ post" "image_message m" "cb_raw b = image_bytes m"
    "cap_metadata (cb_result b) = take 5 (iv_data (inner_view_of m))"
    unfolding holds_image_def image_message_def image_bytes_def by blast
  ultimately have "got = pre @ inner_frame m @ post \<and> image_message m \<and> cb_raw b = image_bytes m
    \<and> cap_metadata (cb_result b) = take 5 (iv_data (inner_view_of m))" by simp
  then show ?thesis by blast
qed

lemma capture_plaintext:
  assumes plain: "records_plaintext eng plain" and limits: "timeout_ms \<noteq> 0" "n \<noteq> 0"
    and run: "capture_image_tls eng env sched dev timeout_ms n c plan raw result ch h = (rc, raw', result', ch', h')"
  shows "\<exists>new got. took plain ch ch' new got \<and> (writes_in_time env \<and> rc = Inr () \<longrightarrow> got = new)
    \<and> capture_of got rc raw' result'"
proof -
  from run limits obtain b where b:
    "capture_requests_tls eng env sched dev c timeout_ms (map plan [0..<n]) 1
      \<lparr>cb_stream = [], cb_raw = replicate GX5125_IMAGE_RAW_FRAME_SIZE 0, cb_result = zero_capture_result\<rparr> ch h
      = (rc, b, ch', h')" "raw' = cb_raw b" "result' = cb_result b"
    by (auto simp: capture_image_tls_def simp del: capture_requests_tls.simps split: prod.splits)
  from requests_plaintext [OF plain awaiting_start b(1)] obtain new got where t: "took plain ch ch' new got"
    "stream_result (rc = Inr ()) b got" "writes_in_time env \<and> rc = Inr () \<longrightarrow> got = new" by auto
  have scan: "\<exists>rest. scan_plaintext got = (rest, raw', rc = Inr ())"
    and off: "rc \<noteq> Inr () \<longrightarrow> raw' = blank_frame"
    using t(2) b(2) by (auto simp: stream_result_def awaiting_def split: if_splits)
  have on: "rc = Inr () \<longrightarrow> (\<exists>pre m post. got = pre @ inner_frame m @ post \<and> image_message m
      \<and> raw' = image_bytes m \<and> cap_metadata result' = take 5 (iv_data (inner_view_of m)))"
    using t(2) found_capture_of [of got b] b(2,3) by (simp add: stream_result_def)
  have "rc = Inr () \<and> raw' = image_bytes m"
    if "got = concat (map inner_frame ms) @ inner_frame m @ rest" "list_all other_message ms" "image_message m"
      "length (fst (snd m)) < GX5125_OUTER_MAX_PAYLOAD" for ms m rest
    using scan_complete [OF that(2,3,4), of rest] scan that(1) by auto
  with on off have "capture_of got rc raw' result'" unfolding capture_of_def by blast
  with t show ?thesis by blast
qed

section \<open>What the loops leave of the server\<close>

lemma collect_tracks:
  "capture_collect_tls eng env sched dev c dl ts b ch h = (out, b', ch', h') \<Longrightarrow>
   tracks (ch_server ch) h (ch_server ch') h'"
proof (induction ts arbitrary: b ch h)
  case (Cons t ts)
  obtain rd server session h1 where r: "gx_tls_server_read_application eng env sched dev
      GX_TLS_READ_CHUNK (capture_wait_ms dl (ct_later t)) (ct_start t) (ct_reads t)
      (ch_server ch) (ch_session ch) h = (rd, server, session, h1)"
    by (rule prod_cases4)
  note tr = read_application_spec(1) [OF r]
  have IH: "tracks (ch_server ch) h (ch_server ch') h'"
    if "capture_collect_tls eng env sched dev c dl ts b1 ch1 h1 = (out, b', ch', h')" and "ch_server ch1 = server" for b1 ch1
    using tracks_trans [OF tr] Cons.IH [OF that(1)] that(2) by simp
  show ?case
    using Cons.prems tr r by (auto simp: Let_def split: if_splits sum.splits prod.splits intro: IH)
qed simp

lemma requests_tracks:
  "capture_requests_tls eng env sched dev c timeout_ms rds k b ch h = (rc, b', ch', h') \<Longrightarrow>
   tracks (ch_server ch) h (ch_server ch') h'"
proof (induction rds arbitrary: k b ch h)
  case (Cons rd rds)
  let ?ch = "ch\<lparr>ch_cancel := flag_after (cr_stores rd) (ch_cancel ch)\<rparr>"
  let ?b = "b\<lparr>cb_result := (cb_result b)\<lparr>requests_sent := k\<rparr>\<rparr>"
  obtain rc0 h1 where s: "gx_capture_send_image_request env dev h = (rc0, h1)" by (rule prod.exhaust)
  obtain out b2 ch2 h2 where col: "capture_collect_tls eng env sched dev c (cr_start rd + timeout_ms)
      (cr_ticks rd) ?b ?ch h1 = (out, b2, ch2, h2)"
    by (rule prod_cases4)
  note t1 = image_request_tracks [OF s, of "ch_server ch"]
  have t2: "tracks (ch_server ch) h (ch_server ch2) h2"
    using tracks_trans [OF t1] collect_tracks [OF col] by simp
  have IH: "capture_requests_tls eng env sched dev c timeout_ms rds (k + 1) b2 ch2 h2 = (rc, b', ch', h')
      \<Longrightarrow> tracks (ch_server ch) h (ch_server ch') h'"
    using tracks_trans [OF t2] Cons.IH by blast
  from Cons.prems IH s col t1 t2 show ?case
    by (auto simp: Let_def split: if_splits sum.splits option.splits)
qed simp

lemma capture_tracks:
  "capture_image_tls eng env sched dev timeout_ms n c plan raw result ch h = (rc, raw', result', ch', h') \<Longrightarrow>
   tracks (ch_server ch) h (ch_server ch') h'"
  using requests_tracks by (fastforce simp: capture_image_tls_def split: if_splits prod.splits)


text \<open>An engine after its handshake that delivers the acknowledgement and an image in one read; its state is what it delivered.\<close>

definition sample_delivery :: "u8 list" where
  "sample_delivery = image_plaintext 1 [1, 2, 3, 4, 5] (replicate GX5125_IMAGE_RAW_FRAME_SIZE 9)"

definition image_engine :: "u8 list ssl_engine" where
  "image_engine =
     \<lparr>eng_handshake = (\<lambda>e psk rbio. \<lparr>step_status = Inr [], step_queries = [], step_rbio = rbio, step_output = [],
         step_engine = e\<rparr>),
      eng_read = (\<lambda>e psk rbio n. \<lparr>step_status = Inr sample_delivery, step_queries = [],
         step_rbio = rbio, step_output = [], step_engine = e @ take n sample_delivery\<rparr>),
      eng_finished = (\<lambda>e. True), eng_fresh = []\<rparr>"

definition sample_round :: channel_round where
  "sample_round = \<lparr>cr_stores = [], cr_start = 10, cr_ticks =
     [\<lparr>ct_now = 20, ct_stores = [True, False], ct_later = 30, ct_start = 31,
       ct_reads = [\<lparr>tt_now = 32, tt_later = 33\<rparr>]\<rparr>]\<rparr>"

definition image_channel :: "u8 list channel" where
  "image_channel = \<lparr>ch_server = (zero_tls_server image_engine)\<lparr>ts_context := True, ts_ssl := True\<rparr>,
     ch_session = zero_session\<lparr>receiver_started := True\<rparr>, ch_cancel = False\<rparr>"

lemma image_engine_records: "records_plaintext image_engine id"
  by (simp add: records_plaintext_def image_engine_def)

lemma sample_delivery_size: "length sample_delivery = 7699"
  by (simp add: sample_delivery_def image_plaintext_def message_of_def Let_def sensor_consts)

lemma image_read:
  "\<exists>server. gx_tls_server_read_application image_engine env sched dev GX_TLS_READ_CHUNK 1000 31 [\<lparr>tt_now = 32, tt_later = 33\<rparr>]
      (ch_server image_channel) s h = (Inr sample_delivery, server, s, h)"
proof -
  let ?server = "ch_server image_channel"
  let ?st = "eng_read image_engine (ts_engine ?server) (psk_answer_of ?server) (ts_rbio ?server) GX_TLS_READ_CHUNK"
  have st: "step_status ?st = Inr sample_delivery" "step_output ?st = []" "queries_of ?st = []" "eng_finished image_engine e" for e
    by (simp_all add: image_engine_def queries_of_def)
  have "ts_wbio (apply_step ?server ?st) = []" "ts_ssl (apply_step ?server ?st)"
    using run_queries_tracks [of ?server "step_queries ?st"] st(2)
    by (simp_all add: apply_step_def image_channel_def zero_tls_server_def)
  then have "gx_tls_flush_usb env dev (apply_step ?server ?st) h = (Inr (), apply_step ?server ?st, h)"
    by (simp add: gx_tls_flush_usb_def tls_flush_loop.simps [of env dev "apply_step ?server ?st"])
  moreover have "ts_ssl ?server" by (simp add: image_channel_def)
  moreover have "take GX_TLS_READ_CHUNK sample_delivery = sample_delivery" "sample_delivery \<noteq> []"
    using sample_delivery_size by (auto simp: capture_consts)
  ultimately show ?thesis
    using st by (simp add: gx_tls_server_read_application_def GX_TLS_READ_CHUNK_def Let_def)
qed

lemma image_arrives:
  "\<exists>result ch' h'. capture_image_tls image_engine quiet_env silent_sched claimed_device 4000 1 True (\<lambda>_. sample_round) []
      zero_capture_result image_channel [] = (Inr (), replicate GX5125_IMAGE_RAW_FRAME_SIZE 9, result, ch', h')"
proof -
  obtain h1 where s: "gx_capture_send_image_request quiet_env claimed_device [] = (Inr (), h1)"
    using send_image_request_progress [OF quiet_works claimed_sample, of "[]"] by (metis prod.collapse)
  let ?ch = "image_channel\<lparr>ch_cancel := False\<rparr>"
  obtain server where r: "gx_tls_server_read_application image_engine quiet_env silent_sched claimed_device GX_TLS_READ_CHUNK
      1000 31 [\<lparr>tt_now = 32, tt_later = 33\<rparr>] (ch_server image_channel) (ch_session image_channel) h1
      = (Inr sample_delivery, server, ch_session image_channel, h1)"
    using image_read by blast
  let ?b = "\<lparr>cb_stream = sample_delivery, cb_raw = replicate GX5125_IMAGE_RAW_FRAME_SIZE 0, cb_result = zero_capture_result
      \<lparr>requests_sent := 1, plaintext_bytes := 7699\<rparr>\<rparr>"
  obtain b1 where "gx_capture_parse_stream ?b = (b1, True)" "cb_raw b1 = replicate GX5125_IMAGE_RAW_FRAME_SIZE 9"
    using parse_image_plaintext [of "[1, 2, 3, 4, 5]" "replicate GX5125_IMAGE_RAW_FRAME_SIZE 9" ?b 1]
    by (auto simp: sample_delivery_def)
  then show ?thesis
    using s r sample_delivery_size
    by (simp add: capture_image_tls_def sample_round_def image_channel_def flag_after_def Let_def
        capture_wait_ms_def GX_TLS_PLAINTEXT_STREAM_CAPACITY_def zero_capture_result_def)
qed


section \<open>A running session stays one\<close>

definition running_session :: "gx_session \<Rightarrow> bool" where
  "running_session s \<longleftrightarrow> session_ok s \<and> receiver_started s"

lemma dispatch_started [simp]: "receiver_started (snd (gx_dispatch_outer s f)) = receiver_started s"
  by (simp add: gx_dispatch_outer_def dispatch_inner_def tls_push_def gx_store_ack_def
      gx_store_response_def Let_def split: sum.split)

lemma dispatch_all_started [simp]: "receiver_started (dispatch_all s fs) = receiver_started s"
  by (induction fs arbitrary: s) simp_all

lemma iteration_started [simp]: "receiver_started (fst (receiver_iteration s rd)) = receiver_started s"
  by (auto simp: receiver_iteration_def gx_set_receiver_error_def gx_stream_feed_def gx_stream_parse_cut
      Let_def split: sum.split)

interpretation running: consumer_invariant running_session read_ok
proof unfold_locales
  show "running_session s \<Longrightarrow> read_ok rd \<Longrightarrow> running_session (fst (receiver_iteration s rd))" for s rd
    by (simp add: running_session_def session_ok_iteration)
  show "running_session s \<Longrightarrow> running_session (snd (tls_take s n))" for s n
    using tls_take_keeps [of s n] by (simp add: running_session_def tls_take_def Let_def)
  show "running_session s \<Longrightarrow> running_session (gx_session_tls_clear s)" for s
    using tls_clear_keeps [of s] by (simp add: running_session_def gx_session_tls_clear_def)
qed

end
