(* ===== verification/Peer.thy ===== *)
theory Peer
  imports Channel
begin

text \<open>
  The other end of the TLS connection. The bytes a TLS client in the sensor sends reach the engine only by the
  path of the program: outer frames of the TLS family in the bulk reads of the receiver thread, the
  session's queue, \<open>gx_session_tls_read\<close>, \<open>gx_tls_feed\<close> and the read BIO. The engine is OpenSSL's server
  side as documented: it asks for more data until what it needs has been fed to it.
\<close>

section \<open>From the bus to the read BIO\<close>

text \<open>
  Completed bulk reads that carry the TLS bytes \<open>bytes\<close>: in outer frames of any size, each padded with zeros, and
  cut into reads anywhere.
\<close>

definition tls_reads :: "u8 list \<Rightarrow> rx_read list \<Rightarrow> bool" where
  "tls_reads bytes rds \<longleftrightarrow>
     (\<exists>chunks ps. rds = map Inr chunks \<and> (\<forall>c \<in> set chunks. c \<noteq> [] \<and> length c \<le> GX_RX_TRANSFER_CAPACITY)
        \<and> concat chunks = concat (map (\<lambda>x. padded ((GX5125_OUTER_TLS, fst x), snd x)) ps)
        \<and> (\<forall>p \<in> set (map fst ps). length p \<le> GX5125_OUTER_MAX_PAYLOAD) \<and> concat (map fst ps) = bytes)"

text \<open>In every wait after the \<open>k\<close>-th frame of the driver these bytes arrive.\<close>

definition tls_arrives :: "scheduler \<Rightarrow> nat \<Rightarrow> u8 list \<Rightarrow> bool" where
  "tls_arrives sched k bytes \<longleftrightarrow> (\<forall>g t. send_count g = k \<longrightarrow> tls_reads bytes (arrivals (sched g t)))"

text \<open>A host that does its work, with memory BIOs that take and give all their bytes.\<close>

definition host_works :: "environment \<Rightarrow> bool" where
  "host_works env \<longleftrightarrow> calls_work env \<and> (\<forall>h n. n \<le> reply_moved (env h (Bio_read n)))
     \<and> (\<forall>h n. n \<le> reply_moved (env h (Bio_write n)))"

lemma dispatch_tls_frames:
  assumes "\<forall>p \<in> set ps. length p \<le> GX5125_OUTER_MAX_PAYLOAD"
    and "length (tls_fifo s) + length (concat ps) \<le> GX5125_TLS_FIFO_CAPACITY"
  shows "tls_fifo (dispatch_all s (map (\<lambda>p. outer_frame (GX5125_OUTER_TLS, p)) ps)) = tls_fifo s @ concat ps"
  using assms
proof (induction ps arbitrary: s)
  case (Cons p ps)
  let ?s = "snd (gx_dispatch_outer s (outer_frame (GX5125_OUTER_TLS, p)))"
  have "tls_fifo ?s = tls_fifo s @ p"
    using Cons.prems tls_receive_fifo [of p s] by (simp add: tls_receive_def)
  with Cons show ?case by simp
qed simp

definition quiet_session :: "gx_session \<Rightarrow> bool" where
  "quiet_session s \<longleftrightarrow> idle_session s \<and> tls_fifo s = []"

lemma tls_bytes_received:
  assumes "quiet_session s" and "tls_reads bytes rds" and "length bytes \<le> GX5125_TLS_FIFO_CAPACITY"
  shows "idle_session (receiver_run s rds) \<and> tls_fifo (receiver_run s rds) = bytes"
proof -
  from assms(2) obtain chunks ps where r: "rds = map Inr chunks"
    "\<forall>c \<in> set chunks. c \<noteq> [] \<and> length c \<le> GX_RX_TRANSFER_CAPACITY"
    "concat chunks = concat (map (\<lambda>x. padded ((GX5125_OUTER_TLS, fst x), snd x)) ps)"
    "\<forall>p \<in> set (map fst ps). length p \<le> GX5125_OUTER_MAX_PAYLOAD" "concat (map fst ps) = bytes"
    unfolding tls_reads_def by blast
  let ?fs = "map (\<lambda>x. ((GX5125_OUTER_TLS, fst x), snd x)) ps"
  have s: "\<not> stop_requested s" "receiver_error s = None" "stream s = replicate (length (stream s)) 0"
    "length (stream s) \<le> 3" "tls_fifo s = []"
    using assms(1) by (auto simp: quiet_session_def idle_session_def intro!: replicate_eqI)
  have run: "receiver_run s rds = feed_all s chunks"
    using receiver_run_feed_all [of s chunks] s r(1,2) by (simp add: outer_consts)
  have "\<forall>fn \<in> set ?fs. outer_ok (fst fn)"
    using r(4) by (auto simp: outer_ok_def gx_outer_family_supported_def outer_consts)
  moreover have "concat chunks = concat (map padded ?fs)" using r(3) by (simp add: comp_def)
  moreover have "\<forall>c \<in> set chunks. length c \<le> GX_RX_TRANSFER_CAPACITY" using r(2) by blast
  ultimately obtain rest where rest: "set rest \<subseteq> {0}" "length rest \<le> 3"
    "feed_all s chunks = (dispatch_all s (map (\<lambda>fn. outer_frame (fst fn)) ?fs))\<lparr>stream := rest\<rparr>"
    using feed_padded [of ?fs s "length (stream s)" chunks] s(3,4) by blast
  have "map (\<lambda>fn. outer_frame (fst fn)) ?fs = map (\<lambda>p. outer_frame (GX5125_OUTER_TLS, p)) (map fst ps)"
    by (simp add: comp_def)
  moreover have "tls_fifo (dispatch_all s (map (\<lambda>p. outer_frame (GX5125_OUTER_TLS, p)) (map fst ps))) = bytes"
    using dispatch_tls_frames [OF r(4), of s] s(5) r(5) assms(3) by simp
  ultimately show ?thesis
    using rest s(1,2) unfolding run rest(3) by (simp add: idle_session_def comp_def)
qed

lemma tls_read_arrives:
  assumes "quiet_session s" and "tls_reads bytes (arrivals plan)" and "bytes \<noteq> []" and "length bytes \<le> GX_TLS_IO_BUFFER"
  shows "\<exists>s'. gx_session_tls_read s GX_TLS_IO_BUFFER plan = (Inr bytes, s') \<and> quiet_session s'"
proof -
  let ?s = "receiver_run s (arrivals plan)"
  have "length bytes \<le> GX5125_TLS_FIFO_CAPACITY"
    using assms(4) by (simp add: GX_TLS_IO_BUFFER_def GX5125_TLS_FIFO_CAPACITY_def)
  note r = tls_bytes_received [OF assms(1,2) this]
  with assms(3) have "wait_while (\<lambda>s. tls_fifo s = [] \<and> receiver_error s = None \<and> \<not> stop_requested s) ?s (wakes plan) = (False, ?s)"
    by (intro wait_while_done) simp
  moreover have "tls_take ?s GX_TLS_IO_BUFFER = (bytes, ?s\<lparr>tls_fifo := []\<rparr>)"
    using r assms(4) by (simp add: tls_take_def)
  ultimately show ?thesis
    using r assms(3) by (simp add: gx_session_tls_read_def quiet_session_def idle_session_def GX_TLS_IO_BUFFER_def)
qed

lemma feed_gives_all:
  assumes "host_works env" and "ts_ssl server"
  shows "\<exists>n h'. gx_tls_feed env server input h = (True, server\<lparr>ts_rbio := ts_rbio server @ input, usb_input_bytes := n\<rparr>, h')
     \<and> send_count h' = send_count h"
proof -
  have "\<exists>h'. tls_feed_loop env input rbio h = (True, rbio @ input, h') \<and> send_count h' = send_count h" for rbio
  proof (cases "input = []")
    case True
    then show ?thesis by (simp add: tls_feed_loop.simps)
  next
    case False
    have "length input \<le> reply_moved (env h (Bio_write (length input)))" "reply_rc (env h (Bio_write (length input))) = Inr 0"
      using assms(1) by (simp_all add: host_works_def calls_work_def)
    then show ?thesis
      using False by (simp add: tls_feed_loop.simps [of env input] tls_feed_loop.simps [of env "[]"] ext_do_def send_count_def min_def)
  qed
  then obtain h' where "tls_feed_loop env input (ts_rbio server) h = (True, ts_rbio server @ input, h')"
    "send_count h' = send_count h" by blast
  then show ?thesis
    using assms(2) by (intro exI [of _ "usb_input_bytes server + of_nat (length input)"] exI [of _ h']) (simp add: gx_tls_feed_def)
qed

text \<open>What a step of the server keeps: everything but the BIO and the counters.\<close>

definition same_server :: "'e gx_tls_server \<Rightarrow> 'e gx_tls_server \<Rightarrow> bool" where
  "same_server s s' \<longleftrightarrow> ts_engine s' = ts_engine s \<and> ts_ssl s' = ts_ssl s \<and> ts_psk s' = ts_psk s
     \<and> identity_valid s' = identity_valid s"

lemma receive_step_feeds:
  assumes "host_works env" and "ts_ssl server" and "quiet_session session"
    and "tls_arrives sched (send_count h) bytes" and "bytes \<noteq> []" and "length bytes \<le> GX_TLS_IO_BUFFER"
  shows "\<exists>server' session' h'. tls_receive_step env sched deadline now server session h = (Inr (), server', session', h')
     \<and> same_server server server' \<and> ts_rbio server' = ts_rbio server @ bytes \<and> ts_wbio server' = ts_wbio server
     \<and> quiet_session session' \<and> send_count h' = send_count h"
proof -
  let ?w = "tls_wait_ms deadline now"
  have "tls_reads bytes (arrivals (sched h ?w))" using assms(4) by (simp add: tls_arrives_def)
  then obtain session' where r: "gx_session_tls_read session GX_TLS_IO_BUFFER (sched h ?w) = (Inr bytes, session')"
    "quiet_session session'"
    using tls_read_arrives [OF assms(3) _ assms(5,6)] by blast
  obtain n h' where "gx_tls_feed env server bytes (h @ [Cond_timedwait ?w])
      = (True, server\<lparr>ts_rbio := ts_rbio server @ bytes, usb_input_bytes := n\<rparr>, h')"
    "send_count h' = send_count (h @ [Cond_timedwait ?w])"
    using feed_gives_all [OF assms(1,2)] by blast
  with r show ?thesis by (simp add: tls_receive_step_def Let_def same_server_def)
qed

section \<open>From the write BIO to the bus\<close>

lemma flush_gives_all:
  assumes "host_works env" and "ud_handle dev" and "claimed_data dev" and "length (ts_wbio s) \<le> GX_TLS_IO_BUFFER"
  shows "\<exists>s' h'. tls_flush_loop env dev s h = (Inr (), s', h') \<and> same_server s s' \<and> ts_rbio s' = ts_rbio s
     \<and> ts_wbio s' = [] \<and> send_count h' = send_count h + of_bool (ts_wbio s \<noteq> [])"
proof (cases "ts_wbio s = []")
  case True
  then show ?thesis by (simp add: tls_flush_loop.simps [of env dev s h] same_server_def)
next
  case ne: False
  let ?n = "length (ts_wbio s)" and ?h = "h @ [Bio_read GX_TLS_IO_BUFFER]"
  have w: "reply_rc (env h (Bio_read GX_TLS_IO_BUFFER)) = Inr 0" "GX_TLS_IO_BUFFER \<le> reply_moved (env h (Bio_read GX_TLS_IO_BUFFER))"
    "calls_work env" using assms(1) by (simp_all add: host_works_def calls_work_def)
  have n: "?n = flush_chunk env s h" using assms(4) w(2) by (simp add: flush_chunk_def)
  obtain rc h2 where send: "gx_transport_send_outer env dev GX5125_OUTER_TLS (Buf (take ?n (ts_wbio s))) 1000 ?h
      = (rc, h2)" by (rule prod.exhaust)
  have len: "?n \<le> GX5125_OUTER_MAX_PAYLOAD" using assms(4) by (simp add: outer_consts GX_TLS_IO_BUFFER_def)
  then have "outer_ok (GX5125_OUTER_TLS, take ?n (ts_wbio s))"
    by (simp add: outer_ok_def gx_outer_family_supported_def outer_consts)
  then have "fst (gx_transport_send_outer env dev GX5125_OUTER_TLS (Buf (take ?n (ts_wbio s))) 1000 ?h) = Inr ()"
    using w(3) assms(2,3) by (intro send_outer_progress)
  with send have rc: "rc = Inr ()" by simp
  have "length (take ?n (ts_wbio s)) \<le> GX5125_OUTER_MAX_PAYLOAD" using len by simp
  from send_outer_one_send [OF this, of env dev GX5125_OUTER_TLS 1000 ?h] have "send_count h2 = Suc (send_count ?h)"
    by (simp only: send snd_conv Suc_eq_plus1)
  then have c: "send_count h2 = Suc (send_count h)" by (simp add: send_count_def)
  have "tls_flush_loop env dev s h = tls_flush_loop env dev (flushed ?n s) h2"
    using flush_round [OF ne n send] ne w(1) rc by simp
  moreover have "tls_flush_loop env dev (flushed ?n s) h2 = (Inr (), flushed ?n s, h2)"
    by (subst tls_flush_loop.simps) (simp add: flushed_def)
  ultimately show ?thesis using c ne by (simp add: flushed_def same_server_def)
qed

section \<open>The dialogue\<close>

text \<open>
  One TLS 1.2 PSK connection and one message on it: the client's first flight, the server's answer, the client's
  second flight (key exchange and Finished), the server's Finished, and the records that carry the application data
  \<open>td_plain\<close>. \<open>td_room\<close> is the room for a key that OpenSSL offers the PSK callback.
\<close>

record tls_dialogue =
  td_hello :: "u8 list"
  td_reply :: "u8 list"
  td_key :: "u8 list"
  td_finish :: "u8 list"
  td_record :: "u8 list"
  td_plain :: "u8 list"
  td_room :: nat

definition td_client :: "tls_dialogue \<Rightarrow> u8 list" where
  "td_client td = td_hello td @ td_key td"

text \<open>
  OpenSSL's server side of this connection. \<open>fed\<close> is what the connection has read from its BIO so far. As documented,
  \<open>SSL_do_handshake\<close> and \<open>SSL_read\<close> read what the BIO holds and report \<open>SSL_ERROR_WANT_READ\<close> as long as the
  bytes do not suffice. When the first flight is complete the handshake writes its answer and wants more; when the second
  is, it asks the callback for the key of the identity, and if that is the client's key, under which the flight was
  made, it writes its Finished and is complete. \<open>SSL_read\<close> gives the plaintext when the records are complete.
\<close>

definition openssl_accepts :: "'e ssl_engine \<Rightarrow> ('e \<Rightarrow> u8 list) \<Rightarrow> u8 list \<Rightarrow> tls_dialogue \<Rightarrow> bool" where
  "openssl_accepts eng fed key td \<longleftrightarrow>
     fed (eng_fresh eng) = [] \<and>
     (\<forall>e ans rbio. let st = eng_handshake eng e ans rbio; got = fed e @ rbio in
        (strict_prefix got (td_client td) \<longrightarrow>
           step_status st = Inl SSL_want_read \<and> step_queries st = [] \<and> step_rbio st = [] \<and> fed (step_engine st) = got
           \<and> step_output st = (if strict_prefix (fed e) (td_hello td) \<and> prefix (td_hello td) got then td_reply td else []))
      \<and> (strict_prefix (fed e) (td_client td) \<and> prefix (td_hello td) (fed e) \<and> got = td_client td
           \<and> ans GX_TLS_IDENTITY (td_room td) = key \<longrightarrow>
           step_status st = Inr [] \<and> step_queries st = [(GX_TLS_IDENTITY, td_room td)] \<and> step_rbio st = []
           \<and> fed (step_engine st) = got \<and> eng_finished eng (step_engine st) \<and> step_output st = td_finish td))"

definition openssl_reads :: "'e ssl_engine \<Rightarrow> ('e \<Rightarrow> u8 list) \<Rightarrow> tls_dialogue \<Rightarrow> bool" where
  "openssl_reads eng fed td \<longleftrightarrow>
     (\<forall>e ans rbio n. let st = eng_read eng e ans rbio n; got = fed e @ rbio in
        eng_finished eng e \<and> prefix (td_client td) (fed e) \<longrightarrow>
          (strict_prefix got (td_client td @ td_record td) \<longrightarrow>
             step_status st = Inl SSL_want_read \<and> step_queries st = [] \<and> step_rbio st = [] \<and> fed (step_engine st) = got
             \<and> step_output st = [] \<and> eng_finished eng (step_engine st))
        \<and> (got = td_client td @ td_record td \<and> length (td_plain td) \<le> n \<longrightarrow>
             step_status st = Inr (td_plain td) \<and> step_queries st = [] \<and> step_output st = []))"

definition dialogue_fits :: "tls_dialogue \<Rightarrow> bool" where
  "dialogue_fits td \<longleftrightarrow>
     list_all (\<lambda>bs. bs \<noteq> [] \<and> length bs \<le> GX_TLS_IO_BUFFER) [td_hello td, td_reply td, td_key td, td_finish td, td_record td]
     \<and> GX5125_PSK_SIZE \<le> td_room td"

lemma step_server:
  "ts_rbio (apply_step s st) = step_rbio st" "ts_wbio (apply_step s st) = ts_wbio s @ step_output st"
  "ts_engine (apply_step s st) = step_engine st" "ts_ssl (apply_step s st) = ts_ssl s" "ts_psk (apply_step s st) = ts_psk s"
  "identity_valid (apply_step s st) = foldl psk_verdict (identity_valid s) (queries_of st)"
  using run_queries_tracks [of s "step_queries st"] by (simp_all add: apply_step_def queries_of_def)

lemma queries_no_send [simp]: "send_count (queries_of st) = 0"
  by (simp add: queries_of_def send_count_def)

text \<open>A step of the engine and the flush after it.\<close>

lemma step_flushes:
  assumes "host_works env" and "ud_handle dev" and "claimed_data dev" and "ts_ssl s" and "ts_wbio s = []"
    and "length (step_output st) \<le> GX_TLS_IO_BUFFER"
  shows "\<exists>s' h'. gx_tls_flush_usb env dev (apply_step s st) (h @ queries_of st) = (Inr (), s', h')
     \<and> ts_rbio s' = step_rbio st \<and> ts_wbio s' = [] \<and> ts_engine s' = step_engine st \<and> ts_ssl s' \<and> ts_psk s' = ts_psk s
     \<and> identity_valid s' = foldl psk_verdict (identity_valid s) (queries_of st)
     \<and> send_count h' = send_count h + of_bool (step_output st \<noteq> [])"
proof -
  have "length (ts_wbio (apply_step s st)) \<le> GX_TLS_IO_BUFFER" using assms(5,6) by (simp add: step_server)
  from flush_gives_all [OF assms(1-3) this, of "h @ queries_of st"] show ?thesis
    using assms(4,5) by (auto simp: gx_tls_flush_usb_def step_server same_server_def)
qed

text \<open>The ticks of a loop give the clock its time.\<close>

definition in_time :: "nat \<Rightarrow> nat \<Rightarrow> tls_tick list \<Rightarrow> bool" where
  "in_time n deadline ts \<longleftrightarrow>
     n \<le> length ts \<and> list_all (\<lambda>t. tt_now t < deadline \<and> tt_later t < deadline) (take n ts)"

lemma in_time_Suc:
  assumes "in_time (Suc n) deadline ts"
  obtains t ts' where "ts = t # ts'" and "tt_now t < deadline" and "tt_later t < deadline" and "in_time n deadline ts'"
  using assms by (cases ts) (auto simp: in_time_def)

text \<open>One round of the handshake that wants the client's bytes and gets them.\<close>

lemma handshake_round:
  assumes "host_works env" and "ud_handle dev" and "claimed_data dev" and "ts_ssl s" and "ts_wbio s = []" and "quiet_session session"
    and "tt_now t < deadline" and "tt_later t < deadline"
    and st: "st = eng_handshake eng (ts_engine s) (psk_answer_of s) (ts_rbio s)"
    and want: "step_status st = Inl SSL_want_read" "step_queries st = []" "step_rbio st = []"
    and "length (step_output st) \<le> GX_TLS_IO_BUFFER"
    and "tls_arrives sched (send_count h + of_bool (step_output st \<noteq> [])) bytes" and "bytes \<noteq> []" and "length bytes \<le> GX_TLS_IO_BUFFER"
  shows "\<exists>s' session' h'. tls_handshake_loop eng env sched dev deadline (t # ts) s session h
       = tls_handshake_loop eng env sched dev deadline ts s' session' h'
     \<and> ts_engine s' = step_engine st \<and> ts_rbio s' = bytes \<and> ts_wbio s' = [] \<and> ts_ssl s' \<and> ts_psk s' = ts_psk s
     \<and> identity_valid s' = identity_valid s \<and> quiet_session session'
     \<and> send_count h' = send_count h + of_bool (step_output st \<noteq> [])"
proof -
  obtain s1 h1 where fl: "gx_tls_flush_usb env dev (apply_step s st) (h @ queries_of st) = (Inr (), s1, h1)"
    "ts_rbio s1 = []" "ts_wbio s1 = []" "ts_engine s1 = step_engine st" "ts_ssl s1" "ts_psk s1 = ts_psk s"
    "identity_valid s1 = identity_valid s" "send_count h1 = send_count h + of_bool (step_output st \<noteq> [])"
    using step_flushes [OF assms(1-5) assms(13), of h] want by (auto simp: queries_of_def)
  obtain s2 session2 h2 where rs: "tls_receive_step env sched deadline (tt_later t) s1 session h1 = (Inr (), s2, session2, h2)"
    "same_server s1 s2" "ts_rbio s2 = bytes" "ts_wbio s2 = []" "quiet_session session2" "send_count h2 = send_count h1"
    using receive_step_feeds [OF assms(1) fl(5) assms(6) _ assms(15,16), of sched h1 deadline "tt_later t"] assms(14) fl(2,3,8)
    by auto
  have "tls_handshake_loop eng env sched dev deadline (t # ts) s session h
       = tls_handshake_loop eng env sched dev deadline ts s2 session2 h2"
    using assms(7,8) fl(1) want(1) rs(1) by (simp add: Let_def flip: st)
  then show ?thesis using fl rs unfolding same_server_def by (intro exI [of _ s2] exI [of _ session2] exI [of _ h2]) simp
qed

lemma handshake_succeeds:
  assumes host: "host_works env" "ud_handle dev" "claimed_data dev" and "quiet_session session"
    and server: "ts_ssl s" "ts_wbio s = []" "ts_rbio s = []" "ts_engine s = eng_fresh eng"
    and peer: "openssl_accepts eng fed (ts_psk s) td" "dialogue_fits td" and "in_time 3 deadline ticks"
    and arrives: "tls_arrives sched (send_count h) (td_hello td)" "tls_arrives sched (send_count h + 1) (td_key td)"
  shows "\<exists>s' session' h'. tls_handshake_loop eng env sched dev deadline ticks s session h = (Inr (), s', session', h')
     \<and> identity_valid s' \<and> eng_finished eng (ts_engine s') \<and> fed (ts_engine s') = td_client td
     \<and> ts_rbio s' = [] \<and> ts_wbio s' = [] \<and> ts_ssl s' \<and> quiet_session session' \<and> send_count h' = send_count h + 2"
proof -
  let ?hs = "\<lambda>s. eng_handshake eng (ts_engine s) (psk_answer_of s) (ts_rbio s)"
  obtain t1 ts1 where t1: "ticks = t1 # ts1" "tt_now t1 < deadline" "tt_later t1 < deadline" "in_time 2 deadline ts1"
    using assms(11) in_time_Suc [of 2 deadline ticks] by (auto simp: numeral_3_eq_3 numeral_2_eq_2)
  obtain t2 ts2 where t2: "ts1 = t2 # ts2" "tt_now t2 < deadline" "tt_later t2 < deadline" "in_time 1 deadline ts2"
    using t1(4) in_time_Suc [of 1 deadline ts1] by (auto simp: numeral_2_eq_2)
  from t2(4) [unfolded One_nat_def] obtain t3 ts3 where t3: "ts2 = t3 # ts3" "tt_now t3 < deadline"
    by (rule in_time_Suc)
  have fits: "td_hello td \<noteq> []" "length (td_hello td) \<le> GX_TLS_IO_BUFFER" "td_reply td \<noteq> []" "length (td_reply td) \<le> GX_TLS_IO_BUFFER"
    "td_key td \<noteq> []" "length (td_key td) \<le> GX_TLS_IO_BUFFER" "td_finish td \<noteq> []" "length (td_finish td) \<le> GX_TLS_IO_BUFFER"
    "GX5125_PSK_SIZE \<le> td_room td"
    using peer(2) by (simp_all add: dialogue_fits_def)
  have early: "step_status st = Inl SSL_want_read \<and> step_queries st = [] \<and> step_rbio st = [] \<and> fed (step_engine st) = fed e @ rbio
      \<and> step_output st = (if strict_prefix (fed e) (td_hello td) \<and> prefix (td_hello td) (fed e @ rbio) then td_reply td else [])"
    if "st = eng_handshake eng e ans rbio" "strict_prefix (fed e @ rbio) (td_client td)" for st e ans rbio
    using peer(1) that unfolding openssl_accepts_def Let_def by blast
  have start: "fed (ts_engine s) = []" using peer(1) server(4) by (simp add: openssl_accepts_def)
  define st1 where "st1 = ?hs s"
  have "strict_prefix (fed (ts_engine s) @ ts_rbio s) (td_client td)"
    using start server(3) fits(1) by (simp add: td_client_def strict_prefix_def)
  from early [OF st1_def this] have st1: "step_status st1 = Inl SSL_want_read" "step_queries st1 = []" "step_rbio st1 = []"
    "fed (step_engine st1) = []" "step_output st1 = []"
    using start server(3) fits(1) by (auto simp: strict_prefix_def)
  obtain s2 session2 h2 where r1: "tls_handshake_loop eng env sched dev deadline (t1 # ts1) s session h
       = tls_handshake_loop eng env sched dev deadline ts1 s2 session2 h2"
    "ts_engine s2 = step_engine st1" "ts_rbio s2 = td_hello td" "ts_wbio s2 = []" "ts_ssl s2" "ts_psk s2 = ts_psk s"
    "quiet_session session2" "send_count h2 = send_count h"
    using handshake_round [OF host server(1,2) assms(4) t1(2,3) st1_def st1(1-3), of sched h "td_hello td" ts1]
      fits arrives(1) st1(5) by auto
  define st2 where "st2 = ?hs s2"
  have "strict_prefix (fed (ts_engine s2) @ ts_rbio s2) (td_client td)"
    using st1(4) r1(2,3) fits(5) by (simp add: td_client_def strict_prefix_def)
  from early [OF st2_def this] have st2: "step_status st2 = Inl SSL_want_read" "step_queries st2 = []" "step_rbio st2 = []"
    "fed (step_engine st2) = td_hello td" "step_output st2 = td_reply td"
    using st1(4) r1(2,3) fits(1) by (auto simp: strict_prefix_def)
  obtain s3 session3 h3 where r2: "tls_handshake_loop eng env sched dev deadline (t2 # ts2) s2 session2 h2
       = tls_handshake_loop eng env sched dev deadline ts2 s3 session3 h3"
    "ts_engine s3 = step_engine st2" "ts_rbio s3 = td_key td" "ts_wbio s3 = []" "ts_ssl s3" "ts_psk s3 = ts_psk s"
    "quiet_session session3" "send_count h3 = send_count h + 1"
    using handshake_round [OF host r1(5,4,7) t2(2,3) st2_def st2(1-3), of sched h2 "td_key td" ts2]
      fits arrives(2) st2(5) r1(6,8) by auto
  define st3 where "st3 = ?hs s3"
  have "psk_answer_of s3 GX_TLS_IDENTITY (td_room td) = ts_psk s"
    using r2(6) fits(9) by (simp add: psk_answer_of_def gx_tls_psk_server_callback_def)
  moreover have "strict_prefix (fed (ts_engine s3)) (td_client td)" "prefix (td_hello td) (fed (ts_engine s3))"
    "fed (ts_engine s3) @ ts_rbio s3 = td_client td"
    using st2(4) r2(2,3) fits(5) by (simp_all add: td_client_def strict_prefix_def)
  ultimately have st3: "step_status st3 = Inr []" "step_queries st3 = [(GX_TLS_IDENTITY, td_room td)]" "step_rbio st3 = []"
    "fed (step_engine st3) = td_client td" "eng_finished eng (step_engine st3)" "step_output st3 = td_finish td"
    using peer(1) unfolding openssl_accepts_def Let_def st3_def by auto
  obtain s4 h4 where fl: "gx_tls_flush_usb env dev (apply_step s3 st3) (h3 @ queries_of st3) = (Inr (), s4, h4)"
    "ts_rbio s4 = []" "ts_wbio s4 = []" "ts_engine s4 = step_engine st3" "ts_ssl s4"
    "identity_valid s4" "send_count h4 = send_count h + 2"
    using step_flushes [OF host r2(5,4), of st3 h3] st3 fits(7-9) r2(8) by (auto simp: queries_of_def)
  have "tls_handshake_loop eng env sched dev deadline (t3 # ts3) s3 session3 h3 = (Inr (), s4, session3, h4)"
    using t3(2) fl(1,6) st3(1) by (simp add: Let_def flip: st3_def)
  then have run: "tls_handshake_loop eng env sched dev deadline ticks s session h = (Inr (), s4, session3, h4)"
    unfolding t1(1) r1(1) unfolding t2(1) r2(1) unfolding t3(1) .
  have "fed (ts_engine s4) = td_client td" "eng_finished eng (ts_engine s4)" using fl(4) st3(4,5) by simp_all
  with run fl r2(7) show ?thesis by blast
qed

lemma read_succeeds:
  assumes host: "host_works env" "ud_handle dev" "claimed_data dev" and "quiet_session session"
    and server: "ts_ssl s" "ts_wbio s = []" "ts_rbio s = []" "eng_finished eng (ts_engine s)" "fed (ts_engine s) = td_client td"
    and peer: "openssl_reads eng fed td" "dialogue_fits td" and ticks: "in_time 2 (start + wait) ticks"
    and arrives: "tls_arrives sched (send_count h) (td_record td)"
    and plain: "td_plain td \<noteq> []" "length (td_plain td) \<le> capacity" and "wait \<noteq> 0"
  shows "\<exists>s' session' h'. gx_tls_server_read_application eng env sched dev capacity wait start ticks s session h
     = (Inr (td_plain td), s', session', h')"
proof -
  let ?rd = "\<lambda>s. eng_read eng (ts_engine s) (psk_answer_of s) (ts_rbio s) capacity"
  obtain t1 ts1 where t1: "ticks = t1 # ts1" "tt_now t1 < start + wait" "tt_later t1 < start + wait" "in_time 1 (start + wait) ts1"
    using ticks in_time_Suc [of 1 "start + wait" ticks] by (auto simp: numeral_2_eq_2)
  from t1(4) [unfolded One_nat_def] obtain t2 ts2 where t2: "ts1 = t2 # ts2" "tt_now t2 < start + wait"
    by (rule in_time_Suc)
  have fits: "td_record td \<noteq> []" "length (td_record td) \<le> GX_TLS_IO_BUFFER"
    using peer(2) by (simp_all add: dialogue_fits_def)
  define st1 where "st1 = ?rd s"
  have "strict_prefix (fed (ts_engine s) @ ts_rbio s) (td_client td @ td_record td)" "prefix (td_client td) (fed (ts_engine s))"
    using server(3,5) fits(1) by (simp_all add: strict_prefix_def)
  then have st1: "step_status st1 = Inl SSL_want_read" "step_queries st1 = []" "step_rbio st1 = []" "step_output st1 = []"
    "fed (step_engine st1) = td_client td" "eng_finished eng (step_engine st1)"
    using peer(1) server(3-5) unfolding openssl_reads_def Let_def st1_def by auto
  obtain s1 h1 where fl: "gx_tls_flush_usb env dev (apply_step s st1) (h @ queries_of st1) = (Inr (), s1, h1)"
    "ts_rbio s1 = []" "ts_wbio s1 = []" "ts_engine s1 = step_engine st1" "ts_ssl s1" "send_count h1 = send_count h"
    using step_flushes [OF host server(1,2), of st1 h] st1 by auto
  obtain s2 session2 h2 where rs: "tls_receive_step env sched (start + wait) (tt_later t1) s1 session h1 = (Inr (), s2, session2, h2)"
    "same_server s1 s2" "ts_rbio s2 = td_record td" "ts_wbio s2 = []"
    using receive_step_feeds [OF host(1) fl(5) assms(4) _ fits, of sched h1 "start + wait" "tt_later t1"] arrives fl(2,3,6)
    by auto
  define st2 where "st2 = ?rd s2"
  have e2: "ts_engine s2 = step_engine st1" "ts_ssl s2" using rs(2) fl(4,5) by (simp_all add: same_server_def)
  then have "fed (ts_engine s2) @ ts_rbio s2 = td_client td @ td_record td" using st1(5) rs(3) by simp
  then have st2: "step_status st2 = Inr (td_plain td)" "step_queries st2 = []" "step_output st2 = []"
    using peer(1) plain(2) st1(5,6) e2(1) unfolding openssl_reads_def Let_def st2_def by auto
  obtain s3 h3 where fl2: "gx_tls_flush_usb env dev (apply_step s2 st2) (h2 @ queries_of st2) = (Inr (), s3, h3)"
    using step_flushes [OF host e2(2) rs(4), of st2 h2] st2(3) by auto
  have "tls_read_loop eng env sched dev capacity (start + wait) ts1 s2 session2 h2 = (Inr (td_plain td), s3, session2, h3)"
    using t2 fl2 st2(1) plain by (simp add: Let_def flip: st2_def)
  then have "tls_read_loop eng env sched dev capacity (start + wait) ticks s session h = (Inr (td_plain td), s3, session2, h3)"
    using t1(1-3) fl(1) rs(1) st1(1) by (simp add: Let_def flip: st1_def)
  moreover have "capacity \<noteq> 0" using plain by (cases capacity) auto
  ultimately show ?thesis
    using server(1,4) assms(16) by (simp add: gx_tls_server_read_application_def)
qed

end
