(* ===== verification/Enrollment.thy ===== *)
theory Enrollment
  imports Environment "HOL-Library.Signed_Division"
begin

text \<open>
  Enrollment of a finger, the first half of \<open>src/gx_enrollment.c\<close>: the collection of samples with
  its quality gates, the duplicate test and the capture-diversity measure, and the statistics kept
  along. The heap is an external resource: \<open>malloc\<close>, \<open>calloc\<close> and \<open>free\<close> are calls of the
  history. The array of samples with its counter is the list of the valid samples; a feature is what
  \<open>gx5125_feature_get_view\<close> says of it. Wiping memory before it is freed has no effect on any
  result and is left out.
\<close>

section \<open>Data\<close>

definition GX5125_ENROLLMENT_MAX_SAMPLES :: nat where "GX5125_ENROLLMENT_MAX_SAMPLES = 12"
definition GX5125_EXTRACTOR_COLUMNS :: int where "GX5125_EXTRACTOR_COLUMNS = 80"
definition GX5125_EXTRACTOR_ROWS :: int where "GX5125_EXTRACTOR_ROWS = 64"
definition GX5125_EXTRACTOR_PIXELS :: nat where "GX5125_EXTRACTOR_PIXELS = 5120"
definition GX5125_EXTRACTOR_RECORD_BYTES :: nat where "GX5125_EXTRACTOR_RECORD_BYTES = 60"
definition GX5125_EXTRACTOR_MAX_RECORDS :: nat where "GX5125_EXTRACTOR_MAX_RECORDS = 120"
definition GX5125_GRID_COLUMNS :: nat where "GX5125_GRID_COLUMNS = 10"
definition GX5125_GRID_ROWS :: nat where "GX5125_GRID_ROWS = 8"
definition GX5125_GRID_CELLS :: nat where "GX5125_GRID_CELLS = GX5125_GRID_COLUMNS * GX5125_GRID_ROWS"
definition GX5125_Q16_ONE :: u32 where "GX5125_Q16_ONE = 65536"

lemmas enrollment_consts = GX5125_ENROLLMENT_MAX_SAMPLES_def GX5125_EXTRACTOR_COLUMNS_def
  GX5125_EXTRACTOR_ROWS_def GX5125_EXTRACTOR_PIXELS_def GX5125_EXTRACTOR_RECORD_BYTES_def
  GX5125_EXTRACTOR_MAX_RECORDS_def GX5125_GRID_COLUMNS_def GX5125_GRID_ROWS_def
  GX5125_GRID_CELLS_def GX5125_Q16_ONE_def

datatype gx5125_enrollment_status =
    GX5125_ENROLLMENT_ERR_ARGUMENT
  | GX5125_ENROLLMENT_ERR_MEMORY
  | GX5125_ENROLLMENT_ERR_STATE
  | GX5125_ENROLLMENT_ERR_FEATURE
  | GX5125_ENROLLMENT_ERR_FORMAT
  | GX5125_ENROLLMENT_ERR_INTEGRITY
  | GX5125_ENROLLMENT_ERR_CAPACITY

datatype gx5125_enrollment_decision =
    GX5125_ENROLLMENT_ACCEPTED
  | GX5125_ENROLLMENT_REJECT_LOW_QUALITY
  | GX5125_ENROLLMENT_REJECT_LOW_COVERAGE
  | GX5125_ENROLLMENT_REJECT_LOW_RECORD_COUNT
  | GX5125_ENROLLMENT_REJECT_EXACT_DUPLICATE
  | GX5125_ENROLLMENT_REJECT_COMPLETE

record gx5125_enrollment_config =
  ec_target_samples :: u32
  ec_minimum_quality :: u32
  ec_minimum_coverage :: u32
  ec_minimum_records :: u32

record gx5125_enrollment_metrics =
  em_quality :: u32
  em_coverage :: u32
  em_mask_coverage_q16 :: u32

text \<open>The part of a feature view that enrollment and matching read.\<close>

record gx5125_feature_view =
  fv_record_count :: u32
  fv_records :: cbuf
  fv_packed_map :: cbuf

record gx5125_enrollment_sample =
  es_record_count :: u32
  es_records :: "u8 list"
  es_packed_map :: "u8 list"
  es_metrics :: gx5125_enrollment_metrics

record gx5125_enrollment =
  en_config :: gx5125_enrollment_config
  en_samples :: "gx5125_enrollment_sample list"
  en_total_records :: u32
  en_minimum_records :: u32
  en_maximum_records :: u32
  en_minimum_quality :: u32
  en_minimum_coverage :: u32
  en_maximum_pair_similarity_q16 :: u32
  en_minimum_pair_novelty_q16 :: u32

record gx5125_enrollment_result =
  er_decision :: gx5125_enrollment_decision
  er_accepted_samples :: u32
  er_target_samples :: u32
  er_record_count :: u32
  er_quality :: u32
  er_coverage :: u32
  er_exact_duplicate :: u32
  er_best_capture_similarity_q16 :: u32
  er_novelty_q16 :: u32
  er_complete :: bool

record gx5125_enrollment_summary =
  eu_accepted_samples :: u32
  eu_target_samples :: u32
  eu_complete :: bool
  eu_total_records :: u32
  eu_minimum_records :: u32
  eu_maximum_records :: u32
  eu_minimum_quality :: u32
  eu_minimum_coverage :: u32
  eu_maximum_pair_similarity_q16 :: u32
  eu_minimum_pair_novelty_q16 :: u32

definition en_complete :: "gx5125_enrollment \<Rightarrow> bool" where
  "en_complete e \<longleftrightarrow> length (en_samples e) \<ge> unat (ec_target_samples (en_config e))"

section \<open>Creation and destruction\<close>

definition enrollment_config_valid :: "gx5125_enrollment_config \<Rightarrow> bool" where
  "enrollment_config_valid c \<longleftrightarrow>
     ec_target_samples c > 0
     \<and> unat (ec_target_samples c) \<le> GX5125_ENROLLMENT_MAX_SAMPLES
     \<and> ec_minimum_quality c \<le> 100
     \<and> ec_minimum_coverage c \<le> 100
     \<and> ec_minimum_records c > 0
     \<and> unat (ec_minimum_records c) \<le> GX5125_EXTRACTOR_MAX_RECORDS"

definition gx5125_enrollment_default_config :: gx5125_enrollment_config where
  "gx5125_enrollment_default_config =
     \<lparr>ec_target_samples = 6, ec_minimum_quality = 60, ec_minimum_coverage = 70, ec_minimum_records = 45\<rparr>"

definition empty_enrollment :: "gx5125_enrollment_config \<Rightarrow> gx5125_enrollment" where
  "empty_enrollment c =
     \<lparr>en_config = c, en_samples = [], en_total_records = 0, en_minimum_records = 0,
      en_maximum_records = 0, en_minimum_quality = 0, en_minimum_coverage = 0,
      en_maximum_pair_similarity_q16 = 0, en_minimum_pair_novelty_q16 = GX5125_Q16_ONE\<rparr>"

text \<open>A null configuration is \<open>None\<close>; a null result is \<open>None\<close>. The argument of \<open>Calloc\<close> is the number of objects.\<close>

definition gx5125_enrollment_create ::
    "environment \<Rightarrow> gx5125_enrollment_config option \<Rightarrow> history \<Rightarrow> gx5125_enrollment option \<times> history" where
  "gx5125_enrollment_create env config h =
     (let c = (case config of None \<Rightarrow> gx5125_enrollment_default_config | Some c \<Rightarrow> c)
      in if \<not> enrollment_config_valid c then (None, h)
         else
           let (r, h1) = ext_do env (Calloc 1) h
           in if isl (reply_rc r) then (None, h1) else (Some (empty_enrollment c), h1))"

text \<open>\<open>sample_clear\<close> on a sample whose two blocks are allocated or not.\<close>

definition free_if :: "environment \<Rightarrow> bool \<Rightarrow> history \<Rightarrow> history" where
  "free_if env p h = (if p then snd (ext_do env Free h) else h)"

definition sample_clear :: "environment \<Rightarrow> bool \<Rightarrow> bool \<Rightarrow> history \<Rightarrow> history" where
  "sample_clear env records packed_map h = free_if env packed_map (free_if env records h)"

definition gx5125_enrollment_reset ::
    "environment \<Rightarrow> gx5125_enrollment \<Rightarrow> history \<Rightarrow> gx5125_enrollment \<times> history" where
  "gx5125_enrollment_reset env e h =
     (empty_enrollment (en_config e),
      foldl (\<lambda>h s. sample_clear env True True h) h (en_samples e))"

definition gx5125_enrollment_destroy :: "environment \<Rightarrow> gx5125_enrollment \<Rightarrow> history \<Rightarrow> history" where
  "gx5125_enrollment_destroy env e h = snd (ext_do env Free (snd (gx5125_enrollment_reset env e h)))"

section \<open>Capture similarity\<close>

function popcount8 :: "u8 \<Rightarrow> u32" where
  "popcount8 v = (if v = 0 then 0 else popcount8 (v AND (v - 1)) + 1)"
  by pat_completeness auto

definition bitset_counts :: "u8 list \<Rightarrow> u8 list \<Rightarrow> nat \<Rightarrow> u64 \<times> u64" where
  "bitset_counts left right bytes =
     foldl (\<lambda>(intersection, union_count) index.
              (intersection + ucast (popcount8 (left ! index AND right ! index)),
               union_count + ucast (popcount8 (left ! index OR right ! index))))
       (0, 0) [0..<bytes]"

definition bitset_jaccard_q16 :: "cbuf \<Rightarrow> cbuf \<Rightarrow> nat \<Rightarrow> u32" where
  "bitset_jaccard_q16 left right bytes =
     (if is_null left \<or> is_null right then 0
      else
        let (intersection, union_count) = bitset_counts (cbuf_bytes left) (cbuf_bytes right) bytes
        in if union_count = 0 then GX5125_Q16_ONE
           else ucast ((intersection * ucast GX5125_Q16_ONE) div union_count))"

text \<open>\<open>int16_t\<close> loads are little-endian; \<open>/\<close> on \<open>int32_t\<close> truncates.\<close>

definition read_i16 :: "u8 list \<Rightarrow> int" where
  "read_i16 source = sint (le16 (source ! 0) (source ! 1))"

definition clamp_coordinate :: "int \<Rightarrow> int \<Rightarrow> int" where
  "clamp_coordinate limit v =
     (let v1 = (if v < 0 then 0 else v) in if v1 \<ge> limit then limit - 1 else v1)"

definition record_cell :: "u8 list \<Rightarrow> nat" where
  "record_cell r =
     (let x = clamp_coordinate GX5125_EXTRACTOR_COLUMNS (read_i16 (drop 0x02 r) sdiv 256);
          y = clamp_coordinate GX5125_EXTRACTOR_ROWS (read_i16 (drop 0x04 r) sdiv 256);
          column = nat x div 8;
          row = nat y div 8;
          column = (if column \<ge> GX5125_GRID_COLUMNS then GX5125_GRID_COLUMNS - 1 else column);
          row = (if row \<ge> GX5125_GRID_ROWS then GX5125_GRID_ROWS - 1 else row)
      in row * GX5125_GRID_COLUMNS + column)"

definition build_record_grid :: "cbuf \<Rightarrow> u32 \<Rightarrow> u8 list" where
  "build_record_grid records record_count =
     (let grid = replicate GX5125_GRID_CELLS 0
      in if is_null records then grid
         else foldl (\<lambda>g index. g[record_cell (drop (index * GX5125_EXTRACTOR_RECORD_BYTES) (cbuf_bytes records)) := 1])
                grid [0..<unat record_count])"

text \<open>The two counters are at most 80, so they are natural numbers here.\<close>

definition grid_jaccard_q16 :: "cbuf \<Rightarrow> u32 \<Rightarrow> cbuf \<Rightarrow> u32 \<Rightarrow> u32" where
  "grid_jaccard_q16 left_records left_count right_records right_count =
     (let left = build_record_grid left_records left_count;
          right = build_record_grid right_records right_count;
          intersection = length (filter (\<lambda>i. left ! i \<noteq> 0 \<and> right ! i \<noteq> 0) [0..<GX5125_GRID_CELLS]);
          union_count = length (filter (\<lambda>i. left ! i \<noteq> 0 \<or> right ! i \<noteq> 0) [0..<GX5125_GRID_CELLS])
      in if union_count = 0 then GX5125_Q16_ONE
         else of_nat ((intersection * unat GX5125_Q16_ONE) div union_count))"

definition capture_similarity_q16 :: "gx5125_enrollment_sample \<Rightarrow> gx5125_feature_view \<Rightarrow> u32" where
  "capture_similarity_q16 s view =
     (let packed = bitset_jaccard_q16 (Buf (es_packed_map s)) (fv_packed_map view)
                     (cbuf_len (fv_packed_map view));
          grid = grid_jaccard_q16 (Buf (es_records s)) (es_record_count s)
                   (fv_records view) (fv_record_count view)
      in ucast ((ucast grid * 3 + ucast packed :: u64) div 4))"

definition exact_duplicate :: "gx5125_enrollment_sample \<Rightarrow> gx5125_feature_view \<Rightarrow> bool" where
  "exact_duplicate s view \<longleftrightarrow>
     es_record_count s = fv_record_count view
     \<and> length (es_records s) = cbuf_len (fv_records view)
     \<and> length (es_packed_map s) = cbuf_len (fv_packed_map view)
     \<and> es_records s = cbuf_bytes (fv_records view)
     \<and> es_packed_map s = cbuf_bytes (fv_packed_map view)"

section \<open>Submitting a capture\<close>

definition result_initialize ::
    "gx5125_enrollment \<Rightarrow> gx5125_feature_view \<Rightarrow> gx5125_enrollment_metrics \<Rightarrow> gx5125_enrollment_result" where
  "result_initialize e view metrics =
     \<lparr>er_decision = GX5125_ENROLLMENT_REJECT_COMPLETE,
      er_accepted_samples = of_nat (length (en_samples e)),
      er_target_samples = ec_target_samples (en_config e),
      er_record_count = fv_record_count view,
      er_quality = em_quality metrics, er_coverage = em_coverage metrics,
      er_exact_duplicate = 0, er_best_capture_similarity_q16 = 0,
      er_novelty_q16 = GX5125_Q16_ONE, er_complete = en_complete e\<rparr>"

text \<open>The loop over the samples: \<open>None\<close> when one is an exact duplicate, otherwise the best similarity.\<close>

fun best_similarity :: "gx5125_enrollment_sample list \<Rightarrow> gx5125_feature_view \<Rightarrow> u32 \<Rightarrow> u32 option" where
  "best_similarity [] view best = Some best"
| "best_similarity (s # ss) view best =
     (if exact_duplicate s view then None
      else
        let similarity = capture_similarity_q16 s view
        in best_similarity ss view (if similarity > best then similarity else best))"

definition sample_copy ::
    "environment \<Rightarrow> gx5125_feature_view \<Rightarrow> gx5125_enrollment_metrics \<Rightarrow> history \<Rightarrow>
     (gx5125_enrollment_status + gx5125_enrollment_sample) \<times> history" where
  "sample_copy env view metrics h =
     (let (r, h1) = ext_do env (Malloc (cbuf_len (fv_records view))) h;
          (p, h2) = ext_do env (Malloc (cbuf_len (fv_packed_map view))) h1
      in if isl (reply_rc r) \<or> isl (reply_rc p)
         then (Inl GX5125_ENROLLMENT_ERR_MEMORY,
               sample_clear env (\<not> isl (reply_rc r)) (\<not> isl (reply_rc p)) h2)
         else (Inr \<lparr>es_record_count = fv_record_count view, es_records = cbuf_bytes (fv_records view),
                     es_packed_map = cbuf_bytes (fv_packed_map view), es_metrics = metrics\<rparr>, h2))"

text \<open>The statistics after one more sample; loading a template updates them the same way.\<close>

definition count_sample :: "gx5125_enrollment \<Rightarrow> gx5125_enrollment_sample \<Rightarrow> gx5125_enrollment" where
  "count_sample e s =
     (let rc = es_record_count s; q = em_quality (es_metrics s); c = em_coverage (es_metrics s);
          e1 = e\<lparr>en_samples := en_samples e @ [s], en_total_records := en_total_records e + rc\<rparr>
      in if length (en_samples e1) = 1
         then e1\<lparr>en_minimum_records := rc, en_maximum_records := rc,
                 en_minimum_quality := q, en_minimum_coverage := c\<rparr>
         else e1\<lparr>en_minimum_records := (if rc < en_minimum_records e1 then rc else en_minimum_records e1),
                 en_maximum_records := (if rc > en_maximum_records e1 then rc else en_maximum_records e1),
                 en_minimum_quality := (if q < en_minimum_quality e1 then q else en_minimum_quality e1),
                 en_minimum_coverage := (if c < en_minimum_coverage e1 then c else en_minimum_coverage e1)\<rparr>)"

definition count_pair :: "gx5125_enrollment \<Rightarrow> u32 \<Rightarrow> gx5125_enrollment" where
  "count_pair e best =
     (if length (en_samples e) = 1 then e
      else
        let e1 = (if best > en_maximum_pair_similarity_q16 e
                  then e\<lparr>en_maximum_pair_similarity_q16 := best\<rparr> else e)
        in if GX5125_Q16_ONE - best < en_minimum_pair_novelty_q16 e1
           then e1\<lparr>en_minimum_pair_novelty_q16 := GX5125_Q16_ONE - best\<rparr> else e1)"

definition gx5125_enrollment_submit ::
    "environment \<Rightarrow> gx5125_enrollment \<Rightarrow> gx5125_feature_view option \<Rightarrow> gx5125_enrollment_metrics \<Rightarrow>
     gx5125_enrollment_result \<Rightarrow> history \<Rightarrow>
     (gx5125_enrollment_status + unit) \<times> gx5125_enrollment_result \<times> gx5125_enrollment \<times> history" where
  "gx5125_enrollment_submit env e feature metrics result h =
     (case feature of
        None \<Rightarrow> (Inl GX5125_ENROLLMENT_ERR_FEATURE, result, e, h)
      | Some view \<Rightarrow>
          if is_null (fv_records view) \<or> cbuf_len (fv_records view) = 0
             \<or> is_null (fv_packed_map view) \<or> cbuf_len (fv_packed_map view) = 0
          then (Inl GX5125_ENROLLMENT_ERR_FEATURE, result, e, h)
          else
            let r = result_initialize e view metrics
            in if en_complete e then (Inr (), r, e, h)
               else if em_quality metrics < ec_minimum_quality (en_config e)
               then (Inr (), r\<lparr>er_decision := GX5125_ENROLLMENT_REJECT_LOW_QUALITY\<rparr>, e, h)
               else if em_coverage metrics < ec_minimum_coverage (en_config e)
               then (Inr (), r\<lparr>er_decision := GX5125_ENROLLMENT_REJECT_LOW_COVERAGE\<rparr>, e, h)
               else if fv_record_count view < ec_minimum_records (en_config e)
               then (Inr (), r\<lparr>er_decision := GX5125_ENROLLMENT_REJECT_LOW_RECORD_COUNT\<rparr>, e, h)
               else
                 case best_similarity (en_samples e) view 0 of
                   None \<Rightarrow>
                     (Inr (), r\<lparr>er_decision := GX5125_ENROLLMENT_REJECT_EXACT_DUPLICATE,
                                er_exact_duplicate := 1,
                                er_best_capture_similarity_q16 := GX5125_Q16_ONE,
                                er_novelty_q16 := 0\<rparr>, e, h)
                 | Some best \<Rightarrow>
                     let (copy, h1) = sample_copy env view metrics h
                     in case copy of
                          Inl err \<Rightarrow> (Inl err, r, e, h1)
                        | Inr s \<Rightarrow>
                            let e1 = count_pair (count_sample e s) best
                            in (Inr (), r\<lparr>er_decision := GX5125_ENROLLMENT_ACCEPTED,
                                          er_accepted_samples := of_nat (length (en_samples e1)),
                                          er_best_capture_similarity_q16 := best,
                                          er_novelty_q16 := GX5125_Q16_ONE - best,
                                          er_complete := en_complete e1\<rparr>, e1, h1))"

section \<open>Queries\<close>

definition gx5125_enrollment_get_summary :: "gx5125_enrollment \<Rightarrow> gx5125_enrollment_summary" where
  "gx5125_enrollment_get_summary e =
     \<lparr>eu_accepted_samples = of_nat (length (en_samples e)),
      eu_target_samples = ec_target_samples (en_config e),
      eu_complete = en_complete e,
      eu_total_records = en_total_records e,
      eu_minimum_records = en_minimum_records e, eu_maximum_records = en_maximum_records e,
      eu_minimum_quality = en_minimum_quality e, eu_minimum_coverage = en_minimum_coverage e,
      eu_maximum_pair_similarity_q16 = en_maximum_pair_similarity_q16 e,
      eu_minimum_pair_novelty_q16 =
        (if length (en_samples e) \<le> 1 then GX5125_Q16_ONE else en_minimum_pair_novelty_q16 e)\<rparr>"

text \<open>A sample view points at the sample's own data: the sample itself.\<close>

definition gx5125_enrollment_get_sample_view ::
    "gx5125_enrollment \<Rightarrow> nat \<Rightarrow> gx5125_enrollment_status + gx5125_enrollment_sample" where
  "gx5125_enrollment_get_sample_view e index =
     (if index \<ge> length (en_samples e) then Inl GX5125_ENROLLMENT_ERR_STATE
      else Inr (en_samples e ! index))"

definition gx5125_enrollment_is_complete :: "gx5125_enrollment option \<Rightarrow> bool" where
  "gx5125_enrollment_is_complete enrollment =
     (case enrollment of None \<Rightarrow> False | Some e \<Rightarrow> en_complete e)"

section \<open>The bit counter\<close>

lemma and_minus_one_less: "v \<noteq> 0 \<Longrightarrow> unat (v AND (v - 1)) < unat (v :: u8)"
  by (meson measure_unat order_le_less_trans word_and_le1 word_le_nat_alt)

termination popcount8
  by (relation "measure unat") (auto simp: and_minus_one_less)

declare popcount8.simps [simp del]

definition bit_total :: "u8 \<Rightarrow> nat" where
  "bit_total v = length (filter (bit v) [0..<8])"

lemma popcount8_table:
  "list_all (\<lambda>n. unat (popcount8 (of_nat n)) = bit_total (of_nat n)) [0..<256]"
  by code_simp

lemma popcount8_bit_total: "unat (popcount8 v) = bit_total v"
proof -
  have "unat v \<in> set [0..<256]" by simp
  with popcount8_table have "unat (popcount8 (of_nat (unat v))) = bit_total (of_nat (unat v))"
    by (simp only: list_all_iff)
  then show ?thesis by simp
qed

lemma bit_total_bounds: "bit_total v \<le> 8" "bit_total (a AND b) \<le> bit_total (a OR b)"
  using length_filter_le [of "bit v" "[0..<8]"]
  by (auto simp: bit_total_def bit_simps intro!: length_filter_mono)

lemma bitset_counts_Suc:
  "bitset_counts l r (Suc n) =
     (fst (bitset_counts l r n) + ucast (popcount8 (l ! n AND r ! n)),
      snd (bitset_counts l r n) + ucast (popcount8 (l ! n OR r ! n)))"
  by (simp add: bitset_counts_def split_beta)

lemma bitset_counts_bits:
  assumes "n < 2 ^ 40"
  shows "unat (fst (bitset_counts l r n)) = (\<Sum>k<n. bit_total (l ! k AND r ! k))
       \<and> unat (snd (bitset_counts l r n)) = (\<Sum>k<n. bit_total (l ! k OR r ! k))
       \<and> unat (snd (bitset_counts l r n)) \<le> 8 * n"
  using assms
proof (induction n)
  case (Suc n)
  let ?f = "bitset_counts l r n"
  have IH: "unat (fst ?f) = (\<Sum>k<n. bit_total (l ! k AND r ! k))"
    "unat (snd ?f) = (\<Sum>k<n. bit_total (l ! k OR r ! k))" "unat (snd ?f) \<le> 8 * n"
    using Suc by simp_all
  have "unat (fst ?f) \<le> unat (snd ?f)"
    unfolding IH(1,2) by (intro sum_mono bit_total_bounds)
  moreover have "8 * n + 8 < 2 ^ 64" using Suc.prems by simp
  ultimately show ?case
    using IH bit_total_bounds(1) [of "l ! n OR r ! n"] bit_total_bounds(1) [of "l ! n AND r ! n"]
    by (simp add: bitset_counts_Suc unat_word_ariths popcount8_bit_total)
qed (simp add: bitset_counts_def)

text \<open>The ratio of two counts in Q16: below one, and one exactly when the counts agree.\<close>

lemma q16_quotient:
  assumes "unat (i :: u64) \<le> unat u" and "unat u < 2 ^ 44" and "u \<noteq> 0"
  shows "unat (ucast ((i * ucast GX5125_Q16_ONE) div u) :: u32) = unat i * 65536 div unat u"
    and "unat i * 65536 div unat u \<le> 65536"
proof -
  have u: "0 < unat u" using assms(3) by (simp add: unat_gt_0)
  have "unat i * 65536 < 2 ^ 64" using assms by simp
  then have "unat (i * ucast GX5125_Q16_ONE) = unat i * 65536"
    by (simp add: enrollment_consts unat_word_ariths)
  then have d: "unat ((i * ucast GX5125_Q16_ONE) div u) = unat i * 65536 div unat u" by (simp add: unat_div)
  have "unat i * 65536 div unat u \<le> unat u * 65536 div unat u" using assms(1) by (intro div_le_mono) simp
  then show b: "unat i * 65536 div unat u \<le> 65536" using u by simp
  then show "unat (ucast ((i * ucast GX5125_Q16_ONE) div u) :: u32) = unat i * 65536 div unat u"
    using d by (simp add: unat_narrow_exact)
qed

lemma bitset_jaccard_bound:
  assumes "n < 2 ^ 40"
  shows "unat (bitset_jaccard_q16 l r n) \<le> 65536"
proof -
  let ?f = "bitset_counts (cbuf_bytes l) (cbuf_bytes r) n"
  note c = bitset_counts_bits [OF assms, of "cbuf_bytes l" "cbuf_bytes r"]
  have le: "unat (fst ?f) \<le> unat (snd ?f)"
    using c by (auto intro!: sum_mono bit_total_bounds)
  have "unat (snd ?f) < 2 ^ 44" using c assms by simp
  note q = q16_quotient [OF le this]
  show ?thesis
    using q by (auto simp: bitset_jaccard_q16_def split_beta Let_def enrollment_consts)
qed

lemma bitset_jaccard_self:
  assumes "n < 2 ^ 40"
  shows "bitset_jaccard_q16 (Buf bs) (Buf bs) n = GX5125_Q16_ONE"
proof -
  let ?f = "bitset_counts bs bs n"
  note c = bitset_counts_bits [OF assms, of bs bs]
  have eq: "fst ?f = snd ?f" using c by (simp add: word_unat_eq_iff)
  have "unat (snd ?f) < 2 ^ 44" using c assms by simp
  note q = q16_quotient [of "snd ?f" "snd ?f", OF order_refl this]
  show ?thesis
  proof (cases "snd ?f = 0")
    case False
    then have "0 < unat (snd ?f)" by (simp add: unat_gt_0)
    with q(1) [OF False] have "unat (ucast ((snd ?f * ucast GX5125_Q16_ONE) div snd ?f) :: u32) = unat GX5125_Q16_ONE"
      by (simp add: enrollment_consts)
    then have "ucast ((snd ?f * ucast GX5125_Q16_ONE) div snd ?f) = GX5125_Q16_ONE"
      by (simp only: word_unat_eq_iff)
    with False eq show ?thesis by (simp add: bitset_jaccard_q16_def split_beta Let_def)
  qed (simp add: bitset_jaccard_q16_def split_beta Let_def)
qed

lemma bitset_jaccard_commute:
  "bitset_jaccard_q16 (Buf l) (Buf r) n = bitset_jaccard_q16 (Buf r) (Buf l) n"
proof -
  have "bitset_counts l r n = bitset_counts r l n"
    unfolding bitset_counts_def by (simp add: and.commute or.commute)
  then show ?thesis by (simp add: bitset_jaccard_q16_def)
qed

lemma grid_jaccard_bound: "unat (grid_jaccard_q16 lr lc rr rc) \<le> 65536"
proof -
  let ?l = "build_record_grid lr lc" and ?r = "build_record_grid rr rc"
  let ?i = "length (filter (\<lambda>i. ?l ! i \<noteq> 0 \<and> ?r ! i \<noteq> 0) [0..<GX5125_GRID_CELLS])"
  let ?u = "length (filter (\<lambda>i. ?l ! i \<noteq> 0 \<or> ?r ! i \<noteq> 0) [0..<GX5125_GRID_CELLS])"
  have "?i \<le> ?u" by (rule length_filter_mono) auto
  then have "?i * 65536 div ?u \<le> ?u * 65536 div ?u" by (intro div_le_mono mult_le_mono1)
  also have "\<dots> \<le> 65536" by simp
  finally have "?i * 65536 div ?u \<le> 65536" .
  then show ?thesis
    by (auto simp: grid_jaccard_q16_def Let_def unat_of_nat GX5125_Q16_ONE_def)
qed

lemma grid_jaccard_self: "grid_jaccard_q16 r c r c = GX5125_Q16_ONE"
  by (auto simp: grid_jaccard_q16_def Let_def GX5125_Q16_ONE_def)

lemma grid_jaccard_commute: "grid_jaccard_q16 r c r' c' = grid_jaccard_q16 r' c' r c"
proof -
  have "filter (\<lambda>i. P i \<and> Q i) xs = filter (\<lambda>i. Q i \<and> P i) xs"
    "filter (\<lambda>i. P i \<or> Q i) xs = filter (\<lambda>i. Q i \<or> P i) xs" for P Q and xs :: "nat list"
    by (auto intro!: filter_cong)
  then show ?thesis unfolding grid_jaccard_q16_def Let_def by metis
qed

lemma weighted_similarity:
  assumes "unat (g :: u32) \<le> 65536" and "unat (p :: u32) \<le> 65536"
  shows "unat (ucast ((ucast g * 3 + ucast p :: u64) div 4) :: u32) = (unat g * 3 + unat p) div 4"
proof -
  have "unat (ucast g * 3 + ucast p :: u64) = unat g * 3 + unat p"
    using assms by (simp add: unat_word_ariths)
  then have "unat ((ucast g * 3 + ucast p :: u64) div 4) = (unat g * 3 + unat p) div 4"
    by (simp add: unat_div)
  moreover have "(unat g * 3 + unat p) div 4 \<le> 65536" using assms by simp
  ultimately show ?thesis by (simp add: unat_narrow_exact)
qed

lemma similarity_bound:
  assumes "cbuf_len (fv_packed_map v) < 2 ^ 40"
  shows "unat (capture_similarity_q16 s v) \<le> 65536"
proof -
  let ?g = "grid_jaccard_q16 (Buf (es_records s)) (es_record_count s) (fv_records v) (fv_record_count v)"
  let ?p = "bitset_jaccard_q16 (Buf (es_packed_map s)) (fv_packed_map v) (cbuf_len (fv_packed_map v))"
  note b = grid_jaccard_bound bitset_jaccard_bound [OF assms]
  have "(unat ?g * 3 + unat ?p) div 4 \<le> (65536 * 3 + 65536) div 4"
    using b by (intro div_le_mono add_mono mult_le_mono1)
  then show ?thesis
    using weighted_similarity [OF b(1) b(2)] by (simp only: capture_similarity_q16_def Let_def)
qed

lemma similarity_self:
  assumes "es_packed_map s = bs" and "length bs < 2 ^ 40" and "es_records s = rs" and "es_record_count s = n"
    and "fv_packed_map v = Buf bs" and "fv_records v = Buf rs" and "fv_record_count v = n"
  shows "capture_similarity_q16 s v = GX5125_Q16_ONE"
  using assms
  by (simp add: capture_similarity_q16_def Let_def bitset_jaccard_self grid_jaccard_self)
    (simp add: enrollment_consts)

text \<open>The view that a stored sample is a copy of.\<close>

definition sample_view :: "gx5125_enrollment_sample \<Rightarrow> gx5125_feature_view" where
  "sample_view s =
     \<lparr>fv_record_count = es_record_count s, fv_records = Buf (es_records s), fv_packed_map = Buf (es_packed_map s)\<rparr>"

text \<open>
  The diversity measure is a similarity. For samples with bit maps of one size it is symmetric,
  it never exceeds one (65536 in Q16), so that the novelty \<open>1 - similarity\<close> never wraps, and a
  sample compared with itself measures exactly one.
\<close>

theorem capture_similarity_measure:
  assumes "length (es_packed_map a) < 2 ^ 40" and "length (es_packed_map b) = length (es_packed_map a)"
  shows "capture_similarity_q16 a (sample_view b) = capture_similarity_q16 b (sample_view a)
    \<and> unat (capture_similarity_q16 a (sample_view b)) \<le> 65536
    \<and> capture_similarity_q16 a (sample_view a) = GX5125_Q16_ONE"
proof -
  have "capture_similarity_q16 a (sample_view b) = capture_similarity_q16 b (sample_view a)"
    using assms(2) grid_jaccard_commute [of "Buf (es_records a)"]
    by (simp add: capture_similarity_q16_def sample_view_def bitset_jaccard_commute)
  moreover have "unat (capture_similarity_q16 a (sample_view b)) \<le> 65536"
    using assms by (intro similarity_bound) (simp add: sample_view_def)
  moreover have "capture_similarity_q16 a (sample_view a) = GX5125_Q16_ONE"
    using assms(1) by (intro similarity_self) (simp_all add: sample_view_def)
  ultimately show ?thesis by blast
qed

definition sample_of :: "u32 \<Rightarrow> u8 \<Rightarrow> u8 \<Rightarrow> gx5125_enrollment_sample" where
  "sample_of n r p =
     \<lparr>es_record_count = n, es_records = replicate (unat n * GX5125_EXTRACTOR_RECORD_BYTES) r,
      es_packed_map = replicate 8 p,
      es_metrics = \<lparr>em_quality = 80, em_coverage = 90, em_mask_coverage_q16 = 60000\<rparr>\<rparr>"

lemma sample_of_map [simp]: "length (es_packed_map (sample_of n r p)) = 8"
  by (simp add: sample_of_def)

theorem capture_similarity_measure_witness:
  "unat (capture_similarity_q16 (sample_of 50 3 0x0f) (sample_view (sample_of 46 2 0x3c))) \<le> 65536"
proof -
  have "length (es_packed_map (sample_of 50 3 0x0f)) < 2 ^ 40"
    "length (es_packed_map (sample_of 46 2 0x3c)) = length (es_packed_map (sample_of 50 3 0x0f))"
    by simp_all
  from capture_similarity_measure [OF this] show ?thesis by blast
qed

section \<open>The statistics\<close>

text \<open>
  What the statistics should be, computed from the list of the accepted samples. The smallest and
  largest of nothing are zero, as in a new enrollment.
\<close>

definition list_min :: "u32 list \<Rightarrow> u32" where
  "list_min xs = (if xs = [] then 0 else Min (set xs))"

definition list_max :: "u32 list \<Rightarrow> u32" where
  "list_max xs = (if xs = [] then 0 else Max (set xs))"

lemma list_min_snoc: "list_min (xs @ [x]) = (if xs = [] then x else min x (list_min xs))"
  by (simp add: list_min_def)

lemma list_max_snoc: "list_max (xs @ [x]) = (if xs = [] then x else max x (list_max xs))"
  by (simp add: list_max_def)

lemma list_max_append: "list_max (xs @ ys) = max (list_max xs) (list_max ys)"
  by (auto simp: list_max_def Max_Un)

text \<open>The similarities of all pairs, each sample with the earlier ones.\<close>

definition similarities :: "gx5125_enrollment_sample list \<Rightarrow> gx5125_enrollment_sample \<Rightarrow> u32 list" where
  "similarities ss s = map (\<lambda>x. capture_similarity_q16 x (sample_view s)) ss"

definition pair_similarities :: "gx5125_enrollment_sample list \<Rightarrow> u32 list" where
  "pair_similarities ss = concat (map (\<lambda>j. similarities (take j ss) (ss ! j)) [0..<length ss])"

lemma pair_similarities_snoc:
  "pair_similarities (ss @ [s]) = pair_similarities ss @ similarities ss s"
proof -
  have m: "map (\<lambda>j. similarities (take j (ss @ [s])) ((ss @ [s]) ! j)) [0..<length ss]
      = map (\<lambda>j. similarities (take j ss) (ss ! j)) [0..<length ss]"
    by (rule map_cong) (auto simp: nth_append)
  have l: "[0..<length (ss @ [s])] = [0..<length ss] @ [length ss]" by simp
  show ?thesis unfolding pair_similarities_def l map_append concat_append m by simp
qed

text \<open>The enrollment is exactly what its samples make of it.\<close>

definition statistics_ok :: "gx5125_enrollment \<Rightarrow> bool" where
  "statistics_ok e \<longleftrightarrow>
     en_total_records e = sum_list (map es_record_count (en_samples e))
     \<and> en_minimum_records e = list_min (map es_record_count (en_samples e))
     \<and> en_maximum_records e = list_max (map es_record_count (en_samples e))
     \<and> en_minimum_quality e = list_min (map (em_quality \<circ> es_metrics) (en_samples e))
     \<and> en_minimum_coverage e = list_min (map (em_coverage \<circ> es_metrics) (en_samples e))"

definition pairs_ok :: "gx5125_enrollment \<Rightarrow> bool" where
  "pairs_ok e \<longleftrightarrow>
     en_maximum_pair_similarity_q16 e = list_max (pair_similarities (en_samples e))
     \<and> unat (en_maximum_pair_similarity_q16 e) \<le> 65536
     \<and> en_minimum_pair_novelty_q16 e = GX5125_Q16_ONE - en_maximum_pair_similarity_q16 e"

lemma statistics_empty: "statistics_ok (empty_enrollment c)" "pairs_ok (empty_enrollment c)"
  by (simp_all add: statistics_ok_def pairs_ok_def empty_enrollment_def list_min_def list_max_def
      pair_similarities_def)

lemma if_min_max: "(if x < m then x else m) = min x (m :: u32)" "(if m < x then x else m) = max x (m :: u32)"
  by (auto simp: min_def max_def)

lemma statistics_count:
  assumes "statistics_ok e"
  shows "statistics_ok (count_sample e s)"
proof (cases "en_samples e = []")
  case True
  with assms show ?thesis
    by (simp add: statistics_ok_def count_sample_def Let_def list_min_def list_max_def)
next
  case False
  with assms show ?thesis
    by (simp add: statistics_ok_def count_sample_def Let_def list_min_snoc list_max_snoc if_min_max)
qed

lemma count_sample_simps [simp]:
  "en_samples (count_sample e s) = en_samples e @ [s]"
  "en_config (count_sample e s) = en_config e"
  "en_maximum_pair_similarity_q16 (count_sample e s) = en_maximum_pair_similarity_q16 e"
  "en_minimum_pair_novelty_q16 (count_sample e s) = en_minimum_pair_novelty_q16 e"
  by (simp_all add: count_sample_def Let_def)

lemma count_pair_simps [simp]:
  "en_samples (count_pair e b) = en_samples e" "en_config (count_pair e b) = en_config e"
  "statistics_ok (count_pair e b) = statistics_ok e"
  by (simp_all add: count_pair_def Let_def statistics_ok_def)

lemma best_similarity_spec:
  "best_similarity ss v b =
     (if \<exists>s \<in> set ss. exact_duplicate s v then None
      else Some (foldl max b (map (\<lambda>s. capture_similarity_q16 s v) ss)))"
proof (induction ss arbitrary: b)
  case (Cons s ss)
  have "(if capture_similarity_q16 s v > b then capture_similarity_q16 s v else b) = max b (capture_similarity_q16 s v)"
    by (auto simp: max_def)
  with Cons show ?case by (simp add: Let_def)
qed simp

lemma foldl_max: "foldl max (b :: u32) xs = max b (list_max xs)"
proof (induction xs rule: rev_induct)
  case (snoc x xs)
  then show ?case by (auto simp: list_max_snoc max.commute max.left_commute list_max_def)
qed (simp add: list_max_def)

text \<open>The five guards of a submission, in the order of the code.\<close>

definition usable_view :: "gx5125_feature_view \<Rightarrow> bool" where
  "usable_view v \<longleftrightarrow>
     \<not> is_null (fv_records v) \<and> cbuf_len (fv_records v) \<noteq> 0
     \<and> \<not> is_null (fv_packed_map v) \<and> cbuf_len (fv_packed_map v) \<noteq> 0"

definition passes_gates :: "gx5125_enrollment_config \<Rightarrow> gx5125_enrollment_sample \<Rightarrow> bool" where
  "passes_gates c s \<longleftrightarrow>
     ec_minimum_quality c \<le> em_quality (es_metrics s)
     \<and> ec_minimum_coverage c \<le> em_coverage (es_metrics s)
     \<and> ec_minimum_records c \<le> es_record_count s
     \<and> es_records s \<noteq> [] \<and> es_packed_map s \<noteq> []"

definition sample_from :: "gx5125_feature_view \<Rightarrow> gx5125_enrollment_metrics \<Rightarrow> gx5125_enrollment_sample" where
  "sample_from v m =
     \<lparr>es_record_count = fv_record_count v, es_records = cbuf_bytes (fv_records v),
      es_packed_map = cbuf_bytes (fv_packed_map v), es_metrics = m\<rparr>"

lemma usable_view_eq: "usable_view v \<Longrightarrow> sample_view (sample_from v m) = v"
  by (cases v; cases "fv_records v"; cases "fv_packed_map v")
    (simp_all add: usable_view_def sample_view_def sample_from_def)

text \<open>
  A submission either leaves the enrollment as it is, or adds the sample made of the view, which
  passed every gate and duplicates no earlier sample, with the statistics updated.
\<close>

lemma submit_cases:
  assumes "gx5125_enrollment_submit env e feature metrics result h = (rc, r, e', h')"
  shows "e' = e \<and> (isl rc \<or> er_decision r \<noteq> GX5125_ENROLLMENT_ACCEPTED)
    \<or> (\<exists>v. feature = Some v \<and> usable_view v \<and> \<not> en_complete e \<and> rc = Inr ()
        \<and> passes_gates (en_config e) (sample_from v metrics)
        \<and> (\<forall>s \<in> set (en_samples e). \<not> exact_duplicate s v)
        \<and> er_decision r = GX5125_ENROLLMENT_ACCEPTED
        \<and> e' = count_pair (count_sample e (sample_from v metrics))
                 (list_max (similarities (en_samples e) (sample_from v metrics))))"
proof (cases "\<exists>v best h1. feature = Some v \<and> usable_view v \<and> \<not> en_complete e
    \<and> passes_gates (en_config e) (sample_from v metrics)
    \<and> best_similarity (en_samples e) v 0 = Some best \<and> sample_copy env v metrics h = (Inr (sample_from v metrics), h1)")
  case True
  then obtain v best h1 where f: "feature = Some v" and u: "usable_view v" and n: "\<not> en_complete e"
    and g: "passes_gates (en_config e) (sample_from v metrics)"
    and b: "best_similarity (en_samples e) v 0 = Some best"
    and c: "sample_copy env v metrics h = (Inr (sample_from v metrics), h1)" by blast
  from b have nd: "\<forall>s \<in> set (en_samples e). \<not> exact_duplicate s v"
    and best: "best = list_max (similarities (en_samples e) (sample_from v metrics))"
    by (auto simp: best_similarity_spec foldl_max similarities_def usable_view_eq [OF u] max_def
        split: if_splits)
  from g have "\<not> em_quality metrics < ec_minimum_quality (en_config e)"
    "\<not> em_coverage metrics < ec_minimum_coverage (en_config e)"
    "\<not> fv_record_count v < ec_minimum_records (en_config e)"
    by (simp_all add: passes_gates_def sample_from_def not_less)
  with assms u n b c f have "rc = Inr () \<and> er_decision r = GX5125_ENROLLMENT_ACCEPTED
      \<and> e' = count_pair (count_sample e (sample_from v metrics)) best"
    by (auto simp: gx5125_enrollment_submit_def usable_view_def Let_def)
  with f u n g nd best show ?thesis by blast
next
  case False
  have copy: "fst (sample_copy env v metrics h) = Inr (sample_from v metrics)"
    if "\<not> isl (fst (sample_copy env v metrics h))" for v
    using that by (auto simp: sample_copy_def sample_from_def ext_do_def Let_def split: if_splits)
  have gates: "passes_gates (en_config e) (sample_from v metrics)"
    if "usable_view v" "\<not> em_quality metrics < ec_minimum_quality (en_config e)"
      "\<not> em_coverage metrics < ec_minimum_coverage (en_config e)"
      "\<not> fv_record_count v < ec_minimum_records (en_config e)" for v
    using that by (cases "fv_records v"; cases "fv_packed_map v")
      (auto simp: passes_gates_def sample_from_def usable_view_def)
  have "e' = e \<and> (isl rc \<or> er_decision r \<noteq> GX5125_ENROLLMENT_ACCEPTED)"
  proof (cases feature)
    case None
    with assms show ?thesis by (auto simp: gx5125_enrollment_submit_def)
  next
    case (Some v)
    obtain cp h1 where c: "sample_copy env v metrics h = (cp, h1)" by (rule prod.exhaust)
    with copy [of v] have "isl cp \<or> cp = Inr (sample_from v metrics)" by auto
    then show ?thesis
      using assms False Some c gates [of v]
      by (auto simp: gx5125_enrollment_submit_def usable_view_def result_initialize_def Let_def
          split: if_splits option.splits sum.splits)
  qed
  then show ?thesis by blast
qed

lemma pairs_count:
  assumes "pairs_ok e" and "b = list_max (similarities (en_samples e) s)" and "unat b \<le> 65536"
    and "en_samples e = [] \<Longrightarrow> en_maximum_pair_similarity_q16 e = 0"
  shows "pairs_ok (count_pair (count_sample e s) b)"
proof -
  let ?m = "en_maximum_pair_similarity_q16 e"
  have m: "unat ?m \<le> 65536" using assms(1) unfolding pairs_ok_def by blast
  with assms(3) have le: "?m \<le> GX5125_Q16_ONE" "b \<le> GX5125_Q16_ONE"
    by (simp_all add: word_le_nat_alt GX5125_Q16_ONE_def)
  have pairs: "list_max (pair_similarities (en_samples e @ [s])) = max ?m b"
    using assms(1,2) by (simp add: pair_similarities_snoc list_max_append pairs_ok_def)
  have swap: "GX5125_Q16_ONE - b < GX5125_Q16_ONE - ?m \<longleftrightarrow> ?m < b"
    using le by (simp add: word_less_nat_alt unat_sub word_le_nat_alt) linarith
  show ?thesis
  proof (cases "en_samples e = []")
    case True
    then have "b = 0" using assms(2) by (simp add: similarities_def list_max_def)
    with True assms show ?thesis
      by (simp add: pairs_ok_def count_pair_def pair_similarities_snoc similarities_def
          pair_similarities_def list_max_def)
  next
    case False
    have nov: "en_minimum_pair_novelty_q16 e = GX5125_Q16_ONE - ?m" using assms(1) by (simp add: pairs_ok_def)
    show ?thesis
    proof (cases "?m < b")
      case True
      with False pairs nov assms(3) swap show ?thesis
        by (auto simp: pairs_ok_def count_pair_def Let_def max_def not_le)
    next
      case F: False
      with False pairs nov m swap show ?thesis
        by (auto simp: pairs_ok_def count_pair_def Let_def max_def)
    qed
  qed
qed

text \<open>
  Everything the interface can do to an enrollment before it is complete: create, submit any
  features, reset. A bit map is an object in memory, below \<open>2 ^ 40\<close> bytes.
\<close>

inductive enrollment_reachable :: "gx5125_enrollment \<Rightarrow> bool" where
  create: "gx5125_enrollment_create env c h = (Some e, h') \<Longrightarrow> enrollment_reachable e"
| submit: "enrollment_reachable e \<Longrightarrow> (\<And>v. f = Some v \<Longrightarrow> cbuf_len (fv_packed_map v) < 2 ^ 40)
    \<Longrightarrow> gx5125_enrollment_submit env e f m r h = (rc, r', e', h') \<Longrightarrow> enrollment_reachable e'"
| reset: "enrollment_reachable e \<Longrightarrow> gx5125_enrollment_reset env e h = (e', h') \<Longrightarrow> enrollment_reachable e'"

text \<open>The invariant of the accepted samples.\<close>

definition samples_ok :: "gx5125_enrollment \<Rightarrow> bool" where
  "samples_ok e \<longleftrightarrow>
     enrollment_config_valid (en_config e)
     \<and> length (en_samples e) \<le> unat (ec_target_samples (en_config e))
     \<and> (\<forall>s \<in> set (en_samples e). passes_gates (en_config e) s)
     \<and> distinct (map sample_view (en_samples e))"

lemma list_max_bound: "(\<And>x. x \<in> set xs \<Longrightarrow> unat x \<le> n) \<Longrightarrow> unat (list_max xs) \<le> n"
  using Max_in [of "set xs"] by (auto simp: list_max_def)

lemma not_duplicate_view:
  "usable_view v \<Longrightarrow> \<not> exact_duplicate s v \<Longrightarrow> sample_view s \<noteq> v"
  by (auto simp: exact_duplicate_def sample_view_def)

lemma reachable_invariant:
  "enrollment_reachable e \<Longrightarrow> statistics_ok e \<and> pairs_ok e \<and> samples_ok e"
proof (induction rule: enrollment_reachable.induct)
  case (create env c h e h')
  then have "e = empty_enrollment (en_config e)" "enrollment_config_valid (en_config e)"
    by (auto simp: gx5125_enrollment_create_def ext_do_def Let_def empty_enrollment_def split: if_splits)
  moreover have "en_samples (empty_enrollment (en_config e)) = []" by (simp add: empty_enrollment_def)
  ultimately show ?case using statistics_empty by (metis (no_types, lifting) samples_ok_def distinct.simps(1)
      empty_iff empty_set le0 list.map(1) list.size(3))
next
  case (submit e f env m r h rc r' e' h')
  from submit_cases [OF submit.hyps(3)] show ?case
  proof (elim disjE)
    assume "\<exists>v. f = Some v \<and> usable_view v \<and> \<not> en_complete e \<and> rc = Inr ()
        \<and> passes_gates (en_config e) (sample_from v m)
        \<and> (\<forall>s \<in> set (en_samples e). \<not> exact_duplicate s v)
        \<and> er_decision r' = GX5125_ENROLLMENT_ACCEPTED
        \<and> e' = count_pair (count_sample e (sample_from v m))
                 (list_max (similarities (en_samples e) (sample_from v m)))"
    then obtain v where v: "f = Some v" "usable_view v" "\<not> en_complete e"
      and g: "passes_gates (en_config e) (sample_from v m)"
      and nd: "\<forall>s \<in> set (en_samples e). \<not> exact_duplicate s v"
      and e': "e' = count_pair (count_sample e (sample_from v m))
                 (list_max (similarities (en_samples e) (sample_from v m)))" by blast
    have small: "cbuf_len (fv_packed_map v) < 2 ^ 40" using submit.hyps(2) v(1) by blast
    have "unat (list_max (similarities (en_samples e) (sample_from v m))) \<le> 65536"
      using similarity_bound [OF small]
      by (intro list_max_bound) (auto simp: similarities_def usable_view_eq [OF v(2)])
    moreover have "en_samples e = [] \<Longrightarrow> en_maximum_pair_similarity_q16 e = 0"
      using submit.IH by (simp add: pairs_ok_def pair_similarities_def list_max_def)
    ultimately have "pairs_ok e'" unfolding e' using submit.IH by (intro pairs_count) simp_all
    moreover have "statistics_ok e'" unfolding e' using submit.IH by (simp add: statistics_count)
    moreover have "samples_ok e'"
      using submit.IH v(3) g nd not_duplicate_view [OF v(2)] unfolding e'
      by (auto simp: samples_ok_def en_complete_def usable_view_eq [OF v(2)])
    ultimately show ?thesis by blast
  qed (use submit.IH in simp)
next
  case (reset e env h e' h')
  then have "e' = empty_enrollment (en_config e)" by (simp add: gx5125_enrollment_reset_def)
  with reset.IH show ?case using statistics_empty
    by (simp add: samples_ok_def) (simp add: empty_enrollment_def)
qed

text \<open>
  C16: the statistics are exact. In every enrollment that create, submit and reset can make, the
  number of samples is within the target, every sample passed the quality, coverage and record gates
  and no two are the same capture; the total and the extremes of the records, the quality and the
  coverage are those of the accepted samples, the maximum pair similarity is the largest over all
  pairs, at most one, and the minimum novelty is its complement to one.
\<close>

theorem enrollment_statistics_exact:
  assumes "enrollment_reachable e"
  shows "length (en_samples e) \<le> unat (ec_target_samples (en_config e))
    \<and> length (en_samples e) \<le> GX5125_ENROLLMENT_MAX_SAMPLES
    \<and> list_all (passes_gates (en_config e)) (en_samples e)
    \<and> distinct (map sample_view (en_samples e))
    \<and> en_total_records e = sum_list (map es_record_count (en_samples e))
    \<and> en_minimum_records e = list_min (map es_record_count (en_samples e))
    \<and> en_maximum_records e = list_max (map es_record_count (en_samples e))
    \<and> en_minimum_quality e = list_min (map (em_quality \<circ> es_metrics) (en_samples e))
    \<and> en_minimum_coverage e = list_min (map (em_coverage \<circ> es_metrics) (en_samples e))
    \<and> en_maximum_pair_similarity_q16 e = list_max (pair_similarities (en_samples e))
    \<and> unat (en_maximum_pair_similarity_q16 e) \<le> 65536
    \<and> en_minimum_pair_novelty_q16 e = GX5125_Q16_ONE - en_maximum_pair_similarity_q16 e"
  using reachable_invariant [OF assms]
  unfolding statistics_ok_def pairs_ok_def samples_ok_def enrollment_config_valid_def list_all_iff
  by auto

text \<open>The allocations of a sample's copy are served.\<close>

definition copy_served :: "environment \<Rightarrow> gx5125_feature_view \<Rightarrow> history \<Rightarrow> bool" where
  "copy_served env v h \<longleftrightarrow>
     (let records = Malloc (cbuf_len (fv_records v)); packed = Malloc (cbuf_len (fv_packed_map v))
      in \<not> isl (reply_rc (env h records)) \<and> \<not> isl (reply_rc (env (h @ [records]) packed)))"

lemma submit_accepts:
  assumes "usable_view v" "\<not> en_complete e" "passes_gates (en_config e) (sample_from v metrics)"
    and "\<forall>s \<in> set (en_samples e). \<not> exact_duplicate s v" and "copy_served env v h"
    and run: "gx5125_enrollment_submit env e (Some v) metrics result h = (rc, r, e', h')"
  shows "er_decision r = GX5125_ENROLLMENT_ACCEPTED"
proof -
  obtain best where best: "best_similarity (en_samples e) v 0 = Some best"
    using assms(4) by (auto simp: best_similarity_spec)
  have gates: "\<not> em_quality metrics < ec_minimum_quality (en_config e)"
    "\<not> em_coverage metrics < ec_minimum_coverage (en_config e)" "\<not> fv_record_count v < ec_minimum_records (en_config e)"
    using assms(3) by (simp_all add: passes_gates_def sample_from_def not_less)
  obtain cp h1 where c: "sample_copy env v metrics h = (Inr cp, h1)"
    using assms(5) by (simp add: sample_copy_def copy_served_def ext_do_def Let_def)
  show ?thesis
    using run assms(1,2) gates best c by (auto simp: gx5125_enrollment_submit_def usable_view_def Let_def)
qed

text \<open>
  C17: what a submission decides. A submission is accepted exactly when it was of a usable feature, to an
  enrollment not yet complete, with quality, coverage and record count at the configured minimum or
  above, not a byte-for-byte repetition of an earlier sample, and the two allocations of its copy were served; it then
  adds exactly that sample. A submission that is not accepted changes nothing.
\<close>

theorem submit_accepts_exactly:
  assumes "gx5125_enrollment_submit env e feature metrics result h = (rc, r, e', h')"
    and "er_decision result \<noteq> GX5125_ENROLLMENT_ACCEPTED"
  shows "(er_decision r = GX5125_ENROLLMENT_ACCEPTED \<longleftrightarrow>
      (\<exists>v. feature = Some v \<and> usable_view v \<and> \<not> en_complete e
         \<and> passes_gates (en_config e) (sample_from v metrics)
         \<and> list_all (\<lambda>s. \<not> exact_duplicate s v) (en_samples e) \<and> copy_served env v h))
    \<and> (if er_decision r = GX5125_ENROLLMENT_ACCEPTED
       then rc = Inr () \<and> en_samples e' = en_samples e @ [sample_from (the feature) metrics] \<and> en_config e' = en_config e
       else e' = e)"
proof (cases "er_decision r = GX5125_ENROLLMENT_ACCEPTED \<and> rc = Inr ()")
  case True
  with submit_cases [OF assms(1)] obtain v where v: "feature = Some v" "usable_view v" "\<not> en_complete e"
    "passes_gates (en_config e) (sample_from v metrics)" "\<forall>s \<in> set (en_samples e). \<not> exact_duplicate s v"
    "e' = count_pair (count_sample e (sample_from v metrics)) (list_max (similarities (en_samples e) (sample_from v metrics)))"
    by auto
  have "copy_served env v h"
    using assms True v(1) by (auto simp: gx5125_enrollment_submit_def result_initialize_def Let_def sample_copy_def ext_do_def copy_served_def
        split: option.splits if_splits sum.splits)
  with v True show ?thesis by (auto simp: list_all_iff)
next
  case False
  have "rc = Inr ()" if "er_decision r = GX5125_ENROLLMENT_ACCEPTED"
    using assms that
    by (auto simp: gx5125_enrollment_submit_def result_initialize_def Let_def sample_copy_def ext_do_def
        split: option.splits if_splits)
  with False have no: "er_decision r \<noteq> GX5125_ENROLLMENT_ACCEPTED" by blast
  with submit_cases [OF assms(1)] have "e' = e" by auto
  moreover have "\<not> (\<exists>v. feature = Some v \<and> usable_view v \<and> \<not> en_complete e \<and> passes_gates (en_config e) (sample_from v metrics)
      \<and> list_all (\<lambda>s. \<not> exact_duplicate s v) (en_samples e) \<and> copy_served env v h)"
    using no submit_accepts assms(1) by (auto simp: list_all_iff)
  ultimately show ?thesis using no by simp
qed

section \<open>Concrete enrollments\<close>

definition sample_metrics :: gx5125_enrollment_metrics where
  "sample_metrics = \<lparr>em_quality = 80, em_coverage = 90, em_mask_coverage_q16 = 60000\<rparr>"

definition new_enrollment :: gx5125_enrollment where
  "new_enrollment = empty_enrollment gx5125_enrollment_default_config"

definition blank_result :: gx5125_enrollment_result where
  "blank_result = result_initialize new_enrollment (sample_view (sample_of 50 3 0x0f)) sample_metrics"

lemma new_reachable: "enrollment_reachable new_enrollment"
proof -
  have "gx5125_enrollment_create quiet_env None [] = (Some new_enrollment, [Calloc 1])"
    by (simp add: gx5125_enrollment_create_def enrollment_config_valid_def gx5125_enrollment_default_config_def
        new_enrollment_def ext_do_def quiet_env_def enrollment_consts)
  then show ?thesis by (rule enrollment_reachable.create)
qed

text \<open>A first capture is accepted.\<close>

definition one_sample :: gx5125_enrollment where
  "one_sample = count_pair (count_sample new_enrollment (sample_of 50 3 0x0f)) 0"

lemma first_capture:
  "\<exists>r. gx5125_enrollment_submit quiet_env new_enrollment (Some (sample_view (sample_of 50 3 0x0f)))
      sample_metrics blank_result [] = (Inr (), r, one_sample, [Malloc 3000, Malloc 8])
    \<and> er_decision r = GX5125_ENROLLMENT_ACCEPTED"
  by (simp add: gx5125_enrollment_submit_def sample_view_def sample_of_def sample_metrics_def
      new_enrollment_def empty_enrollment_def gx5125_enrollment_default_config_def en_complete_def
      sample_copy_def ext_do_def quiet_env_def one_sample_def Let_def GX5125_EXTRACTOR_RECORD_BYTES_def)

theorem enrollment_statistics_exact_witness:
  "en_total_records one_sample = 50 \<and> en_minimum_quality one_sample = 80
   \<and> list_all (passes_gates (en_config one_sample)) (en_samples one_sample)"
proof -
  from first_capture obtain r where
    "gx5125_enrollment_submit quiet_env new_enrollment (Some (sample_view (sample_of 50 3 0x0f)))
       sample_metrics blank_result [] = (Inr (), r, one_sample, [Malloc 3000, Malloc 8])" by blast
  then have "enrollment_reachable one_sample"
    by (rule enrollment_reachable.submit [OF new_reachable, rotated])
      (auto simp: sample_view_def sample_of_def)
  note x = enrollment_statistics_exact [OF this]
  have "en_samples one_sample = [sample_of 50 3 0x0f]"
    by (simp add: one_sample_def new_enrollment_def empty_enrollment_def)
  with x show ?thesis by (simp add: sample_of_def list_min_def)
qed

theorem submit_accepts_exactly_witness:
  "\<exists>r. gx5125_enrollment_submit quiet_env new_enrollment (Some (sample_view (sample_of 50 3 0x0f)))
      sample_metrics blank_result [] = (Inr (), r, one_sample, [Malloc 3000, Malloc 8])
    \<and> en_samples one_sample = en_samples new_enrollment @ [sample_of 50 3 0x0f]"
proof -
  from first_capture obtain r where
    s: "gx5125_enrollment_submit quiet_env new_enrollment (Some (sample_view (sample_of 50 3 0x0f)))
       sample_metrics blank_result [] = (Inr (), r, one_sample, [Malloc 3000, Malloc 8])"
    and d: "er_decision r = GX5125_ENROLLMENT_ACCEPTED" by blast
  have "er_decision blank_result \<noteq> GX5125_ENROLLMENT_ACCEPTED"
    by (simp add: blank_result_def result_initialize_def)
  from submit_accepts_exactly [OF s this] d s show ?thesis
    by (auto simp: sample_from_def sample_view_def sample_of_def sample_metrics_def)
qed

end
