(* ===== verification/Template.thy ===== *)
theory Template
  imports Enrollment
begin

text \<open>
  The stored template, the second half of \<open>src/gx_enrollment.c\<close>: a header of 80 bytes with a CRC-32
  over the whole file (its own field read as zero), then for each sample a header of 24 bytes, the
  records and the bit map. Theorems: writing and loading are inverse in both directions, what the
  loader accepts, and which heap blocks it leaves when it fails.
\<close>

section \<open>Constants, integers, checksum\<close>

definition GX5125_ENROLLMENT_TEMPLATE_FORMAT_VERSION :: u32 where
  "GX5125_ENROLLMENT_TEMPLATE_FORMAT_VERSION = 1"
definition GX5125_TEMPLATE_HEADER_BYTES :: nat where "GX5125_TEMPLATE_HEADER_BYTES = 80"
definition GX5125_TEMPLATE_SAMPLE_HEADER_BYTES :: nat where "GX5125_TEMPLATE_SAMPLE_HEADER_BYTES = 24"
definition GX5125_TEMPLATE_CRC_OFFSET :: nat where "GX5125_TEMPLATE_CRC_OFFSET = 72"
definition GX5125_TEMPLATE_MAX_BYTES :: nat where "GX5125_TEMPLATE_MAX_BYTES = 1048576"
definition SIZE_MAX :: nat where "SIZE_MAX = 2 ^ 64 - 1"

definition gx5125_template_magic :: "u8 list" where
  "gx5125_template_magic = [0x47, 0x58, 0x35, 0x31, 0x32, 0x35, 0x54, 0x31]"

lemmas template_consts = GX5125_ENROLLMENT_TEMPLATE_FORMAT_VERSION_def GX5125_TEMPLATE_HEADER_BYTES_def
  GX5125_TEMPLATE_SAMPLE_HEADER_BYTES_def GX5125_TEMPLATE_CRC_OFFSET_def GX5125_TEMPLATE_MAX_BYTES_def
  SIZE_MAX_def gx5125_template_magic_def

definition read_u32_le :: "u8 list \<Rightarrow> u32" where
  "read_u32_le source = le32 (source ! 0) (source ! 1) (source ! 2) (source ! 3)"

definition add_size_checked :: "nat \<Rightarrow> nat \<Rightarrow> nat option" where
  "add_size_checked v addend = (if addend > SIZE_MAX - v then None else Some (v + addend))"

definition template_crc_bit :: "u32 \<Rightarrow> u32" where
  "template_crc_bit crc = drop_bit 1 crc XOR (if crc AND 1 \<noteq> 0 then 0xedb88320 else 0)"

definition template_crc_byte :: "u8 list \<Rightarrow> u32 \<Rightarrow> nat \<Rightarrow> u32" where
  "template_crc_byte bytes crc index =
     (let v = (if index \<ge> GX5125_TEMPLATE_CRC_OFFSET \<and> index < GX5125_TEMPLATE_CRC_OFFSET + 4
               then 0 else bytes ! index)
      in (template_crc_bit ^^ 8) (crc XOR ucast v))"

definition template_crc32 :: "u8 list \<Rightarrow> nat \<Rightarrow> u32" where
  "template_crc32 bytes n = NOT (foldl (template_crc_byte bytes) 0xffffffff [0..<n])"

section \<open>Writing\<close>

text \<open>\<open>None\<close> is the \<open>return 0U\<close> inside the loop. The blocks of an accepted sample are never null.\<close>

fun serialized_samples :: "gx5125_enrollment_sample list \<Rightarrow> nat \<Rightarrow> nat option" where
  "serialized_samples [] nbytes = Some nbytes"
| "serialized_samples (s # ss) nbytes =
     (if es_record_count s = 0
         \<or> unat (es_record_count s) > GX5125_EXTRACTOR_MAX_RECORDS
         \<or> length (es_records s) \<noteq> unat (es_record_count s) * GX5125_EXTRACTOR_RECORD_BYTES
         \<or> length (es_packed_map s) = 0
         \<or> length (es_packed_map s) > GX5125_EXTRACTOR_PIXELS
      then None
      else
        case add_size_checked nbytes GX5125_TEMPLATE_SAMPLE_HEADER_BYTES of None \<Rightarrow> None
        | Some t1 \<Rightarrow>
            case add_size_checked t1 (length (es_records s)) of None \<Rightarrow> None
            | Some t2 \<Rightarrow>
                case add_size_checked t2 (length (es_packed_map s)) of None \<Rightarrow> None
                | Some t3 \<Rightarrow> serialized_samples ss t3)"

definition gx5125_enrollment_serialized_size :: "gx5125_enrollment \<Rightarrow> nat" where
  "gx5125_enrollment_serialized_size e =
     (if length (en_samples e) = 0
         \<or> length (en_samples e) \<noteq> unat (ec_target_samples (en_config e))
         \<or> length (en_samples e) > GX5125_ENROLLMENT_MAX_SAMPLES
      then 0
      else case serialized_samples (en_samples e) GX5125_TEMPLATE_HEADER_BYTES of
             None \<Rightarrow> 0
           | Some nbytes \<Rightarrow>
               if nbytes > GX5125_TEMPLATE_MAX_BYTES \<or> nbytes > 2 ^ 32 - 1 then 0 else nbytes)"

text \<open>The fields are written one after the other; the three words from offset 68 are zero at first.\<close>

definition template_header :: "gx5125_enrollment \<Rightarrow> nat \<Rightarrow> u8 list" where
  "template_header e nbytes =
     gx5125_template_magic
     @ bytes32 GX5125_ENROLLMENT_TEMPLATE_FORMAT_VERSION
     @ bytes32 (of_nat GX5125_TEMPLATE_HEADER_BYTES)
     @ bytes32 (of_nat nbytes)
     @ bytes32 (of_nat (length (en_samples e)))
     @ bytes32 (ec_target_samples (en_config e))
     @ bytes32 (ec_minimum_quality (en_config e))
     @ bytes32 (ec_minimum_coverage (en_config e))
     @ bytes32 (ec_minimum_records (en_config e))
     @ bytes32 (en_total_records e)
     @ bytes32 (en_minimum_records e)
     @ bytes32 (en_maximum_records e)
     @ bytes32 (en_minimum_quality e)
     @ bytes32 (en_minimum_coverage e)
     @ bytes32 (en_maximum_pair_similarity_q16 e)
     @ bytes32 (en_minimum_pair_novelty_q16 e)
     @ bytes32 0 @ bytes32 0 @ bytes32 0"

definition sample_block :: "gx5125_enrollment_sample \<Rightarrow> u8 list" where
  "sample_block s =
     bytes32 (es_record_count s)
     @ bytes32 (of_nat (length (es_records s)))
     @ bytes32 (of_nat (length (es_packed_map s)))
     @ bytes32 (em_quality (es_metrics s))
     @ bytes32 (em_coverage (es_metrics s))
     @ bytes32 (em_mask_coverage_q16 (es_metrics s))
     @ es_records s @ es_packed_map s"

definition gx5125_enrollment_serialize ::
    "gx5125_enrollment \<Rightarrow> cbuf \<Rightarrow> gx5125_enrollment_status + u8 list \<times> nat" where
  "gx5125_enrollment_serialize e destination =
     (let nbytes = gx5125_enrollment_serialized_size e
      in if is_null destination then Inl GX5125_ENROLLMENT_ERR_ARGUMENT
         else if nbytes = 0 then Inl GX5125_ENROLLMENT_ERR_STATE
         else if cbuf_len destination < nbytes then Inl GX5125_ENROLLMENT_ERR_CAPACITY
         else
           let bytes = template_header e nbytes @ concat (map sample_block (en_samples e))
           in if length bytes \<noteq> nbytes then Inl GX5125_ENROLLMENT_ERR_STATE
              else Inr (mem_write bytes GX5125_TEMPLATE_CRC_OFFSET (bytes32 (template_crc32 bytes nbytes))
                          @ drop nbytes (cbuf_bytes destination),
                        nbytes))"

section \<open>Loading\<close>

text \<open>
  The loop over the samples: the offset behind the last one, or the status, and the enrollment so
  far. When one of the two allocations of a sample fails the loop is left at once.
\<close>

fun load_samples ::
    "environment \<Rightarrow> nat \<Rightarrow> u8 list \<Rightarrow> nat \<Rightarrow> gx5125_enrollment \<Rightarrow> history \<Rightarrow>
     (gx5125_enrollment_status + nat) \<times> gx5125_enrollment \<times> history" where
  "load_samples env 0 source offset e h = (Inr offset, e, h)"
| "load_samples env (Suc n) source offset e h =
     (if offset > length source \<or> length source - offset < GX5125_TEMPLATE_SAMPLE_HEADER_BYTES
      then (Inl GX5125_ENROLLMENT_ERR_FORMAT, e, h)
      else
        let record_count = read_u32_le (drop (offset + 0) source);
            record_bytes = read_u32_le (drop (offset + 4) source);
            packed_map_bytes = read_u32_le (drop (offset + 8) source);
            quality = read_u32_le (drop (offset + 12) source);
            coverage = read_u32_le (drop (offset + 16) source);
            mask_coverage_q16 = read_u32_le (drop (offset + 20) source);
            offset = offset + GX5125_TEMPLATE_SAMPLE_HEADER_BYTES
        in if record_count = 0
              \<or> unat record_count > GX5125_EXTRACTOR_MAX_RECORDS
              \<or> record_bytes \<noteq> record_count * of_nat GX5125_EXTRACTOR_RECORD_BYTES
              \<or> packed_map_bytes = 0
              \<or> unat packed_map_bytes > GX5125_EXTRACTOR_PIXELS
              \<or> quality > 100 \<or> coverage > 100
              \<or> mask_coverage_q16 > GX5125_Q16_ONE
              \<or> offset > length source
              \<or> unat record_bytes > length source - offset
              \<or> unat packed_map_bytes > length source - offset - unat record_bytes
           then (Inl GX5125_ENROLLMENT_ERR_FORMAT, e, h)
           else
             let (r, h1) = ext_do env (Malloc (unat record_bytes)) h;
                 (p, h2) = ext_do env (Malloc (unat packed_map_bytes)) h1
             in if isl (reply_rc r) \<or> isl (reply_rc p) then (Inl GX5125_ENROLLMENT_ERR_MEMORY, e, h2)
                else
                  load_samples env n source (offset + unat record_bytes + unat packed_map_bytes)
                    (count_sample e
                       \<lparr>es_record_count = record_count,
                        es_records = take (unat record_bytes) (drop offset source),
                        es_packed_map = take (unat packed_map_bytes) (drop (offset + unat record_bytes) source),
                        es_metrics = \<lparr>em_quality = quality, em_coverage = coverage,
                                      em_mask_coverage_q16 = mask_coverage_q16\<rparr>\<rparr>) h2)"

definition template_prefix_ok :: "u8 list \<Rightarrow> bool" where
  "template_prefix_ok source \<longleftrightarrow>
     \<not> (length source < GX5125_TEMPLATE_HEADER_BYTES
        \<or> length source > GX5125_TEMPLATE_MAX_BYTES
        \<or> take 8 source \<noteq> gx5125_template_magic
        \<or> read_u32_le (drop 8 source) \<noteq> GX5125_ENROLLMENT_TEMPLATE_FORMAT_VERSION
        \<or> read_u32_le (drop 12 source) \<noteq> of_nat GX5125_TEMPLATE_HEADER_BYTES
        \<or> unat (read_u32_le (drop 16 source)) \<noteq> length source
        \<or> read_u32_le (drop 68 source) \<noteq> 0
        \<or> read_u32_le (drop 76 source) \<noteq> 0)"

definition template_config :: "u8 list \<Rightarrow> gx5125_enrollment_config" where
  "template_config source =
     \<lparr>ec_target_samples = read_u32_le (drop 24 source), ec_minimum_quality = read_u32_le (drop 28 source),
      ec_minimum_coverage = read_u32_le (drop 32 source), ec_minimum_records = read_u32_le (drop 36 source)\<rparr>"

definition gx5125_enrollment_deserialize ::
    "environment \<Rightarrow> cbuf \<Rightarrow> history \<Rightarrow> (gx5125_enrollment_status + gx5125_enrollment) \<times> history" where
  "gx5125_enrollment_deserialize env buffer h =
     (let source = cbuf_bytes buffer
      in if is_null buffer then (Inl GX5125_ENROLLMENT_ERR_ARGUMENT, h)
         else if \<not> template_prefix_ok source then (Inl GX5125_ENROLLMENT_ERR_FORMAT, h)
         else if read_u32_le (drop GX5125_TEMPLATE_CRC_OFFSET source) \<noteq> template_crc32 source (length source)
         then (Inl GX5125_ENROLLMENT_ERR_INTEGRITY, h)
         else
           let sample_count = read_u32_le (drop 20 source);
               config = template_config source
           in if sample_count = 0
                 \<or> unat sample_count > GX5125_ENROLLMENT_MAX_SAMPLES
                 \<or> sample_count \<noteq> ec_target_samples config
                 \<or> \<not> enrollment_config_valid config
                 \<or> read_u32_le (drop 60 source) > GX5125_Q16_ONE
                 \<or> read_u32_le (drop 64 source) > GX5125_Q16_ONE
              then (Inl GX5125_ENROLLMENT_ERR_FORMAT, h)
              else
                let (created, h1) = gx5125_enrollment_create env (Some config) h
                in case created of
                     None \<Rightarrow> (Inl GX5125_ENROLLMENT_ERR_MEMORY, h1)
                   | Some e0 \<Rightarrow>
                       let (rc, e, h2) = load_samples env (unat sample_count) source
                             GX5125_TEMPLATE_HEADER_BYTES e0 h1
                       in case rc of
                            Inl status \<Rightarrow> (Inl status, gx5125_enrollment_destroy env e h2)
                          | Inr offset \<Rightarrow>
                              if offset \<noteq> length source
                                 \<or> en_total_records e \<noteq> read_u32_le (drop 40 source)
                                 \<or> en_minimum_records e \<noteq> read_u32_le (drop 44 source)
                                 \<or> en_maximum_records e \<noteq> read_u32_le (drop 48 source)
                                 \<or> en_minimum_quality e \<noteq> read_u32_le (drop 52 source)
                                 \<or> en_minimum_coverage e \<noteq> read_u32_le (drop 56 source)
                              then (Inl GX5125_ENROLLMENT_ERR_FORMAT, gx5125_enrollment_destroy env e h2)
                              else (Inr (e\<lparr>en_maximum_pair_similarity_q16 := read_u32_le (drop 60 source),
                                           en_minimum_pair_novelty_q16 := read_u32_le (drop 64 source)\<rparr>), h2))"

section \<open>Names\<close>

definition gx5125_enrollment_status_string :: "int \<Rightarrow> string" where
  "gx5125_enrollment_status_string status =
     (if status = 0 then ''ok''
      else if status = -3000 then ''invalid argument''
      else if status = -3001 then ''memory allocation failed''
      else if status = -3002 then ''invalid enrollment state''
      else if status = -3003 then ''invalid feature object''
      else if status = -3004 then ''invalid template format''
      else if status = -3005 then ''template integrity check failed''
      else if status = -3006 then ''destination capacity too small''
      else ''unknown enrollment error'')"

fun gx5125_enrollment_decision_string :: "gx5125_enrollment_decision \<Rightarrow> string" where
  "gx5125_enrollment_decision_string GX5125_ENROLLMENT_ACCEPTED = ''accepted''"
| "gx5125_enrollment_decision_string GX5125_ENROLLMENT_REJECT_LOW_QUALITY = ''low-quality''"
| "gx5125_enrollment_decision_string GX5125_ENROLLMENT_REJECT_LOW_COVERAGE = ''low-coverage''"
| "gx5125_enrollment_decision_string GX5125_ENROLLMENT_REJECT_LOW_RECORD_COUNT = ''low-record-count''"
| "gx5125_enrollment_decision_string GX5125_ENROLLMENT_REJECT_EXACT_DUPLICATE = ''exact-duplicate''"
| "gx5125_enrollment_decision_string GX5125_ENROLLMENT_REJECT_COMPLETE = ''already-complete''"

text \<open>\<open>True\<close> is the result 0.\<close>

definition gx5125_enrollment_selftest :: "environment \<Rightarrow> history \<Rightarrow> bool \<times> history" where
  "gx5125_enrollment_selftest env h =
     (let config = gx5125_enrollment_default_config\<lparr>ec_target_samples := 3\<rparr>;
          (created, h1) = gx5125_enrollment_create env (Some config) h
      in case created of
           None \<Rightarrow> (False, h1)
         | Some e \<Rightarrow>
             let summary = gx5125_enrollment_get_summary e
             in if gx5125_enrollment_is_complete (Some e)
                   \<or> eu_target_samples summary \<noteq> 3 \<or> eu_accepted_samples summary \<noteq> 0
                then (False, gx5125_enrollment_destroy env e h1)
                else
                  let (e1, h2) = gx5125_enrollment_reset env e h1
                  in (True, gx5125_enrollment_destroy env e1 h2))"

section \<open>Fields\<close>

lemma read_bytes32 [simp]: "read_u32_le (bytes32 v @ rest) = v"
  by (simp add: read_u32_le_def bytes32_def)

lemma split32: "4 \<le> length bs \<Longrightarrow> bs = bytes32 (read_u32_le bs) @ drop 4 bs"
  using list4 [of bs] by (simp add: read_u32_le_def)

lemma split32_at: "off + 4 \<le> length bs \<Longrightarrow> drop off bs = bytes32 (read_u32_le (drop off bs)) @ drop (off + 4) bs"
  using split32 [of "drop off bs"] by (simp add: add.commute)

lemma length_magic [simp]: "length gx5125_template_magic = 8"
  by (simp add: template_consts)

text \<open>The header up to the checksum.\<close>

definition head72 :: "gx5125_enrollment \<Rightarrow> nat \<Rightarrow> u8 list" where
  "head72 e nbytes =
     gx5125_template_magic @ bytes32 GX5125_ENROLLMENT_TEMPLATE_FORMAT_VERSION
     @ bytes32 (of_nat GX5125_TEMPLATE_HEADER_BYTES) @ bytes32 (of_nat nbytes)
     @ bytes32 (of_nat (length (en_samples e))) @ bytes32 (ec_target_samples (en_config e))
     @ bytes32 (ec_minimum_quality (en_config e)) @ bytes32 (ec_minimum_coverage (en_config e))
     @ bytes32 (ec_minimum_records (en_config e)) @ bytes32 (en_total_records e)
     @ bytes32 (en_minimum_records e) @ bytes32 (en_maximum_records e)
     @ bytes32 (en_minimum_quality e) @ bytes32 (en_minimum_coverage e)
     @ bytes32 (en_maximum_pair_similarity_q16 e) @ bytes32 (en_minimum_pair_novelty_q16 e) @ bytes32 0"

lemma length_head72 [simp]: "length (head72 e nbytes) = 72"
  by (simp add: head72_def)

lemma header_head72: "template_header e nbytes = head72 e nbytes @ bytes32 0 @ bytes32 0"
  by (simp add: template_header_def head72_def)

lemma head72_reads:
  "take 8 (head72 e nbytes @ r) = gx5125_template_magic"
  "read_u32_le (drop 8 (head72 e nbytes @ r)) = GX5125_ENROLLMENT_TEMPLATE_FORMAT_VERSION"
  "read_u32_le (drop 12 (head72 e nbytes @ r)) = of_nat GX5125_TEMPLATE_HEADER_BYTES"
  "read_u32_le (drop 16 (head72 e nbytes @ r)) = of_nat nbytes"
  "read_u32_le (drop 20 (head72 e nbytes @ r)) = of_nat (length (en_samples e))"
  "read_u32_le (drop 24 (head72 e nbytes @ r)) = ec_target_samples (en_config e)"
  "read_u32_le (drop 28 (head72 e nbytes @ r)) = ec_minimum_quality (en_config e)"
  "read_u32_le (drop 32 (head72 e nbytes @ r)) = ec_minimum_coverage (en_config e)"
  "read_u32_le (drop 36 (head72 e nbytes @ r)) = ec_minimum_records (en_config e)"
  "read_u32_le (drop 40 (head72 e nbytes @ r)) = en_total_records e"
  "read_u32_le (drop 44 (head72 e nbytes @ r)) = en_minimum_records e"
  "read_u32_le (drop 48 (head72 e nbytes @ r)) = en_maximum_records e"
  "read_u32_le (drop 52 (head72 e nbytes @ r)) = en_minimum_quality e"
  "read_u32_le (drop 56 (head72 e nbytes @ r)) = en_minimum_coverage e"
  "read_u32_le (drop 60 (head72 e nbytes @ r)) = en_maximum_pair_similarity_q16 e"
  "read_u32_le (drop 64 (head72 e nbytes @ r)) = en_minimum_pair_novelty_q16 e"
  "read_u32_le (drop 68 (head72 e nbytes @ r)) = 0"
  by (simp_all add: head72_def)

text \<open>The checksum does not depend on its own field.\<close>

lemma crc_ignores_field:
  assumes "length p = 72" and "length x = 4" and "length y = 4"
  shows "template_crc32 (p @ x @ r) n = template_crc32 (p @ y @ r) n"
proof -
  have "template_crc_byte (p @ x @ r) c i = template_crc_byte (p @ y @ r) c i" for c i
    using assms by (auto simp: template_crc_byte_def template_consts nth_append)
  then have "template_crc_byte (p @ x @ r) = template_crc_byte (p @ y @ r)" by (intro ext)
  then show ?thesis by (simp only: template_crc32_def)
qed

section \<open>Templates that can be written\<close>

definition sample_shape :: "gx5125_enrollment_sample \<Rightarrow> bool" where
  "sample_shape s \<longleftrightarrow>
     es_record_count s \<noteq> 0 \<and> unat (es_record_count s) \<le> GX5125_EXTRACTOR_MAX_RECORDS
     \<and> length (es_records s) = unat (es_record_count s) * GX5125_EXTRACTOR_RECORD_BYTES
     \<and> es_packed_map s \<noteq> [] \<and> length (es_packed_map s) \<le> GX5125_EXTRACTOR_PIXELS"

definition metrics_in_range :: "gx5125_enrollment_sample \<Rightarrow> bool" where
  "metrics_in_range s \<longleftrightarrow>
     em_quality (es_metrics s) \<le> 100 \<and> em_coverage (es_metrics s) \<le> 100
     \<and> em_mask_coverage_q16 (es_metrics s) \<le> GX5125_Q16_ONE"

definition blocks_size :: "gx5125_enrollment_sample list \<Rightarrow> nat" where
  "blocks_size ss = length (concat (map sample_block ss))"

lemma blocks_size_simps [simp]:
  "blocks_size [] = 0"
  "blocks_size (s # ss) = 24 + length (es_records s) + length (es_packed_map s) + blocks_size ss"
  by (simp_all add: blocks_size_def sample_block_def)

lemma shape_sizes:
  "sample_shape s \<Longrightarrow> length (es_records s) \<le> 7200 \<and> length (es_packed_map s) \<le> 5120"
  by (simp add: sample_shape_def enrollment_consts)

lemma blocks_size_bound: "list_all sample_shape ss \<Longrightarrow> blocks_size ss \<le> 12344 * length ss"
  by (induction ss) (use shape_sizes in fastforce)+

lemma serialized_samples_eq:
  assumes "nbytes + 12344 * length ss \<le> 1000000"
  shows "serialized_samples ss nbytes = (if list_all sample_shape ss then Some (nbytes + blocks_size ss) else None)"
  using assms
proof (induction ss arbitrary: nbytes)
  case (Cons s ss)
  show ?case
  proof (cases "sample_shape s")
    case True
    let ?t = "nbytes + 24 + length (es_records s) + length (es_packed_map s)"
    note sz = shape_sizes [OF True]
    have "serialized_samples (s # ss) nbytes = serialized_samples ss ?t"
      using True sz Cons.prems by (auto simp: sample_shape_def add_size_checked_def template_consts)
    moreover have "?t + 12344 * length ss \<le> 1000000" using sz Cons.prems by simp
    ultimately show ?thesis using Cons.IH True by simp
  next
    case False
    then show ?thesis by (auto simp: sample_shape_def)
  qed
qed simp

text \<open>What makes an enrollment writable, and the bytes it is written to.\<close>

definition writable :: "gx5125_enrollment \<Rightarrow> bool" where
  "writable e \<longleftrightarrow>
     en_samples e \<noteq> [] \<and> length (en_samples e) = unat (ec_target_samples (en_config e))
     \<and> length (en_samples e) \<le> GX5125_ENROLLMENT_MAX_SAMPLES \<and> list_all sample_shape (en_samples e)"

definition template_size :: "gx5125_enrollment \<Rightarrow> nat" where
  "template_size e = 80 + blocks_size (en_samples e)"

definition template_bytes :: "gx5125_enrollment \<Rightarrow> u8 list" where
  "template_bytes e =
     (let body = template_header e (template_size e) @ concat (map sample_block (en_samples e))
      in mem_write body 72 (bytes32 (template_crc32 body (template_size e))))"

lemma serialized_size_eq:
  "gx5125_enrollment_serialized_size e = (if writable e then template_size e else 0)"
proof (cases "length (en_samples e) \<le> 12")
  case True
  then have b: "80 + 12344 * length (en_samples e) \<le> 1000000" by simp
  note eq = serialized_samples_eq [OF b]
  have "list_all sample_shape (en_samples e) \<Longrightarrow> 80 + blocks_size (en_samples e) \<le> 1000000"
    using blocks_size_bound [of "en_samples e"] b by simp
  then show ?thesis
    by (auto simp: gx5125_enrollment_serialized_size_def eq writable_def template_size_def template_consts)
next
  case False
  then show ?thesis
    by (simp add: gx5125_enrollment_serialized_size_def writable_def GX5125_ENROLLMENT_MAX_SAMPLES_def)
qed

lemma template_bytes_parts:
  "\<exists>c. template_bytes e = head72 e (template_size e) @ bytes32 c @ bytes32 0 @ concat (map sample_block (en_samples e))
     \<and> c = template_crc32 (template_bytes e) (template_size e)"
proof -
  let ?t = "concat (map sample_block (en_samples e))"
  let ?body = "template_header e (template_size e) @ ?t"
  define c where "c = template_crc32 ?body (template_size e)"
  have body: "?body = head72 e (template_size e) @ bytes32 0 @ bytes32 0 @ ?t" by (simp add: header_head72)
  have b: "template_bytes e = head72 e (template_size e) @ bytes32 c @ bytes32 0 @ ?t"
    unfolding template_bytes_def Let_def c_def body by (simp add: mem_write_def)
  have "c = template_crc32 (template_bytes e) (template_size e)"
    unfolding b unfolding c_def body by (intro crc_ignores_field) simp_all
  with b show ?thesis by blast
qed

lemma length_template_bytes [simp]: "length (template_bytes e) = template_size e"
proof -
  obtain c where "template_bytes e
      = head72 e (template_size e) @ bytes32 c @ bytes32 0 @ concat (map sample_block (en_samples e))"
    using template_bytes_parts by blast
  then have "length (template_bytes e) = 72 + 4 + 4 + length (concat (map sample_block (en_samples e)))"
    by (metis length_append length_bytes32 length_head72 add.assoc)
  then show ?thesis by (simp add: template_size_def blocks_size_def)
qed

lemma serialize_eq:
  "gx5125_enrollment_serialize e (Buf dest) =
     (if \<not> writable e then Inl GX5125_ENROLLMENT_ERR_STATE
      else if length dest < template_size e then Inl GX5125_ENROLLMENT_ERR_CAPACITY
      else Inr (template_bytes e @ drop (template_size e) dest, template_size e))"
proof -
  have "template_size e \<noteq> 0" by (simp add: template_size_def)
  moreover have "length (template_header e (template_size e) @ concat (map sample_block (en_samples e))) = template_size e"
    by (simp add: header_head72 template_size_def blocks_size_def)
  ultimately show ?thesis
    unfolding gx5125_enrollment_serialize_def Let_def serialized_size_eq
    by (simp add: template_bytes_def GX5125_TEMPLATE_CRC_OFFSET_def Let_def)
qed

section \<open>The loader on a written block\<close>

lemma block_reads:
  "read_u32_le (sample_block s @ r) = es_record_count s"
  "read_u32_le (drop 4 (sample_block s @ r)) = of_nat (length (es_records s))"
  "read_u32_le (drop 8 (sample_block s @ r)) = of_nat (length (es_packed_map s))"
  "read_u32_le (drop 12 (sample_block s @ r)) = em_quality (es_metrics s)"
  "read_u32_le (drop 16 (sample_block s @ r)) = em_coverage (es_metrics s)"
  "read_u32_le (drop 20 (sample_block s @ r)) = em_mask_coverage_q16 (es_metrics s)"
  "drop 24 (sample_block s @ r) = es_records s @ es_packed_map s @ r"
  "length (sample_block s) = 24 + length (es_records s) + length (es_packed_map s)"
  by (simp_all add: sample_block_def)

lemma record_bytes_word:
  assumes "unat (n :: u32) \<le> GX5125_EXTRACTOR_MAX_RECORDS"
  shows "of_nat (unat n * GX5125_EXTRACTOR_RECORD_BYTES) = n * of_nat GX5125_EXTRACTOR_RECORD_BYTES"
    and "unat (n * of_nat GX5125_EXTRACTOR_RECORD_BYTES) = unat n * GX5125_EXTRACTOR_RECORD_BYTES"
  using assms by (simp_all add: enrollment_consts unat_word_ariths)

lemma of_nat_small: "n < 4294967296 \<Longrightarrow> unat (of_nat n :: u32) = n"
  by (simp add: unat_of_nat)

lemma load_block:
  assumes "drop off bs = sample_block s @ rest" and "off \<le> length bs" and "sample_shape s"
  shows "load_samples env (Suc n) bs off e h =
     (if \<not> metrics_in_range s then (Inl GX5125_ENROLLMENT_ERR_FORMAT, e, h)
      else
        let h1 = h @ [Malloc (length (es_records s))]; h2 = h1 @ [Malloc (length (es_packed_map s))]
        in if isl (reply_rc (env h (Malloc (length (es_records s)))))
              \<or> isl (reply_rc (env h1 (Malloc (length (es_packed_map s)))))
           then (Inl GX5125_ENROLLMENT_ERR_MEMORY, e, h2)
           else load_samples env n bs (off + length (sample_block s)) (count_sample e s) h2)"
proof -
  note sz = shape_sizes [OF assms(3)]
  have at: "drop (off + k) bs = drop k (sample_block s @ rest)" for k
    using assms(1) by (metis add.commute drop_drop)
  have len: "length bs - off = length (sample_block s @ rest)" using assms(1) by (metis length_drop)
  have rb: "unat (of_nat (length (es_records s)) :: u32) = length (es_records s)"
    "unat (of_nat (length (es_packed_map s)) :: u32) = length (es_packed_map s)"
    using sz by (simp_all add: of_nat_small)
  have rec: "take (length (es_records s)) (drop (off + 24) bs) = es_records s"
    "take (length (es_packed_map s)) (drop (off + 24 + length (es_records s)) bs) = es_packed_map s"
    unfolding add.assoc at by (simp_all add: block_reads sample_block_def)
  have same: "\<lparr>es_record_count = es_record_count s, es_records = es_records s, es_packed_map = es_packed_map s,
      es_metrics = \<lparr>em_quality = em_quality (es_metrics s), em_coverage = em_coverage (es_metrics s),
                    em_mask_coverage_q16 = em_mask_coverage_q16 (es_metrics s)\<rparr>\<rparr> = s" by simp
  have bytes: "of_nat (length (es_records s)) = es_record_count s * of_nat GX5125_EXTRACTOR_RECORD_BYTES"
    using assms(3) record_bytes_word by (simp add: sample_shape_def)
  have word0: "(of_nat (length (es_packed_map s)) :: u32) \<noteq> 0"
    using rb(2) assms(3) by (auto simp: sample_shape_def simp flip: unat_eq_0)
  note reads = at [of 0, simplified] at [of 4] at [of 8] at [of 12] at [of 16] at [of 20]
  have room: "\<not> (off > length bs \<or> length bs - off < 24)" "\<not> off + 24 > length bs"
    "\<not> length (es_records s) > length bs - (off + 24)"
    "\<not> length (es_packed_map s) > length bs - (off + 24) - length (es_records s)"
    using assms(2) len by (simp_all add: block_reads)
  have nxt: "off + 24 + length (es_records s) + length (es_packed_map s) = off + length (sample_block s)"
    by (simp add: block_reads)
  have shape: "es_record_count s \<noteq> 0" "\<not> unat (es_record_count s) > GX5125_EXTRACTOR_MAX_RECORDS"
    "\<not> length (es_packed_map s) > GX5125_EXTRACTOR_PIXELS"
    using assms(3) by (simp_all add: sample_shape_def)
  show ?thesis
    unfolding load_samples.simps(2) GX5125_TEMPLATE_SAMPLE_HEADER_BYTES_def Let_def ext_do_def prod.case
      reads add_0_right block_reads rb rec same nxt
    using room shape bytes word0 by (simp add: metrics_in_range_def not_le)
qed

text \<open>A written list of blocks is read back, unless a metric is out of range or memory runs out.\<close>

lemma load_blocks:
  assumes "drop off bs = concat (map sample_block ss) @ rest" and "off \<le> length bs" and "list_all sample_shape ss"
    and "load_samples env (length ss) bs off e h = (rc, e', h')"
  shows "(if list_all metrics_in_range ss
          then rc = Inr (off + blocks_size ss) \<and> e' = foldl count_sample e ss \<or> rc = Inl GX5125_ENROLLMENT_ERR_MEMORY
          else isl rc)
     \<and> ((\<forall>h n. \<not> isl (reply_rc (env h (Malloc n)))) \<longrightarrow> rc \<noteq> Inl GX5125_ENROLLMENT_ERR_MEMORY)"
  using assms
proof (induction ss arbitrary: off e h)
  case (Cons s ss)
  let ?h1 = "h @ [Malloc (length (es_records s))]"
  let ?h2 = "?h1 @ [Malloc (length (es_packed_map s))]"
  have d: "drop off bs = sample_block s @ concat (map sample_block ss) @ rest" using Cons.prems(1) by simp
  have "sample_shape s" using Cons.prems(3) by simp
  note block = load_block [OF d Cons.prems(2) this, of env "length ss" e h]
  let ?off = "off + length (sample_block s)"
  have next1: "drop ?off bs = concat (map sample_block ss) @ rest"
    using d by (metis add.commute append_eq_conv_conj drop_drop)
  have next2: "?off \<le> length bs"
    using d Cons.prems(2) by (metis length_append length_drop le_add_diff_inverse nat_add_left_cancel_le le_add1)
  have size: "?off + blocks_size ss = off + blocks_size (s # ss)" by (simp add: block_reads)
  note IH = Cons.IH [OF next1 next2]
  show ?case
    using Cons.prems(3,4) block IH [of "count_sample e s" ?h2] size
    by (auto simp: Let_def split: if_splits)
qed auto

text \<open>Whatever the loop reads is the written form of the samples it makes of it.\<close>

lemma load_one_sound:
  assumes "off + 24 \<le> length bs"
    and "rb = unat (read_u32_le (drop (off + 4) bs))" and "pb = unat (read_u32_le (drop (off + 8) bs))"
    and "rb \<le> length bs - (off + 24)" and "pb \<le> length bs - (off + 24) - rb"
    and "s = \<lparr>es_record_count = read_u32_le (drop off bs), es_records = take rb (drop (off + 24) bs),
              es_packed_map = take pb (drop (off + 24 + rb) bs),
              es_metrics = \<lparr>em_quality = read_u32_le (drop (off + 12) bs),
                em_coverage = read_u32_le (drop (off + 16) bs),
                em_mask_coverage_q16 = read_u32_le (drop (off + 20) bs)\<rparr>\<rparr>"
  shows "drop off bs = sample_block s @ drop (off + 24 + rb + pb) bs"
    and "length (es_records s) = rb" and "length (es_packed_map s) = pb"
proof -
  show l: "length (es_records s) = rb" "length (es_packed_map s) = pb"
    using assms by simp_all
  have "drop (off + 24) bs = take rb (drop (off + 24) bs) @ drop (off + 24 + rb) bs"
    by (metis append_take_drop_id drop_drop add.commute)
  moreover have "drop (off + 24 + rb) bs = take pb (drop (off + 24 + rb) bs) @ drop (off + 24 + rb + pb) bs"
    by (metis append_take_drop_id drop_drop add.commute)
  ultimately have data: "drop (off + 24) bs = es_records s @ es_packed_map s @ drop (off + 24 + rb + pb) bs"
    using assms(6) by simp
  have "drop off bs = bytes32 (read_u32_le (drop off bs)) @ drop (off + 4) bs"
    "drop (off + 4) bs = bytes32 (read_u32_le (drop (off + 4) bs)) @ drop (off + 8) bs"
    "drop (off + 8) bs = bytes32 (read_u32_le (drop (off + 8) bs)) @ drop (off + 12) bs"
    "drop (off + 12) bs = bytes32 (read_u32_le (drop (off + 12) bs)) @ drop (off + 16) bs"
    "drop (off + 16) bs = bytes32 (read_u32_le (drop (off + 16) bs)) @ drop (off + 20) bs"
    "drop (off + 20) bs = bytes32 (read_u32_le (drop (off + 20) bs)) @ drop (off + 24) bs"
    using assms(1) split32_at [of off bs] split32_at [of "off + 4" bs] split32_at [of "off + 8" bs]
      split32_at [of "off + 12" bs] split32_at [of "off + 16" bs] split32_at [of "off + 20" bs]
    by (simp_all add: add.assoc)
  then have "drop off bs = bytes32 (read_u32_le (drop off bs)) @ bytes32 (read_u32_le (drop (off + 4) bs))
      @ bytes32 (read_u32_le (drop (off + 8) bs)) @ bytes32 (read_u32_le (drop (off + 12) bs))
      @ bytes32 (read_u32_le (drop (off + 16) bs)) @ bytes32 (read_u32_le (drop (off + 20) bs))
      @ drop (off + 24) bs"
    by metis
  moreover have "read_u32_le (drop (off + 4) bs) = of_nat (length (es_records s))"
    "read_u32_le (drop (off + 8) bs) = of_nat (length (es_packed_map s))"
    using l assms(2,3) by simp_all
  ultimately show "drop off bs = sample_block s @ drop (off + 24 + rb + pb) bs"
    unfolding data sample_block_def using assms(6) by simp
qed

lemma guards_passed:
  assumes "(if A then (Inl a, x) else if B then (Inl b, y) else if C then (Inl c, z) else t) = (Inr r, w)"
  shows "\<not> A" and "\<not> B" and "\<not> C" and "t = (Inr r, w)"
  using assms by (auto split: if_splits)

lemma load_samples_sound:
  assumes "load_samples env n bs off e h = (Inr off', e', h')" and "off \<le> length bs"
  shows "\<exists>ss. length ss = n \<and> list_all sample_shape ss \<and> list_all metrics_in_range ss
     \<and> e' = foldl count_sample e ss \<and> off' \<le> length bs
     \<and> drop off bs = concat (map sample_block ss) @ drop off' bs"
  using assms
proof (induction n arbitrary: off e h)
  case (Suc n)
  define rb where "rb = unat (read_u32_le (drop (off + 4) bs))"
  define pb where "pb = unat (read_u32_le (drop (off + 8) bs))"
  define s where "s = \<lparr>es_record_count = read_u32_le (drop off bs), es_records = take rb (drop (off + 24) bs),
      es_packed_map = take pb (drop (off + 24 + rb) bs),
      es_metrics = \<lparr>em_quality = read_u32_le (drop (off + 12) bs),
        em_coverage = read_u32_le (drop (off + 16) bs),
        em_mask_coverage_q16 = read_u32_le (drop (off + 20) bs)\<rparr>\<rparr>"
  let ?h2 = "(h @ [Malloc rb]) @ [Malloc pb]"
  note step = Suc.prems(1) [unfolded load_samples.simps(2) GX5125_TEMPLATE_SAMPLE_HEADER_BYTES_def Let_def
      ext_do_def prod.case add_0_right rb_def [symmetric] pb_def [symmetric] s_def [symmetric]]
  note g = guards_passed [OF step]
  have room: "off + 24 \<le> length bs" "rb \<le> length bs - (off + 24)" "pb \<le> length bs - (off + 24) - rb"
    and count: "read_u32_le (drop off bs) \<noteq> 0" "unat (read_u32_le (drop off bs)) \<le> GX5125_EXTRACTOR_MAX_RECORDS"
    and bytes: "read_u32_le (drop (off + 4) bs) = read_u32_le (drop off bs) * of_nat GX5125_EXTRACTOR_RECORD_BYTES"
    and map: "read_u32_le (drop (off + 8) bs) \<noteq> 0" "pb \<le> GX5125_EXTRACTOR_PIXELS"
    and range: "read_u32_le (drop (off + 12) bs) \<le> 100" "read_u32_le (drop (off + 16) bs) \<le> 100"
      "read_u32_le (drop (off + 20) bs) \<le> GX5125_Q16_ONE"
    using g(2) by (simp_all only: de_Morgan_disj not_less not_not not_False_eq_True)
  note rest = g(4)
  note one = load_one_sound [OF room(1) rb_def pb_def room(2,3) s_def]
  have rc_s: "es_record_count s = read_u32_le (drop off bs)" by (simp add: s_def)
  have "rb = unat (read_u32_le (drop off bs)) * GX5125_EXTRACTOR_RECORD_BYTES"
    using record_bytes_word(2) [OF count(2)] bytes by (simp add: rb_def)
  moreover have "pb \<noteq> 0" using map(1) by (simp add: pb_def unat_eq_0)
  ultimately have shape: "sample_shape s"
    using one(2,3) count map(2) rc_s unfolding sample_shape_def by (metis list.size(3))
  have metrics: "metrics_in_range s" using range by (simp add: metrics_in_range_def s_def)
  have "off + 24 + rb + pb \<le> length bs" using room by simp
  from Suc.IH [OF rest this] obtain ss where "length ss = n" "list_all sample_shape ss"
    "list_all metrics_in_range ss" "e' = foldl count_sample (count_sample e s) ss" "off' \<le> length bs"
    "drop (off + 24 + rb + pb) bs = concat (map sample_block ss) @ drop off' bs" by blast
  with one(1) shape metrics show ?case by (intro exI [of _ "s # ss"]) simp
qed simp

section \<open>Loading what was written\<close>

text \<open>The enrollments a template can hold: complete, valid, with consistent statistics.\<close>

definition template_ok :: "gx5125_enrollment \<Rightarrow> bool" where
  "template_ok e \<longleftrightarrow>
     writable e \<and> enrollment_config_valid (en_config e) \<and> statistics_ok e
     \<and> list_all metrics_in_range (en_samples e)
     \<and> en_maximum_pair_similarity_q16 e \<le> GX5125_Q16_ONE
     \<and> en_minimum_pair_novelty_q16 e \<le> GX5125_Q16_ONE"

lemma foldl_count:
  "statistics_ok e \<Longrightarrow> statistics_ok (foldl count_sample e ss)"
  "en_samples (foldl count_sample e ss) = en_samples e @ ss"
  "en_config (foldl count_sample e ss) = en_config e"
  by (induction ss arbitrary: e) (simp_all add: statistics_count)

text \<open>Two enrollments with the same samples and configuration have the same statistics.\<close>

lemma same_statistics:
  assumes "statistics_ok e" and "statistics_ok e'" and "en_samples e' = en_samples e" and "en_config e' = en_config e"
  shows "e'\<lparr>en_maximum_pair_similarity_q16 := en_maximum_pair_similarity_q16 e,
            en_minimum_pair_novelty_q16 := en_minimum_pair_novelty_q16 e\<rparr> = e"
  using assms by (cases e; cases e') (simp add: statistics_ok_def)

text \<open>The fields of a template, and the bytes after the header.\<close>

lemma template_fields:
  "template_prefix_ok (template_bytes e) \<longleftrightarrow> unat (of_nat (template_size e) :: u32) = template_size e
     \<and> template_size e \<le> GX5125_TEMPLATE_MAX_BYTES"
  "read_u32_le (drop GX5125_TEMPLATE_CRC_OFFSET (template_bytes e)) = template_crc32 (template_bytes e) (template_size e)"
  "read_u32_le (drop 20 (template_bytes e)) = of_nat (length (en_samples e))"
  "template_config (template_bytes e) = en_config e"
  "read_u32_le (drop 40 (template_bytes e)) = en_total_records e"
  "read_u32_le (drop 44 (template_bytes e)) = en_minimum_records e"
  "read_u32_le (drop 48 (template_bytes e)) = en_maximum_records e"
  "read_u32_le (drop 52 (template_bytes e)) = en_minimum_quality e"
  "read_u32_le (drop 56 (template_bytes e)) = en_minimum_coverage e"
  "read_u32_le (drop 60 (template_bytes e)) = en_maximum_pair_similarity_q16 e"
  "read_u32_le (drop 64 (template_bytes e)) = en_minimum_pair_novelty_q16 e"
  "drop 80 (template_bytes e) = concat (map sample_block (en_samples e))"
proof -
  let ?t = "concat (map sample_block (en_samples e))"
  obtain c where b: "template_bytes e = head72 e (template_size e) @ bytes32 c @ bytes32 0 @ ?t"
    and c: "c = template_crc32 (template_bytes e) (template_size e)"
    using template_bytes_parts by blast
  note r = head72_reads [of e "template_size e" "bytes32 c @ bytes32 0 @ ?t", folded b]
  have "80 \<le> template_size e" by (simp add: template_size_def)
  moreover have "drop 76 (template_bytes e) = bytes32 0 @ ?t" unfolding b by simp
  ultimately show "template_prefix_ok (template_bytes e) \<longleftrightarrow> unat (of_nat (template_size e) :: u32) = template_size e
     \<and> template_size e \<le> GX5125_TEMPLATE_MAX_BYTES"
    unfolding template_prefix_ok_def length_template_bytes
    by (auto simp: r GX5125_TEMPLATE_HEADER_BYTES_def not_less)
  have "drop 72 (template_bytes e) = bytes32 c @ bytes32 0 @ ?t" unfolding b by simp
  then show "read_u32_le (drop GX5125_TEMPLATE_CRC_OFFSET (template_bytes e)) = template_crc32 (template_bytes e) (template_size e)"
    by (simp add: GX5125_TEMPLATE_CRC_OFFSET_def c [symmetric])
  show "drop 80 (template_bytes e) = ?t" unfolding b by simp
  show "template_config (template_bytes e) = en_config e" by (simp add: template_config_def r)
  show "read_u32_le (drop 20 (template_bytes e)) = of_nat (length (en_samples e))"
    "read_u32_le (drop 40 (template_bytes e)) = en_total_records e"
    "read_u32_le (drop 44 (template_bytes e)) = en_minimum_records e"
    "read_u32_le (drop 48 (template_bytes e)) = en_maximum_records e"
    "read_u32_le (drop 52 (template_bytes e)) = en_minimum_quality e"
    "read_u32_le (drop 56 (template_bytes e)) = en_minimum_coverage e"
    "read_u32_le (drop 60 (template_bytes e)) = en_maximum_pair_similarity_q16 e"
    "read_u32_le (drop 64 (template_bytes e)) = en_minimum_pair_novelty_q16 e"
    by (simp_all only: r)
qed

lemma writable_size:
  assumes "writable e"
  shows "80 \<le> template_size e" and "template_size e \<le> 150000"
    and "unat (of_nat (template_size e) :: u32) = template_size e"
proof -
  have "12344 * length (en_samples e) \<le> 12344 * 12"
    using assms by (intro mult_le_mono2) (simp add: writable_def GX5125_ENROLLMENT_MAX_SAMPLES_def)
  then show "80 \<le> template_size e" "template_size e \<le> 150000"
    using assms blocks_size_bound [of "en_samples e"] by (simp_all add: template_size_def writable_def)
  then show "unat (of_nat (template_size e) :: u32) = template_size e" by (simp add: of_nat_small)
qed

lemma create_with:
  assumes "enrollment_config_valid c"
  shows "gx5125_enrollment_create env (Some c) h =
     (if isl (reply_rc (env h (Calloc 1))) then (None, h @ [Calloc 1]) else (Some (empty_enrollment c), h @ [Calloc 1]))"
  using assms by (simp add: gx5125_enrollment_create_def ext_do_def)

text \<open>The loader on the template of an enrollment, up to the result of its sample loop.\<close>

lemma deserialize_template:
  assumes w: "writable e" and v: "enrollment_config_valid (en_config e)"
    and q: "en_maximum_pair_similarity_q16 e \<le> GX5125_Q16_ONE" "en_minimum_pair_novelty_q16 e \<le> GX5125_Q16_ONE"
    and l: "load_samples env (length (en_samples e)) (template_bytes e) 80 (empty_enrollment (en_config e))
              (h @ [Calloc 1]) = (rc, e1, h2)"
  shows "gx5125_enrollment_deserialize env (Buf (template_bytes e)) h =
     (if isl (reply_rc (env h (Calloc 1))) then (Inl GX5125_ENROLLMENT_ERR_MEMORY, h @ [Calloc 1])
      else case rc of
             Inl status \<Rightarrow> (Inl status, gx5125_enrollment_destroy env e1 h2)
           | Inr offset \<Rightarrow>
               if offset \<noteq> template_size e
                  \<or> en_total_records e1 \<noteq> en_total_records e
                  \<or> en_minimum_records e1 \<noteq> en_minimum_records e
                  \<or> en_maximum_records e1 \<noteq> en_maximum_records e
                  \<or> en_minimum_quality e1 \<noteq> en_minimum_quality e
                  \<or> en_minimum_coverage e1 \<noteq> en_minimum_coverage e
               then (Inl GX5125_ENROLLMENT_ERR_FORMAT, gx5125_enrollment_destroy env e1 h2)
               else (Inr (e1\<lparr>en_maximum_pair_similarity_q16 := en_maximum_pair_similarity_q16 e,
                            en_minimum_pair_novelty_q16 := en_minimum_pair_novelty_q16 e\<rparr>), h2))"
proof -
  let ?n = "of_nat (length (en_samples e)) :: u32"
  have n: "unat ?n = length (en_samples e)" "?n \<noteq> 0" "?n = ec_target_samples (en_config e)"
    using w length_greater_0_conv [of "en_samples e"]
    by (auto simp: writable_def of_nat_small GX5125_ENROLLMENT_MAX_SAMPLES_def simp flip: unat_eq_0)
  have "template_prefix_ok (template_bytes e)"
    using writable_size [OF w] by (simp add: template_fields GX5125_TEMPLATE_MAX_BYTES_def)
  moreover have "length (en_samples e) \<le> GX5125_ENROLLMENT_MAX_SAMPLES" using w by (simp add: writable_def)
  ultimately show ?thesis
    unfolding gx5125_enrollment_deserialize_def Let_def cbuf_bytes.simps is_null.simps
      length_template_bytes template_fields create_with [OF v] n(1) GX5125_TEMPLATE_HEADER_BYTES_def
    using n v q l by (auto simp: not_less split: sum.split)
qed

lemma drop_template: "drop 80 (template_bytes e) = concat (map sample_block (en_samples e)) @ []"
  by (simp add: template_fields)

lemma template_loads:
  assumes ok: "template_ok e"
    and mem: "\<And>h n. \<not> isl (reply_rc (env h (Malloc n)))" "\<And>h n. \<not> isl (reply_rc (env h (Calloc n)))"
  shows "fst (gx5125_enrollment_deserialize env (Buf (template_bytes e)) h) = Inr e"
proof -
  let ?e0 = "empty_enrollment (en_config e)"
  obtain rc e1 h2 where l: "load_samples env (length (en_samples e)) (template_bytes e) 80 ?e0 (h @ [Calloc 1])
      = (rc, e1, h2)" by (rule prod_cases3)
  from ok have w: "writable e" and v: "enrollment_config_valid (en_config e)" and st: "statistics_ok e"
    and m: "list_all metrics_in_range (en_samples e)"
    and q: "en_maximum_pair_similarity_q16 e \<le> GX5125_Q16_ONE" "en_minimum_pair_novelty_q16 e \<le> GX5125_Q16_ONE"
    by (simp_all add: template_ok_def)
  have "80 \<le> length (template_bytes e)" by (simp add: template_size_def)
  moreover have "list_all sample_shape (en_samples e)" using w by (simp add: writable_def)
  ultimately have "rc = Inr (80 + blocks_size (en_samples e)) \<and> e1 = foldl count_sample ?e0 (en_samples e)"
    using load_blocks [OF drop_template _ _ l] m mem(1) by auto
  then have rc: "rc = Inr (template_size e)" and e1: "e1 = foldl count_sample ?e0 (en_samples e)"
    by (simp_all add: template_size_def)
  have st1: "statistics_ok e1" unfolding e1 by (rule foldl_count(1) [OF statistics_empty(1)])
  have same: "en_samples e1 = en_samples e" "en_config e1 = en_config e"
    unfolding e1 by (simp_all add: foldl_count empty_enrollment_def)
  have fields: "en_total_records e1 = en_total_records e" "en_minimum_records e1 = en_minimum_records e"
    "en_maximum_records e1 = en_maximum_records e" "en_minimum_quality e1 = en_minimum_quality e"
    "en_minimum_coverage e1 = en_minimum_coverage e"
    using st st1 same by (simp_all add: statistics_ok_def)
  have "\<not> isl (reply_rc (env h (Calloc 1)))" by (rule mem(2))
  then show ?thesis
    unfolding deserialize_template [OF w v q l] rc using fields same_statistics [OF st st1 same] by simp
qed

text \<open>
  C18: templates survive storage. Every complete, well-formed enrollment is written to a buffer that
  is large enough, with a length of at most 150,000 bytes, and loading those bytes gives back exactly
  that enrollment, samples, configuration and statistics, as long as memory can be allocated.
\<close>

theorem template_round_trip:
  assumes "template_ok e" and "template_size e \<le> length dest"
    and "\<And>h n. \<not> isl (reply_rc (env h (Malloc n)))" and "\<And>h n. \<not> isl (reply_rc (env h (Calloc n)))"
  shows "\<exists>bytes. gx5125_enrollment_serialize e (Buf dest)
            = Inr (bytes @ drop (length bytes) dest, length bytes)
     \<and> length bytes \<le> 150000
     \<and> fst (gx5125_enrollment_deserialize env (Buf bytes) h) = Inr e"
proof -
  have "writable e" using assms(1) by (simp add: template_ok_def)
  with assms(2) writable_size(2) template_loads [OF assms(1,3,4)] show ?thesis
    by (intro exI [of _ "template_bytes e"]) (simp add: serialize_eq not_less)
qed

text \<open>The words of a byte string from an offset on.\<close>

lemma drop_words:
  "off + 4 * n \<le> length bs \<Longrightarrow>
     drop off bs = concat (map (\<lambda>i. bytes32 (read_u32_le (drop (off + 4 * i) bs))) [0..<n]) @ drop (off + 4 * n) bs"
proof (induction n)
  case (Suc n)
  have "drop (off + 4 * n) bs = bytes32 (read_u32_le (drop (off + 4 * n) bs)) @ drop (off + 4 * Suc n) bs"
    using Suc.prems split32_at [of "off + 4 * n" bs] by (simp add: ac_simps)
  with Suc show ?case by (simp add: ac_simps)
qed simp

lemma sixteen: "[0..<16] = [0, 1, 2, 3, 4, 5, 6, 7, 8, 9, 10, 11, 12, 13, 14, 15 :: nat]"
  by (simp add: upt_rec)

text \<open>A byte string whose header words are those of an enrollment begins with its header.\<close>

lemma prefix_head72:
  assumes "72 \<le> length bs" and "take 8 bs = gx5125_template_magic"
    and "read_u32_le (drop 8 bs) = GX5125_ENROLLMENT_TEMPLATE_FORMAT_VERSION"
    and "read_u32_le (drop 12 bs) = of_nat GX5125_TEMPLATE_HEADER_BYTES"
    and "read_u32_le (drop 16 bs) = of_nat n"
    and "read_u32_le (drop 20 bs) = of_nat (length (en_samples e))"
    and "template_config bs = en_config e"
    and "read_u32_le (drop 40 bs) = en_total_records e" and "read_u32_le (drop 44 bs) = en_minimum_records e"
    and "read_u32_le (drop 48 bs) = en_maximum_records e" and "read_u32_le (drop 52 bs) = en_minimum_quality e"
    and "read_u32_le (drop 56 bs) = en_minimum_coverage e"
    and "read_u32_le (drop 60 bs) = en_maximum_pair_similarity_q16 e"
    and "read_u32_le (drop 64 bs) = en_minimum_pair_novelty_q16 e" and "read_u32_le (drop 68 bs) = 0"
  shows "bs = head72 e n @ drop 72 bs"
proof -
  have c: "read_u32_le (drop 24 bs) = ec_target_samples (en_config e)"
    "read_u32_le (drop 28 bs) = ec_minimum_quality (en_config e)"
    "read_u32_le (drop 32 bs) = ec_minimum_coverage (en_config e)"
    "read_u32_le (drop 36 bs) = ec_minimum_records (en_config e)"
    unfolding assms(7) [symmetric] by (simp_all add: template_config_def)
  have "bs = take 8 bs @ drop 8 bs" by simp
  also have "drop 8 bs = concat (map (\<lambda>i. bytes32 (read_u32_le (drop (8 + 4 * i) bs))) [0..<16]) @ drop 72 bs"
    using drop_words [of 8 16 bs] assms(1) by simp
  also have "take 8 bs @ concat (map (\<lambda>i. bytes32 (read_u32_le (drop (8 + 4 * i) bs))) [0..<16]) @ drop 72 bs
      = head72 e n @ drop 72 bs"
    unfolding sixteen head72_def by (simp add: assms c)
  finally show ?thesis .
qed

text \<open>
  The loader accepts canonical files only. If it accepts a file, the enrollment it returns is
  complete and well-formed, with exact statistics and all metrics in range, and writing that
  enrollment gives the accepted bytes again: no other file holds the same template.
\<close>

theorem template_canonical:
  assumes "gx5125_enrollment_deserialize env (Buf bs) h = (Inr e, h')" and "length bs \<le> length dest"
  shows "template_ok e
    \<and> gx5125_enrollment_serialize e (Buf dest) = Inr (bs @ drop (length bs) dest, length bs)"
proof -
  let ?n = "read_u32_le (drop 20 bs)" and ?c = "template_config bs"
  obtain e0 h1 where cr: "gx5125_enrollment_create env (Some ?c) h = (e0, h1)" by (rule prod.exhaust)
  have pre: "template_prefix_ok bs" and crc: "read_u32_le (drop 72 bs) = template_crc32 bs (length bs)"
    and n: "?n \<noteq> 0" "unat ?n \<le> GX5125_ENROLLMENT_MAX_SAMPLES" "?n = ec_target_samples ?c"
    and v: "enrollment_config_valid ?c"
    and q: "read_u32_le (drop 60 bs) \<le> GX5125_Q16_ONE" "read_u32_le (drop 64 bs) \<le> GX5125_Q16_ONE"
    using assms(1) by (auto simp: gx5125_enrollment_deserialize_def Let_def GX5125_TEMPLATE_CRC_OFFSET_def
        split: if_splits)
  have e0: "e0 = Some (empty_enrollment ?c)"
    using assms(1) cr pre crc n v q create_with [OF v]
    by (auto simp: gx5125_enrollment_deserialize_def Let_def split: if_splits)
  obtain rc e1 h2 where l: "load_samples env (unat ?n) bs 80 (empty_enrollment ?c) h1 = (rc, e1, h2)"
    by (rule prod_cases3)
  have rest: "rc = Inr (length bs)"
    and st: "en_total_records e1 = read_u32_le (drop 40 bs)" "en_minimum_records e1 = read_u32_le (drop 44 bs)"
      "en_maximum_records e1 = read_u32_le (drop 48 bs)" "en_minimum_quality e1 = read_u32_le (drop 52 bs)"
      "en_minimum_coverage e1 = read_u32_le (drop 56 bs)"
    and e: "e = e1\<lparr>en_maximum_pair_similarity_q16 := read_u32_le (drop 60 bs),
                   en_minimum_pair_novelty_q16 := read_u32_le (drop 64 bs)\<rparr>"
    using assms(1) cr pre crc n v q l unfolding e0
    by (auto simp: gx5125_enrollment_deserialize_def Let_def template_consts not_less
        split: if_splits sum.splits)
  have len: "80 \<le> length bs" "unat (read_u32_le (drop 16 bs)) = length bs"
    using pre by (auto simp: template_prefix_ok_def template_consts)
  from load_samples_sound [OF l [unfolded rest] len(1)] obtain ss where ss: "length ss = unat ?n"
    "list_all sample_shape ss" "list_all metrics_in_range ss" "e1 = foldl count_sample (empty_enrollment ?c) ss"
    and tail: "drop 80 bs = concat (map sample_block ss)" by auto
  have parts: "en_samples e = ss" "en_config e = ?c" "statistics_ok e"
    using foldl_count [of "empty_enrollment ?c" ss] statistics_empty(1) [of ?c]
    unfolding e ss(4) by (simp_all add: statistics_ok_def) (simp_all add: empty_enrollment_def)
  have ne: "ss \<noteq> []" using ss(1) n(1) by (auto simp: unat_eq_0)
  have w: "writable e" using ss n(2,3) ne parts by (simp add: writable_def)
  have size: "template_size e = length bs"
    using tail len(1) by (simp add: template_size_def parts blocks_size_def flip: tail)
  have ok: "template_ok e"
    using w v parts(2,3) ss(3) q unfolding template_ok_def parts(1) by (simp add: e)
  let ?crc = "read_u32_le (drop 72 bs)" and ?r = "bytes32 0 @ concat (map sample_block ss)"
  have "bs = head72 e (length bs) @ drop 72 bs"
  proof (rule prefix_head72)
    show "read_u32_le (drop 16 bs) = of_nat (length bs)" using len(2) by (metis of_nat_unat ucast_id)
    show "read_u32_le (drop 20 bs) = of_nat (length (en_samples e))"
      using ss(1) parts(1) by simp
  qed (use len pre st parts in \<open>simp_all add: template_prefix_ok_def e template_consts\<close>)
  moreover have "drop 72 bs = bytes32 ?crc @ ?r"
    using split32_at [of 72 bs] split32_at [of 76 bs] len(1) pre tail by (simp add: template_prefix_ok_def)
  ultimately have b: "bs = head72 e (length bs) @ bytes32 ?crc @ ?r" by simp
  obtain c where t: "template_bytes e = head72 e (length bs) @ bytes32 c @ ?r"
    and c: "c = template_crc32 (template_bytes e) (length bs)"
    using template_bytes_parts [of e] unfolding size parts(1) by blast
  have "template_crc32 (head72 e (length bs) @ bytes32 c @ ?r) (length bs)
      = template_crc32 (head72 e (length bs) @ bytes32 ?crc @ ?r) (length bs)"
    by (rule crc_ignores_field) simp_all
  then have "template_crc32 (template_bytes e) (length bs) = template_crc32 bs (length bs)"
    unfolding t [symmetric] b [symmetric] .
  then have "c = ?crc" using c crc by (simp only:)
  then have "template_bytes e = head72 e (length bs) @ bytes32 ?crc @ ?r" using t by (simp only:)
  also have "\<dots> = bs" by (rule b [symmetric])
  finally have "template_bytes e = bs" .
  with ok w size assms(2) show ?thesis by (simp add: serialize_eq)
qed

text \<open>
  C19: the writer does not check what the loader checks. A complete enrollment with a sample whose
  quality or coverage is above 100, or whose mask coverage is above one, is written without an
  error, but the file is refused on every load. Nothing in \<open>gx5125_enrollment_submit\<close> keeps such
  metrics out.
\<close>

theorem unreadable_template:
  assumes "writable e" and "enrollment_config_valid (en_config e)"
    and "en_maximum_pair_similarity_q16 e \<le> GX5125_Q16_ONE" "en_minimum_pair_novelty_q16 e \<le> GX5125_Q16_ONE"
    and "\<not> list_all metrics_in_range (en_samples e)" and "template_size e \<le> length dest"
  shows "\<exists>bytes. gx5125_enrollment_serialize e (Buf dest) = Inr (bytes @ drop (length bytes) dest, length bytes)
     \<and> isl (fst (gx5125_enrollment_deserialize env (Buf bytes) h))"
proof -
  obtain rc e1 h2 where l: "load_samples env (length (en_samples e)) (template_bytes e) 80
      (empty_enrollment (en_config e)) (h @ [Calloc 1]) = (rc, e1, h2)" by (rule prod_cases3)
  have "80 \<le> length (template_bytes e)" by (simp add: template_size_def)
  moreover have "list_all sample_shape (en_samples e)" using assms(1) by (simp add: writable_def)
  ultimately have "isl rc" using load_blocks [OF drop_template _ _ l] assms(5) by simp
  then have "isl (fst (gx5125_enrollment_deserialize env (Buf (template_bytes e)) h))"
    unfolding deserialize_template [OF assms(1-4) l] by (auto split: sum.split)
  with assms(1,6) show ?thesis
    by (intro exI [of _ "template_bytes e"]) (simp add: serialize_eq not_less)
qed

section \<open>Heap blocks\<close>

text \<open>The loop allocates two blocks for each sample it adds, and may leave one behind when it runs out of memory.\<close>

lemma two_mallocs:
  "live_blocks env ((h @ [Malloc a]) @ [Malloc b]) = live_blocks env h
     + of_bool (\<not> isl (reply_rc (env h (Malloc a)))) + of_bool (\<not> isl (reply_rc (env (h @ [Malloc a]) (Malloc b))))"
  by (simp only: live_blocks_snoc block_effect.simps of_bool_def split: if_split) simp

lemma of_bool_either: "A \<or> B \<Longrightarrow> of_bool (\<not> A) + of_bool (\<not> B) = (of_bool (\<not> (A \<and> B)) :: int)"
  by auto

lemma guard_cases:
  assumes "(if A then (x, e, h) else if B then (y, e, h) else if C then (z, e, h2) else t) = (rc, e', h')"
  shows "e' = e \<and> h' = h \<or> C \<and> rc = z \<and> e' = e \<and> h' = h2 \<or> \<not> C \<and> t = (rc, e', h')"
  using assms by (auto split: if_splits)

lemma load_heap:
  assumes "load_samples env n bs off e h = (rc, e', h')"
  shows "\<exists>k. live_blocks env h' = live_blocks env h + 2 * int (length (en_samples e') - length (en_samples e)) + of_bool k
     \<and> length (en_samples e) \<le> length (en_samples e') \<and> (k \<longrightarrow> rc = Inl GX5125_ENROLLMENT_ERR_MEMORY)"
  using assms
proof (induction n arbitrary: off e h)
  case (Suc n)
  define rb where "rb = unat (read_u32_le (drop (off + 4) bs))"
  define pb where "pb = unat (read_u32_le (drop (off + 8) bs))"
  define s where "s = \<lparr>es_record_count = read_u32_le (drop off bs),
      es_records = take rb (drop (off + 24) bs), es_packed_map = take pb (drop (off + 24 + rb) bs),
      es_metrics = \<lparr>em_quality = read_u32_le (drop (off + 12) bs), em_coverage = read_u32_le (drop (off + 16) bs),
        em_mask_coverage_q16 = read_u32_le (drop (off + 20) bs)\<rparr>\<rparr>"
  let ?h1 = "h @ [Malloc rb]" and ?h2 = "(h @ [Malloc rb]) @ [Malloc pb]"
  note step = Suc.prems(1) [unfolded load_samples.simps(2) GX5125_TEMPLATE_SAMPLE_HEADER_BYTES_def Let_def
      ext_do_def prod.case add_0_right rb_def [symmetric] pb_def [symmetric] s_def [symmetric]]
  consider (format) "e' = e" "h' = h" | (memory) "rc = Inl GX5125_ENROLLMENT_ERR_MEMORY" "e' = e" "h' = ?h2"
      "isl (reply_rc (env h (Malloc rb))) \<or> isl (reply_rc (env ?h1 (Malloc pb)))"
    | (more) "load_samples env n bs (off + 24 + rb + pb) (count_sample e s) ?h2 = (rc, e', h')"
      "\<not> isl (reply_rc (env h (Malloc rb)))" "\<not> isl (reply_rc (env ?h1 (Malloc pb)))"
    using guard_cases [OF step] by blast
  then show ?case
  proof cases
    case format
    then show ?thesis by (intro exI [of _ False]) simp
  next
    case memory
    let ?k = "\<not> (isl (reply_rc (env h (Malloc rb))) \<and> isl (reply_rc (env ?h1 (Malloc pb))))"
    have "live_blocks env ?h2 = live_blocks env h + of_bool ?k"
      unfolding two_mallocs by (simp only: add.assoc of_bool_either [OF memory(4)])
    with memory(1-3) show ?thesis by (intro exI [of _ ?k]) (simp only: diff_self_eq_0 of_nat_0 mult_zero_right add_0_right order_refl simp_thms)
  next
    case more
    have "live_blocks env ?h2 = live_blocks env h + 2" unfolding two_mallocs using more(2,3) by simp
    moreover from Suc.IH [OF more(1)] obtain k where
      "live_blocks env h' = live_blocks env ?h2 + 2 * int (length (en_samples e') - Suc (length (en_samples e))) + of_bool k"
      "Suc (length (en_samples e)) \<le> length (en_samples e')" "k \<longrightarrow> rc = Inl GX5125_ENROLLMENT_ERR_MEMORY"
      unfolding count_sample_simps length_append_singleton by blast
    ultimately have "live_blocks env h' = live_blocks env h + 2 * int (length (en_samples e') - length (en_samples e)) + of_bool k
        \<and> length (en_samples e) \<le> length (en_samples e') \<and> (k \<longrightarrow> rc = Inl GX5125_ENROLLMENT_ERR_MEMORY)"
      by linarith
    then show ?thesis ..
  qed
qed (intro exI [of _ False], simp)

lemma clear_all_heap:
  "live_blocks env (foldl (\<lambda>h s. sample_clear env True True h) h ss) = live_blocks env h - 2 * int (length ss)"
  by (induction ss arbitrary: h) (simp_all add: sample_clear_def free_if_def del: append_assoc)

lemma destroy_heap:
  "live_blocks env (gx5125_enrollment_destroy env e h) = live_blocks env h - 2 * int (length (en_samples e)) - 1"
  by (simp add: gx5125_enrollment_destroy_def gx5125_enrollment_reset_def clear_all_heap)

lemma create_heap:
  "gx5125_enrollment_create env c h = (None, h') \<Longrightarrow> live_blocks env h' = live_blocks env h"
  "gx5125_enrollment_create env c h = (Some e, h') \<Longrightarrow> live_blocks env h' = live_blocks env h + 1 \<and> en_samples e = []"
  by (auto simp: gx5125_enrollment_create_def ext_do_def Let_def empty_enrollment_def split: if_splits)

text \<open>
  Heap blocks of the loader. A successful load leaves exactly the enrollment's block and two
  blocks for each sample. A load that fails leaves nothing behind, except when it ran out of memory:
  then one block may stay allocated, that of a sample one of whose two allocations succeeded.
\<close>

theorem deserialize_heap:
  "case gx5125_enrollment_deserialize env buffer h of
     (Inr e, h') \<Rightarrow> live_blocks env h' = live_blocks env h + 1 + 2 * int (length (en_samples e))
   | (Inl status, h') \<Rightarrow> live_blocks env h' = live_blocks env h
       \<or> status = GX5125_ENROLLMENT_ERR_MEMORY \<and> live_blocks env h' = live_blocks env h + 1"
proof -
  let ?bs = "cbuf_bytes buffer"
  obtain c h1 where cr: "gx5125_enrollment_create env (Some (template_config ?bs)) h = (c, h1)"
    by (rule prod.exhaust)
  show ?thesis
  proof (cases c)
    case None
    with create_heap(1) [of env _ h h1] cr show ?thesis
      by (auto simp: gx5125_enrollment_deserialize_def Let_def)
  next
    case (Some e0)
    obtain rc e h2 where l: "load_samples env (unat (read_u32_le (drop 20 ?bs))) ?bs
        GX5125_TEMPLATE_HEADER_BYTES e0 h1 = (rc, e, h2)" by (rule prod_cases3)
    from create_heap(2) cr Some have e0: "live_blocks env h1 = live_blocks env h + 1" "en_samples e0 = []" by blast+
    from load_heap [OF l] e0 obtain k where
      "live_blocks env h2 = live_blocks env h + 1 + 2 * int (length (en_samples e)) + of_bool k"
      "k \<longrightarrow> rc = Inl GX5125_ENROLLMENT_ERR_MEMORY" by auto
    with cr Some l show ?thesis
      by (cases k) (auto simp: gx5125_enrollment_deserialize_def Let_def destroy_heap split: sum.splits if_splits)
  qed
qed

section \<open>The block that is lost\<close>

text \<open>The allocations of loaded samples, and that the environment serves a sequence of calls.\<close>

definition alloc_calls :: "gx5125_enrollment_sample list \<Rightarrow> ext_call list" where
  "alloc_calls ss = concat (map (\<lambda>s. [Malloc (length (es_records s)), Malloc (length (es_packed_map s))]) ss)"

fun served :: "environment \<Rightarrow> history \<Rightarrow> ext_call list \<Rightarrow> bool" where
  "served env h [] = True"
| "served env h (c # cs) = (\<not> isl (reply_rc (env h c)) \<and> served env (h @ [c]) cs)"

lemma alloc_calls_simps [simp]:
  "alloc_calls [] = []"
  "alloc_calls (s # ss) = Malloc (length (es_records s)) # Malloc (length (es_packed_map s)) # alloc_calls ss"
  by (simp_all add: alloc_calls_def)

lemma served_append: "served env h (cs @ ds) \<longleftrightarrow> served env h cs \<and> served env (h @ cs) ds"
  by (induction cs arbitrary: h) auto

lemma served_heap: "served env h (alloc_calls ss) \<Longrightarrow> live_blocks env (h @ alloc_calls ss) = live_blocks env h + 2 * int (length ss)"
proof (induction ss arbitrary: h)
  case (Cons s ss)
  then show ?case
    using Cons.IH [of "h @ [Malloc (length (es_records s))] @ [Malloc (length (es_packed_map s))]"]
      live_blocks_snoc [of env "h @ [Malloc (length (es_records s))]" "Malloc (length (es_packed_map s))"]
      live_blocks_snoc [of env h "Malloc (length (es_records s))"]
    by simp
qed simp

lemma load_starved:
  assumes "drop off bs = concat (map sample_block ss) @ sample_block s @ rest" and "off \<le> length bs"
    and "list_all sample_shape (ss @ [s])" "list_all metrics_in_range (ss @ [s])"
    and "served env h (alloc_calls ss @ [Malloc (length (es_records s))])"
    and "isl (reply_rc (env (h @ alloc_calls ss @ [Malloc (length (es_records s))]) (Malloc (length (es_packed_map s)))))"
  shows "load_samples env (Suc (length ss + n)) bs off e h = (Inl GX5125_ENROLLMENT_ERR_MEMORY, foldl count_sample e ss,
    h @ alloc_calls ss @ [Malloc (length (es_records s)), Malloc (length (es_packed_map s))])"
  using assms
proof (induction ss arbitrary: off e h)
  case Nil
  then have "drop off bs = sample_block s @ rest" "sample_shape s" by simp_all
  from load_block [OF this(1) Nil.prems(2) this(2)] show ?case using Nil.prems by simp
next
  case (Cons a ss)
  let ?off = "off + length (sample_block a)"
  have d: "drop off bs = sample_block a @ concat (map sample_block ss) @ sample_block s @ rest" using Cons.prems(1) by simp
  have "sample_shape a" using Cons.prems(3) by simp
  note block = load_block [OF d Cons.prems(2) this, of env "Suc (length ss + n)" e h]
  have next1: "drop ?off bs = concat (map sample_block ss) @ sample_block s @ rest"
    using d by (metis add.commute append_eq_conv_conj drop_drop)
  have next2: "?off \<le> length bs"
    using d Cons.prems(2) by (metis length_append length_drop le_add_diff_inverse nat_add_left_cancel_le le_add1)
  show ?case
    using Cons.prems(3-6) block
      Cons.IH [OF next1 next2, of "h @ [Malloc (length (es_records a)), Malloc (length (es_packed_map a))]" "count_sample e a"]
    by simp
qed

text \<open>
  C20: one block can be lost. Whenever the allocator, while a template this library writes is loaded, serves every allocation up to
  the first array of some sample and refuses the second one of that sample, the load ends with a memory error
  and the first array stays allocated: the cleanup only frees the arrays of samples that were counted.
\<close>

theorem deserialize_leaks:
  assumes "template_ok e" and "en_samples e = before @ s # behind"
    and "served env h (Calloc 1 # alloc_calls before @ [Malloc (length (es_records s))])"
    and "isl (reply_rc (env (h @ Calloc 1 # alloc_calls before @ [Malloc (length (es_records s))]) (Malloc (length (es_packed_map s)))))"
  shows "\<exists>h'. gx5125_enrollment_deserialize env (Buf (template_bytes e)) h = (Inl GX5125_ENROLLMENT_ERR_MEMORY, h')
    \<and> live_blocks env h' = live_blocks env h + 1"
proof -
  let ?e0 = "empty_enrollment (en_config e)" and ?r = "Malloc (length (es_records s))" and ?p = "Malloc (length (es_packed_map s))"
  let ?h = "(h @ [Calloc 1]) @ alloc_calls before @ [?r, ?p]"
  from assms(1) have w: "writable e" and v: "enrollment_config_valid (en_config e)"
    and m: "list_all metrics_in_range (en_samples e)"
    and q: "en_maximum_pair_similarity_q16 e \<le> GX5125_Q16_ONE" "en_minimum_pair_novelty_q16 e \<le> GX5125_Q16_ONE"
    by (simp_all add: template_ok_def)
  have "list_all sample_shape (en_samples e)" using w by (simp add: writable_def)
  then have shape: "list_all sample_shape (before @ [s])" "list_all metrics_in_range (before @ [s])" using m assms(2) by simp_all
  have d: "drop 80 (template_bytes e) = concat (map sample_block before) @ sample_block s @ concat (map sample_block behind)"
    using drop_template [of e] by (simp add: assms(2))
  have l80: "80 \<le> length (template_bytes e)" by (simp add: template_size_def)
  have serves: "served env (h @ [Calloc 1]) (alloc_calls before @ [?r])" and c1: "\<not> isl (reply_rc (env h (Calloc 1)))"
    using assms(3) by simp_all
  have refuses: "isl (reply_rc (env ((h @ [Calloc 1]) @ alloc_calls before @ [?r]) ?p))" using assms(4) by simp
  have "load_samples env (length (en_samples e)) (template_bytes e) 80 ?e0 (h @ [Calloc 1])
      = (Inl GX5125_ENROLLMENT_ERR_MEMORY, foldl count_sample ?e0 before, ?h)"
    using load_starved [OF d l80 shape serves refuses, of "length behind" ?e0] by (simp add: assms(2))
  then have run: "gx5125_enrollment_deserialize env (Buf (template_bytes e)) h
      = (Inl GX5125_ENROLLMENT_ERR_MEMORY, gx5125_enrollment_destroy env (foldl count_sample ?e0 before) ?h)"
    unfolding deserialize_template [OF w v q, OF \<open>load_samples env _ _ _ _ _ = _\<close>] using c1 by simp
  have "live_blocks env (((h @ [Calloc 1]) @ alloc_calls before) @ [?r]) = live_blocks env h + 2 + 2 * int (length before)"
    using serves c1 served_heap [of env "h @ [Calloc 1]" before] by (simp add: served_append del: append_assoc)
  moreover have "live_blocks env ((((h @ [Calloc 1]) @ alloc_calls before) @ [?r]) @ [?p])
      = live_blocks env (((h @ [Calloc 1]) @ alloc_calls before) @ [?r])"
    unfolding live_blocks_snoc using refuses by simp
  ultimately have "live_blocks env ?h = live_blocks env h + 2 + 2 * int (length before)" by simp
  then have "live_blocks env (gx5125_enrollment_destroy env (foldl count_sample ?e0 before) ?h) = live_blocks env h + 1"
    by (simp add: destroy_heap foldl_count empty_enrollment_def)
  with run show ?thesis by blast
qed

section \<open>Concrete templates\<close>

definition small_config :: gx5125_enrollment_config where
  "small_config = gx5125_enrollment_default_config\<lparr>ec_target_samples := 1\<rparr>"

definition small_enrollment :: "u32 \<Rightarrow> gx5125_enrollment" where
  "small_enrollment quality = count_sample (empty_enrollment small_config)
     ((sample_of 50 3 0x0f)\<lparr>es_metrics := \<lparr>em_quality = quality, em_coverage = 90, em_mask_coverage_q16 = 60000\<rparr>\<rparr>)"

lemma small_writable:
  "writable (small_enrollment q)" "enrollment_config_valid (en_config (small_enrollment q))"
  "statistics_ok (small_enrollment q)" "template_size (small_enrollment q) = 3112"
  "en_maximum_pair_similarity_q16 (small_enrollment q) \<le> GX5125_Q16_ONE"
  "en_minimum_pair_novelty_q16 (small_enrollment q) \<le> GX5125_Q16_ONE"
  "list_all metrics_in_range (en_samples (small_enrollment q)) \<longleftrightarrow> q \<le> 100"
  by (simp_all add: small_enrollment_def writable_def sample_of_def sample_shape_def enrollment_config_valid_def
      small_config_def gx5125_enrollment_default_config_def enrollment_consts template_size_def
      metrics_in_range_def statistics_count statistics_empty) (simp_all add: empty_enrollment_def enrollment_consts)

lemma quiet_alloc: "\<not> isl (reply_rc (quiet_env h c))"
  by (simp add: quiet_env_def)

theorem template_round_trip_witness:
  "\<exists>bytes. gx5125_enrollment_serialize (small_enrollment 80) (Buf (replicate 4000 0))
      = Inr (bytes @ drop (length bytes) (replicate 4000 0), length bytes)
    \<and> fst (gx5125_enrollment_deserialize quiet_env (Buf bytes) []) = Inr (small_enrollment 80)"
proof -
  have "template_ok (small_enrollment 80)" by (simp add: template_ok_def small_writable)
  moreover have "template_size (small_enrollment 80) \<le> length (replicate 4000 (0 :: u8))" by (simp add: small_writable)
  ultimately show ?thesis
    using template_round_trip [of "small_enrollment 80" "replicate 4000 0" quiet_env "[]"] quiet_alloc by blast
qed

theorem template_canonical_witness:
  "\<exists>e h'. gx5125_enrollment_deserialize quiet_env (Buf (template_bytes (small_enrollment 80))) [] = (Inr e, h')
    \<and> template_ok e"
proof -
  have "template_ok (small_enrollment 80)" by (simp add: template_ok_def small_writable)
  with quiet_alloc have "fst (gx5125_enrollment_deserialize quiet_env (Buf (template_bytes (small_enrollment 80))) [])
      = Inr (small_enrollment 80)" by (intro template_loads) simp_all
  then obtain h' where d: "gx5125_enrollment_deserialize quiet_env (Buf (template_bytes (small_enrollment 80))) []
      = (Inr (small_enrollment 80), h')" by (metis prod.collapse)
  from template_canonical [OF this order_refl] d show ?thesis by blast
qed

theorem unreadable_template_witness:
  "\<exists>bytes. gx5125_enrollment_serialize (small_enrollment 101) (Buf (replicate 4000 0))
      = Inr (bytes @ drop (length bytes) (replicate 4000 0), length bytes)
    \<and> isl (fst (gx5125_enrollment_deserialize quiet_env (Buf bytes) []))"
  by (rule unreadable_template) (simp_all add: small_writable)

text \<open>An allocator that fails right after another allocation: the loader leaves one block behind.\<close>

fun is_malloc :: "ext_call \<Rightarrow> bool" where
  "is_malloc (Malloc n) = True"
| "is_malloc _ = False"

definition starved_env :: environment where
  "starved_env h c =
     (if is_malloc c \<and> h \<noteq> [] \<and> is_malloc (last h) then (quiet_env h c)\<lparr>reply_rc := Inl LIBUSB_ERROR_NO_MEM\<rparr>
      else quiet_env h c)"

theorem deserialize_leaks_witness:
  "\<exists>h'. gx5125_enrollment_deserialize starved_env (Buf (template_bytes (small_enrollment 80))) []
      = (Inl GX5125_ENROLLMENT_ERR_MEMORY, h')
    \<and> live_blocks starved_env h' = 1"
proof -
  have ok: "template_ok (small_enrollment 80)" by (simp add: template_ok_def small_writable)
  obtain s where s: "en_samples (small_enrollment 80) = [] @ s # []"
    by (simp add: small_enrollment_def empty_enrollment_def)
  from deserialize_leaks [OF ok s, of starved_env "[]"] show ?thesis
    by (simp add: starved_env_def quiet_env_def live_blocks_def [of _ "[]"])
qed

text \<open>The self test passes whenever its enrollment can be allocated, and frees it.\<close>

lemma selftest_passes:
  "fst (gx5125_enrollment_selftest env h) = (\<not> isl (reply_rc (env h (Calloc 1))))
   \<and> live_blocks env (snd (gx5125_enrollment_selftest env h)) = live_blocks env h"
proof -
  let ?c = "gx5125_enrollment_default_config\<lparr>ec_target_samples := 3\<rparr>"
  have v: "enrollment_config_valid ?c"
    by (simp add: enrollment_config_valid_def gx5125_enrollment_default_config_def enrollment_consts)
  have "\<not> en_complete (empty_enrollment ?c)" by (simp add: en_complete_def empty_enrollment_def)
  then show ?thesis
    unfolding gx5125_enrollment_selftest_def Let_def create_with [OF v]
    by (auto simp: gx5125_enrollment_is_complete_def gx5125_enrollment_get_summary_def
        gx5125_enrollment_reset_def destroy_heap) (simp_all add: empty_enrollment_def)
qed

end
