(* ===== verification/Descriptor.thy ===== *)
theory Descriptor
  imports Enrollment
begin

text \<open>
  Descriptors and angles of the matcher, \<open>src/gx_matcher.c\<close>: loading words, counting bits in parallel,
  the distance of two descriptors and the normalized angle, with what they compute.
\<close>

section \<open>Loads, distances and angles\<close>

definition GX_MATCH_ANGLE_PERIOD :: int where "GX_MATCH_ANGLE_PERIOD = 0x6488"
definition GX_MATCH_ANGLE_HALF :: int where "GX_MATCH_ANGLE_HALF = 0x3244"
definition GX5125_MATCHER_DESCRIPTOR_BYTES :: nat where "GX5125_MATCHER_DESCRIPTOR_BYTES = 20"

lemmas descriptor_consts = GX_MATCH_ANGLE_PERIOD_def GX_MATCH_ANGLE_HALF_def GX5125_MATCHER_DESCRIPTOR_BYTES_def

definition load_u16 :: "u8 list \<Rightarrow> u16" where
  "load_u16 pointer = le16 (pointer ! 0) (pointer ! 1)"

definition load_u32 :: "u8 list \<Rightarrow> u32" where
  "load_u32 pointer = le32 (pointer ! 0) (pointer ! 1) (pointer ! 2) (pointer ! 3)"

definition popcount32 :: "u32 \<Rightarrow> u32" where
  "popcount32 v0 =
     (let v1 = v0 - (drop_bit 1 v0 AND 0x55555555);
          v2 = (v1 AND 0x33333333) + (drop_bit 2 v1 AND 0x33333333);
          v3 = (v2 + drop_bit 4 v2) AND 0x0f0f0f0f;
          v4 = v3 + drop_bit 8 v3;
          v5 = v4 + drop_bit 16 v4
      in v5 AND 0x3f)"

definition descriptor_hamming :: "u8 list \<Rightarrow> u8 list \<Rightarrow> u32" where
  "descriptor_hamming left right =
     foldl (\<lambda>distance k. distance + popcount32 (load_u32 (drop (4 * k) left) XOR load_u32 (drop (4 * k) right)))
       0 [0..<GX5125_MATCHER_DESCRIPTOR_BYTES div 4]"

function lower_angle :: "int \<Rightarrow> int" where
  "lower_angle angle =
     (if angle > GX_MATCH_ANGLE_HALF then lower_angle (angle - GX_MATCH_ANGLE_PERIOD) else angle)"
  by pat_completeness auto
termination
  by (relation "measure nat") (simp_all add: descriptor_consts)

function raise_angle :: "int \<Rightarrow> int" where
  "raise_angle angle =
     (if angle < - GX_MATCH_ANGLE_HALF then raise_angle (angle + GX_MATCH_ANGLE_PERIOD) else angle)"
  by pat_completeness auto
termination
  by (relation "measure (\<lambda>a. nat (- a))") (simp_all add: descriptor_consts)

declare lower_angle.simps [simp del] raise_angle.simps [simp del]

definition normalize_angle :: "int \<Rightarrow> int" where
  "normalize_angle angle = raise_angle (lower_angle angle)"

definition abs_i32_u32 :: "int \<Rightarrow> u32" where
  "abs_i32_u32 v = (if v < 0 then of_int (- v) else of_int v)"

section \<open>Words as four bytes\<close>

lemma le32_sum:
  "le32 a b c d = ucast a + 2 ^ 8 * ucast b + 2 ^ 16 * ucast c + 2 ^ 24 * ucast d"
proof -
  have d1: "ucast a AND push_bit 8 (ucast b) = (0 :: u32)"
    by (rule bit_word_eqI) (auto simp: bit_simps bit_u8_ge)
  have d2: "(ucast a OR push_bit 8 (ucast b)) AND push_bit 16 (ucast c) = (0 :: u32)"
    by (rule bit_word_eqI) (auto simp: bit_simps bit_u8_ge)
  have d3: "((ucast a OR push_bit 8 (ucast b)) OR push_bit 16 (ucast c)) AND push_bit 24 (ucast d) = (0 :: u32)"
    by (rule bit_word_eqI) (auto simp: bit_simps bit_u8_ge)
  have "le32 a b c d = ((ucast a OR push_bit 8 (ucast b)) OR push_bit 16 (ucast c)) OR push_bit 24 (ucast d)"
    by (simp only: le32_def or.assoc)
  also have "\<dots> = ((ucast a + push_bit 8 (ucast b)) + push_bit 16 (ucast c)) + push_bit 24 (ucast d)"
    by (subst disjunctive_add_eq_or [OF d3, symmetric], subst disjunctive_add_eq_or [OF d2, symmetric],
        subst disjunctive_add_eq_or [OF d1, symmetric]) (rule refl)
  finally show ?thesis by (simp only: push_bit_eq_mult mult.commute)
qed

lemma ucast_plus: "unat a + unat b < 256 \<Longrightarrow> (ucast (a + b :: u8) :: u32) = ucast a + ucast b"
  by (rule word_unat_eq_iff [THEN iffD2]) (simp add: unat_word_ariths)

lemma le32_add:
  assumes "unat a + unat a' < 256" "unat b + unat b' < 256" "unat c + unat c' < 256" "unat d + unat d' < 256"
  shows "le32 a b c d + le32 a' b' c' d' = le32 (a + a') (b + b') (c + c') (d + d')"
  using assms by (simp add: le32_sum ucast_plus algebra_simps)

lemma le32_and: "le32 a b c d AND le32 a' b' c' d' = le32 (a AND a') (b AND b') (c AND c') (d AND d')"
  unfolding le32_def
  by (rule bit_word_eqI) (auto simp: bit_simps bit_u8_ge)

lemma le32_xor: "le32 a b c d XOR le32 a' b' c' d' = le32 (a XOR a') (b XOR b') (c XOR c') (d XOR d')"
  unfolding le32_def
  by (rule bit_word_eqI) (auto simp: bit_simps bit_u8_ge)

lemma bit_le32:
  "bit (le32 a b c d) n \<longleftrightarrow>
     (if n < 8 then bit a n else if n < 16 then bit b (n - 8) else if n < 24 then bit c (n - 16)
      else n < 32 \<and> bit d (n - 24))"
  unfolding le32_def by (auto simp: bit_simps bit_u8_ge)

lemma bit_u8_less: "bit (b :: u8) n \<Longrightarrow> n < 8"
  using bit_u8_ge not_less by blast

lemma le32_shift:
  assumes "n < 8"
  shows "drop_bit n (le32 a b c d)
    = le32 (drop_bit n a OR push_bit (8 - n) b) (drop_bit n b OR push_bit (8 - n) c)
           (drop_bit n c OR push_bit (8 - n) d) (drop_bit n d)"
proof (rule bit_word_eqI)
  fix k :: nat
  assume k: "k < LENGTH(32)"
  have eqs: "8 \<le> k \<Longrightarrow> n + (k - 8) = n + k - 8" "16 \<le> k \<Longrightarrow> n + (k - 16) = n + k - 16"
    "24 \<le> k \<Longrightarrow> n + (k - 24) = n + k - 24" by simp_all
  consider "k < 8" | "8 \<le> k" "k < 16" | "16 \<le> k" "k < 24" | "24 \<le> k" "k < 32" using k by fastforce
  then show "bit (drop_bit n (le32 a b c d)) k
      = bit (le32 (drop_bit n a OR push_bit (8 - n) b) (drop_bit n b OR push_bit (8 - n) c)
           (drop_bit n c OR push_bit (8 - n) d) (drop_bit n d)) k"
    by (cases; use assms in \<open>simp add: bit_le32 bit_drop_bit_eq bit_or_iff bit_push_bit_iff bit_u8_ge eqs\<close>;
      auto simp: ac_simps bit_u8_ge dest: bit_u8_less)
qed

lemma le32_shift_byte: "drop_bit 8 (le32 a b c d) = le32 b c d 0"
  unfolding le32_def by (rule bit_word_eqI) (auto simp: bit_simps bit_u8_ge)

section \<open>Counting bits in parallel\<close>

text \<open>One byte after the first and after the second step: four counts of two bits, two of four bits.\<close>

definition pair_counts :: "u8 \<Rightarrow> u8" where
  "pair_counts a = a - (drop_bit 1 a AND 0x55)"

definition nibble_counts :: "u8 \<Rightarrow> u8" where
  "nibble_counts a = (pair_counts a AND 0x33) + (drop_bit 2 (pair_counts a) AND 0x33)"

definition counts_ok :: "u8 \<Rightarrow> bool" where
  "counts_ok a \<longleftrightarrow>
     unat (pair_counts a) + unat (drop_bit 1 a AND 0x55) = unat a
     \<and> unat (pair_counts a AND 0x33) + unat (drop_bit 2 (pair_counts a) AND 0x33) < 256
     \<and> nibble_counts a \<in> set (concat (map (\<lambda>h. map (\<lambda>l. of_nat (16 * h + l)) [0..<5]) [0..<5]))
     \<and> unat ((nibble_counts a + drop_bit 4 (nibble_counts a)) AND 0x0f) = bit_total a
     \<and> push_bit 7 a AND 0x55 = 0 \<and> push_bit 6 a AND 0x33 = 0"

lemma counts_table: "list_all (\<lambda>n. counts_ok (of_nat n)) [0..<256]"
  by code_simp

lemma counts_byte: "counts_ok a"
proof -
  have "unat a \<in> set [0..<256]" by simp
  with counts_table have "counts_ok (of_nat (unat a))" by (simp only: list_all_iff)
  then show ?thesis by simp
qed

lemma nibble_table:
  "list_all (\<lambda>x. list_all (\<lambda>y.
       unat x + unat (drop_bit 4 x OR push_bit 4 y) < 256
       \<and> (x + (drop_bit 4 x OR push_bit 4 y)) AND 0x0f = (x + drop_bit 4 x) AND 0x0f)
     (concat (map (\<lambda>h. map (\<lambda>l. of_nat (16 * h + l) :: u8) [0..<5]) [0..<5])))
   (concat (map (\<lambda>h. map (\<lambda>l. of_nat (16 * h + l)) [0..<5]) [0..<5]))"
  by code_simp

lemma nibble_add:
  "unat (nibble_counts a) + unat (drop_bit 4 (nibble_counts a) OR push_bit 4 (nibble_counts b)) < 256"
  "(nibble_counts a + (drop_bit 4 (nibble_counts a) OR push_bit 4 (nibble_counts b))) AND 0x0f
     = (nibble_counts a + drop_bit 4 (nibble_counts a)) AND 0x0f"
  using nibble_table counts_byte [of a] counts_byte [of b]
  unfolding counts_ok_def list_all_iff by blast+

lemma mask_shifted:
  "(x OR push_bit 7 y) AND 0x55 = x AND (0x55 :: u8)"
  "(x OR push_bit 6 y) AND 0x33 = x AND (0x33 :: u8)"
  using counts_byte [of y] by (simp_all only: counts_ok_def bit.conj_disj_distrib2 or.right_neutral)

lemma swar_constants:
  "0x55555555 = le32 0x55 0x55 0x55 0x55" "0x33333333 = le32 0x33 0x33 0x33 0x33"
  "0x0f0f0f0f = le32 0x0f 0x0f 0x0f 0x0f" "0x3f = le32 0x3f 0 0 0"
  by (simp_all add: le32_def)

lemma swar_pairs:
  "le32 a b c d - (drop_bit 1 (le32 a b c d) AND 0x55555555)
     = le32 (pair_counts a) (pair_counts b) (pair_counts c) (pair_counts d)"
proof -
  let ?m = "\<lambda>x :: u8. drop_bit 1 x AND 0x55"
  have "drop_bit 1 (le32 a b c d) AND 0x55555555 = le32 (?m a) (?m b) (?m c) (?m d)"
    by (simp add: swar_constants le32_shift le32_and mask_shifted)
  moreover have "le32 (pair_counts a) (pair_counts b) (pair_counts c) (pair_counts d)
      + le32 (?m a) (?m b) (?m c) (?m d)
    = le32 (pair_counts a + ?m a) (pair_counts b + ?m b) (pair_counts c + ?m c) (pair_counts d + ?m d)"
    using counts_byte unfolding counts_ok_def by (intro le32_add) (metis unat_u8_less)+
  moreover have "pair_counts x + ?m x = x" for x by (simp add: pair_counts_def)
  ultimately show ?thesis by (metis add_diff_cancel_right')
qed

lemma swar_nibbles:
  "(le32 (pair_counts a) (pair_counts b) (pair_counts c) (pair_counts d) AND 0x33333333)
   + (drop_bit 2 (le32 (pair_counts a) (pair_counts b) (pair_counts c) (pair_counts d)) AND 0x33333333)
   = le32 (nibble_counts a) (nibble_counts b) (nibble_counts c) (nibble_counts d)"
  using counts_byte unfolding counts_ok_def nibble_counts_def
  by (simp add: swar_constants le32_shift le32_and mask_shifted le32_add)

lemma unat_bit_total: "unat (of_nat (bit_total a) :: u8) = bit_total a"
  using bit_total_bounds(1) [of a] by (simp add: unat_of_nat)

lemma swar_bytes:
  "(le32 (nibble_counts a) (nibble_counts b) (nibble_counts c) (nibble_counts d)
      + drop_bit 4 (le32 (nibble_counts a) (nibble_counts b) (nibble_counts c) (nibble_counts d))) AND 0x0f0f0f0f
   = le32 (of_nat (bit_total a)) (of_nat (bit_total b)) (of_nat (bit_total c)) (of_nat (bit_total d))"
proof -
  have "(nibble_counts x + drop_bit 4 (nibble_counts x)) AND 0x0f = of_nat (bit_total x)" for x
    using counts_byte [of x] unfolding counts_ok_def by (simp only: word_unat_eq_iff unat_bit_total)
  moreover have "unat (nibble_counts d) + unat (drop_bit 4 (nibble_counts d)) < 256"
    using nibble_add(1) [of d 0] by (simp add: nibble_counts_def pair_counts_def)
  ultimately show ?thesis
    by (simp add: swar_constants le32_shift le32_add nibble_add le32_and)
qed

lemma swar_popcount:
  "unat (popcount32 (le32 a b c d)) = bit_total a + bit_total b + bit_total c + bit_total d"
proof -
  let ?t = "\<lambda>x. of_nat (bit_total x) :: u8"
  note bounds = bit_total_bounds(1) [of a] bit_total_bounds(1) [of b] bit_total_bounds(1) [of c] bit_total_bounds(1) [of d]
  let ?v3 = "le32 (?t a) (?t b) (?t c) (?t d)"
  have "?v3 + drop_bit 8 ?v3 = le32 (?t a + ?t b) (?t b + ?t c) (?t c + ?t d) (?t d)"
    unfolding le32_shift_byte using bounds by (simp add: le32_add unat_bit_total)
  moreover have "drop_bit 16 (le32 w x y z) = le32 y z 0 0" for w x y z
    using le32_shift_byte by (metis drop_bit_drop_bit num_double numeral_times_numeral mult_2 add_numeral_left)
  moreover have "le32 (?t a + ?t b) (?t b + ?t c) (?t c + ?t d) (?t d) + le32 (?t c + ?t d) (?t d) 0 0
      = le32 (?t a + ?t b + (?t c + ?t d)) (?t b + ?t c + ?t d) (?t c + ?t d) (?t d)"
    using bounds by (simp add: le32_add unat_word_ariths unat_bit_total)
  ultimately have "popcount32 (le32 a b c d)
      = le32 (?t a + ?t b + (?t c + ?t d)) (?t b + ?t c + ?t d) (?t c + ?t d) (?t d) AND 0x3f"
    unfolding popcount32_def Let_def swar_pairs swar_nibbles swar_bytes by simp
  also have "\<dots> = ucast ((?t a + ?t b + (?t c + ?t d)) AND 0x3f)"
    unfolding swar_constants(4) le32_and by (simp add: le32_def)
  finally have "unat (popcount32 (le32 a b c d)) = unat ((?t a + ?t b + (?t c + ?t d)) AND 0x3f)" by simp
  also have "\<dots> = (bit_total a + bit_total b + (bit_total c + bit_total d)) mod 64"
  proof -
    have "x AND 0x3f = take_bit 6 x" for x :: u8 by (simp add: take_bit_eq_mask mask_eq_exp_minus_1)
    then show ?thesis using bounds
      by (simp add: unsigned_take_bit_eq take_bit_eq_mod unat_word_ariths unat_bit_total)
  qed
  finally show ?thesis using bounds by simp
qed

section \<open>The distance of two descriptors\<close>

lemma load_u32_nth: "4 * k + 4 \<le> length bs \<Longrightarrow>
    load_u32 (drop (4 * k) bs) = le32 (bs ! (4 * k)) (bs ! (4 * k + 1)) (bs ! (4 * k + 2)) (bs ! (4 * k + 3))"
  by (simp add: load_u32_def)

lemma hamming_bits:
  assumes "20 \<le> length left" and "20 \<le> length right"
  shows "unat (descriptor_hamming left right) = (\<Sum>k<20. bit_total (left ! k XOR right ! k))"
proof -
  let ?d = "\<lambda>n. foldl (\<lambda>distance k. distance
      + popcount32 (load_u32 (drop (4 * k) left) XOR load_u32 (drop (4 * k) right))) 0 [0..<n]"
  have "n \<le> 5 \<Longrightarrow> unat (?d n) = (\<Sum>k<4 * n. bit_total (left ! k XOR right ! k)) \<and> unat (?d n) \<le> 32 * n" for n
  proof (induction n)
    case (Suc n)
    let ?x = "\<lambda>i. left ! (4 * n + i) XOR right ! (4 * n + i)"
    have "load_u32 (drop (4 * n) left) XOR load_u32 (drop (4 * n) right) = le32 (?x 0) (?x 1) (?x 2) (?x 3)"
      using assms Suc.prems by (simp add: load_u32_nth le32_xor)
    then have "?d (Suc n) = ?d n + popcount32 (le32 (?x 0) (?x 1) (?x 2) (?x 3))" by simp
    moreover have "(\<Sum>k<4 * Suc n. bit_total (left ! k XOR right ! k))
        = (\<Sum>k<4 * n. bit_total (left ! k XOR right ! k))
          + bit_total (?x 0) + bit_total (?x 1) + bit_total (?x 2) + bit_total (?x 3)"
      by (simp add: numeral_eq_Suc)
    moreover have "unat (popcount32 (le32 (?x 0) (?x 1) (?x 2) (?x 3))) \<le> 32"
      unfolding swar_popcount
      using bit_total_bounds(1) [of "?x 0"] bit_total_bounds(1) [of "?x 1"]
        bit_total_bounds(1) [of "?x 2"] bit_total_bounds(1) [of "?x 3"] by linarith
    ultimately show ?case using Suc by (simp add: unat_word_ariths swar_popcount)
  qed simp
  from this [of 5] show ?thesis
    by (simp add: descriptor_hamming_def GX5125_MATCHER_DESCRIPTOR_BYTES_def)
qed

lemma bit_total_zero: "bit_total v = 0 \<longleftrightarrow> v = 0"
proof
  assume "bit_total v = 0"
  then have "\<not> bit v n" if "n < 8" for n
    using that by (simp add: bit_total_def filter_empty_conv del: upt_rec_numeral)
  then show "v = 0" by (intro bit_word_eqI) simp
qed (simp add: bit_total_def)

lemma xor_zero_iff: "a XOR b = 0 \<longleftrightarrow> a = (b :: u8)"
  by (metis xor.assoc xor.right_neutral xor_self_eq)

lemma length_filter_either:
  "(\<And>x. x \<in> set xs \<Longrightarrow> P x \<Longrightarrow> Q x \<or> R x) \<Longrightarrow>
   length (filter P xs) \<le> length (filter Q xs) + length (filter R xs)"
  by (induction xs) force+

lemma bit_total_triangle: "bit_total (a XOR c) \<le> bit_total (a XOR b) + bit_total (b XOR c)"
  unfolding bit_total_def by (rule length_filter_either) (auto simp: bit_xor_iff)

text \<open>
  The descriptor distance is the number of differing bits. The parallel bit counter of the
  matcher computes, over the 20 descriptor bytes, the number of bit positions in which the two
  descriptors differ; this is a metric: zero exactly for equal descriptors, symmetric, and with the
  triangle inequality.
\<close>

theorem hamming_is_metric:
  assumes "20 \<le> length a" and "20 \<le> length b" and "20 \<le> length c"
  shows "unat (descriptor_hamming a b) = (\<Sum>k<20. length (filter (\<lambda>n. bit (a ! k) n \<noteq> bit (b ! k) n) [0..<8]))
    \<and> (descriptor_hamming a b = 0 \<longleftrightarrow> take 20 a = take 20 b)
    \<and> descriptor_hamming b a = descriptor_hamming a b
    \<and> unat (descriptor_hamming a c) \<le> unat (descriptor_hamming a b) + unat (descriptor_hamming b c)"
proof (intro conjI)
  note ab = hamming_bits [OF assms(1,2)] and bc = hamming_bits [OF assms(2,3)] and ac = hamming_bits [OF assms(1,3)]
  show "unat (descriptor_hamming a b) = (\<Sum>k<20. length (filter (\<lambda>n. bit (a ! k) n \<noteq> bit (b ! k) n) [0..<8]))"
    unfolding ab bit_total_def bit_xor_iff ..
  have "descriptor_hamming a b = 0 \<longleftrightarrow> unat (descriptor_hamming a b) = 0" by (simp add: unat_eq_0)
  also have "\<dots> \<longleftrightarrow> (\<forall>k<20. a ! k = b ! k)" unfolding ab by (auto simp: bit_total_zero xor_zero_iff)
  also have "\<dots> \<longleftrightarrow> take 20 a = take 20 b" using assms by (auto simp: list_eq_iff_nth_eq)
  finally show "descriptor_hamming a b = 0 \<longleftrightarrow> take 20 a = take 20 b" .
  show "descriptor_hamming b a = descriptor_hamming a b"
    unfolding word_unat_eq_iff ab hamming_bits [OF assms(2,1)] by (simp add: xor.commute)
  show "unat (descriptor_hamming a c) \<le> unat (descriptor_hamming a b) + unat (descriptor_hamming b c)"
    unfolding ab bc ac sum.distrib [symmetric] by (intro sum_mono bit_total_triangle)
qed

theorem hamming_is_metric_witness:
  "unat (descriptor_hamming (replicate 20 0x0f) (replicate 20 0x3c))
     = (\<Sum>k<20. length (filter (\<lambda>n. bit (replicate 20 (0x0f :: u8) ! k) n \<noteq> bit (replicate 20 (0x3c :: u8) ! k) n) [0..<8]))"
  using hamming_is_metric [of "replicate 20 0x0f" "replicate 20 0x3c" "replicate 20 0"] by simp

section \<open>Normalized angles\<close>

lemma lower_angle_spec:
  "lower_angle a \<le> GX_MATCH_ANGLE_HALF \<and> GX_MATCH_ANGLE_PERIOD dvd a - lower_angle a
   \<and> (- GX_MATCH_ANGLE_HALF \<le> a \<longrightarrow> - GX_MATCH_ANGLE_HALF \<le> lower_angle a)"
proof (induction a rule: lower_angle.induct)
  case (1 a)
  show ?case
  proof (cases "a > GX_MATCH_ANGLE_HALF")
    case True
    let ?l = "lower_angle (a - GX_MATCH_ANGLE_PERIOD)"
    have "a - ?l = (a - GX_MATCH_ANGLE_PERIOD - ?l) + GX_MATCH_ANGLE_PERIOD" by simp
    then have "GX_MATCH_ANGLE_PERIOD dvd a - ?l" using 1 [OF True] by (metis dvd_add dvd_refl)
    moreover have "- GX_MATCH_ANGLE_HALF \<le> a - GX_MATCH_ANGLE_PERIOD" using True by (simp add: descriptor_consts)
    ultimately show ?thesis using 1 [OF True] True by (simp add: lower_angle.simps [of a])
  qed (simp add: lower_angle.simps [of a])
qed

lemma raise_angle_spec:
  "- GX_MATCH_ANGLE_HALF \<le> raise_angle a \<and> GX_MATCH_ANGLE_PERIOD dvd a - raise_angle a
   \<and> (a \<le> GX_MATCH_ANGLE_HALF \<longrightarrow> raise_angle a \<le> GX_MATCH_ANGLE_HALF)"
proof (induction a rule: raise_angle.induct)
  case (1 a)
  show ?case
  proof (cases "a < - GX_MATCH_ANGLE_HALF")
    case True
    let ?l = "raise_angle (a + GX_MATCH_ANGLE_PERIOD)"
    have "a - ?l = (a + GX_MATCH_ANGLE_PERIOD - ?l) - GX_MATCH_ANGLE_PERIOD" by simp
    then have "GX_MATCH_ANGLE_PERIOD dvd a - ?l" using 1 [OF True] by (metis dvd_diff dvd_refl)
    moreover have "a + GX_MATCH_ANGLE_PERIOD \<le> GX_MATCH_ANGLE_HALF" using True by (simp add: descriptor_consts)
    ultimately show ?thesis using 1 [OF True] True by (simp add: raise_angle.simps [of a])
  qed (simp add: raise_angle.simps [of a])
qed

lemma normalize_angle_spec:
  "\<bar>normalize_angle a\<bar> \<le> GX_MATCH_ANGLE_HALF" "GX_MATCH_ANGLE_PERIOD dvd a - normalize_angle a"
proof -
  show "\<bar>normalize_angle a\<bar> \<le> GX_MATCH_ANGLE_HALF"
    using lower_angle_spec [of a] raise_angle_spec [of "lower_angle a"] by (simp add: normalize_angle_def abs_le_iff)
  have "a - normalize_angle a = (a - lower_angle a) + (lower_angle a - raise_angle (lower_angle a))"
    by (simp add: normalize_angle_def)
  then show "GX_MATCH_ANGLE_PERIOD dvd a - normalize_angle a"
    using lower_angle_spec [of a] raise_angle_spec [of "lower_angle a"] by (metis dvd_add)
qed

lemma normalize_small: "\<bar>a\<bar> \<le> GX_MATCH_ANGLE_HALF \<Longrightarrow> normalize_angle a = a"
  by (simp add: normalize_angle_def lower_angle.simps [of a] raise_angle.simps [of a] abs_le_iff not_less)

end
