(* ===== verification/Primitives.thy ===== *)
theory Primitives
  imports Prelude
begin

text \<open>
  The integer primitives of the feature extractor, \<open>src/gx_feature_primitives.c\<close>, and the record
  forms of \<open>src/gx_feature_record.c\<close>. \<open>int16_t\<close> and \<open>int32_t\<close> values are integers; where the C
  code wraps explicitly (\<open>wrap_i16\<close>, sums in \<open>uint32_t\<close>) the model does too.
\<close>

section \<open>Signed integers\<close>

definition i16 :: "int \<Rightarrow> int" where "i16 z = signed_take_bit 15 z"
definition i32 :: "int \<Rightarrow> int" where "i32 z = signed_take_bit 31 z"

lemma i16_range: "- 32768 \<le> i16 z \<and> i16 z \<le> 32767"
  using signed_take_bit_int_greater_eq_minus_exp [of 15 z] signed_take_bit_int_less_exp [of 15 z]
  by (simp add: i16_def)

lemma i16_exact: "- 32768 \<le> z \<Longrightarrow> z < 32768 \<Longrightarrow> i16 z = z"
  by (simp add: i16_def signed_take_bit_int_eq_self_iff)

lemma i32_exact: "- 2147483648 \<le> z \<Longrightarrow> z < 2147483648 \<Longrightarrow> i32 z = z"
  by (simp add: i32_def signed_take_bit_int_eq_self_iff)

section \<open>Median and threshold bits\<close>

text \<open>\<open>qsort\<close> with a comparison that orders the values: the sorted list.\<close>

definition gx_feature_signed_median_i16 :: "int list \<Rightarrow> int" where
  "gx_feature_signed_median_i16 values =
     (if values = [] then 0
      else
        let usable = (if length values > 128 then 128 else length values);
            copy = sort (take usable values)
        in copy ! ((usable - 1) div 2))"

definition gx_feature_build_tail_bits ::
    "u32 list \<Rightarrow> int list \<Rightarrow> int \<Rightarrow> int \<Rightarrow> u32 list" where
  "gx_feature_build_tail_bits out_words values rows channels =
     (if rows \<le> 0 \<or> channels \<le> 0 \<or> rows * channels > int (length values) \<or> length values > 128
      then out_words
      else
        let median = gx_feature_signed_median_i16 values
        in foldl (\<lambda>ws row.
             let index = (if channels = 1 then row else row * nat channels + 1)
             in if values ! index > median
                then ws[row div 32 := ws ! (row div 32) OR push_bit (row mod 32) 1]
                else ws) out_words [0..<nat rows])"

section \<open>Correlation word\<close>

definition correlation :: "int list \<Rightarrow> int list \<Rightarrow> nat \<Rightarrow> u32" where
  "correlation reference bank block =
     foldl (\<lambda>acc element. acc + of_int (reference ! element * bank ! (block * 128 + element))) 0 [0..<32]"

definition correlation_word :: "int list \<Rightarrow> int list \<Rightarrow> u32" where
  "correlation_word reference bank =
     fst (foldl (\<lambda>(word, bt) block.
            (if sint (correlation reference bank block) > 0 then word OR bt else word,
             push_bit 1 bt OR drop_bit 31 bt))
          (0, 1) [0..<32])"

definition gx_feature_build_correlation_word :: "u8 list \<Rightarrow> int list \<Rightarrow> int list \<Rightarrow> u8 list" where
  "gx_feature_build_correlation_word record reference bank =
     mem_write (mem_write record 0x28 (replicate 0x10 0)) 0x28 (bytes32 (correlation_word reference bank))"

section \<open>Sine and cosine\<close>

definition GX_FEATURE_ANGLE_PERIOD :: int where "GX_FEATURE_ANGLE_PERIOD = 0x6488"
definition GX_FEATURE_ANGLE_HALF :: int where "GX_FEATURE_ANGLE_HALF = 0x3244"
definition GX_FEATURE_ANGLE_QUARTER :: int where "GX_FEATURE_ANGLE_QUARTER = 0x1922"

lemmas angle_consts = GX_FEATURE_ANGLE_PERIOD_def GX_FEATURE_ANGLE_HALF_def GX_FEATURE_ANGLE_QUARTER_def

definition cordic_angles :: "int list" where
  "cordic_angles = [3217, 1899, 1003, 509, 256, 128, 64, 32, 16, 8, 4, 2, 1]"

text \<open>Rounding towards minus infinity, also for negative values.\<close>

definition arithmetic_shift_right_i32 :: "int \<Rightarrow> nat \<Rightarrow> int" where
  "arithmetic_shift_right_i32 v shift =
     (if shift = 0 then v
      else if v \<ge> 0 then drop_bit shift v
      else NOT (drop_bit shift (NOT v)))"

text \<open>The state of the rotation: cosine, sine, the angle reached.\<close>

definition cordic_step :: "int \<Rightarrow> int \<times> int \<times> int \<Rightarrow> nat \<Rightarrow> int \<times> int \<times> int" where
  "cordic_step folded st index =
     (case st of (cosine, sine, current) \<Rightarrow>
        let cosine_step = i16 (arithmetic_shift_right_i32 cosine index);
            sine_step = i16 (arithmetic_shift_right_i32 sine index);
            (cosine_step, sine_step, current) =
              (if folded - current < 0
               then (i16 (- cosine_step), sine_step, current - cordic_angles ! index)
               else (cosine_step, i16 (- sine_step), current + cordic_angles ! index))
        in (i16 (cosine + sine_step), i16 (sine + cosine_step), current))"

definition angle_normalize :: "int \<Rightarrow> int" where
  "angle_normalize angle_units =
     (let normalized_abs = \<bar>angle_units\<bar> mod GX_FEATURE_ANGLE_PERIOD
      in if normalized_abs < GX_FEATURE_ANGLE_HALF + 1
         then (if angle_units < 1 then - normalized_abs else normalized_abs)
         else if angle_units < 0 then GX_FEATURE_ANGLE_PERIOD - normalized_abs
         else normalized_abs - GX_FEATURE_ANGLE_PERIOD)"

definition angle_fold :: "int \<Rightarrow> int" where
  "angle_fold normalized =
     (if normalized < GX_FEATURE_ANGLE_QUARTER + 1
      then (if normalized < - GX_FEATURE_ANGLE_QUARTER then normalized + GX_FEATURE_ANGLE_HALF
            else if normalized < 0 then - normalized else normalized)
      else GX_FEATURE_ANGLE_HALF - normalized)"

text \<open>Sine and cosine of an angle folded into the first quadrant.\<close>

definition quadrant_sincos :: "int \<Rightarrow> int \<times> int" where
  "quadrant_sincos folded =
     (if folded = 0 then (0, 0x4000)
      else if folded = GX_FEATURE_ANGLE_QUARTER then (0x4000, 0)
      else
        let (cosine, sine, current) = foldl (cordic_step folded) (0x4000, 0, 0) [0..<13];
            cos_out = drop_bit 16 (cosine * 0x9b75 + 0x8000);
            sin_out = drop_bit 16 (sine * 0x9b75 + 0x8000)
        in (i16 sin_out, i16 cos_out))"

definition gx_feature_angle_sincos_q14 :: "int \<Rightarrow> int \<times> int" where
  "gx_feature_angle_sincos_q14 angle_units =
     (let normalized = angle_normalize angle_units;
          (sin_out, cos_out) = quadrant_sincos (angle_fold normalized)
      in if normalized < GX_FEATURE_ANGLE_QUARTER + 1
         then (if normalized < - GX_FEATURE_ANGLE_QUARTER then (- sin_out, - cos_out)
               else if normalized \<ge> 0 then (sin_out, cos_out)
               else (- sin_out, cos_out))
         else (sin_out, - cos_out))"

section \<open>Descriptor quality\<close>

definition group_sum :: "int list \<Rightarrow> nat \<Rightarrow> u32" where
  "group_sum values grp = foldl (\<lambda>s element. s + of_int (values ! (grp * 8 + element))) 0 [0..<8]"

definition wrap_add_i32 :: "int \<Rightarrow> int \<Rightarrow> int" where
  "wrap_add_i32 a b = i32 (a + b)"

text \<open>The sum of the squared differences of one group; each square is below \<open>2 ^ 64\<close>.\<close>

definition group_variance :: "int list \<Rightarrow> nat \<Rightarrow> int \<Rightarrow> u32" where
  "group_variance values grp local_mean =
     foldl (\<lambda>s element.
        let difference = values ! (grp * 8 + element) - local_mean
        in s + of_int (drop_bit 16 (difference * difference))) 0 [0..<8]"

text \<open>Division in C truncates; \<open>low_divisor\<close> and \<open>high_divisor\<close> are positive.\<close>

definition trunc_div :: "int \<Rightarrow> int \<Rightarrow> int" where
  "trunc_div a d = (if a < 0 then - ((- a) div d) else a div d)"

definition gx_feature_descriptor_quality_flag :: "int list \<Rightarrow> bool \<Rightarrow> int \<Rightarrow> bool" where
  "gx_feature_descriptor_quality_flag values use_mean_gate profile =
     (let low_divisor = (if profile = 7 \<or> profile = 23 \<or> profile = 10 then 30 else 25);
          high_divisor = (if profile = 7 \<or> profile = 23 \<or> profile = 10 then 10 else 8);
          group_mean = map (\<lambda>grp. drop_bit 3 (group_sum values grp)) [0..<16];
          global_mean = sint (drop_bit 4 (foldl (+) 0 group_mean));
          (low_count, high_count) = foldl (\<lambda>(low, high) grp.
            let local_mean = sint (group_mean ! grp)
            in if \<not> use_mean_gate
                  \<or> global_mean \<le> wrap_add_i32 local_mean (wrap_add_i32 local_mean local_mean)
               then
                 let variance = sint (group_variance values grp local_mean div 7)
                 in (if variance < trunc_div global_mean low_divisor then low + 1 else low,
                     if trunc_div global_mean high_divisor < variance then high + 1 else high)
               else (low, high)) (0 :: nat, 0 :: nat) [0..<16]
      in \<not> ((low_count < 4 \<or> high_count > 7) \<and> low_count < 6))"

section \<open>Record forms\<close>

definition gx_feature_record_bitreverse32 :: "u32 \<Rightarrow> u32" where
  "gx_feature_record_bitreverse32 v =
     (let v1 = push_bit 1 (v AND 0x55555555) OR (drop_bit 1 v AND 0x55555555);
          v2 = push_bit 2 (v1 AND 0x33333333) OR (drop_bit 2 v1 AND 0x33333333);
          v3 = push_bit 4 (v2 AND 0x0f0f0f0f) OR (drop_bit 4 v2 AND 0x0f0f0f0f);
          v4 = push_bit 8 (v3 AND 0x00ff00ff) OR (drop_bit 8 v3 AND 0x00ff00ff)
      in push_bit 16 v4 OR drop_bit 16 v4)"

definition pair_order :: "bool list" where
  "pair_order = [False, True, True, False, True, False, False, True]"

text \<open>The two bytes the pair \<open>left\<close>, \<open>right\<close> contributes, to the first and to the second half.\<close>

definition normalized_pair :: "u8 list \<Rightarrow> nat \<Rightarrow> u8 \<times> u8" where
  "normalized_pair record pair =
     (let left = record ! (0x10 + pair * 2);
          right = record ! (0x11 + pair * 2);
          right_high_left_low = (right AND 0xf0) OR (left AND 0x0f);
          left_high_right_low = (left AND 0xf0) OR (right AND 0x0f)
      in if \<not> pair_order ! pair then (right_high_left_low, left_high_right_low)
         else (left_high_right_low, right_high_left_low))"

definition gx_feature_record_apply_mode :: "u8 list \<Rightarrow> bool \<Rightarrow> u8 list" where
  "gx_feature_record_apply_mode record identify_mode =
     (let pairs = map (normalized_pair record) [0..<8];
          descriptor_word = le32 (record ! 0x20) (record ! 0x21) (record ! 0x22) (record ! 0x23);
          reversed_word = (if identify_mode then gx_feature_record_bitreverse32 descriptor_word else 0);
          normalized = map fst pairs @ map snd pairs @ bytes32 descriptor_word @ bytes32 reversed_word;
          r = mem_write record 0x10 normalized
      in if identify_mode
         then mem_write r 0x30
                [r ! 0x28, NOT (r ! 0x29), NOT (r ! 0x2a), r ! 0x2b, r ! 0x2f, r ! 0x2e, r ! 0x2d, r ! 0x2c]
         else r)"

section \<open>The median\<close>

lemma filter_below_nth: "sorted ys \<Longrightarrow> k < length ys \<Longrightarrow> length (filter (\<lambda>x. x < ys ! k) ys) \<le> k"
proof -
  assume s: "sorted ys" and k: "k < length ys"
  have "filter (\<lambda>x. x < ys ! k) (drop k ys) = []"
    using sorted_nth_mono [OF s, of k] by (auto simp: filter_empty_conv in_set_conv_nth not_less)
  then have "filter (\<lambda>x. x < ys ! k) ys = filter (\<lambda>x. x < ys ! k) (take k ys)"
    by (metis append_Nil2 append_take_drop_id filter_append)
  then show ?thesis by (metis length_filter_le length_take min.cobounded2 order_trans)
qed

lemma filter_above_nth:
  "sorted ys \<Longrightarrow> k < length ys \<Longrightarrow> length (filter (\<lambda>x. x > ys ! k) ys) \<le> length ys - Suc k"
proof -
  assume s: "sorted ys" and k: "k < length ys"
  have "filter (\<lambda>x. x > ys ! k) (take (Suc k) ys) = []"
    using sorted_nth_mono [OF s _ k] by (auto simp: filter_empty_conv in_set_conv_nth not_less)
  then have "filter (\<lambda>x. x > ys ! k) ys = filter (\<lambda>x. x > ys ! k) (drop (Suc k) ys)"
    by (metis append_Nil append_take_drop_id filter_append)
  then show ?thesis by (metis length_filter_le length_drop)
qed

lemma filter_sort_length: "length (filter P (sort xs)) = length (filter P xs)"
  by (metis filter_sort length_sort)

lemma median_spec:
  assumes "values \<noteq> []" and "length values \<le> 128"
  shows "gx_feature_signed_median_i16 values \<in> set values
    \<and> length (filter (\<lambda>x. x < gx_feature_signed_median_i16 values) values) \<le> (length values - 1) div 2
    \<and> length (filter (\<lambda>x. x > gx_feature_signed_median_i16 values) values) \<le> length values div 2"
proof -
  let ?k = "(length values - 1) div 2"
  have n: "0 < length values" using assms(1) by simp
  then have k: "?k < length (sort values)" by (simp only: length_sort)
  have m: "gx_feature_signed_median_i16 values = sort values ! ?k"
    using assms by (simp add: gx_feature_signed_median_i16_def Let_def)
  have "sort values ! ?k \<in> set values" using nth_mem [OF k] by simp
  moreover have "length (filter (\<lambda>x. x < sort values ! ?k) values) \<le> ?k"
    using filter_below_nth [OF sorted_sort k] by (simp only: filter_sort_length)
  moreover have "length (filter (\<lambda>x. x > sort values ! ?k) values) \<le> length values div 2"
    using filter_above_nth [OF sorted_sort k] n by (simp only: filter_sort_length length_sort)
  ultimately show ?thesis unfolding m by blast
qed

section \<open>Symmetries of sine and cosine\<close>

lemma normalize_range: "\<bar>angle_normalize x\<bar> \<le> GX_FEATURE_ANGLE_HALF"
proof -
  have "0 \<le> \<bar>x\<bar> mod GX_FEATURE_ANGLE_PERIOD" "\<bar>x\<bar> mod GX_FEATURE_ANGLE_PERIOD < GX_FEATURE_ANGLE_PERIOD"
    by (simp_all add: angle_consts)
  then show ?thesis by (auto simp: angle_normalize_def Let_def angle_consts)
qed

lemma normalize_congruent: "GX_FEATURE_ANGLE_PERIOD dvd angle_normalize x - x"
proof (cases "x < 0")
  case True
  let ?r = "- x - (- x) mod GX_FEATURE_ANGLE_PERIOD"
  have "angle_normalize x - x = ?r \<or> angle_normalize x - x = ?r + GX_FEATURE_ANGLE_PERIOD"
    using True by (simp add: angle_normalize_def Let_def)
  moreover have "GX_FEATURE_ANGLE_PERIOD dvd ?r" by (rule dvd_minus_mod)
  ultimately show ?thesis by (metis dvd_add dvd_refl)
next
  case False
  let ?r = "x - x mod GX_FEATURE_ANGLE_PERIOD"
  have "angle_normalize x - x = - ?r \<or> angle_normalize x - x = - ?r - GX_FEATURE_ANGLE_PERIOD"
    using False by (cases "x = 0") (auto simp: angle_normalize_def Let_def)
  then show ?thesis
    using dvd_minus_mod [of GX_FEATURE_ANGLE_PERIOD x] by (metis dvd_diff dvd_minus_iff dvd_refl)
qed

text \<open>Sine and cosine of a normalized angle.\<close>

definition half_sincos :: "int \<Rightarrow> int \<times> int" where
  "half_sincos n =
     (let (s, c) = quadrant_sincos (if \<bar>n\<bar> \<le> GX_FEATURE_ANGLE_QUARTER then \<bar>n\<bar> else GX_FEATURE_ANGLE_HALF - \<bar>n\<bar>)
      in (if n < 0 then - s else s, if \<bar>n\<bar> \<le> GX_FEATURE_ANGLE_QUARTER then c else - c))"

lemma sincos_half: "gx_feature_angle_sincos_q14 x = half_sincos (angle_normalize x)"
  by (auto simp: gx_feature_angle_sincos_q14_def half_sincos_def angle_fold_def Let_def angle_consts
      ac_simps split: prod.split)

lemma half_sincos_minus:
  "half_sincos (- n) = (- fst (half_sincos n), snd (half_sincos n))"
proof (cases "n = 0")
  case True
  then show ?thesis by (simp add: half_sincos_def quadrant_sincos_def angle_consts)
next
  case False
  then show ?thesis by (auto simp: half_sincos_def Let_def split: prod.split)
qed

lemma half_sincos_congruent:
  assumes "\<bar>a\<bar> \<le> GX_FEATURE_ANGLE_HALF" "\<bar>b\<bar> \<le> GX_FEATURE_ANGLE_HALF" "GX_FEATURE_ANGLE_PERIOD dvd a - b"
  shows "half_sincos a = half_sincos b"
proof -
  have "a = b \<or> (a = GX_FEATURE_ANGLE_HALF \<and> b = - GX_FEATURE_ANGLE_HALF)
      \<or> (b = GX_FEATURE_ANGLE_HALF \<and> a = - GX_FEATURE_ANGLE_HALF)"
  proof -
    from assms(3) obtain k where k: "a - b = GX_FEATURE_ANGLE_PERIOD * k" by (auto simp: dvd_def)
    with assms(1,2) have "- 1 \<le> k" "k \<le> 1" by (simp_all add: angle_consts)
    then have "k = - 1 \<or> k = 0 \<or> k = 1" by linarith
    with k assms(1,2) show ?thesis by (auto simp: angle_consts)
  qed
  then show ?thesis by (auto simp: half_sincos_def angle_consts quadrant_sincos_def)
qed

lemma quadrant_bound:
  "\<bar>fst (quadrant_sincos x)\<bar> \<le> 20000 \<and> \<bar>snd (quadrant_sincos x)\<bar> \<le> 20000"
proof -
  have b: "\<bar>i16 (drop_bit 16 (z * 0x9b75 + 0x8000))\<bar> \<le> 20000" if "- 32768 \<le> z" "z \<le> 32767" for z
  proof -
    have "drop_bit 16 (z * 0x9b75 + 0x8000) \<le> 20000" "- 20000 \<le> drop_bit 16 (z * 0x9b75 + 0x8000)"
      using that by (simp_all add: drop_bit_int_def)
    then show ?thesis by (simp add: i16_exact)
  qed
  obtain c s k where f: "foldl (cordic_step x) (0x4000, 0, 0) [0..<13] = (c, s, k)" by (rule prod_cases3)
  have "[0..<13] = [0..<12] @ [12 :: nat]" using upt_Suc_append [of 0 12] by simp
  then have "foldl (cordic_step x) (0x4000, 0, 0) [0..<13]
      = cordic_step x (foldl (cordic_step x) (0x4000, 0, 0) [0..<12]) 12"
    by (simp only: foldl_append foldl.simps)
  with f have "- 32768 \<le> c \<and> c \<le> 32767 \<and> - 32768 \<le> s \<and> s \<le> 32767"
    using i16_range by (auto simp: cordic_step_def Let_def split: prod.splits if_splits)
  with b [of c] b [of s] f show ?thesis by (simp add: quadrant_sincos_def)
qed

lemma sincos_bound:
  "\<bar>fst (gx_feature_angle_sincos_q14 x)\<bar> \<le> 20000 \<and> \<bar>snd (gx_feature_angle_sincos_q14 x)\<bar> \<le> 20000"
  using quadrant_bound by (auto simp: sincos_half half_sincos_def Let_def split_beta)

text \<open>
  Sine and cosine behave like sine and cosine. For every angle the fixed-point results repeat
  with the full turn \<open>0x6488\<close>, the sine is odd and the cosine even, and both stay small enough for
  the products of the matcher.
\<close>

theorem sincos_symmetries:
  "gx_feature_angle_sincos_q14 (x + k * GX_FEATURE_ANGLE_PERIOD) = gx_feature_angle_sincos_q14 x
   \<and> gx_feature_angle_sincos_q14 (- x)
       = (- fst (gx_feature_angle_sincos_q14 x), snd (gx_feature_angle_sincos_q14 x))
   \<and> \<bar>fst (gx_feature_angle_sincos_q14 x)\<bar> \<le> 20000 \<and> \<bar>snd (gx_feature_angle_sincos_q14 x)\<bar> \<le> 20000"
proof -
  have cong: "gx_feature_angle_sincos_q14 y = half_sincos n"
    if "\<bar>n\<bar> \<le> GX_FEATURE_ANGLE_HALF" "GX_FEATURE_ANGLE_PERIOD dvd n - y" for y n
    unfolding sincos_half
  proof (rule half_sincos_congruent [OF normalize_range that(1)])
    have "angle_normalize y - n = (angle_normalize y - y) - (n - y)" by simp
    then show "GX_FEATURE_ANGLE_PERIOD dvd angle_normalize y - n"
      using normalize_congruent that(2) dvd_diff by metis
  qed
  let ?n = "angle_normalize x"
  have "?n - (x + k * GX_FEATURE_ANGLE_PERIOD) = (?n - x) - k * GX_FEATURE_ANGLE_PERIOD" by simp
  then have "GX_FEATURE_ANGLE_PERIOD dvd ?n - (x + k * GX_FEATURE_ANGLE_PERIOD)"
    using normalize_congruent by (metis dvd_diff dvd_triv_right)
  then have "gx_feature_angle_sincos_q14 (x + k * GX_FEATURE_ANGLE_PERIOD) = half_sincos ?n"
    by (rule cong [OF normalize_range])
  moreover have "GX_FEATURE_ANGLE_PERIOD dvd (- ?n) - (- x)"
    using normalize_congruent [of x] by (metis dvd_minus_iff minus_diff_commute minus_diff_eq uminus_add_conv_diff diff_minus_eq_add)
  then have "gx_feature_angle_sincos_q14 (- x) = half_sincos (- ?n)"
    using normalize_range [of x] by (intro cong) simp_all
  ultimately show ?thesis using sincos_bound by (simp add: sincos_half half_sincos_minus)
qed

section \<open>Bit reversal and record forms\<close>

lemma below_32: "n < 32 \<Longrightarrow> n \<in> {0, 1, 2, 3, 4, 5, 6, 7, 8, 9, 10, 11, 12, 13, 14, 15,
    16, 17, 18, 19, 20, 21, 22, 23, 24, 25, 26, 27, 28, 29, 30, 31 :: nat}"
  by (simp only: insert_iff empty_iff) presburger

lemma bit_times_two: "bit ((v :: u32) * 2) n \<longleftrightarrow> 0 < n \<and> n < 32 \<and> bit v (n - 1)"
  by (cases n) (simp_all add: bit_double_iff mult.commute [of v])

lemma bit_reverse:
  "n < 32 \<Longrightarrow> bit (gx_feature_record_bitreverse32 v) n = bit v (31 - n)"
  by (drule below_32, elim insertE emptyE)
    (simp_all add: gx_feature_record_bitreverse32_def Let_def bit_simps bit_times_two)

lemma reverse_reverse: "gx_feature_record_bitreverse32 (gx_feature_record_bitreverse32 v) = v"
  by (rule bit_word_eqI) (simp add: bit_reverse)

text \<open>The 24 bytes that replace the raw descriptor, in both modes.\<close>

definition normalized_bytes :: "u8 list \<Rightarrow> u32 \<Rightarrow> u8 list" where
  "normalized_bytes r reversed =
     map (fst \<circ> normalized_pair r) [0..<8] @ map (snd \<circ> normalized_pair r) [0..<8]
     @ bytes32 (le32 (r ! 0x20) (r ! 0x21) (r ! 0x22) (r ! 0x23)) @ bytes32 reversed"

lemma length_normalized [simp]: "length (normalized_bytes r w) = 24"
  by (simp add: normalized_bytes_def)

lemma apply_mode_prefix:
  assumes "length r = 0x3c"
  shows "length (gx_feature_record_apply_mode r m) = 0x3c"
    and "take 0x28 (gx_feature_record_apply_mode r m) = take 0x10 r @ normalized_bytes r
           (if m then gx_feature_record_bitreverse32 (le32 (r ! 0x20) (r ! 0x21) (r ! 0x22) (r ! 0x23)) else 0)"
  using assms
  by (simp_all add: gx_feature_record_apply_mode_def Let_def mem_write_def normalized_bytes_def min_def)

lemma take_normalized: "take 20 (normalized_bytes r w) = take 20 (normalized_bytes r 0)"
  by (simp add: normalized_bytes_def)

lemma nibble_split: "(a :: u8) = (a AND 0xf0) OR (a AND 0x0f)"
proof -
  have "(0xf0 :: u8) OR 0x0f = - 1" by simp
  then show ?thesis by (metis and.right_neutral bit.conj_disj_distrib)
qed

lemma nibbles_eq:
  assumes "(a AND 0xf0) OR (b AND 0x0f) = (a' AND 0xf0) OR (b' AND (0x0f :: u8))"
  shows "a AND 0xf0 = a' AND 0xf0 \<and> b AND 0x0f = b' AND 0x0f"
proof -
  have "((x AND 0xf0) OR (y AND 0x0f)) AND 0xf0 = x AND 0xf0"
    "((x AND 0xf0) OR (y AND 0x0f)) AND 0x0f = y AND 0x0f" for x y :: u8
    by (simp_all add: bit.conj_disj_distrib2 and.assoc)
  with assms show ?thesis by metis
qed

lemma pair_injective:
  assumes "normalized_pair r p = normalized_pair r' p"
  shows "r ! (0x10 + p * 2) = r' ! (0x10 + p * 2) \<and> r ! (0x11 + p * 2) = r' ! (0x11 + p * 2)"
proof -
  let ?a = "r ! (0x10 + p * 2)" and ?b = "r ! (0x11 + p * 2)"
  let ?a' = "r' ! (0x10 + p * 2)" and ?b' = "r' ! (0x11 + p * 2)"
  from assms have "(?b AND 0xf0) OR (?a AND 0x0f) = (?b' AND 0xf0) OR (?a' AND 0x0f)
      \<and> (?a AND 0xf0) OR (?b AND 0x0f) = (?a' AND 0xf0) OR (?b' AND 0x0f)"
    by (simp add: normalized_pair_def Let_def split: if_splits)
  then have "?a AND 0xf0 = ?a' AND 0xf0" "?a AND 0x0f = ?a' AND 0x0f"
    "?b AND 0xf0 = ?b' AND 0xf0" "?b AND 0x0f = ?b' AND 0x0f" using nibbles_eq by blast+
  then show ?thesis by (metis nibble_split)
qed

lemma append_parts:
  assumes "a @ b @ c = a' @ b' @ c'" and "length a = length a'" and "length b = length b'"
  shows "a = a'" and "b = b'" and "c = c'"
  using assms by simp_all

lemma pointwise:
  "map (fst \<circ> f) xs = map (fst \<circ> g) xs \<Longrightarrow> map (snd \<circ> f) xs = map (snd \<circ> g) xs \<Longrightarrow> x \<in> set xs \<Longrightarrow> f x = g x"
  by (auto intro: prod_eqI)

lemma normalized_injective:
  assumes "take 20 (normalized_bytes r 0) = take 20 (normalized_bytes r' 0)"
    and "length r = 0x3c" and "length r' = 0x3c" and "16 \<le> i" and "i < 0x24"
  shows "r ! i = r' ! i"
proof -
  let ?w = "\<lambda>r. bytes32 (le32 (r ! 0x20) (r ! 0x21) (r ! 0x22) (r ! 0x23))"
  have "map (fst \<circ> normalized_pair r) [0..<8] @ map (snd \<circ> normalized_pair r) [0..<8] @ ?w r
      = map (fst \<circ> normalized_pair r') [0..<8] @ map (snd \<circ> normalized_pair r') [0..<8] @ ?w r'"
    using assms(1) by (simp add: normalized_bytes_def)
  from append_parts [OF this] have m: "map (fst \<circ> normalized_pair r) [0..<8] = map (fst \<circ> normalized_pair r') [0..<8]"
    "map (snd \<circ> normalized_pair r) [0..<8] = map (snd \<circ> normalized_pair r') [0..<8]" "?w r = ?w r'"
    by (simp_all only: length_map)
  have pair: "normalized_pair r p = normalized_pair r' p" if "p < 8" for p
    using that by (intro pointwise [OF m(1,2)]) simp
  show ?thesis
  proof (cases "i < 0x20")
    case True
    let ?p = "(i - 16) div 2"
    have "?p < 8" using True assms(4) by simp
    from pair_injective [OF pair [OF this]] have
      "r ! (0x10 + ?p * 2) = r' ! (0x10 + ?p * 2)" "r ! (0x11 + ?p * 2) = r' ! (0x11 + ?p * 2)" by simp_all
    moreover have "i = 0x10 + ?p * 2 \<or> i = 0x11 + ?p * 2" using assms(4) by presburger
    ultimately show ?thesis by auto
  next
    case False
    then have "i = 0x20 \<or> i = 0x21 \<or> i = 0x22 \<or> i = 0x23" using assms(5) by presburger
    with m(3) show ?thesis by auto
  qed
qed

text \<open>
  The two forms of a feature record compare. The enrollment form and the identification form of
  a record agree in the first 36 bytes, that is in position, angle, class and the 20 descriptor bytes
  the matcher looks at; and no information is lost in them: two raw records with the same form have
  the same first 36 bytes. The identification form carries the reversed last descriptor word behind.
\<close>

theorem record_forms:
  assumes "length r = 0x3c"
  shows "take 0x24 (gx_feature_record_apply_mode r True) = take 0x24 (gx_feature_record_apply_mode r False)
    \<and> take 0x10 (gx_feature_record_apply_mode r m) = take 0x10 r
    \<and> (length r' \<noteq> 0x3c \<or> take 0x24 (gx_feature_record_apply_mode r m) \<noteq> take 0x24 (gx_feature_record_apply_mode r' m')
       \<or> take 0x24 r = take 0x24 r')"
proof -
  have p: "take 0x24 (gx_feature_record_apply_mode x m) = take 0x10 x @ take 20 (normalized_bytes x 0)"
    if len: "length x = 0x3c" for x m
  proof -
    obtain w where w: "take 0x28 (gx_feature_record_apply_mode x m) = take 0x10 x @ normalized_bytes x w"
      using apply_mode_prefix(2) [OF len] by blast
    have "take 0x24 (gx_feature_record_apply_mode x m) = take 0x24 (take 0x28 (gx_feature_record_apply_mode x m))"
      by (simp add: min_def)
    also have "\<dots> = take 0x10 x @ take 20 (normalized_bytes x w)"
      unfolding w using len by (simp add: min_def)
    finally show ?thesis by (simp only: take_normalized [of x w])
  qed
  have "take 0x10 (gx_feature_record_apply_mode r m) = take 0x10 (take 0x24 (gx_feature_record_apply_mode r m))"
    by (simp add: min_def)
  then have "take 0x10 (gx_feature_record_apply_mode r m) = take 0x10 r"
    unfolding p [OF assms] using assms by (simp add: min_def)
  moreover have "take 0x24 r = take 0x24 r'" if l: "length r' = 0x3c"
    and eq: "take 0x24 (gx_feature_record_apply_mode r m) = take 0x24 (gx_feature_record_apply_mode r' m')"
  proof -
    have parts: "take 0x10 r = take 0x10 r'" "take 20 (normalized_bytes r 0) = take 20 (normalized_bytes r' 0)"
      using eq unfolding p [OF assms] p [OF l] using assms l by simp_all
    have "r ! i = r' ! i" if "i < 0x24" for i
    proof (cases "i < 16")
      case True
      then show ?thesis using parts(1) by (metis nth_take)
    next
      case False
      then show ?thesis using normalized_injective [OF parts(2) assms l] that by simp
    qed
    then show ?thesis using assms l by (intro nth_equalityI) simp_all
  qed
  ultimately show ?thesis using p [OF assms] by metis
qed

definition sample_record :: "u8 list" where
  "sample_record = map of_nat [0..<0x3c]"

theorem record_forms_witness:
  "take 0x24 (gx_feature_record_apply_mode sample_record True)
     = take 0x24 (gx_feature_record_apply_mode sample_record False)"
proof -
  have "length sample_record = 0x3c" by (simp add: sample_record_def)
  from record_forms [OF this] show ?thesis by blast
qed

end
