(* ===== verification/Ranking.thy ===== *)
theory Ranking
  imports Prelude "HOL-Library.Multiset"
begin

text \<open>
  Bounded rankings. The matcher keeps its best candidates in fixed arrays, into which a new candidate
  is inserted from the back behind all candidates that are as good. This theory has the array loop,
  the list operation it implements, and the contract: the array holds the first elements of the
  stable sort of everything offered to it. The interface of an ordering is the locale \<open>ranking\<close>.
\<close>

section \<open>The array loop\<close>

text \<open>
  \<open>while (position > 0 && x < array[position - 1]) { array[position] = array[position - 1]; --position; }\<close>,
  then \<open>array[position] = x\<close>.
\<close>

fun shift_insert :: "('a \<Rightarrow> 'a \<Rightarrow> bool) \<Rightarrow> 'a list \<Rightarrow> nat \<Rightarrow> 'a \<Rightarrow> 'a list" where
  "shift_insert better xs 0 x = xs[0 := x]"
| "shift_insert better xs (Suc p) x =
     (if better x (xs ! p) then shift_insert better (xs[Suc p := xs ! p]) p x else xs[Suc p := x])"

lemma length_shift_insert [simp]: "length (shift_insert better xs p x) = length xs"
  by (induction p arbitrary: xs) simp_all

lemma shift_insert_behind: "p < i \<Longrightarrow> shift_insert better xs p x ! i = xs ! i"
  by (induction p arbitrary: xs) simp_all

section \<open>Insertion into a ranked list\<close>

fun rank_insert :: "('a \<Rightarrow> 'a \<Rightarrow> bool) \<Rightarrow> 'a \<Rightarrow> 'a list \<Rightarrow> 'a list" where
  "rank_insert better x [] = [x]"
| "rank_insert better x (y # ys) = (if better x y then x # y # ys else y # rank_insert better x ys)"

text \<open>The stable sort: later elements go behind equally good earlier ones.\<close>

definition rank_sort :: "('a \<Rightarrow> 'a \<Rightarrow> bool) \<Rightarrow> 'a list \<Rightarrow> 'a list" where
  "rank_sort better xs = foldl (\<lambda>ys x. rank_insert better x ys) [] xs"

definition rank_keep :: "('a \<Rightarrow> 'a \<Rightarrow> bool) \<Rightarrow> nat \<Rightarrow> 'a list \<Rightarrow> 'a \<Rightarrow> 'a list" where
  "rank_keep better cap ys x = take cap (rank_insert better x ys)"

lemma length_rank_insert [simp]: "length (rank_insert better x ys) = Suc (length ys)"
  by (induction ys) simp_all

lemma mset_rank_insert [simp]: "mset (rank_insert better x ys) = add_mset x (mset ys)"
  by (induction ys) simp_all

lemma set_rank_insert [simp]: "set (rank_insert better x ys) = insert x (set ys)"
  by (induction ys) auto

lemma rank_insert_behind: "\<forall>y \<in> set ys. \<not> better x y \<Longrightarrow> rank_insert better x ys = ys @ [x]"
  by (induction ys) simp_all

lemma rank_insert_snoc:
  "better x y \<Longrightarrow> rank_insert better x (ys @ [y]) = rank_insert better x ys @ [y]"
  by (induction ys) simp_all

lemma take_rank_insert: "take cap (rank_insert better x (take cap ys)) = take cap (rank_insert better x ys)"
proof (induction ys arbitrary: cap)
  case (Cons y ys)
  show ?case
  proof (cases cap)
    case (Suc n)
    then show ?thesis using Cons.IH [of n] by (simp add: take_Cons')
  qed simp
qed simp

lemma mset_rank_sort [simp]: "mset (rank_sort better xs) = mset xs"
proof -
  have "mset (foldl (\<lambda>ys x. rank_insert better x ys) zs xs) = mset zs + mset xs" for zs
    by (induction xs arbitrary: zs) simp_all
  then show ?thesis by (simp add: rank_sort_def)
qed

lemma set_rank_sort [simp]: "set (rank_sort better xs) = set xs"
  by (metis mset_rank_sort set_mset_mset)

lemma length_rank_sort [simp]: "length (rank_sort better xs) = length xs"
  by (metis mset_rank_sort size_mset)

lemma rank_sort_snoc: "rank_sort better (xs @ [x]) = rank_insert better x (rank_sort better xs)"
  by (simp add: rank_sort_def)

text \<open>Keeping only the first \<open>cap\<close> after each insertion gives the first \<open>cap\<close> of the sorted list.\<close>

lemma foldl_rank_keep: "foldl (rank_keep better cap) [] xs = take cap (rank_sort better xs)"
proof (induction xs rule: rev_induct)
  case Nil
  then show ?case by (simp add: rank_sort_def)
next
  case (snoc x xs)
  then show ?case by (simp add: rank_keep_def take_rank_insert rank_sort_snoc)
qed

text \<open>
  The contract of an array with \<open>used\<close> entries in use that keeps the best \<open>cap\<close> of the elements offered
  to it so far.
\<close>

definition holds_best :: "('a \<Rightarrow> 'a \<Rightarrow> bool) \<Rightarrow> nat \<Rightarrow> 'a list \<times> nat \<Rightarrow> 'a list \<Rightarrow> bool" where
  "holds_best better cap st offered \<longleftrightarrow>
     cap \<le> length (fst st) \<and> snd st = min cap (length offered)
     \<and> take (snd st) (fst st) = take cap (rank_sort better offered)"

lemma holds_best_empty: "cap \<le> length xs \<Longrightarrow> holds_best better cap (xs, 0) []"
  by (simp add: holds_best_def rank_sort_def)

lemma take_rank_sort_snoc:
  "take cap (rank_sort better (xs @ [x])) = rank_keep better cap (take cap (rank_sort better xs)) x"
  by (simp add: rank_sort_snoc rank_keep_def take_rank_insert)

section \<open>Orderings\<close>

locale ranking =
  fixes better :: "'a \<Rightarrow> 'a \<Rightarrow> bool"
  assumes better_irrefl: "\<not> better x x"
    and better_trans: "better x y \<Longrightarrow> better y z \<Longrightarrow> better x z"
    and better_weak: "better x y \<Longrightarrow> better x z \<or> better z y"
begin

abbreviation ranked :: "'a list \<Rightarrow> bool" where
  "ranked \<equiv> sorted_wrt (\<lambda>a b. \<not> better b a)"

lemma better_asym: "better x y \<Longrightarrow> \<not> better y x"
  using better_irrefl better_trans by blast

lemma ranked_insert: "ranked ys \<Longrightarrow> ranked (rank_insert better x ys)"
  by (induction ys) (auto dest: better_asym better_trans)

lemma ranked_sort: "ranked (rank_sort better xs)"
  by (induction xs rule: rev_induct) (simp_all add: rank_sort_def ranked_insert)

lemma rank_insert_last:
  assumes "ranked (ys @ [y])" and "\<not> better x y"
  shows "rank_insert better x (ys @ [y]) = ys @ [y, x]"
proof -
  have "\<forall>z \<in> set (ys @ [y]). \<not> better x z"
    using assms better_weak by (auto simp: sorted_wrt_append)
  then show ?thesis by (simp add: rank_insert_behind)
qed

lemma shift_insert_ranks:
  "ranked (take p xs) \<Longrightarrow> p < length xs \<Longrightarrow>
   take (Suc p) (shift_insert better xs p x) = rank_insert better x (take p xs)"
proof (induction p arbitrary: xs)
  case 0
  then show ?case by (cases xs) simp_all
next
  case (Suc p)
  have t: "take (Suc p) xs = take p xs @ [xs ! p]"
    using Suc.prems(2) by (simp add: take_Suc_conv_app_nth)
  show ?case
  proof (cases "better x (xs ! p)")
    case True
    let ?xs = "xs[Suc p := xs ! p]"
    have "ranked (take p ?xs)" using Suc.prems(1) unfolding t by (simp add: sorted_wrt_append)
    moreover have "p < length ?xs" using Suc.prems(2) by simp
    ultimately have "take (Suc p) (shift_insert better ?xs p x) = rank_insert better x (take p xs)"
      using Suc.IH [of ?xs] by simp
    moreover have "shift_insert better ?xs p x ! Suc p = xs ! p"
      using Suc.prems(2) by (simp add: shift_insert_behind)
    ultimately have "take (Suc (Suc p)) (shift_insert better ?xs p x) = rank_insert better x (take p xs) @ [xs ! p]"
      using Suc.prems(2) by (simp add: take_Suc_conv_app_nth [of "Suc p"])
    then show ?thesis using True by (simp add: t rank_insert_snoc)
  next
    case False
    have "take (Suc (Suc p)) (xs[Suc p := x]) = take (Suc p) xs @ [x]"
      using Suc.prems(2) by (simp add: take_Suc_conv_app_nth [of "Suc p"])
    then show ?thesis using False Suc.prems(1) by (simp add: t rank_insert_last)
  qed
qed

text \<open>A place in the array is free: the new element is ranked among the present ones.\<close>

lemma insert_free:
  assumes "holds_best better cap (xs, n) offered" and "n < cap"
  shows "holds_best better cap (shift_insert better xs n x, n + 1) (offered @ [x])"
proof -
  have h: "cap \<le> length xs" "n = length offered" "take n xs = take cap (rank_sort better offered)"
    using assms by (auto simp: holds_best_def)
  have "take (Suc n) (shift_insert better xs n x) = rank_insert better x (take n xs)"
    using h assms(2) ranked_sort by (intro shift_insert_ranks) (simp_all add: sorted_wrt_take)
  moreover have "length (rank_insert better x (take n xs)) \<le> cap" using h assms(2) by simp
  ultimately show ?thesis using h assms(2)
    by (simp add: holds_best_def take_rank_sort_snoc rank_keep_def)
qed

text \<open>The array is full: the new element displaces the last one, or it is no better and refused.\<close>

lemma insert_full:
  assumes "holds_best better cap (xs, n) offered" and "\<not> n < cap" and "0 < cap"
  shows "better x (xs ! (cap - 1)) \<Longrightarrow>
      holds_best better cap (shift_insert better xs (cap - 1) x, n) (offered @ [x])"
    and "\<not> better x (xs ! (cap - 1)) \<Longrightarrow> holds_best better cap (xs, n) (offered @ [x])"
proof -
  obtain k where k: "cap = Suc k" using assms(3) by (cases cap) auto
  have h: "cap \<le> length xs" "n = cap" "cap \<le> length offered" "take cap xs = take cap (rank_sort better offered)"
    using assms by (auto simp: holds_best_def)
  then have t: "take cap xs = take k xs @ [xs ! k]" using k by (simp add: take_Suc_conv_app_nth)
  have r: "ranked (take k xs @ [xs ! k])"
    using ranked_sort [of offered] unfolding t [symmetric] h(4) by (rule sorted_wrt_take)
  have goal: "holds_best better cap (ys, n) (offered @ [x])"
    if "length ys = length xs" "take cap ys = take cap (rank_insert better x (take k xs @ [xs ! k]))" for ys
    using that h unfolding take_rank_sort_snoc holds_best_def rank_keep_def t [symmetric] by simp
  show "holds_best better cap (shift_insert better xs (cap - 1) x, n) (offered @ [x])"
    if "better x (xs ! (cap - 1))"
  proof (rule goal)
    have "take (Suc k) (shift_insert better xs k x) = rank_insert better x (take k xs)"
      using r h k by (intro shift_insert_ranks) (simp_all add: sorted_wrt_append)
    then show "take cap (shift_insert better xs (cap - 1) x)
        = take cap (rank_insert better x (take k xs @ [xs ! k]))"
      using that h k by (simp add: rank_insert_snoc)
  qed simp
  show "holds_best better cap (xs, n) (offered @ [x])" if "\<not> better x (xs ! (cap - 1))"
  proof (rule goal)
    show "take cap xs = take cap (rank_insert better x (take k xs @ [xs ! k]))"
      using that k h(1) rank_insert_last [OF r] by (simp add: t [unfolded k])
  qed simp
qed

text \<open>What is kept is at least as good as what is left out.\<close>

lemma kept_best:
  assumes "a \<in> set (take cap (rank_sort better xs))" and "b \<in> set (drop cap (rank_sort better xs))"
  shows "\<not> better b a"
  using ranked_sort [of xs] assms by (metis append_take_drop_id sorted_wrt_append)

lemma head_best:
  assumes "rank_sort better xs = a # ys" and "b \<in> set xs"
  shows "\<not> better b a"
proof -
  have "b \<in> set (a # ys)" using assms set_rank_sort by metis
  then show ?thesis using ranked_sort [of xs] assms(1) better_irrefl by auto
qed

end

end
