(* ===== verification/Matcher.thy ===== *)
theory Matcher
  imports Descriptor Primitives Ranking
begin

text \<open>
  The fingerprint matcher, \<open>src/gx_matcher.c\<close>: it pairs the feature records of a template sample with
  those of a probe under the rigid motions suggested by the best descriptor pairs, and turns the best
  of them into a score in sixteen-bit fixed point. Coordinates and angles (\<open>int32_t\<close>, below \<open>2 ^ 18\<close>
  in absolute value here) are integers, record indices and pair counts (at most 120) natural numbers;
  ratios and scores keep their width.
\<close>

section \<open>Data\<close>

definition GX_Q16_ONE :: u32 where "GX_Q16_ONE = 65536"
definition GX_MATCH_MAX_RECORDS :: nat where "GX_MATCH_MAX_RECORDS = GX5125_EXTRACTOR_MAX_RECORDS"
definition GX_MATCH_MAX_SEEDS :: nat where "GX_MATCH_MAX_SEEDS = 256"
definition GX_MATCH_DESCRIPTOR_BITS :: u32 where
  "GX_MATCH_DESCRIPTOR_BITS = of_nat GX5125_MATCHER_DESCRIPTOR_BYTES * 8"
definition GX_FEATURE_RECORD_BYTES :: nat where "GX_FEATURE_RECORD_BYTES = 0x3c"
definition GX_FEATURE_RECORD_X_OFFSET :: nat where "GX_FEATURE_RECORD_X_OFFSET = 0x02"
definition GX_FEATURE_RECORD_Y_OFFSET :: nat where "GX_FEATURE_RECORD_Y_OFFSET = 0x04"
definition GX_FEATURE_RECORD_ANGLE_OFFSET :: nat where "GX_FEATURE_RECORD_ANGLE_OFFSET = 0x06"
definition GX_FEATURE_RECORD_CLASS_OFFSET :: nat where "GX_FEATURE_RECORD_CLASS_OFFSET = 0x0c"
definition GX_FEATURE_RECORD_DESCRIPTOR_OFFSET :: nat where "GX_FEATURE_RECORD_DESCRIPTOR_OFFSET = 0x10"

lemmas matcher_consts = descriptor_consts GX_Q16_ONE_def
  GX_MATCH_MAX_RECORDS_def GX_MATCH_MAX_SEEDS_def
  GX_MATCH_DESCRIPTOR_BITS_def GX_FEATURE_RECORD_BYTES_def GX_FEATURE_RECORD_X_OFFSET_def
  GX_FEATURE_RECORD_Y_OFFSET_def GX_FEATURE_RECORD_ANGLE_OFFSET_def GX_FEATURE_RECORD_CLASS_OFFSET_def
  GX_FEATURE_RECORD_DESCRIPTOR_OFFSET_def GX5125_EXTRACTOR_MAX_RECORDS_def

datatype gx5125_matcher_status =
    GX5125_MATCHER_OK
  | GX5125_MATCHER_ERR_ARGUMENT
  | GX5125_MATCHER_ERR_FEATURE
  | GX5125_MATCHER_ERR_MEMORY
  | GX5125_MATCHER_ERR_STATE

record gx5125_matcher_config =
  mc_maximum_seed_pairs :: u32
  mc_position_radius_q8 :: u32
  mc_angle_tolerance :: u32
  mc_descriptor_max_hamming :: u32
  mc_minimum_matched_pairs :: u32
  mc_consensus_sample_count :: u32
  mc_decision_threshold_q16 :: u32

text \<open>\<open>descriptor\<close> is the memory the pointer points to, up to the end of the records.\<close>

record gx_match_record =
  mr_x_q8 :: int
  mr_y_q8 :: int
  mr_angle :: int
  mr_class_value :: u32
  mr_descriptor :: "u8 list"

record gx_match_seed =
  ms_template_index :: nat
  ms_probe_index :: nat
  ms_descriptor_hamming :: u32

record gx_match_hypothesis =
  mh_score_q16 :: u32
  mh_matched_pairs :: nat
  mh_support_q16 :: u32
  mh_descriptor_similarity_q16 :: u32
  mh_spatial_similarity_q16 :: u32
  mh_angle_similarity_q16 :: u32

record gx5125_match_result =
  re_score_q16 :: u32
  re_best_sample_score_q16 :: u32
  re_second_sample_score_q16 :: u32
  re_third_sample_score_q16 :: u32
  re_consensus_sample_count :: u32
  re_best_sample_index :: nat
  re_matched_pairs :: nat
  re_template_records :: u32
  re_probe_records :: u32
  re_support_q16 :: u32
  re_descriptor_similarity_q16 :: u32
  re_spatial_similarity_q16 :: u32
  re_angle_similarity_q16 :: u32
  re_threshold_q16 :: u32
  re_decision_valid :: bool
  re_matched :: bool

definition zero_hypothesis :: gx_match_hypothesis where
  "zero_hypothesis =
     \<lparr>mh_score_q16 = 0, mh_matched_pairs = 0, mh_support_q16 = 0, mh_descriptor_similarity_q16 = 0,
      mh_spatial_similarity_q16 = 0, mh_angle_similarity_q16 = 0\<rparr>"

definition zero_match_result :: gx5125_match_result where
  "zero_match_result =
     \<lparr>re_score_q16 = 0, re_best_sample_score_q16 = 0, re_second_sample_score_q16 = 0,
      re_third_sample_score_q16 = 0, re_consensus_sample_count = 0, re_best_sample_index = 0,
      re_matched_pairs = 0, re_template_records = 0, re_probe_records = 0, re_support_q16 = 0,
      re_descriptor_similarity_q16 = 0, re_spatial_similarity_q16 = 0, re_angle_similarity_q16 = 0,
      re_threshold_q16 = 0, re_decision_valid = False, re_matched = False\<rparr>"

section \<open>Records\<close>

definition parse_record :: "u8 list \<Rightarrow> nat \<Rightarrow> gx_match_record" where
  "parse_record records index =
     (let r = drop (index * GX_FEATURE_RECORD_BYTES) records
      in \<lparr>mr_x_q8 = uint (load_u16 (drop GX_FEATURE_RECORD_X_OFFSET r)),
          mr_y_q8 = uint (load_u16 (drop GX_FEATURE_RECORD_Y_OFFSET r)),
          mr_angle = uint (load_u16 (drop GX_FEATURE_RECORD_ANGLE_OFFSET r)),
          mr_class_value = load_u32 (drop GX_FEATURE_RECORD_CLASS_OFFSET r),
          mr_descriptor = drop GX_FEATURE_RECORD_DESCRIPTOR_OFFSET r\<rparr>)"

definition parse_records :: "cbuf \<Rightarrow> u32 \<Rightarrow> gx5125_matcher_status + gx_match_record list" where
  "parse_records records record_count =
     (if is_null records \<or> record_count = 0 \<or> unat record_count > GX_MATCH_MAX_RECORDS
         \<or> cbuf_len records \<noteq> unat record_count * GX_FEATURE_RECORD_BYTES
      then Inl GX5125_MATCHER_ERR_FEATURE
      else Inr (map (parse_record (cbuf_bytes records)) [0..<unat record_count]))"

section \<open>Seeds\<close>

abbreviation seed_better :: "gx_match_seed \<Rightarrow> gx_match_seed \<Rightarrow> bool" where
  "seed_better s t \<equiv> ms_descriptor_hamming s < ms_descriptor_hamming t"

text \<open>
  The array and the number of used entries. The loop is \<open>shift_insert\<close>; its guard
  \<open>position < capacity\<close> always holds, as it starts below the capacity.
\<close>

fun seed_shift :: "nat \<Rightarrow> gx_match_seed list \<Rightarrow> nat \<Rightarrow> gx_match_seed \<Rightarrow> gx_match_seed list" where
  "seed_shift capacity seeds 0 s = seeds[0 := s]"
| "seed_shift capacity seeds (Suc p) s =
     (if seed_better s (seeds ! p)
      then seed_shift capacity (if Suc p < capacity then seeds[Suc p := seeds ! p] else seeds) p s
      else seeds[Suc p := s])"

definition seed_insert ::
    "nat \<Rightarrow> gx_match_seed list \<times> nat \<Rightarrow> gx_match_seed \<Rightarrow> gx_match_seed list \<times> nat" where
  "seed_insert capacity st s =
     (case st of (seeds, used) \<Rightarrow>
        if capacity = 0 then (seeds, used)
        else if used < capacity then (seed_shift capacity seeds used s, used + 1)
        else if \<not> seed_better s (seeds ! (capacity - 1)) then (seeds, used)
        else (seed_shift capacity seeds (capacity - 1) s, used))"

definition zero_seed :: gx_match_seed where
  "zero_seed = \<lparr>ms_template_index = 0, ms_probe_index = 0, ms_descriptor_hamming = 0\<rparr>"

text \<open>The double loop over the records of template and probe.\<close>

definition collect_seeds ::
    "gx5125_matcher_config \<Rightarrow> gx_match_record list \<Rightarrow> gx_match_record list \<Rightarrow> gx_match_seed list \<times> nat" where
  "collect_seeds config template_records probe_records =
     foldl (\<lambda>st i. foldl (\<lambda>st j.
         let hamming = descriptor_hamming (mr_descriptor (template_records ! i)) (mr_descriptor (probe_records ! j))
         in if hamming \<le> mc_descriptor_max_hamming config
            then seed_insert (unat (mc_maximum_seed_pairs config)) st
                   \<lparr>ms_template_index = i, ms_probe_index = j, ms_descriptor_hamming = hamming\<rparr>
            else st) st [0..<length probe_records])
       (replicate GX_MATCH_MAX_SEEDS zero_seed, 0) [0..<length template_records]"

section \<open>A hypothesis and its score\<close>

definition q16_ratio :: "u64 \<Rightarrow> u64 \<Rightarrow> u32" where
  "q16_ratio numerator denominator =
     (if denominator = 0 then 0
      else if numerator \<ge> denominator then GX_Q16_ONE
      else ucast ((numerator * ucast GX_Q16_ONE) div denominator))"

definition distance_squared :: "int \<times> int \<Rightarrow> gx_match_record \<Rightarrow> u64" where
  "distance_squared transformed probe_record =
     (let dx = mr_x_q8 probe_record - fst transformed;
          dy = mr_y_q8 probe_record - snd transformed
      in of_int (dx * dx + dy * dy))"

definition angle_error :: "int \<Rightarrow> gx_match_record \<Rightarrow> gx_match_record \<Rightarrow> u32" where
  "angle_error delta_angle template_record probe_record =
     abs_i32_u32 (normalize_angle ((mr_angle probe_record - mr_angle template_record) - delta_angle))"

text \<open>
  The body of the inner loop for an unused probe record: the score of the pair and its descriptor,
  spatial and angle parts. \<open>transformed\<close> is the position the motion gives to the template record.
\<close>

definition score_pair ::
    "gx5125_matcher_config \<Rightarrow> int \<Rightarrow> int \<times> int \<Rightarrow> gx_match_record \<Rightarrow> gx_match_record \<Rightarrow>
     (u32 \<times> u32 \<times> u32 \<times> u32) option" where
  "score_pair config delta_angle transformed template_record probe_record =
     (let distance = distance_squared transformed probe_record;
          radius_squared = ucast (mc_position_radius_q8 config) * ucast (mc_position_radius_q8 config);
          error = angle_error delta_angle template_record probe_record
      in if distance > radius_squared \<or> error > mc_angle_tolerance config then None
         else if (mr_class_value template_record AND 0xff) \<noteq> (mr_class_value probe_record AND 0xff)
                 \<and> mr_class_value template_record \<noteq> 0 \<and> mr_class_value probe_record \<noteq> 0 then None
         else
           let hamming = descriptor_hamming (mr_descriptor template_record) (mr_descriptor probe_record)
           in if hamming > mc_descriptor_max_hamming config then None
              else
                let descriptor_similarity =
                      q16_ratio (ucast (GX_MATCH_DESCRIPTOR_BITS - hamming)) (ucast GX_MATCH_DESCRIPTOR_BITS);
                    spatial_similarity = GX_Q16_ONE - q16_ratio distance radius_squared;
                    angle_similarity =
                      GX_Q16_ONE - q16_ratio (ucast error) (ucast (mc_angle_tolerance config))
                in Some ((descriptor_similarity * 7 + spatial_similarity * 2 + angle_similarity) div 10,
                         descriptor_similarity, spatial_similarity, angle_similarity))"

text \<open>The inner loop: the best unused probe record and its four scores.\<close>

definition best_pair_step ::
    "gx5125_matcher_config \<Rightarrow> int \<Rightarrow> int \<times> int \<Rightarrow> gx_match_record \<Rightarrow> gx_match_record list \<Rightarrow> bool list \<Rightarrow>
     nat option \<times> u32 \<times> u32 \<times> u32 \<times> u32 \<Rightarrow> nat \<Rightarrow> nat option \<times> u32 \<times> u32 \<times> u32 \<times> u32" where
  "best_pair_step config delta_angle transformed template_record probe_records probe_used best j =
     (if probe_used ! j then best
      else case score_pair config delta_angle transformed template_record (probe_records ! j) of
             None \<Rightarrow> best
           | Some (pair_score, parts) \<Rightarrow>
               if pair_score > fst (snd best) then (Some j, pair_score, parts) else best)"

definition best_pair ::
    "gx5125_matcher_config \<Rightarrow> int \<Rightarrow> int \<times> int \<Rightarrow> gx_match_record \<Rightarrow> gx_match_record list \<Rightarrow> bool list \<Rightarrow>
     nat option \<times> u32 \<times> u32 \<times> u32 \<times> u32" where
  "best_pair config delta_angle transformed template_record probe_records probe_used =
     foldl (best_pair_step config delta_angle transformed template_record probe_records probe_used)
       (None, 0, 0, 0, 0) [0..<length probe_records]"

text \<open>The motion that carries the template record of the seed to the probe record of the seed.\<close>

definition transform :: "gx_match_record \<Rightarrow> gx_match_record \<Rightarrow> int \<Rightarrow> gx_match_record \<Rightarrow> int \<times> int" where
  "transform template_seed probe_seed delta_angle template_record =
     (let (sine_q14, cosine_q14) = gx_feature_angle_sincos_q14 delta_angle;
          relative_x = mr_x_q8 template_record - mr_x_q8 template_seed;
          relative_y = mr_y_q8 template_record - mr_y_q8 template_seed
      in (mr_x_q8 probe_seed + drop_bit 14 (relative_x * cosine_q14 - relative_y * sine_q14),
          mr_y_q8 probe_seed + drop_bit 14 (relative_x * sine_q14 + relative_y * cosine_q14)))"

record match_totals =
  mt_probe_used :: "bool list"
  mt_matched :: nat
  mt_descriptor_total :: u64
  mt_spatial_total :: u64
  mt_angle_total :: u64

definition match_step ::
    "gx5125_matcher_config \<Rightarrow> gx_match_record \<Rightarrow> gx_match_record \<Rightarrow> gx_match_record list \<Rightarrow>
     match_totals \<Rightarrow> gx_match_record \<Rightarrow> match_totals" where
  "match_step config template_seed probe_seed probe_records t template_record =
     (let delta_angle = normalize_angle (mr_angle probe_seed - mr_angle template_seed)
      in case best_pair config delta_angle (transform template_seed probe_seed delta_angle template_record)
                template_record probe_records (mt_probe_used t) of
           (None, _) \<Rightarrow> t
         | (Some best_probe, _, best_descriptor, best_spatial, best_angle) \<Rightarrow>
             \<lparr>mt_probe_used = (mt_probe_used t)[best_probe := True], mt_matched = mt_matched t + 1,
              mt_descriptor_total = mt_descriptor_total t + ucast best_descriptor,
              mt_spatial_total = mt_spatial_total t + ucast best_spatial,
              mt_angle_total = mt_angle_total t + ucast best_angle\<rparr>)"

definition match_records ::
    "gx5125_matcher_config \<Rightarrow> gx_match_record \<Rightarrow> gx_match_record \<Rightarrow> gx_match_record list \<Rightarrow>
     gx_match_record list \<Rightarrow> match_totals" where
  "match_records config template_seed probe_seed template_records probe_records =
     foldl (match_step config template_seed probe_seed probe_records)
       \<lparr>mt_probe_used = replicate GX_MATCH_MAX_RECORDS False, mt_matched = 0,
        mt_descriptor_total = 0, mt_spatial_total = 0, mt_angle_total = 0\<rparr> template_records"

definition evaluate_hypothesis ::
    "gx_match_record list \<Rightarrow> gx_match_record list \<Rightarrow> gx5125_matcher_config \<Rightarrow> gx_match_seed \<Rightarrow>
     gx_match_hypothesis" where
  "evaluate_hypothesis template_records probe_records config seed =
     (let t = match_records config (template_records ! ms_template_index seed)
                (probe_records ! ms_probe_index seed) template_records probe_records;
          matched = mt_matched t;
          result = zero_hypothesis\<lparr>mh_matched_pairs := matched\<rparr>
      in if matched < unat (mc_minimum_matched_pairs config) then result
         else
           let support = q16_ratio (of_nat matched)
                 (of_nat (if length template_records < length probe_records
                          then length template_records else length probe_records));
               descriptor = ucast (mt_descriptor_total t div of_nat matched);
               spatial = ucast (mt_spatial_total t div of_nat matched);
               angle = ucast (mt_angle_total t div of_nat matched)
           in result\<lparr>mh_support_q16 := support, mh_descriptor_similarity_q16 := descriptor,
                     mh_spatial_similarity_q16 := spatial, mh_angle_similarity_q16 := angle,
                     mh_score_q16 := (descriptor * 65 + spatial * 15 + angle * 10 + support * 10) div 100\<rparr>)"

section \<open>Scoring one sample\<close>

definition gx5125_matcher_default_config :: gx5125_matcher_config where
  "gx5125_matcher_default_config =
     \<lparr>mc_maximum_seed_pairs = 96, mc_position_radius_q8 = 7 * 256,
      mc_angle_tolerance = of_int (GX_MATCH_ANGLE_PERIOD div 8), mc_descriptor_max_hamming = 56,
      mc_minimum_matched_pairs = 8, mc_consensus_sample_count = 3, mc_decision_threshold_q16 = 0\<rparr>"

definition matcher_config_valid :: "gx5125_matcher_config \<Rightarrow> bool" where
  "matcher_config_valid config \<longleftrightarrow>
     mc_maximum_seed_pairs config > 0 \<and> unat (mc_maximum_seed_pairs config) \<le> GX_MATCH_MAX_SEEDS
     \<and> mc_position_radius_q8 config > 0
     \<and> mc_angle_tolerance config > 0 \<and> mc_angle_tolerance config \<le> of_int GX_MATCH_ANGLE_HALF
     \<and> mc_descriptor_max_hamming config \<le> GX_MATCH_DESCRIPTOR_BITS
     \<and> mc_minimum_matched_pairs config > 0
     \<and> unat (mc_minimum_matched_pairs config) \<le> GX_MATCH_MAX_RECORDS
     \<and> mc_consensus_sample_count config > 0 \<and> mc_consensus_sample_count config \<le> 3
     \<and> mc_decision_threshold_q16 config \<le> GX_Q16_ONE"

definition resolve_config :: "gx5125_matcher_config option \<Rightarrow> gx5125_matcher_config" where
  "resolve_config config =
     (case config of None \<Rightarrow> gx5125_matcher_default_config | Some c \<Rightarrow> c)"

definition better_hypothesis :: "gx_match_hypothesis \<Rightarrow> gx_match_hypothesis \<Rightarrow> gx_match_hypothesis" where
  "better_hypothesis best candidate =
     (if mh_score_q16 candidate > mh_score_q16 best
         \<or> (mh_score_q16 candidate = mh_score_q16 best
            \<and> mh_matched_pairs candidate > mh_matched_pairs best)
      then candidate else best)"

definition best_hypothesis ::
    "gx5125_matcher_config \<Rightarrow> gx_match_record list \<Rightarrow> gx_match_record list \<Rightarrow> gx_match_hypothesis" where
  "best_hypothesis config template_records probe_records =
     (let (seeds, seed_count) = collect_seeds config template_records probe_records
      in foldl (\<lambda>best k. better_hypothesis best
                  (evaluate_hypothesis template_records probe_records config (seeds ! k)))
           zero_hypothesis [0..<seed_count])"

text \<open>The last assignments, from the best hypothesis to the result.\<close>

definition result_of ::
    "gx5125_matcher_config \<Rightarrow> u32 \<Rightarrow> u32 \<Rightarrow> gx_match_hypothesis \<Rightarrow> gx5125_match_result" where
  "result_of config template_count probe_count best =
     \<lparr>re_score_q16 = mh_score_q16 best, re_best_sample_score_q16 = mh_score_q16 best,
      re_second_sample_score_q16 = 0, re_third_sample_score_q16 = 0,
      re_consensus_sample_count = (if mh_score_q16 best \<noteq> 0 then 1 else 0),
      re_best_sample_index = 0, re_matched_pairs = mh_matched_pairs best,
      re_template_records = template_count, re_probe_records = probe_count,
      re_support_q16 = mh_support_q16 best,
      re_descriptor_similarity_q16 = mh_descriptor_similarity_q16 best,
      re_spatial_similarity_q16 = mh_spatial_similarity_q16 best,
      re_angle_similarity_q16 = mh_angle_similarity_q16 best,
      re_threshold_q16 = mc_decision_threshold_q16 config,
      re_decision_valid = (mc_decision_threshold_q16 config \<noteq> 0),
      re_matched = (mc_decision_threshold_q16 config \<noteq> 0
        \<and> mh_score_q16 best \<ge> mc_decision_threshold_q16 config
        \<and> mh_matched_pairs best \<ge> unat (mc_minimum_matched_pairs config))\<rparr>"

definition gx5125_matcher_score_views ::
    "gx5125_enrollment_sample \<Rightarrow> gx5125_feature_view \<Rightarrow> gx5125_matcher_config option \<Rightarrow>
     gx5125_match_result \<Rightarrow> (gx5125_matcher_status + unit) \<times> gx5125_match_result" where
  "gx5125_matcher_score_views template_sample probe config result =
     (let config = resolve_config config
      in if \<not> matcher_config_valid config then (Inl GX5125_MATCHER_ERR_ARGUMENT, result)
         else case parse_records (Buf (es_records template_sample)) (es_record_count template_sample) of
                Inl rc \<Rightarrow> (Inl rc, zero_match_result)
              | Inr template_records \<Rightarrow>
                  case parse_records (fv_records probe) (fv_record_count probe) of
                    Inl rc \<Rightarrow> (Inl rc, zero_match_result)
                  | Inr probe_records \<Rightarrow>
                      (Inr (), result_of config (es_record_count template_sample) (fv_record_count probe)
                                 (best_hypothesis config template_records probe_records)))"

section \<open>Scoring an enrollment\<close>

abbreviation top_better :: "gx5125_match_result \<Rightarrow> gx5125_match_result \<Rightarrow> bool" where
  "top_better a b \<equiv> re_score_q16 a > re_score_q16 b
     \<or> (re_score_q16 a = re_score_q16 b \<and> re_matched_pairs a > re_matched_pairs b)"

text \<open>One candidate goes into the array of the three best.\<close>

definition top_insert ::
    "gx5125_match_result list \<times> nat \<Rightarrow> gx5125_match_result \<Rightarrow> gx5125_match_result list \<times> nat" where
  "top_insert st candidate =
     (case st of (best3, top_count) \<Rightarrow>
        if top_count < 3 then (shift_insert top_better best3 top_count candidate, top_count + 1)
        else if re_score_q16 candidate < re_score_q16 (best3 ! 2)
                \<or> (re_score_q16 candidate = re_score_q16 (best3 ! 2)
                   \<and> re_matched_pairs candidate \<le> re_matched_pairs (best3 ! 2))
        then (best3, top_count)
        else (shift_insert top_better best3 2 candidate, top_count))"

fun score_samples ::
    "gx5125_enrollment \<Rightarrow> gx5125_feature_view \<Rightarrow> gx5125_matcher_config \<Rightarrow> nat list \<Rightarrow>
     gx5125_match_result list \<times> nat \<Rightarrow> gx5125_matcher_status + gx5125_match_result list \<times> nat" where
  "score_samples e probe config [] st = Inr st"
| "score_samples e probe config (index # indices) st =
     (case gx5125_enrollment_get_sample_view e index of
        Inl _ \<Rightarrow> Inl GX5125_MATCHER_ERR_STATE
      | Inr sample \<Rightarrow>
          (case gx5125_matcher_score_views sample probe (Some config) zero_match_result of
             (Inl rc, _) \<Rightarrow> Inl rc
           | (Inr _, candidate) \<Rightarrow>
               score_samples e probe config indices
                 (top_insert st (candidate\<lparr>re_best_sample_index := index\<rparr>))))"

text \<open>The consensus of the best samples.\<close>

definition consensus ::
    "gx5125_matcher_config \<Rightarrow> gx5125_match_result list \<times> nat \<Rightarrow> gx5125_match_result" where
  "consensus config st =
     (let (best3, top_count) = st;
          requested = (if unat (mc_consensus_sample_count config) > top_count then of_nat top_count
                       else mc_consensus_sample_count config);
          s0 = re_score_q16 (best3 ! 0); s1 = re_score_q16 (best3 ! 1); s2 = re_score_q16 (best3 ! 2);
          score = (if requested = 1 then s0
                   else if requested = 2 then (s0 * 5 + s1 * 3) div 8
                   else (s0 * 5 + s1 * 3 + s2 * 2) div 10);
          decision_valid = (mc_decision_threshold_q16 config \<noteq> 0
                            \<and> requested = mc_consensus_sample_count config)
      in (best3 ! 0)\<lparr>re_best_sample_score_q16 := s0,
           re_second_sample_score_q16 := (if top_count > 1 then s1 else 0),
           re_third_sample_score_q16 := (if top_count > 2 then s2 else 0),
           re_consensus_sample_count := requested, re_score_q16 := score,
           re_threshold_q16 := mc_decision_threshold_q16 config,
           re_decision_valid := decision_valid,
           re_matched := (decision_valid \<and> score \<ge> mc_decision_threshold_q16 config
             \<and> re_matched_pairs (best3 ! 0) \<ge> unat (mc_minimum_matched_pairs config))\<rparr>)"

text \<open>The probe is \<open>None\<close> when the feature object gives no view.\<close>

definition gx5125_matcher_score_enrollment ::
    "gx5125_enrollment \<Rightarrow> gx5125_feature_view option \<Rightarrow> gx5125_matcher_config option \<Rightarrow>
     gx5125_match_result \<Rightarrow> (gx5125_matcher_status + unit) \<times> gx5125_match_result" where
  "gx5125_matcher_score_enrollment e probe_feature config result =
     (let config = resolve_config config
      in if \<not> matcher_config_valid config then (Inl GX5125_MATCHER_ERR_ARGUMENT, result)
         else case probe_feature of
                None \<Rightarrow> (Inl GX5125_MATCHER_ERR_STATE, result)
              | Some probe \<Rightarrow>
                  let summary = gx5125_enrollment_get_summary e
                  in if eu_accepted_samples summary = 0 then (Inl GX5125_MATCHER_ERR_STATE, result)
                     else case score_samples e probe config [0..<unat (eu_accepted_samples summary)]
                                 (replicate 3 zero_match_result, 0) of
                            Inl rc \<Rightarrow> (Inl rc, result)
                          | Inr (best3, top_count) \<Rightarrow>
                              if top_count = 0 then (Inl GX5125_MATCHER_ERR_STATE, result)
                              else (Inr (), consensus config (best3, top_count)))"

section \<open>Messages and the self test\<close>

definition gx5125_matcher_status_string :: "gx5125_matcher_status \<Rightarrow> string" where
  "gx5125_matcher_status_string status =
     (case status of
        GX5125_MATCHER_OK \<Rightarrow> ''ok''
      | GX5125_MATCHER_ERR_ARGUMENT \<Rightarrow> ''invalid argument''
      | GX5125_MATCHER_ERR_FEATURE \<Rightarrow> ''invalid feature records''
      | GX5125_MATCHER_ERR_MEMORY \<Rightarrow> ''memory allocation failed''
      | GX5125_MATCHER_ERR_STATE \<Rightarrow> ''invalid matcher state'')"

definition xorshift :: "u32 \<Rightarrow> u32" where
  "xorshift word =
     (let w1 = word XOR push_bit 13 word; w2 = w1 XOR drop_bit 17 w1 in w2 XOR push_bit 5 w2)"

definition store_u16 :: "u8 list \<Rightarrow> nat \<Rightarrow> int \<Rightarrow> u8 list" where
  "store_u16 m pointer v = mem_write m pointer [lo8 (of_int v), hi8 (of_int v)]"

definition store_u32 :: "u8 list \<Rightarrow> nat \<Rightarrow> u32 \<Rightarrow> u8 list" where
  "store_u32 m pointer v = mem_write m pointer (bytes32 v)"

definition make_synthetic_record :: "u32 \<Rightarrow> int \<Rightarrow> int \<Rightarrow> int \<Rightarrow> u32 \<Rightarrow> u8 list" where
  "make_synthetic_record index x_q8 y_q8 angle salt =
     (let r = store_u32 (store_u16 (store_u16 (store_u16 (replicate GX_FEATURE_RECORD_BYTES 0)
                GX_FEATURE_RECORD_X_OFFSET x_q8) GX_FEATURE_RECORD_Y_OFFSET y_q8)
                GX_FEATURE_RECORD_ANGLE_OFFSET angle) GX_FEATURE_RECORD_CLASS_OFFSET (index AND 1);
          word = (0x9e3779b9 * (index + 1)) XOR salt
      in fst (foldl (\<lambda>(r, word) offset.
           let word = xorshift word
           in (r[GX_FEATURE_RECORD_DESCRIPTOR_OFFSET + offset := ucast word], word))
         (r, word) [0..<GX5125_MATCHER_DESCRIPTOR_BYTES]))"

text \<open>The 24 records of the self test: a grid, the same grid moved, and a different one.\<close>

definition selftest_x :: "nat \<Rightarrow> int" where "selftest_x k = int ((8 + (k mod 6) * 10) * 256)"
definition selftest_y :: "nat \<Rightarrow> int" where "selftest_y k = int ((8 + (k div 6) * 12) * 256)"

definition selftest_template_record :: "nat \<Rightarrow> u8 list" where
  "selftest_template_record k = make_synthetic_record (of_nat k) (selftest_x k) (selftest_y k) (int k * 500) 0"

definition selftest_same_record :: "nat \<Rightarrow> u8 list" where
  "selftest_same_record k =
     (let (sine_q14, cosine_q14) = gx_feature_angle_sincos_q14 0x0600;
          center_x = 36 * 256; center_y = 26 * 256;
          dx = selftest_x k - center_x; dy = selftest_y k - center_y;
          rotated_x = center_x + 3 * 256 + drop_bit 14 (dx * cosine_q14 - dy * sine_q14);
          rotated_y = center_y - 2 * 256 + drop_bit 14 (dx * sine_q14 + dy * cosine_q14);
          r = store_u16 (store_u16 (store_u16 (selftest_template_record k)
                GX_FEATURE_RECORD_X_OFFSET rotated_x) GX_FEATURE_RECORD_Y_OFFSET rotated_y)
                GX_FEATURE_RECORD_ANGLE_OFFSET (int k * 500 + 0x0600);
          p = GX_FEATURE_RECORD_DESCRIPTOR_OFFSET + k mod GX5125_MATCHER_DESCRIPTOR_BYTES
      in r[p := r ! p XOR 0x03])"

definition selftest_different_record :: "nat \<Rightarrow> u8 list" where
  "selftest_different_record k =
     make_synthetic_record (of_nat k) (selftest_x k + int ((k mod 3) * 256)) (selftest_y k) (int k * 1300) 0xa5a55a5a"

definition gx5125_matcher_selftest :: bool where
  "gx5125_matcher_selftest =
     (let records = (\<lambda>f. concat (map f [0..<24]));
          sample = \<lparr>es_record_count = 24, es_records = records selftest_template_record, es_packed_map = [],
                    es_metrics = \<lparr>em_quality = 0, em_coverage = 0, em_mask_coverage_q16 = 0\<rparr>\<rparr>;
          view = (\<lambda>f. \<lparr>fv_record_count = 24, fv_records = Buf (records f), fv_packed_map = Null 0\<rparr>);
          (same_rc, same) = gx5125_matcher_score_views sample (view selftest_same_record)
                              (Some gx5125_matcher_default_config) zero_match_result;
          (different_rc, different) = gx5125_matcher_score_views sample (view selftest_different_record)
                              (Some gx5125_matcher_default_config) zero_match_result
      in \<not> (isl same_rc \<or> isl different_rc \<or> re_matched_pairs same < 20
             \<or> re_score_q16 same \<le> re_score_q16 different
             \<or> re_score_q16 same < 40000 \<or> re_score_q16 different > 25000))"

section \<open>The seeds are the best descriptor pairs\<close>

interpretation seeds: ranking seed_better
  by unfold_locales auto

lemma seed_shift_insert: "p < capacity \<Longrightarrow> seed_shift capacity xs p s = shift_insert seed_better xs p s"
  by (induction p arbitrary: xs) simp_all

lemma seed_insert_holds:
  assumes "holds_best seed_better capacity st offered" and "0 < capacity"
  shows "holds_best seed_better capacity (seed_insert capacity st s) (offered @ [s])"
proof -
  obtain xs n where st: "st = (xs, n)" by (rule prod.exhaust)
  note h = assms(1) [unfolded st]
  show ?thesis
  proof (cases "n < capacity")
    case True
    then show ?thesis using seeds.insert_free [OF h True] assms(2)
      by (simp add: st seed_insert_def seed_shift_insert)
  next
    case False
    then show ?thesis using seeds.insert_full [OF h False assms(2)] assms(2)
      by (simp add: st seed_insert_def seed_shift_insert)
  qed
qed

lemma foldl_filtered:
  "foldl (\<lambda>st j. if P j then f st (g j) else st) st js = foldl f st (map g (filter P js))"
  by (induction js arbitrary: st) simp_all

lemma foldl_nested: "foldl (\<lambda>st i. foldl f st (g i)) st is = foldl f st (concat (map g is))"
  by (induction "is" arbitrary: st) simp_all

text \<open>The candidates: all pairs of records whose descriptors are close enough, row by row.\<close>

definition seed_candidates ::
    "gx5125_matcher_config \<Rightarrow> gx_match_record list \<Rightarrow> gx_match_record list \<Rightarrow> gx_match_seed list" where
  "seed_candidates config trs prs =
     (let hamming = (\<lambda>i j. descriptor_hamming (mr_descriptor (trs ! i)) (mr_descriptor (prs ! j)))
      in concat (map (\<lambda>i.
           map (\<lambda>j. \<lparr>ms_template_index = i, ms_probe_index = j, ms_descriptor_hamming = hamming i j\<rparr>)
             (filter (\<lambda>j. hamming i j \<le> mc_descriptor_max_hamming config) [0..<length prs])) [0..<length trs]))"

lemma collect_seeds_fold:
  "collect_seeds config trs prs
   = foldl (seed_insert (unat (mc_maximum_seed_pairs config))) (replicate GX_MATCH_MAX_SEEDS zero_seed, 0)
       (seed_candidates config trs prs)"
  unfolding collect_seeds_def Let_def seed_candidates_def
  by (simp only: foldl_filtered [where f = "seed_insert n" for n] foldl_nested [where f = "seed_insert n" for n])

lemma seeds_hold:
  assumes "0 < capacity" and "capacity \<le> GX_MATCH_MAX_SEEDS"
  shows "holds_best seed_better capacity
    (foldl (seed_insert capacity) (replicate GX_MATCH_MAX_SEEDS zero_seed, 0) offered) offered"
proof (induction offered rule: rev_induct)
  case Nil
  show ?case using assms(2) by (simp add: holds_best_empty)
next
  case (snoc s offered)
  then show ?case using assms(1) by (simp add: seed_insert_holds)
qed

text \<open>The used part of the seed array.\<close>

definition kept_seeds ::
    "gx5125_matcher_config \<Rightarrow> gx_match_record list \<Rightarrow> gx_match_record list \<Rightarrow> gx_match_seed list" where
  "kept_seeds config trs prs =
     (case collect_seeds config trs prs of (seeds, used) \<Rightarrow> take used seeds)"

lemma kept_seeds_eq:
  assumes "matcher_config_valid config"
  shows "kept_seeds config trs prs
    = take (unat (mc_maximum_seed_pairs config)) (rank_sort seed_better (seed_candidates config trs prs))"
proof -
  have "0 < unat (mc_maximum_seed_pairs config)" "unat (mc_maximum_seed_pairs config) \<le> GX_MATCH_MAX_SEEDS"
    using assms by (simp_all add: matcher_config_valid_def word_gt_0 unat_gt_0)
  note h = seeds_hold [OF this, of "seed_candidates config trs prs"]
  show ?thesis
    unfolding kept_seeds_def split_beta collect_seeds_fold
    by (rule h [unfolded holds_best_def, THEN conjunct2, THEN conjunct2])
qed

text \<open>
  The seeds are the closest pairs. The seed array holds, in ascending order of distance and at
  equal distance in the order of the records, as many of the admissible pairs as it has room for, and
  every admissible pair that was left out is at least as distant as every pair that was kept.
\<close>

theorem seeds_are_closest:
  assumes "matcher_config_valid config"
  shows "\<exists>rest. kept_seeds config trs prs @ rest = rank_sort seed_better (seed_candidates config trs prs)
    \<and> mset (kept_seeds config trs prs) + mset rest = mset (seed_candidates config trs prs)
    \<and> sorted (map ms_descriptor_hamming (kept_seeds config trs prs))
    \<and> list_all (\<lambda>t. list_all (\<lambda>s. ms_descriptor_hamming s \<le> ms_descriptor_hamming t) (kept_seeds config trs prs)) rest
    \<and> length (kept_seeds config trs prs)
        = min (unat (mc_maximum_seed_pairs config)) (length (seed_candidates config trs prs))"
proof -
  let ?cap = "unat (mc_maximum_seed_pairs config)" and ?all = "rank_sort seed_better (seed_candidates config trs prs)"
  note k = kept_seeds_eq [OF assms, of trs prs]
  have s: "sorted (map ms_descriptor_hamming (take ?cap ?all))"
    using seeds.ranked_sort [of "seed_candidates config trs prs"]
    by (simp add: sorted_map sorted_wrt_take not_less)
  have "mset (take ?cap ?all) + mset (drop ?cap ?all) = mset ?all"
    by (metis append_take_drop_id mset_append)
  moreover have "list_all (\<lambda>t. list_all (\<lambda>s. ms_descriptor_hamming s \<le> ms_descriptor_hamming t) (take ?cap ?all)) (drop ?cap ?all)"
    using seeds.kept_best by (fastforce simp: list_all_iff not_less)
  ultimately show ?thesis
    unfolding k using s by (intro exI [of _ "drop ?cap ?all"]) simp
qed

section \<open>Bounds of the scores\<close>

text \<open>Positions of parsed records come from sixteen-bit fields.\<close>

definition in_field :: "gx_match_record \<Rightarrow> bool" where
  "in_field r \<longleftrightarrow> 0 \<le> mr_x_q8 r \<and> mr_x_q8 r < 65536 \<and> 0 \<le> mr_y_q8 r \<and> mr_y_q8 r < 65536"

lemma parse_record_in_field: "in_field (parse_record bs k)"
  using uint_lt2p [of "load_u16 bs" for bs]
  by (simp add: in_field_def parse_record_def Let_def)

lemma parse_records_Inr:
  assumes "parse_records buf n = Inr rs"
  shows "length rs = unat n \<and> 0 < length rs \<and> length rs \<le> 120 \<and> list_all in_field rs"
  using assms
  by (auto simp: parse_records_def matcher_consts list_all_iff parse_record_in_field unat_eq_0
      split: if_splits)

lemma q16_bound:
  assumes "unat n < 2 ^ 48 \<or> unat d < 2 ^ 48"
  shows "unat (q16_ratio n d) \<le> 65536"
proof (cases "d = 0 \<or> n \<ge> d")
  case True
  then show ?thesis by (auto simp: q16_ratio_def matcher_consts)
next
  case False
  then have lt: "unat n < unat d" and d: "0 < unat d"
    by (simp_all add: word_less_nat_alt not_le unat_gt_0)
  then have "unat n < 2 ^ 48" using assms by linarith
  then have "unat (n * ucast GX_Q16_ONE) = unat n * 65536"
    by (simp add: matcher_consts unat_word_ariths)
  then have q: "unat ((n * ucast GX_Q16_ONE) div d) = unat n * 65536 div unat d" by (simp add: unat_div)
  have "unat n * 65536 div unat d \<le> unat d * 65536 div unat d" using lt by (intro div_le_mono) simp
  then have "unat n * 65536 div unat d \<le> 65536" using d by simp
  then show ?thesis using False q by (simp add: q16_ratio_def unat_narrow)
qed

lemma q16_less:
  assumes "unat n < unat d" and "unat n < 2 ^ 48"
  shows "unat (q16_ratio n d) < 65536"
proof -
  have "unat (n * ucast GX_Q16_ONE) = unat n * 65536"
    using assms(2) by (simp add: matcher_consts unat_word_ariths)
  then have q: "unat ((n * ucast GX_Q16_ONE) div d) = unat n * 65536 div unat d" by (simp add: unat_div)
  have "unat n * 65536 div unat d < 65536" using assms(1) by (simp add: div_less_iff_less_mult)
  moreover have "d \<noteq> 0" "\<not> n \<ge> d" using assms(1) by (auto simp: word_less_nat_alt not_le)
  ultimately show ?thesis using q by (simp add: q16_ratio_def unat_narrow)
qed

lemma q16_complement:
  assumes "unat r \<le> 65536"
  shows "unat (GX_Q16_ONE - r) = 65536 - unat r"
  using assms by (simp add: matcher_consts unat_sub word_le_nat_alt)

lemma abs_mult_le:
  assumes "\<bar>x\<bar> \<le> a" and "\<bar>y\<bar> \<le> (b :: int)"
  shows "\<bar>x * y\<bar> \<le> a * b"
proof -
  have "0 \<le> a" using assms(1) abs_ge_zero order_trans by blast
  then show ?thesis using assms unfolding abs_mult by (intro mult_mono) simp_all
qed

lemma transform_near:
  assumes "in_field t0" "in_field p0" "in_field t"
  shows "\<bar>fst (transform t0 p0 delta t)\<bar> \<le> 300000 \<and> \<bar>snd (transform t0 p0 delta t)\<bar> \<le> 300000"
proof -
  obtain s c where sc: "gx_feature_angle_sincos_q14 delta = (s, c)" by (rule prod.exhaust)
  then have b: "\<bar>s\<bar> \<le> 20000" "\<bar>c\<bar> \<le> 20000" using sincos_bound [of delta] by simp_all
  let ?x = "mr_x_q8 t - mr_x_q8 t0" and ?y = "mr_y_q8 t - mr_y_q8 t0"
  have xy: "\<bar>?x\<bar> \<le> 65536" "\<bar>?y\<bar> \<le> 65536" using assms by (auto simp: in_field_def)
  note m = abs_mult_le [OF xy(1) b(1)] abs_mult_le [OF xy(1) b(2)] abs_mult_le [OF xy(2) b(1)] abs_mult_le [OF xy(2) b(2)]
  have shift: "\<bar>drop_bit 14 z\<bar> \<le> 170000" if "\<bar>z\<bar> \<le> 2 * (65536 * 20000)" for z :: int
    using that by (auto simp: drop_bit_int_def abs_le_iff)
  have "\<bar>drop_bit 14 (?x * c - ?y * s)\<bar> \<le> 170000" "\<bar>drop_bit 14 (?x * s + ?y * c)\<bar> \<le> 170000"
    using m by (intro shift; linarith)+
  then show ?thesis using assms(2) by (simp add: transform_def Let_def sc in_field_def abs_le_iff)
qed

lemma unat_of_int_u64:
  assumes "0 \<le> z" and "z < 2 ^ 48"
  shows "unat (of_int z :: u64) = nat z" and "unat (of_int z :: u64) < 2 ^ 48"
proof -
  show "unat (of_int z :: u64) = nat z" using assms by (simp add: unsigned_of_int take_bit_int_eq_self)
  then show "unat (of_int z :: u64) < 2 ^ 48" using assms by (simp add: nat_less_iff)
qed

lemma distance_bound:
  assumes "in_field r" "\<bar>fst p\<bar> \<le> 300000" "\<bar>snd p\<bar> \<le> 300000"
  shows "unat (distance_squared p r) < 2 ^ 48"
proof -
  let ?x = "mr_x_q8 r - fst p" and ?y = "mr_y_q8 r - snd p"
  have xy: "\<bar>?x\<bar> \<le> 400000" "\<bar>?y\<bar> \<le> 400000" using assms by (auto simp: in_field_def abs_le_iff)
  have "0 \<le> ?x * ?x" "0 \<le> ?y * ?y" by simp_all
  moreover have "?x * ?x \<le> 400000 * 400000" "?y * ?y \<le> 400000 * 400000"
    using abs_mult_le [OF xy(1) xy(1)] abs_mult_le [OF xy(2) xy(2)] by simp_all
  moreover have "400000 * 400000 + 400000 * 400000 < (2 ^ 48 :: int)" by simp
  ultimately have "0 \<le> ?x * ?x + ?y * ?y" "?x * ?x + ?y * ?y < 2 ^ 48" by linarith+
  then show ?thesis unfolding distance_squared_def Let_def by (rule unat_of_int_u64)
qed

lemma score_pair_Some:
  assumes "score_pair config delta p t r = Some (pair, d, s, a)"
  shows "\<not> distance_squared p r > ucast (mc_position_radius_q8 config) * ucast (mc_position_radius_q8 config)
    \<and> d = q16_ratio (ucast (GX_MATCH_DESCRIPTOR_BITS - descriptor_hamming (mr_descriptor t) (mr_descriptor r)))
            (ucast GX_MATCH_DESCRIPTOR_BITS)
    \<and> s = GX_Q16_ONE - q16_ratio (distance_squared p r)
            (ucast (mc_position_radius_q8 config) * ucast (mc_position_radius_q8 config))
    \<and> a = GX_Q16_ONE - q16_ratio (ucast (angle_error delta t r)) (ucast (mc_angle_tolerance config))
    \<and> pair = (d * 7 + s * 2 + a) div 10"
  using assms by (auto simp: score_pair_def Let_def split: if_splits)

lemma score_pair_bounds:
  assumes "score_pair config delta p t r = Some (pair, d, s, a)"
    and "in_field r" "\<bar>fst p\<bar> \<le> 300000" "\<bar>snd p\<bar> \<le> 300000"
  shows "unat d \<le> 65536 \<and> unat s \<le> 65536 \<and> unat a \<le> 65536
    \<and> unat pair = (unat d * 7 + unat s * 2 + unat a) div 10"
proof -
  note e = score_pair_Some [OF assms(1)]
  have d: "unat d \<le> 65536" using e by (auto intro!: q16_bound simp: matcher_consts)
  have s: "unat s \<le> 65536"
    using e q16_complement [OF q16_bound, OF disjI1, OF distance_bound, OF assms(2-4)] by simp
  have "unat (ucast (angle_error delta t r) :: u64) < 2 ^ 48"
    using order_less_trans [OF unat_u32_less [of "angle_error delta t r"]] by simp
  then have a: "unat a \<le> 65536"
    using e q16_complement [OF q16_bound, OF disjI1] by simp
  have "pair = (d * 7 + s * 2 + a) div 10" using e by blast
  moreover have "unat ((d * 7 + s * 2 + a) div 10) = (unat d * 7 + unat s * 2 + unat a) div 10"
    using d s a by (simp add: unat_div unat_word_ariths)
  ultimately show ?thesis using d s a by simp
qed

section \<open>The totals of a hypothesis\<close>

definition best_ok :: "bool list \<Rightarrow> nat \<Rightarrow> nat option \<times> u32 \<times> u32 \<times> u32 \<times> u32 \<Rightarrow> bool" where
  "best_ok probe_used n best \<longleftrightarrow>
     (case best of (None, _) \<Rightarrow> True
      | (Some j, pair, d, s, a) \<Rightarrow> j < n \<and> \<not> probe_used ! j
          \<and> unat d \<le> 65536 \<and> unat s \<le> 65536 \<and> unat a \<le> 65536)"

lemma best_pair_ok:
  assumes "list_all in_field prs" "\<bar>fst p\<bar> \<le> 300000" "\<bar>snd p\<bar> \<le> 300000"
  shows "best_ok used (length prs) (best_pair config delta p t prs used)"
proof -
  have step: "best_ok used (length prs) (best_pair_step config delta p t prs used best j)"
    if "best_ok used (length prs) best" "j < length prs" for best j
  proof (cases "score_pair config delta p t (prs ! j)")
    case (Some q)
    obtain pair d s a where q: "q = (pair, d, s, a)" by (rule prod_cases4)
    have "in_field (prs ! j)" using assms(1) that(2) by (simp add: list_all_length)
    then show ?thesis
      using that score_pair_bounds [OF Some [unfolded q] _ assms(2,3)]
      by (auto simp: best_pair_step_def best_ok_def Some q split: prod.splits)
  qed (use that in \<open>simp add: best_pair_step_def\<close>)
  have "n \<le> length prs \<Longrightarrow>
      best_ok used (length prs) (foldl (best_pair_step config delta p t prs used) (None, 0, 0, 0, 0) [0..<n])" for n
    by (induction n) (simp_all add: step, simp add: best_ok_def)
  then show ?thesis by (simp add: best_pair_def)
qed

text \<open>The invariant of the outer loop after \<open>n\<close> template records.\<close>

definition totals_ok :: "nat \<Rightarrow> nat \<Rightarrow> match_totals \<Rightarrow> bool" where
  "totals_ok probes n t \<longleftrightarrow>
     length (mt_probe_used t) = GX_MATCH_MAX_RECORDS
     \<and> mt_matched t \<le> n
     \<and> mt_matched t = length (filter (\<lambda>j. mt_probe_used t ! j) [0..<probes])
     \<and> unat (mt_descriptor_total t) \<le> 65536 * mt_matched t
     \<and> unat (mt_spatial_total t) \<le> 65536 * mt_matched t
     \<and> unat (mt_angle_total t) \<le> 65536 * mt_matched t"

lemma count_used:
  assumes "j < n" and "n \<le> length used" and "\<not> used ! j"
  shows "length (filter (\<lambda>k. used[j := True] ! k) [0..<n]) = Suc (length (filter (\<lambda>k. used ! k) [0..<n]))"
proof -
  have "[0..<n] = [0..<j] @ j # [Suc j..<n]"
    using assms(1) upt_add_eq_append [of 0 j "n - j"] by (simp add: upt_conv_Cons)
  moreover have "filter (\<lambda>k. used[j := True] ! k) [0..<j] = filter (\<lambda>k. used ! k) [0..<j]"
    by (rule filter_cong) simp_all
  moreover have "filter (\<lambda>k. used[j := True] ! k) [Suc j..<n] = filter (\<lambda>k. used ! k) [Suc j..<n]"
    by (rule filter_cong) simp_all
  moreover have "used[j := True] ! j" using assms by simp
  ultimately show ?thesis using assms(3) by (simp only: filter_append filter.simps length_append list.size if_True if_False add_Suc_right)
qed

lemma add_part: "unat (x :: u64) \<le> 65536 * k \<Longrightarrow> unat (y :: u32) \<le> 65536 \<Longrightarrow> k \<le> 120 \<Longrightarrow>
    unat (x + ucast y) \<le> 65536 * (k + 1)"
  by (simp add: unat_word_ariths)

lemma match_step_ok:
  assumes "totals_ok (length prs) n t" "n < 120" "length prs \<le> 120"
    and "list_all in_field prs" "in_field t0" "in_field p0" "in_field r"
  shows "totals_ok (length prs) (Suc n) (match_step config t0 p0 prs t r)"
proof -
  let ?delta = "normalize_angle (mr_angle p0 - mr_angle t0)"
  obtain b pair d s a where bp: "best_pair config ?delta (transform t0 p0 ?delta r) r prs (mt_probe_used t) = (b, pair, d, s, a)"
    by (rule prod_cases5)
  have ok: "best_ok (mt_probe_used t) (length prs) (b, pair, d, s, a)"
    unfolding bp [symmetric] using assms(4) transform_near [OF assms(5-7)] by (intro best_pair_ok) simp_all
  show ?thesis
  proof (cases b)
    case None
    then show ?thesis using assms(1) bp by (simp add: match_step_def totals_ok_def)
  next
    case (Some j)
    note m = ok [unfolded best_ok_def Some, simplified]
    have "length prs \<le> length (mt_probe_used t)" using assms(1,3) by (simp add: totals_ok_def matcher_consts)
    with m have "length (filter (\<lambda>k. (mt_probe_used t)[j := True] ! k) [0..<length prs]) = Suc (mt_matched t)"
      using assms(1) count_used by (simp add: totals_ok_def)
    moreover have "mt_matched t \<le> 120" using assms(1,2) by (simp add: totals_ok_def)
    ultimately show ?thesis
      using assms(1) m add_part unfolding match_step_def Let_def bp Some
      by (simp add: totals_ok_def)
  qed
qed

lemma match_records_ok:
  assumes "length trs \<le> 120" "length prs \<le> 120" "list_all in_field trs" "list_all in_field prs"
    and "in_field t0" "in_field p0"
  shows "totals_ok (length prs) (length trs) (match_records config t0 p0 trs prs)"
proof -
  let ?init = "\<lparr>mt_probe_used = replicate GX_MATCH_MAX_RECORDS False, mt_matched = 0,
        mt_descriptor_total = 0, mt_spatial_total = 0, mt_angle_total = 0\<rparr>"
  have "n \<le> length trs \<Longrightarrow>
      totals_ok (length prs) n (foldl (match_step config t0 p0 prs) ?init (take n trs))" for n
  proof (induction n)
    case 0
    have "filter (\<lambda>j. replicate GX_MATCH_MAX_RECORDS False ! j) [0..<length prs] = []"
      using assms(2) by (simp add: filter_empty_conv matcher_consts)
    then show ?case by (simp add: totals_ok_def matcher_consts)
  next
    case (Suc n)
    have "in_field (trs ! n)" using assms(3) Suc.prems by (simp add: list_all_length)
    then show ?case
      using match_step_ok [OF Suc.IH _ assms(2,4-6)] Suc.prems assms(1) by (simp add: take_Suc_conv_app_nth)
  qed
  from this [of "length trs"] show ?thesis by (simp add: match_records_def)
qed

lemma q16_of_nat: "a < 2 ^ 64 \<Longrightarrow> unat (of_nat a :: u64) = a"
  by (simp add: unat_of_nat)

lemma average_bound:
  assumes "unat (x :: u64) \<le> 65536 * m" and "0 < m" and "m \<le> 120"
  shows "unat (ucast (x div of_nat m) :: u32) = unat x div m" and "unat x div m \<le> 65536"
proof -
  have "unat (x div of_nat m) = unat x div m"
    using assms by (simp add: unat_div unat_of_nat)
  moreover show "unat x div m \<le> 65536"
    using div_le_mono [OF assms(1), of m] assms(2) by simp
  ultimately show "unat (ucast (x div of_nat m) :: u32) = unat x div m"
    by (simp add: unat_narrow_exact)
qed

text \<open>What holds of every hypothesis and of the best one.\<close>

definition hypothesis_ok :: "gx5125_matcher_config \<Rightarrow> nat \<Rightarrow> gx_match_hypothesis \<Rightarrow> bool" where
  "hypothesis_ok config limit h \<longleftrightarrow>
     mh_matched_pairs h \<le> limit
     \<and> unat (mh_support_q16 h) \<le> 65536 \<and> unat (mh_descriptor_similarity_q16 h) \<le> 65536
     \<and> unat (mh_spatial_similarity_q16 h) \<le> 65536 \<and> unat (mh_angle_similarity_q16 h) \<le> 65536
     \<and> unat (mh_score_q16 h) = (unat (mh_descriptor_similarity_q16 h) * 65 + unat (mh_spatial_similarity_q16 h) * 15
         + unat (mh_angle_similarity_q16 h) * 10 + unat (mh_support_q16 h) * 10) div 100
     \<and> (mh_score_q16 h = 0 \<or> unat (mc_minimum_matched_pairs config) \<le> mh_matched_pairs h)"

lemma score_sum:
  assumes "unat d \<le> 65536" "unat s \<le> 65536" "unat a \<le> 65536" "unat u \<le> (65536 :: nat)"
  shows "unat ((d * 65 + s * 15 + a * 10 + u * 10) div 100 :: u32)
    = (unat d * 65 + unat s * 15 + unat a * 10 + unat u * 10) div 100"
  using assms by (simp add: unat_div unat_word_ariths)

lemma score_bound:
  assumes "hypothesis_ok config limit h"
  shows "unat (mh_score_q16 h) \<le> 65536"
proof -
  have "unat (mh_descriptor_similarity_q16 h) * 65 + unat (mh_spatial_similarity_q16 h) * 15
      + unat (mh_angle_similarity_q16 h) * 10 + unat (mh_support_q16 h) * 10 \<le> 65536 * 100"
    using assms by (simp add: hypothesis_ok_def)
  from div_le_mono [OF this, of 100] assms show ?thesis by (simp add: hypothesis_ok_def)
qed

lemma zero_hypothesis_ok: "hypothesis_ok config limit zero_hypothesis"
  by (simp add: hypothesis_ok_def zero_hypothesis_def)

lemma count_at_most: "length (filter P [0..<n]) \<le> n"
  by (metis length_filter_le length_upt minus_nat.diff_0)

lemma evaluate_ok:
  assumes "length trs \<le> 120" "length prs \<le> 120" "list_all in_field trs" "list_all in_field prs"
    and "ms_template_index seed < length trs" "ms_probe_index seed < length prs"
    and "0 < unat (mc_minimum_matched_pairs config)"
  shows "hypothesis_ok config (min (length trs) (length prs)) (evaluate_hypothesis trs prs config seed)"
proof -
  let ?t = "match_records config (trs ! ms_template_index seed) (prs ! ms_probe_index seed) trs prs"
  have "in_field (trs ! ms_template_index seed)" "in_field (prs ! ms_probe_index seed)"
    using assms(3-6) by (simp_all add: list_all_length)
  note t = match_records_ok [OF assms(1-4) this, of config, unfolded totals_ok_def]
  then have m: "mt_matched ?t \<le> min (length trs) (length prs)" using count_at_most by simp
  show ?thesis
  proof (cases "mt_matched ?t < unat (mc_minimum_matched_pairs config)")
    case True
    then show ?thesis using m by (simp add: evaluate_hypothesis_def Let_def hypothesis_ok_def zero_hypothesis_def)
  next
    case False
    then have pos: "0 < mt_matched ?t" and le: "mt_matched ?t \<le> 120" using assms(1,7) m by simp_all
    have b: "unat (ucast (x div of_nat (mt_matched ?t)) :: u32) \<le> 65536"
      if "unat x \<le> 65536 * mt_matched ?t" for x :: u64
      using average_bound [OF that pos le] by simp
    have u: "unat (q16_ratio (of_nat (mt_matched ?t)) n) \<le> 65536" for n
      using le by (intro q16_bound disjI1) (simp add: unat_of_nat)
    show ?thesis
      using False m t b u unfolding evaluate_hypothesis_def Let_def hypothesis_ok_def
      by (simp add: score_sum)
  qed
qed

lemma candidates_in_range:
  assumes "s \<in> set (seed_candidates config trs prs)"
  shows "ms_template_index s < length trs \<and> ms_probe_index s < length prs"
  using assms by (auto simp: seed_candidates_def Let_def)

lemma best_as_fold:
  "best_hypothesis config trs prs
   = foldl (\<lambda>best s. better_hypothesis best (evaluate_hypothesis trs prs config s)) zero_hypothesis
       (kept_seeds config trs prs)"
  if "matcher_config_valid config"
proof -
  obtain seeds n where c: "collect_seeds config trs prs = (seeds, n)" by (rule prod.exhaust)
  have "0 < unat (mc_maximum_seed_pairs config)" "unat (mc_maximum_seed_pairs config) \<le> GX_MATCH_MAX_SEEDS"
    using that by (simp_all add: matcher_config_valid_def word_gt_0 unat_gt_0)
  note h = seeds_hold [OF this, of "seed_candidates config trs prs"]
  have "n \<le> length seeds" using h c by (auto simp: holds_best_def collect_seeds_fold)
  have "foldl (\<lambda>best k. f best (seeds ! k)) z [0..<n] = foldl f z (take n seeds)" for f :: "'b \<Rightarrow> gx_match_seed \<Rightarrow> 'b" and z
    using \<open>n \<le> length seeds\<close> by (induction n) (simp_all add: take_Suc_conv_app_nth)
  then show ?thesis by (simp add: best_hypothesis_def c kept_seeds_def)
qed

lemma best_hypothesis_ok:
  assumes "length trs \<le> 120" "length prs \<le> 120" "list_all in_field trs" "list_all in_field prs"
    and "matcher_config_valid config"
  shows "hypothesis_ok config (min (length trs) (length prs)) (best_hypothesis config trs prs)"
proof -
  have "hypothesis_ok config (min (length trs) (length prs))
      (foldl (\<lambda>best s. better_hypothesis best (evaluate_hypothesis trs prs config s)) best seeds)"
    if "set seeds \<subseteq> set (seed_candidates config trs prs)" "hypothesis_ok config (min (length trs) (length prs)) best"
    for seeds best
    using that
  proof (induction seeds arbitrary: best)
    case (Cons s seeds)
    have "hypothesis_ok config (min (length trs) (length prs)) (evaluate_hypothesis trs prs config s)"
      using Cons.prems candidates_in_range assms
      by (intro evaluate_ok) (auto simp: matcher_config_valid_def word_gt_0 unat_gt_0)
    then show ?case using Cons by (simp add: better_hypothesis_def)
  qed simp
  moreover have "set (kept_seeds config trs prs) \<subseteq> set (seed_candidates config trs prs)"
    unfolding kept_seeds_eq [OF assms(5)] using set_take_subset [of _ "rank_sort seed_better (seed_candidates config trs prs)"]
    by simp
  ultimately show ?thesis
    unfolding best_as_fold [OF assms(5)] using zero_hypothesis_ok by blast
qed

lemma score_views_Inr:
  assumes "gx5125_matcher_score_views sample probe config result = (Inr (), r)"
  shows "\<exists>trs prs. matcher_config_valid (resolve_config config)
    \<and> parse_records (Buf (es_records sample)) (es_record_count sample) = Inr trs
    \<and> parse_records (fv_records probe) (fv_record_count probe) = Inr prs
    \<and> hypothesis_ok (resolve_config config) (min (unat (es_record_count sample)) (unat (fv_record_count probe)))
        (best_hypothesis (resolve_config config) trs prs)
    \<and> r = result_of (resolve_config config) (es_record_count sample) (fv_record_count probe)
            (best_hypothesis (resolve_config config) trs prs)"
proof -
  obtain trs prs where p: "matcher_config_valid (resolve_config config)"
    "parse_records (Buf (es_records sample)) (es_record_count sample) = Inr trs"
    "parse_records (fv_records probe) (fv_record_count probe) = Inr prs"
    "r = result_of (resolve_config config) (es_record_count sample) (fv_record_count probe)
            (best_hypothesis (resolve_config config) trs prs)"
    using assms by (auto simp: gx5125_matcher_score_views_def Let_def split: if_splits sum.splits)
  have "hypothesis_ok (resolve_config config) (min (unat (es_record_count sample)) (unat (fv_record_count probe)))
        (best_hypothesis (resolve_config config) trs prs)"
    using parse_records_Inr [OF p(2)] parse_records_Inr [OF p(3)] best_hypothesis_ok [OF _ _ _ _ p(1), of trs prs] by simp
  with p show ?thesis by blast
qed

text \<open>
  C21: bounds of a match result. A scored pair of views has no more matched pairs than either side
  has records, all similarities and the score are between zero and one (in Q16, without overflow on
  the way), the score is the weighted mean of its four parts, it is not zero only if the minimum
  number of pairs matched, and a match is announced exactly when a threshold is configured and reached
  by enough pairs.
\<close>

theorem match_result_bounds:
  assumes "gx5125_matcher_score_views sample probe config result = (Inr (), r)"
  shows "re_matched_pairs r \<le> min (unat (es_record_count sample)) (unat (fv_record_count probe))
    \<and> unat (re_support_q16 r) \<le> 65536 \<and> unat (re_descriptor_similarity_q16 r) \<le> 65536
    \<and> unat (re_spatial_similarity_q16 r) \<le> 65536 \<and> unat (re_angle_similarity_q16 r) \<le> 65536
    \<and> unat (re_score_q16 r) \<le> 65536
    \<and> unat (re_score_q16 r) = (unat (re_descriptor_similarity_q16 r) * 65 + unat (re_spatial_similarity_q16 r) * 15
         + unat (re_angle_similarity_q16 r) * 10 + unat (re_support_q16 r) * 10) div 100
    \<and> (re_score_q16 r = 0 \<or> unat (mc_minimum_matched_pairs (resolve_config config)) \<le> re_matched_pairs r)
    \<and> (re_matched r \<longleftrightarrow> mc_decision_threshold_q16 (resolve_config config) \<noteq> 0
         \<and> mc_decision_threshold_q16 (resolve_config config) \<le> re_score_q16 r
         \<and> unat (mc_minimum_matched_pairs (resolve_config config)) \<le> re_matched_pairs r)"
proof -
  obtain h where h: "hypothesis_ok (resolve_config config)
        (min (unat (es_record_count sample)) (unat (fv_record_count probe))) h"
    and r: "r = result_of (resolve_config config) (es_record_count sample) (fv_record_count probe) h"
    using score_views_Inr [OF assms] by blast
  have "unat (mh_score_q16 h) \<le> 65536" using h by (rule score_bound)
  with h show ?thesis unfolding hypothesis_ok_def r result_of_def by simp
qed

section \<open>A view matches itself\<close>

lemma normalize_zero: "normalize_angle 0 = 0"
  by (simp add: normalize_small descriptor_consts)

lemma sincos_zero: "gx_feature_angle_sincos_q14 0 = (0, 0x4000)"
  by (simp add: sincos_half angle_normalize_def half_sincos_def quadrant_sincos_def angle_consts)

lemma transform_self: "transform r r 0 t = (mr_x_q8 t, mr_y_q8 t)"
proof -
  have "drop_bit 14 (x * 0x4000 - y * 0x4000) = x - y" for x y :: int
    unfolding left_diff_distrib [symmetric] by (simp add: drop_bit_int_def)
  then show ?thesis by (simp add: transform_def sincos_zero left_diff_distrib)
qed

lemma q16_one: "d \<noteq> 0 \<Longrightarrow> q16_ratio d d = GX_Q16_ONE" "d \<noteq> 0 \<Longrightarrow> q16_ratio 0 d = 0"
  by (simp_all add: q16_ratio_def)

lemma hamming_self: "descriptor_hamming d d = 0"
proof -
  have "foldl (\<lambda>d k. d) z xs = z" for z :: u32 and xs :: "nat list" by (induction xs) simp_all
  then show ?thesis by (simp add: descriptor_hamming_def popcount32_def)
qed

lemma score_pair_self:
  assumes "matcher_config_valid config"
  shows "score_pair config 0 (mr_x_q8 t, mr_y_q8 t) t t = Some (GX_Q16_ONE, GX_Q16_ONE, GX_Q16_ONE, GX_Q16_ONE)"
proof -
  let ?r = "ucast (mc_position_radius_q8 config) * ucast (mc_position_radius_q8 config) :: u64"
  let ?p = "unat (mc_position_radius_q8 config)"
  have "0 < ?p" using assms by (simp add: matcher_config_valid_def word_gt_0 unat_gt_0)
  moreover have "?p * ?p < 2 ^ 32 * 2 ^ 32" by (intro mult_strict_mono) simp_all
  ultimately have "unat ?r = ?p * ?p" "0 < ?p * ?p" by (simp_all add: unat_word_ariths)
  then have r: "?r \<noteq> 0" by (metis less_irrefl unat_0)
  have "unat (ucast (mc_angle_tolerance config) :: u64) \<noteq> 0"
    using assms by (simp add: matcher_config_valid_def word_gt_0 unat_eq_0)
  then have t: "(ucast (mc_angle_tolerance config) :: u64) \<noteq> 0" by (metis unat_0)
  have z: "distance_squared (mr_x_q8 t, mr_y_q8 t) t = 0" "angle_error 0 t t = 0"
    by (simp_all add: distance_squared_def angle_error_def normalize_zero abs_i32_u32_def)
  show ?thesis
    unfolding score_pair_def Let_def z hamming_self
    by (simp add: q16_one [OF r] q16_one [OF t]) (simp add: matcher_consts q16_ratio_def)
qed

lemma score_pair_other:
  assumes "matcher_config_valid config" "in_field t" "in_field r"
    and "score_pair config 0 (mr_x_q8 t, mr_y_q8 t) t r = Some (pair, parts)"
    and "20 \<le> length (mr_descriptor t)" "20 \<le> length (mr_descriptor r)"
    and "take 20 (mr_descriptor t) \<noteq> take 20 (mr_descriptor r)"
  shows "unat pair < 65536"
proof -
  obtain d s a where q: "parts = (d, s, a)" by (rule prod_cases3)
  let ?h = "descriptor_hamming (mr_descriptor t) (mr_descriptor r)"
  note e = score_pair_Some [OF assms(4) [unfolded q]]
  have b: "unat d \<le> 65536 \<and> unat s \<le> 65536 \<and> unat a \<le> 65536 \<and> unat pair = (unat d * 7 + unat s * 2 + unat a) div 10"
    using assms(2) by (intro score_pair_bounds [OF assms(4) [unfolded q] assms(3)]) (simp_all add: in_field_def)
  have "unat ?h \<noteq> 0"
    unfolding hamming_bits [OF assms(5,6)] using assms(5-7)
    by (auto simp: bit_total_zero xor_zero_iff list_eq_iff_nth_eq)
  moreover have "unat ?h \<le> 160"
  proof -
    have "(\<Sum>k<20. bit_total (mr_descriptor t ! k XOR mr_descriptor r ! k)) \<le> (\<Sum>k<(20 :: nat). 8)"
      by (intro sum_mono bit_total_bounds)
    then show ?thesis unfolding hamming_bits [OF assms(5,6)] by simp
  qed
  then have "unat (GX_MATCH_DESCRIPTOR_BITS - ?h) = 160 - unat ?h"
    by (simp add: matcher_consts unat_sub word_le_nat_alt)
  ultimately have "unat d < 65536" using e q16_less by (simp add: matcher_consts)
  then show ?thesis using b by (simp add: div_less_iff_less_mult)
qed

text \<open>The inner loop finds the record itself, if it is unused.\<close>

lemma best_pair_self:
  assumes "matcher_config_valid config" "list_all in_field rs" "k < length rs" "\<not> used ! k"
    and "list_all (\<lambda>r. 20 \<le> length (mr_descriptor r)) rs"
    and "distinct (map (\<lambda>r. take 20 (mr_descriptor r)) rs)"
  shows "best_pair config 0 (mr_x_q8 (rs ! k), mr_y_q8 (rs ! k)) (rs ! k) rs used
    = (Some k, GX_Q16_ONE, GX_Q16_ONE, GX_Q16_ONE, GX_Q16_ONE)"
proof -
  let ?step = "best_pair_step config 0 (mr_x_q8 (rs ! k), mr_y_q8 (rs ! k)) (rs ! k) rs used"
  let ?full = "(Some k, GX_Q16_ONE, GX_Q16_ONE, GX_Q16_ONE, GX_Q16_ONE)"
  have other: "unat pair < 65536"
    if "score_pair config 0 (mr_x_q8 (rs ! k), mr_y_q8 (rs ! k)) (rs ! k) (rs ! j) = Some (pair, parts)"
      "j < length rs" "j \<noteq> k" for j pair parts
  proof (rule score_pair_other [OF assms(1) _ _ that(1)])
    have "take 20 (mr_descriptor (rs ! k)) = map (\<lambda>r. take 20 (mr_descriptor r)) rs ! k"
      "take 20 (mr_descriptor (rs ! j)) = map (\<lambda>r. take 20 (mr_descriptor r)) rs ! j"
      using assms(3) that(2) by simp_all
    then show "take 20 (mr_descriptor (rs ! k)) \<noteq> take 20 (mr_descriptor (rs ! j))"
      using assms(3,6) that(2,3) by (metis length_map nth_eq_iff_index_eq)
  qed (use assms(2,3,5) that(2) in \<open>simp_all add: list_all_length\<close>)
  have before: "unat (fst (snd (foldl ?step (None, 0, 0, 0, 0) [0..<n]))) < 65536" if "n \<le> k" for n
    using that
  proof (induction n)
    case (Suc n)
    then show ?case using other [of n] assms(3)
      by (auto simp: best_pair_step_def split: option.splits prod.splits)
  qed simp
  have "?step (foldl ?step (None, 0, 0, 0, 0) [0..<k]) k = ?full"
    using before [of k] assms(4) score_pair_self [OF assms(1), of "rs ! k"]
    by (simp add: best_pair_step_def word_less_nat_alt matcher_consts)
  moreover have "?step ?full j = ?full" if "j < length rs" "j \<noteq> k" for j
    using other [OF _ that] by (auto simp: best_pair_step_def word_less_nat_alt matcher_consts split: option.splits prod.splits)
  then have "foldl ?step ?full js = ?full" if "set js \<subseteq> {Suc k..<length rs}" for js
    using that by (induction js) auto
  moreover have "[0..<length rs] = [0..<k] @ k # [Suc k..<length rs]"
    using assms(3) upt_add_eq_append [of 0 k "length rs - k"] by (simp add: upt_conv_Cons)
  ultimately show ?thesis by (simp add: best_pair_def)
qed

text \<open>Records with pairwise different descriptors, as many as the minimum or more.\<close>

definition separated :: "gx5125_matcher_config \<Rightarrow> gx_match_record list \<Rightarrow> bool" where
  "separated config rs \<longleftrightarrow>
     matcher_config_valid config \<and> unat (mc_minimum_matched_pairs config) \<le> length rs \<and> length rs \<le> 120
     \<and> list_all in_field rs \<and> list_all (\<lambda>r. 20 \<le> length (mr_descriptor r)) rs
     \<and> distinct (map (\<lambda>r. take 20 (mr_descriptor r)) rs)"

lemma match_self_step:
  assumes "separated config rs" "n < length rs" "t0 \<in> set rs"
  shows "match_step config t0 t0 rs
      \<lparr>mt_probe_used = replicate n True @ replicate (120 - n) False, mt_matched = n,
       mt_descriptor_total = of_nat n * 65536, mt_spatial_total = of_nat n * 65536, mt_angle_total = of_nat n * 65536\<rparr>
      (rs ! n)
    = \<lparr>mt_probe_used = replicate (Suc n) True @ replicate (120 - Suc n) False, mt_matched = Suc n,
       mt_descriptor_total = of_nat (Suc n) * 65536, mt_spatial_total = of_nat (Suc n) * 65536,
       mt_angle_total = of_nat (Suc n) * 65536\<rparr>"
proof -
  let ?used = "replicate n True @ replicate (120 - n) False"
  have n: "n < 120" using assms(1,2) by (simp add: separated_def)
  then have u: "\<not> ?used ! n" by (simp add: nth_append)
  have "replicate (120 - n) False = False # replicate (120 - Suc n) False"
    using n by (metis Suc_diff_Suc replicate_Suc)
  then have used: "?used[n := True] = replicate (Suc n) True @ replicate (120 - Suc n) False"
    by (simp add: list_update_append replicate_append_same)
  have best: "best_pair config 0 (mr_x_q8 (rs ! n), mr_y_q8 (rs ! n)) (rs ! n) rs ?used
      = (Some n, GX_Q16_ONE, GX_Q16_ONE, GX_Q16_ONE, GX_Q16_ONE)"
    using assms(1,2) u by (intro best_pair_self) (simp_all add: separated_def)
  have sum: "(of_nat n * 65536 :: u64) + ucast GX_Q16_ONE = of_nat (Suc n) * 65536"
    by (simp add: matcher_consts distrib_right)
  show ?thesis
    unfolding match_step_def Let_def diff_self normalize_zero transform_self match_totals.simps best
      prod.case option.case used sum by simp
qed

lemma match_self:
  assumes "separated config rs" "t0 \<in> set rs"
  shows "match_records config t0 t0 rs rs
    = \<lparr>mt_probe_used = replicate (length rs) True @ replicate (120 - length rs) False, mt_matched = length rs,
       mt_descriptor_total = of_nat (length rs) * 65536, mt_spatial_total = of_nat (length rs) * 65536,
       mt_angle_total = of_nat (length rs) * 65536\<rparr>"
proof -
  have "n \<le> length rs \<Longrightarrow> foldl (match_step config t0 t0 rs)
      \<lparr>mt_probe_used = replicate GX_MATCH_MAX_RECORDS False, mt_matched = 0,
        mt_descriptor_total = 0, mt_spatial_total = 0, mt_angle_total = 0\<rparr> (take n rs)
    = \<lparr>mt_probe_used = replicate n True @ replicate (120 - n) False, mt_matched = n,
       mt_descriptor_total = of_nat n * 65536, mt_spatial_total = of_nat n * 65536,
       mt_angle_total = of_nat n * 65536\<rparr>" for n
  proof (induction n)
    case 0
    then show ?case by (simp add: matcher_consts)
  next
    case (Suc n)
    then show ?case using match_self_step [OF assms(1) _ assms(2)] by (simp only: take_Suc_conv_app_nth Suc_le_eq foldl_append foldl.simps less_imp_le)
  qed
  from this [of "length rs"] show ?thesis by (simp add: match_records_def)
qed

lemma evaluate_self:
  assumes "separated config rs" "0 < length rs" "ms_template_index seed < length rs"
    and "ms_probe_index seed = ms_template_index seed"
  shows "mh_score_q16 (evaluate_hypothesis rs rs config seed) = GX_Q16_ONE
    \<and> mh_matched_pairs (evaluate_hypothesis rs rs config seed) = length rs"
proof -
  have le: "length rs \<le> 120" "unat (mc_minimum_matched_pairs config) \<le> length rs"
    using assms(1) by (simp_all add: separated_def)
  have "rs ! ms_template_index seed \<in> set rs" using assms(3) by simp
  note m = match_self [OF assms(1) this]
  have "unat (of_nat (length rs) * 65536 :: u64) = 65536 * length rs"
    using le by (simp add: unat_word_ariths unat_of_nat)
  then have "unat (ucast (of_nat (length rs) * 65536 div of_nat (length rs) :: u64) :: u32) = 65536"
    using average_bound(1) [of "of_nat (length rs) * 65536" "length rs"] assms(2) le by simp
  then have a: "(ucast (of_nat (length rs) * 65536 div of_nat (length rs) :: u64) :: u32) = 65536"
    by (simp add: word_unat_eq_iff)
  have "unat (of_nat (length rs) :: u64) = length rs" using le by (simp add: unat_of_nat)
  then have "(of_nat (length rs) :: u64) \<noteq> 0" using assms(2) by (metis less_irrefl unat_0)
  then show ?thesis
    unfolding evaluate_hypothesis_def Let_def assms(4) m match_totals.simps a
    using le by (simp add: q16_one matcher_consts)
qed

lemma first_seed_self:
  assumes "separated config rs" "0 < length rs"
  shows "\<exists>s seeds. kept_seeds config rs rs = s # seeds
    \<and> ms_template_index s < length rs \<and> ms_probe_index s = ms_template_index s"
proof -
  let ?cs = "seed_candidates config rs rs"
  have v: "matcher_config_valid config" using assms(1) by (simp add: separated_def)
  have mem: "\<lparr>ms_template_index = 0, ms_probe_index = 0, ms_descriptor_hamming = 0\<rparr> \<in> set ?cs"
    using assms(2) by (force simp: seed_candidates_def Let_def hamming_self image_iff)
  then obtain s ss where r: "rank_sort seed_better ?cs = s # ss"
    using set_rank_sort [of seed_better ?cs] by (cases "rank_sort seed_better ?cs") auto
  have "s \<in> set ?cs" using r set_rank_sort [of seed_better ?cs] by auto
  moreover have "ms_descriptor_hamming s = 0" using seeds.head_best [OF r mem] by (simp add: word_gt_0)
  ultimately obtain i j where ij: "s = \<lparr>ms_template_index = i, ms_probe_index = j, ms_descriptor_hamming = 0\<rparr>"
      "i < length rs" "j < length rs" "descriptor_hamming (mr_descriptor (rs ! i)) (mr_descriptor (rs ! j)) = 0"
    by (auto simp: seed_candidates_def Let_def)
  have l: "20 \<le> length (mr_descriptor (rs ! i))" "20 \<le> length (mr_descriptor (rs ! j))"
    using assms(1) ij(2,3) by (simp_all add: separated_def list_all_length)
  have "\<forall>k<20. mr_descriptor (rs ! i) ! k = mr_descriptor (rs ! j) ! k"
    using hamming_bits [OF l] ij(4) by (auto simp: bit_total_zero xor_zero_iff)
  then have "take 20 (mr_descriptor (rs ! i)) = take 20 (mr_descriptor (rs ! j))"
    using l by (auto simp: list_eq_iff_nth_eq)
  then have "map (\<lambda>r. take 20 (mr_descriptor r)) rs ! i = map (\<lambda>r. take 20 (mr_descriptor r)) rs ! j"
    using ij(2,3) by simp
  moreover have "distinct (map (\<lambda>r. take 20 (mr_descriptor r)) rs)" using assms(1) by (simp add: separated_def)
  ultimately have "i = j" using ij(2,3) by (metis length_map nth_eq_iff_index_eq)
  moreover obtain c where "unat (mc_maximum_seed_pairs config) = Suc c"
    using v by (cases "unat (mc_maximum_seed_pairs config)") (auto simp: matcher_config_valid_def word_gt_0 unat_eq_0)
  ultimately show ?thesis using ij kept_seeds_eq [OF v] r by simp
qed

lemma best_self:
  assumes "separated config rs" "0 < length rs"
  shows "mh_score_q16 (best_hypothesis config rs rs) = GX_Q16_ONE
    \<and> mh_matched_pairs (best_hypothesis config rs rs) = length rs"
proof -
  have v: "matcher_config_valid config" using assms(1) by (simp add: separated_def)
  obtain s seeds where k: "kept_seeds config rs rs = s # seeds" "ms_template_index s < length rs"
      "ms_probe_index s = ms_template_index s" using first_seed_self [OF assms] by blast
  let ?e = "evaluate_hypothesis rs rs config"
  have first: "mh_score_q16 (better_hypothesis zero_hypothesis (?e s)) = GX_Q16_ONE
      \<and> mh_matched_pairs (better_hypothesis zero_hypothesis (?e s)) = length rs"
    using evaluate_self [OF assms k(2,3)] by (simp add: better_hypothesis_def zero_hypothesis_def matcher_consts)
  have "foldl (\<lambda>best s. better_hypothesis best (?e s)) best ss = best"
    if "set ss \<subseteq> set (seed_candidates config rs rs)" "mh_score_q16 best = GX_Q16_ONE"
      "mh_matched_pairs best = length rs" for ss best
    using that
  proof (induction ss)
    case (Cons x ss)
    have "hypothesis_ok config (length rs) (?e x)"
      using evaluate_ok [of rs rs x config] candidates_in_range [of x config rs rs] Cons.prems(1) assms(1)
      by (auto simp: separated_def matcher_config_valid_def word_gt_0 unat_gt_0)
    then have "unat (mh_score_q16 (?e x)) \<le> 65536" "mh_matched_pairs (?e x) \<le> length rs"
      using score_bound by (blast, simp add: hypothesis_ok_def)
    then have "better_hypothesis best (?e x) = best" using Cons.prems(2,3)
      by (auto simp: better_hypothesis_def word_less_nat_alt matcher_consts)
    then show ?case using Cons by simp
  qed simp
  moreover have "set seeds \<subseteq> set (seed_candidates config rs rs)"
    using kept_seeds_eq [OF v, of rs rs] k(1) set_take_subset [of _ "rank_sort seed_better (seed_candidates config rs rs)"]
    by (metis set_rank_sort set_subset_Cons subset_trans)
  ultimately show ?thesis using first unfolding best_as_fold [OF v] k(1) by simp
qed

text \<open>The 20 descriptor bytes of a record in the buffer.\<close>

definition descriptor_bytes :: "u8 list \<Rightarrow> nat \<Rightarrow> u8 list" where
  "descriptor_bytes records k = take 20 (drop (k * 60 + 16) records)"

text \<open>
  C22: a finger matches itself. When the records of the probe are those of the template, no two of
  them have the same descriptor, and there are at least as many as the configured minimum of pairs,
  the score is exactly one and every record is matched; the pair is a match for every threshold.
\<close>

theorem self_match:
  assumes "matcher_config_valid (resolve_config config)"
    and "fv_records probe = Buf (es_records sample)" "fv_record_count probe = es_record_count sample"
    and "es_record_count sample \<noteq> 0" "unat (es_record_count sample) \<le> 120"
    and "length (es_records sample) = unat (es_record_count sample) * 60"
    and "unat (mc_minimum_matched_pairs (resolve_config config)) \<le> unat (es_record_count sample)"
    and "distinct (map (descriptor_bytes (es_records sample)) [0..<unat (es_record_count sample)])"
  shows "\<exists>r. gx5125_matcher_score_views sample probe config result = (Inr (), r)
    \<and> re_score_q16 r = GX_Q16_ONE \<and> re_matched_pairs r = unat (es_record_count sample)
    \<and> re_matched r = (mc_decision_threshold_q16 (resolve_config config) \<noteq> 0)"
proof -
  let ?rs = "map (parse_record (es_records sample)) [0..<unat (es_record_count sample)]"
  have p: "parse_records (Buf (es_records sample)) (es_record_count sample) = Inr ?rs"
    using assms(4-6) by (simp add: parse_records_def matcher_consts)
  have l: "20 \<le> length (mr_descriptor (parse_record (es_records sample) k))"
    "take 20 (mr_descriptor (parse_record (es_records sample) k)) = descriptor_bytes (es_records sample) k"
    if "k < unat (es_record_count sample)" for k
    using that assms(6) by (simp_all add: parse_record_def Let_def matcher_consts descriptor_bytes_def add.commute)
  have d: "map (\<lambda>k. take 20 (mr_descriptor (parse_record (es_records sample) k))) [0..<unat (es_record_count sample)]
      = map (descriptor_bytes (es_records sample)) [0..<unat (es_record_count sample)]"
    using l(2) by (intro map_cong) simp_all
  have "separated (resolve_config config) ?rs"
    using assms(1,5,7,8) l(1) by (simp add: separated_def list_all_iff parse_record_in_field o_def d)
  moreover have "0 < length ?rs" using assms(4) by (simp add: unat_gt_0)
  ultimately have b: "mh_score_q16 (best_hypothesis (resolve_config config) ?rs ?rs) = GX_Q16_ONE
    \<and> mh_matched_pairs (best_hypothesis (resolve_config config) ?rs ?rs) = length ?rs" by (rule best_self)
  show ?thesis
    using assms(1-3,7) b p
    by (auto simp: gx5125_matcher_score_views_def Let_def result_of_def matcher_config_valid_def)
qed

section \<open>The consensus of an enrollment\<close>

interpretation tops: ranking top_better
  by unfold_locales auto

lemma top_insert_holds:
  assumes "holds_best top_better 3 st offered"
  shows "holds_best top_better 3 (top_insert st c) (offered @ [c])"
proof -
  obtain xs n where st: "st = (xs, n)" by (rule prod.exhaust)
  note h = assms [unfolded st]
  show ?thesis
  proof (cases "n < 3")
    case True
    then show ?thesis using tops.insert_free [OF h True] by (simp add: st top_insert_def)
  next
    case False
    let ?refused = "re_score_q16 c < re_score_q16 (xs ! 2)
        \<or> (re_score_q16 c = re_score_q16 (xs ! 2) \<and> re_matched_pairs c \<le> re_matched_pairs (xs ! 2))"
    have eq: "top_better c (xs ! (3 - 1)) \<longleftrightarrow> \<not> ?refused" by auto
    show ?thesis
    proof (cases ?refused)
      case True
      then have "top_insert st c = (xs, n)" using False by (simp add: st top_insert_def)
      moreover have "holds_best top_better 3 (xs, n) (offered @ [c])"
        by (rule tops.insert_full(2) [OF h False]) (simp, use eq True in blast)
      ultimately show ?thesis by (simp only:)
    next
      case accepted: False
      then have "top_insert st c = (shift_insert top_better xs (3 - 1) c, n)"
        using False by (auto simp add: st top_insert_def)
      moreover have "holds_best top_better 3 (shift_insert top_better xs (3 - 1) c, n) (offered @ [c])"
        by (rule tops.insert_full(1) [OF h False]) (simp, use eq accepted in blast)
      ultimately show ?thesis by (simp only:)
    qed
  qed
qed

text \<open>The result of one stored sample, as it enters the ranking.\<close>

definition scored ::
    "gx5125_enrollment \<Rightarrow> gx5125_feature_view \<Rightarrow> gx5125_matcher_config \<Rightarrow> nat \<Rightarrow> gx5125_match_result \<Rightarrow> bool" where
  "scored e probe config i c \<longleftrightarrow>
     i < length (en_samples e)
     \<and> fst (gx5125_matcher_score_views (en_samples e ! i) probe (Some config) zero_match_result) = Inr ()
     \<and> c = snd (gx5125_matcher_score_views (en_samples e ! i) probe (Some config) zero_match_result)
           \<lparr>re_best_sample_index := i\<rparr>"

lemma score_samples_ranks:
  "score_samples e probe config is st = Inr st' \<Longrightarrow> holds_best top_better 3 st offered \<Longrightarrow>
   \<exists>cs. list_all2 (scored e probe config) is cs \<and> holds_best top_better 3 st' (offered @ cs)"
proof (induction "is" arbitrary: st offered)
  case (Cons i "is")
  obtain rc c where v: "gx5125_matcher_score_views (en_samples e ! i) probe (Some config) zero_match_result = (rc, c)"
    by (rule prod.exhaust)
  have i: "i < length (en_samples e)" "rc = Inr ()"
    "score_samples e probe config is (top_insert st (c\<lparr>re_best_sample_index := i\<rparr>)) = Inr st'"
    using Cons.prems(1) v by (auto simp: gx5125_enrollment_get_sample_view_def split: if_splits sum.splits)
  obtain cs where "list_all2 (scored e probe config) is cs"
      "holds_best top_better 3 st' ((offered @ [c\<lparr>re_best_sample_index := i\<rparr>]) @ cs)"
    using Cons.IH [OF i(3) top_insert_holds [OF Cons.prems(2)]] by blast
  moreover have "scored e probe config i (c\<lparr>re_best_sample_index := i\<rparr>)"
    using i(1,2) v by (simp add: scored_def)
  ultimately show ?case by (intro exI [of _ "c\<lparr>re_best_sample_index := i\<rparr> # cs"]) simp
qed auto

lemma scored_bound:
  assumes "scored e probe config i c"
  shows "unat (re_score_q16 c) \<le> 65536"
proof -
  obtain r where "gx5125_matcher_score_views (en_samples e ! i) probe (Some config) zero_match_result = (Inr (), r)"
      "c = r\<lparr>re_best_sample_index := i\<rparr>"
    using assms by (auto simp: scored_def) (metis prod.collapse)
  from score_views_Inr [OF this(1)] this(2) show ?thesis
    using score_bound by (auto simp: result_of_def)
qed

text \<open>The weighted mean of the best \<open>k\<close> scores.\<close>

definition weighted_score :: "nat \<Rightarrow> nat \<Rightarrow> nat \<Rightarrow> nat \<Rightarrow> nat" where
  "weighted_score k s0 s1 s2 =
     (if k = 1 then s0 else if k = 2 then (s0 * 5 + s1 * 3) div 8 else (s0 * 5 + s1 * 3 + s2 * 2) div 10)"

lemma weighted_le: "(2 \<le> k \<Longrightarrow> s1 \<le> s0) \<Longrightarrow> (3 \<le> k \<Longrightarrow> s2 \<le> s0) \<Longrightarrow> 1 \<le> k \<Longrightarrow> weighted_score k s0 s1 s2 \<le> s0"
  by (auto simp: weighted_score_def)

lemma consensus_spec:
  assumes "holds_best top_better 3 (best3, n) cs" "cs \<noteq> []" "matcher_config_valid config"
    and "list_all (\<lambda>c. unat (re_score_q16 c) \<le> 65536) cs"
  defines "lead \<equiv> take 3 (rank_sort top_better cs)"
    and "k \<equiv> min (unat (mc_consensus_sample_count config)) (length cs)"
    and "r \<equiv> consensus config (best3, n)"
  shows "re_best_sample_index r = re_best_sample_index (lead ! 0)
    \<and> re_best_sample_score_q16 r = re_score_q16 (lead ! 0)
    \<and> list_all (\<lambda>c. re_score_q16 c \<le> re_best_sample_score_q16 r) cs
    \<and> unat (re_score_q16 r) = weighted_score k (unat (re_score_q16 (lead ! 0)))
         (unat (re_score_q16 (lead ! 1))) (unat (re_score_q16 (lead ! 2)))
    \<and> re_score_q16 r \<le> re_best_sample_score_q16 r
    \<and> (re_matched r \<longleftrightarrow> mc_decision_threshold_q16 config \<noteq> 0
         \<and> unat (mc_consensus_sample_count config) \<le> length cs
         \<and> mc_decision_threshold_q16 config \<le> re_score_q16 r
         \<and> unat (mc_minimum_matched_pairs config) \<le> re_matched_pairs (lead ! 0))"
proof -
  have n: "n = min 3 (length cs)" and t: "take n best3 = lead"
    using assms(1) unfolding holds_best_def lead_def fst_conv snd_conv by blast+
  have nth: "best3 ! i = lead ! i" if "i < n" for i
    using that t by (metis nth_take)
  have mem: "lead ! i \<in> set cs" if "i < n" for i
  proof -
    have "i < length lead" using that n by (simp add: lead_def)
    then have "lead ! i \<in> set lead" by (rule nth_mem)
    then have "lead ! i \<in> set (rank_sort top_better cs)" unfolding lead_def by (rule in_set_takeD)
    then show ?thesis by simp
  qed
  have len: "1 \<le> length cs" using assms(2) by (cases cs) simp_all
  then have n1: "0 < n" using n assms(2) by simp
  have best: "re_score_q16 c \<le> re_score_q16 (lead ! 0)" if "c \<in> set cs" for c
  proof -
    have "length (rank_sort top_better cs) \<noteq> 0" using assms(2) by simp
    then obtain y ys where y: "rank_sort top_better cs = y # ys"
      by (cases "rank_sort top_better cs") auto
    then show ?thesis using tops.head_best [OF y that] by (auto simp: lead_def)
  qed
  have cc: "0 < unat (mc_consensus_sample_count config)" "unat (mc_consensus_sample_count config) \<le> 3"
    using assms(3) by (simp_all add: matcher_config_valid_def word_gt_0 unat_gt_0 word_le_nat_alt)
  then have k: "1 \<le> k" "k \<le> n" "k \<le> 3" using n len by (simp_all add: k_def)
  have bnd: "unat (re_score_q16 (lead ! i)) \<le> 65536" if "i < n" for i
    using assms(4) mem [OF that] by (simp add: list_all_iff)
  let ?req = "if unat (mc_consensus_sample_count config) > n then of_nat n else mc_consensus_sample_count config"
  have req: "unat ?req = k" using n cc by (simp add: k_def unat_of_nat)
  then have req': "?req = 1 \<longleftrightarrow> k = 1" "?req = 2 \<longleftrightarrow> k = 2" by (simp_all add: word_unat_eq_iff)
  have eq: "?req = mc_consensus_sample_count config \<longleftrightarrow> unat (mc_consensus_sample_count config) \<le> length cs"
    unfolding word_unat_eq_iff req using cc n by (auto simp: k_def)
  have score: "unat (re_score_q16 r) = weighted_score k (unat (re_score_q16 (lead ! 0)))
         (unat (re_score_q16 (lead ! 1))) (unat (re_score_q16 (lead ! 2)))"
  proof -
    consider "k = 1" | "k = 2" "1 < n" | "k = 3" "1 < n" "2 < n" using k by linarith
    then show ?thesis
    proof cases
      case 1
      then show ?thesis using req' nth n1 by (simp add: r_def consensus_def Let_def weighted_score_def)
    next
      case 2
      then have "re_score_q16 r = (re_score_q16 (lead ! 0) * 5 + re_score_q16 (lead ! 1) * 3) div 8"
        using req' nth n1 by (simp add: r_def consensus_def Let_def)
      then show ?thesis using 2 bnd [of 0] bnd [of 1]
        by (simp add: weighted_score_def unat_div unat_word_ariths)
    next
      case 3
      then have "re_score_q16 r
          = (re_score_q16 (lead ! 0) * 5 + re_score_q16 (lead ! 1) * 3 + re_score_q16 (lead ! 2) * 2) div 10"
        using req' nth n1 by (simp add: r_def consensus_def Let_def)
      then show ?thesis using 3 bnd [of 0] bnd [of 1] bnd [of 2]
        by (simp add: weighted_score_def unat_div unat_word_ariths)
    qed
  qed
  have "unat (re_score_q16 r) \<le> unat (re_score_q16 (lead ! 0))"
    unfolding score using best [OF mem] k by (intro weighted_le) (simp_all add: word_le_nat_alt)
  then have le: "re_score_q16 r \<le> re_score_q16 (lead ! 0)" by (simp add: word_le_nat_alt)
  have fields: "re_best_sample_index r = re_best_sample_index (lead ! 0)"
    "re_best_sample_score_q16 r = re_score_q16 (lead ! 0)"
    using nth n1 by (simp_all add: r_def consensus_def Let_def)
  have "re_matched r \<longleftrightarrow> mc_decision_threshold_q16 config \<noteq> 0 \<and> ?req = mc_consensus_sample_count config
      \<and> mc_decision_threshold_q16 config \<le> re_score_q16 r
      \<and> unat (mc_minimum_matched_pairs config) \<le> re_matched_pairs (lead ! 0)"
    using nth n1 by (simp add: r_def consensus_def Let_def)
  with eq score le fields best show ?thesis by (simp add: list_all_iff)
qed

text \<open>
  The enrollment score is a consensus of the best samples. A successful comparison has scored
  every stored sample; the result names the best one, no sample has a better score, and the score is
  the weighted mean (5:3:2, or 5:3, or the best alone) of the configured number of best samples, as
  far as there are that many. A match is announced only with that many samples, a configured
  threshold that the mean reaches, and enough pairs in the best sample.
\<close>

theorem enrollment_consensus:
  assumes "gx5125_matcher_score_enrollment e (Some probe) config result = (Inr (), r)"
    and "length (en_samples e) < 2 ^ 32"
  shows "\<exists>cs lead k. list_all2 (scored e probe (resolve_config config)) [0..<length (en_samples e)] cs
    \<and> lead = take 3 (rank_sort top_better cs)
    \<and> k = min (unat (mc_consensus_sample_count (resolve_config config))) (length cs)
    \<and> re_best_sample_index r = re_best_sample_index (lead ! 0)
    \<and> re_best_sample_score_q16 r = re_score_q16 (lead ! 0)
    \<and> list_all (\<lambda>c. re_score_q16 c \<le> re_best_sample_score_q16 r) cs
    \<and> unat (re_score_q16 r) = weighted_score k (unat (re_score_q16 (lead ! 0)))
         (unat (re_score_q16 (lead ! 1))) (unat (re_score_q16 (lead ! 2)))
    \<and> re_score_q16 r \<le> re_best_sample_score_q16 r
    \<and> (re_matched r \<longleftrightarrow> mc_decision_threshold_q16 (resolve_config config) \<noteq> 0
         \<and> unat (mc_consensus_sample_count (resolve_config config)) \<le> length cs
         \<and> mc_decision_threshold_q16 (resolve_config config) \<le> re_score_q16 r
         \<and> unat (mc_minimum_matched_pairs (resolve_config config)) \<le> re_matched_pairs (lead ! 0))"
proof -
  have n: "unat (eu_accepted_samples (gx5125_enrollment_get_summary e)) = length (en_samples e)"
    using assms(2) by (simp add: gx5125_enrollment_get_summary_def unat_of_nat)
  obtain best3 m where s: "matcher_config_valid (resolve_config config)"
      "score_samples e probe (resolve_config config) [0..<length (en_samples e)] (replicate 3 zero_match_result, 0)
         = Inr (best3, m)" "m \<noteq> 0" "r = consensus (resolve_config config) (best3, m)"
    using assms(1) unfolding gx5125_matcher_score_enrollment_def Let_def n
    by (auto split: if_splits sum.splits)
  have "holds_best top_better 3 (replicate 3 zero_match_result, 0) []"
    by (rule holds_best_empty) simp
  from score_samples_ranks [OF s(2) this] obtain cs where
    cs: "list_all2 (scored e probe (resolve_config config)) [0..<length (en_samples e)] cs"
      "holds_best top_better 3 (best3, m) cs" by auto
  have "cs \<noteq> []" using cs(2) s(3) by (auto simp: holds_best_def)
  moreover have "list_all (\<lambda>c. unat (re_score_q16 c) \<le> 65536) cs"
    using cs(1) scored_bound by (fastforce simp: list_all_length list_all2_conv_all_nth)
  ultimately show ?thesis
    using consensus_spec [OF cs(2) _ s(1)] cs(1) unfolding s(4) by blast
qed

section \<open>An example\<close>

definition one_pair_config :: gx5125_matcher_config where
  "one_pair_config = gx5125_matcher_default_config\<lparr>mc_minimum_matched_pairs := 1\<rparr>"

definition example_sample :: gx5125_enrollment_sample where
  "example_sample =
     \<lparr>es_record_count = 2, es_records = replicate 60 0 @ replicate 60 0xff, es_packed_map = [],
      es_metrics = \<lparr>em_quality = 0, em_coverage = 0, em_mask_coverage_q16 = 0\<rparr>\<rparr>"

definition example_probe :: gx5125_feature_view where
  "example_probe =
     \<lparr>fv_record_count = 2, fv_records = Buf (replicate 60 0 @ replicate 60 0xff), fv_packed_map = Null 0\<rparr>"

definition example_enrollment :: gx5125_enrollment where
  "example_enrollment = (empty_enrollment gx5125_enrollment_default_config)\<lparr>en_samples := [example_sample]\<rparr>"

lemma one_pair_valid: "matcher_config_valid one_pair_config"
  by (simp add: one_pair_config_def gx5125_matcher_default_config_def matcher_config_valid_def matcher_consts)

lemma example_distinct: "distinct (map (descriptor_bytes (es_records example_sample)) [0..<2])"
  by code_simp

lemma resolve_Some [simp]: "resolve_config (Some c) = c"
  by (simp add: resolve_config_def)

lemma example_match:
  "\<exists>r. gx5125_matcher_score_views example_sample example_probe (Some one_pair_config) result = (Inr (), r)"
  by (simp add: gx5125_matcher_score_views_def one_pair_valid parse_records_def example_sample_def
      example_probe_def matcher_consts)

theorem self_match_witness:
  "\<exists>r. gx5125_matcher_score_views example_sample example_probe (Some one_pair_config) zero_match_result = (Inr (), r)
    \<and> re_score_q16 r = GX_Q16_ONE \<and> re_matched_pairs r = 2"
proof -
  have c: "unat (es_record_count example_sample) = 2" by (simp add: example_sample_def)
  have "\<exists>r. gx5125_matcher_score_views example_sample example_probe (Some one_pair_config) zero_match_result = (Inr (), r)
    \<and> re_score_q16 r = GX_Q16_ONE \<and> re_matched_pairs r = unat (es_record_count example_sample)
    \<and> re_matched r = (mc_decision_threshold_q16 (resolve_config (Some one_pair_config)) \<noteq> 0)"
  proof (rule self_match)
    show "matcher_config_valid (resolve_config (Some one_pair_config))" by (simp add: one_pair_valid)
    show "distinct (map (descriptor_bytes (es_records example_sample)) [0..<unat (es_record_count example_sample)])"
      unfolding c by (rule example_distinct)
  qed (simp_all add: one_pair_valid example_probe_def example_sample_def one_pair_config_def
      gx5125_matcher_default_config_def)
  then show ?thesis unfolding c by blast
qed

theorem match_result_bounds_witness:
  "\<exists>r. gx5125_matcher_score_views example_sample example_probe (Some one_pair_config) zero_match_result = (Inr (), r)
    \<and> re_matched_pairs r \<le> 2 \<and> unat (re_score_q16 r) \<le> 65536"
proof -
  obtain r where r: "gx5125_matcher_score_views example_sample example_probe (Some one_pair_config) zero_match_result = (Inr (), r)"
    using example_match by blast
  from match_result_bounds [OF r] r show ?thesis by (simp add: example_sample_def example_probe_def)
qed

theorem seeds_are_closest_witness:
  "\<exists>rest. kept_seeds one_pair_config [] [] @ rest = rank_sort seed_better (seed_candidates one_pair_config [] [])"
  using seeds_are_closest [OF one_pair_valid, of "[]" "[]"] by blast

theorem enrollment_consensus_witness:
  "\<exists>r cs. gx5125_matcher_score_enrollment example_enrollment (Some example_probe) (Some one_pair_config) zero_match_result
      = (Inr (), r) \<and> list_all2 (scored example_enrollment example_probe one_pair_config) [0..<1] cs"
proof -
  obtain r where v: "gx5125_matcher_score_views example_sample example_probe (Some one_pair_config) zero_match_result = (Inr (), r)"
    using example_match by blast
  have "\<exists>r. gx5125_matcher_score_enrollment example_enrollment (Some example_probe) (Some one_pair_config) zero_match_result
      = (Inr (), r)"
    by (simp add: gx5125_matcher_score_enrollment_def one_pair_valid gx5125_enrollment_get_summary_def
        example_enrollment_def gx5125_enrollment_get_sample_view_def empty_enrollment_def v top_insert_def)
  then obtain r where r: "gx5125_matcher_score_enrollment example_enrollment (Some example_probe) (Some one_pair_config)
      zero_match_result = (Inr (), r)" by blast
  from enrollment_consensus [OF this] r show ?thesis
    by (simp add: example_enrollment_def empty_enrollment_def) blast
qed

end
