(* ===== verification/Device.thy ===== *)
theory Device
  imports Channel
begin

text \<open>
  The device of \<open>src/gx_device.c\<close>: one structure that owns the USB handles, the receiver session and
  the TLS server, opened in stages and closed from any of them. Everything the code asks of the
  outside (libusb, OpenSSL, the receiver's schedule, the key file, the clocks, other threads' stores to
  the cancel flag) is a \<open>device_world\<close>, whose parts may depend on the whole history. The delays of
  \<open>sleep_ms\<close> have no effect on the state and are left out, and so is the mean and the standard
  deviation of the capture metadata (floating point).
\<close>

section \<open>Data\<close>

datatype gx5125_device_state =
    GX5125_DEVICE_CLOSED
  | GX5125_DEVICE_USB_OPEN
  | GX5125_DEVICE_INTERFACES_CLAIMED
  | GX5125_DEVICE_RECEIVER_RUNNING
  | GX5125_DEVICE_SENSOR_READY
  | GX5125_DEVICE_TLS_READY
  | GX5125_DEVICE_ACTIVE
  | GX5125_DEVICE_CAPTURING
  | GX5125_DEVICE_ERROR

datatype gx5125_device_status =
    GX5125_DEVICE_OK
  | GX5125_DEVICE_ERR_ARGUMENT
  | GX5125_DEVICE_ERR_STATE
  | GX5125_DEVICE_ERR_MEMORY
  | GX5125_DEVICE_ERR_PSK
  | GX5125_DEVICE_ERR_USB_OPEN
  | GX5125_DEVICE_ERR_USB_LAYOUT
  | GX5125_DEVICE_ERR_USB_CLAIM
  | GX5125_DEVICE_ERR_RECEIVER
  | GX5125_DEVICE_ERR_PREFLIGHT
  | GX5125_DEVICE_ERR_SENSOR_INIT
  | GX5125_DEVICE_ERR_TLS
  | GX5125_DEVICE_ERR_CAPTURE
  | GX5125_DEVICE_ERR_CRC
  | GX5125_DEVICE_ERR_CANCELLED

text \<open>The states in the order of the enumeration.\<close>

fun state_value :: "gx5125_device_state \<Rightarrow> nat" where
  "state_value GX5125_DEVICE_CLOSED = 0"
| "state_value GX5125_DEVICE_USB_OPEN = 1"
| "state_value GX5125_DEVICE_INTERFACES_CLAIMED = 2"
| "state_value GX5125_DEVICE_RECEIVER_RUNNING = 3"
| "state_value GX5125_DEVICE_SENSOR_READY = 4"
| "state_value GX5125_DEVICE_TLS_READY = 5"
| "state_value GX5125_DEVICE_ACTIVE = 6"
| "state_value GX5125_DEVICE_CAPTURING = 7"
| "state_value GX5125_DEVICE_ERROR = 8"

lemma state_value_inject [simp]: "state_value s = state_value t \<longleftrightarrow> s = t"
  by (cases s; cases t) simp_all

instantiation gx5125_device_state :: linorder
begin

definition less_eq_gx5125_device_state :: "gx5125_device_state \<Rightarrow> gx5125_device_state \<Rightarrow> bool" where
  "less_eq_gx5125_device_state s t \<longleftrightarrow> state_value s \<le> state_value t"

definition less_gx5125_device_state :: "gx5125_device_state \<Rightarrow> gx5125_device_state \<Rightarrow> bool" where
  "less_gx5125_device_state s t \<longleftrightarrow> state_value s < state_value t"

instance
  by standard (auto simp: less_eq_gx5125_device_state_def less_gx5125_device_state_def)

end

lemmas state_order = less_eq_gx5125_device_state_def less_gx5125_device_state_def

record gx5125_device_config =
  psk_path :: "string option"
  command_timeout_ms :: u32
  tls_timeout_ms :: u32
  capture_timeout_ms :: u32
  capture_attempts :: u32
  retry_delay_ms :: u32
  libusb_log_level :: int

record gx5125_device_info =
  vendor_id :: u16
  product_id :: u16
  chip_id :: u16
  sensor_profile :: u8
  info_width :: u32
  info_height :: u32
  raw16_bytes :: u32
  otp_cp_crc_ok :: u8
  otp_ft_crc_ok :: u8
  otp_mt_crc_ok :: u8
  otp_dac_valid :: u8
  tls_identity_valid :: u8
  mcu_state_flags :: u8

record gx5125_capture_metadata =
  md_attempt :: u32
  md_requests_sent :: nat
  md_tls_plaintext_bytes :: nat
  md_encrypted_ack_received :: u8
  md_encrypted_ack_flags :: u8
  md_response_cmd0 :: u8
  md_response_cmd1 :: u8
  md_crc_ok :: u8
  md_calculated_crc :: u32
  md_stored_crc :: u32
  md_minimum :: u16
  md_maximum :: u16

definition zero_metadata :: gx5125_capture_metadata where
  "zero_metadata =
     \<lparr>md_attempt = 0, md_requests_sent = 0, md_tls_plaintext_bytes = 0, md_encrypted_ack_received = 0,
      md_encrypted_ack_flags = 0, md_response_cmd0 = 0, md_response_cmd1 = 0, md_crc_ok = 0,
      md_calculated_crc = 0, md_stored_crc = 0, md_minimum = 0, md_maximum = 0\<rparr>"

definition GX5125_SUPPORTED_CHIP_ID :: u16 where "GX5125_SUPPORTED_CHIP_ID = 0x2504"
definition GX5125_SUPPORTED_SENSOR_PROFILE :: u8 where "GX5125_SUPPORTED_SENSOR_PROFILE = 0x0c"
definition PATH_MAX :: nat where "PATH_MAX = 4096"
definition GX5125_DEFAULT_PSK_PATH :: string where
  "GX5125_DEFAULT_PSK_PATH = ''/etc/goodix-27c6-5125/psk.hex''"

definition zero_device_info :: gx5125_device_info where
  "zero_device_info =
     \<lparr>vendor_id = 0, product_id = 0, chip_id = 0, sensor_profile = 0, info_width = 0, info_height = 0,
      raw16_bytes = 0, otp_cp_crc_ok = 0, otp_ft_crc_ok = 0, otp_mt_crc_ok = 0, otp_dac_valid = 0,
      tls_identity_valid = 0, mcu_state_flags = 0\<rparr>"

record 'e gx5125_device =
  dv_config :: gx5125_device_config
  dv_psk_path :: string
  dv_usb :: gx_usb_device
  dv_session :: gx_session
  dv_tls :: "'e gx_tls_server"
  dv_otp :: gx_otp_info
  dv_info :: gx5125_device_info
  cancel_requested :: bool
  dv_state :: gx5125_device_state
  session_started :: bool
  tls_initialized :: bool

text \<open>
  The outside world. \<open>dw_time\<close> gives the seconds of the local time and the nanoseconds of the clock;
  \<open>dw_handshake\<close> the clock at the start of the handshake and its later readings; \<open>dw_round\<close> the inputs of a
  capture request; \<open>dw_stores\<close> the stores of other threads to the cancel flag before an attempt;
  \<open>dw_tail\<close> the reads the receiver completes while it is being stopped.
\<close>

record 'e device_world =
  dw_env :: environment
  dw_engine :: "'e ssl_engine"
  dw_sched :: scheduler
  dw_psk_file :: "string \<Rightarrow> psk_file"
  dw_time :: "history \<Rightarrow> nat \<times> nat"
  dw_handshake :: "history \<Rightarrow> nat \<times> tls_tick list"
  dw_round :: "history \<Rightarrow> nat \<Rightarrow> channel_round"
  dw_stores :: "history \<Rightarrow> bool list"
  dw_tail :: "history \<Rightarrow> rx_read list"

section \<open>Commands of the opening sequence\<close>

text \<open>\<open>gx_session_command\<close> on the device's session; every caller passes valid arguments.\<close>

definition device_command ::
    "'e device_world \<Rightarrow> 'e gx5125_device \<Rightarrow> u8 \<Rightarrow> u8 \<Rightarrow> u8 list \<Rightarrow> nat \<Rightarrow> bool \<Rightarrow> nat \<Rightarrow> nat \<Rightarrow> history \<Rightarrow>
     (usb_error + unit) \<times> gx_command_result \<times> 'e gx5125_device \<times> history" where
  "device_command w d cmd0 cmd1 payload ack_ms expect_response response_ms attempts h =
     (let (rc, result, session, h1) = gx_session_command (dw_env w) (dw_sched w) (dv_usb d) (dv_session d)
            cmd0 cmd1 (Buf payload) ack_ms expect_response response_ms attempts zero_command_result h
      in (rc, result, d\<lparr>dv_session := session\<rparr>, h1))"

text \<open>The test after most commands: an error, or a response of at least \<open>n\<close> bytes.\<close>

definition response_of :: "nat \<Rightarrow> usb_error + unit \<Rightarrow> gx_command_result \<Rightarrow> usb_error + u8 list" where
  "response_of n rc result =
     (case rc of
        Inl e \<Rightarrow> Inl e
      | Inr _ \<Rightarrow> if \<not> response_received result \<or> length (cr_response result) < n then Inl LIBUSB_ERROR_IO
                 else Inr (cr_response result))"

definition minute_timestamp :: "nat \<times> nat \<Rightarrow> u16" where
  "minute_timestamp now = of_nat (fst now * 1000 + snd now div 1000000)"

definition get_mcu_state ::
    "'e device_world \<Rightarrow> 'e gx5125_device \<Rightarrow> history \<Rightarrow> (usb_error + u8) \<times> 'e gx5125_device \<times> history" where
  "get_mcu_state w d h =
     (let timestamp = minute_timestamp (dw_time w h);
          (rc, result, d1, h1) = device_command w d 0x0a 0x07
            [0x55, lo8 timestamp, hi8 timestamp, 0x00, 0x00] 0 True
            (unat (command_timeout_ms (dv_config d))) 3 h
      in (case response_of 2 rc result of Inl e \<Rightarrow> Inl e | Inr response \<Rightarrow> Inr (response ! 1), d1, h1))"

definition control_preflight ::
    "'e device_world \<Rightarrow> 'e gx5125_device \<Rightarrow> history \<Rightarrow> (usb_error + unit) \<times> 'e gx5125_device \<times> history" where
  "control_preflight w d h =
     (let timeout = unat (command_timeout_ms (dv_config d));
          (rc, result, d1, h1) = device_command w d 0x0a 0x04 [0x00, 0x00] timeout True timeout 3 h
      in case response_of 0 rc result of
           Inl e \<Rightarrow> (Inl e, d1, h1)
         | Inr _ \<Rightarrow>
             (let (rc, result, d2, h2) = device_command w d1 0x07 0x00 [0x14, 0x00] 0 False 0 1 h1
              in case rc of
                   Inl e \<Rightarrow> (Inl e, d2, h2)
                 | Inr _ \<Rightarrow>
                     (let (rc, result, d3, h3) = device_command w d2 0x08 0x01
                            [0x00, 0x00, 0x00, 0x04, 0x00] timeout True timeout 3 h2
                      in case response_of 3 rc result of
                           Inl e \<Rightarrow> (Inl e, d3, h3)
                         | Inr response \<Rightarrow>
                             (let chip = le16 (response ! 1) (response ! 2)
                              in if chip \<noteq> GX5125_SUPPORTED_CHIP_ID
                                 then (Inl LIBUSB_ERROR_NOT_SUPPORTED, d3, h3)
                                 else (Inr (), d3\<lparr>dv_info := (dv_info d3)\<lparr>chip_id := chip\<rparr>\<rparr>, h3)))))"

text \<open>The upload of the configuration block, and the whole of \<open>sensor_initialize\<close>.\<close>

definition upload_config ::
    "'e device_world \<Rightarrow> 'e gx5125_device \<Rightarrow> u8 list \<Rightarrow> history \<Rightarrow>
     (usb_error + unit) \<times> 'e gx5125_device \<times> history" where
  "upload_config w d config h =
     (let timeout = command_timeout_ms (dv_config d);
          (rc, result, d1, h1) = device_command w d 0x09 0x00 config (unat timeout) True
            (unat (timeout + 500)) 3 h
      in case rc of
           Inl e \<Rightarrow> (Inl e, d1, h1)
         | Inr _ \<Rightarrow>
             if response_received result \<and> length (cr_response result) \<ge> 1 \<and> cr_response result ! 0 \<noteq> 1
             then (Inl LIBUSB_ERROR_IO, d1, h1)
             else (Inr (), d1\<lparr>dv_info := (dv_info d1)
                     \<lparr>otp_cp_crc_ok := of_bool (cp_crc_ok (dv_otp d1)),
                      otp_ft_crc_ok := of_bool (ft_crc_ok (dv_otp d1)),
                      otp_mt_crc_ok := of_bool (mt_crc_ok (dv_otp d1)),
                      otp_dac_valid := of_bool (dac_valid (dv_otp d1))\<rparr>\<rparr>, h1))"

definition sensor_initialize ::
    "'e device_world \<Rightarrow> 'e gx5125_device \<Rightarrow> history \<Rightarrow> (usb_error + unit) \<times> 'e gx5125_device \<times> history" where
  "sensor_initialize w d h =
     (let timeout = command_timeout_ms (dv_config d);
          (rc, result, d1, h1) = device_command w (d\<lparr>dv_otp := zero_otp_info\<rparr>) 0x0a 0x03 [0x00, 0x00]
            (unat timeout) True (unat (timeout + 500)) 3 h
      in case response_of GX5125_OTP_SIZE rc result of
           Inl e \<Rightarrow> (Inl e, d1, h1)
         | Inr response \<Rightarrow>
             (let (parsed, info) = gx_otp_parse (take GX5125_OTP_SIZE response);
                  d2 = d1\<lparr>dv_otp := info\<rparr>
              in case parsed of
                   Inl e \<Rightarrow> (Inl e, d2, h1)
                 | Inr _ \<Rightarrow>
                     (case gx_config_prepare info of
                        Inl e \<Rightarrow> (Inl e, d2, h1)
                      | Inr config \<Rightarrow> upload_config w d2 config h1)))"

text \<open>The polls of \<open>tls_connect\<close>: up to three, until the controller reports the connection.\<close>

definition tls_established :: "u8 \<Rightarrow> bool" where
  "tls_established flags \<longleftrightarrow> drop_bit 1 flags AND 1 \<noteq> 0 \<and> drop_bit 3 flags AND 1 = 0"

fun mcu_state_polls ::
    "'e device_world \<Rightarrow> nat \<Rightarrow> 'e gx5125_device \<Rightarrow> history \<Rightarrow>
     (usb_error + unit) \<times> 'e gx5125_device \<times> history" where
  "mcu_state_polls w 0 d h = (Inl LIBUSB_ERROR_ACCESS, d, h)"
| "mcu_state_polls w (Suc remaining) d h =
     (let (rc, d1, h1) = get_mcu_state w d h
      in case rc of
           Inl _ \<Rightarrow> mcu_state_polls w remaining d1 h1
         | Inr flags \<Rightarrow>
             if tls_established flags
             then (Inr (), d1\<lparr>dv_info := (dv_info d1)\<lparr>mcu_state_flags := flags,
                     tls_identity_valid := of_bool (identity_valid (dv_tls d1))\<rparr>\<rparr>, h1)
             else mcu_state_polls w remaining d1 h1)"

definition tls_connect ::
    "'e device_world \<Rightarrow> 'e gx5125_device \<Rightarrow> history \<Rightarrow> (usb_error + unit) \<times> 'e gx5125_device \<times> history" where
  "tls_connect w d h =
     (let (start, ticks) = dw_handshake w h;
          (rc, server, session, h1) = gx_tls_server_handshake_usb (dw_engine w) (dw_env w) (dw_sched w)
            (dv_usb d) (unat (tls_timeout_ms (dv_config d))) start ticks (dv_tls d) (dv_session d) h;
          d1 = d\<lparr>dv_tls := server, dv_session := session\<rparr>
      in case rc of
           Inl e \<Rightarrow> (Inl e, d1, h1)
         | Inr _ \<Rightarrow>
             (let (rc, result, d2, h2) = device_command w d1 0x0d 0x02 [0x00, 0x00] 200 False 0 2 h1
              in if rc \<noteq> Inr () \<and> rc \<noteq> Inl LIBUSB_ERROR_TIMEOUT then (rc, d2, h2)
                 else mcu_state_polls w 3 d2 h2))"

section \<open>Creating and closing\<close>

definition gx5125_device_default_config :: gx5125_device_config where
  "gx5125_device_default_config =
     \<lparr>psk_path = Some GX5125_DEFAULT_PSK_PATH, command_timeout_ms = 1500, tls_timeout_ms = 8000,
      capture_timeout_ms = 4000, capture_attempts = 3, retry_delay_ms = 150, libusb_log_level = 2\<rparr>"

definition config_valid :: "gx5125_device_config option \<Rightarrow> bool" where
  "config_valid config \<longleftrightarrow>
     (case config of
        None \<Rightarrow> False
      | Some c \<Rightarrow>
          (case psk_path c of
             None \<Rightarrow> False
           | Some path \<Rightarrow>
               path \<noteq> [] \<and> command_timeout_ms c \<noteq> 0 \<and> tls_timeout_ms c \<noteq> 0 \<and> capture_timeout_ms c \<noteq> 0
               \<and> capture_attempts c \<noteq> 0 \<and> length path < PATH_MAX))"

definition blank_device :: "'e ssl_engine \<Rightarrow> gx5125_device_config \<Rightarrow> string \<Rightarrow> 'e gx5125_device" where
  "blank_device eng config path =
     \<lparr>dv_config = config\<lparr>psk_path := Some path\<rparr>, dv_psk_path = path, dv_usb = zero_usb_device,
      dv_session = zero_session, dv_tls = zero_tls_server eng, dv_otp = zero_otp_info,
      dv_info = zero_device_info
        \<lparr>vendor_id := GX5125_USB_VID, product_id := GX5125_USB_PID,
         sensor_profile := GX5125_SUPPORTED_SENSOR_PROFILE, info_width := 64, info_height := 80,
         raw16_bytes := of_nat (GX5125_IMAGE_PIXELS * 2)\<rparr>,
      cancel_requested = False, dv_state = GX5125_DEVICE_CLOSED, session_started = False,
      tls_initialized = False\<rparr>"

definition gx5125_device_create ::
    "'e device_world \<Rightarrow> gx5125_device_config option \<Rightarrow> history \<Rightarrow> 'e gx5125_device option \<times> history" where
  "gx5125_device_create w config h =
     (let resolved = (case config of None \<Rightarrow> gx5125_device_default_config | Some c \<Rightarrow> c)
      in if \<not> config_valid (Some resolved) then (None, h)
         else
           let (r, h1) = ext_do (dw_env w) (Calloc 1) h
           in if isl (reply_rc r) then (None, h1)
              else (Some (blank_device (dw_engine w) resolved (the (psk_path resolved))), h1))"

definition best_effort_idle ::
    "'e device_world \<Rightarrow> 'e gx5125_device \<Rightarrow> history \<Rightarrow> 'e gx5125_device \<times> history" where
  "best_effort_idle w d h =
     (if \<not> session_started d then (d, h)
      else
        let (rc, result, d1, h1) = device_command w d 0x07 0x00 [0x14, 0x00] 0 False 0 1 h in (d1, h1))"

definition stop_session ::
    "'e device_world \<Rightarrow> 'e gx5125_device \<Rightarrow> history \<Rightarrow> 'e gx5125_device \<times> history" where
  "stop_session w d h =
     (if session_started d
      then let (session, h1) = gx_session_stop (dw_env w) (dw_tail w h) (dv_session d) h
           in (d\<lparr>dv_session := session, session_started := False\<rparr>, h1)
      else (d, h))"

definition cleanup_tls ::
    "'e device_world \<Rightarrow> 'e gx5125_device \<Rightarrow> history \<Rightarrow> 'e gx5125_device \<times> history" where
  "cleanup_tls w d h =
     (if tls_initialized d
      then let (server, h1) = gx_tls_server_cleanup (dw_env w) (dv_tls d) h
           in (d\<lparr>dv_tls := server, tls_initialized := False\<rparr>, h1)
      else (d, h))"

text \<open>The final resets of \<open>gx5125_device_close\<close>.\<close>

definition reset_device :: "'e device_world \<Rightarrow> 'e gx5125_device \<Rightarrow> 'e gx5125_device" where
  "reset_device w d =
     d\<lparr>dv_session := zero_session, dv_usb := zero_usb_device, dv_tls := zero_tls_server (dw_engine w),
       dv_otp := zero_otp_info,
       dv_info := (dv_info d)\<lparr>chip_id := 0, otp_cp_crc_ok := 0, otp_ft_crc_ok := 0, otp_mt_crc_ok := 0,
         otp_dac_valid := 0, tls_identity_valid := 0, mcu_state_flags := 0\<rparr>,
       dv_state := GX5125_DEVICE_CLOSED\<rparr>"

definition gx5125_device_close ::
    "'e device_world \<Rightarrow> 'e gx5125_device \<Rightarrow> history \<Rightarrow> 'e gx5125_device \<times> history" where
  "gx5125_device_close w d h =
     (let (d1, h1) = best_effort_idle w (d\<lparr>cancel_requested := True\<rparr>) h;
          (d2, h2) = stop_session w d1 h1;
          (usb, h3) = gx_usb_close (dw_env w) (dv_usb d2) h2;
          (d4, h4) = cleanup_tls w (d2\<lparr>dv_usb := usb\<rparr>) h3
      in (reset_device w d4, h4))"

definition gx5125_device_destroy ::
    "'e device_world \<Rightarrow> 'e gx5125_device option \<Rightarrow> history \<Rightarrow> history" where
  "gx5125_device_destroy w device h =
     (case device of
        None \<Rightarrow> h
      | Some d \<Rightarrow> (let (d1, h1) = gx5125_device_close w d h in snd (ext_do (dw_env w) Free h1)))"

section \<open>Opening\<close>

text \<open>
  The stages of \<open>gx5125_device_open\<close> up to the running receiver, and from there to the established TLS
  connection. A status other than \<open>OK\<close> is a jump to the label \<open>fail\<close>.
\<close>

definition open_receiver ::
    "'e device_world \<Rightarrow> 'e gx5125_device \<Rightarrow> history \<Rightarrow> gx5125_device_status \<times> 'e gx5125_device \<times> history" where
  "open_receiver w d h =
     (let (opened, usb, h1) = gx_usb_open (dw_env w) (libusb_log_level (dv_config d)) h;
          d1 = d\<lparr>dv_usb := usb\<rparr>
      in if isl opened then (GX5125_DEVICE_ERR_USB_OPEN, d1, h1)
         else
           let d2 = d1\<lparr>dv_state := GX5125_DEVICE_USB_OPEN\<rparr>;
               (layout, h2) = gx_usb_validate_layout (dw_env w) (dv_usb d2) h1
           in if isl layout then (GX5125_DEVICE_ERR_USB_LAYOUT, d2, h2)
              else
                let (claimed, usb, h3) = gx_usb_claim_interfaces (dw_env w) (dv_usb d2) h2;
                    d3 = d2\<lparr>dv_usb := usb\<rparr>
                in if isl claimed then (GX5125_DEVICE_ERR_USB_CLAIM, d3, h3)
                   else
                     let d4 = d3\<lparr>dv_state := GX5125_DEVICE_INTERFACES_CLAIMED\<rparr>;
                         (started, session, h4) =
                           gx_session_start (dw_env w) (dv_usb d4) (dv_session d4) h3;
                         d5 = d4\<lparr>dv_session := session\<rparr>
                     in if isl started then (GX5125_DEVICE_ERR_RECEIVER, d5, h4)
                        else (GX5125_DEVICE_OK,
                              d5\<lparr>session_started := True, dv_state := GX5125_DEVICE_RECEIVER_RUNNING\<rparr>, h4))"

definition open_sensor ::
    "'e device_world \<Rightarrow> 'e gx5125_device \<Rightarrow> history \<Rightarrow> gx5125_device_status \<times> 'e gx5125_device \<times> history" where
  "open_sensor w d h =
     (let (preflight, d1, h1) = control_preflight w d h
      in if isl preflight then (GX5125_DEVICE_ERR_PREFLIGHT, d1, h1)
         else
           let (sensor, d2, h2) = sensor_initialize w d1 h1
           in if isl sensor then (GX5125_DEVICE_ERR_SENSOR_INIT, d2, h2)
              else
                let (tls, d3, h3) = tls_connect w (d2\<lparr>dv_state := GX5125_DEVICE_SENSOR_READY\<rparr>) h2
                in if isl tls then (GX5125_DEVICE_ERR_TLS, d3, h3)
                   else (GX5125_DEVICE_OK, d3\<lparr>dv_state := GX5125_DEVICE_ACTIVE\<rparr>, h3))"

definition open_stages ::
    "'e device_world \<Rightarrow> 'e gx5125_device \<Rightarrow> history \<Rightarrow> gx5125_device_status \<times> 'e gx5125_device \<times> history" where
  "open_stages w d h =
     (case gx_secret_read_psk_file (dw_psk_file w (dv_psk_path d)) of
        None \<Rightarrow> (GX5125_DEVICE_ERR_PSK, d, h)
      | Some psk \<Rightarrow>
          (let (ok, server, h1) = gx_tls_server_init (dw_engine w) (dw_env w) psk h;
               d1 = d\<lparr>dv_tls := server\<rparr>
           in if \<not> ok then (GX5125_DEVICE_ERR_TLS, d1, h1)
              else
                let (status, d2, h2) = open_receiver w (d1\<lparr>tls_initialized := True\<rparr>) h1
                in if status \<noteq> GX5125_DEVICE_OK then (status, d2, h2) else open_sensor w d2 h2))"

definition gx5125_device_open ::
    "'e device_world \<Rightarrow> 'e gx5125_device \<Rightarrow> history \<Rightarrow> gx5125_device_status \<times> 'e gx5125_device \<times> history" where
  "gx5125_device_open w d h =
     (if dv_state d \<noteq> GX5125_DEVICE_CLOSED then (GX5125_DEVICE_ERR_STATE, d, h)
      else
        let (status, d1, h1) = open_stages w (d\<lparr>cancel_requested := False\<rparr>) h
        in if status = GX5125_DEVICE_OK then (status, d1, h1)
           else let (d2, h2) = gx5125_device_close w (d1\<lparr>dv_state := GX5125_DEVICE_ERROR\<rparr>) h1
                in (status, d2, h2))"

section \<open>Capturing\<close>

text \<open>The metadata of a frame that passed its checks.\<close>

definition frame_metadata ::
    "nat \<Rightarrow> gx_capture_result \<Rightarrow> u32 \<Rightarrow> u32 \<Rightarrow> u16 list \<Rightarrow> gx5125_capture_metadata" where
  "frame_metadata attempt result calculated stored pixels =
     (let st = gx_image_calculate_stats pixels
      in \<lparr>md_attempt = of_nat attempt, md_requests_sent = requests_sent result,
          md_tls_plaintext_bytes = plaintext_bytes result,
          md_encrypted_ack_received = of_bool (encrypted_ack_received result),
          md_encrypted_ack_flags = encrypted_ack_flags result, md_response_cmd0 = response_cmd0 result,
          md_response_cmd1 = response_cmd1 result, md_crc_ok = 1, md_calculated_crc = calculated,
          md_stored_crc = stored, md_minimum = st_minimum st, md_maximum = st_maximum st\<rparr>)"

text \<open>The capture of one attempt on the device's channel.\<close>

definition device_capture ::
    "'e device_world \<Rightarrow> 'e gx5125_device \<Rightarrow> history \<Rightarrow>
     (usb_error + unit) \<times> u8 list \<times> gx_capture_result \<times> 'e gx5125_device \<times> history" where
  "device_capture w d h =
     (let (rc, raw, result, ch, h1) = capture_image_tls (dw_engine w) (dw_env w) (dw_sched w) (dv_usb d)
            (unat (capture_timeout_ms (dv_config d))) 1 True (dw_round w h)
            (replicate GX5125_IMAGE_RAW_FRAME_SIZE 0) zero_capture_result
            \<lparr>ch_server = dv_tls d, ch_session = dv_session d, ch_cancel = cancel_requested d\<rparr> h
      in (rc, raw, result,
          d\<lparr>dv_tls := ch_server ch, dv_session := ch_session ch, cancel_requested := ch_cancel ch\<rparr>, h1))"

text \<open>
  The loop over the attempts: \<open>remaining\<close> is \<open>capture_attempts - attempt + 1\<close>, and \<open>crcs\<close> the calculated
  and the stored CRC of the last decode.
\<close>

fun capture_loop ::
    "'e device_world \<Rightarrow> nat \<Rightarrow> nat \<Rightarrow> u32 \<times> u32 \<Rightarrow> 'e gx5125_device \<Rightarrow> u16 list \<Rightarrow>
     gx5125_capture_metadata \<Rightarrow> history \<Rightarrow>
     gx5125_device_status \<times> 'e gx5125_device \<times> u16 list \<times> gx5125_capture_metadata \<times> history" where
  "capture_loop w 0 attempt crcs d pixels metadata h =
     (GX5125_DEVICE_ERR_CRC, d\<lparr>dv_state := GX5125_DEVICE_ACTIVE\<rparr>, pixels,
      metadata\<lparr>md_attempt := capture_attempts (dv_config d), md_crc_ok := 0,
               md_calculated_crc := fst crcs, md_stored_crc := snd crcs\<rparr>, h)"
| "capture_loop w (Suc remaining) attempt crcs d pixels metadata h =
     (let d0 = d\<lparr>cancel_requested := flag_after (dw_stores w h) (cancel_requested d)\<rparr>
      in if cancel_requested d0
         then (GX5125_DEVICE_ERR_CANCELLED, d0\<lparr>dv_state := GX5125_DEVICE_ACTIVE\<rparr>, pixels, metadata, h)
         else
           let (rc, raw, result, d1, h1) = device_capture w d0 h
           in case rc of
                Inl e \<Rightarrow>
                  if e = LIBUSB_ERROR_INTERRUPTED
                  then (GX5125_DEVICE_ERR_CANCELLED, d1\<lparr>dv_state := GX5125_DEVICE_ACTIVE\<rparr>, pixels, metadata, h1)
                  else if remaining \<noteq> 0 then capture_loop w remaining (attempt + 1) crcs d1 pixels metadata h1
                  else (GX5125_DEVICE_ERR_CAPTURE, d1\<lparr>dv_state := GX5125_DEVICE_ACTIVE\<rparr>, pixels, metadata, h1)
              | Inr _ \<Rightarrow>
                  (case gx_chicagohu_decode raw pixels of
                     (Inr picture, True, calculated, stored) \<Rightarrow>
                       (GX5125_DEVICE_OK, d1\<lparr>dv_state := GX5125_DEVICE_ACTIVE\<rparr>, picture,
                        frame_metadata attempt result calculated stored picture, h1)
                   | (_, _, calculated, stored) \<Rightarrow>
                       capture_loop w remaining (attempt + 1) (calculated, stored) d1
                         (replicate GX5125_IMAGE_PIXELS 0) metadata h1))"

definition gx5125_device_capture_raw16 ::
    "'e device_world \<Rightarrow> 'e gx5125_device \<Rightarrow> u16 list \<Rightarrow> gx5125_capture_metadata \<Rightarrow> history \<Rightarrow>
     gx5125_device_status \<times> 'e gx5125_device \<times> u16 list \<times> gx5125_capture_metadata \<times> history" where
  "gx5125_device_capture_raw16 w d pixels metadata h =
     (if dv_state d \<noteq> GX5125_DEVICE_ACTIVE then (GX5125_DEVICE_ERR_STATE, d, pixels, metadata, h)
      else capture_loop w (unat (capture_attempts (dv_config d))) 1 (0, 0)
             (d\<lparr>dv_state := GX5125_DEVICE_CAPTURING\<rparr>) (replicate GX5125_IMAGE_PIXELS 0) zero_metadata h)"

section \<open>Small operations\<close>

definition gx5125_device_request_cancel :: "'e gx5125_device \<Rightarrow> 'e gx5125_device" where
  "gx5125_device_request_cancel d = d\<lparr>cancel_requested := True\<rparr>"

definition gx5125_device_clear_cancel :: "'e gx5125_device \<Rightarrow> 'e gx5125_device" where
  "gx5125_device_clear_cancel d = d\<lparr>cancel_requested := False\<rparr>"

definition gx5125_device_get_state :: "'e gx5125_device option \<Rightarrow> gx5125_device_state" where
  "gx5125_device_get_state device =
     (case device of None \<Rightarrow> GX5125_DEVICE_ERROR | Some d \<Rightarrow> dv_state d)"

definition gx5125_device_get_info ::
    "'e gx5125_device option \<Rightarrow> gx5125_device_status \<times> gx5125_device_info option" where
  "gx5125_device_get_info device =
     (case device of None \<Rightarrow> (GX5125_DEVICE_ERR_ARGUMENT, None) | Some d \<Rightarrow> (GX5125_DEVICE_OK, Some (dv_info d)))"

fun gx5125_device_state_string :: "gx5125_device_state \<Rightarrow> string" where
  "gx5125_device_state_string GX5125_DEVICE_CLOSED = ''closed''"
| "gx5125_device_state_string GX5125_DEVICE_USB_OPEN = ''usb-open''"
| "gx5125_device_state_string GX5125_DEVICE_INTERFACES_CLAIMED = ''interfaces-claimed''"
| "gx5125_device_state_string GX5125_DEVICE_RECEIVER_RUNNING = ''receiver-running''"
| "gx5125_device_state_string GX5125_DEVICE_SENSOR_READY = ''sensor-ready''"
| "gx5125_device_state_string GX5125_DEVICE_TLS_READY = ''tls-ready''"
| "gx5125_device_state_string GX5125_DEVICE_ACTIVE = ''active''"
| "gx5125_device_state_string GX5125_DEVICE_CAPTURING = ''capturing''"
| "gx5125_device_state_string GX5125_DEVICE_ERROR = ''error''"

fun gx5125_device_status_string :: "gx5125_device_status \<Rightarrow> string" where
  "gx5125_device_status_string GX5125_DEVICE_OK = ''ok''"
| "gx5125_device_status_string GX5125_DEVICE_ERR_ARGUMENT = ''invalid argument''"
| "gx5125_device_status_string GX5125_DEVICE_ERR_STATE = ''invalid state''"
| "gx5125_device_status_string GX5125_DEVICE_ERR_MEMORY = ''memory allocation failed''"
| "gx5125_device_status_string GX5125_DEVICE_ERR_PSK = ''PSK file rejected''"
| "gx5125_device_status_string GX5125_DEVICE_ERR_USB_OPEN = ''USB open failed''"
| "gx5125_device_status_string GX5125_DEVICE_ERR_USB_LAYOUT = ''USB endpoint layout rejected''"
| "gx5125_device_status_string GX5125_DEVICE_ERR_USB_CLAIM = ''USB interface claim failed''"
| "gx5125_device_status_string GX5125_DEVICE_ERR_RECEIVER = ''USB receiver failed''"
| "gx5125_device_status_string GX5125_DEVICE_ERR_PREFLIGHT = ''device preflight failed''"
| "gx5125_device_status_string GX5125_DEVICE_ERR_SENSOR_INIT = ''sensor initialization failed''"
| "gx5125_device_status_string GX5125_DEVICE_ERR_TLS = ''TLS initialization failed''"
| "gx5125_device_status_string GX5125_DEVICE_ERR_CAPTURE = ''capture timed out or failed''"
| "gx5125_device_status_string GX5125_DEVICE_ERR_CRC = ''captured frame CRC failed''"
| "gx5125_device_status_string GX5125_DEVICE_ERR_CANCELLED = ''operation cancelled''"

section \<open>What a device holds\<close>

text \<open>
  The bookkeeping of a device is right: its USB flags are the kernel's state, its TLS structure owns
  exactly the OpenSSL objects that are alive, and the thread, mutex and condition variable are alive
  exactly while a session is started, whose buffers are then within bounds.
\<close>

definition device_ok :: "'e device_world \<Rightarrow> 'e gx5125_device \<Rightarrow> history \<Rightarrow> bool" where
  "device_ok w d h \<longleftrightarrow>
     usb_tracks (dw_env w) (dv_usb d) h
     \<and> tls_objects (dw_env w) h = server_objects (dv_tls d)
     \<and> (\<not> tls_initialized d \<longrightarrow> \<not> ts_ssl (dv_tls d) \<and> \<not> ts_context (dv_tls d))
     \<and> live_objects (dw_env w) h = (session_started d, session_started d, session_started d)
     \<and> (session_started d \<longrightarrow> running_session (dv_session d) \<and> claimed_data (dv_usb d) \<and> claimed_control (dv_usb d))"

text \<open>The receiver never completes a read of more than 4096 bytes.\<close>

definition reads_bounded :: "'e device_world \<Rightarrow> bool" where
  "reads_bounded w \<longleftrightarrow> (\<forall>h t. plan_ok read_ok (dw_sched w h t))"

text \<open>A step that only moves data: commands, the handshake, a capture.\<close>

definition moves_data :: "'e gx5125_device \<Rightarrow> history \<Rightarrow> 'e gx5125_device \<Rightarrow> history \<Rightarrow> bool" where
  "moves_data d h d' h' \<longleftrightarrow>
     grows tls_call h h' \<and> dv_usb d' = dv_usb d \<and> dv_config d' = dv_config d
     \<and> dv_psk_path d' = dv_psk_path d
     \<and> ts_ssl (dv_tls d') = ts_ssl (dv_tls d) \<and> ts_context (dv_tls d') = ts_context (dv_tls d)
     \<and> ts_psk (dv_tls d') = ts_psk (dv_tls d)
     \<and> session_started d' = session_started d \<and> tls_initialized d' = tls_initialized d
     \<and> (running_session (dv_session d) \<longrightarrow> running_session (dv_session d'))"

lemma moves_refl [simp]: "moves_data d h d h"
  by (simp add: moves_data_def)

lemma moves_trans: "moves_data d h d1 h1 \<Longrightarrow> moves_data d1 h1 d2 h2 \<Longrightarrow> moves_data d h d2 h2"
  unfolding moves_data_def using grows_trans by metis

text \<open>Fields no part of \<open>moves_data\<close> mentions may change freely.\<close>

lemma moves_fields [simp]:
  "moves_data d h (d'\<lparr>dv_info := i\<rparr>) h' = moves_data d h d' h'"
  "moves_data d h (d'\<lparr>dv_otp := x\<rparr>) h' = moves_data d h d' h'"
  "moves_data d h (d'\<lparr>dv_state := st\<rparr>) h' = moves_data d h d' h'"
  "moves_data d h (d'\<lparr>cancel_requested := b\<rparr>) h' = moves_data d h d' h'"
  "moves_data (d\<lparr>dv_otp := x\<rparr>) h d' h' = moves_data d h d' h'"
  "moves_data (d\<lparr>dv_state := st\<rparr>) h d' h' = moves_data d h d' h'"
  "moves_data (d\<lparr>cancel_requested := b\<rparr>) h d' h' = moves_data d h d' h'"
  by (simp_all add: moves_data_def)

lemma device_ok_fields [simp]:
  "device_ok w (d\<lparr>dv_info := i\<rparr>) h = device_ok w d h"
  "device_ok w (d\<lparr>dv_state := st\<rparr>) h = device_ok w d h"
  "device_ok w (d\<lparr>cancel_requested := b\<rparr>) h = device_ok w d h"
  by (simp_all add: device_ok_def)

lemma tls_call_effects:
  assumes "tls_call c"
  shows "kernel_of env (h @ [c]) = kernel_of env h" and "tls_objects env (h @ [c]) = tls_objects env h"
    and "live_objects env (h @ [c]) = live_objects env h"
  using assms
  by (cases "tls_objects env h"; cases "live_objects env h"; cases c; simp add: tls_call_def)+

lemma moves_keep_ok:
  assumes "device_ok w d h" and "moves_data d h d' h'"
  shows "device_ok w d' h'"
proof -
  from assms(2) have g: "grows tls_call h h'" by (simp add: moves_data_def)
  have "kernel_of (dw_env w) h' = kernel_of (dw_env w) h"
    using g by (rule grows_invariant) (rule tls_call_effects)
  moreover have "tls_objects (dw_env w) h' = tls_objects (dw_env w) h"
    using g by (rule grows_invariant) (rule tls_call_effects)
  moreover have "live_objects (dw_env w) h' = live_objects (dw_env w) h"
    using g by (rule grows_invariant) (rule tls_call_effects)
  ultimately show ?thesis
    using assms by (simp add: device_ok_def moves_data_def usb_tracks_def server_objects_def)
qed

section \<open>The commands only move data\<close>

lemma device_command_moves:
  assumes "reads_bounded w"
    and "device_command w d c0 c1 payload at expect rt n h = (rc, result, d', h')"
  shows "moves_data d h d' h'" and "dv_info d' = dv_info d" and "dv_otp d' = dv_otp d"
    and "dv_tls d' = dv_tls d"
proof -
  obtain rc1 r1 s h1 where c: "gx_session_command (dw_env w) (dw_sched w) (dv_usb d) (dv_session d) c0 c1
      (Buf payload) at expect rt n zero_command_result h = (rc1, r1, s, h1)"
    by (rule prod_cases4)
  then have d: "d' = d\<lparr>dv_session := s\<rparr>" "h' = h1" using assms(2) by (simp_all add: device_command_def)
  have "grows io_call h h1"
    using command_io [of h "dw_env w" "dw_sched w" "dv_usb d" "dv_session d" c0 c1 "Buf payload" at expect rt n
        zero_command_result] unfolding c by simp
  then have "grows tls_call h h1" by (rule grows_weaken) (simp add: tls_call_def)
  moreover have "running_session (fst (snd (snd (gx_session_command (dw_env w) (dw_sched w) (dv_usb d)
      (dv_session d) c0 c1 (Buf payload) at expect rt n zero_command_result h))))"
    if "running_session (dv_session d)"
    using that assms(1) by (intro running.command_keeps) (simp_all add: reads_bounded_def)
  ultimately show "moves_data d h d' h'" by (simp add: moves_data_def d c)
  show "dv_info d' = dv_info d" "dv_otp d' = dv_otp d" "dv_tls d' = dv_tls d" by (simp_all add: d)
qed

lemma get_mcu_state_moves:
  assumes "reads_bounded w" and "get_mcu_state w d h = (rc, d', h')"
  shows "moves_data d h d' h' \<and> dv_info d' = dv_info d \<and> dv_tls d' = dv_tls d"
proof -
  let ?t = "minute_timestamp (dw_time w h)"
  obtain rc1 r1 d1 h1 where c: "device_command w d 0x0a 0x07 [0x55, lo8 ?t, hi8 ?t, 0x00, 0x00] 0 True
      (unat (command_timeout_ms (dv_config d))) 3 h = (rc1, r1, d1, h1)"
    by (rule prod_cases4)
  with device_command_moves [OF assms(1) c] assms(2) show ?thesis
    by (simp add: get_mcu_state_def Let_def)
qed

lemma preflight_moves:
  assumes "reads_bounded w" and "control_preflight w d h = (rc, d', h')"
  shows "moves_data d h d' h' \<and> (rc = Inr () \<longrightarrow> chip_id (dv_info d') = GX5125_SUPPORTED_CHIP_ID)"
proof -
  let ?t = "unat (command_timeout_ms (dv_config d))"
  obtain rc1 r1 d1 h1 where c1: "device_command w d 0x0a 0x04 [0, 0] ?t True ?t 3 h = (rc1, r1, d1, h1)"
    by (rule prod_cases4)
  obtain rc2 r2 d2 h2 where c2: "device_command w d1 0x07 0 [0x14, 0] 0 False 0 1 h1 = (rc2, r2, d2, h2)"
    by (rule prod_cases4)
  obtain rc3 r3 d3 h3 where c3: "device_command w d2 0x08 0x01 [0, 0, 0, 0x04, 0] ?t True ?t 3 h2 = (rc3, r3, d3, h3)"
    by (rule prod_cases4)
  note m1 = device_command_moves(1) [OF assms(1) c1]
  note m2 = moves_trans [OF m1 device_command_moves(1) [OF assms(1) c2]]
  note m3 = moves_trans [OF m2 device_command_moves(1) [OF assms(1) c3]]
  show ?thesis
    using assms(2) m1 m2 m3 c1 c2 c3
    by (auto simp: control_preflight_def Let_def simp del: One_nat_def split: sum.splits if_splits)
qed

lemma upload_moves:
  assumes "reads_bounded w" and "upload_config w d config h = (rc, d', h')"
  shows "moves_data d h d' h' \<and> chip_id (dv_info d') = chip_id (dv_info d)
    \<and> (rc = Inr () \<longrightarrow> otp_dac_valid (dv_info d') = of_bool (dac_valid (dv_otp d)))"
proof -
  let ?t = "command_timeout_ms (dv_config d)"
  obtain rc1 r1 d1 h1 where c: "device_command w d 0x09 0 config (unat ?t) True (unat (?t + 500)) 3 h
      = (rc1, r1, d1, h1)"
    by (rule prod_cases4)
  with device_command_moves [OF assms(1) c] assms(2) show ?thesis
    by (auto simp: upload_config_def Let_def split: sum.splits if_splits)
qed

lemma prepare_needs_dac: "gx_config_prepare info = Inr config \<Longrightarrow> dac_valid info"
  by (simp add: gx_config_prepare_def split: if_splits)

lemma sensor_initialize_moves:
  assumes "reads_bounded w" and "sensor_initialize w d h = (rc, d', h')"
  shows "moves_data d h d' h' \<and> chip_id (dv_info d') = chip_id (dv_info d)
    \<and> (rc = Inr () \<longrightarrow> otp_dac_valid (dv_info d') = 1)"
proof -
  let ?t = "command_timeout_ms (dv_config d)"
  obtain rc1 r1 d1 h1 where c: "device_command w (d\<lparr>dv_otp := zero_otp_info\<rparr>) 0x0a 0x03 [0, 0] (unat ?t)
      True (unat (?t + 500)) 3 h = (rc1, r1, d1, h1)"
    by (rule prod_cases4)
  note m = device_command_moves [OF assms(1) c]
  have m1: "moves_data d h d1 h1" "chip_id (dv_info d1) = chip_id (dv_info d)" using m by simp_all
  have up: ?thesis
    if "upload_config w (d1\<lparr>dv_otp := info\<rparr>) config h1 = (rc, d', h')" "gx_config_prepare info = Inr config"
    for info config
    using upload_moves [OF assms(1) that(1)] prepare_needs_dac [OF that(2)] m1
      moves_trans [OF m1(1), of d' h'] by simp
  consider (stop) e x where "rc = Inl e" "d' = d1\<lparr>dv_otp := x\<rparr>" "h' = h1"
    | (kept) e where "rc = Inl e" "d' = d1" "h' = h1"
    | (upload) info config where "upload_config w (d1\<lparr>dv_otp := info\<rparr>) config h1 = (rc, d', h')"
        "gx_config_prepare info = Inr config"
    using assms(2) c by (auto simp: sensor_initialize_def Let_def split: sum.splits prod.splits)
  then show ?thesis by cases (use m1 up in auto)
qed

lemma polls_move:
  assumes "reads_bounded w"
  shows "mcu_state_polls w n d h = (rc, d', h') \<Longrightarrow>
    moves_data d h d' h' \<and> chip_id (dv_info d') = chip_id (dv_info d)
    \<and> otp_dac_valid (dv_info d') = otp_dac_valid (dv_info d)
    \<and> (rc = Inr () \<longrightarrow> tls_established (mcu_state_flags (dv_info d'))
         \<and> tls_identity_valid (dv_info d') = of_bool (identity_valid (dv_tls d)))"
proof (induction n arbitrary: d h)
  case (Suc n)
  obtain rc1 d1 h1 where g: "get_mcu_state w d h = (rc1, d1, h1)" by (rule prod_cases3)
  note m = get_mcu_state_moves [OF assms g]
  have m1: "moves_data d h d1 h1" "dv_info d1 = dv_info d" "dv_tls d1 = dv_tls d" using m by simp_all
  have again: ?case if "mcu_state_polls w n d1 h1 = (rc, d', h')"
    using Suc.IH [OF that] moves_trans [OF m1(1), of d' h'] m1 by simp
  consider (established) flags where "tls_established flags" "rc = Inr ()" "h' = h1"
      "d' = d1\<lparr>dv_info := (dv_info d1)\<lparr>mcu_state_flags := flags,
              tls_identity_valid := of_bool (identity_valid (dv_tls d1))\<rparr>\<rparr>"
    | (more) "mcu_state_polls w n d1 h1 = (rc, d', h')"
    using Suc.prems g by (auto split: sum.splits if_splits)
  then show ?case by cases (use m1 again in auto)
qed auto

lemma tls_connect_moves:
  assumes "reads_bounded w" and "tls_connect w d h = (rc, d', h')"
  shows "moves_data d h d' h' \<and> chip_id (dv_info d') = chip_id (dv_info d)
    \<and> otp_dac_valid (dv_info d') = otp_dac_valid (dv_info d)
    \<and> (rc = Inr () \<longrightarrow> tls_established (mcu_state_flags (dv_info d')) \<and> tls_identity_valid (dv_info d') = 1)"
proof -
  obtain start ticks where t: "dw_handshake w h = (start, ticks)" by (rule prod.exhaust)
  obtain rc1 server session h1 where hs: "gx_tls_server_handshake_usb (dw_engine w) (dw_env w) (dw_sched w)
      (dv_usb d) (unat (tls_timeout_ms (dv_config d))) start ticks (dv_tls d) (dv_session d) h
      = (rc1, server, session, h1)"
    by (rule prod_cases4)
  let ?d = "d\<lparr>dv_tls := server, dv_session := session\<rparr>"
  have tr: "tracks (dv_tls d) h server h1" "rc1 = Inr () \<longrightarrow> identity_valid server"
    using handshake_tracks [OF hs] by simp_all
  have "running_session (dv_session d) \<Longrightarrow> running_session session"
    using running.handshake_keeps [OF _ _ hs] assms(1) by (simp add: reads_bounded_def)
  with tr(1) have m1: "moves_data d h ?d h1" by (auto simp: moves_data_def tracks_def grows_def)
  obtain rc2 r2 d2 h2 where c: "device_command w ?d 0x0d 0x02 [0, 0] 200 False 0 2 h1 = (rc2, r2, d2, h2)"
    by (rule prod_cases4)
  note m = device_command_moves [OF assms(1) c]
  have m2: "moves_data d h d2 h2" "dv_info d2 = dv_info d" "dv_tls d2 = server"
    using moves_trans [OF m1 m(1)] m by simp_all
  have polls: ?thesis if "mcu_state_polls w 3 d2 h2 = (rc, d', h')" "rc1 = Inr ()"
    using polls_move [OF assms(1) that(1)] moves_trans [OF m2(1), of d' h'] m2 tr(2) that(2) by simp
  consider (failed) e where "rc = Inl e" "d' = ?d" "h' = h1" | (refused) e where "rc = Inl e" "d' = d2" "h' = h2"
    | (polled) "mcu_state_polls w 3 d2 h2 = (rc, d', h')" "rc1 = Inr ()"
  proof (cases rc1)
    case (Inl e)
    with assms(2) t hs have "rc = Inl e" "d' = ?d" "h' = h1" by (simp_all add: tls_connect_def)
    then show ?thesis by (rule failed)
  next
    case (Inr u)
    have "tls_connect w d h = (if rc2 \<noteq> Inr () \<and> rc2 \<noteq> Inl LIBUSB_ERROR_TIMEOUT then (rc2, d2, h2)
        else mcu_state_polls w 3 d2 h2)"
      unfolding tls_connect_def t prod.case hs Let_def Inr sum.case c ..
    with assms(2) Inr show ?thesis
      by (cases "rc2 \<noteq> Inr () \<and> rc2 \<noteq> Inl LIBUSB_ERROR_TIMEOUT"; cases rc2)
        (auto intro: refused polled)
  qed
  then show ?thesis by cases (use m1 m2 polls in auto)
qed

lemma device_capture_moves:
  assumes "reads_bounded w" and "device_capture w d h = (rc, raw, result, d', h')"
  shows "moves_data d h d' h' \<and> dv_info d' = dv_info d \<and> dv_state d' = dv_state d"
proof -
  let ?ch = "\<lparr>ch_server = dv_tls d, ch_session = dv_session d, ch_cancel = cancel_requested d\<rparr>"
  obtain rc1 raw1 r1 ch h1 where c: "capture_image_tls (dw_engine w) (dw_env w) (dw_sched w) (dv_usb d)
      (unat (capture_timeout_ms (dv_config d))) 1 True (dw_round w h)
      (replicate GX5125_IMAGE_RAW_FRAME_SIZE 0) zero_capture_result ?ch h = (rc1, raw1, r1, ch, h1)"
    by (rule prod_cases5)
  have "running_session (dv_session d) \<Longrightarrow> running_session (ch_session ch)"
    using running.capture_keeps [OF _ _ c] assms(1) by (simp add: reads_bounded_def)
  with capture_tracks [OF c] assms(2) c show ?thesis
    by (auto simp: device_capture_def moves_data_def tracks_def grows_def)
qed

lemma capture_loop_moves:
  assumes "reads_bounded w"
  shows "capture_loop w n k crcs d pixels md h = (st, d', pixels', md', h') \<Longrightarrow>
    moves_data d h d' h' \<and> dv_info d' = dv_info d \<and> dv_state d' = GX5125_DEVICE_ACTIVE"
proof (induction n arbitrary: k crcs d pixels h)
  case (Suc n)
  let ?d = "d\<lparr>cancel_requested := flag_after (dw_stores w h) (cancel_requested d)\<rparr>"
  obtain rc raw result d1 h1 where c: "device_capture w ?d h = (rc, raw, result, d1, h1)"
    by (rule prod_cases5)
  obtain dec ok calc stored where x: "gx_chicagohu_decode raw pixels = (dec, ok, calc, stored)"
    by (rule prod_cases4)
  have m: "moves_data d h d1 h1" "dv_info d1 = dv_info d"
    using device_capture_moves [OF assms c] by simp_all
  have again: ?case if "capture_loop w n k1 crcs1 d1 pixels1 md h1 = (st, d', pixels', md', h')" for k1 crcs1 pixels1
    using Suc.IH [OF that] moves_trans [OF m(1), of d' h'] m(2) by simp
  consider (idle) "d' = ?d\<lparr>dv_state := GX5125_DEVICE_ACTIVE\<rparr>" "h' = h"
    | (ended) "d' = d1\<lparr>dv_state := GX5125_DEVICE_ACTIVE\<rparr>" "h' = h1"
    | (more) k1 crcs1 pixels1 where "capture_loop w n k1 crcs1 d1 pixels1 md h1 = (st, d', pixels', md', h')"
    using Suc.prems c x by (auto simp: Let_def split: if_splits sum.splits bool.splits)
  then show ?case by cases (use m again in auto)
qed auto

section \<open>Opening and closing\<close>

text \<open>USB management creates no thread and no OpenSSL object.\<close>

definition usb_call :: "ext_call \<Rightarrow> bool" where
  "usb_call c \<longleftrightarrow> \<not> object_call c \<and> \<not> thread_call c"

lemma usb_call_effects:
  assumes "grows usb_call h h'"
  shows "tls_objects env h' = tls_objects env h" and "live_objects env h' = live_objects env h"
proof -
  from assms obtain cs where "h' = h @ cs" "\<forall>c \<in> set cs. usb_call c" by (auto simp: grows_def)
  then show "tls_objects env h' = tls_objects env h" "live_objects env h' = live_objects env h"
    by (simp_all add: usb_call_def other_calls_keep_objects live_other_calls)
qed

lemma usb_open_calls: "grows usb_call h (snd (snd (gx_usb_open env level h)))"
  by (auto simp: gx_usb_open_def ext_do_def Let_def usb_call_def simp del: append_assoc
      intro!: grows_snoc split: sum.split)

lemma usb_validate_calls: "grows usb_call h (snd (gx_usb_validate_layout env dev h))"
  by (auto simp: gx_usb_validate_layout_def Let_def ext_do_def usb_call_def split_beta
      intro!: grows_snoc split: sum.split)

lemma release_one_calls: "grows usb_call h (snd (release_if_claimed env i f h))"
  by (auto simp: release_if_claimed_def usb_call_def intro!: grows_snoc)

lemma reattach_calls: "grows usb_call h (snd (gx_reattach_if_needed env x i f h))"
  by (auto simp: gx_reattach_if_needed_def usb_call_def intro!: grows_snoc)

lemma release_calls: "grows usb_call h (snd (gx_usb_release_interfaces env dev h))"
proof -
  let ?r = "release_if_claimed env GX5125_INTERFACE_DATA (claimed_data dev) h"
  let ?s = "release_if_claimed env GX5125_INTERFACE_CONTROL (claimed_control dev) (snd ?r)"
  let ?t = "gx_reattach_if_needed env (ud_handle dev) GX5125_INTERFACE_DATA (manually_detached_data dev) (snd ?s)"
  have "grows usb_call h (snd ?t)"
    by (rule grows_trans [OF grows_trans [OF release_one_calls release_one_calls] reattach_calls])
  then have "grows usb_call h (snd (gx_reattach_if_needed env (ud_handle dev) GX5125_INTERFACE_CONTROL
      (manually_detached_control dev) (snd ?t)))"
    by (rule grows_trans [OF _ reattach_calls])
  then show ?thesis
    by (cases "ud_handle dev") (simp_all add: gx_usb_release_interfaces_def Let_def split_beta)
qed

lemma detach_calls: "grows usb_call h (snd (snd (detach_unless_auto env a i m h)))"
  by (auto simp: detach_unless_auto_def gx_detach_if_needed_def Let_def ext_do_def usb_call_def split_beta
      simp del: append_assoc intro!: grows_snoc split: sum.split)

lemma claim_data_calls: "grows usb_call h (snd (snd (claim_data_interface env a dev h)))"
proof -
  let ?x = "snd (snd (detach_unless_auto env a GX5125_INTERFACE_DATA (manually_detached_data dev) h))"
  let ?y = "?x @ [Libusb_claim GX5125_INTERFACE_DATA]"
  have x: "grows usb_call h ?x" by (rule detach_calls)
  then have y: "grows usb_call h ?y" by (rule grows_snoc) (simp add: usb_call_def)
  from x y grows_trans [OF x release_calls] grows_trans [OF y release_calls] show ?thesis
    by (simp add: claim_data_interface_def Let_def split_beta split: sum.split)
qed

lemma claim_calls: "grows usb_call h (snd (snd (gx_usb_claim_interfaces env dev h)))"
proof -
  have both: "grows usb_call h (snd (snd (claim_both_interfaces env a dev h)))" for a h
  proof -
    let ?x = "snd (snd (detach_unless_auto env a GX5125_INTERFACE_CONTROL (manually_detached_control dev) h))"
    have x: "grows usb_call h ?x" by (rule detach_calls)
    then have y: "grows usb_call h (?x @ [Libusb_claim GX5125_INTERFACE_CONTROL])"
      by (rule grows_snoc) (simp add: usb_call_def)
    from x y grows_trans [OF y claim_data_calls] show ?thesis
      by (simp add: claim_both_interfaces_def Let_def split_beta split: sum.split)
  qed
  have a: "grows usb_call h (h @ [Libusb_set_auto_detach])" by (rule grows_snoc) (simp_all add: usb_call_def)
  from a grows_trans [OF a both] show ?thesis
    by (simp add: gx_usb_claim_interfaces_def Let_def split_beta split: sum.split)
qed

lemma close_calls: "grows usb_call h (snd (gx_usb_close env dev h))"
  using release_calls [of h env dev]
  by (auto simp: gx_usb_close_def Let_def split_beta usb_call_def simp del: append_assoc intro!: grows_snoc)

text \<open>Starting and stopping the session touches neither USB nor OpenSSL.\<close>

lemma session_start_other:
  assumes "gx_session_start env dev s h = (rc, s1, h1)"
  shows "kernel_of env h1 = kernel_of env h" and "tls_objects env h1 = tls_objects env h"
  using assms
  by (cases "tls_objects env h";
      auto simp: gx_session_start_def ext_do_def Let_def simp flip: append_assoc split: if_splits)+

lemma session_stop_other:
  "kernel_of env (snd (gx_session_stop env tail s h)) = kernel_of env h"
  "tls_objects env (snd (gx_session_stop env tail s h)) = tls_objects env h"
  by (cases "tls_objects env h"; simp add: gx_session_stop_def ext_do_def Let_def del: append_assoc)+

lemma tracks_zero:
  "usb_tracks env zero_usb_device h \<Longrightarrow> kernel_of env h = no_kernel_state"
  by (intro kernel_view.equality)
    (auto simp: usb_tracks_def zero_usb_device_def no_kernel_state_def fun_eq_iff)

lemma usb_open_unclaimed: "gx_usb_open env level h = (r, dev, h') \<Longrightarrow> \<not> claimed_data dev"
  by (auto simp: gx_usb_open_def ext_do_def zero_usb_device_def Let_def split: sum.splits if_splits)

lemma claimed_together:
  assumes "\<not> claimed_data dev" and "gx_usb_claim_interfaces env dev h = (r, dev', h')" and "claimed_data dev'"
  shows "claimed_control dev'"
proof -
  have off: "\<not> claimed_data d2" if "gx_usb_release_interfaces env d g = (d2, g2)" "\<not> claimed_data d" for d g d2 g2
    using that by (auto simp: gx_usb_release_interfaces_def release_if_claimed_def Let_def split_beta split: if_splits)
  have "claimed_control dev'"
    if "claim_data_interface env a d g = (r, dev', h')" "\<not> claimed_data d" "claimed_control d" for a d g
    using that assms(3) off [of "d\<lparr>manually_detached_data := m\<rparr>" g2 dev' h' for m g2]
    by (auto simp: claim_data_interface_def Let_def split_beta split: sum.splits)
  then show ?thesis
    using assms
    by (auto simp: gx_usb_claim_interfaces_def claim_both_interfaces_def ext_do_def Let_def split: sum.splits if_splits prod.splits)
qed

lemma validate_kernel:
  "gx_usb_validate_layout env dev h = (r, h') \<Longrightarrow> kernel_of env h' = kernel_of env h"
  by (auto simp: gx_usb_validate_layout_def ext_do_def Let_def split: sum.splits if_splits prod.splits)

lemma open_receiver_ok:
  assumes "device_ok w d h" and "dv_usb d = zero_usb_device" and "\<not> session_started d"
    and "open_receiver w d h = (st, d', h')"
  shows "device_ok w d' h' \<and> tls_initialized d' = tls_initialized d \<and> dv_tls d' = dv_tls d
    \<and> dv_config d' = dv_config d \<and> (st = GX5125_DEVICE_OK \<longleftrightarrow> session_started d')"
proof -
  let ?env = "dw_env w"
  obtain o1 usb1 h1 where o: "gx_usb_open ?env (libusb_log_level (dv_config d)) h = (o1, usb1, h1)"
    by (rule prod_cases3)
  obtain o2 h2 where v: "gx_usb_validate_layout ?env usb1 h1 = (o2, h2)" by (rule prod.exhaust)
  obtain o3 usb3 h3 where c: "gx_usb_claim_interfaces ?env usb1 h2 = (o3, usb3, h3)" by (rule prod_cases3)
  obtain o4 s4 h4 where ss: "gx_session_start ?env usb3 (dv_session d) h3 = (o4, s4, h4)"
    by (rule prod_cases3)
  have k: "kernel_of ?env h = no_kernel_state" "tls_objects ?env h = server_objects (dv_tls d)"
    "live_objects ?env h = (False, False, False)"
    using assms(1-3) tracks_zero by (simp_all add: device_ok_def)
  have t1: "usb_tracks ?env usb1 h1"
    using gx_usb_open_tracks(1) [OF o k(1)] .
  have t2: "usb_tracks ?env usb1 h2" using t1 validate_kernel [OF v] by (simp add: usb_tracks_def)
  have t3: "usb_tracks ?env usb3 h3" using claim_tracks [OF t2 usb_open_unclaimed [OF o] c] by simp
  note both = claimed_together [OF usb_open_unclaimed [OF o] c]
  have t4: "usb_tracks ?env usb3 h4" using t3 session_start_other(1) [OF ss] by (simp add: usb_tracks_def)
  have g1: "grows usb_call h h1" using usb_open_calls [of h ?env "libusb_log_level (dv_config d)"] by (simp add: o)
  have g2: "grows usb_call h h2" using grows_trans [OF g1] usb_validate_calls [of h1 ?env usb1] by (simp add: v)
  have g3: "grows usb_call h h3" using grows_trans [OF g2] claim_calls [of h2 ?env usb1] by (simp add: c)
  note e = usb_call_effects [OF g1] usb_call_effects [OF g2] usb_call_effects [OF g3]
  have l3: "live_objects ?env h3 = (False, False, False)" using e(6) k(3) by metis
  note l4 = session_start_live [OF l3 ss]
  have tl4: "tls_objects ?env h4 = server_objects (dv_tls d)"
    using session_start_other(2) [OF ss] e(5) k(2) by metis
  note stages = assms(4) [unfolded open_receiver_def o Let_def prod.case]
  show ?thesis
  proof (cases "isl o1 \<or> isl o2 \<or> isl o3 \<or> isl o4")
    case True
    with stages o v c ss t1 t2 t3 t4 e k l3 l4 tl4 assms(1,3) show ?thesis
      by (auto simp: device_ok_def split: if_splits)
  next
    case False
    with stages v c ss t4 l4 tl4 both assms(1) show ?thesis
      by (auto simp: device_ok_def running_session_def zero_session_ok)
  qed
qed

text \<open>A closed device: everything it owns is zero, and nothing of it is alive outside.\<close>

definition device_closed :: "'e device_world \<Rightarrow> 'e gx5125_device \<Rightarrow> bool" where
  "device_closed w d \<longleftrightarrow> reset_device w d = d \<and> \<not> session_started d \<and> \<not> tls_initialized d"

definition nothing_held :: "'e device_world \<Rightarrow> history \<Rightarrow> bool" where
  "nothing_held w h \<longleftrightarrow>
     kernel_of (dw_env w) h = no_kernel_state \<and> tls_objects (dw_env w) h = (0, 0, 0)
     \<and> live_objects (dw_env w) h = (False, False, False)"

lemma closed_fields:
  assumes "device_closed w d"
  shows "dv_usb d = zero_usb_device" and "dv_tls d = zero_tls_server (dw_engine w)"
    and "dv_session d = zero_session" and "dv_state d = GX5125_DEVICE_CLOSED" and "chip_id (dv_info d) = 0"
    and "\<not> session_started d" and "\<not> tls_initialized d"
proof -
  let ?r = "reset_device w d"
  from assms have r: "?r = d" "\<not> session_started d" "\<not> tls_initialized d" by (simp_all add: device_closed_def)
  have "dv_usb ?r = zero_usb_device" "dv_tls ?r = zero_tls_server (dw_engine w)"
    "dv_session ?r = zero_session" "dv_state ?r = GX5125_DEVICE_CLOSED" "chip_id (dv_info ?r) = 0"
    by (simp_all add: reset_device_def)
  with r show "dv_usb d = zero_usb_device" "dv_tls d = zero_tls_server (dw_engine w)"
    "dv_session d = zero_session" "dv_state d = GX5125_DEVICE_CLOSED" "chip_id (dv_info d) = 0"
    "\<not> session_started d" "\<not> tls_initialized d" by simp_all
qed

lemma closed_holds_nothing:
  assumes "device_closed w d"
  shows "device_ok w d h \<longleftrightarrow> nothing_held w h"
proof -
  have "usb_tracks (dw_env w) zero_usb_device h \<longleftrightarrow> kernel_of (dw_env w) h = no_kernel_state"
    using tracks_zero by (auto simp: usb_tracks_def zero_usb_device_def no_kernel_state_def)
  with closed_fields [OF assms] show ?thesis
    by (auto simp: device_ok_def nothing_held_def server_objects_def zero_tls_server_def)
qed

lemma idle_moves:
  assumes "reads_bounded w" and "best_effort_idle w d h = (d', h')"
  shows "moves_data d h d' h'"
proof -
  obtain rc r d1 h1 where "device_command w d 0x07 0 [0x14, 0] 0 False 0 1 h = (rc, r, d1, h1)"
    by (rule prod_cases4)
  with device_command_moves(1) [OF assms(1) this] assms(2) show ?thesis
    by (auto simp: best_effort_idle_def split: if_splits)
qed

lemma stop_session_ok:
  assumes "device_ok w d h" and "stop_session w d h = (d', h')"
  shows "device_ok w d' h' \<and> \<not> session_started d' \<and> dv_config d' = dv_config d \<and> dv_psk_path d' = dv_psk_path d"
proof (cases "session_started d")
  case False
  with assms show ?thesis by (simp add: stop_session_def)
next
  case True
  obtain s h1 where g: "gx_session_stop (dw_env w) (dw_tail w h) (dv_session d) h = (s, h1)" by (rule prod.exhaust)
  have "receiver_started (dv_session d)" "live_objects (dw_env w) h = (True, True, True)"
    using assms(1) True by (simp_all add: device_ok_def running_session_def)
  then have l: "live_objects (dw_env w) h1 = (False, False, False)"
    using session_stop_live [of "dw_env w" h "dv_session d" "dw_tail w h"] by (simp add: g)
  with session_stop_other [of "dw_env w" "dw_tail w h" "dv_session d" h] g assms True show ?thesis
    by (auto simp: stop_session_def device_ok_def usb_tracks_def)
qed

lemma cleanup_tls_ok:
  assumes "tls_objects (dw_env w) h = server_objects (dv_tls d)"
    and "\<not> tls_initialized d \<longrightarrow> \<not> ts_ssl (dv_tls d) \<and> \<not> ts_context (dv_tls d)"
    and "cleanup_tls w d h = (d', h')"
  shows "tls_objects (dw_env w) h' = (0, 0, 0) \<and> \<not> tls_initialized d'
    \<and> session_started d' = session_started d \<and> dv_config d' = dv_config d \<and> dv_psk_path d' = dv_psk_path d
    \<and> kernel_of (dw_env w) h' = kernel_of (dw_env w) h \<and> live_objects (dw_env w) h' = live_objects (dw_env w) h"
proof (cases "tls_initialized d")
  case False
  with assms show ?thesis by (simp add: cleanup_tls_def server_objects_def)
next
  case True
  obtain s h1 where c: "gx_tls_server_cleanup (dw_env w) (dv_tls d) h = (s, h1)" by (rule prod.exhaust)
  have "tls_objects (dw_env w) h = objects_add (0, 0, 0) (server_objects (dv_tls d))"
    using assms(1) by (simp add: objects_add_def server_objects_def)
  note o = cleanup_objects [OF c this]
  have "kernel_of (dw_env w) h1 = kernel_of (dw_env w) h" "live_objects (dw_env w) h1 = live_objects (dw_env w) h"
    using c by (cases "live_objects (dw_env w) h";
      auto simp: gx_tls_server_cleanup_def ext_do_def Let_def simp del: append_assoc split: if_splits)+
  with o c True assms(3) show ?thesis by (auto simp: cleanup_tls_def)
qed

lemma close_closes:
  assumes "reads_bounded w" and "device_ok w d h" and "gx5125_device_close w d h = (d', h')"
  shows "device_closed w d' \<and> nothing_held w h' \<and> dv_config d' = dv_config d \<and> dv_psk_path d' = dv_psk_path d"
proof -
  obtain d1 h1 where i: "best_effort_idle w (d\<lparr>cancel_requested := True\<rparr>) h = (d1, h1)" by (rule prod.exhaust)
  obtain d2 h2 where s: "stop_session w d1 h1 = (d2, h2)" by (rule prod.exhaust)
  obtain usb h3 where u: "gx_usb_close (dw_env w) (dv_usb d2) h2 = (usb, h3)" by (rule prod.exhaust)
  obtain d4 h4 where c: "cleanup_tls w (d2\<lparr>dv_usb := usb\<rparr>) h3 = (d4, h4)" by (rule prod.exhaust)
  have d': "d' = reset_device w d4" "h' = h4"
    using assms(3) i s u c by (simp_all add: gx5125_device_close_def)
  have m: "moves_data d h d1 h1" using idle_moves [OF assms(1) i] by simp
  note ok1 = moves_keep_ok [OF assms(2) m]
  note ok2 = stop_session_ok [OF ok1 s]
  have k3: "kernel_of (dw_env w) h3 = no_kernel_state"
    using close_releases(1) [OF _ u] ok2 by (simp add: device_ok_def)
  have g: "grows usb_call h2 h3" using close_calls [of h2 "dw_env w" "dv_usb d2"] by (simp add: u)
  note e = usb_call_effects [OF g]
  have "tls_objects (dw_env w) h3 = server_objects (dv_tls (d2\<lparr>dv_usb := usb\<rparr>))"
    "\<not> tls_initialized (d2\<lparr>dv_usb := usb\<rparr>) \<longrightarrow>
       \<not> ts_ssl (dv_tls (d2\<lparr>dv_usb := usb\<rparr>)) \<and> \<not> ts_context (dv_tls (d2\<lparr>dv_usb := usb\<rparr>))"
    using ok2 e by (auto simp: device_ok_def)
  note f = cleanup_tls_ok [OF this c]
  have "dv_config d1 = dv_config d" "dv_psk_path d1 = dv_psk_path d" using m by (simp_all add: moves_data_def)
  with f k3 e ok2 show ?thesis
    by (simp add: d' device_closed_def nothing_held_def reset_device_def device_ok_def)
qed

text \<open>Creating the TLS server touches neither the kernel's USB state nor threads.\<close>

fun kernel_call :: "ext_call \<Rightarrow> bool" where
  "kernel_call Libusb_init = True"
| "kernel_call (Libusb_open_device v p) = True"
| "kernel_call Libusb_close = True"
| "kernel_call Libusb_exit = True"
| "kernel_call (Libusb_claim i) = True"
| "kernel_call (Libusb_release i) = True"
| "kernel_call (Libusb_detach i) = True"
| "kernel_call (Libusb_attach i) = True"
| "kernel_call _ = False"

definition ssl_call :: "ext_call \<Rightarrow> bool" where
  "ssl_call c \<longleftrightarrow> \<not> kernel_call c \<and> \<not> thread_call c"

lemma ssl_call_effects:
  assumes "grows ssl_call h h'"
  shows "kernel_of env h' = kernel_of env h" and "live_objects env h' = live_objects env h"
proof -
  have "kernel_of env (h @ [c]) = kernel_of env h" if "ssl_call c" for h c
    using that by (cases c) (simp_all add: ssl_call_def)
  then show "kernel_of env h' = kernel_of env h" by (rule grows_invariant [OF assms])
  have "live_objects env (h @ [c]) = live_objects env h" if "ssl_call c" for h c
    using that live_other_calls [of "[c]"] by (simp add: ssl_call_def del: live_append)
  then show "live_objects env h' = live_objects env h" by (rule grows_invariant [OF assms])
qed

lemma init_fail_calls: "grows ssl_call h g \<Longrightarrow> grows ssl_call h (snd (snd (tls_init_fail env rb wb s g)))"
  by (auto simp: tls_init_fail_def gx_tls_server_cleanup_def Let_def ext_do_def ssl_call_def
      simp del: append_assoc intro!: grows_snoc)

lemma configure_calls: "grows ssl_call h (snd (gx_tls_configure_context env ks h))"
proof (induction ks arbitrary: h)
  case (Cons k ks)
  have a: "grows ssl_call h (h @ [Ssl_ctx_set k])" by (rule grows_snoc) (simp_all add: ssl_call_def)
  from a grows_trans [OF a Cons.IH] show ?case by (simp add: ext_do_def)
qed simp

lemma tls_init_calls: "grows ssl_call h (snd (snd (gx_tls_server_init eng env psk h)))"
proof -
  have snoc: "grows ssl_call h g \<Longrightarrow> c \<in> {Openssl_init, Ssl_ctx_new, Ssl_new, Bio_new, Ssl_set_bio} \<Longrightarrow>
      grows ssl_call h (g @ [c])" for g c
    by (rule grows_snoc) (auto simp: ssl_call_def)
  let ?h1 = "(h @ [Openssl_init]) @ [Ssl_ctx_new]"
  obtain ok h2 where conf: "gx_tls_configure_context env [0, 1, 2, 3] ?h1 = (ok, h2)" by (rule prod.exhaust)
  have "grows ssl_call h ?h1" by (intro snoc) simp_all
  then have g2: "grows ssl_call h h2"
    using grows_trans configure_calls [of ?h1 env "[0, 1, 2, 3]"] unfolding conf by fastforce
  show ?thesis
    unfolding gx_tls_server_init_def ext_do_def Let_def prod.case conf fst_conv snd_conv
    by (auto simp del: append_assoc intro!: init_fail_calls snoc g2)
qed

text \<open>An active device: opened, with the peer authenticated and the sensor identified and calibrated.\<close>

definition device_active :: "'e gx5125_device \<Rightarrow> bool" where
  "device_active d \<longleftrightarrow>
     dv_state d = GX5125_DEVICE_ACTIVE \<and> session_started d \<and> tls_initialized d
     \<and> ts_ssl (dv_tls d) \<and> ts_context (dv_tls d)
     \<and> chip_id (dv_info d) = GX5125_SUPPORTED_CHIP_ID \<and> otp_dac_valid (dv_info d) = 1
     \<and> tls_established (mcu_state_flags (dv_info d)) \<and> tls_identity_valid (dv_info d) = 1"

lemma open_sensor_moves:
  assumes "reads_bounded w" and "open_sensor w d h = (st, d', h')"
  shows "moves_data d h d' h'
    \<and> (st = GX5125_DEVICE_OK \<longrightarrow> dv_state d' = GX5125_DEVICE_ACTIVE
         \<and> chip_id (dv_info d') = GX5125_SUPPORTED_CHIP_ID \<and> otp_dac_valid (dv_info d') = 1
         \<and> tls_established (mcu_state_flags (dv_info d')) \<and> tls_identity_valid (dv_info d') = 1)"
proof -
  obtain o1 d1 h1 where p: "control_preflight w d h = (o1, d1, h1)" by (rule prod_cases3)
  obtain o2 d2 h2 where s: "sensor_initialize w d1 h1 = (o2, d2, h2)" by (rule prod_cases3)
  obtain o3 d3 h3 where t: "tls_connect w (d2\<lparr>dv_state := GX5125_DEVICE_SENSOR_READY\<rparr>) h2 = (o3, d3, h3)"
    by (rule prod_cases3)
  note p' = preflight_moves [OF assms(1) p] and s' = sensor_initialize_moves [OF assms(1) s]
    and t' = tls_connect_moves [OF assms(1) t]
  have m2: "moves_data d h d2 h2" using moves_trans p' s' by blast
  have m3: "moves_data d h d3 h3" using moves_trans [OF m2, of d3 h3] t' by simp
  note stages = assms(2) [unfolded open_sensor_def p Let_def prod.case s t]
  show ?thesis
  proof (cases "isl o1 \<or> isl o2 \<or> isl o3")
    case True
    with stages p' m2 m3 show ?thesis by (auto split: if_splits)
  next
    case False
    then have "o1 = Inr ()" "o2 = Inr ()" "o3 = Inr ()" by (auto simp: not_isl_eq_Inr)
    with stages p' s' t' m3 show ?thesis by auto
  qed
qed

lemma open_stages_ok:
  assumes "reads_bounded w" and "device_ok w d h" and "device_closed w d0"
    and "d = d0\<lparr>cancel_requested := False\<rparr>" and "open_stages w d h = (st, d', h')"
  shows "device_ok w d' h' \<and> (st = GX5125_DEVICE_OK \<longrightarrow> device_active d') \<and> dv_config d' = dv_config d"
proof (cases "gx_secret_read_psk_file (dw_psk_file w (dv_psk_path d))")
  case None
  with assms(2,5) show ?thesis by (auto simp: open_stages_def)
next
  case (Some psk)
  obtain ok server h1 where i: "gx_tls_server_init (dw_engine w) (dw_env w) psk h = (ok, server, h1)"
    by (rule prod_cases3)
  let ?d = "d\<lparr>dv_tls := server, tls_initialized := True\<rparr>"
  obtain st2 d2 h2 where r: "open_receiver w ?d h1 = (st2, d2, h2)" by (rule prod_cases3)
  have z: "dv_usb d = zero_usb_device" "\<not> session_started d" "server_objects (dv_tls d) = (0, 0, 0)"
    "\<not> tls_initialized d"
    using closed_fields [OF assms(3)] by (simp_all add: assms(4) server_objects_def zero_tls_server_def)
  have "grows ssl_call h h1" using tls_init_calls [of h "dw_engine w" "dw_env w" psk] by (simp add: i)
  note e = ssl_call_effects [OF this]
  note o = init_objects [OF i]
  note stages = assms(5) [unfolded open_stages_def Some option.case i Let_def prod.case]
  have t0: "tls_objects (dw_env w) h = (0, 0, 0)" using assms(2) z by (simp add: device_ok_def)
  show ?thesis
  proof (cases ok)
    case False
    with stages o have "d' = d\<lparr>dv_tls := server\<rparr>" "h' = h1" "st \<noteq> GX5125_DEVICE_OK" "\<not> ts_ssl server"
      "\<not> ts_context server" "tls_objects (dw_env w) h1 = (0, 0, 0)"
      by (auto simp: t0)
    with assms(2) e z show ?thesis
      by (simp add: device_ok_def usb_tracks_def server_objects_def)
  next
    case True
    with o have sv: "server = (zero_tls_server (dw_engine w))\<lparr>ts_psk := psk, ts_context := True, ts_ssl := True\<rparr>"
      "tls_objects (dw_env w) h1 = (1, 1, 0)" by (simp_all add: t0 objects_add_def)
    have ok1: "device_ok w ?d h1"
      using assms(2) e z sv by (simp add: device_ok_def usb_tracks_def server_objects_def)
    have q: "device_ok w d2 h2" "tls_initialized d2" "dv_tls d2 = server" "dv_config d2 = dv_config d"
      "st2 = GX5125_DEVICE_OK \<longleftrightarrow> session_started d2"
      using open_receiver_ok [OF ok1 _ _ r] z by simp_all
    show ?thesis
    proof (cases "st2 = GX5125_DEVICE_OK")
      case False
      with stages True r q show ?thesis by (auto split: if_splits)
    next
      case st2: True
      with stages True r have s: "open_sensor w d2 h2 = (st, d', h')" by (auto split: if_splits)
      note m = open_sensor_moves [OF assms(1) s]
      have "device_ok w d' h'" using moves_keep_ok [OF q(1)] m by blast
      moreover have "ts_ssl (dv_tls d')" "ts_context (dv_tls d')" "session_started d'" "tls_initialized d'"
        "dv_config d' = dv_config d"
        using m q st2 sv(1) by (simp_all add: moves_data_def)
      ultimately show ?thesis using m by (simp add: device_active_def)
    qed
  qed
qed

section \<open>The life of a device\<close>

text \<open>
  Everything a caller can do with a device, in any order and any number of times, in one world.
\<close>

inductive device_reachable :: "'e device_world \<Rightarrow> 'e gx5125_device \<Rightarrow> history \<Rightarrow> bool" for w where
  created: "gx5125_device_create w config [] = (Some d, h) \<Longrightarrow> device_reachable w d h"
| opened: "device_reachable w d h \<Longrightarrow> gx5125_device_open w d h = (st, d', h') \<Longrightarrow> device_reachable w d' h'"
| captured: "device_reachable w d h \<Longrightarrow>
    gx5125_device_capture_raw16 w d pixels md h = (st, d', pixels', md', h') \<Longrightarrow> device_reachable w d' h'"
| cancelled: "device_reachable w d h \<Longrightarrow> device_reachable w (gx5125_device_request_cancel d) h"
| cleared: "device_reachable w d h \<Longrightarrow> device_reachable w (gx5125_device_clear_cancel d) h"
| closed: "device_reachable w d h \<Longrightarrow> gx5125_device_close w d h = (d', h') \<Longrightarrow> device_reachable w d' h'"

definition device_inv :: "'e device_world \<Rightarrow> 'e gx5125_device \<Rightarrow> history \<Rightarrow> bool" where
  "device_inv w d h \<longleftrightarrow> device_ok w d h \<and> (device_closed w d \<or> device_active d)"

lemma flag_keeps_form [simp]:
  "device_closed w (d\<lparr>cancel_requested := b\<rparr>) = device_closed w d"
  "device_active (d\<lparr>cancel_requested := b\<rparr>) = device_active d"
  by (cases d, simp add: device_closed_def reset_device_def) (simp add: device_active_def)

lemma created_closed:
  assumes "gx5125_device_create w config [] = (Some d, h)"
  shows "device_closed w d \<and> nothing_held w h"
proof -
  from assms obtain c path where "d = blank_device (dw_engine w) c path" "h = [Calloc 1]"
    by (auto simp: gx5125_device_create_def Let_def ext_do_def split: if_splits)
  then show ?thesis
    by (simp add: device_closed_def blank_device_def reset_device_def zero_device_info_def nothing_held_def
        kernel_of_def no_kernel_state_def tls_objects_def live_objects_def)
qed

lemma open_inv:
  assumes "reads_bounded w" and "device_inv w d h" and "gx5125_device_open w d h = (st, d', h')"
  shows "device_inv w d' h'
    \<and> (dv_state d = GX5125_DEVICE_CLOSED \<longrightarrow>
         (if st = GX5125_DEVICE_OK then device_active d' else device_closed w d' \<and> nothing_held w h'))"
proof (cases "dv_state d = GX5125_DEVICE_CLOSED")
  case False
  with assms(2,3) show ?thesis by (simp add: gx5125_device_open_def)
next
  case True
  then have cl: "device_closed w d" using assms(2) by (auto simp: device_inv_def device_active_def)
  let ?d = "d\<lparr>cancel_requested := False\<rparr>"
  obtain st1 d1 h1 where s: "open_stages w ?d h = (st1, d1, h1)" by (rule prod_cases3)
  have ok: "device_ok w ?d h" using assms(2) by (simp add: device_inv_def)
  note q = open_stages_ok [OF assms(1) ok cl refl s]
  show ?thesis
  proof (cases "st1 = GX5125_DEVICE_OK")
    case st1: True
    with assms(3) True s q show ?thesis by (simp add: gx5125_device_open_def device_inv_def)
  next
    case False
    obtain d2 h2 where c: "gx5125_device_close w (d1\<lparr>dv_state := GX5125_DEVICE_ERROR\<rparr>) h1 = (d2, h2)"
      by (rule prod.exhaust)
    have "device_ok w (d1\<lparr>dv_state := GX5125_DEVICE_ERROR\<rparr>) h1" using q by simp
    note x = close_closes [OF assms(1) this c]
    from assms(3) True False s c have "d' = d2" "h' = h2" "st = st1" by (simp_all add: gx5125_device_open_def)
    with x False closed_holds_nothing show ?thesis by (auto simp: device_inv_def)
  qed
qed

lemma capture_inv:
  assumes "reads_bounded w" and "device_inv w d h"
    and "gx5125_device_capture_raw16 w d pixels md h = (st, d', pixels', md', h')"
  shows "device_inv w d' h'"
proof (cases "dv_state d = GX5125_DEVICE_ACTIVE")
  case False
  with assms(2,3) show ?thesis by (simp add: gx5125_device_capture_raw16_def)
next
  case True
  then have a: "device_active d" using assms(2) closed_fields(4) by (fastforce simp: device_inv_def)
  from True assms(3) have "capture_loop w (unat (capture_attempts (dv_config d))) 1 (0, 0)
      (d\<lparr>dv_state := GX5125_DEVICE_CAPTURING\<rparr>) (replicate GX5125_IMAGE_PIXELS 0) zero_metadata h
      = (st, d', pixels', md', h')"
    by (simp add: gx5125_device_capture_raw16_def)
  note m = capture_loop_moves [OF assms(1) this]
  have m1: "moves_data d h d' h'" using m by simp
  have "device_ok w d' h'" using moves_keep_ok [OF _ m1] assms(2) by (simp add: device_inv_def)
  moreover have "device_active d'" using a m m1 by (simp add: device_active_def moves_data_def)
  ultimately show ?thesis by (simp add: device_inv_def)
qed

lemma reachable_inv:
  assumes "reads_bounded w"
  shows "device_reachable w d h \<Longrightarrow> device_inv w d h"
proof (induction rule: device_reachable.induct)
  case (created config d h)
  from created_closed [OF this] show ?case by (simp add: device_inv_def closed_holds_nothing)
next
  case (opened d h st d' h')
  from open_inv [OF assms opened.IH opened.hyps(2)] show ?case by simp
next
  case (captured d h pixels md st d' pixels' md' h')
  show ?case by (rule capture_inv [OF assms captured.IH captured.hyps(2)])
next
  case (closed d h d' h')
  have "device_ok w d h" using closed.IH by (simp add: device_inv_def)
  from close_closes [OF assms this closed.hyps(2)] show ?case
    by (simp add: device_inv_def closed_holds_nothing)
qed (simp_all add: device_inv_def gx5125_device_request_cancel_def gx5125_device_clear_cancel_def)

text \<open>
  C1: the life of a device. After any sequence of opens, captures, cancellations and closes, in
  any world (whatever libusb, OpenSSL, the receiver, the clocks and other threads do), the device is
  closed or active, never in between. Closed means that its structures are zero and that nothing
  is left outside: no libusb context or handle, no interface claimed, no kernel driver detached, no OpenSSL
  object, no thread, mutex or condition variable. Active means that the sensor was identified as chip \<open>0x2504\<close> with a valid
  calibration, the controller reported an established TLS connection, the peer passed the key check, one
  libusb context and one handle are open with both interfaces claimed, and the one receiver thread and the one
  TLS connection are alive.
\<close>

theorem device_closed_or_active:
  assumes "reads_bounded w" and "device_reachable w d h"
  shows "if dv_state d = GX5125_DEVICE_CLOSED then device_closed w d \<and> nothing_held w h
         else device_active d \<and> contexts (kernel_of (dw_env w) h) = 1 \<and> handles (kernel_of (dw_env w) h) = 1
           \<and> held (kernel_of (dw_env w) h) 0 \<and> held (kernel_of (dw_env w) h) 1 \<and> tls_objects (dw_env w) h = (1, 1, 0)
           \<and> live_objects (dw_env w) h = (True, True, True) \<and> running_session (dv_session d)"
proof (cases "dv_state d = GX5125_DEVICE_CLOSED")
  case True
  with reachable_inv [OF assms] closed_holds_nothing show ?thesis
    by (auto simp: device_inv_def device_active_def)
next
  case False
  with reachable_inv [OF assms] closed_fields(4) have "device_ok w d h" "device_active d"
    by (auto simp: device_inv_def)
  with False show ?thesis
    by (auto simp: device_ok_def device_active_def usb_tracks_def server_objects_def)
qed

section \<open>What an open and a capture promise\<close>

lemma close_of_closed:
  assumes "device_closed w d"
  shows "gx5125_device_close w d h = (d\<lparr>cancel_requested := True\<rparr>, h)"
proof -
  note f = closed_fields [OF assms]
  have usb: "gx_usb_close (dw_env w) zero_usb_device h = (zero_usb_device, h)"
    by (simp add: gx_usb_close_def gx_usb_release_interfaces_def zero_usb_device_def)
  have "reset_device w (d\<lparr>cancel_requested := True\<rparr>) = d\<lparr>cancel_requested := True\<rparr>"
    using assms flag_keeps_form(1) [where w = w and d = d and b = True] by (simp add: device_closed_def)
  then show ?thesis
    using f usb by (simp add: gx5125_device_close_def best_effort_idle_def stop_session_def cleanup_tls_def
        reset_device_def)
qed

text \<open>
  The checks of an open in their order, each on what the stages before it left, with the status that
  stands for its failure; a check behind one that failed has no meaning. The first that failed decides.
\<close>

definition open_checks :: "'e device_world \<Rightarrow> 'e gx5125_device \<Rightarrow> history \<Rightarrow> (bool \<times> gx5125_device_status) list" where
  "open_checks w d h =
     (case gx_secret_read_psk_file (dw_psk_file w (dv_psk_path d)) of
        None \<Rightarrow> [(True, GX5125_DEVICE_ERR_PSK)]
      | Some psk \<Rightarrow>
          (let (ok, server, h1) = gx_tls_server_init (dw_engine w) (dw_env w) psk h;
               (opened, usb, h2) = gx_usb_open (dw_env w) (libusb_log_level (dv_config d)) h1;
               (layout, h3) = gx_usb_validate_layout (dw_env w) usb h2;
               (claimed, claimed_usb, h4) = gx_usb_claim_interfaces (dw_env w) usb h3;
               (started, session, h5) = gx_session_start (dw_env w) claimed_usb (dv_session d) h4;
               running = d\<lparr>cancel_requested := False, dv_tls := server, tls_initialized := True,
                 dv_usb := claimed_usb, dv_session := session, session_started := True,
                 dv_state := GX5125_DEVICE_RECEIVER_RUNNING\<rparr>;
               (preflight, identified, h6) = control_preflight w running h5;
               (sensor, initialized, h7) = sensor_initialize w identified h6;
               (tls, connected, h8) = tls_connect w (initialized\<lparr>dv_state := GX5125_DEVICE_SENSOR_READY\<rparr>) h7
           in [(\<not> ok, GX5125_DEVICE_ERR_TLS), (isl opened, GX5125_DEVICE_ERR_USB_OPEN),
               (isl layout, GX5125_DEVICE_ERR_USB_LAYOUT), (isl claimed, GX5125_DEVICE_ERR_USB_CLAIM),
               (isl started, GX5125_DEVICE_ERR_RECEIVER), (isl preflight, GX5125_DEVICE_ERR_PREFLIGHT),
               (isl sensor, GX5125_DEVICE_ERR_SENSOR_INIT), (isl tls, GX5125_DEVICE_ERR_TLS)]))"

definition first_failed :: "(bool \<times> gx5125_device_status) list \<Rightarrow> gx5125_device_status" where
  "first_failed checks = (case filter fst checks of [] \<Rightarrow> GX5125_DEVICE_OK | c # _ \<Rightarrow> snd c)"

lemma first_failed_simps [simp]:
  "first_failed [] = GX5125_DEVICE_OK" "first_failed ((b, e) # cs) = (if b then e else first_failed cs)"
  by (simp_all add: first_failed_def)

lemma stages_status: "fst (open_stages w (d\<lparr>cancel_requested := False\<rparr>) h) = first_failed (open_checks w d h)"
proof (cases "gx_secret_read_psk_file (dw_psk_file w (dv_psk_path d))")
  case None
  then show ?thesis by (simp add: open_stages_def open_checks_def)
next
  case (Some psk)
  obtain ok server h1 where i: "gx_tls_server_init (dw_engine w) (dw_env w) psk h = (ok, server, h1)" by (rule prod_cases3)
  obtain o1 usb h2 where o: "gx_usb_open (dw_env w) (libusb_log_level (dv_config d)) h1 = (o1, usb, h2)" by (rule prod_cases3)
  obtain o2 h3 where v: "gx_usb_validate_layout (dw_env w) usb h2 = (o2, h3)" by (rule prod.exhaust)
  obtain o3 usb' h4 where c: "gx_usb_claim_interfaces (dw_env w) usb h3 = (o3, usb', h4)" by (rule prod_cases3)
  obtain o4 session h5 where ss: "gx_session_start (dw_env w) usb' (dv_session d) h4 = (o4, session, h5)" by (rule prod_cases3)
  let ?running = "d\<lparr>cancel_requested := False, dv_tls := server, tls_initialized := True,
    dv_usb := usb', dv_session := session, session_started := True, dv_state := GX5125_DEVICE_RECEIVER_RUNNING\<rparr>"
  let ?d = "d\<lparr>cancel_requested := False, dv_tls := server, tls_initialized := True\<rparr>"
  have run: "?d\<lparr>dv_usb := usb, dv_state := GX5125_DEVICE_USB_OPEN, dv_usb := usb',
      dv_state := GX5125_DEVICE_INTERFACES_CLAIMED, dv_session := session, session_started := True,
      dv_state := GX5125_DEVICE_RECEIVER_RUNNING\<rparr> = ?running"
    by (cases d) simp
  obtain o5 d6 h6 where p: "control_preflight w ?running h5 = (o5, d6, h6)" by (rule prod_cases3)
  obtain o6 d7 h7 where se: "sensor_initialize w d6 h6 = (o6, d7, h7)" by (rule prod_cases3)
  obtain o7 d8 h8 where t: "tls_connect w (d7\<lparr>dv_state := GX5125_DEVICE_SENSOR_READY\<rparr>) h7 = (o7, d8, h8)" by (rule prod_cases3)
  have receiver: "fst (open_receiver w ?d h1) = first_failed [(isl o1, GX5125_DEVICE_ERR_USB_OPEN),
      (isl o2, GX5125_DEVICE_ERR_USB_LAYOUT), (isl o3, GX5125_DEVICE_ERR_USB_CLAIM), (isl o4, GX5125_DEVICE_ERR_RECEIVER)]"
    and ready: "\<not> (isl o1 \<or> isl o2 \<or> isl o3 \<or> isl o4) \<longrightarrow> snd (open_receiver w ?d h1) = (?running, h5)"
    using o v c ss run by (simp_all add: open_receiver_def Let_def)
  have sensor: "fst (open_sensor w ?running h5) = first_failed [(isl o5, GX5125_DEVICE_ERR_PREFLIGHT),
      (isl o6, GX5125_DEVICE_ERR_SENSOR_INIT), (isl o7, GX5125_DEVICE_ERR_TLS)]"
    using p se t by (simp add: open_sensor_def Let_def)
  have checks: "open_checks w d h = [(\<not> ok, GX5125_DEVICE_ERR_TLS), (isl o1, GX5125_DEVICE_ERR_USB_OPEN),
      (isl o2, GX5125_DEVICE_ERR_USB_LAYOUT), (isl o3, GX5125_DEVICE_ERR_USB_CLAIM),
      (isl o4, GX5125_DEVICE_ERR_RECEIVER), (isl o5, GX5125_DEVICE_ERR_PREFLIGHT),
      (isl o6, GX5125_DEVICE_ERR_SENSOR_INIT), (isl o7, GX5125_DEVICE_ERR_TLS)]"
    unfolding open_checks_def Some option.case i o v c ss Let_def prod.case p se t ..
  have stages: "open_stages w (d\<lparr>cancel_requested := False\<rparr>) h = (if \<not> ok then (GX5125_DEVICE_ERR_TLS, d\<lparr>cancel_requested := False, dv_tls := server\<rparr>, h1)
      else let (status, d2, h2) = open_receiver w ?d h1
           in if status \<noteq> GX5125_DEVICE_OK then (status, d2, h2) else open_sensor w d2 h2)"
    by (simp add: open_stages_def Some i)
  obtain st d2 g2 where r: "open_receiver w ?d h1 = (st, d2, g2)" by (rule prod_cases3)
  show ?thesis
  proof (cases "isl o1 \<or> isl o2 \<or> isl o3 \<or> isl o4")
    case True
    then have "st \<noteq> GX5125_DEVICE_OK" using receiver r by (auto split: if_splits)
    with True receiver r show ?thesis unfolding stages checks by (auto split: if_splits)
  next
    case False
    with receiver ready r have "st = GX5125_DEVICE_OK" "d2 = ?running" "g2 = h5" by simp_all
    with False sensor show ?thesis unfolding stages checks r by simp
  qed
qed

text \<open>
  C4: how an open ends. Opening a closed device succeeds exactly when it ends active. Otherwise
  it ends closed again with nothing left outside, libusb's context and handle included, whichever stage failed.
  The status is that of the first check that failed, in the order key file, TLS context, USB
  device, endpoint layout, interfaces, receiver thread, preflight, sensor initialization, TLS handshake, each run on
  what the checks before it left. If the key file was rejected the outside was not even called.
  Opening a device that is not closed is refused and changes nothing.
\<close>

theorem open_outcome:
  assumes "reads_bounded w" and "device_reachable w d h" and "gx5125_device_open w d h = (st, d', h')"
  shows "if dv_state d \<noteq> GX5125_DEVICE_CLOSED then st = GX5125_DEVICE_ERR_STATE \<and> d' = d \<and> h' = h
         else (st = GX5125_DEVICE_OK \<longleftrightarrow> dv_state d' = GX5125_DEVICE_ACTIVE)
           \<and> (st \<noteq> GX5125_DEVICE_OK \<longrightarrow> device_closed w d' \<and> nothing_held w h')
           \<and> st = first_failed (open_checks w d h)
           \<and> (gx_secret_read_psk_file (dw_psk_file w (dv_psk_path d)) = None \<longrightarrow> h' = h)"
proof (cases "dv_state d = GX5125_DEVICE_CLOSED")
  case False
  with assms(3) show ?thesis by (simp add: gx5125_device_open_def)
next
  case True
  note inv = reachable_inv [OF assms(1,2)]
  then have cl: "device_closed w d" using True by (auto simp: device_inv_def device_active_def)
  note o = open_inv [OF assms(1) inv assms(3)]
  have "st = GX5125_DEVICE_OK \<longleftrightarrow> dv_state d' = GX5125_DEVICE_ACTIVE"
    using o True closed_fields(4) [of w d'] by (auto simp: device_active_def split: if_splits)
  moreover have "st = first_failed (open_checks w d h)"
    using assms(3) True stages_status [of w d h] by (auto simp: gx5125_device_open_def split: prod.splits if_splits)
  moreover have "h' = h"
    if "gx_secret_read_psk_file (dw_psk_file w (dv_psk_path d)) = None"
  proof -
    let ?d = "d\<lparr>cancel_requested := False\<rparr>"
    have e: "?d\<lparr>dv_state := GX5125_DEVICE_ERROR\<rparr> = (d\<lparr>cancel_requested := False, dv_state := GX5125_DEVICE_ERROR\<rparr>)"
      by simp
    have "gx5125_device_close w (?d\<lparr>dv_state := GX5125_DEVICE_ERROR\<rparr>) h
        = gx5125_device_close w d h"
      using closed_fields [OF cl]
      by (simp add: gx5125_device_close_def best_effort_idle_def stop_session_def cleanup_tls_def reset_device_def
          split_beta)
    with that True assms(3) close_of_closed [OF cl] show ?thesis
      by (simp add: gx5125_device_open_def open_stages_def)
  qed
  ultimately show ?thesis using o True by auto
qed

definition decoded_frame :: "u8 list \<Rightarrow> u16 list" where
  "decoded_frame raw = place_pixels (unpack_frame raw) (replicate GX5125_IMAGE_PIXELS 0)"

text \<open>
  A good frame, cut out of the plaintext the engine delivered between two of its states. \<open>before\<close> was
  delivered to earlier attempts, \<open>new\<close> to the last one, which took \<open>got\<close> of it.
\<close>

definition good_frame :: "environment \<Rightarrow> u8 list \<Rightarrow> u8 list \<Rightarrow> u8 list \<Rightarrow> bool" where
  "good_frame env start stop raw \<longleftrightarrow>
     (\<exists>before new got pre m post. stop = start @ before @ new \<and> subseq got new \<and> (writes_in_time env \<longrightarrow> got = new)
        \<and> got = pre @ inner_frame m @ post \<and> image_message m \<and> raw = image_bytes m
        \<and> stored_crc raw = gx_crc32_mpeg2 (Buf (take GX5125_IMAGE_PACKED_SIZE raw)))"

lemma good_frame_later: "good_frame env (start @ x) stop raw \<Longrightarrow> good_frame env start stop raw"
  unfolding good_frame_def by (metis append.assoc)

lemma device_capture_plaintext:
  assumes "records_plaintext (dw_engine w) plain" and "device_capture w d h = (rc, raw, result, d', h')"
  shows "\<exists>new. plain (ts_engine (dv_tls d')) = plain (ts_engine (dv_tls d)) @ new
    \<and> (rc = Inr () \<longrightarrow> (\<exists>got pre m post. subseq got new \<and> (writes_in_time (dw_env w) \<longrightarrow> got = new)
         \<and> got = pre @ inner_frame m @ post \<and> image_message m \<and> raw = image_bytes m))"
proof -
  let ?t = "unat (capture_timeout_ms (dv_config d))"
  let ?ch = "\<lparr>ch_server = dv_tls d, ch_session = dv_session d, ch_cancel = cancel_requested d\<rparr>"
  obtain ch where c: "capture_image_tls (dw_engine w) (dw_env w) (dw_sched w) (dv_usb d) ?t 1 True (dw_round w h)
      (replicate GX5125_IMAGE_RAW_FRAME_SIZE 0) zero_capture_result ?ch h = (rc, raw, result, ch, h')"
    and d': "dv_tls d' = ch_server ch"
    using assms(2) by (auto simp: device_capture_def split: prod.splits)
  show ?thesis
  proof (cases "?t = 0")
    case True
    then have "ch = ?ch" "rc \<noteq> Inr ()" using c by (auto simp: capture_image_tls_def)
    then show ?thesis using d' by simp
  next
    case False
    have "(1 :: nat) \<noteq> 0" by simp
    from capture_plaintext [OF assms(1) False this c] obtain new got where t: "took plain ?ch ch new got"
      "writes_in_time (dw_env w) \<and> rc = Inr () \<longrightarrow> got = new" "capture_of got rc raw result" by blast
    have "rc = Inr () \<longrightarrow> (\<exists>pre m post. got = pre @ inner_frame m @ post \<and> image_message m \<and> raw = image_bytes m)"
      using t(3) unfolding capture_of_def by blast
    moreover have "plain (ts_engine (dv_tls d')) = plain (ts_engine (dv_tls d)) @ new" "subseq got new"
      using t(1) by (simp_all add: took_def d')
    ultimately show ?thesis using t(2) by blast
  qed
qed

lemma capture_loop_result:
  assumes plain: "records_plaintext (dw_engine w) plain"
  shows "capture_loop w n k crcs d (replicate GX5125_IMAGE_PIXELS 0) md h = (st, d', pixels, md', h') \<Longrightarrow>
    md_crc_ok md = 0 \<Longrightarrow>
    (st = GX5125_DEVICE_OK \<longrightarrow>
       (\<exists>raw. good_frame (dw_env w) (plain (ts_engine (dv_tls d))) (plain (ts_engine (dv_tls d'))) raw
          \<and> pixels = decoded_frame raw \<and> md_crc_ok md' = 1 \<and> md_stored_crc md' = stored_crc raw))
     \<and> (st \<noteq> GX5125_DEVICE_OK \<longrightarrow> pixels = replicate GX5125_IMAGE_PIXELS 0 \<and> md_crc_ok md' = 0)
     \<and> st \<in> {GX5125_DEVICE_OK, GX5125_DEVICE_ERR_CANCELLED, GX5125_DEVICE_ERR_CAPTURE, GX5125_DEVICE_ERR_CRC}"
proof (induction n arbitrary: k crcs d h)
  case (Suc n)
  let ?z = "replicate GX5125_IMAGE_PIXELS 0"
  let ?d = "d\<lparr>cancel_requested := flag_after (dw_stores w h) (cancel_requested d)\<rparr>"
  let ?plain = "\<lambda>d. plain (ts_engine (dv_tls d))"
  obtain rc raw result d1 h1 where c: "device_capture w ?d h = (rc, raw, result, d1, h1)"
    by (rule prod_cases5)
  obtain dec ok calc stored where x: "gx_chicagohu_decode raw ?z = (dec, ok, calc, stored)"
    by (rule prod_cases4)
  obtain new where "?plain d1 = ?plain ?d @ new"
    and found: "rc = Inr () \<longrightarrow> (\<exists>got pre m post. subseq got new \<and> (writes_in_time (dw_env w) \<longrightarrow> got = new)
         \<and> got = pre @ inner_frame m @ post \<and> image_message m \<and> raw = image_bytes m)"
    using device_capture_plaintext [OF plain c] by blast
  then have new: "?plain d1 = ?plain d @ new" by simp
  consider (stopped) "pixels = ?z" "md' = md" "st \<in> {GX5125_DEVICE_ERR_CANCELLED, GX5125_DEVICE_ERR_CAPTURE}"
    | (more) k1 crcs1 where "capture_loop w n k1 crcs1 d1 ?z md h1 = (st, d', pixels, md', h')"
    | (frame) "rc = Inr ()" "dec = Inr pixels" "ok" "st = GX5125_DEVICE_OK"
        "md' = frame_metadata k result calc stored pixels" "dv_tls d' = dv_tls d1"
    using Suc.prems c x by (auto simp: Let_def split: if_splits sum.splits bool.splits)
  then show ?case
  proof cases
    case stopped
    with Suc.prems show ?thesis by auto
  next
    case more
    from Suc.IH [OF this] Suc.prems(2) good_frame_later show ?thesis unfolding new by blast
  next
    case frame
    have decoded: "stored_crc raw = gx_crc32_mpeg2 (Buf (take GX5125_IMAGE_PACKED_SIZE raw))"
      "pixels = decoded_frame raw" "stored = stored_crc raw"
      using x frame by (auto simp: gx_chicagohu_decode_def decoded_frame_def Let_def split: if_splits)
    have "?plain d' = ?plain d @ [] @ new" using new frame by simp
    with found frame(1) decoded(1) have "good_frame (dw_env w) (?plain d) (?plain d') raw"
      unfolding good_frame_def by blast
    then show ?thesis using frame decoded by (auto simp: frame_metadata_def Let_def)
  qed
qed auto


text \<open>
  Cancellation. A capture that starts with the cancel flag set, and no other thread changes it,
  returns the cancelled status at once: nothing is sent, the device stays active and the flag stays set.
  The next open clears the flag, and so does \<open>gx5125_device_clear_cancel\<close>; a close sets it.
\<close>

theorem cancelled_capture_does_nothing:
  assumes "dv_state d = GX5125_DEVICE_ACTIVE" and "dw_stores w h = []"
    and "capture_attempts (dv_config d) \<noteq> 0"
  shows "gx5125_device_capture_raw16 w (gx5125_device_request_cancel d) pixels md h
     = (GX5125_DEVICE_ERR_CANCELLED, gx5125_device_request_cancel d, replicate GX5125_IMAGE_PIXELS 0, zero_metadata, h)"
proof -
  obtain n where n: "unat (capture_attempts (dv_config d)) = Suc n"
    using assms(3) by (metis not0_implies_Suc unat_eq_zero)
  have "d\<lparr>cancel_requested := True, dv_state := GX5125_DEVICE_ACTIVE\<rparr> = d\<lparr>cancel_requested := True\<rparr>"
    using assms(1) by (cases d) simp
  then show ?thesis
    using assms(1,2)
    by (simp add: gx5125_device_capture_raw16_def gx5125_device_request_cancel_def n flag_after_def Let_def)
qed

section \<open>A sample world\<close>

text \<open>A world in which every libusb call succeeds, no byte ever arrives and there is no key file.\<close>

definition no_key_file :: psk_file where
  "no_key_file = \<lparr>pf_opens = False, pf_regular = False, pf_private = False, pf_content = [], pf_reads = []\<rparr>"

definition silent_world :: "nat device_world" where
  "silent_world =
     \<lparr>dw_env = quiet_env, dw_engine = sample_engine, dw_sched = silent_sched, dw_psk_file = (\<lambda>_. no_key_file),
      dw_time = (\<lambda>_. (12, 345678901)), dw_handshake = (\<lambda>_. (0, [])), dw_round = (\<lambda>_ _. sample_round),
      dw_stores = (\<lambda>_. []), dw_tail = (\<lambda>_. [])\<rparr>"

definition fresh_device :: "nat gx5125_device" where
  "fresh_device = blank_device sample_engine gx5125_device_default_config GX5125_DEFAULT_PSK_PATH"

lemma silent_reads: "reads_bounded silent_world"
  by (simp add: reads_bounded_def silent_world_def silent_sched_def plan_ok_def)

lemma fresh_reachable: "device_reachable silent_world fresh_device [Calloc 1]"
proof (rule device_reachable.created)
  show "gx5125_device_create silent_world None [] = (Some fresh_device, [Calloc 1])"
    by (simp add: gx5125_device_create_def gx5125_device_default_config_def config_valid_def PATH_MAX_def
        GX5125_DEFAULT_PSK_PATH_def silent_world_def quiet_env_def ext_do_def fresh_device_def)
qed

lemma fresh_state: "dv_state fresh_device = GX5125_DEVICE_CLOSED"
  by (simp add: fresh_device_def blank_device_def)

theorem device_closed_or_active_witness:
  "device_closed silent_world fresh_device \<and> nothing_held silent_world [Calloc 1]"
  using device_closed_or_active [OF silent_reads fresh_reachable] by (simp add: fresh_state)

theorem open_outcome_witness:
  "\<exists>d' h'. gx5125_device_open silent_world fresh_device [Calloc 1] = (GX5125_DEVICE_ERR_PSK, d', h')
     \<and> device_closed silent_world d' \<and> nothing_held silent_world h' \<and> h' = [Calloc 1]"
proof -
  obtain st d' h' where o: "gx5125_device_open silent_world fresh_device [Calloc 1] = (st, d', h')"
    by (rule prod_cases3)
  have "gx_secret_read_psk_file (dw_psk_file silent_world (dv_psk_path fresh_device)) = None"
    by (simp add: silent_world_def no_key_file_def gx_secret_read_psk_file_def)
  moreover from this have "first_failed (open_checks silent_world fresh_device [Calloc 1]) = GX5125_DEVICE_ERR_PSK"
    by (simp add: open_checks_def)
  ultimately show ?thesis using open_outcome [OF silent_reads fresh_reachable o] o
    by (auto simp del: One_nat_def simp add: fresh_state)
qed

text \<open>A device in a world whose TLS engine has connected and delivers an image.\<close>

definition image_world :: "u8 list device_world" where
  "image_world =
     \<lparr>dw_env = quiet_env, dw_engine = image_engine, dw_sched = silent_sched, dw_psk_file = (\<lambda>_. no_key_file),
      dw_time = (\<lambda>_. (12, 345678901)), dw_handshake = (\<lambda>_. (0, [])), dw_round = (\<lambda>_ _. sample_round),
      dw_stores = (\<lambda>_. []), dw_tail = (\<lambda>_. [])\<rparr>"


theorem cancelled_capture_does_nothing_witness:
  "gx5125_device_capture_raw16 silent_world
     (gx5125_device_request_cancel (fresh_device\<lparr>dv_state := GX5125_DEVICE_ACTIVE\<rparr>)) [] zero_metadata []
   = (GX5125_DEVICE_ERR_CANCELLED, gx5125_device_request_cancel (fresh_device\<lparr>dv_state := GX5125_DEVICE_ACTIVE\<rparr>),
      replicate GX5125_IMAGE_PIXELS 0, zero_metadata, [])"
  by (rule cancelled_capture_does_nothing)
    (simp_all add: silent_world_def fresh_device_def blank_device_def gx5125_device_default_config_def)

end
