(* ===== verification/Opening.thy ===== *)
theory Opening
  imports Device Peer
begin

text \<open>
  Progress of the device: when libusb does its work and a sensor that speaks the protocol is on the
  other side, \<open>gx5125_device_open\<close> reaches the active state, and a capture then delivers exactly the
  picture the sensor sent. What the sensor sends is a script, indexed by the number of frames the
  driver has sent so far: answers to the commands, and the bytes of its TLS client.
\<close>

definition usb_works :: "environment \<Rightarrow> bool" where
  "usb_works env \<longleftrightarrow> host_works env
     \<and> (\<forall>h. scan_config (reply_config (env h Libusb_get_config)) = (True, True, True))"

text \<open>In every wait after the \<open>k\<close>-th frame the acknowledgement and the response to this command arrive.\<close>

definition answers :: "'e device_world \<Rightarrow> nat \<Rightarrow> u8 \<Rightarrow> u8 \<Rightarrow> u8 list \<Rightarrow> bool" where
  "answers w k cmd0 cmd1 data \<longleftrightarrow>
     (\<forall>g t. send_count g = k \<longrightarrow> arrivals (dw_sched w g t) = answer_reads cmd0 cmd1 0x01 data)"

text \<open>A device ready for a command.\<close>

definition ready :: "'e gx5125_device \<Rightarrow> bool" where
  "ready d \<longleftrightarrow> ud_handle (dv_usb d) \<and> claimed_data (dv_usb d) \<and> quiet_session (dv_session d)"

lemma ready_fields [simp]:
  "ready (d\<lparr>dv_info := i\<rparr>) = ready d" "ready (d\<lparr>dv_otp := x\<rparr>) = ready d" "ready (d\<lparr>dv_state := st\<rparr>) = ready d"
  "ready (d\<lparr>dv_tls := t\<rparr>) = ready d"
  by (simp_all add: ready_def)

lemma works_D:
  assumes "usb_works env"
  shows "host_works env" and "calls_work env" and "reply_rc (env h c) = Inr 0"
    and "scan_config (reply_config (env h Libusb_get_config)) = (True, True, True)"
  using assms by (simp_all add: usb_works_def host_works_def calls_work_def)

section \<open>Commands\<close>

lemma command_answers:
  assumes "usb_works (dw_env w)" and "ready d" and "c0 \<le> 0x0f" and "c1 \<le> 0x07" and "\<not> (c0 = 0x0b \<and> c1 = 0)"
    and "length payload \<le> GX5125_OUTER_MAX_PAYLOAD - 4" and "0 < n"
    and "length data \<le> GX5125_RESPONSE_CAPACITY" and "answers w (Suc (send_count h)) c0 c1 data"
  shows "\<exists>r s' h'. device_command w d c0 c1 payload ack True resp n h = (Inr (), r, d\<lparr>dv_session := s'\<rparr>, h')
     \<and> response_received r \<and> cr_response r = data
     \<and> ready (d\<lparr>dv_session := s'\<rparr>) \<and> send_count h' = Suc (send_count h)"
proof -
  have "\<exists>s' h'. gx_session_command (dw_env w) (dw_sched w) (dv_usb d) (dv_session d) c0 c1 (Buf payload) ack True
        resp n zero_command_result h
       = (Inr (), \<lparr>ack_received = (ack \<noteq> 0), cr_ack_flags = (if ack \<noteq> 0 then 0x01 else 0),
                   response_received = True, cr_response = data, attempts_used = 1\<rparr>, s', h')
     \<and> idle_session s' \<and> tls_fifo s' = tls_fifo (dv_session d) \<and> send_count h' = Suc (send_count h)"
    by (rule answered_command) (use assms works_D in \<open>simp_all add: ready_def quiet_session_def answers_def\<close>)
  then obtain r s' h' where c: "gx_session_command (dw_env w) (dw_sched w) (dv_usb d) (dv_session d) c0 c1
        (Buf payload) ack True resp n zero_command_result h = (Inr (), r, s', h')"
    "response_received r" "cr_response r = data" "idle_session s'" "tls_fifo s' = tls_fifo (dv_session d)"
    "send_count h' = Suc (send_count h)" by force
  then have "device_command w d c0 c1 payload ack True resp n h = (Inr (), r, d\<lparr>dv_session := s'\<rparr>, h')"
    by (simp add: device_command_def)
  moreover have "ready (d\<lparr>dv_session := s'\<rparr>)" using assms(2) c(4,5) by (simp add: ready_def quiet_session_def)
  ultimately show ?thesis using c by blast
qed

text \<open>A command without an answer, and one that only waits for the acknowledgement.\<close>

lemma command_sent:
  assumes "usb_works (dw_env w)" and "ready d" and "c0 \<le> 0x0f" and "c1 \<le> 0x07"
    and "length payload \<le> GX5125_OUTER_MAX_PAYLOAD - 4"
  shows "\<exists>r h'. gx_session_command (dw_env w) (dw_sched w) (dv_usb d) s c0 c1 (Buf payload) 0 False 0 1 r0 h
       = (Inr (), r, s, h') \<and> send_count h' = Suc (send_count h)"
proof -
  have "\<exists>h'. gx_session_command (dw_env w) (dw_sched w) (dv_usb d) s c0 c1 (Buf payload) 0 False 0 1 r0 h
       = (Inr (), zero_command_result\<lparr>attempts_used := 1\<rparr>, s, h')"
    by (rule sent_command) (use assms works_D in \<open>simp_all add: ready_def\<close>)
  then obtain h' where c: "gx_session_command (dw_env w) (dw_sched w) (dv_usb d) s c0 c1 (Buf payload) 0 False 0 1 r0 h
       = (Inr (), zero_command_result\<lparr>attempts_used := 1\<rparr>, s, h')" ..
  from command_attempts_counted [OF c] assms(3-5) have "send_count h' = Suc (send_count h)" by simp
  with c show ?thesis by blast
qed

lemma command_acked:
  assumes "usb_works (dw_env w)" and "ready d" and "c0 \<le> 0x0f" and "c1 \<le> 0x07" and "\<not> (c0 = 0x0b \<and> c1 = 0)"
    and "length payload \<le> GX5125_OUTER_MAX_PAYLOAD - 4" and "0 < n" and "ack \<noteq> 0"
    and "length data \<le> GX5125_RESPONSE_CAPACITY" and "answers w (Suc (send_count h)) c0 c1 data"
  shows "\<exists>r s' h'. device_command w d c0 c1 payload ack False 0 n h = (Inr (), r, d\<lparr>dv_session := s'\<rparr>, h')
     \<and> ready (d\<lparr>dv_session := s'\<rparr>) \<and> send_count h' = Suc (send_count h)"
proof -
  let ?s = "dv_session d" and ?env = "dw_env w" and ?sched = "dw_sched w" and ?usb = "dv_usb d"
  let ?c = "gx_inner_command_byte c0 c1 True"
  define f where "f = inner_frame (?c, payload, right_checksum ?c payload)"
  have "length payload < 65535" "4 + length payload \<le> length (replicate GX5125_OUTER_MAX_PAYLOAD (0 :: u8))"
    using assms(6) by (simp_all add: outer_consts)
  note b = gx_inner_build_eq [OF assms(3,4) this, of True]
  have b': "gx_inner_build c0 c1 (ack \<noteq> 0) (Buf payload) (Buf (replicate GX5125_OUTER_MAX_PAYLOAD 0))
      = gx_inner_build c0 c1 True (Buf payload) (Buf (replicate GX5125_OUTER_MAX_PAYLOAD 0))"
    using assms(8) by simp
  have "\<not> (is_null (Buf payload) \<and> cbuf_len (Buf payload) \<noteq> 0)" by simp
  note loop = command_as_loop(1) [OF assms(3,4,7) this trans [OF b' b]]
  have loop: "gx_session_command ?env ?sched ?usb ?s c0 c1 (Buf payload) ack False 0 n zero_command_result h
      = command_loop ?env ?sched ?usb (request_of ?s c0 c1 f ack False 0) n 1 LIBUSB_ERROR_OTHER ?s
          zero_command_result h"
    unfolding loop by (simp add: f_def)
  obtain m where m: "n = Suc m" using assms(7) by (cases n) auto
  have ok: "outer_ok (GX5125_OUTER_COMMAND, f)"
    using assms(6) by (simp add: f_def outer_ok_def gx_outer_family_supported_def outer_consts)
  have "fst (gx_transport_send_outer ?env ?usb GX5125_OUTER_COMMAND (Buf f) GX_TX_TIMEOUT_MS h) = Inr ()"
    by (rule send_outer_progress) (use assms(1,2) ok works_D in \<open>simp_all add: ready_def\<close>)
  moreover obtain rc h1 where e: "gx_transport_send_outer ?env ?usb GX5125_OUTER_COMMAND (Buf f) GX_TX_TIMEOUT_MS h
      = (rc, h1)" by (rule prod.exhaust)
  ultimately have "rc = Inr ()" by simp
  note h1 = e [unfolded this]
  have "send_count h1 = Suc (send_count h)"
    using ok send_outer_one_send [of f ?env ?usb GX5125_OUTER_COMMAND GX_TX_TIMEOUT_MS h] unfolding h1
    by (simp add: outer_ok_def)
  moreover from this have arr: "arrivals (?sched h1 t) = answer_reads c0 c1 0x01 data" for t
    using assms(10) by (simp add: answers_def)
  moreover have idle: "idle_session ?s" using assms(2) by (simp add: ready_def quiet_session_def)
  note ack_wait_answered [OF idle assms(3-5,9) arr refl]
    and answer_received [OF idle assms(3-5,9), of "0x01"]
  ultimately have "\<exists>r. device_command w d c0 c1 payload ack False 0 n h = (Inr (), r,
      d\<lparr>dv_session := receiver_run ?s (answer_reads c0 c1 0x01 data)\<rparr>, h1 @ [Cond_timedwait ack])"
    "ready (d\<lparr>dv_session := receiver_run ?s (answer_reads c0 c1 0x01 data)\<rparr>)"
    "send_count (h1 @ [Cond_timedwait ack]) = Suc (send_count h)"
    using assms(2,8)
    by (simp_all add: device_command_def loop [unfolded m] m command_attempt_def request_of_def h1 response_phase_def
        ready_def quiet_session_def)
  then show ?thesis by blast
qed

section \<open>The stages of an open\<close>

lemma usb_works_calls:
  assumes "usb_works env"
  shows "gx_usb_open env level h = (o1, dev, h1) \<Longrightarrow>
      o1 = Inr () \<and> dev = zero_usb_device\<lparr>ud_context := True, ud_handle := True\<rparr> \<and> send_count h1 = send_count h"
    and "ud_handle dev \<Longrightarrow> gx_usb_validate_layout env dev h = (o2, h2) \<Longrightarrow>
      o2 = Inr () \<and> send_count h2 = send_count h"
    and "ud_handle dev \<Longrightarrow> gx_usb_claim_interfaces env dev h = (o3, dev3, h3) \<Longrightarrow>
      o3 = Inr () \<and> ud_handle dev3 \<and> claimed_data dev3 \<and> send_count h3 = send_count h"
    and "ud_handle dev \<Longrightarrow> claimed_data dev \<Longrightarrow> gx_session_start env dev s h = (o4, s4, h4) \<Longrightarrow>
      o4 = Inr () \<and> s4 = zero_session\<lparr>receiver_started := True\<rparr> \<and> send_count h4 = send_count h"
  using works_D [OF assms]
  by (auto simp: gx_usb_open_def gx_usb_validate_layout_def gx_usb_claim_interfaces_def claim_both_interfaces_def
      claim_data_interface_def detach_unless_auto_def gx_session_start_def ext_do_def Let_def send_count_def
      split: if_splits)

lemma receiver_opens:
  assumes "usb_works (dw_env w)"
  shows "\<exists>u h'. open_receiver w d h = (GX5125_DEVICE_OK,
       d\<lparr>dv_usb := u, dv_session := zero_session\<lparr>receiver_started := True\<rparr>, session_started := True,
         dv_state := GX5125_DEVICE_RECEIVER_RUNNING\<rparr>, h')
     \<and> ud_handle u \<and> claimed_data u \<and> send_count h' = send_count h"
proof -
  let ?env = "dw_env w"
  obtain o1 u1 h1 where o: "gx_usb_open ?env (libusb_log_level (dv_config d)) h = (o1, u1, h1)"
    by (rule prod_cases3)
  obtain o2 h2 where v: "gx_usb_validate_layout ?env u1 h1 = (o2, h2)" by (rule prod.exhaust)
  obtain o3 u3 h3 where c: "gx_usb_claim_interfaces ?env u1 h2 = (o3, u3, h3)" by (rule prod_cases3)
  obtain o4 s4 h4 where ss: "gx_session_start ?env u3 (dv_session d) h3 = (o4, s4, h4)"
    by (rule prod_cases3)
  note f = usb_works_calls [OF assms]
  from f(1) [OF o] have 1: "o1 = Inr ()" "ud_handle u1" "send_count h1 = send_count h" by simp_all
  from f(2) [OF 1(2) v] f(3) [OF 1(2) c] have 2: "o2 = Inr ()" "o3 = Inr ()" "ud_handle u3" "claimed_data u3"
    "send_count h3 = send_count h" using 1(3) by simp_all
  from f(4) [OF 2(3,4) ss] 2 have 3: "o4 = Inr ()" "s4 = zero_session\<lparr>receiver_started := True\<rparr>"
    "send_count h4 = send_count h" by simp_all
  have "open_receiver w d h = (GX5125_DEVICE_OK,
       d\<lparr>dv_usb := u3, dv_session := s4, session_started := True,
         dv_state := GX5125_DEVICE_RECEIVER_RUNNING\<rparr>, h4)"
    unfolding open_receiver_def o Let_def prod.case 1(1)
    using v c ss 2 3 by simp
  with 2 3 show ?thesis by blast
qed

lemma preflight_passes:
  assumes "usb_works (dw_env w)" and "ready d"
    and "answers w (send_count h + 1) 0x0a 0x04 firmware" and "length firmware \<le> GX5125_RESPONSE_CAPACITY"
    and "answers w (send_count h + 3) 0x08 0x01 chip" and "length chip \<le> GX5125_RESPONSE_CAPACITY"
    and "3 \<le> length chip" and "le16 (chip ! 1) (chip ! 2) = GX5125_SUPPORTED_CHIP_ID"
  shows "\<exists>d' h'. control_preflight w d h = (Inr (), d', h') \<and> ready d' \<and> dv_tls d' = dv_tls d
     \<and> dv_config d' = dv_config d \<and> cancel_requested d' = cancel_requested d \<and> send_count h' = send_count h + 3"
proof -
  let ?t = "unat (command_timeout_ms (dv_config d))"
  have small: "length [0, 0 :: u8] \<le> GX5125_OUTER_MAX_PAYLOAD - 4" "length [0x14, 0 :: u8] \<le> GX5125_OUTER_MAX_PAYLOAD - 4"
    "length [0, 0, 0, 0x04, 0 :: u8] \<le> GX5125_OUTER_MAX_PAYLOAD - 4"
    by (simp_all add: outer_consts)
  have "\<exists>r s' h'. device_command w d 0x0a 0x04 [0, 0] ?t True ?t 3 h = (Inr (), r, d\<lparr>dv_session := s'\<rparr>, h')
     \<and> response_received r \<and> cr_response r = firmware
     \<and> ready (d\<lparr>dv_session := s'\<rparr>) \<and> send_count h' = Suc (send_count h)"
    by (rule command_answers) (use assms small in simp_all)
  then obtain r1 s1 h1 where c1: "device_command w d 0x0a 0x04 [0, 0] ?t True ?t 3 h = (Inr (), r1, d\<lparr>dv_session := s1\<rparr>, h1)"
    "response_received r1" and r1: "ready (d\<lparr>dv_session := s1\<rparr>)" "send_count h1 = Suc (send_count h)" by blast
  obtain r2 h2 where "gx_session_command (dw_env w) (dw_sched w) (dv_usb (d\<lparr>dv_session := s1\<rparr>)) s1 0x07 0
      (Buf [0x14, 0]) 0 False 0 1 zero_command_result h1 = (Inr (), r2, s1, h2)" and n2: "send_count h2 = Suc (send_count h1)"
    using command_sent [OF assms(1) r1(1), of "0x07" 0 "[0x14, 0]" s1 zero_command_result h1] small by auto
  then have c2: "device_command w (d\<lparr>dv_session := s1\<rparr>) 0x07 0 [0x14, 0] 0 False 0 1 h1 = (Inr (), r2, d\<lparr>dv_session := s1\<rparr>, h2)"
    by (simp add: device_command_def del: One_nat_def)
  have a3: "answers w (Suc (send_count h2)) 0x08 0x01 chip"
    using assms(5) r1(2) n2 by (simp add: numeral_3_eq_3)
  have "\<exists>r s' h'. device_command w (d\<lparr>dv_session := s1\<rparr>) 0x08 0x01 [0, 0, 0, 0x04, 0] ?t True ?t 3 h2
       = (Inr (), r, (d\<lparr>dv_session := s1\<rparr>)\<lparr>dv_session := s'\<rparr>, h')
     \<and> response_received r \<and> cr_response r = chip
     \<and> ready ((d\<lparr>dv_session := s1\<rparr>)\<lparr>dv_session := s'\<rparr>) \<and> send_count h' = Suc (send_count h2)"
    by (rule command_answers) (use assms(1,6) small r1 a3 in simp_all)
  then obtain r3 s3 h3 where c3: "device_command w (d\<lparr>dv_session := s1\<rparr>) 0x08 0x01 [0, 0, 0, 0x04, 0] ?t True ?t 3 h2
      = (Inr (), r3, d\<lparr>dv_session := s3\<rparr>, h3)" "response_received r3" "cr_response r3 = chip"
    and r3: "ready (d\<lparr>dv_session := s3\<rparr>)" "send_count h3 = Suc (send_count h2)" by auto
  have "control_preflight w d h = (Inr (), (d\<lparr>dv_session := s3\<rparr>)
      \<lparr>dv_info := (dv_info d)\<lparr>chip_id := GX5125_SUPPORTED_CHIP_ID\<rparr>\<rparr>, h3)"
    using c1 c2 c3 assms(7,8)
    by (simp add: control_preflight_def response_of_def Let_def del: One_nat_def)
  then show ?thesis using r1 n2 r3 by simp
qed

lemma parse_gives_dac: "gx_otp_parse otp = (Inr (), info) \<Longrightarrow> dac_valid info"
  by (auto simp: gx_otp_parse_def Let_def split: option.splits)

lemma prepared_config:
  assumes "dac_valid info"
  shows "\<exists>config. gx_config_prepare info = Inr config \<and> length config = 224"
  using prepare_written [OF assms] sealed_layout [of info] by (simp add: template_layout_def)

lemma sensor_initializes:
  assumes "usb_works (dw_env w)" and "ready d"
    and "answers w (send_count h + 1) 0x0a 0x03 otp" and "length otp \<le> GX5125_RESPONSE_CAPACITY"
    and "GX5125_OTP_SIZE \<le> length otp" and "gx_otp_parse (take GX5125_OTP_SIZE otp) = (Inr (), info)"
    and "answers w (send_count h + 2) 0x09 0x00 verdict" and "length verdict \<le> GX5125_RESPONSE_CAPACITY"
    and "verdict = [] \<or> verdict ! 0 = 1"
  shows "\<exists>d' h'. sensor_initialize w d h = (Inr (), d', h') \<and> ready d' \<and> dv_tls d' = dv_tls d
     \<and> dv_config d' = dv_config d \<and> cancel_requested d' = cancel_requested d \<and> send_count h' = send_count h + 2"
proof -
  let ?t = "command_timeout_ms (dv_config d)" and ?d = "d\<lparr>dv_otp := zero_otp_info\<rparr>"
  obtain config where cfg: "gx_config_prepare info = Inr config" "length config = 224"
    using prepared_config [OF parse_gives_dac [OF assms(6)]] by blast
  have small: "length [0, 0 :: u8] \<le> GX5125_OUTER_MAX_PAYLOAD - 4" "length config \<le> GX5125_OUTER_MAX_PAYLOAD - 4"
    by (simp_all add: outer_consts cfg(2))
  have "\<exists>r s' h'. device_command w ?d 0x0a 0x03 [0, 0] (unat ?t) True (unat (?t + 500)) 3 h
       = (Inr (), r, ?d\<lparr>dv_session := s'\<rparr>, h') \<and> response_received r \<and> cr_response r = otp
     \<and> ready (?d\<lparr>dv_session := s'\<rparr>) \<and> send_count h' = Suc (send_count h)"
    by (rule command_answers) (use assms small in simp_all)
  then obtain r1 s1 h1 where c1: "device_command w ?d 0x0a 0x03 [0, 0] (unat ?t) True (unat (?t + 500)) 3 h
      = (Inr (), r1, ?d\<lparr>dv_session := s1\<rparr>, h1)" "response_received r1" "cr_response r1 = otp"
    and r1: "ready (?d\<lparr>dv_session := s1\<rparr>)" "send_count h1 = Suc (send_count h)" by blast
  let ?d1 = "?d\<lparr>dv_session := s1, dv_otp := info\<rparr>"
  have ready1: "ready ?d1" using r1(1) by (simp add: ready_def)
  have a2: "answers w (Suc (send_count h1)) 0x09 0x00 verdict" using assms(7) r1(2) by simp
  have "\<exists>r s' h'. device_command w ?d1 0x09 0x00 config (unat ?t) True (unat (?t + 500)) 3 h1
       = (Inr (), r, ?d1\<lparr>dv_session := s'\<rparr>, h') \<and> response_received r \<and> cr_response r = verdict
     \<and> ready (?d1\<lparr>dv_session := s'\<rparr>) \<and> send_count h' = Suc (send_count h1)"
    by (rule command_answers) (use assms(1,8) small ready1 a2 in simp_all)
  then obtain r2 s2 h2 where c2: "device_command w ?d1 0x09 0x00 config (unat ?t) True (unat (?t + 500)) 3 h1
      = (Inr (), r2, ?d1\<lparr>dv_session := s2\<rparr>, h2)" "cr_response r2 = verdict"
    and r2: "ready (?d1\<lparr>dv_session := s2\<rparr>)" "send_count h2 = Suc (send_count h1)" by blast
  let ?d2 = "?d1\<lparr>dv_session := s2\<rparr>"
  have "sensor_initialize w d h = upload_config w ?d1 config h1"
    using c1 assms(5,6) cfg(1) by (simp add: sensor_initialize_def response_of_def Let_def)
  also have "\<dots> = (Inr (), ?d2\<lparr>dv_info := (dv_info ?d2)
                     \<lparr>otp_cp_crc_ok := of_bool (cp_crc_ok (dv_otp ?d2)),
                      otp_ft_crc_ok := of_bool (ft_crc_ok (dv_otp ?d2)),
                      otp_mt_crc_ok := of_bool (mt_crc_ok (dv_otp ?d2)),
                      otp_dac_valid := of_bool (dac_valid (dv_otp ?d2))\<rparr>\<rparr>, h2)"
    using c2 assms(9) by (auto simp: upload_config_def Let_def)
  finally show ?thesis using r1(2) r2 by simp
qed

section \<open>The TLS connection\<close>

definition fresh_server :: "'e ssl_engine \<Rightarrow> u8 list \<Rightarrow> 'e gx_tls_server" where
  "fresh_server eng psk = (zero_tls_server eng)\<lparr>ts_psk := psk, ts_context := True, ts_ssl := True\<rparr>"

text \<open>A device whose TLS connection stands: the engine has read the client's two flights, and both BIOs are empty.\<close>

definition connected :: "'e device_world \<Rightarrow> ('e \<Rightarrow> u8 list) \<Rightarrow> tls_dialogue \<Rightarrow> 'e gx5125_device \<Rightarrow> bool" where
  "connected w fed td d \<longleftrightarrow> ts_ssl (dv_tls d) \<and> ts_wbio (dv_tls d) = [] \<and> ts_rbio (dv_tls d) = []
     \<and> eng_finished (dw_engine w) (ts_engine (dv_tls d)) \<and> fed (ts_engine (dv_tls d)) = td_client td"

lemma clear_ready: "ready d \<Longrightarrow> ready (d\<lparr>dv_session := gx_session_tls_clear (dv_session d)\<rparr>)"
  by (simp add: ready_def quiet_session_def idle_session_def gx_session_tls_clear_def)

lemma handshake_completes:
  assumes "usb_works (dw_env w)" and "ready d" and "dv_tls d = fresh_server (dw_engine w) psk"
    and "openssl_accepts (dw_engine w) fed psk td" and "dialogue_fits td" and "timeout \<noteq> 0" and "in_time 3 (start + timeout) ticks"
    and "tls_arrives (dw_sched w) (send_count h + 1) (td_hello td)" and "tls_arrives (dw_sched w) (send_count h + 2) (td_key td)"
  shows "\<exists>server session h'. gx_tls_server_handshake_usb (dw_engine w) (dw_env w) (dw_sched w) (dv_usb d) timeout start
       ticks (dv_tls d) (dv_session d) h = (Inr (), server, session, h')
     \<and> connected w fed td (d\<lparr>dv_tls := server, dv_session := session\<rparr>)
     \<and> ready (d\<lparr>dv_tls := server, dv_session := session\<rparr>) \<and> send_count h' = send_count h + 3"
proof -
  let ?eng = "dw_engine w" and ?session = "gx_session_tls_clear (dv_session d)"
  have small: "length [0, 0 :: u8] \<le> GX5125_OUTER_MAX_PAYLOAD - 4" by (simp add: outer_consts)
  obtain r h1 where c: "gx_session_command (dw_env w) (dw_sched w) (dv_usb d) ?session 0x0d 0x00
      (Buf [0x00, 0x00]) 0 False 0 1 zero_command_result h = (Inr (), r, ?session, h1)"
    and n1: "send_count h1 = Suc (send_count h)"
    using command_sent [OF assms(1,2), of "0x0d" 0 "[0, 0]" ?session zero_command_result h] small by auto
  have usb: "ud_handle (dv_usb d)" "claimed_data (dv_usb d)" using assms(2) by (simp_all add: ready_def)
  have quiet: "quiet_session ?session" using clear_ready [OF assms(2)] by (simp add: ready_def)
  have server: "ts_ssl (dv_tls d)" "ts_wbio (dv_tls d) = []" "ts_rbio (dv_tls d) = []" "ts_engine (dv_tls d) = eng_fresh ?eng"
    "ts_psk (dv_tls d) = psk"
    by (simp_all add: assms(3) fresh_server_def zero_tls_server_def)
  have arrives: "tls_arrives (dw_sched w) (send_count h1) (td_hello td)" "tls_arrives (dw_sched w) (send_count h1 + 1) (td_key td)"
    using assms(8,9) n1 by simp_all
  obtain server session h' where hs: "tls_handshake_loop ?eng (dw_env w) (dw_sched w) (dv_usb d) (start + timeout) ticks (dv_tls d) ?session h1
      = (Inr (), server, session, h')" "identity_valid server" "eng_finished ?eng (ts_engine server)" "fed (ts_engine server) = td_client td"
    "ts_rbio server = []" "ts_wbio server = []" "ts_ssl server" "quiet_session session" "send_count h' = send_count h1 + 2"
    using handshake_succeeds [OF works_D(1) [OF assms(1)] usb quiet server(1-4) _ assms(5,7) arrives] assms(4) server(5)
    by blast
  have "gx_tls_server_handshake_usb ?eng (dw_env w) (dw_sched w) (dv_usb d) timeout start ticks (dv_tls d) (dv_session d) h
      = (Inr (), server, session, h')"
    using c hs(1) server(1) assms(6) by (simp add: gx_tls_server_handshake_usb_def del: One_nat_def)
  then show ?thesis using hs n1 usb by (simp add: connected_def ready_def)
qed

lemma poll_answers:
  assumes "usb_works (dw_env w)" and "ready d"
    and "answers w (send_count h + 1) 0x0a 0x07 mcu" and "length mcu \<le> GX5125_RESPONSE_CAPACITY"
    and "2 \<le> length mcu" and "tls_established (mcu ! 1)"
  shows "\<exists>d' h'. mcu_state_polls w (Suc n) d h = (Inr (), d', h') \<and> ready d' \<and> dv_tls d' = dv_tls d
     \<and> dv_config d' = dv_config d \<and> cancel_requested d' = cancel_requested d \<and> send_count h' = send_count h + 1"
proof -
  let ?t = "minute_timestamp (dw_time w h)"
  let ?p = "[0x55, lo8 ?t, hi8 ?t, 0x00, 0x00]"
  have small: "length ?p \<le> GX5125_OUTER_MAX_PAYLOAD - 4" by (simp add: outer_consts)
  have "\<exists>r s' h'. device_command w d 0x0a 0x07 ?p 0 True (unat (command_timeout_ms (dv_config d))) 3 h
       = (Inr (), r, d\<lparr>dv_session := s'\<rparr>, h') \<and> response_received r \<and> cr_response r = mcu
     \<and> ready (d\<lparr>dv_session := s'\<rparr>) \<and> send_count h' = Suc (send_count h)"
    by (rule command_answers) (use assms small in simp_all)
  then obtain r s' h' where c: "device_command w d 0x0a 0x07 ?p 0 True (unat (command_timeout_ms (dv_config d))) 3 h
      = (Inr (), r, d\<lparr>dv_session := s'\<rparr>, h')" "response_received r" "cr_response r = mcu"
    "ready (d\<lparr>dv_session := s'\<rparr>)" "send_count h' = Suc (send_count h)" by blast
  then have "get_mcu_state w d h = (Inr (mcu ! 1), d\<lparr>dv_session := s'\<rparr>, h')"
    using assms(5) by (simp add: get_mcu_state_def response_of_def Let_def)
  with c(4,5) assms(6) show ?thesis by simp
qed

lemma tls_connects:
  assumes "usb_works (dw_env w)" and "ready d" and "dv_tls d = fresh_server (dw_engine w) psk"
    and "openssl_accepts (dw_engine w) fed psk td" and "dialogue_fits td" and "tls_timeout_ms (dv_config d) \<noteq> 0"
    and "dw_handshake w h = (start, ticks)" and "in_time 3 (start + unat (tls_timeout_ms (dv_config d))) ticks"
    and "tls_arrives (dw_sched w) (send_count h + 1) (td_hello td)" and "tls_arrives (dw_sched w) (send_count h + 2) (td_key td)"
    and "answers w (send_count h + 4) 0x0d 0x02 reply" and "length reply \<le> GX5125_RESPONSE_CAPACITY"
    and "answers w (send_count h + 5) 0x0a 0x07 mcu" and "length mcu \<le> GX5125_RESPONSE_CAPACITY"
    and "2 \<le> length mcu" and "tls_established (mcu ! 1)"
  shows "\<exists>d' h'. tls_connect w d h = (Inr (), d', h') \<and> ready d' \<and> connected w fed td d'
     \<and> dv_config d' = dv_config d \<and> cancel_requested d' = cancel_requested d \<and> send_count h' = send_count h + 5"
proof -
  have to: "unat (tls_timeout_ms (dv_config d)) \<noteq> 0" using assms(6) by (simp add: unat_eq_zero)
  obtain server session h1 where hs: "gx_tls_server_handshake_usb (dw_engine w) (dw_env w) (dw_sched w) (dv_usb d)
      (unat (tls_timeout_ms (dv_config d))) start ticks (dv_tls d) (dv_session d) h = (Inr (), server, session, h1)"
    and sv: "connected w fed td (d\<lparr>dv_tls := server, dv_session := session\<rparr>)"
    and r1: "ready (d\<lparr>dv_tls := server, dv_session := session\<rparr>)" and n1: "send_count h1 = send_count h + 3"
    using handshake_completes [OF assms(1-5) to assms(8-10)] by blast
  let ?d1 = "d\<lparr>dv_tls := server, dv_session := session\<rparr>"
  have small: "length [0, 0 :: u8] \<le> GX5125_OUTER_MAX_PAYLOAD - 4" by (simp add: outer_consts)
  have a1: "answers w (Suc (send_count h1)) 0x0d 0x02 reply" using assms(11) n1 by (simp add: add.commute)
  have "\<exists>r s' h'. device_command w ?d1 0x0d 0x02 [0, 0] 200 False 0 2 h1 = (Inr (), r, ?d1\<lparr>dv_session := s'\<rparr>, h')
     \<and> ready (?d1\<lparr>dv_session := s'\<rparr>) \<and> send_count h' = Suc (send_count h1)"
    by (rule command_acked) (use assms(1,12) small r1 a1 in simp_all)
  then obtain r s2 h2 where c: "device_command w ?d1 0x0d 0x02 [0, 0] 200 False 0 2 h1
      = (Inr (), r, ?d1\<lparr>dv_session := s2\<rparr>, h2)" and r2: "ready (?d1\<lparr>dv_session := s2\<rparr>)"
    and n2: "send_count h2 = Suc (send_count h1)" by blast
  have a2: "answers w (send_count h2 + 1) 0x0a 0x07 mcu" using assms(13) n1 n2 by (simp add: add.commute)
  obtain d' h' where p: "mcu_state_polls w 3 (?d1\<lparr>dv_session := s2\<rparr>) h2 = (Inr (), d', h')" "ready d'"
    "dv_tls d' = server" "dv_config d' = dv_config d" "cancel_requested d' = cancel_requested d" "send_count h' = send_count h2 + 1"
    using poll_answers [OF assms(1) r2 a2 assms(14-16), of 2] by (auto simp: numeral_3_eq_3 numeral_2_eq_2)
  have "tls_connect w d h = mcu_state_polls w 3 (?d1\<lparr>dv_session := s2\<rparr>) h2"
    unfolding tls_connect_def assms(7) prod.case hs Let_def sum.case c by simp
  with p sv n1 n2 show ?thesis by (simp add: connected_def)
qed

section \<open>A cooperative sensor opens\<close>

text \<open>
  What the sensor answers, in the order of the opening sequence: the firmware query, the chip
  query, the OTP block, the verdict on the configuration, the TLS request and the controller's state.
\<close>

record sensor_script =
  ss_firmware :: "u8 list"
  ss_chip :: "u8 list"
  ss_otp :: "u8 list"
  ss_verdict :: "u8 list"
  ss_tls :: "u8 list"
  ss_mcu :: "u8 list"

definition script_fits :: "sensor_script \<Rightarrow> bool" where
  "script_fits ss \<longleftrightarrow>
     list_all (\<lambda>data. length data \<le> GX5125_RESPONSE_CAPACITY)
       [ss_firmware ss, ss_chip ss, ss_otp ss, ss_verdict ss, ss_tls ss, ss_mcu ss]"

definition good_sensor :: "sensor_script \<Rightarrow> bool" where
  "good_sensor ss \<longleftrightarrow>
     script_fits ss
     \<and> 3 \<le> length (ss_chip ss) \<and> le16 (ss_chip ss ! 1) (ss_chip ss ! 2) = GX5125_SUPPORTED_CHIP_ID
     \<and> GX5125_OTP_SIZE \<le> length (ss_otp ss) \<and> fst (gx_otp_parse (take GX5125_OTP_SIZE (ss_otp ss))) = Inr ()
     \<and> (ss_verdict ss = [] \<or> ss_verdict ss ! 0 = 1)
     \<and> 2 \<le> length (ss_mcu ss) \<and> tls_established (ss_mcu ss ! 1)"

definition sensor_speaks :: "'e device_world \<Rightarrow> nat \<Rightarrow> sensor_script \<Rightarrow> tls_dialogue \<Rightarrow> bool" where
  "sensor_speaks w n ss td \<longleftrightarrow>
     answers w (n + 1) 0x0a 0x04 (ss_firmware ss) \<and> answers w (n + 3) 0x08 0x01 (ss_chip ss)
     \<and> answers w (n + 4) 0x0a 0x03 (ss_otp ss) \<and> answers w (n + 5) 0x09 0x00 (ss_verdict ss)
     \<and> tls_arrives (dw_sched w) (n + 6) (td_hello td) \<and> tls_arrives (dw_sched w) (n + 7) (td_key td)
     \<and> answers w (n + 9) 0x0d 0x02 (ss_tls ss) \<and> answers w (n + 10) 0x0a 0x07 (ss_mcu ss)"

text \<open>The clock gives the handshake time for its three steps.\<close>

definition handshake_in_time :: "'e device_world \<Rightarrow> nat \<Rightarrow> bool" where
  "handshake_in_time w timeout \<longleftrightarrow>
     (\<forall>h. in_time 3 (fst (dw_handshake w h) + timeout) (snd (dw_handshake w h)))"

lemma stages_pass:
  assumes "usb_works (dw_env w)" and "tls_timeout_ms (dv_config d) \<noteq> 0"
    and "gx_secret_read_psk_file (dw_psk_file w (dv_psk_path d)) = Some psk"
    and "openssl_accepts (dw_engine w) fed psk td" and "dialogue_fits td"
    and "handshake_in_time w (unat (tls_timeout_ms (dv_config d)))"
    and "good_sensor ss" and "sensor_speaks w (send_count h) ss td"
  shows "\<exists>d' h'. open_stages w d h = (GX5125_DEVICE_OK, d', h') \<and> ready d' \<and> connected w fed td d'
     \<and> dv_config d' = dv_config d \<and> cancel_requested d' = cancel_requested d
     \<and> dv_state d' = GX5125_DEVICE_ACTIVE \<and> send_count h' = send_count h + 10"
proof -
  let ?n = "send_count h"
  have fits: "length (ss_firmware ss) \<le> GX5125_RESPONSE_CAPACITY" "length (ss_chip ss) \<le> GX5125_RESPONSE_CAPACITY"
    "length (ss_otp ss) \<le> GX5125_RESPONSE_CAPACITY" "length (ss_verdict ss) \<le> GX5125_RESPONSE_CAPACITY"
    "length (ss_tls ss) \<le> GX5125_RESPONSE_CAPACITY" "length (ss_mcu ss) \<le> GX5125_RESPONSE_CAPACITY"
    using assms(7) by (simp_all add: good_sensor_def script_fits_def)
  note good = assms(7) [unfolded good_sensor_def]
  obtain ok server h1 where i: "gx_tls_server_init (dw_engine w) (dw_env w) psk h = (ok, server, h1)"
    by (rule prod_cases3)
  have init: "ok" "server = fresh_server (dw_engine w) psk" "send_count h1 = ?n"
    using i works_D(3) [OF assms(1)]
    by (auto simp: gx_tls_server_init_def ext_do_def Let_def fresh_server_def send_count_def)
  let ?d1 = "d\<lparr>dv_tls := server, tls_initialized := True\<rparr>"
  obtain u h2 where r: "open_receiver w ?d1 h1 = (GX5125_DEVICE_OK, ?d1\<lparr>dv_usb := u,
      dv_session := zero_session\<lparr>receiver_started := True\<rparr>, session_started := True,
      dv_state := GX5125_DEVICE_RECEIVER_RUNNING\<rparr>, h2)" "ud_handle u" "claimed_data u" "send_count h2 = ?n"
    using receiver_opens [OF assms(1), of ?d1 h1] init(3) by auto
  let ?d2 = "?d1\<lparr>dv_usb := u, dv_session := zero_session\<lparr>receiver_started := True\<rparr>, session_started := True,
      dv_state := GX5125_DEVICE_RECEIVER_RUNNING\<rparr>"
  have r2: "ready ?d2" using r by (simp add: ready_def quiet_session_def idle_session_def zero_session_def)
  have a: "answers w (send_count h2 + 1) 0x0a 0x04 (ss_firmware ss)" "answers w (send_count h2 + 3) 0x08 0x01 (ss_chip ss)"
    using assms(8) r(4) by (simp_all add: sensor_speaks_def add.commute)
  obtain d3 h3 where p: "control_preflight w ?d2 h2 = (Inr (), d3, h3)" "ready d3" "dv_tls d3 = server"
    "dv_config d3 = dv_config d" "cancel_requested d3 = cancel_requested d" "send_count h3 = ?n + 3"
    using preflight_passes [OF assms(1) r2 a(1) fits(1) a(2) fits(2)] good r(4) by auto
  obtain info where otp: "gx_otp_parse (take GX5125_OTP_SIZE (ss_otp ss)) = (Inr (), info)"
    using good by (metis prod.collapse)
  have a: "answers w (send_count h3 + 1) 0x0a 0x03 (ss_otp ss)" "answers w (send_count h3 + 2) 0x09 0x00 (ss_verdict ss)"
    using assms(8) p(6) by (simp_all add: sensor_speaks_def add.commute)
  have g: "GX5125_OTP_SIZE \<le> length (ss_otp ss)" "ss_verdict ss = [] \<or> ss_verdict ss ! 0 = 1"
    "2 \<le> length (ss_mcu ss)" "tls_established (ss_mcu ss ! 1)" using good by blast+
  obtain d4 h4 where q': "sensor_initialize w d3 h3 = (Inr (), d4, h4)" "ready d4" "dv_tls d4 = dv_tls d3"
    "dv_config d4 = dv_config d3" "cancel_requested d4 = cancel_requested d3" "send_count h4 = send_count h3 + 2"
    using sensor_initializes [OF assms(1) p(2) a(1) fits(3) g(1) otp a(2) fits(4) g(2)]
    by (elim exE conjE) (rule that; assumption)
  have q: "dv_tls d4 = server" "dv_config d4 = dv_config d" "cancel_requested d4 = cancel_requested d"
    "send_count h4 = ?n + 5" using q' p by simp_all
  let ?d4 = "d4\<lparr>dv_state := GX5125_DEVICE_SENSOR_READY\<rparr>"
  obtain start ticks where hs: "dw_handshake w h4 = (start, ticks)" by (rule prod.exhaust)
  have a: "tls_arrives (dw_sched w) (send_count h4 + 1) (td_hello td)" "tls_arrives (dw_sched w) (send_count h4 + 2) (td_key td)"
    "answers w (send_count h4 + 4) 0x0d 0x02 (ss_tls ss)" "answers w (send_count h4 + 5) 0x0a 0x07 (ss_mcu ss)"
    using assms(8) q(4) by (simp_all add: sensor_speaks_def add.commute)
  have "in_time 3 (fst (dw_handshake w h4) + unat (tls_timeout_ms (dv_config d))) (snd (dw_handshake w h4))"
    using assms(6) unfolding handshake_in_time_def by blast
  then have pre: "ready ?d4" "dv_tls ?d4 = fresh_server (dw_engine w) psk" "tls_timeout_ms (dv_config ?d4) \<noteq> 0"
    "in_time 3 (start + unat (tls_timeout_ms (dv_config ?d4))) ticks"
    using q' q init(2) assms(2) hs by simp_all
  obtain d5 h5 where c': "tls_connect w ?d4 h4 = (Inr (), d5, h5)" "ready d5" "connected w fed td d5"
    "dv_config d5 = dv_config ?d4" "cancel_requested d5 = cancel_requested ?d4" "send_count h5 = send_count h4 + 5"
    using tls_connects [OF assms(1) pre(1,2) assms(4,5) pre(3) hs pre(4) a(1-3) fits(5) a(4) fits(6) g(3,4)]
    by (elim exE conjE) (rule that; assumption)
  have c: "dv_config d5 = dv_config d" "cancel_requested d5 = cancel_requested d" "send_count h5 = ?n + 10" using c' q by simp_all
  have "open_stages w d h = (GX5125_DEVICE_OK, d5\<lparr>dv_state := GX5125_DEVICE_ACTIVE\<rparr>, h5)"
    using assms(3) i init(1) r(1) p(1) q'(1) c'(1) by (simp add: open_stages_def open_sensor_def)
  with c c'(2,3) show ?thesis
    by (intro exI [of _ "d5\<lparr>dv_state := GX5125_DEVICE_ACTIVE\<rparr>"] exI [of _ h5]) (simp add: connected_def)
qed

lemma open_succeeds:
  assumes "usb_works (dw_env w)" and "dv_state d = GX5125_DEVICE_CLOSED" and "tls_timeout_ms (dv_config d) \<noteq> 0"
    and "gx_secret_read_psk_file (dw_psk_file w (dv_psk_path d)) = Some psk"
    and "openssl_accepts (dw_engine w) fed psk td" and "dialogue_fits td"
    and "handshake_in_time w (unat (tls_timeout_ms (dv_config d)))"
    and "good_sensor ss" and "sensor_speaks w (send_count h) ss td"
  shows "\<exists>d' h'. gx5125_device_open w d h = (GX5125_DEVICE_OK, d', h') \<and> ready d' \<and> connected w fed td d'
     \<and> dv_config d' = dv_config d \<and> \<not> cancel_requested d'
     \<and> dv_state d' = GX5125_DEVICE_ACTIVE \<and> send_count h' = send_count h + 10"
proof -
  let ?d = "d\<lparr>cancel_requested := False\<rparr>"
  have "tls_timeout_ms (dv_config ?d) \<noteq> 0" "gx_secret_read_psk_file (dw_psk_file w (dv_psk_path ?d)) = Some psk"
    "handshake_in_time w (unat (tls_timeout_ms (dv_config ?d)))" using assms by simp_all
  from stages_pass [OF assms(1) this(1,2) assms(5,6) this(3) assms(8,9)] assms(2) show ?thesis
    by (auto simp: gx5125_device_open_def)
qed

text \<open>
  Opening makes progress. When libusb does its work, the key file is good, the client in the sensor has the same
  key and its flights arrive, and the sensor answers the commands of the opening sequence with the
  supported chip, a usable OTP block and an established connection, \<open>gx5125_device_open\<close> succeeds and the
  device is active.
\<close>

theorem cooperative_sensor_opens:
  assumes "usb_works (dw_env w)" and "dv_state d = GX5125_DEVICE_CLOSED" and "tls_timeout_ms (dv_config d) \<noteq> 0"
    and "gx_secret_read_psk_file (dw_psk_file w (dv_psk_path d)) = Some psk"
    and "openssl_accepts (dw_engine w) fed psk td" and "dialogue_fits td"
    and "handshake_in_time w (unat (tls_timeout_ms (dv_config d)))"
    and "good_sensor ss" and "sensor_speaks w (send_count h) ss td"
  shows "\<exists>d' h'. gx5125_device_open w d h = (GX5125_DEVICE_OK, d', h') \<and> dv_state d' = GX5125_DEVICE_ACTIVE"
  using open_succeeds [OF assms] by blast

section \<open>A picture arrives\<close>

text \<open>The clock gives the capture time for a read that waits once.\<close>

fun prompt_tick :: "nat \<Rightarrow> channel_tick list \<Rightarrow> bool" where
  "prompt_tick deadline [] = False"
| "prompt_tick deadline (t # ts) =
     (ct_stores t = [] \<and> ct_now t < deadline \<and> ct_later t < deadline
      \<and> in_time 2 (ct_start t + capture_wait_ms deadline (ct_later t)) (ct_reads t))"

definition prompt_round :: "nat \<Rightarrow> channel_round \<Rightarrow> bool" where
  "prompt_round timeout rd \<longleftrightarrow> cr_stores rd = [] \<and> prompt_tick (cr_start rd + timeout) (cr_ticks rd)"

text \<open>The plaintext of a picture: the acknowledgement, then the image message with the packed pixels.\<close>

definition picture_plaintext :: "u8 \<Rightarrow> u8 list \<Rightarrow> u16 list \<Rightarrow> u8 list" where
  "picture_plaintext flags metadata pixels = image_plaintext flags metadata (image_frame pixels)"

lemma picture_size:
  assumes "length metadata = 5" and "length pixels = GX5125_IMAGE_PIXELS"
  shows "length (picture_plaintext flags metadata pixels) = 7699" and "length (image_frame pixels) = 7684"
proof -
  have "length (packed_image pixels) = 7680"
    by (rule length_packed_image)
  then show f: "length (image_frame pixels) = 7684"
    by (simp add: image_frame_def store_crc_wire_def)
  show "length (picture_plaintext flags metadata pixels) = 7699"
    using assms(1) by (simp add: picture_plaintext_def image_plaintext_def message_of_def f Let_def)
qed

lemma image_request_sends: "send_count (snd (gx_capture_send_image_request env dev h)) = send_count h + 1"
proof -
  let ?c = "gx_inner_command_byte 0x02 0x00 True" and ?p = "[0x01, 0x00 :: u8]"
  let ?f = "inner_frame (?c, ?p, right_checksum ?c ?p)"
  have b: "gx_inner_build 0x02 0x00 True (Buf ?p) (Buf (replicate 32 0))
      = Inr (?f @ drop (4 + length ?p) (replicate 32 0), 4 + length ?p)"
    by (rule gx_inner_build_eq) simp_all
  have "take (4 + length ?p) (?f @ r) = ?f" for r by simp
  moreover have "length ?f \<le> GX5125_OUTER_MAX_PAYLOAD" by (simp add: outer_consts)
  ultimately show ?thesis
    unfolding gx_capture_send_image_request_def b sum.case prod.case by (simp add: send_outer_one_send)
qed

lemma collect_picture:
  assumes host: "host_works env" "ud_handle dev" "claimed_data dev" and "quiet_session (ch_session ch)"
    and "ts_ssl (ch_server ch)" and "ts_wbio (ch_server ch) = []" and "ts_rbio (ch_server ch) = []"
    and "eng_finished eng (ts_engine (ch_server ch))" and "fed (ts_engine (ch_server ch)) = td_client td"
    and "\<not> ch_cancel ch" and peer: "openssl_reads eng fed td" "dialogue_fits td"
    and "tls_arrives sched (send_count h) (td_record td)" and "td_plain td = picture_plaintext flags metadata pixels"
    and "length metadata = 5" and "length pixels = GX5125_IMAGE_PIXELS"
    and "prompt_tick deadline ticks" and "cb_stream b = []"
  shows "\<exists>b' ch' h'. capture_collect_tls eng env sched dev True deadline ticks b ch h = (Some (Inr ()), b', ch', h')
     \<and> cb_raw b' = image_frame pixels"
proof (cases ticks)
  case Nil
  with assms(17) show ?thesis by simp
next
  case (Cons t ts)
  let ?p = "picture_plaintext flags metadata pixels"
  note size = picture_size [OF assms(15,16)]
  have p: "td_plain td \<noteq> []" "length (td_plain td) \<le> GX_TLS_READ_CHUNK"
    using size(1) [of flags] by (auto simp: capture_consts assms(14))
  from Cons assms(17) have t: "ct_stores t = []" "ct_now t < deadline" "ct_later t < deadline"
    "in_time 2 (ct_start t + capture_wait_ms deadline (ct_later t)) (ct_reads t)" by simp_all
  have w: "capture_wait_ms deadline (ct_later t) \<noteq> 0" using t(3) by (simp add: capture_wait_ms_def Let_def)
  obtain server session h1 where r: "gx_tls_server_read_application eng env sched dev GX_TLS_READ_CHUNK
      (capture_wait_ms deadline (ct_later t)) (ct_start t) (ct_reads t) (ch_server ch) (ch_session ch) h
      = (Inr ?p, server, session, h1)"
    using read_succeeds [OF host assms(4-9) peer t(4) assms(13) p w] by (auto simp: assms(14))
  let ?b = "b\<lparr>cb_stream := ?p, cb_result := (cb_result b)
      \<lparr>plaintext_bytes := plaintext_bytes (cb_result b) + length ?p\<rparr>\<rparr>"
  have raw: "length (image_frame pixels) = GX5125_IMAGE_RAW_FRAME_SIZE" using size(2) by (simp add: sensor_consts)
  obtain b1 where b1: "gx_capture_parse_stream ?b = (b1, True)" "cb_raw b1 = image_frame pixels"
    using parse_image_plaintext [OF assms(15) raw, of ?b flags] by (auto simp: picture_plaintext_def)
  have "flag_after [] (ch_cancel ch) = ch_cancel ch" by (simp add: flag_after_def)
  with t assms(10,18) r b1 size(1) [of flags] show ?thesis
    by (simp add: Cons Let_def capture_consts)
qed

lemma capture_picture:
  assumes "usb_works (dw_env w)" and "ready d" and "connected w fed td d"
    and "openssl_reads (dw_engine w) fed td" and "dialogue_fits td"
    and "\<not> cancel_requested d" and "dv_state d = GX5125_DEVICE_ACTIVE"
    and "capture_timeout_ms (dv_config d) \<noteq> 0" and "capture_attempts (dv_config d) \<noteq> 0"
    and "dw_stores w h = []" and "prompt_round (unat (capture_timeout_ms (dv_config d))) (dw_round w h 0)"
    and "tls_arrives (dw_sched w) (send_count h + 1) (td_record td)"
    and "td_plain td = picture_plaintext flags metadata pixels"
    and "length metadata = 5" and "length pixels = GX5125_IMAGE_PIXELS" and "\<forall>x \<in> set pixels. unat x < 4096"
  shows "\<exists>d' md' h'. gx5125_device_capture_raw16 w d buffer md h = (GX5125_DEVICE_OK, d', pixels, md', h')"
proof -
  let ?t = "unat (capture_timeout_ms (dv_config d))" and ?rd = "dw_round w h 0"
  let ?d = "d\<lparr>dv_state := GX5125_DEVICE_CAPTURING\<rparr>"
  let ?ch = "\<lparr>ch_server = dv_tls d, ch_session = dv_session d, ch_cancel = cancel_requested d\<rparr>"
  let ?b = "\<lparr>cb_stream = [], cb_raw = replicate GX5125_IMAGE_RAW_FRAME_SIZE 0, cb_result = zero_capture_result\<rparr>"
  have t: "?t \<noteq> 0" using assms(8) by (simp add: unat_eq_zero)
  obtain n where n: "unat (capture_attempts (dv_config d)) = Suc n"
    using assms(9) by (metis not0_implies_Suc unat_eq_zero)
  obtain rc h1 where s: "gx_capture_send_image_request (dw_env w) (dv_usb d) h = (rc, h1)" by (rule prod.exhaust)
  have "fst (gx_capture_send_image_request (dw_env w) (dv_usb d) h) = Inr ()"
    by (rule send_image_request_progress) (use assms(1,2) works_D in \<open>simp_all add: ready_def\<close>)
  with s have rc: "rc = Inr ()" by simp
  have rd: "cr_stores ?rd = []" "prompt_tick (cr_start ?rd + ?t) (cr_ticks ?rd)"
    using assms(11) by (simp_all add: prompt_round_def)
  have usb: "ud_handle (dv_usb d)" "claimed_data (dv_usb d)" using assms(2) by (simp_all add: ready_def)
  have ch: "quiet_session (ch_session ?ch)" "ts_ssl (ch_server ?ch)" "ts_wbio (ch_server ?ch) = []" "ts_rbio (ch_server ?ch) = []"
    "eng_finished (dw_engine w) (ts_engine (ch_server ?ch))" "fed (ts_engine (ch_server ?ch)) = td_client td" "\<not> ch_cancel ?ch"
    using assms(2,3,6) by (simp_all add: ready_def connected_def)
  have arrives: "tls_arrives (dw_sched w) (send_count h1) (td_record td)"
    using assms(12) image_request_sends [of "dw_env w" "dv_usb d" h] s by simp
  let ?b1 = "?b\<lparr>cb_result := (cb_result ?b)\<lparr>requests_sent := 1\<rparr>\<rparr>"
  have "cb_stream ?b1 = []" by simp
  then obtain b2 ch2 h2 where c: "capture_collect_tls (dw_engine w) (dw_env w) (dw_sched w) (dv_usb d) True
      (cr_start ?rd + ?t) (cr_ticks ?rd) ?b1 ?ch h1 = (Some (Inr ()), b2, ch2, h2)" "cb_raw b2 = image_frame pixels"
    using collect_picture [OF works_D(1) [OF assms(1)] usb ch assms(4,5) arrives assms(13,14,15) rd(2)] by blast
  have f: "flag_after [] x = x" for x by (simp add: flag_after_def)
  have "capture_requests_tls (dw_engine w) (dw_env w) (dw_sched w) (dv_usb d) True ?t [?rd] 1 ?b ?ch h
      = (Inr (), b2, ch2, h2)"
    using s rc c(1) rd(1) assms(6) by (simp add: Let_def f)
  then have img: "capture_image_tls (dw_engine w) (dw_env w) (dw_sched w) (dv_usb d) ?t 1 True (dw_round w h)
      (replicate GX5125_IMAGE_RAW_FRAME_SIZE 0) zero_capture_result ?ch h
      = (Inr (), image_frame pixels, cb_result b2, ch2, h2)"
    using t c(2) by (simp add: capture_image_tls_def del: capture_requests_tls.simps)
  have cap: "device_capture w ?d h = (Inr (), image_frame pixels, cb_result b2,
      ?d\<lparr>dv_tls := ch_server ch2, dv_session := ch_session ch2, cancel_requested := ch_cancel ch2\<rparr>, h2)"
    using img by (simp add: device_capture_def del: One_nat_def)
  have dec: "gx_chicagohu_decode (image_frame pixels) (replicate GX5125_IMAGE_PIXELS 0)
     = (Inr pixels, True, gx_crc32_mpeg2 (Buf (packed_image pixels)), gx_crc32_mpeg2 (Buf (packed_image pixels)))"
    by (rule decode_image_frame) (use assms(15,16) in simp_all)
  have e: "d\<lparr>dv_state := GX5125_DEVICE_CAPTURING, cancel_requested := False\<rparr> = ?d"
    using assms(6) by (cases d) simp
  show ?thesis
    using assms(6,7,10) cap dec
    by (simp add: gx5125_device_capture_raw16_def n f Let_def e)
qed


section \<open>A cooperative world\<close>

text \<open>
  One world in which all of this holds: libusb that works, a private key file, a TLS server that follows a
  dialogue, and a sensor with the sample OTP block.
\<close>

definition sample_endpoints :: usb_config where
  "sample_endpoints = [[[\<lparr>bEndpointAddress = 0x01, bmAttributes = 2\<rparr>, \<lparr>bEndpointAddress = 0x81, bmAttributes = 2\<rparr>,
     \<lparr>bEndpointAddress = 0x82, bmAttributes = 3\<rparr>]]]"

definition working_env :: environment where
  "working_env h c = \<lparr>reply_rc = Inr 0, reply_moved = (case c of Bio_read n \<Rightarrow> Suc n | Bio_write n \<Rightarrow> n | _ \<Rightarrow> 64), reply_data = [], reply_config = sample_endpoints\<rparr>"

definition sample_script :: sensor_script where
  "sample_script = \<lparr>ss_firmware = [0x31], ss_chip = [0, 0x04, 0x25], ss_otp = sample_otp, ss_verdict = [1],
     ss_tls = [], ss_mcu = [0, 0x02]\<rparr>"

definition sample_picture :: "u16 list" where
  "sample_picture = replicate GX5125_IMAGE_PIXELS 0x7ff"

text \<open>A dialogue in miniature: short bytes stand for the flights and the records.\<close>

definition sample_dialogue :: tls_dialogue where
  "sample_dialogue = \<lparr>td_hello = [0x16, 1], td_reply = [0x16, 2], td_key = [0x16, 3], td_finish = [0x16, 4],
     td_record = [0x17, 5, 6, 7], td_plain = picture_plaintext 0x01 [0, 0, 0, 0, 0] sample_picture, td_room = 256\<rparr>"

text \<open>A server that follows a dialogue; its state is what it has read.\<close>

definition dialogue_engine :: "u8 list \<Rightarrow> tls_dialogue \<Rightarrow> u8 list ssl_engine" where
  "dialogue_engine key td =
     \<lparr>eng_handshake = (\<lambda>e ans rbio. let got = e @ rbio in
         if strict_prefix got (td_client td)
         then \<lparr>step_status = Inl SSL_want_read, step_queries = [], step_rbio = [],
                step_output = (if strict_prefix e (td_hello td) \<and> prefix (td_hello td) got then td_reply td else []),
                step_engine = got\<rparr>
         else if ans GX_TLS_IDENTITY (td_room td) = key
         then \<lparr>step_status = Inr [], step_queries = [(GX_TLS_IDENTITY, td_room td)], step_rbio = [],
                step_output = td_finish td, step_engine = got\<rparr>
         else \<lparr>step_status = Inl SSL_failed, step_queries = [(GX_TLS_IDENTITY, td_room td)], step_rbio = [],
                step_output = [], step_engine = []\<rparr>),
      eng_read = (\<lambda>e ans rbio n. let got = e @ rbio in
         if strict_prefix got (td_client td @ td_record td)
         then \<lparr>step_status = Inl SSL_want_read, step_queries = [], step_rbio = [], step_output = [], step_engine = got\<rparr>
         else \<lparr>step_status = Inr (td_plain td), step_queries = [], step_rbio = [], step_output = [], step_engine = got\<rparr>),
      eng_finished = (\<lambda>e. prefix (td_client td) e), eng_fresh = []\<rparr>"

lemma dialogue_engine_accepts: "openssl_accepts (dialogue_engine key td) id key td"
  by (auto simp: openssl_accepts_def dialogue_engine_def Let_def)

lemma dialogue_engine_reads: "openssl_reads (dialogue_engine key td) id td"
  by (auto simp: openssl_reads_def dialogue_engine_def Let_def)

text \<open>A read that carries one TLS frame.\<close>

definition tls_frame_read :: "u8 list \<Rightarrow> rx_read list" where
  "tls_frame_read bytes = [Inr (padded ((GX5125_OUTER_TLS, bytes), 3))]"

lemma tls_frame_read: "length bytes \<le> 4000 \<Longrightarrow> tls_reads bytes (tls_frame_read bytes)"
  unfolding tls_reads_def tls_frame_read_def
  by (rule exI [of _ "[padded ((GX5125_OUTER_TLS, bytes), 3)]"], rule exI [of _ "[(bytes, 3)]"])
    (simp add: padded_def outer_frame_def outer_header_def session_consts outer_consts)

fun script_reads :: "sensor_script \<Rightarrow> tls_dialogue \<Rightarrow> nat \<Rightarrow> rx_read list" where
  "script_reads ss td k =
     (if k = 1 then answer_reads 0x0a 0x04 0x01 (ss_firmware ss)
      else if k = 3 then answer_reads 0x08 0x01 0x01 (ss_chip ss)
      else if k = 4 then answer_reads 0x0a 0x03 0x01 (ss_otp ss)
      else if k = 5 then answer_reads 0x09 0x00 0x01 (ss_verdict ss)
      else if k = 6 then tls_frame_read (td_hello td)
      else if k = 7 then tls_frame_read (td_key td)
      else if k = 9 then answer_reads 0x0d 0x02 0x01 (ss_tls ss)
      else if k = 10 then answer_reads 0x0a 0x07 0x01 (ss_mcu ss)
      else if k = 11 then tls_frame_read (td_record td)
      else [])"

definition sample_key_file :: psk_file where
  "sample_key_file = \<lparr>pf_opens = True, pf_regular = True, pf_private = True,
     pf_content = replicate 64 0x37, pf_reads = []\<rparr>"

definition prompt_sample :: channel_round where
  "prompt_sample = \<lparr>cr_stores = [], cr_start = 10, cr_ticks =
     [\<lparr>ct_now = 20, ct_stores = [], ct_later = 30, ct_start = 31,
       ct_reads = [\<lparr>tt_now = 32, tt_later = 33\<rparr>, \<lparr>tt_now = 34, tt_later = 35\<rparr>]\<rparr>]\<rparr>"

definition cooperative_world :: "u8 list device_world" where
  "cooperative_world =
     \<lparr>dw_env = working_env, dw_engine = dialogue_engine (replicate 32 0x77) sample_dialogue,
      dw_sched = (\<lambda>g t. \<lparr>arrivals = script_reads sample_script sample_dialogue (send_count g - 1), wakes = []\<rparr>),
      dw_psk_file = (\<lambda>_. sample_key_file), dw_time = (\<lambda>_. (12, 345678901)),
      dw_handshake = (\<lambda>_. (0, [\<lparr>tt_now = 5, tt_later = 6\<rparr>, \<lparr>tt_now = 7, tt_later = 8\<rparr>, \<lparr>tt_now = 9, tt_later = 9\<rparr>])), dw_round = (\<lambda>_ _. prompt_sample),
      dw_stores = (\<lambda>_. []), dw_tail = (\<lambda>_. [])\<rparr>"

definition new_device :: "u8 list gx5125_device" where
  "new_device = blank_device (dw_engine cooperative_world) gx5125_device_default_config GX5125_DEFAULT_PSK_PATH"

lemma sample_key: "gx_secret_read_psk_file sample_key_file = Some (replicate 32 0x77)"
  by code_simp

lemma working_usb: "usb_works (dw_env cooperative_world)"
  by (simp add: usb_works_def host_works_def calls_work_def cooperative_world_def working_env_def sample_endpoints_def scan_config_def
      scan_endpoint_def usb_consts)

lemma select_gives_parse:
  "gx_select_dac otp (gx_otp_domain_crc otp ft_ranges (otp ! 0x3d)) (gx_otp_domain_crc otp mt_ranges (otp ! 0x3f)) \<noteq> None
   \<Longrightarrow> fst (gx_otp_parse otp) = Inr ()"
  by (auto simp: gx_otp_parse_def Let_def)

lemma sample_otp_parses: "fst (gx_otp_parse sample_otp) = Inr ()"
proof (rule select_gives_parse)
  have "copy_agreement (take 4 (drop 0x2e sample_otp)) (take 4 (drop 0x32 sample_otp)) \<ge> 3"
    by (simp add: sample_otp_def copy_agreement_def upt4 del: upt_rec_numeral)
  then show "gx_select_dac sample_otp (gx_otp_domain_crc sample_otp ft_ranges (sample_otp ! 0x3d))
      (gx_otp_domain_crc sample_otp mt_ranges (sample_otp ! 0x3f)) \<noteq> None"
    unfolding select_dac_None by blast
qed

lemma sample_sensor: "good_sensor sample_script"
proof -
  have "length sample_otp = 64" by (simp add: sample_otp_def)
  then show ?thesis
    using sample_otp_parses
    by (simp add: good_sensor_def script_fits_def sample_script_def session_consts sensor_consts le16_def
        GX5125_SUPPORTED_CHIP_ID_def tls_established_def)
qed

lemma sample_speaks: "sensor_speaks cooperative_world (send_count [Calloc 1]) sample_script sample_dialogue"
  "tls_arrives (dw_sched cooperative_world) (send_count [Calloc 1] + 11) (td_record sample_dialogue)"
  by (simp_all add: sensor_speaks_def answers_def tls_arrives_def cooperative_world_def sample_dialogue_def tls_frame_read)

lemma sample_peer: "openssl_accepts (dw_engine cooperative_world) id (replicate 32 0x77) sample_dialogue"
  "openssl_reads (dw_engine cooperative_world) id sample_dialogue" "dialogue_fits sample_dialogue"
  using dialogue_engine_accepts dialogue_engine_reads
  by (simp_all add: cooperative_world_def)
    (simp add: dialogue_fits_def sample_dialogue_def GX_TLS_IO_BUFFER_def GX5125_PSK_SIZE_def)

lemma sample_handshake_time:
  "timeout = 8000 \<Longrightarrow> handshake_in_time cooperative_world timeout"
  by (simp add: handshake_in_time_def in_time_def cooperative_world_def)

lemma new_device_fields:
  "dv_state new_device = GX5125_DEVICE_CLOSED" "dv_config new_device = gx5125_device_default_config"
  by (simp_all add: new_device_def blank_device_def gx5125_device_default_config_def)

theorem cooperative_sensor_opens_witness:
  "\<exists>d' h'. gx5125_device_open cooperative_world new_device [Calloc 1] = (GX5125_DEVICE_OK, d', h')
     \<and> dv_state d' = GX5125_DEVICE_ACTIVE"
  by (rule cooperative_sensor_opens
      [where psk = "replicate 32 0x77" and ss = sample_script, OF working_usb new_device_fields(1) _ _ sample_peer(1,3)
        sample_handshake_time sample_sensor sample_speaks(1)])
    (simp_all add: new_device_fields gx5125_device_default_config_def cooperative_world_def sample_key)


section \<open>The self test\<close>

text \<open>
  \<open>gx5125_device_selftest\<close>. The result of \<open>gx_tls_offline_selftest\<close>, which runs OpenSSL against
  itself, is an input.
\<close>

definition selftest_frame :: "u8 list" where
  "selftest_frame =
     (let packed = replicate GX5125_IMAGE_PACKED_SIZE 0
      in packed @ store_crc_wire (gx_crc32_mpeg2 (Buf packed)))"

definition frame_selftest :: "bool \<Rightarrow> int" where
  "frame_selftest tls_ok =
     (let (rc, crc_ok, calculated, stored) = gx_chicagohu_decode selftest_frame (replicate GX5125_IMAGE_PIXELS 0xffff)
      in case rc of
           Inl _ \<Rightarrow> - 1
         | Inr pixels \<Rightarrow>
             if \<not> crc_ok \<or> calculated \<noteq> stored \<or> pixels ! 0 \<noteq> 0 \<or> pixels ! (GX5125_IMAGE_PIXELS - 1) \<noteq> 0 then - 1
             else if \<not> tls_ok then - 1 else 0)"

definition gx5125_device_selftest :: "'e device_world \<Rightarrow> bool \<Rightarrow> history \<Rightarrow> int \<times> history" where
  "gx5125_device_selftest w tls_ok h =
     (let config = gx5125_device_default_config
      in if \<not> config_valid (Some config)
            \<or> gx5125_device_state_string GX5125_DEVICE_ACTIVE \<noteq> ''active''
            \<or> gx5125_device_status_string GX5125_DEVICE_ERR_CRC \<noteq> ''captured frame CRC failed''
         then (- 1, h)
         else
           let (device, h1) = gx5125_device_create w (Some config) h
           in case device of
                None \<Rightarrow> (- 1, gx5125_device_destroy w None h1)
              | Some d \<Rightarrow>
                  if gx5125_device_get_state device \<noteq> GX5125_DEVICE_CLOSED
                  then (- 1, gx5125_device_destroy w device h1)
                  else
                    let d1 = gx5125_device_clear_cancel (gx5125_device_request_cancel d);
                        h2 = gx5125_device_destroy w (Some d1) h1
                    in (frame_selftest tls_ok, h2))"

lemma packed_blank: "packed_image (replicate GX5125_IMAGE_PIXELS 0) = replicate GX5125_IMAGE_PACKED_SIZE 0"
proof (rule replicate_eqI)
  show "length (packed_image (replicate GX5125_IMAGE_PIXELS 0)) = GX5125_IMAGE_PACKED_SIZE"
    by (simp add: sensor_consts)
  fix y assume "y \<in> set (packed_image (replicate GX5125_IMAGE_PIXELS 0))"
  then obtain k where k: "k < 1280" and y:
    "y \<in> set (pack_group (take 4 (drop (4 * k) (wire_order (replicate GX5125_IMAGE_PIXELS 0)))))"
    by (auto simp: packed_image_def)
  have "wire_order (replicate GX5125_IMAGE_PIXELS 0) = replicate 5120 0"
    by (rule replicate_eqI) (auto simp: wire_order_def sensor_consts pixel_position_less simp del: upt_rec_numeral)
  with k have "take 4 (drop (4 * k) (wire_order (replicate GX5125_IMAGE_PIXELS 0))) = replicate 4 (0 :: u16)"
    by (simp add: min_def)
  moreover have "pack_group (replicate 4 0) = replicate 6 0"
    by (simp add: pack_group_def) (simp add: numeral_eq_Suc)
  ultimately show "y = 0" using y by simp
qed

text \<open>
  The device self test passes, for every host on which the allocation succeeds and the TLS self
  test passes, and it leaves no block allocated.
\<close>

theorem device_selftest_passes:
  assumes "\<not> isl (reply_rc (dw_env w h (Calloc 1)))"
  shows "gx5125_device_selftest w True h = (0, h @ [Calloc 1, Free])"
    and "live_blocks (dw_env w) (h @ [Calloc 1, Free]) = live_blocks (dw_env w) h"
proof -
  let ?d = "blank_device (dw_engine w) gx5125_device_default_config GX5125_DEFAULT_PSK_PATH"
  have cfg: "config_valid (Some gx5125_device_default_config)"
    by (simp add: config_valid_def gx5125_device_default_config_def GX5125_DEFAULT_PSK_PATH_def PATH_MAX_def)
  have c: "gx5125_device_create w (Some gx5125_device_default_config) h = (Some ?d, h @ [Calloc 1])"
    using assms cfg by (simp add: gx5125_device_create_def ext_do_def)
      (simp add: gx5125_device_default_config_def)
  have "device_closed w ?d"
    by (simp add: device_closed_def blank_device_def reset_device_def zero_device_info_def)
  then have closed: "device_closed w (gx5125_device_clear_cancel (gx5125_device_request_cancel ?d))"
    by (simp add: gx5125_device_clear_cancel_def gx5125_device_request_cancel_def)
  have f: "selftest_frame = image_frame (replicate GX5125_IMAGE_PIXELS 0)"
    by (simp add: selftest_frame_def image_frame_def packed_blank Let_def)
  have z: "\<forall>x \<in> set (replicate GX5125_IMAGE_PIXELS (0 :: u16)). unat x < 4096" by simp
  have "frame_selftest True = 0"
    using decode_image_frame [OF length_replicate z, of "replicate GX5125_IMAGE_PIXELS 0xffff"]
    by (simp add: frame_selftest_def f Let_def) (simp add: sensor_consts)
  with cfg c close_of_closed [OF closed] show "gx5125_device_selftest w True h = (0, h @ [Calloc 1, Free])"
    by (simp add: gx5125_device_selftest_def gx5125_device_get_state_def gx5125_device_destroy_def ext_do_def)
      (simp add: blank_device_def)
  have "live_blocks (dw_env w) ((h @ [Calloc 1]) @ [Free]) = live_blocks (dw_env w) h"
    using assms by (simp del: append_assoc)
  then show "live_blocks (dw_env w) (h @ [Calloc 1, Free]) = live_blocks (dw_env w) h" by simp
qed

end
