(* ===== verification/Images.thy ===== *)
theory Images
  imports Primitives Environment
begin

text \<open>
  Images and the loops over them. A C loop \<open>for y, for x: out[y * width + x] = f(x, y)\<close> is \<open>raster\<close>; a loop
  that also reads pixels it has written before is \<open>scan\<close>. The summed-area tables of the code are an
  instance of \<open>scan\<close>, and the locale \<open>summed_area\<close> says what their clients rely on. Border reflection and
  the life cycle of image descriptors (\<open>src/gx_feature_descriptor_lifecycle.c\<close>) are here too.
\<close>

section \<open>Pixel loops\<close>

definition pix :: "nat \<Rightarrow> 'a list \<Rightarrow> nat \<Rightarrow> nat \<Rightarrow> 'a" where
  "pix w a x y = a ! (y * w + x)"

definition raster :: "nat \<Rightarrow> nat \<Rightarrow> (nat \<Rightarrow> nat \<Rightarrow> 'a) \<Rightarrow> 'a list" where
  "raster w h f = map (\<lambda>i. f (i mod w) (i div w)) [0..<w * h]"

definition scan :: "nat \<Rightarrow> ('a list \<Rightarrow> nat \<Rightarrow> 'a) \<Rightarrow> 'a list" where
  "scan n f = foldl (\<lambda>a i. a @ [f a i]) [] [0..<n]"

lemma index_less: "x < w \<Longrightarrow> y < h \<Longrightarrow> y * w + x < w * (h :: nat)"
proof -
  assume a: "x < w" "y < h"
  then have "y * w + x < Suc y * w" by simp
  also have "\<dots> \<le> h * w" using a(2) by (intro mult_right_mono) auto
  finally show ?thesis by (simp add: mult.commute)
qed

lemma length_raster [simp]: "length (raster w h f) = w * h"
  by (simp add: raster_def)

lemma nth_raster: "i < w * h \<Longrightarrow> raster w h f ! i = f (i mod w) (i div w)"
  by (simp add: raster_def)

lemma pix_raster [simp]: "x < w \<Longrightarrow> y < h \<Longrightarrow> pix w (raster w h f) x y = f x y"
  by (simp add: pix_def nth_raster index_less)

lemma coordinates: "i < w * h \<Longrightarrow> i mod w < w \<and> i div w < (h :: nat)"
  by (metis less_mult_imp_div_less mod_less_divisor mult.commute mult_0_right gr_zeroI not_less_zero)

lemma raster_cong:
  "(\<And>x y. x < w \<Longrightarrow> y < h \<Longrightarrow> f x y = g x y) \<Longrightarrow> raster w h f = raster w h g"
  using coordinates [of _ w h] by (auto simp: raster_def)

lemma raster_ext:
  assumes "length a = w * h" and "\<And>x y. x < w \<Longrightarrow> y < h \<Longrightarrow> pix w a x y = f x y"
  shows "a = raster w h f"
proof (rule nth_equalityI)
  fix i assume "i < length a"
  then have i: "i < w * h" using assms(1) by simp
  then have "i = i div w * w + i mod w" by simp
  then show "a ! i = raster w h f ! i"
    using assms(2) coordinates [OF i] i by (metis nth_raster pix_def)
qed (simp add: assms(1))

lemma set_raster: "set (raster w h f) = {f x y | x y. x < w \<and> y < h}"
proof (intro set_eqI iffI)
  fix v assume "v \<in> set (raster w h f)"
  then show "v \<in> {f x y | x y. x < w \<and> y < h}"
    unfolding raster_def by (auto dest!: coordinates; blast)
next
  fix v assume "v \<in> {f x y | x y. x < w \<and> y < h}"
  then obtain x y where v: "v = f x y" "x < w" "y < h" by blast
  have "raster w h f ! (y * w + x) = v" using v pix_raster [of x w y h f] by (simp add: pix_def)
  then show "v \<in> set (raster w h f)" using index_less [OF v(2,3)] by (metis length_raster nth_mem)
qed

lemma list_all_raster: "list_all P (raster w h f) \<longleftrightarrow> (\<forall>x < w. \<forall>y < h. P (f x y))"
  by (auto simp: list_all_iff set_raster)

lemma length_scan [simp]: "length (scan n f) = n"
  by (induction n) (simp_all add: scan_def)

lemma scan_Suc: "scan (Suc n) f = scan n f @ [f (scan n f) n]"
  by (simp add: scan_def)

lemma take_scan: "i \<le> n \<Longrightarrow> take i (scan n f) = scan i f"
proof (induction n)
  case (Suc n)
  then show ?case by (cases "i = Suc n") (simp_all add: scan_Suc)
qed (simp add: scan_def)

lemma nth_scan: "i < n \<Longrightarrow> scan n f ! i = f (take i (scan n f)) i"
proof -
  assume i: "i < n"
  have "scan n f ! i = take (Suc i) (scan n f) ! i" by simp
  also have "\<dots> = f (scan i f) i" using i by (simp only: take_scan Suc_leI) (simp add: scan_Suc nth_append)
  finally show ?thesis using i by (simp add: take_scan)
qed

lemma nth_scan_before: "j < i \<Longrightarrow> i \<le> n \<Longrightarrow> scan i f ! j = scan n f ! j"
  by (metis nth_take take_scan)

section \<open>Summed-area tables\<close>

text \<open>
  The recurrence of the tables: the value, plus the entry to the left, plus the entry above, minus the
  entry above and to the left. The values live in any commutative group: mathematical integers, or words,
  where the sums wrap.
\<close>

definition integral_step :: "nat \<Rightarrow> 'a list \<Rightarrow> 'a list \<Rightarrow> nat \<Rightarrow> 'a :: ab_group_add" where
  "integral_step w v a i =
     (let x = i mod w; y = i div w;
          s = v ! i;
          s = (if x > 0 then s + a ! (i - 1) else s);
          s = (if y > 0 then s + a ! (i - w) else s)
      in if x > 0 \<and> y > 0 then s - a ! (i - w - 1) else s)"

definition integral_table :: "nat \<Rightarrow> nat \<Rightarrow> 'a list \<Rightarrow> 'a :: ab_group_add list" where
  "integral_table w h v = scan (w * h) (integral_step w v)"

text \<open>The sum of a rectangle, corners included.\<close>

definition box_sum :: "(nat \<Rightarrow> nat \<Rightarrow> 'a) \<Rightarrow> nat \<Rightarrow> nat \<Rightarrow> nat \<Rightarrow> nat \<Rightarrow> 'a :: comm_monoid_add" where
  "box_sum f l t r b = (\<Sum>y = t..b. \<Sum>x = l..r. f x y)"

lemma length_integral_table [simp]: "length (integral_table w h v) = w * h"
  by (simp add: integral_table_def)

lemma integral_table_step:
  fixes v :: "'a :: ab_group_add list"
  assumes "x < w" and "y < h"
  shows "pix w (integral_table w h v) x y = pix w v x y
      + (if x > 0 then pix w (integral_table w h v) (x - 1) y else 0)
      + (if y > 0 then pix w (integral_table w h v) x (y - 1) else 0)
      - (if x > 0 \<and> y > 0 then pix w (integral_table w h v) (x - 1) (y - 1) else 0)"
proof -
  let ?i = "y * w + x" and ?t = "integral_table w h v"
  have "?t ! ?i = integral_step w v (take ?i ?t) ?i"
    unfolding integral_table_def by (rule nth_scan) (rule index_less [OF assms])
  also have "\<dots> = integral_step w v ?t ?i"
  proof -
    have "x > 0 \<Longrightarrow> ?i - 1 < ?i" "y > 0 \<Longrightarrow> ?i - w < ?i" "y > 0 \<Longrightarrow> ?i - w - 1 < ?i"
      using assms(1) by (cases y; simp)+
    then show ?thesis using assms by (simp add: integral_step_def Let_def)
  qed
  finally have "?t ! ?i = integral_step w v ?t ?i" .
  moreover have "?i mod w = x" "?i div w = y" using assms by simp_all
  moreover have "y > 0 \<Longrightarrow> ?i - w = (y - 1) * w + x" using assms(1) by (cases y) simp_all
  ultimately show ?thesis by (auto simp: integral_step_def pix_def Let_def)
qed

lemma sum_upto_Suc: "(\<Sum>x = 0..Suc n. f x) = f (Suc n) + (\<Sum>x = 0..n. f x :: 'a :: comm_monoid_add)"
  by (simp add: add.commute)

lemma integral_table_sum:
  fixes v :: "'a :: ab_group_add list"
  shows "x < w \<Longrightarrow> y < h \<Longrightarrow> pix w (integral_table w h v) x y = box_sum (pix w v) 0 0 x y"
proof (induction "x + y" arbitrary: x y rule: less_induct)
  case less
  let ?t = "pix w (integral_table w h v)" and ?v = "pix w v"
  have ih: "?t a b = box_sum ?v 0 0 a b" if "a + b < x + y" "a \<le> x" "b \<le> y" for a b
    using less that by simp
  note step = integral_table_step [OF less.prems, of v]
  show ?case
  proof (cases x; cases y)
    fix a b assume xy: "x = Suc a" "y = Suc b"
    have "?t x y = ?v x y + ?t a y + ?t x b - ?t a b" using step xy by simp
    also have "\<dots> = ?v x y + box_sum ?v 0 0 a y + box_sum ?v 0 0 x b - box_sum ?v 0 0 a b"
      using ih [of a y] ih [of x b] ih [of a b] xy by simp
    also have "\<dots> = box_sum ?v 0 0 x y"
      by (simp add: box_sum_def xy sum_upto_Suc sum.distrib algebra_simps del: sum.cl_ivl_Suc)
    finally show ?thesis .
  next
    fix a assume xy: "x = Suc a" "y = 0"
    have "?t x y = ?v x y + ?t a y" using step xy by simp
    then show ?thesis using ih [of a y] xy by (simp add: box_sum_def sum_upto_Suc add_ac del: sum.cl_ivl_Suc)
  next
    fix b assume xy: "x = 0" "y = Suc b"
    have "?t x y = ?v x y + ?t x b" using step xy by simp
    then show ?thesis using ih [of x b] xy by (simp add: box_sum_def sum_upto_Suc add_ac del: sum.cl_ivl_Suc)
  next
    assume "x = 0" "y = 0"
    then show ?thesis using step by (simp add: box_sum_def)
  qed
qed

lemma sum_tail:
  fixes f :: "nat \<Rightarrow> 'a :: ab_group_add"
  assumes "0 < l" and "l \<le> r"
  shows "(\<Sum>x = l..r. f x) = (\<Sum>x = 0..r. f x) - (\<Sum>x = 0..l - 1. f x)"
  using sum.ub_add_nat [of 0 "l - 1" f "r - (l - 1)"] assms by simp

lemma box_sum_columns:
  fixes f :: "nat \<Rightarrow> nat \<Rightarrow> 'a :: ab_group_add"
  shows "0 < l \<Longrightarrow> l \<le> r \<Longrightarrow> box_sum f l t r b = box_sum f 0 t r b - box_sum f 0 t (l - 1) b"
  by (simp add: box_sum_def sum_tail sum_subtractf)

lemma box_sum_rows:
  fixes f :: "nat \<Rightarrow> nat \<Rightarrow> 'a :: ab_group_add"
  shows "0 < t \<Longrightarrow> t \<le> b \<Longrightarrow> box_sum f l t r b = box_sum f l 0 r b - box_sum f l 0 r (t - 1)"
  by (simp add: box_sum_def sum_tail)

text \<open>
  What the clients of a table rely on: an entry is the sum of all values above and to the left. The laws
  may ask for a condition on the values (one table of the code leaves out the first row and column).
\<close>

locale summed_area =
  fixes table :: "nat \<Rightarrow> nat \<Rightarrow> 'a list \<Rightarrow> 'a :: ab_group_add list"
    and fits :: "nat \<Rightarrow> nat \<Rightarrow> 'a list \<Rightarrow> bool"
  assumes table_sum: "fits w h v \<Longrightarrow> x < w \<Longrightarrow> y < h \<Longrightarrow> pix w (table w h v) x y = box_sum (pix w v) 0 0 x y"
begin

lemma box_of_table:
  assumes "fits w h v" and "l \<le> r" "r < w" "t \<le> b" "b < h"
  shows "box_sum (pix w v) l t r b = pix w (table w h v) r b
      - (if l > 0 then pix w (table w h v) (l - 1) b else 0)
      - (if t > 0 then pix w (table w h v) r (t - 1) else 0)
      + (if l > 0 \<and> t > 0 then pix w (table w h v) (l - 1) (t - 1) else 0)"
  using assms by (auto simp: table_sum box_sum_columns [of l r] box_sum_rows [of t b])

end

interpretation integral: summed_area integral_table "\<lambda>w h v. True"
  by unfold_locales (rule integral_table_sum)

section \<open>Border reflection\<close>

text \<open>
  \<open>reflect101\<close> (the same function in \<open>gx_feature_filter.c\<close> and \<open>gx_feature_root.c\<close>): a coordinate outside the
  image is mirrored at the border pixel, again and again until it is inside.
\<close>

function reflect101 :: "int \<Rightarrow> int \<Rightarrow> int" where
  "reflect101 index len =
     (if len \<le> 1 then 0
      else if index < 0 then reflect101 (- index) len
      else if index \<ge> len then reflect101 (len * 2 - index - 2) len
      else index)"
  by pat_completeness auto
termination
  by (relation "measure (\<lambda>(index, len). nat (2 * \<bar>index\<bar> + (if index < 0 then 1 else 0)))") auto

declare reflect101.simps [simp del]

text \<open>The mirror images of a coordinate have the same place in a period of \<open>2 * (len - 1)\<close>.\<close>

definition mirror :: "int \<Rightarrow> int \<Rightarrow> int" where
  "mirror index len =
     (let m = index mod (2 * (len - 1)) in if m < len then m else 2 * (len - 1) - m)"

lemma mirror_negate: "1 < len \<Longrightarrow> mirror (- index) len = mirror index len"
  by (auto simp: mirror_def Let_def zmod_zminus1_eq_if)

lemma mirror_flip: "mirror (len * 2 - index - 2) len = mirror (- index) len"
proof -
  have "(len * 2 - index - 2) mod (2 * (len - 1)) = (- index + 2 * (len - 1)) mod (2 * (len - 1))"
    by (simp add: algebra_simps)
  also have "\<dots> = - index mod (2 * (len - 1))" by (rule mod_add_self2)
  finally show ?thesis by (simp add: mirror_def)
qed

lemma reflect101_mirror: "1 < len \<Longrightarrow> reflect101 index len = mirror index len"
proof (induction index len rule: reflect101.induct)
  case (1 index len)
  consider "index < 0" | "index \<ge> len" | "0 \<le> index" "index < len" by linarith
  then show ?case
  proof cases
    case 1
    with "1.IH"(1) "1.prems" show ?thesis by (subst reflect101.simps) (simp add: mirror_negate)
  next
    case 2
    with "1.IH"(2) "1.prems" show ?thesis
      by (subst reflect101.simps) (simp add: mirror_flip mirror_negate)
  next
    case 3
    with "1.prems" show ?thesis by (subst reflect101.simps) (simp add: mirror_def)
  qed
qed

lemma mirror_inside:
  assumes "1 < len"
  shows "0 \<le> mirror index len \<and> mirror index len < len"
proof -
  define m where "m = index mod (2 * (len - 1))"
  have "0 \<le> m" "m < 2 * (len - 1)" using assms by (simp_all add: m_def)
  with assms have "0 \<le> (if m < len then m else 2 * (len - 1) - m)
      \<and> (if m < len then m else 2 * (len - 1) - m) < len" by auto
  then show ?thesis by (simp only: mirror_def Let_def m_def)
qed

lemma reflect101_inside [simp]:
  "0 < len \<Longrightarrow> 0 \<le> reflect101 index len \<and> reflect101 index len < len"
  using reflect101_mirror [of len index] mirror_inside [of len index]
  by (cases "len = 1") (auto simp: reflect101.simps)

lemma reflect101_nat: "0 < n \<Longrightarrow> nat (reflect101 i (int n)) < n"
  using reflect101_inside [of "int n" i] by linarith

lemma reflect101_id [simp]: "0 \<le> i \<Longrightarrow> i < len \<Longrightarrow> reflect101 i len = i"
  by (auto simp: reflect101.simps)

text \<open>
  Border reflection always ends, inside the image. For every coordinate, however far outside, the
  mirroring loop stops with a valid index; a coordinate of the image is its own result, mirroring at
  either border pixel does not change the result, and the result repeats with the period
  \<open>2 * (len - 1)\<close>.
\<close>

theorem reflection_ends_inside:
  assumes "1 < len"
  shows "0 \<le> reflect101 i len \<and> reflect101 i len < len
    \<and> (if 0 \<le> i \<and> i < len then reflect101 i len = i else True)
    \<and> reflect101 (- i) len = reflect101 i len
    \<and> reflect101 (2 * (len - 1) - i) len = reflect101 i len
    \<and> reflect101 (i + 2 * (len - 1)) len = reflect101 i len"
proof -
  have "mirror (i + 2 * (len - 1)) len = mirror i len"
    by (simp add: mirror_def)
  moreover have "mirror (2 * (len - 1) - i) len = mirror i len"
    using mirror_flip [of len i] mirror_negate [OF assms, of i] by (simp add: algebra_simps)
  moreover have "if 0 \<le> i \<and> i < len then reflect101 i len = i else True" by simp
  ultimately show ?thesis
    using assms mirror_inside [OF assms] by (simp only: reflect101_mirror mirror_negate simp_thms)
qed

theorem reflection_ends_inside_witness:
  "reflect101 (- 17) 5 = 1 \<and> 0 \<le> reflect101 (- 17) (5 :: int)"
  using reflection_ends_inside [of 5 "- 17"] by (simp add: reflect101_mirror mirror_def)

section \<open>Setting bits in a byte array\<close>

text \<open>A loop that ors a bit into a byte for every index that satisfies a condition.\<close>

definition mark_bits ::
    "(nat \<Rightarrow> bool) \<Rightarrow> (nat \<Rightarrow> nat) \<Rightarrow> (nat \<Rightarrow> nat) \<Rightarrow> nat list \<Rightarrow> u8 list \<Rightarrow> u8 list" where
  "mark_bits P byte_of bit_of idx packed =
     foldl (\<lambda>p i. if P i then p[byte_of i := p ! byte_of i OR push_bit (bit_of i) 1] else p) packed idx"

lemma length_mark_bits [simp]: "length (mark_bits P f g idx packed) = length packed"
  unfolding mark_bits_def by (induction idx arbitrary: packed) simp_all

lemma bit_mark_bits:
  "j < length packed \<Longrightarrow> n < 8 \<Longrightarrow>
   bit (mark_bits P f g idx packed ! j) n \<longleftrightarrow> bit (packed ! j) n \<or> (\<exists>i \<in> set idx. P i \<and> f i = j \<and> g i = n)"
proof (induction idx arbitrary: packed)
  case (Cons i idx)
  define q where "q = (if P i then packed[f i := packed ! f i OR push_bit (g i) 1] else packed)"
  have len: "length q = length packed" by (simp add: q_def)
  have "bit (q ! j) n \<longleftrightarrow> bit (packed ! j) n \<or> (P i \<and> f i = j \<and> g i = n)"
  proof (cases "f i = j")
    case True
    with Cons.prems show ?thesis by (auto simp: q_def bit_simps)
  next
    case False
    with Cons.prems show ?thesis by (simp add: q_def)
  qed
  with Cons.IH [of q] Cons.prems len show ?case by (auto simp: mark_bits_def q_def [symmetric])
qed (simp add: mark_bits_def)

end
