(* ===== verification/Postprocess.thy ===== *)
theory Postprocess
  imports Images "HOL-Library.Multiset"
begin

text \<open>
  The last passes over the feature records (\<open>src/gx_feature_postprocess.c\<close>): moving the records of class
  zero to the front, dropping records outside the mask, and packing a map into bits. The record array is
  the list of its 60-byte records.
\<close>

section \<open>Partition by class\<close>

definition GX_FEATURE_POST_RECORD_BYTES :: nat where "GX_FEATURE_POST_RECORD_BYTES = 0x3c"
definition GX_FEATURE_POST_MAX_RECORDS :: nat where "GX_FEATURE_POST_MAX_RECORDS = 120"

definition record_class :: "u8 list \<Rightarrow> u8" where
  "record_class r = r ! 0 AND 3"

definition swap_at :: "nat \<Rightarrow> nat \<Rightarrow> 'a list \<Rightarrow> 'a list" where
  "swap_at i j xs = xs[i := xs ! j, j := xs ! i]"

function skip_front :: "u8 list list \<Rightarrow> nat \<Rightarrow> nat \<Rightarrow> nat" where
  "skip_front recs front lst =
     (if front < lst \<and> record_class (recs ! front) = 0 then skip_front recs (front + 1) lst else front)"
  by pat_completeness auto
termination by (relation "measure (\<lambda>(recs, front, lst). lst - front)") auto

fun skip_last :: "u8 list list \<Rightarrow> nat \<Rightarrow> nat \<Rightarrow> nat" where
  "skip_last recs front lst =
     (if front < lst \<and> record_class (recs ! lst) = 1 then skip_last recs front (lst - 1) else lst)"

declare skip_front.simps [simp del] skip_last.simps [simp del]

text \<open>
  The outer loop has no bound of its own: with classes other than 0 and 1 it can swap two records back and
  forth for ever. So it is a partial function, and that it returns is part of the theorem.
\<close>

partial_function (option) partition_loop ::
    "u8 list list \<Rightarrow> u8 list \<Rightarrow> nat \<Rightarrow> nat \<Rightarrow> (u8 list list \<times> u8 list \<times> nat \<times> nat) option" where
  "partition_loop recs flags front lst =
     (let front1 = skip_front recs front lst
      in if lst \<le> front1 then Some (recs, flags, front1, lst)
         else
           let last1 = skip_last recs front1 lst
           in if last1 \<le> front1 then Some (recs, flags, front1, last1)
              else partition_loop (swap_at front1 last1 recs) (swap_at front1 last1 flags) front1 last1)"

text \<open>The result: no value while the loop runs, else an error or the arrays and the number of class-zero records.\<close>

definition gx_feature_post_partition_records ::
    "u8 list list \<Rightarrow> u8 list \<Rightarrow> (unit + u8 list list \<times> u8 list \<times> nat) option" where
  "gx_feature_post_partition_records recs flags =
     (if length recs = 0 then Some (Inr (recs, flags, 0))
      else if length recs > GX_FEATURE_POST_MAX_RECORDS then Some (Inl ())
      else
        let lst = length recs - 1
        in case (if lst \<ge> 1 then partition_loop recs flags 0 lst else Some (recs, flags, 0, lst)) of
             None \<Rightarrow> None
           | Some (recs1, flags1, front, last1) \<Rightarrow>
               Some (Inr (recs1, flags1,
                 if front = last1 \<and> record_class (recs1 ! front) = 0 then front + 1 else front)))"

lemma skip_front_props:
  "front \<le> lst \<Longrightarrow> front \<le> skip_front recs front lst \<and> skip_front recs front lst \<le> lst
   \<and> (\<forall>i. front \<le> i \<and> i < skip_front recs front lst \<longrightarrow> record_class (recs ! i) = 0)
   \<and> (skip_front recs front lst < lst \<longrightarrow> record_class (recs ! skip_front recs front lst) \<noteq> 0)"
proof (induction recs front lst rule: skip_front.induct)
  case (1 recs front lst)
  show ?case
  proof (cases "front < lst \<and> record_class (recs ! front) = 0")
    case True
    with 1 have ih: "front + 1 \<le> skip_front recs (front + 1) lst \<and> skip_front recs (front + 1) lst \<le> lst
        \<and> (\<forall>i. front + 1 \<le> i \<and> i < skip_front recs (front + 1) lst \<longrightarrow> record_class (recs ! i) = 0)
        \<and> (skip_front recs (front + 1) lst < lst \<longrightarrow> record_class (recs ! skip_front recs (front + 1) lst) \<noteq> 0)"
      by simp
    have "skip_front recs front lst = skip_front recs (front + 1) lst"
      using True by (subst skip_front.simps) simp
    with ih True show ?thesis by (metis Suc_eq_plus1 Suc_leD Suc_leI le_neq_implies_less)
  next
    case False
    with 1 have "skip_front recs front lst = front" by (subst skip_front.simps) auto
    with False 1 show ?thesis by auto
  qed
qed

lemma skip_last_props:
  "front \<le> lst \<Longrightarrow> front \<le> skip_last recs front lst \<and> skip_last recs front lst \<le> lst
   \<and> (\<forall>i. skip_last recs front lst < i \<and> i \<le> lst \<longrightarrow> record_class (recs ! i) = 1)
   \<and> (front < skip_last recs front lst \<longrightarrow> record_class (recs ! skip_last recs front lst) \<noteq> 1)"
proof (induction recs front lst rule: skip_last.induct)
  case (1 recs front lst)
  show ?case
  proof (cases "front < lst \<and> record_class (recs ! lst) = 1")
    case True
    then have "front \<le> lst - 1" by (simp add: le_diff_conv2)
    note ih = "1.IH" [OF True this]
    have "skip_last recs front lst = skip_last recs front (lst - 1)"
      using True by (subst skip_last.simps) simp
    moreover have "i \<le> lst - 1 \<or> i = lst" if "i \<le> lst" for i using that by linarith
    ultimately show ?thesis using ih True by (metis diff_le_self le_trans)
  next
    case False
    with 1 have "skip_last recs front lst = lst" by (subst skip_last.simps) auto
    with False 1 show ?thesis by auto
  qed
qed

lemma length_swap_at [simp]: "length (swap_at i j xs) = length xs"
  by (simp add: swap_at_def)

lemma nth_swap_at:
  "i < length xs \<Longrightarrow> j < length xs \<Longrightarrow> k < length xs \<Longrightarrow>
   swap_at i j xs ! k = (if k = j then xs ! i else if k = i then xs ! j else xs ! k)"
  by (simp add: swap_at_def nth_list_update)

lemma mset_swap_at: "i < length xs \<Longrightarrow> j < length xs \<Longrightarrow> mset (swap_at i j xs) = mset xs"
  by (simp add: swap_at_def mset_swap)

lemma zip_swap_at:
  "length xs = length ys \<Longrightarrow> i < length xs \<Longrightarrow> j < length xs \<Longrightarrow>
   zip (swap_at i j xs) (swap_at i j ys) = swap_at i j (zip xs ys)"
  by (rule nth_equalityI) (auto simp: nth_swap_at)

text \<open>Everything before \<open>front\<close> is of class zero, everything behind \<open>lst\<close> of class one.\<close>

definition split_at :: "u8 list list \<Rightarrow> nat \<Rightarrow> nat \<Rightarrow> bool" where
  "split_at recs front lst \<longleftrightarrow> front \<le> lst \<and> lst < length recs
     \<and> (\<forall>i < front. record_class (recs ! i) = 0)
     \<and> (\<forall>i. lst < i \<and> i < length recs \<longrightarrow> record_class (recs ! i) = 1)"

definition two_classes :: "u8 list list \<Rightarrow> bool" where
  "two_classes recs \<longleftrightarrow> (\<forall>r \<in> set recs. record_class r = 0 \<or> record_class r = 1)"

lemma two_classes_swap: "i < length recs \<Longrightarrow> j < length recs \<Longrightarrow> two_classes (swap_at i j recs) = two_classes recs"
  by (simp add: two_classes_def mset_eq_setD [OF mset_swap_at])

lemma partition_loop_works:
  assumes "split_at recs front lst" and "two_classes recs" and "length flags = length recs"
  shows "\<exists>recs' flags' f. partition_loop recs flags front lst = Some (recs', flags', f, f)
    \<and> split_at recs' f f \<and> length recs' = length recs \<and> length flags' = length recs
    \<and> mset (zip recs' flags') = mset (zip recs flags) \<and> two_classes recs'"
  using assms
proof (induction "2 * (lst - front) + (if record_class (recs ! front) = 0 then 0 else 1)"
    arbitrary: recs flags front lst rule: less_induct)
  case less
  let ?f = "skip_front recs front lst"
  have sp: "front \<le> lst" "lst < length recs" using less.prems(1) by (simp_all add: split_at_def)
  note f = skip_front_props [OF sp(1), of recs]
  then have fl: "?f \<le> lst" by simp
  let ?l = "skip_last recs ?f lst"
  note l = skip_last_props [OF fl, of recs]
  have low: "\<forall>i < ?f. record_class (recs ! i) = 0"
    using less.prems(1) f unfolding split_at_def by (meson not_less)
  have high: "\<forall>i. ?l < i \<and> i < length recs \<longrightarrow> record_class (recs ! i) = 1"
    using less.prems(1) l unfolding split_at_def by (meson not_less)
  consider "lst \<le> ?f" | "?f < lst" "?l \<le> ?f" | "?f < lst" "?f < ?l" by linarith
  then show ?case
  proof cases
    case 1
    then have e: "?f = lst" using fl by simp
    then have "split_at recs lst lst" using low less.prems(1) by (simp add: split_at_def)
    with 1 e less.prems show ?thesis by (subst partition_loop.simps) (simp add: Let_def)
  next
    case 2
    then have e: "?l = ?f" using l by simp
    then have "split_at recs ?f ?f" using low high sp 2 by (simp add: split_at_def)
    with 2 e less.prems show ?thesis by (subst partition_loop.simps) (simp add: Let_def)
  next
    case 3
    let ?r = "swap_at ?f ?l recs" and ?g = "swap_at ?f ?l flags"
    have ix: "?f < length recs" "?l < length recs" using 3 l sp by auto
    have cf: "record_class (recs ! ?f) = 1"
      using f 3 less.prems(2) ix(1) unfolding two_classes_def by (metis nth_mem)
    have cl: "record_class (recs ! ?l) = 0"
      using l 3 less.prems(2) ix(2) unfolding two_classes_def by (metis nth_mem)
    have sw: "split_at ?r ?f ?l"
      using low high ix 3 by (auto simp: split_at_def nth_swap_at)
    have new: "record_class (?r ! ?f) = 0" using ix 3 cl by (simp add: nth_swap_at)
    have "2 * (?l - ?f) < 2 * (lst - front) + (if record_class (recs ! front) = 0 then 0 else 1)"
    proof (cases "record_class (recs ! front) = 0")
      case True
      then have "?f \<noteq> front" using cf by auto
      with f l 3 True show ?thesis by auto
    next
      case False
      with f l 3 show ?thesis by auto
    qed
    then have small: "2 * (?l - ?f) + (if record_class (?r ! ?f) = 0 then 0 else 1)
        < 2 * (lst - front) + (if record_class (recs ! front) = 0 then 0 else 1)" using new by simp
    have two: "two_classes ?r" using two_classes_swap [OF ix] less.prems(2) by simp
    have eq: "length ?g = length ?r" using less.prems(3) by simp
    obtain recs' flags' f' where p: "partition_loop ?r ?g ?f ?l = Some (recs', flags', f', f')"
      "split_at recs' f' f'" "length recs' = length ?r" "length flags' = length ?r"
      "mset (zip recs' flags') = mset (zip ?r ?g)" "two_classes recs'"
      using less.hyps [OF small sw two eq] by (elim exE conjE) (rule that; assumption)
    have "mset (zip ?r ?g) = mset (zip recs flags)"
      using ix less.prems(3) by (simp add: zip_swap_at mset_swap_at)
    with p 3 show ?thesis by (subst partition_loop.simps) (simp add: Let_def)
  qed
qed

text \<open>
  C26: the partition. For records of the two classes the extractor makes, the partition returns: the
  records with their flags are permuted, never lost or torn apart, the records of class zero come
  first, and the number returned is how many there are. With other classes the loop need not end.
\<close>

theorem partition_splits:
  assumes "two_classes recs" and "length flags = length recs" and "length recs \<le> GX_FEATURE_POST_MAX_RECORDS"
  shows "\<exists>recs' flags' n. gx_feature_post_partition_records recs flags = Some (Inr (recs', flags', n))
    \<and> mset (zip recs' flags') = mset (zip recs flags) \<and> length recs' = length recs \<and> length flags' = length flags
    \<and> list_all (\<lambda>r. record_class r = 0) (take n recs') \<and> list_all (\<lambda>r. record_class r = 1) (drop n recs')"
proof (cases "length recs = 0")
  case True
  then show ?thesis by (simp add: gx_feature_post_partition_records_def)
next
  case False
  let ?l = "length recs - 1"
  have start: "split_at recs 0 ?l" using False by (auto simp: split_at_def)
  have "\<exists>recs' flags' f. (if ?l \<ge> 1 then partition_loop recs flags 0 ?l else Some (recs, flags, 0, ?l)) = Some (recs', flags', f, f)
    \<and> split_at recs' f f \<and> length recs' = length recs \<and> length flags' = length recs
    \<and> mset (zip recs' flags') = mset (zip recs flags) \<and> two_classes recs'"
  proof (cases "?l \<ge> 1")
    case True
    with partition_loop_works [OF start assms(1,2)] show ?thesis by (simp only: if_True)
  next
    case small: False
    then have "?l = 0" by simp
    with start assms small show ?thesis by simp
  qed
  then obtain recs' flags' f where p: "(if ?l \<ge> 1 then partition_loop recs flags 0 ?l else Some (recs, flags, 0, ?l))
      = Some (recs', flags', f, f)" and s: "split_at recs' f f" and l: "length recs' = length recs" "length flags' = length recs"
    and m: "mset (zip recs' flags') = mset (zip recs flags)" and two: "two_classes recs'" by blast
  define n where "n = (if record_class (recs' ! f) = 0 then f + 1 else f)"
  have fl: "f < length recs'" using s by (simp add: split_at_def)
  then have "record_class (recs' ! f) = 0 \<or> record_class (recs' ! f) = 1"
    using two nth_mem unfolding two_classes_def by blast
  with s fl have low: "\<forall>i < n. record_class (recs' ! i) = 0" and high: "\<forall>i. n \<le> i \<and> i < length recs' \<longrightarrow> record_class (recs' ! i) = 1"
    by (auto simp: split_at_def n_def less_Suc_eq Suc_le_eq le_less)
  have "list_all (\<lambda>r. record_class r = 0) (take n recs')" "list_all (\<lambda>r. record_class r = 1) (drop n recs')"
    using low high by (simp_all add: list_all_length)
  moreover have "gx_feature_post_partition_records recs flags = Some (Inr (recs', flags', n))"
    unfolding gx_feature_post_partition_records_def Let_def p using False assms(3) by (simp add: n_def)
  ultimately show ?thesis using l m assms(2) by auto
qed

theorem partition_splits_witness:
  "\<exists>recs' flags' n. gx_feature_post_partition_records [[5, 1], [0, 2], [4, 3]] [10, 20, 30] = Some (Inr (recs', flags', n))
    \<and> mset (zip recs' flags') = {#([5, 1], 10), ([0, 2], 20), ([4, 3], 30)#} \<and> length recs' = 3"
proof -
  have "two_classes [[5, 1], [0, 2], [4, 3 :: u8]]" by (simp add: two_classes_def record_class_def)
  from partition_splits [OF this, of "[10, 20, 30]"] show ?thesis
    by (auto simp: GX_FEATURE_POST_MAX_RECORDS_def)
qed

section \<open>Records outside the mask\<close>

record gx_feature_post_map =
  pm_width :: int
  pm_height :: int
  pm_pixels :: "u8 list"

definition read_u16 :: "u8 list \<Rightarrow> nat \<Rightarrow> u16" where
  "read_u16 r offset = le16 (r ! offset) (r ! (offset + 1))"

text \<open>The pixel a record lies on: its Q8 position, rounded.\<close>

definition record_pixel :: "u8 list \<Rightarrow> nat \<times> nat" where
  "record_pixel r = (unat (drop_bit 8 (ucast (read_u16 r 2) + 0x80 :: u32)),
                     unat (drop_bit 8 (ucast (read_u16 r 4) + 0x80 :: u32)))"

definition masked_out :: "gx_feature_post_map \<Rightarrow> u8 list \<Rightarrow> bool" where
  "masked_out msk r = (case record_pixel r of (x, y) \<Rightarrow>
     int x < pm_width msk \<and> int y < pm_height msk \<and> pm_pixels msk ! (y * nat (pm_width msk) + x) = 0)"

text \<open>A removed record is replaced by the last one, which is cleared in its old place and looked at again.\<close>

function prune_loop :: "gx_feature_post_map \<Rightarrow> u8 list list \<Rightarrow> nat \<Rightarrow> nat \<Rightarrow> u8 list list \<times> nat" where
  "prune_loop msk recs index cnt =
     (if index < cnt
      then if masked_out msk (recs ! index)
           then let lst = cnt - 1;
                    recs1 = (if index \<noteq> lst
                             then recs[index := recs ! lst, lst := replicate GX_FEATURE_POST_RECORD_BYTES 0]
                             else recs)
                in prune_loop msk recs1 index lst
           else prune_loop msk recs (index + 1) cnt
      else (recs, cnt))"
  by pat_completeness auto
termination by (relation "measure (\<lambda>(msk, recs, index, cnt). cnt - index)") auto

declare prune_loop.simps [simp del]

definition gx_feature_post_prune_mask ::
    "u8 list list \<Rightarrow> nat \<Rightarrow> gx_feature_post_map \<Rightarrow> (u8 list list \<times> nat) option" where
  "gx_feature_post_prune_mask recs cnt msk =
     (if pm_width msk \<le> 0 \<or> pm_height msk \<le> 0 then None
      else if cnt > GX_FEATURE_POST_MAX_RECORDS then None
      else Some (prune_loop msk recs 0 cnt))"

lemma take_update_last:
  assumes "index < cnt - 1" and "cnt \<le> length recs"
  shows "take (cnt - 1) (recs[index := recs ! (cnt - 1), cnt - 1 := z])
    = (take (cnt - 1) recs)[index := recs ! (cnt - 1)]"
  using assms by (simp add: take_update_swap list_update_beyond)

lemma prune_loop_props:
  "prune_loop msk recs index cnt = (recs', cnt') \<Longrightarrow> index \<le> cnt \<Longrightarrow> cnt \<le> length recs \<Longrightarrow>
   list_all (\<lambda>r. \<not> masked_out msk r) (take index recs) \<Longrightarrow>
   length recs' = length recs \<and> cnt' \<le> cnt
   \<and> list_all (\<lambda>r. \<not> masked_out msk r) (take cnt' recs')
   \<and> mset (take cnt' recs') = filter_mset (\<lambda>r. \<not> masked_out msk r) (mset (take cnt recs))"
proof (induction msk recs index cnt rule: prune_loop.induct)
  case (1 msk recs index cnt)
  show ?case
  proof (cases "index < cnt")
    case False
    with "1.prems" have e: "recs' = recs" "cnt' = cnt" "index = cnt" by (auto simp: prune_loop.simps)
    with "1.prems"(4) have "filter_mset (\<lambda>r. \<not> masked_out msk r) (mset (take cnt recs)) = mset (take cnt recs)"
      by (simp add: list_all_iff filter_mset_eq_conv)
    with e "1.prems" show ?thesis by simp
  next
    case True
    note lt = True
    show ?thesis
    proof (cases "masked_out msk (recs ! index)")
      case False
      have "take (index + 1) recs = take index recs @ [recs ! index]"
        using lt "1.prems"(3) by (simp add: take_Suc_conv_app_nth)
      with False "1.prems"(4) have "list_all (\<lambda>r. \<not> masked_out msk r) (take (index + 1) recs)" by simp
      moreover have "prune_loop msk recs (index + 1) cnt = (recs', cnt')"
        using "1.prems"(1) lt False by (subst (asm) prune_loop.simps) simp
      ultimately show ?thesis using "1.IH"(2) [OF lt False] lt "1.prems"(3) by simp
    next
      case True
      define lst where "lst = cnt - 1"
      define recs1 where "recs1 = (if index \<noteq> lst
          then recs[index := recs ! lst, lst := replicate GX_FEATURE_POST_RECORD_BYTES 0] else recs)"
      have step: "prune_loop msk recs1 index lst = (recs', cnt')"
        using "1.prems"(1) lt True by (subst (asm) prune_loop.simps) (simp only: recs1_def lst_def Let_def if_True)
      have keep: "take index recs1 = take index recs"
        using lt by (simp add: recs1_def lst_def take_update_swap list_update_beyond)
      have len: "length recs1 = length recs" by (simp add: recs1_def)
      have whole: "take cnt recs = take lst recs @ [recs ! lst]"
        using lt "1.prems"(3) by (metis lst_def Suc_pred' gr_zeroI not_less_zero less_le_trans lessI take_Suc_conv_app_nth)
      have "add_mset (recs ! index) (mset (take lst recs1)) = mset (take cnt recs)"
      proof (cases "index = lst")
        case True
        then show ?thesis using whole by (simp add: recs1_def)
      next
        case False
        then have il: "index < lst" using lt by (simp add: lst_def)
        have e: "take lst recs1 = (take lst recs)[index := recs ! lst]"
          using take_update_last [of index cnt recs] il "1.prems"(3) False by (simp add: recs1_def lst_def)
        have "mset ((take lst recs)[index := recs ! lst])
            = add_mset (recs ! lst) (mset (take lst recs) - {#recs ! index#})"
          using il "1.prems"(3) by (simp add: mset_update lst_def)
        moreover have "recs ! index \<in># mset (take lst recs)"
          using il "1.prems"(3) by (auto simp: lst_def in_set_conv_nth)
        ultimately show ?thesis unfolding e whole by (simp add: add_mset_commute)
      qed
      then have "filter_mset (\<lambda>r. \<not> masked_out msk r) (mset (take cnt recs))
          = filter_mset (\<lambda>r. \<not> masked_out msk r) (mset (take lst recs1))"
        using True by (metis filter_mset_add_mset)
      moreover have "length recs' = length recs1 \<and> cnt' \<le> lst
          \<and> list_all (\<lambda>r. \<not> masked_out msk r) (take cnt' recs')
          \<and> mset (take cnt' recs') = filter_mset (\<lambda>r. \<not> masked_out msk r) (mset (take lst recs1))"
        using "1.IH"(1) [OF lt True lst_def recs1_def step] keep len lt "1.prems"(3,4) by (simp add: lst_def)
      moreover have "lst \<le> cnt" by (simp add: lst_def)
      ultimately show ?thesis using len by auto
    qed
  qed
qed

text \<open>
  Pruning. What remains in front are exactly the records whose pixel is not masked out, each as
  often as before; records outside the mask's rectangle are kept.
\<close>

theorem prune_keeps_unmasked:
  assumes "gx_feature_post_prune_mask recs cnt msk = Some (recs', cnt')" and "cnt \<le> length recs"
  shows "length recs' = length recs \<and> cnt' \<le> cnt
    \<and> list_all (\<lambda>r. \<not> masked_out msk r) (take cnt' recs')
    \<and> mset (take cnt' recs') = filter_mset (\<lambda>r. \<not> masked_out msk r) (mset (take cnt recs))"
  using assms prune_loop_props [of msk recs 0 cnt recs' cnt']
  by (simp add: gx_feature_post_prune_mask_def split: if_splits)

definition two_pixel_mask :: gx_feature_post_map where
  "two_pixel_mask = \<lparr>pm_width = 2, pm_height = 1, pm_pixels = [0, 1]\<rparr>"

theorem prune_keeps_unmasked_witness:
  "\<exists>recs' cnt'. gx_feature_post_prune_mask [[0, 0, 0, 0, 0, 0], [0, 0, 0, 1, 0, 0], [0, 0, 0, 9, 0, 0]] 3 two_pixel_mask
      = Some (recs', cnt')
    \<and> mset (take cnt' recs') = {#[0, 0, 0, 1, 0, 0], [0, 0, 0, 9, 0, 0]#}"
proof -
  let ?r = "[[0, 0, 0, 0, 0, 0], [0, 0, 0, 1, 0, 0], [0, 0, 0, 9, 0, 0]] :: u8 list list"
  obtain recs' cnt' where p: "gx_feature_post_prune_mask ?r 3 two_pixel_mask = Some (recs', cnt')"
    by (simp add: gx_feature_post_prune_mask_def two_pixel_mask_def GX_FEATURE_POST_MAX_RECORDS_def) (metis prod.exhaust)
  have "masked_out two_pixel_mask [0, 0, 0, 0, 0, 0]" "\<not> masked_out two_pixel_mask [0, 0, 0, 1, 0, 0]"
    "\<not> masked_out two_pixel_mask [0, 0, 0, 9, 0, 0]" by code_simp+
  with prune_keeps_unmasked [OF p] p show ?thesis by auto
qed

section \<open>Packed maps\<close>

definition gx_feature_post_packed_bytes :: "int \<Rightarrow> int \<Rightarrow> nat" where
  "gx_feature_post_packed_bytes width height =
     (if width \<le> 0 \<or> height \<le> 0 then 0 else (nat width + 7) div 8 * nat height)"

definition gx_feature_post_pack_map :: "gx_feature_post_map \<Rightarrow> u8 list \<Rightarrow> u8 list option" where
  "gx_feature_post_pack_map mp packed =
     (let required = gx_feature_post_packed_bytes (pm_width mp) (pm_height mp)
      in if required = 0 \<or> length packed < required then None
         else
           let w = nat (pm_width mp); h = nat (pm_height mp); stride = (w + 7) div 8;
               cleared = mem_write packed 0 (replicate required 0)
           in Some (mark_bits (\<lambda>i. pm_pixels mp ! i \<noteq> 0) (\<lambda>i. i div w * stride + i mod w div 8) (\<lambda>i. i mod w mod 8)
                [0..<w * h] cleared))"

lemma byte_column: "x < w \<Longrightarrow> x div 8 < (w + 7) div (8 :: nat)"
  by simp

text \<open>
  A packed map can be read back. Bit \<open>x mod 8\<close> of byte \<open>x div 8\<close> of row \<open>y\<close> says whether pixel
  \<open>(x, y)\<close> is set, whatever the buffer held before, and the buffer keeps its size.
\<close>

theorem packed_map_readable:
  assumes "gx_feature_post_pack_map mp packed = Some packed'" and "x < nat (pm_width mp)" and "y < nat (pm_height mp)"
  shows "bit (packed' ! (y * ((nat (pm_width mp) + 7) div 8) + x div 8)) (x mod 8)
      = (pix (nat (pm_width mp)) (pm_pixels mp) x y \<noteq> 0)
    \<and> length packed' = length packed"
proof -
  define w where "w = nat (pm_width mp)"
  define h where "h = nat (pm_height mp)"
  define stride where "stride = (w + 7) div 8"
  have xy: "x < w" "y < h" using assms(2,3) by (simp_all add: w_def h_def)
  have req: "gx_feature_post_packed_bytes (pm_width mp) (pm_height mp) = stride * h"
    using assms(2,3) by (simp add: gx_feature_post_packed_bytes_def w_def h_def stride_def)
  define cleared where "cleared = mem_write packed 0 (replicate (stride * h) 0)"
  have p: "packed' = mark_bits (\<lambda>i. pm_pixels mp ! i \<noteq> 0) (\<lambda>i. i div w * stride + i mod w div 8) (\<lambda>i. i mod w mod 8)
      [0..<w * h] cleared" and fits: "stride * h \<le> length packed"
    using assms(1) req by (auto simp: gx_feature_post_pack_map_def w_def h_def stride_def cleared_def Let_def split: if_splits)
  have len: "length cleared = length packed" using fits by (simp add: cleared_def)
  have xs: "x div 8 < stride" unfolding stride_def using xy(1) by (rule byte_column)
  have j: "y * stride + x div 8 < stride * h" using index_less [OF xs xy(2)] by simp
  then have zero: "cleared ! (y * stride + x div 8) = 0" using fits by (simp add: cleared_def mem_write_def nth_append)
  have unique: "i = y * w + x" if "i < w * h" "i div w * stride + i mod w div 8 = y * stride + x div 8"
    "i mod w mod 8 = x mod 8" for i
  proof -
    have m: "i mod w div 8 < stride" unfolding stride_def using coordinates [OF that(1)] by (intro byte_column) simp
    have "(i div w * stride + i mod w div 8) div stride = i div w" "(y * stride + x div 8) div stride = y"
      "(i div w * stride + i mod w div 8) mod stride = i mod w div 8" "(y * stride + x div 8) mod stride = x div 8"
      using m xs by simp_all
    with that(2) have "i div w = y" "i mod w div 8 = x div 8" by simp_all
    with that(3) show ?thesis by (metis div_mult_mod_eq)
  qed
  have mem: "y * w + x \<in> set [0..<w * h]" using index_less [OF xy] by simp
  have jl: "y * stride + x div 8 < length cleared" using j fits len by simp
  let ?i = "y * w + x"
  have at: "?i div w * stride + ?i mod w div 8 = y * stride + x div 8" "?i mod w mod 8 = x mod 8" using xy by simp_all
  have "bit (packed' ! (y * stride + x div 8)) (x mod 8) \<longleftrightarrow>
      (\<exists>i \<in> set [0..<w * h]. pm_pixels mp ! i \<noteq> 0 \<and> i div w * stride + i mod w div 8 = y * stride + x div 8
        \<and> i mod w mod 8 = x mod 8)"
    unfolding p by (subst bit_mark_bits [OF jl]) (simp_all add: zero)
  also have "\<dots> \<longleftrightarrow> pm_pixels mp ! ?i \<noteq> 0"
  proof
    assume "\<exists>i \<in> set [0..<w * h]. pm_pixels mp ! i \<noteq> 0 \<and> i div w * stride + i mod w div 8 = y * stride + x div 8
        \<and> i mod w mod 8 = x mod 8"
    then obtain i where i: "i < w * h" "pm_pixels mp ! i \<noteq> 0"
      "i div w * stride + i mod w div 8 = y * stride + x div 8" "i mod w mod 8 = x mod 8" by auto
    from unique [OF i(1,3,4)] i(2) show "pm_pixels mp ! ?i \<noteq> 0" by simp
  next
    assume "pm_pixels mp ! ?i \<noteq> 0"
    with mem at show "\<exists>i \<in> set [0..<w * h]. pm_pixels mp ! i \<noteq> 0
        \<and> i div w * stride + i mod w div 8 = y * stride + x div 8 \<and> i mod w mod 8 = x mod 8" by blast
  qed
  finally have "bit (packed' ! (y * stride + x div 8)) (x mod 8) \<longleftrightarrow> pm_pixels mp ! ?i \<noteq> 0" .
  then show ?thesis using len p by (simp add: pix_def w_def stride_def)
qed

theorem packed_map_readable_witness:
  "\<exists>packed'. gx_feature_post_pack_map two_pixel_mask [0xff, 0xee] = Some packed' \<and> bit (packed' ! 0) 1 \<and> length packed' = 2"
proof -
  obtain packed' where p: "gx_feature_post_pack_map two_pixel_mask [0xff, 0xee] = Some packed'"
    by (simp add: gx_feature_post_pack_map_def two_pixel_mask_def gx_feature_post_packed_bytes_def)
  from packed_map_readable [OF p, of 1 0] p show ?thesis by (simp add: two_pixel_mask_def pix_def)
qed

end
