(* ===== verification/Compact.thy ===== *)
theory Compact
  imports Postprocess
begin

text \<open>
  Quarter-size maps (\<open>src/gx_feature_compact.c\<close>): each 4 by 4 block of a map becomes one bit, set when at
  least half of the block is; the bits are packed, and expanded again for display or comparison.
\<close>

definition GX_FEATURE_COMPACT_BUILD_BYTES :: nat where "GX_FEATURE_COMPACT_BUILD_BYTES = 200"
definition GX_FEATURE_COMPACT_MAX_CELLS :: nat where "GX_FEATURE_COMPACT_MAX_CELLS = 4096"

definition gx_ceil_div4_i32 :: "int \<Rightarrow> nat" where
  "gx_ceil_div4_i32 value = (nat value + 3) div 4"

definition gx_feature_compact_linear_bytes :: "nat \<Rightarrow> nat" where
  "gx_feature_compact_linear_bytes value_count = (value_count + 7) div 8"

text \<open>Up to eight values, each shifted to its bit.\<close>

definition packed_byte :: "u8 list \<Rightarrow> u8" where
  "packed_byte vs = foldl (\<lambda>value i. value OR push_bit i (vs ! i)) 0 [0..<length vs]"

definition gx_feature_compact_pack_linear :: "u8 list \<Rightarrow> u8 list \<Rightarrow> u8 list option" where
  "gx_feature_compact_pack_linear values packed =
     (let n = length values; required = gx_feature_compact_linear_bytes n; full_bytes = n div 8
      in if n = 0 then Some packed
         else if required = 0 \<or> length packed < required then None
         else
           let full = map (\<lambda>i. packed_byte (take 8 (drop (i * 8) values))) [0..<full_bytes];
               tail = (if n mod 8 \<noteq> 0 then [packed_byte (drop (full_bytes * 8) values)] else [])
           in Some (mem_write packed 0 (full @ tail)))"

text \<open>One cell: the pixels of its block inside the image.\<close>

definition block_pixels :: "u8 list \<Rightarrow> nat \<Rightarrow> nat \<Rightarrow> nat \<Rightarrow> nat \<Rightarrow> nat \<Rightarrow> u8 list" where
  "block_pixels pixels width height stride cx cy =
     concat (map (\<lambda>y. map (\<lambda>x. pixels ! (y * stride + x)) [cx * 4..<min (cx * 4 + 4) width])
       [cy * 4..<min (cy * 4 + 4) height])"

definition block_cell :: "u8 list \<Rightarrow> u8" where
  "block_cell block =
     (let (s, n) = foldl (\<lambda>(s, n) p. (s + ucast p, n + 1)) (0 :: u32, 0 :: u32) block
      in if n \<le> s * 2 then 1 else 0)"

definition gx_feature_compact_build_quarter :: "u8 list \<Rightarrow> int \<Rightarrow> int \<Rightarrow> int \<Rightarrow> u8 list \<Rightarrow> u8 list option" where
  "gx_feature_compact_build_quarter pixels width height row_stride output =
     (if width \<le> 0 \<or> height \<le> 0 \<or> row_stride < width then None
      else
        let cw = gx_ceil_div4_i32 width; ch = gx_ceil_div4_i32 height;
            cells_n = cw * ch; packed_n = gx_feature_compact_linear_bytes cells_n
        in if cells_n = 0 \<or> cells_n > GX_FEATURE_COMPACT_MAX_CELLS
              \<or> packed_n = 0 \<or> packed_n > GX_FEATURE_COMPACT_BUILD_BYTES
           then None
           else
             let cells = raster cw ch (\<lambda>cx cy.
                   block_cell (block_pixels pixels (nat width) (nat height) (nat row_stride) cx cy))
             in gx_feature_compact_pack_linear cells
                  (mem_write output 0 (replicate GX_FEATURE_COMPACT_BUILD_BYTES 0xff)))"

text \<open>Bit \<open>i\<close> of a packed array.\<close>

definition packed_bit :: "u8 list \<Rightarrow> nat \<Rightarrow> u8" where
  "packed_bit packed i = drop_bit (i mod 8) (packed ! (i div 8)) AND 1"

definition gx_feature_compact_expand ::
    "u8 list \<Rightarrow> int \<Rightarrow> int \<Rightarrow> int \<Rightarrow> u8 list \<Rightarrow> (u8 list \<times> int \<times> int) option" where
  "gx_feature_compact_expand packed mode full_width full_height output =
     (if full_width \<le> 0 \<or> full_height \<le> 0 then None
      else
        let cw = gx_ceil_div4_i32 full_width; ch = gx_ceil_div4_i32 full_height;
            required = gx_feature_compact_linear_bytes (cw * ch)
        in if required = 0 \<or> length packed < required then None
           else
             let (factor, width, height) =
                   (if mode = 1 then (2, full_width div 2, full_height div 2) else (4, full_width, full_height))
             in if width \<le> 0 \<or> height \<le> 0 then None
                else if length output < nat width * nat height then None
                else Some (mem_write output 0 (raster (nat width) (nat height)
                             (\<lambda>x y. packed_bit packed (y div factor * cw + x div factor))), width, height))"

section \<open>Reading packed bits\<close>

lemma bit_packed_byte:
  assumes "\<forall>v \<in> set vs. v = 0 \<or> v = 1" and "length vs \<le> 8" and "i < length vs"
  shows "bit (packed_byte vs) i \<longleftrightarrow> vs ! i = 1"
proof -
  have "n \<le> length vs \<Longrightarrow> bit (foldl (\<lambda>value i. value OR push_bit i (vs ! i)) (0 :: u8) [0..<n]) i \<longleftrightarrow> i < n \<and> vs ! i = 1" for n
  proof (induction n)
    case (Suc n)
    have "vs ! n = 0 \<or> vs ! n = 1" using assms(1) Suc.prems by simp
    then have "bit (push_bit n (vs ! n)) i \<longleftrightarrow> i = n \<and> vs ! n = 1"
      using assms(2,3) by (auto simp: bit_simps)
    with Suc show ?case by (auto simp: bit_simps less_Suc_eq)
  qed simp
  from this [of "length vs"] assms(3) show ?thesis by (simp add: packed_byte_def)
qed

lemma packed_bit_value: "bit (packed ! (i div 8)) (i mod 8) = b \<Longrightarrow> packed_bit packed i = (if b then 1 else 0)"
proof -
  assume b: "bit (packed ! (i div 8)) (i mod 8) = b"
  have "drop_bit (i mod 8) (packed ! (i div 8)) AND 1 = of_bool (odd (drop_bit (i mod 8) (packed ! (i div 8))))"
    by (simp add: and_one_eq mod_2_eq_odd)
  also have "odd (drop_bit (i mod 8) (packed ! (i div 8))) = b"
    using b by (simp add: bit_iff_odd_drop_bit)
  finally show ?thesis by (simp add: packed_bit_def)
qed

lemma pack_linear_bits:
  assumes "gx_feature_compact_pack_linear values packed = Some packed'"
    and "\<forall>v \<in> set values. v = 0 \<or> v = 1" and "i < length values"
  shows "packed_bit packed' i = values ! i"
proof -
  let ?n = "length values" and ?k = "length values div 8"
  define full where "full = map (\<lambda>i. packed_byte (take 8 (drop (i * 8) values))) [0..<?k]"
  define tail where "tail = (if ?n mod 8 \<noteq> 0 then [packed_byte (drop (?k * 8) values)] else [])"
  have p: "packed' = mem_write packed 0 (full @ tail)"
    using assms(1,3) by (auto simp: gx_feature_compact_pack_linear_def full_def tail_def Let_def split: if_splits)
  have byte: "packed' ! (i div 8) = packed_byte (take 8 (drop (i div 8 * 8) values))"
  proof (cases "i div 8 < ?k")
    case True
    then show ?thesis by (simp add: p mem_write_def nth_append full_def)
  next
    case False
    then have k: "i div 8 = ?k" using assms(3) div_le_mono [of i ?n 8] by linarith
    have "?n mod 8 \<noteq> 0" using assms(3) k by (metis div_mult_mod_eq add.right_neutral div_times_less_eq_dividend not_less)
    moreover have "take 8 (drop (?k * 8) values) = drop (?k * 8) values"
    proof -
      have "?n - ?k * 8 < 8" by (metis minus_div_mult_eq_mod mod_less_divisor zero_less_numeral)
      then show ?thesis by simp
    qed
    ultimately show ?thesis by (simp add: p k mem_write_def nth_append full_def tail_def)
  qed
  have j: "i mod 8 < length (take 8 (drop (i div 8 * 8) values))"
    using assms(3) by (simp add: less_diff_conv mult.commute)
  have "bit (packed' ! (i div 8)) (i mod 8) \<longleftrightarrow> take 8 (drop (i div 8 * 8) values) ! (i mod 8) = 1"
    unfolding byte by (rule bit_packed_byte) (use assms(2) j in \<open>auto dest!: in_set_takeD in_set_dropD\<close>)
  also have "take 8 (drop (i div 8 * 8) values) ! (i mod 8) = values ! i"
    using j by (simp add: mult.commute)
  finally have "packed_bit packed' i = (if values ! i = 1 then 1 else 0)" by (rule packed_bit_value)
  then show ?thesis using assms(2,3) nth_mem by fastforce
qed

section \<open>Round trip\<close>

lemma block_sums:
  "set block \<subseteq> {v} \<Longrightarrow> foldl (\<lambda>(s, n) p. (s + ucast p, n + 1)) (a :: u32, b :: u32) block
     = (a + of_nat (length block) * ucast (v :: u8), b + of_nat (length block))"
  by (induction block arbitrary: a b) (auto simp: algebra_simps)

lemma block_cell_flat:
  assumes "block \<noteq> []" and "length block \<le> 16" and "set block \<subseteq> {v}" and "v = 0 \<or> v = 1"
  shows "block_cell block = v"
proof -
  let ?n = "of_nat (length block) :: u32"
  have n: "unat ?n = length block" using assms(2) by (simp add: unat_of_nat)
  have "\<not> ?n \<le> 0" using assms(1) n by (metis length_0_conv unat_eq_zero word_le_0_iff)
  moreover have "?n \<le> ?n * 2"
    using n assms(2) by (simp add: word_le_nat_alt unat_mult_lem [THEN iffD1])
  ultimately show ?thesis
    using assms(4) by (auto simp: block_cell_def block_sums [OF assms(3)])
qed

lemma block_pixels_flat:
  assumes "x < w" "y < h" and "\<And>x' y'. x' < w \<Longrightarrow> y' < h \<Longrightarrow> x' div 4 = x div 4 \<Longrightarrow> y' div 4 = y div 4 \<Longrightarrow>
      pixels ! (y' * stride + x') = v"
  shows "block_pixels pixels w h stride (x div 4) (y div 4) \<noteq> []
    \<and> length (block_pixels pixels w h stride (x div 4) (y div 4)) \<le> 16
    \<and> set (block_pixels pixels w h stride (x div 4) (y div 4)) \<subseteq> {v}"
proof (intro conjI)
  let ?xs = "[x div 4 * 4..<min (x div 4 * 4 + 4) w]" and ?ys = "[y div 4 * 4..<min (y div 4 * 4 + 4) h]"
  have x0: "x div 4 * 4 \<in> set ?xs" using assms(1) by (auto simp: le_less_trans [OF div_times_less_eq_dividend])
  have y0: "y div 4 * 4 \<in> set ?ys" using assms(2) by (auto simp: le_less_trans [OF div_times_less_eq_dividend])
  show "block_pixels pixels w h stride (x div 4) (y div 4) \<noteq> []"
    using x0 y0 by (auto simp: block_pixels_def simp del: set_upt upt_eq_Nil_conv)
  have "length (block_pixels pixels w h stride (x div 4) (y div 4)) = length ?xs * length ?ys"
    by (simp add: block_pixels_def length_concat comp_def sum_list_triv)
  also have "\<dots> \<le> 4 * 4" by (rule mult_le_mono) simp_all
  finally show "length (block_pixels pixels w h stride (x div 4) (y div 4)) \<le> 16" by simp
  have "a div 4 = b div 4" if "b div 4 * 4 \<le> a" "a < b div 4 * 4 + 4" for a b :: nat
    using that by (simp add: div_nat_eqI)
  then show "set (block_pixels pixels w h stride (x div 4) (y div 4)) \<subseteq> {v}"
    using assms(3) by (auto simp: block_pixels_def)
qed

lemma ceil_div4: "0 < w \<Longrightarrow> x < nat w \<Longrightarrow> x div 4 < gx_ceil_div4_i32 w"
  by (simp add: gx_ceil_div4_i32_def)

lemma packed_bytes_enough: "n mod 8 \<noteq> 0 \<Longrightarrow> Suc (n div 8) \<le> (n + 7) div (8 :: nat)"
  "n div 8 \<le> (n + 7) div (8 :: nat)"
  by presburger+

lemma pack_linear_length:
  "gx_feature_compact_pack_linear values packed = Some packed' \<Longrightarrow> length packed' = length packed"
  using packed_bytes_enough [of "length values"]
  by (auto simp: gx_feature_compact_pack_linear_def gx_feature_compact_linear_bytes_def Let_def split: if_splits)

lemma pack_linear_succeeds:
  "gx_feature_compact_linear_bytes (length values) \<le> length packed \<Longrightarrow>
   \<exists>packed'. gx_feature_compact_pack_linear values packed = Some packed'"
  by (cases "values") (auto simp: gx_feature_compact_pack_linear_def gx_feature_compact_linear_bytes_def Let_def)

text \<open>
  C27: packing loses nothing that is there. A map of zeros and ones that is constant on its 4 by 4 blocks
  (the clipped ones at the right and bottom edge included) comes back unchanged when it is packed to
  quarter size and expanded again.
\<close>

theorem compact_round_trip:
  assumes "gx_feature_compact_build_quarter pixels width height stride output = Some packed"
    and "length output = GX_FEATURE_COMPACT_BUILD_BYTES" and "length dest = nat width * nat height" and "mode \<noteq> 1"
    and "\<And>x y. x < nat width \<Longrightarrow> y < nat height \<Longrightarrow>
          pixels ! (y * nat stride + x) \<in> {0, 1}
          \<and> pixels ! (y * nat stride + x) = pixels ! (y div 4 * 4 * nat stride + x div 4 * 4)"
  shows "gx_feature_compact_expand packed mode width height dest
     = Some (raster (nat width) (nat height) (\<lambda>x y. pixels ! (y * nat stride + x)), width, height)"
proof -
  define w where "w = nat width"
  define h where "h = nat height"
  define cw where "cw = gx_ceil_div4_i32 width"
  define ch where "ch = gx_ceil_div4_i32 height"
  define cells where "cells = raster cw ch (\<lambda>cx cy. block_cell (block_pixels pixels w h (nat stride) cx cy))"
  have dims: "0 < width" "0 < height" and small: "gx_feature_compact_linear_bytes (cw * ch) \<noteq> 0"
    "gx_feature_compact_linear_bytes (cw * ch) \<le> GX_FEATURE_COMPACT_BUILD_BYTES"
    and pk: "gx_feature_compact_pack_linear cells
      (mem_write output 0 (replicate GX_FEATURE_COMPACT_BUILD_BYTES 0xff)) = Some packed"
    using assms(1) by (auto simp: gx_feature_compact_build_quarter_def cw_def ch_def cells_def w_def h_def Let_def
        split: if_splits)
  have len: "length packed = GX_FEATURE_COMPACT_BUILD_BYTES"
    using pack_linear_length [OF pk] assms(2) by (simp add: mem_write_def)
  have cell: "block_cell (block_pixels pixels w h (nat stride) (x div 4) (y div 4)) = pixels ! (y * nat stride + x)"
    if xy: "x < w" "y < h" for x y
  proof -
    have same: "pixels ! (y' * nat stride + x') = pixels ! (y * nat stride + x)"
      if "x' < w" "y' < h" "x' div 4 = x div 4" "y' div 4 = y div 4" for x' y'
      using assms(5) [of x' y'] assms(5) [of x y] that xy by (simp add: w_def h_def)
    note b = block_pixels_flat [OF xy same]
    have "pixels ! (y * nat stride + x) \<in> {0, 1}" using assms(5) xy unfolding w_def h_def by blast
    then have v: "pixels ! (y * nat stride + x) = 0 \<or> pixels ! (y * nat stride + x) = 1" by simp
    show ?thesis by (rule block_cell_flat [OF _ _ _ v]) (use b in blast)+
  qed
  have bits: "packed_bit packed (y div 4 * cw + x div 4) = pixels ! (y * nat stride + x)" if xy: "x < w" "y < h" for x y
  proof -
    have c: "x div 4 < cw" "y div 4 < ch"
      using xy dims by (auto simp: w_def h_def cw_def ch_def intro!: ceil_div4)
    have i: "y div 4 * cw + x div 4 < length cells" using index_less [OF c] by (simp add: cells_def)
    have "packed_bit packed (y div 4 * cw + x div 4) = cells ! (y div 4 * cw + x div 4)"
    proof (rule pack_linear_bits [OF pk _ i])
      show "\<forall>v \<in> set cells. v = 0 \<or> v = 1"
        by (auto simp: cells_def set_raster block_cell_def Let_def split_beta)
    qed
    also have "\<dots> = pix cw cells (x div 4) (y div 4)" by (simp add: pix_def)
    also have "\<dots> = pixels ! (y * nat stride + x)" using c cell [OF xy] by (simp add: cells_def)
    finally show ?thesis .
  qed
  have "raster w h (\<lambda>x y. packed_bit packed (y div 4 * cw + x div 4)) = raster w h (\<lambda>x y. pixels ! (y * nat stride + x))"
    by (rule raster_cong) (rule bits)
  moreover have "mem_write dest 0 (raster w h f) = raster w h f" for f :: "nat \<Rightarrow> nat \<Rightarrow> u8"
    using assms(3) by (simp add: mem_write_def w_def h_def)
  ultimately show ?thesis
    using dims small len assms(3,4)
    by (simp add: gx_feature_compact_expand_def w_def h_def cw_def ch_def Let_def)
qed

text \<open>A map of five by one pixels: one whole block and a clipped one.\<close>

theorem compact_round_trip_witness:
  "\<exists>packed. gx_feature_compact_build_quarter [1, 1, 1, 1, 0] 5 1 5 (replicate GX_FEATURE_COMPACT_BUILD_BYTES 0) = Some packed
    \<and> gx_feature_compact_expand packed 0 5 1 [9, 9, 9, 9, 9] = Some ([1, 1, 1, 1, 0], 5, 1)"
proof -
  let ?p = "[1, 1, 1, 1, 0] :: u8 list"
  let ?cells = "raster 2 1 (\<lambda>cx cy. block_cell (block_pixels ?p 5 1 5 cx cy))"
  obtain packed where "gx_feature_compact_pack_linear ?cells (mem_write (replicate 200 0) 0 (replicate 200 0xff)) = Some packed"
    using pack_linear_succeeds [of ?cells "mem_write (replicate 200 0) 0 (replicate 200 0xff)"]
    by (auto simp: gx_feature_compact_linear_bytes_def)
  then have b: "gx_feature_compact_build_quarter ?p 5 1 5 (replicate GX_FEATURE_COMPACT_BUILD_BYTES 0) = Some packed"
    by (simp add: gx_feature_compact_build_quarter_def gx_ceil_div4_i32_def gx_feature_compact_linear_bytes_def
        GX_FEATURE_COMPACT_MAX_CELLS_def GX_FEATURE_COMPACT_BUILD_BYTES_def)
  have flat: "?p ! (y * nat 5 + x) \<in> {0, 1} \<and> ?p ! (y * nat 5 + x) = ?p ! (y div 4 * 4 * nat 5 + x div 4 * 4)"
    if "x < nat 5" "y < nat 1" for x y
  proof -
    have "x \<in> {0, 1, 2, 3, 4}" "y = 0" using that by auto
    then show ?thesis by auto
  qed
  have "gx_feature_compact_expand packed 0 5 1 [9, 9, 9, 9, 9]
      = Some (raster (nat 5) (nat 1) (\<lambda>x y. ?p ! (y * nat 5 + x)), 5, 1)"
    by (rule compact_round_trip [OF b _ _ _ flat]) simp_all
  moreover have "raster (nat 5) (nat 1) (\<lambda>x y. ?p ! (y * nat 5 + x)) = ?p"
    by (simp add: raster_def upt_rec)
  ultimately show ?thesis using b by simp
qed

end
