(* ===== verification/Lifecycle.thy ===== *)
theory Lifecycle
  imports Images
begin

text \<open>
  Image descriptors (\<open>src/gx_feature_descriptor_lifecycle.c\<close>, the struct in \<open>feature_pyramid.h\<close>) and the
  feature object that owns them (\<open>src/gx_feature_object.c\<close>). A descriptor and its pixels are one heap block;
  the object is a block with ten owning pointers. What counts is that every block is given back.
\<close>

section \<open>Image descriptors\<close>

text \<open>
  The pixels are a list of values of the element type, or of bytes when they are packed bits (type 8).
  \<open>im_element_count\<close> holds the length of the pixels in bytes.
\<close>

record 'p gx_feature_pyramid_image =
  im_width :: int
  im_height :: int
  im_reserved_08 :: int
  im_element_count :: int
  im_element_bytes :: int
  im_pixels :: "'p list"

definition INT32_MAX :: int where "INT32_MAX = 2147483647"
definition GX_FEATURE_DESCRIPTOR_HEADER_BYTES :: nat where "GX_FEATURE_DESCRIPTOR_HEADER_BYTES = 32"
definition GX_FEATURE_DESCRIPTOR_RELEASE_INVALID :: u32 where
  "GX_FEATURE_DESCRIPTOR_RELEASE_INVALID = 0x80000002"

definition compute_layout :: "int \<Rightarrow> int \<Rightarrow> int \<Rightarrow> (int \<times> int) option" where
  "compute_layout width height element_type =
     (if width \<le> 0 \<or> height \<le> 0 \<or> element_type \<le> 0 then None
      else
        let pixels = width * height
        in if pixels \<le> 0 \<or> pixels > INT32_MAX then None
           else if element_type = 8
           then (let bytes = (pixels + 7) div 8
                 in if bytes \<le> 0 \<or> bytes > INT32_MAX then None else Some (- 1, bytes))
           else
             let stride = width * element_type;
                 bytes = pixels * element_type
             in if stride \<le> 0 \<or> stride > INT32_MAX then None
                else if bytes \<le> 0 \<or> bytes > INT32_MAX then None
                else Some (stride, bytes))"

text \<open>The contents of a fresh block are whatever \<open>malloc\<close> left there: the argument \<open>junk\<close>.\<close>

definition gx_feature_descriptor_allocate ::
    "environment \<Rightarrow> (nat \<Rightarrow> 'p) \<Rightarrow> int \<Rightarrow> int \<Rightarrow> int \<Rightarrow> history \<Rightarrow>
     'p gx_feature_pyramid_image option \<times> history" where
  "gx_feature_descriptor_allocate env junk width height element_type h =
     (case compute_layout width height element_type of
        None \<Rightarrow> (None, h)
      | Some (reserved_08, byte_length) \<Rightarrow>
          let (r, h1) = ext_do env (Malloc (GX_FEATURE_DESCRIPTOR_HEADER_BYTES + nat byte_length)) h
          in if isl (reply_rc r) then (None, h1)
             else (Some \<lparr>im_width = width, im_height = height, im_reserved_08 = reserved_08,
                         im_element_count = byte_length, im_element_bytes = element_type,
                         im_pixels = map junk [0..<if element_type = 8 then nat byte_length
                                                   else nat (width * height)]\<rparr>, h1))"

definition gx_feature_descriptor_release ::
    "environment \<Rightarrow> 'p gx_feature_pyramid_image option \<Rightarrow> history \<Rightarrow>
     u32 \<times> 'p gx_feature_pyramid_image option \<times> history" where
  "gx_feature_descriptor_release env descriptor h =
     (case descriptor of
        None \<Rightarrow> (GX_FEATURE_DESCRIPTOR_RELEASE_INVALID, None, h)
      | Some d \<Rightarrow> (0, None, snd (ext_do env Free h)))"

lemma compute_layout_Some:
  assumes "compute_layout w h t = Some (r, b)"
  shows "0 < w \<and> 0 < h \<and> 0 < t \<and> 0 < b \<and> b \<le> INT32_MAX
    \<and> b = (if t = 8 then (w * h + 7) div 8 else w * h * t) \<and> r = (if t = 8 then - 1 else w * t)"
  using assms by (auto simp: compute_layout_def Let_def split: if_splits)

definition blocks_of :: "'b option \<Rightarrow> int" where
  "blocks_of p = (if p = None then 0 else 1)"

lemma blocks_of_simps [simp]: "blocks_of None = 0" "blocks_of (Some b) = 1"
  by (simp_all add: blocks_of_def)

lemma allocate_blocks:
  "gx_feature_descriptor_allocate env junk w h t hist = (d, hist') \<Longrightarrow>
   live_blocks env hist' = live_blocks env hist + blocks_of d"
  by (auto simp: gx_feature_descriptor_allocate_def ext_do_def Let_def split: option.splits if_splits)

lemma release_blocks:
  "gx_feature_descriptor_release env d hist = (rc, d', hist') \<Longrightarrow>
   d' = None \<and> (rc = 0 \<longleftrightarrow> d \<noteq> None) \<and> live_blocks env hist' = live_blocks env hist - blocks_of d"
  by (auto simp: gx_feature_descriptor_release_def GX_FEATURE_DESCRIPTOR_RELEASE_INVALID_def
      split: option.splits)

lemma release_blocks_simp [simp]:
  "live_blocks env (snd (snd (gx_feature_descriptor_release env d h))) = live_blocks env h - blocks_of d"
  using release_blocks by (metis prod.collapse)

section \<open>The self test of the descriptors\<close>

definition validate_descriptor ::
    "'p gx_feature_pyramid_image option \<Rightarrow> int \<Rightarrow> int \<Rightarrow> int \<Rightarrow> int \<Rightarrow> int \<Rightarrow> bool" where
  "validate_descriptor descriptor width height reserved_08 byte_length element_type =
     (case descriptor of
        None \<Rightarrow> False
      | Some d \<Rightarrow> im_width d = width \<and> im_height d = height \<and> im_reserved_08 d = reserved_08
          \<and> im_element_count d = byte_length \<and> im_element_bytes d = element_type)"

text \<open>One case: allocate, check, release; a descriptor that fails its check is released all the same.\<close>

definition layout_case ::
    "environment \<Rightarrow> int \<Rightarrow> int \<Rightarrow> int \<Rightarrow> int \<Rightarrow> int \<Rightarrow> history \<Rightarrow> bool \<times> history" where
  "layout_case env w ht t reserved_08 byte_length h =
     (let (d, h1) = gx_feature_descriptor_allocate env (\<lambda>_. 0 :: u8) w ht t h
      in if \<not> validate_descriptor d w ht reserved_08 byte_length t
         then (False, if d \<noteq> None then snd (snd (gx_feature_descriptor_release env d h1)) else h1)
         else
           let (rc, d', h2) = gx_feature_descriptor_release env d h1
           in (rc = 0 \<and> d' = None, h2))"

fun layout_cases ::
    "environment \<Rightarrow> (int \<times> int \<times> int \<times> int \<times> int) list \<Rightarrow> history \<Rightarrow> bool \<times> history" where
  "layout_cases env [] h = (True, h)"
| "layout_cases env ((w, ht, t, r, b) # cs) h =
     (let (ok, h1) = layout_case env w ht t r b h
      in if ok then layout_cases env cs h1 else (False, h1))"

definition valid_layouts :: "(int \<times> int \<times> int \<times> int \<times> int) list" where
  "valid_layouts = [(7, 5, 1, 7, 35), (7, 5, 2, 14, 70), (7, 5, 4, 28, 140), (9, 3, 8, - 1, 4)]"

definition invalid_layouts :: "(int \<times> int \<times> int) list" where
  "invalid_layouts = [(0, 5, 1), (5, 0, 1), (5, 5, 0), (INT32_MAX, INT32_MAX, 4)]"

fun allocate_all ::
    "environment \<Rightarrow> (int \<times> int \<times> int) list \<Rightarrow> history \<Rightarrow> u8 gx_feature_pyramid_image option list \<times> history" where
  "allocate_all env [] h = ([], h)"
| "allocate_all env ((w, ht, t) # cs) h =
     (let (d, h1) = gx_feature_descriptor_allocate env (\<lambda>_. 0) w ht t h;
          (ds, h2) = allocate_all env cs h1
      in (d # ds, h2))"

definition gx_feature_descriptor_lifecycle_selftest :: "environment \<Rightarrow> history \<Rightarrow> int \<times> history" where
  "gx_feature_descriptor_lifecycle_selftest env h =
     (let (ok, h1) = layout_cases env valid_layouts h
      in if \<not> ok then (- 1, h1)
         else if fst (gx_feature_descriptor_release env (None :: u8 gx_feature_pyramid_image option) h1)
                 \<noteq> GX_FEATURE_DESCRIPTOR_RELEASE_INVALID
         then (- 1, h1)
         else
           let (invalid, h2) = allocate_all env invalid_layouts h1
           in case find (\<lambda>d. d \<noteq> None) invalid of
                None \<Rightarrow> (0, h2)
              | Some d \<Rightarrow> (- 1, snd (snd (gx_feature_descriptor_release env d h2))))"

lemma layout_case_blocks:
  "layout_case env w ht t r b h = (ok, h') \<Longrightarrow> live_blocks env h' = live_blocks env h"
proof -
  assume a: "layout_case env w ht t r b h = (ok, h')"
  obtain d h1 where al: "gx_feature_descriptor_allocate env (\<lambda>_. 0 :: u8) w ht t h = (d, h1)" by (rule prod.exhaust)
  from a have "h' = (if d = None then h1 else snd (snd (gx_feature_descriptor_release env d h1)))"
    by (auto simp: layout_case_def al validate_descriptor_def split: if_splits option.splits prod.splits)
  with allocate_blocks [OF al] show ?thesis by simp
qed

lemma layout_cases_blocks:
  "layout_cases env cs h = (ok, h') \<Longrightarrow> live_blocks env h' = live_blocks env h"
proof (induction env cs h rule: layout_cases.induct)
  case (2 env w ht t r b cs h)
  then show ?case using layout_case_blocks by (fastforce simp: Let_def split: prod.splits if_splits)
qed simp

lemma layout_case_passes:
  assumes "\<And>g n. \<not> isl (reply_rc (env g (Malloc n)))"
    and "compute_layout w ht t = Some (r, b)"
  shows "fst (layout_case env w ht t r b h)"
  using assms
  by (simp add: layout_case_def gx_feature_descriptor_allocate_def validate_descriptor_def
      gx_feature_descriptor_release_def ext_do_def Let_def)

lemma invalid_rejected: "allocate_all env invalid_layouts h = ([None, None, None, None], h)"
  by (simp add: invalid_layouts_def gx_feature_descriptor_allocate_def compute_layout_def INT32_MAX_def)

lemma selftest_blocks:
  "live_blocks env (snd (gx_feature_descriptor_lifecycle_selftest env h)) = live_blocks env h"
  using layout_cases_blocks [of env valid_layouts h]
  by (cases "layout_cases env valid_layouts h")
    (simp add: gx_feature_descriptor_lifecycle_selftest_def invalid_rejected)

lemma lifecycle_selftest_passes:
  assumes "\<And>g n. \<not> isl (reply_rc (env g (Malloc n)))"
  shows "fst (gx_feature_descriptor_lifecycle_selftest env h) = 0"
proof -
  have "fst (layout_cases env cs g)"
    if "\<forall>(w, ht, t, r, b) \<in> set cs. compute_layout w ht t = Some (r, b)" for cs g
    using that
  proof (induction cs arbitrary: g)
    case (Cons c cs)
    obtain w ht t r b where c: "c = (w, ht, t, r, b)" by (rule prod_cases5)
    with Cons.prems have "fst (layout_case env w ht t r b g)" by (intro layout_case_passes assms) simp
    then show ?case using Cons c by (simp add: split_beta)
  qed simp
  moreover have "\<forall>(w, ht, t, r, b) \<in> set valid_layouts. compute_layout w ht t = Some (r, b)"
    by (simp add: compute_layout_def INT32_MAX_def valid_layouts_def)
  ultimately have "fst (layout_cases env valid_layouts h)" by blast
  then show ?thesis
    by (simp add: gx_feature_descriptor_lifecycle_selftest_def gx_feature_descriptor_release_def
        invalid_rejected split_beta)
qed

section \<open>Feature objects\<close>

text \<open>
  The object of 0x230 bytes: its scalars and its owning pointers. \<open>fo_descriptors\<close> are the five
  descriptor slots, at the offsets 0x008, 0x010, 0x018, 0x020 and 0x130; \<open>fo_heap\<close> the five plain blocks:
  records, auxiliary map and the three output maps.
\<close>

record gx_feature_object =
  fo_width :: u32
  fo_height :: u32
  fo_descriptors :: "u8 gx_feature_pyramid_image option list"
  fo_record_count :: u32
  fo_zero_class :: u32
  fo_metric :: u32
  fo_positive_percent :: u32
  fo_map_state :: u32
  fo_nonpositive :: u32
  fo_record_quality :: "u8 list"
  fo_heap :: "u8 list option list"

definition GX_FEATURE_OBJECT_BYTES :: nat where "GX_FEATURE_OBJECT_BYTES = 0x230"
definition GX_FEATURE_OBJECT_RECORD_BYTES :: nat where "GX_FEATURE_OBJECT_RECORD_BYTES = 0x3c"
definition GX_FEATURE_OBJECT_DESCRIPTOR_SLOT_COUNT :: nat where "GX_FEATURE_OBJECT_DESCRIPTOR_SLOT_COUNT = 5"
definition GX_FEATURE_OBJECT_HEAP_FIELD_COUNT :: nat where "GX_FEATURE_OBJECT_HEAP_FIELD_COUNT = 5"

definition RECORD_ARRAY :: nat where "RECORD_ARRAY = 0"
definition AUX_MAP :: nat where "AUX_MAP = 1"
definition OUTPUT_MAP0 :: nat where "OUTPUT_MAP0 = 2"

definition zero_object :: gx_feature_object where
  "zero_object = \<lparr>fo_width = 0, fo_height = 0,
     fo_descriptors = replicate GX_FEATURE_OBJECT_DESCRIPTOR_SLOT_COUNT None,
     fo_record_count = 0, fo_zero_class = 0, fo_metric = 0, fo_positive_percent = 0, fo_map_state = 0,
     fo_nonpositive = 0, fo_record_quality = replicate 0xb4 0,
     fo_heap = replicate GX_FEATURE_OBJECT_HEAP_FIELD_COUNT None\<rparr>"

record gx_feature_object_callbacks =
  allocate :: "nat \<Rightarrow> history \<Rightarrow> u8 list option \<times> history"
  deallocate :: "history \<Rightarrow> history"
  release_descriptor ::
    "u8 gx_feature_pyramid_image option \<Rightarrow> history \<Rightarrow> u32 \<times> u8 gx_feature_pyramid_image option \<times> history"

record gx_feature_object_release_stats =
  descriptor_slots_released :: nat
  heap_fields_released :: nat
  object_released :: nat

definition gx_feature_object_create ::
    "gx_feature_object_callbacks \<Rightarrow> gx_feature_object option \<Rightarrow> u32 \<Rightarrow> history \<Rightarrow>
     bool \<times> gx_feature_object option \<times> history" where
  "gx_feature_object_create cb handle max_records h =
     (if handle \<noteq> None \<or> max_records = 0 then (False, handle, h)
      else
        let (object, h1) = allocate cb GX_FEATURE_OBJECT_BYTES h
        in if object = None then (False, handle, h1)
           else
             let (records, h2) = allocate cb (unat max_records * GX_FEATURE_OBJECT_RECORD_BYTES) h1
             in if records = None then (False, handle, deallocate cb h2)
                else (True, Some (zero_object\<lparr>fo_heap := (fo_heap zero_object)[RECORD_ARRAY := records]\<rparr>), h2))"

text \<open>One map: allocated when it is missing, and cleared.\<close>

definition ensure_map ::
    "gx_feature_object_callbacks \<Rightarrow> nat \<Rightarrow> nat \<Rightarrow> gx_feature_object \<Rightarrow> history \<Rightarrow>
     bool \<times> gx_feature_object \<times> history" where
  "ensure_map cb field pixel_count object h =
     (let (p, h1) = (case fo_heap object ! field of None \<Rightarrow> allocate cb pixel_count h | Some m \<Rightarrow> (Some m, h))
      in case p of
           None \<Rightarrow> (False, object, h1)
         | Some m \<Rightarrow> (True, object\<lparr>fo_heap := (fo_heap object)
             [field := Some (mem_write m 0 (replicate pixel_count 0))]\<rparr>, h1))"

definition gx_feature_object_aux_map_ensure ::
    "gx_feature_object_callbacks \<Rightarrow> gx_feature_object \<Rightarrow> nat \<Rightarrow> history \<Rightarrow> bool \<times> gx_feature_object \<times> history" where
  "gx_feature_object_aux_map_ensure cb object pixel_count h =
     (if pixel_count = 0 then (False, object, h) else ensure_map cb AUX_MAP pixel_count object h)"

fun ensure_maps ::
    "gx_feature_object_callbacks \<Rightarrow> nat list \<Rightarrow> nat \<Rightarrow> gx_feature_object \<Rightarrow> history \<Rightarrow>
     bool \<times> gx_feature_object \<times> history" where
  "ensure_maps cb [] pixel_count object h = (True, object, h)"
| "ensure_maps cb (field # rest) pixel_count object h =
     (let (ok, object1, h1) = ensure_map cb field pixel_count object h
      in if ok then ensure_maps cb rest pixel_count object1 h1 else (False, object1, h1))"

definition gx_feature_object_output_maps_ensure ::
    "gx_feature_object_callbacks \<Rightarrow> gx_feature_object \<Rightarrow> nat \<Rightarrow> history \<Rightarrow> bool \<times> gx_feature_object \<times> history" where
  "gx_feature_object_output_maps_ensure cb object pixel_count h =
     (if pixel_count = 0 then (False, object, h)
      else ensure_maps cb [OUTPUT_MAP0, OUTPUT_MAP0 + 1, OUTPUT_MAP0 + 2] pixel_count object h)"

text \<open>
  The two loops of the release. The first one stops at a descriptor that is not released: its slot and
  the later ones are kept, and the handle stays valid.
\<close>

fun release_slots ::
    "gx_feature_object_callbacks \<Rightarrow> u8 gx_feature_pyramid_image option list \<Rightarrow> nat \<Rightarrow> history \<Rightarrow>
     u32 \<times> u8 gx_feature_pyramid_image option list \<times> nat \<times> history" where
  "release_slots cb [] n h = (0, [], n, h)"
| "release_slots cb (None # ds) n h =
     (let (rc, ds1, n1, h1) = release_slots cb ds n h in (rc, None # ds1, n1, h1))"
| "release_slots cb (Some d # ds) n h =
     (let (rc, d1, h1) = release_descriptor cb (Some d) h
      in if rc \<noteq> 0 \<or> d1 \<noteq> None then (if rc \<noteq> 0 then rc else 0x80000002, Some d # ds, n, h1)
         else
           let (rc, ds1, n1, h2) = release_slots cb ds (n + 1) h1 in (rc, None # ds1, n1, h2))"

fun release_fields ::
    "gx_feature_object_callbacks \<Rightarrow> u8 list option list \<Rightarrow> nat \<Rightarrow> history \<Rightarrow> nat \<times> history" where
  "release_fields cb [] n h = (n, h)"
| "release_fields cb (p # ps) n h =
     (if p = None then release_fields cb ps n h else release_fields cb ps (n + 1) (deallocate cb h))"

definition gx_feature_object_release ::
    "gx_feature_object_callbacks \<Rightarrow> gx_feature_object option \<Rightarrow> history \<Rightarrow>
     u32 \<times> gx_feature_object option \<times> gx_feature_object_release_stats \<times> history" where
  "gx_feature_object_release cb handle h =
     (case handle of
        None \<Rightarrow> (0x80000002, None,
          \<lparr>descriptor_slots_released = 0, heap_fields_released = 0, object_released = 0\<rparr>, h)
      | Some object \<Rightarrow>
          let (rc, slots, n, h1) = release_slots cb (fo_descriptors object) 0 h
          in if rc \<noteq> 0
             then (rc, Some (object\<lparr>fo_descriptors := slots\<rparr>),
                   \<lparr>descriptor_slots_released = n, heap_fields_released = 0, object_released = 0\<rparr>, h1)
             else
               let (m, h2) = release_fields cb (fo_heap object) 0 h1
               in (0, None,
                   \<lparr>descriptor_slots_released = n, heap_fields_released = m, object_released = 1\<rparr>,
                   deallocate cb h2))"

text \<open>The callbacks the extractor uses (\<open>src/gx_extractor.c\<close>).\<close>

definition object_allocate :: "environment \<Rightarrow> (nat \<Rightarrow> u8) \<Rightarrow> nat \<Rightarrow> history \<Rightarrow> u8 list option \<times> history" where
  "object_allocate env junk bytes h =
     (if bytes = 0 then (None, h)
      else let (r, h1) = ext_do env (Malloc bytes) h
           in (if isl (reply_rc r) then None else Some (map junk [0..<bytes]), h1))"

definition object_deallocate :: "environment \<Rightarrow> history \<Rightarrow> history" where
  "object_deallocate env h = snd (ext_do env Free h)"

definition object_callbacks :: "environment \<Rightarrow> (nat \<Rightarrow> u8) \<Rightarrow> gx_feature_object_callbacks" where
  "object_callbacks env junk =
     \<lparr>allocate = object_allocate env junk, deallocate = object_deallocate env,
      release_descriptor = gx_feature_descriptor_release env\<rparr>"

section \<open>Ownership\<close>

text \<open>The blocks an object owns, itself included.\<close>

definition object_blocks :: "gx_feature_object option \<Rightarrow> int" where
  "object_blocks handle = (case handle of None \<Rightarrow> 0
     | Some ob \<Rightarrow> 1 + sum_list (map blocks_of (fo_descriptors ob)) + sum_list (map blocks_of (fo_heap ob)))"

definition object_shape :: "gx_feature_object option \<Rightarrow> bool" where
  "object_shape handle = (case handle of None \<Rightarrow> True
     | Some ob \<Rightarrow> length (fo_descriptors ob) = GX_FEATURE_OBJECT_DESCRIPTOR_SLOT_COUNT
         \<and> length (fo_heap ob) = GX_FEATURE_OBJECT_HEAP_FIELD_COUNT)"

lemmas object_consts = GX_FEATURE_OBJECT_BYTES_def GX_FEATURE_OBJECT_RECORD_BYTES_def
  GX_FEATURE_OBJECT_DESCRIPTOR_SLOT_COUNT_def GX_FEATURE_OBJECT_HEAP_FIELD_COUNT_def
  RECORD_ARRAY_def AUX_MAP_def OUTPUT_MAP0_def

lemma sum_list_store:
  "i < length ps \<Longrightarrow> sum_list (map f (ps[i := p])) = sum_list (map f ps) - f (ps ! i) + (f p :: int)"
  by (induction ps arbitrary: i) (auto split: nat.split)

text \<open>
  What the object relies on: its allocator adds a block exactly when it returns one, and the two release
  functions take one away. \<open>live\<close> counts the blocks.
\<close>

locale object_heap =
  fixes cb :: gx_feature_object_callbacks and live :: "history \<Rightarrow> int"
  assumes allocate_live: "allocate cb n h = (p, h') \<Longrightarrow> live h' = live h + blocks_of p"
    and deallocate_live: "live (deallocate cb h) = live h - 1"
    and descriptor_live: "release_descriptor cb (Some d) h = (rc, d', h') \<Longrightarrow>
      live h' = (if rc = 0 \<and> d' = None then live h - 1 else live h)"
begin

lemma create_conserves:
  assumes "gx_feature_object_create cb handle n h = (ok, handle', h')" and "object_shape handle"
  shows "object_shape handle' \<and> live h' - object_blocks handle' = live h - object_blocks handle"
proof -
  obtain o1 h1 where a: "allocate cb GX_FEATURE_OBJECT_BYTES h = (o1, h1)" by (rule prod.exhaust)
  obtain r1 h2 where b: "allocate cb (unat n * GX_FEATURE_OBJECT_RECORD_BYTES) h1 = (r1, h2)" by (rule prod.exhaust)
  note l = allocate_live [OF a] allocate_live [OF b] deallocate_live [of h2]
  show ?thesis
    using assms l
    by (auto simp: gx_feature_object_create_def a b object_shape_def object_blocks_def zero_object_def
        RECORD_ARRAY_def GX_FEATURE_OBJECT_HEAP_FIELD_COUNT_def sum_list_store sum_list_replicate
        split: if_splits)
qed

lemma ensure_map_conserves:
  assumes "ensure_map cb field n ob h = (ok, ob', h')" and "object_shape (Some ob)"
    and "field < GX_FEATURE_OBJECT_HEAP_FIELD_COUNT"
  shows "object_shape (Some ob') \<and> live h' - object_blocks (Some ob') = live h - object_blocks (Some ob)"
proof -
  obtain p h1 where a: "allocate cb n h = (p, h1)" by (rule prod.exhaust)
  show ?thesis
    using assms allocate_live [OF a]
    by (cases "fo_heap ob ! field"; cases p)
      (auto simp: ensure_map_def a object_shape_def object_blocks_def sum_list_store)
qed

lemma ensure_maps_conserves:
  "ensure_maps cb fs n ob h = (ok, ob', h') \<Longrightarrow> object_shape (Some ob) \<Longrightarrow>
   \<forall>f \<in> set fs. f < GX_FEATURE_OBJECT_HEAP_FIELD_COUNT \<Longrightarrow>
   object_shape (Some ob') \<and> live h' - object_blocks (Some ob') = live h - object_blocks (Some ob)"
proof (induction fs arbitrary: ob h)
  case (Cons f fs)
  obtain ok1 ob1 h1 where e: "ensure_map cb f n ob h = (ok1, ob1, h1)" by (rule prod_cases3)
  note c = ensure_map_conserves [OF e Cons.prems(2)]
  show ?case
  proof (cases ok1)
    case True
    with Cons.prems e have "ensure_maps cb fs n ob1 h1 = (ok, ob', h')" by simp
    from Cons.IH [OF this] c Cons.prems(3) show ?thesis by simp
  next
    case False
    with Cons.prems e c show ?thesis by simp
  qed
qed simp

lemma release_slots_conserves:
  "release_slots cb ds n h = (rc, ds', n', h') \<Longrightarrow>
   length ds' = length ds
   \<and> live h' - sum_list (map blocks_of ds') = live h - sum_list (map blocks_of ds)
   \<and> (rc = 0 \<longrightarrow> sum_list (map blocks_of ds') = (0 :: int))"
proof (induction ds arbitrary: n h rc ds' n' h')
  case (Cons d ds)
  show ?case
  proof (cases d)
    case None
    with Cons show ?thesis by (fastforce simp: Let_def split: prod.splits)
  next
    case (Some d0)
    obtain rc1 d1 h1 where r: "release_descriptor cb (Some d0) h = (rc1, d1, h1)" by (rule prod_cases3)
    obtain rc2 ds2 n2 h2 where t: "release_slots cb ds (n + 1) h1 = (rc2, ds2, n2, h2)" by (rule prod_cases4)
    note l = descriptor_live [OF r] and ih = Cons.IH [OF t]
    show ?thesis
    proof (cases "rc1 \<noteq> 0 \<or> d1 \<noteq> None")
      case True
      with Cons.prems Some r l show ?thesis by (auto split: if_splits)
    next
      case False
      with Cons.prems Some r t l ih show ?thesis by auto
    qed
  qed
qed simp

lemma release_fields_conserves:
  "release_fields cb ps n h = (n', h') \<Longrightarrow> live h' = live h - sum_list (map blocks_of ps)"
  by (induction ps arbitrary: n h) (auto simp: deallocate_live blocks_of_def split: if_splits)

lemma release_conserves:
  assumes "gx_feature_object_release cb handle h = (rc, handle', stats, h')" and "object_shape handle"
  shows "object_shape handle' \<and> live h' - object_blocks handle' = live h - object_blocks handle
    \<and> (rc = 0 \<longrightarrow> handle' = None)"
proof (cases handle)
  case None
  with assms show ?thesis by (auto simp: gx_feature_object_release_def)
next
  case (Some ob)
  obtain rc1 ds n h1 where s: "release_slots cb (fo_descriptors ob) 0 h = (rc1, ds, n, h1)" by (rule prod_cases4)
  obtain m h2 where f: "release_fields cb (fo_heap ob) 0 h1 = (m, h2)" by (rule prod.exhaust)
  show ?thesis
    using assms Some release_slots_conserves [OF s] release_fields_conserves [OF f] deallocate_live [of h2]
    by (auto simp: gx_feature_object_release_def s f object_shape_def object_blocks_def split: if_splits)
qed

end

lemma object_callbacks_simps [simp]:
  "allocate (object_callbacks env junk) = object_allocate env junk"
  "deallocate (object_callbacks env junk) = object_deallocate env"
  "release_descriptor (object_callbacks env junk) = gx_feature_descriptor_release env"
  by (simp_all add: object_callbacks_def)

interpretation extractor_heap: object_heap "object_callbacks env junk" "live_blocks env" for env junk
proof unfold_locales
  show "allocate (object_callbacks env junk) n h = (p, h') \<Longrightarrow>
      live_blocks env h' = live_blocks env h + blocks_of p" for n h p h'
    by (auto simp: object_allocate_def ext_do_def Let_def split: if_splits)
  show "live_blocks env (deallocate (object_callbacks env junk) h) = live_blocks env h - 1" for h
    by (simp add: object_deallocate_def)
  show "release_descriptor (object_callbacks env junk) (Some d) h = (rc, d', h') \<Longrightarrow>
      live_blocks env h' = (if rc = 0 \<and> d' = None then live_blocks env h - 1 else live_blocks env h)" for d h rc d' h'
    by (auto simp: gx_feature_descriptor_release_def)
qed

text \<open>
  The life of an object with the extractor's callbacks: creation, the map operations, descriptors stored
  in empty slots, and releases.
\<close>

inductive object_reachable ::
    "environment \<Rightarrow> (nat \<Rightarrow> u8) \<Rightarrow> history \<Rightarrow> gx_feature_object option \<Rightarrow> history \<Rightarrow> bool" for env junk h0 where
  "object_reachable env junk h0 None h0"
| "object_reachable env junk h0 handle h \<Longrightarrow>
   gx_feature_object_create (object_callbacks env junk) handle n h = (ok, handle', h') \<Longrightarrow>
   object_reachable env junk h0 handle' h'"
| "object_reachable env junk h0 (Some ob) h \<Longrightarrow>
   gx_feature_object_aux_map_ensure (object_callbacks env junk) ob n h = (ok, ob', h') \<Longrightarrow>
   object_reachable env junk h0 (Some ob') h'"
| "object_reachable env junk h0 (Some ob) h \<Longrightarrow>
   gx_feature_object_output_maps_ensure (object_callbacks env junk) ob n h = (ok, ob', h') \<Longrightarrow>
   object_reachable env junk h0 (Some ob') h'"
| "object_reachable env junk h0 (Some ob) h \<Longrightarrow> i < length (fo_descriptors ob) \<Longrightarrow> fo_descriptors ob ! i = None \<Longrightarrow>
   gx_feature_descriptor_allocate env junk w ht t h = (d, h') \<Longrightarrow>
   object_reachable env junk h0 (Some (ob\<lparr>fo_descriptors := (fo_descriptors ob)[i := d]\<rparr>)) h'"
| "object_reachable env junk h0 handle h \<Longrightarrow>
   gx_feature_object_release (object_callbacks env junk) handle h = (rc, handle', stats, h') \<Longrightarrow>
   object_reachable env junk h0 handle' h'"

lemma object_reachable_conserves:
  "object_reachable env junk h0 handle h \<Longrightarrow>
   object_shape handle \<and> live_blocks env h = live_blocks env h0 + object_blocks handle"
proof (induction rule: object_reachable.induct)
  case 1
  show ?case by (simp add: object_shape_def object_blocks_def)
next
  case (2 handle h n ok handle' h')
  with extractor_heap.create_conserves [OF 2(2)] show ?case by simp
next
  case (3 ob h n ok ob' h')
  then show ?case
    using extractor_heap.ensure_map_conserves
    by (fastforce simp: gx_feature_object_aux_map_ensure_def AUX_MAP_def GX_FEATURE_OBJECT_HEAP_FIELD_COUNT_def
        split: if_splits)
next
  case (4 ob h n ok ob' h')
  then show ?case
    using extractor_heap.ensure_maps_conserves
    by (fastforce simp: gx_feature_object_output_maps_ensure_def OUTPUT_MAP0_def
        GX_FEATURE_OBJECT_HEAP_FIELD_COUNT_def simp del: ensure_maps.simps split: if_splits)
next
  case (5 ob h i w ht t d h')
  with allocate_blocks [OF 5(4)] show ?case
    by (simp add: object_shape_def object_blocks_def sum_list_store)
next
  case (6 handle h rc handle' stats h')
  with extractor_heap.release_conserves [OF 6(2)] show ?case by simp
qed

lemma release_slots_succeeds: "fst (release_slots (object_callbacks env junk) ds n h) = 0"
proof (induction ds arbitrary: n h)
  case (Cons d ds)
  then show ?case by (cases d) (simp_all add: gx_feature_descriptor_release_def split_beta Let_def)
qed simp

lemma release_to_none:
  "gx_feature_object_release (object_callbacks env junk) handle h = (rc, handle', stats, h') \<Longrightarrow> handle' = None"
  using release_slots_succeeds [of env junk]
  by (cases handle) (auto simp: gx_feature_object_release_def split_beta Let_def split: if_splits)

text \<open>
  C23: an object gives back what it took. At every point of the life of a feature object, whatever the
  allocator does, the heap holds the object's own blocks and no other ones; a release empties the
  handle and leaves the heap as it was before the object was created, also when a creation or
  a map allocation failed half way.
\<close>

theorem object_owns_its_blocks:
  assumes "object_reachable env junk h0 handle h"
    and "gx_feature_object_release (object_callbacks env junk) handle h = (rc, handle', stats, h')"
  shows "live_blocks env h = live_blocks env h0 + object_blocks handle
    \<and> handle' = None \<and> live_blocks env h' = live_blocks env h0"
proof -
  have "object_reachable env junk h0 handle' h'" by (rule object_reachable.intros(6) [OF assms])
  from object_reachable_conserves [OF this] object_reachable_conserves [OF assms(1)] release_to_none [OF assms(2)]
  show ?thesis by (simp add: object_blocks_def)
qed

theorem object_owns_its_blocks_witness:
  "\<exists>ob h1 rc stats h2. gx_feature_object_create (object_callbacks quiet_env (\<lambda>_. 7)) None 120 [] = (True, Some ob, h1)
     \<and> live_blocks quiet_env h1 = 2
     \<and> gx_feature_object_release (object_callbacks quiet_env (\<lambda>_. 7)) (Some ob) h1 = (rc, None, stats, h2)
     \<and> live_blocks quiet_env h2 = 0"
proof -
  let ?cb = "object_callbacks quiet_env (\<lambda>_. 7)"
  obtain ob h1 where c: "gx_feature_object_create ?cb None 120 [] = (True, Some ob, h1)"
    and h1: "h1 = [Malloc GX_FEATURE_OBJECT_BYTES, Malloc (120 * GX_FEATURE_OBJECT_RECORD_BYTES)]"
    by (simp add: gx_feature_object_create_def object_allocate_def quiet_env_def ext_do_def object_consts
        del: upt_conv_Cons upt_rec_numeral)
  obtain rc handle' stats h2 where r: "gx_feature_object_release ?cb (Some ob) h1 = (rc, handle', stats, h2)"
    by (rule prod_cases4)
  have "object_reachable quiet_env (\<lambda>_. 7) [] (Some ob) h1"
    by (rule object_reachable.intros(2) [OF object_reachable.intros(1) c])
  from object_owns_its_blocks [OF this r] c r show ?thesis
    by (auto simp: live_blocks_def h1 quiet_env_def)
qed

end
