(* ===== verification/Filters.thy ===== *)
theory Filters
  imports Lifecycle
begin

text \<open>
  The separable Q16 filters of \<open>src/gx_feature_filter.c\<close> and the response pyramid built with them
  (\<open>src/gx_feature_pyramid.c\<close>). Accumulators are 32-bit words; the theorems say when they do not wrap, that
  the fast path for code 6 computes the general filter, and that the pyramid of a byte image stays in range.
\<close>

section \<open>Kernels\<close>

definition GX_PROFILE24_FILTER_FIRST_CODE :: int where "GX_PROFILE24_FILTER_FIRST_CODE = 300"
definition GX_PROFILE24_FILTER_LAST_CODE :: int where "GX_PROFILE24_FILTER_LAST_CODE = 308"
definition GX_PROFILE24_FILTER_KERNEL_COUNT :: nat where "GX_PROFILE24_FILTER_KERNEL_COUNT = 9"
definition GX_IMAGE_PREPARE_FILTER_CODE :: int where "GX_IMAGE_PREPARE_FILTER_CODE = 6"
definition GX_IMAGE_PREPARE_FILTER_SUM :: u32 where "GX_IMAGE_PREPARE_FILTER_SUM = 65535"
definition GX_AUXILIARY_FILTER_SUM :: u32 where "GX_AUXILIARY_FILTER_SUM = 65536"

record gx_feature_filter_kernel =
  scale_code :: int
  coefficients :: "int list"
  coefficient_count :: nat
  coefficient_sum :: u32

definition kernel_entry :: "int \<Rightarrow> int list \<Rightarrow> u32 \<Rightarrow> gx_feature_filter_kernel" where
  "kernel_entry code cs acc =
     \<lparr>scale_code = code, coefficients = cs, coefficient_count = length cs, coefficient_sum = acc\<rparr>"

definition gx_auxiliary_kernels :: "gx_feature_filter_kernel list" where
  "gx_auxiliary_kernels =
     [kernel_entry 0 [84, 957, 5433, 15399, 21790, 15399, 5433, 957, 84] GX_AUXILIARY_FILTER_SUM,
      kernel_entry 1 [139, 2672, 15742, 28430, 15742, 2672, 139] GX_AUXILIARY_FILTER_SUM,
      kernel_entry 7 [3571, 16004, 26386, 16004, 3571] GX_AUXILIARY_FILTER_SUM]"

definition gx_image_prepare_kernel_code6 :: "int list" where
  "gx_image_prepare_kernel_code6 = [21845, 21845, 21845]"

definition gx_profile24_kernels :: "gx_feature_filter_kernel list" where
  "gx_profile24_kernels =
     [kernel_entry 300 [291, 3539, 15862, 26152, 15862, 3539, 291] 65536,
      kernel_entry 301 [77, 913, 5345, 15439, 21988, 15439, 5345, 913, 77] 65536,
      kernel_entry 302 [16, 1124, 14549, 34158, 14549, 1124, 16] 65536,
      kernel_entry 303 [126, 2569, 15710, 28726, 15710, 2569, 126] 65536,
      kernel_entry 304 [26, 519, 4382, 15764, 24155, 15764, 4382, 519, 26] 65537,
      kernel_entry 305 [163, 1344, 6077, 15025, 20318, 15025, 6077, 1344, 163] 65536,
      kernel_entry 306 [82, 562, 2503, 7276, 13802, 17086, 13802, 7276, 2503, 562, 82] 65536,
      kernel_entry 307 [63, 331, 1285, 3695, 7857, 12355, 14367, 12355, 7857, 3695, 1285, 331, 63] 65539,
      kernel_entry 308 [65, 259, 839, 2192, 4625, 7886, 10860, 12084, 10860, 7886, 4625, 2192, 839, 259, 65] 65536]"

definition gx_feature_filter_profile24_kernel :: "int \<Rightarrow> gx_feature_filter_kernel option" where
  "gx_feature_filter_profile24_kernel code =
     (let index = code - GX_PROFILE24_FILTER_FIRST_CODE
      in if index < 0 \<or> index \<ge> int GX_PROFILE24_FILTER_KERNEL_COUNT then None
         else
           let entry = gx_profile24_kernels ! nat index
           in if scale_code entry \<noteq> code then None else Some entry)"

definition gx_feature_filter_auxiliary_kernel :: "int \<Rightarrow> gx_feature_filter_kernel option" where
  "gx_feature_filter_auxiliary_kernel code = find (\<lambda>entry. scale_code entry = code) gx_auxiliary_kernels"

definition gx_feature_filter_image_prepare_code6_kernel :: gx_feature_filter_kernel where
  "gx_feature_filter_image_prepare_code6_kernel =
     kernel_entry GX_IMAGE_PREPARE_FILTER_CODE gx_image_prepare_kernel_code6 GX_IMAGE_PREPARE_FILTER_SUM"

section \<open>Validation of the tables\<close>

text \<open>The loop over a coefficient row: non-negative, symmetric, and its sum.\<close>

definition row_symmetric :: "int list \<Rightarrow> bool" where
  "row_symmetric cs = (\<forall>i \<in> set [0..<length cs]. \<not> cs ! i < 0 \<and> cs ! i = cs ! (length cs - 1 - i))"

definition row_sum :: "int list \<Rightarrow> u32" where
  "row_sum cs = foldl (\<lambda>acc value. acc + of_int value) 0 cs"

definition gx_feature_filter_auxiliary_validate :: int where
  "gx_feature_filter_auxiliary_validate =
     (if (\<forall>(code, len) \<in> set [(0, 9), (1, 7), (7, 5)].
            case gx_feature_filter_auxiliary_kernel code of
              None \<Rightarrow> False
            | Some k \<Rightarrow> scale_code k = code \<and> coefficient_count k = len
                \<and> coefficient_sum k = GX_AUXILIARY_FILTER_SUM \<and> odd (coefficient_count k)
                \<and> row_symmetric (coefficients k) \<and> row_sum (coefficients k) = coefficient_sum k)
         \<and> (\<forall>code \<in> set [2, 6, 8]. gx_feature_filter_auxiliary_kernel code = None)
      then 0 else - 1)"

definition gx_feature_filter_image_prepare_code6_validate :: int where
  "gx_feature_filter_image_prepare_code6_validate =
     (let k = gx_feature_filter_image_prepare_code6_kernel
      in if scale_code k \<noteq> GX_IMAGE_PREPARE_FILTER_CODE \<or> coefficient_count k \<noteq> 3
            \<or> coefficient_sum k \<noteq> GX_IMAGE_PREPARE_FILTER_SUM
         then - 1
         else if \<not> ((\<forall>value \<in> set (coefficients k). value = 21845) \<and> row_symmetric (coefficients k)) then - 1
         else if row_sum (coefficients k) = coefficient_sum k then 0 else - 1)"

definition gx_feature_filter_profile24_validate :: int where
  "gx_feature_filter_profile24_validate =
     (if (\<forall>code \<in> set [GX_PROFILE24_FILTER_FIRST_CODE..GX_PROFILE24_FILTER_LAST_CODE].
            case gx_feature_filter_profile24_kernel code of
              None \<Rightarrow> False
            | Some k \<Rightarrow> scale_code k = code \<and> coefficient_count k \<noteq> 0 \<and> odd (coefficient_count k)
                \<and> row_symmetric (coefficients k) \<and> row_sum (coefficients k) = coefficient_sum k)
      then 0 else - 1)"

section \<open>The filter\<close>

definition validate_image :: "u16 gx_feature_pyramid_image \<Rightarrow> bool" where
  "validate_image img \<longleftrightarrow>
     \<not> (im_width img \<le> 0 \<or> im_height img \<le> 0 \<or> im_element_bytes img \<noteq> 2 \<or> im_element_count img \<le> 0)
     \<and> (let expected = im_width img * im_height img
        in \<not> (expected \<le> 0 \<or> expected > INT32_MAX \<or> im_element_count img < expected))"

record gx_feature_filter_stats =
  horizontal_passes :: u32
  vertical_passes :: u32
  kernel_length :: u32
  kernel_sum :: u32

text \<open>
  One output pixel of a pass: the samples under the kernel, weighted and summed up in 32 bits, and the
  top half of the sum. \<open>sample k\<close> is the pixel under coefficient \<open>k\<close>.
\<close>

definition weighted_sum :: "int list \<Rightarrow> (nat \<Rightarrow> u32) \<Rightarrow> u32" where
  "weighted_sum cs sample = foldl (\<lambda>acc k. acc + sample k * of_int (cs ! k)) 0 [0..<length cs]"

text \<open>The coordinate under coefficient \<open>k\<close> of a row of \<open>n\<close> coefficients, reflected into the image.\<close>

definition tap :: "nat \<Rightarrow> nat \<Rightarrow> nat \<Rightarrow> nat \<Rightarrow> nat" where
  "tap n k x extent = nat (reflect101 (int x + int k - int (n div 2)) (int extent))"

definition horizontal_pass :: "nat \<Rightarrow> nat \<Rightarrow> int list \<Rightarrow> u16 list \<Rightarrow> u32 list" where
  "horizontal_pass w h cs input = raster w h (\<lambda>x y.
     drop_bit 16 (weighted_sum cs (\<lambda>k. ucast (pix w input (tap (length cs) k x w) y))))"

definition vertical_pass :: "nat \<Rightarrow> nat \<Rightarrow> int list \<Rightarrow> u32 list \<Rightarrow> u16 list" where
  "vertical_pass w h cs horizontal = raster w h (\<lambda>x y.
     ucast (drop_bit 16 (weighted_sum cs (\<lambda>k. pix w horizontal x (tap (length cs) k y h)))))"

definition store_pixels :: "'p gx_feature_pyramid_image \<Rightarrow> 'p list \<Rightarrow> 'p gx_feature_pyramid_image" where
  "store_pixels img ps = img\<lparr>im_pixels := mem_write (im_pixels img) 0 ps\<rparr>"

definition gx_feature_filter_u16_q16_reflect101 ::
    "environment \<Rightarrow> u16 gx_feature_pyramid_image \<Rightarrow> u16 gx_feature_pyramid_image \<Rightarrow> int list \<Rightarrow> history \<Rightarrow>
     gx_feature_filter_stats option \<times> u16 gx_feature_pyramid_image \<times> history" where
  "gx_feature_filter_u16_q16_reflect101 env source destination cs h =
     (if \<not> validate_image source \<or> \<not> validate_image destination
         \<or> im_width source \<noteq> im_width destination \<or> im_height source \<noteq> im_height destination
         \<or> length cs = 0 \<or> even (length cs) \<or> int (length cs) > INT32_MAX \<or> \<not> row_symmetric cs
      then (None, destination, h)
      else
        let w = nat (im_width source); ht = nat (im_height source);
            (r, h1) = ext_do env (Malloc (w * ht * 4)) h
        in if isl (reply_rc r) then (None, destination, h1)
           else
             let horizontal = horizontal_pass w ht cs (im_pixels source)
             in (Some \<lparr>horizontal_passes = 1, vertical_passes = 1, kernel_length = of_nat (length cs),
                       kernel_sum = row_sum cs\<rparr>,
                 store_pixels destination (vertical_pass w ht cs horizontal), snd (ext_do env Free h1)))"

text \<open>The fast path for the kernel of code 6: the samples are summed first and weighted once.\<close>

definition code6_horizontal :: "nat \<Rightarrow> nat \<Rightarrow> u16 list \<Rightarrow> u32 list" where
  "code6_horizontal w h input = raster w h (\<lambda>x y.
     let x0 = nat (reflect101 (int x - 1) (int w));
         x2 = nat (reflect101 (int x + 1) (int w));
         sample_sum = ucast (pix w input x0 y) + ucast (pix w input x y) + ucast (pix w input x2 y)
     in drop_bit 16 (sample_sum * 21845))"

definition code6_vertical :: "nat \<Rightarrow> nat \<Rightarrow> u32 list \<Rightarrow> u16 list" where
  "code6_vertical w h horizontal = raster w h (\<lambda>x y.
     let y0 = nat (reflect101 (int y - 1) (int h));
         y2 = nat (reflect101 (int y + 1) (int h));
         sample_sum = pix w horizontal x y0 + pix w horizontal x y + pix w horizontal x y2
     in ucast (drop_bit 16 (sample_sum * 21845)))"

definition gx_feature_filter_image_prepare_code6_u16_reflect101 ::
    "environment \<Rightarrow> u16 gx_feature_pyramid_image \<Rightarrow> u16 gx_feature_pyramid_image \<Rightarrow> history \<Rightarrow>
     gx_feature_filter_stats option \<times> u16 gx_feature_pyramid_image \<times> history" where
  "gx_feature_filter_image_prepare_code6_u16_reflect101 env source destination h =
     (if \<not> validate_image source \<or> \<not> validate_image destination
         \<or> im_width source \<noteq> im_width destination \<or> im_height source \<noteq> im_height destination
      then (None, destination, h)
      else
        let w = nat (im_width source); ht = nat (im_height source);
            (r, h1) = ext_do env (Malloc (w * ht * 4)) h
        in if isl (reply_rc r) then (None, destination, h1)
           else (Some \<lparr>horizontal_passes = 1, vertical_passes = 1, kernel_length = 3,
                       kernel_sum = GX_IMAGE_PREPARE_FILTER_SUM\<rparr>,
                 store_pixels destination (code6_vertical w ht (code6_horizontal w ht (im_pixels source))),
                 snd (ext_do env Free h1)))"

section \<open>The tables are valid\<close>

lemma tables_valid:
  "gx_feature_filter_profile24_validate = 0" "gx_feature_filter_auxiliary_validate = 0"
  "gx_feature_filter_image_prepare_code6_validate = 0"
  by code_simp+

section \<open>The fast path\<close>

lemma code6_kernel_fits: "row_symmetric gx_image_prepare_kernel_code6"
  "row_sum gx_image_prepare_kernel_code6 = GX_IMAGE_PREPARE_FILTER_SUM"
  by code_simp+

lemma code6_weighted:
  "weighted_sum gx_image_prepare_kernel_code6 s = (s 0 + s 1 + s 2) * 21845"
  by (simp add: weighted_sum_def gx_image_prepare_kernel_code6_def numeral_2_eq_2 upt_rec algebra_simps)

lemma code6_taps: "x < n \<Longrightarrow> tap 3 0 x n = nat (reflect101 (int x - 1) (int n))"
  "x < n \<Longrightarrow> tap 3 (Suc 0) x n = x" "x < n \<Longrightarrow> tap 3 2 x n = nat (reflect101 (int x + 1) (int n))"
  by (simp_all add: tap_def add.commute)

text \<open>
  C25: the optimised filter is the filter. For every image, the function that sums three samples and
  multiplies once gives the same result, statistics, image and memory calls as the general filter with the
  coefficients of code 6, wrap-around included.
\<close>

theorem code6_is_general_filter:
  "gx_feature_filter_image_prepare_code6_u16_reflect101 env source destination h
     = gx_feature_filter_u16_q16_reflect101 env source destination
         (coefficients gx_feature_filter_image_prepare_code6_kernel) h"
proof -
  let ?cs = "gx_image_prepare_kernel_code6"
  have len: "length ?cs = 3" by (simp add: gx_image_prepare_kernel_code6_def)
  have hor: "horizontal_pass w ht ?cs p = code6_horizontal w ht p" for w ht p
    unfolding horizontal_pass_def code6_horizontal_def
    by (rule raster_cong) (simp add: code6_weighted len code6_taps Let_def)
  have ver: "vertical_pass w ht ?cs q = code6_vertical w ht q" for w ht q
    unfolding vertical_pass_def code6_vertical_def
    by (rule raster_cong) (simp add: code6_weighted len code6_taps Let_def)
  show ?thesis
    by (simp add: gx_feature_filter_image_prepare_code6_u16_reflect101_def len hor ver code6_kernel_fits
        gx_feature_filter_u16_q16_reflect101_def gx_feature_filter_image_prepare_code6_kernel_def kernel_entry_def
        INT32_MAX_def Let_def cong: if_cong)
qed

section \<open>When the sums are exact\<close>

definition kernel_total :: "int list \<Rightarrow> nat" where
  "kernel_total cs = nat (sum_list cs)"

lemma kernel_total_sum:
  assumes "\<forall>c \<in> set cs. 0 \<le> c"
  shows "kernel_total cs = (\<Sum>k < length cs. nat (cs ! k))"
proof -
  have "int (kernel_total cs) = sum_list cs"
    using assms by (simp add: kernel_total_def sum_list_nonneg)
  also have "\<dots> = (\<Sum>k < length cs. int (nat (cs ! k)))"
    using assms by (simp add: sum_list_sum_nth atLeast0LessThan)
  finally show ?thesis by (simp only: of_nat_eq_iff flip: of_nat_sum)
qed

lemma weighted_prefix:
  assumes "\<forall>c \<in> set cs. 0 \<le> c" and "\<And>k. k < length cs \<Longrightarrow> unat (s k) \<le> m"
    and "m * kernel_total cs < 2 ^ 32"
  shows "n \<le> length cs \<Longrightarrow>
    unat (foldl (\<lambda>acc k. acc + s k * of_int (cs ! k)) (0 :: u32) [0..<n]) = (\<Sum>k < n. unat (s k) * nat (cs ! k))
    \<and> (\<Sum>k < n. unat (s k) * nat (cs ! k)) \<le> m * kernel_total (take n cs)"
proof (induction n)
  case (Suc n)
  let ?f = "foldl (\<lambda>acc k. acc + s k * of_int (cs ! k)) (0 :: u32) [0..<n]"
  have n: "n < length cs" using Suc.prems by simp
  have pos: "0 \<le> cs ! n" "\<forall>c \<in> set (take n cs). 0 \<le> c" "\<forall>c \<in> set (drop (Suc n) cs). 0 \<le> c"
    using assms(1) n by (auto dest: in_set_takeD in_set_dropD)
  then have sums: "0 \<le> sum_list (take n cs)" "0 \<le> sum_list (drop (Suc n) cs)" by (auto intro: sum_list_nonneg)
  have "cs = take n cs @ cs ! n # drop (Suc n) cs" using n by (rule id_take_nth_drop)
  then have whole: "sum_list cs = sum_list (take n cs) + cs ! n + sum_list (drop (Suc n) cs)"
    by (metis sum_list.append sum_list.Cons add.assoc)
  have step: "kernel_total (take (Suc n) cs) = kernel_total (take n cs) + nat (cs ! n)"
    using pos sums n by (simp add: kernel_total_def take_Suc_conv_app_nth nat_add_distrib)
  have "kernel_total (take (Suc n) cs) \<le> kernel_total cs"
    unfolding kernel_total_def
    by (rule nat_mono) (use whole sums n in \<open>simp add: take_Suc_conv_app_nth\<close>)
  then have small: "m * kernel_total (take (Suc n) cs) < 2 ^ 32"
    using assms(3) by (meson le_less_trans mult_le_mono2)
  have ih: "unat ?f = (\<Sum>k < n. unat (s k) * nat (cs ! k))"
    "(\<Sum>k < n. unat (s k) * nat (cs ! k)) \<le> m * kernel_total (take n cs)"
    using Suc by simp_all
  have add: "unat (s n) * nat (cs ! n) \<le> m * nat (cs ! n)"
    using assms(2) [OF n] by (rule mult_le_mono1)
  have "unat ?f + unat (s n) * nat (cs ! n) \<le> m * kernel_total (take (Suc n) cs)"
    using add_mono [OF ih(2) add] ih(1) by (simp only: step distrib_left)
  from le_less_trans [OF this small] have fits: "unat ?f + unat (s n) * nat (cs ! n) < 2 ^ 32" .
  have c: "(of_int (cs ! n) :: u32) = of_nat (nat (cs ! n))" using pos(1) by (simp add: nat_0_le)
  have "s n * of_int (cs ! n) = of_nat (unat (s n) * nat (cs ! n))"
    unfolding c by simp
  then have "?f + s n * of_int (cs ! n) = of_nat (unat ?f + unat (s n) * nat (cs ! n))" by simp
  then have "unat (?f + s n * of_int (cs ! n)) = unat ?f + unat (s n) * nat (cs ! n)"
    using fits by (simp only: unat_of_nat) simp
  then show ?case using ih(1) add_mono [OF ih(2) add] by (simp only: step distrib_left upt_Suc_append foldl_append
      foldl_Cons foldl_Nil sum.lessThan_Suc)
qed simp

lemma weighted_exact:
  assumes "\<forall>c \<in> set cs. 0 \<le> c" and "\<And>k. k < length cs \<Longrightarrow> unat (s k) \<le> m"
    and "m * kernel_total cs < 2 ^ 32"
  shows "unat (weighted_sum cs s) = (\<Sum>k < length cs. unat (s k) * nat (cs ! k))"
    and "unat (weighted_sum cs s) \<le> m * kernel_total cs"
  using weighted_prefix [OF assms, where n = "length cs"] by (simp_all add: weighted_sum_def)

definition filter_pixels :: "nat \<Rightarrow> nat \<Rightarrow> int list \<Rightarrow> u16 list \<Rightarrow> u16 list" where
  "filter_pixels w h cs ps = vertical_pass w h cs (horizontal_pass w h cs ps)"

definition pixels_below :: "nat \<Rightarrow> u16 list \<Rightarrow> bool" where
  "pixels_below m ps \<longleftrightarrow> (\<forall>p \<in> set ps. unat p \<le> m)"

lemma length_filter_pixels [simp]: "length (filter_pixels w h cs ps) = w * h"
  by (simp add: filter_pixels_def vertical_pass_def)

lemma tap_inside: "x < extent \<Longrightarrow> tap n k x extent < extent"
  by (auto simp: tap_def intro!: reflect101_nat)

lemma unat_u16_le [simp]: "unat (v :: u16) \<le> 65535"
  using unat_u16_less [of v] by linarith

lemma narrow_widen [simp]: "ucast (ucast (v :: u16) :: u32) = v"
  by (rule bit_word_eqI) (auto simp: bit_simps)

lemma pix_in_set: "length ps = w * h \<Longrightarrow> x < w \<Longrightarrow> y < h \<Longrightarrow> pix w ps x y \<in> set ps"
  by (simp add: pix_def index_less)

lemma unat_drop16: "unat (drop_bit 16 (v :: u32)) = unat v div 65536"
  by (subst unsigned_drop_bit_eq) (simp add: drop_bit_eq_div take_bit_nat_eq_self_iff [THEN iffD2])

text \<open>
  One pass over samples of at most \<open>m\<close> gives at most \<open>m\<close> times the sum of the kernel, divided by \<open>2 ^ 16\<close>.
\<close>

lemma pass_bound:
  assumes "\<forall>c \<in> set cs. 0 \<le> c" and "\<And>k. k < length cs \<Longrightarrow> unat (s k) \<le> m"
    and "m * kernel_total cs < 2 ^ 32"
  shows "unat (drop_bit 16 (weighted_sum cs s)) \<le> m * kernel_total cs div 65536"
  unfolding unat_drop16 using weighted_exact(2) [OF assms] by (rule div_le_mono)

lemma filter_bound:
  assumes "\<forall>c \<in> set cs. 0 \<le> c" and "length ps = w * h" and "pixels_below m ps"
    and "m * kernel_total cs < 2 ^ 32" and "m * kernel_total cs div 65536 \<le> m'" and "m' \<le> 65535"
    and "m' * kernel_total cs < 2 ^ 32"
  shows "pixels_below (m' * kernel_total cs div 65536) (filter_pixels w h cs ps)"
  unfolding pixels_below_def
proof
  fix p assume "p \<in> set (filter_pixels w h cs ps)"
  then obtain x y where xy: "x < w" "y < h" and
    p: "p = ucast (drop_bit 16 (weighted_sum cs (\<lambda>k. pix w (horizontal_pass w h cs ps) x (tap (length cs) k y h))))"
    by (auto simp: filter_pixels_def vertical_pass_def set_raster)
  have hor: "unat (pix w (horizontal_pass w h cs ps) x y') \<le> m'" if "y' < h" for y'
  proof -
    have "unat (drop_bit 16 (weighted_sum cs (\<lambda>k. ucast (pix w ps (tap (length cs) k x w) y'))))
        \<le> m * kernel_total cs div 65536"
      by (rule pass_bound [OF assms(1) _ assms(4)])
        (use assms(3) pix_in_set [OF assms(2) tap_inside [OF xy(1)] that] in \<open>simp add: pixels_below_def\<close>)
    then show ?thesis using assms(5) xy(1) that by (simp add: horizontal_pass_def)
  qed
  let ?v = "drop_bit 16 (weighted_sum cs (\<lambda>k. pix w (horizontal_pass w h cs ps) x (tap (length cs) k y h)))"
  have v: "unat ?v \<le> m' * kernel_total cs div 65536"
    by (rule pass_bound [OF assms(1) _ assms(7)]) (use hor tap_inside [OF xy(2)] in simp)
  have "unat ?v < 65536" unfolding unat_drop16 using unat_u32_less by (simp add: div_less_iff_less_mult)
  then have "unat (ucast ?v :: u16) = unat ?v" by (simp add: unsigned_ucast_eq take_bit_eq_mod)
  with v show "unat p \<le> m' * kernel_total cs div 65536" by (simp add: p)
qed

text \<open>A flat image keeps its value under a kernel of sum \<open>2 ^ 16\<close>.\<close>

lemma flat_pass:
  assumes "\<forall>c \<in> set cs. 0 \<le> c" and "kernel_total cs = 65536" and "\<And>k. k < length cs \<Longrightarrow> s k = v"
    and "unat v \<le> 65535"
  shows "drop_bit 16 (weighted_sum cs s) = v"
proof -
  have "unat (weighted_sum cs s) = (\<Sum>k < length cs. unat (s k) * nat (cs ! k))"
    by (rule weighted_exact(1) [where m = "unat v"]) (use assms in simp_all)
  also have "\<dots> = unat v * (\<Sum>k < length cs. nat (cs ! k))"
    using assms(3) by (simp add: sum_distrib_left)
  also have "(\<Sum>k < length cs. nat (cs ! k)) = kernel_total cs"
    by (rule kernel_total_sum [OF assms(1), symmetric])
  finally have "unat (drop_bit 16 (weighted_sum cs s)) = unat v"
    by (simp add: unat_drop16 assms(2))
  then show ?thesis by (rule word_unat_eq_iff [THEN iffD2])
qed

text \<open>
  Filters smooth and never wrap. With a kernel of sum exactly \<open>2 ^ 16\<close> (all the auxiliary kernels, and
  those of the pyramid but two), the 32-bit sums are exact for every 16-bit image: the result is at most
  the brightest pixel, and a flat image is not changed at all.
\<close>

theorem filter_smooths:
  assumes "\<forall>c \<in> set cs. 0 \<le> c" and "kernel_total cs = 65536" and "length ps = w * h" and "pixels_below m ps"
    and "m \<le> 65535"
  shows "pixels_below m (filter_pixels w h cs ps)
    \<and> filter_pixels w h cs (replicate (w * h) v) = replicate (w * h) v"
proof
  show "pixels_below m (filter_pixels w h cs ps)"
    using filter_bound [OF assms(1,3,4), of m] assms(2,5) by simp
  have "filter_pixels w h cs (replicate (w * h) v) = raster w h (\<lambda>x y. v)"
  proof (rule raster_ext [symmetric, THEN sym])
    fix x y assume xy: "x < w" "y < h"
    have flat: "pix w (replicate (w * h) v) x' y' = v" if "x' < w" "y' < h" for x' y'
      using index_less [OF that] by (simp add: pix_def)
    have "drop_bit 16 (weighted_sum cs (\<lambda>k. ucast (pix w (replicate (w * h) v) (tap (length cs) k x w) y'))) = ucast v"
      if "y' < h" for y'
      by (rule flat_pass [OF assms(1,2)]) (use flat tap_inside [OF xy(1)] that in simp_all)
    then have hor: "pix w (horizontal_pass w h cs (replicate (w * h) v)) x y' = ucast v" if "y' < h" for y'
      using xy(1) that by (simp add: horizontal_pass_def)
    have "drop_bit 16 (weighted_sum cs (\<lambda>k. pix w (horizontal_pass w h cs (replicate (w * h) v)) x
        (tap (length cs) k y h))) = ucast v"
      by (rule flat_pass [OF assms(1,2)]) (use hor tap_inside [OF xy(2)] in simp_all)
    with xy show "pix w (filter_pixels w h cs (replicate (w * h) v)) x y = v"
      by (simp add: filter_pixels_def vertical_pass_def)
  qed simp
  then show "filter_pixels w h cs (replicate (w * h) v) = replicate (w * h) v"
    by (simp add: raster_def map_replicate_const)
qed

text \<open>An impulse, smoothed.\<close>

theorem filter_smooths_witness:
  "pixels_below 900 (filter_pixels 3 1 [139, 2672, 15742, 28430, 15742, 2672, 139] [0, 900, 0])
   \<and> filter_pixels 3 1 [139, 2672, 15742, 28430, 15742, 2672, 139] (replicate (3 * 1) 7) = [7, 7, 7]"
  using filter_smooths [of "[139, 2672, 15742, 28430, 15742, 2672, 139]" "[0, 900, 0]" 3 1 900 7]
  by (simp add: kernel_total_def pixels_below_def numeral_3_eq_3)

section \<open>The response pyramid\<close>

definition GX_PROFILE_NINE_LEVEL_MASK :: u32 where "GX_PROFILE_NINE_LEVEL_MASK = 0x07a60e80"
definition GX_PROFILE_SPECIAL_SCALE_MASK :: u32 where "GX_PROFILE_SPECIAL_SCALE_MASK = 0x07a20c80"

definition profile_bit_is_set :: "u32 \<Rightarrow> u32 \<Rightarrow> bool" where
  "profile_bit_is_set profile msk \<longleftrightarrow> profile < 27 \<and> drop_bit (unat profile) msk AND 1 \<noteq> 0"

definition gx_feature_response_pyramid_level_count :: "u32 \<Rightarrow> nat" where
  "gx_feature_response_pyramid_level_count profile =
     (if profile_bit_is_set profile GX_PROFILE_NINE_LEVEL_MASK then 9 else 6)"

definition descriptor_fits :: "'p gx_feature_pyramid_image \<Rightarrow> int \<Rightarrow> int \<Rightarrow> bool" where
  "descriptor_fits img minimum_elements expected_element_bytes \<longleftrightarrow>
     \<not> (im_width img \<le> 0 \<or> im_height img \<le> 0 \<or> im_element_count img < minimum_elements
        \<or> im_element_bytes img \<noteq> expected_element_bytes)"

record gx_feature_pyramid_stats =
  level_count :: nat
  filter_calls :: nat
  first_scale_code :: int
  last_scale_code :: int

definition zero_pyramid_stats :: gx_feature_pyramid_stats where
  "zero_pyramid_stats = \<lparr>level_count = 0, filter_calls = 0, first_scale_code = 0, last_scale_code = 0\<rparr>"

definition record_call :: "gx_feature_pyramid_stats \<Rightarrow> int \<Rightarrow> gx_feature_pyramid_stats" where
  "record_call stats code =
     stats\<lparr>first_scale_code := (if filter_calls stats = 0 then code else first_scale_code stats),
           last_scale_code := code, filter_calls := filter_calls stats + 1\<rparr>"

text \<open>
  The callbacks, with their context as a state \<open>'c\<close>: the parameter maker, and the filter, which writes its
  destination.
\<close>

record 'c gx_feature_pyramid_callbacks =
  make_parameters :: "int \<Rightarrow> int \<Rightarrow> u64"
  filter_level :: "u16 gx_feature_pyramid_image \<Rightarrow> u16 gx_feature_pyramid_image \<Rightarrow> u64 \<Rightarrow> int \<Rightarrow> int \<Rightarrow> int \<Rightarrow>
     'c \<Rightarrow> history \<Rightarrow> u16 gx_feature_pyramid_image \<times> 'c \<times> history"

record 'c pyramid_run =
  pr_levels :: "u16 gx_feature_pyramid_image list"
  pr_stats :: gx_feature_pyramid_stats
  pr_context :: 'c
  pr_history :: history

definition invoke_filter ::
    "'c gx_feature_pyramid_callbacks \<Rightarrow> nat \<Rightarrow> nat \<Rightarrow> int \<Rightarrow> 'c pyramid_run \<Rightarrow> 'c pyramid_run" where
  "invoke_filter cb source destination code p =
     (let (img, c, h) = filter_level cb (pr_levels p ! source) (pr_levels p ! destination)
            (make_parameters cb (- 1) (- 1)) code (- 1) (- 1) (pr_context p) (pr_history p)
      in \<lparr>pr_levels = (pr_levels p)[destination := img], pr_stats = record_call (pr_stats p) code,
          pr_context = c, pr_history = h\<rparr>)"

text \<open>
  Which filter runs from which level into which, in order: source, destination, scale code.
\<close>

definition pyramid_schedule :: "u32 \<Rightarrow> int \<Rightarrow> (nat \<times> nat \<times> int) list" where
  "pyramid_schedule profile scale_start =
     (if profile = 9 \<or> profile = 18
      then (0, 0, 200) # map (\<lambda>i. (i - 1, i, 200 + int i)) [1..<9]
      else if profile_bit_is_set profile GX_PROFILE_SPECIAL_SCALE_MASK
      then (0, 1, 301) # (0, 0, 300) # map (\<lambda>i. (i - 1, i, 300 + int i)) [2..<9]
      else (0, 0, scale_start) # map (\<lambda>i. (i - 1, i, scale_start + int i)) [1..<6])"

definition gx_feature_response_pyramid_prepare ::
    "u8 gx_feature_pyramid_image \<Rightarrow> u16 gx_feature_pyramid_image list \<Rightarrow> int \<Rightarrow> u32 \<Rightarrow>
     'c gx_feature_pyramid_callbacks \<Rightarrow> 'c \<Rightarrow> history \<Rightarrow> bool \<times> 'c pyramid_run" where
  "gx_feature_response_pyramid_prepare source levels scale_start profile cb c h =
     (let n = gx_feature_response_pyramid_level_count profile;
          run0 = \<lparr>pr_levels = levels, pr_stats = zero_pyramid_stats, pr_context = c, pr_history = h\<rparr>
      in if length levels < n \<or> im_element_count source \<le> 0
            \<or> \<not> descriptor_fits source (im_element_count source) 1
            \<or> \<not> descriptor_fits (levels ! 0) (im_element_count source) 2
            \<or> (\<exists>i \<in> set [1..<n]. im_element_bytes (levels ! i) \<noteq> 2)
         then (False, run0)
         else
           let first_level = map (\<lambda>b. push_bit 8 (ucast b)) (take (nat (im_element_count source)) (im_pixels source));
               run1 = run0\<lparr>pr_levels := levels[0 := store_pixels (levels ! 0) first_level],
                           pr_stats := zero_pyramid_stats\<lparr>level_count := n\<rparr>\<rparr>
           in (True, foldl (\<lambda>p (s, d, code). invoke_filter cb s d code p) run1
                 (pyramid_schedule profile scale_start)))"

section \<open>The filters of the extractor\<close>

text \<open>\<open>apply_filter\<close> and the pyramid callbacks of \<open>src/gx_extractor.c\<close>; the context is a status, true for OK.\<close>

definition filter_kernel_of :: "int \<Rightarrow> gx_feature_filter_kernel option" where
  "filter_kernel_of code =
     (if code = 0 \<or> code = 1 \<or> code = 7 then gx_feature_filter_auxiliary_kernel code
      else gx_feature_filter_profile24_kernel code)"

definition apply_filter ::
    "environment \<Rightarrow> u16 gx_feature_pyramid_image \<Rightarrow> u16 gx_feature_pyramid_image \<Rightarrow> int \<Rightarrow> history \<Rightarrow>
     bool \<times> u16 gx_feature_pyramid_image \<times> history" where
  "apply_filter env source destination code h =
     (if im_width source \<noteq> im_width destination \<or> im_height source \<noteq> im_height destination
         \<or> im_element_bytes source \<noteq> 2 \<or> im_element_bytes destination \<noteq> 2
      then (False, destination, h)
      else if code = 6
      then (let (st, img, h1) = gx_feature_filter_image_prepare_code6_u16_reflect101 env source destination h
            in (st \<noteq> None, img, h1))
      else
        case filter_kernel_of code of
          None \<Rightarrow> (False, destination, h)
        | Some k \<Rightarrow>
            let (st, img, h1) = gx_feature_filter_u16_q16_reflect101 env source destination (coefficients k) h
            in case st of
                 None \<Rightarrow> (False, img, h1)
               | Some stats \<Rightarrow> (kernel_length stats = of_nat (coefficient_count k)
                                 \<and> kernel_sum stats = coefficient_sum k, img, h1))"

definition pyramid_parameters :: "int \<Rightarrow> int \<Rightarrow> u64" where
  "pyramid_parameters first second = push_bit 32 (ucast (of_int second :: u32)) OR ucast (of_int first :: u32)"

definition pyramid_filter ::
    "environment \<Rightarrow> u16 gx_feature_pyramid_image \<Rightarrow> u16 gx_feature_pyramid_image \<Rightarrow> u64 \<Rightarrow> int \<Rightarrow> int \<Rightarrow> int \<Rightarrow>
     bool \<Rightarrow> history \<Rightarrow> u16 gx_feature_pyramid_image \<times> bool \<times> history" where
  "pyramid_filter env source destination parameters code option_a option_b ok h =
     (if \<not> ok then (destination, ok, h)
      else if parameters \<noteq> 0xffffffffffffffff \<or> option_a \<noteq> - 1 \<or> option_b \<noteq> - 1 then (destination, False, h)
      else let (ok1, img, h1) = apply_filter env source destination code h in (img, ok1, h1))"

definition pyramid_callbacks :: "environment \<Rightarrow> bool gx_feature_pyramid_callbacks" where
  "pyramid_callbacks env = \<lparr>make_parameters = pyramid_parameters, filter_level = pyramid_filter env\<rparr>"

section \<open>What the pyramid computes\<close>

definition code_pixels :: "nat \<Rightarrow> nat \<Rightarrow> int \<Rightarrow> u16 list \<Rightarrow> u16 list" where
  "code_pixels w h code ps = filter_pixels w h (coefficients (the (filter_kernel_of code))) ps"

definition kernel_valid :: "int \<Rightarrow> int \<Rightarrow> bool" where
  "kernel_valid m code = (case filter_kernel_of code of None \<Rightarrow> False
     | Some k \<Rightarrow> row_symmetric (coefficients k) \<and> odd (length (coefficients k)) \<and> length (coefficients k) < 100
         \<and> coefficient_count k = length (coefficients k) \<and> row_sum (coefficients k) = coefficient_sum k
         \<and> list_all (\<lambda>c. 0 \<le> c) (coefficients k) \<and> sum_list (coefficients k) \<le> m)"

lemma pyramid_kernels: "list_all (kernel_valid 65539) [300..308]"
  "list_all (kernel_valid 65537) [300, 301, 302, 303, 304, 305, 306, 308]"
  "list_all (kernel_valid 65536) [0, 1, 7]"
  by code_simp+

lemma kernel_valid_code: "300 \<le> code \<Longrightarrow> code \<le> 308 \<Longrightarrow> kernel_valid 65539 code"
  using pyramid_kernels(1) by (simp only: list_all_iff set_upto atLeastAtMost_iff)

definition level_ok :: "nat \<Rightarrow> nat \<Rightarrow> 'p gx_feature_pyramid_image \<Rightarrow> bool" where
  "level_ok w h img \<longleftrightarrow> im_width img = int w \<and> im_height img = int h \<and> im_element_bytes img = 2
     \<and> int (w * h) \<le> im_element_count img \<and> length (im_pixels img) = w * h
     \<and> 0 < w \<and> 0 < h \<and> int (w * h) \<le> INT32_MAX"

lemma level_ok_valid: "level_ok w h img \<Longrightarrow> validate_image img"
  by (auto simp: level_ok_def validate_image_def Let_def)
    (use mult_pos_pos [of "int w" "int h"] in linarith)+

definition malloc_works :: "environment \<Rightarrow> bool" where
  "malloc_works env \<longleftrightarrow> (\<forall>g n. \<not> isl (reply_rc (env g (Malloc n))))"

lemma apply_filter_works:
  assumes "malloc_works env" and "level_ok w h src" and "level_ok w h dst" and "kernel_valid m code" and "code \<noteq> 6"
  shows "\<exists>g'. apply_filter env src dst code g
    = (True, dst\<lparr>im_pixels := code_pixels w h code (im_pixels src)\<rparr>, g')"
proof -
  obtain k where k: "filter_kernel_of code = Some k" using assms(4) by (auto simp: kernel_valid_def split: option.splits)
  with assms(4) have kv: "row_symmetric (coefficients k)" "odd (length (coefficients k))"
    "length (coefficients k) < 100" "coefficient_count k = length (coefficients k)"
    "row_sum (coefficients k) = coefficient_sum k" by (simp_all add: kernel_valid_def)
  have nz: "coefficients k \<noteq> []" using kv(2) by auto
  have img: "im_width src = int w" "im_height src = int h" "im_width dst = int w" "im_height dst = int h"
    "im_element_bytes src = 2" "im_element_bytes dst = 2" "length (im_pixels dst) = w * h"
    using assms(2,3) by (simp_all add: level_ok_def)
  have mal: "\<not> isl (reply_rc (env g (Malloc n)))" for g n using assms(1) by (simp add: malloc_works_def)
  have "mem_write (im_pixels dst) 0 (filter_pixels w h (coefficients k) (im_pixels src))
      = filter_pixels w h (coefficients k) (im_pixels src)"
    using img(7) by (simp add: mem_write_def)
  then have "store_pixels dst (vertical_pass w h (coefficients k) (horizontal_pass w h (coefficients k) (im_pixels src)))
      = dst\<lparr>im_pixels := code_pixels w h code (im_pixels src)\<rparr>"
    by (simp add: store_pixels_def code_pixels_def k filter_pixels_def)
  then show ?thesis
    using img mal kv nz k assms(5) level_ok_valid [OF assms(2)] level_ok_valid [OF assms(3)]
    by (simp add: apply_filter_def gx_feature_filter_u16_q16_reflect101_def ext_do_def INT32_MAX_def Let_def)
qed

lemma pyramid_parameters_minus_one: "pyramid_parameters (- 1) (- 1) = 0xffffffffffffffff"
  by code_simp

text \<open>The pyramid as an operation on pixels alone.\<close>

definition pixel_step :: "nat \<Rightarrow> nat \<Rightarrow> u16 list list \<Rightarrow> nat \<times> nat \<times> int \<Rightarrow> u16 list list" where
  "pixel_step w h ls = (\<lambda>(s, d, code). ls[d := code_pixels w h code (ls ! s)])"

definition run_ok :: "nat \<Rightarrow> nat \<Rightarrow> nat \<Rightarrow> bool pyramid_run \<Rightarrow> bool" where
  "run_ok w h n p \<longleftrightarrow> length (pr_levels p) = n \<and> list_all (level_ok w h) (pr_levels p) \<and> pr_context p"

lemma invoke_refines:
  assumes "malloc_works env" and "run_ok w h n p" and "s < n" "d < n" and "kernel_valid m code" and "code \<noteq> 6"
  shows "run_ok w h n (invoke_filter (pyramid_callbacks env) s d code p)
    \<and> map im_pixels (pr_levels (invoke_filter (pyramid_callbacks env) s d code p))
        = pixel_step w h (map im_pixels (pr_levels p)) (s, d, code)
    \<and> pr_stats (invoke_filter (pyramid_callbacks env) s d code p) = record_call (pr_stats p) code"
proof -
  have l: "level_ok w h (pr_levels p ! s)" "level_ok w h (pr_levels p ! d)" "pr_context p"
    "length (pr_levels p) = n"
    using assms(2-4) by (auto simp: run_ok_def list_all_length)
  obtain g' where a: "apply_filter env (pr_levels p ! s) (pr_levels p ! d) code (pr_history p)
      = (True, (pr_levels p ! d)\<lparr>im_pixels := code_pixels w h code (im_pixels (pr_levels p ! s))\<rparr>, g')"
    using apply_filter_works [OF assms(1) l(1,2) assms(5,6)] by blast
  have "level_ok w h ((pr_levels p ! d)\<lparr>im_pixels := code_pixels w h code (im_pixels (pr_levels p ! s))\<rparr>)"
    using l(2) by (simp add: level_ok_def code_pixels_def)
  then show ?thesis
    using assms(2-4) l a
    by (simp add: invoke_filter_def pyramid_callbacks_def pyramid_filter_def pyramid_parameters_minus_one
        pixel_step_def run_ok_def map_update list_all_length nth_list_update)
qed

lemma pyramid_refines:
  assumes "malloc_works env" and "run_ok w h n p"
    and "\<forall>(s, d, code) \<in> set sched. s < n \<and> d < n \<and> kernel_valid 65539 code \<and> code \<noteq> 6"
  shows "run_ok w h n (foldl (\<lambda>p (s, d, code). invoke_filter (pyramid_callbacks env) s d code p) p sched)
    \<and> map im_pixels (pr_levels (foldl (\<lambda>p (s, d, code). invoke_filter (pyramid_callbacks env) s d code p) p sched))
        = foldl (pixel_step w h) (map im_pixels (pr_levels p)) sched
    \<and> pr_stats (foldl (\<lambda>p (s, d, code). invoke_filter (pyramid_callbacks env) s d code p) p sched)
        = foldl (\<lambda>st (s, d, code). record_call st code) (pr_stats p) sched"
  using assms(2,3)
proof (induction sched arbitrary: p)
  case (Cons c sched)
  obtain s d code where c: "c = (s, d, code)" by (rule prod_cases3)
  have i: "s < n" "d < n" "kernel_valid 65539 code" "code \<noteq> 6" using Cons.prems(2) c by auto
  note r = invoke_refines [OF assms(1) Cons.prems(1) i]
  then have "run_ok w h n (invoke_filter (pyramid_callbacks env) s d code p)" by simp
  from Cons.IH [OF this] Cons.prems(2) r show ?case by (simp add: c)
qed simp

lemma schedule_24: "pyramid_schedule 24 0 =
   [(0, 1, 301), (0, 0, 300), (1, 2, 302), (2, 3, 303), (3, 4, 304), (4, 5, 305), (5, 6, 306), (6, 7, 307), (7, 8, 308)]"
  by code_simp

lemma nine_levels: "gx_feature_response_pyramid_level_count 24 = 9"
  by code_simp

lemma pixels_below_mono: "pixels_below m ps \<Longrightarrow> m \<le> m' \<Longrightarrow> pixels_below m' ps"
  by (auto simp: pixels_below_def)

lemma kernel_valid_bound:
  assumes "kernel_valid (int m) code" and "length ps = w * h" and "pixels_below b ps"
    and "b * m < 2 ^ 32" and "b * m div 65536 \<le> b'" and "b' \<le> 65535" and "b' * m < 2 ^ 32"
  shows "pixels_below (b' * m div 65536) (code_pixels w h code ps)"
proof -
  define cs where "cs = coefficients (the (filter_kernel_of code))"
  have cs: "\<forall>c \<in> set cs. 0 \<le> c" "kernel_total cs \<le> m"
    using assms(1) by (auto simp: kernel_valid_def cs_def kernel_total_def list_all_iff split: option.splits)
  then have le: "b * kernel_total cs \<le> b * m" "b' * kernel_total cs \<le> b' * m" by simp_all
  have "pixels_below (b' * kernel_total cs div 65536) (filter_pixels w h cs ps)"
  proof (rule filter_bound [OF cs(1) assms(2,3) _ _ assms(6)])
    show "b * kernel_total cs < 2 ^ 32" "b' * kernel_total cs < 2 ^ 32"
      using le_less_trans [OF le(1) assms(4)] le_less_trans [OF le(2) assms(7)] .
    show "b * kernel_total cs div 65536 \<le> b'" using div_le_mono [OF le(1)] assms(5) by (rule order_trans)
  qed
  then show ?thesis
    by (simp add: code_pixels_def flip: cs_def) (erule pixels_below_mono, rule div_le_mono, rule le(2))
qed

text \<open>All kernels but one keep every bound; the one of code 307, of sum 65539, can add four.\<close>

lemma code_keeps_bound:
  "kernel_valid 65537 code \<Longrightarrow> length ps = w * h \<Longrightarrow> pixels_below 65280 ps \<Longrightarrow>
   pixels_below 65280 (code_pixels w h code ps)"
  using kernel_valid_bound [of 65537 code ps w h 65280 65280] by simp

lemma code_308_keeps_bound:
  "length ps = w * h \<Longrightarrow> pixels_below 65284 ps \<Longrightarrow> pixels_below 65284 (code_pixels w h 308 ps)"
  using kernel_valid_bound [of 65537 308 ps w h 65284 65284] pyramid_kernels(2) by simp

lemma code_307_bound:
  "length ps = w * h \<Longrightarrow> pixels_below 65280 ps \<Longrightarrow> pixels_below 65284 (code_pixels w h 307 ps)"
  using kernel_valid_bound [of 65539 307 ps w h 65280 65282] kernel_valid_code [of 307] by simp

definition scaled_bytes :: "u8 list \<Rightarrow> u16 list" where
  "scaled_bytes bs = map (\<lambda>b. push_bit 8 (ucast b)) bs"

lemma scaled_bytes_bound: "pixels_below 65280 (scaled_bytes bs)"
proof -
  have "unat (push_bit 8 (ucast b) :: u16) \<le> 65280" for b :: u8
  proof -
    have b: "unat b \<le> 255" using unat_u8_less [of b] by linarith
    have "unat (push_bit 8 (ucast b) :: u16) = unat b * 256 mod 65536"
      by (subst unsigned_push_bit_eq) (simp add: push_bit_eq_mult take_bit_eq_mod)
    also have "\<dots> \<le> 65280" using b by simp
    finally show ?thesis .
  qed
  then show ?thesis by (simp add: pixels_below_def scaled_bytes_def)
qed

text \<open>The levels of a byte image, each from the one before it, except that level one is made from the unfiltered image.\<close>

fun pyramid_level :: "nat \<Rightarrow> nat \<Rightarrow> u8 list \<Rightarrow> nat \<Rightarrow> u16 list" where
  "pyramid_level w h bs 0 = code_pixels w h 300 (scaled_bytes bs)"
| "pyramid_level w h bs (Suc 0) = code_pixels w h 301 (scaled_bytes bs)"
| "pyramid_level w h bs (Suc (Suc i)) = code_pixels w h (302 + int i) (pyramid_level w h bs (Suc i))"

lemma length_code_pixels [simp]: "length (code_pixels w h code ps) = w * h"
  by (simp add: code_pixels_def)

lemma length_pyramid_level [simp]: "length (pyramid_level w h bs i) = w * h"
  by (cases "(w, h, bs, i)" rule: pyramid_level.cases) simp_all

lemma pyramid_low: "length bs = w * h \<Longrightarrow> i \<le> 6 \<Longrightarrow> pixels_below 65280 (pyramid_level w h bs i)"
proof (induction w h bs i rule: pyramid_level.induct)
  case (3 w h bs i)
  then have "302 + int i \<in> {302, 303, 304, 305, 306}" by auto
  with pyramid_kernels(2) have "kernel_valid 65537 (302 + int i)" by auto
  with 3 show ?case by (simp add: code_keeps_bound)
qed (use pyramid_kernels(2) scaled_bytes_bound in \<open>simp_all add: code_keeps_bound scaled_bytes_def\<close>)

lemma pyramid_high:
  assumes "length bs = w * h" and "i < 9"
  shows "pixels_below 65284 (pyramid_level w h bs i)"
proof -
  have seven: "pyramid_level w h bs 7 = code_pixels w h 307 (pyramid_level w h bs 6)"
    and eight: "pyramid_level w h bs 8 = code_pixels w h 308 (pyramid_level w h bs 7)"
    by (simp_all add: numeral_eq_Suc)
  have b7: "pixels_below 65284 (pyramid_level w h bs 7)"
    unfolding seven by (rule code_307_bound) (use pyramid_low [OF assms(1), of 6] in simp_all)
  have b8: "pixels_below 65284 (pyramid_level w h bs 8)"
    unfolding eight by (rule code_308_keeps_bound [OF _ b7]) simp
  from assms(2) consider "i \<le> 6" | "i = 7" | "i = 8" by linarith
  then show ?thesis
    by cases (use pyramid_low [OF assms(1), of i] b7 b8 in \<open>auto intro: pixels_below_mono\<close>)
qed

text \<open>
  C24: the response pyramid. For profile 24, on any byte image and with an allocator that works, the
  nine filter calls all succeed and leave in level \<open>i\<close> the image filtered with code \<open>300 + i\<close>: levels 0 and 1 from
  the image itself (level 1 first, since level 0 is filtered in place), every later level from the one
  before. No pixel of any level exceeds 65284, so no 32-bit sum wraps, although the kernels of codes 304 and
  307 sum to more than one.
\<close>

theorem pyramid_levels:
  assumes "malloc_works env" and "length levels = 9" and "list_all (level_ok w h) levels"
    and "im_width source = int w" "im_height source = int h" "im_element_bytes source = 1"
    and "im_element_count source = int (w * h)" and "length (im_pixels source) = w * h"
  shows "\<exists>p. gx_feature_response_pyramid_prepare source levels 0 24 (pyramid_callbacks env) True h0 = (True, p)
    \<and> pr_context p \<and> pr_stats p = \<lparr>level_count = 9, filter_calls = 9, first_scale_code = 301, last_scale_code = 308\<rparr>
    \<and> map im_pixels (pr_levels p) = map (pyramid_level w h (im_pixels source)) [0..<9]
    \<and> list_all (\<lambda>l. pixels_below 65284 (im_pixels l)) (pr_levels p)"
proof -
  let ?bs = "im_pixels source"
  have l0: "level_ok w h (levels ! 0)" using assms(2,3) by (simp add: list_all_length)
  then have dims: "0 < w" "0 < h" "im_width (levels ! 0) = int w" "im_height (levels ! 0) = int h"
    "im_element_bytes (levels ! 0) = 2" "int (w * h) \<le> im_element_count (levels ! 0)"
    "length (im_pixels (levels ! 0)) = w * h" by (simp_all add: level_ok_def)
  have bytes: "\<forall>i \<in> set [1..<9]. im_element_bytes (levels ! i) = 2"
    using assms(2,3) by (simp add: list_all_length level_ok_def)
  define run1 where "run1 = \<lparr>pr_levels = levels[0 := store_pixels (levels ! 0) (scaled_bytes ?bs)],
    pr_stats = zero_pyramid_stats\<lparr>level_count := 9\<rparr>, pr_context = True, pr_history = h0\<rparr>"
  have pos: "\<not> int w * int h \<le> 0" using dims(1,2) by (simp add: not_le)
  have cells: "nat (int w * int h) = w * h" by (simp add: nat_mult_distrib)
  let ?p = "foldl (\<lambda>p (s, d, code). invoke_filter (pyramid_callbacks env) s d code p) run1 (pyramid_schedule 24 0)"
  have run: "gx_feature_response_pyramid_prepare source levels 0 24 (pyramid_callbacks env) True h0 = (True, ?p)"
    using assms dims bytes pos cells
    by (simp add: gx_feature_response_pyramid_prepare_def nine_levels descriptor_fits_def run1_def scaled_bytes_def
        Let_def cong: if_cong)
  have stored: "im_pixels (store_pixels (levels ! 0) (scaled_bytes ?bs)) = scaled_bytes ?bs"
    using dims(7) assms(8) by (simp add: store_pixels_def mem_write_def scaled_bytes_def)
  have "level_ok w h (store_pixels (levels ! 0) (scaled_bytes ?bs))"
    using l0 stored assms(8) by (simp add: level_ok_def scaled_bytes_def) (simp add: store_pixels_def)
  then have ok1: "run_ok w h 9 run1"
    using assms(2,3) by (simp add: run_ok_def run1_def list_all_length nth_list_update)
  have sched: "\<forall>(s, d, code) \<in> set (pyramid_schedule 24 0). s < 9 \<and> d < 9 \<and> kernel_valid 65539 code \<and> code \<noteq> 6"
    by (simp add: schedule_24 kernel_valid_code)
  note r = pyramid_refines [OF assms(1) ok1 sched]
  have stats: "pr_stats ?p = \<lparr>level_count = 9, filter_calls = 9, first_scale_code = 301, last_scale_code = 308\<rparr>"
    using r by (simp add: schedule_24 record_call_def run1_def zero_pyramid_stats_def del: foldl_Cons)
      (simp add: schedule_24 record_call_def run1_def zero_pyramid_stats_def)
  obtain l1 l2 l3 l4 l5 l6 l7 l8 where ls: "map im_pixels (pr_levels run1) = [scaled_bytes ?bs, l1, l2, l3, l4, l5, l6, l7, l8]"
  proof -
    have "length (map im_pixels (pr_levels run1)) = 9" "map im_pixels (pr_levels run1) ! 0 = scaled_bytes ?bs"
      using assms(2) stored by (simp_all add: run1_def)
    then show thesis by (auto simp: numeral_eq_Suc length_Suc_conv intro: that)
  qed
  have "map im_pixels (pr_levels ?p) = foldl (pixel_step w h) (map im_pixels (pr_levels run1)) (pyramid_schedule 24 0)"
    using r by blast
  also have "\<dots> = map (pyramid_level w h ?bs) [0..<9]"
    unfolding ls schedule_24 by (simp add: pixel_step_def numeral_eq_Suc upt_rec)
  finally have levels: "map im_pixels (pr_levels ?p) = map (pyramid_level w h ?bs) [0..<9]" .
  have "list_all (pixels_below 65284) (map im_pixels (pr_levels ?p))"
    unfolding levels using pyramid_high [OF assms(8)] by (simp add: list_all_iff)
  then have below: "list_all (\<lambda>l. pixels_below 65284 (im_pixels l)) (pr_levels ?p)"
    by (simp only: list.pred_map comp_def)
  have "pr_context ?p" using r by (simp only: run_ok_def)
  with run stats levels below show ?thesis by (intro exI [of _ ?p] conjI)
qed

definition tiny_level :: "u16 gx_feature_pyramid_image" where
  "tiny_level = \<lparr>im_width = 1, im_height = 1, im_reserved_08 = 2, im_element_count = 2, im_element_bytes = 2,
     im_pixels = [0]\<rparr>"

definition tiny_source :: "u8 gx_feature_pyramid_image" where
  "tiny_source = \<lparr>im_width = 1, im_height = 1, im_reserved_08 = 1, im_element_count = 1, im_element_bytes = 1,
     im_pixels = [200]\<rparr>"

theorem pyramid_levels_witness:
  "\<exists>p. gx_feature_response_pyramid_prepare tiny_source (replicate 9 tiny_level) 0 24 (pyramid_callbacks quiet_env) True []
      = (True, p)
    \<and> length (pr_levels p) = 9 \<and> list_all (\<lambda>l. pixels_below 65284 (im_pixels l)) (pr_levels p)"
proof -
  have "malloc_works quiet_env" by (simp add: malloc_works_def quiet_env_def)
  moreover have "list_all (level_ok 1 1) (replicate 9 tiny_level)"
    by (simp add: list_all_iff level_ok_def tiny_level_def INT32_MAX_def)
  ultimately obtain p where p: "gx_feature_response_pyramid_prepare tiny_source (replicate 9 tiny_level) 0 24
      (pyramid_callbacks quiet_env) True [] = (True, p)"
    "map im_pixels (pr_levels p) = map (pyramid_level 1 1 (im_pixels tiny_source)) [0..<9]"
    "list_all (\<lambda>l. pixels_below 65284 (im_pixels l)) (pr_levels p)"
    using pyramid_levels [of quiet_env "replicate 9 tiny_level" 1 1 tiny_source "[]"]
    by (auto simp: tiny_source_def)
  from p(2) have "length (pr_levels p) = 9" by (metis diff_zero length_map length_upt)
  with p(1,3) show ?thesis by blast
qed

end
