(* ===== verification/Response.thy ===== *)
theory Response
  imports Images
begin

text \<open>
  The response map (\<open>src/gx_feature_response.c\<close>): angle and magnitude of the gradient of an image, computed
  by rotation in thirteen steps. \<open>int32_t\<close> values are integers, wrapped where the code wraps.
\<close>

section \<open>Angle and magnitude of a vector\<close>

definition GX_FEATURE_VECTOR_ANGLE_PERIOD :: int where "GX_FEATURE_VECTOR_ANGLE_PERIOD = 0x6488"
definition GX_FEATURE_VECTOR_ANGLE_HALF :: u16 where "GX_FEATURE_VECTOR_ANGLE_HALF = 0x3244"
definition GX_FEATURE_VECTOR_ANGLE_QUARTER :: u16 where "GX_FEATURE_VECTOR_ANGLE_QUARTER = 0x1922"

definition wrap_sub_i32 :: "int \<Rightarrow> int \<Rightarrow> int" where "wrap_sub_i32 a b = i32 (a - b)"
definition wrap_neg_i32 :: "int \<Rightarrow> int" where "wrap_neg_i32 a = i32 (- a)"

definition clamp_gradient :: "int \<Rightarrow> int" where
  "clamp_gradient value =
     (if value < - 0x80000 then - 0x80000 else if value > 0x7ffff then 0x7ffff else value)"

definition cordic_scale :: "int list" where
  "cordic_scale = [46341, 41449, 40211, 39901, 39823, 39803, 39799,
     39797, 39797, 39797, 39797, 39797, 39797]"

definition magnitude_of :: "int \<Rightarrow> int" where
  "magnitude_of v = (if v < 1 then wrap_neg_i32 v else v)"

text \<open>The rotation: vertical and horizontal part, the angle so far; the result also has the last step made.\<close>

definition rotation_step :: "nat \<Rightarrow> int \<times> int \<times> u16 \<Rightarrow> int \<times> int \<times> u16" where
  "rotation_step k st =
     (case st of (vertical, horizontal, angle) \<Rightarrow>
        let vertical_step = arithmetic_shift_right_i32 vertical k;
            horizontal_step = arithmetic_shift_right_i32 horizontal k
        in if vertical < 1
           then (wrap_add_i32 vertical horizontal_step, wrap_add_i32 horizontal (wrap_neg_i32 vertical_step),
                 angle - of_int (cordic_angles ! k))
           else (wrap_add_i32 vertical (wrap_neg_i32 horizontal_step), wrap_add_i32 horizontal vertical_step,
                 angle + of_int (cordic_angles ! k)))"

fun rotation_loop :: "nat list \<Rightarrow> nat \<Rightarrow> int \<times> int \<times> u16 \<Rightarrow> nat \<times> int \<times> int \<times> u16" where
  "rotation_loop [] lst st = (lst, st)"
| "rotation_loop (k # ks) lst st =
     (let st1 = rotation_step k st
      in if fst st1 = 0 then (k, st1) else rotation_loop ks k st1)"

definition gx_feature_vector_angle_magnitude :: "int \<Rightarrow> int \<Rightarrow> u16 \<times> int" where
  "gx_feature_vector_angle_magnitude vertical horizontal =
     (let abs_horizontal = magnitude_of horizontal; abs_vertical = magnitude_of vertical
      in if abs_vertical = 0
         then (if horizontal < 1 then GX_FEATURE_VECTOR_ANGLE_HALF else 0, abs_horizontal)
         else if abs_horizontal = 0
         then (if vertical < 1 then 0xe6de else GX_FEATURE_VECTOR_ANGLE_QUARTER, abs_vertical)
         else
           let (lst, _, h, angle) = rotation_loop [0..<13] 0 (abs_vertical, abs_horizontal, 0);
               angle = (if horizontal < 1
                        then (if vertical < 1 then angle + 0xcdbc else 0x3244 - angle)
                        else if vertical < 0 then 0 - angle else angle)
           in (angle, i32 (drop_bit 16 (cordic_scale ! lst * h + 0x8000))))"

section \<open>The map\<close>

text \<open>One pixel: the central differences, clamped and scaled, as angle and magnitude.\<close>

definition gradient_response :: "nat \<Rightarrow> int list \<Rightarrow> nat \<Rightarrow> nat \<Rightarrow> int \<times> int" where
  "gradient_response w source x y =
     (let index = y * w + x;
          horizontal = clamp_gradient (wrap_sub_i32 (source ! (index + 1)) (source ! (index - 1)));
          vertical = clamp_gradient (wrap_sub_i32 (source ! (index + w)) (source ! (index - w)));
          (angle, magnitude) = gx_feature_vector_angle_magnitude
            (i32 (push_bit 12 vertical)) (i32 (push_bit 12 horizontal));
          magnitude = arithmetic_shift_right_i32 magnitude 12
      in (if magnitude > 0x3ffff then 0x3ffff else magnitude, sint angle))"

definition inner_pixel :: "nat \<Rightarrow> nat \<Rightarrow> nat \<Rightarrow> nat \<Rightarrow> bool" where
  "inner_pixel w h x y \<longleftrightarrow> 1 \<le> x \<and> x < w - 1 \<and> 1 \<le> y \<and> y < h - 1"

text \<open>The border pixels keep what the two arrays held before.\<close>

definition gx_feature_build_response_map ::
    "int list \<Rightarrow> int \<Rightarrow> int \<Rightarrow> int list \<Rightarrow> int list \<Rightarrow> (int list \<times> int list) option" where
  "gx_feature_build_response_map source width height magnitude angle =
     (if width < 3 \<or> height < 3 then None
      else
        let w = nat width; h = nat height
        in Some (raster w h (\<lambda>x y. if inner_pixel w h x y then fst (gradient_response w source x y) else pix w magnitude x y),
                 raster w h (\<lambda>x y. if inner_pixel w h x y then snd (gradient_response w source x y) else pix w angle x y)))"

section \<open>Symmetry\<close>

text \<open>
  The angle respects the quadrants. The magnitude of a vector does not depend on the signs of its
  parts, turning the vector upside down negates the angle, and mirroring it at the vertical axis takes
  the angle from a half turn (all modulo \<open>2 ^ 16\<close>, as the code stores angles).
\<close>

theorem vector_angle_quadrants:
  assumes "0 < v" "v \<le> 2147483647" and "0 < h" "h \<le> 2147483647"
  shows "fst (gx_feature_vector_angle_magnitude (- v) h) = - fst (gx_feature_vector_angle_magnitude v h)
    \<and> fst (gx_feature_vector_angle_magnitude v (- h))
        = GX_FEATURE_VECTOR_ANGLE_HALF - fst (gx_feature_vector_angle_magnitude v h)
    \<and> fst (gx_feature_vector_angle_magnitude (- v) (- h))
        = fst (gx_feature_vector_angle_magnitude v h) - GX_FEATURE_VECTOR_ANGLE_HALF
    \<and> snd (gx_feature_vector_angle_magnitude (- v) h) = snd (gx_feature_vector_angle_magnitude v h)
    \<and> snd (gx_feature_vector_angle_magnitude v (- h)) = snd (gx_feature_vector_angle_magnitude v h)
    \<and> snd (gx_feature_vector_angle_magnitude (- v) (- h)) = snd (gx_feature_vector_angle_magnitude v h)"
proof -
  have a: "magnitude_of v = v" "magnitude_of (- v) = v" "magnitude_of h = h" "magnitude_of (- h) = h"
    using assms by (simp_all add: magnitude_of_def wrap_neg_i32_def i32_exact)
  obtain lst v' h' angle where r: "rotation_loop [0..<13] 0 (v, h, 0) = (lst, v', h', angle)" by (rule prod_cases4)
  have wrap: "(0xcdbc :: u16) = - 0x3244" by simp
  show ?thesis
    using assms unfolding gx_feature_vector_angle_magnitude_def a r Let_def prod.case
    by (simp add: GX_FEATURE_VECTOR_ANGLE_HALF_def wrap)
qed

theorem vector_angle_quadrants_witness:
  "fst (gx_feature_vector_angle_magnitude (- 3) 5) = - fst (gx_feature_vector_angle_magnitude 3 5)"
  using vector_angle_quadrants [of 3 5] by simp

section \<open>Bounds\<close>

lemma shift_right_div: "arithmetic_shift_right_i32 v k = v div 2 ^ k"
proof -
  have "NOT (drop_bit k (NOT v)) = drop_bit k v" by (rule bit_eqI) (simp add: bit_simps)
  then show ?thesis by (simp add: arithmetic_shift_right_i32_def drop_bit_eq_div)
qed

text \<open>How far the parts of a vector can grow: step \<open>k\<close> adds at most the other part shifted right by \<open>k\<close>, and one.\<close>

fun rotation_bound :: "nat \<Rightarrow> int" where
  "rotation_bound 0 = 268435456"
| "rotation_bound (Suc k) = rotation_bound k + rotation_bound k div 2 ^ k + 1"

lemma rotation_bound_pos: "0 < rotation_bound k"
  by (induction k) (auto intro: add_pos_nonneg simp: pos_imp_zdiv_nonneg_iff)

lemma rotation_bound_mono: "j \<le> k \<Longrightarrow> rotation_bound j \<le> rotation_bound k"
proof (induction k)
  case (Suc k)
  have "0 \<le> rotation_bound k div 2 ^ k" using rotation_bound_pos [of k] by (simp add: pos_imp_zdiv_nonneg_iff)
  with Suc show ?case by (cases "j = Suc k") auto
qed simp

lemma rotation_bound_13: "rotation_bound 13 < 1300000000"
  by (simp add: numeral_eq_Suc)

definition within :: "nat \<Rightarrow> int \<times> int \<times> u16 \<Rightarrow> bool" where
  "within k st \<longleftrightarrow> (case st of (v, h, a) \<Rightarrow> \<bar>v\<bar> \<le> rotation_bound k \<and> 0 \<le> h \<and> h \<le> rotation_bound k)"

lemma div_abs_bound: "\<bar>v\<bar> \<le> b \<Longrightarrow> \<bar>v div 2 ^ k\<bar> \<le> b div 2 ^ k + (1 :: int)"
proof -
  assume b: "\<bar>v\<bar> \<le> b"
  have "v div 2 ^ k \<le> b div 2 ^ k" using b by (intro zdiv_mono1) auto
  moreover have "- (b div 2 ^ k) - 1 \<le> v div 2 ^ k"
  proof -
    have "- b div 2 ^ k \<le> v div 2 ^ k" using b by (intro zdiv_mono1) auto
    moreover have "- (b div 2 ^ k) - 1 \<le> - b div 2 ^ k" by (simp add: zdiv_zminus1_eq_if)
    ultimately show ?thesis by linarith
  qed
  ultimately show ?thesis by linarith
qed

lemma step_within:
  assumes "within k st" and "k < 13"
  shows "within (Suc k) (rotation_step k st)"
proof -
  obtain v h a where st: "st = (v, h, a)" by (rule prod_cases3)
  let ?b = "rotation_bound k" and ?v = "v div 2 ^ k" and ?h = "h div 2 ^ k"
  have b: "\<bar>v\<bar> \<le> ?b" "0 \<le> h" "h \<le> ?b" using assms(1) by (simp_all add: within_def st)
  have h: "0 \<le> ?h" "?h \<le> ?b div 2 ^ k" using b by (simp_all add: pos_imp_zdiv_nonneg_iff zdiv_mono1)
  have v: "\<bar>?v\<bar> \<le> ?b div 2 ^ k + 1" using b(1) by (rule div_abs_bound)
  have big: "?b + ?b div 2 ^ k + 1 < 1300000000"
    using rotation_bound_mono [of "Suc k" 13] rotation_bound_13 assms(2) by simp
  have sign: "v < 1 \<Longrightarrow> ?v \<le> 0" "\<not> v < 1 \<Longrightarrow> 0 \<le> ?v"
    by (simp_all add: div_nonpos_pos_le0 pos_imp_zdiv_nonneg_iff)
  show ?thesis
    using b h v big sign
    by (auto simp: within_def st rotation_step_def shift_right_div wrap_add_i32_def wrap_neg_i32_def i32_exact Let_def)
qed

lemma loop_within:
  "k \<le> 13 \<Longrightarrow> within k st \<Longrightarrow> rotation_loop [k..<13] lst st = (lst', v, h, a) \<Longrightarrow>
   0 \<le> h \<and> h < 1300000000"
proof (induction "13 - k" arbitrary: k lst st)
  case 0
  then have "k = 13" by simp
  with 0 rotation_bound_13 show ?case by (auto simp: within_def)
next
  case (Suc n)
  then have k: "k < 13" by simp
  then have up: "[k..<13] = k # [Suc k..<13]" by (rule upt_conv_Cons)
  note w = step_within [OF Suc.prems(2) k]
  show ?case
  proof (cases "fst (rotation_step k st) = 0")
    case True
    with Suc.prems up have "rotation_step k st = (v, h, a)" by (auto simp: Let_def)
    with w rotation_bound_mono [of "Suc k" 13] rotation_bound_13 k show ?thesis by (simp add: within_def)
  next
    case False
    with Suc.prems up have "rotation_loop [Suc k..<13] k (rotation_step k st) = (lst', v, h, a)" by (simp add: Let_def)
    with Suc.hyps k w show ?thesis by (intro Suc.hyps(1) [of "Suc k"]) auto
  qed
qed

lemma cordic_scale_bound: "0 \<le> cordic_scale ! i \<and> cordic_scale ! i \<le> 46341" if "i < 13"
proof -
  have "list_all (\<lambda>c. 0 \<le> c \<and> c \<le> 46341) cordic_scale" by (simp add: cordic_scale_def)
  with that show ?thesis by (simp add: list_all_length cordic_scale_def)
qed

lemma loop_last: "k < 13 \<Longrightarrow> fst (rotation_loop [k..<13] lst st) < 13"
proof (induction "13 - k" arbitrary: k lst st)
  case (Suc n)
  then have up: "[k..<13] = k # [Suc k..<13]" by (simp add: upt_conv_Cons)
  show ?case
  proof (cases "Suc k < 13")
    case True
    then show ?thesis using Suc.hyps(1) [of "Suc k"] Suc.hyps(2) up Suc.prems by (simp add: Let_def)
  next
    case False
    then show ?thesis using up Suc.prems by (simp add: Let_def)
  qed
qed simp

lemma vector_magnitude_bound:
  assumes "\<bar>v\<bar> \<le> 268435456" and "\<bar>h\<bar> \<le> 268435456"
  shows "0 \<le> snd (gx_feature_vector_angle_magnitude v h) \<and> snd (gx_feature_vector_angle_magnitude v h) \<le> 2147483647"
proof -
  have m: "magnitude_of v = \<bar>v\<bar>" "magnitude_of h = \<bar>h\<bar>"
    using assms by (auto simp: magnitude_of_def wrap_neg_i32_def i32_exact)
  obtain lst v' h' a where r: "rotation_loop [0..<13] 0 (\<bar>v\<bar>, \<bar>h\<bar>, 0) = (lst, v', h', a)" by (rule prod_cases4)
  have h': "0 \<le> h'" "h' < 1300000000"
    using loop_within [OF _ _ r] assms by (simp_all add: within_def)
  have "lst < 13" using loop_last [of 0 0 "(\<bar>v\<bar>, \<bar>h\<bar>, 0)"] r by simp
  then have c: "0 \<le> cordic_scale ! lst" "cordic_scale ! lst \<le> 46341" using cordic_scale_bound by simp_all
  define q where "q = cordic_scale ! lst * h' + 0x8000"
  have "cordic_scale ! lst * h' \<le> 46341 * 1300000000" using c h' by (intro mult_mono) auto
  moreover have "0 \<le> cordic_scale ! lst * h'" using c h' by simp
  ultimately have "0 \<le> q" "q \<le> 46341 * 1300000000 + 0x8000" by (simp_all add: q_def)
  then have d: "0 \<le> q div 65536" "q div 65536 \<le> 2147483647" by (simp_all add: pos_imp_zdiv_nonneg_iff)
  then have "i32 (drop_bit 16 q) = q div 65536" by (simp add: drop_bit_eq_div i32_exact)
  with d assms show ?thesis
    unfolding gx_feature_vector_angle_magnitude_def m r Let_def prod.case q_def [symmetric]
    by (auto split: if_splits)
qed

lemma gradient_bound:
  assumes "\<forall>p \<in> set source. \<bar>p\<bar> \<le> 32767" and "length source = w * h" and "inner_pixel w h x y"
  shows "0 \<le> fst (gradient_response w source x y) \<and> fst (gradient_response w source x y) \<le> 0x3ffff"
proof -
  have xy: "x + 1 < w" "y + 1 < h" "0 < x" "0 < y" using assms(3) by (auto simp: inner_pixel_def)
  let ?i = "y * w + x"
  have next_row: "?i + w < w * h" using index_less [of x w "y + 1" h] xy by (simp add: algebra_simps)
  have "?i + 1 < w * h" using index_less [of "x + 1" w y h] xy by (simp add: algebra_simps)
  then have idx: "?i + 1 < length source" "?i - 1 < length source" "?i + w < length source" "?i - w < length source"
    using next_row assms(2) by linarith+
  have near: "\<bar>source ! j\<bar> \<le> 32767" if "j < length source" for j using assms(1) that nth_mem by blast
  define g where "g = (\<lambda>a b. push_bit 12 (clamp_gradient (wrap_sub_i32 a b)))"
  have g: "\<bar>g a b\<bar> \<le> 268435456" if "\<bar>a\<bar> \<le> 32767" "\<bar>b\<bar> \<le> 32767" for a b
    using that by (auto simp: g_def wrap_sub_i32_def i32_exact clamp_gradient_def push_bit_eq_mult)
  let ?v = "g (source ! (?i + w)) (source ! (?i - w))" and ?h = "g (source ! (?i + 1)) (source ! (?i - 1))"
  have vh: "\<bar>?v\<bar> \<le> 268435456" "\<bar>?h\<bar> \<le> 268435456" using near idx by (simp_all add: g)
  then have e: "i32 ?v = ?v" "i32 ?h = ?h" by (simp_all add: i32_exact)
  have "0 \<le> snd (gx_feature_vector_angle_magnitude ?v ?h)" using vector_magnitude_bound [OF vh] by simp
  then show ?thesis
    using e by (auto simp: gradient_response_def g_def shift_right_div pos_imp_zdiv_nonneg_iff Let_def split_beta)
qed

text \<open>
  The response map stays in its range. For a source image with values of at most 15 bits (the
  extractor's are smaller), no step of the rotation wraps, every inner magnitude is between 0 and
  \<open>0x3ffff\<close>, and the border of both arrays is left as it was.
\<close>

theorem response_map_bounds:
  assumes "3 \<le> width" "3 \<le> height" and "length source = nat width * nat height"
    and "length mag = nat width * nat height" and "\<forall>p \<in> set source. \<bar>p\<bar> \<le> 32767"
  shows "\<exists>mag' angle'. gx_feature_build_response_map source width height mag angle = Some (mag', angle')
    \<and> length mag' = length source \<and> length angle' = length source
    \<and> (\<forall>x < nat width. \<forall>y < nat height.
          if inner_pixel (nat width) (nat height) x y
          then 0 \<le> pix (nat width) mag' x y \<and> pix (nat width) mag' x y \<le> 0x3ffff
          else pix (nat width) mag' x y = pix (nat width) mag x y \<and> pix (nat width) angle' x y = pix (nat width) angle x y)"
  using assms gradient_bound [OF assms(5,3)]
  by (auto simp: gx_feature_build_response_map_def Let_def)

theorem response_map_bounds_witness:
  "\<exists>mag' angle'. gx_feature_build_response_map [0, 0, 0, 5, 9, 300, 0, 0, 0] 3 3 (replicate 9 7) (replicate 9 7)
     = Some (mag', angle') \<and> length mag' = 9 \<and> 0 \<le> pix 3 mag' 1 1 \<and> pix 3 mag' 1 1 \<le> 0x3ffff \<and> pix 3 mag' 0 0 = 7"
proof -
  let ?s = "[0, 0, 0, 5, 9, 300, 0, 0, 0] :: int list" and ?m = "replicate 9 7 :: int list"
  obtain mag' angle' where m: "gx_feature_build_response_map ?s 3 3 ?m ?m = Some (mag', angle')"
    and len: "length mag' = length ?s"
    and px: "\<And>x y. x < nat 3 \<Longrightarrow> y < nat 3 \<Longrightarrow> if inner_pixel (nat 3) (nat 3) x y
          then 0 \<le> pix (nat 3) mag' x y \<and> pix (nat 3) mag' x y \<le> 0x3ffff
          else pix (nat 3) mag' x y = pix (nat 3) ?m x y \<and> pix (nat 3) angle' x y = pix (nat 3) ?m x y"
    using response_map_bounds [of 3 3 ?s ?m ?m] by auto
  have "inner_pixel (nat 3) (nat 3) 1 1" "\<not> inner_pixel (nat 3) (nat 3) 0 0" by (simp_all add: inner_pixel_def)
  with px [of 1 1] px [of 0 0] m len show ?thesis by (simp add: pix_def)
qed

end
