(* ===== verification/Quality.thy ===== *)
theory Quality
  imports Filters Response
begin

text \<open>
  Quality of features: \<open>src/gx_feature_quality_map.c\<close> (gradients, summed-area tables, window score and local
  classes) and \<open>src/gx_feature_quality_post.c\<close> (quality per record and the neighbour quality). The int32
  tables of the code are filled by truncating 64-bit sums, so they are tables of words, read as signed
  numbers. Records are the lists of their 60 bytes.
\<close>

section \<open>Gradients and tables\<close>

definition gx_valid_image :: "int \<Rightarrow> int \<Rightarrow> bool" where
  "gx_valid_image width height \<longleftrightarrow> width > 0 \<and> height > 0 \<and> height \<le> (2 ^ 64 - 1) div width"

definition mask_around :: "u8 list \<Rightarrow> nat \<Rightarrow> nat \<Rightarrow> nat \<Rightarrow> bool" where
  "mask_around msk stride x y =
     list_all (\<lambda>yy. list_all (\<lambda>xx. msk ! ((y + yy - 1) * stride + (x + xx - 1)) \<noteq> 0) [0..<3]) [0..<3]"

definition gx_feature_quality_gradient ::
    "u8 list \<Rightarrow> u8 list \<Rightarrow> int \<Rightarrow> int \<Rightarrow> int \<Rightarrow> int \<Rightarrow> (int list \<times> int list \<times> int list) option" where
  "gx_feature_quality_gradient gray msk width height gray_stride mask_stride =
     (if \<not> gx_valid_image width height \<or> gray_stride < width \<or> mask_stride < width then None
      else
        let w = nat width; h = nat height; gs = nat gray_stride; ms = nat mask_stride;
            valid = (\<lambda>x y. inner_pixel w h x y \<and> mask_around msk ms x y);
            dx = (\<lambda>x y. uint (pix gs gray (x + 1) y) - uint (pix gs gray (x - 1) y));
            dy = (\<lambda>x y. uint (pix gs gray x (y + 1)) - uint (pix gs gray x (y - 1)))
        in Some (raster w h (\<lambda>x y. if valid x y then dx x y else 0),
                 raster w h (\<lambda>x y. if valid x y then dy x y else 0),
                 raster w h (\<lambda>x y. if valid x y then dx x y * dx x y + dy x y * dy x y else 0)))"

text \<open>The mask and the gradients after the filter, and the four tables.\<close>

record quality_tables =
  qt_mask :: "u8 list"
  qt_x :: "int list"
  qt_y :: "int list"
  integral_mask :: "u32 list"
  integral_x_squared :: "u32 list"
  integral_y_squared :: "u32 list"
  integral_xy :: "u32 list"

definition gx_feature_quality_integrals ::
    "u8 list \<Rightarrow> int list \<Rightarrow> int list \<Rightarrow> int list \<Rightarrow> int \<Rightarrow> int \<Rightarrow> quality_tables option" where
  "gx_feature_quality_integrals msk gradient_x gradient_y magnitude_squared width height =
     (if \<not> gx_valid_image width height then None
      else
        let w = nat width; h = nat height;
            flat = (\<lambda>i. magnitude_squared ! i < 25 \<or> msk ! i = 0);
            gx = map (\<lambda>i. if flat i then 0 else gradient_x ! i) [0..<w * h];
            gy = map (\<lambda>i. if flat i then 0 else gradient_y ! i) [0..<w * h];
            m = map (\<lambda>i. if flat i then 0 else msk ! i) [0..<w * h]
        in Some \<lparr>qt_mask = m, qt_x = gx, qt_y = gy,
                 integral_mask = integral_table w h (map (\<lambda>b. of_int (uint b)) m),
                 integral_x_squared = integral_table w h (map (\<lambda>i. of_int (gx ! i * gx ! i)) [0..<w * h]),
                 integral_y_squared = integral_table w h (map (\<lambda>i. of_int (gy ! i * gy ! i)) [0..<w * h]),
                 integral_xy = integral_table w h (map (\<lambda>i. of_int (gx ! i * gy ! i)) [0..<w * h])\<rparr>)"

section \<open>Windows\<close>

definition gx_feature_integral_rect_sum :: "u32 list \<Rightarrow> int \<Rightarrow> int \<Rightarrow> int \<Rightarrow> int \<Rightarrow> int \<Rightarrow> int \<Rightarrow> int" where
  "gx_feature_integral_rect_sum integral left up right bottom height width =
     (if left < 0 \<or> right \<ge> width \<or> up < 0 \<or> bottom \<ge> height \<or> width \<le> 0 \<or> height \<le> 0 then 0
      else
        let left_before = (if left - 1 < 0 then 0 else left - 1);
            right = (if right > width - 1 then width - 1 else right);
            top_before = (if up - 1 < 0 then 0 else up - 1);
            bottom = (if bottom > height - 1 then height - 1 else bottom);
            entry = (\<lambda>x y. sint (integral ! nat (x + y * width)))
        in i32 (entry left_before top_before - entry left_before bottom
                - entry right top_before + entry right bottom))"

definition coherence_score :: "int \<Rightarrow> int \<Rightarrow> int \<Rightarrow> int \<Rightarrow> int" where
  "coherence_score count sum_xx sum_yy sum_xy =
     (let half = count div 2;
          mean_xx = trunc_div (sum_xx + half) count;
          mean_yy = trunc_div (sum_yy + half) count;
          mean_xy = trunc_div (sum_xy + half) count;
          mean_energy = trunc_div (mean_yy + mean_xx) 2;
          ratio = trunc_div ((mean_yy * mean_xx - mean_xy * mean_xy) * 65536) (mean_energy * mean_energy + 1);
          ratio = (if ratio < 0 then 0 else ratio);
          nonnegative = (if ratio > INT32_MAX then INT32_MAX else ratio)
      in if 65536 - nonnegative > 0 then 65536 - nonnegative else 0)"

definition gx_feature_quality_window_score ::
    "quality_tables \<Rightarrow> int \<Rightarrow> int \<Rightarrow> int \<Rightarrow> int \<Rightarrow> int \<Rightarrow> int \<Rightarrow> int" where
  "gx_feature_quality_window_score t width height left up right bottom =
     (if width \<le> 0 \<or> height \<le> 0 then 0
      else
        let area = (right - left + 1) * (bottom - up + 1);
            sum_of = (\<lambda>table. gx_feature_integral_rect_sum table left up right bottom height width);
            count = sum_of (integral_mask t)
        in if count > 0 \<and> trunc_div area 2 \<le> count
           then coherence_score count (sum_of (integral_x_squared t)) (sum_of (integral_y_squared t))
                  (sum_of (integral_xy t))
           else 0)"

section \<open>Quality of the records\<close>

definition GX_FEATURE_RECORD_BYTES :: nat where "GX_FEATURE_RECORD_BYTES = 0x3c"
definition GX_FEATURE_MAX_RECORDS :: nat where "GX_FEATURE_MAX_RECORDS = 120"

definition gx_valid_dims :: "int \<Rightarrow> int \<Rightarrow> int \<Rightarrow> int \<Rightarrow> bool" where
  "gx_valid_dims width height gray_stride mask_stride \<longleftrightarrow>
     width \<ge> 3 \<and> height \<ge> 3 \<and> gray_stride \<ge> width \<and> mask_stride \<ge> width \<and> height \<le> (2 ^ 64 - 1) div width"

fun mallocs :: "environment \<Rightarrow> nat list \<Rightarrow> history \<Rightarrow> bool list \<times> history" where
  "mallocs env [] h = ([], h)"
| "mallocs env (n # ns) h =
     (let (r, h1) = ext_do env (Malloc n) h; (oks, h2) = mallocs env ns h1
      in ((\<not> isl (reply_rc r)) # oks, h2))"

fun frees :: "environment \<Rightarrow> bool list \<Rightarrow> history \<Rightarrow> history" where
  "frees env [] h = h"
| "frees env (ok # oks) h = frees env oks (if ok then snd (ext_do env Free h) else h)"

definition record_window_score :: "quality_tables \<Rightarrow> int \<Rightarrow> int \<Rightarrow> u8 list \<Rightarrow> int" where
  "record_window_score t width height rec =
     (let x = uint (rec ! 3); y = uint (rec ! 5)
      in gx_feature_quality_window_score t width height (max (x - 16) 1) (max (y - 16) 1)
           (min (x + 16) (width - 2)) (min (y + 16) (height - 2)))"

definition gx_feature_record_window_quality ::
    "environment \<Rightarrow> u8 list \<Rightarrow> u8 list \<Rightarrow> int \<Rightarrow> int \<Rightarrow> int \<Rightarrow> int \<Rightarrow> u8 list list \<Rightarrow> u8 list \<Rightarrow> history \<Rightarrow>
     u8 list option \<times> history" where
  "gx_feature_record_window_quality env gray msk width height gray_stride mask_stride records quality_out h =
     (if length records > GX_FEATURE_MAX_RECORDS \<or> \<not> gx_valid_dims width height gray_stride mask_stride
      then (None, h)
      else
        let pixels = nat width * nat height;
            (oks, h1) = mallocs env [pixels, pixels, pixels * 4, pixels * 4, pixels * 4, pixels * 4, pixels * 4,
                                     pixels * 4, pixels * 4] h;
            flat_gray = raster (nat width) (nat height) (pix (nat gray_stride) gray);
            flat_mask = raster (nat width) (nat height) (pix (nat mask_stride) msk);
            result =
              (if \<not> list_all id oks then None
               else case gx_feature_quality_gradient flat_gray flat_mask width height width width of
                   None \<Rightarrow> None
                 | Some (gx, gy, magnitude) \<Rightarrow>
                     (case gx_feature_quality_integrals flat_mask gx gy magnitude width height of
                        None \<Rightarrow> None
                      | Some t \<Rightarrow> Some (mem_write quality_out 0
                            (map (\<lambda>rec. of_int (drop_bit 16 (record_window_score t width height rec * 100))) records))))
        in (result, frees env oks h1))"

section \<open>The window sums are true sums\<close>

lemma rect_sum_box:
  assumes "1 \<le> l" "l \<le> r" "r < w" and "1 \<le> t" "t \<le> b" "b < h"
  shows "gx_feature_integral_rect_sum (integral_table w h v) (int l) (int t) (int r) (int b) (int h) (int w)
    = sint (box_sum (pix w v) l t r b)"
proof -
  have at: "nat (int x + int y * int w) = y * w + x" for x y
    by (simp add: nat_int_add flip: of_nat_mult)
  have before: "int l - 1 = int (l - 1)" "int t - 1 = int (t - 1)" using assms by simp_all
  have word: "i32 (sint a - sint b - sint c + sint d) = sint (a - b - c + d)" for a b c d :: u32
  proof -
    have "sint (word_of_int k :: u32) = signed_take_bit 31 k" for k by (simp add: signed_of_int)
    from this [of "sint a - sint b - sint c + sint d"] show ?thesis by (simp add: i32_def)
  qed
  let ?T = "pix w (integral_table w h v)"
  have sum: "box_sum (pix w v) l t r b = ?T (l - 1) (t - 1) - ?T (l - 1) b - ?T r (t - 1) + ?T r b"
    using assms integral.box_of_table [where w = w and h = h and v = v and l = l and r = r and t = t and b = b] by simp
  have "gx_feature_integral_rect_sum (integral_table w h v) (int l) (int t) (int r) (int b) (int h) (int w)
    = i32 (sint (?T (l - 1) (t - 1)) - sint (?T (l - 1) b) - sint (?T r (t - 1)) + sint (?T r b))"
    using assms at [of "l - 1" "t - 1", folded before] at [of "l - 1" b, folded before]
      at [of r "t - 1", folded before] at [of r b]
    by (simp add: gx_feature_integral_rect_sum_def pix_def)
  then show ?thesis by (simp only: word sum)
qed

lemma box_sum_of_int: "box_sum (\<lambda>x y. of_int (f x y)) l t r b = of_int (box_sum f l t r b)"
  by (simp add: box_sum_def)

lemma box_sum_cong:
  "(\<And>x y. l \<le> x \<Longrightarrow> x \<le> r \<Longrightarrow> t \<le> y \<Longrightarrow> y \<le> b \<Longrightarrow> f x y = g x y) \<Longrightarrow> box_sum f l t r b = box_sum g l t r b"
  by (simp add: box_sum_def)

lemma box_sum_abs:
  fixes f :: "nat \<Rightarrow> nat \<Rightarrow> int"
  assumes "\<And>x y. l \<le> x \<Longrightarrow> x \<le> r \<Longrightarrow> t \<le> y \<Longrightarrow> y \<le> b \<Longrightarrow> \<bar>f x y\<bar> \<le> k"
  shows "\<bar>box_sum f l t r b\<bar> \<le> int (Suc b - t) * (int (Suc r - l) * k)"
proof -
  have row: "\<bar>\<Sum>x = l..r. f x y\<bar> \<le> int (Suc r - l) * k" if "t \<le> y" "y \<le> b" for y
  proof -
    have "\<bar>\<Sum>x = l..r. f x y\<bar> \<le> (\<Sum>x = l..r. \<bar>f x y\<bar>)" by (rule sum_abs)
    also have "\<dots> \<le> of_nat (card {l..r}) * k" by (rule sum_bounded_above) (use assms that in auto)
    finally show ?thesis by simp
  qed
  have "\<bar>box_sum f l t r b\<bar> \<le> (\<Sum>y = t..b. \<bar>\<Sum>x = l..r. f x y\<bar>)" unfolding box_sum_def by (rule sum_abs)
  also have "\<dots> \<le> of_nat (card {t..b}) * (int (Suc r - l) * k)" by (rule sum_bounded_above) (use row in auto)
  finally show ?thesis by simp
qed

text \<open>On a window of at most 33 by 33 pixels no table entry wraps.\<close>

lemma window_sum:
  assumes "1 \<le> l" "l \<le> r" "r < w" "r \<le> l + 32" and "1 \<le> t" "t \<le> b" "b < h" "b \<le> t + 32"
    and "\<And>x y. x < w \<Longrightarrow> y < h \<Longrightarrow> \<bar>g (y * w + x)\<bar> \<le> 130050"
  shows "gx_feature_integral_rect_sum (integral_table w h (map (\<lambda>i. of_int (g i)) [0..<w * h]))
      (int l) (int t) (int r) (int b) (int h) (int w)
    = box_sum (\<lambda>x y. g (y * w + x)) l t r b"
proof -
  let ?s = "box_sum (\<lambda>x y. g (y * w + x)) l t r b"
  have "box_sum (pix w (map (\<lambda>i. of_int (g i)) [0..<w * h])) l t r b
      = box_sum (\<lambda>x y. of_int (g (y * w + x)) :: u32) l t r b"
    by (rule box_sum_cong) (use assms in \<open>simp add: pix_def index_less\<close>)
  then have word: "box_sum (pix w (map (\<lambda>i. of_int (g i)) [0..<w * h])) l t r b = (of_int ?s :: u32)"
    by (simp only: box_sum_of_int)
  have "\<bar>?s\<bar> \<le> int (Suc b - t) * (int (Suc r - l) * 130050)"
    by (rule box_sum_abs) (use assms in auto)
  also have "\<dots> \<le> 33 * (33 * 130050)" using assms by (intro mult_mono) auto
  finally have "sint (of_int ?s :: u32) = ?s"
    by (auto simp: signed_of_int intro!: signed_take_bit_int_eq_self)
  then show ?thesis using assms by (simp add: rect_sum_box word)
qed

section \<open>The quality of a record\<close>

text \<open>
  The reference: the gradient of the picture at a pixel, zero near a masked pixel and where it is weak,
  and the coherence of the gradients in the window around the record, summed pixel by pixel.
\<close>

definition strong_gradient ::
    "(nat \<Rightarrow> nat \<Rightarrow> u8) \<Rightarrow> (nat \<Rightarrow> nat \<Rightarrow> u8) \<Rightarrow> nat \<Rightarrow> nat \<Rightarrow> nat \<Rightarrow> nat \<Rightarrow> (int \<times> int) option" where
  "strong_gradient g m w h x y =
     (let dx = uint (g (x + 1) y) - uint (g (x - 1) y); dy = uint (g x (y + 1)) - uint (g x (y - 1))
      in if inner_pixel w h x y \<and> list_all (\<lambda>j. list_all (\<lambda>i. m (x + i - 1) (y + j - 1) \<noteq> 0) [0..<3]) [0..<3]
            \<and> 25 \<le> dx * dx + dy * dy
         then Some (dx, dy) else None)"

definition ridge_sum ::
    "(nat \<Rightarrow> nat \<Rightarrow> u8) \<Rightarrow> (nat \<Rightarrow> nat \<Rightarrow> u8) \<Rightarrow> nat \<Rightarrow> nat \<Rightarrow> (int \<times> int \<Rightarrow> nat \<Rightarrow> nat \<Rightarrow> int) \<Rightarrow> nat \<Rightarrow> nat \<Rightarrow> int" where
  "ridge_sum g m w h value x y =
     box_sum (\<lambda>x y. case strong_gradient g m w h x y of None \<Rightarrow> 0 | Some d \<Rightarrow> value d x y)
       (max (x - 16) 1) (max (y - 16) 1) (min (x + 16) (w - 2)) (min (y + 16) (h - 2))"

definition window_area :: "nat \<Rightarrow> nat \<Rightarrow> nat \<Rightarrow> nat \<Rightarrow> nat" where
  "window_area w h x y = (Suc (min (x + 16) (w - 2)) - max (x - 16) 1) * (Suc (min (y + 16) (h - 2)) - max (y - 16) 1)"

definition ridge_quality :: "(nat \<Rightarrow> nat \<Rightarrow> u8) \<Rightarrow> (nat \<Rightarrow> nat \<Rightarrow> u8) \<Rightarrow> nat \<Rightarrow> nat \<Rightarrow> nat \<Rightarrow> nat \<Rightarrow> int" where
  "ridge_quality g m w h x y =
     (let count = ridge_sum g m w h (\<lambda>d x y. uint (m x y)) x y
      in if 0 < count \<and> int (window_area w h x y) div 2 \<le> count
         then coherence_score count (ridge_sum g m w h (\<lambda>(dx, dy) x y. dx * dx) x y)
                (ridge_sum g m w h (\<lambda>(dx, dy) x y. dy * dy) x y) (ridge_sum g m w h (\<lambda>(dx, dy) x y. dx * dy) x y)
              * 100 div 65536
         else 0)"

lemma coherence_score_range: "0 \<le> coherence_score c xx yy xy \<and> coherence_score c xx yy xy \<le> 65536"
  by (simp add: coherence_score_def Let_def INT32_MAX_def)

lemma ridge_quality_range: "0 \<le> ridge_quality g m w h x y \<and> ridge_quality g m w h x y \<le> 100"
proof -
  have "c * 100 div 65536 \<le> 65536 * 100 div (65536 :: int)" if "c \<le> 65536" for c :: int
    by (rule zdiv_mono1) (use that in auto)
  then show ?thesis using coherence_score_range by (auto simp: ridge_quality_def Let_def pos_imp_zdiv_nonneg_iff)
qed

text \<open>The tables the code builds for a picture, and the window sums of the record read from them.\<close>

definition tables_of :: "u8 list \<Rightarrow> u8 list \<Rightarrow> nat \<Rightarrow> nat \<Rightarrow> quality_tables option" where
  "tables_of gray msk w h =
     (case gx_feature_quality_gradient gray msk (int w) (int h) (int w) (int w) of
        None \<Rightarrow> None
      | Some (gx, gy, mag) \<Rightarrow> gx_feature_quality_integrals msk gx gy mag (int w) (int h))"

lemma tables_of_picture:
  fixes w h g m
  defines "pixel \<equiv> (\<lambda>value i. case strong_gradient g m w h (i mod w) (i div w) of
      None \<Rightarrow> 0 | Some d \<Rightarrow> value d (i mod w) (i div w))"
  assumes "3 \<le> w" "3 \<le> h" "int h \<le> (2 ^ 64 - 1) div int w"
  shows "\<exists>t. tables_of (raster w h g) (raster w h m) w h = Some t
    \<and> integral_mask t = integral_table w h (map (\<lambda>i. of_int (pixel (\<lambda>d x y. uint (m x y)) i)) [0..<w * h])
    \<and> integral_x_squared t = integral_table w h (map (\<lambda>i. of_int (pixel (\<lambda>(dx, dy) x y. dx * dx) i)) [0..<w * h])
    \<and> integral_y_squared t = integral_table w h (map (\<lambda>i. of_int (pixel (\<lambda>(dx, dy) x y. dy * dy) i)) [0..<w * h])
    \<and> integral_xy t = integral_table w h (map (\<lambda>i. of_int (pixel (\<lambda>(dx, dy) x y. dx * dy) i)) [0..<w * h])"
proof -
  have dims: "gx_valid_image (int w) (int h)" using assms by (simp add: gx_valid_image_def)
  have inside: "Suc x < w \<and> x - 1 < w \<and> Suc y < h \<and> y - 1 < h \<and> x < w \<and> y < h" if "inner_pixel w h x y" for x y
    using that by (auto simp: inner_pixel_def)
  have around: "mask_around (raster w h m) w x y
      = list_all (\<lambda>j. list_all (\<lambda>i. m (x + i - 1) (y + j - 1) \<noteq> 0) [0..<3]) [0..<3]" if "inner_pixel w h x y" for x y
    unfolding mask_around_def
  proof (intro list.pred_cong refl)
    fix j i :: nat assume "j \<in> set [0..<3]" "i \<in> set [0..<3]"
    then have "x + i - 1 < w" "y + j - 1 < h" using that by (auto simp: inner_pixel_def)
    then show "(raster w h m ! ((y + j - 1) * w + (x + i - 1)) \<noteq> 0) = (m (x + i - 1) (y + j - 1) \<noteq> 0)"
      by (simp flip: pix_def)
  qed
  have near: "pix w (raster w h g) (Suc x) y = g (Suc x) y" "pix w (raster w h g) (x - Suc 0) y = g (x - Suc 0) y"
    "pix w (raster w h g) x (Suc y) = g x (Suc y)" "pix w (raster w h g) x (y - Suc 0) = g x (y - Suc 0)"
    if "inner_pixel w h x y" for x y
    using inside [OF that] by simp_all
  have middle: "list_all (\<lambda>j. list_all (\<lambda>i. m (x + i - 1) (y + j - 1) \<noteq> 0) [0..<3]) [0..<3] \<Longrightarrow> m x y \<noteq> 0" for x y
    by (simp add: upt_rec numeral_eq_Suc)
  define valid where "valid x y = (inner_pixel w h x y
      \<and> list_all (\<lambda>j. list_all (\<lambda>i. m (x + i - 1) (y + j - 1) \<noteq> 0) [0..<3]) [0..<3])" for x y
  define dx where "dx x y = uint (g (x + 1) y) - uint (g (x - 1) y)" for x y
  define dy where "dy x y = uint (g x (y + 1)) - uint (g x (y - 1))" for x y
  have strong: "strong_gradient g m w h x y
      = (if valid x y \<and> 25 \<le> dx x y * dx x y + dy x y * dy x y then Some (dx x y, dy x y) else None)" for x y
    by (auto simp: strong_gradient_def valid_def dx_def dy_def Let_def)
  have grad: "gx_feature_quality_gradient (raster w h g) (raster w h m) (int w) (int h) (int w) (int w)
    = Some (raster w h (\<lambda>x y. if valid x y then dx x y else 0), raster w h (\<lambda>x y. if valid x y then dy x y else 0),
            raster w h (\<lambda>x y. if valid x y then dx x y * dx x y + dy x y * dy x y else 0))"
    using dims unfolding gx_feature_quality_gradient_def Let_def
    by (auto intro!: raster_cong simp: around near valid_def dx_def dy_def)
  have flat: "((if valid x y then dx x y * dx x y + dy x y * dy x y else 0) < 25 \<or> m x y = 0)
      \<longleftrightarrow> strong_gradient g m w h x y = None" for x y
    using middle [where x = x and y = y] by (auto simp: strong) (simp_all add: valid_def)
  let ?S = "\<lambda>i. strong_gradient g m w h (i mod w) (i div w)"
  have lists: "map (\<lambda>i. if raster w h (\<lambda>x y. if valid x y then dx x y * dx x y + dy x y * dy x y else 0) ! i < 25
          \<or> raster w h m ! i = 0 then 0 else raster w h (\<lambda>x y. if valid x y then dx x y else 0) ! i) [0..<w * h]
      = map (\<lambda>i. case ?S i of None \<Rightarrow> 0 | Some d \<Rightarrow> fst d) [0..<w * h]"
    "map (\<lambda>i. if raster w h (\<lambda>x y. if valid x y then dx x y * dx x y + dy x y * dy x y else 0) ! i < 25
          \<or> raster w h m ! i = 0 then 0 else raster w h (\<lambda>x y. if valid x y then dy x y else 0) ! i) [0..<w * h]
      = map (\<lambda>i. case ?S i of None \<Rightarrow> 0 | Some d \<Rightarrow> snd d) [0..<w * h]"
    "map (\<lambda>i. if raster w h (\<lambda>x y. if valid x y then dx x y * dx x y + dy x y * dy x y else 0) ! i < 25
          \<or> raster w h m ! i = 0 then 0 else raster w h m ! i) [0..<w * h]
      = map (\<lambda>i. case ?S i of None \<Rightarrow> 0 | Some d \<Rightarrow> m (i mod w) (i div w)) [0..<w * h]"
    by (rule map_cong [OF refl], simp add: nth_raster flat strong split: option.split)+
  show ?thesis
    unfolding tables_of_def grad gx_feature_quality_integrals_def Let_def option.case prod.case nat_int lists
    using dims by (auto simp: pixel_def intro!: arg_cong [where f = "integral_table w h"] split: option.split)
qed

lemma record_score_ridge:
  fixes w h g m
  defines "pixel \<equiv> (\<lambda>value i. case strong_gradient g m w h (i mod w) (i div w) of
      None \<Rightarrow> 0 | Some d \<Rightarrow> value d (i mod w) (i div w))"
  assumes dims: "3 \<le> w" "3 \<le> h" and rec: "unat (rec ! 3) < w" "unat (rec ! 5) < h"
    and t: "integral_mask t = integral_table w h (map (\<lambda>i. of_int (pixel (\<lambda>d x y. uint (m x y)) i)) [0..<w * h])"
      "integral_x_squared t = integral_table w h (map (\<lambda>i. of_int (pixel (\<lambda>(dx, dy) x y. dx * dx) i)) [0..<w * h])"
      "integral_y_squared t = integral_table w h (map (\<lambda>i. of_int (pixel (\<lambda>(dx, dy) x y. dy * dy) i)) [0..<w * h])"
      "integral_xy t = integral_table w h (map (\<lambda>i. of_int (pixel (\<lambda>(dx, dy) x y. dx * dy) i)) [0..<w * h])"
  shows "drop_bit 16 (record_window_score t (int w) (int h) rec * 100)
    = ridge_quality g m w h (unat (rec ! 3)) (unat (rec ! 5))"
proof -
  define x where "x = unat (rec ! 3)"
  define y where "y = unat (rec ! 5)"
  define l where "l = max (x - 16) 1"
  define r where "r = min (x + 16) (w - 2)"
  define u where "u = max (y - 16) 1"
  define b where "b = min (y + 16) (h - 2)"
  have xy: "x < w" "y < h" using rec by (simp_all add: x_def y_def)
  have ints: "max (int x - 16) 1 = int l" "max (int y - 16) 1 = int u"
    "min (int x + 16) (int w - 2) = int r" "min (int y + 16) (int h - 2) = int b"
    using dims by (auto simp: l_def u_def r_def b_def)
  have win: "1 \<le> l" "l \<le> r" "r < w" "r \<le> l + 32" "1 \<le> u" "u \<le> b" "b < h" "b \<le> u + 32"
    using dims xy by (auto simp: l_def u_def r_def b_def)
  have total: "gx_feature_integral_rect_sum (integral_table w h (map (\<lambda>i. of_int (pixel val i)) [0..<w * h]))
      (int l) (int u) (int r) (int b) (int h) (int w) = ridge_sum g m w h val x y"
    if "\<And>d i j. strong_gradient g m w h i j = Some d \<Longrightarrow> \<bar>val d i j\<bar> \<le> 130050" for val
  proof -
    have "\<bar>pixel val (j * w + i)\<bar> \<le> 130050" for i j
      using that by (auto simp: pixel_def split: option.split)
    then have "gx_feature_integral_rect_sum (integral_table w h (map (\<lambda>i. of_int (pixel val i)) [0..<w * h]))
        (int l) (int u) (int r) (int b) (int h) (int w) = box_sum (\<lambda>i j. pixel val (j * w + i)) l u r b"
      by (intro window_sum win)
    also have "\<dots> = ridge_sum g m w h val x y"
      unfolding ridge_sum_def l_def [symmetric] u_def [symmetric] r_def [symmetric] b_def [symmetric]
      by (rule box_sum_cong) (use win in \<open>simp add: pixel_def split: option.split\<close>)
    finally show ?thesis .
  qed
  have diff: "\<bar>uint a - uint c\<bar> \<le> 255" for a c :: u8
  proof -
    have "uint a < 256" "uint c < 256" using uint_lt2p [of a] uint_lt2p [of c] by simp_all
    then show ?thesis using uint_ge_0 [of a] uint_ge_0 [of c] by linarith
  qed
  have small: "\<bar>dx\<bar> \<le> 255 \<and> \<bar>dy\<bar> \<le> 255" if "strong_gradient g m w h i j = Some (dx, dy)" for i j dx dy
    using that by (auto simp: strong_gradient_def Let_def diff split: if_splits)
  have product: "\<bar>a * c\<bar> \<le> 130050" if "\<bar>a\<bar> \<le> 255" "\<bar>c\<bar> \<le> 255" for a c :: int
  proof -
    have "\<bar>a\<bar> * \<bar>c\<bar> \<le> 255 * 255" by (rule mult_mono) (use that in auto)
    then show ?thesis by (simp add: abs_mult)
  qed
  have byte: "\<bar>uint (m i j)\<bar> \<le> 130050" for i j using uint_lt2p [of "m i j"] by simp
  have sums: "gx_feature_integral_rect_sum (integral_mask t) (int l) (int u) (int r) (int b) (int h) (int w)
      = ridge_sum g m w h (\<lambda>d x y. uint (m x y)) x y"
    "gx_feature_integral_rect_sum (integral_x_squared t) (int l) (int u) (int r) (int b) (int h) (int w)
      = ridge_sum g m w h (\<lambda>(dx, dy) x y. dx * dx) x y"
    "gx_feature_integral_rect_sum (integral_y_squared t) (int l) (int u) (int r) (int b) (int h) (int w)
      = ridge_sum g m w h (\<lambda>(dx, dy) x y. dy * dy) x y"
    "gx_feature_integral_rect_sum (integral_xy t) (int l) (int u) (int r) (int b) (int h) (int w)
      = ridge_sum g m w h (\<lambda>(dx, dy) x y. dx * dy) x y"
    unfolding t by (rule total, use byte small product in \<open>force split: prod.split\<close>)+
  have sides: "int r - int l + 1 = int (Suc r - l)" "int b - int u + 1 = int (Suc b - u)" using win by simp_all
  have area: "(int r - int l + 1) * (int b - int u + 1) = int (window_area w h x y)"
    unfolding window_area_def l_def [symmetric] u_def [symmetric] r_def [symmetric] b_def [symmetric] sides by simp
  have bytes: "uint (rec ! 3) = int x" "uint (rec ! 5) = int y" by (simp_all add: x_def y_def)
  have "record_window_score t (int w) (int h) rec
      = gx_feature_quality_window_score t (int w) (int h) (int l) (int u) (int r) (int b)"
    by (simp add: record_window_score_def Let_def bytes ints)
  then show ?thesis
    using dims unfolding x_def [symmetric] y_def [symmetric]
    by (simp add: gx_feature_quality_window_score_def ridge_quality_def Let_def sums area trunc_div_def drop_bit_eq_div)
qed

lemma mallocs_live:
  "mallocs env ns h = (oks, h') \<Longrightarrow> live_blocks env h' = live_blocks env h + int (length (filter id oks))"
  by (induction ns arbitrary: h oks h') (auto simp: Let_def ext_do_def split: prod.splits)

lemma frees_live: "live_blocks env (frees env oks h) = live_blocks env h - int (length (filter id oks))"
  by (induction oks arbitrary: h) (auto simp: ext_do_def)

lemma mallocs_succeed:
  assumes "malloc_works env"
  shows "list_all id (fst (mallocs env ns h))"
  using assms by (induction ns arbitrary: h) (simp_all add: malloc_works_def Let_def ext_do_def case_prod_beta)

text \<open>
  C28: the quality the code computes from its four wrapping 32-bit tables for a record inside the picture is
  the coherence of the true gradient sums over the window of 33 by 33 pixels around the record, a number
  from 0 to 100; and the nine scratch buffers, when the allocator serves them, are freed again.
\<close>

theorem record_quality_is_coherence:
  fixes w h gs ms :: nat
  assumes "malloc_works env"
    and "3 \<le> w" "w < 2 ^ 31" "3 \<le> h" "h < 2 ^ 31" and "w \<le> gs" "w \<le> ms"
    and "length recs \<le> GX_FEATURE_MAX_RECORDS" and "length recs \<le> length out"
    and "\<And>r. r \<in> set recs \<Longrightarrow> unat (r ! 3) < w \<and> unat (r ! 5) < h"
  shows "\<exists>q hist'. gx_feature_record_window_quality env gray msk (int w) (int h) (int gs) (int ms) recs out hist
      = (Some q, hist')
    \<and> live_blocks env hist' = live_blocks env hist
    \<and> length q = length out \<and> drop (length recs) q = drop (length recs) out
    \<and> map uint (take (length recs) q)
      = map (\<lambda>r. ridge_quality (pix gs gray) (pix ms msk) w h (unat (r ! 3)) (unat (r ! 5))) recs
    \<and> (\<forall>r \<in> set recs. ridge_quality (pix gs gray) (pix ms msk) w h (unat (r ! 3)) (unat (r ! 5)) \<in> {0..100})"
proof -
  have "int h * int w \<le> 2 ^ 31 * 2 ^ 31" using assms by (intro mult_mono) auto
  then have "int h * int w div int w \<le> (2 ^ 64 - 1) div int w" by (intro zdiv_mono1) (use assms in auto)
  then have room: "int h \<le> (2 ^ 64 - 1) div int w" using assms by simp
  obtain oks h1 where m: "mallocs env [w * h, w * h, w * h * 4, w * h * 4, w * h * 4, w * h * 4, w * h * 4,
      w * h * 4, w * h * 4] hist = (oks, h1)" by (rule prod.exhaust)
  then have ok: "list_all id oks" using mallocs_succeed [OF assms(1)] by (metis fst_conv)
  obtain t where t: "tables_of (raster w h (pix gs gray)) (raster w h (pix ms msk)) w h = Some t"
    and score: "\<And>r. r \<in> set recs \<Longrightarrow> drop_bit 16 (record_window_score t (int w) (int h) r * 100)
      = ridge_quality (pix gs gray) (pix ms msk) w h (unat (r ! 3)) (unat (r ! 5))"
    using tables_of_picture [OF assms(2,4) room, of "pix gs gray" "pix ms msk"] assms(10)
    by (blast intro: record_score_ridge [OF assms(2,4)])
  define quality where "quality r = ridge_quality (pix gs gray) (pix ms msk) w h (unat (r ! 3)) (unat (r ! 5))"
    for r :: "u8 list"
  define q where "q = mem_write out 0 (map (\<lambda>r. of_int (quality r)) recs)"
  have run: "gx_feature_record_window_quality env gray msk (int w) (int h) (int gs) (int ms) recs out hist
      = (Some q, frees env oks h1)"
  proof -
    have "gx_feature_record_window_quality env gray msk (int w) (int h) (int gs) (int ms) recs out hist
      = (Some (mem_write out 0 (map (\<lambda>r. of_int (drop_bit 16 (record_window_score t (int w) (int h) r * 100))) recs)),
         frees env oks h1)"
      using assms(2-8) room m ok t
      by (auto simp: gx_feature_record_window_quality_def gx_valid_dims_def tables_of_def Let_def split: option.splits)
    also have "map (\<lambda>r. of_int (drop_bit 16 (record_window_score t (int w) (int h) r * 100)) :: u8) recs
        = map (\<lambda>r. of_int (quality r)) recs"
      by (rule map_cong [OF refl]) (simp only: score quality_def)
    finally show ?thesis by (simp only: q_def)
  qed
  have "live_blocks env (frees env oks h1) = live_blocks env hist"
    using mallocs_live [OF m] by (simp add: frees_live)
  moreover have "length q = length out" "drop (length recs) q = drop (length recs) out"
    "take (length recs) q = map (\<lambda>r. of_int (quality r)) recs"
    using assms(9) by (simp_all add: q_def mem_write_def)
  moreover have range: "quality r \<in> {0..100}" for r by (simp add: quality_def ridge_quality_range)
  moreover have "uint (of_int (quality r) :: u8) = quality r" for r
    using range [of r] by (simp add: unsigned_of_int take_bit_int_eq_self)
  ultimately show ?thesis by (simp add: run quality_def)
qed

theorem record_quality_is_coherence_witness:
  "\<exists>q hist'. gx_feature_record_window_quality quiet_env [0, 0, 0, 9, 0, 60, 0, 200, 0] (replicate 9 1) 3 3 3 3
      [replicate 60 1] [7] [] = (Some q, hist') \<and> live_blocks quiet_env hist' = 0 \<and> length q = 1"
proof -
  have rs: "set [replicate 60 1 :: u8 list] = {replicate 60 1}" by simp
  show ?thesis
    using record_quality_is_coherence [of quiet_env 3 3 3 3 "[replicate 60 1]" "[7]"
        "[0, 0, 0, 9, 0, 60, 0, 200, 0]" "replicate 9 1" "[]"]
    by (force simp: malloc_works_def quiet_env_def GX_FEATURE_MAX_RECORDS_def rs live_blocks_def)
qed

end
