(* ===== verification/Regions.thy ===== *)
theory Regions
  imports Quality
begin

text \<open>
  Regions of a picture: \<open>gx_feature_quality_classify_local\<close> of \<open>src/gx_feature_quality_map.c\<close>, the neighbour quality
  of \<open>src/gx_feature_quality_post.c\<close> and \<open>src/gx_feature_global_postprocess.c\<close>, which lets the records of a feature
  object vote on the area around them. The record array of an object is the flat list of its bytes.
\<close>

section \<open>Local classes\<close>

record gx_feature_quality_stats =
  negative_percent :: int
  positive_percent :: int
  neutral_percent :: int

text \<open>
  The table and the sums are 32-bit, and so are the products; a 32-bit result that does not fit wraps. A C
  division by zero has no value: no theorem below allows it.
\<close>

definition local_average :: "u32 list \<Rightarrow> int \<Rightarrow> int \<Rightarrow> int \<Rightarrow> int \<Rightarrow> int \<Rightarrow> int" where
  "local_average integral rows columns radius x y =
     (let left = (if x - radius < 0 then 0 else x - radius);
          right = (if i32 (x + radius) > columns - 1 then columns - 1 else i32 (x + radius));
          up = (if y - radius < 0 then 0 else y - radius);
          bottom = (if i32 (y + radius) > rows - 1 then rows - 1 else i32 (y + radius));
          area = i32 ((right - left + 1) * (bottom - up + 1));
          entry = (\<lambda>x y. integral ! nat (x + y * columns));
          s = entry right bottom;
          s = (if left > 0 then s - entry (left - 1) bottom else s);
          s = (if up > 0 then s - entry right (up - 1) else s);
          s = (if left > 0 \<and> up > 0 then s + entry (left - 1) (up - 1) else s)
      in if area > 0 then trunc_div (i32 (sint s + area div 2)) area else 0)"

definition average_class :: "int \<Rightarrow> u8" where
  "average_class average = (if average < 2 then if average < - 3 then 0 else 0x80 else 0xff)"

definition gx_feature_quality_classify_local ::
    "environment \<Rightarrow> int list \<Rightarrow> int \<Rightarrow> int \<Rightarrow> int \<Rightarrow> history \<Rightarrow>
     (u8 list \<times> gx_feature_quality_stats) option \<times> history" where
  "gx_feature_quality_classify_local env vals rows columns radius h =
     (if \<not> gx_valid_image columns rows \<or> radius < 0 \<or> nat rows * nat columns > (2 ^ 64 - 1) div 4 then (None, h)
      else
        let pixels = nat rows * nat columns; (r, h1) = ext_do env (Calloc (pixels * 4)) h
        in if isl (reply_rc r) then (None, h1)
           else
             let integral = integral_table (nat columns) (nat rows) (map of_int vals);
                 out = raster (nat columns) (nat rows)
                         (\<lambda>x y. average_class (local_average integral rows columns radius (int x) (int y)));
                 percent = (\<lambda>c. trunc_div (i32 (i32 (int (length (filter (\<lambda>v. v = c) out))) * 100)) (i32 (int pixels)))
             in (Some (out, \<lparr>negative_percent = percent 0, positive_percent = percent 0xff,
                             neutral_percent = percent 0x80\<rparr>), snd (ext_do env Free h1)))"

section \<open>Neighbours\<close>

definition gx_neighbor_weight_table :: "int list" where
  "gx_neighbor_weight_table =
    [1,1,1,1,1,1,1,1,1,1,1,1,2,2,2,2,
     2,2,2,2,2,2,2,2,2,2,2,2,2,3,3,3,
     3,3,3,3,3,3,3,3,3,3,4,4,4,4,4,4,
     4,4,4,4,4,5,5,5,5,5,5,5,5,5,6,6,
     6,6,6,6,6,6,7,7,7,7,7,7,7,8,8,8,
     8,8,8,8,9,9,9,9,9,9,10,10,10,10,10,10,
     11,11,11,11,11,12,12,12,12,12,12,13,13,13,13,13,
     14,14,14,14,14,15,15,15,15,16,16,16,16,16,17,17,
     17,17,18,18,18,18,18,19,19,19,19,20,20,20,20,21,
     21,21,21,22,22,22,22,22,23,23,23,23,24,24,24,24,
     25,25,25,25,26,26,26,26,27,27,27,27,28,28,28,28,
     28,29,29,29,29,30,30,30,30,31,31,31,31,31,32,32,
     32,32,32,33,33,33,33,33,34,34,34,34,34,35,35,35,
     35,35,35,36,36,36,36,36,36,36,37,37,37,37,37,37,
     37,38,38,38,38,38,38,38,38,38,39,39,39,39,39,39,
     39,39,39,39,39,39,39,39,39,39,39,39,39,39,39,39]"

definition neighbor_step ::
    "u8 list list \<Rightarrow> u8 list \<Rightarrow> int list \<Rightarrow> nat \<Rightarrow> int \<times> int \<times> int \<Rightarrow> nat \<Rightarrow> int \<times> int \<times> int" where
  "neighbor_step recs feature_quality input_scores i acc j =
     (if j = i then acc
      else
        let (weight_sum, score_sum, divisor) = acc;
            dx = uint (recs ! j ! 3) - uint (recs ! i ! 3);
            dy = uint (recs ! i ! 5) - uint (recs ! j ! 5);
            distance_squared = dx * dx + dy * dy
        in if distance_squared = 0 \<or> distance_squared > 255 then acc
           else
             let weight = gx_neighbor_weight_table ! nat (255 - distance_squared);
                 weight = (if sint (feature_quality ! j) > 50 then drop_bit 3 (weight * 12) else weight)
             in (weight_sum + weight, score_sum + input_scores ! j, divisor + 100))"

definition neighbor_record ::
    "u8 list \<Rightarrow> int list \<Rightarrow> u8 list list \<times> int list \<Rightarrow> nat \<Rightarrow> u8 list list \<times> int list" where
  "neighbor_record feature_quality input_scores st i =
     (let (recs, output_scores) = st;
          (weight_sum, score_sum, divisor) =
            foldl (neighbor_step recs feature_quality input_scores i) (0, 0, 1) [0..<length recs];
          weight_sum = drop_bit 3 weight_sum;
          weight_sum = (if weight_sum > 100 then 100 else weight_sum)
      in (recs[i := (recs ! i)[0x39 := of_int weight_sum]],
          output_scores[i := signed_take_bit 7 (trunc_div (score_sum * 100) divisor)]))"

definition gx_feature_neighbor_quality ::
    "u8 list list \<Rightarrow> bool \<Rightarrow> u8 list \<Rightarrow> int list \<Rightarrow> int list \<Rightarrow> (u8 list list \<times> int list) option" where
  "gx_feature_neighbor_quality records enabled feature_quality input_scores output_scores =
     (if length records > GX_FEATURE_MAX_RECORDS then None
      else if \<not> enabled then Some (map (\<lambda>r. r[0x39 := 0]) records, output_scores)
      else Some (foldl (neighbor_record feature_quality input_scores) (records, output_scores) [0..<length records]))"

section \<open>The votes of the records\<close>

definition OUTPUT_MAP1 :: nat where "OUTPUT_MAP1 = 3"

definition flag_at :: "nat \<Rightarrow> nat" where "flag_at i = i * GX_FEATURE_RECORD_BYTES + 0x38"
definition x_at :: "nat \<Rightarrow> nat" where "x_at i = i * GX_FEATURE_RECORD_BYTES + 0x03"
definition y_at :: "nat \<Rightarrow> nat" where "y_at i = i * GX_FEATURE_RECORD_BYTES + 0x05"

definition mark_record :: "int \<Rightarrow> u8 list \<Rightarrow> u8 list \<times> nat \<Rightarrow> nat \<Rightarrow> u8 list \<times> nat" where
  "mark_record mode record_quality st i =
     (let (recs, marked) = st;
          flag = sint (recs ! flag_at i);
          quality = sint (record_quality ! i)
      in if flag > 0 \<or> (mode > 2 \<and> quality < 30) \<or> (mode > 1 \<and> quality < 20)
         then (recs[flag_at i := 2], marked + 1) else (recs, marked))"

definition vote_window :: "int \<Rightarrow> int \<Rightarrow> int \<Rightarrow> int \<Rightarrow> (int \<times> int) list" where
  "vote_window width height center_x center_y =
     concat (map (\<lambda>dx. map (\<lambda>dy. (center_x + dx, center_y + dy))
         (filter (\<lambda>dy. 0 \<le> center_y + dy \<and> center_y + dy < height) [- 15..14]))
       (filter (\<lambda>dx. 0 \<le> center_x + dx \<and> center_x + dx < width) [- 15..14]))"

definition vote_record :: "u32 \<Rightarrow> u32 \<Rightarrow> u8 list \<Rightarrow> u8 list \<Rightarrow> nat \<Rightarrow> u8 list" where
  "vote_record width height recs work_map i =
     (let delta = (if sint (recs ! flag_at i) > 0 then 1 else - 1)
      in foldl (\<lambda>m (x, y). let k = nat y * unat width + nat x in m[k := m ! k + delta]) work_map
           (vote_window (sint width) (sint height) (uint (recs ! x_at i)) (uint (recs ! y_at i))))"

definition settle_record :: "nat \<Rightarrow> u8 list \<Rightarrow> u8 list \<Rightarrow> nat \<Rightarrow> u8 list" where
  "settle_record width work_map recs i =
     (let map_value = sint (work_map ! (unat (recs ! y_at i) * width + unat (recs ! x_at i)));
          flag = sint (recs ! flag_at i)
      in if map_value = - 1 \<and> flag = 0 then recs[flag_at i := 3]
         else if map_value = 0 \<and> flag > 0 then recs[flag_at i := 0xff] else recs)"

definition gx_feature_global_postprocess ::
    "environment \<Rightarrow> gx_feature_object \<Rightarrow> int \<Rightarrow> int \<Rightarrow> history \<Rightarrow> u64 \<times> gx_feature_object \<times> history" where
  "gx_feature_global_postprocess env ob mode internal_profile h =
     (let width = fo_width ob; height = fo_height ob; count = unat (fo_record_count ob)
      in if count > GX_FEATURE_MAX_RECORDS \<or> count \<noteq> 0 \<and> fo_heap ob ! RECORD_ARRAY = None then (0, ob, h)
         else
           let (recs, marked) = foldl (mark_record mode (fo_record_quality ob))
                 (case fo_heap ob ! RECORD_ARRAY of None \<Rightarrow> [] | Some r \<Rightarrow> r, 0) [0..<count];
               with_records = (\<lambda>r. ob\<lparr>fo_heap := (fo_heap ob)[RECORD_ARRAY := Some r]\<rparr>);
               ob1 = (if marked = 0 then ob else with_records recs)
           in if marked = 0 \<or> width = 0 \<or> height = 0 \<or> unat height > (2 ^ 64 - 1) div unat width then (0, ob1, h)
              else case fo_heap ob ! OUTPUT_MAP1 of
                  None \<Rightarrow> (0, ob1, h)
                | Some output_map \<Rightarrow>
                    let pixels = unat width * unat height; (r, h1) = ext_do env (Calloc pixels) h
                    in if isl (reply_rc r) then (0, ob1, h1)
                       else
                         let work_map = foldl (vote_record width height recs) (replicate pixels 0) [0..<count];
                             (classes, h2) = gx_feature_quality_classify_local env (map sint work_map)
                               (sint height) (sint width) 15 h1
                         in case classes of
                              None \<Rightarrow> (0, ob1, snd (ext_do env Free h2))
                            | Some (work_map, stats) \<Rightarrow>
                                let recs = foldl (settle_record (unat width) work_map) recs [0..<count];
                                    nonpositive = length (filter (\<lambda>i. sint (recs ! flag_at i) < 1) [0..<count]);
                                    threshold = (if internal_profile = 7 \<or> internal_profile = 23 then 5 else 10);
                                    map_state = (if positive_percent stats \<ge> threshold
                                                 then if positive_percent stats > 64 then 2 else 1 else 0)
                                in (1, ob1\<lparr>fo_heap := (fo_heap ob1)[RECORD_ARRAY := Some recs,
                                              OUTPUT_MAP1 := Some (mem_write output_map 0 work_map)],
                                           fo_nonpositive := of_nat nonpositive,
                                           fo_positive_percent := of_int (positive_percent stats),
                                           fo_map_state := map_state\<rparr>, snd (ext_do env Free h2)))"

section \<open>The classes are those of the local means\<close>

definition local_mean :: "nat \<Rightarrow> nat \<Rightarrow> nat \<Rightarrow> (nat \<Rightarrow> nat \<Rightarrow> int) \<Rightarrow> nat \<Rightarrow> nat \<Rightarrow> int" where
  "local_mean w h rad f x y =
     (let l = x - rad; r = min (x + rad) (w - 1); u = y - rad; b = min (y + rad) (h - 1);
          area = int ((Suc r - l) * (Suc b - u))
      in trunc_div (box_sum f l u r b + area div 2) area)"

text \<open>Pictures of at most \<open>2 ^ 23\<close> pixels with values of at most 128: no sum of the code wraps.\<close>

lemma sides_le:
  assumes "0 < w" "0 < h" "w * h \<le> n"
  shows "w \<le> n \<and> h \<le> (n :: nat)"
proof -
  have "w \<le> w * h" using assms(2) by (cases h) auto
  then have "w \<le> n" using assms(3) by (rule order_trans)
  have "h \<le> w * h" using assms(1) by (cases w) auto
  then have "h \<le> n" using assms(3) by (rule order_trans)
  with \<open>w \<le> n\<close> show ?thesis ..
qed

lemma i32_nat: "n < 2 ^ 31 \<Longrightarrow> i32 (int n) = int n"
  by (simp add: i32_exact)

lemma local_average_mean:
  assumes "x < w" "y < h" and size: "w * h \<le> 2 ^ 23" and rad: "rad < 2 ^ 30"
    and v: "length v = w * h" "list_all (\<lambda>k. \<bar>k\<bar> \<le> 128) v"
  shows "local_average (integral_table w h (map of_int v)) (int h) (int w) (int rad) (int x) (int y) = local_mean w h rad (pix w v) x y"
proof -
  define l where "l = x - rad"
  define r where "r = min (x + rad) (w - 1)"
  define u where "u = y - rad"
  define b where "b = min (y + rad) (h - 1)"
  have small: "w \<le> 2 ^ 23" "h \<le> 2 ^ 23" using sides_le [OF _ _ size] assms(1,2) by auto
  have moved: "i32 (int x + int rad) = int x + int rad" "i32 (int y + int rad) = int y + int rad"
    using small assms(1,2) rad by (simp_all add: i32_exact)
  have ints: "(if int x - int rad < 0 then 0 else int x - int rad) = int l"
    "(if int x + int rad > int w - 1 then int w - 1 else int x + int rad) = int r"
    "(if int y - int rad < 0 then 0 else int y - int rad) = int u"
    "(if int y + int rad > int h - 1 then int h - 1 else int y + int rad) = int b"
    using assms by (auto simp: l_def r_def u_def b_def)
  have win: "l \<le> r" "r < w" "u \<le> b" "b < h" using assms by (auto simp: l_def r_def u_def b_def)
  have sides: "int r - int l + 1 = int (Suc r - l)" "int b - int u + 1 = int (Suc b - u)" using win by simp_all
  have at: "nat (int i + int j * int w) = j * w + i" for i j by (simp add: nat_int_add flip: of_nat_mult)
  have at_l: "nat (int l - 1 + int j * int w) = j * w + (l - 1)" if "0 < l" for j
    using at [of "l - 1" j] that by (simp add: of_nat_diff)
  have at_u: "nat (int i + (int u - 1) * int w) = (u - 1) * w + i" if "0 < u" for i
    using at [of i "u - 1"] that by (simp add: of_nat_diff)
  have at_lu: "nat (int l - 1 + (int u - 1) * int w) = (u - 1) * w + (l - 1)" if "0 < l" "0 < u"
    using at [of "l - 1" "u - 1"] that by (simp add: of_nat_diff)
  define a where "a = (Suc r - l) * (Suc b - u)"
  have "(Suc r - l) * (Suc b - u) \<le> w * h" using win by (intro mult_le_mono) auto
  then have a: "0 < a" "a \<le> 2 ^ 23" using win size by (auto simp: a_def)
  have area: "i32 ((int r - int l + 1) * (int b - int u + 1)) = int a"
    using a i32_nat [of a] unfolding sides by (simp add: a_def del: of_nat_Suc)
  define S where "S = box_sum (pix w v) l u r b"
  have S: "\<bar>S\<bar> \<le> 2 ^ 30"
  proof -
    have "\<bar>S\<bar> \<le> int (Suc b - u) * (int (Suc r - l) * 128)" unfolding S_def
    proof (rule box_sum_abs)
      fix i j assume "l \<le> i" "i \<le> r" "u \<le> j" "j \<le> b"
      then have "j * w + i < length v" using index_less [of i w j h] win v(1) by simp
      then show "\<bar>pix w v i j\<bar> \<le> 128" using v(2) by (simp add: pix_def list_all_length)
    qed
    also have "\<dots> = int a * 128" by (simp add: a_def mult.commute)
    also have "\<dots> \<le> 2 ^ 30" using a by simp
    finally show ?thesis .
  qed
  have "box_sum (pix w (map of_int v :: u32 list)) l u r b = of_int S"
  proof -
    have "box_sum (pix w (map of_int v :: u32 list)) l u r b = box_sum (\<lambda>x y. of_int (pix w v x y)) l u r b"
    proof (rule box_sum_cong)
      fix i j assume "l \<le> i" "i \<le> r" "u \<le> j" "j \<le> b"
      then show "pix w (map of_int v :: u32 list) i j = of_int (pix w v i j)"
        using index_less [of i w j h] win v(1) by (simp add: pix_def)
    qed
    then show ?thesis by (simp add: box_sum_of_int S_def)
  qed
  note box = this [unfolded integral.box_of_table [where w = w and h = h and v = "map of_int v :: u32 list" and l = l and r = r and t = u and b = b,
      OF TrueI win]]
  have signed: "sint (of_int S :: u32) = S" using S by (simp add: signed_of_int signed_take_bit_int_eq_self abs_le_iff)
  have s: "(let entry = (\<lambda>x y. integral_table w h (map of_int v :: u32 list) ! nat (x + y * int w));
          s = entry (int r) (int b);
          s = (if int l > 0 then s - entry (int l - 1) (int b) else s);
          s = (if int u > 0 then s - entry (int r) (int u - 1) else s)
      in if int l > 0 \<and> int u > 0 then s + entry (int l - 1) (int u - 1) else s) = of_int S"
    using box by (simp add: Let_def at at_l at_u at_lu pix_def split: if_splits)
  have "i32 (S + int a div 2) = S + int a div 2" using S a by (intro i32_exact) (auto simp: abs_le_iff)
  then show ?thesis
    using a(1) s signed unfolding local_average_def moved ints Let_def area local_mean_def
      l_def [symmetric] r_def [symmetric] u_def [symmetric] b_def [symmetric] a_def [symmetric] S_def [symmetric]
    by simp
qed

lemma classes_of_means:
  assumes "0 < w" "0 < h" and size: "w * h \<le> 2 ^ 23" "rad < 2 ^ 30"
    and vals: "length vals = w * h" "list_all (\<lambda>k. \<bar>k\<bar> \<le> 128) vals" and "\<not> isl (reply_rc (env hist (Calloc (h * w * 4))))"
  shows "\<exists>out stats hist'. gx_feature_quality_classify_local env vals (int h) (int w) (int rad) hist
      = (Some (out, stats), hist')
    \<and> live_blocks env hist' = live_blocks env hist
    \<and> out = raster w h (\<lambda>x y. average_class (local_mean w h rad (pix w vals) x y))
    \<and> negative_percent stats = int (length (filter (\<lambda>c. c = 0) out) * 100 div (w * h))
    \<and> positive_percent stats = int (length (filter (\<lambda>c. c = 0xff) out) * 100 div (w * h))
    \<and> neutral_percent stats = int (length (filter (\<lambda>c. c = 0x80) out) * 100 div (w * h))
    \<and> negative_percent stats + positive_percent stats + neutral_percent stats \<le> 100"
proof -
  define out where "out = raster w h (\<lambda>x y. average_class (local_mean w h rad (pix w vals) x y))"
  have few: "int h * int w \<le> 2 ^ 23" using size(1) by (simp add: mult.commute flip: of_nat_mult)
  then have "int h * int w div int w \<le> (2 ^ 64 - 1) div int w" by (intro zdiv_mono1) (use assms in auto)
  then have dims: "gx_valid_image (int w) (int h)" using assms(1,2) by (simp add: gx_valid_image_def)
  have room: "\<not> h * w > (2 ^ 64 - 1) div 4" using size(1) by (simp add: mult.commute)
  have same: "raster w h (\<lambda>x y. average_class (local_average (integral_table w h (map of_int vals)) (int h) (int w) (int rad) (int x) (int y)))
      = out"
    unfolding out_def by (rule raster_cong) (simp only: local_average_mean [OF _ _ size vals])
  have percent: "trunc_div (i32 (i32 (int (length (filter P out))) * 100)) (i32 (int h * int w))
      = int (length (filter P out) * 100 div (w * h))" for P
  proof -
    have "length (filter P out) \<le> w * h" using length_filter_le [of P out] by (simp add: out_def)
    then have "length (filter P out) \<le> 2 ^ 23" using size(1) by simp
    moreover have "i32 (int h * int w) = int h * int w"
      using size(1) i32_nat [of "h * w"] by (simp add: mult.commute)
    ultimately show ?thesis by (simp add: i32_exact trunc_div_def zdiv_int mult.commute)
  qed
  have "length (filter (\<lambda>c. c = 0) xs) + length (filter (\<lambda>c. c = 0xff) xs) + length (filter (\<lambda>c. c = 0x80) xs) \<le> length xs"
    for xs :: "u8 list" by (induction xs) auto
  from this [of out] have "(length (filter (\<lambda>c. c = 0) out) * 100 + length (filter (\<lambda>c. c = 0xff) out) * 100
      + length (filter (\<lambda>c. c = 0x80) out) * 100) div (w * h) \<le> (w * h) * 100 div (w * h)"
    by (intro div_le_mono) (simp add: out_def)
  then have counted: "length (filter (\<lambda>c. c = 0) out) * 100 div (w * h) + length (filter (\<lambda>c. c = 0xff) out) * 100 div (w * h)
      + length (filter (\<lambda>c. c = 0x80) out) * 100 div (w * h) \<le> 100"
    using assms(1,2) by (simp add: div_add1_eq [of "_ + _"] div_add1_eq [of "length _ * 100" "length _ * 100"])
  have live: "live_blocks env (hist @ [Calloc n, Free]) = live_blocks env hist"
    if "\<not> isl (reply_rc (env hist (Calloc n)))" for n
    using live_blocks_snoc [of env "hist @ [Calloc n]" Free] that by simp
  show ?thesis
    using assms room dims counted live
    by (simp add: gx_feature_quality_classify_local_def Let_def ext_do_def same percent nat_mult_distrib flip: out_def)
qed

text \<open>
  The class of a pixel is decided by the rounded mean of the true values in the square window around it,
  clipped at the border, and the three percentages count the classes written; the table is freed again.
\<close>

theorem local_classes:
  assumes "0 < w" "0 < h" and size: "w * h \<le> 2 ^ 23" "rad < 2 ^ 30"
    and vals: "length vals = w * h" "list_all (\<lambda>k. \<bar>k\<bar> \<le> 128) vals" and "\<not> isl (reply_rc (env hist (Calloc (h * w * 4))))"
  shows "\<exists>out stats hist'. gx_feature_quality_classify_local env vals (int h) (int w) (int rad) hist
      = (Some (out, stats), hist')
    \<and> live_blocks env hist' = live_blocks env hist
    \<and> out = raster w h (\<lambda>x y. average_class (local_mean w h rad (pix w vals) x y))
    \<and> negative_percent stats = int (length (filter (\<lambda>c. c = 0) out) * 100 div (w * h))
    \<and> positive_percent stats = int (length (filter (\<lambda>c. c = 0xff) out) * 100 div (w * h))
    \<and> neutral_percent stats = int (length (filter (\<lambda>c. c = 0x80) out) * 100 div (w * h))
    \<and> negative_percent stats + positive_percent stats + neutral_percent stats \<le> 100"
  by (rule classes_of_means [where env = env and hist = hist and rad = rad, OF assms])

theorem local_classes_witness:
  "\<exists>out stats hist'. gx_feature_quality_classify_local quiet_env [9, - 9, 0, 0] 2 2 0 []
      = (Some (out, stats), hist') \<and> out = [0xff, 0, 0x80, 0x80] \<and> neutral_percent stats = 50"
proof -
  have r: "raster 2 2 f = [f 0 0, f 1 0, f 0 1, f 1 1]" for f :: "nat \<Rightarrow> nat \<Rightarrow> u8"
    by (simp add: raster_def upt_rec)
  have "local_mean 2 2 0 f x y = f x y" if "x < 2" "y < 2" for f x y
  proof -
    have "min x 1 = x" "min y 1 = y" using that by auto
    then show ?thesis by (simp add: local_mean_def box_sum_def trunc_div_def)
  qed
  then show ?thesis
    using local_classes [of 2 2 0 "[9, - 9, 0, 0]" quiet_env "[]"]
    by (force simp: quiet_env_def r pix_def average_class_def)
qed

section \<open>Neighbour quality\<close>

definition near :: "u8 list list \<Rightarrow> nat \<Rightarrow> nat \<Rightarrow> int" where
  "near recs i j = (uint (recs ! j ! 3) - uint (recs ! i ! 3)) ^ 2 + (uint (recs ! i ! 5) - uint (recs ! j ! 5)) ^ 2"

definition neighbors :: "u8 list list \<Rightarrow> nat \<Rightarrow> nat list" where
  "neighbors recs i = filter (\<lambda>j. j \<noteq> i \<and> 0 < near recs i j \<and> near recs i j \<le> 255) [0..<length recs]"

definition neighbor_weight :: "u8 list list \<Rightarrow> u8 list \<Rightarrow> nat \<Rightarrow> nat \<Rightarrow> int" where
  "neighbor_weight recs fq i j =
     (let weight = gx_neighbor_weight_table ! nat (255 - near recs i j)
      in if sint (fq ! j) > 50 then weight * 12 div 8 else weight)"

definition neighbor_score :: "u8 list list \<Rightarrow> int list \<Rightarrow> nat \<Rightarrow> int" where
  "neighbor_score recs input_scores i =
     trunc_div (sum_list (map (\<lambda>j. input_scores ! j) (neighbors recs i)) * 100)
       (1 + 100 * int (length (neighbors recs i)))"

definition neighbor_density :: "u8 list list \<Rightarrow> u8 list \<Rightarrow> nat \<Rightarrow> int" where
  "neighbor_density recs fq i = min 100 (sum_list (map (neighbor_weight recs fq i) (neighbors recs i)) div 8)"

lemma near_pos: "0 \<le> near recs i j"
  by (simp add: near_def)

lemma neighbor_fold:
  "foldl (neighbor_step recs fq scores i) (a, b, c) js
    = (let ns = filter (\<lambda>j. j \<noteq> i \<and> 0 < near recs i j \<and> near recs i j \<le> 255) js
       in (a + sum_list (map (neighbor_weight recs fq i) ns), b + sum_list (map ((!) scores) ns), c + 100 * int (length ns)))"
proof (induction js arbitrary: a b c)
  case (Cons j js)
  have d: "(uint (recs ! j ! 3) - uint (recs ! i ! 3)) * (uint (recs ! j ! 3) - uint (recs ! i ! 3))
      + (uint (recs ! i ! 5) - uint (recs ! j ! 5)) * (uint (recs ! i ! 5) - uint (recs ! j ! 5)) = near recs i j"
    by (simp add: near_def power2_eq_square)
  have "neighbor_step recs fq scores i (a, b, c) j
      = (if j \<noteq> i \<and> 0 < near recs i j \<and> near recs i j \<le> 255
         then (a + neighbor_weight recs fq i j, b + scores ! j, c + 100) else (a, b, c))"
    using near_pos [of recs i j]
    by (auto simp: neighbor_step_def neighbor_weight_def Let_def d drop_bit_eq_div)
  then show ?case by (simp add: Cons.IH Let_def)
qed simp

text \<open>Updating byte \<open>0x39\<close> of a record does not move it, so the order of the loop does not matter.\<close>

lemma map_prefix_update:
  "(map (\<lambda>k. if k < n then f k else g k) [0..<l])[n := f n] = map (\<lambda>k. if k < Suc n then f k else g k) [0..<l]"
  by (rule nth_equalityI) (auto simp: nth_list_update less_Suc_eq)

lemma neighbor_loop:
  fixes recs :: "u8 list list"
  assumes "n \<le> length recs"
  shows "foldl (neighbor_record fq scores) (recs, outs) [0..<n]
    = (map (\<lambda>k. if k < n then (recs ! k)[0x39 := of_int (neighbor_density recs fq k)] else recs ! k) [0..<length recs],
       map (\<lambda>k. if k < n then signed_take_bit 7 (neighbor_score recs scores k) else outs ! k) [0..<length outs])"
  using assms
proof (induction n)
  case 0
  show ?case by (simp add: map_nth)
next
  case (Suc n)
  define rs where "rs = map (\<lambda>k. if k < n then (recs ! k)[0x39 := of_int (neighbor_density recs fq k)] else recs ! k) [0..<length recs]"
  define os where "os = map (\<lambda>k. if k < n then signed_take_bit 7 (neighbor_score recs scores k) else outs ! k) [0..<length outs]"
  have n: "n < length recs" using Suc.prems by simp
  have pos: "rs ! k ! 3 = recs ! k ! 3 \<and> rs ! k ! 5 = recs ! k ! 5" if "k < length recs" for k
    using that by (simp add: rs_def)
  have "foldl (neighbor_step rs fq scores n) (0, 0, 1) [0..<length rs]
      = foldl (neighbor_step recs fq scores n) (0, 0, 1) [0..<length recs]"
  proof (rule foldl_cong)
    fix acc j assume "j \<in> set [0..<length rs]"
    then have "j < length recs" by (simp add: rs_def)
    with pos n show "neighbor_step rs fq scores n acc j = neighbor_step recs fq scores n acc j"
      by (simp add: neighbor_step_def)
  qed (simp_all add: rs_def)
  also have "\<dots> = (sum_list (map (neighbor_weight recs fq n) (neighbors recs n)), sum_list (map ((!) scores) (neighbors recs n)),
      1 + 100 * int (length (neighbors recs n)))"
    unfolding neighbor_fold Let_def neighbors_def by simp
  finally have fold: "foldl (neighbor_step rs fq scores n) (0, 0, 1) [0..<length rs] = \<dots>" .
  have "neighbor_record fq scores (rs, os) n
      = (rs[n := (rs ! n)[0x39 := of_int (neighbor_density recs fq n)]], os[n := signed_take_bit 7 (neighbor_score recs scores n)])"
    unfolding neighbor_record_def Let_def prod.case fold
    by (simp add: neighbor_density_def neighbor_score_def drop_bit_eq_div min_def)
  also have "\<dots> = (map (\<lambda>k. if k < Suc n then (recs ! k)[0x39 := of_int (neighbor_density recs fq k)] else recs ! k) [0..<length recs],
       map (\<lambda>k. if k < Suc n then signed_take_bit 7 (neighbor_score recs scores k) else outs ! k) [0..<length outs])"
  proof -
    have "rs ! n = recs ! n" using n by (simp add: rs_def)
    then show ?thesis
      using map_prefix_update [of n "\<lambda>k. (recs ! k)[0x39 := of_int (neighbor_density recs fq k)]" "\<lambda>k. recs ! k" "length recs"]
        map_prefix_update [of n "\<lambda>k. signed_take_bit 7 (neighbor_score recs scores k)" "\<lambda>k. outs ! k" "length outs"]
      by (simp add: rs_def os_def)
  qed
  finally show ?case using Suc by (simp add: rs_def os_def)
qed

lemma trunc_div_below: "\<bar>a\<bar> < k * d \<Longrightarrow> 0 < d \<Longrightarrow> \<bar>trunc_div a d\<bar> < k"
proof -
  assume a: "\<bar>a\<bar> < k * d" "0 < d"
  have "\<bar>trunc_div a d\<bar> = \<bar>a\<bar> div d" using a(2) by (auto simp: trunc_div_def pos_imp_zdiv_nonneg_iff)
  moreover have "\<bar>a\<bar> div d * d \<le> \<bar>a\<bar>" using a(2) by (simp flip: minus_mod_eq_div_mult)
  ultimately have "\<bar>trunc_div a d\<bar> * d < k * d" using a(1) by simp
  then show ?thesis using a(2) by (simp add: mult_less_cancel_right)
qed

lemma neighbor_score_int8:
  assumes "\<forall>s \<in> set scores. - 128 \<le> s \<and> s \<le> 127" and "length recs \<le> length scores"
  shows "\<bar>neighbor_score recs scores i\<bar> \<le> 127"
proof -
  have in_range: "\<bar>scores ! j\<bar> \<le> 128" if "j \<in> set (neighbors recs i)" for j
  proof -
    have "scores ! j \<in> set scores" using that assms(2) by (auto simp: neighbors_def)
    then show ?thesis using assms(1) by (auto simp: abs_le_iff)
  qed
  have "\<bar>sum_list (map ((!) scores) js)\<bar> \<le> 128 * int (length js)" if "\<And>j. j \<in> set js \<Longrightarrow> \<bar>scores ! j\<bar> \<le> 128" for js
    using that by (induction js) (auto intro: order_trans [OF abs_triangle_ineq] simp: algebra_simps add_mono)
  from this [of "neighbors recs i"] in_range
  have "\<bar>sum_list (map ((!) scores) (neighbors recs i))\<bar> \<le> 128 * int (length (neighbors recs i))" by blast
  then have "\<bar>sum_list (map ((!) scores) (neighbors recs i)) * 100\<bar> < 128 * (1 + 100 * int (length (neighbors recs i)))"
    by (simp add: abs_mult)
  then show ?thesis using trunc_div_below unfolding neighbor_score_def by fastforce
qed

text \<open>
  With at most 120 records the neighbour quality of every record is computed from the records as they
  were, although the loop updates them in place: its byte is an eighth of the weights of the records within
  a distance of 15 pixels, at most 100, its score the mean of their scores, which fits a signed byte.
\<close>

theorem neighbor_quality_exact:
  assumes "length recs \<le> GX_FEATURE_MAX_RECORDS" and "length scores = length recs" and "length outs = length recs"
    and "\<forall>s \<in> set scores. - 128 \<le> s \<and> s \<le> 127"
  shows "gx_feature_neighbor_quality recs True fq scores outs
    = Some (map (\<lambda>i. (recs ! i)[0x39 := of_int (neighbor_density recs fq i)]) [0..<length recs],
            map (neighbor_score recs scores) [0..<length recs])
    \<and> (\<forall>i. neighbor_density recs fq i \<le> 100 \<and> \<bar>neighbor_score recs scores i\<bar> \<le> 127)"
proof -
  have "signed_take_bit 7 (neighbor_score recs scores i) = neighbor_score recs scores i" for i
    using neighbor_score_int8 [of scores recs i] assms by (intro signed_take_bit_int_eq_self) (auto simp: abs_le_iff)
  then show ?thesis
    using assms neighbor_loop [of "length recs" recs fq scores outs] neighbor_score_int8 [of scores recs]
    by (auto simp: gx_feature_neighbor_quality_def neighbor_density_def)
qed

theorem neighbor_quality_exact_witness:
  "gx_feature_neighbor_quality [replicate 60 1, replicate 60 4] True [0, 90] [- 128, 8] [0, 0]
     = Some (map (\<lambda>i. ([replicate 60 1, replicate 60 4] ! i)[0x39 :=
          of_int (neighbor_density [replicate 60 1, replicate 60 4] [0, 90] i)]) [0..<2],
        map (neighbor_score [replicate 60 1, replicate 60 4] [- 128, 8]) [0..<2])"
  using neighbor_quality_exact [of "[replicate 60 1, replicate 60 4]" "[- 128, 8]" "[0, 0]" "[0, 90]"]
  by (simp add: GX_FEATURE_MAX_RECORDS_def numeral_2_eq_2)

section \<open>What the votes decide\<close>

text \<open>
  The reference: a record with a positive flag (after marking) votes plus one on every pixel of the square of
  30 by 30 pixels around it, any other record votes minus one. The class of a pixel is the class of the mean
  vote around it, and the flags are settled by the class of the record's own pixel.
\<close>

definition is_marked :: "int \<Rightarrow> u8 \<Rightarrow> u8 \<Rightarrow> bool" where
  "is_marked mode quality flag \<longleftrightarrow>
     sint flag > 0 \<or> (mode > 2 \<and> sint quality < 30) \<or> (mode > 1 \<and> sint quality < 20)"

definition marked_flag :: "int \<Rightarrow> u8 \<Rightarrow> u8 \<Rightarrow> u8" where
  "marked_flag mode quality flag = (if is_marked mode quality flag then 2 else flag)"

definition in_window :: "int \<Rightarrow> int \<Rightarrow> int \<Rightarrow> int \<Rightarrow> bool" where
  "in_window cx cy x y \<longleftrightarrow> cx - 15 \<le> x \<and> x < cx + 15 \<and> cy - 15 \<le> y \<and> y < cy + 15"

definition vote :: "u8 list \<Rightarrow> (nat \<Rightarrow> u8) \<Rightarrow> nat \<Rightarrow> nat \<Rightarrow> nat \<Rightarrow> int" where
  "vote recs flags i x y =
     (if in_window (uint (recs ! x_at i)) (uint (recs ! y_at i)) (int x) (int y)
      then if sint (flags i) > 0 then 1 else - 1 else 0)"

definition votes :: "u8 list \<Rightarrow> (nat \<Rightarrow> u8) \<Rightarrow> nat \<Rightarrow> nat \<Rightarrow> nat \<Rightarrow> int" where
  "votes recs flags count x y = (\<Sum>i < count. vote recs flags i x y)"

definition region_class :: "nat \<Rightarrow> nat \<Rightarrow> u8 list \<Rightarrow> (nat \<Rightarrow> u8) \<Rightarrow> nat \<Rightarrow> nat \<Rightarrow> nat \<Rightarrow> u8" where
  "region_class w h recs flags count x y = average_class (local_mean w h 15 (votes recs flags count) x y)"

definition settled_flag :: "u8 \<Rightarrow> u8 \<Rightarrow> u8" where
  "settled_flag c flag = (if c = 0xff \<and> flag = 0 then 3 else if c = 0 \<and> sint flag > 0 then 0xff else flag)"

text \<open>Loops that change one flag per record.\<close>

definition flags_set :: "(nat \<Rightarrow> u8) \<Rightarrow> u8 list \<Rightarrow> nat \<Rightarrow> u8 list \<Rightarrow> bool" where
  "flags_set g recs n r \<longleftrightarrow> length r = length recs \<and> (\<forall>i < n. r ! flag_at i = g i)
     \<and> (\<forall>p. (\<forall>i < n. p \<noteq> flag_at i) \<longrightarrow> r ! p = recs ! p)"

lemma offsets [simp]:
  "flag_at i = flag_at j \<longleftrightarrow> i = j" "x_at i \<noteq> flag_at j" "y_at i \<noteq> flag_at j" "flag_at j \<noteq> x_at i" "flag_at j \<noteq> y_at i"
  unfolding flag_at_def x_at_def y_at_def GX_FEATURE_RECORD_BYTES_def by (simp, presburger+)

lemma flags_set_0: "flags_set g recs 0 recs"
  by (simp add: flags_set_def)

lemma flags_set_Suc:
  "flags_set g recs n r \<Longrightarrow> flag_at n < length recs \<Longrightarrow> flags_set g recs (Suc n) (r[flag_at n := g n])"
  by (auto simp: flags_set_def nth_list_update less_Suc_eq)

lemma flags_set_keep: "flags_set g recs n r \<Longrightarrow> r ! flag_at n = g n \<Longrightarrow> flags_set g recs (Suc n) r"
  by (auto simp: flags_set_def less_Suc_eq)

lemma flags_set_reads:
  assumes "flags_set g recs n r"
  shows "r ! x_at i = recs ! x_at i" "r ! y_at i = recs ! y_at i" "n \<le> i \<Longrightarrow> r ! flag_at i = recs ! flag_at i"
  using assms by (auto simp: flags_set_def)

lemma flag_at_less: "i < n \<Longrightarrow> n * GX_FEATURE_RECORD_BYTES \<le> length recs \<Longrightarrow> flag_at i < length recs"
  by (simp add: flag_at_def GX_FEATURE_RECORD_BYTES_def)

lemma mark_record_step:
  "mark_record mode rq (r, m) n
    = (if is_marked mode (rq ! n) (r ! flag_at n) then (r[flag_at n := 2], m + 1) else (r, m))"
  by (simp add: mark_record_def is_marked_def Let_def)

lemma mark_loop:
  assumes "n * GX_FEATURE_RECORD_BYTES \<le> length recs"
  shows "\<exists>r m. foldl (mark_record mode rq) (recs, 0) [0..<n] = (r, m)
    \<and> flags_set (\<lambda>i. marked_flag mode (rq ! i) (recs ! flag_at i)) recs n r
    \<and> (m = 0 \<longleftrightarrow> (\<forall>i < n. \<not> is_marked mode (rq ! i) (recs ! flag_at i)))"
  using assms
proof (induction n)
  case 0
  show ?case by (simp add: flags_set_0)
next
  case (Suc n)
  let ?g = "\<lambda>i. marked_flag mode (rq ! i) (recs ! flag_at i)"
  from Suc obtain r m where r: "foldl (mark_record mode rq) (recs, 0) [0..<n] = (r, m)" "flags_set ?g recs n r"
    and m: "m = 0 \<longleftrightarrow> (\<forall>i < n. \<not> is_marked mode (rq ! i) (recs ! flag_at i))"
    by (auto simp: GX_FEATURE_RECORD_BYTES_def)
  have at: "flag_at n < length recs" using Suc.prems flag_at_less by blast
  have read: "r ! flag_at n = recs ! flag_at n" using flags_set_reads(3) [OF r(2)] by simp
  show ?case
  proof (cases "is_marked mode (rq ! n) (recs ! flag_at n)")
    case True
    then have "?g n = 2" by (simp add: marked_flag_def)
    with flags_set_Suc [OF r(2) at] True r(1) read show ?thesis
      by (auto simp: mark_record_step less_Suc_eq)
  next
    case False
    then have "?g n = recs ! flag_at n" by (simp add: marked_flag_def)
    with flags_set_keep [OF r(2)] False r(1) read m show ?thesis
      by (auto simp: mark_record_step less_Suc_eq)
  qed
qed

lemma settle_loop:
  assumes "n * GX_FEATURE_RECORD_BYTES \<le> length recs"
  shows "flags_set (\<lambda>i. settled_flag (work ! (unat (recs ! y_at i) * w + unat (recs ! x_at i))) (recs ! flag_at i))
    recs n (foldl (settle_record w work) recs [0..<n])"
  using assms
proof (induction n)
  case 0
  show ?case by (simp add: flags_set_0)
next
  case (Suc n)
  define g where "g = (\<lambda>i. settled_flag (work ! (unat (recs ! y_at i) * w + unat (recs ! x_at i))) (recs ! flag_at i))"
  define r where "r = foldl (settle_record w work) recs [0..<n]"
  have r: "flags_set g recs n r" using Suc by (simp add: g_def r_def GX_FEATURE_RECORD_BYTES_def)
  have at: "flag_at n < length recs" using Suc.prems flag_at_less by blast
  note reads = flags_set_reads [OF r, of n, simplified]
  let ?c = "work ! (unat (recs ! y_at n) * w + unat (recs ! x_at n))"
  have all_ones: "(- 1 :: u8) = 0xff" by simp
  have sint_is: "sint c = sint d \<longleftrightarrow> c = d" for c d :: u8 by (rule word_eq_iff_signed [symmetric])
  have minus: "sint c = - 1 \<longleftrightarrow> c = 0xff" and zero: "sint c = 0 \<longleftrightarrow> c = 0" for c :: u8
    using sint_is [of c "- 1"] sint_is [of c 0] by (simp_all add: all_ones)
  have "settle_record w work r n = (if g n = recs ! flag_at n then r else r[flag_at n := g n])"
    by (auto simp: settle_record_def Let_def reads minus zero g_def settled_flag_def)
  moreover have "flags_set g recs (Suc n) (if g n = recs ! flag_at n then r else r[flag_at n := g n])"
    using flags_set_Suc [OF r at] flags_set_keep [OF r] reads(3) by auto
  ultimately show ?case by (simp add: r_def g_def)
qed

text \<open>One record's votes.\<close>

lemma add_loop:
  fixes m :: "u8 list"
  assumes "j < length m"
  shows "foldl (\<lambda>m p. m[k p := m ! k p + d]) m ps ! j = m ! j + of_nat (count_list (map k ps) j) * d"
  using assms by (induction ps arbitrary: m) (auto simp: nth_list_update algebra_simps)

lemma length_add_loop [simp]: "length (foldl (\<lambda>m p. m[k p := m ! k p + d]) m ps) = length m"
  by (induction ps arbitrary: m) simp_all

definition shifted :: "int \<Rightarrow> int \<Rightarrow> int list \<Rightarrow> int list" where
  "shifted n c ds = map ((+) c) (filter (\<lambda>d. 0 \<le> c + d \<and> c + d < n) ds)"

lemma vote_window_product: "vote_window w h cx cy = List.product (shifted w cx [- 15..14]) (shifted h cy [- 15..14])"
  unfolding vote_window_def product_concat_map shifted_def map_map comp_def ..

lemma distinct_shifted: "distinct ds \<Longrightarrow> distinct (shifted n c ds)"
  by (simp add: shifted_def distinct_map)

lemma set_shifted: "set ds = {- 15..14} \<Longrightarrow> x \<in> set (shifted n c ds) \<longleftrightarrow> 0 \<le> x \<and> x < n \<and> c - 15 \<le> x \<and> x < c + 15"
proof -
  assume ds: "set ds = {- 15..14}"
  have "x \<in> set (shifted n c ds) \<longleftrightarrow> x - c \<in> set ds \<and> 0 \<le> x \<and> x < n"
  proof
    assume "x - c \<in> set ds \<and> 0 \<le> x \<and> x < n"
    then show "x \<in> set (shifted n c ds)" unfolding shifted_def by (intro image_eqI [where x = "x - c"] set_map [THEN equalityD2, THEN subsetD]) auto
  qed (auto simp: shifted_def)
  then show ?thesis unfolding ds by auto
qed

lemma distinct_vote_window: "distinct (vote_window w h cx cy)"
  unfolding vote_window_product by (intro distinct_product distinct_shifted distinct_upto)

lemma set_vote_window:
  "(x, y) \<in> set (vote_window w h cx cy) \<longleftrightarrow> 0 \<le> x \<and> x < w \<and> 0 \<le> y \<and> y < h \<and> in_window cx cy x y"
  unfolding vote_window_product set_product mem_Times_iff fst_conv snd_conv set_shifted [OF set_upto] in_window_def
  by blast

lemma count_in_window:
  assumes "x < w" "y < h"
  shows "count_list (map (\<lambda>(x, y). nat y * w + nat x) (vote_window (int w) (int h) cx cy)) (y * w + x)
    = (if in_window cx cy (int x) (int y) then 1 else 0)"
proof -
  let ?ps = "vote_window (int w) (int h) cx cy"
  have place: "(nat (snd p) * w + nat (fst p) = y * w + x) = (p = (int x, int y))" if "p \<in> set ?ps" for p
  proof -
    obtain a b where p: "p = (a, b)" by (cases p)
    then have ab: "0 \<le> a" "a < int w" "0 \<le> b" using that by (simp_all add: set_vote_window)
    have "nat b * w + nat a = y * w + x \<longleftrightarrow> nat b = y \<and> nat a = x"
    proof
      assume eq: "nat b * w + nat a = y * w + x"
      have small: "nat a < w" using ab by simp
      from eq have "(nat b * w + nat a) div w = (y * w + x) div w" "(nat b * w + nat a) mod w = (y * w + x) mod w" by simp_all
      then show "nat b = y \<and> nat a = x" using small assms(1) by simp
    qed simp
    then show ?thesis using ab p by auto
  qed
  have "count_list (map (\<lambda>(x, y). nat y * w + nat x) ps) (y * w + x) = count_list ps (int x, int y)"
    if "set ps \<subseteq> set ?ps" for ps
    using that by (induction ps) (auto simp: case_prod_beta place)
  moreover have "count_list ps p = (if p \<in> set ps then 1 else 0)" if "distinct ps" for ps and p :: "int \<times> int"
    using that by (induction ps) auto
  ultimately show ?thesis
    using assms by (simp add: distinct_vote_window set_vote_window)
qed

lemma vote_record_adds:
  assumes "sint width = int w" "sint height = int h" "unat width = w" and "x < w" "y < h" and "length m = w * h"
  shows "vote_record width height recs m i ! (y * w + x) = m ! (y * w + x) + of_int (vote recs (\<lambda>i. recs ! flag_at i) i x y)"
    and "length (vote_record width height recs m i) = w * h"
proof -
  have step: "(\<lambda>m (x, y). let k = nat y * w + nat x in m[k := m ! k + d])
      = (\<lambda>m p. m[(\<lambda>(x, y). nat y * w + nat x) p := m ! (\<lambda>(x, y). nat y * w + nat x) p + d])" for d :: u8
    by (simp add: fun_eq_iff Let_def)
  have inside: "y * w + x < length m" using assms index_less by simp
  show "vote_record width height recs m i ! (y * w + x) = m ! (y * w + x) + of_int (vote recs (\<lambda>i. recs ! flag_at i) i x y)"
    unfolding vote_record_def Let_def [of "if _ then _ else _"] assms(1-3) step add_loop [OF inside] count_in_window [OF assms(4,5)]
    by (simp add: vote_def)
  show "length (vote_record width height recs m i) = w * h"
    unfolding vote_record_def Let_def [of "if _ then _ else _"] assms(1-3) step by (simp add: assms(6))
qed

lemma vote_loop:
  assumes "sint width = int w" "sint height = int h" "unat width = w" and "0 < w" "0 < h"
  shows "length (foldl (vote_record width height recs) (replicate (w * h) 0) [0..<n]) = w * h
    \<and> (\<forall>x < w. \<forall>y < h. foldl (vote_record width height recs) (replicate (w * h) 0) [0..<n] ! (y * w + x)
        = of_int (votes recs (\<lambda>i. recs ! flag_at i) n x y))"
proof (induction n)
  case 0
  show ?case by (auto simp: votes_def index_less)
next
  case (Suc n)
  let ?m = "foldl (vote_record width height recs) (replicate (w * h) 0) [0..<n]"
  have len: "length ?m = w * h" using Suc by blast
  have "length (vote_record width height recs ?m n) = w * h"
    by (rule vote_record_adds(2) [OF assms(1-3) _ _ len]) (rule assms)+
  moreover have "vote_record width height recs ?m n ! (y * w + x) = of_int (votes recs (\<lambda>i. recs ! flag_at i) (Suc n) x y)"
    if "x < w" "y < h" for x y
    using Suc that by (simp add: vote_record_adds(1) [OF assms(1-3) that len] votes_def)
  ultimately show ?case by simp
qed

lemma votes_int8: "\<bar>votes recs flags n x y\<bar> \<le> int n"
  unfolding votes_def by (induction n) (auto simp: vote_def)

lemma local_mean_cong:
  assumes "x < w" "y < h" and "\<And>x y. x < w \<Longrightarrow> y < h \<Longrightarrow> f x y = g x y"
  shows "local_mean w h rad f x y = local_mean w h rad g x y"
proof -
  have "box_sum f l u (min (x + rad) (w - 1)) (min (y + rad) (h - 1)) = box_sum g l u (min (x + rad) (w - 1)) (min (y + rad) (h - 1))"
    for l u using assms by (intro box_sum_cong assms(3)) auto
  then show ?thesis by (simp only: local_mean_def Let_def)
qed

lemma votes_cong:
  assumes "\<And>i. r ! x_at i = recs ! x_at i" "\<And>i. r ! y_at i = recs ! y_at i" and "\<And>i. i < n \<Longrightarrow> f i = g i"
  shows "votes r f n x y = votes recs g n x y"
  unfolding votes_def by (rule sum.cong) (simp_all add: vote_def assms)

text \<open>The map the votes give, as the code computes it: no counter wraps, since at most 120 records vote.\<close>

lemma vote_classes:
  assumes dims: "sint width = int w" "sint height = int h" "unat width = w" "0 < w" "0 < h" "w * h \<le> 2 ^ 23"
    and calloc: "\<not> isl (reply_rc (env hist (Calloc (h * w * 4))))" and few: "n \<le> 120"
  shows "\<exists>stats hist'. gx_feature_quality_classify_local env
      (map sint (foldl (vote_record width height recs) (replicate (w * h) 0) [0..<n])) (int h) (int w) 15 hist
      = (Some (raster w h (region_class w h recs (\<lambda>i. recs ! flag_at i) n), stats), hist')
    \<and> live_blocks env hist' = live_blocks env hist"
proof -
  let ?m = "foldl (vote_record width height recs) (replicate (w * h) 0) [0..<n]"
  let ?f = "\<lambda>i. recs ! flag_at i"
  note m = vote_loop [OF dims(1-5), of recs n]
  have exact: "sint (of_int (votes recs ?f n x y) :: u8) = votes recs ?f n x y" for x y
  proof -
    have "- 120 \<le> votes recs ?f n x y" "votes recs ?f n x y \<le> 120"
      using votes_int8 [of recs ?f n x y] few by (auto simp: abs_le_iff)
    then show ?thesis by (simp add: signed_of_int signed_take_bit_int_eq_self)
  qed
  have pixel: "pix w (map sint ?m) x y = votes recs ?f n x y" if "x < w" "y < h" for x y
    using m that index_less [OF that] by (simp add: pix_def exact)
  have same: "raster w h (\<lambda>x y. average_class (local_mean w h 15 (pix w (map sint ?m)) x y))
      = raster w h (region_class w h recs ?f n)"
  proof (rule raster_cong)
    fix x y assume "x < w" "y < h"
    from local_mean_cong [OF this pixel]
    show "average_class (local_mean w h 15 (pix w (map sint ?m)) x y) = region_class w h recs ?f n x y"
      by (simp only: region_class_def)
  qed
  have small_radius: "(15 :: nat) < 2 ^ 30" by simp
  have "\<bar>sint (v :: u8)\<bar> \<le> 128" for v using sint_range_size [of v] by (simp add: word_size abs_le_iff)
  then have votes_fit: "length (map sint ?m) = w * h" "list_all (\<lambda>k. \<bar>k\<bar> \<le> 128) (map sint ?m)"
    using m by (simp_all add: list_all_iff)
  obtain out stats hist' where "gx_feature_quality_classify_local env (map sint ?m) (int h) (int w) (int 15) hist
      = (Some (out, stats), hist')" "live_blocks env hist' = live_blocks env hist"
      "out = raster w h (\<lambda>x y. average_class (local_mean w h 15 (pix w (map sint ?m)) x y))"
    using classes_of_means [where env = env and hist = hist and vals = "map sint ?m" and rad = 15, OF dims(4,5,6) small_radius votes_fit calloc]
    by blast
  then show ?thesis unfolding same by (simp add: exI)
qed

definition final_flag :: "nat \<Rightarrow> nat \<Rightarrow> int \<Rightarrow> u8 list \<Rightarrow> u8 list \<Rightarrow> nat \<Rightarrow> nat \<Rightarrow> u8" where
  "final_flag w h mode rq recs count i =
     (let flags = (\<lambda>i. marked_flag mode (rq ! i) (recs ! flag_at i))
      in settled_flag (region_class w h recs flags count (unat (recs ! x_at i)) (unat (recs ! y_at i))) (flags i))"

text \<open>
  C29: when at least one record is marked, the picture has at most \<open>2 ^ 23\<close> pixels (so that no 32-bit sum of the code
  wraps) and the allocations succeed, the global post-processing succeeds. The map it writes has for each
  pixel the class of the mean vote around it (the signed 8-bit counters do not wrap, since at most 120 records
  vote), every flag is settled by marking and by the class of its record's pixel, no other byte of the records
  changes, the object counts the records with no positive flag, and the work buffers are freed.
\<close>

theorem regions_voted:
  assumes calloc: "\<And>g n. \<not> isl (reply_rc (env g (Calloc n)))"
    and dims: "fo_width ob = of_nat w" "fo_height ob = of_nat h" "0 < w" "0 < h" "w * h \<le> 2 ^ 23"
    and count: "n = unat (fo_record_count ob)" "n \<le> GX_FEATURE_MAX_RECORDS"
    and heap: "length (fo_heap ob) = GX_FEATURE_OBJECT_HEAP_FIELD_COUNT"
      "fo_heap ob ! RECORD_ARRAY = Some recs" "n * GX_FEATURE_RECORD_BYTES \<le> length recs"
      "fo_heap ob ! OUTPUT_MAP1 = Some out" "length out = w * h"
    and inside: "\<And>i. i < n \<Longrightarrow> unat (recs ! x_at i) < w \<and> unat (recs ! y_at i) < h"
    and some: "k < n" "is_marked mode (fo_record_quality ob ! k) (recs ! flag_at k)"
  shows "\<exists>ob' hist' recs'. gx_feature_global_postprocess env ob mode profile hist = (1, ob', hist')
    \<and> live_blocks env hist' = live_blocks env hist
    \<and> fo_heap ob' = (fo_heap ob)[RECORD_ARRAY := Some recs', OUTPUT_MAP1 := Some (raster w h (region_class w h recs
        (\<lambda>i. marked_flag mode (fo_record_quality ob ! i) (recs ! flag_at i)) n))]
    \<and> flags_set (final_flag w h mode (fo_record_quality ob) recs n) recs n recs'
    \<and> fo_nonpositive ob' = of_nat (length (filter (\<lambda>i. sint (final_flag w h mode (fo_record_quality ob) recs n i) < 1) [0..<n]))"
proof -
  define rq where "rq = fo_record_quality ob"
  define flags where "flags = (\<lambda>i. marked_flag mode (rq ! i) (recs ! flag_at i))"
  have below: "w < 2 ^ 31" "h < 2 ^ 31" using sides_le [OF dims(3-5)] by simp_all
  have w: "unat (fo_width ob) = w" "sint (fo_width ob) = int w" and h: "unat (fo_height ob) = h" "sint (fo_height ob) = int h"
    using dims below by (simp_all add: unsigned_of_nat signed_of_nat take_bit_nat_eq_self signed_take_bit_int_eq_self)
  obtain r m where r: "foldl (mark_record mode rq) (recs, 0) [0..<n] = (r, m)" "flags_set flags recs n r"
    and m: "m \<noteq> 0"
    using mark_loop [OF heap(3), of mode rq] some by (auto simp: flags_def rq_def)
  note reads = flags_set_reads(1,2) [OF r(2)]
  have flag: "r ! flag_at i = flags i" if "i < n" for i using r(2) that by (simp add: flags_set_def)
  define votes_map where "votes_map = foldl (vote_record (fo_width ob) (fo_height ob) r) (replicate (w * h) 0) [0..<n]"
  define cls where "cls = raster w h (region_class w h recs flags n)"
  have "region_class w h r (\<lambda>i. r ! flag_at i) n = region_class w h recs flags n"
  proof -
    have "votes r (\<lambda>i. r ! flag_at i) n = votes recs flags n" by (intro ext votes_cong reads flag)
    then show ?thesis by (intro ext) (simp only: region_class_def)
  qed
  then have "\<exists>stats hist'. gx_feature_quality_classify_local env (map sint votes_map) (int h) (int w) 15 h1
      = (Some (cls, stats), hist') \<and> live_blocks env hist' = live_blocks env h1" for h1
    using vote_classes [OF w(2) h(2) w(1) dims(3,4,5), of env h1 n r] calloc count
    by (simp add: votes_map_def cls_def GX_FEATURE_MAX_RECORDS_def)
  then obtain stats h2 where c: "gx_feature_quality_classify_local env (map sint votes_map) (int h) (int w) 15
      (hist @ [Calloc (w * h)]) = (Some (cls, stats), h2)" "live_blocks env h2 = live_blocks env (hist @ [Calloc (w * h)])"
    by blast
  define r' where "r' = foldl (settle_record w cls) r [0..<n]"
  have len: "length r = length recs" using r(2) by (simp add: flags_set_def)
  have settled: "flags_set (\<lambda>i. settled_flag (cls ! (unat (r ! y_at i) * w + unat (r ! x_at i))) (r ! flag_at i)) r n r'"
    unfolding r'_def by (rule settle_loop) (simp add: len heap)
  have final: "settled_flag (cls ! (unat (r ! y_at i) * w + unat (r ! x_at i))) (r ! flag_at i)
      = final_flag w h mode rq recs n i" if "i < n" for i
    using inside [OF that] pix_raster [of "unat (recs ! x_at i)" w "unat (recs ! y_at i)" h "region_class w h recs flags n"]
    by (simp add: reads flag [OF that] final_flag_def cls_def pix_def flags_def)
  have flags': "flags_set (final_flag w h mode rq recs n) recs n r'"
    using settled final r(2) by (simp add: flags_set_def)
  have after: "r' ! flag_at i = final_flag w h mode rq recs n i" if "i < n" for i
    using flags' that by (simp add: flags_set_def)
  have nonpos: "filter (\<lambda>i. sint (r' ! flag_at i) < 1) [0..<n] = filter (\<lambda>i. sint (final_flag w h mode rq recs n i) < 1) [0..<n]"
    by (rule filter_cong) (simp_all add: after)
  have "h * w \<le> 2 ^ 23" using dims(5) by (simp add: mult.commute)
  then have "h * w div w \<le> (2 ^ 64 - 1) div w" by (intro div_le_mono) simp
  then have room: "\<not> (2 ^ 64 - 1) div w < h" using dims by simp
  have nonzero: "fo_width ob \<noteq> 0" "fo_height ob \<noteq> 0" using w h dims by auto
  have slots: "RECORD_ARRAY \<noteq> OUTPUT_MAP1" "RECORD_ARRAY < length (fo_heap ob)" "OUTPUT_MAP1 < length (fo_heap ob)"
    by (simp_all add: RECORD_ARRAY_def OUTPUT_MAP1_def heap GX_FEATURE_OBJECT_HEAP_FIELD_COUNT_def)
  obtain ob' where run: "gx_feature_global_postprocess env ob mode profile hist = (1, ob', h2 @ [Free])"
    and ob': "fo_heap ob' = (fo_heap ob)[RECORD_ARRAY := Some r', OUTPUT_MAP1 := Some (mem_write out 0 cls)]"
      "fo_nonpositive ob' = of_nat (length (filter (\<lambda>i. sint (r' ! flag_at i) < 1) [0..<n]))"
  proof -
    have "fst (gx_feature_global_postprocess env ob mode profile hist) = 1
      \<and> snd (snd (gx_feature_global_postprocess env ob mode profile hist)) = h2 @ [Free]
      \<and> fo_heap (fst (snd (gx_feature_global_postprocess env ob mode profile hist)))
        = (fo_heap ob)[RECORD_ARRAY := Some r', OUTPUT_MAP1 := Some (mem_write out 0 cls)]
      \<and> fo_nonpositive (fst (snd (gx_feature_global_postprocess env ob mode profile hist)))
        = of_nat (length (filter (\<lambda>i. sint (r' ! flag_at i) < 1) [0..<n]))"
      using calloc [of hist "w * h"] room nonzero m count
      by (simp add: gx_feature_global_postprocess_def Let_def w h heap ext_do_def r(1) c(1) slots
          flip: rq_def votes_map_def r'_def count(1))
    then show ?thesis by (intro that [of "fst (snd (gx_feature_global_postprocess env ob mode profile hist))"]) (auto simp: prod_eq_iff)
  qed
  have "mem_write out 0 cls = cls" using heap(5) by (simp add: mem_write_def cls_def)
  moreover have "live_blocks env (h2 @ [Free]) = live_blocks env hist" using c(2) calloc [of hist "w * h"] by simp
  ultimately show ?thesis
    using flags' run ob' nonpos by (auto simp: rq_def cls_def flags_def)
qed

definition voting_object :: gx_feature_object where
  "voting_object = zero_object\<lparr>fo_width := 2, fo_height := 2, fo_record_count := 1,
     fo_heap := [Some ((replicate 60 0)[0x38 := 1]), None, None, Some (replicate 4 9), None]\<rparr>"

theorem regions_voted_witness:
  "\<exists>ob' hist'. gx_feature_global_postprocess quiet_env voting_object 0 24 [] = (1, ob', hist')
     \<and> live_blocks quiet_env hist' = 0"
proof -
  have sample: "fo_width voting_object = of_nat 2" "fo_height voting_object = of_nat 2"
    "(1::nat) = unat (fo_record_count voting_object)"
    "length (fo_heap voting_object) = GX_FEATURE_OBJECT_HEAP_FIELD_COUNT"
    "fo_heap voting_object ! RECORD_ARRAY = Some ((replicate 60 0)[0x38 := 1])"
    "fo_heap voting_object ! OUTPUT_MAP1 = Some (replicate 4 9)"
    by (simp_all add: voting_object_def GX_FEATURE_OBJECT_HEAP_FIELD_COUNT_def RECORD_ARRAY_def OUTPUT_MAP1_def numeral_3_eq_3)
  show ?thesis
    using regions_voted [of quiet_env voting_object 2 2 1 "(replicate 60 0)[0x38 := 1]" "replicate 4 9" 0 0 24 "[]",
        OF _ sample(1,2) _ _ _ sample(3) _ sample(4,5) _ sample(6)]
    by (force simp: quiet_env_def GX_FEATURE_MAX_RECORDS_def GX_FEATURE_RECORD_BYTES_def x_at_def y_at_def flag_at_def
        is_marked_def live_blocks_def)
qed

end
