(* ===== verification/Ridge.thy ===== *)
theory Ridge
  imports Quality
begin

text \<open>
  The optional picture: \<open>gx_feature_optional_orientation_kernel\<close>, \<open>gx_feature_optional_reconstruct_kernel\<close> and
  \<open>gx_feature_optional_image_prepare\<close> of \<open>src/gx_feature_root.c\<close> and the caller of \<open>src/gx_extractor.c\<close>. The first
  kernel finds the direction of the ridges around each pixel from wrapping 32-bit summed-area tables, the
  second averages seven pixels along that direction.
\<close>

definition GX_FEATURE_OPTIONAL_WORKSPACE_BYTES :: nat where "GX_FEATURE_OPTIONAL_WORKSPACE_BYTES = 19600"
definition GX_FEATURE_OPTIONAL_RADIUS :: nat where "GX_FEATURE_OPTIONAL_RADIUS = 6"

section \<open>Directions\<close>

fun callocs :: "environment \<Rightarrow> nat list \<Rightarrow> history \<Rightarrow> bool list \<times> history" where
  "callocs env [] h = ([], h)"
| "callocs env (n # ns) h =
     (let (r, h1) = ext_do env (Calloc n) h; (oks, h2) = callocs env ns h1
      in ((\<not> isl (reply_rc r)) # oks, h2))"

definition sobel_x :: "nat \<Rightarrow> u8 list \<Rightarrow> nat \<Rightarrow> nat \<Rightarrow> int" where
  "sobel_x w source x y =
     (let p = (\<lambda>x y. uint (pix w source x y))
      in (p (x + 1) y - p (x - 1) y) * 2 - p (x - 1) (y + 1) - p (x - 1) (y - 1) + p (x + 1) (y - 1) + p (x + 1) (y + 1))"

definition sobel_y :: "nat \<Rightarrow> u8 list \<Rightarrow> nat \<Rightarrow> nat \<Rightarrow> int" where
  "sobel_y w source x y =
     (let p = (\<lambda>x y. uint (pix w source x y))
      in (p x (y + 1) - p x (y - 1)) * 2 - p (x + 1) (y - 1) - p (x - 1) (y - 1) + p (x - 1) (y + 1) + p (x + 1) (y + 1))"

text \<open>These tables leave out the first row and the first column.\<close>

definition inner_table :: "nat \<Rightarrow> nat \<Rightarrow> 'a list \<Rightarrow> 'a :: ab_group_add list" where
  "inner_table w h v = scan (w * h) (\<lambda>a i. if i mod w = 0 \<or> i div w = 0 then 0
     else v ! i + a ! (i - 1) + a ! (i - w) - a ! (i - w - 1))"

definition root_integral_rectangle :: "u32 list \<Rightarrow> nat \<Rightarrow> nat \<Rightarrow> nat \<Rightarrow> nat \<Rightarrow> nat \<Rightarrow> int" where
  "root_integral_rectangle integral width x0 y0 x1 y1 =
     sint (pix width integral x1 y1 - pix width integral x1 (y0 - 1) - pix width integral (x0 - 1) y1
           + pix width integral (x0 - 1) (y0 - 1))"

definition direction_byte :: "int \<Rightarrow> int \<Rightarrow> u8" where
  "direction_byte sum_difference sum_xy =
     (let (angle, magnitude) = gx_feature_vector_angle_magnitude sum_difference sum_xy;
          angle = sint angle;
          angle = (if angle < 0 then angle + GX_FEATURE_VECTOR_ANGLE_PERIOD else angle);
          degrees = drop_bit 20 (angle * 0x1ca6);
          rotated = (if degrees - 135 < 1 then degrees + 45 else degrees - 135)
      in of_int (180 - rotated))"

definition direction_at :: "u32 list \<Rightarrow> u32 list \<Rightarrow> nat \<Rightarrow> nat \<Rightarrow> nat \<Rightarrow> nat \<Rightarrow> nat \<Rightarrow> u8" where
  "direction_at table_xy table_difference w h radius x y =
     (let low_y = (if int y - int radius > 1 then y - radius else 1);
          high_y = (if y + radius < h - 1 then y + radius else h - 1);
          low_x = (if int x - int radius > 1 then x - radius else 1);
          high_x = (if x + radius < w - 1 then x + radius else w - 1)
      in direction_byte (root_integral_rectangle table_difference w low_x low_y high_x high_y)
           (root_integral_rectangle table_xy w low_x low_y high_x high_y))"

definition gx_feature_optional_orientation_kernel ::
    "environment \<Rightarrow> u8 list \<Rightarrow> u8 list \<Rightarrow> int \<Rightarrow> int \<Rightarrow> nat \<Rightarrow> history \<Rightarrow> u8 list option \<times> history" where
  "gx_feature_optional_orientation_kernel env source workspace width height radius hist =
     (if width < 3 \<or> height < 3 \<or> radius = 0 \<or> int radius > INT32_MAX then (None, hist)
      else
        let w = nat width; h = nat height; count = w * h
        in if count > GX_FEATURE_OPTIONAL_WORKSPACE_BYTES then (None, hist)
           else
             let (oks, h1) = callocs env (replicate 4 (count * 4)) hist
             in if \<not> list_all id oks then (None, frees env oks h1)
                else
                  let gx = raster w h (\<lambda>x y. if inner_pixel w h x y then sobel_x w source x y else 0);
                      gy = raster w h (\<lambda>x y. if inner_pixel w h x y then sobel_y w source x y else 0);
                      double_xy = map (\<lambda>i. let product = of_int (gx ! i) * of_int (gy ! i) in product + product :: u32) [0..<count];
                      difference = map (\<lambda>i. of_int (gx ! i) * of_int (gx ! i) - of_int (gy ! i) * of_int (gy ! i) :: u32) [0..<count];
                      h2 = frees env [True, True] h1;
                      (oks, h3) = callocs env (replicate 2 (count * 4)) h2
                  in if \<not> list_all id oks then (None, frees env (True # True # oks) h3)
                     else
                       let table_xy = inner_table w h double_xy;
                           table_difference = inner_table w h difference;
                           h4 = frees env [True, True] h3
                       in (Some (mem_write workspace 0 (raster w h (direction_at table_xy table_difference w h radius))),
                           frees env [True, True] h4))"

section \<open>Averages along the ridges\<close>

definition direction_weights :: "int list" where "direction_weights = [1, 2, 4, 8, 4, 2, 1]"

definition direction_offsets :: "(int \<times> int) list list" where
  "direction_offsets =
    [[(-3,0),(-2,0),(-1,0),(0,0),(1,0),(2,0),(3,0)],
     [(-3,-1),(-2,-1),(-1,0),(0,0),(1,0),(2,1),(3,1)],
     [(-3,-2),(-2,-1),(-1,-1),(0,0),(1,1),(2,1),(3,2)],
     [(-3,-3),(-2,-2),(-1,-1),(0,0),(1,1),(2,2),(3,3)],
     [(-2,-3),(-1,-2),(-1,-1),(0,0),(1,1),(1,2),(2,3)],
     [(-1,-3),(-1,-2),(0,-1),(0,0),(0,1),(1,2),(1,3)],
     [(0,-3),(0,-2),(0,-1),(0,0),(0,1),(0,2),(0,3)],
     [(-1,3),(-1,2),(0,1),(0,0),(0,-1),(1,-2),(1,-3)],
     [(-2,3),(-1,2),(-1,1),(0,0),(1,-1),(1,-2),(2,-3)],
     [(-3,3),(-2,2),(-1,1),(0,0),(1,-1),(2,-2),(3,-3)],
     [(-3,2),(-2,1),(-1,1),(0,0),(1,-1),(2,-1),(3,-2)],
     [(-3,1),(-2,1),(-1,0),(0,0),(1,0),(2,-1),(3,-1)]]"

definition sample_direction :: "u8 \<Rightarrow> nat" where
  "sample_direction b = (if b - 8 < 0xa5 then (unat b - 8) div 15 + 1 else 0)"

definition sample_step :: "u8 list \<Rightarrow> int \<Rightarrow> int \<Rightarrow> int \<Rightarrow> int \<Rightarrow> nat \<Rightarrow> int \<times> int \<Rightarrow> nat \<Rightarrow> int \<times> int" where
  "sample_step source width height x y direction acc k =
     (let (weighted_sum, weight_sum) = acc;
          (dx, dy) = direction_offsets ! direction ! k;
          sample_x = x + dx; sample_y = y + dy
      in if 0 \<le> sample_x \<and> sample_x < width \<and> 0 \<le> sample_y \<and> sample_y < height
         then (weighted_sum + uint (source ! nat (sample_y * width + sample_x)) * direction_weights ! k,
               weight_sum + direction_weights ! k)
         else (weighted_sum, weight_sum))"

definition reconstruct_pixel :: "u8 list \<Rightarrow> u8 list \<Rightarrow> nat \<Rightarrow> nat \<Rightarrow> nat \<Rightarrow> nat \<Rightarrow> u8" where
  "reconstruct_pixel workspace source w h x y =
     (let direction = sample_direction (pix w workspace x y);
          (weighted_sum, weight_sum) =
            foldl (sample_step source (int w) (int h) (int x) (int y) direction) (0, 0) [0..<7]
      in if weight_sum = 0 then 0xff else of_int (trunc_div weighted_sum weight_sum))"

definition gx_feature_optional_reconstruct_kernel ::
    "u8 list \<Rightarrow> u8 list \<Rightarrow> u8 list \<Rightarrow> int \<Rightarrow> int \<Rightarrow> u8 list option" where
  "gx_feature_optional_reconstruct_kernel workspace source destination width height =
     (if width \<le> 0 \<or> height \<le> 0 then None
      else Some (mem_write destination 0 (raster (nat width) (nat height)
             (reconstruct_pixel workspace source (nat width) (nat height)))))"

section \<open>The optional picture of the extractor\<close>

definition prepare_optional_image_checked ::
    "environment \<Rightarrow> (nat \<Rightarrow> u8) \<Rightarrow> u8 gx_feature_pyramid_image \<Rightarrow> history \<Rightarrow>
     u8 gx_feature_pyramid_image option \<times> history" where
  "prepare_optional_image_checked env junk source hist =
     (if im_width source \<le> 0 \<or> im_height source \<le> 0 \<or> im_element_bytes source \<noteq> 1 then (None, hist)
      else case gx_feature_descriptor_allocate env junk (im_width source) (im_height source) (im_element_bytes source) hist of
          (None, h1) \<Rightarrow> (None, h1)
        | (Some destination, h1) \<Rightarrow>
            (case gx_feature_optional_orientation_kernel env (im_pixels source)
                (replicate GX_FEATURE_OPTIONAL_WORKSPACE_BYTES 0) (im_width source) (im_height source)
                GX_FEATURE_OPTIONAL_RADIUS h1 of
               (None, h2) \<Rightarrow> (None, snd (snd (gx_feature_descriptor_release env (Some destination) h2)))
             | (Some workspace, h2) \<Rightarrow>
                 (case gx_feature_optional_reconstruct_kernel workspace (im_pixels source) (im_pixels destination)
                     (im_width source) (im_height source) of
                    None \<Rightarrow> (None, snd (snd (gx_feature_descriptor_release env (Some destination) h2)))
                  | Some pixels \<Rightarrow> (Some (destination\<lparr>im_pixels := pixels\<rparr>), h2))))"

section \<open>The tables of the code\<close>

definition zero_border :: "nat \<Rightarrow> nat \<Rightarrow> 'a :: zero list \<Rightarrow> bool" where
  "zero_border w h v \<longleftrightarrow> (\<forall>i < w * h. i mod w = 0 \<or> i div w = 0 \<longrightarrow> v ! i = 0)"

lemma inner_table_border:
  assumes "i < w * h" "i mod w = 0 \<or> i div w = 0"
  shows "inner_table w h v ! i = 0"
  using assms nth_scan [OF assms(1), of "\<lambda>a i. if i mod w = 0 \<or> i div w = 0 then 0
     else v ! i + a ! (i - 1) + a ! (i - w) - a ! (i - w - 1)"]
  by (simp add: inner_table_def)

lemma inner_is_integral:
  assumes "zero_border w h v"
  shows "inner_table w h v = integral_table w h v"
proof -
  let ?f = "\<lambda>a i. if i mod w = 0 \<or> i div w = 0 then 0 else v ! i + a ! (i - 1) + a ! (i - w) - a ! (i - w - 1)"
  have "n \<le> w * h \<Longrightarrow> scan n ?f = scan n (integral_step w v)" for n
  proof (induction n)
    case (Suc n)
    have n: "n < w * h" using Suc.prems by simp
    have zero: "scan n ?f ! j = 0" if "j < n" "j mod w = 0 \<or> j div w = 0" for j
      using inner_table_border [of j w h v] nth_scan_before [OF that(1), of "w * h" ?f] that n
      by (simp add: inner_table_def)
    have "?f (scan n ?f) n = integral_step w v (scan n ?f) n"
    proof (cases "n mod w = 0 \<or> n div w = 0")
      case True
      then have v0: "v ! n = 0" by (rule assms [unfolded zero_border_def, rule_format, OF n])
      consider "n = 0" | "n mod w = 0" "0 < n div w" | "0 < n mod w" "n div w = 0"
        using True div_mult_mod_eq [of n w] by (cases "n mod w = 0"; cases "n div w = 0") simp_all
      then show ?thesis
      proof cases
        case 2
        then have "w \<le> n" by (cases "n < w") simp_all
        then have "(n - w) mod w = 0" using 2 by (simp add: le_mod_geq)
        moreover have "n - w < n" using 2 n by (auto intro!: diff_less)
        ultimately have "scan n ?f ! (n - w) = 0" by (intro zero disjI1)
        moreover have "integral_step w v (scan n ?f) n = scan n ?f ! (n - w)"
          using 2 by (simp only: integral_step_def Let_def v0 if_False if_True less_irrefl simp_thms add_0)
        ultimately show ?thesis using 2(1) by simp
      next
        case 3
        then have "n < w" using n by (auto simp: div_eq_0_iff)
        then have "scan n ?f ! (n - 1) = 0" using 3 by (intro zero disjI2) auto
        moreover have "integral_step w v (scan n ?f) n = scan n ?f ! (n - 1)"
          using 3 by (simp only: integral_step_def Let_def v0 if_False if_True less_irrefl simp_thms add_0)
        ultimately show ?thesis using 3(2) by simp
      qed (use v0 in \<open>simp add: integral_step_def\<close>)
    next
      case False
      then show ?thesis by (simp add: integral_step_def)
    qed
    then show ?case using Suc by (simp add: scan_Suc)
  qed (simp add: scan_def)
  then show ?thesis by (simp add: inner_table_def integral_table_def)
qed

interpretation inner: summed_area inner_table zero_border
  by unfold_locales (simp add: inner_is_integral integral.table_sum)

lemma rectangle_sum:
  assumes "zero_border w h v" and "1 \<le> l" "l \<le> r" "r < w" and "1 \<le> u" "u \<le> b" "b < h"
  shows "root_integral_rectangle (inner_table w h v) w l u r b = sint (box_sum (pix w v) l u r b)"
proof -
  have "box_sum (pix w v) l u r b = pix w (inner_table w h v) r b - pix w (inner_table w h v) r (u - 1)
      - pix w (inner_table w h v) (l - 1) b + pix w (inner_table w h v) (l - 1) (u - 1)"
    using assms inner.box_of_table [OF assms(1,3,4,6,7)] by simp
  then show ?thesis by (simp only: root_integral_rectangle_def)
qed

section \<open>The range of the directions\<close>

lemma rotation_angle:
  "rotation_loop ks lst (v, h, angle) = (lst', v', h', angle') \<Longrightarrow> set ks \<subseteq> {..<13} \<Longrightarrow>
   \<exists>d. angle' = angle + of_int d \<and> \<bar>d\<bar> \<le> sum_list (map ((!) cordic_angles) ks)"
proof (induction ks arbitrary: lst v h angle)
  case (Cons k ks)
  obtain v1 h1 a1 where s: "rotation_step k (v, h, angle) = (v1, h1, a1)" by (rule prod_cases3)
  have pos: "0 \<le> cordic_angles ! j" if "j < 13" for j
    using that by (auto simp: cordic_angles_def less_Suc_eq numeral_eq_Suc)
  have a1: "a1 = angle + of_int (cordic_angles ! k) \<or> a1 = angle + of_int (- (cordic_angles ! k))"
    using s by (auto simp: rotation_step_def Let_def split: if_splits)
  have rest: "0 \<le> sum_list (map ((!) cordic_angles) ks)"
    using pos Cons.prems(2) by (intro sum_list_nonneg) auto
  have k: "0 \<le> cordic_angles ! k" using pos Cons.prems(2) by simp
  obtain e where e: "a1 = angle + of_int e" "\<bar>e\<bar> \<le> cordic_angles ! k"
    using a1 k that [of "cordic_angles ! k"] that [of "- (cordic_angles ! k)"] by auto
  show ?case
  proof (cases "v1 = 0")
    case True
    then have "angle' = angle + of_int e" using Cons.prems(1) s e by simp
    with e rest show ?thesis by (intro exI [of _ e]) auto
  next
    case False
    then obtain d where d: "angle' = a1 + of_int d" "\<bar>d\<bar> \<le> sum_list (map ((!) cordic_angles) ks)"
      using Cons.IH [of k v1 h1 a1] Cons.prems s by auto
    then have "angle' = angle + of_int (e + d)" using e by simp
    with d e show ?thesis by (intro exI [of _ "e + d"]) auto
  qed
qed auto

lemma angle_range:
  assumes "gx_feature_vector_angle_magnitude v h = (angle, m)"
  shows "\<exists>d. angle = of_int d \<and> - 20007 \<le> d \<and> d \<le> 20008"
proof -
  have rotated: "\<exists>d. a = of_int d \<and> \<bar>d\<bar> \<le> 7139"
    if "rotation_loop [0..<13] 0 (v', h', 0) = (l, v1, h1, a)" for v' h' l v1 h1 a
    using rotation_angle [OF that] by (auto simp: cordic_angles_def upt_rec numeral_eq_Suc)
  consider "angle = GX_FEATURE_VECTOR_ANGLE_HALF" | "angle = 0" | "angle = 0xe6de" | "angle = GX_FEATURE_VECTOR_ANGLE_QUARTER"
    | a d where "a = (of_int d :: u16)" "\<bar>d\<bar> \<le> 7139" "angle = a + 0xcdbc \<or> angle = 0x3244 - a \<or> angle = 0 - a \<or> angle = a"
    using assms rotated unfolding gx_feature_vector_angle_magnitude_def Let_def
    by (fastforce split: if_splits prod.splits)
  then show ?thesis
  proof cases
    case 3
    then have "angle = of_int (- 6434)" by simp
    then show ?thesis by (intro exI [of _ "- 6434"]) simp
  next
    case (5 a d)
    have "of_int (d - 12868) = of_int d + (0xcdbc :: u16)" "of_int (12868 - d) = 0x3244 - (of_int d :: u16)"
      "of_int (- d) = 0 - (of_int d :: u16)" by simp_all
    with 5 obtain e where "angle = of_int e" "e \<in> {d - 12868, 12868 - d, - d, d}"
      by (elim disjE) (metis insert_iff)+
    with 5(2) show ?thesis by (intro exI [of _ e]) auto
  qed (auto simp: GX_FEATURE_VECTOR_ANGLE_HALF_def GX_FEATURE_VECTOR_ANGLE_QUARTER_def
      intro: exI [of _ 12868] exI [of _ 0] exI [of _ 6434])
qed

lemma direction_below_180: "unat (direction_byte sd sxy) < 180"
proof -
  obtain angle m where a: "gx_feature_vector_angle_magnitude sd sxy = (angle, m)" by (cases "gx_feature_vector_angle_magnitude sd sxy")
  then obtain d where d: "angle = of_int d" "- 20007 \<le> d" "d \<le> 20008" using angle_range by blast
  define e where "e = (if d < 0 then d + 0x6488 else d)"
  have e: "0 \<le> e" "e \<le> 25735" using d by (auto simp: e_def)
  have "sint angle = d" using d by (simp add: signed_of_int signed_take_bit_int_eq_self)
  then have byte: "direction_byte sd sxy = (let degrees = drop_bit 20 (e * 0x1ca6)
      in of_int (180 - (if degrees - 135 < 1 then degrees + 45 else degrees - 135)))"
    by (simp add: direction_byte_def a e_def GX_FEATURE_VECTOR_ANGLE_PERIOD_def Let_def)
  have "e * 0x1ca6 div 1048576 \<le> 25735 * 0x1ca6 div 1048576" using e by (intro zdiv_mono1) auto
  moreover have "0 \<le> e * 0x1ca6 div 1048576" using e by simp
  moreover define g where "g = drop_bit 20 (e * 0x1ca6)"
  ultimately have g: "0 \<le> g" "g \<le> 179" by (simp_all add: drop_bit_eq_div)
  define k where "k = 180 - (if g - 135 < 1 then g + 45 else g - 135)"
  have "0 \<le> k" "k < 180" using g by (auto simp: k_def)
  moreover have "direction_byte sd sxy = of_int k" unfolding byte Let_def k_def g_def ..
  ultimately show ?thesis by (simp add: unsigned_of_int take_bit_int_eq_self nat_less_iff)
qed

section \<open>The orientation kernel computes true sums\<close>

lemma callocs_live:
  "callocs env ns h = (oks, h') \<Longrightarrow>
   length oks = length ns \<and> live_blocks env h' = live_blocks env h + int (length (filter id oks))"
  by (induction ns arbitrary: h oks h') (auto simp: Let_def ext_do_def split: prod.splits)

definition calloc_works :: "environment \<Rightarrow> bool" where
  "calloc_works env \<longleftrightarrow> (\<forall>g n. \<not> isl (reply_rc (env g (Calloc n))))"

lemma callocs_succeed: "calloc_works env \<Longrightarrow> callocs env ns h = (oks, h') \<Longrightarrow> list_all id oks \<and> length oks = length ns"
  by (induction ns arbitrary: h oks h') (auto simp: calloc_works_def Let_def ext_do_def split: prod.splits)

lemma all_granted: "list_all id oks \<Longrightarrow> length (filter id oks) = length oks"
  by (induction oks) auto

lemma two_frees: "live_blocks env (h @ [Free, Free]) = live_blocks env h - 2"
  using live_blocks_snoc [of env "h @ [Free]" Free] by simp

lemma four_frees: "live_blocks env (h @ [Free, Free, Free, Free]) = live_blocks env h - 4"
  using two_frees [of env "h @ [Free, Free]"] two_frees [of env h] by simp

lemma orientation_live:
  "gx_feature_optional_orientation_kernel env source workspace width height radius hist = (res, hist') \<Longrightarrow>
   live_blocks env hist' = live_blocks env hist"
  unfolding gx_feature_optional_orientation_kernel_def Let_def
  by (auto simp: frees_live all_granted two_frees four_frees dest!: callocs_live split: if_splits prod.splits)

definition ridge_x :: "nat \<Rightarrow> nat \<Rightarrow> u8 list \<Rightarrow> nat \<Rightarrow> nat \<Rightarrow> int" where
  "ridge_x w h source x y = (if inner_pixel w h x y then sobel_x w source x y else 0)"

definition ridge_y :: "nat \<Rightarrow> nat \<Rightarrow> u8 list \<Rightarrow> nat \<Rightarrow> nat \<Rightarrow> int" where
  "ridge_y w h source x y = (if inner_pixel w h x y then sobel_y w source x y else 0)"

definition window_total :: "nat \<Rightarrow> nat \<Rightarrow> nat \<Rightarrow> (nat \<Rightarrow> nat \<Rightarrow> int) \<Rightarrow> nat \<Rightarrow> nat \<Rightarrow> int" where
  "window_total w h radius f x y = box_sum f (max (x - radius) 1) (max (y - radius) 1) (min (x + radius) (w - 1)) (min (y + radius) (h - 1))"

definition ridge_direction :: "nat \<Rightarrow> nat \<Rightarrow> u8 list \<Rightarrow> nat \<Rightarrow> nat \<Rightarrow> u8" where
  "ridge_direction w h source x y =
     direction_byte
       (window_total w h GX_FEATURE_OPTIONAL_RADIUS (\<lambda>x y. (ridge_x w h source x y)\<^sup>2 - (ridge_y w h source x y)\<^sup>2) x y)
       (window_total w h GX_FEATURE_OPTIONAL_RADIUS (\<lambda>x y. 2 * ridge_x w h source x y * ridge_y w h source x y) x y)"

lemma ridge_bound: "\<bar>ridge_x w h source x y\<bar> \<le> 1020 \<and> \<bar>ridge_y w h source x y\<bar> \<le> 1020"
proof -
  have byte: "0 \<le> uint (p :: u8)" "uint p \<le> 255" for p
    using uint_lt2p [of p] by simp_all
  have combined: "\<bar>(a - b) * 2 - c - d + e + f\<bar> \<le> 1020"
    if "0 \<le> a" "a \<le> 255" "0 \<le> b" "b \<le> 255" "0 \<le> c" "c \<le> 255" "0 \<le> d" "d \<le> 255" "0 \<le> e" "e \<le> 255" "0 \<le> f" "f \<le> 255"
    for a b c d e f :: int using that by (simp add: abs_le_iff)
  show ?thesis
    unfolding ridge_x_def ridge_y_def sobel_x_def sobel_y_def Let_def
    by (cases "inner_pixel w h x y", simp_all only: if_True if_False) (intro conjI combined byte, simp)
qed

lemma product_bound: "\<bar>a\<bar> \<le> 1020 \<Longrightarrow> \<bar>b\<bar> \<le> 1020 \<Longrightarrow> \<bar>a * b\<bar> \<le> (1040400 :: int)"
  using mult_mono [of "\<bar>a\<bar>" 1020 "\<bar>b\<bar>" 1020] by (simp add: abs_mult)

lemma word_sum_exact:
  assumes "\<And>x y. x < w \<Longrightarrow> y < h \<Longrightarrow> pix w v x y = of_int (f x y)" and "\<And>x y. \<bar>f x y\<bar> \<le> 2080800" and "3 \<le> w" "3 \<le> h"
    and "x < w" "y < h"
  shows "sint (box_sum (pix w v :: nat \<Rightarrow> nat \<Rightarrow> u32) (max (x - 6) 1) (max (y - 6) 1) (min (x + 6) (w - 1)) (min (y + 6) (h - 1)))
    = window_total w h 6 f x y"
proof -
  let ?l = "max (x - 6) 1" and ?u = "max (y - 6) 1" and ?r = "min (x + 6) (w - 1)" and ?b = "min (y + 6) (h - 1)"
  have "box_sum (pix w v) ?l ?u ?r ?b = box_sum (\<lambda>x y. of_int (f x y)) ?l ?u ?r ?b"
    by (rule box_sum_cong) (use assms in auto)
  then have word: "box_sum (pix w v) ?l ?u ?r ?b = of_int (window_total w h 6 f x y)"
    by (simp only: box_sum_of_int window_total_def)
  have "\<bar>window_total w h 6 f x y\<bar> \<le> int (Suc ?b - ?u) * (int (Suc ?r - ?l) * 2080800)"
    unfolding window_total_def by (rule box_sum_abs) (rule assms)
  also have "\<dots> \<le> 13 * (13 * 2080800)" by (intro mult_mono) auto
  finally show ?thesis unfolding word by (auto simp: signed_of_int intro!: signed_take_bit_int_eq_self)
qed

lemma orientation_pixels:
  assumes "calloc_works env" and "3 \<le> w" "3 \<le> h" "w * h \<le> GX_FEATURE_OPTIONAL_WORKSPACE_BYTES"
  shows "fst (gx_feature_optional_orientation_kernel env source workspace (int w) (int h) GX_FEATURE_OPTIONAL_RADIUS hist)
    = Some (mem_write workspace 0 (raster w h (ridge_direction w h source)))"
proof -
  let ?gx = "raster w h (\<lambda>x y. if inner_pixel w h x y then sobel_x w source x y else 0)"
  let ?gy = "raster w h (\<lambda>x y. if inner_pixel w h x y then sobel_y w source x y else 0)"
  define xy_list where "xy_list = map (\<lambda>i. of_int (?gx ! i) * of_int (?gy ! i) + of_int (?gx ! i) * of_int (?gy ! i) :: u32) [0..<w * h]"
  define df_list where "df_list = map (\<lambda>i. of_int (?gx ! i) * of_int (?gx ! i) - of_int (?gy ! i) * of_int (?gy ! i) :: u32) [0..<w * h]"
  have pixels: "?gx ! i = ridge_x w h source (i mod w) (i div w)" "?gy ! i = ridge_y w h source (i mod w) (i div w)"
    if "i < w * h" for i using that by (simp_all add: nth_raster ridge_x_def ridge_y_def)
  have border: "ridge_x w h source x y = 0 \<and> ridge_y w h source x y = 0" if "x = 0 \<or> y = 0" for x y
    using that by (auto simp: ridge_x_def ridge_y_def inner_pixel_def)
  have z: "zero_border w h xy_list" "zero_border w h df_list"
    by (auto simp: zero_border_def xy_list_def df_list_def pixels border)
  have "direction_at (inner_table w h xy_list) (inner_table w h df_list) w h GX_FEATURE_OPTIONAL_RADIUS x y = ridge_direction w h source x y"
    if xy: "x < w" "y < h" for x y
  proof -
    have bounds: "(if int c - 6 > 1 then c - 6 else 1) = max (c - 6) 1" "(if c + 6 < n - 1 then c + 6 else n - 1) = min (c + 6) (n - 1)"
      for c n :: nat by auto
    have win: "1 \<le> max (x - 6) 1" "max (x - 6) 1 \<le> min (x + 6) (w - 1)" "min (x + 6) (w - 1) < w"
      "1 \<le> max (y - 6) 1" "max (y - 6) 1 \<le> min (y + 6) (h - 1)" "min (y + 6) (h - 1) < h" using xy assms(2,3) by auto
    have read: "pix w xy_list i j = of_int (2 * ridge_x w h source i j * ridge_y w h source i j)"
      "pix w df_list i j = of_int ((ridge_x w h source i j)\<^sup>2 - (ridge_y w h source i j)\<^sup>2)" if "i < w" "j < h" for i j
      using that by (simp_all add: xy_list_def df_list_def pix_def index_less pixels power2_eq_square mult.assoc)
    have small: "\<bar>2 * ridge_x w h source i j * ridge_y w h source i j\<bar> \<le> 2080800"
      "\<bar>(ridge_x w h source i j)\<^sup>2 - (ridge_y w h source i j)\<^sup>2\<bar> \<le> 2080800" for i j
    proof -
      note b = ridge_bound [of w h source i j]
      have "\<bar>ridge_x w h source i j * ridge_y w h source i j\<bar> \<le> 1040400"
        "\<bar>(ridge_x w h source i j)\<^sup>2\<bar> \<le> 1040400" "\<bar>(ridge_y w h source i j)\<^sup>2\<bar> \<le> 1040400"
        using b unfolding power2_eq_square by (simp_all only: product_bound)
      then show "\<bar>2 * ridge_x w h source i j * ridge_y w h source i j\<bar> \<le> 2080800"
        "\<bar>(ridge_x w h source i j)\<^sup>2 - (ridge_y w h source i j)\<^sup>2\<bar> \<le> 2080800"
        unfolding mult.assoc by linarith+
    qed
    have "sint (box_sum (pix w xy_list) (max (x - 6) 1) (max (y - 6) 1) (min (x + 6) (w - 1)) (min (y + 6) (h - 1)))
        = window_total w h 6 (\<lambda>x y. 2 * ridge_x w h source x y * ridge_y w h source x y) x y"
      "sint (box_sum (pix w df_list) (max (x - 6) 1) (max (y - 6) 1) (min (x + 6) (w - 1)) (min (y + 6) (h - 1)))
        = window_total w h 6 (\<lambda>x y. (ridge_x w h source x y)\<^sup>2 - (ridge_y w h source x y)\<^sup>2) x y"
      by (rule word_sum_exact; fact read small assms xy)+
    then show ?thesis
      unfolding direction_at_def ridge_direction_def Let_def GX_FEATURE_OPTIONAL_RADIUS_def of_nat_numeral bounds
        rectangle_sum [OF z(1) win] rectangle_sum [OF z(2) win] by simp
  qed
  then have same: "raster w h (direction_at (inner_table w h xy_list) (inner_table w h df_list) w h GX_FEATURE_OPTIONAL_RADIUS)
      = raster w h (ridge_direction w h source)" by (rule raster_cong)
  obtain oks h1 where c1: "callocs env (replicate 4 (w * h * 4)) hist = (oks, h1)" by (rule prod.exhaust)
  obtain oks' h3 where c2: "callocs env (replicate 2 (w * h * 4)) (frees env [True, True] h1) = (oks', h3)" by (rule prod.exhaust)
  note ok = callocs_succeed [OF assms(1) c1] callocs_succeed [OF assms(1) c2]
  show ?thesis
    using assms(2-4) ok
    unfolding gx_feature_optional_orientation_kernel_def Let_def nat_int c1 c2 prod.case
      xy_list_def [symmetric] df_list_def [symmetric] same
    by (simp add: GX_FEATURE_OPTIONAL_RADIUS_def INT32_MAX_def)
qed

text \<open>
  C30: the orientation kernel writes for every pixel the direction of the true sums of products of Sobel
  gradients over the 13 by 13 window (no 32-bit table entry it combines wraps the result), as a number below
  180, leaves the rest of the workspace alone and frees its six tables.
\<close>

theorem ridge_directions:
  assumes "calloc_works env" and "3 \<le> w" "3 \<le> h" "w * h \<le> GX_FEATURE_OPTIONAL_WORKSPACE_BYTES" and "w * h \<le> length workspace"
  shows "\<exists>ws hist'. gx_feature_optional_orientation_kernel env source workspace (int w) (int h) GX_FEATURE_OPTIONAL_RADIUS hist
      = (Some ws, hist')
    \<and> take (w * h) ws = raster w h (ridge_direction w h source) \<and> drop (w * h) ws = drop (w * h) workspace
    \<and> list_all (\<lambda>b. unat b < 180) (take (w * h) ws)
    \<and> live_blocks env hist' = live_blocks env hist"
proof -
  obtain res hist' where run: "gx_feature_optional_orientation_kernel env source workspace (int w) (int h)
      GX_FEATURE_OPTIONAL_RADIUS hist = (res, hist')" by (rule prod.exhaust)
  then have res: "res = Some (mem_write workspace 0 (raster w h (ridge_direction w h source)))"
    using orientation_pixels [OF assms(1-4), of source workspace hist] by simp
  have "list_all (\<lambda>b. unat b < 180) (raster w h (ridge_direction w h source))"
    by (simp add: list_all_raster ridge_direction_def direction_below_180)
  then show ?thesis
    using run res assms(5) orientation_live [OF run] by (simp add: mem_write_def)
qed

theorem ridge_directions_witness:
  "\<exists>ws hist'. gx_feature_optional_orientation_kernel quiet_env [1, 2, 3, 4, 5, 6, 7, 8, 90] (replicate 10 7) 3 3 6 []
      = (Some ws, hist') \<and> drop 9 ws = [7] \<and> live_blocks quiet_env hist' = 0"
  using ridge_directions [of quiet_env 3 3 "replicate 10 7" "[1, 2, 3, 4, 5, 6, 7, 8, 90]" "[]"]
  by (force simp: calloc_works_def quiet_env_def GX_FEATURE_OPTIONAL_WORKSPACE_BYTES_def GX_FEATURE_OPTIONAL_RADIUS_def
      live_blocks_def)

section \<open>The average stays between the extremes\<close>

lemma direction_less: "sample_direction b < 12"
proof (cases "unat b < 173")
  case True
  then have "(unat b - 8) div 15 < 11" by (simp add: less_mult_imp_div_less)
  then show ?thesis by (simp add: sample_direction_def)
next
  case False
  have "(8 :: u8) \<le> b" using False by (simp add: word_le_nat_alt)
  then have "unat (b - 8) = unat b - 8" by (simp add: unat_sub)
  then show ?thesis using False by (simp add: sample_direction_def word_less_nat_alt)
qed

lemma center_offset: "d < 12 \<Longrightarrow> direction_offsets ! d ! 3 = (0, 0)"
proof -
  have "list_all (\<lambda>os. os ! 3 = (0, 0)) direction_offsets" by code_simp
  moreover have "length direction_offsets = 12" by code_simp
  ultimately show "d < 12 \<Longrightarrow> direction_offsets ! d ! 3 = (0, 0)" by (simp add: list_all_length)
qed

lemma weights: "k < 7 \<Longrightarrow> 0 \<le> direction_weights ! k" "direction_weights ! 3 = 8"
  by (auto simp: direction_weights_def less_Suc_eq numeral_eq_Suc)

lemma sample_fold:
  assumes "\<And>i. i < w * h \<Longrightarrow> lo \<le> uint (source ! i) \<and> uint (source ! i) \<le> hi" and "x < w" "y < h" and "d < 12"
  shows "set ks \<subseteq> {..<7} \<Longrightarrow> lo * t \<le> s \<Longrightarrow> s \<le> hi * t \<Longrightarrow>
    \<exists>s' t'. foldl (sample_step source (int w) (int h) (int x) (int y) d) (s, t) ks = (s', t')
      \<and> lo * t' \<le> s' \<and> s' \<le> hi * t' \<and> t \<le> t' \<and> (3 \<in> set ks \<longrightarrow> t + 8 \<le> t')"
proof (induction ks arbitrary: s t)
  case (Cons k ks)
  obtain dx dy where o: "direction_offsets ! d ! k = (dx, dy)" by (rule prod.exhaust)
  have wk: "0 \<le> direction_weights ! k" using weights(1) Cons.prems(1) by simp
  show ?case
  proof (cases "0 \<le> int x + dx \<and> int x + dx < int w \<and> 0 \<le> int y + dy \<and> int y + dy < int h")
    case True
    define p where "p = uint (source ! nat ((int y + dy) * int w + (int x + dx)))"
    have "nat (int y + dy) * w + nat (int x + dx) < w * h" using True by (intro index_less) auto
    moreover have "nat ((int y + dy) * int w + (int x + dx)) = nat (int y + dy) * w + nat (int x + dx)"
      using True by (simp add: nat_add_distrib nat_mult_distrib)
    ultimately have p: "lo \<le> p" "p \<le> hi" using assms(1) by (simp_all add: p_def)
    have "lo * (t + direction_weights ! k) \<le> s + p * direction_weights ! k"
      "s + p * direction_weights ! k \<le> hi * (t + direction_weights ! k)"
      using Cons.prems p wk by (simp_all add: algebra_simps add_mono mult_right_mono)
    from Cons.IH [OF _ this] Cons.prems(1) obtain s' t' where
      "foldl (sample_step source (int w) (int h) (int x) (int y) d) (s + p * direction_weights ! k, t + direction_weights ! k) ks = (s', t')"
      "lo * t' \<le> s'" "s' \<le> hi * t'" "t + direction_weights ! k \<le> t'" "3 \<in> set ks \<longrightarrow> t + direction_weights ! k + 8 \<le> t'" by auto
    moreover have "sample_step source (int w) (int h) (int x) (int y) d (s, t) k
        = (s + p * direction_weights ! k, t + direction_weights ! k)"
      using True by (simp add: sample_step_def Let_def o p_def)
    ultimately show ?thesis using wk weights(2) by auto
  next
    case False
    then have "k \<noteq> 3" using o center_offset [OF assms(4)] assms(2,3) by auto
    moreover have "sample_step source (int w) (int h) (int x) (int y) d (s, t) k = (s, t)"
      using False by (auto simp: sample_step_def Let_def o)
    ultimately show ?thesis using Cons by simp
  qed
qed simp

lemma reconstruct_between:
  assumes "\<And>i. i < w * h \<Longrightarrow> lo \<le> uint (source ! i) \<and> uint (source ! i) \<le> hi" and "x < w" "y < h" and "0 \<le> lo" "hi \<le> 255"
  shows "lo \<le> uint (reconstruct_pixel workspace source w h x y) \<and> uint (reconstruct_pixel workspace source w h x y) \<le> hi"
proof -
  let ?d = "sample_direction (pix w workspace x y)"
  have ks: "set [0..<7] \<subseteq> {..<7 :: nat}" "lo * 0 \<le> 0" "0 \<le> hi * 0" by auto
  obtain s t where f: "foldl (sample_step source (int w) (int h) (int x) (int y) ?d) (0, 0) [0..<7] = (s, t)"
    and b: "lo * t \<le> s" "s \<le> hi * t" "3 \<in> set [0..<7] \<longrightarrow> 0 + 8 \<le> t"
    using sample_fold [where w = w and h = h and lo = lo and hi = hi and source = source,
        OF assms(1) assms(2,3) direction_less ks] by blast
  have t: "8 \<le> t" using b(3) by simp
  have "lo * t div t \<le> s div t" "s div t \<le> hi * t div t" using zdiv_mono1 [OF b(1), of t] zdiv_mono1 [OF b(2), of t] t by simp_all
  then have range: "lo \<le> s div t" "s div t \<le> hi" using t by simp_all
  have "0 \<le> lo * t" using assms(4) t by simp
  then have "trunc_div s t = s div t" using b(1) by (simp add: trunc_div_def)
  moreover have "uint (of_int (s div t) :: u8) = s div t"
    using range assms(4,5) by (simp add: unsigned_of_int take_bit_int_eq_self)
  ultimately show ?thesis using range t by (simp add: reconstruct_pixel_def f Let_def)
qed

lemma allocate_result:
  assumes "gx_feature_descriptor_allocate env junk (int w) (int h) 1 hist = (Some d, h1)"
  shows "im_width d = int w \<and> im_height d = int h \<and> im_element_bytes d = 1 \<and> im_element_count d = int (w * h)
    \<and> length (im_pixels d) = w * h"
  using assms compute_layout_Some [of "int w" "int h" 1]
  by (auto simp: gx_feature_descriptor_allocate_def Let_def ext_do_def nat_mult_distrib split: option.splits if_splits)

text \<open>
  C31: the optional picture. Whatever the allocator answers, the call either fails and leaves no block behind, or
  returns one new picture of the same size, and every pixel of it lies between any bounds that all pixels of the
  source respect; in particular a flat picture stays as it is. The direction read back always selects one of
  the twelve rows of the offset table.
\<close>

theorem optional_picture:
  fixes source :: "u8 gx_feature_pyramid_image"
  assumes "prepare_optional_image_checked env junk source hist = (res, hist')"
    and "im_width source = int w" "im_height source = int h" and "length (im_pixels source) = w * h"
    and "\<And>p. p \<in> set (im_pixels source) \<Longrightarrow> lo \<le> unat p \<and> unat p \<le> hi" and "hi \<le> 255"
  shows "live_blocks env hist' = live_blocks env hist + blocks_of res
    \<and> (\<forall>d. res = Some d \<longrightarrow> im_width d = im_width source \<and> im_height d = im_height source \<and> length (im_pixels d) = w * h
          \<and> list_all (\<lambda>p. lo \<le> unat p \<and> unat p \<le> hi) (im_pixels d))
    \<and> (\<forall>b. sample_direction b < length direction_offsets)"
proof -
  have twelve: "length direction_offsets = 12" by code_simp
  have dir: "\<forall>b. sample_direction b < length direction_offsets" unfolding twelve using direction_less by blast
  show ?thesis
  proof (cases "gx_feature_descriptor_allocate env junk (im_width source) (im_height source) (im_element_bytes source) hist")
    case (Pair dest h1)
    show ?thesis
    proof (cases "im_width source \<le> 0 \<or> im_height source \<le> 0 \<or> im_element_bytes source \<noteq> 1 \<or> dest = None")
      case True
      then show ?thesis using assms(1) Pair allocate_blocks [OF Pair] dir
        by (auto simp: prepare_optional_image_checked_def split: if_splits)
    next
      case False
      then obtain d where d: "dest = Some d" and one: "im_element_bytes source = 1" and pos: "0 < w" "0 < h"
        using assms(2,3) by auto
      have d': "im_width d = int w" "im_height d = int h" "length (im_pixels d) = w * h"
        using allocate_result [of env junk w h hist d h1] Pair d one assms(2,3) by auto
      obtain ws h2 where k: "gx_feature_optional_orientation_kernel env (im_pixels source)
          (replicate GX_FEATURE_OPTIONAL_WORKSPACE_BYTES 0) (im_width source) (im_height source) GX_FEATURE_OPTIONAL_RADIUS h1
          = (ws, h2)" by (rule prod.exhaust)
      have live: "live_blocks env h2 = live_blocks env hist + 1"
        using orientation_live [OF k] allocate_blocks [OF Pair] d by simp
      have bytes: "int lo \<le> uint (im_pixels source ! i) \<and> uint (im_pixels source ! i) \<le> int hi" if "i < w * h" for i
      proof -
        have "im_pixels source ! i \<in> set (im_pixels source)" using that assms(4) by simp
        from assms(5) [OF this] show ?thesis by (simp only: uint_nat of_nat_le_iff)
      qed
      have between: "lo \<le> unat (reconstruct_pixel a (im_pixels source) w h x y) \<and> unat (reconstruct_pixel a (im_pixels source) w h x y) \<le> hi"
        if "x < w" "y < h" for a x y
      proof -
        have "int lo \<le> uint (reconstruct_pixel a (im_pixels source) w h x y) \<and> uint (reconstruct_pixel a (im_pixels source) w h x y) \<le> int hi"
          by (rule reconstruct_between [OF bytes that]) (use assms(6) in simp_all)
        then show ?thesis by (simp only: uint_nat of_nat_le_iff)
      qed
      show ?thesis
      proof (cases ws)
        case None
        then show ?thesis using assms(1) False Pair d k live dir
          by (auto simp: prepare_optional_image_checked_def gx_feature_descriptor_release_def)
      next
        case (Some a)
        define out where "out = raster w h (reconstruct_pixel a (im_pixels source) w h)"
        have "res = Some (d\<lparr>im_pixels := out\<rparr>)" "hist' = h2"
          using assms(1-3) False Pair d k Some pos d'
          by (auto simp: prepare_optional_image_checked_def gx_feature_optional_reconstruct_kernel_def mem_write_def out_def)
        moreover have "list_all (\<lambda>p. lo \<le> unat p \<and> unat p \<le> hi) out"
          using between by (simp add: out_def list_all_raster)
        ultimately show ?thesis using live dir d' assms(2,3) by (simp add: out_def)
      qed
    qed
  qed
qed

definition flat_picture :: "u8 gx_feature_pyramid_image" where
  "flat_picture = \<lparr>im_width = 3, im_height = 3, im_reserved_08 = 3, im_element_count = 9, im_element_bytes = 1,
     im_pixels = replicate 9 77\<rparr>"

theorem optional_picture_witness:
  "\<exists>d hist'. prepare_optional_image_checked quiet_env (\<lambda>_. 0) flat_picture [] = (Some d, hist')
     \<and> live_blocks quiet_env hist' = 1 \<and> im_pixels d = replicate 9 77"
proof -
  obtain res hist' where run: "prepare_optional_image_checked quiet_env (\<lambda>_. 0) flat_picture [] = (res, hist')"
    by (rule prod.exhaust)
  have "res \<noteq> None"
  proof
    assume "res = None"
    obtain k h2 where kernel: "gx_feature_optional_orientation_kernel quiet_env (replicate 9 77)
        (replicate GX_FEATURE_OPTIONAL_WORKSPACE_BYTES 0) 3 3 GX_FEATURE_OPTIONAL_RADIUS
        [Malloc (GX_FEATURE_DESCRIPTOR_HEADER_BYTES + 9)] = (Some k, h2)"
      using orientation_pixels [of quiet_env 3 3 "replicate 9 77" "replicate GX_FEATURE_OPTIONAL_WORKSPACE_BYTES 0"]
      by (simp add: calloc_works_def quiet_env_def GX_FEATURE_OPTIONAL_WORKSPACE_BYTES_def prod_eq_iff)
    with run \<open>res = None\<close> show False
      by (auto simp: prepare_optional_image_checked_def flat_picture_def gx_feature_descriptor_allocate_def compute_layout_def
          INT32_MAX_def quiet_env_def ext_do_def gx_feature_optional_reconstruct_kernel_def Let_def)
  qed
  then obtain d where d: "res = Some d" by blast
  have "live_blocks quiet_env hist' = live_blocks quiet_env [] + blocks_of res
    \<and> (\<forall>d. res = Some d \<longrightarrow> im_width d = im_width flat_picture \<and> im_height d = im_height flat_picture \<and> length (im_pixels d) = 3 * 3
          \<and> list_all (\<lambda>p. 77 \<le> unat p \<and> unat p \<le> 77) (im_pixels d))
    \<and> (\<forall>b. sample_direction b < length direction_offsets)"
    by (rule optional_picture [OF run]) (simp_all add: flat_picture_def)
  moreover have "p = 77" if "77 \<le> unat p" "unat p \<le> 77" for p :: u8
  proof -
    have "unat p = unat (77 :: u8)" using that by simp
    then show ?thesis by (rule unsigned_word_eqI)
  qed
  ultimately have "length (im_pixels d) = 9" "\<forall>p \<in> set (im_pixels d). p = 77" "live_blocks quiet_env hist' = 1"
    by (auto simp: d list_all_iff live_blocks_def)
  then show ?thesis using run d by (auto intro!: replicate_eqI)
qed

end
