(* ===== verification/Root.thy ===== *)
theory Root
  imports Ridge
begin

text \<open>
  The rest of \<open>src/gx_feature_root.c\<close>: the parameter block of profile 24, the ridge mask
  (\<open>gx_feature_root_mask_prepare\<close>) and the packed maps of a feature object
  (\<open>gx_feature_root_feature_maps_prepare\<close>) with their descriptor slots. The callbacks for allocation, release and
  filtering are those every caller passes: the descriptor functions and \<open>apply_filter\<close>. The four slots at the
  offsets 0x08, 0x10, 0x18 and 0x20 are the first four descriptors of the object.
\<close>

section \<open>Parameters\<close>

definition GX_FEATURE_PROFILE24_ID :: u32 where "GX_FEATURE_PROFILE24_ID = 24"
definition GX_FEATURE_PROFILE24_MAX_RECORDS :: u32 where "GX_FEATURE_PROFILE24_MAX_RECORDS = 300"
definition GX_FEATURE_PROFILE24_EDGE_THRESHOLD :: u32 where "GX_FEATURE_PROFILE24_EDGE_THRESHOLD = 40"
definition GX_FEATURE_PROFILE24_SCALE_Q16 :: u32 where "GX_FEATURE_PROFILE24_SCALE_Q16 = 0x0001822e"

definition gx_feature_profile24_parameters_build ::
    "u32 list \<Rightarrow> u32 list \<Rightarrow> u32 \<Rightarrow> u32 \<Rightarrow> u32 \<Rightarrow> u32 list option" where
  "gx_feature_profile24_parameters_build template_a template_b capacity quality coverage =
     (if capacity = 0 \<or> capacity > GX_FEATURE_PROFILE24_MAX_RECORDS then None
      else
        let output = replicate 15 0;
            output = output[0 := GX_FEATURE_PROFILE24_ID, 1 := capacity, 2 := GX_FEATURE_PROFILE24_MAX_RECORDS,
                            3 := GX_FEATURE_PROFILE24_EDGE_THRESHOLD, 4 := 1];
            output = (mem_write output 5 (take 4 template_a))[5 := GX_FEATURE_PROFILE24_SCALE_Q16];
            output = mem_write output 9 (take 4 template_b)
        in Some (output[13 := quality, 14 := coverage]))"

section \<open>Thresholds and packed maps\<close>

definition histogram_step :: "u8 list \<Rightarrow> u8 list \<Rightarrow> u32 list \<times> u32 \<Rightarrow> nat \<Rightarrow> u32 list \<times> u32" where
  "histogram_step pixels mask_pixels st i =
     (let (histogram, included) = st
      in if mask_pixels ! i \<noteq> 0 \<and> pixels ! i \<noteq> 0
         then (let v = unat (pixels ! i) - 1 in (histogram[v := histogram ! v + 1], included + 1))
         else st)"

fun quantile_scan :: "u32 list \<Rightarrow> u32 \<Rightarrow> u32 \<Rightarrow> nat list \<Rightarrow> u8" where
  "quantile_scan histogram target cumulative [] = 0"
| "quantile_scan histogram target cumulative (v # vs) =
     (let previous = cumulative; cumulative = cumulative + histogram ! (v - 1)
      in if target \<le> cumulative
         then if cumulative - target \<le> target - previous then of_nat v else of_nat (v - 1)
         else quantile_scan histogram target cumulative vs)"

definition root_quantile_threshold ::
    "u8 gx_feature_pyramid_image \<Rightarrow> u8 gx_feature_pyramid_image \<Rightarrow> int \<Rightarrow> u8" where
  "root_quantile_threshold img msk alternate_mode =
     (if im_element_bytes img \<noteq> 1 \<or> im_element_bytes msk \<noteq> 1 \<or> im_element_count img \<le> 0
         \<or> im_element_count msk < im_element_count img then 0
      else
        let (histogram, included) = foldl (histogram_step (im_pixels img) (im_pixels msk)) (replicate 255 0, 0)
              [0..<nat (im_element_count img)];
            target = drop_bit 8 ((if alternate_mode = 0 then 0xcd else 0x32) * included + 0x80)
        in quantile_scan histogram target 0 [1..<256])"

definition root_pack_threshold_map ::
    "u8 gx_feature_pyramid_image \<Rightarrow> u8 gx_feature_pyramid_image \<Rightarrow> u8 \<Rightarrow> bool \<Rightarrow> u8 gx_feature_pyramid_image option" where
  "root_pack_threshold_map source destination threshold inclusive =
     (if im_element_bytes source \<noteq> 1 \<or> im_element_bytes destination \<noteq> 8
         \<or> im_width source \<noteq> im_width destination \<or> im_height source \<noteq> im_height destination
         \<or> im_element_count source \<le> 0 \<or> im_element_count destination \<le> 0 then None
      else
        let count = nat (im_width source) * nat (im_height source); packed_bytes = (count + 7) div 8
        in if im_element_count source < int count \<or> im_element_count destination < int packed_bytes then None
           else
             let pixels = im_pixels source;
                 cleared = mem_write (im_pixels destination) 0 (replicate packed_bytes 0)
             in Some (destination\<lparr>im_pixels := mark_bits
                  (\<lambda>i. if inclusive then pixels ! i \<ge> threshold else pixels ! i > threshold)
                  (\<lambda>i. i div 8) (\<lambda>i. i mod 8) [0..<count] cleared\<rparr>))"

text \<open>The status and the destination: pixels copied before a failure stay copied, and the element counts are read as
  \<open>size_t\<close>, so that a negative count bounds nothing.\<close>

definition subsample_step ::
    "u8 gx_feature_pyramid_image \<Rightarrow> bool \<times> u8 gx_feature_pyramid_image \<Rightarrow> int \<times> int \<Rightarrow> bool \<times> u8 gx_feature_pyramid_image" where
  "subsample_step source st yx =
     (let (ok, d) = st; (y, x) = yx;
          source_offset = (im_reserved_08 source * y + x) * 2;
          destination_offset = im_reserved_08 d * y + x
      in if \<not> ok \<or> source_offset \<ge> im_element_count source mod 2 ^ 64
             \<or> destination_offset \<ge> im_element_count d mod 2 ^ 64 then (False, d)
         else (True, d\<lparr>im_pixels := (im_pixels d)[nat destination_offset := im_pixels source ! nat source_offset]\<rparr>))"

definition root_subsample_even_bytes ::
    "u8 gx_feature_pyramid_image \<Rightarrow> u8 gx_feature_pyramid_image \<Rightarrow> bool \<times> u8 gx_feature_pyramid_image" where
  "root_subsample_even_bytes source destination =
     (if im_width source < 2 \<or> im_height source < 2 \<or> im_width destination \<noteq> im_width source div 2
         \<or> im_height destination \<noteq> im_height source div 2
         \<or> im_reserved_08 source \<le> 0 \<or> im_reserved_08 destination \<le> 0 then (False, destination)
      else foldl (subsample_step source) (True, destination)
             (concat (map (\<lambda>y. map (\<lambda>x. (y, x)) [0..im_width destination - 1]) [0..im_height destination - 1])))"

section \<open>Descriptor slots\<close>

type_synonym descriptor_slots = "u8 gx_feature_pyramid_image option list"

definition GX_ROOT_MAP_ADAPTIVE_PRIMARY :: nat where "GX_ROOT_MAP_ADAPTIVE_PRIMARY = 0"
definition GX_ROOT_MAP_ADAPTIVE_OPTIONAL :: nat where "GX_ROOT_MAP_ADAPTIVE_OPTIONAL = 1"
definition GX_ROOT_MAP_FIXED_PRIMARY :: nat where "GX_ROOT_MAP_FIXED_PRIMARY = 2"
definition GX_ROOT_MAP_WORK_MASK :: nat where "GX_ROOT_MAP_WORK_MASK = 3"

definition root_descriptor_release_local ::
    "environment \<Rightarrow> 'p gx_feature_pyramid_image option \<Rightarrow> history \<Rightarrow> history" where
  "root_descriptor_release_local env descriptor h =
     (if descriptor = None then h else snd (snd (gx_feature_descriptor_release env descriptor h)))"

definition root_descriptor_payload_bytes :: "int \<Rightarrow> int \<Rightarrow> int \<Rightarrow> int option" where
  "root_descriptor_payload_bytes width height element_type =
     (if width \<le> 0 \<or> height \<le> 0 \<or> element_type \<noteq> 1 \<and> element_type \<noteq> 2 \<and> element_type \<noteq> 4 \<and> element_type \<noteq> 8
      then None
      else
        let pixels = width * height;
            bytes = (if element_type = 8 then (pixels + 7) div 8 else pixels * element_type)
        in if bytes > INT32_MAX then None else Some bytes)"

definition root_ensure_descriptor_slot ::
    "environment \<Rightarrow> (nat \<Rightarrow> u8) \<Rightarrow> descriptor_slots \<Rightarrow> nat \<Rightarrow> int \<Rightarrow> int \<Rightarrow> int \<Rightarrow> history \<Rightarrow>
     bool \<times> descriptor_slots \<times> history" where
  "root_ensure_descriptor_slot env junk slots k width height element_type h =
     (case root_descriptor_payload_bytes width height element_type of
        None \<Rightarrow> (False, slots, h)
      | Some required \<Rightarrow>
          let small = (case slots ! k of None \<Rightarrow> False
                       | Some d \<Rightarrow> im_element_count d < 0 \<or> im_element_count d < required);
              h1 = (if small then root_descriptor_release_local env (slots ! k) h else h);
              slots1 = (if small then slots[k := None] else slots);
              (slots2, h2) =
                (if slots1 ! k = None
                 then (let (d, h2) = gx_feature_descriptor_allocate env junk width height element_type h1
                       in (slots1[k := d], h2))
                 else (slots1, h1))
          in (case slots2 ! k of None \<Rightarrow> False
              | Some d \<Rightarrow> \<not> (im_element_count d < 0 \<or> im_element_count d < required), slots2, h2))"

definition root_copy_descriptor_to_slot ::
    "environment \<Rightarrow> (nat \<Rightarrow> u8) \<Rightarrow> u8 gx_feature_pyramid_image \<Rightarrow> descriptor_slots \<Rightarrow> nat \<Rightarrow> history \<Rightarrow>
     bool \<times> descriptor_slots \<times> history" where
  "root_copy_descriptor_to_slot env junk source slots k h =
     (if im_element_count source < 0 then (False, slots, h)
      else
        let (ok, slots1, h1) = root_ensure_descriptor_slot env junk slots k (im_width source) (im_height source)
              (im_element_bytes source) h
        in if \<not> ok then (False, slots1, h1)
           else
             let d = the (slots1 ! k)
             in (True, slots1[k := Some (d\<lparr>im_width := im_width source, im_height := im_height source,
                   im_reserved_08 := im_reserved_08 source, im_element_count := im_element_count source,
                   im_element_bytes := im_element_bytes source,
                   im_pixels := mem_write (im_pixels d) 0 (take (nat (im_element_count source)) (im_pixels source))\<rparr>)], h1))"

text \<open>Ensure a slot for packed bits and fill it from a picture, the step all maps share.\<close>

definition pack_into_slot ::
    "environment \<Rightarrow> (nat \<Rightarrow> u8) \<Rightarrow> u8 gx_feature_pyramid_image \<Rightarrow> u8 \<Rightarrow> bool \<Rightarrow> nat \<Rightarrow> descriptor_slots \<times> history \<Rightarrow>
     bool \<times> descriptor_slots \<times> history" where
  "pack_into_slot env junk source threshold inclusive k st =
     (let (slots, h) = st;
          (ok, slots1, h1) = root_ensure_descriptor_slot env junk slots k (im_width source) (im_height source) 8 h
      in if \<not> ok then (False, slots1, h1)
         else case root_pack_threshold_map source (the (slots1 ! k)) threshold inclusive of
             None \<Rightarrow> (False, slots1, h1)
           | Some d \<Rightarrow> (True, slots1[k := Some d], h1))"

section \<open>The maps of a feature object\<close>

definition same_size :: "u8 gx_feature_pyramid_image \<Rightarrow> u8 gx_feature_pyramid_image \<Rightarrow> bool" where
  "same_size a b \<longleftrightarrow> im_width a = im_width b \<and> im_height a = im_height b"

definition full_maps ::
    "environment \<Rightarrow> (nat \<Rightarrow> u8) \<Rightarrow> u8 gx_feature_pyramid_image \<Rightarrow> u8 gx_feature_pyramid_image option \<Rightarrow>
     u8 gx_feature_pyramid_image \<Rightarrow> descriptor_slots \<Rightarrow> history \<Rightarrow> bool \<times> descriptor_slots \<times> history" where
  "full_maps env junk primary opt msk slots h =
     (let (ok1, st1) = pack_into_slot env junk primary (root_quantile_threshold primary msk 0) False
                         GX_ROOT_MAP_ADAPTIVE_PRIMARY (slots, h)
      in if \<not> ok1 then (False, st1)
         else
           let (ok2, st2) =
                 (case opt of
                    None \<Rightarrow> (True, st1)
                  | Some p \<Rightarrow>
                      if im_element_bytes p \<noteq> 1 \<or> \<not> same_size p primary then (False, st1)
                      else pack_into_slot env junk p (root_quantile_threshold p msk 0) False
                             GX_ROOT_MAP_ADAPTIVE_OPTIONAL st1)
           in if \<not> ok2 then (False, st2)
              else
                let (ok3, slots3, h3) = pack_into_slot env junk primary 0x38 True GX_ROOT_MAP_FIXED_PRIMARY st2
                in if \<not> ok3 then (False, slots3, h3)
                   else root_copy_descriptor_to_slot env junk msk slots3 GX_ROOT_MAP_WORK_MASK h3)"

definition half_maps ::
    "environment \<Rightarrow> (nat \<Rightarrow> u8) \<Rightarrow> u8 gx_feature_pyramid_image \<Rightarrow> u8 gx_feature_pyramid_image option \<Rightarrow>
     u8 gx_feature_pyramid_image \<Rightarrow> u8 gx_feature_pyramid_image \<Rightarrow> descriptor_slots \<Rightarrow> history \<Rightarrow>
     bool \<times> descriptor_slots \<times> history" where
  "half_maps env junk primary opt msk temporary slots h =
     (let (done_primary, temporary) = root_subsample_even_bytes primary temporary
      in if \<not> done_primary then (False, slots, h)
         else
           let (ok1, slots1, h1) = root_ensure_descriptor_slot env junk slots GX_ROOT_MAP_WORK_MASK
                 (im_width temporary) (im_height temporary) (im_element_bytes primary) h
           in if \<not> ok1 then (False, slots1, h1)
              else
                let (done_mask, work_mask) = root_subsample_even_bytes msk (the (slots1 ! GX_ROOT_MAP_WORK_MASK));
                    slots1 = slots1[GX_ROOT_MAP_WORK_MASK := Some work_mask]
                in if \<not> done_mask then (False, slots1, h1)
                   else
                     let (ok2, st2) = pack_into_slot env junk temporary 0xc9 True GX_ROOT_MAP_ADAPTIVE_PRIMARY (slots1, h1)
                     in if \<not> ok2 then (False, st2)
                        else
                          let (ok3, slots3, h3) = pack_into_slot env junk temporary 0x38 True GX_ROOT_MAP_FIXED_PRIMARY st2
                          in if \<not> ok3 then (False, slots3, h3)
                             else case opt of
                                 None \<Rightarrow> (True, slots3[GX_ROOT_MAP_ADAPTIVE_OPTIONAL := None], h3)
                               | Some p \<Rightarrow>
                                   if im_element_bytes p \<noteq> 1 \<or> \<not> same_size p primary then (False, slots3, h3)
                                   else
                                     let (done_optional, temporary) = root_subsample_even_bytes p temporary
                                     in if \<not> done_optional then (False, slots3, h3)
                                        else pack_into_slot env junk temporary
                                               (root_quantile_threshold temporary work_mask 0) False
                                               GX_ROOT_MAP_ADAPTIVE_OPTIONAL (slots3, h3))"

definition gx_feature_root_feature_maps_prepare ::
    "environment \<Rightarrow> (nat \<Rightarrow> u8) \<Rightarrow> int \<Rightarrow> u8 gx_feature_pyramid_image \<Rightarrow> u8 gx_feature_pyramid_image option \<Rightarrow>
     u8 gx_feature_pyramid_image \<Rightarrow> descriptor_slots \<Rightarrow> history \<Rightarrow> bool \<times> descriptor_slots \<times> history" where
  "gx_feature_root_feature_maps_prepare env junk mode primary opt msk slots h =
     (if im_element_bytes primary \<noteq> 1 \<or> im_element_bytes msk \<noteq> 1 \<or> im_width primary \<le> 0 \<or> im_height primary \<le> 0
         \<or> \<not> same_size primary msk then (False, slots, h)
      else if mode = 0 then full_maps env junk primary opt msk slots h
      else if im_width primary < 2 \<or> im_height primary < 2 then (False, slots, h)
      else
        let (temporary, h1) = gx_feature_descriptor_allocate env junk (im_width primary div 2) (im_height primary div 2)
                                (im_element_bytes primary) h
        in case temporary of
             None \<Rightarrow> (False, slots, h1)
           | Some t \<Rightarrow>
               let (ok, slots1, h2) = half_maps env junk primary opt msk t slots h1
               in (ok, slots1, root_descriptor_release_local env temporary h2))"

section \<open>The ridge mask\<close>

definition GX_ROOT_MASK_BOX_RADIUS :: int where "GX_ROOT_MASK_BOX_RADIUS = 7"
definition GX_ROOT_MASK_BOX_RECIPROCAL_Q16 :: u32 where "GX_ROOT_MASK_BOX_RECIPROCAL_Q16 = 291"

definition mask_gradient_x :: "nat \<Rightarrow> nat \<Rightarrow> u8 list \<Rightarrow> nat \<Rightarrow> nat \<Rightarrow> int" where
  "mask_gradient_x w h p x y =
     (let ym = nat (reflect101 (int y - 1) (int h)); yp = nat (reflect101 (int y + 1) (int h));
          row = (\<lambda>y. uint (pix w p (x + 1) y) - uint (pix w p (x - 1) y))
      in i16 (row ym + row y * 2 + row yp))"

definition mask_gradient_y :: "nat \<Rightarrow> nat \<Rightarrow> u8 list \<Rightarrow> nat \<Rightarrow> nat \<Rightarrow> int" where
  "mask_gradient_y w h p x y =
     (let xm = nat (reflect101 (int x - 1) (int w)); xp = nat (reflect101 (int x + 1) (int w));
          column = (\<lambda>x. uint (pix w p x (y + 1)) - uint (pix w p x (y - 1)))
      in i16 (column xm + column x * 2 + column xp))"

definition mask_magnitude :: "int \<Rightarrow> int \<Rightarrow> u16" where
  "mask_magnitude gx gy = of_int (\<bar>gx\<bar> div 2 + \<bar>gy\<bar> div 2)"

definition mask_smooth :: "nat \<Rightarrow> nat \<Rightarrow> u16 list \<Rightarrow> nat \<Rightarrow> nat \<Rightarrow> u16" where
  "mask_smooth w h magnitude x y =
     (let total = foldl (\<lambda>s (ky, kx). s + ucast (pix w magnitude
              (nat (reflect101 (int x + kx) (int w))) (nat (reflect101 (int y + ky) (int h))))) 0
            (List.product [- GX_ROOT_MASK_BOX_RADIUS..GX_ROOT_MASK_BOX_RADIUS] [- GX_ROOT_MASK_BOX_RADIUS..GX_ROOT_MASK_BOX_RADIUS])
      in ucast (drop_bit 16 (total * GX_ROOT_MASK_BOX_RECIPROCAL_Q16)))"

text \<open>The strength of the ridges at each pixel of a smoothed byte picture.\<close>

definition ridge_strength :: "nat \<Rightarrow> nat \<Rightarrow> u8 list \<Rightarrow> u16 list" where
  "ridge_strength w h p =
     (let gx = raster w h (\<lambda>x y. if 1 \<le> x \<and> x < w - 1 then mask_gradient_x w h p x y else 0);
          gy = raster w h (\<lambda>x y. if 1 \<le> y \<and> y < h - 1 then mask_gradient_y w h p x y else 0);
          magnitude = map (\<lambda>i. mask_magnitude (gx ! i) (gy ! i)) [0..<w * h]
      in raster w h (mask_smooth w h magnitude))"

definition gx_feature_root_mask_prepare ::
    "environment \<Rightarrow> (nat \<Rightarrow> u16) \<Rightarrow> u8 gx_feature_pyramid_image \<Rightarrow> u8 gx_feature_pyramid_image option \<Rightarrow> bool \<Rightarrow>
     u16 \<Rightarrow> u8 \<Rightarrow> history \<Rightarrow> bool \<times> u8 gx_feature_pyramid_image option \<times> u32 \<times> history" where
  "gx_feature_root_mask_prepare env junk gray msk enabled threshold fill_value hist =
     (if im_width gray < 3 \<or> im_height gray < 3 \<or> im_element_bytes gray \<noteq> 1 \<or> im_reserved_08 gray < im_width gray
         \<or> im_element_count gray \<le> 0
         \<or> enabled \<and> (case msk of None \<Rightarrow> True
                      | Some m \<Rightarrow> im_element_bytes m \<noteq> 1 \<or> \<not> same_size m gray)
         \<or> im_element_count gray < im_width gray * im_height gray
      then (False, msk, 0, hist)
      else
        let width = im_width gray; height = im_height gray; w = nat width; h = nat height; pixel_count = w * h;
            (input_u16, h1) = gx_feature_descriptor_allocate env junk width height 2 hist;
            (filtered_u16, h2) = gx_feature_descriptor_allocate env junk width height 2 h1;
            (filtered_u8, h3) = gx_feature_descriptor_allocate env junk width height 1 h2;
            (gradient_x, h4) = gx_feature_descriptor_allocate env junk width height 2 h3;
            (gradient_y, h5) = gx_feature_descriptor_allocate env junk width height 2 h4;
            (magnitude, h6) = gx_feature_descriptor_allocate env junk width height 2 h5;
            (smoothed, h7) = gx_feature_descriptor_allocate env junk width height 2 h6;
            images = [input_u16, filtered_u16, filtered_u8, gradient_x, gradient_y, magnitude, smoothed];
            cleanup = foldl (\<lambda>h d. root_descriptor_release_local env d h)
        in if \<exists>d \<in> set images. d = None then (False, msk, 0, cleanup h7 images)
           else
             let input = store_pixels (the input_u16) (scaled_bytes (take pixel_count (im_pixels gray)));
                 (ok, filtered, h8) = apply_filter env input (the filtered_u16) 7 h7
             in if \<not> ok then (False, msk, 0, cleanup h8 images)
                else
                  let bytes = map (\<lambda>p. ucast (drop_bit 8 p)) (im_pixels filtered);
                      strength = ridge_strength w h bytes;
                      selected = map (\<lambda>s. s > threshold) strength;
                      positive = length (filter id selected);
                      out = (if enabled
                             then map_option (\<lambda>m. m\<lparr>im_pixels := mem_write (im_pixels m) 0
                                    (map (\<lambda>b. if b then fill_value else 0) selected)\<rparr>) msk
                             else msk)
                  in (True, out, of_nat (positive * 2 ^ 16 div pixel_count), cleanup h8 images))"

section \<open>The quantile\<close>

text \<open>How many pixels that the mask selects have a value from 1 to \<open>v\<close>.\<close>

definition counted :: "u8 list \<Rightarrow> u8 list \<Rightarrow> nat \<Rightarrow> nat \<Rightarrow> nat" where
  "counted pixels mask_pixels n v =
     length (filter (\<lambda>i. mask_pixels ! i \<noteq> 0 \<and> pixels ! i \<noteq> 0 \<and> unat (pixels ! i) \<le> v) [0..<n])"

lemma counted_mono: "u \<le> v \<Longrightarrow> counted p m n u \<le> counted p m n v"
  unfolding counted_def by (induction n) auto

lemma counted_zero [simp]: "counted p m n 0 = 0"
  by (simp add: counted_def unat_eq_zero)

lemma counted_le: "counted p m n v \<le> n"
  using length_filter_le [of "\<lambda>i. m ! i \<noteq> 0 \<and> p ! i \<noteq> 0 \<and> unat (p ! i) \<le> v" "[0..<n]"] by (simp add: counted_def)

lemma histogram_counts:
  assumes "n < 2 ^ 32"
  shows "\<exists>hist inc. foldl (histogram_step p m) (replicate 255 0, 0) [0..<n] = (hist, inc)
    \<and> length hist = 255 \<and> unat inc = counted p m n 255
    \<and> (\<forall>v < 255. counted p m n v + unat (hist ! v) = counted p m n (Suc v))"
  using assms
proof (induction n)
  case 0
  show ?case by (simp add: counted_def)
next
  case (Suc n)
  then obtain hist inc where f: "foldl (histogram_step p m) (replicate 255 0, 0) [0..<n] = (hist, inc)"
    and l: "length hist = 255" "unat inc = counted p m n 255"
    and c: "\<forall>v < 255. counted p m n v + unat (hist ! v) = counted p m n (Suc v)" by auto
  have byte: "unat (p ! n) \<le> 255" using unat_u8_less [of "p ! n"] by linarith
  have step: "counted p m (Suc n) v = counted p m n v + of_bool (m ! n \<noteq> 0 \<and> p ! n \<noteq> 0 \<and> unat (p ! n) \<le> v)" for v
    by (simp add: counted_def)
  have small: "unat (a + 1) = Suc (unat a)" if "unat a \<le> n" for a :: u32
    using that Suc.prems by (simp add: unat_word_ariths)
  show ?case
  proof (cases "m ! n \<noteq> 0 \<and> p ! n \<noteq> 0")
    case False
    then have "histogram_step p m (hist, inc) n = (hist, inc)" by (auto simp: histogram_step_def)
    then show ?thesis using f l c False step by auto
  next
    case True
    define k where "k = unat (p ! n) - 1"
    have k: "Suc k = unat (p ! n)" "k < 255" using True byte by (auto simp: k_def unat_gt_0)
    have hk: "unat (hist ! k) \<le> n"
      using c [rule_format, OF k(2)] counted_le [of p m n "Suc k"] by linarith
    have ik: "unat inc \<le> n" using l(2) counted_le [of p m n 255] by simp
    have s: "histogram_step p m (hist, inc) n = (hist[k := hist ! k + 1], inc + 1)"
      using True by (simp add: histogram_step_def k_def Let_def)
    have "counted p m (Suc n) v + unat (hist[k := hist ! k + 1] ! v) = counted p m (Suc n) (Suc v)" if v: "v < 255" for v
      using c [rule_format, OF v] True k l(1) small [OF hk] v by (auto simp: step nth_list_update simp flip: k(1))
    moreover have "unat (inc + 1) = counted p m (Suc n) 255"
      using small [OF ik] l(2) True byte by (simp add: step)
    ultimately show ?thesis using f s l(1) by simp
  qed
qed

text \<open>No value has a count closer to \<open>t\<close> than \<open>v\<close> has.\<close>

definition nearest :: "nat \<Rightarrow> (nat \<Rightarrow> nat) \<Rightarrow> nat \<Rightarrow> bool" where
  "nearest t c v \<longleftrightarrow> v < 256 \<and> list_all (\<lambda>u. \<bar>int (c v) - int t\<bar> \<le> \<bar>int (c u) - int t\<bar>) [0..<256]"

lemma nearest_between:
  assumes "mono c" and "c k \<le> t" "t \<le> c (Suc k)" and "k < 255"
  shows "nearest t c (if c (Suc k) - t \<le> t - c k then Suc k else k)"
proof -
  have "\<bar>int (c (if c (Suc k) - t \<le> t - c k then Suc k else k)) - int t\<bar> \<le> \<bar>int (c u) - int t\<bar>" for u
  proof (cases "u \<le> k")
    case True
    then have "c u \<le> c k" by (rule monoD [OF assms(1)])
    then show ?thesis using assms(2,3) by auto
  next
    case False
    then have "c (Suc k) \<le> c u" using monoD [OF assms(1), of "Suc k" u] by simp
    then show ?thesis using assms(2,3) by auto
  qed
  then show ?thesis using assms(4) unfolding nearest_def list_all_iff by auto
qed

lemma scan_nearest:
  assumes "\<And>v. v < 255 \<Longrightarrow> c v + unat (hist ! v) = c (Suc v)" and "mono c" and "c 255 < 2 ^ 32" and "unat target \<le> c 255"
  shows "k < 255 \<Longrightarrow> unat cum = c k \<Longrightarrow> c k \<le> unat target \<Longrightarrow>
    nearest (unat target) c (unat (quantile_scan hist target cum [Suc k..<256]))"
proof (induction "255 - k" arbitrary: k cum)
  case (Suc x)
  have "c (Suc k) < 2 ^ 32" using monoD [OF assms(2), of "Suc k" 255] Suc.prems(1) assms(3) by simp
  then have nx: "unat (cum + hist ! k) = c (Suc k)"
    using assms(1) [OF Suc.prems(1)] Suc.prems(2) by (simp add: unat_word_ariths)
  have list: "[Suc k..<256] = Suc k # [Suc (Suc k)..<256]" using Suc.prems(1) by (simp add: upt_rec)
  have bytes: "unat (of_nat (Suc k) :: u8) = Suc k" "unat (of_nat k :: u8) = k"
    using Suc.prems(1) by (simp_all only: unat_of_nat) simp_all
  show ?case
  proof (cases "target \<le> cum + hist ! k")
    case True
    have diff: "unat (cum + hist ! k - target) = c (Suc k) - unat target" "unat (target - cum) = unat target - c k"
      using True Suc.prems nx by (simp_all add: unat_sub word_le_nat_alt)
    have "unat (quantile_scan hist target cum [Suc k..<256])
        = (if c (Suc k) - unat target \<le> unat target - c k then Suc k else k)"
      using True by (simp only: list quantile_scan.simps Let_def diff_Suc_1 if_True word_le_nat_alt diff if_distrib [of unat] bytes)
    then show ?thesis
      using nearest_between [OF assms(2) Suc.prems(3) _ Suc.prems(1)] True nx by (simp add: word_le_nat_alt)
  next
    case False
    then have t: "c (Suc k) \<le> unat target" "c (Suc k) \<noteq> unat target" using nx by (simp_all add: word_le_nat_alt)
    then have "Suc k < 255" using Suc.prems(1) assms(4) by (cases "k = 254") auto
    then have "nearest (unat target) c (unat (quantile_scan hist target (cum + hist ! k) [Suc (Suc k)..<256]))"
      using Suc.hyps(2) by (intro Suc.hyps(1) nx t(1)) auto
    then show ?thesis using False by (simp only: list quantile_scan.simps Let_def diff_Suc_1 if_False)
  qed
qed simp

lemma threshold_nearest:
  assumes "im_element_bytes img = 1" "im_element_bytes msk = 1" and "im_element_count img = int n" "0 < n"
    and "int n \<le> im_element_count msk" and "205 * n + 128 < 2 ^ 32"
  shows "nearest (((if alternate_mode = 0 then 205 else 50) * counted (im_pixels img) (im_pixels msk) n 255 + 128) div 256)
    (counted (im_pixels img) (im_pixels msk) n) (unat (root_quantile_threshold img msk alternate_mode))"
proof -
  let ?c = "counted (im_pixels img) (im_pixels msk) n"
  define r :: nat where "r = (if alternate_mode = 0 then 205 else 50)"
  obtain hist inc where f: "foldl (histogram_step (im_pixels img) (im_pixels msk)) (replicate 255 0, 0) [0..<n] = (hist, inc)"
    and l: "unat inc = ?c 255" and c: "\<And>v. v < 255 \<Longrightarrow> ?c v + unat (hist ! v) = ?c (Suc v)"
    using histogram_counts [of n "im_pixels img" "im_pixels msk"] assms(6) by auto
  define target where "target = drop_bit 8 ((if alternate_mode = 0 then 0xcd else 0x32) * inc + 0x80 :: u32)"
  have le: "?c 255 \<le> n" by (rule counted_le)
  have "r * ?c 255 \<le> 205 * n" unfolding r_def using le by auto
  then have "unat ((if alternate_mode = 0 then 0xcd else 0x32) * inc + 0x80 :: u32) = r * ?c 255 + 128"
    using assms(6) l by (auto simp: r_def unat_word_ariths)
  then have target: "unat target = (r * ?c 255 + 128) div 256" by (simp add: target_def drop_bit_eq_div unat_div)
  have "r * ?c 255 \<le> 205 * ?c 255" by (simp add: r_def)
  then have "unat target \<le> ?c 255" unfolding target by linarith
  then have "nearest (unat target) ?c (unat (quantile_scan hist target 0 [Suc 0..<256]))"
    using c le assms(6) counted_mono by (intro scan_nearest monoI) auto
  moreover have "root_quantile_threshold img msk alternate_mode = quantile_scan hist target 0 [Suc 0..<256]"
    using assms(1-5) f by (simp only: root_quantile_threshold_def target_def Let_def nat_int prod.case One_nat_def) simp
  ultimately show ?thesis unfolding target r_def by simp
qed

text \<open>
  C32: the adaptive threshold. Among the pixels that are not 0 and that the mask selects, the number of those up
  to the threshold is as close to 80% of them (20% in the other mode; exactly 205/256 or 50/256, rounded) as for
  any byte value, for pictures whose counts fit in 32 bits.
\<close>

theorem quantile_nearest:
  assumes "im_element_bytes img = 1" "im_element_bytes msk = 1" and "im_element_count img = int n" "0 < n"
    and "int n \<le> im_element_count msk" and "205 * n + 128 < 2 ^ 32"
  shows "nearest (((if alternate_mode = 0 then 205 else 50) * counted (im_pixels img) (im_pixels msk) n 255 + 128) div 256)
    (counted (im_pixels img) (im_pixels msk) n) (unat (root_quantile_threshold img msk alternate_mode))"
  by (rule threshold_nearest) fact+

theorem quantile_nearest_witness:
  "nearest 2 (counted [9, 9, 4] [1, 1, 1] 3) (unat (root_quantile_threshold
     \<lparr>im_width = 3, im_height = 1, im_reserved_08 = 3, im_element_count = 3, im_element_bytes = 1, im_pixels = [9, 9, 4]\<rparr>
     \<lparr>im_width = 3, im_height = 1, im_reserved_08 = 3, im_element_count = 3, im_element_bytes = 1, im_pixels = [1, 1, 1]\<rparr> 0))"
proof -
  have "counted [9, 9, 4] [1, 1, 1] 3 255 = 3" by code_simp
  then show ?thesis
    using quantile_nearest [of
     "\<lparr>im_width = 3, im_height = 1, im_reserved_08 = 3, im_element_count = 3, im_element_bytes = 1, im_pixels = [9, 9, 4]\<rparr>"
     "\<lparr>im_width = 3, im_height = 1, im_reserved_08 = 3, im_element_count = 3, im_element_bytes = 1, im_pixels = [1, 1, 1]\<rparr>" 3 0]
    by simp
qed

section \<open>The packed maps\<close>

lemmas map_slots = GX_ROOT_MAP_ADAPTIVE_PRIMARY_def GX_ROOT_MAP_ADAPTIVE_OPTIONAL_def GX_ROOT_MAP_FIXED_PRIMARY_def
  GX_ROOT_MAP_WORK_MASK_def

text \<open>Pixel \<open>i\<close> of a packed map, and the map that compares every pixel of a picture with a threshold.\<close>

definition map_bit :: "u8 list \<Rightarrow> nat \<Rightarrow> bool" where
  "map_bit bs i = bit (bs ! (i div 8)) (i mod 8)"

definition is_map :: "nat \<Rightarrow> nat \<Rightarrow> (nat \<Rightarrow> bool) \<Rightarrow> u8 gx_feature_pyramid_image option \<Rightarrow> bool" where
  "is_map w h P slot = (case slot of None \<Rightarrow> False
     | Some d \<Rightarrow> im_width d = int w \<and> im_height d = int h \<and> im_element_bytes d = 8
         \<and> length (im_pixels d) = (w * h + 7) div 8 \<and> list_all (\<lambda>i. map_bit (im_pixels d) i = P i) [0..<w * h])"

definition byte_picture :: "nat \<Rightarrow> nat \<Rightarrow> u8 gx_feature_pyramid_image \<Rightarrow> bool" where
  "byte_picture w h img \<longleftrightarrow> im_width img = int w \<and> im_height img = int h \<and> im_reserved_08 img = int w
     \<and> im_element_count img = int (w * h) \<and> im_element_bytes img = 1 \<and> length (im_pixels img) = w * h
     \<and> 0 < w \<and> 0 < h \<and> int (w * h) \<le> INT32_MAX"

lemma byte_index: "i < n \<Longrightarrow> i div 8 < (n + 7) div (8 :: nat)"
  by linarith

definition passes :: "bool \<Rightarrow> u8 \<Rightarrow> u8 list \<Rightarrow> nat \<Rightarrow> bool" where
  "passes inclusive t ps = (\<lambda>i. if inclusive then ps ! i \<ge> t else ps ! i > t)"

lemma pack_map:
  assumes "byte_picture w h src" and "im_width d = int w" "im_height d = int h" "im_element_bytes d = 8"
    and "im_element_count d = int ((w * h + 7) div 8)" "length (im_pixels d) = (w * h + 7) div 8"
  shows "\<exists>d'. root_pack_threshold_map src d t inclusive = Some d'
    \<and> is_map w h (passes inclusive t (im_pixels src)) (Some d')"
proof -
  let ?P = "passes inclusive t (im_pixels src)"
  let ?clear = "replicate ((w * h + 7) div 8) (0 :: u8)"
  have "bit (mark_bits ?P (\<lambda>i. i div 8) (\<lambda>i. i mod 8) [0..<w * h] ?clear ! (i div 8)) (i mod 8) = ?P i" if "i < w * h" for i
  proof -
    have "j = i" if "j div 8 = i div 8" "j mod 8 = i mod 8" for j using that by (metis div_mult_mod_eq)
    then show ?thesis using that byte_index [OF that] by (auto simp: bit_mark_bits)
  qed
  moreover have "mem_write (im_pixels d) 0 ?clear = ?clear" using assms(6) by (simp add: mem_write_def)
  moreover have "0 < w * h" "0 < int w * int h" using assms(1) by (simp_all add: byte_picture_def)
  moreover from this have "0 < (w * h + 7) div 8" using byte_index [of 0 "w * h"] by simp
  ultimately show ?thesis using assms
    by (simp add: root_pack_threshold_map_def byte_picture_def Let_def is_map_def map_bit_def list_all_iff not_le flip: passes_def)
qed

lemma allocate_works:
  assumes "malloc_works env" and "0 < w" "0 < h" "int (w * h) \<le> INT32_MAX" and "t = 1 \<or> t = 8"
    and b: "b = (if t = 8 then (w * h + 7) div 8 else w * h)"
  shows "\<exists>d h'. gx_feature_descriptor_allocate env junk (int w) (int h) t hist = (Some d, h')
    \<and> im_width d = int w \<and> im_height d = int h \<and> im_element_bytes d = t
    \<and> im_element_count d = int b \<and> length (im_pixels d) = b \<and> live_blocks env h' = live_blocks env hist + 1"
proof -
  have mal: "\<not> isl (reply_rc (env g (Malloc n)))" for g n using assms(1) by (simp add: malloc_works_def)
  have pos: "\<not> int w * int h \<le> 0" using assms(2,3) by (simp add: not_le)
  have "int w * 1 \<le> int w * int h" using assms(3) by (intro mult_left_mono) auto
  then have big: "\<not> INT32_MAX < int w * int h" "\<not> INT32_MAX < int w" "\<not> INT32_MAX < (int w * int h + 7) div 8"
    "\<not> (int w * int h + 7) div 8 \<le> 0" using assms(4) pos by (simp_all add: INT32_MAX_def)
  have eight: "nat ((int w * int h + 7) div 8) = (w * h + 7) div 8" "(int w * int h + 7) div 8 = int ((w * h + 7) div 8)"
    by (simp_all add: nat_div_distrib nat_add_distrib nat_mult_distrib zdiv_int)
  have layout: "compute_layout (int w) (int h) t = Some (if t = 8 then - 1 else int w, int b)"
    using assms(2,3,5) pos big eight(2) by (auto simp: compute_layout_def Let_def b)
  have "nat (int w * int h) = w * h" by (simp add: nat_mult_distrib)
  then show ?thesis using mal
    by (simp add: gx_feature_descriptor_allocate_def layout ext_do_def Let_def b)
qed

lemma ensure_empty:
  assumes "malloc_works env" and "k < length slots" "slots ! k = None" and "0 < w" "0 < h" "int (w * h) \<le> INT32_MAX"
    and "t = 1 \<or> t = 8" and b: "b = (if t = 8 then (w * h + 7) div 8 else w * h)"
  shows "\<exists>d h'. root_ensure_descriptor_slot env junk slots k (int w) (int h) t hist = (True, slots[k := Some d], h')
    \<and> im_width d = int w \<and> im_height d = int h \<and> im_element_bytes d = t
    \<and> im_element_count d = int b \<and> length (im_pixels d) = b \<and> live_blocks env h' = live_blocks env hist + 1"
proof -
  obtain d h' where a: "gx_feature_descriptor_allocate env junk (int w) (int h) t hist = (Some d, h')"
    "im_width d = int w" "im_height d = int h" "im_element_bytes d = t"
    "im_element_count d = int b" "length (im_pixels d) = b" "live_blocks env h' = live_blocks env hist + 1"
    using allocate_works [OF assms(1,4-8), of junk hist] by auto
  have "b \<le> w * h" using assms(4,5) by (cases "w * h") (auto simp: b)
  then have "int b \<le> INT32_MAX" using assms(6) by linarith
  moreover have "(if t = 8 then (int w * int h + 7) div 8 else int w * int h * t) = int b"
    using assms(7) by (auto simp: b zdiv_int)
  ultimately have "root_descriptor_payload_bytes (int w) (int h) t = Some (int b)"
    using assms(4,5,7) unfolding root_descriptor_payload_bytes_def Let_def by auto
  then have "root_ensure_descriptor_slot env junk slots k (int w) (int h) t hist = (True, slots[k := Some d], h')"
    using a assms(2,3) by (simp add: root_ensure_descriptor_slot_def)
  with a(2-7) show ?thesis by blast
qed

lemma pack_empty:
  assumes "malloc_works env" and "k < length slots" "slots ! k = None" and "byte_picture w h src"
  shows "\<exists>d h'. pack_into_slot env junk src t inclusive k (slots, hist) = (True, slots[k := Some d], h')
    \<and> is_map w h (passes inclusive t (im_pixels src)) (Some d)
    \<and> live_blocks env h' = live_blocks env hist + 1"
proof -
  have src: "0 < w" "0 < h" "int (w * h) \<le> INT32_MAX" "im_width src = int w" "im_height src = int h"
    using assms(4) by (simp_all add: byte_picture_def)
  obtain d h' where e: "root_ensure_descriptor_slot env junk slots k (int w) (int h) 8 hist = (True, slots[k := Some d], h')"
    "im_width d = int w" "im_height d = int h" "im_element_bytes d = 8"
    "im_element_count d = int ((w * h + 7) div 8)" "length (im_pixels d) = (w * h + 7) div 8"
    "live_blocks env h' = live_blocks env hist + 1"
    using ensure_empty [OF assms(1-3) src(1-3), of 8 "(w * h + 7) div 8" junk hist] by auto
  from pack_map [OF assms(4) e(2-6), of t inclusive] e(1,7) src(4,5) assms(2) show ?thesis
    by (auto simp: pack_into_slot_def)
qed

lemma copy_empty:
  assumes "malloc_works env" and "k < length slots" "slots ! k = None" and "byte_picture w h src"
  shows "\<exists>h'. root_copy_descriptor_to_slot env junk src slots k hist = (True, slots[k := Some src], h')
    \<and> live_blocks env h' = live_blocks env hist + 1"
proof -
  have src: "0 < w" "0 < h" "int (w * h) \<le> INT32_MAX" "im_width src = int w" "im_height src = int h" "im_element_bytes src = 1"
    "im_element_count src = int (w * h)" "length (im_pixels src) = w * h"
    using assms(4) by (simp_all add: byte_picture_def)
  obtain d h' where e: "root_ensure_descriptor_slot env junk slots k (int w) (int h) 1 hist = (True, slots[k := Some d], h')"
    "length (im_pixels d) = w * h" "live_blocks env h' = live_blocks env hist + 1"
    using ensure_empty [OF assms(1-3) src(1-3), of 1 "w * h" junk hist] by auto
  have "mem_write (im_pixels d) 0 (take (w * h) (im_pixels src)) = im_pixels src"
    using src(8) e(2) by (simp add: mem_write_def)
  moreover have "d\<lparr>im_width := im_width src, im_height := im_height src, im_reserved_08 := im_reserved_08 src,
      im_element_count := im_element_count src, im_element_bytes := im_element_bytes src, im_pixels := im_pixels src\<rparr> = src"
    by (intro gx_feature_pyramid_image.equality) simp_all
  ultimately show ?thesis using e(1,3) src(4-7) assms(2)
    unfolding root_copy_descriptor_to_slot_def src(4-7) nat_int by (simp add: not_less)
qed

lemma full_tail:
  assumes "malloc_works env" and "byte_picture w h primary" "byte_picture w h msk"
    and "length slots = 5" "slots ! 2 = None" "slots ! 3 = None"
  shows "\<exists>s h2 d2 h3. pack_into_slot env junk primary 0x38 True 2 (slots, hist) = (True, s, h2)
    \<and> root_copy_descriptor_to_slot env junk msk s 3 h2 = (True, slots[2 := Some d2, 3 := Some msk], h3)
    \<and> is_map w h (passes True 0x38 (im_pixels primary)) (Some d2) \<and> live_blocks env h3 = live_blocks env hist + 2"
proof -
  obtain d2 h2 where s2: "pack_into_slot env junk primary 0x38 True 2 (slots, hist) = (True, slots[2 := Some d2], h2)"
    and m2: "is_map w h (passes True 0x38 (im_pixels primary)) (Some d2)"
    and l2: "live_blocks env h2 = live_blocks env hist + 1"
    using pack_empty [where env = env and k = 2 and slots = slots and junk = junk and t = "0x38" and inclusive = True
        and hist = hist, OF assms(1) _ assms(5,2)] assms(4) by auto
  obtain h3 where s3: "root_copy_descriptor_to_slot env junk msk (slots[2 := Some d2]) 3 h2
      = (True, slots[2 := Some d2, 3 := Some msk], h3)" and l3: "live_blocks env h3 = live_blocks env h2 + 1"
    using copy_empty [where env = env and k = 3 and slots = "slots[2 := Some d2]" and junk = junk
        and hist = h2, OF assms(1) _ _ assms(3)] assms(4,6) by auto
  from s2 s3 m2 l2 l3 show ?thesis by (intro exI [of _ "slots[2 := Some d2]"] exI [of _ h2] exI [of _ d2] exI [of _ h3]) simp
qed

lemma full_maps_of_empty:
  assumes "malloc_works env" and "byte_picture w h primary" "byte_picture w h msk" and "opt = None \<or> byte_picture w h (the opt)"
    and "length slots = 5" "list_all (\<lambda>s. s = None) slots"
  shows "\<exists>s h'. gx_feature_root_feature_maps_prepare env junk 0 primary opt msk slots hist = (True, s, h')
    \<and> is_map w h (passes False (root_quantile_threshold primary msk 0) (im_pixels primary)) (s ! GX_ROOT_MAP_ADAPTIVE_PRIMARY)
    \<and> (case opt of None \<Rightarrow> s ! GX_ROOT_MAP_ADAPTIVE_OPTIONAL = None
        | Some p \<Rightarrow> is_map w h (passes False (root_quantile_threshold p msk 0) (im_pixels p)) (s ! GX_ROOT_MAP_ADAPTIVE_OPTIONAL))
    \<and> is_map w h (passes True 0x38 (im_pixels primary)) (s ! GX_ROOT_MAP_FIXED_PRIMARY)
    \<and> s ! GX_ROOT_MAP_WORK_MASK = Some msk
    \<and> live_blocks env h' = live_blocks env hist + 3 + blocks_of opt"
proof -
  let ?t = "\<lambda>p. root_quantile_threshold p msk 0"
  have dims: "im_element_bytes primary = 1" "im_element_bytes msk = 1" "im_width primary = int w" "im_height primary = int h"
    "im_width msk = int w" "im_height msk = int h" "0 < w" "0 < h" using assms(2,3) by (simp_all add: byte_picture_def)
  have e: "slots ! k = None" if "k < 5" for k using that assms(5,6) by (simp add: list_all_length)
  obtain d0 h0 where s0: "pack_into_slot env junk primary (?t primary) False 0 (slots, hist) = (True, slots[0 := Some d0], h0)"
    and m0: "is_map w h (passes False (?t primary) (im_pixels primary)) (Some d0)"
    and l0: "live_blocks env h0 = live_blocks env hist + 1"
    using pack_empty [where env = env and k = 0 and slots = slots and junk = junk and t = "?t primary" and inclusive = False
        and hist = hist, OF assms(1) _ _ assms(2)] assms(5) e by auto
  show ?thesis
  proof (cases opt)
    case None
    obtain s h2 d2 h3 where t: "pack_into_slot env junk primary 0x38 True 2 (slots[0 := Some d0], h0) = (True, s, h2)"
      "root_copy_descriptor_to_slot env junk msk s 3 h2 = (True, slots[0 := Some d0, 2 := Some d2, 3 := Some msk], h3)"
      "is_map w h (passes True 0x38 (im_pixels primary)) (Some d2)" "live_blocks env h3 = live_blocks env h0 + 2"
      using full_tail [OF assms(1-3), of "slots[0 := Some d0]" junk h0] assms(5) e by auto
    show ?thesis using dims s0 m0 l0 t None assms(5) e
      by (simp add: gx_feature_root_feature_maps_prepare_def full_maps_def map_slots same_size_def)
  next
    case (Some p)
    with assms(4) have p: "byte_picture w h p" "im_element_bytes p = 1" "im_width p = int w" "im_height p = int h"
      by (simp_all add: byte_picture_def)
    obtain d1 h1 where s1: "pack_into_slot env junk p (?t p) False 1 (slots[0 := Some d0], h0)
        = (True, slots[0 := Some d0, 1 := Some d1], h1)"
      and m1: "is_map w h (passes False (?t p) (im_pixels p)) (Some d1)"
      and l1: "live_blocks env h1 = live_blocks env h0 + 1"
      using pack_empty [where env = env and k = 1 and slots = "slots[0 := Some d0]" and junk = junk and t = "?t p"
          and inclusive = False and hist = h0, OF assms(1) _ _ p(1)] assms(5) e by auto
    obtain s h2 d2 h3 where t: "pack_into_slot env junk primary 0x38 True 2 (slots[0 := Some d0, 1 := Some d1], h1) = (True, s, h2)"
      "root_copy_descriptor_to_slot env junk msk s 3 h2
        = (True, slots[0 := Some d0, 1 := Some d1, 2 := Some d2, 3 := Some msk], h3)"
      "is_map w h (passes True 0x38 (im_pixels primary)) (Some d2)" "live_blocks env h3 = live_blocks env h1 + 2"
      using full_tail [OF assms(1-3), of "slots[0 := Some d0, 1 := Some d1]" junk h1] assms(5) e by auto
    show ?thesis using dims p(2-4) s0 m0 l0 s1 m1 l1 t Some assms(5) e
      by (simp add: gx_feature_root_feature_maps_prepare_def full_maps_def map_slots same_size_def)
  qed
qed

text \<open>
  C33: the maps of a feature object. On an object whose slots are empty, in mode 0, with pictures of the same
  size, the call succeeds and bit \<open>i\<close> of each packed map is the comparison of pixel \<open>i\<close> with the map's
  threshold: above the quantile of the primary and of the optional picture, at least 0x38 for the third map; the
  fourth slot has the mask itself. Exactly the filled slots are allocated.
\<close>

theorem maps_compare_pixels:
  assumes "malloc_works env" and "byte_picture w h primary" "byte_picture w h msk" and "opt = None \<or> byte_picture w h (the opt)"
    and "length slots = 5" "list_all (\<lambda>s. s = None) slots"
  shows "\<exists>s h'. gx_feature_root_feature_maps_prepare env junk 0 primary opt msk slots hist = (True, s, h')
    \<and> is_map w h (passes False (root_quantile_threshold primary msk 0) (im_pixels primary)) (s ! GX_ROOT_MAP_ADAPTIVE_PRIMARY)
    \<and> (case opt of None \<Rightarrow> s ! GX_ROOT_MAP_ADAPTIVE_OPTIONAL = None
        | Some p \<Rightarrow> is_map w h (passes False (root_quantile_threshold p msk 0) (im_pixels p)) (s ! GX_ROOT_MAP_ADAPTIVE_OPTIONAL))
    \<and> is_map w h (passes True 0x38 (im_pixels primary)) (s ! GX_ROOT_MAP_FIXED_PRIMARY)
    \<and> s ! GX_ROOT_MAP_WORK_MASK = Some msk
    \<and> live_blocks env h' = live_blocks env hist + 3 + blocks_of opt"
  by (rule full_maps_of_empty) fact+

definition even_picture :: "nat \<Rightarrow> nat \<Rightarrow> u8 \<Rightarrow> u8 gx_feature_pyramid_image" where
  "even_picture w h p = \<lparr>im_width = int w, im_height = int h, im_reserved_08 = int w, im_element_count = int (w * h),
     im_element_bytes = 1, im_pixels = replicate (w * h) p\<rparr>"

theorem maps_compare_pixels_witness:
  "\<exists>s h'. gx_feature_root_feature_maps_prepare quiet_env (\<lambda>i. 0) 0 (even_picture 3 2 0x38) (Some (even_picture 3 2 1))
       (even_picture 3 2 1) (replicate 5 None) [] = (True, s, h')
     \<and> is_map 3 2 (passes True 0x38 (replicate 6 0x38)) (s ! 2) \<and> s ! 3 = Some (even_picture 3 2 1)
     \<and> live_blocks quiet_env h' = 4"
  using maps_compare_pixels [of quiet_env 3 2 "even_picture 3 2 0x38" "even_picture 3 2 1" "Some (even_picture 3 2 1)"
      "replicate 5 None" "\<lambda>i. 0" "[]"]
  by (auto simp: malloc_works_def quiet_env_def byte_picture_def even_picture_def INT32_MAX_def map_slots live_blocks_def
      list_all_iff)

section \<open>The blocks of the slots\<close>

definition occupied :: "descriptor_slots \<Rightarrow> int" where
  "occupied slots = sum_list (map blocks_of slots)"

lemma occupied_store: "k < length slots \<Longrightarrow> occupied (slots[k := d]) = occupied slots - blocks_of (slots ! k) + blocks_of d"
  by (simp add: occupied_def sum_list_store)

text \<open>An operation on the slots that keeps blocks and slots in step.\<close>

definition slots_kept :: "environment \<Rightarrow> descriptor_slots \<Rightarrow> history \<Rightarrow> bool \<times> descriptor_slots \<times> history \<Rightarrow> bool" where
  "slots_kept env slots hist res = (case res of (ok, slots', hist') \<Rightarrow>
     length slots' = length slots \<and> live_blocks env hist' - occupied slots' = live_blocks env hist - occupied slots)"

lemma release_local_blocks [simp]:
  "live_blocks env (root_descriptor_release_local env d h) = live_blocks env h - blocks_of d"
  by (simp add: root_descriptor_release_local_def)

lemma ensure_kept:
  assumes "root_ensure_descriptor_slot env junk slots k w h t hist = (ok, slots', hist')" and "k < length slots"
  shows "slots_kept env slots hist (ok, slots', hist') \<and> (\<forall>j. j \<noteq> k \<longrightarrow> slots' ! j = slots ! j) \<and> (ok \<longrightarrow> slots' ! k \<noteq> None)"
proof (cases "root_descriptor_payload_bytes w h t")
  case (Some required)
  define small where "small = (case slots ! k of None \<Rightarrow> False | Some d \<Rightarrow> im_element_count d < 0 \<or> im_element_count d < required)"
  define h1 where "h1 = (if small then root_descriptor_release_local env (slots ! k) hist else hist)"
  define slots1 where "slots1 = (if small then slots[k := None] else slots)"
  have one: "live_blocks env h1 - occupied slots1 = live_blocks env hist - occupied slots" "length slots1 = length slots"
    "\<And>j. j \<noteq> k \<Longrightarrow> slots1 ! j = slots ! j"
    using assms(2) by (simp_all add: h1_def slots1_def occupied_store)
  obtain d h2 where a: "gx_feature_descriptor_allocate env junk w h t h1 = (d, h2)" by (rule prod.exhaust)
  show ?thesis
    using assms Some one a allocate_blocks [OF a]
    unfolding root_ensure_descriptor_slot_def
    by (auto simp: slots_kept_def occupied_store Let_def small_def [symmetric] h1_def [symmetric] slots1_def [symmetric]
        split: option.splits if_splits)
qed (use assms in \<open>simp add: root_ensure_descriptor_slot_def slots_kept_def\<close>)

lemma pack_kept:
  assumes "pack_into_slot env junk src t inclusive k (slots, hist) = (ok, slots', hist')" and "k < length slots"
  shows "slots_kept env slots hist (ok, slots', hist') \<and> (\<forall>j. j \<noteq> k \<longrightarrow> slots' ! j = slots ! j)"
proof -
  obtain ok1 slots1 h1 where e: "root_ensure_descriptor_slot env junk slots k (im_width src) (im_height src) 8 hist
      = (ok1, slots1, h1)" by (rule prod_cases3)
  from ensure_kept [OF e assms(2)] assms e show ?thesis
    by (auto simp: pack_into_slot_def slots_kept_def occupied_store split: if_splits option.splits)
qed

lemma copy_kept:
  assumes "root_copy_descriptor_to_slot env junk src slots k hist = (ok, slots', hist')" and "k < length slots"
  shows "slots_kept env slots hist (ok, slots', hist')"
proof -
  obtain ok1 slots1 h1 where e: "root_ensure_descriptor_slot env junk slots k (im_width src) (im_height src)
      (im_element_bytes src) hist = (ok1, slots1, h1)" by (rule prod_cases3)
  from ensure_kept [OF e assms(2)] assms e show ?thesis
    by (auto simp: root_copy_descriptor_to_slot_def slots_kept_def occupied_store Let_def split: if_splits)
qed

lemma kept_trans:
  assumes "slots_kept env slots hist (ok1, slots1, hist1)" and "slots_kept env slots1 hist1 res"
  shows "slots_kept env slots hist res"
  using assms by (auto simp: slots_kept_def)

lemma kept_here [simp]: "slots_kept env slots hist (ok, slots, hist)"
  by (simp add: slots_kept_def)

lemma kept_status: "slots_kept env slots hist (ok, slots', hist') \<Longrightarrow> slots_kept env slots hist (ok', slots', hist')"
  by (simp add: slots_kept_def)

lemma full_maps_kept: "4 \<le> length slots \<Longrightarrow> slots_kept env slots hist (full_maps env junk primary opt msk slots hist)"
proof -
  assume len: "4 \<le> length slots"
  obtain ok1 s1 h1 where p1: "pack_into_slot env junk primary (root_quantile_threshold primary msk 0) False 0 (slots, hist)
      = (ok1, s1, h1)" by (rule prod_cases3)
  have k1: "slots_kept env slots hist (ok1, s1, h1)" using pack_kept [OF p1] len by (cases slots) auto
  then have l1: "length s1 = length slots" by (simp add: slots_kept_def)
  define second where "second = (case opt of None \<Rightarrow> (True, s1, h1)
    | Some p \<Rightarrow> if im_element_bytes p \<noteq> 1 \<or> \<not> same_size p primary then (False, s1, h1)
        else pack_into_slot env junk p (root_quantile_threshold p msk 0) False 1 (s1, h1))"
  obtain ok2 s2 h2 where p2: "second = (ok2, s2, h2)" by (rule prod_cases3)
  have k2: "slots_kept env s1 h1 (ok2, s2, h2)"
    using p2 pack_kept [of env junk _ _ False 1 s1 h1 ok2 s2 h2] len l1 unfolding second_def
    by (auto split: option.splits if_splits)
  then have l2: "length s2 = length slots" using l1 by (simp add: slots_kept_def)
  obtain ok3 s3 h3 where p3: "pack_into_slot env junk primary 0x38 True 2 (s2, h2) = (ok3, s3, h3)" by (rule prod_cases3)
  have k3: "slots_kept env s2 h2 (ok3, s3, h3)" using pack_kept [OF p3] len l2 by auto
  then have l3: "length s3 = length slots" using l2 by (simp add: slots_kept_def)
  obtain ok4 s4 h4 where p4: "root_copy_descriptor_to_slot env junk msk s3 3 h3 = (ok4, s4, h4)" by (rule prod_cases3)
  have k4: "slots_kept env s3 h3 (ok4, s4, h4)" using copy_kept [OF p4] len l3 by auto
  note t2 = kept_trans [OF k1 k2] and t3 = kept_trans [OF kept_trans [OF k1 k2] k3]
  have "full_maps env junk primary opt msk slots hist
      = (if \<not> ok1 then (False, s1, h1) else if \<not> ok2 then (False, s2, h2) else if \<not> ok3 then (False, s3, h3) else (ok4, s4, h4))"
    by (simp only: full_maps_def map_slots p1 prod.case Let_def second_def [symmetric] p2 p3 p4)
  then show ?thesis using kept_status [OF k1] kept_status [OF t2] kept_status [OF t3] kept_trans [OF t3 k4] by simp
qed

definition overwritten :: "bool \<Rightarrow> 'a option \<Rightarrow> descriptor_slots \<Rightarrow> int" where
  "overwritten ok opt slots = (if ok \<and> opt = None then blocks_of (slots ! GX_ROOT_MAP_ADAPTIVE_OPTIONAL) else 0)"

lemma half_maps_blocks:
  assumes "half_maps env junk primary opt msk t slots hist = (ok, slots', hist')" and "4 \<le> length slots"
  shows "length slots' = length slots
    \<and> live_blocks env hist' - occupied slots' = live_blocks env hist - occupied slots + overwritten ok opt slots"
proof -
  obtain g tmp where sub: "root_subsample_even_bytes primary t = (g, tmp)" by (cases "root_subsample_even_bytes primary t")
  obtain ok1 s1 h1 where e: "root_ensure_descriptor_slot env junk slots 3 (im_width tmp) (im_height tmp) (im_element_bytes primary) hist
      = (ok1, s1, h1)" by (rule prod_cases3)
  have "3 < length slots" using assms(2) by simp
  note k1 = ensure_kept [OF e this]
  then have l1: "length s1 = length slots" by (simp add: slots_kept_def)
  obtain gm wm where msub: "root_subsample_even_bytes msk (the (s1 ! 3)) = (gm, wm)"
    by (cases "root_subsample_even_bytes msk (the (s1 ! 3))")
  show ?thesis
  proof (cases "\<not> g \<or> \<not> ok1")
    case True
    then consider "\<not> g" | "g" "\<not> ok1" by blast
    then show ?thesis
    proof cases
      case 1
      then show ?thesis using assms(1) by (simp add: half_maps_def sub overwritten_def)
    next
      case 2
      then show ?thesis using assms(1) k1 by (simp add: half_maps_def sub e map_slots overwritten_def slots_kept_def)
    qed
  next
    case False
    then have g: "g" "ok1" by auto
    let ?s1 = "s1[3 := Some wm]"
    have "s1 ! 3 \<noteq> None" using k1 \<open>ok1\<close> by simp
    then have k1': "slots_kept env slots hist (x, ?s1, h1)" "?s1 ! 1 = slots ! 1" for x
      using k1 assms(2) l1 by (auto simp: slots_kept_def occupied_store)
    obtain ok2 s2 h2 where p2: "pack_into_slot env junk tmp 0xc9 True 0 (?s1, h1) = (ok2, s2, h2)" by (rule prod_cases3)
    have "0 < length ?s1" using assms(2) l1 by (cases s1) auto
    note k2 = pack_kept [OF p2 this]
    then have l2: "length s2 = length slots" using l1 by (simp add: slots_kept_def)
    obtain ok3 s3 h3 where p3: "pack_into_slot env junk tmp 0x38 True 2 (s2, h2) = (ok3, s3, h3)" by (rule prod_cases3)
    have "2 < length s2" using assms(2) l2 by simp
    note k3 = pack_kept [OF p3 this]
    then have l3: "length s3 = length slots" using l2 by (simp add: slots_kept_def)
    have k13: "slots_kept env slots hist (x, s3, h3)" "slots_kept env slots hist (x, s2, h2)" "s3 ! 1 = slots ! 1" for x
      using k1' k2 k3 kept_trans kept_status by (auto simp: slots_kept_def)
    define last where "last = (case opt of None \<Rightarrow> (True, s3[1 := None], h3)
      | Some p \<Rightarrow> if im_element_bytes p \<noteq> 1 \<or> \<not> same_size p primary then (False, s3, h3)
          else (let (d, tmp) = root_subsample_even_bytes p tmp
            in if \<not> d then (False, s3, h3)
               else pack_into_slot env junk tmp (root_quantile_threshold tmp wm 0) False 1 (s3, h3)))"
    obtain ok4 s4 h4 where p4: "last = (ok4, s4, h4)" by (rule prod_cases3)
    have k4: "length s4 = length slots
      \<and> live_blocks env h4 - occupied s4 = live_blocks env hist - occupied slots + overwritten ok4 opt slots"
      using p4 k13(1,3) l3 assms(2) pack_kept [of env junk _ _ False 1 s3 h3 ok4 s4 h4] unfolding last_def
      by (auto simp: slots_kept_def occupied_store overwritten_def map_slots split: option.splits if_splits prod.splits)
    have "half_maps env junk primary opt msk t slots hist
        = (if \<not> gm then (False, ?s1, h1) else if \<not> ok2 then (False, s2, h2) else if \<not> ok3 then (False, s3, h3)
           else (ok4, s4, h4))"
      by (simp only: half_maps_def map_slots sub e prod.case g not_True_eq_False if_False msub Let_def p2 p3
          last_def [unfolded Let_def, symmetric] p4)
    then show ?thesis using assms(1) k4 k13 k1' by (auto simp: slots_kept_def overwritten_def split: if_splits)
  qed
qed

lemma maps_blocks:
  assumes "gx_feature_root_feature_maps_prepare env junk mode primary opt msk slots hist = (ok, slots', hist')"
    and "4 \<le> length slots"
  shows "length slots' = length slots
    \<and> live_blocks env hist' - occupied slots' = live_blocks env hist - occupied slots
        + overwritten (ok \<and> mode \<noteq> 0) opt slots"
proof (cases "im_element_bytes primary \<noteq> 1 \<or> im_element_bytes msk \<noteq> 1 \<or> im_width primary \<le> 0 \<or> im_height primary \<le> 0
         \<or> \<not> same_size primary msk \<or> mode \<noteq> 0 \<and> (im_width primary < 2 \<or> im_height primary < 2)")
  case True
  then show ?thesis using assms by (auto simp: gx_feature_root_feature_maps_prepare_def overwritten_def split: if_splits)
next
  case False
  note valid = this
  show ?thesis
  proof (cases "mode = 0")
    case True
    then show ?thesis using valid assms full_maps_kept [OF assms(2), of env hist junk primary opt msk]
      by (simp add: gx_feature_root_feature_maps_prepare_def slots_kept_def overwritten_def)
  next
    case False
    obtain t h1 where a: "gx_feature_descriptor_allocate env junk (im_width primary div 2) (im_height primary div 2)
        (im_element_bytes primary) hist = (t, h1)" by (rule prod.exhaust)
    note la = allocate_blocks [OF a]
    show ?thesis
    proof (cases t)
      case None
      then show ?thesis using valid False assms(1) a la
        by (auto simp: gx_feature_root_feature_maps_prepare_def overwritten_def)
    next
      case (Some d)
      obtain ok1 s1 h2 where h: "half_maps env junk primary opt msk d slots h1 = (ok1, s1, h2)" by (rule prod_cases3)
      then show ?thesis using valid False assms(1) a la Some half_maps_blocks [OF h assms(2)]
        by (auto simp: gx_feature_root_feature_maps_prepare_def)
    qed
  qed
qed

text \<open>
  C34: the blocks behind the slots. Whatever the allocator answers and wherever the call stops, every block it
  allocates is in a slot or released, and every block that leaves a slot is released, with one exception: at
  half resolution and without an optional picture, a descriptor that is in the second slot is overwritten
  with a null pointer and its block is lost.
\<close>

theorem maps_lose_one_block:
  assumes "gx_feature_root_feature_maps_prepare env junk mode primary opt msk slots hist = (ok, slots', hist')"
    and "4 \<le> length slots"
  shows "length slots' = length slots
    \<and> live_blocks env hist' - occupied slots' = live_blocks env hist - occupied slots
        + (if ok \<and> mode \<noteq> 0 \<and> opt = None then blocks_of (slots ! GX_ROOT_MAP_ADAPTIVE_OPTIONAL) else 0)"
  using maps_blocks [OF assms] by (simp add: overwritten_def)

theorem maps_lose_one_block_witness:
  "\<exists>slots' hist'. gx_feature_root_feature_maps_prepare quiet_env (\<lambda>i. 0) 1 (even_picture 2 2 9) None (even_picture 2 2 1)
       [None, Some (even_picture 1 1 0), None, None, None] [Malloc 33] = (True, slots', hist')
     \<and> occupied slots' = 3 \<and> live_blocks quiet_env hist' = 4"
proof -
  let ?in = "[None, Some (even_picture 1 1 0), None, None, None]"
  obtain ok s h where run: "gx_feature_root_feature_maps_prepare quiet_env (\<lambda>i. 0) 1 (even_picture 2 2 9) None (even_picture 2 2 1)
       ?in [Malloc 33] = (ok, s, h)" by (rule prod_cases3)
  moreover have "map_prod id (\<lambda>(s, h). map (\<lambda>d. d = None) s)
      (gx_feature_root_feature_maps_prepare quiet_env (\<lambda>i. 0) 1 (even_picture 2 2 9) None (even_picture 2 2 1) ?in [Malloc 33])
      = (True, [False, True, False, False, True])" by code_simp
  ultimately have "ok" "map (\<lambda>d. d = None) s = [False, True, False, False, True]" by simp_all
  moreover from this(2) have "occupied s = 3" by (auto simp: occupied_def blocks_of_def map_eq_Cons_conv)
  moreover have "live_blocks quiet_env [Malloc 33] = 1" by code_simp
  ultimately show ?thesis using maps_lose_one_block [OF run] run
    by (simp add: occupied_def map_slots)
qed

section \<open>What the ridge mask marks\<close>

text \<open>
  The edges of a byte picture over the integers: half the absolute Sobel sums, with the rows and columns outside
  mirrored, and their mean over 15 by 15 pixels as the code rounds it.
\<close>

definition row_change :: "nat \<Rightarrow> u8 list \<Rightarrow> nat \<Rightarrow> nat \<Rightarrow> int" where
  "row_change w p x y = uint (pix w p (x + 1) y) - uint (pix w p (x - 1) y)"

definition column_change :: "nat \<Rightarrow> u8 list \<Rightarrow> nat \<Rightarrow> nat \<Rightarrow> int" where
  "column_change w p x y = uint (pix w p x (y + 1)) - uint (pix w p x (y - 1))"

definition edge :: "nat \<Rightarrow> nat \<Rightarrow> u8 list \<Rightarrow> nat \<Rightarrow> nat \<Rightarrow> int" where
  "edge w h p x y =
     (if 1 \<le> x \<and> x < w - 1
      then \<bar>row_change w p x (nat (mirror (int y - 1) (int h))) + 2 * row_change w p x y
            + row_change w p x (nat (mirror (int y + 1) (int h)))\<bar> div 2 else 0)
     + (if 1 \<le> y \<and> y < h - 1
        then \<bar>column_change w p (nat (mirror (int x - 1) (int w))) y + 2 * column_change w p x y
              + column_change w p (nat (mirror (int x + 1) (int w))) y\<bar> div 2 else 0)"

definition mean_edge :: "nat \<Rightarrow> nat \<Rightarrow> u8 list \<Rightarrow> nat \<Rightarrow> nat \<Rightarrow> int" where
  "mean_edge w h p x y =
     sum_list (map (\<lambda>(dy, dx). edge w h p (nat (mirror (int x + dx) (int w))) (nat (mirror (int y + dy) (int h))))
       (List.product [- 7..7] [- 7..7])) * 291 div 2 ^ 16"

lemma change_bound: "\<bar>row_change w p x y\<bar> \<le> 255" "\<bar>column_change w p x y\<bar> \<le> 255"
proof -
  have byte: "0 \<le> uint (p :: u8)" "uint p \<le> 255" for p
    using uint_lt2p [of p] by simp_all
  have "\<bar>uint a - uint b\<bar> \<le> 255" for a b :: u8 using byte [of a] byte [of b] by linarith
  then show "\<bar>row_change w p x y\<bar> \<le> 255" "\<bar>column_change w p x y\<bar> \<le> 255"
    by (simp_all add: row_change_def column_change_def)
qed

lemma weighted_bound: "\<bar>a\<bar> \<le> 255 \<Longrightarrow> \<bar>b\<bar> \<le> 255 \<Longrightarrow> \<bar>c\<bar> \<le> 255 \<Longrightarrow> \<bar>a + 2 * b + c\<bar> \<le> (1020 :: int)"
  by linarith

lemma i16_small: "\<bar>k\<bar> \<le> 1020 \<Longrightarrow> i16 k = k"
  by (rule i16_exact) linarith+

lemma gradients_exact:
  assumes "1 < w" "1 < h"
  shows "mask_gradient_x w h p x y = row_change w p x (nat (mirror (int y - 1) (int h))) + 2 * row_change w p x y
      + row_change w p x (nat (mirror (int y + 1) (int h)))"
    and "mask_gradient_y w h p x y = column_change w p (nat (mirror (int x - 1) (int w))) y + 2 * column_change w p x y
      + column_change w p (nat (mirror (int x + 1) (int w))) y"
  using assms i16_small [OF weighted_bound [OF change_bound(1) change_bound(1) change_bound(1)]]
    i16_small [OF weighted_bound [OF change_bound(2) change_bound(2) change_bound(2)]]
  by (simp_all add: mask_gradient_x_def mask_gradient_y_def Let_def reflect101_mirror row_change_def column_change_def ac_simps)

lemma edge_bound: "0 \<le> edge w h p x y \<and> edge w h p x y \<le> 1020"
proof -
  have half: "\<bar>k\<bar> \<le> 1020 \<Longrightarrow> 0 \<le> \<bar>k\<bar> div 2 \<and> \<bar>k\<bar> div 2 \<le> 510" for k :: int by linarith
  show ?thesis
    using half [OF weighted_bound [OF change_bound(1) [of w p x "nat (mirror (int y - 1) (int h))"] change_bound(1) [of w p x y]
          change_bound(1) [of w p x "nat (mirror (int y + 1) (int h))"]]]
      half [OF weighted_bound [OF change_bound(2) [of w p "nat (mirror (int x - 1) (int w))" y] change_bound(2) [of w p x y]
          change_bound(2) [of w p "nat (mirror (int x + 1) (int w))" y]]]
    unfolding edge_def by auto
qed

lemma foldl_sum: "foldl (\<lambda>s z. s + f z) a zs = a + sum_list (map f zs)" for a :: "'a :: comm_monoid_add"
  by (induction zs arbitrary: a) (simp_all add: add.assoc)

lemma sum_list_bound: "(\<And>z. 0 \<le> f z \<and> f z \<le> b) \<Longrightarrow> 0 \<le> sum_list (map f zs) \<and> sum_list (map f zs) \<le> int (length zs) * b"
  by (induction zs) (auto simp: algebra_simps add_mono)

lemma sum_list_of_int: "sum_list (map (\<lambda>z. of_int (f z)) zs) = (of_int (sum_list (map f zs)) :: 'a :: ring_1)"
  by (induction zs) simp_all

lemma word_of_small: "0 \<le> e \<Longrightarrow> e \<le> 1020 \<Longrightarrow> (ucast (of_int e :: u16) :: u32) = of_int e"
proof -
  assume "0 \<le> e" "e \<le> 1020"
  then have "uint (of_int e :: u16) = e" by (simp add: unsigned_of_int take_bit_int_eq_self)
  moreover have "(ucast (of_int e :: u16) :: u32) = of_int (uint (of_int e :: u16))" by simp
  ultimately show ?thesis by (simp only:)
qed

lemma small_uint: "0 \<le> k \<Longrightarrow> k < 2 ^ 32 \<Longrightarrow> uint (of_int k :: u32) = k"
  by (simp add: unsigned_of_int take_bit_int_eq_self)

lemma magnitude_edge:
  assumes "3 \<le> w" "3 \<le> h" and "i < w" "j < h"
  shows "pix w (map (\<lambda>i. mask_magnitude
        (raster w h (\<lambda>x y. if 1 \<le> x \<and> x < w - 1 then mask_gradient_x w h p x y else 0) ! i)
        (raster w h (\<lambda>x y. if 1 \<le> y \<and> y < h - 1 then mask_gradient_y w h p x y else 0) ! i)) [0..<w * h]) i j
    = of_int (edge w h p i j)"
proof -
  have "j * w + i < w * h" using assms(3,4) by (rule index_less)
  moreover have "(j * w + i) mod w = i" "(j * w + i) div w = j" using assms(3) by simp_all
  ultimately show ?thesis
    using assms(1,2) unfolding pix_def
    by (simp add: nth_raster mask_magnitude_def edge_def gradients_exact del: of_int_add)
qed

lemma strength_exact:
  assumes "3 \<le> w" "3 \<le> h" and "x < w" "y < h"
  shows "uint (pix w (ridge_strength w h p) x y) = mean_edge w h p x y"
proof -
  let ?zs = "List.product [- 7..7] [- 7..7] :: (int \<times> int) list"
  define zs where "zs = ?zs"
  have len: "length zs = 225" unfolding zs_def by code_simp
  define f where "f = (\<lambda>(dy, dx). edge w h p (nat (mirror (int x + dx) (int w))) (nat (mirror (int y + dy) (int h))))"
  define mag where "mag = map (\<lambda>i. mask_magnitude
        (raster w h (\<lambda>x y. if 1 \<le> x \<and> x < w - 1 then mask_gradient_x w h p x y else 0) ! i)
        (raster w h (\<lambda>x y. if 1 \<le> y \<and> y < h - 1 then mask_gradient_y w h p x y else 0) ! i)) [0..<w * h]"
  have inside: "nat (mirror (int x + dx) (int w)) < w" "nat (mirror (int y + dy) (int h)) < h" for dx dy
    using mirror_inside [of "int w" "int x + dx"] mirror_inside [of "int h" "int y + dy"] assms by linarith+
  have read: "ucast (pix w mag (nat (reflect101 (int x + dx) (int w))) (nat (reflect101 (int y + dy) (int h))))
      = (of_int (f (dy, dx)) :: u32)" for dy dx
  proof -
    have r: "reflect101 (int x + dx) (int w) = mirror (int x + dx) (int w)" "reflect101 (int y + dy) (int h) = mirror (int y + dy) (int h)"
      using assms(1,2) by (simp_all add: reflect101_mirror)
    show ?thesis unfolding r mag_def magnitude_edge [OF assms(1,2) inside] f_def prod.case
      by (rule word_of_small) (simp_all add: edge_bound)
  qed
  have "foldl (\<lambda>s (ky, kx). s + ucast (pix w mag (nat (reflect101 (int x + kx) (int w))) (nat (reflect101 (int y + ky) (int h)))))
      (0 :: u32) zs = foldl (\<lambda>s z. s + of_int (f z)) 0 zs"
    by (simp only: read, intro foldl_cong) auto
  then have total_eq: "foldl (\<lambda>s (ky, kx). s + ucast (pix w mag (nat (reflect101 (int x + kx) (int w))) (nat (reflect101 (int y + ky) (int h)))))
      (0 :: u32) zs = of_int (sum_list (map f zs))"
    by (simp only: foldl_sum sum_list_of_int add_0)
  define S where "S = sum_list (map f zs)"
  have "0 \<le> f z \<and> f z \<le> 1020" for z using edge_bound by (simp add: f_def split: prod.split)
  then have S: "0 \<le> S" "S \<le> 225 * 1020" using sum_list_bound [of f 1020 zs] by (simp_all add: S_def len)
  have "uint (of_int S * GX_ROOT_MASK_BOX_RECIPROCAL_Q16 :: u32) = S * 291"
  proof -
    have "of_int S * GX_ROOT_MASK_BOX_RECIPROCAL_Q16 = (of_int (S * 291) :: u32)" by (simp add: GX_ROOT_MASK_BOX_RECIPROCAL_Q16_def)
    moreover have "uint (of_int (S * 291) :: u32) = S * 291"
      by (rule small_uint) (use S in simp_all)
    ultimately show ?thesis by (simp only:)
  qed
  then have shifted: "uint (drop_bit 16 (of_int S * GX_ROOT_MASK_BOX_RECIPROCAL_Q16 :: u32)) = S * 291 div 2 ^ 16"
    by (simp add: drop_bit_eq_div uint_div)
  have small: "0 \<le> S * 291 div 2 ^ 16" "S * 291 div 2 ^ 16 < 2 ^ 16" using S by simp_all
  have "pix w (ridge_strength w h p) x y = ucast (drop_bit 16 (of_int S * GX_ROOT_MASK_BOX_RECIPROCAL_Q16 :: u32))"
    unfolding ridge_strength_def Let_def mag_def [symmetric] pix_raster [OF assms(3,4)] mask_smooth_def
      GX_ROOT_MASK_BOX_RADIUS_def zs_def [symmetric] total_eq S_def [symmetric] ..
  also have "uint \<dots> = S * 291 div 2 ^ 16"
    using shifted small by (simp add: unsigned_ucast_eq take_bit_int_eq_self)
  finally show ?thesis by (simp add: mean_edge_def S_def f_def zs_def)
qed

text \<open>The picture the edges are taken from: the bytes, filtered with the kernel of code 7 at 16 bits.\<close>

definition smoothed_bytes :: "nat \<Rightarrow> nat \<Rightarrow> u8 gx_feature_pyramid_image \<Rightarrow> u8 list" where
  "smoothed_bytes w h gray = map (\<lambda>p. ucast (drop_bit 8 p)) (code_pixels w h 7 (scaled_bytes (im_pixels gray)))"

definition strong :: "nat \<Rightarrow> nat \<Rightarrow> u8 gx_feature_pyramid_image \<Rightarrow> u16 \<Rightarrow> nat \<Rightarrow> bool" where
  "strong w h gray threshold i \<longleftrightarrow> uint threshold < mean_edge w h (smoothed_bytes w h gray) (i mod w) (i div w)"

lemma cleanup_blocks:
  "live_blocks env (foldl (\<lambda>h d. root_descriptor_release_local env d h) hist ds) = live_blocks env hist - sum_list (map blocks_of ds)"
  by (induction ds arbitrary: hist) (simp_all add: algebra_simps)

lemma malloc_free_live: "\<not> isl (reply_rc (env h (Malloc n))) \<Longrightarrow> live_blocks env (h @ [Malloc n, Free]) = live_blocks env h"
  using live_blocks_snoc [of env "h @ [Malloc n]" Free] by simp

lemma apply_filter_live: "apply_filter env s d c hist = (ok, img, hist') \<Longrightarrow> live_blocks env hist' = live_blocks env hist"
  unfolding apply_filter_def gx_feature_filter_u16_q16_reflect101_def gx_feature_filter_image_prepare_code6_u16_reflect101_def
  by (auto simp: Let_def ext_do_def malloc_free_live split: if_splits option.splits)

lemma allocate_level:
  assumes "malloc_works env" and "0 < w" "0 < h" "int (w * h) * 2 \<le> INT32_MAX" and "t = 1 \<or> t = 2"
  shows "\<exists>d h'. gx_feature_descriptor_allocate env junk (int w) (int h) t hist = (Some d, h') \<and> (t = 2 \<longrightarrow> level_ok w h d)"
proof -
  have mal: "\<not> isl (reply_rc (env g (Malloc n)))" for g n using assms(1) by (simp add: malloc_works_def)
  have pos: "\<not> int w * int h \<le> 0" using assms(2,3) by (simp add: not_le)
  have small: "n \<le> m \<and> a * t \<le> m \<and> n * t \<le> m \<and> 0 < n * t \<and> 0 < a * t"
    if "a \<le> n" "n * 2 \<le> m" "0 < a" "0 < n" for a n m :: int using assms(5) that by auto
  have "int w * 1 \<le> int w * int h" using assms(3) by (intro mult_left_mono) auto
  then have big: "\<not> INT32_MAX < int w * int h" "\<not> INT32_MAX < int w * t" "\<not> INT32_MAX < int w * int h * t"
    "\<not> int w * int h * t \<le> 0" "\<not> int w * t \<le> 0"
    using small [of "int w" "int w * int h" INT32_MAX] assms(2,4) pos by (simp_all add: not_less not_le)
  have layout: "compute_layout (int w) (int h) t = Some (int w * t, int w * int h * t)"
    using assms(2,3,5) pos big by (auto simp: compute_layout_def Let_def)
  have "nat (int w * int h) = w * h" by (simp add: nat_mult_distrib)
  then show ?thesis using mal pos big assms(2,3,5)
    by (auto simp: gx_feature_descriptor_allocate_def layout ext_do_def Let_def level_ok_def not_less not_le)
qed

lemma mask_blocks:
  assumes "gx_feature_root_mask_prepare env junk gray msk enabled threshold fill_value hist = (ok, out, coverage, hist')"
  shows "live_blocks env hist' = live_blocks env hist \<and> (ok \<and> enabled \<or> out = msk) \<and> (ok \<or> coverage = 0)"
proof (cases "im_width gray < 3 \<or> im_height gray < 3 \<or> im_element_bytes gray \<noteq> 1 \<or> im_reserved_08 gray < im_width gray
         \<or> im_element_count gray \<le> 0
         \<or> enabled \<and> (case msk of None \<Rightarrow> True
                      | Some m \<Rightarrow> im_element_bytes m \<noteq> 1 \<or> \<not> same_size m gray)
         \<or> im_element_count gray < im_width gray * im_height gray")
  case True
  then show ?thesis using assms unfolding gx_feature_root_mask_prepare_def by simp
next
  case False
  let ?w = "im_width gray" and ?h = "im_height gray"
  obtain d1 h1 where a1: "gx_feature_descriptor_allocate env junk ?w ?h 2 hist = (d1, h1)" by (rule prod.exhaust)
  obtain d2 h2 where a2: "gx_feature_descriptor_allocate env junk ?w ?h 2 h1 = (d2, h2)" by (rule prod.exhaust)
  obtain d3 h3 where a3: "gx_feature_descriptor_allocate env junk ?w ?h 1 h2 = (d3, h3)" by (rule prod.exhaust)
  obtain d4 h4 where a4: "gx_feature_descriptor_allocate env junk ?w ?h 2 h3 = (d4, h4)" by (rule prod.exhaust)
  obtain d5 h5 where a5: "gx_feature_descriptor_allocate env junk ?w ?h 2 h4 = (d5, h5)" by (rule prod.exhaust)
  obtain d6 h6 where a6: "gx_feature_descriptor_allocate env junk ?w ?h 2 h5 = (d6, h6)" by (rule prod.exhaust)
  obtain d7 h7 where a7: "gx_feature_descriptor_allocate env junk ?w ?h 2 h6 = (d7, h7)" by (rule prod.exhaust)
  let ?images = "[d1, d2, d3, d4, d5, d6, d7]"
  have live: "live_blocks env h7 = live_blocks env hist + sum_list (map blocks_of ?images)"
    using a1 a2 a3 a4 a5 a6 a7 by (simp add: allocate_blocks)
  obtain okf img h8 where f: "apply_filter env (store_pixels (the d1) (scaled_bytes (take (nat ?w * nat ?h) (im_pixels gray))))
      (the d2) 7 h7 = (okf, img, h8)" by (rule prod_cases3)
  show ?thesis
    using assms live apply_filter_live [OF f]
    unfolding gx_feature_root_mask_prepare_def if_not_P [OF False] Let_def a1 a2 a3 a4 a5 a6 a7 prod.case f
    by (auto simp: cleanup_blocks split: if_splits)
qed

lemma mask_of_picture:
  assumes "malloc_works env" and "byte_picture w h gray" "3 \<le> w" "3 \<le> h" "int (w * h) * 2 \<le> INT32_MAX"
    and "byte_picture w h m"
  shows "\<exists>out hist'. gx_feature_root_mask_prepare env junk gray (Some m) True threshold fill_value hist
      = (True, Some out, of_nat (length (filter (strong w h gray threshold) [0..<w * h]) * 2 ^ 16 div (w * h)), hist')
    \<and> im_pixels out = map (\<lambda>i. if strong w h gray threshold i then fill_value else 0) [0..<w * h]"
proof -
  have g: "im_width gray = int w" "im_height gray = int h" "im_element_bytes gray = 1" "im_reserved_08 gray = int w"
    "im_element_count gray = int (w * h)" "length (im_pixels gray) = w * h" using assms(2) by (simp_all add: byte_picture_def)
  have m: "im_element_bytes m = 1" "same_size m gray" "length (im_pixels m) = w * h"
    using assms(6) g by (simp_all add: byte_picture_def same_size_def)
  have pos: "0 < w" "0 < h" using assms(3,4) by simp_all
  note alloc = allocate_level [OF assms(1) pos assms(5), of 2] allocate_level [OF assms(1) pos assms(5), of 1]
  obtain d1 h1 where a1: "gx_feature_descriptor_allocate env junk (int w) (int h) 2 hist = (Some d1, h1)" "level_ok w h d1"
    using alloc(1) [of junk hist] by auto
  obtain d2 h2 where a2: "gx_feature_descriptor_allocate env junk (int w) (int h) 2 h1 = (Some d2, h2)" "level_ok w h d2"
    using alloc(1) [of junk h1] by auto
  obtain d3 h3 where a3: "gx_feature_descriptor_allocate env junk (int w) (int h) 1 h2 = (Some d3, h3)"
    using alloc(2) [of junk h2] by auto
  obtain d4 h4 where a4: "gx_feature_descriptor_allocate env junk (int w) (int h) 2 h3 = (Some d4, h4)"
    using alloc(1) [of junk h3] by auto
  obtain d5 h5 where a5: "gx_feature_descriptor_allocate env junk (int w) (int h) 2 h4 = (Some d5, h5)"
    using alloc(1) [of junk h4] by auto
  obtain d6 h6 where a6: "gx_feature_descriptor_allocate env junk (int w) (int h) 2 h5 = (Some d6, h6)"
    using alloc(1) [of junk h5] by auto
  obtain d7 h7 where a7: "gx_feature_descriptor_allocate env junk (int w) (int h) 2 h6 = (Some d7, h7)"
    using alloc(1) [of junk h6] by auto
  define src where "src = store_pixels d1 (scaled_bytes (im_pixels gray))"
  have px: "im_pixels src = scaled_bytes (im_pixels gray)" "level_ok w h src"
    using a1(2) g(6) by (auto simp: src_def store_pixels_def level_ok_def mem_write_def scaled_bytes_def)
  have "kernel_valid 65536 7" using pyramid_kernels(3) by simp
  then obtain h8 where f: "apply_filter env src d2 7 h7 = (True, d2\<lparr>im_pixels := code_pixels w h 7 (im_pixels src)\<rparr>, h8)"
    using apply_filter_works [OF assms(1) px(2) a2(2), of 65536 7 h7] by auto
  define bytes where "bytes = smoothed_bytes w h gray"
  have strength: "pix w ps (i mod w) (i div w) = ps ! i" for i and ps :: "u16 list"
    by (simp add: pix_def)
  have sel: "(threshold < ridge_strength w h bytes ! i) = strong w h gray threshold i" if "i < w * h" for i
  proof -
    have "i mod w < w" "i div w < h" using that pos by (simp_all add: div_less_iff_less_mult mult.commute)
    from strength_exact [OF assms(3,4) this, of bytes] show ?thesis
      by (simp add: strength word_less_def strong_def bytes_def)
  qed
  have len: "length (ridge_strength w h bytes) = w * h" by (simp add: ridge_strength_def Let_def)
  have selected: "map (\<lambda>s. threshold < s) (ridge_strength w h bytes) = map (strong w h gray threshold) [0..<w * h]"
    using sel len by (intro nth_equalityI) simp_all
  have counts: "length (filter ((<) threshold) (ridge_strength w h bytes)) = length (filter (strong w h gray threshold) [0..<w * h])"
    using arg_cong [OF selected, of "\<lambda>l. length (filter id l)"] by (simp add: filter_map comp_def)
  have written: "map (\<lambda>x. if threshold < x then fill_value else 0) (ridge_strength w h bytes)
      = map (\<lambda>i. if strong w h gray threshold i then fill_value else 0) [0..<w * h]"
    using arg_cong [OF selected, of "map (\<lambda>b. if b then fill_value else 0)"] by (simp add: comp_def)
  have area: "nat (int w) * nat (int h) = w * h" by simp
  have guard: "\<not> (int w < 3 \<or> int h < 3 \<or> (1 :: int) \<noteq> 1 \<or> int w < int w \<or> int (w * h) \<le> 0 \<or> True \<and> ((1 :: int) \<noteq> 1 \<or> \<not> True)
      \<or> int (w * h) < int w * int h)" using assms(3,4) pos by (simp add: not_le)
  show ?thesis
    using guard counts written m(3) len
    unfolding gx_feature_root_mask_prepare_def
    by (simp add: g m(1,2) a1(1) a2(1) a3 a4 a5 a6 a7 area src_def [symmetric] f px(1) smoothed_bytes_def [symmetric]
        bytes_def [symmetric] Let_def filter_map comp_def mem_write_def)
qed

text \<open>
  The ridge mask leaves nothing behind. Whatever the allocator and the filter answer, the call has released
  its seven pictures; when it fails, or the mask is not enabled, the mask is not touched.
\<close>

theorem mask_balanced:
  assumes "gx_feature_root_mask_prepare env junk gray msk enabled threshold fill_value hist = (ok, out, coverage, hist')"
  shows "live_blocks env hist' = live_blocks env hist \<and> (ok \<and> enabled \<or> out = msk) \<and> (ok \<or> coverage = 0)"
  by (rule mask_blocks [OF assms])

theorem mask_balanced_witness:
  "\<exists>ok out coverage hist'. gx_feature_root_mask_prepare quiet_env (\<lambda>i. 0) (even_picture 3 3 5) (Some (even_picture 3 3 9)) False 4 255 []
     = (ok, out, coverage, hist') \<and> live_blocks quiet_env hist' = 0 \<and> out = Some (even_picture 3 3 9)"
proof -
  obtain ok out coverage hist' where run: "gx_feature_root_mask_prepare quiet_env (\<lambda>i. 0) (even_picture 3 3 5)
      (Some (even_picture 3 3 9)) False 4 255 [] = (ok, out, coverage, hist')" by (rule prod_cases4)
  from mask_balanced [OF run] show ?thesis by (simp add: run live_blocks_def)
qed

text \<open>
  C35: the ridge mask marks ridges. For a byte picture and a mask of its size, a pixel of the mask gets the fill
  value exactly when the mean edge of the smoothed picture over the 15 by 15 pixels around it, computed over
  the integers with the border mirrored, is above the threshold, and 0 otherwise: none of the 16- and 32-bit
  sums wraps. The coverage is the share of marked pixels at 16 fractional bits, never above 1.
\<close>

theorem mask_marks_ridges:
  assumes "malloc_works env" and "byte_picture w h gray" "3 \<le> w" "3 \<le> h" "int (w * h) * 2 \<le> INT32_MAX"
    and "byte_picture w h m"
  shows "\<exists>out coverage hist'. gx_feature_root_mask_prepare env junk gray (Some m) True threshold fill_value hist
      = (True, Some out, coverage, hist')
    \<and> im_pixels out = map (\<lambda>i. if strong w h gray threshold i then fill_value else 0) [0..<w * h]
    \<and> unat coverage = length (filter (strong w h gray threshold) [0..<w * h]) * 2 ^ 16 div (w * h) \<and> unat coverage \<le> 2 ^ 16
    \<and> live_blocks env hist' = live_blocks env hist"
proof -
  obtain out hist' where run: "gx_feature_root_mask_prepare env junk gray (Some m) True threshold fill_value hist
      = (True, Some out, of_nat (length (filter (strong w h gray threshold) [0..<w * h]) * 2 ^ 16 div (w * h)), hist')"
    "im_pixels out = map (\<lambda>i. if strong w h gray threshold i then fill_value else 0) [0..<w * h]"
    using mask_of_picture [OF assms, of junk threshold fill_value hist] by blast
  define n where "n = length (filter (strong w h gray threshold) [0..<w * h])"
  have "n \<le> w * h" unfolding n_def using length_filter_le [of _ "[0..<w * h]"] by simp
  then have "n * 2 ^ 16 div (w * h) \<le> w * h * 2 ^ 16 div (w * h)" by (intro div_le_mono mult_right_mono) auto
  also have "\<dots> = 2 ^ 16" using assms(3,4) by simp
  finally have le: "n * 2 ^ 16 div (w * h) \<le> 2 ^ 16" .
  then have "unat (of_nat (n * 2 ^ 16 div (w * h)) :: u32) = n * 2 ^ 16 div (w * h)"
    unfolding unat_of_nat by (intro mod_less) simp
  with run le mask_blocks [OF run(1)] show ?thesis unfolding n_def
    by (intro exI [of _ out] exI [of _ "of_nat (length (filter (strong w h gray threshold) [0..<w * h]) * 2 ^ 16 div (w * h))"]
        exI [of _ hist']) simp
qed

theorem mask_marks_ridges_witness:
  "\<exists>out coverage hist'. gx_feature_root_mask_prepare quiet_env (\<lambda>i. 0) (even_picture 3 3 5) (Some (even_picture 3 3 9)) True 4 255 []
     = (True, Some out, coverage, hist') \<and> length (im_pixels out) = 9 \<and> unat coverage \<le> 2 ^ 16 \<and> live_blocks quiet_env hist' = 0"
  using mask_marks_ridges [of quiet_env 3 3 "even_picture 3 3 5" "even_picture 3 3 9" "\<lambda>i. 0" 4 255 "[]"]
  by (auto simp: malloc_works_def quiet_env_def byte_picture_def even_picture_def INT32_MAX_def live_blocks_def)

text \<open>
  The shape of the parameter block. It is built exactly for capacities from 1 to 300, and then it is the 15
  words profile, capacity, record limit, edge threshold, 1, scale, the last three words of the first template,
  the second template, quality and coverage.
\<close>

theorem parameters_shape:
  assumes "length template_a = 4" and "length template_b = 4"
  shows "gx_feature_profile24_parameters_build template_a template_b capacity quality coverage = Some ws
    \<longleftrightarrow> 1 \<le> capacity \<and> capacity \<le> 300
      \<and> ws = [24, capacity, 300, 40, 1, 0x1822e] @ tl template_a @ template_b @ [quality, coverage]"
proof -
  obtain a b c d where a: "template_a = [a, b, c, d]" using assms(1) by (auto simp: length_Suc_conv numeral_eq_Suc)
  obtain e f g h where b: "template_b = [e, f, g, h]" using assms(2) by (auto simp: length_Suc_conv numeral_eq_Suc)
  have "1 \<le> capacity \<longleftrightarrow> capacity \<noteq> 0" by (simp add: word_le_nat_alt Suc_le_eq unat_gt_0)
  then show ?thesis
    by (auto simp: a b gx_feature_profile24_parameters_build_def GX_FEATURE_PROFILE24_ID_def
        GX_FEATURE_PROFILE24_MAX_RECORDS_def GX_FEATURE_PROFILE24_EDGE_THRESHOLD_def GX_FEATURE_PROFILE24_SCALE_Q16_def
        mem_write_def numeral_eq_Suc not_less)
qed

theorem parameters_shape_witness:
  "gx_feature_profile24_parameters_build [1, 2, 3, 4] [5, 6, 7, 8] 300 9 10
   = Some [24, 300, 300, 40, 1, 0x1822e, 2, 3, 4, 5, 6, 7, 8, 9, 10]"
  using parameters_shape [of "[1, 2, 3, 4]" "[5, 6, 7, 8]" 300 9 10] by simp

end
