(* ===== verification/Candidate.thy ===== *)
theory Candidate
  imports Response
begin

text \<open>
  The extremum test and the sub-pixel refinement of feature candidates (\<open>src/gx_feature_candidate.c\<close> and
  \<open>src/gx_feature_refine.c\<close>). 64-bit and 32-bit values are integers, wrapped where the code wraps; pixels are
  words. The levels of the response pyramid are read-only pictures.
\<close>

section \<open>The extremum test\<close>

record gx_feature_u16_map =
  lm_width :: int
  lm_height :: int
  lm_pixels :: "u16 list"

definition signed_difference_u16 :: "u16 \<Rightarrow> u16 \<Rightarrow> int" where
  "signed_difference_u16 left right = uint left - uint right"

definition center_response_i16 :: "u16 \<Rightarrow> u16 \<Rightarrow> int" where
  "center_response_i16 nxt current = sint (nxt - current)"

text \<open>The pixel at an offset from a point.\<close>

definition pixel_near :: "gx_feature_u16_map \<Rightarrow> int \<Rightarrow> int \<Rightarrow> int \<Rightarrow> int \<Rightarrow> u16" where
  "pixel_near m x y dx dy = lm_pixels m ! nat ((y + dy) * lm_width m + (x + dx))"

definition beyond :: "int \<Rightarrow> int \<Rightarrow> bool" where
  "beyond response v \<longleftrightarrow> response > 0 \<and> v > response \<or> response < 0 \<and> v < response"

definition same_extent :: "gx_feature_u16_map \<Rightarrow> gx_feature_u16_map \<Rightarrow> bool" where
  "same_extent a b \<longleftrightarrow> lm_width a = lm_width b \<and> lm_height a = lm_height b"

definition gx_feature_candidate_extremum_gate ::
    "gx_feature_u16_map list \<Rightarrow> int \<Rightarrow> int \<Rightarrow> int \<Rightarrow> int \<Rightarrow> int \<times> int option" where
  "gx_feature_candidate_extremum_gate levels x y level threshold =
     (if level < 1 \<or> nat (level + 2) \<ge> length levels then (- 1, None)
      else
        let previous = levels ! nat (level - 1); current = levels ! nat level;
            nxt = levels ! nat (level + 1); following = levels ! nat (level + 2)
        in if lm_width current < 3 \<or> lm_height current < 3 \<or> \<not> same_extent previous current \<or> \<not> same_extent nxt current
              \<or> \<not> same_extent following current
              \<or> x < 1 \<or> y < 1 \<or> x \<ge> lm_width current - 1 \<or> y \<ge> lm_height current - 1
           then (- 1, None)
           else
             let response = center_response_i16 (pixel_near nxt x y 0 0) (pixel_near current x y 0 0);
                 diff = (\<lambda>a b dx dy. signed_difference_u16 (pixel_near a x y dx dy) (pixel_near b x y dx dy))
             in if threshold \<ge> \<bar>response\<bar> \<or> response = 0 then (0, Some response)
                else if \<exists>(dy, dx) \<in> set (List.product [- 1..1] [- 1..1]).
                    (dx \<noteq> 0 \<or> dy \<noteq> 0) \<and> beyond response (diff nxt current dx dy)
                    \<or> beyond response (diff following nxt dx dy) \<or> beyond response (diff current previous dx dy)
                then (0, Some response)
                else (1, Some response))"

section \<open>The equation of the refinement\<close>

text \<open>The magnitude is never negative here.\<close>

function bit_count_loop :: "nat \<Rightarrow> int \<Rightarrow> nat" where
  "bit_count_loop count magnitude = (if magnitude \<le> 0 then count else bit_count_loop (count + 1) (magnitude div 2))"
  by pat_completeness auto
termination by (relation "measure (\<lambda>(_, magnitude). nat magnitude)") auto

declare bit_count_loop.simps [simp del]

definition vendor_bit_counter :: "int \<Rightarrow> nat" where
  "vendor_bit_counter v = bit_count_loop 1 \<bar>v\<bar>"

definition arithmetic_shift_right_i64 :: "int \<Rightarrow> nat \<Rightarrow> int" where
  "arithmetic_shift_right_i64 v shift =
     (if shift = 0 then v
      else if shift \<ge> 64 then (if v < 0 then - 1 else 0)
      else if v \<ge> 0 then drop_bit shift v
      else NOT (drop_bit shift (NOT v)))"

text \<open>Division in C rounds towards zero.\<close>

definition c_div :: "int \<Rightarrow> int \<Rightarrow> int" where
  "c_div a d = (if d < 0 then trunc_div (- a) (- d) else trunc_div a d)"

text \<open>64-bit arithmetic, wrapped after every step: the two sums the equation is built from.\<close>

definition i64 :: "int \<Rightarrow> int" where
  "i64 v = signed_take_bit 63 v"

definition cross64 :: "int \<Rightarrow> int \<Rightarrow> int \<Rightarrow> int \<Rightarrow> int" where
  "cross64 a b c d = i64 (i64 (a * b) - i64 (c * d))"

definition dot64 :: "int \<Rightarrow> int \<Rightarrow> int \<Rightarrow> int \<Rightarrow> int \<Rightarrow> int \<Rightarrow> int" where
  "dot64 a b c d e f = i64 (i64 (i64 (a * b) + i64 (c * d)) + i64 (e * f))"

definition cofactors :: "int list \<Rightarrow> int \<times> int \<times> int" where
  "cofactors hs = (cross64 (hs ! 3) (hs ! 4) (hs ! 5) (hs ! 1), cross64 (hs ! 5) (hs ! 4) (hs ! 3) (hs ! 2),
     cross64 (hs ! 1) (hs ! 2) (hs ! 4) (hs ! 4))"

definition hessian_determinant :: "int list \<Rightarrow> int" where
  "hessian_determinant hs = (let (cof0, cof1, cof2) = cofactors hs in dot64 (hs ! 0) cof2 (hs ! 3) cof1 (hs ! 5) cof0)"

definition hessian_numerators :: "int list \<Rightarrow> int list \<Rightarrow> int list" where
  "hessian_numerators hs gs =
     (let (cof0, cof1, cof2) = cofactors hs; mixed = cross64 (hs ! 3) (hs ! 5) (hs ! 0) (hs ! 4)
      in [i64 (- dot64 (gs ! 0) cof2 (gs ! 1) cof1 (gs ! 2) cof0),
          i64 (- dot64 (cross64 (hs ! 0) (hs ! 2) (hs ! 5) (hs ! 5)) (gs ! 1) mixed (gs ! 2) (gs ! 0) cof1),
          i64 (- dot64 (cross64 (hs ! 0) (hs ! 1) (hs ! 3) (hs ! 3)) (gs ! 2) mixed (gs ! 1) (gs ! 0) cof0)])"

definition solve_quotient :: "int \<Rightarrow> int \<Rightarrow> int" where
  "solve_quotient determinant numerator =
     (let determinant_bits = vendor_bit_counter determinant; numerator_bits = vendor_bit_counter numerator
      in if int numerator_bits - int determinant_bits \<ge> 9 then 0x00ffffff
         else
           let common_bits = (if numerator_bits < determinant_bits then determinant_bits else numerator_bits);
               shift = (if common_bits > 32 then common_bits - 32 else 0);
               scaled_numerator = arithmetic_shift_right_i64 numerator shift;
               scaled_determinant = arithmetic_shift_right_i64 determinant shift
           in i32 (c_div (i64 (scaled_numerator * 4096)) scaled_determinant))"

definition gx_feature_candidate_solve_q12 :: "int list \<Rightarrow> int list \<Rightarrow> int list" where
  "gx_feature_candidate_solve_q12 hessian6 gradient3 =
     (let determinant = hessian_determinant hessian6
      in if determinant = 0 then [0, 0, 0]
         else map (solve_quotient determinant) (hessian_numerators hessian6 gradient3))"

section \<open>Profiles and scales\<close>

definition GX_PROFILE_SET_ALL :: u32 where "GX_PROFILE_SET_ALL = 0x07a20c80"
definition GX_PROFILE_SET_SCALE_DIRECT :: u32 where "GX_PROFILE_SET_SCALE_DIRECT = 0x07220c00"
definition GX_SCALE_MULTIPLIER :: u64 where "GX_SCALE_MULTIPLIER = 0x00013333"
definition GX_RESPONSE_MIN :: int where "GX_RESPONSE_MIN = 0x01478000"

definition profile_in_set :: "nat \<Rightarrow> u32 \<Rightarrow> bool" where
  "profile_in_set profile s \<longleftrightarrow> profile < 27 \<and> drop_bit profile s AND 1 \<noteq> 0"

definition abs_i32_vendor :: "int \<Rightarrow> int" where
  "abs_i32_vendor v = (if v \<ge> 0 then v else i32 (- v))"

definition round_q12_to_integer_vendor :: "int \<Rightarrow> int" where
  "round_q12_to_integer_vendor v =
     (let magnitude = \<bar>v\<bar>; rounded = drop_bit 12 magnitude + (if magnitude AND 0x800 \<noteq> 0 then 1 else 0)
      in if v < 0 then - rounded else rounded)"

definition scale_thresholds :: "u32 list" where
  "scale_thresholds = [0x95c0, 0x526a, 0x2b80, 0x1664, 0x0b5d, 0x05ba, 0x02e0, 0x0171,
     0x00b8, 0x005c, 0x002e, 0x0017, 0x000c, 0x0006, 0x0003, 0x0001]"

definition scale_step :: "u32 \<times> u64 \<Rightarrow> nat \<Rightarrow> u32 \<times> u64" where
  "scale_step st index =
     (let (remainder, v) = st
      in if scale_thresholds ! index \<le> remainder
         then (remainder - scale_thresholds ! index, v + drop_bit (index + 1) v) else st)"

definition gx_feature_scale_exp_q16 :: "int \<Rightarrow> u32" where
  "gx_feature_scale_exp_q16 input_q16 =
     (let magnitude = of_int \<bar>input_q16\<bar> :: u32; remainder = magnitude AND 0xffff; integer_part = drop_bit 16 magnitude;
          v = (if integer_part \<noteq> 0 then push_bit (unat (integer_part AND 63)) 0x10000 else 0x10000 :: u64);
          (_, v) = foldl scale_step (remainder, v) [0..<16]
      in if input_q16 > 0 then ucast v else if v = 0 then 0 else ucast (0x100000000 div v))"

section \<open>Derivatives\<close>

definition validate_level_maps :: "gx_feature_u16_map list \<Rightarrow> int \<Rightarrow> int \<Rightarrow> int \<Rightarrow> bool" where
  "validate_level_maps levels level x y \<longleftrightarrow>
     \<not> (level < 1 \<or> nat (level + 2) \<ge> length levels)
     \<and> (let ref = levels ! nat level
        in \<not> (lm_width ref < 3 \<or> lm_height ref < 3 \<or> x < 1 \<or> y < 1 \<or> x \<ge> lm_width ref - 1 \<or> y \<ge> lm_height ref - 1)
           \<and> list_all (\<lambda>k. same_extent (levels ! nat (level + k)) ref) [- 1..2])"

definition abs_wrapped_u32 :: "u32 \<Rightarrow> int" where
  "abs_wrapped_u32 v = (if sint v < 0 then sint (0 - v) else sint v)"

definition i16_of_u32 :: "u32 \<Rightarrow> int" where "i16_of_u32 v = i16 (sint v)"

text \<open>Nine sums with their limits; the first that is too large ends the sampling.\<close>

definition derivative_sums :: "gx_feature_u16_map list \<Rightarrow> int \<Rightarrow> int \<Rightarrow> int \<Rightarrow> int \<Rightarrow> (u32 \<times> int) list" where
  "derivative_sums levels x y level response =
     (let p_prev = (\<lambda>dx dy. ucast (pixel_near (levels ! nat (level - 1)) x y dx dy) :: u32);
          p_cur = (\<lambda>dx dy. ucast (pixel_near (levels ! nat level) x y dx dy) :: u32);
          p_next = (\<lambda>dx dy. ucast (pixel_near (levels ! nat (level + 1)) x y dx dy) :: u32);
          p_follow = (\<lambda>dx dy. ucast (pixel_near (levels ! nat (level + 2)) x y dx dy) :: u32);
          r = of_int response
      in [((p_cur (- 1) 0 - p_next (- 1) 0 - p_cur 1 0 + p_next 1 0) * 2, 0x7fff),
          ((p_cur 0 (- 1) - p_next 0 (- 1) - p_cur 0 1 + p_next 0 1) * 2, 0x7fff),
          ((p_prev 0 0 - p_cur 0 0 - p_next 0 0 + p_follow 0 0) * 2, 0x7fff),
          ((p_next (- 1) 0 - p_cur (- 1) 0 - p_cur 1 0 - r + p_next 1 0) * 4, 0x7fff),
          ((p_next 0 (- 1) - p_cur 0 (- 1) - r - p_cur 0 1 + p_next 0 1) * 4, 0x7fff),
          ((p_cur 0 0 - p_prev 0 0 - p_next 0 0 - r + p_follow 0 0) * 4, 0x7fff),
          (p_cur (- 1) 1 - p_next (- 1) 1 - p_next 1 (- 1) - p_cur 1 1 - p_cur (- 1) (- 1)
             + p_cur 1 (- 1) + p_next 1 1 + p_next (- 1) (- 1), 0x1fff),
          (p_prev 0 1 - p_prev 0 (- 1) - p_follow 0 (- 1) + p_follow 0 1 - p_cur 0 1 - p_next 0 1
             + p_cur 0 (- 1) + p_next 0 (- 1), 0x1fff),
          (p_prev 1 0 - p_prev (- 1) 0 - p_follow (- 1) 0 + p_follow 1 0 - p_cur 1 0 - p_next 1 0
             + p_cur (- 1) 0 + p_next (- 1) 0, 0x1fff)])"

definition gx_feature_candidate_sample_derivatives ::
    "gx_feature_u16_map list \<Rightarrow> int \<Rightarrow> int \<Rightarrow> int \<Rightarrow> int + int list \<times> int list \<times> int" where
  "gx_feature_candidate_sample_derivatives levels x y level =
     (if \<not> validate_level_maps levels level x y then Inl (- 1)
      else
        let response = sint ((pixel_near (levels ! nat (level + 1)) x y 0 0 - pixel_near (levels ! nat level) x y 0 0) * 2);
            sums = derivative_sums levels x y level response
        in if \<exists>(v, limit) \<in> set sums. abs_wrapped_u32 v > limit then Inl 0
           else let vs = map (\<lambda>(v, _). i16_of_u32 v) sums in Inr (drop 3 vs, take 3 vs, response))"

section \<open>Refinement\<close>

record gx_feature_candidate_state =
  cs_x :: int
  cs_y :: int
  cs_level :: int
  cs_response :: int
  cs_x_q8 :: int
  cs_y_q8 :: int
  cs_scale_q16 :: int

text \<open>The limits a profile selects: the highest level, the divisor of the scale, and whether it keeps the response.\<close>

definition profile_limits :: "nat \<Rightarrow> int \<times> int \<times> bool" where
  "profile_limits profile =
     (if profile = 9 \<or> profile = 18 then (6, 6, True)
      else if profile_in_set profile GX_PROFILE_SET_ALL then (6, 4, False)
      else (3, 3, False))"

definition interpolated_response :: "nat \<Rightarrow> int \<Rightarrow> int \<Rightarrow> int" where
  "interpolated_response profile response dot =
     (let v = response * (if profile_in_set profile GX_PROFILE_SET_ALL then 0x2000 else 0x4000) + dot
      in if v \<le> 0 then - v else v)"

definition edge_like :: "nat \<Rightarrow> int \<Rightarrow> int \<Rightarrow> int \<Rightarrow> bool" where
  "edge_like profile edge_threshold trace determinant =
     (if profile_in_set profile GX_PROFILE_SET_ALL then determinant < 1
      else
        let lhs = i64 (i64 (determinant * i32 (edge_threshold + 1)) * i32 (edge_threshold + 1));
            rhs = i64 (i64 (edge_threshold * trace) * trace)
        in determinant < 1 \<or> lhs \<le> rhs)"

definition candidate_scale :: "nat \<Rightarrow> u32 \<Rightarrow> int" where
  "candidate_scale profile scale =
     (if profile_in_set profile GX_PROFILE_SET_SCALE_DIRECT then sint scale
      else if profile = 7 \<or> profile = 23 then (if uint scale > 2147483647 then 2147483647 else sint scale)
      else sint (ucast (drop_bit 16 (ucast scale * GX_SCALE_MULTIPLIER)) :: u32))"

text \<open>What an iteration does when the offsets are below half a pixel: reject, or store the refined position.\<close>

definition settle_candidate ::
    "gx_feature_candidate_state \<Rightarrow> int \<Rightarrow> nat \<Rightarrow> int \<times> int \<times> int \<Rightarrow> int list \<Rightarrow> int list \<Rightarrow> int \<Rightarrow> int list \<Rightarrow>
     int \<times> gx_feature_candidate_state \<times> int option" where
  "settle_candidate candidate edge_threshold profile point hs gs response offsets =
     (let (x, y, level) = point; (_, scale_divisor, special) = profile_limits profile;
          dot = gs ! 0 * offsets ! 0 + gs ! 2 * offsets ! 2 + gs ! 1 * offsets ! 1;
          interpolated = interpolated_response profile response dot
      in if interpolated < GX_RESPONSE_MIN then (0, candidate, None)
         else
           let candidate = (if \<not> special \<or> profile = 7 \<or> profile = 23
                            then candidate\<lparr>cs_response := i32 (drop_bit 12 interpolated)\<rparr> else candidate);
               trace = hs ! 1 + hs ! 0;
               determinant = hs ! 1 * hs ! 0 - hs ! 3 * hs ! 3
           in if edge_like profile edge_threshold trace determinant then (0, candidate, None)
              else
                let scale_input = (level * 0x1000 + offsets ! 2) * 0x10;
                    scale = gx_feature_scale_exp_q16 (i32 (trunc_div scale_input scale_divisor))
                in (1, candidate\<lparr>cs_x_q8 := i16 (arithmetic_shift_right_i64 (x * 0x1000 + offsets ! 0) 4),
                                 cs_y_q8 := i16 (arithmetic_shift_right_i64 (y * 0x1000 + offsets ! 1) 4),
                                 cs_scale_q16 := candidate_scale profile scale,
                                 cs_x := x, cs_y := y, cs_level := level\<rparr>,
                    Some (i32 (trunc_div (trace * trace * 0x400) determinant))))"

function refine_loop ::
    "gx_feature_u16_map list \<Rightarrow> int \<Rightarrow> nat \<Rightarrow> nat \<Rightarrow> int \<times> int \<times> int \<Rightarrow> gx_feature_candidate_state \<Rightarrow>
     int \<times> gx_feature_candidate_state \<times> int option" where
  "refine_loop levels edge_threshold profile iteration (x, y, level) candidate =
     (if \<not> validate_level_maps levels level x y then (0, candidate, None)
      else case gx_feature_candidate_sample_derivatives levels x y level of
          Inl _ \<Rightarrow> (0, candidate, None)
        | Inr (hs, gs, response) \<Rightarrow>
            let offsets = gx_feature_candidate_solve_q12 hs gs
            in if abs_i32_vendor (offsets ! 0) < 0x800 \<and> abs_i32_vendor (offsets ! 1) < 0x800
                  \<and> abs_i32_vendor (offsets ! 2) < 0x800
               then settle_candidate candidate edge_threshold profile (x, y, level) hs gs response offsets
               else
                 let x = x + round_q12_to_integer_vendor (offsets ! 0);
                     y = y + round_q12_to_integer_vendor (offsets ! 1);
                     level = level + round_q12_to_integer_vendor (offsets ! 2);
                     candidate = candidate\<lparr>cs_x := x, cs_y := y, cs_level := level\<rparr>;
                     (max_level, _, _) = profile_limits profile
                 in if level < 1 \<or> level > max_level \<or> nat (level + 2) \<ge> length levels then (0, candidate, None)
                    else if x < 1 \<or> y < 1 \<or> x \<ge> lm_width (levels ! nat level) - 1 \<or> y \<ge> lm_height (levels ! nat level) - 1
                    then (0, candidate, None)
                    else if iteration + 1 > 4 then (0, candidate, None)
                    else refine_loop levels edge_threshold profile (iteration + 1) (x, y, level) candidate)"
  by pat_completeness auto
termination by (relation "measure (\<lambda>(_, _, _, iteration, _, _). 5 - iteration)") auto

declare refine_loop.simps [simp del]

definition gx_feature_candidate_refine ::
    "gx_feature_u16_map list \<Rightarrow> gx_feature_candidate_state \<Rightarrow> int \<Rightarrow> nat \<Rightarrow>
     int \<times> gx_feature_candidate_state \<times> int option" where
  "gx_feature_candidate_refine levels candidate edge_threshold profile =
     (if edge_threshold < 0 \<or> length levels < 4 then (- 1, candidate, None)
      else refine_loop levels edge_threshold profile 0 (cs_x candidate, cs_y candidate, cs_level candidate) candidate)"

section \<open>The equation is solved without overflow\<close>

lemma i64_exact: "\<bar>v\<bar> < 2 ^ 63 \<Longrightarrow> i64 v = v"
  unfolding i64_def by (rule signed_take_bit_int_eq_self) auto

lemma c_div_sgn: "c_div a d = sgn (a * d) * (\<bar>a\<bar> div \<bar>d\<bar>)"
  by (cases "a = 0"; cases "a < 0"; cases "d = 0"; cases "d < 0") (simp_all add: c_div_def trunc_div_def sgn_mult)

lemma bit_count:
  "0 \<le> m \<Longrightarrow> \<exists>b. bit_count_loop c m = c + b \<and> m < 2 ^ b \<and> (m \<noteq> 0 \<longrightarrow> 2 ^ b \<le> 2 * m) \<and> (m = 0 \<longrightarrow> b = 0)"
proof (induction c m rule: bit_count_loop.induct)
  case (1 c m)
  show ?case
  proof (cases "m = 0")
    case True
    then show ?thesis by (intro exI [of _ 0]) (simp add: bit_count_loop.simps)
  next
    case False
    then obtain b where b: "bit_count_loop (c + 1) (m div 2) = c + 1 + b" "m div 2 < 2 ^ b" "m div 2 \<noteq> 0 \<longrightarrow> 2 ^ b \<le> 2 * (m div 2)"
      "m div 2 = 0 \<longrightarrow> b = 0"
      using 1 by auto
    have "m < 2 ^ Suc b" using b(2) by simp
    moreover have "2 ^ Suc b \<le> 2 * m" using b(3,4) False 1(2) by (cases "m div 2 = 0") auto
    ultimately show ?thesis using False b(1) 1(2) by (intro exI [of _ "Suc b"]) (simp add: bit_count_loop.simps [of c m])
  qed
qed

lemma bits_bounds:
  "\<exists>b. vendor_bit_counter v = Suc b \<and> \<bar>v\<bar> < 2 ^ b \<and> (v \<noteq> 0 \<longrightarrow> 2 ^ b \<le> 2 * \<bar>v\<bar>) \<and> (v = 0 \<longrightarrow> b = 0)"
  using bit_count [of "\<bar>v\<bar>" 1] by (auto simp: vendor_bit_counter_def)

lemma shift_right64_div: "shift < 64 \<Longrightarrow> arithmetic_shift_right_i64 v shift = v div 2 ^ shift"
proof -
  assume "shift < 64"
  moreover have "NOT (drop_bit shift (NOT v)) = drop_bit shift v" by (rule bit_eqI) (simp add: bit_simps)
  ultimately show ?thesis by (simp add: arithmetic_shift_right_i64_def drop_bit_eq_div)
qed

lemma trunc_div_abs: "0 < d \<Longrightarrow> \<bar>trunc_div a d\<bar> = \<bar>a\<bar> div d"
  using pos_imp_zdiv_nonneg_iff [of d "- a"] pos_imp_zdiv_nonneg_iff [of d a] by (cases "a < 0") (simp_all add: trunc_div_def)

lemma c_div_abs: "d \<noteq> 0 \<Longrightarrow> \<bar>c_div a d\<bar> = \<bar>a\<bar> div \<bar>d\<bar>"
  by (simp add: c_div_def trunc_div_abs)

lemma scaled_ratio:
  fixes d n p :: int
  assumes "0 < p" and "\<bar>n\<bar> \<le> 512 * \<bar>d\<bar>" and "d \<noteq> 0" and "p = 1 \<or> 2 ^ 22 * p \<le> \<bar>d\<bar>"
  shows "d div p \<noteq> 0 \<and> \<bar>n div p\<bar> \<le> 1024 * \<bar>d div p\<bar>"
proof (cases "p = 1")
  case False
  define d' n' where "d' = d div p" and "n' = n div p"
  have part: "\<bar>v\<bar> \<le> p * \<bar>v div p\<bar> + p \<and> p * \<bar>v div p\<bar> \<le> \<bar>v\<bar> + p" for v
  proof -
    have "v = p * (v div p) + v mod p" "0 \<le> v mod p" "v mod p < p" using assms(1) by simp_all
    moreover have "p * \<bar>v div p\<bar> = \<bar>p * (v div p)\<bar>" using assms(1) by (simp add: abs_mult)
    ultimately show ?thesis by linarith
  qed
  have "\<bar>d\<bar> \<le> p * \<bar>d'\<bar> + p" "p * \<bar>n'\<bar> \<le> \<bar>n\<bar> + p" using part [of d] part [of n] by (simp_all add: d'_def n'_def)
  then have 1: "p * (2 ^ 22) \<le> p * (\<bar>d'\<bar> + 1)" "p * \<bar>n'\<bar> \<le> p * (512 * \<bar>d'\<bar> + 513)"
    using assms(2,4) False by (simp_all add: algebra_simps)
  have "2 ^ 22 \<le> \<bar>d'\<bar> + 1" "\<bar>n'\<bar> \<le> 512 * \<bar>d'\<bar> + 513"
    using mult_left_le_imp_le [OF 1(1) assms(1)] mult_left_le_imp_le [OF 1(2) assms(1)] by simp_all
  then show ?thesis unfolding d'_def [symmetric] n'_def [symmetric] by auto
qed (use assms in simp)

lemma quotient_defined:
  assumes "determinant \<noteq> 0" and "\<bar>determinant\<bar> < 2 ^ 60" "\<bar>numerator\<bar> < 2 ^ 60"
    and "int (vendor_bit_counter numerator) - int (vendor_bit_counter determinant) < 9"
  shows "\<exists>s < 64. solve_quotient determinant numerator = c_div (numerator div 2 ^ s * 4096) (determinant div 2 ^ s)
    \<and> determinant div 2 ^ s \<noteq> 0 \<and> \<bar>numerator div 2 ^ s\<bar> \<le> 1024 * \<bar>determinant div 2 ^ s\<bar>
    \<and> \<bar>c_div (numerator div 2 ^ s * 4096) (determinant div 2 ^ s)\<bar> \<le> 2 ^ 22 \<and> \<bar>numerator div 2 ^ s * 4096\<bar> < 2 ^ 63
    \<and> (s = 0 \<or> 33 \<le> vendor_bit_counter numerator \<or> 33 \<le> vendor_bit_counter determinant)"
proof -
  obtain bn where bn: "vendor_bit_counter numerator = Suc bn" "\<bar>numerator\<bar> < 2 ^ bn"
    "numerator \<noteq> 0 \<longrightarrow> 2 ^ bn \<le> 2 * \<bar>numerator\<bar>" "numerator = 0 \<longrightarrow> bn = 0" using bits_bounds by blast
  obtain bd where bd: "vendor_bit_counter determinant = Suc bd" "2 ^ bd \<le> 2 * \<bar>determinant\<bar>"
    using bits_bounds [of determinant] assms(1) by blast
  have small: "b < 61" if "2 ^ b \<le> 2 * v" "v < 2 ^ 60" for b and v :: int
  proof -
    have "(2 :: int) ^ b < 2 ^ 61" using that by simp
    then show ?thesis by (rule power_less_imp_less_exp [rotated]) simp
  qed
  have b60: "bn < 61" "bd < 61" using small [OF bd(2) assms(2)] small [of bn "\<bar>numerator\<bar>"] bn(3,4) assms(3) by auto
  have le: "bn \<le> bd + 8" using assms(4) bn(1) bd(1) by simp
  have "\<bar>numerator\<bar> < 2 ^ (bd + 8)" by (rule less_le_trans [OF bn(2) power_increasing]) (use le in simp_all)
  also have "\<dots> \<le> 512 * \<bar>determinant\<bar>" using bd(2) by (simp add: power_add)
  finally have ratio: "\<bar>numerator\<bar> \<le> 512 * \<bar>determinant\<bar>" by simp
  define s where "s = max bn bd - 31"
  have "(2 :: int) ^ s = 1 \<or> 2 ^ 22 * 2 ^ s \<le> \<bar>determinant\<bar>"
  proof (cases "s = 0")
    case False
    then have "s + 23 \<le> bd" using le by (simp add: s_def max_def split: if_splits)
    then have "(2 :: int) ^ (s + 23) \<le> 2 ^ bd" by (rule power_increasing) simp
    then show ?thesis using bd(2) by (simp add: power_add)
  qed simp
  from scaled_ratio [OF _ ratio assms(1) this] have sr: "determinant div 2 ^ s \<noteq> 0"
    "\<bar>numerator div 2 ^ s\<bar> \<le> 1024 * \<bar>determinant div 2 ^ s\<bar>" by auto
  define d' n' where "d' = determinant div 2 ^ s" and "n' = numerator div 2 ^ s"
  have "\<bar>c_div (n' * 4096) d'\<bar> = \<bar>n'\<bar> * 4096 div \<bar>d'\<bar>"
    using sr(1) by (simp add: c_div_abs d'_def abs_mult)
  also have "\<dots> \<le> 2 ^ 22 * \<bar>d'\<bar> div \<bar>d'\<bar>"
    using sr by (intro zdiv_mono1) (simp_all add: d'_def n'_def)
  finally have bound: "\<bar>c_div (n' * 4096) d'\<bar> \<le> 2 ^ 22" using sr(1) by (simp add: d'_def)
  then have exact: "i32 (c_div (n' * 4096) d') = c_div (n' * 4096) d'" by (intro i32_exact) auto
  have s64: "s < 64" using b60 by (simp add: s_def)
  have "(2 :: int) ^ bn \<le> 2 ^ (31 + s)" by (rule power_increasing) (simp_all add: s_def)
  then have "- (2 ^ 31 * 2 ^ s) \<le> numerator" "numerator < 2 ^ 31 * 2 ^ s" using bn(2) by (simp_all add: power_add)
  then have "\<bar>n'\<bar> \<le> 2 ^ 31"
    using zdiv_mono1 [of "- (2 ^ 31) * 2 ^ s" numerator "2 ^ s"] zdiv_mono1 [of numerator "2 ^ 31 * 2 ^ s" "2 ^ s"]
      nonzero_mult_div_cancel_right [of "2 ^ s" "- (2 ^ 31) :: int"]
    by (simp add: n'_def abs_le_iff)
  then have fits: "\<bar>n' * 4096\<bar> < 2 ^ 63" by simp
  have shift: "(if (if Suc bn < Suc bd then Suc bd else Suc bn) > 32 then (if Suc bn < Suc bd then Suc bd else Suc bn) - 32 else 0) = s"
    by (auto simp: s_def max_def)
  have "solve_quotient determinant numerator = i32 (c_div (i64 (n' * 4096)) d')"
    using assms(4) unfolding solve_quotient_def Let_def bn(1) bd(1) shift shift_right64_div [OF s64] d'_def n'_def by simp
  then have "solve_quotient determinant numerator = i32 (c_div (n' * 4096) d')" by (simp only: i64_exact [OF fits])
  moreover have "s = 0 \<or> 33 \<le> Suc bn \<or> 33 \<le> Suc bd" by (auto simp: s_def max_def)
  ultimately show ?thesis using s64 sr bound exact fits bn(1) bd(1) by (intro exI [of _ s]) (simp add: d'_def n'_def)
qed

text \<open>Bounds of the cofactors, determinant and numerators for 16-bit entries.\<close>

lemma product15: "\<bar>a\<bar> \<le> 2 ^ 15 \<Longrightarrow> \<bar>b\<bar> \<le> 2 ^ 15 \<Longrightarrow> \<bar>a * b\<bar> \<le> (2 :: int) ^ 30"
  using mult_mono [of "\<bar>a\<bar>" "2 ^ 15" "\<bar>b\<bar>" "2 ^ 15"] by (simp add: abs_mult)

lemma product46: "\<bar>a\<bar> \<le> 2 ^ 15 \<Longrightarrow> \<bar>b\<bar> \<le> 2 ^ 31 \<Longrightarrow> \<bar>a * b\<bar> \<le> (2 :: int) ^ 46"
  using mult_mono [of "\<bar>a\<bar>" "2 ^ 15" "\<bar>b\<bar>" "2 ^ 31"] by (simp add: abs_mult)

lemma product46': "\<bar>a\<bar> \<le> 2 ^ 31 \<Longrightarrow> \<bar>b\<bar> \<le> 2 ^ 15 \<Longrightarrow> \<bar>a * b\<bar> \<le> (2 :: int) ^ 46"
  using product46 [of b a] by (simp add: mult.commute)

lemma difference31:
  assumes "\<bar>a\<bar> \<le> 2 ^ 15" "\<bar>b\<bar> \<le> 2 ^ 15" "\<bar>c\<bar> \<le> 2 ^ 15" "\<bar>d\<bar> \<le> 2 ^ 15"
  shows "\<bar>a * b - c * d\<bar> \<le> (2 :: int) ^ 31"
  using product15 [OF assms(1,2)] product15 [OF assms(3,4)] by simp

lemma cross_exact:
  assumes "\<bar>a\<bar> \<le> 2 ^ 15" "\<bar>b\<bar> \<le> 2 ^ 15" "\<bar>c\<bar> \<le> 2 ^ 15" "\<bar>d\<bar> \<le> 2 ^ 15"
  shows "cross64 a b c d = a * b - c * d \<and> \<bar>a * b - c * d\<bar> \<le> 2 ^ 31"
proof -
  note p = product15 [OF assms(1,2)] product15 [OF assms(3,4)]
  have "i64 (a * b) = a * b" "i64 (c * d) = c * d" by (rule i64_exact, use p in simp)+
  moreover have "i64 (a * b - c * d) = a * b - c * d" by (rule i64_exact) (use difference31 [OF assms] in simp)
  ultimately show ?thesis using difference31 [OF assms] by (simp add: cross64_def)
qed

lemma dot_exact:
  assumes "\<bar>a * b\<bar> \<le> 2 ^ 46" "\<bar>c * d\<bar> \<le> 2 ^ 46" "\<bar>e * f\<bar> \<le> 2 ^ 46"
  shows "dot64 a b c d e f = a * b + c * d + e * f \<and> \<bar>a * b + c * d + e * f\<bar> < 2 ^ 60"
proof -
  have "i64 (a * b) = a * b" "i64 (c * d) = c * d" "i64 (e * f) = e * f" "i64 (a * b + c * d) = a * b + c * d"
    "i64 (a * b + c * d + e * f) = a * b + c * d + e * f" by (rule i64_exact, use assms in simp)+
  then show ?thesis using assms by (simp add: dot64_def)
qed

text \<open>The determinant and the numerators over the integers, as Cramer's rule has them.\<close>

definition exact_determinant :: "int list \<Rightarrow> int" where
  "exact_determinant hs = hs ! 0 * (hs ! 1 * hs ! 2 - hs ! 4 * hs ! 4) + hs ! 3 * (hs ! 5 * hs ! 4 - hs ! 3 * hs ! 2)
     + hs ! 5 * (hs ! 3 * hs ! 4 - hs ! 5 * hs ! 1)"

definition exact_numerators :: "int list \<Rightarrow> int list \<Rightarrow> int list" where
  "exact_numerators hs gs =
     [- (gs ! 0 * (hs ! 1 * hs ! 2 - hs ! 4 * hs ! 4) + gs ! 1 * (hs ! 5 * hs ! 4 - hs ! 3 * hs ! 2)
         + gs ! 2 * (hs ! 3 * hs ! 4 - hs ! 5 * hs ! 1)),
      - ((hs ! 0 * hs ! 2 - hs ! 5 * hs ! 5) * gs ! 1 + (hs ! 3 * hs ! 5 - hs ! 0 * hs ! 4) * gs ! 2
         + gs ! 0 * (hs ! 5 * hs ! 4 - hs ! 3 * hs ! 2)),
      - ((hs ! 0 * hs ! 1 - hs ! 3 * hs ! 3) * gs ! 2 + (hs ! 3 * hs ! 5 - hs ! 0 * hs ! 4) * gs ! 1
         + gs ! 0 * (hs ! 3 * hs ! 4 - hs ! 5 * hs ! 1))]"

lemma equation_exact:
  assumes "\<And>k. k < 6 \<Longrightarrow> \<bar>hs ! k\<bar> \<le> 2 ^ 15" and "\<And>k. k < 3 \<Longrightarrow> \<bar>gs ! k\<bar> \<le> 2 ^ 15"
  shows "hessian_determinant hs = exact_determinant hs \<and> hessian_numerators hs gs = exact_numerators hs gs
    \<and> \<bar>exact_determinant hs\<bar> < 2 ^ 60 \<and> list_all (\<lambda>n. \<bar>n\<bar> < 2 ^ 60) (exact_numerators hs gs)"
proof -
  have h: "\<bar>hs ! 0\<bar> \<le> 2 ^ 15" "\<bar>hs ! 1\<bar> \<le> 2 ^ 15" "\<bar>hs ! 2\<bar> \<le> 2 ^ 15" "\<bar>hs ! 3\<bar> \<le> 2 ^ 15" "\<bar>hs ! 4\<bar> \<le> 2 ^ 15" "\<bar>hs ! 5\<bar> \<le> 2 ^ 15"
    by (rule assms(1), simp)+
  have g: "\<bar>gs ! 0\<bar> \<le> 2 ^ 15" "\<bar>gs ! 1\<bar> \<le> 2 ^ 15" "\<bar>gs ! 2\<bar> \<le> 2 ^ 15" by (rule assms(2), simp)+
  define c0 c1 c2 where "c0 = hs ! 3 * hs ! 4 - hs ! 5 * hs ! 1" and "c1 = hs ! 5 * hs ! 4 - hs ! 3 * hs ! 2"
    and "c2 = hs ! 1 * hs ! 2 - hs ! 4 * hs ! 4"
  define m e f where "m = hs ! 3 * hs ! 5 - hs ! 0 * hs ! 4" and "e = hs ! 0 * hs ! 2 - hs ! 5 * hs ! 5"
    and "f = hs ! 0 * hs ! 1 - hs ! 3 * hs ! 3"
  note crosses = cross_exact [OF h(4,5,6,2), folded c0_def] cross_exact [OF h(6,5,4,3), folded c1_def]
    cross_exact [OF h(2,3,5,5), folded c2_def] cross_exact [OF h(4,6,1,5), folded m_def]
    cross_exact [OF h(1,3,6,6), folded e_def] cross_exact [OF h(1,2,4,4), folded f_def]
  have b: "\<bar>c0\<bar> \<le> 2 ^ 31" "\<bar>c1\<bar> \<le> 2 ^ 31" "\<bar>c2\<bar> \<le> 2 ^ 31" "\<bar>m\<bar> \<le> 2 ^ 31" "\<bar>e\<bar> \<le> 2 ^ 31" "\<bar>f\<bar> \<le> 2 ^ 31"
    using crosses by simp_all
  have cof: "cofactors hs = (c0, c1, c2)" using crosses by (simp only: cofactors_def)
  note dots = dot_exact [OF product46 [OF h(1) b(3)] product46 [OF h(4) b(2)] product46 [OF h(6) b(1)]]
    dot_exact [OF product46 [OF g(1) b(3)] product46 [OF g(2) b(2)] product46 [OF g(3) b(1)]]
    dot_exact [OF product46' [OF b(5) g(2)] product46' [OF b(4) g(3)] product46 [OF g(1) b(2)]]
    dot_exact [OF product46' [OF b(6) g(3)] product46' [OF b(4) g(2)] product46 [OF g(1) b(1)]]
  have neg: "i64 (- v) = - v" if "\<bar>v\<bar> < 2 ^ 60" for v by (rule i64_exact) (use that in simp)
  have "hessian_determinant hs = exact_determinant hs" "\<bar>exact_determinant hs\<bar> < 2 ^ 60"
    using dots(1) by (simp_all only: hessian_determinant_def exact_determinant_def cof Let_def prod.case c0_def [symmetric]
        c1_def [symmetric] c2_def [symmetric])
  moreover have code: "hessian_numerators hs gs
      = [i64 (- (gs ! 0 * c2 + gs ! 1 * c1 + gs ! 2 * c0)), i64 (- (e * gs ! 1 + m * gs ! 2 + gs ! 0 * c1)),
         i64 (- (f * gs ! 2 + m * gs ! 1 + gs ! 0 * c0))]"
    using dots crosses by (simp only: hessian_numerators_def cof Let_def prod.case)
  moreover have exact: "exact_numerators hs gs = [- (gs ! 0 * c2 + gs ! 1 * c1 + gs ! 2 * c0),
      - (e * gs ! 1 + m * gs ! 2 + gs ! 0 * c1), - (f * gs ! 2 + m * gs ! 1 + gs ! 0 * c0)]"
    by (simp only: exact_numerators_def m_def e_def f_def c0_def c1_def c2_def)
  moreover have "hessian_numerators hs gs = exact_numerators hs gs" "list_all (\<lambda>n. \<bar>n\<bar> < 2 ^ 60) (exact_numerators hs gs)"
    unfolding code exact using neg dots by (simp_all only: list.pred_inject abs_minus_cancel simp_thms)
  ultimately show ?thesis by blast
qed

lemma cramer:
  "hs ! 0 * (exact_numerators hs gs ! 0) + hs ! 3 * (exact_numerators hs gs ! 1) + hs ! 5 * (exact_numerators hs gs ! 2)
     = - exact_determinant hs * gs ! 0"
  "hs ! 3 * (exact_numerators hs gs ! 0) + hs ! 1 * (exact_numerators hs gs ! 1) + hs ! 4 * (exact_numerators hs gs ! 2)
     = - exact_determinant hs * gs ! 1"
  "hs ! 5 * (exact_numerators hs gs ! 0) + hs ! 4 * (exact_numerators hs gs ! 1) + hs ! 2 * (exact_numerators hs gs ! 2)
     = - exact_determinant hs * gs ! 2"
  by (simp_all add: exact_numerators_def exact_determinant_def algebra_simps numeral_2_eq_2)

lemma numerators_length [simp]: "length (hessian_numerators hs gs) = 3"
  by (simp add: hessian_numerators_def cofactors_def Let_def)

lemma solve_bound:
  assumes "\<And>k. k < 6 \<Longrightarrow> \<bar>hs ! k\<bar> \<le> 2 ^ 15" and "\<And>k. k < 3 \<Longrightarrow> \<bar>gs ! k\<bar> \<le> 2 ^ 15"
  shows "length (gx_feature_candidate_solve_q12 hs gs) = 3
    \<and> list_all (\<lambda>v. \<bar>v\<bar> \<le> 0x00ffffff) (gx_feature_candidate_solve_q12 hs gs)"
proof (cases "hessian_determinant hs = 0")
  case False
  have eb: "\<bar>hessian_determinant hs\<bar> < 2 ^ 60" "list_all (\<lambda>n. \<bar>n\<bar> < 2 ^ 60) (hessian_numerators hs gs)"
    using equation_exact [OF assms] by simp_all
  have "\<bar>solve_quotient (hessian_determinant hs) n\<bar> \<le> 0x00ffffff" if n: "n \<in> set (hessian_numerators hs gs)" for n
  proof (cases "int (vendor_bit_counter n) - int (vendor_bit_counter (hessian_determinant hs)) < 9")
    case True
    have "\<bar>n\<bar> < 2 ^ 60" using eb n by (auto simp: list_all_iff)
    from quotient_defined [OF False _ this True] eb show ?thesis by auto
  qed (simp add: solve_quotient_def)
  then show ?thesis using False by (simp add: gx_feature_candidate_solve_q12_def list_all_iff)
qed (simp add: gx_feature_candidate_solve_q12_def)

lemma solve_defined:
  assumes "\<And>k. k < 6 \<Longrightarrow> \<bar>hs ! k\<bar> \<le> 2 ^ 15" and "\<And>k. k < 3 \<Longrightarrow> \<bar>gs ! k\<bar> \<le> 2 ^ 15" and "k < 3"
    and d: "hessian_determinant hs \<noteq> 0"
    and close: "int (vendor_bit_counter (hessian_numerators hs gs ! k)) - int (vendor_bit_counter (hessian_determinant hs)) < 9"
  shows "\<exists>s < 64. hessian_determinant hs div 2 ^ s \<noteq> 0 \<and> \<bar>hessian_numerators hs gs ! k div 2 ^ s * 4096\<bar> < 2 ^ 63
    \<and> gx_feature_candidate_solve_q12 hs gs ! k
        = c_div (hessian_numerators hs gs ! k div 2 ^ s * 4096) (hessian_determinant hs div 2 ^ s)"
proof -
  have "\<bar>hessian_determinant hs\<bar> < 2 ^ 60" "\<bar>hessian_numerators hs gs ! k\<bar> < 2 ^ 60"
    using equation_exact [OF assms(1,2)] assms(3) numerators_length [of hs gs] by (simp_all add: list_all_length)
  from quotient_defined [OF d this close] show ?thesis using assms(3) d by (auto simp: gx_feature_candidate_solve_q12_def)
qed

lemma solve_exactly:
  assumes "k < 3"
    and d: "hessian_determinant hs \<noteq> 0" "\<bar>hessian_determinant hs\<bar> < 2 ^ 31"
    and n: "\<bar>hessian_numerators hs gs ! k\<bar> < 2 ^ 31"
      "\<bar>hessian_numerators hs gs ! k\<bar> < 128 * \<bar>hessian_determinant hs\<bar>"
  shows "gx_feature_candidate_solve_q12 hs gs ! k = sgn (hessian_numerators hs gs ! k * hessian_determinant hs)
    * (4096 * \<bar>hessian_numerators hs gs ! k\<bar> div \<bar>hessian_determinant hs\<bar>)"
proof -
  let ?d = "hessian_determinant hs" and ?n = "hessian_numerators hs gs ! k"
  obtain bn where bn: "vendor_bit_counter ?n = Suc bn" "?n \<noteq> 0 \<longrightarrow> 2 ^ bn \<le> 2 * \<bar>?n\<bar>" "?n = 0 \<longrightarrow> bn = 0" using bits_bounds by blast
  obtain bd where bd: "vendor_bit_counter ?d = Suc bd" "\<bar>?d\<bar> < 2 ^ bd" "2 ^ bd \<le> 2 * \<bar>?d\<bar>" using bits_bounds [of ?d] d(1) by blast
  have small: "b < 32" if "2 ^ b \<le> 2 * v" "v < 2 ^ 31" for b and v :: int
  proof -
    have "(2 :: int) ^ b < 2 ^ 32" using that by simp
    then show ?thesis by (rule power_less_imp_less_exp [rotated]) simp
  qed
  have b32: "bn < 32" "bd < 32" using small [OF bd(3) d(2)] small [of bn "\<bar>?n\<bar>"] bn(2,3) n(1) by auto
  have "bn < bd + 8"
  proof (cases "?n = 0")
    case False
    then have "(2 :: int) ^ bn \<le> 2 * \<bar>?n\<bar>" using bn(2) by simp
    also have "\<dots> < 256 * \<bar>?d\<bar>" using n(2) by simp
    also have "\<dots> < 2 ^ (bd + 8)" using bd(2) by (simp add: power_add)
    finally show ?thesis by (rule power_less_imp_less_exp [rotated]) simp
  qed (use bn(3) in simp)
  then have close: "int (vendor_bit_counter ?n) - int (vendor_bit_counter ?d) < 9" using bn(1) bd(1) by simp
  have "\<bar>?d\<bar> < 2 ^ 60" "\<bar>?n\<bar> < 2 ^ 60" using d(2) n(1) by simp_all
  from quotient_defined [OF d(1) this close] b32 bn(1) bd(1)
  have "solve_quotient ?d ?n = c_div (?n * 4096) ?d" by auto
  moreover have "sgn (?n * 4096 * ?d) = sgn (?n * ?d)" "\<bar>?n * 4096\<bar> = 4096 * \<bar>?n\<bar>" by (simp_all add: sgn_mult abs_mult)
  ultimately show ?thesis using assms(1) d(1) by (simp add: gx_feature_candidate_solve_q12_def c_div_sgn)
qed

text \<open>
  C36: the linear system of the refinement. For 16-bit entries the wrapped 64-bit determinant is the determinant
  of the Hessian over the integers and the numerators solve its system (Cramer's rule), so no step overflowed;
  a zero determinant gives zero offsets. Otherwise every quotient that is not cut off at \<open>0x00ffffff\<close> divides by a
  scaled determinant that is not zero a product that fits 64 bits; the three offsets stay within 24 bits. When
  determinant and numerator have at most 31 bits and the quotient is below 128, the offset is the solution in
  4096ths, cut off towards zero.
\<close>

theorem offsets_solve:
  assumes "length hs = 6" "length gs = 3" and "list_all (\<lambda>v. \<bar>v\<bar> \<le> 2 ^ 15) hs" "list_all (\<lambda>v. \<bar>v\<bar> \<le> 2 ^ 15) gs"
  defines "ns \<equiv> hessian_numerators hs gs" and "d \<equiv> hessian_determinant hs" and "offsets \<equiv> gx_feature_candidate_solve_q12 hs gs"
  shows "d = hs ! 0 * (hs ! 1 * hs ! 2 - hs ! 4 * hs ! 4) + hs ! 3 * (hs ! 5 * hs ! 4 - hs ! 3 * hs ! 2)
       + hs ! 5 * (hs ! 3 * hs ! 4 - hs ! 5 * hs ! 1)
    \<and> hs ! 0 * ns ! 0 + hs ! 3 * ns ! 1 + hs ! 5 * ns ! 2 = - d * gs ! 0
    \<and> hs ! 3 * ns ! 0 + hs ! 1 * ns ! 1 + hs ! 4 * ns ! 2 = - d * gs ! 1
    \<and> hs ! 5 * ns ! 0 + hs ! 4 * ns ! 1 + hs ! 2 * ns ! 2 = - d * gs ! 2
    \<and> list_all (\<lambda>v. \<bar>v\<bar> \<le> 0x00ffffff) offsets \<and> (d = 0 \<longrightarrow> offsets = [0, 0, 0])
    \<and> (\<forall>k < 3. d \<noteq> 0 \<and> int (vendor_bit_counter (ns ! k)) - int (vendor_bit_counter d) < 9
         \<longrightarrow> (\<exists>s < 64. d div 2 ^ s \<noteq> 0 \<and> \<bar>ns ! k div 2 ^ s * 4096\<bar> < 2 ^ 63
               \<and> offsets ! k = c_div (ns ! k div 2 ^ s * 4096) (d div 2 ^ s)))
    \<and> (\<forall>k < 3. d \<noteq> 0 \<and> \<bar>d\<bar> < 2 ^ 31 \<and> \<bar>ns ! k\<bar> < 2 ^ 31 \<and> \<bar>ns ! k\<bar> < 128 * \<bar>d\<bar>
         \<longrightarrow> offsets ! k = sgn (ns ! k * d) * (4096 * \<bar>ns ! k\<bar> div \<bar>d\<bar>))"
proof -
  have b: "\<And>k. k < 6 \<Longrightarrow> \<bar>hs ! k\<bar> \<le> 2 ^ 15" "\<And>k. k < 3 \<Longrightarrow> \<bar>gs ! k\<bar> \<le> 2 ^ 15"
    using assms(1-4) by (simp_all add: list_all_length)
  note exact = equation_exact [of hs gs, OF b]
  show ?thesis
  proof (intro conjI)
    show "d = hs ! 0 * (hs ! 1 * hs ! 2 - hs ! 4 * hs ! 4) + hs ! 3 * (hs ! 5 * hs ! 4 - hs ! 3 * hs ! 2)
       + hs ! 5 * (hs ! 3 * hs ! 4 - hs ! 5 * hs ! 1)"
      using exact by (simp add: d_def exact_determinant_def)
    show "list_all (\<lambda>v. \<bar>v\<bar> \<le> 0x00ffffff) offsets" using solve_bound [OF b] by (simp add: offsets_def)
    show "d = 0 \<longrightarrow> offsets = [0, 0, 0]" by (simp add: d_def offsets_def gx_feature_candidate_solve_q12_def)
  qed (use exact cramer [of hs gs] solve_defined [OF b] solve_exactly in \<open>simp_all add: ns_def d_def offsets_def\<close>)
qed

theorem offsets_solve_witness:
  "gx_feature_candidate_solve_q12 [2, 2, 2, 0, 0, 0] [1, 2, - 3] = [- 2048, - 4096, 6144]
   \<and> list_all (\<lambda>v. \<bar>v\<bar> \<le> 0x00ffffff) (gx_feature_candidate_solve_q12 [2, 2, 2, 0, 0, 0] [1, 2, - 3])"
proof -
  have "gx_feature_candidate_solve_q12 [2, 2, 2, 0, 0, 0] [1, 2, - 3] = [- 2048, - 4096, 6144]" by code_simp
  moreover have "length ([2, 2, 2, 0, 0, 0] :: int list) = 6" "length ([1, 2, - 3] :: int list) = 3"
    "list_all (\<lambda>v. \<bar>v\<bar> \<le> 2 ^ 15) ([2, 2, 2, 0, 0, 0] :: int list)" "list_all (\<lambda>v. \<bar>v\<bar> \<le> 2 ^ 15) ([1, 2, - 3] :: int list)"
    by simp_all
  ultimately show ?thesis using offsets_solve by blast
qed

section \<open>What a refined candidate is\<close>

lemma i16_of_limited: "abs_wrapped_u32 v \<le> limit \<Longrightarrow> 0 \<le> limit \<Longrightarrow> limit < 2 ^ 15 \<Longrightarrow> \<bar>i16_of_u32 v\<bar> \<le> limit"
proof -
  assume a: "abs_wrapped_u32 v \<le> limit" "0 \<le> limit" "limit < 2 ^ 15"
  have range: "- (2 ^ 31) \<le> sint v" "sint v < 2 ^ 31" using sint_ge [of v] sint_lt [of v] by simp_all
  show ?thesis
  proof (cases "sint v = - (2 ^ 31)")
    case True
    then have "i16_of_u32 v = 0" unfolding i16_of_u32_def by (simp add: i16_def)
    then show ?thesis using a(2) by simp
  next
    case False
    have "sint (0 - v) = - sint v"
      using range False by (simp add: signed_take_bit_int_eq_self sint_word_ariths)
    then have "\<bar>sint v\<bar> \<le> limit" using a(1) by (auto simp: abs_wrapped_u32_def split: if_splits)
    moreover from this have "i16 (sint v) = sint v" using a(3) by (intro i16_exact) auto
    ultimately show ?thesis by (simp add: i16_of_u32_def)
  qed
qed

lemma limited_all:
  "list_all (\<lambda>(v, l). \<not> l < abs_wrapped_u32 v) xs \<Longrightarrow> list_all (\<lambda>(v, l). 0 \<le> l \<and> l < 2 ^ 15) xs \<Longrightarrow>
   list_all (\<lambda>(v, l). \<bar>i16_of_u32 v\<bar> \<le> l) xs"
  by (induction xs) (auto intro!: i16_of_limited simp: not_less)

lemma sample_bounds:
  assumes "gx_feature_candidate_sample_derivatives levels x y level = Inr (hs, gs, response)"
  shows "validate_level_maps levels level x y \<and> length hs = 6 \<and> length gs = 3
    \<and> list_all (\<lambda>v. \<bar>v\<bar> \<le> 0x7fff) hs \<and> list_all (\<lambda>v. \<bar>v\<bar> \<le> 0x7fff) gs \<and> \<bar>hs ! 3\<bar> \<le> 0x1fff \<and> \<bar>response\<bar> \<le> 2 ^ 15"
proof -
  define r where "r = sint ((pixel_near (levels ! nat (level + 1)) x y 0 0 - pixel_near (levels ! nat level) x y 0 0) * 2)"
  have "\<exists>a0 a1 a2 a3 a4 a5 a6 a7 a8. derivative_sums levels x y level r = [(a0, 0x7fff), (a1, 0x7fff), (a2, 0x7fff),
      (a3, 0x7fff), (a4, 0x7fff), (a5, 0x7fff), (a6, 0x1fff), (a7, 0x1fff), (a8, 0x1fff)]"
    unfolding derivative_sums_def Let_def by blast
  then obtain a0 a1 a2 a3 a4 a5 a6 a7 a8 where sums: "derivative_sums levels x y level r = [(a0, 0x7fff), (a1, 0x7fff), (a2, 0x7fff),
      (a3, 0x7fff), (a4, 0x7fff), (a5, 0x7fff), (a6, 0x1fff), (a7, 0x1fff), (a8, 0x1fff)]" by auto
  have parts: "validate_level_maps levels level x y" "response = r"
    "hs = [i16_of_u32 a3, i16_of_u32 a4, i16_of_u32 a5, i16_of_u32 a6, i16_of_u32 a7, i16_of_u32 a8]"
    "gs = [i16_of_u32 a0, i16_of_u32 a1, i16_of_u32 a2]"
    and "\<forall>(v, limit) \<in> set [(a0, 0x7fff), (a1, 0x7fff), (a2, 0x7fff),
      (a3, 0x7fff), (a4, 0x7fff), (a5, 0x7fff), (a6, 0x1fff), (a7, 0x1fff), (a8, 0x1fff)]. \<not> limit < abs_wrapped_u32 v"
    using assms unfolding gx_feature_candidate_sample_derivatives_def Let_def r_def [symmetric] sums
    by (auto split: if_splits simp: numeral_eq_Suc)
  then have limits: "list_all (\<lambda>(v, limit). \<bar>i16_of_u32 v\<bar> \<le> limit) [(a0, 0x7fff), (a1, 0x7fff), (a2, 0x7fff),
      (a3, 0x7fff), (a4, 0x7fff), (a5, 0x7fff), (a6, 0x1fff), (a7, 0x1fff), (a8, 0x1fff)]"
    by (intro limited_all) (simp_all only: list_all_iff, simp)
  have weaker: "\<bar>v\<bar> \<le> 0x1fff \<longrightarrow> \<bar>v\<bar> \<le> 0x7fff" for v :: int by simp
  have "\<bar>r\<bar> \<le> 2 ^ 15"
    using sint_ge [of "(pixel_near (levels ! nat (level + 1)) x y 0 0 - pixel_near (levels ! nat level) x y 0 0) * 2"]
      sint_lt [of "(pixel_near (levels ! nat (level + 1)) x y 0 0 - pixel_near (levels ! nat level) x y 0 0) * 2"]
    unfolding r_def by simp
  moreover have "list_all (\<lambda>v. \<bar>v\<bar> \<le> 0x7fff) hs \<and> list_all (\<lambda>v. \<bar>v\<bar> \<le> 0x7fff) gs"
    using limits weaker [of "i16_of_u32 a6"] weaker [of "i16_of_u32 a7"] weaker [of "i16_of_u32 a8"]
    unfolding parts(3,4) by (simp only: list.pred_inject prod.case simp_thms)
  moreover have "\<bar>hs ! 3\<bar> \<le> 0x1fff"
    using limits unfolding parts(3) by (simp only: list.pred_inject prod.case simp_thms numeral_3_eq_3 nth_Cons_Suc nth_Cons_0)
  moreover have "length hs = 6" "length gs = 3" unfolding parts(3,4) by simp_all
  ultimately show ?thesis using parts(1,2) by blast
qed

lemma cs_response_kept: "cs_response (candidate\<lparr>cs_x := x, cs_y := y, cs_level := l\<rparr>) = cs_response candidate"
  by simp

lemma refine_loop_stops:
  "refine_loop levels e profile i (x, y, level) candidate = (1, candidate', curvature) \<Longrightarrow>
   \<exists>x y level hs gs response c0. gx_feature_candidate_sample_derivatives levels x y level = Inr (hs, gs, response)
     \<and> (\<forall>k < 3. abs_i32_vendor (gx_feature_candidate_solve_q12 hs gs ! k) < 0x800)
     \<and> settle_candidate c0 e profile (x, y, level) hs gs response (gx_feature_candidate_solve_q12 hs gs) = (1, candidate', curvature)
     \<and> cs_response c0 = cs_response candidate"
proof (induction "4 - i" arbitrary: i x y level candidate rule: less_induct)
  case less
  note unfold = less.prems [unfolded refine_loop.simps [of levels e profile i x y level candidate]]
  have valid: "validate_level_maps levels level x y" using unfold by (cases "validate_level_maps levels level x y") simp_all
  obtain hs gs response where sample: "gx_feature_candidate_sample_derivatives levels x y level = Inr (hs, gs, response)"
    using unfold valid by (cases "gx_feature_candidate_sample_derivatives levels x y level") auto
  define offsets where "offsets = gx_feature_candidate_solve_q12 hs gs"
  define small where "small \<longleftrightarrow> abs_i32_vendor (offsets ! 0) < 0x800 \<and> abs_i32_vendor (offsets ! 1) < 0x800
    \<and> abs_i32_vendor (offsets ! 2) < 0x800"
  show ?case
  proof (cases small)
    case True
    then have "\<forall>k < 3. abs_i32_vendor (offsets ! k) < 0x800" by (auto simp: small_def less_Suc_eq numeral_3_eq_3 numeral_2_eq_2)
    moreover have "settle_candidate candidate e profile (x, y, level) hs gs response offsets = (1, candidate', curvature)"
      using unfold valid sample True by (simp add: Let_def small_def offsets_def)
    ultimately show ?thesis using sample unfolding offsets_def by blast
  next
    case False
    obtain m l sp where p: "profile_limits profile = (m, l, sp)" by (rule prod_cases3)
    let ?x = "x + round_q12_to_integer_vendor (offsets ! 0)" and ?y = "y + round_q12_to_integer_vendor (offsets ! 1)"
      and ?l = "level + round_q12_to_integer_vendor (offsets ! 2)"
    have "i < 4 \<and> refine_loop levels e profile (i + 1) (?x, ?y, ?l) (candidate\<lparr>cs_x := ?x, cs_y := ?y, cs_level := ?l\<rparr>)
        = (1, candidate', curvature)"
      using unfold valid sample False p unfolding Let_def offsets_def [symmetric] small_def
      by (auto simp: offsets_def [symmetric] split: if_splits)
    then show ?thesis using less.hyps [of "i + 1" ?x ?y ?l "candidate\<lparr>cs_x := ?x, cs_y := ?y, cs_level := ?l\<rparr>"]
      by (metis cs_response_kept diff_less_mono2 less_add_one)
  qed
qed

lemma offset_fraction:
  assumes "\<bar>v\<bar> < 0x800" and "0 \<le> x" "x \<le> 126"
  shows "i16 (arithmetic_shift_right_i64 (x * 0x1000 + v) 4) = 256 * x + v div 16"
proof -
  have "(x * 0x1000 + v) div 2 ^ 4 = 256 * x + v div 16" by (simp add: mult.commute)
  moreover have "- 128 \<le> v div 16" "v div 16 \<le> 128" using assms(1) by linarith+
  ultimately show ?thesis using assms(2,3) by (simp add: shift_right64_div i16_exact)
qed

lemma strength_small:
  assumes "list_all (\<lambda>v. \<bar>v\<bar> \<le> 0x7fff) gs" "length gs = 3" and "\<And>k. k < 3 \<Longrightarrow> \<bar>offsets ! k\<bar> < 0x800" and "\<bar>response\<bar> \<le> 2 ^ 15"
  shows "interpolated_response profile response (gs ! 0 * offsets ! 0 + gs ! 2 * offsets ! 2 + gs ! 1 * offsets ! 1)
      = \<bar>response * (if profile_in_set profile GX_PROFILE_SET_ALL then 0x2000 else 0x4000)
          + (gs ! 0 * offsets ! 0 + gs ! 1 * offsets ! 1 + gs ! 2 * offsets ! 2)\<bar>
    \<and> interpolated_response profile response (gs ! 0 * offsets ! 0 + gs ! 2 * offsets ! 2 + gs ! 1 * offsets ! 1) < 2 ^ 30"
proof -
  have product: "\<bar>gs ! k * offsets ! k\<bar> \<le> 0x7fff * 0x800" if "k < 3" for k
  proof -
    have "\<bar>gs ! k\<bar> \<le> 0x7fff" "\<bar>offsets ! k\<bar> \<le> 0x800"
      using assms(1,2) assms(3) [OF that] that by (auto simp: list_all_length)
    then show ?thesis unfolding abs_mult by (intro mult_mono) auto
  qed
  have "interpolated_response profile response (gs ! 0 * offsets ! 0 + gs ! 2 * offsets ! 2 + gs ! 1 * offsets ! 1) < 2 ^ 30"
    using product [of 0] product [of 1] product [of 2] assms(4)
    by (auto simp: interpolated_response_def Let_def abs_le_iff)
  then show ?thesis by (auto simp: interpolated_response_def Let_def abs_if algebra_simps)
qed

lemma settled:
  assumes "settle_candidate c0 e profile (x, y, level) hs gs response offsets = (1, c', curvature)"
  shows "cs_x c' = x \<and> cs_y c' = y \<and> cs_level c' = level
    \<and> cs_x_q8 c' = i16 (arithmetic_shift_right_i64 (x * 0x1000 + offsets ! 0) 4)
    \<and> cs_y_q8 c' = i16 (arithmetic_shift_right_i64 (y * 0x1000 + offsets ! 1) 4)
    \<and> GX_RESPONSE_MIN \<le> interpolated_response profile response
        (gs ! 0 * offsets ! 0 + gs ! 2 * offsets ! 2 + gs ! 1 * offsets ! 1)
    \<and> cs_response c' = (if profile = 9 \<or> profile = 18 then cs_response c0 else i32 (drop_bit 12 (interpolated_response profile response
        (gs ! 0 * offsets ! 0 + gs ! 2 * offsets ! 2 + gs ! 1 * offsets ! 1))))
    \<and> \<not> edge_like profile e (hs ! 1 + hs ! 0) (hs ! 1 * hs ! 0 - hs ! 3 * hs ! 3)
    \<and> curvature = Some (i32 (trunc_div ((hs ! 1 + hs ! 0) * (hs ! 1 + hs ! 0) * 0x400) (hs ! 1 * hs ! 0 - hs ! 3 * hs ! 3)))"
  using assms
  by (auto simp: settle_candidate_def profile_limits_def Let_def not_less split: prod.splits if_splits)

lemma edge_exact:
  assumes "\<not> edge_like profile e t d"
  shows "1 \<le> d \<and> (\<not> profile_in_set profile GX_PROFILE_SET_ALL \<and> 0 < e \<and> e \<le> 1000 \<and> d \<le> 2 ^ 31 \<and> \<bar>t\<bar> \<le> 2 ^ 16
    \<longrightarrow> e * t * t < d * (e + 1) * (e + 1))"
proof -
  have d: "1 \<le> d" using assms by (auto simp: edge_like_def Let_def split: if_splits)
  have "e * t * t < d * (e + 1) * (e + 1)"
    if p: "\<not> profile_in_set profile GX_PROFILE_SET_ALL" and e: "0 < e" "e \<le> 1000" and "d \<le> 2 ^ 31" "\<bar>t\<bar> \<le> 2 ^ 16"
  proof -
    have m1: "d * (e + 1) \<le> 2 ^ 31 * 1001" using e d that(4) by (intro mult_mono) auto
    then have m2: "d * (e + 1) * (e + 1) \<le> 2 ^ 31 * 1001 * 1001" using e d by (intro mult_mono [OF m1]) auto
    have n1: "\<bar>e * t\<bar> \<le> 1000 * 2 ^ 16" unfolding abs_mult using e that(5) by (intro mult_mono) auto
    have n2: "\<bar>e * t * t\<bar> \<le> 1000 * 2 ^ 16 * 2 ^ 16" unfolding abs_mult [of "e * t"] using that(5) by (intro mult_mono [OF n1]) auto
    have "0 \<le> d * (e + 1)" "0 \<le> d * (e + 1) * (e + 1)" using e d by simp_all
    then have "i64 (d * (e + 1)) = d * (e + 1)" "i64 (d * (e + 1) * (e + 1)) = d * (e + 1) * (e + 1)"
      "i64 (e * t) = e * t" "i64 (e * t * t) = e * t * t" "i32 (e + 1) = e + 1"
      using m1 m2 n1 n2 e by (simp_all add: i64_exact i32_exact)
    then show ?thesis using assms p d by (simp add: edge_like_def Let_def)
  qed
  then show ?thesis using d by blast
qed

lemma curvature_bound:
  assumes "0 < e" "e \<le> 1000" and "0 < d" and "e * t * t < d * (e + 1) * (e + 1)"
  shows "t * t * 0x400 div d * e \<le> 0x400 * (e + 1) * (e + 1) \<and> i32 (t * t * 0x400 div d) = t * t * 0x400 div d"
proof -
  define q where "q = t * t * 0x400 div d"
  have "0 \<le> t * t" by simp
  then have q0: "0 \<le> q" using assms(3) by (simp add: q_def pos_imp_zdiv_nonneg_iff)
  have "q * d \<le> t * t * 0x400" unfolding q_def by (simp add: assms(3) minus_mod_eq_div_mult [symmetric])
  then have "q * d * e \<le> t * t * 0x400 * e" using assms(1) by (intro mult_right_mono) auto
  also have "\<dots> \<le> 1024 * (d * (e + 1) * (e + 1))" using assms(4) by (simp add: algebra_simps)
  finally have "d * (q * e) \<le> d * (1024 * (e + 1) * (e + 1))" by (simp add: algebra_simps)
  then have bound: "q * e \<le> 1024 * (e + 1) * (e + 1)" using assms(3) by (simp only: mult_le_cancel_left_pos)
  have "q \<le> q * e" using q0 assms(1) by (simp add: mult_le_cancel_left1)
  also have "\<dots> \<le> 1024 * ((e + 1) * (e + 1))" using bound by (simp only: mult.assoc)
  also have "\<dots> \<le> 1024 * (1001 * 1001)" using assms(1,2) by (intro mult_left_mono mult_mono) auto
  finally have "i32 q = q" using q0 by (intro i32_exact) auto
  then show ?thesis using bound by (simp add: q_def)
qed

lemma refine_result:
  assumes "gx_feature_candidate_refine levels c e profile = (1, c', curvature)"
    and "lm_width (levels ! nat (cs_level c')) \<le> 128" "lm_height (levels ! nat (cs_level c')) \<le> 128"
  shows "1 \<le> cs_level c' \<and> nat (cs_level c' + 2) < length levels
    \<and> 1 \<le> cs_x c' \<and> cs_x c' < lm_width (levels ! nat (cs_level c')) - 1
    \<and> 1 \<le> cs_y c' \<and> cs_y c' < lm_height (levels ! nat (cs_level c')) - 1
    \<and> (\<exists>hs gs r. gx_feature_candidate_sample_derivatives levels (cs_x c') (cs_y c') (cs_level c') = Inr (hs, gs, r)
        \<and> (let offsets = gx_feature_candidate_solve_q12 hs gs; trace = hs ! 0 + hs ! 1;
               determinant = hs ! 0 * hs ! 1 - hs ! 3 * hs ! 3;
               strength = \<bar>r * (if profile_in_set profile GX_PROFILE_SET_ALL then 0x2000 else 0x4000)
                 + (gs ! 0 * offsets ! 0 + gs ! 1 * offsets ! 1 + gs ! 2 * offsets ! 2)\<bar>
           in list_all (\<lambda>v. \<bar>v\<bar> < 0x800) offsets
              \<and> cs_x_q8 c' = 256 * cs_x c' + offsets ! 0 div 16 \<and> cs_y_q8 c' = 256 * cs_y c' + offsets ! 1 div 16
              \<and> GX_RESPONSE_MIN \<le> strength
              \<and> cs_response c' = (if profile = 9 \<or> profile = 18 then cs_response c else strength div 0x1000)
              \<and> 1 \<le> determinant \<and> curvature = Some (i32 (trace * trace * 0x400 div determinant))
              \<and> (\<not> profile_in_set profile GX_PROFILE_SET_ALL \<and> 0 < e \<and> e \<le> 1000
                  \<longrightarrow> e * trace * trace < determinant * (e + 1) * (e + 1)
                    \<and> trace * trace * 0x400 div determinant * e \<le> 0x400 * (e + 1) * (e + 1)
                    \<and> curvature = Some (trace * trace * 0x400 div determinant))))"
proof -
  have "refine_loop levels e profile 0 (cs_x c, cs_y c, cs_level c) c = (1, c', curvature)"
    using assms(1) by (simp add: gx_feature_candidate_refine_def split: if_splits)
  from refine_loop_stops [OF this] obtain x y level hs gs response c0
    where sample: "gx_feature_candidate_sample_derivatives levels x y level = Inr (hs, gs, response)"
      and small: "\<And>k. k < 3 \<Longrightarrow> abs_i32_vendor (gx_feature_candidate_solve_q12 hs gs ! k) < 0x800"
      and settle: "settle_candidate c0 e profile (x, y, level) hs gs response (gx_feature_candidate_solve_q12 hs gs) = (1, c', curvature)"
      and c0: "cs_response c0 = cs_response c"
    by blast
  define offsets where "offsets = gx_feature_candidate_solve_q12 hs gs"
  define t d where "t = hs ! 0 + hs ! 1" and "d = hs ! 0 * hs ! 1 - hs ! 3 * hs ! 3"
  note b = sample_bounds [OF sample]
  have td: "hs ! 1 + hs ! 0 = t" "hs ! 1 * hs ! 0 - hs ! 3 * hs ! 3 = d" by (simp_all add: t_def d_def algebra_simps)
  note s = settled [OF settle, folded offsets_def, unfolded td]
  have hb: "\<And>k. k < 6 \<Longrightarrow> \<bar>hs ! k\<bar> \<le> 2 ^ 15" and gb: "\<And>k. k < 3 \<Longrightarrow> \<bar>gs ! k\<bar> \<le> 2 ^ 15"
    using b by (fastforce simp: list_all_length)+
  note sb = solve_bound [of hs gs, OF hb gb]
  from sb have ob: "\<bar>offsets ! k\<bar> \<le> 0x00ffffff" if "k < 3" for k using that by (simp add: offsets_def list_all_length)
  have os: "\<bar>offsets ! k\<bar> < 0x800" if "k < 3" for k
    using small [OF that, folded offsets_def] ob [OF that] by (auto simp: abs_i32_vendor_def i32_exact split: if_splits)
  have v: "\<not> level < 1" "\<not> length levels \<le> nat (level + 2)" "1 \<le> x" "x < lm_width (levels ! nat level) - 1"
    "1 \<le> y" "y < lm_height (levels ! nat level) - 1"
    using b by (simp_all add: validate_level_maps_def Let_def not_le)
  have dims: "x \<le> 126" "y \<le> 126" using assms(2,3) v s by simp_all
  have q: "cs_x_q8 c' = 256 * x + offsets ! 0 div 16" "cs_y_q8 c' = 256 * y + offsets ! 1 div 16"
    using s v offset_fraction [OF os [of 0] _ dims(1)] offset_fraction [OF os [of 1] _ dims(2)] by simp_all
  define str where "str = \<bar>response * (if profile_in_set profile GX_PROFILE_SET_ALL then 0x2000 else 0x4000)
    + (gs ! 0 * offsets ! 0 + gs ! 1 * offsets ! 1 + gs ! 2 * offsets ! 2)\<bar>"
  have str: "interpolated_response profile response (gs ! 0 * offsets ! 0 + gs ! 2 * offsets ! 2 + gs ! 1 * offsets ! 1) = str"
    "str < 2 ^ 30" "0 \<le> str"
    using strength_small [of gs offsets response profile] b os by (auto simp: str_def)
  have "0 \<le> str div 0x1000" "str div 0x1000 < 2 ^ 18" using str by simp_all
  then have resp: "GX_RESPONSE_MIN \<le> str" "cs_response c' = (if profile = 9 \<or> profile = 18 then cs_response c else str div 0x1000)"
    using s [unfolded str(1) drop_bit_eq_div] c0 by (simp_all add: i32_exact)
  have "\<bar>hs ! 0\<bar> \<le> 2 ^ 15" "\<bar>hs ! 1\<bar> \<le> 2 ^ 15" "\<bar>hs ! 3\<bar> \<le> 2 ^ 15" using hb by simp_all
  then have tb: "\<bar>t\<bar> \<le> 2 ^ 16" "d \<le> 2 ^ 31" using difference31 [of "hs ! 0" "hs ! 1" "hs ! 3" "hs ! 3"] by (simp_all add: t_def d_def)
  have edge: "\<not> edge_like profile e t d" using s by blast
  note ee = edge_exact [OF edge]
  have k: "curvature = Some (i32 (t * t * 0x400 div d))" using s by (simp add: trunc_div_def)
  have small_offsets: "list_all (\<lambda>v. \<bar>v\<bar> < 0x800) offsets" using os sb by (simp add: list_all_length offsets_def)
  have limit: "\<not> profile_in_set profile GX_PROFILE_SET_ALL \<and> 0 < e \<and> e \<le> 1000 \<longrightarrow> e * t * t < d * (e + 1) * (e + 1)
      \<and> t * t * 0x400 div d * e \<le> 0x400 * (e + 1) * (e + 1) \<and> curvature = Some (t * t * 0x400 div d)"
    using ee tb curvature_bound [of e d t] k by auto
  have at: "cs_x c' = x" "cs_y c' = y" "cs_level c' = level" using s by blast+
  have inside: "1 \<le> level" "nat (level + 2) < length levels" using v by auto
  show ?thesis unfolding at
    apply (intro conjI)
    apply (use inside v in \<open>blast+\<close>) [6]
    apply (rule exI [of _ hs], rule exI [of _ gs], rule exI [of _ response], rule conjI, rule sample)
    unfolding Let_def offsets_def [symmetric] t_def [symmetric] d_def [symmetric] str_def [symmetric]
    apply (use small_offsets q resp ee k limit in blast)
    done
qed

text \<open>
  C37: a refined candidate on levels of at most 128 by 128 pixels. The refinement ends after at most five
  samplings (by its definition). What it accepts lies inside its level with all four levels around it; its
  position is the pixel plus the solved offsets, each below half a pixel, in 256ths; the interpolated strength is at
  least the minimum and is the response, but for profiles 9 and 18, which keep the response of the extremum
  test. For every profile the determinant of the sampled second derivatives is positive and the curvature is
  their squared trace over it (of which the code keeps 32 bits); for a profile with the edge test
  and a threshold up to 1000 the ratio is below the edge limit and the curvature is exact.
\<close>

theorem refined_candidate:
  assumes "gx_feature_candidate_refine levels c e profile = (1, c', curvature)"
    and "lm_width (levels ! nat (cs_level c')) \<le> 128" "lm_height (levels ! nat (cs_level c')) \<le> 128"
  shows "1 \<le> cs_level c' \<and> nat (cs_level c' + 2) < length levels
    \<and> 1 \<le> cs_x c' \<and> cs_x c' < lm_width (levels ! nat (cs_level c')) - 1
    \<and> 1 \<le> cs_y c' \<and> cs_y c' < lm_height (levels ! nat (cs_level c')) - 1
    \<and> (\<exists>hs gs r. gx_feature_candidate_sample_derivatives levels (cs_x c') (cs_y c') (cs_level c') = Inr (hs, gs, r)
        \<and> (let offsets = gx_feature_candidate_solve_q12 hs gs; trace = hs ! 0 + hs ! 1;
               determinant = hs ! 0 * hs ! 1 - hs ! 3 * hs ! 3;
               strength = \<bar>r * (if profile_in_set profile GX_PROFILE_SET_ALL then 0x2000 else 0x4000)
                 + (gs ! 0 * offsets ! 0 + gs ! 1 * offsets ! 1 + gs ! 2 * offsets ! 2)\<bar>
           in list_all (\<lambda>v. \<bar>v\<bar> < 0x800) offsets
              \<and> cs_x_q8 c' = 256 * cs_x c' + offsets ! 0 div 16 \<and> cs_y_q8 c' = 256 * cs_y c' + offsets ! 1 div 16
              \<and> GX_RESPONSE_MIN \<le> strength
              \<and> cs_response c' = (if profile = 9 \<or> profile = 18 then cs_response c else strength div 0x1000)
              \<and> 1 \<le> determinant \<and> curvature = Some (i32 (trace * trace * 0x400 div determinant))
              \<and> (\<not> profile_in_set profile GX_PROFILE_SET_ALL \<and> 0 < e \<and> e \<le> 1000
                  \<longrightarrow> e * trace * trace < determinant * (e + 1) * (e + 1)
                    \<and> trace * trace * 0x400 div determinant * e \<le> 0x400 * (e + 1) * (e + 1)
                    \<and> curvature = Some (trace * trace * 0x400 div determinant))))"
  by (rule refine_result [OF assms])

definition peak_levels :: "gx_feature_u16_map list" where
  "peak_levels = map (\<lambda>(border, center). \<lparr>lm_width = 3, lm_height = 3, lm_pixels = (replicate 9 border)[4 := center]\<rparr>)
     [(0, 0), (2000, 2000), (4000, 5000), (6000, 7000)]"

definition peak_candidate :: gx_feature_candidate_state where
  "peak_candidate = \<lparr>cs_x = 1, cs_y = 1, cs_level = 1, cs_response = 3000, cs_x_q8 = 0, cs_y_q8 = 0, cs_scale_q16 = 0\<rparr>"

theorem refined_candidate_witness:
  "\<exists>c' hs gs r k. gx_feature_candidate_refine peak_levels peak_candidate 10 0 = (1, c', Some k)
     \<and> gx_feature_candidate_sample_derivatives peak_levels 1 (cs_y c') 1 = Inr (hs, gs, r)
     \<and> cs_x_q8 c' = 256 + gx_feature_candidate_solve_q12 hs gs ! 0 div 16 \<and> 1 \<le> hs ! 0 * hs ! 1 - hs ! 3 * hs ! 3
     \<and> k * 10 \<le> 0x400 * 11 * 11"
proof -
  obtain rc c' cu where run: "gx_feature_candidate_refine peak_levels peak_candidate 10 0 = (rc, c', cu)" by (rule prod_cases3)
  have "map_prod id (\<lambda>(c, _). (cs_x c, cs_level c)) (gx_feature_candidate_refine peak_levels peak_candidate 10 0) = (1, 1, 1)"
    by code_simp
  then have one: "rc = 1" "cs_x c' = 1" "cs_level c' = 1" by (simp_all add: run)
  have "lm_width (peak_levels ! nat 1) = 3" "lm_height (peak_levels ! nat 1) = 3" "\<not> profile_in_set 0 GX_PROFILE_SET_ALL"
    by code_simp+
  then show ?thesis using refined_candidate [OF run [unfolded one(1)]] run one by (auto simp: Let_def)
qed

section \<open>What the extremum test accepts\<close>

text \<open>The difference of two adjacent levels at an offset from a point.\<close>

definition level_difference :: "gx_feature_u16_map list \<Rightarrow> int \<Rightarrow> int \<Rightarrow> int \<Rightarrow> int \<Rightarrow> int \<Rightarrow> int" where
  "level_difference levels x y k dx dy =
     uint (pixel_near (levels ! nat (k + 1)) x y dx dy) - uint (pixel_near (levels ! nat k) x y dx dy)"

definition cube_around :: "int \<Rightarrow> (int \<times> int \<times> int) list" where
  "cube_around level = List.product [level - 1, level, level + 1] (List.product [- 1..1] [- 1..1])"

lemma center_difference:
  assumes "\<bar>uint a - uint b\<bar> < 2 ^ 15"
  shows "center_response_i16 a b = uint a - uint b"
proof -
  have "sint (of_int k :: u16) = k" if "\<bar>k\<bar> < 2 ^ 15" for k
    using that by (simp add: signed_of_int signed_take_bit_int_eq_self)
  from this [OF assms] show ?thesis by (simp add: center_response_i16_def)
qed

lemma gate_extrema:
  assumes "\<bar>level_difference levels x y level 0 0\<bar> < 2 ^ 15"
  shows "fst (gx_feature_candidate_extremum_gate levels x y level threshold) = 1 \<longleftrightarrow>
    validate_level_maps levels level x y
    \<and> (let d = level_difference levels x y level 0 0
       in threshold < \<bar>d\<bar> \<and> d \<noteq> 0
          \<and> list_all (\<lambda>(k, dy, dx). (if 0 < d then level_difference levels x y k dx dy \<le> d
              else d \<le> level_difference levels x y k dx dy)) (cube_around level))"
proof (cases "validate_level_maps levels level x y")
  case True
  define d where "d = level_difference levels x y level 0 0"
  define box where "box = (List.product [- 1..1] [- 1..1] :: (int \<times> int) list)"
  let ?D = "\<lambda>k dx dy. level_difference levels x y k dx dy"
  have valid: "\<not> level < 1" "\<not> length levels \<le> nat (level + 2)"
    and all: "\<And>k. - 1 \<le> k \<Longrightarrow> k \<le> 2 \<Longrightarrow> same_extent (levels ! nat (level + k)) (levels ! nat level)"
    and point: "\<not> (lm_width (levels ! nat level) < 3 \<or> lm_height (levels ! nat level) < 3 \<or> x < 1 \<or> y < 1
      \<or> x \<ge> lm_width (levels ! nat level) - 1 \<or> y \<ge> lm_height (levels ! nat level) - 1)"
    using True by (simp_all add: validate_level_maps_def Let_def list_all_iff)
  have extents: "same_extent (levels ! nat (level - 1)) (levels ! nat level)" "same_extent (levels ! nat (level + 1)) (levels ! nat level)"
      "same_extent (levels ! nat (level + 2)) (levels ! nat level)" using all [of "- 1"] all [of 1] all [of 2] by simp_all
  have response: "center_response_i16 (pixel_near (levels ! nat (level + 1)) x y 0 0) (pixel_near (levels ! nat level) x y 0 0) = d"
    using center_difference assms by (simp add: d_def level_difference_def)
  have diffs: "signed_difference_u16 (pixel_near (levels ! nat (level + 1)) x y dx dy) (pixel_near (levels ! nat level) x y dx dy) = ?D level dx dy"
    "signed_difference_u16 (pixel_near (levels ! nat (level + 2)) x y dx dy) (pixel_near (levels ! nat (level + 1)) x y dx dy) = ?D (level + 1) dx dy"
    "signed_difference_u16 (pixel_near (levels ! nat level) x y dx dy) (pixel_near (levels ! nat (level - 1)) x y dx dy) = ?D (level - 1) dx dy"
    for dx dy by (simp_all add: signed_difference_u16_def level_difference_def add.assoc)
  have not_beyond: "d \<noteq> 0 \<Longrightarrow> \<not> beyond d v \<longleftrightarrow> (if 0 < d then v \<le> d else d \<le> v)" for v
    by (auto simp: beyond_def)
  have cube: "list_all P (cube_around level) \<longleftrightarrow> (\<forall>dy dx. (dy, dx) \<in> set box \<longrightarrow> P (level - 1, dy, dx) \<and> P (level, dy, dx) \<and> P (level + 1, dy, dx))" for P
    by (auto simp: cube_around_def box_def list_all_iff)
  define found where "found \<longleftrightarrow> (\<exists>(dy, dx) \<in> set box. (dx \<noteq> 0 \<or> dy \<noteq> 0) \<and> beyond d (?D level dx dy)
      \<or> beyond d (?D (level + 1) dx dy) \<or> beyond d (?D (level - 1) dx dy))"
  have "\<not> beyond d (?D level 0 0)" by (simp add: d_def beyond_def)
  then have not_found: "\<not> found \<longleftrightarrow> (\<forall>dy dx. (dy, dx) \<in> set box \<longrightarrow> \<not> beyond d (?D (level - 1) dx dy)
      \<and> \<not> beyond d (?D level dx dy) \<and> \<not> beyond d (?D (level + 1) dx dy))"
    unfolding found_def by auto
  have "fst (gx_feature_candidate_extremum_gate levels x y level threshold) = 1 \<longleftrightarrow> threshold < \<bar>d\<bar> \<and> d \<noteq> 0 \<and> \<not> found"
    using valid extents point
    unfolding gx_feature_candidate_extremum_gate_def Let_def response diffs box_def [symmetric] found_def [symmetric]
    by (simp add: not_le)
  also have "\<dots> \<longleftrightarrow> threshold < \<bar>d\<bar> \<and> d \<noteq> 0
      \<and> list_all (\<lambda>(k, dy, dx). (if 0 < d then ?D k dx dy \<le> d else d \<le> ?D k dx dy)) (cube_around level)"
    unfolding cube not_found by (cases "d = 0") (simp_all add: not_beyond)
  finally show ?thesis using True by (simp add: d_def [symmetric] Let_def)
next
  case False
  let ?m = "\<lambda>k. levels ! nat (level + k)"
  let ?bad = "lm_width (?m 0) < 3 \<or> lm_height (?m 0) < 3 \<or> \<not> same_extent (?m (- 1)) (?m 0) \<or> \<not> same_extent (?m 1) (?m 0)
    \<or> \<not> same_extent (?m 2) (?m 0) \<or> x < 1 \<or> y < 1 \<or> x \<ge> lm_width (?m 0) - 1 \<or> y \<ge> lm_height (?m 0) - 1"
  have "[- 1..2 :: int] = [- 1, 0, 1, 2]" by code_simp
  then have "level < 1 \<or> nat (level + 2) \<ge> length levels \<or> ?bad"
    using False unfolding validate_level_maps_def Let_def by (simp only: list.pred_inject) (auto simp: same_extent_def)
  then have "gx_feature_candidate_extremum_gate levels x y level threshold = (- 1, None)"
  proof (elim disjE [of _ "_ \<or> ?bad"] disjE [of _ ?bad])
    assume bad: ?bad
    show ?thesis
      using bad unfolding gx_feature_candidate_extremum_gate_def Let_def by (simp only: add_0_right diff_conv_add_uminus if_True) simp
  qed (simp_all add: gx_feature_candidate_extremum_gate_def)
  then show ?thesis using False by simp
qed

text \<open>
  C38: the extremum test. When the difference of the two middle levels at the point fits in 16 bits (the code
  wraps it there, but not at the neighbours), the test accepts exactly the points inside the levels where
  the absolute difference is above the threshold and no difference in the 3 by 3 by 3 cube of positions and
  levels around is larger (smaller, for a negative difference).
\<close>

theorem gate_accepts_extrema:
  assumes "\<bar>level_difference levels x y level 0 0\<bar> < 2 ^ 15"
  shows "fst (gx_feature_candidate_extremum_gate levels x y level threshold) = 1 \<longleftrightarrow>
    validate_level_maps levels level x y
    \<and> (let d = level_difference levels x y level 0 0
       in threshold < \<bar>d\<bar> \<and> d \<noteq> 0
          \<and> list_all (\<lambda>(k, dy, dx). (if 0 < d then level_difference levels x y k dx dy \<le> d
              else d \<le> level_difference levels x y k dx dy)) (cube_around level))"
  by (rule gate_extrema [OF assms])

theorem gate_accepts_extrema_witness:
  "level_difference peak_levels 1 1 1 0 0 = 3000 \<and> validate_level_maps peak_levels 1 1 1
   \<and> list_all (\<lambda>(k, dy, dx). level_difference peak_levels 1 1 k dx dy \<le> 3000) (cube_around 1)"
proof -
  have "level_difference peak_levels 1 1 1 0 0 = 3000" by code_simp
  moreover have "fst (gx_feature_candidate_extremum_gate peak_levels 1 1 1 328) = 1" by code_simp
  ultimately show ?thesis using gate_accepts_extrema [of peak_levels 1 1 1 328] by (simp add: Let_def)
qed

end
