(* ===== verification/Orientation.thy ===== *)
theory Orientation
  imports Candidate
begin

text \<open>
  Orientation of candidates (\<open>src/gx_feature_orientation.c\<close>): a weighted histogram of the gradient directions around a
  candidate, its smoothed peak, and the record that is appended for a peak. A record array is the list of its
  60-byte records, the rank pairs and the six metadata words likewise. \<open>stack\<close> is what the histogram array holds
  before it is written.
\<close>

section \<open>Scale and weights\<close>

definition GX_FEATURE_ORIENTATION_BINS :: nat where "GX_FEATURE_ORIENTATION_BINS = 36"
definition GX_ANGLE_PERIOD :: int where "GX_ANGLE_PERIOD = 0x6488"
definition GX_ANGLE_HALF :: int where "GX_ANGLE_HALF = 0x3244"
definition GX_ORIENTATION_FINE_PERIOD :: int where "GX_ORIENTATION_FINE_PERIOD = 0x4800"

record 'p gx_feature_map_descriptor =
  fm_width :: int
  fm_height :: int
  fm_pixels :: "'p list"

definition wrap_mul_i32 :: "int \<Rightarrow> int \<Rightarrow> int" where "wrap_mul_i32 a b = i32 (a * b)"

definition radius_from_scale :: "int \<Rightarrow> int" where
  "radius_from_scale scale_q16 =
     (let quarter = arithmetic_shift_right_i32 (wrap_mul_i32 scale_q16 18) 2; magnitude = \<bar>quarter\<bar>;
          rounded = drop_bit 16 magnitude + (if magnitude AND 0x8000 \<noteq> 0 then 1 else 0)
      in if quarter < 0 then - rounded else rounded)"

definition gaussian_coefficient_from_scale :: "int \<Rightarrow> u32" where
  "gaussian_coefficient_from_scale scale_q16 =
     (let sigma = arithmetic_shift_right_i32 (wrap_mul_i32 scale_q16 6) 2; denominator = sigma * sigma
      in if denominator = 0 then 0 else of_int (0x800000000000 div denominator))"

definition gaussian_value :: "u32 \<Rightarrow> nat \<Rightarrow> nat \<Rightarrow> u32" where
  "gaussian_value coefficient row column =
     (let scaled = of_nat (row * row + column * column) * coefficient :: u32
      in if scaled < 0x6ee76
         then
           let shifted = drop_bit 8 scaled; square = shifted * shifted; polynomial = drop_bit 8 square;
               term_a = drop_bit 8 (scaled div 5 + 0x10000); term_b = drop_bit 8 (scaled div 6 + 0x8000);
               polynomial = (drop_bit 8 (polynomial * polynomial) * term_a) div 0xc00 + 0x200
                            + drop_bit 15 (term_b * square) + drop_bit 7 scaled
           in (drop_bit 1 polynomial + 0x40000) div polynomial
         else 0)"

text \<open>The upper triangle is computed and mirrored into the lower one.\<close>

definition gx_feature_gaussian_weights :: "u32 list \<Rightarrow> int \<Rightarrow> u32 \<Rightarrow> u32 list" where
  "gx_feature_gaussian_weights weights side coefficient =
     (if side \<le> 0 then weights
      else mem_write weights 0 (raster (nat side) (nat side) (\<lambda>column row. gaussian_value coefficient (min row column) (max row column))))"

section \<open>The orientation histogram\<close>

text \<open>
  The bin of an angle is negative for angles above \<open>GX_ANGLE_HALF\<close> by more than a twelfth of a turn; the code then
  writes outside the histogram, which leaves the 36 bins as they are.
\<close>

definition c_rem :: "int \<Rightarrow> int \<Rightarrow> int" where "c_rem a d = a - d * trunc_div a d"

definition orientation_bin :: "int \<Rightarrow> int" where
  "orientation_bin angle =
     (let bin = trunc_div (angle * - 36 + 0x743d4) GX_ANGLE_PERIOD
      in if bin \<ge> int GX_FEATURE_ORIENTATION_BINS then 0 else bin)"

definition add_vote :: "int \<Rightarrow> u32 \<Rightarrow> u32 list \<Rightarrow> u32 list" where
  "add_vote bin weighted raw = (if bin < 0 then raw else raw[nat bin := raw ! nat bin + weighted])"

definition histogram_pixel ::
    "int gx_feature_map_descriptor \<Rightarrow> int gx_feature_map_descriptor \<Rightarrow> u32 list \<Rightarrow> nat \<Rightarrow> int \<Rightarrow> int \<Rightarrow> bool \<Rightarrow>
     u32 list \<Rightarrow> int \<times> int \<Rightarrow> u32 list" where
  "histogram_pixel orientation magnitude weights side x y duplicate_opposite raw d =
     (let (dy, dx) = d;
          index = nat ((y + dy) * fm_width magnitude + (x + dx));
          bin = orientation_bin (fm_pixels orientation ! index);
          weight = weights ! (nat \<bar>dy\<bar> * side + nat \<bar>dx\<bar>);
          weighted = drop_bit 8 (of_int (fm_pixels magnitude ! index) * weight);
          raw = add_vote bin weighted raw
      in if duplicate_opposite then add_vote (c_rem (bin + 18) 36) weighted raw else raw)"

definition smoothed_bin :: "u32 list \<Rightarrow> nat \<Rightarrow> u32" where
  "smoothed_bin raw bin =
     drop_bit 4 (raw ! ((bin + 34) mod 36) + raw ! ((bin + 35) mod 36) * 4 + raw ! bin * 6
                 + raw ! ((bin + 1) mod 36) * 4 + raw ! ((bin + 2) mod 36))"

definition maximum_step :: "u32 list \<Rightarrow> u32 \<times> nat \<Rightarrow> nat \<Rightarrow> u32 \<times> nat" where
  "maximum_step histogram st bin = (if fst st < histogram ! bin then (histogram ! bin, bin) else st)"

text \<open>The result: the maximum, the histogram, and the peak bin, which the code only stores for the opposite mode.\<close>

definition gx_feature_orientation_histogram ::
    "int \<Rightarrow> int \<Rightarrow> int \<Rightarrow> int gx_feature_map_descriptor \<Rightarrow> int gx_feature_map_descriptor \<Rightarrow> u32 list \<Rightarrow> int \<Rightarrow> bool \<Rightarrow>
     u32 \<times> u32 list \<times> int" where
  "gx_feature_orientation_histogram x y scale_q16 orientation magnitude histogram peak_bin duplicate_opposite =
     (if fm_width magnitude \<le> 2 \<or> fm_height magnitude \<le> 2 \<or> fm_width orientation \<noteq> fm_width magnitude
         \<or> fm_height orientation \<noteq> fm_height magnitude then (0, histogram, peak_bin)
      else
        let radius = radius_from_scale scale_q16;
            radius = (if radius < 0 then - radius else radius);
            radius = (if radius > 32 then 32 else radius);
            side = radius + 1;
            weights = gx_feature_gaussian_weights (replicate (33 * 33) 0) side (gaussian_coefficient_from_scale scale_q16);
            min_y = max (- radius) (1 - y); max_y = min radius (fm_height magnitude - y - 2);
            min_x = max (- radius) (1 - x); max_x = min radius (fm_width magnitude - x - 2);
            raw = foldl (histogram_pixel orientation magnitude weights (nat side) x y duplicate_opposite)
                    (replicate GX_FEATURE_ORIENTATION_BINS 0) (List.product [min_y..max_y] [min_x..max_x]);
            histogram = map (smoothed_bin raw) [0..<GX_FEATURE_ORIENTATION_BINS];
            (maximum, index) = foldl (maximum_step histogram) (histogram ! 0, 0) [1..<GX_FEATURE_ORIENTATION_BINS]
        in (maximum, histogram, if duplicate_opposite then int index + 18 else peak_bin))"

section \<open>Appending records\<close>

function angle_up :: "int \<Rightarrow> int" where
  "angle_up f = (if f < 0 then angle_up (f + GX_ORIENTATION_FINE_PERIOD) else f)"
  by pat_completeness auto
termination by (relation "measure (\<lambda>f. nat (- f))") (auto simp: GX_ORIENTATION_FINE_PERIOD_def)

function angle_down :: "int \<Rightarrow> int" where
  "angle_down f = (if f > GX_ORIENTATION_FINE_PERIOD - 1 then angle_down (f - GX_ORIENTATION_FINE_PERIOD) else f)"
  by pat_completeness auto
termination by (relation "measure nat") (auto simp: GX_ORIENTATION_FINE_PERIOD_def)

declare angle_up.simps [simp del] angle_down.simps [simp del]

definition record_angle :: "bool \<Rightarrow> u32 list \<Rightarrow> nat \<Rightarrow> int" where
  "record_angle special histogram bin =
     (let current = uint (histogram ! bin);
          previous = uint (histogram ! (if bin = 0 then 35 else bin - 1));
          nxt = uint (histogram ! ((bin + 1) mod 36));
          denominator = previous * 2 - current * 4 + nxt * 2;
          fine_angle = int bin * 0x200;
          fine_angle = (if denominator \<noteq> 0
                        then fine_angle + i32 (c_div ((previous - nxt) * 0x200 - arithmetic_shift_right_i64 denominator 1) denominator)
                        else fine_angle);
          fine_angle = angle_down (angle_up fine_angle);
          angle = i16 (arithmetic_shift_right_i32 (trunc_div (fine_angle * GX_ANGLE_PERIOD) 36) 9);
          angle = i16 (angle - GX_ANGLE_HALF)
      in if \<not> special \<and> angle < 0 then i16 (angle + GX_ANGLE_HALF) else angle)"

record record_arrays =
  ra_records :: "u8 list list"
  ra_rank_pairs :: "(int \<times> int) list"
  ra_metadata :: "int list list"
  ra_count :: nat

definition bytes16 :: "int \<Rightarrow> u8 list" where
  "bytes16 v = (let w = of_int v :: u16 in [lo8 w, hi8 w])"

definition write_record :: "u8 list \<Rightarrow> bool \<Rightarrow> gx_feature_candidate_state \<Rightarrow> int \<Rightarrow> int \<Rightarrow> u8 list" where
  "write_record r bright candidate angle signed_metric =
     mem_write (mem_write (mem_write (mem_write (mem_write r 0 (bytes16 (if bright then 1 else 0)))
       2 (bytes16 (cs_x_q8 candidate))) 4 (bytes16 (cs_y_q8 candidate))) 6 (bytes16 angle)) 8 (bytes32 (of_int signed_metric))"

definition append_record ::
    "gx_feature_candidate_state \<Rightarrow> bool \<Rightarrow> int \<Rightarrow> u32 \<Rightarrow> u32 \<Rightarrow> record_arrays \<Rightarrow> record_arrays" where
  "append_record candidate bright angle histogram_max current arrays =
     (let count = ra_count arrays;
          response_abs = (if cs_response candidate < 1 then i32 (- cs_response candidate) else cs_response candidate);
          signed_metric = - response_abs;
          meta = ra_metadata arrays ! count;
          distinct = (if current \<noteq> histogram_max then 1 else 0);
          last_word = meta ! 5 - meta ! 5 mod 2 ^ 16 + distinct
      in arrays\<lparr>ra_records := (ra_records arrays)[count := write_record (ra_records arrays ! count) bright candidate angle signed_metric],
                ra_rank_pairs := (ra_rank_pairs arrays)[count := (signed_metric, int count)],
                ra_metadata := (ra_metadata arrays)[count := [cs_x candidate, cs_y candidate, cs_scale_q16 candidate,
                   sint histogram_max, sint current, last_word]],
                ra_count := count + 1\<rparr>)"

text \<open>The scan over the bins; it ends at a full array, and after the first record unless the profile is special.\<close>

fun append_loop ::
    "gx_feature_candidate_state \<Rightarrow> bool \<Rightarrow> bool \<Rightarrow> u32 list \<Rightarrow> u32 \<Rightarrow> u32 \<Rightarrow> nat \<Rightarrow> int \<Rightarrow> nat list \<Rightarrow> record_arrays \<Rightarrow> record_arrays" where
  "append_loop candidate bright special histogram histogram_max threshold peak_bin max_records [] arrays = arrays"
| "append_loop candidate bright special histogram histogram_max threshold peak_bin max_records (scan_bin # bins) arrays =
     (let bin = (if special then scan_bin else peak_bin);
          current = histogram ! bin;
          previous = histogram ! (if bin = 0 then 35 else bin - 1);
          nxt = histogram ! ((bin + 1) mod 36);
          accept = (\<not> special \<or> previous < current \<and> nxt < current \<and> threshold \<le> current)
      in if \<not> accept then append_loop candidate bright special histogram histogram_max threshold peak_bin max_records bins arrays
         else if int (ra_count arrays) \<ge> max_records then arrays
         else
           let arrays = append_record candidate bright (record_angle special histogram bin) histogram_max current arrays
           in if int (ra_count arrays) \<ge> max_records \<or> \<not> special then arrays
              else append_loop candidate bright special histogram histogram_max threshold peak_bin max_records bins arrays)"

definition center_sum :: "u8 gx_feature_map_descriptor \<Rightarrow> gx_feature_candidate_state \<Rightarrow> int \<Rightarrow> u32" where
  "center_sum gray candidate width =
     (let center = cs_y candidate * fm_width gray + cs_x candidate;
          gray_at = (\<lambda>d. ucast (fm_pixels gray ! nat (center + d)))
      in gray_at 0 + gray_at width + gray_at (- width) + gray_at (- 1) + gray_at 1)"

definition gx_feature_append_orientations ::
    "u32 list \<Rightarrow> u8 gx_feature_map_descriptor \<Rightarrow> gx_feature_candidate_state \<Rightarrow> record_arrays \<Rightarrow>
     int gx_feature_map_descriptor \<Rightarrow> int gx_feature_map_descriptor \<Rightarrow> int \<Rightarrow> nat \<Rightarrow> record_arrays" where
  "gx_feature_append_orientations stack gray candidate arrays magnitude orientation max_records profile =
     (if max_records \<le> 0 \<or> fm_width magnitude \<le> 0 then arrays
      else
        let special = (profile = 9 \<or> profile = 18);
            (histogram_max, histogram, peak_bin) =
              gx_feature_orientation_histogram (cs_x candidate) (cs_y candidate) (cs_scale_q16 candidate)
                orientation magnitude stack 0 (\<not> special);
            threshold = (if special then ucast (drop_bit 16 (ucast histogram_max * 0xcccd + 0x8000 :: u64)) else 0)
        in append_loop candidate (center_sum gray candidate (fm_width magnitude) > 0x27f) special histogram histogram_max threshold (nat peak_bin) max_records [0..<36] arrays)"

section \<open>The peak of the histogram\<close>

text \<open>For angles of the response map, the bin is that of the nearest direction (36 and 0 are one bin).\<close>

lemma bin_nearest:
  assumes "\<bar>a\<bar> \<le> GX_ANGLE_HALF"
  shows "\<exists>turn \<in> {0, 36}. \<bar>36 * a - (18 - orientation_bin a - turn) * GX_ANGLE_PERIOD\<bar> \<le> GX_ANGLE_HALF"
proof -
  define v where "v = a * - 36 + 0x743d4"
  have v: "0 \<le> v" "v < 37 * 25736" using assms by (simp_all add: v_def GX_ANGLE_HALF_def)
  define k where "k = v div 25736"
  have k: "0 \<le> k" "k \<le> 36" "25736 * k \<le> v" "v < 25736 * k + 25736" using v by (simp_all add: k_def)
  have "orientation_bin a = (if k \<ge> 36 then 0 else k)"
    using v(1) unfolding orientation_bin_def v_def [symmetric]
    by (simp add: trunc_div_def k_def Let_def GX_ANGLE_PERIOD_def GX_FEATURE_ORIENTATION_BINS_def)
  then show ?thesis using k by (cases "k = 36") (auto simp: v_def GX_ANGLE_HALF_def GX_ANGLE_PERIOD_def abs_le_iff)
qed

text \<open>No angle up to 13940 has a negative bin; the angles of the response map are at most 12868.\<close>

definition GX_ANGLE_LIMIT :: int where "GX_ANGLE_LIMIT = 13940"

lemma orientation_bin_range:
  assumes "a \<le> GX_ANGLE_LIMIT"
  shows "\<exists>b < 36. orientation_bin a = int b"
proof -
  define k where "k = trunc_div (a * - 36 + 0x743d4) GX_ANGLE_PERIOD"
  have "0 \<le> k"
  proof (cases "a * - 36 + 0x743d4 < 0")
    case True
    then have "- (a * - 36 + 0x743d4) div 25736 = 0" using assms by (intro div_pos_pos_trivial) (simp_all add: GX_ANGLE_LIMIT_def)
    then show ?thesis using True by (simp add: k_def trunc_div_def GX_ANGLE_PERIOD_def)
  qed (simp add: k_def trunc_div_def GX_ANGLE_PERIOD_def pos_imp_zdiv_nonneg_iff)
  then show ?thesis
    unfolding orientation_bin_def k_def [symmetric] Let_def GX_FEATURE_ORIENTATION_BINS_def
    by (intro exI [of _ "if k \<ge> 36 then 0 else nat k"]) auto
qed

lemma opposite_bin: "b < 36 \<Longrightarrow> c_rem (int b + 18) 36 = int ((b + 18) mod 36)"
  by (simp add: c_rem_def trunc_div_def minus_mult_div_eq_mod zmod_int)

text \<open>With every vote counted for the opposite direction too, the histogram repeats itself after half a turn.\<close>

definition half_periodic :: "'a list \<Rightarrow> bool" where
  "half_periodic h \<longleftrightarrow> length h = 36 \<and> (\<forall>b < 18. h ! (b + 18) = h ! b)"

lemma half_turn: "b < 36 \<Longrightarrow> (b + 18) mod 36 = (if b < 18 then b + 18 else b - (18 :: nat))"
  by (cases "b < 18") (simp_all add: le_mod_geq)

lemma half_periodic_at:
  assumes "half_periodic h"
  shows "h ! ((n + 18) mod 36) = h ! (n mod 36)"
proof -
  have "(n + 18) mod 36 = (n mod 36 + 18) mod 36" by (simp add: mod_add_left_eq)
  also have "\<dots> = (if n mod 36 < 18 then n mod 36 + 18 else n mod 36 - 18)"
    by (rule half_turn) simp
  finally have m: "(n + 18) mod 36 = (if n mod 36 < 18 then n mod 36 + 18 else n mod 36 - 18)" .
  have rep: "\<And>b. b < 18 \<Longrightarrow> h ! (b + 18) = h ! b" using assms by (simp add: half_periodic_def)
  show ?thesis
  proof (cases "n mod 36 < 18")
    case False
    then show ?thesis using m rep [of "n mod 36 - 18"] mod_less_divisor [of 36 n] by simp
  qed (use m rep in simp)
qed

lemma add_both_periodic:
  assumes "half_periodic raw" and "b < 36"
  shows "half_periodic (raw[b := raw ! b + v, (b + 18) mod 36 := raw[b := raw ! b + v] ! ((b + 18) mod 36) + v])"
proof (cases "b < 18")
  case True
  then have "(b + 18) mod 36 = b + 18" by simp
  then show ?thesis using assms True by (auto simp: half_periodic_def nth_list_update)
next
  case False
  then obtain c where c: "b = c + 18" "c < 18" using assms(2) by (intro that [of "b - 18"]) auto
  have "(b + 18) mod 36 = c" using c by (simp add: mod_if)
  have len: "length raw = 36" and rep: "\<And>b. b < 18 \<Longrightarrow> raw ! (b + 18) = raw ! b" using assms by (simp_all add: half_periodic_def)
  show ?thesis unfolding half_periodic_def \<open>(b + 18) mod 36 = c\<close> c(1)
    using c(2) len rep by (simp add: nth_list_update)
qed

lemma foldl_keeps: "P s \<Longrightarrow> (\<And>s x. x \<in> set xs \<Longrightarrow> P s \<Longrightarrow> P (f s x)) \<Longrightarrow> P (foldl f s xs)"
  by (induction xs arbitrary: s) auto

lemma add_votes_periodic:
  assumes "half_periodic raw" and "a \<le> GX_ANGLE_LIMIT"
  shows "half_periodic (add_vote (c_rem (orientation_bin a + 18) 36) v (add_vote (orientation_bin a) v raw))"
proof -
  obtain b where "b < 36" "orientation_bin a = int b" using orientation_bin_range [OF assms(2)] by blast
  then show ?thesis using add_both_periodic [OF assms(1)] by (simp add: opposite_bin add_vote_def)
qed

text \<open>Both maps have the size of the magnitude, and no angle is beyond the limit.\<close>

definition angles_ok :: "int gx_feature_map_descriptor \<Rightarrow> int gx_feature_map_descriptor \<Rightarrow> bool" where
  "angles_ok orientation magnitude \<longleftrightarrow>
     2 < fm_width magnitude \<and> 2 < fm_height magnitude \<and> fm_width orientation = fm_width magnitude
     \<and> fm_height orientation = fm_height magnitude
     \<and> length (fm_pixels orientation) = nat (fm_width orientation * fm_height orientation)
     \<and> list_all (\<lambda>a. a \<le> GX_ANGLE_LIMIT) (fm_pixels orientation)"

lemma visited_angle:
  assumes "angles_ok orientation magnitude" and "1 \<le> v" "v \<le> fm_height magnitude - 2" "1 \<le> u" "u \<le> fm_width magnitude - 2"
  shows "fm_pixels orientation ! nat (v * fm_width magnitude + u) \<le> GX_ANGLE_LIMIT"
proof -
  let ?w = "fm_width magnitude" and ?h = "fm_height magnitude"
  have "(v + 1) * ?w \<le> ?h * ?w" using assms(2,3,4,5) by (intro mult_right_mono) auto
  then have "v * ?w + u < ?w * ?h" using assms(5) by (simp add: algebra_simps)
  moreover have "0 \<le> v * ?w + u" using assms(2,4,5) by simp
  ultimately have "nat (v * ?w + u) < length (fm_pixels orientation)"
    using assms(1) unfolding angles_ok_def by (simp add: nat_less_eq_zless)
  then show ?thesis using assms(1) by (simp add: angles_ok_def list_all_length)
qed

lemma histogram_pixel_periodic:
  assumes "half_periodic raw" and "angles_ok orientation magnitude"
    and "1 \<le> y + fst d" "y + fst d \<le> fm_height magnitude - 2" "1 \<le> x + snd d" "x + snd d \<le> fm_width magnitude - 2"
  shows "half_periodic (histogram_pixel orientation magnitude weights side x y True raw d)"
  using visited_angle [OF assms(2-6)] assms(1)
  by (cases d) (simp add: histogram_pixel_def Let_def add_votes_periodic)

lemma smoothed_periodic:
  assumes "half_periodic raw"
  shows "half_periodic (map (smoothed_bin raw) [0..<36])"
proof -
  note at = half_periodic_at [OF assms]
  have "smoothed_bin raw (b + 18) = smoothed_bin raw b" if "b < 18" for b
    using at [of "b + 34"] at [of "b + 35"] at [of b] at [of "b + 1"] at [of "b + 2"] that
    by (simp add: smoothed_bin_def add.commute add.left_commute)
  then show ?thesis by (simp add: half_periodic_def)
qed

lemma maximum_fold:
  "foldl (maximum_step h) (h ! 0, 0) [1..<Suc n] = (m, i) \<Longrightarrow>
   i \<le> n \<and> m = h ! i \<and> (\<forall>b \<le> n. h ! b \<le> m) \<and> (\<forall>b < i. h ! b < m)"
proof (induction n arbitrary: m i)
  case (Suc n)
  obtain m' i' where step: "foldl (maximum_step h) (h ! 0, 0) [1..<Suc n] = (m', i')" by (rule prod.exhaust)
  note ih = Suc.IH [OF step]
  have "(m, i) = maximum_step h (m', i') (Suc n)" using Suc.prems step by simp
  then show ?case using ih by (auto simp: maximum_step_def le_Suc_eq less_Suc_eq_le not_less intro: le_less_trans split: if_splits)
qed simp

lemma histogram_shape:
  assumes "angles_ok orientation magnitude"
  shows "\<exists>raw. (opposite \<longrightarrow> half_periodic raw)
    \<and> gx_feature_orientation_histogram x y scale_q16 orientation magnitude stack peak_bin opposite =
        (let histogram = map (smoothed_bin raw) [0..<36];
             (maximum, index) = foldl (maximum_step histogram) (histogram ! 0, 0) [1..<36]
         in (maximum, histogram, if opposite then int index + 18 else peak_bin))"
proof -
  have guard: "\<not> (fm_width magnitude \<le> 2 \<or> fm_height magnitude \<le> 2 \<or> fm_width orientation \<noteq> fm_width magnitude
      \<or> fm_height orientation \<noteq> fm_height magnitude)"
    using assms by (simp add: angles_ok_def)
  have periodic: "opposite \<longrightarrow> half_periodic (foldl (histogram_pixel orientation magnitude weights side x y opposite) (replicate 36 0)
      (List.product [max (- r) (1 - y)..min r (fm_height magnitude - y - 2)] [max (- r) (1 - x)..min r (fm_width magnitude - x - 2)]))"
    for weights side r
  proof
    assume opposite
    show "half_periodic (foldl (histogram_pixel orientation magnitude weights side x y opposite) (replicate 36 0)
      (List.product [max (- r) (1 - y)..min r (fm_height magnitude - y - 2)] [max (- r) (1 - x)..min r (fm_width magnitude - x - 2)]))"
      by (rule foldl_keeps)
        (use histogram_pixel_periodic [OF _ assms] \<open>opposite\<close> in \<open>auto simp: half_periodic_def [of "replicate 36 0"]\<close>)
  qed
  show ?thesis
    unfolding gx_feature_orientation_histogram_def Let_def GX_FEATURE_ORIENTATION_BINS_def if_not_P [OF guard]
    by (rule exI, rule conjI [OF periodic refl])
qed

lemma peak_of_histogram:
  assumes dims: "angles_ok orientation magnitude"
    and run: "gx_feature_orientation_histogram x y scale_q16 orientation magnitude stack peak_bin opposite = (maximum, histogram, bin)"
  shows "length histogram = 36 \<and> (\<forall>b < 36. histogram ! b \<le> maximum)
    \<and> (\<exists>i < 36. histogram ! i = maximum \<and> (\<forall>b < i. histogram ! b < maximum)
        \<and> (opposite \<longrightarrow> half_periodic histogram \<and> i < 18 \<and> bin = int i + 18))"
proof -
  obtain raw where periodic: "opposite \<longrightarrow> half_periodic raw"
    and shape: "(maximum, histogram, bin) =
        (let histogram = map (smoothed_bin raw) [0..<36];
             (maximum, index) = foldl (maximum_step histogram) (histogram ! 0, 0) [1..<36]
         in (maximum, histogram, if opposite then int index + 18 else peak_bin))"
    using histogram_shape [OF dims] run by metis
  obtain m i where fold: "foldl (maximum_step (map (smoothed_bin raw) [0..<36])) (map (smoothed_bin raw) [0..<36] ! 0, 0) [1..<Suc 35] = (m, i)"
    by (rule prod.exhaust)
  have h: "histogram = map (smoothed_bin raw) [0..<36]" "maximum = m" "bin = (if opposite then int i + 18 else peak_bin)"
    using shape fold by (simp_all add: Let_def del: upt_Suc)
  note max = maximum_fold [OF fold, folded h(1,2)]
  have low: "half_periodic histogram \<and> i < 18" if opposite
  proof -
    have half: "half_periodic histogram" using smoothed_periodic periodic that by (simp add: h(1))
    moreover have "i < 18"
    proof (rule ccontr)
      assume "\<not> i < 18"
      then have "histogram ! i = histogram ! (i - 18)" "histogram ! (i - 18) < maximum"
        using half max by (auto simp: half_periodic_def dest: spec [of _ "i - 18"])
      then show False using max by simp
    qed
    ultimately show ?thesis ..
  qed
  have "length histogram = 36" "i < 36" "\<forall>b < 36. histogram ! b \<le> maximum" using max by (auto simp: h(1))
  moreover have "histogram ! i = maximum \<and> (\<forall>b < i. histogram ! b < maximum)" using max by blast
  moreover have "opposite \<longrightarrow> half_periodic histogram \<and> i < 18 \<and> bin = int i + 18" using low h(3) by simp
  ultimately show ?thesis by blast
qed

section \<open>The record of an ordinary profile\<close>

text \<open>The refined direction, in 512ths of a bin.\<close>

definition refined_angle :: "int \<Rightarrow> int" where
  "refined_angle fine = fine * GX_ANGLE_PERIOD div GX_ORIENTATION_FINE_PERIOD mod GX_ANGLE_HALF"

lemma refined_quotient:
  fixes p c n :: int
  assumes "p \<le> c" "n \<le> c" and "p * 2 - c * 4 + n * 2 \<noteq> 0"
  shows "\<bar>c_div ((p - n) * 0x200 - arithmetic_shift_right_i64 (p * 2 - c * 4 + n * 2) 1) (p * 2 - c * 4 + n * 2)\<bar> \<le> 256"
proof -
  define e where "e = c * 2 - p - n"
  have e: "0 < e" "\<bar>p - n\<bar> \<le> e" "p * 2 - c * 4 + n * 2 = - 2 * e" using assms by (auto simp: e_def abs_le_iff)
  have shift: "arithmetic_shift_right_i64 (- 2 * e) 1 = - e" by (simp add: shift_right64_div)
  have "\<bar>(p - n) * 0x200 + e\<bar> \<le> 513 * e" using e by (auto simp: abs_le_iff)
  then have "\<bar>(p - n) * 0x200 + e\<bar> div (2 * e) \<le> 513 * e div (2 * e)" using e(1) by (intro zdiv_mono1) auto
  also have "\<dots> = 256" using e(1) by simp
  finally show ?thesis using e(1) unfolding e(3) shift by (simp add: c_div_abs abs_mult)
qed

lemma ordinary_angle:
  assumes "length histogram = 36" and bin: "18 \<le> bin" "bin < 36" and max: "\<forall>b < 36. histogram ! b \<le> histogram ! bin"
  shows "\<exists>fine. \<bar>fine - 512 * int bin\<bar> \<le> 256 \<and> record_angle False histogram bin = refined_angle fine"
proof -
  define p n c where "p = uint (histogram ! (if bin = 0 then 35 else bin - 1))" and "n = uint (histogram ! ((bin + 1) mod 36))"
    and "c = uint (histogram ! bin)"
  have "p \<le> c" "n \<le> c" using max bin by (auto simp: p_def n_def c_def word_le_def)
  define d where "d = p * 2 - c * 4 + n * 2"
  define q where "q = (if d \<noteq> 0 then c_div ((p - n) * 0x200 - arithmetic_shift_right_i64 d 1) d else 0)"
  have q: "\<bar>q\<bar> \<le> 256" using refined_quotient [OF \<open>p \<le> c\<close> \<open>n \<le> c\<close>] by (simp add: q_def d_def)
  define fine where "fine = int bin * 0x200 + q"
  have fine: "8960 \<le> fine" "fine \<le> 18176" using q bin by (simp_all add: fine_def abs_le_iff)
  have "(if d \<noteq> 0 then int bin * 0x200 + i32 (c_div ((p - n) * 0x200 - arithmetic_shift_right_i64 d 1) d) else int bin * 0x200) = fine"
    using q by (auto simp: fine_def q_def i32_exact abs_le_iff)
  moreover have "angle_down (angle_up fine) = fine"
    using fine by (simp add: angle_up.simps angle_down.simps GX_ORIENTATION_FINE_PERIOD_def)
  moreover have "arithmetic_shift_right_i32 (trunc_div (fine * GX_ANGLE_PERIOD) 36) 9 = fine * GX_ANGLE_PERIOD div GX_ORIENTATION_FINE_PERIOD"
    using fine by (simp add: shift_right_div trunc_div_def GX_ANGLE_PERIOD_def GX_ORIENTATION_FINE_PERIOD_def zdiv_zmult2_eq [symmetric])
  ultimately have angle: "record_angle False histogram bin = (let a = i16 (i16 (fine * GX_ANGLE_PERIOD div GX_ORIENTATION_FINE_PERIOD) - GX_ANGLE_HALF)
      in if a < 0 then i16 (a + GX_ANGLE_HALF) else a)"
    unfolding record_angle_def Let_def p_def [symmetric] n_def [symmetric] c_def [symmetric] d_def [symmetric] by simp
  define e where "e = fine * GX_ANGLE_PERIOD div GX_ORIENTATION_FINE_PERIOD"
  have e: "12510 \<le> e" "e \<le> 25378" using fine by (simp_all add: e_def GX_ANGLE_PERIOD_def GX_ORIENTATION_FINE_PERIOD_def)
  have "(if e - 12868 < 0 then e else e - 12868) = e mod 12868"
  proof (cases "e < 12868")
    case False
    then have "(e - 12868) mod 12868 = e - 12868" using e by (intro mod_pos_pos_trivial) auto
    then show ?thesis using False by simp
  qed (use e in \<open>simp add: mod_pos_pos_trivial\<close>)
  then have "record_angle False histogram bin = e mod GX_ANGLE_HALF"
    using e unfolding angle e_def [symmetric] Let_def GX_ANGLE_HALF_def by (simp add: i16_exact split: if_splits)
  then show ?thesis using q by (intro exI [of _ fine]) (simp add: fine_def refined_angle_def e_def)
qed

lemma append_ordinary:
  "append_loop candidate bright False histogram histogram_max threshold bin max_records [0..<36] arrays =
     (if int (ra_count arrays) \<ge> max_records then arrays
      else append_record candidate bright (record_angle False histogram bin) histogram_max (histogram ! bin) arrays)"
proof -
  have "[0..<36] = 0 # [1..<36 :: nat]" by (simp add: upt_rec)
  then show ?thesis by (simp del: upt_Suc)
qed

lemma ordinary_append:
  assumes dims: "angles_ok orientation magnitude"
    and profile: "profile \<noteq> 9" "profile \<noteq> 18" and room: "int (ra_count arrays) < max_records"
  shows "\<exists>maximum histogram bin fine.
      gx_feature_orientation_histogram (cs_x candidate) (cs_y candidate) (cs_scale_q16 candidate) orientation magnitude stack 0 True
        = (maximum, histogram, int bin)
      \<and> 18 \<le> bin \<and> bin < 36 \<and> histogram ! bin = maximum \<and> (\<forall>b < 36. histogram ! b \<le> maximum)
      \<and> \<bar>fine - 512 * int bin\<bar> \<le> 256
      \<and> gx_feature_append_orientations stack gray candidate arrays magnitude orientation max_records profile
          = append_record candidate (center_sum gray candidate (fm_width magnitude) > 0x27f) (refined_angle fine) maximum maximum arrays"
proof -
  obtain maximum histogram bin where run: "gx_feature_orientation_histogram (cs_x candidate) (cs_y candidate) (cs_scale_q16 candidate)
      orientation magnitude stack 0 True = (maximum, histogram, bin)"
    by (rule prod_cases3)
  from peak_of_histogram [OF dims run] obtain i where h: "length histogram = 36" "\<forall>b < 36. histogram ! b \<le> maximum"
    and i: "histogram ! i = maximum" "half_periodic histogram" "i < 18" "bin = int i + 18"
    by auto
  define k where "k = i + 18"
  have k: "bin = int k" "18 \<le> k" "k < 36" "histogram ! k = maximum" using i by (auto simp: k_def half_periodic_def)
  from ordinary_angle [OF h(1) k(2,3)] h(2) k(4) obtain fine where fine: "\<bar>fine - 512 * int k\<bar> \<le> 256"
      "record_angle False histogram k = refined_angle fine"
    by auto
  have "gx_feature_append_orientations stack gray candidate arrays magnitude orientation max_records profile
      = append_record candidate (center_sum gray candidate (fm_width magnitude) > 0x27f) (refined_angle fine) maximum maximum arrays"
    using room dims profile run k(1) fine(2) k(4)
    by (simp add: gx_feature_append_orientations_def Let_def append_ordinary angles_ok_def del: upt_Suc append_loop.simps)
  then show ?thesis using run k h(2) fine(1) by blast
qed

text \<open>
  C40: the record of an ordinary profile. The orientation histogram counts every vote for the opposite direction too,
  so it repeats itself after half a turn and its first maximum is in the lower half: the shifted peak bin the code
  uses as an index is always between 18 and 35 and a maximum. With room left exactly one record is appended, its
  angle being, modulo half a turn, that of a direction at most half a bin from the peak (so from 0 to 0x3243), and
  both stored strengths are the maximum. The angles of the picture must be at most 13940 (a larger one, which the
  response map never holds, has a negative bin and is counted outside the histogram).
\<close>

theorem ordinary_record:
  assumes "angles_ok orientation magnitude"
    and "profile \<noteq> 9" "profile \<noteq> 18" and "int (ra_count arrays) < max_records"
  shows "\<exists>maximum histogram bin fine.
      gx_feature_orientation_histogram (cs_x candidate) (cs_y candidate) (cs_scale_q16 candidate) orientation magnitude stack 0 True
        = (maximum, histogram, int bin)
      \<and> 18 \<le> bin \<and> bin < 36 \<and> histogram ! bin = maximum \<and> (\<forall>b < 36. histogram ! b \<le> maximum)
      \<and> \<bar>fine - 512 * int bin\<bar> \<le> 256
      \<and> gx_feature_append_orientations stack gray candidate arrays magnitude orientation max_records profile
          = append_record candidate (center_sum gray candidate (fm_width magnitude) > 0x27f) (refined_angle fine) maximum maximum arrays"
  by (rule ordinary_append [OF assms])

definition uniform_map :: "'p \<Rightarrow> 'p gx_feature_map_descriptor" where
  "uniform_map v = \<lparr>fm_width = 3, fm_height = 3, fm_pixels = replicate 9 v\<rparr>"

definition no_records :: record_arrays where
  "no_records = \<lparr>ra_records = replicate 2 (replicate 60 0), ra_rank_pairs = replicate 2 (0, 0),
     ra_metadata = replicate 2 (replicate 6 0), ra_count = 0\<rparr>"

definition middle_candidate :: gx_feature_candidate_state where
  "middle_candidate = \<lparr>cs_x = 1, cs_y = 1, cs_level = 1, cs_response = 6000, cs_x_q8 = 256, cs_y_q8 = 256, cs_scale_q16 = 0x4000\<rparr>"

theorem ordinary_record_witness:
  "\<exists>bin fine. 18 \<le> bin \<and> bin < (36 :: nat) \<and> \<bar>fine - 512 * int bin\<bar> \<le> 256
     \<and> take 2 (drop 6 (ra_records (gx_feature_append_orientations [] (uniform_map 200) middle_candidate no_records
           (uniform_map 1000) (uniform_map 0) 2 0) ! 0)) = bytes16 (refined_angle fine)
     \<and> ra_count (gx_feature_append_orientations [] (uniform_map 200) middle_candidate no_records
           (uniform_map 1000) (uniform_map 0) 2 0) = 1"
proof -
  have "angles_ok (uniform_map 0) (uniform_map 1000)" "(0 :: nat) \<noteq> 9" "(0 :: nat) \<noteq> 18" "int (ra_count no_records) < 2"
    by (simp_all add: angles_ok_def uniform_map_def no_records_def GX_ANGLE_LIMIT_def list_all_iff)
  from ordinary_record [OF this, of middle_candidate "[]" "uniform_map 200"]
  obtain maximum bin fine where r: "18 \<le> bin" "bin < 36" "\<bar>fine - 512 * int bin\<bar> \<le> 256"
    "gx_feature_append_orientations [] (uniform_map 200) middle_candidate no_records (uniform_map 1000) (uniform_map 0) 2 0
       = append_record middle_candidate (center_sum (uniform_map 200) middle_candidate (fm_width (uniform_map 1000 :: int gx_feature_map_descriptor)) > 0x27f)
           (refined_angle fine) maximum maximum no_records"
    by blast
  have "take 2 (drop 6 (ra_records (append_record c b a m k no_records) ! 0)) = bytes16 a
      \<and> ra_count (append_record c b a m k no_records) = 1" for c b a m k
    by (simp add: append_record_def no_records_def Let_def write_record_def mem_write_def bytes16_def numeral_2_eq_2)
  then show ?thesis using r(1-3) unfolding r(4) by blast
qed

end
