(* ===== verification/Detector.thy ===== *)
theory Detector
  imports Orientation
begin

text \<open>
  The scan that finds the feature records of a picture (\<open>src/gx_feature_detector.c\<close>): every level and pixel is tested,
  refined, and appended unless its pixel was visited before; candidates whose refinement fails are kept aside
  and appended at the end when too few were found. The count of \<open>record_arrays\<close> is the code's \<open>record_count\<close>.
\<close>

section \<open>The scan\<close>

definition GX_FEATURE_DETECTOR_MAX_FALLBACK :: nat where "GX_FEATURE_DETECTOR_MAX_FALLBACK = 600"
definition GX_PROFILE_MULTI_LEVEL :: u32 where "GX_PROFILE_MULTI_LEVEL = 0x07a20c80"
definition GX_PROFILE_REVERSE_LEVEL_SCAN :: u32 where "GX_PROFILE_REVERSE_LEVEL_SCAN = 0x07220c00"
definition GX_PROFILE_NO_FALLBACK_STORE :: u32 where "GX_PROFILE_NO_FALLBACK_STORE = 0x00a00a80"
definition GX_PROFILE_SKIP_FALLBACK_PHASE :: u32 where "GX_PROFILE_SKIP_FALLBACK_PHASE = 0x00a40a80"
definition GX_PROFILE_FALLBACK_METRICS :: u32 where "GX_PROFILE_FALLBACK_METRICS = 0x07020400"
definition GX_FALLBACK_SCALE_MULTIPLIER :: u64 where "GX_FALLBACK_SCALE_MULTIPLIER = 0x00013333"

record gx_feature_detector_parameters =
  metric_34 :: int
  metric_38 :: int

definition validate_descriptors ::
    "u8 gx_feature_map_descriptor \<Rightarrow> gx_feature_u16_map list \<Rightarrow> int gx_feature_map_descriptor \<Rightarrow>
     int gx_feature_map_descriptor \<Rightarrow> int \<Rightarrow> bool" where
  "validate_descriptors gray levels magnitude orientation max_records \<longleftrightarrow>
     \<not> (fm_width gray \<le> 0 \<or> fm_height gray \<le> 0 \<or> length levels < 6 \<or> max_records \<le> 0
        \<or> fm_width magnitude \<noteq> fm_width gray \<or> fm_height magnitude \<noteq> fm_height gray
        \<or> fm_width orientation \<noteq> fm_width gray \<or> fm_height orientation \<noteq> fm_height gray)
     \<and> list_all (\<lambda>l. lm_width l = fm_width gray \<and> lm_height l = fm_height gray) levels"

text \<open>The picture of the detector with what does not change during a scan.\<close>

record detector_input =
  di_gray :: "u8 gx_feature_map_descriptor"
  di_levels :: "gx_feature_u16_map list"
  di_magnitude :: "int gx_feature_map_descriptor"
  di_orientation :: "int gx_feature_map_descriptor"
  di_edge_threshold :: int
  di_max_records :: int
  di_profile :: nat
  di_stack :: "u32 list"

record detector_state =
  det_arrays :: record_arrays
  det_visited :: "u8 list"
  det_fallback :: "gx_feature_candidate_state list"
  det_stop :: bool

definition append_candidate :: "detector_input \<Rightarrow> gx_feature_candidate_state \<Rightarrow> record_arrays \<Rightarrow> record_arrays" where
  "append_candidate inp candidate arrays =
     gx_feature_append_orientations (di_stack inp) (di_gray inp) candidate arrays (di_magnitude inp) (di_orientation inp)
       (di_max_records inp) (di_profile inp)"

definition candidate_pixel :: "detector_input \<Rightarrow> gx_feature_candidate_state \<Rightarrow> nat" where
  "candidate_pixel inp candidate = nat (cs_y candidate * fm_width (di_gray inp) + cs_x candidate)"

definition visit_candidate :: "detector_input \<Rightarrow> gx_feature_candidate_state \<Rightarrow> detector_state \<Rightarrow> detector_state" where
  "visit_candidate inp candidate st =
     (let pixel_index = candidate_pixel inp candidate
      in if det_visited st ! pixel_index = 0
         then st\<lparr>det_arrays := append_candidate inp candidate (det_arrays st),
                 det_visited := (det_visited st)[pixel_index := 1]\<rparr>
         else st)"

definition fallback_candidate :: "int \<Rightarrow> int \<Rightarrow> int \<Rightarrow> int \<Rightarrow> int \<Rightarrow> gx_feature_candidate_state" where
  "fallback_candidate scale_levels x y level response =
     (let scale = gx_feature_scale_exp_q16 (trunc_div (level * 0x10000) scale_levels)
      in \<lparr>cs_x = x, cs_y = y, cs_level = level, cs_response = response, cs_x_q8 = i16 (x * 0x100), cs_y_q8 = i16 (y * 0x100),
          cs_scale_q16 = sint (ucast (drop_bit 16 (ucast scale * GX_FALLBACK_SCALE_MULTIPLIER)) :: u32)\<rparr>)"

text \<open>A pixel of a level; after a stop nothing more happens.\<close>

definition scan_pixel :: "detector_input \<Rightarrow> int \<Rightarrow> detector_state \<Rightarrow> int \<times> int \<times> int \<Rightarrow> detector_state" where
  "scan_pixel inp scale_levels st position =
     (let (level, y, x) = position; profile = di_profile inp
      in if det_stop st then st
         else
           let (gate, gate_result) = gx_feature_candidate_extremum_gate (di_levels inp) x y level 0x148;
               gate_response = (case gate_result of None \<Rightarrow> 0 | Some r \<Rightarrow> r)
           in if gate \<noteq> 1 then st
              else
                let candidate = \<lparr>cs_x = x, cs_y = y, cs_level = level, cs_response = gate_response, cs_x_q8 = 0, cs_y_q8 = 0, cs_scale_q16 = 0\<rparr>;
                    (refined, candidate, _) = gx_feature_candidate_refine (di_levels inp) candidate (di_edge_threshold inp) profile
                in if refined = 0
                   then if (profile > 23 \<or> \<not> profile_in_set profile GX_PROFILE_NO_FALLBACK_STORE)
                           \<and> length (det_fallback st) < GX_FEATURE_DETECTOR_MAX_FALLBACK
                        then st\<lparr>det_fallback := det_fallback st @ [fallback_candidate scale_levels x y level gate_response]\<rparr> else st
                   else if refined = 1 \<and> det_visited st ! candidate_pixel inp candidate = 0
                   then let st = visit_candidate inp candidate st
                        in if int (ra_count (det_arrays st)) \<ge> di_max_records inp then st\<lparr>det_stop := True\<rparr> else st
                   else st)"

definition detector_levels :: "nat \<Rightarrow> int \<Rightarrow> int list" where
  "detector_levels profile scale_levels =
     (if profile > 26 \<or> \<not> profile_in_set profile GX_PROFILE_REVERSE_LEVEL_SCAN then [1..scale_levels] else rev [1..scale_levels])"

definition scan_positions :: "detector_input \<Rightarrow> int \<Rightarrow> (int \<times> int \<times> int) list" where
  "scan_positions inp scale_levels =
     List.product (detector_levels (di_profile inp) scale_levels)
       (List.product [6..fm_height (di_gray inp) - 7] [6..fm_width (di_gray inp) - 7])"

section \<open>The fallback phase\<close>

definition fallback_allowed :: "detector_input \<Rightarrow> gx_feature_detector_parameters option \<Rightarrow> nat \<Rightarrow> bool" where
  "fallback_allowed inp parameters count =
     (let gray = di_gray inp;
          geometry_and_capacity_ok = \<not> (fm_width gray * 2 \<le> fm_height gray * 5 \<or> count > 0x77)
      in if profile_in_set (di_profile inp) GX_PROFILE_FALLBACK_METRICS
         then let m34 = (case parameters of None \<Rightarrow> 0 | Some p \<Rightarrow> metric_34 p);
                  m38 = (case parameters of None \<Rightarrow> 0 | Some p \<Rightarrow> metric_38 p)
              in \<not> (count > 0x3b \<or> m34 < 0x51 \<or> m38 < 0x51)
         else geometry_and_capacity_ok)"

definition fallback_step :: "detector_input \<Rightarrow> detector_state \<Rightarrow> gx_feature_candidate_state \<Rightarrow> detector_state" where
  "fallback_step inp st candidate =
     (if ra_count (det_arrays st) > 0x77 then st else visit_candidate inp candidate st)"

definition fallback_phase :: "detector_input \<Rightarrow> gx_feature_detector_parameters option \<Rightarrow> detector_state \<Rightarrow> detector_state" where
  "fallback_phase inp parameters st =
     (if \<not> det_stop st \<and> (di_profile inp > 23 \<or> \<not> profile_in_set (di_profile inp) GX_PROFILE_SKIP_FALLBACK_PHASE)
         \<and> fallback_allowed inp parameters (ra_count (det_arrays st))
      then foldl (fallback_step inp) st (det_fallback st) else st)"

definition gx_feature_detect_candidates ::
    "detector_input \<Rightarrow> gx_feature_detector_parameters option \<Rightarrow> record_arrays \<Rightarrow> u8 list \<Rightarrow> int \<times> record_arrays \<times> u8 list" where
  "gx_feature_detect_candidates inp parameters arrays visited =
     (let profile = di_profile inp;
          scale_levels = (if profile = 9 \<or> profile = 18 \<or> profile_in_set profile GX_PROFILE_MULTI_LEVEL then 6 else 3)
      in if \<not> validate_descriptors (di_gray inp) (di_levels inp) (di_magnitude inp) (di_orientation inp) (di_max_records inp)
            \<or> di_edge_threshold inp < 0 then (- 1, arrays, visited)
         else if nat (scale_levels + 2) \<ge> length (di_levels inp) then (- 1, arrays, visited)
         else
           let st = \<lparr>det_arrays = arrays\<lparr>ra_count := 0\<rparr>, det_visited = visited, det_fallback = [], det_stop = False\<rparr>;
               st = foldl (scan_pixel inp scale_levels) st (scan_positions inp scale_levels);
               st = fallback_phase inp parameters st
           in (0, det_arrays st, det_visited st))"

section \<open>No pixel is recorded twice\<close>

definition inside :: "detector_input \<Rightarrow> int \<Rightarrow> int \<Rightarrow> bool" where
  "inside inp x y \<longleftrightarrow> 0 < x \<and> x < fm_width (di_gray inp) - 1 \<and> 0 < y \<and> y < fm_height (di_gray inp) - 1"

text \<open>The pixel of a record, from its metadata.\<close>

definition recorded_pixel :: "detector_input \<Rightarrow> int list \<Rightarrow> nat" where
  "recorded_pixel inp m = nat (m ! 1 * fm_width (di_gray inp) + m ! 0)"

definition recorded_pixels :: "detector_input \<Rightarrow> record_arrays \<Rightarrow> nat list" where
  "recorded_pixels inp arrays = map (recorded_pixel inp) (take (ra_count arrays) (ra_metadata arrays))"

lemma refined_inside:
  assumes "gx_feature_candidate_refine levels c e profile = (1, c', curvature)"
  shows "nat (cs_level c') < length levels \<and> 1 \<le> cs_x c' \<and> cs_x c' < lm_width (levels ! nat (cs_level c')) - 1
    \<and> 1 \<le> cs_y c' \<and> cs_y c' < lm_height (levels ! nat (cs_level c')) - 1"
proof -
  have "refine_loop levels e profile 0 (cs_x c, cs_y c, cs_level c) c = (1, c', curvature)"
    using assms by (simp add: gx_feature_candidate_refine_def split: if_splits)
  from refine_loop_stops [OF this] obtain x y level hs gs response c0
    where sample: "gx_feature_candidate_sample_derivatives levels x y level = Inr (hs, gs, response)"
      and settle: "settle_candidate c0 e profile (x, y, level) hs gs response (gx_feature_candidate_solve_q12 hs gs) = (1, c', curvature)"
    by blast
  have "validate_level_maps levels level x y" using sample_bounds [OF sample] by blast
  then have v: "1 \<le> level" "nat (level + 2) < length levels" "1 \<le> x" "x < lm_width (levels ! nat level) - 1"
    "1 \<le> y" "y < lm_height (levels ! nat level) - 1"
    by (simp_all add: validate_level_maps_def Let_def not_le)
  moreover have "cs_x c' = x \<and> cs_y c' = y \<and> cs_level c' = level" using settled [OF settle] by blast
  moreover have "nat level < length levels" using v(1,2) by linarith
  ultimately show ?thesis by simp
qed

lemma refined_inside_picture:
  assumes "validate_descriptors (di_gray inp) (di_levels inp) magnitude orientation max_records"
    and "gx_feature_candidate_refine (di_levels inp) c e profile = (1, c', curvature)"
  shows "inside inp (cs_x c') (cs_y c')"
  using assms(1) refined_inside [OF assms(2)] by (auto simp: validate_descriptors_def inside_def list_all_length)

lemma append_full:
  assumes "di_profile inp \<noteq> 9" "di_profile inp \<noteq> 18" and "di_max_records inp \<le> int (ra_count arrays)"
  shows "append_candidate inp candidate arrays = arrays"
  using assms
  by (simp add: append_candidate_def gx_feature_append_orientations_def Let_def append_ordinary split: prod.split del: upt_Suc append_loop.simps)

lemma append_room:
  assumes "di_profile inp \<noteq> 9" "di_profile inp \<noteq> 18" "angles_ok (di_orientation inp) (di_magnitude inp)"
    and "int (ra_count arrays) < di_max_records inp"
  shows "\<exists>bright angle strength. append_candidate inp candidate arrays = append_record candidate bright angle strength strength arrays"
  using assms ordinary_append [of "di_orientation inp" "di_magnitude inp" "di_profile inp" arrays "di_max_records inp" candidate "di_stack inp" "di_gray inp"]
  by (fastforce simp: append_candidate_def)

lemma append_record_fields:
  "ra_count (append_record c bright angle m k arrays) = Suc (ra_count arrays)"
  "\<exists>r. ra_records (append_record c bright angle m k arrays) = (ra_records arrays)[ra_count arrays := r]"
  "\<exists>v. ra_rank_pairs (append_record c bright angle m k arrays) = (ra_rank_pairs arrays)[ra_count arrays := (v, int (ra_count arrays))]"
  "\<exists>rest. ra_metadata (append_record c bright angle m k arrays) = (ra_metadata arrays)[ra_count arrays := cs_x c # cs_y c # rest]"
  by (auto simp: append_record_def Let_def)

text \<open>What holds of the arrays and the visited pixels at any moment of a run that started with \<open>before\<close> and \<open>visited0\<close>.\<close>

definition records_ok :: "detector_input \<Rightarrow> record_arrays \<Rightarrow> u8 list \<Rightarrow> record_arrays \<Rightarrow> u8 list \<Rightarrow> bool" where
  "records_ok inp before visited0 arrays visited \<longleftrightarrow>
     int (ra_count arrays) \<le> di_max_records inp
     \<and> drop (ra_count arrays) (ra_records arrays) = drop (ra_count arrays) (ra_records before)
     \<and> drop (ra_count arrays) (ra_rank_pairs arrays) = drop (ra_count arrays) (ra_rank_pairs before)
     \<and> drop (ra_count arrays) (ra_metadata arrays) = drop (ra_count arrays) (ra_metadata before)
     \<and> length (ra_records arrays) = length (ra_records before) \<and> length (ra_rank_pairs arrays) = length (ra_rank_pairs before)
     \<and> length (ra_metadata arrays) = length (ra_metadata before) \<and> length visited = length visited0
     \<and> map snd (take (ra_count arrays) (ra_rank_pairs arrays)) = map int [0..<ra_count arrays]
     \<and> list_all (\<lambda>m. inside inp (m ! 0) (m ! 1)) (take (ra_count arrays) (ra_metadata arrays))
     \<and> distinct (recorded_pixels inp arrays)
     \<and> list_all (\<lambda>p. visited ! p \<noteq> 0 \<and> visited0 ! p = 0) (recorded_pixels inp arrays)
     \<and> list_all (\<lambda>p. visited0 ! p \<noteq> 0 \<longrightarrow> visited ! p = visited0 ! p) [0..<length visited0]
     \<and> (int (ra_count arrays) < di_max_records inp \<longrightarrow>
          list_all (\<lambda>p. visited ! p = visited0 ! p \<or> p \<in> set (recorded_pixels inp arrays)) [0..<length visited0])"

text \<open>The buffers are as large as their users require.\<close>

definition buffers_fit :: "detector_input \<Rightarrow> record_arrays \<Rightarrow> u8 list \<Rightarrow> bool" where
  "buffers_fit inp arrays visited \<longleftrightarrow>
     di_max_records inp \<le> int (length (ra_records arrays)) \<and> di_max_records inp \<le> int (length (ra_rank_pairs arrays))
     \<and> di_max_records inp \<le> int (length (ra_metadata arrays))
     \<and> fm_width (di_gray inp) * fm_height (di_gray inp) \<le> int (length visited)"

lemma pixel_in_buffer:
  assumes "inside inp x y" and "buffers_fit inp arrays visited"
  shows "nat (y * fm_width (di_gray inp) + x) < length visited"
proof -
  have "y * fm_width (di_gray inp) + x < (y + 1) * fm_width (di_gray inp)" using assms(1) by (simp add: inside_def algebra_simps)
  also have "\<dots> \<le> fm_height (di_gray inp) * fm_width (di_gray inp)" using assms(1) by (intro mult_right_mono) (auto simp: inside_def)
  finally have "y * fm_width (di_gray inp) + x < int (length visited)" using assms(2) by (simp add: buffers_fit_def mult.commute)
  moreover have "0 \<le> y * fm_width (di_gray inp)" using assms(1) by (simp add: inside_def)
  ultimately show ?thesis using assms(1) by (simp add: nat_less_iff inside_def)
qed

lemma take_Suc_update: "n < length xs \<Longrightarrow> take (Suc n) (xs[n := v]) = take n xs @ [v]"
  by (simp add: take_Suc_conv_app_nth)

lemma recorded_appended:
  "ra_metadata arrays' = (ra_metadata arrays)[ra_count arrays := m] \<Longrightarrow> ra_count arrays' = Suc (ra_count arrays) \<Longrightarrow>
   ra_count arrays < length (ra_metadata arrays) \<Longrightarrow>
   recorded_pixels inp arrays' = recorded_pixels inp arrays @ [recorded_pixel inp m]"
  by (simp add: recorded_pixels_def take_Suc_update)

lemma drop_Suc_update: "drop n xs = drop n ys \<Longrightarrow> drop (Suc n) (xs[n := v]) = drop (Suc n) ys"
  by (simp add: drop_Suc tl_drop) (metis drop_Suc drop_update_cancel lessI tl_drop)

lemma mark_keeps_ok:
  assumes ok: "records_ok inp before visited0 arrays visited" and full: "di_max_records inp \<le> int (ra_count arrays)"
    and new: "visited ! p = 0" "p < length visited"
  shows "records_ok inp before visited0 arrays (visited[p := 1])"
proof -
  have "list_all (\<lambda>q. visited[p := 1] ! q \<noteq> 0 \<and> visited0 ! q = 0) (recorded_pixels inp arrays)"
    using ok new by (auto simp: records_ok_def list_all_iff nth_list_update)
  moreover have "list_all (\<lambda>q. visited0 ! q \<noteq> 0 \<longrightarrow> visited[p := 1] ! q = visited0 ! q) [0..<length visited0]"
    using ok new by (auto simp: records_ok_def list_all_iff nth_list_update)
  ultimately show ?thesis using ok full by (simp add: records_ok_def)
qed

lemma append_keeps_ok:
  assumes ok: "records_ok inp before visited0 arrays visited" and room: "int (ra_count arrays) < di_max_records inp"
    and fit: "buffers_fit inp before visited0" and ins: "inside inp (cs_x c) (cs_y c)"
    and new: "visited ! candidate_pixel inp c = 0"
  shows "records_ok inp before visited0 (append_record c bright angle m k arrays) (visited[candidate_pixel inp c := 1])"
proof -
  define n p arrays' where "n = ra_count arrays" and "p = candidate_pixel inp c" and "arrays' = append_record c bright angle m k arrays"
  obtain r v rest where f: "ra_count arrays' = Suc n" "ra_records arrays' = (ra_records arrays)[n := r]"
    "ra_rank_pairs arrays' = (ra_rank_pairs arrays)[n := (v, int n)]" "ra_metadata arrays' = (ra_metadata arrays)[n := cs_x c # cs_y c # rest]"
    using append_record_fields [of c bright angle m k arrays] unfolding n_def arrays'_def by blast
  have n: "n < length (ra_records arrays)" "n < length (ra_rank_pairs arrays)" "n < length (ra_metadata arrays)"
    using fit room ok by (auto simp: buffers_fit_def records_ok_def n_def)
  have p: "p < length visited" using pixel_in_buffer [OF ins fit] ok by (simp add: records_ok_def p_def candidate_pixel_def)
  have pixels: "recorded_pixels inp arrays' = recorded_pixels inp arrays @ [p]"
    using recorded_appended [OF f(4) [unfolded n_def] f(1) [unfolded n_def]] n(3)
    by (simp add: n_def recorded_pixel_def p_def candidate_pixel_def)
  have old: "p \<notin> set (recorded_pixels inp arrays)" using ok new by (auto simp: records_ok_def list_all_iff p_def)
  have drops: "drop (Suc n) (ra_records arrays') = drop (Suc n) (ra_records before)"
    "drop (Suc n) (ra_rank_pairs arrays') = drop (Suc n) (ra_rank_pairs before)"
    "drop (Suc n) (ra_metadata arrays') = drop (Suc n) (ra_metadata before)"
    unfolding f using ok by (intro drop_Suc_update; simp add: records_ok_def n_def)+
  have takes: "map snd (take (Suc n) (ra_rank_pairs arrays')) = map int [0..<Suc n]"
    "list_all (\<lambda>m. inside inp (m ! 0) (m ! 1)) (take (Suc n) (ra_metadata arrays'))"
    unfolding f using ok ins n by (simp_all add: take_Suc_update records_ok_def n_def)
  have "distinct (recorded_pixels inp arrays')" using ok old by (simp add: pixels records_ok_def)
  moreover have "visited0 ! p = 0" using ok new p by (auto simp: records_ok_def list_all_iff p_def)
  then have "list_all (\<lambda>q. visited[p := 1] ! q \<noteq> 0 \<and> visited0 ! q = 0) (recorded_pixels inp arrays')"
    using ok p by (auto simp: pixels records_ok_def list_all_iff nth_list_update)
  moreover have "list_all (\<lambda>q. visited0 ! q \<noteq> 0 \<longrightarrow> visited[p := 1] ! q = visited0 ! q) [0..<length visited0]"
    using ok new p by (auto simp: records_ok_def list_all_iff nth_list_update p_def)
  moreover have "list_all (\<lambda>q. visited[p := 1] ! q = visited0 ! q \<or> q \<in> set (recorded_pixels inp arrays')) [0..<length visited0]"
    using ok room p by (auto simp: pixels records_ok_def list_all_iff nth_list_update)
  ultimately show ?thesis
    using ok room drops takes unfolding arrays'_def [symmetric] p_def [symmetric]
    by (simp add: records_ok_def f(1) del: upt_Suc) (simp add: f n_def)
qed

lemma visit_ok:
  assumes valid: "validate_descriptors (di_gray inp) (di_levels inp) (di_magnitude inp) (di_orientation inp) max_records"
    and profile: "di_profile inp \<noteq> 9" "di_profile inp \<noteq> 18" "angles_ok (di_orientation inp) (di_magnitude inp)" and fit: "buffers_fit inp before visited0"
    and ok: "records_ok inp before visited0 (det_arrays st) (det_visited st)" and ins: "inside inp (cs_x c) (cs_y c)"
  shows "records_ok inp before visited0 (det_arrays (visit_candidate inp c st)) (det_visited (visit_candidate inp c st))"
proof (cases "det_visited st ! candidate_pixel inp c = 0")
  case new: True
  have p: "candidate_pixel inp c < length (det_visited st)"
    using pixel_in_buffer [OF ins fit] ok by (simp add: records_ok_def candidate_pixel_def)
  show ?thesis
  proof (cases "int (ra_count (det_arrays st)) < di_max_records inp")
    case True
    from append_room [OF profile True, of c] show ?thesis
      using append_keeps_ok [OF ok True fit ins new] new by (auto simp: visit_candidate_def Let_def)
  next
    case False
    then show ?thesis
      using append_full [OF profile(1,2), of "det_arrays st" c] mark_keeps_ok [OF ok _ new p] new by (simp add: visit_candidate_def Let_def)
  qed
qed (use ok in \<open>simp add: visit_candidate_def Let_def\<close>)

text \<open>The same for the state of the scan, with the candidates that are kept aside.\<close>

definition scan_ok :: "detector_input \<Rightarrow> record_arrays \<Rightarrow> u8 list \<Rightarrow> detector_state \<Rightarrow> bool" where
  "scan_ok inp before visited0 st \<longleftrightarrow> records_ok inp before visited0 (det_arrays st) (det_visited st)
     \<and> list_all (\<lambda>c. inside inp (cs_x c) (cs_y c)) (det_fallback st)"

lemma visit_fallback [simp]: "det_fallback (visit_candidate inp c st) = det_fallback st"
  by (simp add: visit_candidate_def Let_def)

lemma scan_pixel_ok:
  assumes valid: "validate_descriptors (di_gray inp) (di_levels inp) (di_magnitude inp) (di_orientation inp) max_records"
    and profile: "di_profile inp \<noteq> 9" "di_profile inp \<noteq> 18" "angles_ok (di_orientation inp) (di_magnitude inp)" and fit: "buffers_fit inp before visited0"
    and ok: "scan_ok inp before visited0 st" and ins: "inside inp x y"
  shows "scan_ok inp before visited0 (scan_pixel inp scale_levels st (level, y, x))"
proof -
  obtain gate result where gate: "gx_feature_candidate_extremum_gate (di_levels inp) x y level 0x148 = (gate, result)"
    by (rule prod.exhaust)
  define response where "response = (case result of None \<Rightarrow> 0 | Some r \<Rightarrow> r)"
  obtain refined c curvature where refine: "gx_feature_candidate_refine (di_levels inp) \<lparr>cs_x = x, cs_y = y, cs_level = level,
      cs_response = response, cs_x_q8 = 0, cs_y_q8 = 0, cs_scale_q16 = 0\<rparr> (di_edge_threshold inp) (di_profile inp) = (refined, c, curvature)"
    by (rule prod_cases3)
  have visit: "scan_ok inp before visited0 (visit_candidate inp c st)" if "refined = 1"
    using visit_ok [OF valid profile fit, of st c] refined_inside_picture [OF valid refine [unfolded that]] ok by (simp add: scan_ok_def)
  have aside: "inside inp (cs_x (fallback_candidate scale_levels x y level r)) (cs_y (fallback_candidate scale_levels x y level r))" for r
    using ins by (simp add: fallback_candidate_def Let_def)
  show ?thesis
    using ok visit aside unfolding scan_pixel_def Let_def prod.case gate response_def [symmetric] refine
    by (auto simp: scan_ok_def split: if_splits)
qed

lemma positions_inside:
  "(level, y, x) \<in> set (scan_positions inp scale_levels) \<Longrightarrow> inside inp x y"
  by (auto simp: scan_positions_def inside_def)

lemma foldl_keeps_all: "P s \<Longrightarrow> (\<And>s x. P s \<Longrightarrow> x \<in> set xs \<Longrightarrow> P (f s x)) \<Longrightarrow> P (foldl f s xs)"
  by (induction xs arbitrary: s) auto

lemma fallback_ok:
  assumes valid: "validate_descriptors (di_gray inp) (di_levels inp) (di_magnitude inp) (di_orientation inp) max_records"
    and profile: "di_profile inp \<noteq> 9" "di_profile inp \<noteq> 18" "angles_ok (di_orientation inp) (di_magnitude inp)" and fit: "buffers_fit inp before visited0"
    and ok: "scan_ok inp before visited0 st"
  shows "scan_ok inp before visited0 (fallback_phase inp parameters st)"
proof -
  have "scan_ok inp before visited0 (foldl (fallback_step inp) st (det_fallback st))"
  proof (rule foldl_keeps_all)
    show "scan_ok inp before visited0 st" by (rule ok)
    fix s c assume s: "scan_ok inp before visited0 s" and "c \<in> set (det_fallback st)"
    then have "inside inp (cs_x c) (cs_y c)" using ok by (simp add: scan_ok_def list_all_iff)
    then show "scan_ok inp before visited0 (fallback_step inp s c)"
      using s visit_ok [OF valid profile fit, of s c] by (simp add: fallback_step_def scan_ok_def)
  qed
  then show ?thesis using ok by (simp add: fallback_phase_def)
qed

section \<open>No accepted candidate is lost\<close>

text \<open>What the extremum test and the refinement say of a position: 1 with the candidate, 0 for one to keep aside.\<close>

definition found_at :: "detector_input \<Rightarrow> int \<times> int \<times> int \<Rightarrow> int \<times> gx_feature_candidate_state" where
  "found_at inp position =
     (let (level, y, x) = position;
          (gate, result) = gx_feature_candidate_extremum_gate (di_levels inp) x y level 0x148;
          (refined, candidate, _) = gx_feature_candidate_refine (di_levels inp)
            \<lparr>cs_x = x, cs_y = y, cs_level = level, cs_response = (case result of None \<Rightarrow> 0 | Some r \<Rightarrow> r),
             cs_x_q8 = 0, cs_y_q8 = 0, cs_scale_q16 = 0\<rparr> (di_edge_threshold inp) (di_profile inp)
      in (if gate = 1 then refined else - 1, candidate))"

definition accepted_pixels :: "detector_input \<Rightarrow> (int \<times> int \<times> int) list \<Rightarrow> nat list" where
  "accepted_pixels inp positions =
     map (\<lambda>p. candidate_pixel inp (snd (found_at inp p))) (filter (\<lambda>p. fst (found_at inp p) = 1) positions)"

definition failed_pixels :: "detector_input \<Rightarrow> (int \<times> int \<times> int) list \<Rightarrow> nat list" where
  "failed_pixels inp positions =
     map (\<lambda>(level, y, x). nat (y * fm_width (di_gray inp) + x)) (filter (\<lambda>p. fst (found_at inp p) = 0) positions)"

lemma scan_pixel_found:
  "scan_pixel inp scale_levels st p =
     (let (status, c) = found_at inp p
      in if det_stop st then st
         else if status = 0
         then if (di_profile inp > 23 \<or> \<not> profile_in_set (di_profile inp) GX_PROFILE_NO_FALLBACK_STORE)
                 \<and> length (det_fallback st) < GX_FEATURE_DETECTOR_MAX_FALLBACK
              then (let (level, y, x) = p; (_, result) = gx_feature_candidate_extremum_gate (di_levels inp) x y level 0x148
                    in st\<lparr>det_fallback := det_fallback st @ [fallback_candidate scale_levels x y level (case result of None \<Rightarrow> 0 | Some r \<Rightarrow> r)]\<rparr>)
              else st
         else if status = 1 \<and> det_visited st ! candidate_pixel inp c = 0
         then (let st = visit_candidate inp c st
               in if int (ra_count (det_arrays st)) \<ge> di_max_records inp then st\<lparr>det_stop := True\<rparr> else st)
         else st)"
  by (simp add: scan_pixel_def found_at_def Let_def split: prod.split)

lemma fallback_pixel: "candidate_pixel inp (fallback_candidate scale_levels x y level r) = nat (y * fm_width (di_gray inp) + x)"
  by (simp add: candidate_pixel_def fallback_candidate_def Let_def)

lemma visit_marks: "q < length (det_visited st) \<Longrightarrow> det_visited st ! q \<noteq> 0 \<Longrightarrow> det_visited (visit_candidate inp c st) ! q \<noteq> 0"
  by (cases "candidate_pixel inp c = q") (auto simp: visit_candidate_def Let_def)

lemma visit_marked:
  "candidate_pixel inp c < length (det_visited st) \<Longrightarrow> det_visited (visit_candidate inp c st) ! candidate_pixel inp c \<noteq> 0"
  by (auto simp: visit_candidate_def Let_def)

lemma visit_length: "length (det_visited (visit_candidate inp c st)) = length (det_visited st)"
  by (simp add: visit_candidate_def Let_def)

lemma visit_stop: "det_stop (visit_candidate inp c st) = det_stop st"
  by (simp add: visit_candidate_def Let_def)

lemma scan_marks: "q < length (det_visited st) \<Longrightarrow> det_visited st ! q \<noteq> 0 \<Longrightarrow> det_visited (scan_pixel inp scale_levels st p) ! q \<noteq> 0"
  by (auto simp: scan_pixel_found Let_def visit_marks split: prod.split)

lemma scan_length: "length (det_visited (scan_pixel inp scale_levels st p)) = length (det_visited st)"
  by (simp add: scan_pixel_found Let_def visit_length split: prod.split)

lemma scan_marked:
  assumes "\<not> det_stop st" and "fst (found_at inp p) = 1" and "candidate_pixel inp (snd (found_at inp p)) < length (det_visited st)"
  shows "det_visited (scan_pixel inp scale_levels st p) ! candidate_pixel inp (snd (found_at inp p)) \<noteq> 0"
  using assms visit_marked by (auto simp: scan_pixel_found Let_def split: prod.split)

lemma scan_stopped: "det_stop st \<Longrightarrow> scan_pixel inp scale_levels st p = st"
  by (simp add: scan_pixel_found Let_def split: prod.split)

lemma scan_full:
  "(det_stop st \<longrightarrow> di_max_records inp \<le> int (ra_count (det_arrays st))) \<Longrightarrow>
   det_stop (scan_pixel inp scale_levels st p) \<longrightarrow> di_max_records inp \<le> int (ra_count (det_arrays (scan_pixel inp scale_levels st p)))"
  by (auto simp: scan_pixel_found Let_def visit_stop split: prod.split)

lemma scan_visits:
  assumes "\<not> det_stop (foldl (scan_pixel inp scale_levels) st ps)"
    and "\<And>p. p \<in> set ps \<Longrightarrow> fst (found_at inp p) = 1 \<Longrightarrow> candidate_pixel inp (snd (found_at inp p)) < length (det_visited st)"
  shows "list_all (\<lambda>q. det_visited (foldl (scan_pixel inp scale_levels) st ps) ! q \<noteq> 0) (accepted_pixels inp ps)"
  using assms
proof (induction ps rule: rev_induct)
  case (snoc p ps)
  let ?s = "foldl (scan_pixel inp scale_levels) st ps"
  have go: "\<not> det_stop ?s" using snoc.prems(1) scan_stopped by fastforce
  have len: "length (det_visited ?s) = length (det_visited st)"
    by (induction ps rule: rev_induct) (simp_all add: scan_length)
  have "list_all (\<lambda>q. det_visited ?s ! q \<noteq> 0) (accepted_pixels inp ps)" using snoc go by auto
  moreover have "fst (found_at inp p) = 1 \<longrightarrow>
      det_visited (scan_pixel inp scale_levels ?s p) ! candidate_pixel inp (snd (found_at inp p)) \<noteq> 0"
    using scan_marked [OF go] snoc.prems(2) [of p] len by auto
  ultimately show ?case using scan_marks [of _ ?s] snoc.prems(2) len by (auto simp: accepted_pixels_def list_all_iff)
qed (simp add: accepted_pixels_def)

lemma visit_recorded:
  assumes "di_profile inp \<noteq> 9" "di_profile inp \<noteq> 18" "angles_ok (di_orientation inp) (di_magnitude inp)"
    and ok: "records_ok inp before visited0 (det_arrays st) (det_visited st)" and fit: "buffers_fit inp before visited0"
  shows "set (recorded_pixels inp (det_arrays (visit_candidate inp c st))) \<subseteq> insert (candidate_pixel inp c) (set (recorded_pixels inp (det_arrays st)))"
proof (cases "int (ra_count (det_arrays st)) < di_max_records inp")
  case True
  obtain bright angle m where a: "append_candidate inp c (det_arrays st) = append_record c bright angle m m (det_arrays st)"
    using append_room [OF assms(1-3) True] by blast
  obtain rest where "ra_metadata (append_record c bright angle m m (det_arrays st))
      = (ra_metadata (det_arrays st))[ra_count (det_arrays st) := cs_x c # cs_y c # rest]"
    using append_record_fields(4) by blast
  moreover have "ra_count (det_arrays st) < length (ra_metadata (det_arrays st))"
    using True ok fit by (auto simp: records_ok_def buffers_fit_def)
  ultimately have "recorded_pixels inp (append_record c bright angle m m (det_arrays st))
      = recorded_pixels inp (det_arrays st) @ [recorded_pixel inp (cs_x c # cs_y c # rest)]"
    by (intro recorded_appended) (simp_all add: append_record_fields)
  then show ?thesis by (auto simp: visit_candidate_def Let_def a recorded_pixel_def candidate_pixel_def)
next
  case False
  then show ?thesis using append_full [OF assms(1,2), of "det_arrays st" c] by (auto simp: visit_candidate_def Let_def)
qed

text \<open>Where the records of a state come from, and what its fallback candidates are.\<close>

definition sources_ok :: "detector_input \<Rightarrow> (int \<times> int \<times> int) list \<Rightarrow> detector_state \<Rightarrow> bool" where
  "sources_ok inp ps st \<longleftrightarrow>
     set (recorded_pixels inp (det_arrays st)) \<subseteq> set (accepted_pixels inp ps) \<union> set (failed_pixels inp ps)
     \<and> list_all (\<lambda>c. candidate_pixel inp c \<in> set (failed_pixels inp ps)) (det_fallback st)"

lemma scan_sources:
  assumes profile: "di_profile inp \<noteq> 9" "di_profile inp \<noteq> 18" "angles_ok (di_orientation inp) (di_magnitude inp)"
    and fit: "buffers_fit inp before visited0"
    and ok: "records_ok inp before visited0 (det_arrays st) (det_visited st)" and src: "sources_ok inp ps st" and p: "p \<in> set ps"
  shows "sources_ok inp ps (scan_pixel inp scale_levels st p)"
proof -
  obtain status c where f: "found_at inp p = (status, c)" by (rule prod.exhaust)
  obtain level y x where pos: "p = (level, y, x)" by (rule prod_cases3)
  have "sources_ok inp ps (visit_candidate inp c st)" if "status = 1"
  proof -
    have "candidate_pixel inp c \<in> set (accepted_pixels inp ps)" using p f that by (force simp: accepted_pixels_def)
    then show ?thesis using visit_recorded [OF profile ok fit, of c] src by (auto simp: sources_ok_def)
  qed
  moreover have "nat (y * fm_width (di_gray inp) + x) \<in> set (failed_pixels inp ps)" if "status = 0"
    using p f that pos by (force simp: failed_pixels_def)
  ultimately show ?thesis using src
    unfolding scan_pixel_found f by (auto simp: Let_def sources_ok_def fallback_pixel pos split: prod.split)
qed

lemma fallback_sources:
  assumes valid: "validate_descriptors (di_gray inp) (di_levels inp) (di_magnitude inp) (di_orientation inp) max_records"
    and profile: "di_profile inp \<noteq> 9" "di_profile inp \<noteq> 18" "angles_ok (di_orientation inp) (di_magnitude inp)"
    and fit: "buffers_fit inp before visited0" and ok: "scan_ok inp before visited0 st" and src: "sources_ok inp ps st"
  shows "sources_ok inp ps (fallback_phase inp parameters st)"
proof -
  have "scan_ok inp before visited0 (foldl (fallback_step inp) st (det_fallback st))
      \<and> sources_ok inp ps (foldl (fallback_step inp) st (det_fallback st))"
  proof (rule foldl_keeps_all)
    show "scan_ok inp before visited0 st \<and> sources_ok inp ps st" using ok src ..
    fix s c assume s: "scan_ok inp before visited0 s \<and> sources_ok inp ps s" and c: "c \<in> set (det_fallback st)"
    then have "inside inp (cs_x c) (cs_y c)" "candidate_pixel inp c \<in> set (failed_pixels inp ps)"
      using ok src by (simp_all add: scan_ok_def sources_ok_def list_all_iff)
    then show "scan_ok inp before visited0 (fallback_step inp s c) \<and> sources_ok inp ps (fallback_step inp s c)"
      using s visit_ok [OF valid profile fit, of s c] visit_recorded [OF profile _ fit, of s c]
      by (auto simp: fallback_step_def scan_ok_def sources_ok_def)
  qed
  then show ?thesis using src by (simp add: fallback_phase_def)
qed

lemma fallback_marks: "q < length (det_visited st) \<Longrightarrow> det_visited st ! q \<noteq> 0 \<Longrightarrow> det_visited (fallback_phase inp parameters st) ! q \<noteq> 0"
proof -
  assume q: "q < length (det_visited st)" "det_visited st ! q \<noteq> 0"
  have "length (det_visited (foldl (fallback_step inp) st cs)) = length (det_visited st)
      \<and> det_visited (foldl (fallback_step inp) st cs) ! q \<noteq> 0" for cs
    by (induction cs rule: rev_induct) (use q in \<open>auto simp: fallback_step_def visit_marks visit_length\<close>)
  then show ?thesis using q by (simp add: fallback_phase_def)
qed

lemma records_ok_start:
  "0 < di_max_records inp \<Longrightarrow> records_ok inp arrays visited (arrays\<lparr>ra_count := 0\<rparr>) visited"
  by (simp add: records_ok_def recorded_pixels_def list_all_iff)

lemma found_inside:
  assumes "validate_descriptors (di_gray inp) (di_levels inp) magnitude orientation max_records" and "fst (found_at inp p) = 1"
  shows "inside inp (cs_x (snd (found_at inp p))) (cs_y (snd (found_at inp p)))"
  using assms(2) refined_inside_picture [OF assms(1)] by (auto simp: found_at_def Let_def split: prod.splits if_splits)

definition scanned_levels :: "nat \<Rightarrow> int" where
  "scanned_levels profile = (if profile = 9 \<or> profile = 18 \<or> profile_in_set profile GX_PROFILE_MULTI_LEVEL then 6 else 3)"

lemma detected:
  assumes run: "gx_feature_detect_candidates inp parameters arrays visited = (0, arrays', visited')"
    and profile: "di_profile inp \<noteq> 9" "di_profile inp \<noteq> 18" "angles_ok (di_orientation inp) (di_magnitude inp)"
    and fit: "buffers_fit inp arrays visited"
  defines "ps \<equiv> scan_positions inp (scanned_levels (di_profile inp))"
  shows "records_ok inp arrays visited arrays' visited'
    \<and> set (recorded_pixels inp arrays') \<subseteq> set (accepted_pixels inp ps) \<union> set (failed_pixels inp ps)
    \<and> (int (ra_count arrays') < di_max_records inp \<longrightarrow> list_all (\<lambda>q. q < length visited \<and> visited' ! q \<noteq> 0) (accepted_pixels inp ps))"
proof -
  define scale_levels where "scale_levels = scanned_levels (di_profile inp)"
  define st0 where "st0 = \<lparr>det_arrays = arrays\<lparr>ra_count := 0\<rparr>, det_visited = visited, det_fallback = [], det_stop = False\<rparr>"
  define st where "st = foldl (scan_pixel inp scale_levels) st0 ps"
  have valid: "validate_descriptors (di_gray inp) (di_levels inp) (di_magnitude inp) (di_orientation inp) (di_max_records inp)"
    and results: "arrays' = det_arrays (fallback_phase inp parameters st)" "visited' = det_visited (fallback_phase inp parameters st)"
    using run unfolding gx_feature_detect_candidates_def Let_def scanned_levels_def [symmetric] st_def st0_def scale_levels_def ps_def
    by (auto split: if_splits)
  have start: "scan_ok inp arrays visited st0" "sources_ok inp ps st0"
    using records_ok_start valid by (simp_all add: st0_def scan_ok_def validate_descriptors_def sources_ok_def recorded_pixels_def)
  have "scan_ok inp arrays visited st \<and> sources_ok inp ps st
      \<and> (det_stop st \<longrightarrow> di_max_records inp \<le> int (ra_count (det_arrays st)))"
    unfolding st_def
  proof (rule foldl_keeps_all)
    show "scan_ok inp arrays visited st0 \<and> sources_ok inp ps st0 \<and> (det_stop st0 \<longrightarrow> di_max_records inp \<le> int (ra_count (det_arrays st0)))"
      using start by (simp add: st0_def)
    fix s p assume s: "scan_ok inp arrays visited s \<and> sources_ok inp ps s \<and> (det_stop s \<longrightarrow> di_max_records inp \<le> int (ra_count (det_arrays s)))"
      and p: "p \<in> set ps"
    have "scan_ok inp arrays visited (scan_pixel inp scale_levels s p)"
      using s p scan_pixel_ok [OF valid profile fit] positions_inside by (cases p) (auto simp: ps_def)
    moreover have "sources_ok inp ps (scan_pixel inp scale_levels s p)"
      using s p scan_sources [OF profile fit] by (auto simp: scan_ok_def)
    ultimately show "scan_ok inp arrays visited (scan_pixel inp scale_levels s p) \<and> sources_ok inp ps (scan_pixel inp scale_levels s p)
        \<and> (det_stop (scan_pixel inp scale_levels s p) \<longrightarrow> di_max_records inp \<le> int (ra_count (det_arrays (scan_pixel inp scale_levels s p))))"
      using scan_full s by blast
  qed
  then have st: "scan_ok inp arrays visited st" "sources_ok inp ps st" "det_stop st \<Longrightarrow> di_max_records inp \<le> int (ra_count (det_arrays st))"
    by blast+
  have pixel: "candidate_pixel inp (snd (found_at inp p)) < length visited" if "fst (found_at inp p) = 1" for p
    using pixel_in_buffer [OF found_inside [OF valid that] fit] by (simp add: candidate_pixel_def)
  have "list_all (\<lambda>q. q < length visited \<and> visited' ! q \<noteq> 0) (accepted_pixels inp ps)" if n: "int (ra_count arrays') < di_max_records inp"
  proof -
    have "\<not> det_stop st" using st(3) n by (auto simp: results(1) fallback_phase_def)
    then have "list_all (\<lambda>q. det_visited st ! q \<noteq> 0) (accepted_pixels inp ps)"
      using scan_visits [of inp scale_levels st0 ps] pixel by (simp add: st_def st0_def)
    moreover have "length (det_visited st) = length visited" using st(1) by (simp add: scan_ok_def records_ok_def)
    ultimately show ?thesis using fallback_marks pixel by (auto simp: list_all_iff results(2) accepted_pixels_def)
  qed
  moreover have "sources_ok inp ps (fallback_phase inp parameters st)" by (rule fallback_sources [OF valid profile fit st(1,2)])
  moreover have "records_ok inp arrays visited arrays' visited'"
    using fallback_ok [OF valid profile fit st(1)] by (simp add: results scan_ok_def)
  ultimately show ?thesis by (simp add: sources_ok_def results(1))
qed

text \<open>
  C39: the records of a scan. For an ordinary profile, angles in range and buffers of the required size, the scan
  writes at most the allowed number of records and nothing behind them, no two for the same pixel; their pixels
  are inside the picture, not visited before and marked as visited, and the rank entries name them in order.
  Every recorded pixel is that of a candidate the extremum test and the refinement accepted at a scanned
  position, or a position whose refinement failed (kept for the fallback phase). As long as there is room no
  accepted candidate is lost: its pixel is marked, and recorded unless it was visited before the scan; and no
  other pixel is marked without its record.
\<close>

theorem pixels_recorded_once:
  assumes "gx_feature_detect_candidates inp parameters arrays visited = (0, arrays', visited')"
    and "di_profile inp \<noteq> 9" "di_profile inp \<noteq> 18" and "angles_ok (di_orientation inp) (di_magnitude inp)"
    and "buffers_fit inp arrays visited"
  defines "n \<equiv> ra_count arrays'" and "positions \<equiv> scan_positions inp (scanned_levels (di_profile inp))"
    and "recorded \<equiv> recorded_pixels inp arrays'"
  shows "int n \<le> di_max_records inp
    \<and> drop n (ra_records arrays') = drop n (ra_records arrays) \<and> drop n (ra_rank_pairs arrays') = drop n (ra_rank_pairs arrays)
    \<and> drop n (ra_metadata arrays') = drop n (ra_metadata arrays)
    \<and> distinct recorded
    \<and> list_all (\<lambda>m. inside inp (m ! 0) (m ! 1)) (take n (ra_metadata arrays'))
    \<and> map snd (take n (ra_rank_pairs arrays')) = map int [0..<n]
    \<and> list_all (\<lambda>p. visited' ! p \<noteq> 0 \<and> visited ! p = 0) recorded
    \<and> set recorded \<subseteq> set (accepted_pixels inp positions) \<union> set (failed_pixels inp positions)
    \<and> (int n < di_max_records inp \<longrightarrow>
         list_all (\<lambda>p. visited' ! p \<noteq> 0 \<and> (visited ! p = 0 \<longrightarrow> p \<in> set recorded)) (accepted_pixels inp positions)
         \<and> list_all (\<lambda>p. visited' ! p = visited ! p \<or> p \<in> set recorded) [0..<length visited])"
proof -
  note d = detected [OF assms(1-5)]
  have kept: "list_all (\<lambda>p. visited' ! p = visited ! p \<or> p \<in> set recorded) [0..<length visited]" if "int n < di_max_records inp"
    using d that by (simp add: records_ok_def n_def recorded_def)
  have "list_all (\<lambda>p. visited' ! p \<noteq> 0 \<and> (visited ! p = 0 \<longrightarrow> p \<in> set recorded)) (accepted_pixels inp positions)"
    if "int n < di_max_records inp"
    unfolding list_all_iff
  proof
    fix q assume q: "q \<in> set (accepted_pixels inp positions)"
    then have "q < length visited" "visited' ! q \<noteq> 0" using d that by (simp_all add: n_def positions_def list_all_iff)
    moreover from this(1) have "visited' ! q = visited ! q \<or> q \<in> set recorded" using kept [OF that] by (simp add: list_all_iff)
    ultimately show "visited' ! q \<noteq> 0 \<and> (visited ! q = 0 \<longrightarrow> q \<in> set recorded)" by auto
  qed
  then show ?thesis using d kept unfolding n_def records_ok_def recorded_def positions_def by blast
qed

definition peak_input :: detector_input where
  "peak_input = \<lparr>di_gray = \<lparr>fm_width = 13, fm_height = 13, fm_pixels = replicate 169 200\<rparr>,
     di_levels = map (\<lambda>(border, center). \<lparr>lm_width = 13, lm_height = 13, lm_pixels = (replicate 169 border)[84 := center]\<rparr>)
       [(0, 0), (2000, 2000), (4000, 5000), (6000, 7000), (8500, 9000), (10500, 11000)],
     di_magnitude = \<lparr>fm_width = 13, fm_height = 13, fm_pixels = replicate 169 1000\<rparr>,
     di_orientation = \<lparr>fm_width = 13, fm_height = 13, fm_pixels = replicate 169 0\<rparr>,
     di_edge_threshold = 10, di_max_records = 2, di_profile = 0, di_stack = []\<rparr>"

lemma peak_gates:
  "gx_feature_candidate_extremum_gate (di_levels peak_input) 6 6 1 0x148 = (1, Some 3000)"
  "fst (gx_feature_candidate_extremum_gate (di_levels peak_input) 6 6 2 0x148) = 0"
  "fst (gx_feature_candidate_extremum_gate (di_levels peak_input) 6 6 3 0x148) = 0"
  "map_prod id (\<lambda>(c, _). (cs_x c, cs_y c)) (gx_feature_candidate_refine (di_levels peak_input)
     \<lparr>cs_x = 6, cs_y = 6, cs_level = 1, cs_response = 3000, cs_x_q8 = 0, cs_y_q8 = 0, cs_scale_q16 = 0\<rparr> 10 0) = (1, 6, 6)"
  by code_simp+

lemma peak_setting:
  "scan_positions peak_input 3 = [(1, 6, 6), (2, 6, 6), (3, 6, 6)]"
  "profile_in_set 0 GX_PROFILE_MULTI_LEVEL = False" "fallback_allowed peak_input None 1 = False"
  "validate_descriptors (di_gray peak_input) (di_levels peak_input) (di_magnitude peak_input) (di_orientation peak_input) 2"
  "length (di_levels peak_input) = 6"
  by code_simp+

lemma peak_angles: "angles_ok (di_orientation peak_input) (di_magnitude peak_input)"
  by (simp add: peak_input_def angles_ok_def GX_ANGLE_LIMIT_def list_all_iff)

lemma peak_run:
  "\<exists>arrays' visited'. gx_feature_detect_candidates peak_input None no_records (replicate 169 0) = (0, arrays', visited')
     \<and> recorded_pixels peak_input arrays' = [84]"
proof -
  let ?c = "\<lparr>cs_x = 6, cs_y = 6, cs_level = 1, cs_response = 3000, cs_x_q8 = 0, cs_y_q8 = 0, cs_scale_q16 = 0\<rparr>"
  have f: "di_edge_threshold peak_input = 10" "di_max_records peak_input = 2" "di_profile peak_input = 0"
    "fm_width (di_gray peak_input) = 13" "fm_height (di_gray peak_input) = 13"
    by (simp_all add: peak_input_def)
  obtain r c curvature where refine: "gx_feature_candidate_refine (di_levels peak_input) ?c 10 0 = (r, c, curvature)" by (rule prod_cases3)
  have c: "r = 1" "cs_x c = 6" "cs_y c = 6" using peak_gates(4) by (simp_all add: refine)
  have start: "no_records\<lparr>ra_count := 0\<rparr> = no_records" "ra_count no_records = 0" "length (ra_metadata no_records) = 2"
    by (simp_all add: no_records_def)
  obtain b a m where append: "append_candidate peak_input c no_records = append_record c b a m m no_records"
    using append_room [OF _ _ peak_angles, of no_records c] f start by auto
  define arrays where "arrays = append_record c b a m m no_records"
  define st where "st = \<lparr>det_arrays = arrays, det_visited = (replicate 169 0)[84 := 1], det_fallback = [], det_stop = False\<rparr>"
  have count: "ra_count arrays = 1" by (simp add: arrays_def append_record_fields start)
  have pixel: "candidate_pixel peak_input c = 84" by (simp add: candidate_pixel_def c f)
  have "scan_pixel peak_input 3 \<lparr>det_arrays = no_records, det_visited = replicate 169 0, det_fallback = [], det_stop = False\<rparr> (1, 6, 6) = st"
    unfolding scan_pixel_def Let_def prod.case peak_gates(1) f option.case
    by (simp add: refine [unfolded c(1)] pixel visit_candidate_def append arrays_def [symmetric] count st_def)
  moreover have "scan_pixel peak_input 3 st (level, 6, 6) = st" if "level = 2 \<or> level = 3" for level
    using that peak_gates(2,3) by (auto simp: scan_pixel_def Let_def split: prod.split)
  moreover have "fallback_phase peak_input None st = st"
    using peak_setting(3) count by (simp add: fallback_phase_def st_def)
  ultimately have "gx_feature_detect_candidates peak_input None no_records (replicate 169 0) = (0, arrays, (replicate 169 0)[84 := 1])"
    using peak_setting by (simp add: gx_feature_detect_candidates_def Let_def f start) (simp add: st_def)
  moreover obtain rest where "ra_metadata arrays = (ra_metadata no_records)[ra_count no_records := cs_x c # cs_y c # rest]"
    using append_record_fields(4) arrays_def by blast
  then have "recorded_pixels peak_input arrays = [84]"
    using recorded_appended [of arrays no_records] count start by (simp add: recorded_pixels_def [of _ no_records] recorded_pixel_def c f)
  ultimately show ?thesis by blast
qed

theorem pixels_recorded_once_witness:
  "\<exists>arrays' visited'. gx_feature_detect_candidates peak_input None no_records (replicate 169 0) = (0, arrays', visited')
     \<and> recorded_pixels peak_input arrays' = [84] \<and> visited' ! 84 \<noteq> 0 \<and> int (ra_count arrays') \<le> 2
     \<and> 84 \<in> set (accepted_pixels peak_input (scan_positions peak_input 3)) \<union> set (failed_pixels peak_input (scan_positions peak_input 3))"
proof -
  obtain arrays' visited' where run: "gx_feature_detect_candidates peak_input None no_records (replicate 169 0) = (0, arrays', visited')"
      "recorded_pixels peak_input arrays' = [84]"
    using peak_run by blast
  have "di_profile peak_input \<noteq> 9" "di_profile peak_input \<noteq> 18" "di_max_records peak_input = 2"
    "buffers_fit peak_input no_records (replicate 169 0)"
    by (simp_all add: peak_input_def no_records_def buffers_fit_def)
  moreover have "scanned_levels (di_profile peak_input) = 3" by (simp add: scanned_levels_def peak_setting(2) peak_input_def)
  ultimately show ?thesis using pixels_recorded_once [OF run(1) _ _ peak_angles] run by simp
qed

end
