(* ===== verification/Spec2Isabelle.thy ===== *)
theory Spec2Isabelle
  imports Tls Capture Peer Template Matcher Opening Compact Postprocess Lifecycle Regions Root Detector
begin

text \<open>
  Verification development for the Linux driver of the Goodix 27c6:5125 (ChicagoHS) fingerprint sensor.

  The program. \<open>src/gx_usb.c\<close> opens the sensor with libusb and moves 64-byte blocks;
  \<open>src/gx_transport.c\<close> and \<open>src/gx_protocol.c\<close> put a command into an inner message and that into an
  outer frame; \<open>src/gx_session.c\<close> runs a receiver thread that cuts frames out of the byte stream and files
  acknowledgements, responses and TLS bytes for the caller; \<open>src/gx_tls.c\<close> is the TLS-PSK server the
  sensor connects to, with the key of \<open>src/gx_secret.c\<close>; \<open>src/gx_capture.c\<close> asks for an image and
  reassembles it from the decrypted stream; \<open>src/gx_sensor.c\<close> reads the OTP block, builds the
  configuration block and decodes the packed image; \<open>src/gx_device.c\<close> ties all of it to the life cycle of
  a device. On the picture side, the \<open>gx_feature_*.c\<close> files turn a picture into 72-byte feature records,
  \<open>src/gx_enrollment.c\<close> collects samples into a template and stores it, and \<open>src/gx_matcher.c\<close> scores a
  probe against an enrollment.

  Theories and the code they model.
  \<^item> \<open>Prelude\<close>: the integer types (\<open>u8\<close> to \<open>u64\<close> are words), error codes, C buffers with an address that may
    be null, byte-order helpers, and the lemmas on lists and words all theories share.
  \<^item> \<open>Environment\<close>: the calls the program makes to the outside (libusb, allocator, threads) as a datatype; an
    \<open>environment\<close> answers a call from the whole history of calls, so every interaction is a history.
  \<^item> \<open>Framing\<close>, \<open>Usb\<close>, \<open>Transport\<close>, \<open>Protocol\<close>: \<open>gx_usb.c\<close>, \<open>gx_transport.c\<close>, \<open>gx_protocol.c\<close>.
  \<^item> \<open>Sensor_Data\<close>, \<open>Sensor\<close>: \<open>gx_sensor_data.c\<close>, \<open>gx_sensor.c\<close>.
  \<^item> \<open>Fifo\<close>, \<open>Session\<close>, \<open>Command\<close>: the byte queue, the stream parser and dispatcher, and the commands,
    waits and start/stop of \<open>gx_session.c\<close>.
  \<^item> \<open>Secret\<close>, \<open>Tls\<close>: \<open>gx_secret.c\<close>, \<open>gx_tls.c\<close>.
  \<^item> \<open>Capture\<close>, \<open>Channel\<close>: \<open>gx_capture.c\<close>, the image request and the parser of the decrypted stream in the
    first, the capture loops, which call the reader of \<open>Tls\<close>, in the second.
  \<^item> \<open>Device\<close>: \<open>gx_device.c\<close>, with the invariant of its reachable states.
  \<^item> \<open>Peer\<close>: no code of its own, but the other end of the TLS channel: how flights and records reach the
    read BIO through bus, receiver and queue, and what a cooperative OpenSSL and TLS client do.
  \<^item> \<open>Opening\<close>: the run of \<open>gx_device.c\<close> with a cooperative sensor, and its self test.
  \<^item> \<open>Enrollment\<close>, \<open>Template\<close>: \<open>gx_enrollment.c\<close>.
  \<^item> \<open>Primitives\<close>, \<open>Descriptor\<close>, \<open>Ranking\<close>, \<open>Matcher\<close>: \<open>gx_feature_primitives.c\<close>, \<open>gx_feature_record.c\<close> and
    \<open>gx_matcher.c\<close>.
  \<^item> \<open>Images\<close>: pictures as lists in row order, scans that fill a table left to right, border reflection, summed-area
    tables (a locale) and bits in byte arrays, for all the theories below.
  \<^item> \<open>Lifecycle\<close>: \<open>gx_feature_descriptor_lifecycle.c\<close> and \<open>gx_feature_object.c\<close>.
  \<^item> \<open>Filters\<close>, \<open>Response\<close>: \<open>gx_feature_filter.c\<close>, \<open>gx_feature_pyramid.c\<close> with the callbacks of
    \<open>gx_extractor.c\<close>, and \<open>gx_feature_response.c\<close>.
  \<^item> \<open>Candidate\<close>, \<open>Orientation\<close>, \<open>Detector\<close>: \<open>gx_feature_candidate.c\<close> and \<open>gx_feature_refine.c\<close> (extremum test and
    sub-pixel refinement), \<open>gx_feature_orientation.c\<close> (orientation histogram, appending of records) and
    \<open>gx_feature_detector.c\<close> (the scan that calls them).
  \<^item> \<open>Quality\<close>, \<open>Regions\<close>: \<open>gx_feature_quality_map.c\<close>, \<open>gx_feature_quality_post.c\<close> and
    \<open>gx_feature_global_postprocess.c\<close>.
  \<^item> \<open>Ridge\<close>, \<open>Root\<close>: \<open>gx_feature_root.c\<close> (optional picture, ridge mask, packed maps, parameters).
  \<^item> \<open>Postprocess\<close>, \<open>Compact\<close>: \<open>gx_feature_postprocess.c\<close> and \<open>gx_feature_compact.c\<close>.

  Conventions. A struct is a record, an enum a datatype, a fixed-width integer a word. A function that
  returns a negative libusb code returns \<open>usb_error + unit\<close>. An array is the list of its elements; a
  pointer that may be null is an option or a \<open>cbuf\<close>. What the code reads from outside is an input of
  the definitions: clock readings and the stores of other threads come as lists of ticks, one per
  iteration, and what the receiver does while a caller waits as a wait plan; so each loop ends when its
  inputs end, and the theorems quantify over all inputs. Libusb and the allocator are the
  environment, OpenSSL an arbitrary engine (\<open>ssl_engine\<close>). What is open or held outside (libusb context
  and handle, interfaces, kernel drivers, TLS objects, threads, heap blocks) is counted from the history. A
  theorem that needs OpenSSL to do its work says so by hypotheses: \<open>records_plaintext\<close> (what a read returns is
  plaintext the engine has decrypted), \<open>openssl_accepts\<close> and \<open>openssl_reads\<close> (the engine asks for more data until
  the peer's flights and records have been fed to it, then completes the handshake or returns the plaintext).

  What the lemmas show. The codecs (frames, messages, configuration, image, template) have round trips
  and exact acceptance conditions, as instances of the codec locales of \<open>Framing\<close>. The receiver has an
  invariant (buffer bounds, table well-formedness) kept by every step, and is independent of how the
  stream is cut. The resources of USB, threads, TLS objects and heap blocks are balanced over every
  history. Commands are answered freshly (safety) and, by a device that answers, at once (liveness). The
  device theories compose these: an invariant of all reachable device states, the outcomes of open (the first
  check that fails, in the order of the stages) and of capture (a checked frame of the decrypted plaintext or zero
  pixels), and the end-to-end statement that the picture sent is the picture returned, when its TLS records arrive in
  frames on the bus and OpenSSL decrypts them. The enrollment
  keeps exact statistics; templates round-trip; the matcher's arithmetic stays in range, its rankings
  keep the best elements, and a view matches itself.
  On the picture side the pattern is the same throughout: the code computes with wrapping words and tables, and a
  lemma says that the result is that of a direct definition over the integers (filters and pyramid, record quality
  and neighbourhood, votes, ridge directions, ridge mask, sub-pixel offsets, extremum test), with the bounds that
  exclude a wrap; an invariant of the detector's scan says that no pixel is recorded twice and no accepted candidate
  lost; the heap
  blocks of every such function are balanced for an allocator that may fail at any call, except where a
  theorem states the loss of a block.

  Bounds. Counters of attempts and requests are naturals; the code's 32-bit counters agree below
  \<open>2 ^ 32 - 1\<close> attempts. The only fuel is the list of inputs described above. The picture-side theorems name
  their limits: 16-bit derivatives, levels of at most 128 by 128 pixels, maps of at most \<open>2 ^ 23\<close> pixels, angles up
  to 13940 (the code indexes its histogram with a negative bin above that); the pictures of this sensor are far smaller.
  Heap properties count blocks; which block a \<open>free\<close> releases is not part of a history.

  Not modelled. Guards against null for pointers that no caller passes as null have no counterpart.
  Delays (\<open>sleep_ms\<close>), log and error texts of TLS, terminal input of the key, floating-point
  statistics (mean and standard deviation) and OpenSSL's own self test are left out. The self tests in the
  feature files, which only drive modelled operations on fixed inputs, are left out but for the one of the
  descriptors. Not modelled as files: the floating-point preprocessing (\<open>gx_preprocess.c\<close>), the
  auxiliary metadata (\<open>gx_feature_aux_metadata.c\<close>), descriptor sampling and assembly, and the
  functions that run them in order (\<open>gx_pipeline.c\<close> and the main function of \<open>gx_extractor.c\<close>), the
  driver for libfprint and the command line tools.
\<close>

end
